(* ===== verification/Aufs_Prelude.thy ===== *)
theory Aufs_Prelude
  imports Main "HOL-Library.Word" "HOL-Library.Monad_Syntax"
begin

text \<open>
  Shared vocabulary of the development.

  A kernel function that can touch memory outside an object is a function into \<open>option\<close>:
  \<open>None\<close> is undefined behaviour (an array read or write out of bounds, a failed \<open>BUG_ON\<close>),
  \<open>Some r\<close> is a run that returns \<open>r\<close>. A kernel error is an \<open>int\<close> below zero inside \<open>r\<close>,
  as in the source. A pointer that may be NULL is itself an \<open>option\<close>.

  Memory allocation is an explicit oracle: the list of the answers that the successive
  allocation calls get. \<open>None\<close> in the list is a failed call; an exhausted list also fails,
  so that no theorem gets memory for free.
\<close>

named_theorems array_simps
named_theorems errno_defs

type_synonym u8 = "8 word"
type_synonym u16 = "16 word"
type_synonym u32 = "32 word"
type_synonym u64 = "64 word"
type_synonym bindex = int

section \<open>Kernel configuration\<close>

text \<open>
  The \<open>CONFIG_*\<close> switches the modelled code tests. \<open>cfg_fs\<close> tells for the name of a
  \<open>CONFIG_*_FS\<close> symbol whether it (or its \<open>_MODULE\<close> form) is defined.
\<close>

record kconfig =
  cfg_fhsm :: bool
  cfg_xattr :: bool
  cfg_hnotify :: bool
  cfg_shwh :: bool
  cfg_proc_fs :: bool
  cfg_br_ramfs :: bool
  cfg_fs :: "string \<Rightarrow> bool"

definition kconfig_of :: "bool \<Rightarrow> bool \<Rightarrow> kconfig" where
  "kconfig_of fhsm xattr =
     \<lparr>cfg_fhsm = fhsm, cfg_xattr = xattr, cfg_hnotify = True, cfg_shwh = True,
      cfg_proc_fs = True, cfg_br_ramfs = False, cfg_fs = (\<lambda>_. True)\<rparr>"

section \<open>Error numbers\<close>

abbreviation (input) EPERM :: int where "EPERM \<equiv> 1"
abbreviation (input) ENOENT :: int where "ENOENT \<equiv> 2"
abbreviation (input) EINTR :: int where "EINTR \<equiv> 4"
abbreviation (input) EIO :: int where "EIO \<equiv> 5"
abbreviation (input) E2BIG :: int where "E2BIG \<equiv> 7"
abbreviation (input) EAGAIN :: int where "EAGAIN \<equiv> 11"
abbreviation (input) ENOMEM :: int where "ENOMEM \<equiv> 12"
abbreviation (input) EACCES :: int where "EACCES \<equiv> 13"
abbreviation (input) EFAULT :: int where "EFAULT \<equiv> 14"
abbreviation (input) EBUSY :: int where "EBUSY \<equiv> 16"
abbreviation (input) EEXIST :: int where "EEXIST \<equiv> 17"
abbreviation (input) ENOTDIR :: int where "ENOTDIR \<equiv> 20"
abbreviation (input) EISDIR :: int where "EISDIR \<equiv> 21"
abbreviation (input) EINVAL :: int where "EINVAL \<equiv> 22"
abbreviation (input) EFBIG :: int where "EFBIG \<equiv> 27"
abbreviation (input) ENOSPC :: int where "ENOSPC \<equiv> 28"
abbreviation (input) EROFS :: int where "EROFS \<equiv> 30"
abbreviation (input) EMLINK :: int where "EMLINK \<equiv> 31"
abbreviation (input) EDOM :: int where "EDOM \<equiv> 33"
abbreviation (input) ERANGE :: int where "ERANGE \<equiv> 34"
abbreviation (input) ENAMETOOLONG :: int where "ENAMETOOLONG \<equiv> 36"
abbreviation (input) ENOSYS :: int where "ENOSYS \<equiv> 38"
abbreviation (input) ENOTEMPTY :: int where "ENOTEMPTY \<equiv> 39"
abbreviation (input) ESTALE :: int where "ESTALE \<equiv> 116"

section \<open>The prefix of whiteouts\<close>

text \<open>The bytes of \<open>.wh.\<close>.\<close>

definition AUFS_WH_PFX :: "u8 list" where "AUFS_WH_PFX = [46, 119, 104, 46]"

lemma wh_pfx_length [simp]: "length AUFS_WH_PFX = 4"
  by (simp add: AUFS_WH_PFX_def)

section \<open>Allocation oracle\<close>

type_synonym mem_oracle = "bool list"

fun take_alloc :: "mem_oracle \<Rightarrow> bool \<times> mem_oracle" where
  "take_alloc [] = (False, [])"
| "take_alloc (b # bs) = (b, bs)"

lemma take_alloc_drop: "take_alloc mem = (b, mem') \<Longrightarrow> mem' = drop 1 mem"
  by (cases mem) auto

lemma take_alloc_ok: "take_alloc mem = (b, mem') \<Longrightarrow> list_all id mem \<Longrightarrow> mem \<noteq> [] \<Longrightarrow> b"
  by (cases mem) auto

text \<open>The kernel macro on jiffies, which wrap.\<close>

definition time_after :: "u32 \<Rightarrow> u32 \<Rightarrow> bool" where
  "time_after a b = (sint (b - a) < 0)"

section \<open>Arrays\<close>

text \<open>Checked read, checked write and \<open>memmove\<close> inside one array, in elements.\<close>

definition arr_get :: "'a list \<Rightarrow> int \<Rightarrow> 'a option" where
  "arr_get xs i = (if 0 \<le> i \<and> i < int (length xs) then Some (xs ! nat i) else None)"

definition arr_set :: "'a list \<Rightarrow> int \<Rightarrow> 'a \<Rightarrow> 'a list option" where
  "arr_set xs i x = (if 0 \<le> i \<and> i < int (length xs) then Some (xs[nat i := x]) else None)"

definition arr_move :: "'a list \<Rightarrow> int \<Rightarrow> int \<Rightarrow> int \<Rightarrow> 'a list option" where
  "arr_move xs dst src n =
     (if 0 \<le> dst \<and> 0 \<le> src \<and> 0 \<le> n
         \<and> dst + n \<le> int (length xs) \<and> src + n \<le> int (length xs)
      then Some (take (nat dst) xs @ take (nat n) (drop (nat src) xs) @ drop (nat (dst + n)) xs)
      else None)"

lemma arr_get_Some [array_simps]:
  "arr_get xs i = Some x \<longleftrightarrow> 0 \<le> i \<and> i < int (length xs) \<and> x = xs ! nat i"
  by (auto simp: arr_get_def)

lemma arr_get_None [array_simps]:
  "arr_get xs i = None \<longleftrightarrow> \<not> (0 \<le> i \<and> i < int (length xs))"
  by (auto simp: arr_get_def)

lemma arr_set_Some [array_simps]:
  "arr_set xs i x = Some ys \<longleftrightarrow> 0 \<le> i \<and> i < int (length xs) \<and> ys = xs[nat i := x]"
  by (auto simp: arr_set_def)

lemma arr_get_set_same: "arr_set xs i x = Some ys \<Longrightarrow> arr_get ys i = Some x"
  by (auto simp: arr_set_def arr_get_def split: if_splits)

lemma arr_get_set_other: "arr_set xs i x = Some ys \<Longrightarrow> j \<noteq> i \<Longrightarrow> arr_get ys j = arr_get xs j"
  by (auto simp: arr_set_def arr_get_def split: if_splits)

lemma arr_move_length: "arr_move xs dst src n = Some ys \<Longrightarrow> length ys = length xs"
  by (auto simp: arr_move_def split: if_splits)

lemma arr_move_set: "arr_move xs dst src n = Some ys \<Longrightarrow> set ys \<subseteq> set xs"
proof -
  assume "arr_move xs dst src n = Some ys"
  then have "ys = take (nat dst) xs @ take (nat n) (drop (nat src) xs) @ drop (nat (dst + n)) xs"
    by (simp add: arr_move_def split: if_splits)
  moreover have "set (take (nat n) (drop (nat src) xs)) \<subseteq> set xs"
    using set_take_subset set_drop_subset order_trans by metis
  ultimately show "set ys \<subseteq> set xs"
    using set_take_subset [of "nat dst" xs] set_drop_subset [of "nat (dst + n)" xs] by simp
qed

text \<open>
  \<open>au_kzrealloc\<close> of \<open>module.c\<close>, in elements: a larger array gets its first \<open>nused\<close>
  elements and zeroes behind them; the result NULL (\<open>Some None\<close>) leaves the old block.
\<close>

definition au_kzrealloc ::
    "'a list \<Rightarrow> int \<Rightarrow> int \<Rightarrow> 'a \<Rightarrow> bool \<Rightarrow> 'a list option option" where
  "au_kzrealloc p nused new_sz zero alloc_ok =
     (if new_sz \<le> nused then Some (Some p)
      else if \<not> alloc_ok then Some None
      else if 0 \<le> nused \<and> nused \<le> int (length p)
      then Some (Some (take (nat nused) p @ replicate (nat (new_sz - nused)) zero))
      else None)"

section \<open>Loops over branch indices\<close>

text \<open>
  The searches \<open>for (b = i; b <= e; b++) if (P b) ...\<close> and their downward form. The test
  may itself fault.
\<close>

function first_up :: "(int \<Rightarrow> bool option) \<Rightarrow> int \<Rightarrow> int \<Rightarrow> int option option" where
  "first_up P i e =
     (if e < i then Some None
      else case P i of None \<Rightarrow> None
           | Some True \<Rightarrow> Some (Some i)
           | Some False \<Rightarrow> first_up P (i + 1) e)"
  by pat_completeness auto
termination by (relation "measure (\<lambda>(P, i, e). nat (e + 1 - i))") auto

function first_down :: "(int \<Rightarrow> bool option) \<Rightarrow> int \<Rightarrow> int \<Rightarrow> int option option" where
  "first_down P i s =
     (if i < s then Some None
      else case P i of None \<Rightarrow> None
           | Some True \<Rightarrow> Some (Some i)
           | Some False \<Rightarrow> first_down P (i - 1) s)"
  by pat_completeness auto
termination by (relation "measure (\<lambda>(P, i, s). nat (i + 1 - s))") auto

text \<open>A loop that threads a state through the indices \<open>i..e\<close>.\<close>

function loop_up :: "(int \<Rightarrow> 's \<Rightarrow> 's option) \<Rightarrow> int \<Rightarrow> int \<Rightarrow> 's \<Rightarrow> 's option" where
  "loop_up f i e s =
     (if e < i then Some s
      else case f i s of None \<Rightarrow> None | Some s' \<Rightarrow> loop_up f (i + 1) e s')"
  by pat_completeness auto
termination by (relation "measure (\<lambda>(f, i, e, s). nat (e + 1 - i))") auto

declare first_up.simps [simp del] first_down.simps [simp del] loop_up.simps [simp del]

lemma first_up_step:
  "e < i \<Longrightarrow> first_up P i e = Some None"
  "i \<le> e \<Longrightarrow> P i = Some True \<Longrightarrow> first_up P i e = Some (Some i)"
  "i \<le> e \<Longrightarrow> P i = Some False \<Longrightarrow> first_up P i e = first_up P (i + 1) e"
  by (simp_all add: first_up.simps [of P i e])

lemma first_down_step:
  "i < s \<Longrightarrow> first_down P i s = Some None"
  "s \<le> i \<Longrightarrow> P i = Some True \<Longrightarrow> first_down P i s = Some (Some i)"
  "s \<le> i \<Longrightarrow> P i = Some False \<Longrightarrow> first_down P i s = first_down P (i - 1) s"
  by (simp_all add: first_down.simps [of P i s])

lemma first_up_total:
  "(\<And>j. i \<le> j \<Longrightarrow> j \<le> e \<Longrightarrow> P j \<noteq> None) \<Longrightarrow> first_up P i e \<noteq> None"
proof (induction P i e rule: first_up.induct)
  case (1 P i e)
  show ?case
  proof (cases "e < i")
    case False
    then obtain b where b: "P i = Some b" using 1(2) [of i] by auto
    show ?thesis
      using False b 1(1) [OF False b] 1(2) by (cases b) (auto simp: first_up.simps [of P i e])
  qed (simp add: first_up_step)
qed

lemma first_down_total:
  "(\<And>j. s \<le> j \<Longrightarrow> j \<le> i \<Longrightarrow> P j \<noteq> None) \<Longrightarrow> first_down P i s \<noteq> None"
proof (induction P i s rule: first_down.induct)
  case (1 P i s)
  show ?case
  proof (cases "i < s")
    case False
    then obtain b where b: "P i = Some b" using 1(2) [of i] by auto
    show ?thesis
      using False b 1(1) [OF False b] 1(2) by (cases b) (auto simp: first_down.simps [of P i s])
  qed (simp add: first_down_step)
qed

lemma first_up_found:
  "first_up P i e = Some (Some k) \<Longrightarrow>
     i \<le> k \<and> k \<le> e \<and> P k = Some True \<and> (\<forall>j. i \<le> j \<longrightarrow> j < k \<longrightarrow> P j = Some False)"
proof (induction P i e rule: first_up.induct)
  case (1 P i e)
  show ?case
  proof (cases "e < i")
    case False
    then obtain b where b: "P i = Some b"
      using "1.prems" by (auto simp: first_up.simps [of P i e] split: option.splits)
    show ?thesis
    proof (cases b)
      case True
      then show ?thesis using 1(2) False b by (auto simp: first_up_step)
    next
      case bF: False
      then have "first_up P (i + 1) e = Some (Some k)"
        using 1(2) False b by (simp add: first_up_step)
      then have ih: "i + 1 \<le> k \<and> k \<le> e \<and> P k = Some True
          \<and> (\<forall>j. i + 1 \<le> j \<longrightarrow> j < k \<longrightarrow> P j = Some False)"
        using 1(1) [OF False b] bF by simp
      have "P j = Some False" if "i \<le> j" "j < k" for j
        using ih b bF that by (cases "j = i") auto
      then show ?thesis using ih by auto
    qed
  qed (use 1(2) in \<open>simp add: first_up_step\<close>)
qed

lemma first_up_none:
  "first_up P i e = Some None \<Longrightarrow> i \<le> j \<Longrightarrow> j \<le> e \<Longrightarrow> P j = Some False"
proof (induction P i e rule: first_up.induct)
  case (1 P i e)
  then have "\<not> e < i" by simp
  moreover obtain b where b: "P i = Some b"
    using 1 \<open>\<not> e < i\<close> by (auto simp: first_up.simps [of P i e] split: option.splits)
  moreover have "b = False"
    using 1 \<open>\<not> e < i\<close> b by (auto simp: first_up.simps [of P i e] split: bool.splits)
  ultimately show ?case
    using 1 by (cases "j = i") (auto simp: first_up.simps [of P i e])
qed

lemma first_down_found:
  "first_down P i s = Some (Some k) \<Longrightarrow>
     s \<le> k \<and> k \<le> i \<and> P k = Some True \<and> (\<forall>j. k < j \<longrightarrow> j \<le> i \<longrightarrow> P j = Some False)"
proof (induction P i s rule: first_down.induct)
  case (1 P i s)
  show ?case
  proof (cases "i < s")
    case False
    then obtain b where b: "P i = Some b"
      using "1.prems" by (auto simp: first_down.simps [of P i s] split: option.splits)
    show ?thesis
    proof (cases b)
      case True
      then show ?thesis using 1(2) False b by (auto simp: first_down_step)
    next
      case bF: False
      then have "first_down P (i - 1) s = Some (Some k)"
        using 1(2) False b by (simp add: first_down_step)
      then have ih: "s \<le> k \<and> k \<le> i - 1 \<and> P k = Some True
          \<and> (\<forall>j. k < j \<longrightarrow> j \<le> i - 1 \<longrightarrow> P j = Some False)"
        using 1(1) [OF False b] bF by simp
      have "P j = Some False" if "k < j" "j \<le> i" for j
        using ih b bF that by (cases "j = i") auto
      then show ?thesis using ih by auto
    qed
  qed (use 1(2) in \<open>simp add: first_down_step\<close>)
qed

lemma first_down_none:
  "first_down P i s = Some None \<Longrightarrow> s \<le> j \<Longrightarrow> j \<le> i \<Longrightarrow> P j = Some False"
proof (induction P i s rule: first_down.induct)
  case (1 P i s)
  then have "\<not> i < s" by simp
  moreover obtain b where b: "P i = Some b"
    using 1 \<open>\<not> i < s\<close> by (auto simp: first_down.simps [of P i s] split: option.splits)
  moreover have "b = False"
    using 1 \<open>\<not> i < s\<close> b by (auto simp: first_down.simps [of P i s] split: bool.splits)
  ultimately show ?case
    using 1 by (cases "j = i") (auto simp: first_down.simps [of P i s])
qed

lemma loop_up_step:
  "e < i \<Longrightarrow> loop_up f i e s = Some s"
  "i \<le> e \<Longrightarrow> f i s = Some s' \<Longrightarrow> loop_up f i e s = loop_up f (i + 1) e s'"
  by (simp_all add: loop_up.simps [of f i e s])

lemma loop_up_invariant:
  assumes "\<And>j s. i \<le> j \<Longrightarrow> j \<le> e \<Longrightarrow> I j s \<Longrightarrow> \<exists>s'. f j s = Some s' \<and> I (j + 1) s'"
    and "I i s" and "i \<le> e + 1"
  shows "\<exists>s'. loop_up f i e s = Some s' \<and> I (e + 1) s'"
  using assms
proof (induction f i e s rule: loop_up.induct)
  case (1 f i e s)
  show ?case
  proof (cases "e < i")
    case True
    then have "i = e + 1" using 1 by simp
    then show ?thesis using 1 by (simp add: loop_up_step)
  next
    case False
    then obtain s' where s': "f i s = Some s'" "I (i + 1) s'"
      using 1(2) [of i s] 1(3) by auto
    have "\<exists>r. loop_up f (i + 1) e s' = Some r \<and> I (e + 1) r"
      by (rule 1(1) [OF False s'(1)]) (use False s' 1(2) in auto)
    then show ?thesis using False s' by (simp add: loop_up_step)
  qed
qed

text \<open>
  Loops over \<open>i..e\<close>, upwards or downwards, that thread a state and may be left early: the
  body's boolean is \<open>True\<close> for a \<open>break\<close> or \<open>return\<close>. The result tells whether that
  happened.
\<close>

function scan_up :: "(int \<Rightarrow> 's \<Rightarrow> (bool \<times> 's) option) \<Rightarrow> int \<Rightarrow> int \<Rightarrow> 's \<Rightarrow> (bool \<times> 's) option"
where
  "scan_up f i e s =
     (if e < i then Some (False, s)
      else case f i s of None \<Rightarrow> None
           | Some (stop, s') \<Rightarrow> if stop then Some (True, s') else scan_up f (i + 1) e s')"
  by pat_completeness auto
termination by (relation "measure (\<lambda>(f, i, e, s). nat (e + 1 - i))") auto

function scan_down :: "(int \<Rightarrow> 's \<Rightarrow> (bool \<times> 's) option) \<Rightarrow> int \<Rightarrow> int \<Rightarrow> 's \<Rightarrow> (bool \<times> 's) option"
where
  "scan_down f i e s =
     (if i < e then Some (False, s)
      else case f i s of None \<Rightarrow> None
           | Some (stop, s') \<Rightarrow> if stop then Some (True, s') else scan_down f (i - 1) e s')"
  by pat_completeness auto
termination by (relation "measure (\<lambda>(f, i, e, s). nat (i + 1 - e))") auto

declare scan_up.simps [simp del] scan_down.simps [simp del]

lemma scan_up_step:
  "e < i \<Longrightarrow> scan_up f i e s = Some (False, s)"
  "i \<le> e \<Longrightarrow> f i s = Some (True, s') \<Longrightarrow> scan_up f i e s = Some (True, s')"
  "i \<le> e \<Longrightarrow> f i s = Some (False, s') \<Longrightarrow> scan_up f i e s = scan_up f (i + 1) e s'"
  by (simp_all add: scan_up.simps [of f i e s])

lemma scan_down_step:
  "i < e \<Longrightarrow> scan_down f i e s = Some (False, s)"
  "e \<le> i \<Longrightarrow> f i s = Some (True, s') \<Longrightarrow> scan_down f i e s = Some (True, s')"
  "e \<le> i \<Longrightarrow> f i s = Some (False, s') \<Longrightarrow> scan_down f i e s = scan_down f (i - 1) e s'"
  by (simp_all add: scan_down.simps [of f i e s])

text \<open>
  A scan keeps an invariant that is indexed by the position; \<open>Q k s\<close> holds where it stops.
\<close>

lemma scan_up_invariant:
  assumes "\<And>j s. i \<le> j \<Longrightarrow> j \<le> e \<Longrightarrow> I j s \<Longrightarrow>
      \<exists>stop s'. f j s = Some (stop, s') \<and> (if stop then Q j s' else I (j + 1) s')"
    and "I i s"
  shows "\<exists>stop s'. scan_up f i e s = Some (stop, s')
    \<and> (if stop then \<exists>k. i \<le> k \<and> k \<le> e \<and> Q k s' else I (max i (e + 1)) s')"
  using assms
proof (induction f i e s rule: scan_up.induct)
  case (1 f i e s)
  show ?case
  proof (cases "e < i")
    case True
    then have "max i (e + 1) = i" by simp
    then show ?thesis using "1.prems" True by (intro exI [of _ False]) (simp add: scan_up_step)
  next
    case False
    then have le: "i \<le> e" by simp
    obtain stop s' where s': "f i s = Some (stop, s')" "if stop then Q i s' else I (i + 1) s'"
      using 1(2) [OF order_refl le 1(3)] by (elim exE conjE)
    show ?thesis
    proof (cases stop)
      case True
      then have "scan_up f i e s = Some (True, s')" "Q i s'"
        using s' le by (simp_all add: scan_up_step(2))
      then show ?thesis using le by (intro exI [of _ True] exI [of _ s']) auto
    next
      case go: False
      have "\<exists>stop' r. scan_up f (i + 1) e s' = Some (stop', r)
        \<and> (if stop' then \<exists>k. i + 1 \<le> k \<and> k \<le> e \<and> Q k r else I (max (i + 1) (e + 1)) r)"
      proof (rule 1(1) [OF False s'(1) refl go])
        show "\<exists>stop s'. f j s = Some (stop, s') \<and> (if stop then Q j s' else I (j + 1) s')"
          if "i + 1 \<le> j" "j \<le> e" "I j s" for j s
          using 1(2) [of j s] that by simp
      qed (use go s' in simp)
      then obtain stop' r where r: "scan_up f (i + 1) e s' = Some (stop', r)"
        "if stop' then \<exists>k. i + 1 \<le> k \<and> k \<le> e \<and> Q k r else I (max (i + 1) (e + 1)) r" by blast
      have "max (i + 1) (e + 1) = max i (e + 1)" using False by auto
      then have "if stop' then \<exists>k. i \<le> k \<and> k \<le> e \<and> Q k r else I (max i (e + 1)) r"
      proof (cases stop')
        case True
        then obtain k where k: "i + 1 \<le> k" "k \<le> e" "Q k r" using r(2) by auto
        then have "i \<le> k" by simp
        then show ?thesis using True k by (simp, intro exI [of _ k]) simp
      qed (use r(2) \<open>max (i + 1) (e + 1) = max i (e + 1)\<close> in simp)
      moreover have "scan_up f i e s = Some (stop', r)"
        using r(1) s'(1) le go by (simp add: scan_up_step(3))
      ultimately show ?thesis by blast
    qed
  qed
qed

lemma scan_down_invariant:
  assumes "\<And>j s. e \<le> j \<Longrightarrow> j \<le> i \<Longrightarrow> I j s \<Longrightarrow>
      \<exists>stop s'. f j s = Some (stop, s') \<and> (if stop then Q j s' else I (j - 1) s')"
    and "I i s"
  shows "\<exists>stop s'. scan_down f i e s = Some (stop, s')
    \<and> (if stop then \<exists>k. e \<le> k \<and> k \<le> i \<and> Q k s' else I (min i (e - 1)) s')"
  using assms
proof (induction f i e s rule: scan_down.induct)
  case (1 f i e s)
  show ?case
  proof (cases "i < e")
    case True
    then have "min i (e - 1) = i" by simp
    then show ?thesis using "1.prems" True by (intro exI [of _ False]) (simp add: scan_down_step)
  next
    case False
    then have le: "e \<le> i" by simp
    obtain stop s' where s': "f i s = Some (stop, s')" "if stop then Q i s' else I (i - 1) s'"
      using 1(2) [OF le order_refl 1(3)] by (elim exE conjE)
    show ?thesis
    proof (cases stop)
      case True
      then have "scan_down f i e s = Some (True, s')" "Q i s'"
        using s' le by (simp_all add: scan_down_step(2))
      then show ?thesis using le by (intro exI [of _ True] exI [of _ s']) auto
    next
      case go: False
      have "\<exists>stop' r. scan_down f (i - 1) e s' = Some (stop', r)
        \<and> (if stop' then \<exists>k. e \<le> k \<and> k \<le> i - 1 \<and> Q k r else I (min (i - 1) (e - 1)) r)"
      proof (rule 1(1) [OF False s'(1) refl go])
        show "\<exists>stop s'. f j s = Some (stop, s') \<and> (if stop then Q j s' else I (j - 1) s')"
          if "e \<le> j" "j \<le> i - 1" "I j s" for j s
          using 1(2) [of j s] that by simp
      qed (use go s' in simp)
      then obtain stop' r where r: "scan_down f (i - 1) e s' = Some (stop', r)"
        "if stop' then \<exists>k. e \<le> k \<and> k \<le> i - 1 \<and> Q k r else I (min (i - 1) (e - 1)) r" by blast
      have "min (i - 1) (e - 1) = min i (e - 1)" using False by auto
      then have "if stop' then \<exists>k. e \<le> k \<and> k \<le> i \<and> Q k r else I (min i (e - 1)) r"
      proof (cases stop')
        case True
        then obtain k where k: "e \<le> k" "k \<le> i - 1" "Q k r" using r(2) by auto
        then have "k \<le> i" by simp
        then show ?thesis using True k by (simp, intro exI [of _ k]) simp
      qed (use r(2) \<open>min (i - 1) (e - 1) = min i (e - 1)\<close> in simp)
      moreover have "scan_down f i e s = Some (stop', r)"
        using r(1) s'(1) le go by (simp add: scan_down_step(3))
      ultimately show ?thesis by blast
    qed
  qed
qed

end
