(* ===== verification/Br_Perm.thy ===== *)
theory Br_Perm
  imports Aufs_Prelude
begin

text \<open>
  Branch permissions and attributes: the bit flags of \<open>aufs_type.h\<close>, their predicates, and
  the parser and printer of \<open>opts.c\<close> (\<open>br_perm_val\<close>, \<open>au_optstr_br_perm\<close>).

  \<open>match_token\<close> is the parser of the kernel's \<open>lib/parser.c\<close> and not part of this
  repository: it is the parameter \<open>mt\<close>, which maps a string and a table to the token. What
  the code relies on for tables of literal patterns is \<open>literal_matcher\<close>.
\<close>

section \<open>Flags\<close>

definition AuBrPerm_RW :: int where "AuBrPerm_RW = 1"
definition AuBrPerm_RO :: int where "AuBrPerm_RO = 2"
definition AuBrPerm_RR :: int where "AuBrPerm_RR = 4"
definition AuBrPerm_Mask :: int where
  "AuBrPerm_Mask = or (or AuBrPerm_RW AuBrPerm_RO) AuBrPerm_RR"

definition AuBrAttr_COO_REG :: int where "AuBrAttr_COO_REG = 8"
definition AuBrAttr_COO_ALL :: int where "AuBrAttr_COO_ALL = 16"
definition AuBrAttr_COO_Mask :: int where
  "AuBrAttr_COO_Mask = or AuBrAttr_COO_REG AuBrAttr_COO_ALL"

definition AuBrAttr_FHSM :: "kconfig \<Rightarrow> int" where
  "AuBrAttr_FHSM cfg = (if cfg_fhsm cfg then 32 else 0)"
definition AuBrAttr_UNPIN :: int where "AuBrAttr_UNPIN = 64"

definition AuBrAttr_ICEX_SEC :: "kconfig \<Rightarrow> int" where
  "AuBrAttr_ICEX_SEC cfg = (if cfg_xattr cfg then 128 else 0)"
definition AuBrAttr_ICEX_SYS :: "kconfig \<Rightarrow> int" where
  "AuBrAttr_ICEX_SYS cfg = (if cfg_xattr cfg then 256 else 0)"
definition AuBrAttr_ICEX_TR :: "kconfig \<Rightarrow> int" where
  "AuBrAttr_ICEX_TR cfg = (if cfg_xattr cfg then 512 else 0)"
definition AuBrAttr_ICEX_USR :: "kconfig \<Rightarrow> int" where
  "AuBrAttr_ICEX_USR cfg = (if cfg_xattr cfg then 1024 else 0)"
definition AuBrAttr_ICEX_OTH :: "kconfig \<Rightarrow> int" where
  "AuBrAttr_ICEX_OTH cfg = (if cfg_xattr cfg then 2048 else 0)"
definition AuBrAttr_ICEX :: "kconfig \<Rightarrow> int" where
  "AuBrAttr_ICEX cfg =
     or (or (or (or (AuBrAttr_ICEX_SEC cfg) (AuBrAttr_ICEX_SYS cfg)) (AuBrAttr_ICEX_TR cfg))
       (AuBrAttr_ICEX_USR cfg)) (AuBrAttr_ICEX_OTH cfg)"

definition AuBrRAttr_WH :: int where "AuBrRAttr_WH = 4096"
definition AuBrRAttr_Mask :: int where "AuBrRAttr_Mask = AuBrRAttr_WH"
definition AuBrWAttr_NoLinkWH :: int where "AuBrWAttr_NoLinkWH = 8192"
definition AuBrWAttr_MOO :: int where "AuBrWAttr_MOO = 16384"
definition AuBrWAttr_Mask :: int where
  "AuBrWAttr_Mask = or AuBrWAttr_NoLinkWH AuBrWAttr_MOO"
definition AuBrAttr_CMOO_Mask :: int where
  "AuBrAttr_CMOO_Mask = or AuBrAttr_COO_Mask AuBrWAttr_MOO"

lemmas br_flag_defs =
  AuBrPerm_RW_def AuBrPerm_RO_def AuBrPerm_RR_def AuBrPerm_Mask_def
  AuBrAttr_COO_REG_def AuBrAttr_COO_ALL_def AuBrAttr_COO_Mask_def
  AuBrAttr_FHSM_def AuBrAttr_UNPIN_def AuBrAttr_ICEX_SEC_def AuBrAttr_ICEX_SYS_def
  AuBrAttr_ICEX_TR_def AuBrAttr_ICEX_USR_def AuBrAttr_ICEX_OTH_def AuBrAttr_ICEX_def
  AuBrRAttr_WH_def AuBrRAttr_Mask_def AuBrWAttr_NoLinkWH_def AuBrWAttr_MOO_def
  AuBrWAttr_Mask_def AuBrAttr_CMOO_Mask_def

definition au_br_writable :: "int \<Rightarrow> bool" where
  "au_br_writable brperm = (and brperm AuBrPerm_RW \<noteq> 0)"
definition au_br_whable :: "int \<Rightarrow> bool" where
  "au_br_whable brperm = (and brperm (or AuBrPerm_RW AuBrRAttr_WH) \<noteq> 0)"
definition au_br_wh_linkable :: "int \<Rightarrow> bool" where
  "au_br_wh_linkable brperm = (and brperm AuBrWAttr_NoLinkWH = 0)"
definition au_br_cmoo :: "int \<Rightarrow> int" where
  "au_br_cmoo brperm = and brperm AuBrAttr_CMOO_Mask"
definition au_br_fhsm :: "kconfig \<Rightarrow> int \<Rightarrow> bool" where
  "au_br_fhsm cfg brperm = (and brperm (AuBrAttr_FHSM cfg) \<noteq> 0)"

section \<open>Token tables\<close>

text \<open>A \<open>match_table_t\<close>: its entries, and the token of the terminating NULL pattern.\<close>

type_synonym match_entries = "(int \<times> string) list"
type_synonym match_table = "match_entries \<times> int"
type_synonym matcher = "string \<Rightarrow> match_table \<Rightarrow> int \<times> string list"

definition literal_table :: "match_table \<Rightarrow> bool" where
  "literal_table tbl = (\<forall>e \<in> set (fst tbl). CHR ''%'' \<notin> set (snd e))"

definition literal_lookup :: "string \<Rightarrow> match_table \<Rightarrow> int" where
  "literal_lookup s tbl =
     (case find (\<lambda>e. snd e = s) (fst tbl) of None \<Rightarrow> snd tbl | Some e \<Rightarrow> fst e)"

definition literal_matcher :: "matcher \<Rightarrow> bool" where
  "literal_matcher mt = (\<forall>s tbl. literal_table tbl \<longrightarrow> fst (mt s tbl) = literal_lookup s tbl)"

definition brperm :: match_table where
  "brperm = ([(AuBrPerm_RO, ''ro''), (AuBrPerm_RR, ''rr''), (AuBrPerm_RW, ''rw'')], 0)"

definition brattr :: "kconfig \<Rightarrow> match_table" where
  "brattr cfg =
     ([(AuBrAttr_COO_REG, ''coo_reg''),
       (AuBrAttr_COO_ALL, ''coo_all''),
       (AuBrAttr_UNPIN, ''unpin''),
       (AuBrAttr_FHSM cfg, ''fhsm''),
       (AuBrAttr_ICEX cfg, ''icex''),
       (AuBrAttr_ICEX_SEC cfg, ''icexsec''),
       (AuBrAttr_ICEX_SYS cfg, ''icexsys''),
       (AuBrAttr_ICEX_TR cfg, ''icextr''),
       (AuBrAttr_ICEX_USR cfg, ''icexusr''),
       (AuBrAttr_ICEX_OTH cfg, ''icexoth''),
       (AuBrRAttr_WH, ''wh''),
       (AuBrWAttr_MOO, ''moo''),
       (AuBrWAttr_NoLinkWH, ''nolwh'')], 0)"

text \<open>\<open>au_parser_pattern\<close> is \<open>BUG()\<close> (here \<open>None\<close>) when no entry has the token.\<close>

fun au_parser_pattern :: "int \<Rightarrow> match_entries \<Rightarrow> string option" where
  "au_parser_pattern val [] = None"
| "au_parser_pattern val ((token, pattern) # p) =
     (if token = val then Some pattern else au_parser_pattern val p)"

text \<open>\<open>au_optstr\<close>: the loop runs \<open>while (p->token)\<close>, so a zero token ends it.\<close>

fun au_optstr :: "int \<Rightarrow> match_entries \<Rightarrow> string option \<times> int" where
  "au_optstr v [] = (None, v)"
| "au_optstr v ((token, pattern) # p) =
     (if token = 0 then (None, v)
      else if and v token = token then (Some pattern, and v (not token))
      else au_optstr v p)"

section \<open>Parsing\<close>

definition strchr_plus :: "string \<Rightarrow> string \<times> string option" where
  "strchr_plus s =
     (case dropWhile (\<lambda>c. c \<noteq> CHR ''+'') s of
        [] \<Rightarrow> (s, None)
      | _ # r \<Rightarrow> (takeWhile (\<lambda>c. c \<noteq> CHR ''+'') s, Some r))"

lemma strchr_plus_shorter: "strchr_plus s = (h, Some r) \<Longrightarrow> length r < length s"
proof -
  assume a: "strchr_plus s = (h, Some r)"
  then obtain c where "dropWhile (\<lambda>c. c \<noteq> CHR ''+'') s = c # r"
    by (auto simp: strchr_plus_def split: list.splits)
  then have "length (c # r) \<le> length s"
    by (metis length_dropWhile_le)
  then show ?thesis by simp
qed

definition merge_attr :: "int \<Rightarrow> int \<Rightarrow> int" where
  "merge_attr attr v =
     or (if and v AuBrAttr_CMOO_Mask \<noteq> 0 then and attr (not AuBrAttr_CMOO_Mask) else attr) v"

function br_attr_loop :: "matcher \<Rightarrow> match_table \<Rightarrow> string \<Rightarrow> int \<Rightarrow> int" where
  "br_attr_loop mt table str attr =
     (let v = fst (mt (fst (strchr_plus str)) table)
      in if v \<noteq> 0 then
           (case snd (strchr_plus str) of
              None \<Rightarrow> merge_attr attr v
            | Some p \<Rightarrow> br_attr_loop mt table p (merge_attr attr v))
         else attr)"
  by pat_completeness auto
termination
  by (relation "measure (\<lambda>(mt, table, str, attr). length str)")
    (auto intro: strchr_plus_shorter simp: prod_eq_iff)

declare br_attr_loop.simps [simp del]

definition br_attr_val :: "matcher \<Rightarrow> string \<Rightarrow> match_table \<Rightarrow> int" where
  "br_attr_val mt str table = br_attr_loop mt table str 0"

definition br_perm_val :: "kconfig \<Rightarrow> matcher \<Rightarrow> string \<Rightarrow> int" where
  "br_perm_val cfg mt perm =
     (let val = fst (mt (fst (strchr_plus perm)) brperm)
      in if val = 0 then AuBrPerm_RO
         else case snd (strchr_plus perm) of
           None \<Rightarrow> val
         | Some p \<Rightarrow>
             (let val = or val (br_attr_val mt p (brattr cfg));
                  base = and val AuBrPerm_Mask
              in if base = AuBrPerm_RO \<or> base = AuBrPerm_RR then and val (not AuBrWAttr_Mask)
                 else if base = AuBrPerm_RW then and val (not AuBrRAttr_Mask)
                 else val))"

section \<open>Printing\<close>

lemma au_optstr_Some:
  "au_optstr v tbl = (Some p, v') \<Longrightarrow>
     \<exists>k. (k, p) \<in> set tbl \<and> k \<noteq> 0 \<and> and v k = k \<and> v' = and v (not k)"
  by (induction tbl) (auto split: if_splits)

lemma and_not_and_self [simp]: "and (and v (not k)) k = (0 :: int)"
  by (simp add: bit_eq_iff bit_and_iff bit_not_iff)

lemma and_not_subset: "and (and v (not k)) j = j \<Longrightarrow> and v j = (j :: int)"
  by (auto simp: bit_eq_iff bit_and_iff bit_not_iff)

definition matching_tokens :: "int \<Rightarrow> match_entries \<Rightarrow> match_entries" where
  "matching_tokens v tbl = filter (\<lambda>e. fst e \<noteq> 0 \<and> and v (fst e) = fst e) tbl"

lemma au_optstr_progress:
  assumes "au_optstr v tbl = (Some p, v')"
  shows "length (matching_tokens v' tbl) < length (matching_tokens v tbl)"
proof -
  from au_optstr_Some [OF assms] obtain k where
    k: "(k, p) \<in> set tbl" "k \<noteq> 0" "and v k = k" "v' = and v (not k)" by blast
  have "matching_tokens v' tbl = filter (\<lambda>e. and v' (fst e) = fst e) (matching_tokens v tbl)"
    unfolding matching_tokens_def filter_filter
    by (rule filter_cong) (auto simp: k(4) dest: and_not_subset)
  moreover have "(k, p) \<in> set (matching_tokens v tbl)" "and v' k \<noteq> k"
    using k by (auto simp: matching_tokens_def)
  ultimately show ?thesis
    using length_filter_less [of "(k, p)" "matching_tokens v tbl" "\<lambda>e. and v' (fst e) = fst e"]
    by simp
qed

text \<open>The \<open>do { ... } while (p)\<close> loop of \<open>au_do_optstr_br_attr\<close>.\<close>

function br_attr_print_loop :: "int \<Rightarrow> match_entries \<Rightarrow> string" where
  "br_attr_print_loop perm tbl =
     (case au_optstr perm tbl of
        (None, _) \<Rightarrow> []
      | (Some p, perm') \<Rightarrow> CHR ''+'' # p @ br_attr_print_loop perm' tbl)"
  by pat_completeness auto
termination
  by (relation "measure (\<lambda>(v, tbl). length (matching_tokens v tbl))")
    (auto intro: au_optstr_progress [OF sym])

declare br_attr_print_loop.simps [simp del]

definition au_do_optstr_br_attr :: "kconfig \<Rightarrow> int \<Rightarrow> string" where
  "au_do_optstr_br_attr cfg perm =
     (case au_optstr perm (fst (brattr cfg)) of
        (None, _) \<Rightarrow> []
      | (Some p, perm') \<Rightarrow> p @ br_attr_print_loop perm' (fst (brattr cfg)))"

text \<open>\<open>au_optstr_br_perm\<close> copies from the NULL pointer (\<open>None\<close>) when no permission bit is set.\<close>

definition au_optstr_br_perm :: "kconfig \<Rightarrow> int \<Rightarrow> string option" where
  "au_optstr_br_perm cfg perm =
     (case au_optstr perm (fst brperm) of
        (None, _) \<Rightarrow> None
      | (Some p, perm') \<Rightarrow>
          (let attr = au_do_optstr_br_attr cfg perm'
           in Some (if attr \<noteq> [] then p @ CHR ''+'' # attr else p)))"

definition AuBrPermStrSz :: nat where
  "AuBrPermStrSz =
     length ''rw+coo_reg+fhsm+unpin+icexsec+icexsys+icexusr+icexoth+nolwh'' + 1"

section \<open>The greedy scan as one pass over the table\<close>

fun pass_tokens :: "int \<Rightarrow> match_entries \<Rightarrow> match_entries" where
  "pass_tokens v [] = []"
| "pass_tokens v ((k, p) # t) =
     (if k = 0 then []
      else if and v k = k then (k, p) # pass_tokens (and v (not k)) t
      else pass_tokens v t)"

lemma au_optstr_pass:
  "au_optstr v tbl =
     (case pass_tokens v tbl of [] \<Rightarrow> (None, v) | (k, p) # _ \<Rightarrow> (Some p, and v (not k)))"
  by (induction tbl) auto

lemma pass_tokens_clear:
  "pass_tokens v tbl = (k, p) # r \<Longrightarrow> pass_tokens (and v (not k)) tbl = r"
proof (induction tbl)
  case (Cons e t)
  then show ?case by (cases e) (auto split: if_splits dest: and_not_subset)
qed simp

lemma pass_tokens_subset: "set (pass_tokens v tbl) \<subseteq> set tbl"
  by (induction v tbl rule: pass_tokens.induct) auto

lemma pass_tokens_nonzero: "e \<in> set (pass_tokens v tbl) \<Longrightarrow> fst e \<noteq> 0"
  by (induction v tbl rule: pass_tokens.induct) (auto split: if_splits)

definition join_attrs :: "match_entries \<Rightarrow> string" where
  "join_attrs es = concat (map (\<lambda>e. CHR ''+'' # snd e) es)"

lemma br_attr_print_loop_pass: "br_attr_print_loop v tbl = join_attrs (pass_tokens v tbl)"
proof (induction v tbl rule: br_attr_print_loop.induct)
  case (1 v tbl)
  show ?case
  proof (cases "pass_tokens v tbl")
    case Nil
    then show ?thesis
      by (simp add: br_attr_print_loop.simps [of v] au_optstr_pass join_attrs_def)
  next
    case (Cons e r)
    obtain k p where e: "e = (k, p)" by fastforce
    have o: "au_optstr v tbl = (Some p, and v (not k))"
      using Cons e by (simp add: au_optstr_pass)
    show ?thesis
      using 1 [OF o [symmetric] refl] Cons e pass_tokens_clear [of v tbl k p r]
      by (simp add: br_attr_print_loop.simps [of v] o join_attrs_def)
  qed
qed

lemma au_do_optstr_br_attr_pass:
  "au_do_optstr_br_attr cfg v = tl (join_attrs (pass_tokens v (fst (brattr cfg))))"
proof (cases "pass_tokens v (fst (brattr cfg))")
  case Nil
  then show ?thesis by (simp add: au_do_optstr_br_attr_def au_optstr_pass join_attrs_def)
next
  case (Cons e r)
  then show ?thesis
    by (cases e) (auto simp: au_do_optstr_br_attr_def au_optstr_pass br_attr_print_loop_pass
        join_attrs_def dest: pass_tokens_clear)
qed

section \<open>Canonical permissions\<close>

text \<open>
  What the parser can produce: one permission bit, known attributes only, at most one of
  \<open>coo_reg\<close>, \<open>coo_all\<close> and \<open>moo\<close>, \<open>wh\<close> on a readonly branch only, \<open>nolwh\<close> and \<open>moo\<close>
  on a writable branch only.
\<close>

definition br_attr_all :: "kconfig \<Rightarrow> int" where
  "br_attr_all cfg =
     or (or (or (or AuBrAttr_COO_Mask AuBrAttr_UNPIN) (AuBrAttr_FHSM cfg)) (AuBrAttr_ICEX cfg))
       (or AuBrRAttr_Mask AuBrWAttr_Mask)"

definition br_perm_ok :: "kconfig \<Rightarrow> int \<Rightarrow> bool" where
  "br_perm_ok cfg p =
     (and p (not (or AuBrPerm_Mask (br_attr_all cfg))) = 0
      \<and> and p AuBrPerm_Mask \<in> {AuBrPerm_RW, AuBrPerm_RO, AuBrPerm_RR}
      \<and> and p AuBrAttr_CMOO_Mask
          \<in> {0, AuBrAttr_COO_REG, AuBrAttr_COO_ALL, AuBrWAttr_MOO}
      \<and> (if and p AuBrPerm_Mask = AuBrPerm_RW then and p AuBrRAttr_Mask = 0
         else and p AuBrWAttr_Mask = 0))"

text \<open>The tables are literal, so \<open>match_token\<close> is the lookup of the pattern.\<close>

lemma brperm_literal: "literal_table brperm"
  by (simp add: literal_table_def brperm_def)

lemma brattr_literal: "literal_table (brattr cfg)"
  by (simp add: literal_table_def brattr_def)

lemma match_brperm: "literal_matcher mt \<Longrightarrow> fst (mt s brperm) = literal_lookup s brperm"
  using brperm_literal unfolding literal_matcher_def by blast

lemma match_brattr: "literal_matcher mt \<Longrightarrow> fst (mt s (brattr cfg)) = literal_lookup s (brattr cfg)"
  using brattr_literal unfolding literal_matcher_def by blast

lemma brattr_entries:
  "\<forall>e \<in> set (fst (brattr cfg)).
     literal_lookup (snd e) (brattr cfg) = fst e \<and> CHR ''+'' \<notin> set (snd e) \<and> snd e \<noteq> []"
  by (simp add: brattr_def literal_lookup_def)

lemma brperm_entries:
  "\<forall>e \<in> set (fst brperm). literal_lookup (snd e) brperm = fst e \<and> CHR ''+'' \<notin> set (snd e)"
  by (simp add: brperm_def literal_lookup_def)

lemma brattr_terminator [simp]: "snd (brattr cfg) = 0"
  by (simp add: brattr_def)

lemma literal_lookup_range:
  "literal_lookup s tbl \<in> insert (snd tbl) (fst ` set (fst tbl))"
proof (cases "find (\<lambda>e. snd e = s) (fst tbl)")
  case (Some e)
  then have "e \<in> set (fst tbl)" by (auto simp: find_Some_iff)
  then show ?thesis by (simp add: literal_lookup_def Some)
qed (simp add: literal_lookup_def)

section \<open>Single bits\<close>

lemma bit_power_two: "bit (2 ^ m :: int) n \<longleftrightarrow> n = m"
  by (auto simp: bit_exp_iff)

lemma bit_flags:
  "bit (1 :: int) n \<longleftrightarrow> n = 0" "bit (2 :: int) n \<longleftrightarrow> n = 1" "bit (4 :: int) n \<longleftrightarrow> n = 2"
  "bit (8 :: int) n \<longleftrightarrow> n = 3" "bit (16 :: int) n \<longleftrightarrow> n = 4" "bit (32 :: int) n \<longleftrightarrow> n = 5"
  "bit (64 :: int) n \<longleftrightarrow> n = 6" "bit (128 :: int) n \<longleftrightarrow> n = 7" "bit (256 :: int) n \<longleftrightarrow> n = 8"
  "bit (512 :: int) n \<longleftrightarrow> n = 9" "bit (1024 :: int) n \<longleftrightarrow> n = 10" "bit (2048 :: int) n \<longleftrightarrow> n = 11"
  "bit (4096 :: int) n \<longleftrightarrow> n = 12" "bit (8192 :: int) n \<longleftrightarrow> n = 13"
  "bit (16384 :: int) n \<longleftrightarrow> n = 14"
  using bit_power_two [of 0 n] bit_power_two [of 1 n] bit_power_two [of 2 n]
    bit_power_two [of 3 n] bit_power_two [of 4 n] bit_power_two [of 5 n]
    bit_power_two [of 6 n] bit_power_two [of 7 n] bit_power_two [of 8 n]
    bit_power_two [of 9 n] bit_power_two [of 10 n] bit_power_two [of 11 n]
    bit_power_two [of 12 n] bit_power_two [of 13 n] bit_power_two [of 14 n]
  by simp_all

lemma clear_single:
  assumes c: "and v C = (2 ^ i :: int)" and k: "and v k = k" "and k C \<noteq> 0"
  shows "and (and v (not k)) C = 0"
proof -
  have v: "bit v n \<and> bit C n \<longleftrightarrow> n = i" for n
    using arg_cong [OF c, of "\<lambda>x. bit x n"] by (simp add: bit_and_iff bit_exp_iff)
  obtain m where m: "bit k m" "bit C m"
    using k(2) by (auto simp: bit_eq_iff bit_and_iff)
  have "bit v m" using arg_cong [OF k(1), of "\<lambda>x. bit x m"] m by (simp add: bit_and_iff)
  then have "m = i" using v m by blast
  then have "bit k i" using m by simp
  show ?thesis
  proof (rule bit_eqI)
    fix n
    show "bit (and (and v (not k)) C) n \<longleftrightarrow> bit (0 :: int) n"
      using v [of n] \<open>bit k i\<close> by (auto simp: bit_and_iff bit_not_iff)
  qed
qed

definition cmoo_single :: "int \<Rightarrow> bool" where
  "cmoo_single v =
     (and v AuBrAttr_CMOO_Mask \<in> {0, AuBrAttr_COO_REG, AuBrAttr_COO_ALL, AuBrWAttr_MOO})"

lemma cmoo_single_clear:
  assumes "cmoo_single v" and "and v k = k" and "and k AuBrAttr_CMOO_Mask \<noteq> 0"
  shows "and (and v (not k)) AuBrAttr_CMOO_Mask = 0"
proof -
  have "and v AuBrAttr_CMOO_Mask \<noteq> 0"
  proof
    assume "and v AuBrAttr_CMOO_Mask = 0"
    then have "and (and v k) AuBrAttr_CMOO_Mask = 0"
      by (metis and.assoc and.commute and.left_commute and_zero_eq)
    then show False using assms by simp
  qed
  then have "\<exists>i. and v AuBrAttr_CMOO_Mask = 2 ^ i"
    using assms(1)
    by (auto simp: cmoo_single_def AuBrAttr_COO_REG_def AuBrAttr_COO_ALL_def AuBrWAttr_MOO_def
        intro: exI [of _ 3] exI [of _ 4] exI [of _ 14])
  then show ?thesis using assms clear_single by blast
qed

lemma and_sub_zero: "and v C = 0 \<Longrightarrow> and (and v (not k)) C = (0 :: int)"
  by (auto simp: bit_eq_iff bit_and_iff bit_not_iff)

lemma cmoo_single_sub: "cmoo_single v \<Longrightarrow> cmoo_single (and v (not k))"
proof -
  assume s: "cmoo_single v"
  define c where "c = and v AuBrAttr_CMOO_Mask"
  have "and (and v (not k)) AuBrAttr_CMOO_Mask = and c (not k)"
    by (auto simp: c_def bit_eq_iff bit_and_iff bit_not_iff)
  moreover have "and c (not k) \<in> {0, c}"
  proof (cases "c = 0")
    case False
    then have "\<exists>i. c = 2 ^ i"
      using s
      by (auto simp: c_def cmoo_single_def AuBrAttr_COO_REG_def AuBrAttr_COO_ALL_def
          AuBrWAttr_MOO_def intro: exI [of _ 3] exI [of _ 4] exI [of _ 14])
    then obtain i where i: "c = 2 ^ i" ..
    have "and (2 ^ i) (not k) = (if bit k i then 0 else 2 ^ i)"
      by (rule bit_eqI) (auto simp: bit_and_iff bit_not_iff bit_exp_iff)
    then show ?thesis by (simp add: i)
  qed simp
  ultimately show ?thesis using s by (auto simp: cmoo_single_def c_def)
qed

fun ors :: "match_entries \<Rightarrow> int" where
  "ors [] = 0"
| "ors (e # es) = or (fst e) (ors es)"

definition merge_all :: "match_entries \<Rightarrow> int \<Rightarrow> int" where
  "merge_all es a = fold (\<lambda>e a. merge_attr a (fst e)) es a"

lemma merge_attr_or:
  assumes "and k AuBrAttr_CMOO_Mask = 0 \<or> and a AuBrAttr_CMOO_Mask = 0"
  shows "merge_attr a k = or a k"
proof -
  have "and a (not AuBrAttr_CMOO_Mask) = a" if "and a AuBrAttr_CMOO_Mask = 0"
    using that by (auto simp: bit_eq_iff bit_and_iff bit_not_iff)
  then show ?thesis using assms by (auto simp: merge_attr_def)
qed

lemma and_or_zero: "and a C = 0 \<Longrightarrow> and k C = 0 \<Longrightarrow> and (or a k) C = (0 :: int)"
  by (auto simp: bit_eq_iff bit_and_iff bit_or_iff)

lemma merge_all_pass:
  "cmoo_single v \<Longrightarrow> and a AuBrAttr_CMOO_Mask = 0 \<or> and v AuBrAttr_CMOO_Mask = 0 \<Longrightarrow>
     merge_all (pass_tokens v tbl) a = or a (ors (pass_tokens v tbl))"
proof (induction v tbl arbitrary: a rule: pass_tokens.induct)
  case (1 v)
  then show ?case by (simp add: merge_all_def)
next
  case (2 v k p t)
  show ?case
  proof (cases "k \<noteq> 0 \<and> and v k = k")
    case False
    then show ?thesis using 2 by (auto simp: merge_all_def)
  next
    case True
    let ?v = "and v (not k)"
    have sub: "and k AuBrAttr_CMOO_Mask = 0" if "and v AuBrAttr_CMOO_Mask = 0"
      using that True by (metis and.assoc and.commute and_zero_eq)
    have m: "merge_attr a k = or a k"
      by (rule merge_attr_or) (use 2(4) sub in blast)
    have "and (or a k) AuBrAttr_CMOO_Mask = 0 \<or> and ?v AuBrAttr_CMOO_Mask = 0"
      using 2(3,4) True cmoo_single_clear [of v k] and_or_zero and_sub_zero by blast
    then have "merge_all (pass_tokens ?v t) (or a k) = or (or a k) (ors (pass_tokens ?v t))"
      using 2(1) [of "or a k"] True cmoo_single_sub [OF 2(3)] by blast
    then show ?thesis using True m by (simp add: merge_all_def or.assoc)
  qed
qed

lemma strchr_plus_none: "CHR ''+'' \<notin> set p \<Longrightarrow> strchr_plus p = (p, None)"
proof -
  assume "CHR ''+'' \<notin> set p"
  then have "dropWhile (\<lambda>c. c \<noteq> CHR ''+'') p = []"
    using dropWhile_eq_Nil_conv by fastforce
  then show ?thesis unfolding strchr_plus_def by (simp only: list.case)
qed

lemma strchr_plus_some: "CHR ''+'' \<notin> set p \<Longrightarrow> strchr_plus (p @ CHR ''+'' # r) = (p, Some r)"
proof -
  assume p: "CHR ''+'' \<notin> set p"
  then have "dropWhile (\<lambda>c. c \<noteq> CHR ''+'') (p @ CHR ''+'' # r) = CHR ''+'' # r"
    by (subst dropWhile_append2) auto
  moreover have "takeWhile (\<lambda>c. c \<noteq> CHR ''+'') (p @ CHR ''+'' # r) = p"
    using p by (subst takeWhile_append2) auto
  ultimately show ?thesis by (simp add: strchr_plus_def)
qed

lemma br_attr_loop_join:
  assumes "literal_matcher mt"
  shows "\<forall>e \<in> set (e0 # es). e \<in> set (fst (brattr cfg)) \<and> fst e \<noteq> 0 \<Longrightarrow>
    br_attr_loop mt (brattr cfg) (snd e0 @ join_attrs es) a = merge_all (e0 # es) a"
proof (induction es arbitrary: e0 a)
  case Nil
  then have "literal_lookup (snd e0) (brattr cfg) = fst e0" "CHR ''+'' \<notin> set (snd e0)"
    using brattr_entries by auto
  then show ?case
    using Nil assms
    by (simp add: br_attr_loop.simps strchr_plus_none match_brattr join_attrs_def merge_all_def)
next
  case (Cons e1 es)
  then have e0: "literal_lookup (snd e0) (brattr cfg) = fst e0" "CHR ''+'' \<notin> set (snd e0)"
    using brattr_entries by auto
  have j: "join_attrs (e1 # es) = CHR ''+'' # snd e1 @ join_attrs es"
    by (simp add: join_attrs_def)
  show ?case
    using Cons e0 assms
    by (simp add: br_attr_loop.simps [of mt "brattr cfg" "snd e0 @ _"] j strchr_plus_some
        match_brattr merge_all_def)
qed

section \<open>Printing loses no bit, when every attribute is configured\<close>

definition cfg_full :: "kconfig \<Rightarrow> bool" where
  "cfg_full cfg = (cfg_fhsm cfg \<and> cfg_xattr cfg)"

lemma ors_pass_bit:
  "\<forall>e \<in> set tbl. fst e \<noteq> 0 \<Longrightarrow> \<exists>e \<in> set tbl. fst e = 2 ^ n \<Longrightarrow> bit v n \<Longrightarrow>
     bit (ors (pass_tokens v tbl)) n"
proof (induction v tbl rule: pass_tokens.induct)
  case (2 v k p t)
  show ?case
  proof (cases "and v k = k \<and> bit k n")
    case True
    then show ?thesis using 2(3) by (simp add: bit_or_iff)
  next
    case False
    have "k \<noteq> 2 ^ n"
    proof
      assume "k = 2 ^ n"
      then have "and v k = k \<and> bit k n"
        using 2(5) by (auto simp: bit_exp_iff bit_and_iff intro!: bit_eqI)
      then show False using False by simp
    qed
    then have ex: "\<exists>e \<in> set t. fst e = 2 ^ n" using 2(4) by auto
    show ?thesis
    proof (cases "and v k = k")
      case True
      then have "bit (and v (not k)) n" using False 2(5) by (simp add: bit_and_iff bit_not_iff)
      then show ?thesis using 2(1) 2(3) True ex by (simp add: bit_or_iff)
    next
      case False
      then show ?thesis using 2(2) 2(3,5) ex by simp
    qed
  qed
qed simp

lemma ors_pass_sub: "bit (ors (pass_tokens v tbl)) n \<Longrightarrow> bit v n"
proof (induction v tbl rule: pass_tokens.induct)
  case (2 v k p t)
  have "bit v n" if "and v k = k" "bit k n"
    using arg_cong [OF that(1), of "\<lambda>x. bit x n"] that(2) by (simp add: bit_and_iff)
  then show ?case using 2 by (auto simp: bit_or_iff bit_and_iff split: if_splits)
qed simp

lemma bit_attr_all:
  "bit (br_attr_all cfg) n \<Longrightarrow> cfg_full cfg \<Longrightarrow> \<exists>e \<in> set (fst (brattr cfg)). fst e = 2 ^ n"
  unfolding br_attr_all_def br_flag_defs bit_or_iff
  by (auto simp: cfg_full_def brattr_def br_flag_defs bit_flags)

lemma ors_pass_full:
  assumes "cfg_full cfg" and "and v (not (br_attr_all cfg)) = 0"
  shows "ors (pass_tokens v (fst (brattr cfg))) = v"
proof (rule bit_eqI)
  fix n
  have "bit (br_attr_all cfg) n" if "bit v n"
    using arg_cong [OF assms(2), of "\<lambda>x. bit x n"] that by (simp add: bit_and_iff bit_not_iff)
  moreover have "\<forall>e \<in> set (fst (brattr cfg)). fst e \<noteq> 0"
    using assms(1) by (simp add: brattr_def br_flag_defs cfg_full_def)
  ultimately show "bit (ors (pass_tokens v (fst (brattr cfg)))) n \<longleftrightarrow> bit v n"
    using ors_pass_bit bit_attr_all [OF _ assms(1)] ors_pass_sub by blast
qed

section \<open>The parser yields canonical permissions\<close>

definition br_attr_ok :: "kconfig \<Rightarrow> int \<Rightarrow> bool" where
  "br_attr_ok cfg a = (and a (not (br_attr_all cfg)) = 0 \<and> cmoo_single a)"

lemma br_attr_ok_zero: "br_attr_ok cfg 0"
  by (simp add: br_attr_ok_def cmoo_single_def)

lemma brattr_tokens_ok:
  "\<forall>e \<in> set (fst (brattr cfg)).
     and (fst e) (not (br_attr_all cfg)) = 0
     \<and> (and (fst e) AuBrAttr_CMOO_Mask = 0
        \<or> and (fst e) AuBrAttr_CMOO_Mask = fst e
          \<and> fst e \<in> {AuBrAttr_COO_REG, AuBrAttr_COO_ALL, AuBrWAttr_MOO})"
  by (cases "cfg_fhsm cfg"; cases "cfg_xattr cfg")
    (simp_all add: brattr_def br_flag_defs br_attr_all_def)

lemma merge_attr_ok:
  assumes a: "br_attr_ok cfg a" and e: "e \<in> set (fst (brattr cfg))"
  shows "br_attr_ok cfg (merge_attr a (fst e))"
proof -
  let ?C = AuBrAttr_CMOO_Mask and ?k = "fst e"
  have k: "and ?k (not (br_attr_all cfg)) = 0" using brattr_tokens_ok e by blast
  have all: "and (merge_attr a ?k) (not (br_attr_all cfg)) = 0"
    using a k by (auto simp: merge_attr_def br_attr_ok_def intro!: and_or_zero)
      (metis and.assoc and.commute and_zero_eq)
  have "cmoo_single (merge_attr a ?k)"
  proof (cases "and ?k ?C = 0")
    case True
    have "and (or a ?k) ?C = or (and a ?C) (and ?k ?C)"
      by (rule bit_eqI) (auto simp: bit_and_iff bit_or_iff)
    then show ?thesis using a True by (simp add: merge_attr_def br_attr_ok_def cmoo_single_def)
  next
    case False
    then have c: "and ?k ?C = ?k" "?k \<in> {AuBrAttr_COO_REG, AuBrAttr_COO_ALL, AuBrWAttr_MOO}"
      using brattr_tokens_ok e by blast+
    have "and (or (and a (not ?C)) ?k) ?C = and ?k ?C"
      by (rule bit_eqI) (auto simp: bit_and_iff bit_or_iff bit_not_iff)
    then show ?thesis using c False by (simp add: merge_attr_def cmoo_single_def)
  qed
  then show ?thesis using all by (simp add: br_attr_ok_def)
qed

lemma br_attr_loop_ok:
  assumes "literal_matcher mt"
  shows "br_attr_ok cfg a \<Longrightarrow> br_attr_ok cfg (br_attr_loop mt (brattr cfg) s a)"
proof (induction s arbitrary: a rule: length_induct)
  case (1 s)
  let ?v = "literal_lookup (fst (strchr_plus s)) (brattr cfg)"
  have v: "fst (mt (fst (strchr_plus s)) (brattr cfg)) = ?v" by (rule match_brattr [OF assms])
  show ?case
  proof (cases "?v = 0")
    case True
    then show ?thesis using 1(2) v by (simp add: br_attr_loop.simps [of mt _ s])
  next
    case False
    then obtain e where e: "e \<in> set (fst (brattr cfg))" "?v = fst e"
      using literal_lookup_range [of "fst (strchr_plus s)" "brattr cfg"] brattr_terminator by force
    have m: "br_attr_ok cfg (merge_attr a ?v)" using merge_attr_ok 1(2) e by simp
    show ?thesis
    proof (cases "snd (strchr_plus s)")
      case None
      then show ?thesis using m v False by (simp add: br_attr_loop.simps [of mt _ s])
    next
      case (Some r)
      then have "length r < length s"
        using strchr_plus_shorter [of s "fst (strchr_plus s)" r] by (simp add: prod_eq_iff)
      then show ?thesis
        using 1(1) m v False Some by (simp add: br_attr_loop.simps [of mt _ s])
    qed
  qed
qed

lemma and_all_perm: "and (br_attr_all cfg) AuBrPerm_Mask = 0"
  by (cases "cfg_fhsm cfg"; cases "cfg_xattr cfg") (simp_all add: br_flag_defs br_attr_all_def)

lemma and_disjoint:
  fixes a A M :: int
  assumes "and a (not A) = 0" and "and A M = 0"
  shows "and a M = 0"
proof (rule bit_eqI)
  fix n
  show "bit (and a M) n \<longleftrightarrow> bit (0 :: int) n"
    using arg_cong [OF assms(1), of "\<lambda>x. bit x n"] arg_cong [OF assms(2), of "\<lambda>x. bit x n"]
    by (auto simp: bit_and_iff bit_not_iff)
qed

lemma br_attr_ok_perm: "br_attr_ok cfg a \<Longrightarrow> and a AuBrPerm_Mask = 0"
  using and_disjoint and_all_perm unfolding br_attr_ok_def by blast

lemma br_attr_val_ok: "literal_matcher mt \<Longrightarrow> br_attr_ok cfg (br_attr_val mt s (brattr cfg))"
  using br_attr_loop_ok br_attr_ok_zero by (simp add: br_attr_val_def)

lemma and_or_absorb:
  fixes b r M :: int
  shows "and b M = b \<Longrightarrow> and r M = 0 \<Longrightarrow> and (or b r) M = b"
  by (simp add: bit.conj_disj_distrib2)

lemma and_not_other: "and W M = 0 \<Longrightarrow> and (and v (not W)) M = and v (M :: int)"
proof (rule bit_eqI)
  fix n assume "and W M = 0"
  from arg_cong [OF this, of "\<lambda>x. bit x n"]
  show "bit (and (and v (not W)) M) n \<longleftrightarrow> bit (and v M) n"
    by (auto simp: bit_and_iff bit_not_iff)
qed

lemma br_perm_ok_base: "b \<in> {AuBrPerm_RW, AuBrPerm_RO, AuBrPerm_RR} \<Longrightarrow> br_perm_ok cfg b"
  by (cases "cfg_fhsm cfg"; cases "cfg_xattr cfg")
    (auto simp: br_perm_ok_def br_flag_defs br_attr_all_def)

lemma perm_bits_known:
  assumes "and b AuBrPerm_Mask = b" and "and r (not (br_attr_all cfg)) = 0"
  shows "and (and (or b r) (not X)) (not (or AuBrPerm_Mask (br_attr_all cfg))) = 0"
proof (rule bit_eqI)
  fix n
  show "bit (and (and (or b r) (not X)) (not (or AuBrPerm_Mask (br_attr_all cfg)))) n
      \<longleftrightarrow> bit (0 :: int) n"
    using arg_cong [OF assms(1), of "\<lambda>x. bit x n"] arg_cong [OF assms(2), of "\<lambda>x. bit x n"]
    by (auto simp: bit_and_iff bit_not_iff bit_or_iff)
qed

lemma perm_cmoo:
  assumes "and b AuBrAttr_CMOO_Mask = 0"
  shows "and (and (or b r) (not X)) AuBrAttr_CMOO_Mask = and (and r AuBrAttr_CMOO_Mask) (not X)"
proof (rule bit_eqI)
  fix n
  show "bit (and (and (or b r) (not X)) AuBrAttr_CMOO_Mask) n
      \<longleftrightarrow> bit (and (and r AuBrAttr_CMOO_Mask) (not X)) n"
    using arg_cong [OF assms(1), of "\<lambda>x. bit x n"]
    by (auto simp: bit_and_iff bit_not_iff bit_or_iff)
qed

lemma br_perm_masked_ok:
  assumes r: "br_attr_ok cfg r"
    and b: "b \<in> {AuBrPerm_RW, AuBrPerm_RO, AuBrPerm_RR}"
    and X: "X = (if b = AuBrPerm_RW then AuBrRAttr_Mask else AuBrWAttr_Mask)"
  shows "br_perm_ok cfg (and (or b r) (not X))"
proof -
  let ?w = "and (or b r) (not X)"
  have bm: "and b AuBrPerm_Mask = b" "and b AuBrAttr_CMOO_Mask = 0" "and X AuBrPerm_Mask = 0"
    using b X by (auto simp: br_flag_defs)
  have base: "and ?w AuBrPerm_Mask = b"
    using and_not_other [OF bm(3)] and_or_absorb [OF bm(1) br_attr_ok_perm [OF r]] by simp
  have "and ?w AuBrAttr_CMOO_Mask = and (and r AuBrAttr_CMOO_Mask) (not X)"
    by (rule perm_cmoo [OF bm(2)])
  moreover have "and r AuBrAttr_CMOO_Mask \<in> {0, AuBrAttr_COO_REG, AuBrAttr_COO_ALL, AuBrWAttr_MOO}"
    using r by (simp add: br_attr_ok_def cmoo_single_def)
  ultimately have c: "and ?w AuBrAttr_CMOO_Mask
      \<in> {0, AuBrAttr_COO_REG, AuBrAttr_COO_ALL, AuBrWAttr_MOO}"
    by (auto simp: X br_flag_defs)
  have "and ?w (not (or AuBrPerm_Mask (br_attr_all cfg))) = 0"
    using perm_bits_known bm(1) r by (simp add: br_attr_ok_def)
  moreover have "if b = AuBrPerm_RW then and ?w AuBrRAttr_Mask = 0 else and ?w AuBrWAttr_Mask = 0"
    using X by (cases "b = AuBrPerm_RW") simp_all
  ultimately show ?thesis using base b c by (simp add: br_perm_ok_def)
qed

lemma br_perm_val_cases:
  fixes mt cfg perm
  defines "b \<equiv> fst (mt (fst (strchr_plus perm)) brperm)"
  assumes mt: "literal_matcher mt"
  obtains "br_perm_val cfg mt perm \<in> {AuBrPerm_RW, AuBrPerm_RO, AuBrPerm_RR}"
  | p where "snd (strchr_plus perm) = Some p"
      and "b \<in> {AuBrPerm_RW, AuBrPerm_RO, AuBrPerm_RR}"
      and "br_perm_val cfg mt perm =
        and (or b (br_attr_val mt p (brattr cfg)))
          (not (if b = AuBrPerm_RW then AuBrRAttr_Mask else AuBrWAttr_Mask))"
proof -
  have bset: "b \<in> {0, AuBrPerm_RW, AuBrPerm_RO, AuBrPerm_RR}"
    using literal_lookup_range [of "fst (strchr_plus perm)" brperm] match_brperm [OF mt]
    unfolding b_def by (auto simp: brperm_def)
  show thesis
  proof (cases "b = 0 \<or> snd (strchr_plus perm) = None")
    case True
    then have "br_perm_val cfg mt perm \<in> {AuBrPerm_RW, AuBrPerm_RO, AuBrPerm_RR}"
      using bset by (auto simp: br_perm_val_def b_def [symmetric] Let_def)
    then show thesis by (rule that(1))
  next
    case False
    then obtain p where p: "snd (strchr_plus perm) = Some p" by auto
    have b: "b \<in> {AuBrPerm_RW, AuBrPerm_RO, AuBrPerm_RR}" using bset False by auto
    let ?r = "br_attr_val mt p (brattr cfg)"
    have bm: "and b AuBrPerm_Mask = b" using b by (auto simp: br_flag_defs)
    have "and (or b ?r) AuBrPerm_Mask = b"
      by (rule and_or_absorb [OF bm br_attr_ok_perm [OF br_attr_val_ok [OF mt]]])
    then have "br_perm_val cfg mt perm =
        and (or b ?r) (not (if b = AuBrPerm_RW then AuBrRAttr_Mask else AuBrWAttr_Mask))"
      using b False p
      by (auto simp: br_perm_val_def b_def [symmetric] Let_def AuBrPerm_RW_def AuBrPerm_RO_def
          AuBrPerm_RR_def)
    then show thesis using that(2) p b by blast
  qed
qed

lemma br_perm_val_ok:
  assumes "literal_matcher mt"
  shows "br_perm_ok cfg (br_perm_val cfg mt s)"
proof (cases rule: br_perm_val_cases [OF assms, of cfg s])
  case 1
  then show ?thesis by (rule br_perm_ok_base)
next
  case (2 p)
  then show ?thesis using br_perm_masked_ok [OF br_attr_val_ok [OF assms] 2(2) refl] by simp
qed

section \<open>Round trip\<close>

lemma and_not_id: "and p W = 0 \<Longrightarrow> and p (not W) = (p :: int)"
proof (rule bit_eqI)
  fix n assume "and p W = 0"
  from arg_cong [OF this, of "\<lambda>x. bit x n"]
  show "bit (and p (not W)) n \<longleftrightarrow> bit p n" by (auto simp: bit_and_iff bit_not_iff)
qed

lemma or_clear: "or (and p M) (and p (not (and p M))) = (p :: int)"
  by (rule bit_eqI) (auto simp: bit_and_iff bit_not_iff bit_or_iff)

lemma au_optstr_brperm:
  assumes "and p AuBrPerm_Mask = b" and "(b, s) \<in> set (fst brperm)"
  shows "au_optstr p (fst brperm) = (Some s, and p (not b))"
proof -
  have k: "and p k = and b k" if "and AuBrPerm_Mask k = k" for k
    using assms(1) that by (metis and.assoc)
  have "and p 2 = and b 2" "and p 4 = and b 4" "and p 1 = and b 1"
    by (rule k; simp add: br_flag_defs)+
  then show ?thesis
    using assms(2) by (auto simp: brperm_def AuBrPerm_RW_def AuBrPerm_RO_def AuBrPerm_RR_def)
qed

lemma canonical_attrs:
  assumes "br_perm_ok cfg p"
  defines "v \<equiv> and p (not (and p AuBrPerm_Mask))"
  shows "and v (not (br_attr_all cfg)) = 0" and "cmoo_single v" and "and v AuBrPerm_Mask = 0"
proof -
  have ok: "and p (not (or AuBrPerm_Mask (br_attr_all cfg))) = 0"
    using assms by (simp add: br_perm_ok_def)
  show "and v (not (br_attr_all cfg)) = 0"
  proof (rule bit_eqI)
    fix n
    show "bit (and v (not (br_attr_all cfg))) n \<longleftrightarrow> bit (0 :: int) n"
      using arg_cong [OF ok, of "\<lambda>x. bit x n"]
      by (auto simp: v_def bit_and_iff bit_not_iff bit_or_iff)
  qed
  have "cmoo_single p" using assms by (simp add: br_perm_ok_def cmoo_single_def)
  then show "cmoo_single v" unfolding v_def by (rule cmoo_single_sub)
  show "and v AuBrPerm_Mask = 0"
    by (rule bit_eqI) (auto simp: v_def bit_and_iff bit_not_iff bit_or_iff)
qed

lemma br_perm_base_entry:
  "br_perm_ok cfg p \<Longrightarrow> \<exists>s. (and p AuBrPerm_Mask, s) \<in> set (fst brperm)"
  by (auto simp: br_perm_ok_def brperm_def)

lemma br_perm_val_printed:
  assumes ok: "br_perm_ok cfg p" and mt: "literal_matcher mt"
    and b: "(and p AuBrPerm_Mask, s) \<in> set (fst brperm)"
    and attr: "br_attr_val mt a (brattr cfg) = and p (not (and p AuBrPerm_Mask))"
  shows "br_perm_val cfg mt (s @ CHR ''+'' # a) = p"
proof -
  let ?b = "and p AuBrPerm_Mask"
  have s: "literal_lookup s brperm = ?b" "CHR ''+'' \<notin> set s" "?b \<noteq> 0"
    using brperm_entries b ok by (auto simp: br_perm_ok_def br_flag_defs)
  have "fst (mt s brperm) = ?b" using match_brperm [OF mt] s by simp
  moreover have "or ?b (br_attr_val mt a (brattr cfg)) = p" using attr or_clear by simp
  moreover have "?b = AuBrPerm_RW \<Longrightarrow> and p (not AuBrRAttr_Mask) = p"
    and "?b \<noteq> AuBrPerm_RW \<Longrightarrow> and p (not AuBrWAttr_Mask) = p"
    using ok by (auto simp: br_perm_ok_def intro!: and_not_id)
  moreover have "?b \<in> {AuBrPerm_RW, AuBrPerm_RO, AuBrPerm_RR}"
    "AuBrPerm_RW \<noteq> AuBrPerm_RO" "AuBrPerm_RW \<noteq> AuBrPerm_RR"
    using ok by (auto simp: br_perm_ok_def br_flag_defs)
  ultimately show ?thesis
    using s by (auto simp: br_perm_val_def strchr_plus_some Let_def)
qed

lemma br_perm_val_print:
  assumes full: "cfg_full cfg" and mt: "literal_matcher mt" and ok: "br_perm_ok cfg p"
  shows "\<exists>str. au_optstr_br_perm cfg p = Some str \<and> br_perm_val cfg mt str = p"
proof -
  let ?b = "and p AuBrPerm_Mask" and ?v = "and p (not (and p AuBrPerm_Mask))"
  let ?ts = "pass_tokens ?v (fst (brattr cfg))"
  obtain s where b: "(?b, s) \<in> set (fst brperm)" using br_perm_base_entry [OF ok] by blast
  have s: "literal_lookup s brperm = ?b" "CHR ''+'' \<notin> set s" "?b \<noteq> 0"
    using brperm_entries b ok by (auto simp: br_perm_ok_def br_flag_defs)
  have print: "au_optstr_br_perm cfg p =
      Some (if tl (join_attrs ?ts) \<noteq> [] then s @ CHR ''+'' # tl (join_attrs ?ts) else s)"
    by (simp add: au_optstr_br_perm_def au_optstr_brperm [OF refl b] au_do_optstr_br_attr_pass
        Let_def)
  have ors: "ors ?ts = ?v" by (rule ors_pass_full [OF full canonical_attrs(1) [OF ok]])
  show ?thesis
  proof (cases ?ts)
    case Nil
    then have "?v = 0" using ors by simp
    then have "p = ?b" using or_clear [of p AuBrPerm_Mask] by simp
    then have "br_perm_val cfg mt s = p"
      using s match_brperm [OF mt] by (simp add: br_perm_val_def strchr_plus_none)
    then show ?thesis using print Nil by (simp add: join_attrs_def)
  next
    case (Cons e es)
    have mem: "\<forall>e' \<in> set (e # es). e' \<in> set (fst (brattr cfg)) \<and> fst e' \<noteq> 0"
      using Cons pass_tokens_subset [of ?v "fst (brattr cfg)"]
        pass_tokens_nonzero [of _ ?v "fst (brattr cfg)"] by auto
    then have ne: "snd e \<noteq> []" using brattr_entries by auto
    have j: "tl (join_attrs ?ts) = snd e @ join_attrs es" using Cons by (simp add: join_attrs_def)
    have "br_attr_val mt (snd e @ join_attrs es) (brattr cfg) = merge_all ?ts 0"
      unfolding br_attr_val_def Cons by (rule br_attr_loop_join [OF mt mem])
    also have "\<dots> = ?v"
      using merge_all_pass [OF canonical_attrs(2) [OF ok], of 0 "fst (brattr cfg)"] ors by simp
    finally have "br_perm_val cfg mt (s @ CHR ''+'' # snd e @ join_attrs es) = p"
      by (rule br_perm_val_printed [OF ok mt b])
    then show ?thesis using print j ne by simp
  qed
qed

section \<open>The printer's buffer\<close>

lemma pass_tokens_disjoint:
  "\<forall>e \<in> set t. and k (fst e) = 0 \<Longrightarrow> pass_tokens (and v (not k)) t = pass_tokens v t"
proof (induction t arbitrary: v)
  case (Cons e t)
  obtain j q where e: "e = (j, q)" by fastforce
  have m: "and (and v (not k)) j = and v j"
    using Cons.prems e and_not_other [of k j v] by simp
  have "and (and v (not k)) (not j) = and (and v (not j)) (not k)"
    by (simp add: and.assoc and.commute and.left_commute)
  then show ?case using Cons m e by simp
qed simp

lemma pass_tokens_split:
  "\<forall>e \<in> set t. and k (fst e) = 0 \<Longrightarrow> k \<noteq> 0 \<Longrightarrow>
     pass_tokens v ((k, p) # t) = (if and v k = k then [(k, p)] else []) @ pass_tokens v t"
  using pass_tokens_disjoint by simp

lemma pass_tokens_covered:
  assumes "\<forall>e \<in> set a. and (fst e) k = fst e \<and> fst e \<noteq> 0" and "\<forall>e \<in> set t. and k (fst e) = 0"
    and "k \<noteq> 0" and "and v k = k"
  shows "pass_tokens v ((k, p) # a @ t) = (k, p) # pass_tokens v t"
proof -
  have "pass_tokens (and v (not k)) (a @ t) = pass_tokens (and v (not k)) t"
    using assms(1)
  proof (induction a)
    case (Cons e a)
    obtain j q where e: "e = (j, q)" by fastforce
    have "and (and v (not k)) j = 0"
    proof (rule bit_eqI)
      fix n
      have "and j k = j" using Cons.prems e by simp
      from arg_cong [OF this, of "\<lambda>x. bit x n"]
      show "bit (and (and v (not k)) j) n \<longleftrightarrow> bit (0 :: int) n"
        by (auto simp: bit_and_iff bit_not_iff)
    qed
    then show ?case using Cons e by auto
  qed simp
  then show ?thesis using assms pass_tokens_disjoint by simp
qed

definition opt_len :: "int \<Rightarrow> int \<Rightarrow> nat \<Rightarrow> nat" where
  "opt_len v k n = (if and v k = k then n else 0)"

lemma join_attrs_Nil [simp]: "join_attrs [] = []"
  by (simp add: join_attrs_def)

lemma attr_len_split:
  "\<forall>e \<in> set t. and k (fst e) = 0 \<Longrightarrow> k \<noteq> 0 \<Longrightarrow>
     length (join_attrs (pass_tokens v ((k, p) # t))) =
       opt_len v k (length p + 1) + length (join_attrs (pass_tokens v t))"
  using pass_tokens_split [of t k v p] by (simp add: join_attrs_def opt_len_def)

lemma attr_len_icex:
  assumes "\<forall>e \<in> set t. and 3968 (fst e) = 0"
  shows "length (join_attrs (pass_tokens v
      ((3968, ''icex'') # (128, ''icexsec'') # (256, ''icexsys'') # (512, ''icextr'')
        # (1024, ''icexusr'') # (2048, ''icexoth'') # t)))
      \<le> 32 + length (join_attrs (pass_tokens v t))"
proof (cases "and v 3968 = (3968 :: int)")
  case True
  then have "pass_tokens v ((3968, ''icex'') # [(128, ''icexsec''), (256, ''icexsys''),
      (512, ''icextr''), (1024, ''icexusr''), (2048, ''icexoth'')] @ t)
      = (3968, ''icex'') # pass_tokens v t"
    by (intro pass_tokens_covered) (use assms in simp_all)
  then show ?thesis by (simp add: join_attrs_def)
next
  case False
  have part: "and v 3968 = (3968 :: int)"
    if "and v 128 = (128 :: int)" "and v 256 = (256 :: int)" "and v 512 = (512 :: int)"
      "and v 1024 = (1024 :: int)" "and v 2048 = (2048 :: int)"
  proof -
    have "and v 3968 = or (and v 128) (or (and v 256) (or (and v 512)
        (or (and v 1024) (and v 2048))))"
      by (simp add: bit.conj_disj_distrib [symmetric])
    then show ?thesis using that by simp
  qed
  have t: "and j (fst e) = 0" if "e \<in> set t" "and j 3968 = j" for e j
    using assms that by (metis and.assoc and_zero_eq)
  have "\<forall>e \<in> set t. and 128 (fst e) = 0" "\<forall>e \<in> set t. and 256 (fst e) = 0"
    "\<forall>e \<in> set t. and 512 (fst e) = 0" "\<forall>e \<in> set t. and 1024 (fst e) = 0"
    "\<forall>e \<in> set t. and 2048 (fst e) = 0"
    using t by simp_all
  then have "length (join_attrs (pass_tokens v
      ((3968, ''icex'') # (128, ''icexsec'') # (256, ''icexsys'') # (512, ''icextr'')
        # (1024, ''icexusr'') # (2048, ''icexoth'') # t)))
    = opt_len v 128 8 + (opt_len v 256 8 + (opt_len v 512 7 + (opt_len v 1024 8
        + (opt_len v 2048 8 + length (join_attrs (pass_tokens v t))))))"
    using False by (subst pass_tokens.simps) (simp add: attr_len_split eval_nat_numeral del: pass_tokens.simps)
  then show ?thesis using part False by (auto simp: opt_len_def)
qed

lemma cmoo_len:
  assumes "cmoo_single v"
  shows "opt_len v 8 8 + opt_len v 16 8 + opt_len v 16384 4 \<le> 8"
proof -
  have c: "and v AuBrAttr_CMOO_Mask \<in> {0, 8, 16, 16384}"
    using assms by (simp add: cmoo_single_def br_flag_defs)
  have k: "and v k = and (and v AuBrAttr_CMOO_Mask) k" if "and AuBrAttr_CMOO_Mask k = k" for k
    using that by (metis and.assoc)
  have "and v 8 = and (and v AuBrAttr_CMOO_Mask) 8"
    "and v 16 = and (and v AuBrAttr_CMOO_Mask) 16"
    "and v 16384 = and (and v AuBrAttr_CMOO_Mask) 16384"
    by (rule k; simp add: br_flag_defs)+
  then show ?thesis using c by (auto simp: opt_len_def)
qed

lemma attr_len_bound:
  assumes single: "cmoo_single v" and w: "and v 4096 = 0 \<or> and v 8192 = (0 :: int)"
  shows "length (join_attrs (pass_tokens v (fst (brattr cfg)))) \<le> 57"
proof -
  let ?rest = "[(4096 :: int, ''wh''), (16384, ''moo''), (8192, ''nolwh'')]"
  have rest: "length (join_attrs (pass_tokens v ?rest))
      = opt_len v 4096 3 + (opt_len v 16384 4 + opt_len v 8192 6)"
    by (simp add: attr_len_split eval_nat_numeral del: pass_tokens.simps(2))
  have wh: "opt_len v 4096 3 + opt_len v 8192 6 \<le> 6" using w by (auto simp: opt_len_def)
  have small: "opt_len v 64 6 \<le> 6" "opt_len v 32 5 \<le> 5" by (auto simp: opt_len_def)
  show ?thesis
  proof (cases "cfg_fhsm cfg")
    case False
    then have "length (join_attrs (pass_tokens v (fst (brattr cfg))))
        = opt_len v 8 8 + (opt_len v 16 8 + opt_len v 64 6)"
      by (simp add: brattr_def br_flag_defs attr_len_split eval_nat_numeral
          pass_tokens.simps(2) [of _ 0] del: pass_tokens.simps(2))
    then show ?thesis using small cmoo_len [OF single] by linarith
  next
    case fhsm: True
    show ?thesis
    proof (cases "cfg_xattr cfg")
      case False
      then have "length (join_attrs (pass_tokens v (fst (brattr cfg))))
          = opt_len v 8 8 + (opt_len v 16 8 + (opt_len v 64 6 + opt_len v 32 5))"
        using fhsm
        by (simp add: brattr_def br_flag_defs attr_len_split eval_nat_numeral
            pass_tokens.simps(2) [of _ 0] del: pass_tokens.simps(2))
      then show ?thesis using small cmoo_len [OF single] by linarith
    next
      case True
      let ?icex = "(3968, ''icex'') # (128, ''icexsec'') # (256, ''icexsys'') # (512, ''icextr'')
        # (1024, ''icexusr'') # (2048, ''icexoth'') # ?rest"
      have "length (join_attrs (pass_tokens v (fst (brattr cfg))))
          = opt_len v 8 8 + (opt_len v 16 8 + (opt_len v 64 6 + (opt_len v 32 5
            + length (join_attrs (pass_tokens v ?icex)))))"
        using fhsm True
        by (simp add: brattr_def br_flag_defs attr_len_split eval_nat_numeral
            del: pass_tokens.simps)
      moreover have "length (join_attrs (pass_tokens v ?icex))
          \<le> 32 + length (join_attrs (pass_tokens v ?rest))"
        by (rule attr_len_icex) simp
      ultimately show ?thesis
        using small wh rest cmoo_len [OF single] by linarith
    qed
  qed
qed

lemma br_perm_print_length:
  assumes ok: "br_perm_ok cfg p"
  shows "\<exists>str. au_optstr_br_perm cfg p = Some str \<and> length str < AuBrPermStrSz"
proof -
  let ?b = "and p AuBrPerm_Mask" and ?v = "and p (not (and p AuBrPerm_Mask))"
  obtain s where b: "(?b, s) \<in> set (fst brperm)" using br_perm_base_entry [OF ok] by blast
  then have s: "length s = 2" by (auto simp: brperm_def)
  have w: "and p 4096 = 0 \<or> and p 8192 = 0"
  proof -
    have "and p 8192 = and (and p AuBrWAttr_Mask) 8192"
      by (simp add: and.assoc br_flag_defs)
    then show ?thesis
      using ok by (auto simp: br_perm_ok_def AuBrRAttr_Mask_def AuBrRAttr_WH_def split: if_splits)
  qed
  have "length (join_attrs (pass_tokens ?v (fst (brattr cfg)))) \<le> 57"
    by (rule attr_len_bound [OF canonical_attrs(2) [OF ok]]) (use w and_sub_zero in blast)
  then show ?thesis
    by (auto simp: au_optstr_br_perm_def au_optstr_brperm [OF refl b] au_do_optstr_br_attr_pass
        Let_def s AuBrPermStrSz_def)
qed

section \<open>Properties\<close>

text \<open>\<open>match_token\<close> on the literal tables, for the witnesses.\<close>

definition lookup_matcher :: matcher where
  "lookup_matcher s tbl = (literal_lookup s tbl, [])"

lemma lookup_matcher_literal: "literal_matcher lookup_matcher"
  by (simp add: literal_matcher_def lookup_matcher_def)

definition full_config :: kconfig where
  "full_config = kconfig_of True True"

definition small_config :: kconfig where
  "small_config = kconfig_of False False"

text \<open>
  C14: with every attribute configured, what \<open>au_optstr_br_perm\<close> shows for a branch (in
  \<open>/proc/mounts\<close>, in sysfs) parses back to the same permission, for every permission string
  the branch may have been given.
\<close>

theorem br_perm_roundtrip:
  assumes "cfg_full cfg" and "literal_matcher mt"
  shows "\<exists>str. au_optstr_br_perm cfg (br_perm_val cfg mt s) = Some str
           \<and> br_perm_val cfg mt str = br_perm_val cfg mt s"
  by (rule br_perm_val_print [OF assms br_perm_val_ok [OF assms(2)]])

theorem br_perm_roundtrip_witness:
  "\<exists>str. au_optstr_br_perm full_config (br_perm_val full_config lookup_matcher ''rw+moo+nolwh'')
      = Some str
    \<and> br_perm_val full_config lookup_matcher str
      = br_perm_val full_config lookup_matcher ''rw+moo+nolwh''"
proof -
  have "cfg_full full_config" by (simp add: cfg_full_def full_config_def kconfig_of_def)
  then show ?thesis using br_perm_roundtrip [OF _ lookup_matcher_literal] by blast
qed

text \<open>
  C16: for any string, \<open>br_perm_val\<close> returns a canonical permission (one of rw, ro, rr; at most
  one of coo_reg, coo_all, moo; no attribute that contradicts the permission), and its printed
  form fits the fixed buffer \<open>au_br_perm_str_t\<close> with its terminating NUL.
\<close>

theorem br_perm_val_canonical_fits:
  assumes "literal_matcher mt"
  shows "br_perm_ok cfg (br_perm_val cfg mt s)
    \<and> (\<exists>str. au_optstr_br_perm cfg (br_perm_val cfg mt s) = Some str
         \<and> length str + 1 \<le> AuBrPermStrSz)"
  using br_perm_print_length [OF br_perm_val_ok [OF assms]] br_perm_val_ok [OF assms]
  by (simp add: Suc_le_eq)

theorem br_perm_val_canonical_fits_witness:
  "br_perm_ok full_config (br_perm_val full_config lookup_matcher ''ro+wh+bogus'')
    \<and> (\<exists>str. au_optstr_br_perm full_config
            (br_perm_val full_config lookup_matcher ''ro+wh+bogus'') = Some str
         \<and> length str + 1 \<le> AuBrPermStrSz)"
  by (rule br_perm_val_canonical_fits [OF lookup_matcher_literal])

text \<open>
  without \<open>CONFIG_AUFS_FHSM\<close> the token of \<open>fhsm\<close> is zero and ends the scan of
  \<open>au_optstr\<close>, so the attributes after it in the table are lost: a branch mounted
  \<open>ro+wh\<close> (which the parser accepts) is shown as \<open>ro\<close>.
\<close>

theorem br_perm_print_drops_wh:
  assumes "\<not> cfg_fhsm cfg" and "literal_matcher mt"
  shows "br_perm_val cfg mt ''ro+wh'' = or AuBrPerm_RO AuBrRAttr_WH
    \<and> au_optstr_br_perm cfg (br_perm_val cfg mt ''ro+wh'') = Some ''ro''"
proof -
  have s: "strchr_plus ''ro+wh'' = (''ro'', Some ''wh'')" "strchr_plus ''wh'' = (''wh'', None)"
    by (simp_all add: strchr_plus_def)
  have l: "fst (mt ''ro'' brperm) = 2" "fst (mt ''wh'' (brattr cfg)) = 4096"
    using match_brperm [OF assms(2)] match_brattr [OF assms(2)]
    by (simp_all add: literal_lookup_def brperm_def brattr_def br_flag_defs)
  have "br_perm_val cfg mt ''ro+wh'' = 4098"
    by (simp add: br_perm_val_def s l br_attr_val_def br_attr_loop.simps [of mt _ "''wh''"]
        merge_attr_def br_flag_defs)
  moreover have "au_optstr_br_perm cfg 4098 = Some ''ro''"
    using assms(1)
    by (simp add: au_optstr_br_perm_def brperm_def br_flag_defs au_do_optstr_br_attr_def brattr_def)
  ultimately show ?thesis by (simp add: br_flag_defs)
qed

theorem br_perm_print_drops_wh_witness:
  "br_perm_val small_config lookup_matcher ''ro+wh'' = or AuBrPerm_RO AuBrRAttr_WH
    \<and> au_optstr_br_perm small_config (br_perm_val small_config lookup_matcher ''ro+wh'')
      = Some ''ro''"
  by (rule br_perm_print_drops_wh) (simp_all add: small_config_def kconfig_of_def lookup_matcher_literal)

end
