(* ===== verification/Sbinfo.thy ===== *)
theory Sbinfo
  imports Br_Perm
begin

text \<open>
  The superblock's private data (\<open>struct au_sbinfo\<close>, \<open>super.h\<close> and \<open>sbinfo.c\<close>), the
  branches it holds (\<open>struct au_branch\<close>, \<open>branch.h\<close>), the mount flags of \<open>opts.h\<close>, and
  the branch-id generator \<open>au_new_br_id\<close>.

  The configuration of branch indices is \<open>CONFIG_AUFS_BRANCH_MAX_127\<close>, the default of the
  Kconfig file: \<open>aufs_bindex_t\<close> is 8 bits wide, so the bit field \<open>si_last_br_id\<close> has 7 bits.
\<close>

section \<open>Mount flags\<close>

definition AuOpt_XINO :: int where "AuOpt_XINO = 1"
definition AuOpt_TRUNC_XINO :: int where "AuOpt_TRUNC_XINO = 2"
definition AuOpt_UDBA_NONE :: int where "AuOpt_UDBA_NONE = 4"
definition AuOpt_UDBA_REVAL :: int where "AuOpt_UDBA_REVAL = 8"
definition AuOpt_UDBA_HNOTIFY :: "kconfig \<Rightarrow> int" where
  "AuOpt_UDBA_HNOTIFY cfg = (if cfg_hnotify cfg then 16 else 0)"
definition AuOpt_SHWH :: "kconfig \<Rightarrow> int" where
  "AuOpt_SHWH cfg = (if cfg_shwh cfg then 32 else 0)"
definition AuOpt_PLINK :: int where "AuOpt_PLINK = 64"
definition AuOpt_DIRPERM1 :: int where "AuOpt_DIRPERM1 = 128"
definition AuOpt_REFROF :: int where "AuOpt_REFROF = 256"
definition AuOpt_ALWAYS_DIROPQ :: int where "AuOpt_ALWAYS_DIROPQ = 512"
definition AuOpt_SUM :: int where "AuOpt_SUM = 1024"
definition AuOpt_SUM_W :: int where "AuOpt_SUM_W = 2048"
definition AuOpt_WARN_PERM :: int where "AuOpt_WARN_PERM = 4096"
definition AuOpt_VERBOSE :: int where "AuOpt_VERBOSE = 8192"
definition AuOpt_DIO :: int where "AuOpt_DIO = 16384"

definition AuOpt_Def :: int where
  "AuOpt_Def = or (or (or AuOpt_XINO AuOpt_UDBA_REVAL) AuOpt_PLINK) AuOpt_WARN_PERM"
definition AuOptMask_UDBA :: "kconfig \<Rightarrow> int" where
  "AuOptMask_UDBA cfg = or (or AuOpt_UDBA_NONE AuOpt_UDBA_REVAL) (AuOpt_UDBA_HNOTIFY cfg)"

lemmas opt_flag_defs =
  AuOpt_XINO_def AuOpt_TRUNC_XINO_def AuOpt_UDBA_NONE_def AuOpt_UDBA_REVAL_def
  AuOpt_UDBA_HNOTIFY_def AuOpt_SHWH_def AuOpt_PLINK_def AuOpt_DIRPERM1_def AuOpt_REFROF_def
  AuOpt_ALWAYS_DIROPQ_def AuOpt_SUM_def AuOpt_SUM_W_def AuOpt_WARN_PERM_def
  AuOpt_VERBOSE_def AuOpt_DIO_def AuOpt_Def_def AuOptMask_UDBA_def

definition au_opt_test :: "int \<Rightarrow> int \<Rightarrow> bool" where
  "au_opt_test flags name = (and flags name \<noteq> 0)"
definition au_opt_set :: "int \<Rightarrow> int \<Rightarrow> int" where
  "au_opt_set flags name = or flags name"
definition au_opt_set_udba :: "kconfig \<Rightarrow> int \<Rightarrow> int \<Rightarrow> int" where
  "au_opt_set_udba cfg flags name = or (and flags (not (AuOptMask_UDBA cfg))) name"
definition au_opt_clr :: "int \<Rightarrow> int \<Rightarrow> int" where
  "au_opt_clr flags name = and flags (not name)"
definition au_opts_plink :: "kconfig \<Rightarrow> int \<Rightarrow> int" where
  "au_opts_plink cfg mntflags =
     (if cfg_proc_fs cfg then mntflags else and mntflags (not AuOpt_PLINK))"

section \<open>Branches\<close>

text \<open>A lower superblock, as far as aufs looks at it; dentries and files are addresses.\<close>

type_synonym dptr = nat
type_synonym fptr = nat
type_synonym iptr = nat

record h_super =
  s_magic :: int
  s_type_name :: string
  s_rdonly :: bool
  s_requires_dev :: bool

text \<open>\<open>struct au_wbr\<close>: the whiteout base, the pseudo-link directory, the orphan directory.\<close>

record au_wbr =
  wbr_whbase :: "dptr option"
  wbr_plink :: "dptr option"
  wbr_orph :: "dptr option"
  wbr_bytes :: u64

record au_branch =
  br_id :: bindex
  br_perm :: int
  br_dflags :: bool
  br_dentry :: dptr
  br_sb :: h_super
  br_count :: int
  br_wbr :: "au_wbr option"
  br_fhsm :: bool
  br_xino_file :: "fptr option"

text \<open>\<open>au_br_rdonly\<close>: the lower superblock or the branch is readonly.\<close>

definition au_br_rdonly :: "au_branch \<Rightarrow> bool" where
  "au_br_rdonly br = (s_rdonly (br_sb br) \<or> \<not> au_br_writable (br_perm br))"

definition au_br_hnotifyable :: "kconfig \<Rightarrow> int \<Rightarrow> bool" where
  "au_br_hnotifyable cfg perm = (cfg_hnotify cfg \<and> and perm AuBrPerm_RR = 0)"

section \<open>The superblock information\<close>

record au_wbr_mfs =
  mfs_jiffy :: u32
  mfs_expire :: u32
  mfs_bindex :: bindex
  mfsrr_bytes :: u64
  mfsrr_watermark :: u64

record au_sbinfo =
  si_generation :: u32
  si_fhsm_active :: bool
  si_bend :: bindex
  si_last_br_id :: "7 word"
  si_branch :: "au_branch option list"
  si_wbr_copyup :: int
  si_wbr_create :: int
  si_wbr_rr_next :: u32
  si_wbr_mfs :: au_wbr_mfs
  si_fhsm_expire :: u32
  si_fhsm_bottom :: bindex
  si_mntflags :: int
  si_xino_brid :: bindex
  si_xino_jiffy :: u32
  si_xino_expire :: u32
  si_rdcache :: u32
  si_rdblk :: u32
  si_rdhash :: u32
  si_dirwh :: u32

definition AUFS_BRANCH_MAX :: int where "AUFS_BRANCH_MAX = 127"
definition AUFS_RDBLK_DEF :: u32 where "AUFS_RDBLK_DEF = 512"
definition AUFS_RDHASH_DEF :: u32 where "AUFS_RDHASH_DEF = 32"
definition AUFS_RDCACHE_DEF :: int where "AUFS_RDCACHE_DEF = 10"
definition AUFS_XINO_DEF_SEC :: int where "AUFS_XINO_DEF_SEC = 30"
definition AUFS_DIRWH_DEF :: u32 where "AUFS_DIRWH_DEF = 3"
definition AUFS_FHSM_CACHE_DEF_SEC :: int where "AUFS_FHSM_CACHE_DEF_SEC = 30"
definition MSEC_PER_SEC :: int where "MSEC_PER_SEC = 1000"

text \<open>
  \<open>au_si_alloc\<close>. The oracle answers the three allocations in their order, \<open>sysfs_err\<close> is
  the result of \<open>sysaufs_si_init\<close>, \<open>mj\<close> is \<open>msecs_to_jiffies\<close>. On an error everything
  allocated so far is freed and no \<open>au_sbinfo\<close> exists. Fields the code leaves to the zeroing
  \<open>kzalloc\<close> are zero.
\<close>

definition au_si_alloc ::
    "kconfig \<Rightarrow> (int \<Rightarrow> u32) \<Rightarrow> u32 \<Rightarrow> int \<Rightarrow> mem_oracle \<Rightarrow> int \<times> au_sbinfo option" where
  "au_si_alloc cfg mj jiffies sysfs_err o0 =
     (let (a_sbinfo, o1) = take_alloc o0;
          (a_pidmap, o2) = take_alloc o1;
          (a_branch, o3) = take_alloc o2
      in if \<not> a_sbinfo \<or> \<not> a_pidmap \<or> \<not> a_branch then (- ENOMEM, None)
         else if sysfs_err \<noteq> 0 then (sysfs_err, None)
         else (0, Some
           \<lparr>si_generation = 0, si_fhsm_active = False,
            si_bend = - 1,
            si_last_br_id = of_int (AUFS_BRANCH_MAX div 2),
            si_branch = [None],
            si_wbr_copyup = 0, si_wbr_create = 0,
            si_wbr_rr_next = 0,
            si_wbr_mfs = \<lparr>mfs_jiffy = 0, mfs_expire = 0, mfs_bindex = 0,
                          mfsrr_bytes = 0, mfsrr_watermark = 0\<rparr>,
            si_fhsm_expire =
              (if cfg_fhsm cfg then mj (AUFS_FHSM_CACHE_DEF_SEC * MSEC_PER_SEC) else 0),
            si_fhsm_bottom = (if cfg_fhsm cfg then - 1 else 0),
            si_mntflags = au_opts_plink cfg AuOpt_Def,
            si_xino_brid = - 1,
            si_xino_jiffy = jiffies,
            si_xino_expire = mj (AUFS_XINO_DEF_SEC * MSEC_PER_SEC),
            si_rdcache = mj (AUFS_RDCACHE_DEF * MSEC_PER_SEC),
            si_rdblk = AUFS_RDBLK_DEF,
            si_rdhash = AUFS_RDHASH_DEF,
            si_dirwh = AUFS_DIRWH_DEF\<rparr>))"

definition au_sbend :: "au_sbinfo \<Rightarrow> bindex" where
  "au_sbend sbi = si_bend sbi"
definition au_mntflags :: "au_sbinfo \<Rightarrow> int" where
  "au_mntflags sbi = si_mntflags sbi"
definition au_sigen :: "au_sbinfo \<Rightarrow> u32" where
  "au_sigen sbi = si_generation sbi"
definition au_xino_brid :: "au_sbinfo \<Rightarrow> bindex" where
  "au_xino_brid sbi = si_xino_brid sbi"
definition au_xino_brid_set :: "au_sbinfo \<Rightarrow> bindex \<Rightarrow> au_sbinfo" where
  "au_xino_brid_set sbi brid = sbi\<lparr>si_xino_brid := brid\<rparr>"

text \<open>\<open>au_sbr\<close> dereferenced: \<open>None\<close> out of the array or through a NULL pointer.\<close>

definition au_sbr :: "au_sbinfo \<Rightarrow> bindex \<Rightarrow> au_branch option" where
  "au_sbr sbi bindex = Option.bind (arr_get (si_branch sbi) bindex) (\<lambda>br. br)"

definition au_sbr_id :: "au_sbinfo \<Rightarrow> bindex \<Rightarrow> bindex option" where
  "au_sbr_id sbi bindex = map_option br_id (au_sbr sbi bindex)"
definition au_sbr_perm :: "au_sbinfo \<Rightarrow> bindex \<Rightarrow> int option" where
  "au_sbr_perm sbi bindex = map_option br_perm (au_sbr sbi bindex)"
definition au_sbr_whable :: "au_sbinfo \<Rightarrow> bindex \<Rightarrow> bool option" where
  "au_sbr_whable sbi bindex = map_option au_br_whable (au_sbr_perm sbi bindex)"

text \<open>\<open>au_sbr_realloc\<close>: the result and the error.\<close>

definition au_sbr_realloc :: "au_sbinfo \<Rightarrow> int \<Rightarrow> bool \<Rightarrow> (int \<times> au_sbinfo) option" where
  "au_sbr_realloc sbi nbr alloc_ok =
     (let sz = (if si_bend sbi + 1 = 0 then 1 else si_bend sbi + 1)
      in case au_kzrealloc (si_branch sbi) sz nbr None alloc_ok of
           None \<Rightarrow> None
         | Some None \<Rightarrow> Some (- ENOMEM, sbi)
         | Some (Some brp) \<Rightarrow> Some (0, sbi\<lparr>si_branch := brp\<rparr>))"

section \<open>Branch ids\<close>

text \<open>\<open>au_br_index\<close> of \<open>branch.c\<close>: the index of a branch id, or -1.\<close>

definition au_br_index :: "au_sbinfo \<Rightarrow> bindex \<Rightarrow> bindex option" where
  "au_br_index sbi brid =
     map_option (\<lambda>r. case r of None \<Rightarrow> - 1 | Some b \<Rightarrow> b)
       (first_up (\<lambda>b. map_option (\<lambda>i. i = brid) (au_sbr_id sbi b)) 0 (au_sbend sbi))"

text \<open>
  \<open>au_new_br_id\<close>: \<open>br_id = ++sbinfo->si_last_br_id\<close> on the 7-bit field, at most
  \<open>AUFS_BRANCH_MAX + 1\<close> times.
\<close>

fun new_br_id_loop :: "nat \<Rightarrow> au_sbinfo \<Rightarrow> (bindex \<times> au_sbinfo) option" where
  "new_br_id_loop 0 sbi = Some (- 1, sbi)"
| "new_br_id_loop (Suc n) sbi =
     (let sbi' = sbi\<lparr>si_last_br_id := si_last_br_id sbi + 1\<rparr>;
          brid = uint (si_last_br_id sbi')
      in if brid \<noteq> 0 then
           (case au_br_index sbi' brid of
              None \<Rightarrow> None
            | Some i \<Rightarrow> if i < 0 then Some (brid, sbi') else new_br_id_loop n sbi')
         else new_br_id_loop n sbi')"

definition au_new_br_id :: "au_sbinfo \<Rightarrow> (bindex \<times> au_sbinfo) option" where
  "au_new_br_id sbi = new_br_id_loop (nat (AUFS_BRANCH_MAX + 1)) sbi"

section \<open>Well-formed branch tables\<close>

text \<open>
  The branches are in the slots \<open>0..si_bend\<close>, their ids are distinct and not negative.
\<close>

definition live_branches :: "au_sbinfo \<Rightarrow> au_branch option list" where
  "live_branches sbi = take (nat (si_bend sbi + 1)) (si_branch sbi)"

definition sbi_wf :: "au_sbinfo \<Rightarrow> bool" where
  "sbi_wf sbi =
     (- 1 \<le> si_bend sbi \<and> si_bend sbi < AUFS_BRANCH_MAX
      \<and> si_bend sbi < int (length (si_branch sbi))
      \<and> None \<notin> set (live_branches sbi)
      \<and> distinct (map (map_option br_id) (live_branches sbi)))"

lemma sbi_wf_sbr:
  assumes "sbi_wf sbi" and "0 \<le> b" and "b \<le> si_bend sbi"
  shows "\<exists>br. au_sbr sbi b = Some br \<and> live_branches sbi ! nat b = Some br
    \<and> nat b < length (live_branches sbi)"
proof -
  have len: "nat b < length (live_branches sbi)" "b < int (length (si_branch sbi))"
    using assms by (auto simp: sbi_wf_def live_branches_def)
  then have "live_branches sbi ! nat b \<noteq> None"
    using assms(1) nth_mem [OF len(1)] unfolding sbi_wf_def by metis
  then obtain br where "live_branches sbi ! nat b = Some br" by blast
  then show ?thesis
    using len assms by (auto simp: au_sbr_def arr_get_def live_branches_def)
qed

definition branch_ids :: "au_sbinfo \<Rightarrow> bindex set" where
  "branch_ids sbi = {i. \<exists>br. Some br \<in> set (live_branches sbi) \<and> br_id br = i}"

lemma au_sbr_live:
  assumes "sbi_wf sbi"
  shows "Some br \<in> set (live_branches sbi) \<longleftrightarrow>
    (\<exists>b. 0 \<le> b \<and> b \<le> si_bend sbi \<and> au_sbr sbi b = Some br)"
proof
  assume "Some br \<in> set (live_branches sbi)"
  then obtain n where n: "n < length (live_branches sbi)" "live_branches sbi ! n = Some br"
    by (auto simp: in_set_conv_nth)
  then have "0 \<le> int n" "int n \<le> si_bend sbi" by (auto simp: live_branches_def)
  then show "\<exists>b. 0 \<le> b \<and> b \<le> si_bend sbi \<and> au_sbr sbi b = Some br"
    using sbi_wf_sbr [OF assms, of "int n"] n by (auto intro!: exI [of _ "int n"])
next
  assume "\<exists>b. 0 \<le> b \<and> b \<le> si_bend sbi \<and> au_sbr sbi b = Some br"
  then obtain b where b: "0 \<le> b" "b \<le> si_bend sbi" "au_sbr sbi b = Some br" by blast
  obtain br' where br': "au_sbr sbi b = Some br'" "live_branches sbi ! nat b = Some br'"
    "nat b < length (live_branches sbi)" using sbi_wf_sbr [OF assms b(1,2)] by (elim exE conjE)
  have "live_branches sbi ! nat b = Some br" using br' b(3) by simp
  then show "Some br \<in> set (live_branches sbi)" using br'(3) nth_mem by metis
qed

lemma au_br_index_spec:
  assumes wf: "sbi_wf sbi"
  shows "\<exists>i. au_br_index sbi brid = Some i \<and> (i < 0 \<longleftrightarrow> brid \<notin> branch_ids sbi)
    \<and> (0 \<le> i \<longrightarrow> i \<le> si_bend sbi \<and> au_sbr_id sbi i = Some brid)"
proof -
  let ?P = "\<lambda>b. map_option (\<lambda>i. i = brid) (au_sbr_id sbi b)"
  have tot: "?P b \<noteq> None" if "0 \<le> b" "b \<le> au_sbend sbi" for b
    using sbi_wf_sbr [OF wf that(1)] that(2) by (auto simp: au_sbend_def au_sbr_id_def)
  have "first_up ?P 0 (au_sbend sbi) \<noteq> None" by (rule first_up_total) (rule tot)
  then obtain r where r: "first_up ?P 0 (au_sbend sbi) = Some r" by blast
  show ?thesis
  proof (cases r)
    case None
    have "brid \<notin> branch_ids sbi"
    proof
      assume "brid \<in> branch_ids sbi"
      then obtain br b where "0 \<le> b" "b \<le> si_bend sbi" "au_sbr sbi b = Some br" "br_id br = brid"
        using au_sbr_live [OF wf] by (auto simp: branch_ids_def)
      then show False
        using first_up_none [OF r [unfolded None], of b] by (simp add: au_sbend_def au_sbr_id_def)
    qed
    then show ?thesis using r None by (simp add: au_br_index_def)
  next
    case (Some k)
    note f = first_up_found [OF r [unfolded Some]]
    then have k: "0 \<le> k" "k \<le> si_bend sbi" "au_sbr_id sbi k = Some brid"
      by (auto simp: au_sbend_def)
    then have "brid \<in> branch_ids sbi"
      using au_sbr_live [OF wf] by (auto simp: branch_ids_def au_sbr_id_def)
    then show ?thesis using r Some k by (simp add: au_br_index_def)
  qed
qed

lemma last_br_id_frame [simp]:
  "live_branches (sbi\<lparr>si_last_br_id := w\<rparr>) = live_branches sbi"
  "branch_ids (sbi\<lparr>si_last_br_id := w\<rparr>) = branch_ids sbi"
  "sbi_wf (sbi\<lparr>si_last_br_id := w\<rparr>) = sbi_wf sbi"
  by (simp_all add: live_branches_def branch_ids_def sbi_wf_def)

lemma new_br_id_loop_spec:
  assumes "sbi_wf sbi"
  shows "\<exists>r w. new_br_id_loop n sbi = Some (r, sbi\<lparr>si_last_br_id := w\<rparr>)
    \<and> (0 < r \<and> r < 128 \<and> r \<notin> branch_ids sbi \<and> r = uint w
       \<or> r = - 1 \<and> (\<forall>k \<in> {1..n}. let i = uint (si_last_br_id sbi + of_nat k)
                                   in i = 0 \<or> i \<in> branch_ids sbi))"
  using assms
proof (induction n arbitrary: sbi)
  case 0
  show ?case by (intro exI [of _ "- 1"] exI [of _ "si_last_br_id sbi"]) simp
next
  case (Suc n)
  let ?w = "si_last_br_id sbi + 1"
  let ?s = "sbi\<lparr>si_last_br_id := ?w\<rparr>"
  obtain i where i: "au_br_index ?s (uint ?w) = Some i"
    "i < 0 \<longleftrightarrow> uint ?w \<notin> branch_ids sbi"
    using au_br_index_spec [of ?s "uint ?w"] Suc.prems by auto
  show ?case
  proof (cases "uint ?w \<noteq> 0 \<and> uint ?w \<notin> branch_ids sbi")
    case True
    have "0 \<le> uint ?w" "uint ?w < 128"
      using uint_lt2p [of ?w] by simp_all
    then have "0 < uint ?w" "uint ?w < 128" using True by linarith+
    then show ?thesis
      using True i by (intro exI [of _ "uint ?w"] exI [of _ ?w]) (simp add: Let_def)
  next
    case False
    then have step: "new_br_id_loop (Suc n) sbi = new_br_id_loop n ?s"
      using i by (auto simp: Let_def)
    obtain r w where r: "new_br_id_loop n ?s = Some (r, ?s\<lparr>si_last_br_id := w\<rparr>)"
      "0 < r \<and> r < 128 \<and> r \<notin> branch_ids sbi \<and> r = uint w
       \<or> r = - 1 \<and> (\<forall>k \<in> {1..n}. let i = uint (?w + of_nat k) in i = 0 \<or> i \<in> branch_ids sbi)"
      using Suc.IH [of ?s] Suc.prems by auto
    have "\<forall>k \<in> {1..Suc n}. let i = uint (si_last_br_id sbi + of_nat k)
        in i = 0 \<or> i \<in> branch_ids sbi"
      if h: "\<forall>k \<in> {1..n}. let i = uint (?w + of_nat k) in i = 0 \<or> i \<in> branch_ids sbi"
    proof
      fix k assume k: "k \<in> {1..Suc n}"
      show "let i = uint (si_last_br_id sbi + of_nat k) in i = 0 \<or> i \<in> branch_ids sbi"
      proof (cases "k = 1")
        case True
        then show ?thesis using False by auto
      next
        case False
        then have "k - 1 \<in> {1..n}" using k by auto
        moreover have "?w + of_nat (k - 1) = si_last_br_id sbi + of_nat k"
          using k by (cases k) (simp_all add: add.assoc)
        ultimately show ?thesis using h by metis
      qed
    qed
    then show ?thesis
      using r step by (intro exI [of _ r] exI [of _ w]) auto
  qed
qed

lemma word7_reached: "\<exists>k \<in> {1..128}. (w :: 7 word) = v + of_nat k"
proof -
  let ?d = "unat (w - v)"
  have d: "?d < 128" using unsigned_less [of "w - v", where 'a = nat] by simp
  show ?thesis
  proof (cases "?d = 0")
    case True
    then have "w = v" by (simp add: unat_eq_0)
    moreover have "(of_nat 128 :: 7 word) = 0" by simp
    ultimately show ?thesis by (intro bexI [of _ 128]) (simp_all del: of_nat_numeral)
  next
    case False
    have "w = v + of_nat ?d" by simp
    then show ?thesis using d False by (intro bexI [of _ ?d]) auto
  qed
qed

lemma card_branch_ids:
  assumes "sbi_wf sbi"
  shows "finite (branch_ids sbi) \<and> int (card (branch_ids sbi)) \<le> si_bend sbi + 1"
proof -
  have eq: "branch_ids sbi = (br_id \<circ> the) ` set (live_branches sbi)"
  proof (rule set_eqI, rule iffI)
    fix i assume "i \<in> branch_ids sbi"
    then show "i \<in> (br_id \<circ> the) ` set (live_branches sbi)"
      by (force simp: branch_ids_def)
  next
    fix i assume "i \<in> (br_id \<circ> the) ` set (live_branches sbi)"
    then obtain y where y: "y \<in> set (live_branches sbi)" "i = br_id (the y)" by auto
    then have "y \<noteq> None" using assms unfolding sbi_wf_def by metis
    then show "i \<in> branch_ids sbi" using y by (auto simp: branch_ids_def)
  qed
  have "card (branch_ids sbi) \<le> length (live_branches sbi)"
    unfolding eq by (rule order_trans [OF card_image_le]) (simp_all add: card_length)
  moreover have "int (length (live_branches sbi)) \<le> si_bend sbi + 1"
    using assms by (auto simp: live_branches_def sbi_wf_def)
  ultimately show ?thesis using eq by auto
qed

lemma new_br_id_fresh:
  assumes wf: "sbi_wf sbi" and room: "si_bend sbi < AUFS_BRANCH_MAX - 1"
  shows "\<exists>r w. au_new_br_id sbi = Some (r, sbi\<lparr>si_last_br_id := w\<rparr>)
    \<and> 0 < r \<and> r \<le> AUFS_BRANCH_MAX \<and> r \<notin> branch_ids sbi"
proof -
  have n: "nat (AUFS_BRANCH_MAX + 1) = 128" by (simp add: AUFS_BRANCH_MAX_def)
  obtain r w where r: "au_new_br_id sbi = Some (r, sbi\<lparr>si_last_br_id := w\<rparr>)"
    and c: "0 < r \<and> r < 128 \<and> r \<notin> branch_ids sbi \<and> r = uint w
       \<or> r = - 1 \<and> (\<forall>k \<in> {1..128}. let i = uint (si_last_br_id sbi + of_nat k)
                                     in i = 0 \<or> i \<in> branch_ids sbi)"
    using new_br_id_loop_spec [OF wf, of 128] unfolding au_new_br_id_def n by blast
  have "\<not> (\<forall>k \<in> {1..128}. let i = uint (si_last_br_id sbi + of_nat k)
        in i = 0 \<or> i \<in> branch_ids sbi)"
  proof
    assume all: "\<forall>k \<in> {1..128}. let i = uint (si_last_br_id sbi + of_nat k)
        in i = 0 \<or> i \<in> branch_ids sbi"
    have "{1..127} \<subseteq> branch_ids sbi"
    proof
      fix i :: int assume i: "i \<in> {1..127}"
      obtain k where k: "k \<in> {1..128}" "(of_int i :: 7 word) = si_last_br_id sbi + of_nat k"
        using word7_reached by blast
      have "uint (of_int i :: 7 word) = i" using i by (simp add: uint_word_of_int_eq take_bit_int_eq_self)
      then have "uint (si_last_br_id sbi + of_nat k) = i" using k(2) by simp
      then show "i \<in> branch_ids sbi" using bspec [OF all k(1)] i by (simp add: Let_def)
    qed
    then have "card {1..127 :: int} \<le> card (branch_ids sbi)"
      using card_branch_ids [OF wf] card_mono by blast
    then show False using card_branch_ids [OF wf] room by (simp add: AUFS_BRANCH_MAX_def)
  qed
  then show ?thesis using r c by (auto simp: AUFS_BRANCH_MAX_def)
qed

lemma au_sbr_realloc_spec:
  assumes "- 1 \<le> si_bend sbi" "si_bend sbi < int (length (si_branch sbi))"
    and "0 < length (si_branch sbi)" and "si_bend sbi + 1 < nbr"
  shows "au_sbr_realloc sbi nbr ok = Some (if ok \<or> nbr = 1 then 0 else - ENOMEM,
    if ok \<and> 1 < nbr
    then sbi\<lparr>si_branch := take (nat (max 1 (si_bend sbi + 1))) (si_branch sbi)
                @ replicate (nat (nbr - max 1 (si_bend sbi + 1))) None\<rparr>
    else sbi)"
  using assms by (auto simp: au_sbr_realloc_def au_kzrealloc_def max_def Let_def Suc_le_eq)

section \<open>Properties\<close>

text \<open>
  C15: \<open>au_new_br_id\<close> always finds an id for a branch that may be added (fewer than
  \<open>AUFS_BRANCH_MAX - 1\<close> indices are in use, which \<open>test_add\<close> checks): the id is positive,
  fits the 7-bit field and no live branch has it, however often the counter has wrapped; only
  the counter changes.
\<close>

theorem au_new_br_id_fresh:
  assumes "sbi_wf sbi" and "si_bend sbi < AUFS_BRANCH_MAX - 1"
  shows "\<exists>r w. au_new_br_id sbi = Some (r, sbi\<lparr>si_last_br_id := w\<rparr>)
    \<and> 0 < r \<and> r \<le> AUFS_BRANCH_MAX
    \<and> (\<forall>b. 0 \<le> b \<longrightarrow> b \<le> si_bend sbi \<longrightarrow> au_sbr_id sbi b \<noteq> Some r)"
proof -
  obtain r w where r: "au_new_br_id sbi = Some (r, sbi\<lparr>si_last_br_id := w\<rparr>)"
    "0 < r" "r \<le> AUFS_BRANCH_MAX" "r \<notin> branch_ids sbi"
    using new_br_id_fresh [OF assms] by blast
  have "au_sbr_id sbi b \<noteq> Some r" if "0 \<le> b" "b \<le> si_bend sbi" for b
    using r(4) that au_sbr_live [OF assms(1)] by (auto simp: branch_ids_def au_sbr_id_def)
  then show ?thesis using r by blast
qed

definition h_tmpfs :: h_super where
  "h_tmpfs = \<lparr>s_magic = 0x01021994, s_type_name = ''tmpfs'', s_rdonly = False,
              s_requires_dev = False\<rparr>"

definition example_branch :: "bindex \<Rightarrow> int \<Rightarrow> dptr \<Rightarrow> au_branch" where
  "example_branch i perm d =
     \<lparr>br_id = i, br_perm = perm, br_dflags = False, br_dentry = d, br_sb = h_tmpfs,
      br_count = 0,
      br_wbr = (if au_br_writable perm
                then Some \<lparr>wbr_whbase = None, wbr_plink = None, wbr_orph = None, wbr_bytes = 0\<rparr>
                else None),
      br_fhsm = False, br_xino_file = None\<rparr>"

definition example_sbinfo :: au_sbinfo where
  "example_sbinfo =
     (the (snd (au_si_alloc full_config (\<lambda>ms. of_int ms) 0 0 [True, True, True])))
       \<lparr>si_bend := 2, si_last_br_id := 127,
        si_branch := [Some (example_branch 1 1 100), Some (example_branch 2 2 101),
                      Some (example_branch 127 1 102)]\<rparr>"

lemma example_sbinfo_wf: "sbi_wf example_sbinfo"
  by (simp add: sbi_wf_def example_sbinfo_def live_branches_def example_branch_def
      AUFS_BRANCH_MAX_def eval_nat_numeral)

theorem au_new_br_id_fresh_witness:
  "sbi_wf example_sbinfo \<and> si_bend example_sbinfo < AUFS_BRANCH_MAX - 1
   \<and> (\<exists>r w. au_new_br_id example_sbinfo = Some (r, example_sbinfo\<lparr>si_last_br_id := w\<rparr>)
     \<and> 0 < r \<and> r \<le> AUFS_BRANCH_MAX
     \<and> (\<forall>b. 0 \<le> b \<longrightarrow> b \<le> si_bend example_sbinfo \<longrightarrow> au_sbr_id example_sbinfo b \<noteq> Some r))"
proof -
  have "si_bend example_sbinfo < AUFS_BRANCH_MAX - 1"
    by (simp add: example_sbinfo_def AUFS_BRANCH_MAX_def)
  then show ?thesis using au_new_br_id_fresh [OF example_sbinfo_wf] example_sbinfo_wf by blast
qed

text \<open>
  \<open>au_si_alloc\<close> returns \<open>-ENOMEM\<close> exactly when one of its three allocations fails, the
  error of \<open>sysaufs_si_init\<close> otherwise, and no superblock information with either; on
  success the branch table is empty and well formed.
\<close>

theorem au_si_alloc_result:
  "au_si_alloc cfg mj jiffies e [a, b, c] =
     (if \<not> (a \<and> b \<and> c) then (- ENOMEM, None)
      else if e \<noteq> 0 then (e, None)
      else (0, snd (au_si_alloc cfg mj jiffies 0 [True, True, True])))
   \<and> (\<exists>sbi. snd (au_si_alloc cfg mj jiffies 0 [True, True, True]) = Some sbi
        \<and> sbi_wf sbi \<and> si_bend sbi = - 1 \<and> branch_ids sbi = {}
        \<and> au_opt_test (si_mntflags sbi) (AuOptMask_UDBA cfg))"
  by (auto simp: au_si_alloc_def sbi_wf_def live_branches_def branch_ids_def AUFS_BRANCH_MAX_def
      au_opt_test_def au_opts_plink_def opt_flag_defs)

end
