(* ===== verification/Vfs.thy ===== *)
theory Vfs
  imports Sbinfo
begin

text \<open>
  The lower file system objects aufs holds references to: dentries with \<open>d_count\<close>, inodes
  with \<open>i_count\<close>, and the get/put pairs. The kernel may free an object whose count reaches
  zero, so a put of an object with no reference is a fault, as are the \<open>AuDebugOn\<close> tests
  of these counts in the source (\<open>CONFIG_AUFS_DEBUG\<close>).

  \<open>refcount\<close> is the interface of a counted object store; its clients are the tables of
  lower pointers of \<open>dinfo.c\<close>, \<open>iinfo.c\<close> and \<open>finfo.c\<close>.
\<close>

section \<open>Objects\<close>

record h_dentry =
  d_count :: int
  d_inode :: "iptr option"
  d_mounted :: bool
  d_hsb :: nat

record h_inode =
  i_count :: int
  i_nlink :: u32
  i_ino :: u32
  i_generation :: u32
  i_fmt :: int
  i_rdonly :: bool
  i_hsb :: nat

record vfs =
  dents :: "dptr \<Rightarrow> h_dentry option"
  inos :: "iptr \<Rightarrow> h_inode option"
  files :: "fptr \<Rightarrow> int option"

definition d_refs :: "vfs \<Rightarrow> dptr \<Rightarrow> int option" where
  "d_refs v d = map_option d_count (dents v d)"
definition i_refs :: "vfs \<Rightarrow> iptr \<Rightarrow> int option" where
  "i_refs v i = map_option i_count (inos v i)"

definition put_dentry :: "dptr \<Rightarrow> vfs \<Rightarrow> vfs option" where
  "put_dentry d v =
     (case dents v d of
        None \<Rightarrow> None
      | Some x \<Rightarrow> if 0 < d_count x
                  then Some (v\<lparr>dents := (dents v)(d \<mapsto> x\<lparr>d_count := d_count x - 1\<rparr>)\<rparr>)
                  else None)"

definition put_inode :: "iptr \<Rightarrow> vfs \<Rightarrow> vfs option" where
  "put_inode i v =
     (case inos v i of
        None \<Rightarrow> None
      | Some x \<Rightarrow> if 0 < i_count x
                  then Some (v\<lparr>inos := (inos v)(i \<mapsto> x\<lparr>i_count := i_count x - 1\<rparr>)\<rparr>)
                  else None)"

definition put_file :: "fptr \<Rightarrow> vfs \<Rightarrow> vfs option" where
  "put_file f v =
     (case files v f of
        None \<Rightarrow> None
      | Some n \<Rightarrow> if 0 < n then Some (v\<lparr>files := (files v)(f \<mapsto> n - 1)\<rparr>) else None)"

definition get_dentry :: "dptr \<Rightarrow> vfs \<Rightarrow> vfs option" where
  "get_dentry d v =
     (case dents v d of
        None \<Rightarrow> None
      | Some x \<Rightarrow> Some (v\<lparr>dents := (dents v)(d \<mapsto> x\<lparr>d_count := d_count x + 1\<rparr>)\<rparr>))"

definition get_inode :: "iptr \<Rightarrow> vfs \<Rightarrow> vfs option" where
  "get_inode i v =
     (case inos v i of
        None \<Rightarrow> None
      | Some x \<Rightarrow> if i_count x = 0 then None
                  else Some (v\<lparr>inos := (inos v)(i \<mapsto> x\<lparr>i_count := i_count x + 1\<rparr>)\<rparr>))"

text \<open>\<open>dput(NULL)\<close> and \<open>iput(NULL)\<close> do nothing.\<close>

fun opt_put :: "('p \<Rightarrow> 'v \<Rightarrow> 'v option) \<Rightarrow> 'p option \<Rightarrow> 'v \<Rightarrow> 'v option" where
  "opt_put put None v = Some v"
| "opt_put put (Some p) v = put p v"

fun put_all :: "('p \<Rightarrow> 'v \<Rightarrow> 'v option) \<Rightarrow> 'p option list \<Rightarrow> 'v \<Rightarrow> 'v option" where
  "put_all put [] v = Some v"
| "put_all put (p # ps) v = Option.bind (opt_put put p v) (put_all put ps)"

abbreviation dput :: "dptr option \<Rightarrow> vfs \<Rightarrow> vfs option" where
  "dput \<equiv> opt_put put_dentry"
abbreviation fput :: "fptr option \<Rightarrow> vfs \<Rightarrow> vfs option" where
  "fput \<equiv> opt_put put_file"
abbreviation iput :: "iptr option \<Rightarrow> vfs \<Rightarrow> vfs option" where
  "iput \<equiv> opt_put put_inode"

text \<open>\<open>au_igrab\<close> of \<open>inode.c\<close>: NULL stays NULL, a dead inode is a bug.\<close>

definition au_igrab :: "iptr option \<Rightarrow> vfs \<Rightarrow> vfs option" where
  "au_igrab inode v = opt_put get_inode inode v"

lemma put_all_append: "put_all put (xs @ ys) v = Option.bind (put_all put xs v) (put_all put ys)"
  by (induction xs arbitrary: v) (auto split: bind_splits)

lemma put_all_None [simp]: "put_all put (replicate n None) v = Some v"
  by (induction n) simp_all

section \<open>The interface of a counted store\<close>

definition held :: "'p option list \<Rightarrow> 'p \<Rightarrow> int" where
  "held ps p = int (count_list ps (Some p))"

lemma held_simps [simp]:
  "held [] p = 0"
  "held (None # ps) p = held ps p"
  "held (Some q # ps) p = (if q = p then held ps p + 1 else held ps p)"
  by (simp_all add: held_def)

lemma held_append [simp]: "held (xs @ ys) p = held xs p + held ys p"
  by (simp add: held_def count_list_append)

lemma held_nonneg [simp]: "0 \<le> held ps p"
  by (simp add: held_def)

lemma held_replicate_None [simp]: "held (replicate n None) p = 0"
  by (induction n) simp_all

lemma held_zero: "held ps p = 0 \<longleftrightarrow> Some p \<notin> set ps"
  by (simp add: held_def count_list_0_iff)

lemma held_update:
  assumes "n < length ps"
  shows "held (ps[n := q]) p
    = held ps p - (if ps ! n = Some p then 1 else 0) + (if q = Some p then 1 else 0)"
proof -
  have "held ps p = held (take n ps) p + held [ps ! n] p + held (drop (Suc n) ps) p"
    using arg_cong [OF id_take_nth_drop [OF assms], of "\<lambda>l. held l p"]
    by (cases "ps ! n") auto
  moreover have "held (ps[n := q]) p = held (take n ps) p + held [q] p + held (drop (Suc n) ps) p"
    using assms by (cases q) (auto simp: upd_conv_take_nth_drop)
  ultimately show ?thesis by (cases "ps ! n"; cases q) auto
qed

locale refcount =
  fixes refs :: "'v \<Rightarrow> 'p \<Rightarrow> int option"
    and put :: "'p \<Rightarrow> 'v \<Rightarrow> 'v option"
  assumes put_ok: "refs v p = Some n \<Longrightarrow> 0 < n \<Longrightarrow>
      \<exists>v'. put p v = Some v' \<and> refs v' = (refs v)(p \<mapsto> n - 1)"
    and put_live: "put p v = Some v' \<Longrightarrow> \<exists>n. refs v p = Some n \<and> 0 < n"
begin

text \<open>
  \<open>owns v ps\<close>: every pointer of the table is live and its references are counted.
  \<open>foreign v ps\<close>: the references to each object that are held outside the table \<open>ps\<close>.
\<close>

definition owns :: "'v \<Rightarrow> 'p option list \<Rightarrow> bool" where
  "owns v ps = (\<forall>p. Some p \<in> set ps \<longrightarrow> (\<exists>n. refs v p = Some n \<and> held ps p \<le> n))"

definition foreign :: "'v \<Rightarrow> 'p option list \<Rightarrow> 'p \<Rightarrow> int option" where
  "foreign v ps p = map_option (\<lambda>n. n - held ps p) (refs v p)"

lemma owns_live: "owns v ps \<Longrightarrow> Some p \<in> set ps \<Longrightarrow> \<exists>n. refs v p = Some n \<and> 0 < n"
proof -
  assume o: "owns v ps" and p: "Some p \<in> set ps"
  then obtain n where "refs v p = Some n" "held ps p \<le> n" by (auto simp: owns_def)
  moreover have "held ps p \<noteq> 0" using p held_zero [of ps p] by simp
  moreover have "0 \<le> held ps p" by simp
  ultimately have "refs v p = Some n" "0 < n" by linarith+
  then show "\<exists>n. refs v p = Some n \<and> 0 < n" by blast
qed

lemma put_opt_ok:
  assumes "owns v (q # ps)"
  shows "\<exists>v'. opt_put put q v = Some v' \<and> owns v' ps \<and> foreign v' ps = foreign v (q # ps)"
proof (cases q)
  case None
  then show ?thesis using assms by (auto simp: owns_def foreign_def fun_eq_iff)
next
  case (Some p)
  then obtain n where n: "refs v p = Some n" "held (q # ps) p \<le> n"
    using assms by (auto simp: owns_def)
  then have "held ps p + 1 \<le> n" "0 \<le> held ps p" using Some n(2) by simp_all
  then have pos: "0 < n" by linarith
  obtain v' where v': "put p v = Some v'" "refs v' = (refs v)(p \<mapsto> n - 1)"
    using put_ok [OF n(1) pos] by blast
  have "owns v' ps"
  proof (unfold owns_def, intro allI impI)
    fix r assume r: "Some r \<in> set ps"
    then obtain m where m: "refs v r = Some m" "held (q # ps) r \<le> m"
      using assms by (auto simp: owns_def)
    then show "\<exists>n. refs v' r = Some n \<and> held ps r \<le> n"
      using v'(2) n Some by (cases "r = p") auto
  qed
  moreover have "foreign v' ps = foreign v (q # ps)"
    using v'(2) n(1) Some by (auto simp: foreign_def fun_eq_iff)
  ultimately show ?thesis using v'(1) Some by auto
qed

lemma put_all_ok:
  "owns v (ps @ rs) \<Longrightarrow>
     \<exists>v'. put_all put ps v = Some v' \<and> owns v' rs \<and> foreign v' rs = foreign v (ps @ rs)"
proof (induction ps arbitrary: v)
  case (Cons q ps)
  obtain v' where v': "opt_put put q v = Some v'" "owns v' (ps @ rs)"
    "foreign v' (ps @ rs) = foreign v (q # ps @ rs)"
    using put_opt_ok [of v q "ps @ rs"] Cons.prems by auto
  then show ?case using Cons.IH [OF v'(2)] by auto
qed simp

lemma table_eq:
  assumes "\<And>p. held ps p = held qs p"
  shows "owns v ps = owns v qs" and "foreign v ps = foreign v qs"
proof -
  have "Some p \<in> set ps \<longleftrightarrow> Some p \<in> set qs" for p
    using held_zero [of ps p] held_zero [of qs p] assms by metis
  then show "owns v ps = owns v qs" by (simp add: owns_def assms)
  show "foreign v ps = foreign v qs" by (simp add: foreign_def fun_eq_iff assms)
qed

lemma owns_get:
  assumes "owns v ps" and "refs v p = Some n" and "0 \<le> n" and "refs v' = (refs v)(p \<mapsto> n + 1)"
  shows "owns v' (Some p # ps)" and "foreign v' (Some p # ps) = foreign v ps"
proof -
  show "owns v' (Some p # ps)"
  proof (unfold owns_def, intro allI impI)
    fix q assume q: "Some q \<in> set (Some p # ps)"
    show "\<exists>k. refs v' q = Some k \<and> held (Some p # ps) q \<le> k"
    proof (cases "q = p")
      case True
      have "held ps p \<le> n"
        using assms(1-3) held_zero [of ps p] by (cases "Some p \<in> set ps") (auto simp: owns_def)
      then show ?thesis using True assms(4) by simp
    next
      case False
      then show ?thesis using q assms(1,4) by (auto simp: owns_def)
    qed
  qed
  show "foreign v' (Some p # ps) = foreign v ps"
    using assms(2,4) by (auto simp: foreign_def fun_eq_iff)
qed

lemma put_slot_ok:
  assumes "owns v ps" and "n < length ps"
  shows "\<exists>v'. opt_put put (ps ! n) v = Some v' \<and> owns v' (ps[n := None])
    \<and> foreign v' (ps[n := None]) = foreign v ps"
proof -
  have eq: "held ps p = held (ps ! n # ps[n := None]) p" for p
    using held_update [OF assms(2), of None p] by (cases "ps ! n") auto
  have "owns v (ps ! n # ps[n := None])" using assms(1) table_eq(1) [OF eq] by simp
  then show ?thesis using put_opt_ok table_eq(2) [OF eq] by metis
qed

lemma set_slot:
  assumes "owns v (ps[n := None])" and "n < length ps" and "refs v p = Some m"
    and "held (ps[n := None]) p < m"
  shows "owns v (ps[n := Some p])"
    and "foreign v (ps[n := Some p]) = (foreign v (ps[n := None]))
           (p := map_option (\<lambda>k. k - 1) (foreign v (ps[n := None]) p))"
proof -
  have h: "held (ps[n := Some p]) q = held (ps[n := None]) q + (if q = p then 1 else 0)" for q
    using held_update [OF assms(2), of "Some p" q] held_update [OF assms(2), of None q] by auto
  show "owns v (ps[n := Some p])"
  proof (unfold owns_def, intro allI impI)
    fix q assume q: "Some q \<in> set (ps[n := Some p])"
    show "\<exists>k. refs v q = Some k \<and> held (ps[n := Some p]) q \<le> k"
    proof (cases "q = p")
      case True
      then show ?thesis using assms(3,4) h by auto
    next
      case False
      then have "held (ps[n := None]) q = held (ps[n := Some p]) q" using h by simp
      then have "Some q \<in> set (ps[n := None])"
        using q held_zero [of "ps[n := Some p]" q] held_zero [of "ps[n := None]" q] by metis
      then show ?thesis using assms(1) False h by (auto simp: owns_def)
    qed
  qed
  show "foreign v (ps[n := Some p]) = (foreign v (ps[n := None]))
      (p := map_option (\<lambda>k. k - 1) (foreign v (ps[n := None]) p))"
    by (auto simp: foreign_def fun_eq_iff h option.map_comp comp_def intro!: option.map_cong)
qed

end

interpretation dref: refcount d_refs put_dentry
proof
  fix v p n assume "d_refs v p = Some n" "0 < n"
  then show "\<exists>v'. put_dentry p v = Some v' \<and> d_refs v' = (d_refs v)(p \<mapsto> n - 1)"
    by (auto simp: d_refs_def put_dentry_def fun_eq_iff)
next
  fix v p v' assume "put_dentry p v = Some v'"
  then show "\<exists>n. d_refs v p = Some n \<and> 0 < n"
    by (auto simp: d_refs_def put_dentry_def split: option.splits if_splits)
qed

interpretation iref: refcount i_refs put_inode
proof
  fix v p n assume "i_refs v p = Some n" "0 < n"
  then show "\<exists>v'. put_inode p v = Some v' \<and> i_refs v' = (i_refs v)(p \<mapsto> n - 1)"
    by (auto simp: i_refs_def put_inode_def fun_eq_iff)
next
  fix v p v' assume "put_inode p v = Some v'"
  then show "\<exists>n. i_refs v p = Some n \<and> 0 < n"
    by (auto simp: i_refs_def put_inode_def split: option.splits if_splits)
qed

interpretation fref: refcount files put_file
  by unfold_locales (auto simp: put_file_def split: option.splits if_splits)

lemma put_dentry_frame: "put_dentry d v = Some v' \<Longrightarrow>
    inos v' = inos v \<and> files v' = files v \<and> (\<forall>e. map_option d_inode (dents v' e) = map_option d_inode (dents v e))"
  by (auto simp: put_dentry_def split: option.splits if_splits)

lemma dput_frame: "dput d v = Some v' \<Longrightarrow>
    inos v' = inos v \<and> files v' = files v \<and> (\<forall>e. map_option d_inode (dents v' e) = map_option d_inode (dents v e))"
  by (cases d) (auto dest: put_dentry_frame)

end
