(* ===== verification/Dinfo.thy ===== *)
theory Dinfo
  imports Vfs
begin

text \<open>
  The private data of an aufs dentry (\<open>struct au_dinfo\<close>, \<open>dentry.h\<close> and \<open>dinfo.c\<close>): the
  table of the lower dentries by branch index, the range \<open>di_bstart..di_bend\<close> in which it
  is used, the whiteout and the opaque-directory indices. The rwsem and its lock order are
  not modelled; every operation runs with the lock its \<open>DiMust...Lock\<close> asks for.
\<close>

section \<open>State\<close>

record au_hdentry =
  hd_dentry :: "dptr option"
  hd_id :: bindex

record au_dinfo =
  di_generation :: u32
  di_bstart :: bindex
  di_bend :: bindex
  di_bwh :: bindex
  di_bdiropq :: bindex
  di_hdentry :: "au_hdentry list"

definition au_digen :: "au_dinfo \<Rightarrow> u32" where
  "au_digen di = di_generation di"
definition au_h_dentry_init :: "au_hdentry \<Rightarrow> au_hdentry" where
  "au_h_dentry_init h = h\<lparr>hd_dentry := None\<rparr>"
definition au_hdput :: "au_hdentry \<Rightarrow> vfs \<Rightarrow> vfs option" where
  "au_hdput h v = dput (hd_dentry h) v"
definition au_dbstart :: "au_dinfo \<Rightarrow> bindex" where "au_dbstart di = di_bstart di"
definition au_dbend :: "au_dinfo \<Rightarrow> bindex" where "au_dbend di = di_bend di"
definition au_dbwh :: "au_dinfo \<Rightarrow> bindex" where "au_dbwh di = di_bwh di"
definition au_dbdiropq :: "au_dinfo \<Rightarrow> bindex" where "au_dbdiropq di = di_bdiropq di"
definition au_set_dbstart :: "bindex \<Rightarrow> au_dinfo \<Rightarrow> au_dinfo" where
  "au_set_dbstart b di = di\<lparr>di_bstart := b\<rparr>"
definition au_set_dbend :: "bindex \<Rightarrow> au_dinfo \<Rightarrow> au_dinfo" where
  "au_set_dbend b di = di\<lparr>di_bend := b\<rparr>"
definition au_set_dbwh :: "bindex \<Rightarrow> au_dinfo \<Rightarrow> au_dinfo" where
  "au_set_dbwh b di = di\<lparr>di_bwh := b\<rparr>"
definition au_set_dbdiropq :: "bindex \<Rightarrow> au_dinfo \<Rightarrow> au_dinfo" where
  "au_set_dbdiropq b di = di\<lparr>di_bdiropq := b\<rparr>"
definition au_digen_dec :: "au_dinfo \<Rightarrow> au_dinfo" where
  "au_digen_dec di = di\<lparr>di_generation := di_generation di - 1\<rparr>"

section \<open>Life cycle\<close>

text \<open>
  \<open>au_di_alloc\<close>: the slab object keeps the generation \<open>gen0\<close> of its last use. \<open>kcalloc\<close>
  zeroes the table. NULL is \<open>None\<close>.
\<close>

definition au_di_alloc :: "au_sbinfo \<Rightarrow> u32 \<Rightarrow> mem_oracle \<Rightarrow> au_dinfo option" where
  "au_di_alloc sbi gen0 o0 =
     (let (a_dinfo, o1) = take_alloc o0;
          (a_table, o2) = take_alloc o1;
          nbr = (if au_sbend sbi + 1 \<le> 0 then 1 else au_sbend sbi + 1)
      in if \<not> a_dinfo \<or> \<not> a_table then None
         else Some \<lparr>di_generation = gen0, di_bstart = - 1, di_bend = - 1, di_bwh = - 1,
                    di_bdiropq = - 1,
                    di_hdentry = replicate (nat nbr) \<lparr>hd_dentry = None, hd_id = - 1\<rparr>\<rparr>)"

definition au_di_init :: "au_sbinfo \<Rightarrow> u32 \<Rightarrow> mem_oracle \<Rightarrow> int \<times> au_dinfo option" where
  "au_di_init sbi gen0 o0 =
     (case au_di_alloc sbi gen0 o0 of
        Some di \<Rightarrow> (0, Some (di\<lparr>di_generation := au_sigen sbi\<rparr>))
      | None \<Rightarrow> (- ENOMEM, None))"

text \<open>\<open>au_di_free\<close>, also the body of \<open>au_di_fin\<close>: what remains are the lower dentries.\<close>

definition au_di_free :: "au_dinfo \<Rightarrow> vfs \<Rightarrow> vfs option" where
  "au_di_free di v =
     (if 0 \<le> di_bstart di
      then loop_up (\<lambda>b v. Option.bind (arr_get (di_hdentry di) b) (\<lambda>h. au_hdput h v))
             (di_bstart di) (di_bend di) v
      else Some v)"

definition au_di_swap :: "au_dinfo \<Rightarrow> au_dinfo \<Rightarrow> au_dinfo \<times> au_dinfo" where
  "au_di_swap a b =
     (a\<lparr>di_hdentry := di_hdentry b, di_bstart := di_bstart b, di_bend := di_bend b,
        di_bwh := di_bwh b, di_bdiropq := di_bdiropq b\<rparr>,
      b\<lparr>di_hdentry := di_hdentry a, di_bstart := di_bstart a, di_bend := di_bend a,
        di_bwh := di_bwh a, di_bdiropq := di_bdiropq a\<rparr>)"

definition au_di_cp :: "au_dinfo \<Rightarrow> au_dinfo \<Rightarrow> au_dinfo" where
  "au_di_cp dst src =
     dst\<lparr>di_bstart := di_bstart src, di_bend := di_bend src, di_bwh := di_bwh src,
         di_bdiropq := di_bdiropq src\<rparr>"

definition au_di_realloc :: "au_dinfo \<Rightarrow> int \<Rightarrow> bool \<Rightarrow> (int \<times> au_dinfo) option" where
  "au_di_realloc di nbr alloc_ok =
     (let sz = (if di_bend di + 1 = 0 then 1 else di_bend di + 1)
      in case au_kzrealloc (di_hdentry di) sz nbr \<lparr>hd_dentry = None, hd_id = 0\<rparr> alloc_ok of
           None \<Rightarrow> None
         | Some None \<Rightarrow> Some (- ENOMEM, di)
         | Some (Some hdp) \<Rightarrow> Some (0, di\<lparr>di_hdentry := hdp\<rparr>))"

section \<open>Lower dentries\<close>

text \<open>\<open>Some None\<close> is the result NULL.\<close>

definition au_h_dptr :: "au_dinfo \<Rightarrow> vfs \<Rightarrow> bindex \<Rightarrow> dptr option option" where
  "au_h_dptr di v bindex =
     (if au_dbstart di < 0 \<or> bindex < au_dbstart di then Some None
      else case arr_get (di_hdentry di) bindex of
             None \<Rightarrow> None
           | Some h \<Rightarrow>
               (case hd_dentry h of
                  None \<Rightarrow> Some None
                | Some d \<Rightarrow>
                    (case dents v d of
                       None \<Rightarrow> None
                     | Some x \<Rightarrow> if d_count x \<le> 0 then None else Some (Some d))))"

definition au_set_h_dptr ::
    "au_sbinfo \<Rightarrow> bindex \<Rightarrow> dptr option \<Rightarrow> au_dinfo \<times> vfs \<Rightarrow> (au_dinfo \<times> vfs) option" where
  "au_set_h_dptr sbi bindex h_dentry s =
     (let (di, v) = s in
      Option.bind (arr_get (di_hdentry di) bindex) (\<lambda>h.
      Option.bind (au_hdput h v) (\<lambda>v'.
      case h_dentry of
        None \<Rightarrow> Some (di\<lparr>di_hdentry := (di_hdentry di)[nat bindex := h\<lparr>hd_dentry := None\<rparr>]\<rparr>, v')
      | Some d \<Rightarrow>
          Option.bind (au_sbr sbi bindex) (\<lambda>br.
          Some (di\<lparr>di_hdentry :=
                  (di_hdentry di)[nat bindex := \<lparr>hd_dentry = Some d, hd_id = br_id br\<rparr>]\<rparr>, v')))))"

definition au_dbtail :: "au_dinfo \<Rightarrow> bindex" where
  "au_dbtail di =
     (let bend = au_dbend di; bwh = au_dbwh di
      in if 0 \<le> bend
         then if bwh = 0 then bwh else if 0 < bwh \<and> bwh < bend then bwh - 1 else bend
         else bend)"

definition au_dbtaildir :: "au_dinfo \<Rightarrow> bindex" where
  "au_dbtaildir di =
     (let bend = au_dbtail di; bopq = au_dbdiropq di
      in if 0 \<le> bend \<and> 0 \<le> bopq \<and> bopq < bend then bopq else bend)"

text \<open>\<open>AuDebugOn(bend < 0 && bstart > bend)\<close> and \<open>AuDebugOn(bend >= 0)\<close> are the faults.\<close>

definition au_dbrange_test :: "au_dinfo \<Rightarrow> int option" where
  "au_dbrange_test di =
     (if 0 \<le> au_dbstart di
      then if au_dbend di < 0 \<and> au_dbend di < au_dbstart di then None else Some 0
      else if 0 \<le> au_dbend di then None else Some (- EIO))"

definition au_digen_test :: "au_dinfo \<Rightarrow> bool \<Rightarrow> u32 \<Rightarrow> int" where
  "au_digen_test di iigen_stale sigen = (if au_digen di \<noteq> sigen \<or> iigen_stale then - EIO else 0)"

definition au_update_digen :: "au_sbinfo \<Rightarrow> au_dinfo \<Rightarrow> au_dinfo" where
  "au_update_digen sbi di = di\<lparr>di_generation := au_sigen sbi\<rparr>"

text \<open>Whether the lower dentry at an index is NULL, negative or positive.\<close>

definition hd_state :: "au_dinfo \<Rightarrow> vfs \<Rightarrow> bindex \<Rightarrow> bool option option" where
  "hd_state di v b =
     Option.bind (arr_get (di_hdentry di) b) (\<lambda>h.
     case hd_dentry h of
       None \<Rightarrow> Some None
     | Some d \<Rightarrow> map_option (\<lambda>x. Some (d_inode x \<noteq> None)) (dents v d))"

definition put_zero :: "au_sbinfo \<Rightarrow> bindex \<Rightarrow> au_dinfo \<times> vfs \<Rightarrow> (au_dinfo \<times> vfs) option" where
  "put_zero sbi b s =
     Option.bind (hd_state (fst s) (snd s) b) (\<lambda>st.
     if st = Some False then au_set_h_dptr sbi b None s else Some s)"

definition hdp_used :: "au_dinfo \<Rightarrow> bindex \<Rightarrow> bool option" where
  "hdp_used di b = map_option (\<lambda>h. hd_dentry h \<noteq> None) (arr_get (di_hdentry di) b)"

text \<open>The second half of \<open>au_update_dbrange\<close>: the new start and end.\<close>

definition search_dbrange :: "au_dinfo \<Rightarrow> au_dinfo option" where
  "search_dbrange di =
     Option.bind (first_up (hdp_used di) 0 (di_bend di)) (\<lambda>bs.
     case bs of
       None \<Rightarrow> Some (di\<lparr>di_bstart := - 1, di_bend := - 1\<rparr>)
     | Some bstart \<Rightarrow>
         Option.bind (first_down (hdp_used di) (di_bend di) 0) (\<lambda>be.
         case be of
           None \<Rightarrow> None
         | Some bend \<Rightarrow> if bend < bstart then None
                        else Some (di\<lparr>di_bstart := bstart, di_bend := bend\<rparr>)))"

definition au_update_dbrange ::
    "au_sbinfo \<Rightarrow> bool \<Rightarrow> au_dinfo \<times> vfs \<Rightarrow> (au_dinfo \<times> vfs) option" where
  "au_update_dbrange sbi do_put_zero s =
     (if di_bstart (fst s) < 0 then Some s
      else
        Option.bind
          (if do_put_zero then loop_up (put_zero sbi) (di_bstart (fst s)) (di_bend (fst s)) s
           else Some s)
          (\<lambda>(di, v). map_option (\<lambda>di'. (di', v)) (search_dbrange di)))"

text \<open>The body of the two loops below: \<open>setter\<close> is \<open>au_set_dbstart\<close> or \<open>au_set_dbend\<close>.\<close>

definition trim_step ::
    "(bindex \<Rightarrow> au_dinfo \<Rightarrow> au_dinfo) \<Rightarrow> au_sbinfo \<Rightarrow> bindex \<Rightarrow> au_dinfo \<times> vfs
     \<Rightarrow> (bool \<times> au_dinfo \<times> vfs) option" where
  "trim_step setter sbi b s =
     (let (di, v) = s in
      Option.bind (au_h_dptr di v b) (\<lambda>h.
      case h of
        None \<Rightarrow> Some (False, s)
      | Some d \<Rightarrow>
          Option.bind (dents v d) (\<lambda>x.
          if d_inode x \<noteq> None then Some (True, setter b di, v)
          else map_option (Pair False) (au_set_h_dptr sbi b None s))))"

definition au_update_dbstart :: "au_sbinfo \<Rightarrow> au_dinfo \<times> vfs \<Rightarrow> (au_dinfo \<times> vfs) option" where
  "au_update_dbstart sbi s =
     map_option snd
       (scan_up (trim_step au_set_dbstart sbi) (au_dbstart (fst s)) (au_dbend (fst s)) s)"

definition au_update_dbend :: "au_sbinfo \<Rightarrow> au_dinfo \<times> vfs \<Rightarrow> (au_dinfo \<times> vfs) option" where
  "au_update_dbend sbi s =
     map_option snd
       (scan_down (trim_step au_set_dbend sbi) (au_dbend (fst s)) (au_dbstart (fst s)) s)"

definition au_find_dbindex :: "au_dinfo \<Rightarrow> vfs \<Rightarrow> dptr option \<Rightarrow> bindex option" where
  "au_find_dbindex di v h_dentry =
     map_option (\<lambda>r. case r of None \<Rightarrow> - 1 | Some b \<Rightarrow> b)
       (first_up (\<lambda>b. map_option (\<lambda>h. h = h_dentry) (au_h_dptr di v b))
          (au_dbstart di) (au_dbend di))"

section \<open>The tables as owners of references\<close>

definition dslots :: "au_dinfo \<Rightarrow> dptr option list" where
  "dslots di = map hd_dentry (di_hdentry di)"

text \<open>The references to a dentry that are held outside the table.\<close>

definition d_foreign :: "vfs \<Rightarrow> dptr option list \<Rightarrow> dptr \<Rightarrow> int option" where
  "d_foreign v ps d = map_option (\<lambda>n. n - held ps d) (d_refs v d)"

definition di_owns :: "vfs \<Rightarrow> au_dinfo \<Rightarrow> bool" where
  "di_owns v di = (\<forall>d. Some d \<in> set (dslots di) \<longrightarrow>
     (\<exists>n. d_refs v d = Some n \<and> held (dslots di) d \<le> n))"

lemma di_owns_owns: "di_owns v di = dref.owns v (dslots di)"
  by (simp add: di_owns_def dref.owns_def)

lemma d_foreign_foreign: "d_foreign v ps = dref.foreign v ps"
  by (simp add: d_foreign_def dref.foreign_def fun_eq_iff)

definition negative :: "vfs \<Rightarrow> dptr option \<Rightarrow> bool" where
  "negative v h = (case h of None \<Rightarrow> False
     | Some d \<Rightarrow> map_option d_inode (dents v d) = Some None)"

definition positive :: "vfs \<Rightarrow> dptr option \<Rightarrow> bool" where
  "positive v h = (h \<noteq> None \<and> \<not> negative v h)"

text \<open>
  \<open>keeps s0 s\<close>: references moved only between the table and the kernel, so that every
  reference held elsewhere is still there, and nothing but the counts changed below.
\<close>

definition keeps :: "au_dinfo \<times> vfs \<Rightarrow> au_dinfo \<times> vfs \<Rightarrow> bool" where
  "keeps s0 s =
     (di_owns (snd s) (fst s)
      \<and> d_foreign (snd s) (dslots (fst s)) = d_foreign (snd s0) (dslots (fst s0))
      \<and> inos (snd s) = inos (snd s0)
      \<and> (\<forall>e. map_option d_inode (dents (snd s) e) = map_option d_inode (dents (snd s0) e)))"

lemma keeps_refl: "di_owns v di \<Longrightarrow> keeps (di, v) (di, v)"
  by (simp add: keeps_def)

lemma keeps_trans: "keeps s s' \<Longrightarrow> keeps s' s'' \<Longrightarrow> keeps s s''"
  by (simp add: keeps_def)

lemma keeps_negative: "keeps s s' \<Longrightarrow> negative (snd s') h = negative (snd s) h"
  by (cases h) (simp_all add: keeps_def negative_def)

lemma dslots_length [simp]: "length (dslots di) = length (di_hdentry di)"
  by (simp add: dslots_def)

lemma dslots_nth: "n < length (di_hdentry di) \<Longrightarrow> dslots di ! n = hd_dentry (di_hdentry di ! n)"
  by (simp add: dslots_def)

lemma dslots_frame [simp]:
  "dslots (di\<lparr>di_bstart := b\<rparr>) = dslots di" "dslots (di\<lparr>di_bend := b\<rparr>) = dslots di"
  by (simp_all add: dslots_def)

lemma keeps_frame [simp]:
  "keeps s0 (di\<lparr>di_bstart := b\<rparr>, v) = keeps s0 (di, v)"
  "keeps s0 (di\<lparr>di_bend := b\<rparr>, v) = keeps s0 (di, v)"
  by (simp_all add: keeps_def di_owns_def)

lemma di_owns_live:
  assumes "di_owns v di" and "n < length (di_hdentry di)" and "dslots di ! n = Some d"
  shows "\<exists>x. dents v d = Some x \<and> 0 < d_count x"
proof -
  have "Some d \<in> set (dslots di)" using assms(2,3) nth_mem [of n "dslots di"] by simp
  then show ?thesis
    using dref.owns_live [of v "dslots di" d] assms(1) by (auto simp: di_owns_owns d_refs_def)
qed

lemma au_h_dptr_slot:
  assumes "di_owns v di" and "0 \<le> au_dbstart di" and "au_dbstart di \<le> b"
    and "b < int (length (di_hdentry di))"
  shows "au_h_dptr di v b = Some (dslots di ! nat b)"
proof -
  have "nat b < length (di_hdentry di)" using assms by linarith
  then show ?thesis
    using di_owns_live [OF assms(1), of "nat b"] assms
    by (force simp: au_h_dptr_def arr_get_def dslots_nth split: option.splits)
qed

lemma au_set_h_dptr_None:
  assumes "di_owns v di" and "0 \<le> b" and "b < int (length (di_hdentry di))"
  shows "\<exists>h v'. au_set_h_dptr sbi b None (di, v) = Some (di\<lparr>di_hdentry := h\<rparr>, v')
    \<and> map hd_dentry h = (dslots di)[nat b := None] \<and> keeps (di, v) (di\<lparr>di_hdentry := h\<rparr>, v')"
proof -
  have n: "nat b < length (dslots di)" using assms by simp
  obtain v' where v': "dput (dslots di ! nat b) v = Some v'"
    "dref.owns v' ((dslots di)[nat b := None])"
    "dref.foreign v' ((dslots di)[nat b := None]) = dref.foreign v (dslots di)"
    using dref.put_slot_ok [OF _ n] assms(1) by (auto simp: di_owns_owns)
  let ?h = "(di_hdentry di)[nat b := (di_hdentry di ! nat b)\<lparr>hd_dentry := None\<rparr>]"
  have sl: "map hd_dentry ?h = (dslots di)[nat b := None]" by (simp add: dslots_def map_update)
  have "au_set_h_dptr sbi b None (di, v) = Some (di\<lparr>di_hdentry := ?h\<rparr>, v')"
    using v'(1) n assms by (simp add: au_set_h_dptr_def arr_get_def au_hdput_def dslots_nth)
  moreover have "keeps (di, v) (di\<lparr>di_hdentry := ?h\<rparr>, v')"
    using v' dput_frame [OF v'(1)] sl
    by (simp add: keeps_def di_owns_owns d_foreign_foreign dslots_def)
  ultimately show ?thesis using sl by blast
qed

lemma put_zero_ok:
  assumes own: "di_owns v di" and b: "0 \<le> b" "b < int (length (di_hdentry di))"
  shows "\<exists>h v'. put_zero sbi b (di, v) = Some (di\<lparr>di_hdentry := h\<rparr>, v')
    \<and> map hd_dentry h = (if negative v (dslots di ! nat b) then (dslots di)[nat b := None]
                        else dslots di)
    \<and> keeps (di, v) (di\<lparr>di_hdentry := h\<rparr>, v')"
proof -
  have n: "nat b < length (di_hdentry di)" using b by linarith
  have st: "hd_state di v b = Some (if dslots di ! nat b = None then None
      else Some (\<not> negative v (dslots di ! nat b)))"
    using di_owns_live [OF own n] b n
    by (auto simp: hd_state_def arr_get_def dslots_nth negative_def split: option.splits)
  show ?thesis
  proof (cases "negative v (dslots di ! nat b)")
    case True
    then obtain d where "dslots di ! nat b = Some d"
      by (cases "dslots di ! nat b") (simp_all add: negative_def)
    then have "put_zero sbi b (di, v) = au_set_h_dptr sbi b None (di, v)"
      using True st by (simp add: put_zero_def)
    then show ?thesis using True au_set_h_dptr_None [OF own b, of sbi] by simp
  next
    case False
    then show ?thesis
      using st keeps_refl [OF own] by (auto simp: put_zero_def dslots_def intro!: exI [of _ "di_hdentry di"])
  qed
qed

text \<open>The table after the entries of the indices \<open>a..<b\<close> with \<open>P\<close> are dropped.\<close>

definition drop_where ::
    "('a option \<Rightarrow> bool) \<Rightarrow> 'a option list \<Rightarrow> int \<Rightarrow> int \<Rightarrow> 'a option list" where
  "drop_where P ps a b =
     map (\<lambda>i. if a \<le> int i \<and> int i < b \<and> P (ps ! i) then None else ps ! i)
       [0..<length ps]"

lemma drop_where_nth:
  "n < length ps \<Longrightarrow> drop_where P ps a b ! n =
     (if a \<le> int n \<and> int n < b \<and> P (ps ! n) then None else ps ! n)"
  by (simp add: drop_where_def)

lemma drop_where_length [simp]: "length (drop_where P ps a b) = length ps"
  by (simp add: drop_where_def)

lemma drop_where_empty: "b \<le> a \<Longrightarrow> drop_where P ps a b = ps"
  by (rule nth_equalityI) (auto simp: drop_where_nth)

lemma drop_where_step:
  assumes "0 \<le> b" and "b < int (length ps)" and "a \<le> b"
  shows "drop_where P ps a (b + 1) =
    (if P (ps ! nat b) then (drop_where P ps a b)[nat b := None]
     else drop_where P ps a b)"
proof (rule nth_equalityI)
  fix i assume "i < length (drop_where P ps a (b + 1))"
  then have i: "i < length ps" by simp
  have c: "int i < b + 1 \<longleftrightarrow> int i < b \<or> i = nat b" using assms(1) by auto
  show "drop_where P ps a (b + 1) ! i =
      (if P (ps ! nat b) then (drop_where P ps a b)[nat b := None]
       else drop_where P ps a b) ! i"
    using i c assms by (cases "i = nat b") (auto simp: drop_where_nth nth_list_update)
qed simp

lemma drop_where_here:
  assumes "0 \<le> b" and "b < int (length ps)"
  shows "drop_where P ps a b ! nat b = ps ! nat b"
  using assms by (auto simp: drop_where_nth nat_less_iff)

lemma put_zero_loop:
  assumes own: "di_owns v di" and a: "0 \<le> a" "a \<le> e + 1" "e < int (length (di_hdentry di))"
  shows "\<exists>h v'. loop_up (put_zero sbi) a e (di, v) = Some (di\<lparr>di_hdentry := h\<rparr>, v')
    \<and> map hd_dentry h = drop_where (negative v) (dslots di) a (e + 1)
    \<and> keeps (di, v) (di\<lparr>di_hdentry := h\<rparr>, v')"
proof -
  define I where "I = (\<lambda>b s. \<exists>h v'. s = (di\<lparr>di_hdentry := h\<rparr>, v')
    \<and> map hd_dentry h = drop_where (negative v) (dslots di) a b \<and> keeps (di, v) (di\<lparr>di_hdentry := h\<rparr>, v'))"
  have step: "\<exists>s'. put_zero sbi b s = Some s' \<and> I (b + 1) s'" if b: "a \<le> b" "b \<le> e" "I b s" for b s
  proof -
    obtain h v1 where s: "s = (di\<lparr>di_hdentry := h\<rparr>, v1)"
      "map hd_dentry h = drop_where (negative v) (dslots di) a b" "keeps (di, v) (di\<lparr>di_hdentry := h\<rparr>, v1)"
      using b(3) by (auto simp: I_def)
    let ?d = "di\<lparr>di_hdentry := h\<rparr>"
    have sl: "dslots ?d = drop_where (negative v) (dslots di) a b" using s(2) by (simp add: dslots_def)
    have len: "length h = length (di_hdentry di)" using arg_cong [OF s(2), of length] by simp
    have own1: "di_owns v1 ?d" using s(3) by (simp add: keeps_def)
    have here: "dslots ?d ! nat b = dslots di ! nat b"
      unfolding sl by (rule drop_where_here) (use a b in auto)
    have neg: "negative v1 x = negative v x" for x using keeps_negative [OF s(3)] by simp
    have bl: "0 \<le> b" "b < int (length (di_hdentry ?d))" using a b len by auto
    obtain h' v2 where r: "put_zero sbi b (?d, v1) = Some (?d\<lparr>di_hdentry := h'\<rparr>, v2)"
      "map hd_dentry h' = (if negative v1 (dslots ?d ! nat b) then (dslots ?d)[nat b := None]
                        else dslots ?d)" "keeps (?d, v1) (?d\<lparr>di_hdentry := h'\<rparr>, v2)"
      using put_zero_ok [OF own1 bl] by blast
    have "map hd_dentry h' = drop_where (negative v) (dslots di) a (b + 1)"
      using r(2) drop_where_step [of b "dslots di" a "negative v"] a b(1,2) by (simp add: here neg) (simp add: sl)
    then show ?thesis using r keeps_trans [OF s(3) r(3)] s(1) by (auto simp: I_def)
  qed
  have "I a (di, v)"
    unfolding I_def
    by (rule exI [of _ "di_hdentry di"], rule exI [of _ v])
      (simp add: keeps_refl [OF own] drop_where_empty dslots_def)
  then have "\<exists>s'. loop_up (put_zero sbi) a e (di, v) = Some s' \<and> I (e + 1) s'"
    by (intro loop_up_invariant step a(2))
  then show ?thesis by (auto simp: I_def)
qed

section \<open>Exact ranges\<close>

text \<open>
  \<open>s..t\<close> is exactly the range of the non-NULL entries among the indices \<open>0..e\<close>; it is
  -1, -1 when there are none.
\<close>

definition tight_range :: "'a option list \<Rightarrow> int \<Rightarrow> int \<Rightarrow> int \<Rightarrow> bool" where
  "tight_range ps e s t =
     ((\<forall>i. 0 \<le> i \<longrightarrow> i \<le> e \<longrightarrow> ps ! nat i \<noteq> None \<longrightarrow> s \<le> i \<and> i \<le> t)
      \<and> (s = - 1 \<and> t = - 1
         \<or> 0 \<le> s \<and> s \<le> t \<and> t \<le> e \<and> ps ! nat s \<noteq> None \<and> ps ! nat t \<noteq> None))"

definition slot_used :: "'a option list \<Rightarrow> bindex \<Rightarrow> bool option" where
  "slot_used ps b = map_option (\<lambda>x. x \<noteq> None) (arr_get ps b)"

lemma slot_used_cases:
  "0 \<le> b \<Longrightarrow> b < int (length ps) \<Longrightarrow> slot_used ps b = Some (ps ! nat b \<noteq> None)"
  by (simp add: slot_used_def arr_get_def)

lemma tight_search:
  assumes e: "e < int (length ps)"
  shows "first_up (slot_used ps) 0 e = Some None \<and> tight_range ps e (- 1) (- 1)
    \<and> (\<forall>i. 0 \<le> i \<longrightarrow> i \<le> e \<longrightarrow> ps ! nat i = None)
    \<or> (\<exists>s t. first_up (slot_used ps) 0 e = Some (Some s)
         \<and> (\<forall>u. 0 \<le> u \<longrightarrow> u \<le> s \<longrightarrow> first_down (slot_used ps) e u = Some (Some t))
         \<and> s \<le> t \<and> 0 \<le> t \<and> tight_range ps e s t)"
proof -
  have u: "slot_used ps b = Some (ps ! nat b \<noteq> None)" if "0 \<le> b" "b \<le> e" for b
    using that e by (intro slot_used_cases) auto
  have "first_up (slot_used ps) 0 e \<noteq> None" by (rule first_up_total) (simp add: u)
  then obtain r where r: "first_up (slot_used ps) 0 e = Some r" by blast
  show ?thesis
  proof (cases r)
    case None
    have "ps ! nat i = None" if "0 \<le> i" "i \<le> e" for i
      using first_up_none [OF r [unfolded None] that] u [OF that] by simp
    then show ?thesis using r None by (auto simp: tight_range_def)
  next
    case (Some s)
    note fs = first_up_found [OF r [unfolded Some]]
    then have s: "0 \<le> s" "s \<le> e" "ps ! nat s \<noteq> None" using u [of s] by auto
    have low: "ps ! nat j = None" if "0 \<le> j" "j < s" for j
      using fs that u [of j] by auto
    have down: "\<exists>t. first_down (slot_used ps) e m = Some (Some t) \<and> s \<le> t \<and> t \<le> e
        \<and> ps ! nat t \<noteq> None \<and> (\<forall>j. t < j \<longrightarrow> j \<le> e \<longrightarrow> ps ! nat j = None)"
      if m: "0 \<le> m" "m \<le> s" for m
    proof -
      have "first_down (slot_used ps) e m \<noteq> None"
        by (rule first_down_total) (use m in \<open>simp add: u\<close>)
      then obtain q where q: "first_down (slot_used ps) e m = Some q" by blast
      have "q \<noteq> None"
        using first_down_none [of "slot_used ps" e m s] q m s u [of s] by auto
      then obtain t where t: "q = Some t" by blast
      note ft = first_down_found [OF q [unfolded t]]
      have above: "ps ! nat j = None" if "t < j" "j \<le> e" for j
        using ft that m u [of j] by auto
      have "s \<le> t" using above [of s] s by force
      then show ?thesis using q t ft m u [of t] above by auto
    qed
    obtain t where t: "first_down (slot_used ps) e 0 = Some (Some t)" "s \<le> t" "t \<le> e"
      "ps ! nat t \<noteq> None" "\<forall>j. t < j \<longrightarrow> j \<le> e \<longrightarrow> ps ! nat j = None"
      using down [of 0] s by auto
    have same: "first_down (slot_used ps) e m = Some (Some t)" if m: "0 \<le> m" "m \<le> s" for m
    proof -
      obtain t' where t': "first_down (slot_used ps) e m = Some (Some t')" "s \<le> t'" "t' \<le> e"
        "ps ! nat t' \<noteq> None" "\<forall>j. t' < j \<longrightarrow> j \<le> e \<longrightarrow> ps ! nat j = None"
        using down [OF m] by blast
      have "t' = t" using t t' by (metis linorder_neqE_linordered_idom)
      then show ?thesis using t' by simp
    qed
    have "s \<le> i \<and> i \<le> t" if "0 \<le> i" "i \<le> e" "ps ! nat i \<noteq> None" for i
      using low [of i] t(5) that by force
    then have "tight_range ps e s t" using s t by (auto simp: tight_range_def)
    then show ?thesis using r Some same t s by (intro disjI2 exI [of _ s] exI [of _ t]) auto
  qed
qed

lemma slot_used_hd: "hdp_used di = slot_used (dslots di)"
  by (rule ext) (simp add: hdp_used_def slot_used_def dslots_def arr_get_def nat_less_iff)

lemma search_dbrange_ok:
  assumes "di_bend di < int (length (di_hdentry di))"
  shows "\<exists>s t. search_dbrange di = Some (di\<lparr>di_bstart := s, di_bend := t\<rparr>)
    \<and> tight_range (dslots di) (di_bend di) s t"
proof -
  have e: "di_bend di < int (length (dslots di))" using assms by simp
  from tight_search [OF e] show ?thesis
  proof (elim disjE exE conjE)
    assume "first_up (slot_used (dslots di)) 0 (di_bend di) = Some None"
      "tight_range (dslots di) (di_bend di) (- 1) (- 1)"
    then show ?thesis
      by (intro exI [of _ "- 1"]) (simp add: search_dbrange_def slot_used_hd)
  next
    fix s t
    assume f: "first_up (slot_used (dslots di)) 0 (di_bend di) = Some (Some s)"
      "\<forall>u. 0 \<le> u \<longrightarrow> u \<le> s \<longrightarrow> first_down (slot_used (dslots di)) (di_bend di) u = Some (Some t)"
      "s \<le> t" "tight_range (dslots di) (di_bend di) s t"
    have "0 \<le> s" using first_up_found [OF f(1)] by simp
    then have "first_down (slot_used (dslots di)) (di_bend di) 0 = Some (Some t)" using f(2) by simp
    then show ?thesis
      using f by (intro exI [of _ s] exI [of _ t]) (simp add: search_dbrange_def slot_used_hd)
  qed
qed

definition di_in_range :: "au_dinfo \<Rightarrow> bool" where
  "di_in_range di =
     (- 1 \<le> di_bstart di \<and> di_bstart di \<le> di_bend di + 1 \<and> di_bend di < int (length (di_hdentry di))
      \<and> (\<forall>n < length (di_hdentry di). dslots di ! n \<noteq> None \<longrightarrow>
           0 \<le> di_bstart di \<and> di_bstart di \<le> int n \<and> int n \<le> di_bend di))"

lemma di_owns_frame [simp]:
  "di_owns v (di\<lparr>di_bstart := s\<rparr>) = di_owns v di" "di_owns v (di\<lparr>di_bend := s\<rparr>) = di_owns v di"
  by (simp_all add: di_owns_def)

lemma update_dbrange_ok:
  assumes own: "di_owns v di" and s: "0 \<le> di_bstart di" "di_bstart di \<le> di_bend di + 1"
    and e: "di_bend di < int (length (di_hdentry di))"
  shows "\<exists>di' v'. au_update_dbrange sbi z (di, v) = Some (di', v') \<and> keeps (di, v) (di', v')
    \<and> dslots di' = (if z then drop_where (negative v) (dslots di) (di_bstart di) (di_bend di + 1)
                    else dslots di)
    \<and> tight_range (dslots di') (di_bend di) (di_bstart di') (di_bend di')
    \<and> length (di_hdentry di') = length (di_hdentry di)"
proof -
  obtain h v' where l: "(if z then loop_up (put_zero sbi) (di_bstart di) (di_bend di) (di, v)
      else Some (di, v)) = Some (di\<lparr>di_hdentry := h\<rparr>, v')"
    "map hd_dentry h = (if z then drop_where (negative v) (dslots di) (di_bstart di) (di_bend di + 1)
      else dslots di)" "keeps (di, v) (di\<lparr>di_hdentry := h\<rparr>, v')"
  proof (cases z)
    case True
    then show ?thesis using put_zero_loop [OF own s e, of sbi] that by auto
  next
    case False
    then show ?thesis using keeps_refl [OF own] that [of "di_hdentry di" v] by (simp add: dslots_def)
  qed
  have len: "length h = length (di_hdentry di)"
    using arg_cong [OF l(2), of length] by (simp split: if_splits)
  then have "di_bend (di\<lparr>di_hdentry := h\<rparr>) < int (length (di_hdentry (di\<lparr>di_hdentry := h\<rparr>)))"
    using e by simp
  from search_dbrange_ok [OF this] obtain bs be where
    r: "search_dbrange (di\<lparr>di_hdentry := h\<rparr>) = Some (di\<lparr>di_hdentry := h, di_bstart := bs, di_bend := be\<rparr>)"
      "tight_range (dslots (di\<lparr>di_hdentry := h\<rparr>)) (di_bend di) bs be" by auto
  have "au_update_dbrange sbi z (di, v)
      = Some (di\<lparr>di_hdentry := h, di_bstart := bs, di_bend := be\<rparr>, v')"
    using s(1) r(1) unfolding au_update_dbrange_def fst_conv l(1) by simp
  then show ?thesis using l(2,3) r(2) len
    by (intro exI [of _ "di\<lparr>di_hdentry := h, di_bstart := bs, di_bend := be\<rparr>"] exI [of _ v'])
      (simp add: dslots_def)
qed

section \<open>Trimming the range\<close>

lemma trim_step_ok:
  assumes own: "di_owns v di" and b: "0 \<le> di_bstart di" "di_bstart di \<le> b"
    "b < int (length (di_hdentry di))"
  shows "if positive v (dslots di ! nat b) then trim_step f sbi b (di, v) = Some (True, f b di, v)
    else \<exists>h v'. trim_step f sbi b (di, v) = Some (False, di\<lparr>di_hdentry := h\<rparr>, v')
      \<and> map hd_dentry h = (dslots di)[nat b := None] \<and> keeps (di, v) (di\<lparr>di_hdentry := h\<rparr>, v')"
proof -
  have n: "nat b < length (di_hdentry di)" using b by linarith
  have hp: "au_h_dptr di v b = Some (dslots di ! nat b)"
    by (rule au_h_dptr_slot) (use own b in \<open>simp_all add: au_dbstart_def\<close>)
  show ?thesis
  proof (cases "dslots di ! nat b")
    case None
    then have "map hd_dentry (di_hdentry di) = (dslots di)[nat b := None]"
      by (metis dslots_def list_update_id)
    then show ?thesis
      using None hp keeps_refl [OF own]
      by (auto simp: positive_def trim_step_def intro!: exI [of _ "di_hdentry di"])
  next
    case (Some d)
    obtain x where x: "dents v d = Some x" using di_owns_live [OF own n Some] by blast
    have pos: "positive v (dslots di ! nat b) \<longleftrightarrow> d_inode x \<noteq> None"
      using Some x by (simp add: positive_def negative_def)
    show ?thesis
    proof (cases "d_inode x")
      case None
      obtain h v' where "au_set_h_dptr sbi b None (di, v) = Some (di\<lparr>di_hdentry := h\<rparr>, v')"
        "map hd_dentry h = (dslots di)[nat b := None]" "keeps (di, v) (di\<lparr>di_hdentry := h\<rparr>, v')"
        using au_set_h_dptr_None [OF own _ b(3), of sbi] b by auto
      moreover have "trim_step f sbi b (di, v)
          = map_option (Pair False) (au_set_h_dptr sbi b None (di, v))"
        using None hp Some x by (simp add: trim_step_def)
      ultimately show ?thesis using None pos by auto
    qed (use pos hp Some x in \<open>simp add: trim_step_def\<close>)
  qed
qed

lemma list_update_drop:
  assumes "0 \<le> b" "b < int (length ps)" "a \<le> b" "\<not> positive v (ps ! nat b)"
  shows "(drop_where (negative v) ps a b)[nat b := None] = drop_where (negative v) ps a (b + 1)"
proof (cases "negative v (ps ! nat b)")
  case False
  then have "ps ! nat b = None" using assms by (simp add: positive_def)
  then have "drop_where (negative v) ps a b ! nat b = None"
    using drop_where_here [OF assms(1,2)] by simp
  then show ?thesis
    using drop_where_step [OF assms(1-3), of "negative v"] False by (metis list_update_id)
qed (use drop_where_step [OF assms(1-3), of "negative v"] in simp)

lemma update_dbstart_ok:
  assumes own: "di_owns v di" and s: "0 \<le> di_bstart di" "di_bstart di \<le> di_bend di + 1"
    and e: "di_bend di < int (length (di_hdentry di))"
  shows "\<exists>h v' k. au_update_dbstart sbi (di, v) = Some (di\<lparr>di_hdentry := h,
        di_bstart := if k \<le> di_bend di then k else di_bstart di\<rparr>, v')
    \<and> di_bstart di \<le> k \<and> k \<le> di_bend di + 1
    \<and> map hd_dentry h = drop_where (negative v) (dslots di) (di_bstart di) k
    \<and> keeps (di, v) (di\<lparr>di_hdentry := h\<rparr>, v')
    \<and> (\<forall>i. di_bstart di \<le> i \<longrightarrow> i < k \<longrightarrow> \<not> positive v (dslots di ! nat i))
    \<and> (k \<le> di_bend di \<longrightarrow> positive v (dslots di ! nat k))"
proof -
  let ?a = "di_bstart di"
  define P where "P = (\<lambda>k h v'. map hd_dentry h = drop_where (negative v) (dslots di) ?a k
    \<and> keeps (di, v) (di\<lparr>di_hdentry := h\<rparr>, v')
    \<and> (\<forall>i. ?a \<le> i \<longrightarrow> i < k \<longrightarrow> \<not> positive v (dslots di ! nat i)))"
  define I where "I = (\<lambda>k s. \<exists>h v'. s = (di\<lparr>di_hdentry := h\<rparr>, v') \<and> P k h v')"
  define Q where "Q = (\<lambda>k s. \<exists>h v'. s = (di\<lparr>di_hdentry := h, di_bstart := k\<rparr>, v') \<and> P k h v'
    \<and> positive v (dslots di ! nat k))"
  have step: "\<exists>stop s'. trim_step au_set_dbstart sbi b s = Some (stop, s')
      \<and> (if stop then Q b s' else I (b + 1) s')"
    if b: "?a \<le> b" "b \<le> di_bend di" "I b s" for b s
  proof -
    obtain h v1 where s1: "s = (di\<lparr>di_hdentry := h\<rparr>, v1)" and P: "P b h v1"
      using b(3) by (auto simp: I_def)
    let ?d = "di\<lparr>di_hdentry := h\<rparr>"
    have sl: "dslots ?d = drop_where (negative v) (dslots di) ?a b" using P by (simp add: P_def dslots_def)
    have len: "length h = length (di_hdentry di)"
      using arg_cong [OF sl, of length] by simp
    have bl: "0 \<le> b" "b < int (length (dslots di))" using b s e by auto
    have here: "dslots ?d ! nat b = dslots di ! nat b"
      unfolding sl by (rule drop_where_here [OF bl])
    have k0: "keeps (di, v) (?d, v1)" using P by (simp add: P_def)
    then have own1: "di_owns v1 ?d" by (simp add: keeps_def)
    have pos: "positive v1 x = positive v x" for x
      using keeps_negative [OF k0] by (simp add: positive_def)
    have r: "if positive v (dslots di ! nat b)
      then trim_step au_set_dbstart sbi b (?d, v1) = Some (True, au_set_dbstart b ?d, v1)
      else \<exists>h v'. trim_step au_set_dbstart sbi b (?d, v1) = Some (False, ?d\<lparr>di_hdentry := h\<rparr>, v')
        \<and> map hd_dentry h = (dslots ?d)[nat b := None] \<and> keeps (?d, v1) (?d\<lparr>di_hdentry := h\<rparr>, v')"
      using trim_step_ok [OF own1, of b au_set_dbstart sbi] b s e len by (simp add: here pos)
    show ?thesis
    proof (cases "positive v (dslots di ! nat b)")
      case True
      then show ?thesis using r P s1 by (auto simp: Q_def au_set_dbstart_def)
    next
      case False
      then obtain h' v2 where h': "trim_step au_set_dbstart sbi b (?d, v1)
          = Some (False, ?d\<lparr>di_hdentry := h'\<rparr>, v2)"
        "map hd_dentry h' = (dslots ?d)[nat b := None]" "keeps (?d, v1) (?d\<lparr>di_hdentry := h'\<rparr>, v2)"
        using r by auto
      have "map hd_dentry h' = drop_where (negative v) (dslots di) ?a (b + 1)"
        using h'(2) list_update_drop [OF bl b(1) False] by (simp add: sl)
      moreover have "keeps (di, v) (di\<lparr>di_hdentry := h'\<rparr>, v2)" using keeps_trans [OF k0 h'(3)] by simp
      moreover have "\<not> positive v (dslots di ! nat i)" if "?a \<le> i" "i < b + 1" for i
        using P False that by (cases "i = b") (auto simp: P_def)
      ultimately have "P (b + 1) h' v2" by (simp add: P_def)
      then show ?thesis using h'(1) s1 by (auto simp: I_def)
    qed
  qed
  have "P ?a (di_hdentry di) v"
    using keeps_refl [OF own] by (simp add: P_def drop_where_empty dslots_def)
  then have init: "I ?a (di, v)"
    unfolding I_def by (intro exI [of _ "di_hdentry di"] exI [of _ v]) simp
  obtain stop s' where r: "scan_up (trim_step au_set_dbstart sbi) ?a (di_bend di) (di, v) = Some (stop, s')"
    "if stop then \<exists>k. ?a \<le> k \<and> k \<le> di_bend di \<and> Q k s' else I (max ?a (di_bend di + 1)) s'"
    using scan_up_invariant [where I = I and Q = Q and f = "trim_step au_set_dbstart sbi", OF step init]
    by blast
  have u: "au_update_dbstart sbi (di, v) = Some s'"
    using r(1) by (simp add: au_update_dbstart_def au_dbstart_def au_dbend_def)
  show ?thesis
  proof (cases stop)
    case True
    then obtain k h v' where "?a \<le> k" "k \<le> di_bend di" "s' = (di\<lparr>di_hdentry := h, di_bstart := k\<rparr>, v')"
      "P k h v'" "positive v (dslots di ! nat k)" using r(2) by (auto simp: Q_def)
    then show ?thesis using u
      by (intro exI [of _ h] exI [of _ v'] exI [of _ k]) (simp add: P_def)
  next
    case False
    moreover have "max ?a (di_bend di + 1) = di_bend di + 1" using s by simp
    ultimately obtain h v' where "s' = (di\<lparr>di_hdentry := h\<rparr>, v')" "P (di_bend di + 1) h v'"
      using r(2) by (auto simp: I_def)
    then show ?thesis using u s
      by (intro exI [of _ h] exI [of _ v'] exI [of _ "di_bend di + 1"]) (simp add: P_def)
  qed
qed

section \<open>Freeing\<close>

lemma di_free_loop:
  assumes "0 \<le> a" "a \<le> e + 1" "e < int (length (di_hdentry di))"
  shows "loop_up (\<lambda>b v. Option.bind (arr_get (di_hdentry di) b) (\<lambda>h. au_hdput h v)) a e v
    = put_all put_dentry (take (nat (e + 1 - a)) (drop (nat a) (dslots di))) v"
  using assms
proof (induction "nat (e + 1 - a)" arbitrary: a v)
  case 0
  then have "e < a" by simp
  then show ?case by (simp add: loop_up_step(1))
next
  case (Suc m)
  let ?f = "\<lambda>b v. Option.bind (arr_get (di_hdentry di) b) (\<lambda>h. au_hdput h v)"
  have a: "a \<le> e" "0 \<le> a" using Suc(2,3) by auto
  have n: "nat a < length (dslots di)" using a Suc.prems by auto
  have l: "take (nat (e + 1 - a)) (drop (nat a) (dslots di))
      = dslots di ! nat a # take (nat (e + 1 - (a + 1))) (drop (nat (a + 1)) (dslots di))"
  proof -
    have "nat (e + 1 - a) = Suc (nat (e + 1 - (a + 1)))" "nat (a + 1) = Suc (nat a)"
      using a by auto
    then show ?thesis using Cons_nth_drop_Suc [OF n] by (metis take_Suc_Cons)
  qed
  have f: "?f a v = dput (dslots di ! nat a) v"
    using n a Suc.prems by (simp add: arr_get_def au_hdput_def dslots_nth)
  show ?case
  proof (cases "dput (dslots di ! nat a) v")
    case None
    then show ?thesis using a f by (simp add: l loop_up.simps [of ?f a e v])
  next
    case (Some v')
    have "loop_up ?f (a + 1) e v'
      = put_all put_dentry (take (nat (e + 1 - (a + 1))) (drop (nat (a + 1)) (dslots di))) v'"
      by (rule Suc(1)) (use Suc a in auto)
    then show ?thesis using a f Some by (simp add: l loop_up.simps [of ?f a e v])
  qed
qed

lemma held_slice:
  assumes "\<forall>n < length ps. ps ! n \<noteq> None \<longrightarrow> a \<le> n \<and> n < b"
  shows "held (take (b - a) (drop a ps)) p = held ps p"
proof -
  have z: "held xs p = 0" if "\<forall>x \<in> set xs. x = None" for xs :: "'a option list"
    using that held_zero [of xs p] by auto
  have "ps ! i = None" if "i < length ps" "i < a \<or> b \<le> i" for i using assms that by fastforce
  then have "held (take a ps) p = 0" "held (drop (max a b) ps) p = 0"
    by (intro z ballI; auto simp: in_set_conv_nth max_def split: if_splits)+
  moreover have "ps = take a ps @ take (b - a) (drop a ps) @ drop (max a b) ps"
  proof (cases "a \<le> b")
    case True
    then have "drop (max a b) ps = drop (b - a) (drop a ps)" by (simp add: max_def)
    then show ?thesis by (metis append_take_drop_id)
  next
    case False
    then show ?thesis by (simp add: max_def)
  qed
  ultimately show ?thesis using held_append [of "take a ps" _ p] by (metis add_0 add.right_neutral held_append)
qed

lemma di_free_ok:
  assumes own: "di_owns v di" and rng: "di_in_range di"
  shows "\<exists>v'. au_di_free di v = Some v' \<and> d_refs v' = d_foreign v (dslots di)"
proof (cases "0 \<le> di_bstart di")
  case False
  then have "dslots di = replicate (length (di_hdentry di)) None"
    using rng by (intro replicate_eqI) (auto simp: di_in_range_def in_set_conv_nth)
  then have "held (dslots di) p = 0" for p by (metis held_replicate_None)
  then show ?thesis using False
    by (auto simp: au_di_free_def d_foreign_def option.map_ident fun_eq_iff)
next
  case True
  let ?a = "nat (di_bstart di)" and ?b = "nat (di_bend di + 1)"
  let ?sl = "take (nat (di_bend di + 1 - di_bstart di)) (drop ?a (dslots di))"
  have nd: "nat (di_bend di + 1 - di_bstart di) = ?b - ?a"
    using True rng by (simp add: di_in_range_def nat_diff_distrib')
  have free: "au_di_free di v = put_all put_dentry ?sl v"
    using True rng di_free_loop [of "di_bstart di" "di_bend di" di v]
    by (simp add: au_di_free_def di_in_range_def)
  have h: "held ?sl p = held (dslots di) p" for p
    unfolding nd by (rule held_slice) (use rng True in \<open>auto simp: di_in_range_def\<close>)
  have "dref.owns v (?sl @ [])" using own dref.table_eq(1) [of ?sl "dslots di" v] h
    by (simp add: di_owns_owns)
  then obtain v' where v': "put_all put_dentry ?sl v = Some v'"
    "dref.foreign v' [] = dref.foreign v (?sl @ [])"
    using dref.put_all_ok by blast
  have "d_refs v' = dref.foreign v' []"
    by (simp add: dref.foreign_def fun_eq_iff option.map_ident)
  then show ?thesis using v' free dref.table_eq(2) [of ?sl "dslots di" v] h
    by (simp add: d_foreign_foreign)
qed

section \<open>Properties\<close>

text \<open>
  \<open>au_update_dbrange\<close> never leaves its table: it drops exactly the negative lower
  dentries of the old range (when asked), gives each of them back once and touches no other
  reference, and the new \<open>di_bstart..di_bend\<close> is exactly the range of the remaining ones,
  or -1, -1.
\<close>

theorem au_update_dbrange_spec:
  assumes "di_owns v di" and "0 \<le> di_bstart di" and "di_bstart di \<le> di_bend di + 1"
    and "di_bend di < int (length (di_hdentry di))"
  shows "\<exists>di' v'. au_update_dbrange sbi z (di, v) = Some (di', v')
    \<and> di_owns v' di' \<and> d_foreign v' (dslots di') = d_foreign v (dslots di)
    \<and> (\<forall>n < length (di_hdentry di). dslots di' ! n =
         (if z \<and> di_bstart di \<le> int n \<and> int n \<le> di_bend di \<and> negative v (dslots di ! n)
          then None else dslots di ! n))
    \<and> tight_range (dslots di') (di_bend di) (di_bstart di') (di_bend di')"
proof -
  obtain di' v' where r: "au_update_dbrange sbi z (di, v) = Some (di', v')"
    "keeps (di, v) (di', v')"
    "dslots di' = (if z then drop_where (negative v) (dslots di) (di_bstart di) (di_bend di + 1)
                    else dslots di)"
    "tight_range (dslots di') (di_bend di) (di_bstart di') (di_bend di')"
    using update_dbrange_ok [OF assms, of sbi z] by blast
  have "dslots di' ! n =
      (if z \<and> di_bstart di \<le> int n \<and> int n \<le> di_bend di \<and> negative v (dslots di ! n)
       then None else dslots di ! n)" if "n < length (di_hdentry di)" for n
    using that r(3) by (simp add: drop_where_nth zle_iff_zadd)
  then show ?thesis using r(1,2,4) by (auto simp: keeps_def)
qed

text \<open>
  \<open>au_update_dbstart\<close> puts the lower dentries below the first positive one (all of them,
  if none is positive), each once, and moves \<open>di_bstart\<close> to that one; no other slot and no
  foreign reference changes.
\<close>

theorem au_update_dbstart_spec:
  assumes "di_owns v di" and "0 \<le> di_bstart di" and "di_bstart di \<le> di_bend di + 1"
    and "di_bend di < int (length (di_hdentry di))"
  shows "\<exists>di' v' k. au_update_dbstart sbi (di, v) = Some (di', v')
    \<and> di_owns v' di' \<and> d_foreign v' (dslots di') = d_foreign v (dslots di)
    \<and> di_bstart di \<le> k \<and> k \<le> di_bend di + 1
    \<and> (\<forall>i. di_bstart di \<le> i \<and> i < k \<longrightarrow> \<not> positive v (dslots di ! nat i) \<and> dslots di' ! nat i = None)
    \<and> (\<forall>n < length (di_hdentry di). int n < di_bstart di \<or> k \<le> int n \<longrightarrow>
         dslots di' ! n = dslots di ! n)
    \<and> di_bstart di' = (if k \<le> di_bend di then k else di_bstart di)
    \<and> (k \<le> di_bend di \<longrightarrow> positive v (dslots di ! nat k))"
proof -
  obtain h v' k where r: "au_update_dbstart sbi (di, v) = Some (di\<lparr>di_hdentry := h,
        di_bstart := if k \<le> di_bend di then k else di_bstart di\<rparr>, v')"
    "di_bstart di \<le> k" "k \<le> di_bend di + 1"
    "map hd_dentry h = drop_where (negative v) (dslots di) (di_bstart di) k"
    "keeps (di, v) (di\<lparr>di_hdentry := h\<rparr>, v')"
    "\<forall>i. di_bstart di \<le> i \<longrightarrow> i < k \<longrightarrow> \<not> positive v (dslots di ! nat i)"
    "k \<le> di_bend di \<longrightarrow> positive v (dslots di ! nat k)"
    using update_dbstart_ok [OF assms, of sbi] by (elim exE conjE)
  let ?di = "di\<lparr>di_hdentry := h, di_bstart := if k \<le> di_bend di then k else di_bstart di\<rparr>"
  have sl: "dslots ?di = drop_where (negative v) (dslots di) (di_bstart di) k"
    using r(4) by (simp add: dslots_def)
  have low: "dslots ?di ! nat i = None" if "di_bstart di \<le> i" "i < k" for i
  proof -
    have "nat i < length (dslots di)" using that r(3) assms by auto
    then show ?thesis
      using r(6) that assms(2) unfolding sl by (auto simp: drop_where_nth positive_def)
  qed
  have "dslots ?di ! n = dslots di ! n"
    if "n < length (di_hdentry di)" "int n < di_bstart di \<or> k \<le> int n" for n
    using that unfolding sl by (auto simp: drop_where_nth)
  moreover have "keeps (di, v) (?di, v')" using r(5) by simp
  ultimately show ?thesis
    using r low by (intro exI [of _ ?di] exI [of _ v'] exI [of _ k]) (simp add: keeps_def)
qed

text \<open>
  freeing the private data of a dentry whose range covers its table drops exactly the
  references the table holds: afterwards only the references held elsewhere are left.
\<close>

theorem au_di_free_spec:
  assumes "di_owns v di" and "di_in_range di"
  shows "\<exists>v'. au_di_free di v = Some v' \<and> d_refs v' = d_foreign v (dslots di)"
  by (rule di_free_ok [OF assms])

text \<open>A small store for the witnesses: 100 and 102 are positive, 101 is negative.\<close>

definition example_vfs :: vfs where
  "example_vfs =
     \<lparr>dents = [100 \<mapsto> \<lparr>d_count = 2, d_inode = Some 1, d_mounted = False, d_hsb = 1\<rparr>,
              101 \<mapsto> \<lparr>d_count = 1, d_inode = None, d_mounted = False, d_hsb = 2\<rparr>,
              102 \<mapsto> \<lparr>d_count = 3, d_inode = Some 3, d_mounted = False, d_hsb = 3\<rparr>],
      inos = [1 \<mapsto> \<lparr>i_count = 2, i_nlink = 1, i_ino = 11, i_generation = 7, i_fmt = 16384, i_rdonly = False,
                   i_hsb = 1\<rparr>,
              3 \<mapsto> \<lparr>i_count = 1, i_nlink = 0, i_ino = 33, i_generation = 9, i_fmt = 16384, i_rdonly = False,
                   i_hsb = 3\<rparr>],
      files = Map.empty\<rparr>"

definition example_dinfo :: au_dinfo where
  "example_dinfo =
     \<lparr>di_generation = 1, di_bstart = 1, di_bend = 2, di_bwh = - 1, di_bdiropq = - 1,
      di_hdentry = [\<lparr>hd_dentry = None, hd_id = - 1\<rparr>, \<lparr>hd_dentry = Some 101, hd_id = 2\<rparr>,
                    \<lparr>hd_dentry = Some 102, hd_id = 127\<rparr>]\<rparr>"

lemma example_dinfo_ok:
  "di_owns example_vfs example_dinfo" "di_bstart example_dinfo = 1" "di_bend example_dinfo = 2"
  "length (di_hdentry example_dinfo) = 3" "dslots example_dinfo = [None, Some 101, Some 102]"
  by (auto simp: di_owns_def example_vfs_def example_dinfo_def dslots_def d_refs_def)

theorem au_update_dbrange_spec_witness:
  "\<exists>di' v'. au_update_dbrange example_sbinfo True (example_dinfo, example_vfs) = Some (di', v')
    \<and> di_owns v' di'
    \<and> d_foreign v' (dslots di') = d_foreign example_vfs (dslots example_dinfo)
    \<and> (\<forall>n < length (di_hdentry example_dinfo). dslots di' ! n =
         (if True \<and> di_bstart example_dinfo \<le> int n \<and> int n \<le> di_bend example_dinfo
             \<and> negative example_vfs (dslots example_dinfo ! n)
          then None else dslots example_dinfo ! n))
    \<and> tight_range (dslots di') (di_bend example_dinfo) (di_bstart di') (di_bend di')"
  by (rule au_update_dbrange_spec) (simp_all add: example_dinfo_ok)

theorem au_update_dbstart_spec_witness:
  "\<exists>di' v' k. au_update_dbstart example_sbinfo (example_dinfo, example_vfs) = Some (di', v')
    \<and> di_owns v' di' \<and> d_foreign v' (dslots di') = d_foreign example_vfs (dslots example_dinfo)
    \<and> di_bstart example_dinfo \<le> k \<and> k \<le> di_bend example_dinfo + 1"
  using au_update_dbstart_spec [of example_vfs example_dinfo example_sbinfo] example_dinfo_ok
  by (elim meta_impE) (simp_all, blast)

theorem au_di_free_spec_witness:
  "\<exists>v'. au_di_free example_dinfo example_vfs = Some v'
    \<and> d_refs v' = d_foreign example_vfs (dslots example_dinfo)"
proof -
  have "di_in_range example_dinfo"
    by (auto simp: di_in_range_def example_dinfo_ok less_Suc_eq numeral_3_eq_3 nth_Cons')
  then show ?thesis using au_di_free_spec example_dinfo_ok(1) by blast
qed

end
