(* ===== verification/Iinfo.thy ===== *)
theory Iinfo
  imports Dinfo
begin

text \<open>
  The private data of an aufs inode (\<open>struct au_iinfo\<close>, \<open>inode.h\<close> and \<open>iinfo.c\<close>): the
  table of the lower inodes by branch index with the branch id, the notification mark and
  the whiteout dentry of each. Writing the inode-number table (\<open>au_xino_write\<close>) and setting a
  notification mark (\<open>au_hn_alloc\<close>) cannot change the outcome, since their errors are only
  logged: the first is recorded as a call, the second answers \<open>hn_ok\<close>.
\<close>

section \<open>State\<close>

record au_hinode =
  hi_inode :: "iptr option"
  hi_id :: bindex
  hi_notify :: bool
  hi_whdentry :: "dptr option"

record au_iinfo =
  ig_generation :: u32
  ig_half_refreshed :: bool
  ii_hsb1 :: nat
  ii_bstart :: bindex
  ii_bend :: bindex
  ii_higen :: u32
  ii_hinode :: "au_hinode list"

text \<open>What \<open>au_set_h_iptr\<close> reads of the aufs inode: the type bits of its mode, its number.\<close>

record vinode =
  vi_fmt :: int
  vi_ino :: u32

text \<open>The calls of \<open>au_xino_write(sb, bindex, h_ino, ino)\<close>.\<close>

type_synonym xino_log = "(bindex \<times> u32 \<times> u32) list"

definition AuHi_XINO :: int where "AuHi_XINO = 1"
definition AuHi_HNOTIFY :: "kconfig \<Rightarrow> int" where
  "AuHi_HNOTIFY cfg = (if cfg_hnotify cfg then 2 else 0)"
definition au_ftest_hi :: "int \<Rightarrow> int \<Rightarrow> bool" where
  "au_ftest_hi flags name = (and flags name \<noteq> 0)"
definition au_fset_hi :: "int \<Rightarrow> int \<Rightarrow> int" where
  "au_fset_hi flags name = or flags name"

definition au_hn_init :: "au_hinode \<Rightarrow> au_hinode" where
  "au_hn_init h = h\<lparr>hi_notify := False\<rparr>"
definition au_iigen :: "au_iinfo \<Rightarrow> u32" where "au_iigen ii = ig_generation ii"
definition au_iigen_dec :: "au_iinfo \<Rightarrow> au_iinfo" where
  "au_iigen_dec ii = ii\<lparr>ig_generation := ig_generation ii - 1\<rparr>"
definition au_iigen_test :: "au_iinfo option \<Rightarrow> u32 \<Rightarrow> int" where
  "au_iigen_test ii sigen =
     (case ii of None \<Rightarrow> 0 | Some i \<Rightarrow> if au_iigen i \<noteq> sigen then - EIO else 0)"
definition au_test_higen :: "au_iinfo \<Rightarrow> h_inode \<Rightarrow> bool" where
  "au_test_higen ii h = (\<not> (ii_hsb1 ii = i_hsb h \<and> ii_higen ii = i_generation h))"
definition au_ii_br_id :: "au_iinfo \<Rightarrow> bindex \<Rightarrow> bindex option" where
  "au_ii_br_id ii b = map_option hi_id (arr_get (ii_hinode ii) b)"
definition au_ibstart :: "au_iinfo \<Rightarrow> bindex" where "au_ibstart ii = ii_bstart ii"
definition au_ibend :: "au_iinfo \<Rightarrow> bindex" where "au_ibend ii = ii_bend ii"
definition au_hi_wh :: "au_iinfo \<Rightarrow> bindex \<Rightarrow> dptr option option" where
  "au_hi_wh ii b = map_option hi_whdentry (arr_get (ii_hinode ii) b)"
definition au_set_ibstart :: "bindex \<Rightarrow> au_iinfo \<Rightarrow> au_iinfo" where
  "au_set_ibstart b ii = ii\<lparr>ii_bstart := b\<rparr>"
definition au_set_ibend :: "bindex \<Rightarrow> au_iinfo \<Rightarrow> au_iinfo" where
  "au_set_ibend b ii = ii\<lparr>ii_bend := b\<rparr>"

section \<open>Operations\<close>

definition au_h_iptr :: "au_iinfo \<Rightarrow> vfs \<Rightarrow> bindex \<Rightarrow> iptr option option" where
  "au_h_iptr ii v bindex =
     Option.bind (arr_get (ii_hinode ii) bindex) (\<lambda>h.
     case hi_inode h of
       None \<Rightarrow> Some None
     | Some i \<Rightarrow> Option.bind (inos v i) (\<lambda>x. if i_count x \<le> 0 then None else Some (Some i)))"

text \<open>\<open>au_hiput\<close> with \<open>au_hn_free\<close>: the slot afterwards, and the store.\<close>

definition au_hiput :: "au_hinode \<Rightarrow> vfs \<Rightarrow> (au_hinode \<times> vfs) option" where
  "au_hiput h v =
     Option.bind (dput (hi_whdentry h) v) (\<lambda>v1.
     map_option (\<lambda>v2. (h\<lparr>hi_notify := False\<rparr>, v2)) (iput (hi_inode h) v1))"

definition au_hi_flags :: "kconfig \<Rightarrow> au_sbinfo \<Rightarrow> bool \<Rightarrow> int" where
  "au_hi_flags cfg sbi isdir =
     (let f0 = (if au_opt_test (au_mntflags sbi) AuOpt_XINO then au_fset_hi 0 AuHi_XINO else 0)
      in if isdir \<and> au_opt_test (au_mntflags sbi) (AuOpt_UDBA_HNOTIFY cfg)
         then au_fset_hi f0 (AuHi_HNOTIFY cfg) else f0)"

definition au_cpup_igen :: "au_iinfo \<Rightarrow> h_inode \<Rightarrow> au_iinfo" where
  "au_cpup_igen ii h = ii\<lparr>ii_higen := i_generation h, ii_hsb1 := i_hsb h\<rparr>"

definition au_set_h_iptr ::
    "kconfig \<Rightarrow> au_sbinfo \<Rightarrow> vinode \<Rightarrow> bool \<Rightarrow> bindex \<Rightarrow> iptr option \<Rightarrow> int
     \<Rightarrow> au_iinfo \<times> vfs \<times> xino_log \<Rightarrow> (au_iinfo \<times> vfs \<times> xino_log) option" where
  "au_set_h_iptr cfg sbi vi hn_ok bindex h_inode flags s =
     (let (ii, v, xlog) = s in
      Option.bind (arr_get (ii_hinode ii) bindex) (\<lambda>h.
      Option.bind (if hi_inode h \<noteq> None then au_hiput h v else Some (h, v)) (\<lambda>(h1, v1).
      case h_inode of
        None \<Rightarrow>
          Some (ii\<lparr>ii_hinode := (ii_hinode ii)[nat bindex := h1\<lparr>hi_inode := None\<rparr>]\<rparr>, v1, xlog)
      | Some p \<Rightarrow>
          Option.bind (inos v p) (\<lambda>x.
          if i_count x \<le> 0 \<or> vi_fmt vi \<noteq> 0 \<and> i_fmt x \<noteq> vi_fmt vi then None
          else
            Option.bind (au_sbr sbi bindex) (\<lambda>br.
            let ii1 = (if bindex = ii_bstart ii then au_cpup_igen ii x else ii);
                h2 = h1\<lparr>hi_inode := Some p, hi_id := br_id br\<rparr>;
                h3 = (if au_ftest_hi flags (AuHi_HNOTIFY cfg) \<and> au_br_hnotifyable cfg (br_perm br)
                      then h2\<lparr>hi_notify := hn_ok\<rparr> else h2)
            in Some (ii1\<lparr>ii_hinode := (ii_hinode ii1)[nat bindex := h3]\<rparr>, v1,
                     (if au_ftest_hi flags AuHi_XINO
                      then xlog @ [(bindex, i_ino x, vi_ino vi)] else xlog)))))))"

definition au_set_hi_wh :: "bindex \<Rightarrow> dptr option \<Rightarrow> au_iinfo \<Rightarrow> au_iinfo option" where
  "au_set_hi_wh bindex h_wh ii =
     Option.bind (arr_get (ii_hinode ii) bindex) (\<lambda>h.
     if hi_whdentry h \<noteq> None then None
     else Some (ii\<lparr>ii_hinode := (ii_hinode ii)[nat bindex := h\<lparr>hi_whdentry := h_wh\<rparr>]\<rparr>))"

definition au_update_iigen :: "au_sbinfo \<Rightarrow> bool \<Rightarrow> au_iinfo \<Rightarrow> au_iinfo" where
  "au_update_iigen sbi half ii =
     ii\<lparr>ig_generation := au_sigen sbi, ig_half_refreshed := half\<rparr>"

definition hi_used :: "au_iinfo \<Rightarrow> bindex \<Rightarrow> bool option" where
  "hi_used ii b = map_option (\<lambda>h. hi_inode h \<noteq> None) (arr_get (ii_hinode ii) b)"

text \<open>The search for the new range goes over the branches, not over the old range.\<close>

definition search_ibrange :: "au_sbinfo \<Rightarrow> au_iinfo \<Rightarrow> au_iinfo option" where
  "search_ibrange sbi ii =
     (let bend = au_sbend sbi in
      Option.bind (first_up (hi_used ii) 0 bend) (\<lambda>bs.
      case bs of
        None \<Rightarrow> Some (ii\<lparr>ii_bstart := - 1, ii_bend := - 1\<rparr>)
      | Some s \<Rightarrow>
          Option.bind (first_down (hi_used ii) bend s) (\<lambda>be.
          let e = (case be of None \<Rightarrow> - 1 | Some e \<Rightarrow> e)
          in if e < s then None else Some (ii\<lparr>ii_bstart := s, ii_bend := e\<rparr>))))"

definition put_dead ::
    "kconfig \<Rightarrow> au_sbinfo \<Rightarrow> vinode \<Rightarrow> bindex \<Rightarrow> au_iinfo \<times> vfs \<Rightarrow> (au_iinfo \<times> vfs) option" where
  "put_dead cfg sbi vi b s =
     (let (ii, v) = s in
      Option.bind (arr_get (ii_hinode ii) b) (\<lambda>h.
      case hi_inode h of
        None \<Rightarrow> Some s
      | Some p \<Rightarrow>
          Option.bind (inos v p) (\<lambda>x.
          if i_nlink x \<noteq> 0 then Some s
          else map_option (\<lambda>(ii', v', xlog). (ii', v'))
                 (au_set_h_iptr cfg sbi vi True b None 0 (ii, v, [])))))"

definition au_update_ibrange ::
    "kconfig \<Rightarrow> au_sbinfo \<Rightarrow> vinode \<Rightarrow> bool \<Rightarrow> au_iinfo \<times> vfs \<Rightarrow> (au_iinfo \<times> vfs) option" where
  "au_update_ibrange cfg sbi vi do_put_zero s =
     Option.bind
       (if do_put_zero \<and> 0 \<le> ii_bstart (fst s)
        then loop_up (put_dead cfg sbi vi) (ii_bstart (fst s)) (ii_bend (fst s)) s
        else Some s)
       (\<lambda>(ii, v). map_option (\<lambda>ii'. (ii', v)) (search_ibrange sbi ii))"

definition au_iinfo_init :: "au_sbinfo \<Rightarrow> au_iinfo \<Rightarrow> bool \<Rightarrow> int \<times> au_iinfo" where
  "au_iinfo_init sbi ii alloc_ok =
     (let nbr = (if au_sbend sbi + 1 \<le> 0 then 1 else au_sbend sbi + 1)
      in if alloc_ok
         then (0, ii\<lparr>ii_hinode := replicate (nat nbr)
                 \<lparr>hi_inode = None, hi_id = - 1, hi_notify = False, hi_whdentry = None\<rparr>,
               ig_generation := au_sigen sbi, ii_bstart := - 1, ii_bend := - 1\<rparr>)
         else (- ENOMEM, ii\<lparr>ii_hinode := []\<rparr>))"

definition au_ii_realloc :: "au_iinfo \<Rightarrow> int \<Rightarrow> bool \<Rightarrow> (int \<times> au_iinfo) option" where
  "au_ii_realloc ii nbr alloc_ok =
     (let sz = (if ii_bend ii + 1 = 0 then 1 else ii_bend ii + 1)
      in case au_kzrealloc (ii_hinode ii) sz nbr
                \<lparr>hi_inode = None, hi_id = 0, hi_notify = False, hi_whdentry = None\<rparr> alloc_ok of
           None \<Rightarrow> None
         | Some None \<Rightarrow> Some (- ENOMEM, ii)
         | Some (Some hip) \<Rightarrow> Some (0, ii\<lparr>ii_hinode := hip\<rparr>))"

text \<open>The table part of \<open>au_iinfo_fin\<close>: the references it gives back.\<close>

definition iinfo_fin_table :: "au_iinfo \<Rightarrow> vfs \<Rightarrow> vfs option" where
  "iinfo_fin_table ii v =
     (if 0 \<le> ii_bstart ii
      then loop_up (\<lambda>b v. Option.bind (arr_get (ii_hinode ii) b) (\<lambda>h.
             if hi_inode h \<noteq> None then map_option snd (au_hiput h v) else Some v))
             (ii_bstart ii) (ii_bend ii) v
      else Some v)"

section \<open>The table as owner of references\<close>

definition islots :: "au_iinfo \<Rightarrow> iptr option list" where
  "islots ii = map hi_inode (ii_hinode ii)"

definition i_foreign :: "vfs \<Rightarrow> iptr option list \<Rightarrow> iptr \<Rightarrow> int option" where
  "i_foreign v ps i = map_option (\<lambda>n. n - held ps i) (i_refs v i)"

definition ii_owns :: "vfs \<Rightarrow> au_iinfo \<Rightarrow> bool" where
  "ii_owns v ii =
     ((\<forall>i. Some i \<in> set (islots ii) \<longrightarrow> (\<exists>n. i_refs v i = Some n \<and> held (islots ii) i \<le> n))
      \<and> (\<forall>h \<in> set (ii_hinode ii). hi_whdentry h = None))"

lemma ii_owns_owns: "ii_owns v ii \<Longrightarrow> iref.owns v (islots ii)"
  by (simp add: ii_owns_def iref.owns_def)

lemma i_foreign_foreign: "i_foreign v ps = iref.foreign v ps"
  by (simp add: i_foreign_def iref.foreign_def fun_eq_iff)

text \<open>An inode without links, which a range update gives back.\<close>

definition dead :: "vfs \<Rightarrow> iptr option \<Rightarrow> bool" where
  "dead v i = (case i of None \<Rightarrow> False
     | Some p \<Rightarrow> map_option i_nlink (inos v p) = Some 0)"

definition keeps_i :: "au_iinfo \<times> vfs \<Rightarrow> au_iinfo \<times> vfs \<Rightarrow> bool" where
  "keeps_i s0 s =
     (ii_owns (snd s) (fst s)
      \<and> i_foreign (snd s) (islots (fst s)) = i_foreign (snd s0) (islots (fst s0))
      \<and> dents (snd s) = dents (snd s0)
      \<and> (\<forall>e. map_option i_nlink (inos (snd s) e) = map_option i_nlink (inos (snd s0) e)))"

lemma keeps_i_refl: "ii_owns v ii \<Longrightarrow> keeps_i (ii, v) (ii, v)"
  by (simp add: keeps_i_def)

lemma keeps_i_trans: "keeps_i s s' \<Longrightarrow> keeps_i s' s'' \<Longrightarrow> keeps_i s s''"
  by (simp add: keeps_i_def)

lemma keeps_i_dead: "keeps_i s s' \<Longrightarrow> dead (snd s') h = dead (snd s) h"
  by (cases h) (simp_all add: keeps_i_def dead_def)

lemma islots_length [simp]: "length (islots ii) = length (ii_hinode ii)"
  by (simp add: islots_def)

lemma islots_nth: "n < length (ii_hinode ii) \<Longrightarrow> islots ii ! n = hi_inode (ii_hinode ii ! n)"
  by (simp add: islots_def)

lemma put_inode_frame: "put_inode i v = Some v' \<Longrightarrow>
    dents v' = dents v \<and> files v' = files v
    \<and> (\<forall>e. map_option i_nlink (inos v' e) = map_option i_nlink (inos v e))"
  by (auto simp: put_inode_def split: option.splits if_splits)

lemma ii_owns_live:
  assumes "ii_owns v ii" and "n < length (ii_hinode ii)" and "islots ii ! n = Some p"
  shows "\<exists>x. inos v p = Some x \<and> 0 < i_count x"
proof -
  have "Some p \<in> set (islots ii)" using assms(2,3) nth_mem [of n "islots ii"] by simp
  then show ?thesis
    using iref.owns_live [OF ii_owns_owns [OF assms(1)]] by (auto simp: i_refs_def)
qed

lemma au_set_h_iptr_None:
  assumes own: "ii_owns v ii" and b: "0 \<le> b" "b < int (length (ii_hinode ii))"
  shows "\<exists>h v'. au_set_h_iptr cfg sbi vi hn b None 0 (ii, v, xl) = Some (ii\<lparr>ii_hinode := h\<rparr>, v', xl)
    \<and> map hi_inode h = (islots ii)[nat b := None] \<and> keeps_i (ii, v) (ii\<lparr>ii_hinode := h\<rparr>, v')"
proof -
  have n: "nat b < length (islots ii)" using b by simp
  let ?o = "ii_hinode ii ! nat b"
  have wh: "hi_whdentry ?o = None" using own n by (simp add: ii_owns_def)
  obtain v' where v': "iput (islots ii ! nat b) v = Some v'"
    "iref.owns v' ((islots ii)[nat b := None])"
    "iref.foreign v' ((islots ii)[nat b := None]) = iref.foreign v (islots ii)"
    using iref.put_slot_ok [OF ii_owns_owns [OF own] n] by blast
  let ?o' = "(if hi_inode ?o \<noteq> None then ?o\<lparr>hi_notify := False, hi_inode := None\<rparr>
    else ?o\<lparr>hi_inode := None\<rparr>)"
  let ?h = "(ii_hinode ii)[nat b := ?o']"
  have sl: "map hi_inode ?h = (islots ii)[nat b := None]" by (simp add: islots_def map_update)
  have v1: "hi_inode ?o = None \<Longrightarrow> v' = v" using v'(1) n by (simp add: islots_nth)
  have "au_set_h_iptr cfg sbi vi hn b None 0 (ii, v, xl) = Some (ii\<lparr>ii_hinode := ?h\<rparr>, v', xl)"
    using v'(1) v1 n b wh by (simp add: au_set_h_iptr_def arr_get_def au_hiput_def islots_nth)
  moreover have "keeps_i (ii, v) (ii\<lparr>ii_hinode := ?h\<rparr>, v')"
  proof -
    have "\<forall>h \<in> set ?h. hi_whdentry h = None"
    proof
      fix h assume "h \<in> set ?h"
      then have "h \<in> insert ?o' (set (ii_hinode ii))"
        using set_update_subset_insert [of "ii_hinode ii" "nat b" ?o'] by blast
      then show "hi_whdentry h = None" using own wh by (auto simp: ii_owns_def)
    qed
    moreover have "dents v' = dents v
        \<and> (\<forall>e. map_option i_nlink (inos v' e) = map_option i_nlink (inos v e))"
      using v'(1) by (cases "islots ii ! nat b") (auto dest: put_inode_frame)
    ultimately show ?thesis
      using v'(2,3) sl by (simp add: keeps_i_def ii_owns_def iref.owns_def i_foreign_foreign islots_def)
  qed
  ultimately show ?thesis using sl by blast
qed

lemma put_dead_ok:
  assumes own: "ii_owns v ii" and b: "0 \<le> b" "b < int (length (ii_hinode ii))"
  shows "\<exists>h v'. put_dead cfg sbi vi b (ii, v) = Some (ii\<lparr>ii_hinode := h\<rparr>, v')
    \<and> map hi_inode h = (if dead v (islots ii ! nat b) then (islots ii)[nat b := None]
                        else islots ii)
    \<and> keeps_i (ii, v) (ii\<lparr>ii_hinode := h\<rparr>, v')"
proof -
  have n: "nat b < length (ii_hinode ii)" using b by linarith
  have g: "arr_get (ii_hinode ii) b = Some (ii_hinode ii ! nat b)"
    "islots ii ! nat b = hi_inode (ii_hinode ii ! nat b)"
    using b n by (simp_all add: arr_get_def islots_nth)
  show ?thesis
  proof (cases "dead v (islots ii ! nat b)")
    case True
    then obtain p x where "islots ii ! nat b = Some p" "inos v p = Some x" "i_nlink x = 0"
      by (cases "islots ii ! nat b") (auto simp: dead_def)
    then have "put_dead cfg sbi vi b (ii, v) = map_option (\<lambda>(ii', v', xlog). (ii', v'))
        (au_set_h_iptr cfg sbi vi True b None 0 (ii, v, []))"
      using g by (simp add: put_dead_def)
    then show ?thesis
      using True au_set_h_iptr_None [OF own b, of cfg sbi vi True "[]"] by auto
  next
    case False
    then have "put_dead cfg sbi vi b (ii, v) = Some (ii, v)"
      using g ii_owns_live [OF own n] by (auto simp: put_dead_def dead_def split: option.splits)
    then show ?thesis
      using False keeps_i_refl [OF own] by (auto simp: islots_def intro!: exI [of _ "ii_hinode ii"])
  qed
qed

lemma put_dead_loop:
  assumes own: "ii_owns v ii" and a: "0 \<le> a" "a \<le> e + 1" "e < int (length (ii_hinode ii))"
  shows "\<exists>h v'. loop_up (put_dead cfg sbi vi) a e (ii, v) = Some (ii\<lparr>ii_hinode := h\<rparr>, v')
    \<and> map hi_inode h = drop_where (dead v) (islots ii) a (e + 1)
    \<and> keeps_i (ii, v) (ii\<lparr>ii_hinode := h\<rparr>, v')"
proof -
  define I where "I = (\<lambda>b s. \<exists>h v'. s = (ii\<lparr>ii_hinode := h\<rparr>, v')
    \<and> map hi_inode h = drop_where (dead v) (islots ii) a b
    \<and> keeps_i (ii, v) (ii\<lparr>ii_hinode := h\<rparr>, v'))"
  have step: "\<exists>s'. put_dead cfg sbi vi b s = Some s' \<and> I (b + 1) s'"
    if b: "a \<le> b" "b \<le> e" "I b s" for b s
  proof -
    obtain h v1 where s: "s = (ii\<lparr>ii_hinode := h\<rparr>, v1)"
      "map hi_inode h = drop_where (dead v) (islots ii) a b"
      "keeps_i (ii, v) (ii\<lparr>ii_hinode := h\<rparr>, v1)"
      using b(3) by (auto simp: I_def)
    let ?d = "ii\<lparr>ii_hinode := h\<rparr>"
    have sl: "islots ?d = drop_where (dead v) (islots ii) a b" using s(2) by (simp add: islots_def)
    have len: "length h = length (ii_hinode ii)" using arg_cong [OF s(2), of length] by simp
    have own1: "ii_owns v1 ?d" using s(3) by (simp add: keeps_i_def)
    have here: "islots ?d ! nat b = islots ii ! nat b"
      unfolding sl by (rule drop_where_here) (use a b in auto)
    have dd: "dead v1 x = dead v x" for x using keeps_i_dead [OF s(3)] by simp
    have bl: "0 \<le> b" "b < int (length (ii_hinode ?d))" using a b len by auto
    obtain h' v2 where r: "put_dead cfg sbi vi b (?d, v1) = Some (?d\<lparr>ii_hinode := h'\<rparr>, v2)"
      "map hi_inode h' = (if dead v1 (islots ?d ! nat b) then (islots ?d)[nat b := None]
                        else islots ?d)" "keeps_i (?d, v1) (?d\<lparr>ii_hinode := h'\<rparr>, v2)"
      using put_dead_ok [OF own1 bl] by blast
    have "map hi_inode h' = drop_where (dead v) (islots ii) a (b + 1)"
      using r(2) drop_where_step [of b "islots ii" a "dead v"] a b(1,2)
      by (simp add: here dd) (simp add: sl)
    then show ?thesis using r keeps_i_trans [OF s(3) r(3)] s(1) by (auto simp: I_def)
  qed
  have "I a (ii, v)"
    unfolding I_def
    by (rule exI [of _ "ii_hinode ii"], rule exI [of _ v])
      (simp add: keeps_i_refl [OF own] drop_where_empty islots_def)
  then have "\<exists>s'. loop_up (put_dead cfg sbi vi) a e (ii, v) = Some s' \<and> I (e + 1) s'"
    by (intro loop_up_invariant step a(2))
  then show ?thesis by (auto simp: I_def)
qed

lemma hi_used_slot: "hi_used ii = slot_used (islots ii)"
  by (rule ext) (simp add: hi_used_def slot_used_def islots_def arr_get_def nat_less_iff)

lemma search_ibrange_ok:
  assumes "si_bend sbi < int (length (ii_hinode ii))"
  shows "\<exists>s t. search_ibrange sbi ii = Some (ii\<lparr>ii_bstart := s, ii_bend := t\<rparr>)
    \<and> tight_range (islots ii) (si_bend sbi) s t"
proof -
  have e: "si_bend sbi < int (length (islots ii))" using assms by simp
  from tight_search [OF e] show ?thesis
  proof (elim disjE exE conjE)
    assume "first_up (slot_used (islots ii)) 0 (si_bend sbi) = Some None"
      "tight_range (islots ii) (si_bend sbi) (- 1) (- 1)"
    then show ?thesis
      by (intro exI [of _ "- 1"]) (simp add: search_ibrange_def hi_used_slot au_sbend_def)
  next
    fix s t
    assume f: "first_up (slot_used (islots ii)) 0 (si_bend sbi) = Some (Some s)"
      "\<forall>u. 0 \<le> u \<longrightarrow> u \<le> s \<longrightarrow> first_down (slot_used (islots ii)) (si_bend sbi) u = Some (Some t)"
      "s \<le> t" "tight_range (islots ii) (si_bend sbi) s t"
    have "0 \<le> s" using first_up_found [OF f(1)] by simp
    then have "first_down (slot_used (islots ii)) (si_bend sbi) s = Some (Some t)" using f(2) by simp
    then show ?thesis
      using f by (intro exI [of _ s] exI [of _ t])
        (simp add: search_ibrange_def hi_used_slot au_sbend_def)
  qed
qed

section \<open>Properties\<close>

text \<open>
  \<open>au_update_ibrange\<close> gives back exactly the lower inodes without links (when asked), each
  once, and sets \<open>ii_bstart..ii_bend\<close> to exactly the range of the remaining lower inodes
  over all branches, or -1, -1. It stays inside the table if that has an entry per branch.
\<close>

theorem au_update_ibrange_spec:
  assumes "ii_owns v ii" and "si_bend sbi < int (length (ii_hinode ii))"
    and "ii_bstart ii \<le> ii_bend ii + 1" and "ii_bend ii < int (length (ii_hinode ii))"
  shows "\<exists>ii' v'. au_update_ibrange cfg sbi vi z (ii, v) = Some (ii', v')
    \<and> ii_owns v' ii' \<and> i_foreign v' (islots ii') = i_foreign v (islots ii)
    \<and> (\<forall>n < length (ii_hinode ii). islots ii' ! n =
         (if z \<and> 0 \<le> ii_bstart ii \<and> ii_bstart ii \<le> int n \<and> int n \<le> ii_bend ii
             \<and> dead v (islots ii ! n)
          then None else islots ii ! n))
    \<and> tight_range (islots ii') (si_bend sbi) (ii_bstart ii') (ii_bend ii')"
proof -
  let ?z = "z \<and> 0 \<le> ii_bstart ii"
  obtain h v' where l: "(if ?z then loop_up (put_dead cfg sbi vi) (ii_bstart ii) (ii_bend ii) (ii, v)
      else Some (ii, v)) = Some (ii\<lparr>ii_hinode := h\<rparr>, v')"
    "map hi_inode h = (if ?z then drop_where (dead v) (islots ii) (ii_bstart ii) (ii_bend ii + 1)
      else islots ii)" "keeps_i (ii, v) (ii\<lparr>ii_hinode := h\<rparr>, v')"
  proof (cases ?z)
    case True
    then show ?thesis using put_dead_loop [OF assms(1) _ assms(3,4), of cfg sbi vi] that by auto
  next
    case False
    show ?thesis using keeps_i_refl [OF assms(1)] that [of "ii_hinode ii" v]
      unfolding if_not_P [OF False] by (simp add: islots_def)
  qed
  have len: "length h = length (ii_hinode ii)"
    using arg_cong [OF l(2), of length] by (simp split: if_splits)
  obtain s t where st: "search_ibrange sbi (ii\<lparr>ii_hinode := h\<rparr>)
      = Some (ii\<lparr>ii_hinode := h, ii_bstart := s, ii_bend := t\<rparr>)"
    "tight_range (islots (ii\<lparr>ii_hinode := h\<rparr>)) (si_bend sbi) s t"
    using search_ibrange_ok [of sbi "ii\<lparr>ii_hinode := h\<rparr>"] assms(2) len by auto
  let ?ii = "ii\<lparr>ii_hinode := h, ii_bstart := s, ii_bend := t\<rparr>"
  have "au_update_ibrange cfg sbi vi z (ii, v) = Some (?ii, v')"
    unfolding au_update_ibrange_def fst_conv l(1) using st(1) by simp
  moreover have "islots ?ii = islots (ii\<lparr>ii_hinode := h\<rparr>)" by (simp add: islots_def)
  moreover have "islots ?ii ! n = (if ?z \<and> ii_bstart ii \<le> int n \<and> int n \<le> ii_bend ii
      \<and> dead v (islots ii ! n) then None else islots ii ! n)" if "n < length (ii_hinode ii)" for n
    using l(2) that by (auto simp: islots_def drop_where_nth)
  moreover have "ii_owns v' ?ii \<and> i_foreign v' (islots ?ii) = i_foreign v (islots ii)"
    using l(3) by (simp add: keeps_i_def ii_owns_def islots_def)
  ultimately show ?thesis using st(2) by (intro exI [of _ ?ii] exI [of _ v']) simp
qed

definition example_iinfo :: au_iinfo where
  "example_iinfo =
     \<lparr>ig_generation = 1, ig_half_refreshed = False, ii_hsb1 = 0, ii_bstart = 0, ii_bend = 2,
      ii_higen = 0,
      ii_hinode = [\<lparr>hi_inode = Some 1, hi_id = 1, hi_notify = False, hi_whdentry = None\<rparr>,
                   \<lparr>hi_inode = None, hi_id = 2, hi_notify = False, hi_whdentry = None\<rparr>,
                   \<lparr>hi_inode = Some 3, hi_id = 127, hi_notify = True, hi_whdentry = None\<rparr>]\<rparr>"

lemma example_iinfo_ok:
  "ii_owns example_vfs example_iinfo" "si_bend example_sbinfo = 2" "ii_bend example_iinfo = 2"
  "ii_bstart example_iinfo = 0" "length (ii_hinode example_iinfo) = 3"
  by (auto simp: ii_owns_def example_vfs_def example_iinfo_def islots_def i_refs_def
      example_sbinfo_def)

theorem au_update_ibrange_spec_witness:
  "\<exists>ii' v'. au_update_ibrange full_config example_sbinfo \<lparr>vi_fmt = 0, vi_ino = 5\<rparr> True
      (example_iinfo, example_vfs) = Some (ii', v')
    \<and> ii_owns v' ii' \<and> i_foreign v' (islots ii') = i_foreign example_vfs (islots example_iinfo)"
  using au_update_ibrange_spec [of example_vfs example_iinfo example_sbinfo full_config
      "\<lparr>vi_fmt = 0, vi_ino = 5\<rparr>" True]
  by (simp add: example_iinfo_ok) blast

text \<open>
  \<open>au_hiput\<close> gives back the reference to the whiteout dentry of a slot, but
  \<open>au_set_h_iptr\<close> leaves the pointer: when that was the last reference, the slot keeps
  pointing to a dentry nobody holds, and the next \<open>au_hiput\<close> of it puts a dead dentry.
\<close>

theorem au_set_h_iptr_stale_whdentry:
  assumes "arr_get (ii_hinode ii) b = Some h" and "hi_whdentry h = Some w"
    and "hi_inode h = Some p" and "d_refs v w = Some 1" and "i_refs v p = Some n" and "0 < n"
  shows "\<exists>ii' v'. au_set_h_iptr cfg sbi vi hn b None 0 (ii, v, xl) = Some (ii', v', xl)
    \<and> au_hi_wh ii' b = Some (Some w) \<and> d_refs v' w = Some 0
    \<and> (\<forall>h'. au_hiput (h'\<lparr>hi_whdentry := Some w\<rparr>) v' = None)"
proof -
  obtain x where x: "dents v w = Some x" "d_count x = 1"
    using assms(4) by (auto simp: d_refs_def)
  obtain y where y: "inos v p = Some y" "0 < i_count y"
    using assms(5,6) by (auto simp: i_refs_def)
  have b: "0 \<le> b" "b < int (length (ii_hinode ii))" "h = ii_hinode ii ! nat b"
    using assms(1) by (auto simp: array_simps)
  then have "nat b < length (ii_hinode ii)" by linarith
  then show ?thesis
    using assms x y b
    by (auto simp: au_set_h_iptr_def au_hiput_def put_dentry_def put_inode_def au_hi_wh_def
        arr_get_def d_refs_def)
qed

definition whiteout_iinfo :: au_iinfo where
  "whiteout_iinfo = example_iinfo\<lparr>ii_hinode :=
     [\<lparr>hi_inode = Some 1, hi_id = 1, hi_notify = False, hi_whdentry = Some 101\<rparr>]\<rparr>"

theorem au_set_h_iptr_stale_whdentry_witness:
  "\<exists>ii' v'. au_set_h_iptr full_config example_sbinfo \<lparr>vi_fmt = 0, vi_ino = 5\<rparr> True 0 None 0
      (whiteout_iinfo, example_vfs, []) = Some (ii', v', [])
    \<and> au_hi_wh ii' 0 = Some (Some 101) \<and> d_refs v' 101 = Some 0
    \<and> (\<forall>h'. au_hiput (h'\<lparr>hi_whdentry := Some 101\<rparr>) v' = None)"
  by (rule au_set_h_iptr_stale_whdentry [where p = 1 and n = 2 and
        h = "\<lparr>hi_inode = Some 1, hi_id = 1, hi_notify = False, hi_whdentry = Some 101\<rparr>"])
    (simp_all add: whiteout_iinfo_def arr_get_def d_refs_def i_refs_def example_vfs_def)

end
