(* ===== verification/Fstype.thy ===== *)
theory Fstype
  imports Sbinfo
begin

text \<open>
  The tests on the type of a lower file system (\<open>fstype.h\<close>). The magic numbers are constants
  of kernel headers, not of this repository: \<open>mg\<close> maps the name of such a macro to its value.
  \<open>cfg_fs cfg X\<close> tells whether \<open>CONFIG_X\<close> (or \<open>CONFIG_X_MODULE\<close>, where the test
  allows it) is set; for CIFS the second half of the test is misspelt in the source, so that
  only the built-in form (\<open>CIFS_FS=y\<close>) counts.
\<close>

type_synonym magics = "string \<Rightarrow> int"
type_synonym fs_test = "kconfig \<Rightarrow> magics \<Rightarrow> h_super \<Rightarrow> bool"

section \<open>One file system\<close>

definition au_sbtype :: "h_super \<Rightarrow> string" where "au_sbtype sb = s_type_name sb"

definition au_test_aufs :: fs_test where
  "au_test_aufs cfg mg sb = (s_magic sb = mg ''AUFS_SUPER_MAGIC'')"
definition au_test_iso9660 :: fs_test where
  "au_test_iso9660 cfg mg sb = (cfg_fs cfg ''ROMFS_FS'' \<and> s_magic sb = mg ''ROMFS_MAGIC'')"
definition au_test_romfs :: fs_test where
  "au_test_romfs cfg mg sb = (cfg_fs cfg ''ISO9660_FS'' \<and> s_magic sb = mg ''ISOFS_SUPER_MAGIC'')"
definition au_test_cramfs :: fs_test where
  "au_test_cramfs cfg mg sb = (cfg_fs cfg ''CRAMFS'' \<and> s_magic sb = mg ''CRAMFS_MAGIC'')"
definition au_test_nfs :: fs_test where
  "au_test_nfs cfg mg sb = (cfg_fs cfg ''NFS_FS'' \<and> s_magic sb = mg ''NFS_SUPER_MAGIC'')"
definition au_test_fuse :: fs_test where
  "au_test_fuse cfg mg sb = (cfg_fs cfg ''FUSE_FS'' \<and> s_magic sb = mg ''FUSE_SUPER_MAGIC'')"
definition au_test_xfs :: fs_test where
  "au_test_xfs cfg mg sb = (cfg_fs cfg ''XFS_FS'' \<and> s_magic sb = mg ''XFS_SB_MAGIC'')"
definition au_test_tmpfs :: fs_test where
  "au_test_tmpfs cfg mg sb = (cfg_fs cfg ''TMPFS'' \<and> s_magic sb = mg ''TMPFS_MAGIC'')"
definition au_test_ecryptfs :: fs_test where
  "au_test_ecryptfs cfg mg sb = (cfg_fs cfg ''ECRYPT_FS'' \<and> au_sbtype sb = ''ecryptfs'')"
definition au_test_ocfs2 :: fs_test where
  "au_test_ocfs2 cfg mg sb = (cfg_fs cfg ''OCFS2_FS'' \<and> s_magic sb = mg ''OCFS2_SUPER_MAGIC'')"
definition au_test_ocfs2_dlmfs :: fs_test where
  "au_test_ocfs2_dlmfs cfg mg sb = (cfg_fs cfg ''OCFS2_FS_O2CB'' \<and> s_magic sb = mg ''DLMFS_MAGIC'')"
definition au_test_coda :: fs_test where
  "au_test_coda cfg mg sb = (cfg_fs cfg ''CODA_FS'' \<and> s_magic sb = mg ''CODA_SUPER_MAGIC'')"
definition au_test_v9fs :: fs_test where
  "au_test_v9fs cfg mg sb = (cfg_fs cfg ''9P_FS'' \<and> s_magic sb = mg ''V9FS_MAGIC'')"
definition au_test_ext4 :: fs_test where
  "au_test_ext4 cfg mg sb = (cfg_fs cfg ''EXT4_FS'' \<and> s_magic sb = mg ''EXT4_SUPER_MAGIC'')"
definition au_test_sysv :: fs_test where
  "au_test_sysv cfg mg sb = (cfg_fs cfg ''SYSV_FS'' \<and> au_sbtype sb = ''sysv'')"
definition au_test_ramfs :: fs_test where
  "au_test_ramfs cfg mg sb = (s_magic sb = mg ''RAMFS_MAGIC'')"
definition au_test_ubifs :: fs_test where
  "au_test_ubifs cfg mg sb = (cfg_fs cfg ''UBIFS_FS'' \<and> s_magic sb = mg ''UBIFS_SUPER_MAGIC'')"
definition au_test_procfs :: fs_test where
  "au_test_procfs cfg mg sb = (cfg_fs cfg ''PROC_FS'' \<and> s_magic sb = mg ''PROC_SUPER_MAGIC'')"
definition au_test_sysfs :: fs_test where
  "au_test_sysfs cfg mg sb = (cfg_fs cfg ''SYSFS'' \<and> s_magic sb = mg ''SYSFS_MAGIC'')"
definition au_test_configfs :: fs_test where
  "au_test_configfs cfg mg sb = (cfg_fs cfg ''CONFIGFS_FS'' \<and> s_magic sb = mg ''CONFIGFS_MAGIC'')"
definition au_test_minix :: fs_test where
  "au_test_minix cfg mg sb = (cfg_fs cfg ''MINIX_FS'' \<and> (s_magic sb = mg ''MINIX3_SUPER_MAGIC''
       \<or> s_magic sb = mg ''MINIX2_SUPER_MAGIC'' \<or> s_magic sb = mg ''MINIX2_SUPER_MAGIC2''
       \<or> s_magic sb = mg ''MINIX_SUPER_MAGIC'' \<or> s_magic sb = mg ''MINIX_SUPER_MAGIC2''))"
definition au_test_cifs :: fs_test where
  "au_test_cifs cfg mg sb = (cfg_fs cfg ''CIFS_FS=y'' \<and> s_magic sb = mg ''CIFS_MAGIC_NUMBER'')"
definition au_test_fat :: fs_test where
  "au_test_fat cfg mg sb = (cfg_fs cfg ''FAT_FS'' \<and> s_magic sb = mg ''MSDOS_SUPER_MAGIC'')"
definition au_test_msdos :: fs_test where "au_test_msdos cfg mg sb = au_test_fat cfg mg sb"
definition au_test_vfat :: fs_test where "au_test_vfat cfg mg sb = au_test_fat cfg mg sb"
definition au_test_securityfs :: fs_test where
  "au_test_securityfs cfg mg sb = (cfg_fs cfg ''SECURITYFS'' \<and> s_magic sb = mg ''SECURITYFS_MAGIC'')"
definition au_test_squashfs :: fs_test where
  "au_test_squashfs cfg mg sb = (cfg_fs cfg ''SQUASHFS'' \<and> s_magic sb = mg ''SQUASHFS_MAGIC'')"
definition au_test_btrfs :: fs_test where
  "au_test_btrfs cfg mg sb = (cfg_fs cfg ''BTRFS_FS'' \<and> s_magic sb = mg ''BTRFS_SUPER_MAGIC'')"
definition au_test_xenfs :: fs_test where
  "au_test_xenfs cfg mg sb = (cfg_fs cfg ''XENFS'' \<and> s_magic sb = mg ''XENFS_SUPER_MAGIC'')"
definition au_test_debugfs :: fs_test where
  "au_test_debugfs cfg mg sb = (cfg_fs cfg ''DEBUG_FS'' \<and> s_magic sb = mg ''DEBUGFS_MAGIC'')"
definition au_test_nilfs :: fs_test where
  "au_test_nilfs cfg mg sb = (cfg_fs cfg ''NILFS'' \<and> s_magic sb = mg ''NILFS_SUPER_MAGIC'')"
definition au_test_hfsplus :: fs_test where
  "au_test_hfsplus cfg mg sb = (cfg_fs cfg ''HFSPLUS_FS'' \<and> s_magic sb = mg ''HFSPLUS_SUPER_MAGIC'')"

section \<open>Classes of file systems\<close>

definition au_test_fs_unsuppoted :: fs_test where
  "au_test_fs_unsuppoted cfg mg sb =
     (\<not> cfg_br_ramfs cfg \<and> au_test_ramfs cfg mg sb \<or>
      au_test_procfs cfg mg sb
      \<or> au_test_sysfs cfg mg sb
      \<or> au_test_configfs cfg mg sb
      \<or> au_test_debugfs cfg mg sb
      \<or> au_test_securityfs cfg mg sb
      \<or> au_test_xenfs cfg mg sb
      \<or> au_test_ecryptfs cfg mg sb
      \<or> au_test_aufs cfg mg sb)"

definition au_test_fs_remote :: fs_test where
  "au_test_fs_remote cfg mg sb =
     (\<not> au_test_tmpfs cfg mg sb
      \<and> (cfg_br_ramfs cfg \<longrightarrow> \<not> au_test_ramfs cfg mg sb)
      \<and> \<not> s_requires_dev sb)"

definition au_test_fs_refresh_iattr :: fs_test where
  "au_test_fs_refresh_iattr cfg mg sb = (au_test_nfs cfg mg sb \<or> au_test_fuse cfg mg sb)"

definition au_test_fs_bad_iattr_size :: fs_test where
  "au_test_fs_bad_iattr_size cfg mg sb =
     (au_test_xfs cfg mg sb \<or> au_test_btrfs cfg mg sb \<or> au_test_ubifs cfg mg sb
      \<or> au_test_hfsplus cfg mg sb)"

definition au_test_fs_bad_iattr :: fs_test where
  "au_test_fs_bad_iattr cfg mg sb =
     (au_test_fs_bad_iattr_size cfg mg sb \<or> au_test_fat cfg mg sb \<or> au_test_msdos cfg mg sb
      \<or> au_test_vfat cfg mg sb)"

definition au_test_fs_no_limit_nlink :: fs_test where
  "au_test_fs_no_limit_nlink cfg mg sb =
     (au_test_tmpfs cfg mg sb \<or> cfg_br_ramfs cfg \<and> au_test_ramfs cfg mg sb
      \<or> au_test_ubifs cfg mg sb \<or> au_test_hfsplus cfg mg sb)"

definition au_test_fs_notime :: fs_test where
  "au_test_fs_notime cfg mg sb =
     (au_test_nfs cfg mg sb \<or> au_test_fuse cfg mg sb \<or> au_test_ubifs cfg mg sb)"

definition au_test_fs_bad_mapping :: fs_test where
  "au_test_fs_bad_mapping cfg mg sb = (au_test_fuse cfg mg sb \<or> au_test_ubifs cfg mg sb)"

definition au_test_fs_unique_ino :: "kconfig \<Rightarrow> magics \<Rightarrow> h_super \<Rightarrow> u32 \<Rightarrow> bool" where
  "au_test_fs_unique_ino cfg mg sb ino = (if au_test_cramfs cfg mg sb then ino \<noteq> 1 else True)"

definition au_test_fs_bad_xino :: fs_test where
  "au_test_fs_bad_xino cfg mg sb =
     (au_test_fs_remote cfg mg sb \<or> au_test_fs_bad_iattr_size cfg mg sb
      \<or> au_test_aufs cfg mg sb \<or> au_test_ecryptfs cfg mg sb \<or> au_test_nilfs cfg mg sb)"

definition au_test_fs_trunc_xino :: fs_test where
  "au_test_fs_trunc_xino cfg mg sb = (au_test_tmpfs cfg mg sb \<or> au_test_ramfs cfg mg sb)"

definition au_test_fs_rr :: fs_test where
  "au_test_fs_rr cfg mg sb =
     (au_test_squashfs cfg mg sb \<or> au_test_iso9660 cfg mg sb \<or> au_test_cramfs cfg mg sb
      \<or> au_test_romfs cfg mg sb)"

lemmas fs_test_defs =
  au_test_aufs_def au_test_iso9660_def au_test_romfs_def au_test_cramfs_def au_test_nfs_def au_test_fuse_def
  au_test_xfs_def au_test_tmpfs_def au_test_ecryptfs_def au_test_ocfs2_def
  au_test_ocfs2_dlmfs_def au_test_coda_def au_test_v9fs_def au_test_ext4_def
  au_test_sysv_def au_test_ramfs_def au_test_ubifs_def au_test_procfs_def au_test_sysfs_def
  au_test_configfs_def au_test_minix_def au_test_cifs_def au_test_fat_def
  au_test_securityfs_def au_test_squashfs_def au_test_btrfs_def au_test_xenfs_def
  au_test_debugfs_def au_test_nilfs_def au_test_hfsplus_def au_test_msdos_def
  au_test_vfat_def au_test_fs_unsuppoted_def au_test_fs_remote_def
  au_test_fs_bad_iattr_size_def au_test_fs_bad_xino_def au_test_fs_trunc_xino_def
  au_test_fs_rr_def

section \<open>Properties\<close>

text \<open>
  The magic numbers of the kernel headers are different for different file systems; so is
  that of aufs.
\<close>

definition magic_names :: "string list" where
  "magic_names =
       [''AUFS_SUPER_MAGIC'', ''ROMFS_MAGIC'', ''ISOFS_SUPER_MAGIC'', ''CRAMFS_MAGIC'',
        ''SQUASHFS_MAGIC'', ''TMPFS_MAGIC'', ''RAMFS_MAGIC'', ''XFS_SB_MAGIC'',
        ''BTRFS_SUPER_MAGIC'', ''UBIFS_SUPER_MAGIC'', ''HFSPLUS_SUPER_MAGIC'',
        ''NILFS_SUPER_MAGIC'', ''NFS_SUPER_MAGIC'', ''FUSE_SUPER_MAGIC'']"

definition distinct_magics :: "magics \<Rightarrow> bool" where
  "distinct_magics mg = distinct (map mg magic_names)"

lemma distinct_magics_eq:
  "distinct_magics mg \<Longrightarrow> a \<in> set magic_names \<Longrightarrow> b \<in> set magic_names \<Longrightarrow> mg a = mg b \<longleftrightarrow> a = b"
  unfolding distinct_magics_def distinct_map using inj_on_eq_iff by metis

text \<open>
  the names of \<open>au_test_iso9660\<close> and \<open>au_test_romfs\<close> are exchanged: the first answers
  for romfs and never for an ISO 9660 superblock. \<open>au_test_fs_rr\<close>, which asks both, is right
  for all four natively readonly file systems.
\<close>

theorem au_test_fs_rr_exchanged:
  assumes "distinct_magics mg" and "cfg_fs cfg ''ROMFS_FS''" and "cfg_fs cfg ''ISO9660_FS''"
    and "cfg_fs cfg ''SQUASHFS''" and "cfg_fs cfg ''CRAMFS''"
  shows "(s_magic sb = mg ''ISOFS_SUPER_MAGIC'' \<longrightarrow>
            \<not> au_test_iso9660 cfg mg sb \<and> au_test_romfs cfg mg sb)
    \<and> (au_test_fs_rr cfg mg sb \<longleftrightarrow>
        s_magic sb \<in> {mg ''SQUASHFS_MAGIC'', mg ''ISOFS_SUPER_MAGIC'', mg ''CRAMFS_MAGIC'',
          mg ''ROMFS_MAGIC''})"
  using assms(2-) distinct_magics_eq [OF assms(1)]
  by (auto simp: au_test_iso9660_def au_test_romfs_def au_test_fs_rr_def au_test_squashfs_def
      au_test_cramfs_def magic_names_def)

definition linux_magics :: magics where
  "linux_magics s =
     (case map_of [(''AUFS_SUPER_MAGIC'', 0x61756673), (''ROMFS_MAGIC'', 0x7275),
        (''ISOFS_SUPER_MAGIC'', 0x9660), (''CRAMFS_MAGIC'', 0x28cd3d45),
        (''SQUASHFS_MAGIC'', 0x73717368), (''TMPFS_MAGIC'', 0x01021994),
        (''RAMFS_MAGIC'', 0x858458f6), (''XFS_SB_MAGIC'', 0x58465342),
        (''BTRFS_SUPER_MAGIC'', 0x9123683e), (''UBIFS_SUPER_MAGIC'', 0x24051905),
        (''HFSPLUS_SUPER_MAGIC'', 0x482b), (''NILFS_SUPER_MAGIC'', 0x3434),
        (''NFS_SUPER_MAGIC'', 0x6969), (''FUSE_SUPER_MAGIC'', 0x65735546 :: int)] s of
      None \<Rightarrow> 0 | Some m \<Rightarrow> m)"

lemma linux_magics_distinct: "distinct_magics linux_magics"
  by (simp add: distinct_magics_def magic_names_def linux_magics_def)

definition h_isofs :: h_super where
  "h_isofs = \<lparr>s_magic = 0x9660, s_type_name = ''iso9660'', s_rdonly = True,
              s_requires_dev = True\<rparr>"

theorem au_test_fs_rr_exchanged_witness:
  "distinct_magics linux_magics \<and> s_magic h_isofs = linux_magics ''ISOFS_SUPER_MAGIC''
   \<and> \<not> au_test_iso9660 full_config linux_magics h_isofs
   \<and> au_test_romfs full_config linux_magics h_isofs"
  using au_test_fs_rr_exchanged [OF linux_magics_distinct, of full_config h_isofs]
    linux_magics_distinct
  by (simp add: full_config_def kconfig_of_def h_isofs_def linux_magics_def)

text \<open>
  an xino file may be put on a tmpfs branch whatever the configuration, on a ramfs branch
  exactly when \<open>CONFIG_AUFS_BR_RAMFS\<close> is set (and ramfs is then also a supported branch);
  the automatic truncation of xino files applies to exactly these two.
\<close>

theorem au_test_fs_xino_memory_fs:
  assumes "distinct_magics mg" and "\<not> s_requires_dev sb" and "au_sbtype sb \<noteq> ''ecryptfs''"
    and "au_test_fs_trunc_xino cfg mg sb"
  shows "au_test_fs_bad_xino cfg mg sb \<longleftrightarrow>
    \<not> au_test_tmpfs cfg mg sb \<and> \<not> cfg_br_ramfs cfg"
proof -
  have "s_magic sb = mg ''TMPFS_MAGIC'' \<or> s_magic sb = mg ''RAMFS_MAGIC''"
    using assms(4) by (auto simp: au_test_fs_trunc_xino_def au_test_tmpfs_def au_test_ramfs_def)
  then have other: "\<not> au_test_fs_bad_iattr_size cfg mg sb" "\<not> au_test_aufs cfg mg sb"
    "\<not> au_test_ecryptfs cfg mg sb" "\<not> au_test_nilfs cfg mg sb"
    using assms(3) distinct_magics_eq [OF assms(1)]
    by (elim disjE; simp add: magic_names_def au_test_fs_bad_iattr_size_def
        au_test_xfs_def au_test_btrfs_def au_test_ubifs_def au_test_hfsplus_def au_test_aufs_def
        au_test_ecryptfs_def au_test_nilfs_def)+
  show ?thesis
    using assms(2,4) other by (auto simp: au_test_fs_bad_xino_def au_test_fs_remote_def
        au_test_fs_trunc_xino_def)
qed

theorem au_test_fs_xino_memory_fs_witness:
  "au_test_fs_trunc_xino full_config linux_magics h_tmpfs
   \<and> (au_test_fs_bad_xino full_config linux_magics h_tmpfs \<longleftrightarrow>
        \<not> au_test_tmpfs full_config linux_magics h_tmpfs \<and> \<not> cfg_br_ramfs full_config)"
proof -
  have "au_test_fs_trunc_xino full_config linux_magics h_tmpfs"
    by (simp add: au_test_fs_trunc_xino_def au_test_tmpfs_def full_config_def kconfig_of_def
        linux_magics_def h_tmpfs_def)
  then show ?thesis
    using au_test_fs_xino_memory_fs [OF linux_magics_distinct, of h_tmpfs full_config]
    by (simp add: h_tmpfs_def au_sbtype_def)
qed

end
