(* ===== verification/Br_Table.thy ===== *)
theory Br_Table
  imports Iinfo Fstype
begin

text \<open>
  The tables indexed by branch (\<open>branch.c\<close>): the branches of the superblock, the lower
  dentries and the lower inodes of the root. They share the contract \<open>branch_table\<close>:
  insertion and deletion at an index of the live part, which the code does with \<open>memmove\<close>.
\<close>

section \<open>The contract of a table indexed by branch\<close>

definition live_part :: "'a list \<Rightarrow> int \<Rightarrow> 'a list" where
  "live_part xs e = take (nat (e + 1)) xs"

definition insert_at :: "int \<Rightarrow> 'a \<Rightarrow> 'a list \<Rightarrow> 'a list" where
  "insert_at i x xs = take (nat i) xs @ x # drop (nat i) xs"

definition delete_at :: "int \<Rightarrow> 'a list \<Rightarrow> 'a list" where
  "delete_at i xs = take (nat i) xs @ drop (nat i + 1) xs"

lemma delete_insert: "0 \<le> i \<Longrightarrow> i \<le> int (length xs) \<Longrightarrow> delete_at i (insert_at i x xs) = xs"
  by (simp add: insert_at_def delete_at_def min_def)

lemma insert_at_length [simp]: "nat i \<le> length xs \<Longrightarrow> length (insert_at i x xs) = length xs + 1"
  by (simp add: insert_at_def)

lemma list_all2_insert:
  assumes "list_all2 R xs ys" and "R x y"
  shows "list_all2 R (insert_at i x xs) (insert_at i y ys)"
  using assms by (auto simp: insert_at_def intro!: list_all2_appendI list_all2_takeI list_all2_dropI)

lemma list_all2_delete:
  assumes "list_all2 R xs ys"
  shows "list_all2 R (delete_at i xs) (delete_at i ys)"
  using assms by (auto simp: delete_at_def intro!: list_all2_appendI list_all2_takeI list_all2_dropI)

text \<open>
  \<open>memmove\<close> up or down by one element inside the live part, seen on the live part.
\<close>

lemma move_up_nat:
  assumes "m \<le> k" and "k < length xs"
    and ys: "ys = take (Suc m) xs @ take (k - m) (drop m xs) @ drop (Suc k) xs"
  shows "length ys = length xs \<and> take (Suc k) (ys[m := x]) = take m xs @ x # drop m (take k xs)
    \<and> drop (Suc k) ys = drop (Suc k) xs"
proof -
  have s: "take (Suc m) xs = take m xs @ [xs ! m]" using assms by (simp add: take_Suc_conv_app_nth)
  have d: "drop m (take k xs) = take (k - m) (drop m xs)" by (rule drop_take)
  have up: "ys[m := x] = (take m xs @ x # drop m (take k xs)) @ drop (Suc k) xs"
    using assms(1,2) unfolding ys s d by (simp add: list_update_append)
  have l: "length (take m xs @ x # drop m (take k xs)) = Suc k" using assms(1,2) by simp
  have "take (Suc k) (ys[m := x]) = take m xs @ x # drop m (take k xs)"
    unfolding up using l by (metis append_eq_conv_conj)
  moreover have "length ys = length xs" using assms(1,2) unfolding ys by simp
  moreover have "drop (Suc k) ys = drop (Suc k) xs" using assms(1,2) unfolding ys by simp
  ultimately show ?thesis by blast
qed

lemma move_up:
  assumes "0 \<le> i" and "i \<le> e + 1" and "e + 1 < int (length xs)"
  shows "\<exists>ys. arr_move xs (i + 1) i (e + 1 - i) = Some ys \<and> length ys = length xs
    \<and> live_part (ys[nat i := x]) (e + 1) = insert_at i x (live_part xs e)
    \<and> drop (nat (e + 2)) ys = drop (nat (e + 2)) xs"
proof -
  obtain m where m: "i = int m" using assms(1) nonneg_int_cases by blast
  obtain k where k: "e + 1 = int k" using assms nonneg_int_cases [of "e + 1"] by auto
  have e: "e = int k - 1" using k by simp
  have mk: "m \<le> k" "k < length xs" using assms m k by simp_all
  have n: "nat (1 + int m) = Suc m" "nat (1 + int k) = Suc k" "nat (int k + 1) = Suc k" by simp_all
  let ?ys = "take (Suc m) xs @ take (k - m) (drop m xs) @ drop (Suc k) xs"
  have "arr_move xs (i + 1) i (e + 1 - i) = Some ?ys"
    using mk by (auto simp: arr_move_def m e nat_add_distrib algebra_simps n nat_diff_distrib')
  moreover have "live_part (?ys[nat i := x]) (e + 1) = insert_at i x (live_part xs e)"
    using move_up_nat [OF mk refl, of x, THEN conjunct2, THEN conjunct1]
    by (simp add: live_part_def insert_at_def m e n min_absorb1 [OF mk(1)])
  moreover have "nat (e + 2) = Suc k" using e by simp
  ultimately show ?thesis using move_up_nat [OF mk refl, of x] by metis
qed

lemma move_down_nat:
  assumes "m < k" and "k < length xs"
    and ys: "ys = take m xs @ take (k - m) (drop (Suc m) xs) @ drop k xs"
  shows "length ys = length xs \<and> take k ys = take m xs @ drop (Suc m) (take (Suc k) xs)
    \<and> drop (Suc k) ys = drop (Suc k) xs"
proof -
  have d: "drop (Suc m) (take (Suc k) xs) = take (k - m) (drop (Suc m) xs)"
    using drop_take [of "Suc m" "Suc k" xs] by simp
  have l: "length (take m xs @ take (k - m) (drop (Suc m) xs)) = k" using assms(1,2) by simp
  have "take k ys = take m xs @ take (k - m) (drop (Suc m) xs)"
    unfolding ys using l by (metis append.assoc append_eq_conv_conj)
  moreover have "length ys = length xs" using assms(1,2) unfolding ys by simp
  moreover have "drop (Suc k) ys = drop (Suc k) xs" using assms(1,2) unfolding ys by simp
  ultimately show ?thesis unfolding d by blast
qed

lemma move_down:
  assumes "0 \<le> i" and "i \<le> e" and "e < int (length xs)"
  shows "\<exists>ys. (if i < e then arr_move xs i (i + 1) (e - i) else Some xs) = Some ys
    \<and> length ys = length xs \<and> live_part ys (e - 1) = delete_at i (live_part xs e)
    \<and> drop (nat (e + 1)) ys = drop (nat (e + 1)) xs"
proof -
  obtain m where m: "i = int m" using assms(1) nonneg_int_cases by blast
  obtain k where k: "e = int k" using assms nonneg_int_cases [of e] by auto
  have n: "nat (1 + int m) = Suc m" "nat (int k + 1) = Suc k" "nat (1 + int k) = Suc k" by simp_all
  show ?thesis
  proof (cases "i < e")
    case True
    then have mk: "m < k" "k < length xs" using assms m k by simp_all
    let ?ys = "take m xs @ take (k - m) (drop (Suc m) xs) @ drop k xs"
    have "arr_move xs i (i + 1) (e - i) = Some ?ys"
      using mk by (auto simp: arr_move_def m k algebra_simps n nat_diff_distrib')
    moreover have "live_part ?ys (e - 1) = delete_at i (live_part xs e)"
      using move_down_nat [OF mk refl, THEN conjunct2, THEN conjunct1]
      using mk(1) by (simp add: live_part_def delete_at_def m k n min_absorb1)
    ultimately show ?thesis using True move_down_nat [OF mk refl] k n by simp
  next
    case False
    then have "m = k" "k < length xs" using assms m k by simp_all
    then show ?thesis using False by (simp add: live_part_def delete_at_def m k n)
  qed
qed

locale branch_table =
  fixes tab :: "'s \<Rightarrow> 'a list"
    and bend :: "'s \<Rightarrow> int"
    and add :: "bindex \<Rightarrow> int \<Rightarrow> int \<Rightarrow> 's \<Rightarrow> 's option"
    and del :: "bindex \<Rightarrow> int \<Rightarrow> bool \<Rightarrow> 's \<Rightarrow> 's option"
    and fresh :: "'a \<Rightarrow> bool"
  assumes add_ok: "- 1 \<le> bend s \<Longrightarrow> 0 \<le> i \<Longrightarrow> i \<le> bend s + 1 \<Longrightarrow>
      bend s + 1 < int (length (tab s)) \<Longrightarrow>
      \<exists>s' x. add i (bend s) (bend s + 1 - i) s = Some s' \<and> fresh x \<and> bend s' = bend s + 1
        \<and> live_part (tab s') (bend s') = insert_at i x (live_part (tab s) (bend s))
        \<and> length (tab s') = length (tab s)"
    and del_ok: "0 \<le> i \<Longrightarrow> i \<le> bend s \<Longrightarrow> 0 < bend s \<Longrightarrow> bend s < int (length (tab s)) \<Longrightarrow>
      \<exists>s'. del i (bend s) ok s = Some s' \<and> bend s' = bend s - 1
        \<and> live_part (tab s') (bend s') = delete_at i (live_part (tab s) (bend s))
        \<and> bend s' < int (length (tab s'))"
begin

lemma live_length: "- 1 \<le> bend s \<Longrightarrow> bend s < int (length (tab s)) \<Longrightarrow>
    int (length (live_part (tab s) (bend s))) = bend s + 1"
  by (auto simp: live_part_def)

text \<open>Deleting what was just added restores the live part.\<close>

lemma del_add:
  assumes "0 \<le> bend s" "0 \<le> i" "i \<le> bend s + 1" "bend s + 1 < int (length (tab s))"
    and "add i (bend s) (bend s + 1 - i) s = Some s1"
  shows "\<exists>s2. del i (bend s1) ok s1 = Some s2 \<and> bend s2 = bend s
    \<and> live_part (tab s2) (bend s2) = live_part (tab s) (bend s)"
proof -
  obtain x where s1: "bend s1 = bend s + 1" "length (tab s1) = length (tab s)"
    "live_part (tab s1) (bend s1) = insert_at i x (live_part (tab s) (bend s))"
    using add_ok [of s i] assms by auto
  obtain s2 where "del i (bend s1) ok s1 = Some s2" "bend s2 = bend s1 - 1"
    "live_part (tab s2) (bend s2) = delete_at i (live_part (tab s1) (bend s1))"
    using del_ok [of i s1 ok] assms s1 by auto
  then show ?thesis using s1 assms live_length [of s] delete_insert by force
qed

end

section \<open>The three tables\<close>

definition au_br_do_add_brp ::
    "au_branch \<Rightarrow> bindex \<Rightarrow> int \<Rightarrow> int \<Rightarrow> au_sbinfo \<Rightarrow> au_sbinfo option" where
  "au_br_do_add_brp br bindex bend amount sbi =
     Option.bind (arr_move (si_branch sbi) (bindex + 1) bindex amount) (\<lambda>moved.
     map_option (\<lambda>brp.
         let sbi' = sbi\<lparr>si_branch := brp, si_bend := si_bend sbi + 1\<rparr>
         in if bend < 0 then sbi'\<lparr>si_bend := 0\<rparr> else sbi')
       (arr_set moved bindex (Some br)))"

definition au_br_do_add_hdp ::
    "bindex \<Rightarrow> int \<Rightarrow> int \<Rightarrow> au_dinfo \<Rightarrow> au_dinfo option" where
  "au_br_do_add_hdp bindex bend amount di =
     Option.bind (arr_move (di_hdentry di) (bindex + 1) bindex amount) (\<lambda>moved.
     Option.bind (arr_get moved bindex) (\<lambda>h.
     map_option (\<lambda>hdp.
         let di' = di\<lparr>di_hdentry := hdp, di_bend := di_bend di + 1\<rparr>
         in if bend < 0 then di'\<lparr>di_bstart := 0\<rparr> else di')
       (arr_set moved bindex (au_h_dentry_init h))))"

definition au_br_do_add_hip ::
    "bindex \<Rightarrow> int \<Rightarrow> int \<Rightarrow> au_iinfo \<Rightarrow> au_iinfo option" where
  "au_br_do_add_hip bindex bend amount ii =
     Option.bind (arr_move (ii_hinode ii) (bindex + 1) bindex amount) (\<lambda>moved.
     Option.bind (arr_get moved bindex) (\<lambda>h.
     map_option (\<lambda>hip.
         let ii' = ii\<lparr>ii_hinode := hip, ii_bend := ii_bend ii + 1\<rparr>
         in if bend < 0 then ii'\<lparr>ii_bstart := 0\<rparr> else ii')
       (arr_set moved bindex (au_hn_init (h\<lparr>hi_inode := None\<rparr>)))))"

text \<open>
  \<open>krealloc\<close> to \<open>bend\<close> elements: NULL (\<open>ok\<close> false) keeps the old, longer block.
\<close>

definition shrink :: "'a list \<Rightarrow> int \<Rightarrow> bool \<Rightarrow> 'a list" where
  "shrink xs n ok = (if ok then take (nat n) xs else xs)"

definition au_br_do_del_brp :: "bindex \<Rightarrow> int \<Rightarrow> bool \<Rightarrow> au_sbinfo \<Rightarrow> au_sbinfo option" where
  "au_br_do_del_brp bindex bend ok sbi =
     Option.bind (if bindex < bend then arr_move (si_branch sbi) bindex (bindex + 1) (bend - bindex)
                  else Some (si_branch sbi)) (\<lambda>moved.
     map_option (\<lambda>brp. sbi\<lparr>si_branch := shrink brp bend ok, si_bend := si_bend sbi - 1\<rparr>)
       (arr_set moved bend None))"

definition au_br_do_del_hdp :: "bindex \<Rightarrow> int \<Rightarrow> bool \<Rightarrow> au_dinfo \<Rightarrow> au_dinfo option" where
  "au_br_do_del_hdp bindex bend ok di =
     Option.bind (if bindex < bend then arr_move (di_hdentry di) bindex (bindex + 1) (bend - bindex)
                  else Some (di_hdentry di)) (\<lambda>moved.
     Option.bind (arr_get moved bend) (\<lambda>h.
     map_option (\<lambda>hdp. di\<lparr>di_hdentry := shrink hdp bend ok, di_bend := di_bend di - 1\<rparr>)
       (arr_set moved bend (h\<lparr>hd_dentry := None\<rparr>))))"

definition au_br_do_del_hip :: "bindex \<Rightarrow> int \<Rightarrow> bool \<Rightarrow> au_iinfo \<Rightarrow> au_iinfo option" where
  "au_br_do_del_hip bindex bend ok ii =
     Option.bind (if bindex < bend then arr_move (ii_hinode ii) bindex (bindex + 1) (bend - bindex)
                  else Some (ii_hinode ii)) (\<lambda>moved.
     Option.bind (arr_get moved bend) (\<lambda>h.
     map_option (\<lambda>hip. ii\<lparr>ii_hinode := shrink hip bend ok, ii_bend := ii_bend ii - 1\<rparr>)
       (arr_set moved bend (au_hn_init (h\<lparr>hi_inode := None\<rparr>)))))"

text \<open>The contract holds of all three.\<close>

lemma add_brp_ok:
  assumes "- 1 \<le> si_bend s" "0 \<le> i" "i \<le> si_bend s + 1"
    and "si_bend s + 1 < int (length (si_branch s))"
  shows "\<exists>brp. au_br_do_add_brp br i (si_bend s) (si_bend s + 1 - i) s
      = Some (s\<lparr>si_branch := brp, si_bend := si_bend s + 1\<rparr>)
    \<and> live_part brp (si_bend s + 1) = insert_at i (Some br) (live_part (si_branch s) (si_bend s))
    \<and> length brp = length (si_branch s)"
proof -
  obtain ys where "arr_move (si_branch s) (i + 1) i (si_bend s + 1 - i) = Some ys"
    "length ys = length (si_branch s)" "live_part (ys[nat i := Some br]) (si_bend s + 1)
      = insert_at i (Some br) (live_part (si_branch s) (si_bend s))"
    using move_up [OF assms(2-4), of "Some br"] by blast
  moreover have "si_bend s < 0 \<longrightarrow> si_bend s = - 1" using assms(1) by simp
  ultimately show ?thesis
    using assms by (intro exI [of _ "ys[nat i := Some br]"])
      (auto simp: au_br_do_add_brp_def arr_set_def Let_def)
qed

lemma add_hdp_ok:
  assumes "- 1 \<le> di_bend s" "0 \<le> i" "i \<le> di_bend s + 1"
    and "di_bend s + 1 < int (length (di_hdentry s))"
  shows "\<exists>h hdp. au_br_do_add_hdp i (di_bend s) (di_bend s + 1 - i) s
      = Some (s\<lparr>di_hdentry := hdp, di_bend := di_bend s + 1,
                di_bstart := if di_bend s < 0 then 0 else di_bstart s\<rparr>)
    \<and> hd_dentry h = None
    \<and> live_part hdp (di_bend s + 1) = insert_at i h (live_part (di_hdentry s) (di_bend s))
    \<and> length hdp = length (di_hdentry s)
    \<and> drop (nat (di_bend s + 2)) hdp = drop (nat (di_bend s + 2)) (di_hdentry s)"
proof -
  obtain ys where ys: "arr_move (di_hdentry s) (i + 1) i (di_bend s + 1 - i) = Some ys"
    "length ys = length (di_hdentry s)"
    "drop (nat (di_bend s + 2)) ys = drop (nat (di_bend s + 2)) (di_hdentry s)"
    using move_up [OF assms(2-4)] by blast
  let ?h = "au_h_dentry_init (ys ! nat i)"
  have i: "nat i < nat (di_bend s + 2)" using assms by simp
  have "live_part (ys[nat i := ?h]) (di_bend s + 1)
      = insert_at i ?h (live_part (di_hdentry s) (di_bend s))"
    using move_up [OF assms(2-4), of ?h] ys(1) by auto
  moreover have "drop (nat (di_bend s + 2)) (ys[nat i := ?h]) = drop (nat (di_bend s + 2)) ys"
    using i by (rule drop_update_cancel)
  ultimately show ?thesis
    using ys assms by (auto simp: au_br_do_add_hdp_def arr_set_def arr_get_def Let_def
        au_h_dentry_init_def intro!: exI [of _ ?h])
qed

lemma add_hip_ok:
  assumes "- 1 \<le> ii_bend s" "0 \<le> i" "i \<le> ii_bend s + 1"
    and "ii_bend s + 1 < int (length (ii_hinode s))"
  shows "\<exists>h hip. au_br_do_add_hip i (ii_bend s) (ii_bend s + 1 - i) s
      = Some (s\<lparr>ii_hinode := hip, ii_bend := ii_bend s + 1,
                ii_bstart := if ii_bend s < 0 then 0 else ii_bstart s\<rparr>)
    \<and> hi_inode h = None
    \<and> live_part hip (ii_bend s + 1) = insert_at i h (live_part (ii_hinode s) (ii_bend s))
    \<and> length hip = length (ii_hinode s) \<and> set hip \<subseteq> insert h (set (ii_hinode s))
    \<and> (\<exists>h0 \<in> set (ii_hinode s). hi_whdentry h = hi_whdentry h0)
    \<and> drop (nat (ii_bend s + 2)) hip = drop (nat (ii_bend s + 2)) (ii_hinode s)"
proof -
  obtain ys where ys: "arr_move (ii_hinode s) (i + 1) i (ii_bend s + 1 - i) = Some ys"
    "length ys = length (ii_hinode s)"
    "drop (nat (ii_bend s + 2)) ys = drop (nat (ii_bend s + 2)) (ii_hinode s)"
    using move_up [OF assms(2-4)] by blast
  let ?h = "au_hn_init ((ys ! nat i)\<lparr>hi_inode := None\<rparr>)"
  have i: "nat i < nat (ii_bend s + 2)" "nat i < length ys" using assms ys(2) by simp_all
  have sub: "set ys \<subseteq> set (ii_hinode s)"
    by (rule arr_move_set [OF ys(1)])
  have "live_part (ys[nat i := ?h]) (ii_bend s + 1)
      = insert_at i ?h (live_part (ii_hinode s) (ii_bend s))"
    using move_up [OF assms(2-4), of ?h] ys(1) by auto
  moreover have "drop (nat (ii_bend s + 2)) (ys[nat i := ?h]) = drop (nat (ii_bend s + 2)) ys"
    using i(1) by (rule drop_update_cancel)
  moreover have "set (ys[nat i := ?h]) \<subseteq> insert ?h (set (ii_hinode s))"
    using sub set_update_subset_insert [of ys "nat i" ?h] by blast
  moreover have "hi_whdentry ?h = hi_whdentry (ys ! nat i)" "ys ! nat i \<in> set (ii_hinode s)"
    using sub i(2) by (auto simp: au_hn_init_def)
  ultimately show ?thesis
    using ys assms by (intro exI [of _ ?h] exI [of _ "ys[nat i := ?h]"])
      (auto simp: au_br_do_add_hip_def arr_set_def arr_get_def Let_def au_hn_init_def)
qed

lemma shrink_subset: "set (shrink xs n ok) \<subseteq> set xs"
  by (simp add: shrink_def set_take_subset)

lemma shrink_ok:
  assumes "live_part ys (e - 1) = zs" and "e < int (length ys)" and "0 < e"
    and "\<And>n. n < nat e \<Longrightarrow> xs ! n = ys ! n" and "length xs = length ys"
  shows "live_part (shrink xs e ok) (e - 1) = zs \<and> e - 1 < int (length (shrink xs e ok))"
proof -
  have "take (nat e) xs = take (nat e) ys"
    by (rule nth_equalityI) (use assms in auto)
  then show ?thesis using assms(1,2,3,5) by (auto simp: live_part_def shrink_def)
qed

lemma del_brp_ok:
  assumes "0 \<le> i" "i \<le> si_bend s" "0 < si_bend s" "si_bend s < int (length (si_branch s))"
  shows "\<exists>brp. au_br_do_del_brp i (si_bend s) ok s
      = Some (s\<lparr>si_branch := brp, si_bend := si_bend s - 1\<rparr>)
    \<and> live_part brp (si_bend s - 1) = delete_at i (live_part (si_branch s) (si_bend s))
    \<and> si_bend s - 1 < int (length brp)"
proof -
  obtain ys where ys: "(if i < si_bend s then arr_move (si_branch s) i (i + 1) (si_bend s - i)
      else Some (si_branch s)) = Some ys" "length ys = length (si_branch s)"
    "live_part ys (si_bend s - 1) = delete_at i (live_part (si_branch s) (si_bend s))"
    using move_down [OF assms(1,2,4)] by blast
  let ?b = "ys[nat (si_bend s) := None]"
  have "live_part (shrink ?b (si_bend s) ok) (si_bend s - 1)
      = delete_at i (live_part (si_branch s) (si_bend s))
    \<and> si_bend s - 1 < int (length (shrink ?b (si_bend s) ok))"
    by (rule shrink_ok [OF ys(3)]) (use assms ys(2) in auto)
  then show ?thesis
    using ys(1,2) assms unfolding au_br_do_del_brp_def ys(1)
    by (intro exI [of _ "shrink ?b (si_bend s) ok"]) (simp add: arr_set_def)
qed

lemma del_hdp_ok:
  assumes "0 \<le> i" "i \<le> di_bend s" "0 < di_bend s" "di_bend s < int (length (di_hdentry s))"
  shows "\<exists>hdp. au_br_do_del_hdp i (di_bend s) ok s
      = Some (s\<lparr>di_hdentry := hdp, di_bend := di_bend s - 1\<rparr>)
    \<and> live_part hdp (di_bend s - 1) = delete_at i (live_part (di_hdentry s) (di_bend s))
    \<and> di_bend s - 1 < int (length hdp)"
proof -
  obtain ys where ys: "(if i < di_bend s then arr_move (di_hdentry s) i (i + 1) (di_bend s - i)
      else Some (di_hdentry s)) = Some ys" "length ys = length (di_hdentry s)"
    "live_part ys (di_bend s - 1) = delete_at i (live_part (di_hdentry s) (di_bend s))"
    using move_down [OF assms(1,2,4)] by blast
  let ?b = "ys[nat (di_bend s) := (ys ! nat (di_bend s))\<lparr>hd_dentry := None\<rparr>]"
  have "live_part (shrink ?b (di_bend s) ok) (di_bend s - 1)
      = delete_at i (live_part (di_hdentry s) (di_bend s))
    \<and> di_bend s - 1 < int (length (shrink ?b (di_bend s) ok))"
    by (rule shrink_ok [OF ys(3)]) (use assms ys(2) in auto)
  then show ?thesis
    using ys(1,2) assms unfolding au_br_do_del_hdp_def ys(1)
    by (intro exI [of _ "shrink ?b (di_bend s) ok"]) (simp add: arr_set_def arr_get_def)
qed

lemma del_hip_ok:
  assumes "0 \<le> i" "i \<le> ii_bend s" "0 < ii_bend s" "ii_bend s < int (length (ii_hinode s))"
  shows "\<exists>hip. au_br_do_del_hip i (ii_bend s) ok s
      = Some (s\<lparr>ii_hinode := hip, ii_bend := ii_bend s - 1\<rparr>)
    \<and> live_part hip (ii_bend s - 1) = delete_at i (live_part (ii_hinode s) (ii_bend s))
    \<and> ii_bend s - 1 < int (length hip)
    \<and> ((\<forall>h \<in> set (ii_hinode s). hi_whdentry h = None) \<longrightarrow> (\<forall>h \<in> set hip. hi_whdentry h = None))"
proof -
  obtain ys where ys: "(if i < ii_bend s then arr_move (ii_hinode s) i (i + 1) (ii_bend s - i)
      else Some (ii_hinode s)) = Some ys" "length ys = length (ii_hinode s)"
    "live_part ys (ii_bend s - 1) = delete_at i (live_part (ii_hinode s) (ii_bend s))"
    using move_down [OF assms(1,2,4)] by blast
  let ?b = "ys[nat (ii_bend s) := au_hn_init ((ys ! nat (ii_bend s))\<lparr>hi_inode := None\<rparr>)]"
  have "live_part (shrink ?b (ii_bend s) ok) (ii_bend s - 1)
      = delete_at i (live_part (ii_hinode s) (ii_bend s))
    \<and> ii_bend s - 1 < int (length (shrink ?b (ii_bend s) ok))"
    by (rule shrink_ok [OF ys(3)]) (use assms ys(2) in auto)
  moreover have "hi_whdentry h = None"
    if wh: "\<forall>h \<in> set (ii_hinode s). hi_whdentry h = None"
      and h: "h \<in> set (shrink ?b (ii_bend s) ok)" for h
  proof -
    have "set ys \<subseteq> set (ii_hinode s)"
      using ys(1) arr_move_set [of "ii_hinode s" i "i + 1" "ii_bend s - i" ys]
      by (cases "i < ii_bend s") auto
    moreover have "nat (ii_bend s) < length ys" using assms ys(2) by simp
    moreover have "h \<in> set ?b"
      using h shrink_subset [of ?b "ii_bend s" ok] by blast
    ultimately show ?thesis
      using wh nth_mem set_update_subset_insert [of ys "nat (ii_bend s)"]
      by (fastforce simp: au_hn_init_def)
  qed
  ultimately show ?thesis
    using ys(1,2) assms unfolding au_br_do_del_hip_def ys(1)
    by (intro exI [of _ "shrink ?b (ii_bend s) ok"]) (simp add: arr_set_def arr_get_def)
qed

interpretation brp_table: branch_table si_branch si_bend "au_br_do_add_brp br" au_br_do_del_brp
  "\<lambda>x. x = Some br" for br
proof
  fix s :: au_sbinfo and i
  assume "- 1 \<le> si_bend s" "0 \<le> i" "i \<le> si_bend s + 1"
    "si_bend s + 1 < int (length (si_branch s))"
  from add_brp_ok [OF this, of br]
  show "\<exists>s' x. au_br_do_add_brp br i (si_bend s) (si_bend s + 1 - i) s = Some s' \<and> x = Some br
      \<and> si_bend s' = si_bend s + 1
      \<and> live_part (si_branch s') (si_bend s') = insert_at i x (live_part (si_branch s) (si_bend s))
      \<and> length (si_branch s') = length (si_branch s)" by auto
next
  fix s :: au_sbinfo and i ok
  assume "0 \<le> i" "i \<le> si_bend s" "0 < si_bend s" "si_bend s < int (length (si_branch s))"
  from del_brp_ok [OF this, of ok]
  show "\<exists>s'. au_br_do_del_brp i (si_bend s) ok s = Some s' \<and> si_bend s' = si_bend s - 1
      \<and> live_part (si_branch s') (si_bend s') = delete_at i (live_part (si_branch s) (si_bend s))
      \<and> si_bend s' < int (length (si_branch s'))" by auto
qed

interpretation hdp_table: branch_table di_hdentry di_bend au_br_do_add_hdp au_br_do_del_hdp
  "\<lambda>h. hd_dentry h = None"
proof
  fix s :: au_dinfo and i
  assume "- 1 \<le> di_bend s" "0 \<le> i" "i \<le> di_bend s + 1"
    "di_bend s + 1 < int (length (di_hdentry s))"
  from add_hdp_ok [OF this]
  show "\<exists>s' x. au_br_do_add_hdp i (di_bend s) (di_bend s + 1 - i) s = Some s' \<and> hd_dentry x = None
      \<and> di_bend s' = di_bend s + 1
      \<and> live_part (di_hdentry s') (di_bend s') = insert_at i x (live_part (di_hdentry s) (di_bend s))
      \<and> length (di_hdentry s') = length (di_hdentry s)" by (elim exE conjE) auto
next
  fix s :: au_dinfo and i ok
  assume "0 \<le> i" "i \<le> di_bend s" "0 < di_bend s" "di_bend s < int (length (di_hdentry s))"
  from del_hdp_ok [OF this, of ok]
  show "\<exists>s'. au_br_do_del_hdp i (di_bend s) ok s = Some s' \<and> di_bend s' = di_bend s - 1
      \<and> live_part (di_hdentry s') (di_bend s') = delete_at i (live_part (di_hdentry s) (di_bend s))
      \<and> di_bend s' < int (length (di_hdentry s'))" by auto
qed

interpretation hip_table: branch_table ii_hinode ii_bend au_br_do_add_hip au_br_do_del_hip
  "\<lambda>h. hi_inode h = None"
proof
  fix s :: au_iinfo and i
  assume "- 1 \<le> ii_bend s" "0 \<le> i" "i \<le> ii_bend s + 1"
    "ii_bend s + 1 < int (length (ii_hinode s))"
  from add_hip_ok [OF this]
  show "\<exists>s' x. au_br_do_add_hip i (ii_bend s) (ii_bend s + 1 - i) s = Some s' \<and> hi_inode x = None
      \<and> ii_bend s' = ii_bend s + 1
      \<and> live_part (ii_hinode s') (ii_bend s') = insert_at i x (live_part (ii_hinode s) (ii_bend s))
      \<and> length (ii_hinode s') = length (ii_hinode s)" by (elim exE conjE) auto
next
  fix s :: au_iinfo and i ok
  assume "0 \<le> i" "i \<le> ii_bend s" "0 < ii_bend s" "ii_bend s < int (length (ii_hinode s))"
  from del_hip_ok [OF this, of ok]
  show "\<exists>s'. au_br_do_del_hip i (ii_bend s) ok s = Some s' \<and> ii_bend s' = ii_bend s - 1
      \<and> live_part (ii_hinode s') (ii_bend s') = delete_at i (live_part (ii_hinode s) (ii_bend s))
      \<and> ii_bend s' < int (length (ii_hinode s'))" by auto
qed

end
