(* ===== verification/Branch.thy ===== *)
theory Branch
  imports Br_Table Fstype
begin

text \<open>
  Adding, deleting and changing branches (\<open>branch.c\<close>). \<open>mount_ok\<close> says that the three tables
  describe the same stack of branches and that every reference they and the branches hold is
  counted; adding and deleting a branch keep it. Answers of the kernel and of other
  components (\<open>vfs_statfs\<close>, \<open>au_wh_init\<close>, \<open>au_xino_br\<close>, the busy tests) are arguments.
\<close>

section \<open>Freeing a branch\<close>

definition au_br_dflags_force :: "au_branch \<Rightarrow> vfs \<Rightarrow> (au_branch \<times> vfs) option" where
  "au_br_dflags_force br v =
     (case dents v (br_dentry br) of
        None \<Rightarrow> None
      | Some x \<Rightarrow> Some (br\<lparr>br_dflags := d_mounted x\<rparr>,
                  v\<lparr>dents := (dents v)(br_dentry br \<mapsto> x\<lparr>d_mounted := True\<rparr>)\<rparr>))"

definition au_br_dflags_restore :: "au_branch \<Rightarrow> vfs \<Rightarrow> vfs option" where
  "au_br_dflags_restore br v =
     (if br_dflags br then Some v
      else case dents v (br_dentry br) of
             None \<Rightarrow> None
           | Some x \<Rightarrow> Some (v\<lparr>dents := (dents v)(br_dentry br \<mapsto> x\<lparr>d_mounted := False\<rparr>)\<rparr>))"

definition wbr_wh :: "au_branch \<Rightarrow> dptr option list" where
  "wbr_wh br =
     (case br_wbr br of
        None \<Rightarrow> []
      | Some w \<Rightarrow> [wbr_whbase w, wbr_plink w, wbr_orph w])"

text \<open>
  \<open>au_br_do_free\<close>. \<open>path\<close> is the branch's \<open>br_path\<close>, which \<open>au_br_init\<close> clears when it
  fails. The notification group and the dynamic operations of the branch are not modelled.
\<close>

definition au_br_do_free :: "au_branch \<Rightarrow> dptr option \<Rightarrow> vfs \<Rightarrow> vfs option" where
  "au_br_do_free br path v =
     Option.bind (fput (br_xino_file br) v) (\<lambda>v1.
     if br_count br \<noteq> 0 then None
     else
       Option.bind (put_all put_dentry (wbr_wh br) v1) (\<lambda>v2.
       Option.bind (au_br_dflags_restore br v2) (\<lambda>v3.
       dput path v3)))"

definition au_br_free :: "au_sbinfo \<Rightarrow> vfs \<Rightarrow> vfs option" where
  "au_br_free sbi v =
     loop_up (\<lambda>b v. Option.bind (au_sbr sbi b) (\<lambda>br.
         au_br_do_free br (Some (br_dentry br)) v)) 0 (si_bend sbi) v"

section \<open>The mounted root\<close>

record mount =
  m_sbi :: au_sbinfo
  m_di :: au_dinfo
  m_ii :: au_iinfo
  m_v :: vfs
  m_vi :: vinode

definition au_br_do_add :: "kconfig \<Rightarrow> bindex \<Rightarrow> au_branch \<Rightarrow> mount \<Rightarrow> mount option" where
  "au_br_do_add cfg bindex br m =
     Option.bind (au_br_dflags_force br (m_v m)) (\<lambda>(br, v1).
     let bend = au_sbend (m_sbi m);
         amount = bend + 1 - bindex;
         h_dentry = br_dentry br
     in
     Option.bind (au_br_do_add_brp br bindex bend amount (m_sbi m)) (\<lambda>sbi.
     Option.bind (au_br_do_add_hdp bindex bend amount (m_di m)) (\<lambda>di1.
     Option.bind (au_br_do_add_hip bindex bend amount (m_ii m)) (\<lambda>ii1.
     Option.bind (get_dentry h_dentry v1) (\<lambda>v2.
     Option.bind (au_set_h_dptr sbi bindex (Some h_dentry) (di1, v2)) (\<lambda>(di2, v3).
     Option.bind (dents v3 h_dentry) (\<lambda>x.
     Option.bind (au_igrab (d_inode x) v3) (\<lambda>v4.
     map_option (\<lambda>(ii2, v5, _). m\<lparr>m_sbi := sbi, m_di := di2, m_ii := ii2, m_v := v5\<rparr>)
       (au_set_h_iptr cfg sbi (m_vi m) False bindex (d_inode x) 0 (ii1, v4, []))))))))))"

text \<open>\<open>oks\<close> answers the three \<open>krealloc\<close> calls.\<close>

definition au_br_do_del ::
    "bindex \<Rightarrow> au_branch \<Rightarrow> bool \<times> bool \<times> bool \<Rightarrow> mount \<Rightarrow> mount option" where
  "au_br_do_del bindex br oks m =
     (let bend = si_bend (m_sbi m) in
      Option.bind (au_h_dptr (m_di m) (m_v m) bindex) (\<lambda>h_root.
      Option.bind (arr_get (ii_hinode (m_ii m)) bindex) (\<lambda>hinode.
      Option.bind (au_igrab (hi_inode hinode) (m_v m)) (\<lambda>v1.
      Option.bind (au_hiput hinode v1) (\<lambda>(hinode', v2).
      let ii0 = (m_ii m)\<lparr>ii_hinode := (ii_hinode (m_ii m))[nat bindex := hinode']\<rparr> in
      Option.bind (au_br_do_del_brp bindex bend (fst oks) (m_sbi m)) (\<lambda>sbi.
      Option.bind (au_br_do_del_hdp bindex bend (fst (snd oks)) (m_di m)) (\<lambda>di.
      Option.bind (au_br_do_del_hip bindex bend (snd (snd oks)) ii0) (\<lambda>ii.
      Option.bind (dput h_root v2) (\<lambda>v3.
      Option.bind (iput (hi_inode hinode) v3) (\<lambda>v4.
      map_option (\<lambda>v5. m\<lparr>m_sbi := sbi, m_di := di, m_ii := ii, m_v := v5\<rparr>)
        (au_br_do_free br (Some (br_dentry br)) v4)))))))))))"

section \<open>The invariant\<close>

definition br_pins :: "au_branch option \<Rightarrow> dptr option list" where
  "br_pins b = wbr_wh (the b) @ [Some (br_dentry (the b))]"

definition all_pins :: "au_branch option list \<Rightarrow> dptr option list" where
  "all_pins bs = concat (map br_pins bs)"

text \<open>The dentries the mount holds: through the root's table and through its branches.\<close>

definition m_dents :: "mount \<Rightarrow> dptr option list" where
  "m_dents m = map hd_dentry (live_part (di_hdentry (m_di m)) (di_bend (m_di m)))
     @ all_pins (live_branches (m_sbi m))"

definition m_inos :: "mount \<Rightarrow> iptr option list" where
  "m_inos m = map hi_inode (live_part (ii_hinode (m_ii m)) (ii_bend (m_ii m)))"

definition hd_of :: "au_branch option \<Rightarrow> au_hdentry \<Rightarrow> bool" where
  "hd_of b h = (hd_dentry h = Some (br_dentry (the b)) \<and> hd_id h = br_id (the b))"

definition hi_of :: "vfs \<Rightarrow> au_branch option \<Rightarrow> au_hinode \<Rightarrow> bool" where
  "hi_of v b h = (hi_id h = br_id (the b) \<and> hi_inode h \<noteq> None
     \<and> map_option d_inode (dents v (br_dentry (the b))) = Some (hi_inode h))"

definition mount_ok :: "mount \<Rightarrow> bool" where
  "mount_ok m =
     (sbi_wf (m_sbi m)
      \<and> di_bend (m_di m) = si_bend (m_sbi m) \<and> ii_bend (m_ii m) = si_bend (m_sbi m)
      \<and> di_bstart (m_di m) = (if si_bend (m_sbi m) < 0 then - 1 else 0)
      \<and> ii_bstart (m_ii m) = (if si_bend (m_sbi m) < 0 then - 1 else 0)
      \<and> si_bend (m_sbi m) < int (length (di_hdentry (m_di m)))
      \<and> si_bend (m_sbi m) < int (length (ii_hinode (m_ii m)))
      \<and> list_all2 hd_of (live_branches (m_sbi m))
           (live_part (di_hdentry (m_di m)) (di_bend (m_di m)))
      \<and> list_all2 (hi_of (m_v m)) (live_branches (m_sbi m))
           (live_part (ii_hinode (m_ii m)) (ii_bend (m_ii m)))
      \<and> (\<forall>h \<in> set (ii_hinode (m_ii m)). hi_whdentry h = None)
      \<and> dref.owns (m_v m) (m_dents m) \<and> iref.owns (m_v m) (m_inos m))"

text \<open>Room for one more branch in every table, as \<open>au_br_alloc\<close> makes it.\<close>

definition has_room :: "mount \<Rightarrow> bool" where
  "has_room m =
     (si_bend (m_sbi m) + 1 < int (length (si_branch (m_sbi m)))
      \<and> si_bend (m_sbi m) + 1 < int (length (di_hdentry (m_di m)))
      \<and> si_bend (m_sbi m) + 1 < int (length (ii_hinode (m_ii m))))"

lemma live_branches_live: "live_branches sbi = live_part (si_branch sbi) (si_bend sbi)"
  by (simp add: live_branches_def live_part_def)

lemma live_part_update: "live_part (xs[n := y]) e = (live_part xs e)[n := y]"
  by (simp add: live_part_def take_update_swap)

lemma map_insert_at: "map f (insert_at i x xs) = insert_at i (f x) (map f xs)"
  by (simp add: insert_at_def take_map drop_map)

lemma map_delete_at: "map f (delete_at i xs) = delete_at i (map f xs)"
  by (simp add: delete_at_def take_map drop_map)

lemma insert_at_update:
  "nat i \<le> length xs \<Longrightarrow> (insert_at i h xs)[nat i := y] = insert_at i y xs"
  by (simp add: insert_at_def list_update_append)

lemma delete_at_update: "delete_at i (xs[nat i := y]) = delete_at i xs"
  by (simp add: delete_at_def)

lemma insert_at_nth: "nat i \<le> length xs \<Longrightarrow> insert_at i x xs ! nat i = x"
  by (simp add: insert_at_def nth_append)

lemma set_insert_at: "set (insert_at i x xs) = insert x (set xs)"
proof -
  have "set xs = set (take (nat i) xs) \<union> set (drop (nat i) xs)"
    by (metis append_take_drop_id set_append)
  then show ?thesis by (auto simp: insert_at_def)
qed

lemma distinct_insert_at: "distinct (insert_at i x xs) \<longleftrightarrow> distinct xs \<and> x \<notin> set xs"
proof -
  have "distinct (a @ x # b) \<longleftrightarrow> distinct (a @ b) \<and> x \<notin> set (a @ b)" for a b by auto
  from this [of "take (nat i) xs" "drop (nat i) xs"] show ?thesis by (simp add: insert_at_def)
qed

lemma set_delete_at: "set (delete_at i xs) \<subseteq> set xs"
  by (auto simp: delete_at_def dest: in_set_takeD in_set_dropD)

lemma distinct_delete_at: "distinct xs \<Longrightarrow> distinct (delete_at i xs)"
  using set_take_disj_set_drop_if_distinct [of xs "nat i" "nat i + 1"] by (simp add: delete_at_def)

lemma held_insert_at: "held (insert_at i x xs) p = held xs p + held [x] p"
proof -
  have "held xs p = held (take (nat i) xs) p + held (drop (nat i) xs) p"
    by (metis append_take_drop_id held_append)
  then show ?thesis by (cases x) (simp_all add: insert_at_def)
qed

lemma held_delete_at:
  assumes "nat i < length xs"
  shows "held xs p = held (delete_at i xs) p + held [xs ! nat i] p"
proof -
  have "xs = take (nat i) xs @ xs ! nat i # drop (Suc (nat i)) xs"
    by (rule id_take_nth_drop [OF assms])
  then have "held xs p = held (take (nat i) xs) p + held (xs ! nat i # drop (Suc (nat i)) xs) p"
    by (metis held_append)
  then show ?thesis by (cases "xs ! nat i") (simp_all add: delete_at_def)
qed

lemma all_pins_append: "all_pins (xs @ ys) = all_pins xs @ all_pins ys"
  by (simp add: all_pins_def)

lemma held_all_pins_insert:
  "held (all_pins (insert_at i x xs)) p = held (all_pins xs) p + held (br_pins x) p"
proof -
  have "held (all_pins xs) p = held (all_pins (take (nat i) xs)) p + held (all_pins (drop (nat i) xs)) p"
    by (metis all_pins_append append_take_drop_id held_append)
  then show ?thesis
    by (simp add: insert_at_def all_pins_append) (simp add: all_pins_def)
qed

lemma held_all_pins_delete:
  assumes "nat i < length xs"
  shows "held (all_pins xs) p = held (all_pins (delete_at i xs)) p + held (br_pins (xs ! nat i)) p"
proof -
  have "xs = take (nat i) xs @ xs ! nat i # drop (Suc (nat i)) xs"
    by (rule id_take_nth_drop [OF assms])
  then have "all_pins xs = all_pins (take (nat i) xs) @ all_pins (xs ! nat i # drop (Suc (nat i)) xs)"
    using all_pins_append by metis
  then show ?thesis by (simp add: delete_at_def all_pins_append) (simp add: all_pins_def)
qed

lemma hi_of_frame:
  "(\<And>e. map_option d_inode (dents v' e) = map_option d_inode (dents v e)) \<Longrightarrow> hi_of v' = hi_of v"
  by (simp add: hi_of_def fun_eq_iff)

lemma dflags_force_ok:
  assumes "dents v (br_dentry br) = Some x"
  shows "\<exists>v1. au_br_dflags_force br v = Some (br\<lparr>br_dflags := d_mounted x\<rparr>, v1)
    \<and> d_refs v1 = d_refs v \<and> inos v1 = inos v \<and> files v1 = files v
    \<and> (\<forall>e. map_option d_inode (dents v1 e) = map_option d_inode (dents v e))"
  using assms by (auto simp: au_br_dflags_force_def d_refs_def fun_eq_iff)

lemma dflags_restore_ok:
  assumes "dents v (br_dentry br) \<noteq> None"
  shows "\<exists>v1. au_br_dflags_restore br v = Some v1
    \<and> d_refs v1 = d_refs v \<and> inos v1 = inos v \<and> files v1 = files v
    \<and> (\<forall>e. map_option d_inode (dents v1 e) = map_option d_inode (dents v e))"
  using assms by (auto simp: au_br_dflags_restore_def d_refs_def fun_eq_iff split: option.splits)

lemma get_dentry_ok:
  assumes "d_refs v d = Some n"
  shows "\<exists>v1. get_dentry d v = Some v1 \<and> d_refs v1 = (d_refs v)(d \<mapsto> n + 1) \<and> inos v1 = inos v
    \<and> files v1 = files v \<and> (\<forall>e. map_option d_inode (dents v1 e) = map_option d_inode (dents v e))"
  using assms by (auto simp: get_dentry_def d_refs_def fun_eq_iff)

lemma igrab_ok:
  assumes "inos v p = Some y" and "0 < i_count y"
  shows "\<exists>v1. au_igrab (Some p) v = Some v1 \<and> i_refs v1 = (i_refs v)(p \<mapsto> i_count y + 1)
    \<and> inos v1 p = Some (y\<lparr>i_count := i_count y + 1\<rparr>) \<and> dents v1 = dents v \<and> files v1 = files v"
  using assms by (auto simp: au_igrab_def get_inode_def i_refs_def fun_eq_iff)

lemma au_sbr_live_nth:
  assumes "0 \<le> b" "b \<le> si_bend sbi" "si_bend sbi < int (length (si_branch sbi))"
  shows "au_sbr sbi b = live_branches sbi ! nat b"
  using assms by (auto simp: au_sbr_def arr_get_def live_branches_def)

lemma live_nth:
  assumes "0 \<le> b" "b \<le> e" "e < int (length xs)"
  shows "live_part xs e ! nat b = xs ! nat b" and "nat b < length (live_part xs e)"
    and "arr_get xs b = Some (live_part xs e ! nat b)"
  using assms by (auto simp: live_part_def arr_get_def)

text \<open>The three table insertions followed by the two setters, on a branch that is new.\<close>

lemma set_h_dptr_new:
  assumes "arr_get (di_hdentry di) i = Some h" and "hd_dentry h = None" and "au_sbr sbi i = Some br"
  shows "au_set_h_dptr sbi i (Some d) (di, v) = Some (di\<lparr>di_hdentry :=
      (di_hdentry di)[nat i := \<lparr>hd_dentry = Some d, hd_id = br_id br\<rparr>]\<rparr>, v)"
  using assms by (simp add: au_set_h_dptr_def au_hdput_def)

lemma set_h_iptr_new:
  assumes "arr_get (ii_hinode ii) i = Some h" and "hi_inode h = None" and "au_sbr sbi i = Some br"
    and "inos v p = Some y" and "0 < i_count y" and "vi_fmt vi = 0 \<or> i_fmt y = vi_fmt vi"
  shows "\<exists>ii'. au_set_h_iptr cfg sbi vi False i (Some p) 0 (ii, v, []) = Some (ii', v, [])
    \<and> ii_hinode ii' = (ii_hinode ii)[nat i := h\<lparr>hi_inode := Some p, hi_id := br_id br\<rparr>]
    \<and> ii_bend ii' = ii_bend ii \<and> ii_bstart ii' = ii_bstart ii"
  using assms
  by (cases "i = ii_bstart ii") (auto simp: au_set_h_iptr_def au_ftest_hi_def Let_def au_cpup_igen_def)

text \<open>A branch that may be added: its id is new and the caller holds the references it has.\<close>

definition addable :: "mount \<Rightarrow> au_branch \<Rightarrow> bool" where
  "addable m br =
     (br_id br \<notin> branch_ids (m_sbi m)
      \<and> dref.owns (m_v m) (m_dents m @ br_pins (Some br))
      \<and> (\<exists>x p y. dents (m_v m) (br_dentry br) = Some x \<and> d_inode x = Some p
           \<and> inos (m_v m) p = Some y \<and> 0 < i_count y
           \<and> (vi_fmt (m_vi m) = 0 \<or> i_fmt y = vi_fmt (m_vi m))))"

lemma sbi_wf_insert:
  assumes wf: "sbi_wf sbi" and i: "0 \<le> i" "i \<le> si_bend sbi + 1"
    and max: "si_bend sbi < AUFS_BRANCH_MAX - 1" and new: "br_id br \<notin> branch_ids sbi"
    and brp: "live_part brp (si_bend sbi + 1) = insert_at i (Some br) (live_branches sbi)"
    and len: "length brp = length (si_branch sbi)" "si_bend sbi + 1 < int (length (si_branch sbi))"
  shows "sbi_wf (sbi\<lparr>si_branch := brp, si_bend := si_bend sbi + 1\<rparr>)"
    and "live_branches (sbi\<lparr>si_branch := brp, si_bend := si_bend sbi + 1\<rparr>)
      = insert_at i (Some br) (live_branches sbi)"
proof -
  let ?s = "sbi\<lparr>si_branch := brp, si_bend := si_bend sbi + 1\<rparr>"
  show live: "live_branches ?s = insert_at i (Some br) (live_branches sbi)"
    using brp by (simp add: live_branches_live)
  have ne: "b \<noteq> None" if "b \<in> set (live_branches sbi)" for b
    using wf that unfolding sbi_wf_def by metis
  have "Some (br_id br) \<notin> set (map (map_option br_id) (live_branches sbi))"
  proof
    assume "Some (br_id br) \<in> set (map (map_option br_id) (live_branches sbi))"
    then obtain b where b: "b \<in> set (live_branches sbi)" "Some (br_id br) = map_option br_id b"
      unfolding set_map by (elim imageE)
    from b(2) obtain z where "b = Some z" "br_id z = br_id br" by (cases b) simp_all
    then show False using b new by (auto simp: branch_ids_def)
  qed
  then show "sbi_wf ?s"
    using wf max len ne unfolding sbi_wf_def live
    by (auto simp: set_insert_at map_insert_at distinct_insert_at)
qed

lemma au_br_do_add_ok:
  assumes ok: "mount_ok m" and room: "has_room m" and add: "addable m br"
    and i: "0 \<le> i" "i \<le> si_bend (m_sbi m) + 1" and max: "si_bend (m_sbi m) < AUFS_BRANCH_MAX - 1"
  shows "\<exists>m' br'. au_br_do_add cfg i br m = Some m' \<and> mount_ok m'
    \<and> br' = br\<lparr>br_dflags := br_dflags br'\<rparr>
    \<and> live_branches (m_sbi m') = insert_at i (Some br') (live_branches (m_sbi m))
    \<and> dref.foreign (m_v m') (m_dents m') = dref.foreign (m_v m) (m_dents m @ br_pins (Some br))
    \<and> iref.foreign (m_v m') (m_inos m') = iref.foreign (m_v m) (m_inos m)"
proof -
  let ?e = "si_bend (m_sbi m)" and ?d = "br_dentry br"
  have wf: "sbi_wf (m_sbi m)" and e: "di_bend (m_di m) = ?e" "ii_bend (m_ii m) = ?e" "- 1 \<le> ?e"
    and st: "di_bstart (m_di m) = (if ?e < 0 then - 1 else 0)"
      "ii_bstart (m_ii m) = (if ?e < 0 then - 1 else 0)"
    using ok by (simp_all add: mount_ok_def sbi_wf_def)
  obtain x p y where x: "dents (m_v m) ?d = Some x" "d_inode x = Some p"
    "inos (m_v m) p = Some y" "0 < i_count y" "vi_fmt (m_vi m) = 0 \<or> i_fmt y = vi_fmt (m_vi m)"
    using add by (auto simp: addable_def)
  define br' where "br' = br\<lparr>br_dflags := d_mounted x\<rparr>"
  obtain v1 where v1: "au_br_dflags_force br (m_v m) = Some (br', v1)"
    "d_refs v1 = d_refs (m_v m)" "inos v1 = inos (m_v m)"
    "\<And>e. map_option d_inode (dents v1 e) = map_option d_inode (dents (m_v m) e)"
    using dflags_force_ok [of "m_v m" br, OF x(1)] by (auto simp: br'_def)
  obtain brp where brp: "au_br_do_add_brp br' i ?e (?e + 1 - i) (m_sbi m)
      = Some ((m_sbi m)\<lparr>si_branch := brp, si_bend := ?e + 1\<rparr>)"
    "live_part brp (?e + 1) = insert_at i (Some br') (live_branches (m_sbi m))"
    "length brp = length (si_branch (m_sbi m))"
    using add_brp_ok [of "m_sbi m" i br'] e i room by (auto simp: has_room_def live_branches_live)
  define sbi where "sbi = (m_sbi m)\<lparr>si_branch := brp, si_bend := ?e + 1\<rparr>"
  have new: "br_id br' \<notin> branch_ids (m_sbi m)" using add by (simp add: addable_def br'_def)
  have sbi: "sbi_wf sbi" "live_branches sbi = insert_at i (Some br') (live_branches (m_sbi m))"
    using sbi_wf_insert [OF wf i max new brp(2,3)] room by (simp_all add: sbi_def has_room_def)
  have ll: "length (live_branches (m_sbi m)) = nat (?e + 1)"
    using wf by (auto simp: live_branches_def sbi_wf_def)
  then have il: "nat i \<le> length (live_branches (m_sbi m))" using i by simp
  have sbr: "au_sbr sbi i = Some br'"
    using au_sbr_live_nth [of i sbi] i room brp(3) insert_at_nth [OF il, of "Some br'"]
    by (simp add: sbi(2)) (simp add: sbi_def has_room_def)
  obtain h hdp where hdp: "au_br_do_add_hdp i ?e (?e + 1 - i) (m_di m)
      = Some ((m_di m)\<lparr>di_hdentry := hdp, di_bend := ?e + 1,
                di_bstart := if ?e < 0 then 0 else di_bstart (m_di m)\<rparr>)" "hd_dentry h = None"
    "live_part hdp (?e + 1) = insert_at i h (live_part (di_hdentry (m_di m)) ?e)"
    "length hdp = length (di_hdentry (m_di m))"
    using add_hdp_ok [of "m_di m" i] e i room by (auto simp: has_room_def)
  obtain g hip where hip: "au_br_do_add_hip i ?e (?e + 1 - i) (m_ii m)
      = Some ((m_ii m)\<lparr>ii_hinode := hip, ii_bend := ?e + 1,
                ii_bstart := if ?e < 0 then 0 else ii_bstart (m_ii m)\<rparr>)" "hi_inode g = None"
    "live_part hip (?e + 1) = insert_at i g (live_part (ii_hinode (m_ii m)) ?e)"
    "length hip = length (ii_hinode (m_ii m))" "set hip \<subseteq> insert g (set (ii_hinode (m_ii m)))"
    "\<exists>g0 \<in> set (ii_hinode (m_ii m)). hi_whdentry g = hi_whdentry g0"
    using add_hip_ok [of "m_ii m" i] e i room by (auto simp: has_room_def)
  define di1 where "di1 = (m_di m)\<lparr>di_hdentry := hdp, di_bend := ?e + 1,
      di_bstart := if ?e < 0 then 0 else di_bstart (m_di m)\<rparr>"
  define ii1 where "ii1 = (m_ii m)\<lparr>ii_hinode := hip, ii_bend := ?e + 1,
      ii_bstart := if ?e < 0 then 0 else ii_bstart (m_ii m)\<rparr>"
  have lens: "length (live_part (di_hdentry (m_di m)) ?e) = nat (?e + 1)"
    "length (live_part (ii_hinode (m_ii m)) ?e) = nat (?e + 1)"
    using ok by (auto simp: mount_ok_def live_part_def)
  have gh: "arr_get hdp i = Some h" "arr_get hip i = Some g"
    using live_nth(3) [of i "?e + 1" hdp] live_nth(3) [of i "?e + 1" hip] i room hdp hip lens
    by (simp_all add: has_room_def insert_at_nth)
  obtain n where n: "d_refs (m_v m) ?d = Some n" "0 \<le> n"
    using x(1) dref.owns_live [of "m_v m" _ ?d] add
    by (fastforce simp: addable_def br_pins_def d_refs_def)
  obtain v2 where v2: "get_dentry ?d v1 = Some v2" "d_refs v2 = (d_refs (m_v m))(?d \<mapsto> n + 1)"
    "inos v2 = inos (m_v m)"
    "\<And>e. map_option d_inode (dents v2 e) = map_option d_inode (dents (m_v m) e)"
    using get_dentry_ok [of v1 ?d n] v1 n by auto
  let ?y = "\<lparr>hd_dentry = Some ?d, hd_id = br_id br'\<rparr>"
  have s1: "au_set_h_dptr sbi i (Some ?d) (di1, v2)
      = Some (di1\<lparr>di_hdentry := hdp[nat i := ?y]\<rparr>, v2)"
    using set_h_dptr_new [of di1 i h sbi br' ?d v2] gh(1) hdp(2) sbr by (simp add: di1_def)
  obtain x2 where x2: "dents v2 ?d = Some x2" "d_inode x2 = Some p"
    using v2(4) [of ?d] x by auto
  obtain v4 where v4: "au_igrab (Some p) v2 = Some v4"
    "i_refs v4 = (i_refs (m_v m))(p \<mapsto> i_count y + 1)"
    "inos v4 p = Some (y\<lparr>i_count := i_count y + 1\<rparr>)" "dents v4 = dents v2"
    using igrab_ok [of v2 p y] v2(3) x by (auto simp: i_refs_def fun_eq_iff)
  let ?g = "g\<lparr>hi_inode := Some p, hi_id := br_id br'\<rparr>"
  obtain ii2 where ii2: "au_set_h_iptr cfg sbi (m_vi m) False i (Some p) 0 (ii1, v4, [])
      = Some (ii2, v4, [])" "ii_hinode ii2 = hip[nat i := ?g]" "ii_bend ii2 = ?e + 1"
    "ii_bstart ii2 = (if ?e < 0 then 0 else ii_bstart (m_ii m))"
    using set_h_iptr_new [of ii1 i g sbi br' v4 p _ "m_vi m" cfg, OF _ hip(2) sbr v4(3)] gh(2) x
    by (auto simp: ii1_def)
  define di2 where "di2 = di1\<lparr>di_hdentry := hdp[nat i := ?y]\<rparr>"
  define m' where "m' = m\<lparr>m_sbi := sbi, m_di := di2, m_ii := ii2, m_v := v4\<rparr>"
  have run: "au_br_do_add cfg i br m = Some m'"
    using v1(1) brp(1) hdp(1) hip(1) v2(1) s1 x2 v4(1) ii2(1)
    by (simp add: au_br_do_add_def Let_def au_sbend_def br'_def sbi_def di1_def ii1_def di2_def m'_def)
  have live_d: "live_part (di_hdentry di2) (?e + 1)
      = insert_at i ?y (live_part (di_hdentry (m_di m)) ?e)"
    using hdp(3) lens i by (simp add: di2_def live_part_update insert_at_update)
  have live_i: "live_part (ii_hinode ii2) (?e + 1)
      = insert_at i ?g (live_part (ii_hinode (m_ii m)) ?e)"
    using hip(3) lens i ii2(2) by (simp add: live_part_update insert_at_update)
  have pins: "br_pins (Some br') = br_pins (Some br)" by (simp add: br_pins_def br'_def wbr_wh_def)
  have "di_bend di2 = ?e + 1" by (simp add: di2_def di1_def)
  then have md: "m_dents m' = map hd_dentry (insert_at i ?y (live_part (di_hdentry (m_di m)) ?e))
      @ all_pins (insert_at i (Some br') (live_branches (m_sbi m)))"
    using live_d sbi(2) by (simp add: m_dents_def m'_def)
  have eqd: "held (m_dents m') q = held (Some ?d # m_dents m @ br_pins (Some br)) q" for q
    using e held_all_pins_insert [of i "Some br'" "live_branches (m_sbi m)" q]
    by (simp add: md map_insert_at held_insert_at pins m_dents_def [of m])
  have eqi: "held (m_inos m') q = held (Some p # m_inos m) q" for q
    using e by (simp add: m_inos_def m'_def ii2(3) live_i map_insert_at held_insert_at)
  have d4: "d_refs v4 = (d_refs (m_v m))(?d \<mapsto> n + 1)"
    using v2(2) v4(4) by (simp add: d_refs_def fun_eq_iff)
  have od: "dref.owns v4 (m_dents m')"
    "dref.foreign v4 (m_dents m') = dref.foreign (m_v m) (m_dents m @ br_pins (Some br))"
    using dref.owns_get [OF _ n d4, of "m_dents m @ br_pins (Some br)"] add
      dref.table_eq [of "m_dents m'" "Some ?d # m_dents m @ br_pins (Some br)" v4, OF eqd]
    by (simp_all add: addable_def)
  have oi: "iref.owns v4 (m_inos m')" "iref.foreign v4 (m_inos m') = iref.foreign (m_v m) (m_inos m)"
    using iref.owns_get [of "m_v m" "m_inos m" p "i_count y" v4] ok x v4(2)
      iref.table_eq [of "m_inos m'" "Some p # m_inos m" v4, OF eqi]
    by (simp_all add: mount_ok_def i_refs_def)
  have frame: "hi_of v4 = hi_of (m_v m)" using v2(4) v4(4) by (intro hi_of_frame) simp
  have hio: "hi_of (m_v m) (Some br') ?g" using x by (simp add: hi_of_def br'_def)
  have wh: "\<forall>h \<in> set (ii_hinode ii2). hi_whdentry h = None"
  proof
    fix h assume "h \<in> set (ii_hinode ii2)"
    then have "h \<in> insert ?g (set hip)" using ii2(2) set_update_subset_insert by fastforce
    then show "hi_whdentry h = None" using hip(5,6) ok by (auto simp: mount_ok_def)
  qed
  have l2: "list_all2 hd_of (live_branches sbi) (live_part (di_hdentry di2) (?e + 1))"
    "list_all2 (hi_of v4) (live_branches sbi) (live_part (ii_hinode ii2) (?e + 1))"
    using ok hio e unfolding sbi(2) live_d live_i frame mount_ok_def
    by (auto intro!: list_all2_insert simp: hd_of_def br'_def)
  have "mount_ok m'"
    using sbi(1) od(1) oi(1) wh l2 st ii2 hdp(4) hip(4) room e
    by (simp add: mount_ok_def m'_def sbi_def di2_def di1_def has_room_def)
  then show ?thesis
    using run sbi(2) od(2) oi(2)
    by (intro exI [of _ m'] exI [of _ br']) (simp add: m'_def br'_def)
qed

lemma put_all_dentry_frame:
  "put_all put_dentry ps v = Some v' \<Longrightarrow> inos v' = inos v \<and> files v' = files v
    \<and> (\<forall>e. map_option d_inode (dents v' e) = map_option d_inode (dents v e))"
proof (induction ps arbitrary: v)
  case (Cons q ps)
  then obtain v1 where v1: "dput q v = Some v1" "put_all put_dentry ps v1 = Some v'"
    by (auto simp: bind_eq_Some_conv)
  then show ?case using Cons.IH [OF v1(2)] dput_frame [OF v1(1)] by simp
qed simp

lemma dref_cong:
  "d_refs v' = d_refs v \<Longrightarrow> dref.owns v' ps = dref.owns v ps \<and> dref.foreign v' ps = dref.foreign v ps"
  by (simp add: dref.owns_def dref.foreign_def fun_eq_iff)

lemma iref_cong:
  "i_refs v' = i_refs v \<Longrightarrow> iref.owns v' ps = iref.owns v ps \<and> iref.foreign v' ps = iref.foreign v ps"
  by (simp add: iref.owns_def iref.foreign_def fun_eq_iff)

text \<open>A branch that may be freed: nobody uses it and its xino file is open.\<close>

definition br_idle :: "vfs \<Rightarrow> au_branch \<Rightarrow> bool" where
  "br_idle v br = (br_count br = 0 \<and>
     (\<forall>f. br_xino_file br = Some f \<longrightarrow> (\<exists>n. files v f = Some n \<and> 0 < n)))"

text \<open>The counts of the open files after the file of a branch is given back.\<close>

definition files_put :: "fptr option \<Rightarrow> (fptr \<Rightarrow> int option) \<Rightarrow> fptr \<Rightarrow> int option" where
  "files_put xf fs f = (if xf = Some f then map_option (\<lambda>n. n - 1) (fs f) else fs f)"

lemma fput_files:
  assumes "\<forall>f. xf = Some f \<longrightarrow> (\<exists>n. files v f = Some n \<and> 0 < n)"
  shows "\<exists>v1. fput xf v = Some v1 \<and> dents v1 = dents v \<and> inos v1 = inos v \<and> files v1 = files_put xf (files v)"
proof (cases xf)
  case None
  then show ?thesis by (simp add: files_put_def [abs_def])
next
  case (Some f)
  then show ?thesis using assms by (auto simp: put_file_def files_put_def fun_eq_iff)
qed

lemma au_br_do_free_ok:
  assumes own: "dref.owns v (br_pins (Some br) @ rs)" and idle: "br_idle v br"
  shows "\<exists>v'. au_br_do_free br (Some (br_dentry br)) v = Some v' \<and> inos v' = inos v
    \<and> (\<forall>e. map_option d_inode (dents v' e) = map_option d_inode (dents v e))
    \<and> files v' = files_put (br_xino_file br) (files v)
    \<and> dref.owns v' rs \<and> dref.foreign v' rs = dref.foreign v (br_pins (Some br) @ rs)"
proof -
  let ?d = "br_dentry br"
  obtain v1 where v1: "fput (br_xino_file br) v = Some v1" "dents v1 = dents v" "inos v1 = inos v"
    "files v1 = files_put (br_xino_file br) (files v)"
    using fput_files idle unfolding br_idle_def by blast
  have own1: "dref.owns v1 (wbr_wh br @ [Some ?d] @ rs)"
    "dref.foreign v1 (wbr_wh br @ [Some ?d] @ rs) = dref.foreign v (br_pins (Some br) @ rs)"
    using own v1(2) dref_cong [of v1 v] by (simp_all add: d_refs_def br_pins_def fun_eq_iff)
  obtain v2 where v2: "put_all put_dentry (wbr_wh br) v1 = Some v2"
    "dref.owns v2 ([Some ?d] @ rs)"
    "dref.foreign v2 ([Some ?d] @ rs) = dref.foreign v (br_pins (Some br) @ rs)"
    using dref.put_all_ok [OF own1(1)] own1(2) by auto
  have f2: "inos v2 = inos v1" "files v2 = files v1" "\<And>e. map_option d_inode (dents v2 e) = map_option d_inode (dents v1 e)"
    using put_all_dentry_frame [OF v2(1)] by auto
  have "dents v2 ?d \<noteq> None"
    using dref.owns_live [OF v2(2), of ?d] by (auto simp: d_refs_def)
  then obtain v3 where v3: "au_br_dflags_restore br v2 = Some v3" "d_refs v3 = d_refs v2"
    "inos v3 = inos v2" "files v3 = files v2" "\<And>e. map_option d_inode (dents v3 e) = map_option d_inode (dents v2 e)"
    using dflags_restore_ok [of v2 br] by blast
  have own3: "dref.owns v3 (Some ?d # rs)"
    "dref.foreign v3 (Some ?d # rs) = dref.foreign v (br_pins (Some br) @ rs)"
    using v2 dref_cong [OF v3(2)] by simp_all
  obtain v4 where v4: "dput (Some ?d) v3 = Some v4" "dref.owns v4 rs"
    "dref.foreign v4 rs = dref.foreign v3 (Some ?d # rs)"
    using dref.put_opt_ok [OF own3(1)] by auto
  have "inos v4 = inos v" "\<And>e. map_option d_inode (dents v4 e) = map_option d_inode (dents v e)"
    "files v4 = files_put (br_xino_file br) (files v)"
    using dput_frame [OF v4(1)] v3 f2 v1 by simp_all
  moreover have "au_br_do_free br (Some ?d) v = Some v4"
    using v1 v2 v3 v4 idle by (simp add: au_br_do_free_def br_idle_def)
  ultimately show ?thesis using v4 own3 by auto
qed

text \<open>Grabbing and putting the same lower inode is a no-op on the counters.\<close>

lemma igrab_hiput:
  assumes "hi_whdentry g = None" and "hi_inode g = Some p" and "inos v p = Some y" and "0 < i_count y"
  shows "\<exists>v1 v2. au_igrab (hi_inode g) v = Some v1
    \<and> au_hiput g v1 = Some (g\<lparr>hi_notify := False\<rparr>, v2) \<and> i_refs v2 = i_refs v
    \<and> dents v2 = dents v \<and> files v2 = files v"
  using assms
  by (auto simp: au_igrab_def get_inode_def au_hiput_def put_inode_def i_refs_def fun_eq_iff)

lemma sbi_wf_delete:
  assumes wf: "sbi_wf sbi" and "0 < si_bend sbi"
    and brp: "live_part brp (si_bend sbi - 1) = delete_at i (live_branches sbi)"
    and len: "si_bend sbi - 1 < int (length brp)"
  shows "sbi_wf (sbi\<lparr>si_branch := brp, si_bend := si_bend sbi - 1\<rparr>)"
    and "live_branches (sbi\<lparr>si_branch := brp, si_bend := si_bend sbi - 1\<rparr>)
      = delete_at i (live_branches sbi)"
proof -
  let ?s = "sbi\<lparr>si_branch := brp, si_bend := si_bend sbi - 1\<rparr>"
  show live: "live_branches ?s = delete_at i (live_branches sbi)"
    using brp by (simp add: live_branches_live)
  show "sbi_wf ?s"
    using wf assms(2) len set_delete_at [of i "live_branches sbi"] unfolding sbi_wf_def live
    by (auto simp: map_delete_at distinct_delete_at)
qed

lemma au_br_do_del_ok:
  assumes ok: "mount_ok m" and i: "0 \<le> i" "i \<le> si_bend (m_sbi m)" and e0: "0 < si_bend (m_sbi m)"
    and br: "au_sbr (m_sbi m) i = Some br" and idle: "br_idle (m_v m) br"
  shows "\<exists>m'. au_br_do_del i br oks m = Some m' \<and> mount_ok m'
    \<and> live_branches (m_sbi m') = delete_at i (live_branches (m_sbi m))
    \<and> dref.foreign (m_v m') (m_dents m') = dref.foreign (m_v m) (m_dents m)
    \<and> iref.foreign (m_v m') (m_inos m') = iref.foreign (m_v m) (m_inos m)
    \<and> files (m_v m') = files_put (br_xino_file br) (files (m_v m))"
proof -
  let ?e = "si_bend (m_sbi m)" and ?v = "m_v m" and ?d = "br_dentry br"
  let ?H = "live_part (di_hdentry (m_di m)) ?e" and ?G = "live_part (ii_hinode (m_ii m)) ?e"
  have wf: "sbi_wf (m_sbi m)" and e: "di_bend (m_di m) = ?e" "ii_bend (m_ii m) = ?e"
    and st: "di_bstart (m_di m) = 0" "ii_bstart (m_ii m) = 0"
    and len: "?e < int (length (di_hdentry (m_di m)))" "?e < int (length (ii_hinode (m_ii m)))"
      "?e < int (length (si_branch (m_sbi m)))"
    and wh: "\<forall>h \<in> set (ii_hinode (m_ii m)). hi_whdentry h = None"
    and own: "dref.owns ?v (m_dents m)" "iref.owns ?v (m_inos m)"
    using ok e0 by (auto simp: mount_ok_def sbi_wf_def)
  have l2: "list_all2 hd_of (live_branches (m_sbi m)) ?H"
    "list_all2 (hi_of ?v) (live_branches (m_sbi m)) ?G" using ok e by (simp_all add: mount_ok_def)
  have ni: "nat i < length (live_branches (m_sbi m))" "live_branches (m_sbi m) ! nat i = Some br"
    using au_sbr_live_nth [OF i len(3)] br live_nth(2) [OF i len(3)]
    by (simp_all add: live_branches_live)
  obtain g where g: "arr_get (ii_hinode (m_ii m)) i = Some g" "g = ?G ! nat i"
    using live_nth(3) [OF i len(2)] by simp
  have hd: "arr_get (di_hdentry (m_di m)) i = Some (?H ! nat i)" using live_nth(3) [OF i len(1)] .
  have hdi: "hd_dentry (?H ! nat i) = Some ?d" "hi_of ?v (Some br) g"
    using list_all2_nthD [OF l2(1) ni(1)] list_all2_nthD [OF l2(2) ni(1)] ni(2) g(2)
    by (simp_all add: hd_of_def)
  obtain p where p: "hi_inode g = Some p" using hdi(2) by (auto simp: hi_of_def)
  have "Some p \<in> set (m_inos m)"
    using nth_mem [of "nat i" "map hi_inode ?G"] live_nth(2) [OF i len(2)] p g(2) e
    by (simp add: m_inos_def del: set_map)
  then obtain y where y: "inos ?v p = Some y" "0 < i_count y"
    using iref.owns_live [OF own(2)] by (auto simp: i_refs_def)
  have "Some ?d \<in> set (m_dents m)"
    using nth_mem [of "nat i" "map hd_dentry ?H"] live_nth(2) [OF i len(1)] hdi(1) e
    by (simp add: m_dents_def del: set_map)
  then obtain x where x: "dents ?v ?d = Some x" "0 < d_count x"
    using dref.owns_live [OF own(1)] by (auto simp: d_refs_def)
  have hroot: "au_h_dptr (m_di m) ?v i = Some (Some ?d)"
    using hd hdi(1) x st i by (simp add: au_h_dptr_def au_dbstart_def)
  have gm: "g \<in> set (ii_hinode (m_ii m))"
    using g(1) by (auto simp: array_simps intro!: nth_mem)
  then have gw: "hi_whdentry g = None" using wh by simp
  obtain v1 v2 where v2: "au_igrab (hi_inode g) ?v = Some v1"
    "au_hiput g v1 = Some (g\<lparr>hi_notify := False\<rparr>, v2)" "i_refs v2 = i_refs ?v" "dents v2 = dents ?v"
    "files v2 = files ?v"
    using igrab_hiput [OF gw p y] by blast
  let ?ii0 = "(m_ii m)\<lparr>ii_hinode := (ii_hinode (m_ii m))[nat i := g\<lparr>hi_notify := False\<rparr>]\<rparr>"
  obtain brp where brp: "au_br_do_del_brp i ?e (fst oks) (m_sbi m)
      = Some ((m_sbi m)\<lparr>si_branch := brp, si_bend := ?e - 1\<rparr>)"
    "live_part brp (?e - 1) = delete_at i (live_branches (m_sbi m))" "?e - 1 < int (length brp)"
    using del_brp_ok [OF i e0 len(3), of "fst oks"] by (auto simp: live_branches_live)
  define sbi where "sbi = (m_sbi m)\<lparr>si_branch := brp, si_bend := ?e - 1\<rparr>"
  note sb = sbi_wf_delete [OF wf e0 brp(2,3), folded sbi_def]
  obtain hdp where hdp: "au_br_do_del_hdp i ?e (fst (snd oks)) (m_di m)
      = Some ((m_di m)\<lparr>di_hdentry := hdp, di_bend := ?e - 1\<rparr>)"
    "live_part hdp (?e - 1) = delete_at i ?H" "?e - 1 < int (length hdp)"
    using del_hdp_ok [of i "m_di m" "fst (snd oks)"] i e0 len e by auto
  obtain hip where hip: "au_br_do_del_hip i ?e (snd (snd oks)) ?ii0
      = Some (?ii0\<lparr>ii_hinode := hip, ii_bend := ?e - 1\<rparr>)"
    "live_part hip (?e - 1) = delete_at i (live_part (ii_hinode ?ii0) ?e)"
    "?e - 1 < int (length hip)"
    "(\<forall>h \<in> set (ii_hinode ?ii0). hi_whdentry h = None) \<longrightarrow> (\<forall>h \<in> set hip. hi_whdentry h = None)"
    using del_hip_ok [of i ?ii0 "snd (snd oks)"] i e0 len e by auto
  have whn: "\<forall>h \<in> set hip. hi_whdentry h = None"
    using hip(4) wh gw set_update_subset_insert [of "ii_hinode (m_ii m)" "nat i" "g\<lparr>hi_notify := False\<rparr>"]
    by fastforce
  have hipl: "live_part hip (?e - 1) = delete_at i ?G"
    using hip(2) by (simp add: live_part_update delete_at_update)
  define di where "di = (m_di m)\<lparr>di_hdentry := hdp, di_bend := ?e - 1\<rparr>"
  define ii where "ii = ?ii0\<lparr>ii_hinode := hip, ii_bend := ?e - 1\<rparr>"
  let ?D' = "map hd_dentry (delete_at i ?H) @ all_pins (delete_at i (live_branches (m_sbi m)))"
  let ?I' = "map hi_inode (delete_at i ?G)"
  have eqd: "held (m_dents m) q = held (Some ?d # br_pins (Some br) @ ?D') q" for q
    using held_delete_at [of i "map hd_dentry ?H" q] held_all_pins_delete [OF ni(1), of q]
      live_nth(2) [OF i len(1)] hdi(1) ni(2) e
    by (simp add: m_dents_def map_delete_at)
  have eqi: "held (m_inos m) q = held (Some p # ?I') q" for q
    using held_delete_at [of i "map hi_inode ?G" q] live_nth(2) [OF i len(2)] p g(2) e
    by (simp add: m_inos_def map_delete_at)
  have own2: "dref.owns v2 (Some ?d # br_pins (Some br) @ ?D')"
    "dref.foreign v2 (Some ?d # br_pins (Some br) @ ?D') = dref.foreign ?v (m_dents m)"
    using own(1) dref.table_eq [OF eqd, of ?v] dref_cong [of v2 ?v] v2(4)
    by (simp_all add: d_refs_def fun_eq_iff)
  obtain v3 where v3: "dput (Some ?d) v2 = Some v3" "dref.owns v3 (br_pins (Some br) @ ?D')"
    "dref.foreign v3 (br_pins (Some br) @ ?D') = dref.foreign ?v (m_dents m)"
    using dref.put_opt_ok [OF own2(1)] own2(2) by auto
  have f3: "inos v3 = inos v2" "files v3 = files v2"
    "\<And>e. map_option d_inode (dents v3 e) = map_option d_inode (dents v2 e)"
    using dput_frame [OF v3(1)] by auto
  have "iref.owns v3 (Some p # ?I')" "iref.foreign v3 (Some p # ?I') = iref.foreign ?v (m_inos m)"
    using own(2) iref.table_eq [OF eqi, of ?v] iref_cong [of v3 ?v] f3(1) v2(3)
    by (simp_all add: i_refs_def fun_eq_iff)
  then obtain v4 where v4: "iput (Some p) v3 = Some v4" "iref.owns v4 ?I'"
    "iref.foreign v4 ?I' = iref.foreign ?v (m_inos m)"
    using iref.put_opt_ok by metis
  have f4: "dents v4 = dents v3" "files v4 = files v3" using put_inode_frame [of p v3 v4] v4(1) by auto
  have own4: "dref.owns v4 (br_pins (Some br) @ ?D')"
    "dref.foreign v4 (br_pins (Some br) @ ?D') = dref.foreign ?v (m_dents m)"
    using v3 dref_cong [of v4 v3] f4(1) by (simp_all add: d_refs_def fun_eq_iff)
  have "br_idle v4 br" using idle f4 f3 v2(5) by (simp add: br_idle_def)
  then obtain v5 where v5: "au_br_do_free br (Some ?d) v4 = Some v5" "inos v5 = inos v4"
    "\<And>e. map_option d_inode (dents v5 e) = map_option d_inode (dents v4 e)"
    "files v5 = files_put (br_xino_file br) (files v4)"
    "dref.owns v5 ?D'" "dref.foreign v5 ?D' = dref.foreign ?v (m_dents m)"
    using au_br_do_free_ok [OF own4(1)] own4(2) by auto
  define m' where "m' = m\<lparr>m_sbi := sbi, m_di := di, m_ii := ii, m_v := v5\<rparr>"
  have run: "au_br_do_del i br oks m = Some m'"
    using hroot g(1) v2(1,2) brp(1) hdp(1) hip(1) v3(1) v4(1) v5(1) p
    by (simp add: au_br_do_del_def Let_def m'_def sbi_def di_def ii_def)
  have tabs: "m_dents m' = ?D'" "m_inos m' = ?I'"
    using hdp(2) hipl sb(2) by (simp_all add: m_dents_def m_inos_def m'_def di_def ii_def)
  have i5: "iref.owns v5 ?I'" "iref.foreign v5 ?I' = iref.foreign ?v (m_inos m)"
    using v4 iref_cong [of v5 v4] v5(2) by (simp_all add: i_refs_def fun_eq_iff)
  have frame: "hi_of v5 = hi_of ?v"
    using v5(3) f4(1) f3(3) v2(4) by (intro hi_of_frame) simp
  have "list_all2 hd_of (live_branches sbi) (live_part hdp (?e - 1))"
    "list_all2 (hi_of v5) (live_branches sbi) (live_part hip (?e - 1))"
    unfolding sb(2) hdp(2) hipl frame by (rule list_all2_delete, rule l2)+
  then have "mount_ok m'"
    unfolding mount_ok_def tabs
    using sb(1) v5(5) i5(1) whn st e0 hdp(3) hip(3)
    by (simp add: m'_def di_def ii_def sbi_def)
  moreover have "files v5 = files_put (br_xino_file br) (files ?v)" using v5(4) f4(2) f3(2) v2(5) by simp
  ultimately show ?thesis using run sb(2) tabs v5(6) i5(2) by (intro exI [of _ m']) (simp add: m'_def)
qed

section \<open>Properties\<close>

text \<open>
  C10: adding a branch at any legal index keeps the invariant of the mount: the superblock, the
  root dentry and the root inode get the branch at the same index and keep all others in
  order, no table is overrun, and every reference held elsewhere is still counted; the
  references the new branch came with are now held by the mount.
\<close>

theorem au_br_do_add_invariant:
  assumes "mount_ok m" and "has_room m" and "addable m br"
    and "0 \<le> i" and "i \<le> si_bend (m_sbi m) + 1" and "si_bend (m_sbi m) < AUFS_BRANCH_MAX - 1"
  shows "\<exists>m' br'. au_br_do_add cfg i br m = Some m' \<and> mount_ok m'
    \<and> br' = br\<lparr>br_dflags := br_dflags br'\<rparr>
    \<and> live_branches (m_sbi m') = insert_at i (Some br') (live_branches (m_sbi m))
    \<and> d_foreign (m_v m') (m_dents m') = d_foreign (m_v m) (m_dents m @ br_pins (Some br))
    \<and> i_foreign (m_v m') (m_inos m') = i_foreign (m_v m) (m_inos m)"
  using au_br_do_add_ok [OF assms, of cfg] by (simp add: d_foreign_foreign i_foreign_foreign)

text \<open>
  C11: deleting an idle branch that is not the last one keeps the invariant of the mount: the
  three tables lose the same index, whether or not their blocks can be shrunk, and the mount gives
  back, each exactly once, the dentries and the inode it holds for the branch (its root in the branch and
  in the root's tables, its whiteout directories) and the branch's xino file: what others hold of every
  dentry and inode stays, and the count of the xino file alone among the open files is one less.
\<close>

theorem au_br_do_del_invariant:
  assumes "mount_ok m" and "0 \<le> i" and "i \<le> si_bend (m_sbi m)" and "0 < si_bend (m_sbi m)"
    and "au_sbr (m_sbi m) i = Some br" and "br_idle (m_v m) br"
  shows "\<exists>m'. au_br_do_del i br oks m = Some m' \<and> mount_ok m'
    \<and> live_branches (m_sbi m') = delete_at i (live_branches (m_sbi m))
    \<and> d_foreign (m_v m') (m_dents m') = d_foreign (m_v m) (m_dents m)
    \<and> i_foreign (m_v m') (m_inos m') = i_foreign (m_v m) (m_inos m)
    \<and> (\<forall>f. files (m_v m') f =
          (if br_xino_file br = Some f then map_option (\<lambda>n. n - 1) (files (m_v m) f) else files (m_v m) f))"
proof -
  obtain m' where m': "au_br_do_del i br oks m = Some m'" "mount_ok m'"
    "live_branches (m_sbi m') = delete_at i (live_branches (m_sbi m))"
    "d_foreign (m_v m') (m_dents m') = d_foreign (m_v m) (m_dents m)"
    "i_foreign (m_v m') (m_inos m') = i_foreign (m_v m) (m_inos m)"
    "files (m_v m') = files_put (br_xino_file br) (files (m_v m))"
    using au_br_do_del_ok [OF assms, of oks] by (auto simp: d_foreign_foreign i_foreign_foreign)
  from m'(1-5) m'(6) [unfolded files_put_def [abs_def], THEN fun_cong] show ?thesis by blast
qed

text \<open>A mount with two branches, 100 and 102, and room for one more; 103 can be added.\<close>

definition example_mount :: mount where
  "example_mount =
     \<lparr>m_sbi = example_sbinfo\<lparr>si_bend := 1,
        si_branch := [Some (example_branch 1 1 100), Some (example_branch 127 2 102), None]\<rparr>,
      m_di = \<lparr>di_generation = 0, di_bstart = 0, di_bend = 1, di_bwh = - 1, di_bdiropq = - 1,
        di_hdentry = [\<lparr>hd_dentry = Some 100, hd_id = 1\<rparr>, \<lparr>hd_dentry = Some 102, hd_id = 127\<rparr>,
                      \<lparr>hd_dentry = None, hd_id = 0\<rparr>]\<rparr>,
      m_ii = \<lparr>ig_generation = 0, ig_half_refreshed = False, ii_hsb1 = 0, ii_bstart = 0,
        ii_bend = 1, ii_higen = 0,
        ii_hinode = [\<lparr>hi_inode = Some 1, hi_id = 1, hi_notify = False, hi_whdentry = None\<rparr>,
                     \<lparr>hi_inode = Some 3, hi_id = 127, hi_notify = False, hi_whdentry = None\<rparr>,
                     \<lparr>hi_inode = None, hi_id = 0, hi_notify = False, hi_whdentry = None\<rparr>]\<rparr>,
      m_v = example_vfs\<lparr>dents := (dents example_vfs)
          (103 \<mapsto> \<lparr>d_count = 1, d_inode = Some 1, d_mounted = False, d_hsb = 1\<rparr>)\<rparr>,
      m_vi = \<lparr>vi_fmt = 16384, vi_ino = 2\<rparr>\<rparr>"

lemma example_mount_live:
  "live_branches (m_sbi example_mount)
     = [Some (example_branch 1 1 100), Some (example_branch 127 2 102)]"
  by (simp add: example_mount_def live_branches_def eval_nat_numeral)

lemma example_mount_ok: "mount_ok example_mount"
proof -
  have "m_dents example_mount
      = [Some 100, Some 102, None, None, None, Some 100, Some 102]"
    by (simp add: m_dents_def example_mount_live all_pins_def br_pins_def wbr_wh_def
        example_branch_def au_br_writable_def AuBrPerm_RW_def)
      (simp add: example_mount_def live_part_def eval_nat_numeral)
  then have "dref.owns (m_v example_mount) (m_dents example_mount)"
    by (simp add: dref.owns_def d_refs_def) (simp add: example_mount_def example_vfs_def)
  moreover have "m_inos example_mount = [Some 1, Some 3]"
    by (simp add: m_inos_def example_mount_def live_part_def eval_nat_numeral)
  then have "iref.owns (m_v example_mount) (m_inos example_mount)"
    by (simp add: iref.owns_def i_refs_def) (simp add: example_mount_def example_vfs_def)
  moreover have "sbi_wf (m_sbi example_mount)"
    using example_mount_live
    by (simp add: sbi_wf_def example_branch_def) (simp add: example_mount_def AUFS_BRANCH_MAX_def)
  moreover have "list_all2 hd_of (live_branches (m_sbi example_mount))
      (live_part (di_hdentry (m_di example_mount)) (di_bend (m_di example_mount)))"
    by (simp add: example_mount_live)
      (simp add: example_mount_def live_part_def eval_nat_numeral hd_of_def example_branch_def)
  moreover have "list_all2 (hi_of (m_v example_mount)) (live_branches (m_sbi example_mount))
      (live_part (ii_hinode (m_ii example_mount)) (ii_bend (m_ii example_mount)))"
    by (simp add: example_mount_live)
      (simp add: example_mount_def live_part_def eval_nat_numeral hi_of_def example_branch_def
        example_vfs_def)
  ultimately show ?thesis
    unfolding mount_ok_def by (simp add: example_mount_def)
qed

lemma example_mount_addable:
  "has_room example_mount" "addable example_mount (example_branch 3 2 103)"
proof -
  show "has_room example_mount" by (simp add: has_room_def example_mount_def)
  have "m_dents example_mount @ br_pins (Some (example_branch 3 2 103))
      = [Some 100, Some 102, None, None, None, Some 100, Some 102, Some 103]"
    by (simp add: m_dents_def example_mount_live all_pins_def br_pins_def wbr_wh_def
        example_branch_def au_br_writable_def AuBrPerm_RW_def)
      (simp add: example_mount_def live_part_def eval_nat_numeral)
  then have "dref.owns (m_v example_mount)
      (m_dents example_mount @ br_pins (Some (example_branch 3 2 103)))"
    by (simp add: dref.owns_def d_refs_def) (simp add: example_mount_def example_vfs_def)
  moreover have "3 \<notin> branch_ids (m_sbi example_mount)"
    by (auto simp: branch_ids_def example_mount_live example_branch_def)
  ultimately show "addable example_mount (example_branch 3 2 103)"
    unfolding addable_def
    by (simp add: example_branch_def) (simp add: example_mount_def example_vfs_def)
qed

theorem au_br_do_add_invariant_witness:
  "\<exists>m' br'. au_br_do_add full_config 1 (example_branch 3 2 103) example_mount = Some m'
    \<and> mount_ok m' \<and> br' = (example_branch 3 2 103)\<lparr>br_dflags := br_dflags br'\<rparr>
    \<and> live_branches (m_sbi m') = insert_at 1 (Some br') (live_branches (m_sbi example_mount))"
proof -
  have "si_bend (m_sbi example_mount) = 1" by (simp add: example_mount_def)
  then show ?thesis
    using au_br_do_add_invariant [OF example_mount_ok example_mount_addable, of 1 full_config]
    by (simp add: AUFS_BRANCH_MAX_def) blast
qed

text \<open>The same mount; the xino file of the first branch is the open file 9.\<close>

definition xino_mount :: mount where
  "xino_mount = example_mount
     \<lparr>m_sbi := (m_sbi example_mount)\<lparr>si_branch :=
        [Some (example_branch 1 1 100\<lparr>br_xino_file := Some 9\<rparr>), Some (example_branch 127 2 102), None]\<rparr>,
      m_v := (m_v example_mount)\<lparr>files := [9 \<mapsto> 1]\<rparr>\<rparr>"

lemma xino_mount_ok: "mount_ok xino_mount"
proof -
  have live: "live_branches (m_sbi xino_mount)
      = [Some (example_branch 1 1 100\<lparr>br_xino_file := Some 9\<rparr>), Some (example_branch 127 2 102)]"
    by (simp add: xino_mount_def example_mount_def live_branches_def eval_nat_numeral)
  have "m_dents xino_mount = m_dents example_mount"
    by (simp add: m_dents_def live example_mount_live all_pins_def br_pins_def wbr_wh_def) (simp add: xino_mount_def)
  moreover have "m_inos xino_mount = m_inos example_mount" by (simp add: m_inos_def xino_mount_def)
  moreover have "d_refs (m_v xino_mount) = d_refs (m_v example_mount)" "i_refs (m_v xino_mount) = i_refs (m_v example_mount)"
    by (simp_all add: d_refs_def i_refs_def xino_mount_def fun_eq_iff)
  ultimately have own: "dref.owns (m_v xino_mount) (m_dents xino_mount)" "iref.owns (m_v xino_mount) (m_inos xino_mount)"
    using example_mount_ok dref_cong [of "m_v xino_mount" "m_v example_mount" "m_dents example_mount"]
      iref_cong [of "m_v xino_mount" "m_v example_mount" "m_inos example_mount"] by (simp_all add: mount_ok_def)
  have tabs: "m_di xino_mount = m_di example_mount" "m_ii xino_mount = m_ii example_mount"
    "si_bend (m_sbi xino_mount) = si_bend (m_sbi example_mount)" "length (si_branch (m_sbi xino_mount)) = 3"
    "length (si_branch (m_sbi example_mount)) = 3"
    by (simp_all add: xino_mount_def example_mount_def)
  have e: "di_bend (m_di example_mount) = si_bend (m_sbi example_mount)" "ii_bend (m_ii example_mount) = si_bend (m_sbi example_mount)"
    using example_mount_ok by (simp_all add: mount_ok_def)
  have hi: "hi_of (m_v xino_mount) = hi_of (m_v example_mount)" by (rule hi_of_frame) (simp add: xino_mount_def)
  have br: "hd_of (Some (b\<lparr>br_xino_file := f\<rparr>)) = hd_of (Some b)" "hi_of v (Some (b\<lparr>br_xino_file := f\<rparr>)) = hi_of v (Some b)" for b f v
    by (simp_all add: hd_of_def hi_of_def fun_eq_iff)
  from example_mount_ok own show ?thesis
    by (simp add: mount_ok_def tabs e sbi_wf_def live example_mount_live hi list_all2_Cons1 br)
qed

theorem au_br_do_del_invariant_witness:
  "\<exists>m'. au_br_do_del 0 (example_branch 1 1 100\<lparr>br_xino_file := Some 9\<rparr>) (True, False, True) xino_mount = Some m'
    \<and> mount_ok m' \<and> live_branches (m_sbi m') = delete_at 0 (live_branches (m_sbi xino_mount))
    \<and> files (m_v m') 9 = Some 0"
proof -
  have e: "si_bend (m_sbi xino_mount) = 1" "files (m_v xino_mount) = [9 \<mapsto> 1]" by (simp_all add: xino_mount_def example_mount_def)
  have "au_sbr (m_sbi xino_mount) 0 = Some (example_branch 1 1 100\<lparr>br_xino_file := Some 9\<rparr>)"
    by (simp add: xino_mount_def example_mount_def au_sbr_def arr_get_def)
  moreover have "br_idle (m_v xino_mount) (example_branch 1 1 100\<lparr>br_xino_file := Some 9\<rparr>)"
    by (simp add: br_idle_def example_branch_def e)
  ultimately obtain m' where m':
    "au_br_do_del 0 (example_branch 1 1 100\<lparr>br_xino_file := Some 9\<rparr>) (True, False, True) xino_mount = Some m'"
    "mount_ok m'" "live_branches (m_sbi m') = delete_at 0 (live_branches (m_sbi xino_mount))"
    "\<forall>f. files (m_v m') f = (if br_xino_file (example_branch 1 1 100\<lparr>br_xino_file := Some 9\<rparr>) = Some f
        then map_option (\<lambda>n. n - 1) (files (m_v xino_mount) f) else files (m_v xino_mount) f)"
    using au_br_do_del_invariant [OF xino_mount_ok, of 0 "example_branch 1 1 100\<lparr>br_xino_file := Some 9\<rparr>" "(True, False, True)",
        unfolded e(1)] by fastforce
  have "files (m_v m') 9 = Some 0" unfolding m'(4) [THEN spec] by (simp add: e)
  with m'(1-3) show ?thesis by blast
qed

end
