(* ===== verification/Branch_Ops.thy ===== *)
theory Branch_Ops
  imports Branch
begin

text \<open>
  The requests to add, delete and change a branch (\<open>au_br_add\<close>, \<open>au_br_del\<close>, \<open>au_br_mod\<close> of
  \<open>branch.c\<close>) with their tests and error paths. The answers of the kernel and of parts that
  are modelled elsewhere or not at all come from a record \<open>br_env\<close>.
\<close>

section \<open>Environment\<close>

record opt_add =
  oa_bindex :: bindex
  oa_pathname :: string
  oa_perm :: int
  oa_dentry :: dptr

record opt_del =
  od_pathname :: string
  od_dentry :: dptr

record opt_mod =
  om_path :: string
  om_perm :: int
  om_h_root :: dptr

text \<open>
  \<open>e_a_...\<close> answer the allocations. \<open>e_sb\<close> is the identity of the aufs superblock and \<open>e_hsb\<close>
  the data of the lower ones. \<open>e_wh_init\<close> is \<open>au_wh_init\<close>: error, contents of the
  branch's \<open>au_wbr\<close>, store. \<open>e_xino\<close> is \<open>au_xino_br\<close>, \<open>e_xino_parent\<close> the directory of the
  xino file. The last group are the busy tests; \<open>e_count_after\<close> is the branch's use count
  after \<open>br_del_file\<close> closed the directories opened on it.
\<close>

record br_env =
  e_a_br :: bool
  e_a_wbr :: bool
  e_a_fhsm :: bool
  e_a_sbr :: bool
  e_a_di :: bool
  e_a_ii :: bool
  e_a_files :: bool
  e_hnotify_err :: int
  e_sb :: nat
  e_hsb :: "nat \<Rightarrow> h_super"
  e_loopback :: "dptr \<Rightarrow> bool"
  e_subdir :: "dptr \<Rightarrow> dptr \<Rightarrow> bool"
  e_magics :: magics
  e_want_write :: int
  e_statfs_err :: int
  e_namelen :: int
  e_wh_init :: "au_branch \<Rightarrow> vfs \<Rightarrow> int \<times> au_wbr \<times> vfs"
  e_xino :: "int \<times> fptr option"
  e_xino_parent :: dptr
  e_file_busy :: int
  e_children_busy :: int
  e_count_after :: int
  e_files_ro :: int

definition NAME_MAX :: int where "NAME_MAX = 255"

section \<open>Tests\<close>

definition test_overlap :: "br_env \<Rightarrow> vfs \<Rightarrow> dptr \<Rightarrow> dptr \<Rightarrow> bool option" where
  "test_overlap env v h_adding h_root =
     (if h_adding = h_root \<or> e_loopback env h_adding then Some True
      else case (dents v h_adding, dents v h_root) of
             (Some a, Some r) \<Rightarrow>
               Some (d_hsb a = d_hsb r
                     \<and> (e_subdir env h_adding h_root \<or> e_subdir env h_root h_adding))
           | _ \<Rightarrow> None)"

definition test_br :: "h_inode \<Rightarrow> int \<Rightarrow> int" where
  "test_br inode perm =
     (if au_br_writable perm \<and> i_rdonly inode then - EINVAL else 0)"

text \<open>0: add it, 1: it is already there, negative: error.\<close>

definition test_add :: "kconfig \<Rightarrow> br_env \<Rightarrow> opt_add \<Rightarrow> bool \<Rightarrow> mount \<Rightarrow> int option" where
  "test_add cfg env add remount m =
     (let bend = au_sbend (m_sbi m); v = m_v m in
      Option.bind (if 0 \<le> bend then au_find_dbindex (m_di m) v (Some (oa_dentry add))
                   else Some (- 1)) (\<lambda>dup.
      if 0 \<le> bend \<and> 0 \<le> dup then Some (if remount then 1 else - EINVAL)
      else if AUFS_BRANCH_MAX \<le> oa_bindex add \<or> AUFS_BRANCH_MAX - 1 \<le> bend then Some (- ENOSPC)
      else if oa_bindex add < 0 \<or> bend + 1 < oa_bindex add then Some (- EDOM)
      else
        Option.bind (dents v (oa_dentry add)) (\<lambda>x.
        Option.bind (Option.bind (d_inode x) (inos v)) (\<lambda>inode.
        if i_nlink inode = 0 then Some (- ENOENT)
        else if i_hsb inode = e_sb env then Some (- EINVAL)
        else if au_test_fs_unsuppoted cfg (e_magics env) (e_hsb env (i_hsb inode))
        then Some (- EINVAL)
        else if test_br inode (oa_perm add) \<noteq> 0 then Some (test_br inode (oa_perm add))
        else if bend < 0 then Some 0
        else
          map_option (\<lambda>r. if r = None then 0 else - EINVAL)
            (first_up (\<lambda>b. Option.bind (au_h_dptr (m_di m) v b) (\<lambda>h.
               case h of None \<Rightarrow> None | Some h_root \<Rightarrow> test_overlap env v (oa_dentry add) h_root))
              0 bend)))))"

section \<open>Initialisation\<close>

text \<open>
  The three \<open>realloc\<close> calls of \<open>au_br_alloc\<close>: the tables may have grown even when a later
  one could not.
\<close>

definition br_grow_tables :: "br_env \<Rightarrow> int \<Rightarrow> mount \<Rightarrow> (int \<times> mount) option" where
  "br_grow_tables env new_nbranch m =
     Option.bind (au_sbr_realloc (m_sbi m) new_nbranch (e_a_sbr env)) (\<lambda>(err, sbi).
     let m1 = m\<lparr>m_sbi := sbi\<rparr> in
     if err \<noteq> 0 then Some (err, m1)
     else
       Option.bind (au_di_realloc (m_di m1) new_nbranch (e_a_di env)) (\<lambda>(err, di).
       let m2 = m1\<lparr>m_di := di\<rparr> in
       if err \<noteq> 0 then Some (err, m2)
       else map_option (\<lambda>(err, ii). (err, m2\<lparr>m_ii := ii\<rparr>))
              (au_ii_realloc (m_ii m2) new_nbranch (e_a_ii env))))"

text \<open>
  \<open>au_br_alloc\<close>: the error, whether the new branch has its \<open>au_wbr\<close> and its \<open>au_br_fhsm\<close>, the
  mount.
\<close>

definition au_br_alloc ::
    "kconfig \<Rightarrow> br_env \<Rightarrow> int \<Rightarrow> int \<Rightarrow> mount \<Rightarrow> (int \<times> bool \<times> bool \<times> mount) option" where
  "au_br_alloc cfg env new_nbranch perm m =
     (if \<not> e_a_br env then Some (- ENOMEM, False, False, m)
      else if e_hnotify_err env \<noteq> 0 then Some (e_hnotify_err env, False, False, m)
      else if au_br_writable perm \<and> \<not> e_a_wbr env then Some (- ENOMEM, False, False, m)
      else if au_br_fhsm cfg perm \<and> \<not> e_a_fhsm env then Some (- ENOMEM, False, False, m)
      else
        map_option (\<lambda>(err, m').
            (err, err = 0 \<and> au_br_writable perm, err = 0 \<and> au_br_fhsm cfg perm, m'))
          (br_grow_tables env new_nbranch m))"

text \<open>
  \<open>au_br_init_wh\<close>: \<open>au_wh_init\<close> sees the branch with its new permission. The choice of the
  mutex that is held meanwhile is not modelled.
\<close>

definition au_br_init_wh :: "br_env \<Rightarrow> int \<Rightarrow> au_branch \<times> vfs \<Rightarrow> int \<times> au_branch \<times> vfs" where
  "au_br_init_wh env new_perm s =
     (let (br, v) = s in
      if e_want_write env \<noteq> 0 then (e_want_write env, br, v)
      else
        let (err, w, v') = e_wh_init env (br\<lparr>br_perm := new_perm\<rparr>) v;
            wbr' = (if br_wbr br = None then None else Some w)
        in (err,
            br\<lparr>br_wbr := if err = 0 \<and> wbr' \<noteq> None \<and> \<not> au_br_writable new_perm then None else wbr'\<rparr>,
            v'))"

definition wbr_zero :: au_wbr where
  "wbr_zero = \<lparr>wbr_whbase = None, wbr_plink = None, wbr_orph = None, wbr_bytes = 0\<rparr>"

definition au_wbr_init :: "br_env \<Rightarrow> int \<Rightarrow> au_branch \<times> vfs \<Rightarrow> int \<times> au_branch \<times> vfs" where
  "au_wbr_init env perm s =
     (let br = (fst s)\<lparr>br_wbr := Some wbr_zero\<rparr> in
      if e_statfs_err env \<noteq> 0 then (e_statfs_err env, br, snd s)
      else if NAME_MAX \<le> e_namelen env then au_br_init_wh env perm (br, snd s)
      else (- EINVAL, br, snd s))"

text \<open>\<open>au_br_init\<close>: error, branch, the \<open>br_path\<close> it holds, mount.\<close>

definition au_br_init ::
    "br_env \<Rightarrow> opt_add \<Rightarrow> bool \<Rightarrow> bool \<Rightarrow> mount
     \<Rightarrow> (int \<times> au_branch \<times> dptr option \<times> mount) option" where
  "au_br_init env add has_wbr has_fhsm m =
     Option.bind (dents (m_v m) (oa_dentry add)) (\<lambda>x.
     Option.bind (au_new_br_id (m_sbi m)) (\<lambda>(brid, sbi).
     if brid < 0 then None
     else
       let br0 = \<lparr>br_id = brid, br_perm = oa_perm add, br_dflags = True,
                  br_dentry = oa_dentry add, br_sb = e_hsb env (d_hsb x), br_count = 0,
                  br_wbr = (if has_wbr then Some wbr_zero else None), br_fhsm = has_fhsm,
                  br_xino_file = None\<rparr>;
           (err1, br1, v1) = (if au_br_writable (oa_perm add)
                              then au_wbr_init env (oa_perm add) (br0, m_v m) else (0, br0, m_v m));
           m1 = m\<lparr>m_sbi := sbi, m_v := v1\<rparr>
       in if err1 \<noteq> 0 then Some (err1, br1, None, m1)
          else
            Option.bind (if au_opt_test (au_mntflags sbi) AuOpt_XINO
                         then map_option (\<lambda>_. e_xino env) (au_sbr sbi 0)
                         else Some (0, None)) (\<lambda>(err2, xi_file).
            if err2 \<noteq> 0
            then if xi_file \<noteq> None then None else Some (err2, br1, None, m1)
            else map_option (\<lambda>v2. (0, br1\<lparr>br_xino_file := xi_file\<rparr>, Some (oa_dentry add), m1\<lparr>m_v := v2\<rparr>))
                   (get_dentry (oa_dentry add) v1))))"

section \<open>Requests\<close>

text \<open>
  \<open>au_br_add\<close>. The sysfs entries and the attributes copied to the root inode afterwards are
  not part of the model.
\<close>

definition au_br_add :: "kconfig \<Rightarrow> br_env \<Rightarrow> opt_add \<Rightarrow> bool \<Rightarrow> mount \<Rightarrow> (int \<times> mount) option" where
  "au_br_add cfg env add remount m =
     Option.bind (test_add cfg env add remount m) (\<lambda>err.
     if err < 0 then Some (err, m)
     else if err \<noteq> 0 then Some (0, m)
     else
       Option.bind (au_br_alloc cfg env (au_sbend (m_sbi m) + 2) (oa_perm add) m)
         (\<lambda>(err, has_wbr, has_fhsm, m1).
       if err \<noteq> 0 then Some (err, m1)
       else
         Option.bind (au_br_init env add has_wbr has_fhsm m1) (\<lambda>(err, br, path, m2).
         if err \<noteq> 0
         then map_option (\<lambda>v. (err, m2\<lparr>m_v := v\<rparr>)) (au_br_do_free br path (m_v m2))
         else
           map_option (\<lambda>m3.
             (0, if au_xino_brid (m_sbi m3) < 0 \<and> au_br_writable (br_perm br)
                    \<and> \<not> au_test_fs_bad_xino cfg (e_magics env) (br_sb br)
                    \<and> br_xino_file br \<noteq> None \<and> e_xino_parent env = oa_dentry add
                 then m3\<lparr>m_sbi := au_xino_brid_set (m_sbi m3) (br_id br)\<rparr> else m3))
             (au_br_do_add cfg (oa_bindex add) br m2))))"

definition set_branch :: "bindex \<Rightarrow> au_branch \<Rightarrow> mount \<Rightarrow> mount" where
  "set_branch i br m =
     m\<lparr>m_sbi := (m_sbi m)\<lparr>si_branch := (si_branch (m_sbi m))[nat i := Some br]\<rparr>\<rparr>"

text \<open>
  \<open>au_br_del\<close>. When the array for the opened files cannot be allocated, \<open>to_free\<close> is an error
  pointer that the exit path hands to \<open>au_farray_free\<close>, which frees it: a fault.
\<close>

definition au_br_del ::
    "br_env \<Rightarrow> opt_del \<Rightarrow> bool \<Rightarrow> bool \<times> bool \<times> bool \<Rightarrow> mount \<Rightarrow> (int \<times> mount) option" where
  "au_br_del env del remount oks m =
     Option.bind (au_find_dbindex (m_di m) (m_v m) (Some (od_dentry del))) (\<lambda>bindex.
     if bindex < 0 then Some (if remount then 0 else - ENOENT, m)
     else if au_sbend (m_sbi m) = 0 then Some (- EBUSY, m)
     else
       Option.bind (au_sbr (m_sbi m) bindex) (\<lambda>br.
       if br_dentry br \<noteq> od_dentry del then None
       else if br_count br \<noteq> 0 \<and> \<not> e_a_files env then None
       else if br_count br \<noteq> 0 \<and> e_file_busy env \<noteq> 0 then Some (e_file_busy env, m)
       else
         let do_wh = (case br_wbr br of None \<Rightarrow> False
                      | Some w \<Rightarrow> wbr_whbase w \<noteq> None \<or> wbr_plink w \<noteq> None \<or> wbr_orph w \<noteq> None)
         in
         Option.bind (if do_wh then put_all put_dentry (wbr_wh br) (m_v m) else Some (m_v m)) (\<lambda>v1.
         let br1 = (if do_wh
                    then br\<lparr>br_wbr := map_option (\<lambda>w. w\<lparr>wbr_whbase := None, wbr_plink := None,
                             wbr_orph := None\<rparr>) (br_wbr br)\<rparr>
                    else br);
             m1 = set_branch bindex br1 (m\<lparr>m_v := v1\<rparr>)
         in if e_children_busy env \<noteq> 0 then
              if do_wh then
                (let (rerr, br2, v2) = au_br_init_wh env (br_perm br1) (br1, v1)
                 in Some (e_children_busy env, set_branch bindex br2 (m1\<lparr>m_v := v2\<rparr>)))
              else Some (e_children_busy env, m1)
            else
              let br2 = (if br_count br \<noteq> 0 then br1\<lparr>br_count := e_count_after env\<rparr> else br1)
              in map_option (\<lambda>m2.
                   (0, if au_xino_brid (m_sbi m2) = br_id br
                       then m2\<lparr>m_sbi := au_xino_brid_set (m_sbi m2) (- 1)\<rparr> else m2))
                   (au_br_do_del bindex br2 oks (set_branch bindex br2 m1)))))"

definition do_need_sigen_inc :: "int \<Rightarrow> int \<Rightarrow> bool" where
  "do_need_sigen_inc a b = (au_br_whable a \<and> \<not> au_br_whable b)"
definition need_sigen_inc :: "int \<Rightarrow> int \<Rightarrow> bool" where
  "need_sigen_inc old new = (do_need_sigen_inc old new \<or> do_need_sigen_inc new old)"

text \<open>
  The part of \<open>au_br_mod\<close> that changes the whiteouts of a branch: error, branch, store.
\<close>

definition br_mod_wh ::
    "br_env \<Rightarrow> int \<Rightarrow> au_branch \<times> vfs \<Rightarrow> int \<times> au_branch \<times> vfs" where
  "br_mod_wh env perm s =
     (let (br, v) = s in
      if au_br_writable (br_perm br) then
        (let (err, br1, v1) = au_br_init_wh env perm s in
         if err \<noteq> 0 then (err, br1, v1)
         else if \<not> au_br_writable perm \<and> e_files_ro env \<noteq> 0 then
           (let (rerr, br2, v2) = (if e_a_wbr env then au_wbr_init env (br_perm br1) (br1, v1)
                                   else (- ENOMEM, br1\<lparr>br_wbr := None\<rparr>, v1))
            in (e_files_ro env, if rerr \<noteq> 0 then br2\<lparr>br_perm := perm\<rparr> else br2, v2))
         else (0, br1, v1))
      else if au_br_writable perm then
        (if e_a_wbr env then
           (let (err, br1, v1) = au_wbr_init env perm s
            in (err, if err \<noteq> 0 then br1\<lparr>br_wbr := None\<rparr> else br1, v1))
         else (- ENOMEM, br\<lparr>br_wbr := None\<rparr>, v))
      else (0, br, v))"

text \<open>\<open>au_br_mod\<close>: error, the new \<open>*do_refresh\<close>, mount.\<close>

definition au_br_mod ::
    "kconfig \<Rightarrow> br_env \<Rightarrow> opt_mod \<Rightarrow> bool \<Rightarrow> bool \<Rightarrow> mount \<Rightarrow> (int \<times> bool \<times> mount) option" where
  "au_br_mod cfg env req remount do_refresh m =
     Option.bind (au_find_dbindex (m_di m) (m_v m) (Some (om_h_root req))) (\<lambda>bindex.
     if bindex < 0 then Some (if remount then 0 else - ENOENT, do_refresh, m)
     else
       Option.bind (Option.bind (dents (m_v m) (om_h_root req)) (\<lambda>x. Option.bind (d_inode x) (inos (m_v m))))
         (\<lambda>inode.
       if test_br inode (om_perm req) \<noteq> 0
       then Some (test_br inode (om_perm req), do_refresh, m)
       else
         Option.bind (au_sbr (m_sbi m) bindex) (\<lambda>br.
         if om_h_root req \<noteq> br_dentry br then None
         else if br_perm br = om_perm req then Some (0, do_refresh, m)
         else
           let to_fhsm = (\<not> au_br_fhsm cfg (br_perm br) \<and> au_br_fhsm cfg (om_perm req))
           in if to_fhsm \<and> \<not> e_a_fhsm env
              then Some (- ENOMEM, do_refresh, set_branch bindex (br\<lparr>br_fhsm := False\<rparr>) m)
              else
                let br0 = (if to_fhsm then br\<lparr>br_fhsm := False\<rparr> else br);
                    (err, br1, v1) = br_mod_wh env (om_perm req) (br0, m_v m)
                in if err \<noteq> 0
                   then Some (err, do_refresh, set_branch bindex br1 (m\<lparr>m_v := v1\<rparr>))
                   else
                     let br2 = (if au_br_fhsm cfg (br_perm br1)
                                then if au_br_fhsm cfg (om_perm req) then br1 else br1\<lparr>br_fhsm := False\<rparr>
                                else if au_br_fhsm cfg (om_perm req) then br1\<lparr>br_fhsm := True\<rparr> else br1);
                         old_unpin = (and (br_perm br2) AuBrAttr_UNPIN \<noteq> 0);
                         new_unpin = (and (om_perm req) AuBrAttr_UNPIN \<noteq> 0)
                     in
                     map_option (\<lambda>(br3, v2).
                        (0, do_refresh \<or> need_sigen_inc (br_perm br3) (om_perm req),
                         set_branch bindex (br3\<lparr>br_perm := om_perm req\<rparr>) (m\<lparr>m_v := v2\<rparr>)))
                       (if old_unpin \<and> \<not> new_unpin then au_br_dflags_force br2 v1
                        else if \<not> old_unpin \<and> new_unpin
                        then map_option (Pair br2) (au_br_dflags_restore br2 v1)
                        else Some (br2, v1)))))"

section \<open>Busy tests\<close>

text \<open>A node keeps a branch busy if it is not a directory or lives on this branch only.\<close>

definition au_test_ibusy :: "bool option \<Rightarrow> bindex \<Rightarrow> bindex \<Rightarrow> bool" where
  "au_test_ibusy isdir bstart bend = (isdir = Some False \<or> bstart = bend)"

definition au_test_dbusy :: "bool option \<Rightarrow> bindex \<Rightarrow> bindex \<Rightarrow> bool" where
  "au_test_dbusy isdir bstart bend = au_test_ibusy isdir bstart bend"

section \<open>Lemmas\<close>

text \<open>The parts of a mount that users see: which branches, and the root's view of them.\<close>

definition same_tables :: "mount \<Rightarrow> mount \<Rightarrow> bool" where
  "same_tables m m' =
     (si_bend (m_sbi m') = si_bend (m_sbi m) \<and> live_branches (m_sbi m') = live_branches (m_sbi m)
      \<and> di_bend (m_di m') = di_bend (m_di m) \<and> ii_bend (m_ii m') = ii_bend (m_ii m)
      \<and> live_part (di_hdentry (m_di m')) (di_bend (m_di m)) = live_part (di_hdentry (m_di m)) (di_bend (m_di m))
      \<and> live_part (ii_hinode (m_ii m')) (ii_bend (m_ii m)) = live_part (ii_hinode (m_ii m)) (ii_bend (m_ii m)))"

lemma same_tables_refl: "same_tables m m"
  by (simp add: same_tables_def)

lemma same_tables_trans: "same_tables m m' \<Longrightarrow> same_tables m' m'' \<Longrightarrow> same_tables m m''"
  by (simp add: same_tables_def)

lemma kzrealloc_live:
  assumes "au_kzrealloc xs (if e + 1 = 0 then 1 else e + 1) n z ok = Some (Some ys)" and "- 1 \<le> e"
  shows "live_part ys e = live_part xs e"
  using assms
  by (auto simp: au_kzrealloc_def live_part_def min_def split: if_splits)

lemma sbr_realloc_live:
  assumes "au_sbr_realloc sbi n ok = Some (err, sbi')" and "- 1 \<le> si_bend sbi"
  shows "si_bend sbi' = si_bend sbi \<and> live_branches sbi' = live_branches sbi
    \<and> sbi' = sbi\<lparr>si_branch := si_branch sbi'\<rparr> \<and> err \<le> 0"
  using assms kzrealloc_live [of "si_branch sbi" "si_bend sbi" n None ok]
  by (auto simp: au_sbr_realloc_def live_branches_live split: option.splits)

lemma di_realloc_live:
  assumes "au_di_realloc di n ok = Some (err, di')" and "- 1 \<le> di_bend di"
  shows "di_bend di' = di_bend di \<and> err \<le> 0
    \<and> live_part (di_hdentry di') (di_bend di) = live_part (di_hdentry di) (di_bend di)"
  using assms kzrealloc_live [of "di_hdentry di" "di_bend di" n]
  by (auto simp: au_di_realloc_def split: option.splits)

lemma ii_realloc_live:
  assumes "au_ii_realloc ii n ok = Some (err, ii')" and "- 1 \<le> ii_bend ii"
  shows "ii_bend ii' = ii_bend ii \<and> err \<le> 0
    \<and> live_part (ii_hinode ii') (ii_bend ii) = live_part (ii_hinode ii) (ii_bend ii)"
  using assms kzrealloc_live [of "ii_hinode ii" "ii_bend ii" n]
  by (auto simp: au_ii_realloc_def split: option.splits)

lemma bind_SomeE: "Option.bind x f = Some r \<Longrightarrow> (\<And>y. x = Some y \<Longrightarrow> f y = Some r \<Longrightarrow> P) \<Longrightarrow> P"
  by (cases x) simp_all

lemma br_grow_tables_same:
  assumes "br_grow_tables env n m = Some (err, m')"
    and e: "- 1 \<le> si_bend (m_sbi m)" "- 1 \<le> di_bend (m_di m)" "- 1 \<le> ii_bend (m_ii m)"
  shows "same_tables m m' \<and> err \<le> 0"
proof -
  obtain e1 sbi where s1: "au_sbr_realloc (m_sbi m) n (e_a_sbr env) = Some (e1, sbi)"
    using assms(1) by (auto simp: br_grow_tables_def elim: bind_SomeE)
  note s = sbr_realloc_live [OF s1 e(1)]
  show ?thesis
  proof (cases "e1 = 0")
    case False
    then show ?thesis using assms(1) s1 s by (auto simp: br_grow_tables_def same_tables_def Let_def)
  next
    case True
    then obtain e2 di where d1: "au_di_realloc (m_di m) n (e_a_di env) = Some (e2, di)"
      using assms(1) s1 by (auto simp: br_grow_tables_def Let_def elim: bind_SomeE)
    note d = di_realloc_live [OF d1 e(2)]
    show ?thesis
    proof (cases "e2 = 0")
      case False
      then show ?thesis
        using assms(1) s1 s d1 d True by (auto simp: br_grow_tables_def same_tables_def Let_def)
    next
      case e2: True
      then obtain e3 ii where i1: "au_ii_realloc (m_ii m) n (e_a_ii env) = Some (e3, ii)"
        using assms(1) s1 d1 True by (auto simp: br_grow_tables_def Let_def)
      note i = ii_realloc_live [OF i1 e(3)]
      show ?thesis
        using assms(1) s1 s d1 d i1 i True e2
        by (auto simp: br_grow_tables_def same_tables_def Let_def)
    qed
  qed
qed

lemma br_alloc_tables:
  assumes "au_br_alloc cfg env n perm m = Some (err, w, f, m')" and "mount_ok m"
  shows "same_tables m m'"
proof -
  have e: "- 1 \<le> si_bend (m_sbi m)" "- 1 \<le> di_bend (m_di m)" "- 1 \<le> ii_bend (m_ii m)"
    using assms(2) by (simp_all add: mount_ok_def sbi_wf_def)
  show ?thesis
    using assms(1) br_grow_tables_same [OF _ e, of env n]
    by (auto simp: au_br_alloc_def same_tables_refl split: if_splits)
qed

lemma new_br_id_loop_frame:
  "new_br_id_loop n sbi = Some (r, sbi') \<Longrightarrow> sbi' = sbi\<lparr>si_last_br_id := si_last_br_id sbi'\<rparr>"
proof (induction n arbitrary: sbi)
  case (Suc n)
  let ?s = "sbi\<lparr>si_last_br_id := si_last_br_id sbi + 1\<rparr>"
  have "sbi' = ?s \<or> new_br_id_loop n ?s = Some (r, sbi')"
    using Suc.prems by (auto simp: Let_def split: if_splits option.splits)
  then show ?case
  proof
    assume "new_br_id_loop n ?s = Some (r, sbi')"
    from Suc.IH [OF this] show ?case by simp
  qed simp
qed simp

lemma br_init_tables:
  assumes "au_br_init env add w f m = Some (err, br, path, m')"
  shows "same_tables m m'"
proof -
  obtain x brid sbi where x: "dents (m_v m) (oa_dentry add) = Some x"
    and b: "au_new_br_id (m_sbi m) = Some (brid, sbi)"
    using assms by (auto simp: au_br_init_def elim!: bind_SomeE)
  have "sbi = (m_sbi m)\<lparr>si_last_br_id := si_last_br_id sbi\<rparr>"
    using new_br_id_loop_frame b by (simp add: au_new_br_id_def)
  then have t: "si_bend sbi = si_bend (m_sbi m)" "live_branches sbi = live_branches (m_sbi m)"
    by (metis au_sbinfo.select_convs(3) au_sbinfo.surjective au_sbinfo.update_convs(4),
        metis last_br_id_frame(1))
  have "m_sbi m' = sbi \<and> m_di m' = m_di m \<and> m_ii m' = m_ii m"
    using assms x b
    by (auto simp: au_br_init_def Let_def elim!: bind_SomeE split: if_splits prod.splits)
  then show ?thesis using t by (simp add: same_tables_def)
qed

section \<open>Properties\<close>

text \<open>
  C12: a request to add a branch that fails, at whatever step (the tests, any allocation, the
  whiteouts, the xino file), leaves the stack of branches and the root's view of it as they
  were.
\<close>

theorem au_br_add_error_keeps_tables:
  assumes "mount_ok m" and "au_br_add cfg env add remount m = Some (err, m')" and "err \<noteq> 0"
  shows "same_tables m m'"
proof -
  obtain t where t: "test_add cfg env add remount m = Some t"
    using assms(2) by (auto simp: au_br_add_def elim: bind_SomeE)
  show ?thesis
  proof (cases "t = 0")
    case False
    then have "m' = m" using assms(2,3) t by (auto simp: au_br_add_def split: if_splits)
    then show ?thesis by (simp add: same_tables_refl)
  next
    case True
    then obtain e1 w f m1 where a: "au_br_alloc cfg env (au_sbend (m_sbi m) + 2) (oa_perm add) m
        = Some (e1, w, f, m1)"
      using assms(2) t by (auto simp: au_br_add_def elim!: bind_SomeE)
    have s1: "same_tables m m1" by (rule br_alloc_tables [OF a assms(1)])
    show ?thesis
    proof (cases "e1 = 0")
      case False
      then show ?thesis using assms(2) t True a s1 by (simp add: au_br_add_def)
    next
      case e1: True
      then obtain e2 br path m2 where b: "au_br_init env add w f m1 = Some (e2, br, path, m2)"
        using assms(2) t True a by (auto simp: au_br_add_def elim!: bind_SomeE)
      have "e2 \<noteq> 0" using assms(2,3) t True a e1 b by (auto simp: au_br_add_def)
      then have "\<exists>v. m' = m2\<lparr>m_v := v\<rparr>"
        using assms(2) t True a e1 b by (auto simp: au_br_add_def)
      then have "same_tables m2 m'" by (auto simp: same_tables_def)
      then show ?thesis using s1 br_init_tables [OF b] same_tables_trans by blast
    qed
  qed
qed

text \<open>An environment in which everything works and the lower file systems are ext4-like.\<close>

definition h_ext4 :: h_super where
  "h_ext4 = \<lparr>s_magic = 0xEF53, s_type_name = ''ext4'', s_rdonly = False, s_requires_dev = True\<rparr>"

definition example_env :: br_env where
  "example_env =
     \<lparr>e_a_br = True, e_a_wbr = True, e_a_fhsm = True, e_a_sbr = True, e_a_di = True, e_a_ii = True,
      e_a_files = True, e_hnotify_err = 0, e_sb = 0, e_hsb = (\<lambda>_. h_ext4),
      e_loopback = (\<lambda>_. False), e_subdir = (\<lambda>_ _. False), e_magics = linux_magics,
      e_want_write = 0, e_statfs_err = 0, e_namelen = 255,
      e_wh_init = (\<lambda>_ v. (0, wbr_zero, v)), e_xino = (0, None), e_xino_parent = 0,
      e_file_busy = 0, e_children_busy = 0, e_count_after = 0, e_files_ro = 0\<rparr>"

theorem au_br_add_error_keeps_tables_witness:
  "\<exists>m'. au_br_add full_config example_env
      \<lparr>oa_bindex = 3, oa_pathname = ''/b'', oa_perm = 1, oa_dentry = 103\<rparr> True example_mount
      = Some (- EDOM, m') \<and> same_tables example_mount m'"
proof -
  have "au_find_dbindex (m_di example_mount) (m_v example_mount) (Some 103) = Some (- 1)"
    by (simp add: au_find_dbindex_def au_dbstart_def au_dbend_def au_h_dptr_def example_mount_def
        arr_get_def example_vfs_def first_up.simps)
  then have "au_br_add full_config example_env
      \<lparr>oa_bindex = 3, oa_pathname = ''/b'', oa_perm = 1, oa_dentry = 103\<rparr> True example_mount
      = Some (- EDOM, example_mount)"
    by (simp add: au_br_add_def test_add_def au_sbend_def Let_def AUFS_BRANCH_MAX_def)
      (simp add: example_mount_def)
  then show ?thesis using au_br_add_error_keeps_tables [OF example_mount_ok] by fastforce
qed

text \<open>
  A branch has its \<open>au_wbr\<close> exactly when it is writable, and its \<open>au_br_fhsm\<close> exactly when it
  has the attribute; the code dereferences them on these tests.
\<close>

definition br_wf :: "kconfig \<Rightarrow> au_branch \<Rightarrow> bool" where
  "br_wf cfg br =
     ((br_wbr br \<noteq> None \<longleftrightarrow> au_br_writable (br_perm br))
      \<and> (br_fhsm br \<longleftrightarrow> au_br_fhsm cfg (br_perm br)))"

lemma br_init_wh_wbr:
  assumes "au_br_init_wh env perm (br, v) = (0, br', v')" and "br_wbr br \<noteq> None"
  shows "br_perm br' = br_perm br \<and> br_fhsm br' = br_fhsm br \<and> br_dentry br' = br_dentry br
    \<and> (br_wbr br' \<noteq> None \<longleftrightarrow> au_br_writable perm)"
  using assms by (auto simp: au_br_init_wh_def Let_def split: prod.splits if_splits)

lemma br_mod_wh_wbr:
  assumes "br_mod_wh env perm (br, v) = (0, br', v')"
    and wf: "br_wbr br \<noteq> None \<longleftrightarrow> au_br_writable (br_perm br)"
  shows "br_perm br' = br_perm br \<and> br_fhsm br' = br_fhsm br \<and> br_dentry br' = br_dentry br
    \<and> (br_wbr br' \<noteq> None \<longleftrightarrow> au_br_writable perm)"
proof (cases "au_br_writable (br_perm br)")
  case True
  obtain err br1 v1 where i: "au_br_init_wh env perm (br, v) = (err, br1, v1)"
    by (cases "au_br_init_wh env perm (br, v)") auto
  then have "err = 0 \<and> br' = br1"
    using assms(1) True by (auto simp: br_mod_wh_def split: if_splits prod.splits)
  then show ?thesis using br_init_wh_wbr i wf True by blast
next
  case False
  then show ?thesis
    using assms br_init_wh_wbr [of env perm "br\<lparr>br_wbr := Some wbr_zero\<rparr>" v]
    by (auto simp: br_mod_wh_def au_wbr_init_def Let_def split: if_splits prod.splits)
qed

lemma set_branch_sbr:
  assumes "au_sbr (m_sbi m) i = Some br0" and "0 \<le> i"
  shows "au_sbr (m_sbi (set_branch i br m)) i = Some br"
    and "j \<noteq> i \<Longrightarrow> au_sbr (m_sbi (set_branch i br m)) j = au_sbr (m_sbi m) j"
  using assms by (auto simp: set_branch_def au_sbr_def arr_get_def bind_eq_Some_conv split: if_splits)

lemma set_branch_frame [simp]:
  "set_branch i br (m\<lparr>m_v := v\<rparr>) = (set_branch i br m)\<lparr>m_v := v\<rparr>"
  by (simp add: set_branch_def)

lemma br_mod_dflags:
  assumes "(if a \<and> \<not> b then au_br_dflags_force br v
      else if \<not> a \<and> b then map_option (Pair br) (au_br_dflags_restore br v)
      else Some (br, v)) = Some (br', v')"
  shows "br' = br\<lparr>br_dflags := br_dflags br'\<rparr>"
  using assms by (auto simp: au_br_dflags_force_def split: if_splits option.splits)

text \<open>
  C13: a successful change of a branch's permission installs the new permission on this branch
  only, gives and takes \<open>au_wbr\<close> and \<open>au_br_fhsm\<close> with it, and asks for a refresh of the
  dentries exactly when the branch starts or stops being able to hold whiteouts.
\<close>

theorem au_br_mod_wf:
  assumes run: "au_br_mod cfg env req remount r m = Some (0, r', m')"
    and find: "au_find_dbindex (m_di m) (m_v m) (Some (om_h_root req)) = Some i" "0 \<le> i"
    and br: "au_sbr (m_sbi m) i = Some br" and wf: "br_wf cfg br"
  shows "\<exists>br'. au_sbr (m_sbi m') i = Some br' \<and> br_perm br' = om_perm req \<and> br_wf cfg br'
    \<and> (r' \<longleftrightarrow> r \<or> au_br_whable (br_perm br) \<noteq> au_br_whable (om_perm req))
    \<and> (\<forall>j. j \<noteq> i \<longrightarrow> au_sbr (m_sbi m') j = au_sbr (m_sbi m) j)"
proof (cases "br_perm br = om_perm req")
  case True
  then have "m' = m \<and> r' = r"
    using run find br by (auto simp: au_br_mod_def test_br_def elim!: bind_SomeE split: if_splits)
  then show ?thesis using br wf True by auto
next
  case False
  let ?to = "\<not> au_br_fhsm cfg (br_perm br) \<and> au_br_fhsm cfg (om_perm req)"
  let ?br0 = "if ?to then br\<lparr>br_fhsm := False\<rparr> else br"
  obtain err br1 v1 where w: "br_mod_wh env (om_perm req) (?br0, m_v m) = (err, br1, v1)"
    by (metis prod_cases3)
  obtain br2 br3 v2 where b2: "br2 = (if au_br_fhsm cfg (br_perm br1)
        then if au_br_fhsm cfg (om_perm req) then br1 else br1\<lparr>br_fhsm := False\<rparr>
        else if au_br_fhsm cfg (om_perm req) then br1\<lparr>br_fhsm := True\<rparr> else br1)"
    and e0: "err = 0"
    and b3: "(if and (br_perm br2) AuBrAttr_UNPIN \<noteq> 0 \<and> \<not> and (om_perm req) AuBrAttr_UNPIN \<noteq> 0
        then au_br_dflags_force br2 v1
        else if \<not> and (br_perm br2) AuBrAttr_UNPIN \<noteq> 0 \<and> and (om_perm req) AuBrAttr_UNPIN \<noteq> 0
        then map_option (Pair br2) (au_br_dflags_restore br2 v1) else Some (br2, v1)) = Some (br3, v2)"
    and m': "m' = set_branch i (br3\<lparr>br_perm := om_perm req\<rparr>) (m\<lparr>m_v := v2\<rparr>)"
    and r': "r' = (r \<or> need_sigen_inc (br_perm br3) (om_perm req))"
    using run find br False w
    by (auto simp: au_br_mod_def test_br_def Let_def simp del: set_branch_frame
        elim!: bind_SomeE split: if_splits)
  have b1: "br_perm br1 = br_perm br \<and> br_fhsm br1 = (\<not> ?to \<and> br_fhsm br)
      \<and> (br_wbr br1 \<noteq> None \<longleftrightarrow> au_br_writable (om_perm req))"
    using br_mod_wh_wbr [OF w [unfolded e0]] wf by (auto simp: br_wf_def)
  have d: "br3 = br2\<lparr>br_dflags := br_dflags br3\<rparr>" by (rule br_mod_dflags [OF b3])
  have f: "br_perm br3 = br_perm br2" "br_fhsm br3 = br_fhsm br2" "br_wbr br3 = br_wbr br2"
    by (subst d, simp)+
  have "br_wf cfg (br3\<lparr>br_perm := om_perm req\<rparr>)"
    using b1 b2 f wf by (auto simp: br_wf_def)
  moreover have "r' \<longleftrightarrow> r \<or> au_br_whable (br_perm br) \<noteq> au_br_whable (om_perm req)"
    using r' f(1) b2 b1 by (auto simp: need_sigen_inc_def do_need_sigen_inc_def)
  ultimately show ?thesis
    using m' set_branch_sbr [OF br find(2)] by simp
qed

lemma example_find:
  "au_find_dbindex (m_di example_mount) (m_v example_mount) (Some 100) = Some 0"
  "au_find_dbindex (m_di example_mount) (m_v example_mount) (Some 102) = Some 1"
  by (simp_all add: au_find_dbindex_def au_dbstart_def au_dbend_def au_h_dptr_def example_mount_def
      arr_get_def example_vfs_def first_up.simps)

lemma example_sbr:
  "au_sbr (m_sbi example_mount) 0 = Some (example_branch 1 1 100)"
  "au_sbr (m_sbi example_mount) 1 = Some (example_branch 127 2 102)"
  by (simp_all add: example_mount_def au_sbr_def arr_get_def)

lemma example_nodes:
  "dents (m_v example_mount) 102 = Some \<lparr>d_count = 3, d_inode = Some 3, d_mounted = False, d_hsb = 3\<rparr>"
  "inos (m_v example_mount) 3 = Some \<lparr>i_count = 1, i_nlink = 0, i_ino = 33, i_generation = 9,
     i_fmt = 16384, i_rdonly = False, i_hsb = 3\<rparr>"
  by (simp_all add: example_mount_def example_vfs_def)

theorem au_br_mod_wf_witness:
  "\<exists>m'. au_br_mod full_config example_env
      \<lparr>om_path = ''/b'', om_perm = 4098, om_h_root = 102\<rparr> True False example_mount
      = Some (0, True, m')
    \<and> (\<exists>br'. au_sbr (m_sbi m') 1 = Some br' \<and> br_perm br' = 4098 \<and> br_wf full_config br')"
proof -
  let ?q = "\<lparr>om_path = ''/b'', om_perm = 4098, om_h_root = 102\<rparr>"
  have wf: "br_wf full_config (example_branch 127 2 102)"
    by (simp add: br_wf_def example_branch_def au_br_writable_def au_br_fhsm_def br_flag_defs)
  have "\<exists>m'. au_br_mod full_config example_env ?q True False example_mount = Some (0, True, m')"
    by (simp add: au_br_mod_def example_find example_sbr example_nodes test_br_def Let_def
        example_branch_def br_mod_wh_def au_br_writable_def au_br_fhsm_def br_flag_defs
        need_sigen_inc_def do_need_sigen_inc_def au_br_whable_def)
  then show ?thesis
    using au_br_mod_wf [where cfg = full_config and env = example_env and req = ?q
        and remount = True and r = False and r' = True and m = example_mount and i = 1,
        OF _ _ _ example_sbr(2) wf]
    by (fastforce simp: example_find)
qed

text \<open>
  when a writable branch cannot become readonly because its files cannot be flushed, and
  the \<open>au_wbr\<close> that was already freed cannot be allocated again, \<open>au_br_mod\<close> returns the
  error but leaves the branch with the new permission. If that has the attribute fhsm, the
  branch claims to be under FHSM while its \<open>br_fhsm\<close> is NULL.
\<close>

theorem au_br_mod_nested_error:
  assumes "au_find_dbindex (m_di m) (m_v m) (Some (om_h_root req)) = Some i" and "0 \<le> i"
    and "au_sbr (m_sbi m) i = Some br" and "om_h_root req = br_dentry br"
    and "dents (m_v m) (om_h_root req) = Some x" and "d_inode x = Some p"
    and "inos (m_v m) p = Some y"
    and "au_br_writable (br_perm br)" and "\<not> au_br_writable (om_perm req)"
    and "\<not> au_br_fhsm cfg (br_perm br)" and "au_br_fhsm cfg (om_perm req)"
    and "e_a_fhsm env" and "e_want_write env = 0" and "\<And>b v. fst (e_wh_init env b v) = 0"
    and "e_files_ro env \<noteq> 0" and "\<not> e_a_wbr env"
  shows "\<exists>m' br'. au_br_mod cfg env req remount r m = Some (e_files_ro env, r, m')
    \<and> au_sbr (m_sbi m') i = Some br' \<and> br_perm br' = om_perm req \<and> \<not> br_fhsm br'
    \<and> \<not> br_wf cfg br'"
proof -
  have ne: "br_perm br \<noteq> om_perm req" using assms(8,9) by metis
  have w: "\<exists>v1. br_mod_wh env (om_perm req) (br\<lparr>br_fhsm := False\<rparr>, m_v m)
      = (e_files_ro env, br\<lparr>br_fhsm := False, br_wbr := None, br_perm := om_perm req\<rparr>, v1)"
  proof -
    obtain w v1 where "e_wh_init env (br\<lparr>br_fhsm := False, br_perm := om_perm req\<rparr>) (m_v m) = (0, w, v1)"
      using assms(14) by (metis prod.exhaust_sel)
    then show ?thesis
      using assms(8,9,13,15,16) by (simp add: br_mod_wh_def au_br_init_wh_def Let_def)
  qed
  then obtain v1 where w: "br_mod_wh env (om_perm req) (br\<lparr>br_fhsm := False\<rparr>, m_v m)
      = (e_files_ro env, br\<lparr>br_fhsm := False, br_wbr := None, br_perm := om_perm req\<rparr>, v1)" by blast
  let ?br = "br\<lparr>br_fhsm := False, br_wbr := None, br_perm := om_perm req\<rparr>"
  have "au_br_mod cfg env req remount r m
      = Some (e_files_ro env, r, set_branch i ?br (m\<lparr>m_v := v1\<rparr>))"
    using assms(1-12,15) ne w by (simp add: au_br_mod_def test_br_def Let_def)
  moreover have "\<not> br_wf cfg ?br" using assms(11) by (simp add: br_wf_def)
  ultimately show ?thesis using set_branch_sbr(1) [OF assms(3,2), of ?br] by auto
qed

theorem au_br_mod_nested_error_witness:
  "\<exists>m' br'. au_br_mod full_config (example_env\<lparr>e_files_ro := - EBUSY, e_a_wbr := False\<rparr>)
      \<lparr>om_path = ''/a'', om_perm = 34, om_h_root = 100\<rparr> True False example_mount
      = Some (- EBUSY, False, m')
    \<and> au_sbr (m_sbi m') 0 = Some br' \<and> br_perm br' = 34 \<and> \<not> br_fhsm br' \<and> \<not> br_wf full_config br'"
  using au_br_mod_nested_error [where i = 0 and br = "example_branch 1 1 100" and m = example_mount
      and cfg = full_config and env = "example_env\<lparr>e_files_ro := - EBUSY, e_a_wbr := False\<rparr>"
      and req = "\<lparr>om_path = ''/a'', om_perm = 34, om_h_root = 100\<rparr>" and p = 1
      and x = "\<lparr>d_count = 2, d_inode = Some 1, d_mounted = False, d_hsb = 1\<rparr>"
      and y = "\<lparr>i_count = 2, i_nlink = 1, i_ino = 11, i_generation = 7, i_fmt = 16384,
                i_rdonly = False, i_hsb = 1\<rparr>" and r = False and remount = True]
  by (simp add: example_find example_sbr example_branch_def au_br_writable_def au_br_fhsm_def
      br_flag_defs full_config_def kconfig_of_def example_env_def)
    (simp add: example_mount_def example_vfs_def)

end
