(* ===== verification/Dcsub.thy ===== *)
theory Dcsub
  imports Aufs_Prelude "HOL-Library.Multiset"
begin

text \<open>
  Collecting dentries (\<open>dcsub.c\<close>). \<open>struct au_dcsub_pages\<close> is an array of pages and each page
  an array of \<open>PAGE_SIZE / sizeof(void * )\<close> pointers: here a list of lists of dentries. The
  model follows the path from a dentry to the root, which \<open>rename_lock\<close> freezes, as the list
  of its ancestors. An allocation answers from the oracle; a page that could not be
  allocated after the array had grown leaves \<open>ndpage\<close> as it was, so it is not visible.

  Each dentry in the pages carries a reference, so a path dentry is given with its count
  (\<open>d_count\<close>) and the result of the caller's test.
\<close>

section \<open>Pages\<close>

type_synonym 'd dpages = "'d list list"

text \<open>\<open>PAGE_SIZE / sizeof(dentry)\<close> on 32-bit ARM.\<close>

definition dpage_sz :: nat where
  "dpage_sz = 4096 div 4"

definition au_dpages_init :: "mem_oracle \<Rightarrow> int \<times> 'd dpages \<times> mem_oracle" where
  "au_dpages_init mem =
     (let (ok1, mem1) = take_alloc mem
      in if \<not> ok1 then (- ENOMEM, [], mem1)
         else let (ok2, mem2) = take_alloc mem1
              in if \<not> ok2 then (- ENOMEM, [], mem2) else (0, [[]], mem2))"

text \<open>\<open>au_dpages_free\<close>: the dentries that are put, in the order of the code.\<close>

definition au_dpages_free :: "'d dpages \<Rightarrow> 'd list" where
  "au_dpages_free pages = concat pages"

text \<open>The last page; there is always one between \<open>au_dpages_init\<close> and \<open>au_dpages_free\<close>.\<close>

definition au_dpages_append ::
    "'d dpages \<Rightarrow> 'd \<Rightarrow> mem_oracle \<Rightarrow> (int \<times> 'd dpages \<times> mem_oracle) option" where
  "au_dpages_append pages d mem =
     (if pages = [] then None
      else if dpage_sz \<le> length (last pages)
      then let (ok1, mem1) = take_alloc mem
           in if \<not> ok1 then Some (- ENOMEM, pages, mem1)
              else let (ok2, mem2) = take_alloc mem1
                   in if \<not> ok2 then Some (- ENOMEM, pages, mem2)
                      else Some (0, pages @ [[d]], mem2)
      else Some (0, butlast pages @ [last pages @ [d]], mem))"

section \<open>The way to the root\<close>

text \<open>\<open>d_count\<close> is the count of the dentry, \<open>test\<close> the caller's filter (\<open>au_dpages_test\<close>).\<close>

definition dcsub_visit ::
    "('d \<Rightarrow> int) \<Rightarrow> ('d \<Rightarrow> bool) \<Rightarrow> 'd dpages \<Rightarrow> 'd \<Rightarrow> mem_oracle
     \<Rightarrow> (int \<times> 'd dpages \<times> mem_oracle) option" where
  "dcsub_visit cnt test pages d mem =
     (if cnt d \<noteq> 0 \<and> test d then au_dpages_append pages d mem else Some (0, pages, mem))"

text \<open>The loop \<open>while (!IS_ROOT(dentry))\<close> over the ancestors, nearest first, root last.\<close>

fun dcsub_rev_loop ::
    "('d \<Rightarrow> int) \<Rightarrow> ('d \<Rightarrow> bool) \<Rightarrow> 'd dpages \<Rightarrow> 'd list \<Rightarrow> mem_oracle
     \<Rightarrow> (int \<times> 'd dpages \<times> mem_oracle) option" where
  "dcsub_rev_loop cnt test pages [] mem = Some (0, pages, mem)"
| "dcsub_rev_loop cnt test pages (d # ds) mem =
     Option.bind (dcsub_visit cnt test pages d mem) (\<lambda>(err, pages', mem').
     if err \<noteq> 0 then Some (err, pages', mem') else dcsub_rev_loop cnt test pages' ds mem')"

definition au_dcsub_pages_rev ::
    "('d \<Rightarrow> int) \<Rightarrow> ('d \<Rightarrow> bool) \<Rightarrow> 'd dpages \<Rightarrow> 'd \<Rightarrow> 'd list \<Rightarrow> bool \<Rightarrow> mem_oracle
     \<Rightarrow> (int \<times> 'd dpages \<times> mem_oracle) option" where
  "au_dcsub_pages_rev cnt test pages d ancestors do_include mem =
     Option.bind (if do_include then dcsub_visit cnt test pages d mem else Some (0, pages, mem))
       (\<lambda>(err, pages', mem').
     if err \<noteq> 0 then Some (err, pages', mem')
     else dcsub_rev_loop cnt test pages' ancestors mem')"

text \<open>\<open>au_dcsub_dpages_aufs\<close>: the dentry has private data and is on the same superblock.\<close>

definition au_dcsub_pages_rev_aufs ::
    "('d \<Rightarrow> int) \<Rightarrow> ('d \<Rightarrow> bool) \<Rightarrow> ('d \<Rightarrow> nat) \<Rightarrow> 'd dpages \<Rightarrow> 'd \<Rightarrow> 'd list \<Rightarrow> bool \<Rightarrow> mem_oracle
     \<Rightarrow> (int \<times> 'd dpages \<times> mem_oracle) option" where
  "au_dcsub_pages_rev_aufs cnt has_di sb_of pages d ancestors do_include mem =
     au_dcsub_pages_rev cnt (\<lambda>x. has_di x \<and> sb_of x = sb_of d) pages d ancestors do_include mem"

section \<open>The whole subtree\<close>

text \<open>A dentry with its \<open>d_subdirs\<close>.\<close>

datatype 'd dtree = DNode (dnode: 'd) (subdirs: "'d dtree list")

text \<open>
  The walk of \<open>au_dcsub_pages\<close>. At the label \<open>resume\<close> the current directory is looked at,
  on the way down and again each time the walk comes back from a child that has children;
  the conditions on a directory (\<open>par\<close>) and on a leaf (\<open>leaf\<close>) differ in \<open>IS_ROOT\<close>.
\<close>

definition dcsub_add ::
    "bool \<Rightarrow> 'd \<Rightarrow> 'd dpages \<times> mem_oracle \<Rightarrow> (int \<times> 'd dpages \<times> mem_oracle) option" where
  "dcsub_add c d s = (if c then au_dpages_append (fst s) d (snd s) else Some (0, s))"

fun dcsub_walk ::
    "('d \<Rightarrow> int) \<Rightarrow> ('d \<Rightarrow> bool) \<Rightarrow> ('d \<Rightarrow> bool) \<Rightarrow> 'd dtree \<Rightarrow> 'd dpages \<times> mem_oracle
     \<Rightarrow> (int \<times> 'd dpages \<times> mem_oracle) option"
  and dcsub_children ::
    "('d \<Rightarrow> int) \<Rightarrow> ('d \<Rightarrow> bool) \<Rightarrow> ('d \<Rightarrow> bool) \<Rightarrow> 'd \<Rightarrow> 'd dtree list \<Rightarrow> 'd dpages \<times> mem_oracle
     \<Rightarrow> (int \<times> 'd dpages \<times> mem_oracle) option" where
  "dcsub_walk cnt par leaf (DNode d cs) s =
     Option.bind (dcsub_add (par d) d s) (\<lambda>(err, s1).
     if err \<noteq> 0 then Some (err, s1) else dcsub_children cnt par leaf d cs s1)"
| "dcsub_children cnt par leaf d [] s = Some (0, s)"
| "dcsub_children cnt par leaf d (c # cs) s =
     (if cnt (dnode c) = 0 then dcsub_children cnt par leaf d cs s
      else if subdirs c \<noteq> []
      then Option.bind (dcsub_walk cnt par leaf c s) (\<lambda>(err, s1).
           if err \<noteq> 0 then Some (err, s1)
           else Option.bind (dcsub_add (par d) d s1) (\<lambda>(err, s2).
                if err \<noteq> 0 then Some (err, s2) else dcsub_children cnt par leaf d cs s2))
      else Option.bind (dcsub_add (leaf (dnode c)) (dnode c) s) (\<lambda>(err, s1).
           if err \<noteq> 0 then Some (err, s1) else dcsub_children cnt par leaf d cs s1))"

definition au_dcsub_pages ::
    "('d \<Rightarrow> int) \<Rightarrow> ('d \<Rightarrow> bool) \<Rightarrow> ('d \<Rightarrow> nat) \<Rightarrow> ('d \<Rightarrow> bool) \<Rightarrow> ('d \<Rightarrow> bool)
     \<Rightarrow> 'd dpages \<times> mem_oracle \<Rightarrow> 'd dtree \<Rightarrow> (int \<times> 'd dpages \<times> mem_oracle) option" where
  "au_dcsub_pages cnt has_di sb_of is_root test s root =
     (let sb = sb_of (dnode root)
      in dcsub_walk cnt
           (\<lambda>d. sb_of d = sb \<and> \<not> is_root d \<and> has_di d \<and> cnt d \<noteq> 0 \<and> test d)
           (\<lambda>d. sb_of d = sb \<and> has_di d \<and> test d) root s)"

section \<open>The shape of the pages\<close>

text \<open>Every page but the last is full, no page overflows.\<close>

definition dpages_wf :: "'d dpages \<Rightarrow> bool" where
  "dpages_wf pages \<longleftrightarrow> pages \<noteq> [] \<and> length (last pages) \<le> dpage_sz
     \<and> (\<forall>p \<in> set (butlast pages). length p = dpage_sz)"

definition dcsub_wanted :: "('d \<Rightarrow> int) \<Rightarrow> ('d \<Rightarrow> bool) \<Rightarrow> 'd list \<Rightarrow> 'd list" where
  "dcsub_wanted cnt test ds = filter (\<lambda>d. cnt d \<noteq> 0 \<and> test d) ds"

lemma dcsub_wanted_simps [simp]:
  "dcsub_wanted cnt test [] = []"
  "dcsub_wanted cnt test (d # ds) =
     (if cnt d \<noteq> 0 \<and> test d then d # dcsub_wanted cnt test ds else dcsub_wanted cnt test ds)"
  by (simp_all add: dcsub_wanted_def)

text \<open>
  What every step of the collection does: on success the pages got \<open>ds\<close>, on failure a part of
  it; it fails only if the allocator does.
\<close>

definition collects ::
    "(int \<times> 'd dpages \<times> mem_oracle) option \<Rightarrow> 'd dpages \<times> mem_oracle \<Rightarrow> 'd list \<Rightarrow> bool" where
  "collects r s ds \<longleftrightarrow> (\<exists>err pages' k n. r = Some (err, pages', drop k (snd s))
     \<and> dpages_wf pages' \<and> concat pages' = concat (fst s) @ take n ds
     \<and> (err = 0 \<and> n = length ds \<or> err = - ENOMEM \<and> n < length ds)
     \<and> k \<le> 2 * length ds
     \<and> (list_all id (snd s) \<and> 2 * length ds \<le> length (snd s) \<longrightarrow> err = 0))"

lemma collects_nil: "dpages_wf (fst s) \<Longrightarrow> collects (Some (0, s)) s []"
  unfolding collects_def
  by (intro exI [of _ "0::int"] exI [of _ "fst s"] exI [of _ "0::nat"]) simp

lemma collects_append:
  assumes "dpages_wf pages"
  shows "collects (au_dpages_append pages d mem) (pages, mem) [d]"
proof -
  have ne: "pages \<noteq> []" and len: "length (last pages) \<le> dpage_sz"
    and full: "\<forall>p \<in> set (butlast pages). length p = dpage_sz"
    using assms by (auto simp: dpages_wf_def)
  show ?thesis
  proof (cases "dpage_sz \<le> length (last pages)")
    case True
    have "p \<in> set (butlast pages) \<or> p = last pages" if "p \<in> set pages" for p
      using that ne by (metis append_butlast_last_id in_set_conv_decomp_last last_snoc butlast_snoc
          Un_iff set_append set_ConsD empty_iff list.set(1))
    then have all: "\<forall>p \<in> set pages. length p = dpage_sz" using full True len by force
    have wf: "dpages_wf (pages @ [[d]])" using all by (simp add: dpages_wf_def dpage_sz_def)
    obtain ok1 mem1 where 1: "take_alloc mem = (ok1, mem1)" by force
    obtain ok2 mem2 where 2: "take_alloc mem1 = (ok2, mem2)" by force
    note d = take_alloc_drop [OF 1] take_alloc_drop [OF 2]
    have ok: "ok1 \<and> ok2" if "list_all id mem" "2 \<le> length mem"
      using that 1 2 by (cases mem; cases "tl mem") auto
    have run: "au_dpages_append pages d mem =
        (if \<not> ok1 then Some (- ENOMEM, pages, drop 1 mem)
         else if \<not> ok2 then Some (- ENOMEM, pages, drop 2 mem)
         else Some (0, pages @ [[d]], drop 2 mem))"
      using ne True 1 2 d by (simp add: au_dpages_append_def Let_def numeral_2_eq_2 drop_Suc)
    consider "\<not> ok1" | "ok1" "\<not> ok2" | "ok1" "ok2" by blast
    then show ?thesis
    proof cases
      case 1
      then show ?thesis unfolding collects_def run using assms ok
        by (intro exI [of _ "- 12::int"] exI [of _ pages] exI [of _ 1] exI [of _ "0::nat"]) auto
    next
      case 2
      then show ?thesis unfolding collects_def run using assms ok
        by (intro exI [of _ "- 12::int"] exI [of _ pages] exI [of _ 2] exI [of _ "0::nat"]) auto
    next
      case 3
      then show ?thesis unfolding collects_def run using wf
        by (intro exI [of _ "0::int"] exI [of _ "pages @ [[d]]"] exI [of _ 2] exI [of _ "1::nat"]) auto
    qed
  next
    case False
    let ?p = "butlast pages @ [last pages @ [d]]"
    have "concat ?p = concat pages @ [d]"
      using ne append_butlast_last_id [of pages]
      by (metis append.assoc concat.simps concat_append append_Nil2)
    moreover have "dpages_wf ?p" using full False by (simp add: dpages_wf_def)
    ultimately show ?thesis using ne False unfolding collects_def
      by (intro exI [of _ "0::int"] exI [of _ ?p] exI [of _ "0::nat"] exI [of _ "1::nat"])
        (simp add: au_dpages_append_def)
  qed
qed

lemma collects_bind:
  assumes r: "collects r s ds"
    and f: "\<And>s'. dpages_wf (fst s') \<Longrightarrow> collects (f s') s' es"
  shows "collects (Option.bind r (\<lambda>(err, s'). if err \<noteq> 0 then Some (err, s') else f s')) s (ds @ es)"
proof -
  obtain err p k n where 1: "r = Some (err, p, drop k (snd s))" "dpages_wf p"
    "concat p = concat (fst s) @ take n ds"
    "err = 0 \<and> n = length ds \<or> err = - ENOMEM \<and> n < length ds"
    "k \<le> 2 * length ds" "list_all id (snd s) \<and> 2 * length ds \<le> length (snd s) \<longrightarrow> err = 0"
    using r unfolding collects_def by blast
  show ?thesis
  proof (cases "err = 0")
    case False
    then show ?thesis using 1 unfolding collects_def
      by (intro exI [of _ err] exI [of _ p] exI [of _ k] exI [of _ n]) auto
  next
    case True
    obtain err2 p2 k2 n2 where 2: "f (p, drop k (snd s)) = Some (err2, p2, drop k2 (drop k (snd s)))"
      "dpages_wf p2" "concat p2 = concat p @ take n2 es"
      "err2 = 0 \<and> n2 = length es \<or> err2 = - ENOMEM \<and> n2 < length es"
      "k2 \<le> 2 * length es"
      "list_all id (drop k (snd s)) \<and> 2 * length es \<le> length (drop k (snd s)) \<longrightarrow> err2 = 0"
      using f [of "(p, drop k (snd s))"] 1(2) unfolding collects_def by auto
    have n: "n = length ds" using 1(4) True by simp
    have "list_all id (drop k (snd s))" if "list_all id (snd s)"
      using that set_drop_subset [of k "snd s"] by (auto simp: list_all_iff)
    then show ?thesis using 1 2 True n unfolding collects_def
      by (intro exI [of _ err2] exI [of _ p2] exI [of _ "k2 + k"] exI [of _ "n + n2"])
        (auto simp: add.commute)
  qed
qed

lemma err_case:
  "(\<lambda>(err, p, mem). if err \<noteq> 0 then Some (err, p, mem) else f p mem) =
   (\<lambda>(err, s'). if err \<noteq> 0 then Some (err, s') else f (fst s') (snd s'))"
  by (simp add: fun_eq_iff)

lemma collects_visit:
  assumes "dpages_wf pages"
  shows "collects (dcsub_visit cnt test pages d mem) (pages, mem) (dcsub_wanted cnt test [d])"
  using collects_append [OF assms, of d mem] collects_nil [of "(pages, mem)"] assms
  by (simp add: dcsub_visit_def)

lemma collects_rev_loop:
  assumes "dpages_wf (fst s)"
  shows "collects (dcsub_rev_loop cnt test (fst s) ds (snd s)) s (dcsub_wanted cnt test ds)"
  using assms
proof (induction ds arbitrary: s)
  case Nil
  then show ?case using collects_nil [of s] by simp
next
  case (Cons d ds)
  have "collects (dcsub_visit cnt test (fst s) d (snd s)) s (dcsub_wanted cnt test [d])"
    using collects_visit [OF Cons.prems, of cnt test d "snd s"] by simp
  from collects_bind [OF this Cons.IH]
  have "collects (dcsub_rev_loop cnt test (fst s) (d # ds) (snd s)) s
      (dcsub_wanted cnt test [d] @ dcsub_wanted cnt test ds)"
    unfolding dcsub_rev_loop.simps err_case .
  moreover have "dcsub_wanted cnt test [d] @ dcsub_wanted cnt test ds = dcsub_wanted cnt test (d # ds)"
    by (simp add: dcsub_wanted_def)
  ultimately show ?case by metis
qed

lemma collects_rev:
  assumes "dpages_wf pages"
  shows "collects (au_dcsub_pages_rev cnt test pages d ancestors incl mem) (pages, mem)
    (dcsub_wanted cnt test (if incl then d # ancestors else ancestors))"
proof -
  let ?first = "if incl then dcsub_visit cnt test pages d mem else Some (0, pages, mem)"
  have "collects ?first (pages, mem) (if incl then dcsub_wanted cnt test [d] else [])"
    using collects_visit [OF assms, of cnt test d mem] collects_nil [of "(pages, mem)"] assms
    by (simp del: dcsub_wanted_simps)
  from collects_bind [OF this collects_rev_loop [of _ cnt test ancestors]]
  have "collects (au_dcsub_pages_rev cnt test pages d ancestors incl mem) (pages, mem)
      ((if incl then dcsub_wanted cnt test [d] else []) @ dcsub_wanted cnt test ancestors)"
    unfolding au_dcsub_pages_rev_def err_case .
  moreover have "(if incl then dcsub_wanted cnt test [d] else []) @ dcsub_wanted cnt test ancestors
      = dcsub_wanted cnt test (if incl then d # ancestors else ancestors)"
    by (simp add: dcsub_wanted_def)
  ultimately show ?thesis by metis
qed

section \<open>The subtree walk against its visits\<close>

text \<open>
  The dentries looked at: each one reached through counted dentries once, and a directory
  once more for each counted child that is not a leaf.
\<close>

fun dcsub_visits :: "('d \<Rightarrow> int) \<Rightarrow> 'd dtree \<Rightarrow> 'd list" where
  "dcsub_visits cnt (DNode d cs) =
     d # concat (map (\<lambda>c. if cnt (dnode c) = 0 then []
                         else (if subdirs c \<noteq> [] then [d] else []) @ dcsub_visits cnt c) cs)"

text \<open>The dentries in the order of the walk.\<close>

fun walk_order :: "('d \<Rightarrow> int) \<Rightarrow> ('d \<Rightarrow> bool) \<Rightarrow> ('d \<Rightarrow> bool) \<Rightarrow> 'd dtree \<Rightarrow> 'd list"
  and child_order :: "('d \<Rightarrow> int) \<Rightarrow> ('d \<Rightarrow> bool) \<Rightarrow> ('d \<Rightarrow> bool) \<Rightarrow> 'd \<Rightarrow> 'd dtree list \<Rightarrow> 'd list" where
  "walk_order cnt par leaf (DNode d cs) = filter par [d] @ child_order cnt par leaf d cs"
| "child_order cnt par leaf d [] = []"
| "child_order cnt par leaf d (c # cs) =
     (if cnt (dnode c) = 0 then []
      else if subdirs c \<noteq> [] then walk_order cnt par leaf c @ filter par [d]
      else filter leaf [dnode c]) @ child_order cnt par leaf d cs"

lemma collects_add: "dpages_wf (fst s) \<Longrightarrow> collects (dcsub_add (q d) d s) s (filter q [d])"
  using collects_append [of "fst s" d "snd s"] collects_nil [of s] by (simp add: dcsub_add_def)

lemma collects_children:
  assumes "\<And>c s'. c \<in> set cs \<Longrightarrow> dpages_wf (fst s') \<Longrightarrow>
      collects (dcsub_walk cnt par leaf c s') s' (walk_order cnt par leaf c)"
  shows "dpages_wf (fst s) \<Longrightarrow>
    collects (dcsub_children cnt par leaf d cs s) s (child_order cnt par leaf d cs)"
  using assms
proof (induction cs arbitrary: s)
  case Nil
  then show ?case by (simp add: collects_nil)
next
  case (Cons c cs)
  have rest: "collects (dcsub_children cnt par leaf d cs s') s' (child_order cnt par leaf d cs)"
    if "dpages_wf (fst s')" for s' using that Cons.IH [OF that Cons.prems(2)] by simp
  have walk: "collects (dcsub_walk cnt par leaf c s) s (walk_order cnt par leaf c)"
    using Cons.prems by simp
  note up = collects_bind [OF collects_add [where q = par and d = d] rest]
  show ?case
    using Cons.prems(1) rest collects_bind [OF walk up]
      collects_bind [OF collects_add [where q = leaf and d = "dnode c"] rest, of s]
    by simp
qed

lemma collects_walk:
  "dpages_wf (fst s) \<Longrightarrow> collects (dcsub_walk cnt par leaf t s) s (walk_order cnt par leaf t)"
proof (induction t arbitrary: s)
  case (DNode d cs)
  from collects_bind [OF collects_add [where q = par and d = d, OF DNode.prems]
      collects_children [OF DNode.IH]]
  show ?case by simp
qed

lemma child_order_visits:
  assumes "\<And>c. c \<in> set cs \<Longrightarrow> cnt (dnode c) \<noteq> 0 \<Longrightarrow>
      mset (walk_order cnt par leaf c) = filter_mset q (mset (dcsub_visits cnt c))"
    and "\<And>c. c \<in> set cs \<Longrightarrow> cnt (dnode c) \<noteq> 0 \<Longrightarrow> subdirs c = [] \<Longrightarrow>
      leaf (dnode c) = q (dnode c)"
    and "par d = q d"
  shows "mset (child_order cnt par leaf d cs) = filter_mset q (mset (concat
    (map (\<lambda>c. if cnt (dnode c) = 0 then []
              else (if subdirs c \<noteq> [] then [d] else []) @ dcsub_visits cnt c) cs)))"
  using assms
proof (induction cs)
  case Nil
  then show ?case by simp
next
  case (Cons c cs)
  have ih: "mset (child_order cnt par leaf d cs) = filter_mset q (mset (concat
      (map (\<lambda>c. if cnt (dnode c) = 0 then []
              else (if subdirs c \<noteq> [] then [d] else []) @ dcsub_visits cnt c) cs)))"
    by (rule Cons.IH) (use Cons.prems in auto)
  have sub: "cnt (dnode c) \<noteq> 0 \<Longrightarrow>
      mset (walk_order cnt par leaf c) = filter_mset q (mset (dcsub_visits cnt c))"
    using Cons.prems(1) [of c] by simp
  have leaf: "dcsub_visits cnt c = [dnode c]" if "subdirs c = []"
    using that by (cases c) simp
  show ?case
    using ih sub leaf Cons.prems(2) [of c] Cons.prems(3) by simp
qed

lemma walk_order_visits:
  assumes "par (dnode t) = q (dnode t)"
    and "\<forall>c \<in> set (subdirs t). \<forall>d \<in> set_dtree c. cnt d \<noteq> 0 \<longrightarrow> par d = q d \<and> leaf d = q d"
  shows "mset (walk_order cnt par leaf t) = filter_mset q (mset (dcsub_visits cnt t))"
  using assms
proof (induction t)
  case (DNode d cs)
  have top: "dnode c \<in> set_dtree c" for c :: "'a dtree" by (cases c) simp
  have sub: "set_dtree c' \<subseteq> set_dtree c" if "c' \<in> set (subdirs c)" for c c' :: "'a dtree"
    using that by (cases c) auto
  have "mset (child_order cnt par leaf d cs) = filter_mset q (mset (concat
      (map (\<lambda>c. if cnt (dnode c) = 0 then []
              else (if subdirs c \<noteq> [] then [d] else []) @ dcsub_visits cnt c) cs)))"
  proof (rule child_order_visits)
    fix c assume c: "c \<in> set cs" "cnt (dnode c) \<noteq> 0"
    have all: "\<forall>d \<in> set_dtree c. cnt d \<noteq> 0 \<longrightarrow> par d = q d \<and> leaf d = q d"
      using DNode.prems(2) c(1) by simp
    then have "\<forall>c' \<in> set (subdirs c). \<forall>d \<in> set_dtree c'. cnt d \<noteq> 0 \<longrightarrow> par d = q d \<and> leaf d = q d"
      using sub by blast
    then show "mset (walk_order cnt par leaf c) = filter_mset q (mset (dcsub_visits cnt c))"
      using c all top [of c] by (intro DNode.IH) auto
  qed (use DNode.prems top in auto)
  then show ?case using DNode.prems by simp
qed

section \<open>Properties\<close>

text \<open>
  \<open>au_dcsub_pages_rev\<close> collects exactly the counted ancestors that pass the test, in the
  order of the path and across any number of pages; when an allocation fails it has collected
  a part of them, no page is overrun, and it fails only then.
\<close>

theorem au_dcsub_pages_rev_spec:
  assumes "dpages_wf pages"
  shows "\<exists>err pages' mem' n.
    au_dcsub_pages_rev cnt test pages d ancestors incl mem = Some (err, pages', mem')
    \<and> dpages_wf pages'
    \<and> concat pages' = concat pages
        @ take n (dcsub_wanted cnt test (if incl then d # ancestors else ancestors))
    \<and> (err = 0 \<and> n = length (dcsub_wanted cnt test (if incl then d # ancestors else ancestors))
       \<or> err = - ENOMEM)
    \<and> (list_all id mem \<and> 2 * (length ancestors + 1) \<le> length mem \<longrightarrow> err = 0)"
proof -
  have "length (dcsub_wanted cnt test (if incl then d # ancestors else ancestors)) \<le> length ancestors + 1"
    unfolding dcsub_wanted_def
    by (rule order_trans [OF length_filter_le]) simp
  then show ?thesis
    using collects_rev [OF assms, of cnt test d ancestors incl mem] unfolding collects_def by fastforce
qed

theorem au_dcsub_pages_rev_spec_witness:
  "\<exists>err pages' mem' n.
    au_dcsub_pages_rev (\<lambda>_. 1) (\<lambda>d. d \<noteq> 2) [[]] 1 [2, 3, 4 :: nat] False (replicate 8 True)
      = Some (err, pages', mem') \<and> dpages_wf pages' \<and> concat pages' = take n [3, 4] \<and> err = 0"
proof -
  have wf: "dpages_wf [[] :: nat list]" by (simp add: dpages_wf_def)
  have want: "dcsub_wanted (\<lambda>_. 1) (\<lambda>d. d \<noteq> 2) [2, 3, 4 :: nat] = [3, 4]" by simp
  obtain err pages' mem' n where r:
    "au_dcsub_pages_rev (\<lambda>_. 1) (\<lambda>d. d \<noteq> 2) [[]] 1 [2, 3, 4 :: nat] False (replicate 8 True)
       = Some (err, pages', mem')" "dpages_wf pages'"
    "concat pages' = concat [[]] @ take n (dcsub_wanted (\<lambda>_. 1) (\<lambda>d. d \<noteq> 2) [2, 3, 4 :: nat])"
    "list_all id (replicate 8 True) \<and> 2 * (length [2, 3, 4 :: nat] + 1) \<le> length (replicate 8 True)
       \<longrightarrow> err = 0"
    using au_dcsub_pages_rev_spec [OF wf, of "\<lambda>_. 1" "\<lambda>d. d \<noteq> 2" 1 "[2, 3, 4]" False
        "replicate 8 True"] unfolding if_False by blast
  have "err = 0" using r(4) by (simp add: list_all_iff)
  then show ?thesis using r(1-3) unfolding want by auto
qed

text \<open>
  \<open>au_dcsub_pages\<close> visits every dentry of the subtree that is reached through counted
  dentries, but looks at a directory again each time it comes back from a child that has
  children: on success the pages hold such a directory that many times more than once.
\<close>

theorem au_dcsub_pages_repeats:
  assumes "dpages_wf (fst s)" and "\<forall>c \<in> set (subdirs root). \<forall>d \<in> set_dtree c. \<not> is_root d"
    and "cnt (dnode root) \<noteq> 0"
  shows "\<exists>err pages' mem'.
    au_dcsub_pages cnt has_di sb_of is_root test s root = Some (err, pages', mem')
    \<and> dpages_wf pages'
    \<and> (err = 0 \<longrightarrow> mset (concat pages') = mset (concat (fst s))
         + filter_mset (\<lambda>d. sb_of d = sb_of (dnode root) \<and> \<not> is_root d \<and> has_di d \<and> test d)
             (mset (dcsub_visits cnt root)))
    \<and> (err = 0 \<or> err = - ENOMEM)"
proof -
  let ?par = "\<lambda>d. sb_of d = sb_of (dnode root) \<and> \<not> is_root d \<and> has_di d \<and> cnt d \<noteq> 0 \<and> test d"
  let ?leaf = "\<lambda>d. sb_of d = sb_of (dnode root) \<and> has_di d \<and> test d"
  let ?q = "\<lambda>d. sb_of d = sb_of (dnode root) \<and> \<not> is_root d \<and> has_di d \<and> test d"
  have "mset (walk_order cnt ?par ?leaf root) = filter_mset ?q (mset (dcsub_visits cnt root))"
    by (rule walk_order_visits) (use assms(2,3) in auto)
  then show ?thesis
    using collects_walk [OF assms(1), of cnt ?par ?leaf root]
    unfolding collects_def au_dcsub_pages_def Let_def by auto
qed

theorem au_dcsub_pages_repeats_witness:
  "\<exists>err pages' mem'.
    au_dcsub_pages (\<lambda>_. 1) (\<lambda>_. True) (\<lambda>_. 0) (\<lambda>d. d = 0) (\<lambda>_. True) ([[]], [])
      (DNode 0 [DNode (1 :: nat) [DNode 2 [DNode 3 []]]]) = Some (err, pages', mem')
    \<and> dpages_wf pages' \<and> err = 0 \<and> mset (concat pages') = {#1, 1, 2, 3#}"
proof -
  have wf: "dpages_wf (fst ([[] :: nat list], []))" by (simp add: dpages_wf_def)
  have run: "\<exists>p m. au_dcsub_pages (\<lambda>_. 1) (\<lambda>_. True) (\<lambda>_. 0) (\<lambda>d. d = 0) (\<lambda>_. True) ([[]], [])
      (DNode 0 [DNode (1 :: nat) [DNode 2 [DNode 3 []]]]) = Some (0, p, m)"
    by (simp add: au_dcsub_pages_def dcsub_add_def au_dpages_append_def dpage_sz_def)
  show ?thesis
    using run au_dcsub_pages_repeats [OF wf, of "DNode 0 [DNode 1 [DNode 2 [DNode 3 []]]]"
        "\<lambda>d. d = 0" "\<lambda>_. 1" "\<lambda>_. True" "\<lambda>_. 0" "\<lambda>_. True"] by force
qed

end
