(* ===== verification/Wbr_Policy.thy ===== *)
theory Wbr_Policy
  imports Iinfo Dcsub
begin

text \<open>
  The policies that select one among several writable branches (\<open>wbr_policy.c\<close>), their
  option (\<open>au_opt_wbr_create\<close> of \<open>opts.c\<close>) and their user, the choice in \<open>au_wr_dir\<close>
  (\<open>i_op.c\<close>). A policy reads the dentry, its parent and the ancestors of the parent, and it
  updates the superblock information: the round-robin counter, the most-free-space record
  and the free space of each branch. One call sees one value of \<open>jiffies\<close> and one answer of
  \<open>statfs\<close> per branch.
\<close>

section \<open>What a policy reads\<close>

record path_dentry =
  pd_count :: int
  pd_sb :: nat
  pd_di :: "au_dinfo option"

record wbr_dentry =
  wd_di :: au_dinfo
  wd_parent :: au_dinfo
  wd_v :: vfs
  wd_sb :: nat
  wd_anc :: "path_dentry list"

text \<open>\<open>vfs_statfs\<close> answers \<open>f_bavail\<close> and \<open>f_bsize\<close>, or an error.\<close>

record wbr_env =
  we_jiffies :: u32
  we_statfs :: "bindex \<Rightarrow> (u64 \<times> u64) option"

type_synonym wstate = "au_sbinfo \<times> mem_oracle"

definition AuWbr_DIR :: int where "AuWbr_DIR = 1"
definition AuWbr_PARENT :: int where "AuWbr_PARENT = 2"
definition au_ftest_wbr :: "int \<Rightarrow> int \<Rightarrow> bool" where
  "au_ftest_wbr flags f = (and flags f \<noteq> 0)"

definition AuWbrCreate_TDP :: int where "AuWbrCreate_TDP = 0"
definition AuWbrCreate_RR :: int where "AuWbrCreate_RR = 1"
definition AuWbrCreate_MFS :: int where "AuWbrCreate_MFS = 2"
definition AuWbrCreate_MFSV :: int where "AuWbrCreate_MFSV = 3"
definition AuWbrCreate_MFSRR :: int where "AuWbrCreate_MFSRR = 4"
definition AuWbrCreate_MFSRRV :: int where "AuWbrCreate_MFSRRV = 5"
definition AuWbrCreate_PMFS :: int where "AuWbrCreate_PMFS = 6"
definition AuWbrCreate_PMFSV :: int where "AuWbrCreate_PMFSV = 7"
definition AuWbrCreate_PMFSRR :: int where "AuWbrCreate_PMFSRR = 8"
definition AuWbrCreate_PMFSRRV :: int where "AuWbrCreate_PMFSRRV = 9"
definition AuWbrCopyup_TDP :: int where "AuWbrCopyup_TDP = 0"
definition AuWbrCopyup_BUP :: int where "AuWbrCopyup_BUP = 1"
definition AuWbrCopyup_BU :: int where "AuWbrCopyup_BU = 2"

lemmas wbr_id_defs =
  AuWbrCreate_TDP_def AuWbrCreate_RR_def AuWbrCreate_MFS_def AuWbrCreate_MFSV_def
  AuWbrCreate_MFSRR_def AuWbrCreate_MFSRRV_def AuWbrCreate_PMFS_def AuWbrCreate_PMFSV_def
  AuWbrCreate_PMFSRR_def AuWbrCreate_PMFSRRV_def AuWbrCopyup_TDP_def AuWbrCopyup_BUP_def
  AuWbrCopyup_BU_def

section \<open>Opaque ancestors and the bottom-up search\<close>

text \<open>The two loops of \<open>au_wbr_nonopq\<close> over the collected dentries.\<close>

fun nonopq_loop :: "path_dentry list \<Rightarrow> int \<Rightarrow> int option" where
  "nonopq_loop [] err = Some err"
| "nonopq_loop (d # ds) err =
     Option.bind (pd_di d) (\<lambda>di.
     let bopq = au_dbdiropq di
     in nonopq_loop ds (if 0 \<le> bopq \<and> bopq < err then bopq else err))"

definition au_wbr_nonopq :: "wbr_dentry \<Rightarrow> bindex \<Rightarrow> mem_oracle \<Rightarrow> (int \<times> mem_oracle) option" where
  "au_wbr_nonopq w bindex mem =
     (let (err, pages, mem1) = au_dpages_init mem;
          parent = \<lparr>pd_count = 1, pd_sb = wd_sb w, pd_di = Some (wd_parent w)\<rparr>
      in if err \<noteq> 0 then Some (err, mem1)
         else
           Option.bind (au_dcsub_pages_rev_aufs pd_count (\<lambda>d. pd_di d \<noteq> None) pd_sb pages parent
               (wd_anc w) False mem1) (\<lambda>(err, pages, mem2).
           if err \<noteq> 0 then Some (err, mem2)
           else map_option (\<lambda>r. (r, mem2)) (nonopq_loop (concat pages) bindex)))"

definition br_rw :: "au_sbinfo \<Rightarrow> bindex \<Rightarrow> bool option" where
  "br_rw sbi b = map_option (\<lambda>br. \<not> au_br_rdonly br) (au_sbr sbi b)"

definition au_wbr_bu :: "au_sbinfo \<Rightarrow> bindex \<Rightarrow> int option" where
  "au_wbr_bu sbi bindex =
     map_option (\<lambda>r. case r of Some b \<Rightarrow> b | None \<Rightarrow> - EROFS) (first_down (br_rw sbi) bindex 0)"

text \<open>Whether the parent has a positive lower dentry at an index.\<close>

definition h_parent_positive :: "wbr_dentry \<Rightarrow> bindex \<Rightarrow> bool option" where
  "h_parent_positive w b =
     Option.bind (au_h_dptr (wd_parent w) (wd_v w) b) (\<lambda>h.
     case h of None \<Rightarrow> Some False | Some d \<Rightarrow> map_option (\<lambda>x. d_inode x \<noteq> None) (dents (wd_v w) d))"

definition parent_rw :: "wbr_dentry \<Rightarrow> au_sbinfo \<Rightarrow> bindex \<Rightarrow> bool option" where
  "parent_rw w sbi b =
     Option.bind (h_parent_positive w b) (\<lambda>p. if p then br_rw sbi b else Some False)"

section \<open>Create policies\<close>

text \<open>The check of an opaque ancestor that follows each choice.\<close>

definition then_nonopq :: "wbr_dentry \<Rightarrow> int \<Rightarrow> wstate \<Rightarrow> (int \<times> wstate) option" where
  "then_nonopq w err s =
     (if 0 \<le> err
      then map_option (\<lambda>(err, mem). (err, fst s, mem)) (au_wbr_nonopq w err (snd s))
      else Some (err, s))"

definition au_wbr_create_tdp ::
    "wbr_dentry \<Rightarrow> wbr_env \<Rightarrow> int \<Rightarrow> wstate \<Rightarrow> (int \<times> wstate) option" where
  "au_wbr_create_tdp w env flags s =
     (let bstart = au_dbstart (wd_di w) in
      Option.bind (br_rw (fst s) bstart) (\<lambda>rw.
      if rw then Some (bstart, s)
      else
        Option.bind (first_up (parent_rw w (fst s)) (au_dbstart (wd_parent w)) (bstart - 1)) (\<lambda>r.
        case r of
          Some b \<Rightarrow> Some (b, s)
        | None \<Rightarrow>
            Option.bind (au_wbr_bu (fst s) (bstart - 1)) (\<lambda>err. then_nonopq w err s))))"

definition au_wbr_create_exp :: "wbr_dentry \<Rightarrow> wstate \<Rightarrow> (int \<times> wstate) option" where
  "au_wbr_create_exp w s =
     (let bwh = au_dbwh (wd_di w);
          bdiropq = au_dbdiropq (wd_parent w);
          err = (if 0 \<le> bwh then (if 0 \<le> bdiropq then min bdiropq bwh else bwh)
                 else if 0 \<le> bdiropq then bdiropq else - 1)
      in Option.bind (then_nonopq w err s) (\<lambda>(err, s).
         if 0 \<le> err then map_option (\<lambda>rw. (if rw then err else - 1, s)) (br_rw (fst s) err)
         else Some (err, s)))"

definition au_wbr_create_init_rr :: "au_sbinfo \<Rightarrow> (int \<times> au_sbinfo) option" where
  "au_wbr_create_init_rr sbi =
     map_option (\<lambda>err. (err, sbi\<lparr>si_wbr_rr_next := of_int (- err)\<rparr>)) (au_wbr_bu sbi (au_sbend sbi))"

text \<open>
  The value one turn of the loop looks at: \<open>atomic_dec_return(next) + 1\<close> is the old value,
  taken again if it is zero; for a directory the counter is only read.
\<close>

definition rr_draw :: "int \<Rightarrow> au_sbinfo \<Rightarrow> u32 \<times> au_sbinfo" where
  "rr_draw flags sbi =
     (let next = si_wbr_rr_next sbi in
      if \<not> au_ftest_wbr flags AuWbr_DIR
      then if next = 0 then (next - 1, sbi\<lparr>si_wbr_rr_next := next - 1 - 1\<rparr>)
           else (next, sbi\<lparr>si_wbr_rr_next := next - 1\<rparr>)
      else (next, sbi))"

fun rr_loop :: "nat \<Rightarrow> int \<Rightarrow> int \<Rightarrow> int \<Rightarrow> au_sbinfo \<Rightarrow> (int \<times> au_sbinfo) option" where
  "rr_loop 0 flags nbr err sbi = Some (err, sbi)"
| "rr_loop (Suc n) flags nbr err sbi =
     (let (u, sbi') = rr_draw flags sbi;
          err' = uint (u mod of_int nbr)
      in Option.bind (br_rw sbi' err') (\<lambda>rw.
         if rw then Some (err', sbi') else rr_loop n flags nbr (- EROFS) sbi'))"

definition au_wbr_create_rr ::
    "wbr_dentry \<Rightarrow> wbr_env \<Rightarrow> int \<Rightarrow> wstate \<Rightarrow> (int \<times> wstate) option" where
  "au_wbr_create_rr w env flags s =
     Option.bind (au_wbr_create_exp w s) (\<lambda>(err, s).
     if 0 \<le> err then Some (err, s)
     else
       let nbr = au_sbend (fst s) + 1 in
       Option.bind (rr_loop (nat nbr) flags nbr err (fst s)) (\<lambda>(err, sbi).
       then_nonopq w err (sbi, snd s)))"

text \<open>One turn of \<open>au_mfs\<close>; \<open>bavail\<close> is the most free space so far.\<close>

definition set_wbr_bytes :: "bindex \<Rightarrow> u64 \<Rightarrow> au_sbinfo \<Rightarrow> au_sbinfo option" where
  "set_wbr_bytes b bytes sbi =
     Option.bind (au_sbr sbi b) (\<lambda>br.
     map_option (\<lambda>wbr. sbi\<lparr>si_branch :=
         (si_branch sbi)[nat b := Some (br\<lparr>br_wbr := Some (wbr\<lparr>wbr_bytes := bytes\<rparr>)\<rparr>)]\<rparr>)
       (br_wbr br))"

definition mfs_step ::
    "wbr_dentry \<Rightarrow> wbr_env \<Rightarrow> bool \<Rightarrow> bindex \<Rightarrow> au_sbinfo \<times> u64 \<Rightarrow> (au_sbinfo \<times> u64) option" where
  "mfs_step w env use_parent b st =
     Option.bind (if use_parent then h_parent_positive w b else Some True) (\<lambda>p.
     if \<not> p then Some st
     else
       Option.bind (br_rw (fst st) b) (\<lambda>rw.
       if \<not> rw then Some st
       else case we_statfs env b of
              None \<Rightarrow> Some st
            | Some (f_bavail, f_bsize) \<Rightarrow>
                let bytes = f_bavail * f_bsize in
                map_option (\<lambda>sbi.
                    if snd st \<le> bytes
                    then (sbi\<lparr>si_wbr_mfs := (si_wbr_mfs sbi)\<lparr>mfs_bindex := b,
                             mfs_jiffy := we_jiffies env\<rparr>\<rparr>, bytes)
                    else (sbi, snd st))
                  (set_wbr_bytes b bytes (fst st))))"

definition au_mfs :: "wbr_dentry \<Rightarrow> wbr_env \<Rightarrow> bool \<Rightarrow> wstate \<Rightarrow> wstate option" where
  "au_mfs w env use_parent s =
     (let (ok, mem) = take_alloc (snd s);
          sbi = fst s;
          sbi1 = sbi\<lparr>si_wbr_mfs := (si_wbr_mfs sbi)\<lparr>mfs_bindex := - EROFS, mfsrr_bytes := 0\<rparr>\<rparr>;
          bindex = (if use_parent then au_dbstart (wd_parent w) else 0);
          bend = (if use_parent then au_dbtaildir (wd_parent w) else au_sbend sbi)
      in if \<not> ok then Some (sbi, mem)
         else
           map_option (\<lambda>(sbi2, bavail).
               (sbi2\<lparr>si_wbr_mfs := (si_wbr_mfs sbi2)\<lparr>mfsrr_bytes := bavail\<rparr>\<rparr>, mem))
             (loop_up (mfs_step w env use_parent) bindex bend (sbi1, 0)))"

text \<open>The condition under which \<open>au_wbr_create_mfs\<close> measures again.\<close>

definition mfs_stale :: "wbr_env \<Rightarrow> au_sbinfo \<Rightarrow> bool option" where
  "mfs_stale env sbi =
     (let mfs = si_wbr_mfs sbi in
      if time_after (we_jiffies env) (mfs_jiffy mfs + mfs_expire mfs) \<or> mfs_bindex mfs < 0
      then Some True else map_option Not (br_rw sbi (mfs_bindex mfs)))"

definition au_wbr_create_mfs ::
    "wbr_dentry \<Rightarrow> wbr_env \<Rightarrow> int \<Rightarrow> wstate \<Rightarrow> (int \<times> wstate) option" where
  "au_wbr_create_mfs w env flags s =
     Option.bind (au_wbr_create_exp w s) (\<lambda>(err, s).
     if 0 \<le> err then Some (err, s)
     else
       Option.bind (mfs_stale env (fst s)) (\<lambda>stale.
       Option.bind (if stale then au_mfs w env (au_ftest_wbr flags AuWbr_PARENT) s else Some s) (\<lambda>s.
       then_nonopq w (mfs_bindex (si_wbr_mfs (fst s))) s)))"

definition au_wbr_create_init_mfs :: "au_sbinfo \<Rightarrow> (int \<times> au_sbinfo) option" where
  "au_wbr_create_init_mfs sbi =
     Some (0, sbi\<lparr>si_wbr_mfs := (si_wbr_mfs sbi)\<lparr>mfs_jiffy := 0, mfs_bindex := - EROFS\<rparr>\<rparr>)"

definition au_wbr_create_fin_mfs :: "au_sbinfo \<Rightarrow> int" where
  "au_wbr_create_fin_mfs sbi = 0"

definition au_wbr_create_mfsrr ::
    "wbr_dentry \<Rightarrow> wbr_env \<Rightarrow> int \<Rightarrow> wstate \<Rightarrow> (int \<times> wstate) option" where
  "au_wbr_create_mfsrr w env flags s =
     Option.bind (au_wbr_create_mfs w env flags s) (\<lambda>(err, s).
     if 0 \<le> err \<and> mfsrr_bytes (si_wbr_mfs (fst s)) < mfsrr_watermark (si_wbr_mfs (fst s))
     then au_wbr_create_rr w env flags s
     else Some (err, s))"

definition au_wbr_create_init_mfsrr :: "au_sbinfo \<Rightarrow> (int \<times> au_sbinfo) option" where
  "au_wbr_create_init_mfsrr sbi =
     Option.bind (au_wbr_create_init_mfs sbi) (\<lambda>(_, sbi). au_wbr_create_init_rr sbi)"

definition br_bytes :: "au_sbinfo \<Rightarrow> bindex \<Rightarrow> u64 option" where
  "br_bytes sbi b =
     Option.bind (au_sbr sbi b) (\<lambda>br. map_option wbr_bytes (br_wbr br))"

text \<open>One turn of the loop of \<open>au_wbr_create_pmfs\<close> over the state \<open>(b, err)\<close>.\<close>

definition pmfs_step ::
    "wbr_dentry \<Rightarrow> au_sbinfo \<Rightarrow> bindex \<Rightarrow> u64 \<times> int \<Rightarrow> (u64 \<times> int) option" where
  "pmfs_step w sbi bindex st =
     Option.bind (parent_rw w sbi bindex) (\<lambda>use.
     if \<not> use then Some st
     else map_option (\<lambda>bytes. if fst st < bytes then (bytes, bindex) else st) (br_bytes sbi bindex))"

definition au_wbr_create_pmfs ::
    "wbr_dentry \<Rightarrow> wbr_env \<Rightarrow> int \<Rightarrow> wstate \<Rightarrow> (int \<times> wstate) option" where
  "au_wbr_create_pmfs w env flags s =
     Option.bind (au_wbr_create_tdp w env flags s) (\<lambda>(err, s).
     let bstart = au_dbstart (wd_parent w); bend = au_dbtaildir (wd_parent w) in
     if err < 0 \<or> bstart = bend then Some (err, s)
     else
       Option.bind (au_wbr_create_mfs w env flags s) (\<lambda>(e2, s).
       if e2 < 0 then Some (err, s)
       else
         Option.bind (br_bytes (fst s) err) (\<lambda>b.
         Option.bind (loop_up (pmfs_step w (fst s)) bstart bend (b, err)) (\<lambda>(_, err).
         then_nonopq w err s))))"

definition au_wbr_create_pmfsrr ::
    "wbr_dentry \<Rightarrow> wbr_env \<Rightarrow> int \<Rightarrow> wstate \<Rightarrow> (int \<times> wstate) option" where
  "au_wbr_create_pmfsrr w env flags s =
     Option.bind (au_wbr_create_pmfs w env (or flags AuWbr_PARENT) s) (\<lambda>(err, s).
     if err < 0 then Some (err, s)
     else
       Option.bind (br_bytes (fst s) err) (\<lambda>bytes.
       if bytes < mfsrr_watermark (si_wbr_mfs (fst s)) then au_wbr_create_mfsrr w env flags s
       else Some (err, s)))"

section \<open>Copy-up policies\<close>

definition au_wbr_copyup_tdp :: "wbr_dentry \<Rightarrow> wbr_env \<Rightarrow> wstate \<Rightarrow> (int \<times> wstate) option" where
  "au_wbr_copyup_tdp w env s = au_wbr_create_tdp w env 0 s"

definition au_wbr_copyup_bup :: "wbr_dentry \<Rightarrow> wbr_env \<Rightarrow> wstate \<Rightarrow> (int \<times> wstate) option" where
  "au_wbr_copyup_bup w env s =
     (let bstart = au_dbstart (wd_parent w) in
      Option.bind (first_down (parent_rw w (fst s)) (au_dbstart (wd_di w)) bstart) (\<lambda>r.
      case r of
        Some b \<Rightarrow> Some (b, s)
      | None \<Rightarrow> map_option (\<lambda>err. (err, s)) (au_wbr_bu (fst s) (bstart - 1))))"

definition au_wbr_do_copyup_bu ::
    "wbr_dentry \<Rightarrow> bindex \<Rightarrow> wstate \<Rightarrow> (int \<times> wstate) option" where
  "au_wbr_do_copyup_bu w bstart s =
     Option.bind (au_wbr_bu (fst s) bstart) (\<lambda>err.
     if bstart < err
     then map_option (\<lambda>(err, mem). (err, fst s, mem)) (au_wbr_nonopq w err (snd s))
     else Some (err, s))"

definition au_wbr_copyup_bu :: "wbr_dentry \<Rightarrow> wbr_env \<Rightarrow> wstate \<Rightarrow> (int \<times> wstate) option" where
  "au_wbr_copyup_bu w env s = au_wbr_do_copyup_bu w (au_dbstart (wd_di w)) s"

section \<open>The tables of operations and the option\<close>

definition au_wbr_copyup_ops ::
    "int \<Rightarrow> (wbr_dentry \<Rightarrow> wbr_env \<Rightarrow> wstate \<Rightarrow> (int \<times> wstate) option) option" where
  "au_wbr_copyup_ops i =
     (if i = AuWbrCopyup_TDP then Some au_wbr_copyup_tdp
      else if i = AuWbrCopyup_BUP then Some au_wbr_copyup_bup
      else if i = AuWbrCopyup_BU then Some au_wbr_copyup_bu
      else None)"

record au_wbr_create_operations =
  wo_create :: "wbr_dentry \<Rightarrow> wbr_env \<Rightarrow> int \<Rightarrow> wstate \<Rightarrow> (int \<times> wstate) option"
  wo_init :: "(au_sbinfo \<Rightarrow> (int \<times> au_sbinfo) option) option"
  wo_fin :: "(au_sbinfo \<Rightarrow> int) option"

definition au_wbr_create_ops :: "int \<Rightarrow> au_wbr_create_operations option" where
  "au_wbr_create_ops i =
     (if i = AuWbrCreate_TDP
      then Some \<lparr>wo_create = au_wbr_create_tdp, wo_init = None, wo_fin = None\<rparr>
      else if i = AuWbrCreate_RR
      then Some \<lparr>wo_create = au_wbr_create_rr, wo_init = Some au_wbr_create_init_rr, wo_fin = None\<rparr>
      else if i = AuWbrCreate_MFS \<or> i = AuWbrCreate_MFSV
      then Some \<lparr>wo_create = au_wbr_create_mfs, wo_init = Some au_wbr_create_init_mfs,
                 wo_fin = Some au_wbr_create_fin_mfs\<rparr>
      else if i = AuWbrCreate_MFSRR \<or> i = AuWbrCreate_MFSRRV
      then Some \<lparr>wo_create = au_wbr_create_mfsrr, wo_init = Some au_wbr_create_init_mfsrr,
                 wo_fin = Some au_wbr_create_fin_mfs\<rparr>
      else if i = AuWbrCreate_PMFS \<or> i = AuWbrCreate_PMFSV
      then Some \<lparr>wo_create = au_wbr_create_pmfs, wo_init = Some au_wbr_create_init_mfs,
                 wo_fin = Some au_wbr_create_fin_mfs\<rparr>
      else if i = AuWbrCreate_PMFSRR \<or> i = AuWbrCreate_PMFSRRV
      then Some \<lparr>wo_create = au_wbr_create_pmfsrr, wo_init = Some au_wbr_create_init_mfsrr,
                 wo_fin = Some au_wbr_create_fin_mfs\<rparr>
      else None)"

record opt_wbr_create =
  owc_wbr_create :: int
  owc_mfs_second :: int
  owc_mfsrr_watermark :: u64

text \<open>
  \<open>mj\<close> is \<open>msecs_to_jiffies\<close>; a policy number without an entry in the table is the fault.
\<close>

definition au_opt_wbr_create ::
    "(int \<Rightarrow> u32) \<Rightarrow> opt_wbr_create \<Rightarrow> au_sbinfo \<Rightarrow> (int \<times> au_sbinfo) option" where
  "au_opt_wbr_create mj create sbi =
     Option.bind (au_wbr_create_ops (si_wbr_create sbi)) (\<lambda>old.
     Option.bind (au_wbr_create_ops (owc_wbr_create create)) (\<lambda>ops.
     let id = owc_wbr_create create;
         err = (case wo_fin old of None \<Rightarrow> 1 | Some f \<Rightarrow> if f sbi = 0 then 1 else f sbi);
         sbi1 = sbi\<lparr>si_wbr_create := id\<rparr>;
         sbi2 = (if id \<in> {AuWbrCreate_MFSRRV, AuWbrCreate_MFSRR, AuWbrCreate_PMFSRR,
                          AuWbrCreate_PMFSRRV}
                 then sbi1\<lparr>si_wbr_mfs := (si_wbr_mfs sbi1)\<lparr>mfsrr_watermark := owc_mfsrr_watermark create\<rparr>\<rparr>
                 else sbi1);
         sbi3 = (if id \<in> {AuWbrCreate_MFSRRV, AuWbrCreate_MFSRR, AuWbrCreate_PMFSRR,
                          AuWbrCreate_PMFSRRV, AuWbrCreate_MFS, AuWbrCreate_MFSV,
                          AuWbrCreate_PMFS, AuWbrCreate_PMFSV}
                 then sbi2\<lparr>si_wbr_mfs := (si_wbr_mfs sbi2)\<lparr>mfs_expire :=
                        mj (uint (of_int (owc_mfs_second create * MSEC_PER_SEC) :: u32))\<rparr>\<rparr>
                 else sbi2)
     in case wo_init ops of
          None \<Rightarrow> Some (err, sbi3)
        | Some f \<Rightarrow> map_option (\<lambda>(_, sbi4). (err, sbi4)) (f sbi3)))"

section \<open>The choice of the branch in au_wr_dir\<close>

definition AuWrDir_ADD_ENTRY :: int where "AuWrDir_ADD_ENTRY = 1"
definition AuWrDir_TMP_WHENTRY :: int where "AuWrDir_TMP_WHENTRY = 2"
definition AuWrDir_ISDIR :: int where "AuWrDir_ISDIR = 4"
definition au_ftest_wrdir :: "int \<Rightarrow> int \<Rightarrow> bool" where
  "au_ftest_wrdir flags f = (and flags f \<noteq> 0)"

record au_wr_dir_args =
  force_btgt :: bindex
  wrdir_flags :: int

text \<open>
  \<open>au_test_ro\<close> of \<open>inode.c\<close>: \<open>ino\<close> is the aufs inode or NULL, \<open>imm\<close> says which lower inodes
  are immutable.
\<close>

definition au_test_ro ::
    "au_sbinfo \<Rightarrow> bindex \<Rightarrow> au_iinfo option \<Rightarrow> vfs \<Rightarrow> (iptr \<Rightarrow> bool) \<Rightarrow> int option" where
  "au_test_ro sbi b ino v imm =
     Option.bind (au_sbr sbi b) (\<lambda>br.
     if au_br_rdonly br then Some (- EROFS)
     else case ino of
            None \<Rightarrow> Some 0
          | Some ii \<Rightarrow>
              if au_ibstart ii \<le> b \<and> b \<le> au_ibend ii
              then map_option (\<lambda>hi. case hi of None \<Rightarrow> 0 | Some p \<Rightarrow> if imm p then - EROFS else 0)
                     (au_h_iptr ii v b)
              else Some 0)"

text \<open>
  Up to the copy-up of the parent directory: \<open>src_bstart\<close> is the start of \<open>src_dentry\<close>, if
  there is one. \<open>AuDebugOn\<close> on a readonly forced target is the fault.
\<close>

definition wr_dir_choose ::
    "(wbr_dentry \<Rightarrow> wbr_env \<Rightarrow> int \<Rightarrow> wstate \<Rightarrow> (int \<times> wstate) option)
     \<Rightarrow> (wbr_dentry \<Rightarrow> wbr_env \<Rightarrow> wstate \<Rightarrow> (int \<times> wstate) option)
     \<Rightarrow> (au_sbinfo \<Rightarrow> bindex \<Rightarrow> int option) \<Rightarrow> wbr_dentry \<Rightarrow> wbr_env \<Rightarrow> au_wr_dir_args
     \<Rightarrow> bindex option \<Rightarrow> wstate \<Rightarrow> (int \<times> wstate) option" where
  "wr_dir_choose create copyup test_ro w env args src_bstart s =
     (let bstart = au_dbstart (wd_di w);
          add_entry = (au_ftest_wrdir (wrdir_flags args) AuWrDir_ADD_ENTRY
                       \<or> au_ftest_wrdir (wrdir_flags args) AuWrDir_TMP_WHENTRY);
          flags = (if au_ftest_wrdir (wrdir_flags args) AuWrDir_ISDIR then AuWbr_DIR else 0)
      in if force_btgt args < 0
         then
           Option.bind
             (case src_bstart of
                Some sb \<Rightarrow> Some (if sb < bstart then sb else bstart, s)
              | None \<Rightarrow> if add_entry then create w env flags s else Some (bstart, s))
             (\<lambda>(bcpup, s).
           Option.bind (if bcpup < 0 then Some True else map_option (\<lambda>r. r \<noteq> 0) (test_ro (fst s) bcpup))
             (\<lambda>ro.
           if ro then copyup w env s else Some (bcpup, s)))
         else Option.bind (test_ro (fst s) (force_btgt args)) (\<lambda>r.
              if r \<noteq> 0 then None else Some (force_btgt args, s)))"

text \<open>The operations are those of the superblock, \<open>AuWbrCreate\<close> and \<open>AuWbrCopyup\<close>.\<close>

definition au_wr_dir_bindex ::
    "wbr_dentry \<Rightarrow> wbr_env \<Rightarrow> au_wr_dir_args \<Rightarrow> bindex option \<Rightarrow> au_iinfo option \<Rightarrow> (iptr \<Rightarrow> bool)
     \<Rightarrow> wstate \<Rightarrow> (int \<times> wstate) option" where
  "au_wr_dir_bindex w env args src_bstart ino imm s =
     Option.bind (au_wbr_create_ops (si_wbr_create (fst s))) (\<lambda>ops.
     Option.bind (au_wbr_copyup_ops (si_wbr_copyup (fst s))) (\<lambda>copyup.
     wr_dir_choose (wo_create ops) copyup (\<lambda>sbi b. au_test_ro sbi b ino (wd_v w) imm)
       w env args src_bstart s))"

section \<open>What the policies keep\<close>

definition no_bytes :: "au_branch \<Rightarrow> au_branch" where
  "no_bytes br = br\<lparr>br_wbr := map_option (\<lambda>w. w\<lparr>wbr_bytes := 0\<rparr>) (br_wbr br)\<rparr>"

text \<open>Only the counter, the most-free-space record and the free space of branches change.\<close>

definition policy_frame :: "au_sbinfo \<Rightarrow> au_sbinfo \<Rightarrow> bool" where
  "policy_frame sbi sbi' \<longleftrightarrow>
     sbi'\<lparr>si_branch := si_branch sbi, si_wbr_rr_next := si_wbr_rr_next sbi,
          si_wbr_mfs := si_wbr_mfs sbi\<rparr> = sbi
     \<and> map (map_option no_bytes) (si_branch sbi') = map (map_option no_bytes) (si_branch sbi)"

lemma policy_frame_refl [simp]: "policy_frame sbi sbi"
  by (simp add: policy_frame_def)

lemma policy_frame_fields:
  assumes "policy_frame sbi sbi'"
  shows "si_bend sbi' = si_bend sbi \<and> si_wbr_create sbi' = si_wbr_create sbi
     \<and> si_wbr_copyup sbi' = si_wbr_copyup sbi \<and> length (si_branch sbi') = length (si_branch sbi)"
proof -
  have e: "sbi'\<lparr>si_branch := si_branch sbi, si_wbr_rr_next := si_wbr_rr_next sbi,
      si_wbr_mfs := si_wbr_mfs sbi\<rparr> = sbi"
    and m: "map (map_option no_bytes) (si_branch sbi') = map (map_option no_bytes) (si_branch sbi)"
    using assms by (simp_all add: policy_frame_def)
  show ?thesis
    using arg_cong [OF e, of si_bend] arg_cong [OF e, of si_wbr_create]
      arg_cong [OF e, of si_wbr_copyup] map_eq_imp_length_eq [OF m] by simp
qed

lemma policy_frame_trans [trans]:
  assumes "policy_frame a b" and "policy_frame b c"
  shows "policy_frame a c"
proof -
  have "c\<lparr>si_branch := si_branch a, si_wbr_rr_next := si_wbr_rr_next a, si_wbr_mfs := si_wbr_mfs a\<rparr>
      = (c\<lparr>si_branch := si_branch b, si_wbr_rr_next := si_wbr_rr_next b,
           si_wbr_mfs := si_wbr_mfs b\<rparr>)\<lparr>si_branch := si_branch a,
           si_wbr_rr_next := si_wbr_rr_next a, si_wbr_mfs := si_wbr_mfs a\<rparr>" by simp
  also have "\<dots> = b\<lparr>si_branch := si_branch a, si_wbr_rr_next := si_wbr_rr_next a,
      si_wbr_mfs := si_wbr_mfs a\<rparr>" using assms(2) by (simp add: policy_frame_def)
  also have "\<dots> = a" using assms(1) by (simp add: policy_frame_def)
  finally show ?thesis using assms by (simp add: policy_frame_def)
qed

lemma policy_frame_counters [simp]:
  "policy_frame sbi (sbi'\<lparr>si_wbr_rr_next := n\<rparr>) = policy_frame sbi sbi'"
  "policy_frame sbi (sbi'\<lparr>si_wbr_mfs := m\<rparr>) = policy_frame sbi sbi'"
  unfolding policy_frame_def by simp_all

lemma policy_frame_sbr:
  assumes "policy_frame sbi sbi'"
  shows "map_option no_bytes (au_sbr sbi' b) = map_option no_bytes (au_sbr sbi b)"
proof -
  have l: "length (si_branch sbi') = length (si_branch sbi)"
    using policy_frame_fields [OF assms] by simp
  have "map (map_option no_bytes) (si_branch sbi') ! nat b = map (map_option no_bytes) (si_branch sbi) ! nat b"
    using assms by (simp add: policy_frame_def)
  then show ?thesis using l by (auto simp: au_sbr_def arr_get_def)
qed

lemma no_bytes_fields [simp]:
  "au_br_rdonly (no_bytes br) = au_br_rdonly br" "br_id (no_bytes br) = br_id br"
  "br_perm (no_bytes br) = br_perm br" "br_wbr (no_bytes br) = None \<longleftrightarrow> br_wbr br = None"
  by (simp_all add: no_bytes_def au_br_rdonly_def)

lemma policy_frame_rw:
  assumes "policy_frame sbi sbi'"
  shows "br_rw sbi' b = br_rw sbi b"
proof -
  have "br_rw s b = map_option (\<lambda>br. \<not> au_br_rdonly br) (map_option no_bytes (au_sbr s b))" for s
    by (simp add: br_rw_def option.map_comp comp_def)
  then show ?thesis using policy_frame_sbr [OF assms] by simp
qed

lemma policy_frame_live:
  assumes "policy_frame sbi sbi'"
  shows "map (map_option no_bytes) (live_branches sbi') = map (map_option no_bytes) (live_branches sbi)"
  using policy_frame_fields [OF assms] assms
  by (simp add: live_branches_def policy_frame_def take_map [symmetric])

lemma policy_frame_sbi_wf:
  assumes "policy_frame sbi sbi'" and "sbi_wf sbi"
  shows "sbi_wf sbi'"
proof -
  have none: "None \<in> set xs \<longleftrightarrow> None \<in> set (map (map_option no_bytes) xs)" for xs
    by (force simp: image_iff)
  have ids: "map (map_option br_id) xs = map (map_option br_id) (map (map_option no_bytes) xs)" for xs
    by (simp add: option.map_comp comp_def)
  show ?thesis
    using assms(2) policy_frame_fields [OF assms(1)] policy_frame_live [OF assms(1)]
    unfolding sbi_wf_def by (metis none ids)
qed

section \<open>The situation in which a policy is asked\<close>

text \<open>
  The record of the most free space names no branch beyond the last one, a writable branch has
  its \<open>au_wbr\<close>, the tables of the dentry and its parent stay within the branches, the lower
  dentries of the parent are alive, and no ancestor is opaque above the branches in which the
  dentry and its parent were looked up (the lookup stops at an opaque directory).
\<close>

definition opq_below :: "wbr_dentry \<Rightarrow> au_sbinfo \<Rightarrow> bindex \<Rightarrow> bool" where
  "opq_below w sbi b \<longleftrightarrow>
     di_bstart (wd_di w) \<le> b \<and> au_dbtaildir (wd_parent w) \<le> b \<and> b \<le> si_bend sbi"

definition anc_opq :: "wbr_dentry \<Rightarrow> bindex set" where
  "anc_opq w = {di_bdiropq di | p di. p \<in> set (wd_anc w) \<and> pd_di p = Some di \<and> 0 \<le> di_bdiropq di}"

definition wbr_alive :: "wbr_dentry \<Rightarrow> bool" where
  "wbr_alive w \<longleftrightarrow> (\<forall>d. Some d \<in> set (dslots (wd_parent w)) \<longrightarrow>
     (\<exists>x. dents (wd_v w) d = Some x \<and> 0 < d_count x))"

definition wbr_tables :: "au_sbinfo \<Rightarrow> bool" where
  "wbr_tables sbi \<longleftrightarrow> sbi_wf sbi \<and> mfs_bindex (si_wbr_mfs sbi) \<le> si_bend sbi
     \<and> (\<forall>b br. au_sbr sbi b = Some br \<longrightarrow> \<not> au_br_rdonly br \<longrightarrow> br_wbr br \<noteq> None)"

definition wbr_ok :: "wbr_dentry \<Rightarrow> au_sbinfo \<Rightarrow> bool" where
  "wbr_ok w sbi \<longleftrightarrow> wbr_tables sbi \<and> wbr_alive w
     \<and> 0 \<le> di_bstart (wd_di w) \<and> di_bstart (wd_di w) \<le> si_bend sbi \<and> di_bwh (wd_di w) \<le> si_bend sbi
     \<and> 0 \<le> di_bstart (wd_parent w) \<and> di_bstart (wd_parent w) \<le> di_bend (wd_parent w)
     \<and> di_bend (wd_parent w) \<le> si_bend sbi
     \<and> di_bdiropq (wd_parent w) \<le> si_bend sbi
     \<and> si_bend sbi < int (length (di_hdentry (wd_parent w)))
     \<and> (\<forall>b \<in> anc_opq w. opq_below w sbi b)"

lemma policy_frame_tables:
  assumes "policy_frame sbi sbi'" and "wbr_tables sbi" and "mfs_bindex (si_wbr_mfs sbi') \<le> si_bend sbi"
  shows "wbr_tables sbi'"
proof -
  have "br_wbr br' \<noteq> None" if "au_sbr sbi' b = Some br'" "\<not> au_br_rdonly br'" for b br'
  proof -
    have "map_option no_bytes (au_sbr sbi b) = Some (no_bytes br')"
      using policy_frame_sbr [OF assms(1), of b] that(1) by simp
    then obtain br where br: "au_sbr sbi b = Some br" "no_bytes br = no_bytes br'" by auto
    then have "\<not> au_br_rdonly br" using that(2) by (metis no_bytes_fields(1))
    then show ?thesis using assms(2) br unfolding wbr_tables_def by (metis no_bytes_fields(4))
  qed
  then show ?thesis
    using assms policy_frame_sbi_wf policy_frame_fields [OF assms(1)] by (auto simp: wbr_tables_def)
qed

lemma policy_frame_ok:
  assumes "policy_frame sbi sbi'" and "wbr_ok w sbi" and "mfs_bindex (si_wbr_mfs sbi') \<le> si_bend sbi"
  shows "wbr_ok w sbi'"
  using assms policy_frame_tables [OF assms(1)] policy_frame_fields [OF assms(1)]
  by (simp add: wbr_ok_def opq_below_def)

lemma br_rw_total:
  assumes "sbi_wf sbi" and "0 \<le> b" and "b \<le> si_bend sbi"
  shows "\<exists>rw. br_rw sbi b = Some rw"
  using sbi_wf_sbr [OF assms] by (auto simp: br_rw_def)

lemma br_rw_range: "br_rw sbi b = Some rw \<Longrightarrow> 0 \<le> b"
  by (auto simp: br_rw_def au_sbr_def arr_get_def split: if_splits)

section \<open>Single steps\<close>

lemma nonopq_loop_ok:
  assumes "\<forall>p \<in> set ds. pd_di p \<noteq> None"
  shows "\<exists>r. nonopq_loop ds err = Some r \<and> r \<le> err
    \<and> (r = err \<or> (\<exists>p \<in> set ds. \<exists>di. pd_di p = Some di \<and> r = di_bdiropq di \<and> 0 \<le> r))"
  using assms
proof (induction ds arbitrary: err)
  case Nil
  then show ?case by simp
next
  case (Cons d ds)
  then obtain di where di: "pd_di d = Some di" by auto
  let ?e = "if 0 \<le> au_dbdiropq di \<and> au_dbdiropq di < err then au_dbdiropq di else err"
  obtain r where r: "nonopq_loop ds ?e = Some r" "r \<le> ?e"
    "r = ?e \<or> (\<exists>p \<in> set ds. \<exists>di. pd_di p = Some di \<and> r = di_bdiropq di \<and> 0 \<le> r)"
    using Cons.IH [of ?e] Cons.prems by auto
  have "r \<le> err" using r(2) by (simp split: if_splits)
  then show ?case using r di by (auto simp: Let_def au_dbdiropq_def split: if_splits)
qed

lemma dpages_init_cases:
  "(\<exists>mem'. au_dpages_init mem = (- ENOMEM, [], mem')) \<or> (\<exists>mem'. au_dpages_init mem = (0, [[]], mem'))"
  by (auto simp: au_dpages_init_def Let_def split: prod.splits)

lemma wbr_nonopq_ok:
  "\<exists>r mem'. au_wbr_nonopq w b mem = Some (r, mem')
     \<and> (r = - ENOMEM \<or> r = b \<or> r \<in> anc_opq w \<and> 0 \<le> r \<and> r < b)"
proof (cases "\<exists>mem'. au_dpages_init mem = (- ENOMEM, [] :: path_dentry dpages, mem')")
  case True
  then show ?thesis by (auto simp: au_wbr_nonopq_def)
next
  case False
  then obtain mem1 where i: "au_dpages_init mem = (0, [[] :: path_dentry list], mem1)"
    using dpages_init_cases [of mem, where ?'a = path_dentry] by auto
  let ?parent = "\<lparr>pd_count = 1, pd_sb = wd_sb w, pd_di = Some (wd_parent w)\<rparr>"
  let ?test = "\<lambda>x. pd_di x \<noteq> None \<and> pd_sb x = pd_sb ?parent"
  have wf: "dpages_wf [[] :: path_dentry list]" by (simp add: dpages_wf_def)
  obtain err pages mem2 n where c: "au_dcsub_pages_rev_aufs pd_count (\<lambda>d. pd_di d \<noteq> None) pd_sb [[]]
      ?parent (wd_anc w) False mem1 = Some (err, pages, mem2)"
    "concat pages = take n (dcsub_wanted pd_count ?test (wd_anc w))" "err = 0 \<or> err = - ENOMEM"
    using collects_rev [OF wf, of pd_count ?test ?parent "wd_anc w" False mem1]
    unfolding collects_def au_dcsub_pages_rev_aufs_def by auto
  show ?thesis
  proof (cases "err = 0")
    case False
    then show ?thesis using i c by (simp add: au_wbr_nonopq_def)
  next
    case True
    have sub: "set (concat pages) \<subseteq> set (dcsub_wanted pd_count ?test (wd_anc w))"
      unfolding c(2) by (rule set_take_subset)
    then have some: "\<forall>p \<in> set (concat pages). pd_di p \<noteq> None"
      by (auto simp: dcsub_wanted_def)
    have anc: "set (concat pages) \<subseteq> set (wd_anc w)" using sub by (auto simp: dcsub_wanted_def)
    obtain r where r: "nonopq_loop (concat pages) b = Some r" "r \<le> b"
      "r = b \<or> (\<exists>p \<in> set (concat pages). \<exists>di. pd_di p = Some di \<and> r = di_bdiropq di \<and> 0 \<le> r)"
      using nonopq_loop_ok [OF some, of b] by blast
    have "r = b \<or> r \<in> anc_opq w \<and> 0 \<le> r \<and> r < b"
      using r(2,3) anc unfolding anc_opq_def by fastforce
    then show ?thesis using i c True r(1) by (auto simp: au_wbr_nonopq_def)
  qed
qed

text \<open>
  \<open>policy_ok\<close>: an operation returns, keeps the situation, changes only what policies change,
  and its result satisfies \<open>P\<close>.
\<close>

definition policy_ok ::
    "(int \<Rightarrow> bool) \<Rightarrow> wbr_dentry \<Rightarrow> au_sbinfo \<Rightarrow> (int \<times> wstate) option \<Rightarrow> bool" where
  "policy_ok P w sbi r \<longleftrightarrow> (\<exists>err sbi' mem'. r = Some (err, sbi', mem') \<and> policy_frame sbi sbi'
     \<and> wbr_ok w sbi' \<and> P err)"

text \<open>The index of an existing branch, or of a writable one, or an error.\<close>

definition chosen :: "au_sbinfo \<Rightarrow> int \<Rightarrow> bool" where
  "chosen sbi err \<longleftrightarrow> err < 0 \<or> err \<le> si_bend sbi"

definition chosen_rw :: "au_sbinfo \<Rightarrow> int \<Rightarrow> bool" where
  "chosen_rw sbi err \<longleftrightarrow> err < 0 \<or> err \<le> si_bend sbi \<and> br_rw sbi err = Some True"

lemma chosen_rw_chosen: "chosen_rw sbi err \<Longrightarrow> chosen sbi err"
  by (auto simp: chosen_def chosen_rw_def)

lemma chosen_frame:
  "policy_frame sbi sbi' \<Longrightarrow> chosen sbi' = chosen sbi"
  "policy_frame sbi sbi' \<Longrightarrow> chosen_rw sbi' = chosen_rw sbi"
  using policy_frame_fields [of sbi sbi'] policy_frame_rw [of sbi sbi']
  by (auto simp: chosen_def chosen_rw_def fun_eq_iff)

lemma policy_okI:
  "r = Some (err, sbi', mem') \<Longrightarrow> policy_frame sbi sbi' \<Longrightarrow> wbr_ok w sbi' \<Longrightarrow> P err \<Longrightarrow> policy_ok P w sbi r"
  by (auto simp: policy_ok_def)

lemma policy_ok_weaken: "policy_ok P w sbi r \<Longrightarrow> (\<And>e. P e \<Longrightarrow> Q e) \<Longrightarrow> policy_ok Q w sbi r"
  by (auto simp: policy_ok_def)

lemma policy_ok_frame: "policy_frame sbi sbi' \<Longrightarrow> policy_ok P w sbi' r \<Longrightarrow> policy_ok P w sbi r"
  unfolding policy_ok_def using policy_frame_trans by blast

lemma policy_ok_bind:
  assumes "policy_ok P w sbi r"
    and "\<And>err sbi' mem'. policy_frame sbi sbi' \<Longrightarrow> wbr_ok w sbi' \<Longrightarrow> P err \<Longrightarrow>
      policy_ok Q w sbi' (f (err, sbi', mem'))"
  shows "policy_ok Q w sbi (Option.bind r f)"
proof -
  obtain err sbi' mem' where r: "r = Some (err, sbi', mem')" "policy_frame sbi sbi'" "wbr_ok w sbi'" "P err"
    using assms(1) unfolding policy_ok_def by blast
  then show ?thesis
    using assms(2) [OF r(2-4), of mem'] policy_frame_trans [OF r(2)] by (auto simp: policy_ok_def)
qed

text \<open>The check of opaque ancestors leaves an index that no ancestor is opaque above.\<close>

lemma then_nonopq_ok:
  assumes "wbr_ok w sbi" and "chosen sbi err"
  shows "policy_ok (chosen sbi) w sbi (then_nonopq w err (sbi, mem))"
proof (cases "err < 0")
  case True
  then show ?thesis using assms by (simp add: policy_ok_def then_nonopq_def chosen_def)
next
  case False
  obtain r mem' where r: "au_wbr_nonopq w err mem = Some (r, mem')"
    "r = - ENOMEM \<or> r = err \<or> r \<in> anc_opq w \<and> 0 \<le> r \<and> r < err"
    using wbr_nonopq_ok [of w err mem] by blast
  have "chosen sbi r" using r(2) assms(2) False by (auto simp: chosen_def)
  then show ?thesis using assms r False by (auto simp: policy_ok_def then_nonopq_def)
qed

lemma then_nonopq_same:
  assumes "wbr_ok w sbi" and "chosen_rw sbi err"
    and "err \<le> di_bstart (wd_di w) \<or> err \<le> au_dbtaildir (wd_parent w)"
  shows "policy_ok (\<lambda>r. r = err \<or> r = - ENOMEM) w sbi (then_nonopq w err (sbi, mem))"
proof (cases "err < 0")
  case True
  then show ?thesis using assms by (simp add: policy_ok_def then_nonopq_def)
next
  case False
  obtain r mem' where r: "au_wbr_nonopq w err mem = Some (r, mem')"
    "r = - ENOMEM \<or> r = err \<or> r \<in> anc_opq w \<and> 0 \<le> r \<and> r < err"
    using wbr_nonopq_ok [of w err mem] by blast
  have "\<not> (r \<in> anc_opq w \<and> r < err)"
    using assms(1,3) by (auto simp: wbr_ok_def opq_below_def)
  then show ?thesis using assms(1) r False by (auto simp: policy_ok_def then_nonopq_def)
qed

lemma wbr_bu_ok:
  assumes "sbi_wf sbi" and "b \<le> si_bend sbi"
  shows "\<exists>err. au_wbr_bu sbi b = Some err \<and> chosen_rw sbi err \<and> (err < 0 \<or> err \<le> b)
    \<and> (\<forall>j. max err (-1) < j \<longrightarrow> j \<le> b \<longrightarrow> br_rw sbi j = Some False)
    \<and> (err < 0 \<longrightarrow> err = - EROFS)"
proof -
  have "first_down (br_rw sbi) b 0 \<noteq> None"
    by (rule first_down_total) (use br_rw_total [OF assms(1)] assms(2) in fastforce)
  then obtain r where r: "first_down (br_rw sbi) b 0 = Some r" by blast
  show ?thesis
  proof (cases r)
    case None
    then show ?thesis using r first_down_none [of "br_rw sbi" b 0]
      by (auto simp: au_wbr_bu_def chosen_rw_def)
  next
    case (Some k)
    then show ?thesis using r first_down_found [of "br_rw sbi" b 0 k] assms(2)
      by (auto simp: au_wbr_bu_def chosen_rw_def)
  qed
qed

lemma h_parent_positive_total:
  assumes "wbr_ok w sbi" and "b \<le> si_bend sbi"
  shows "\<exists>p. h_parent_positive w b = Some p"
proof (cases "b < di_bstart (wd_parent w)")
  case True
  then show ?thesis
    by (intro exI [of _ False]) (simp add: h_parent_positive_def au_h_dptr_def au_dbstart_def)
next
  case False
  let ?h = "di_hdentry (wd_parent w)"
  have b: "0 \<le> b" "b < int (length ?h)" using False assms by (auto simp: wbr_ok_def)
  then have n: "nat b < length ?h" by linarith
  have g: "arr_get ?h b = Some (?h ! nat b)" using b by (simp add: arr_get_def)
  have not: "\<not> (au_dbstart (wd_parent w) < 0 \<or> b < au_dbstart (wd_parent w))"
    using False assms(1) by (auto simp: wbr_ok_def au_dbstart_def)
  show ?thesis
  proof (cases "hd_dentry (?h ! nat b)")
    case None
    then show ?thesis using g not by (auto simp: h_parent_positive_def au_h_dptr_def)
  next
    case (Some d)
    have "Some d \<in> set (dslots (wd_parent w))"
      using nth_mem [OF n] Some unfolding dslots_def set_map by (metis imageI)
    then obtain x where "dents (wd_v w) d = Some x" "0 < d_count x"
      using assms(1) unfolding wbr_ok_def wbr_alive_def by blast
    then show ?thesis using g not Some by (auto simp: h_parent_positive_def au_h_dptr_def)
  qed
qed

lemma parent_rw_total:
  assumes "wbr_ok w sbi" and "0 \<le> b" and "b \<le> si_bend sbi"
  shows "\<exists>p. parent_rw w sbi b = Some p"
  using h_parent_positive_total [OF assms(1,3)] br_rw_total [of sbi b] assms
  by (auto simp: parent_rw_def wbr_ok_def wbr_tables_def)

lemma parent_rw_rw: "parent_rw w sbi b = Some True \<Longrightarrow> br_rw sbi b = Some True"
  by (auto simp: parent_rw_def bind_eq_Some_conv split: if_splits)

section \<open>The policies\<close>

lemma dbtaildir_le: "0 \<le> au_dbtaildir di \<Longrightarrow> au_dbtaildir di \<le> di_bend di"
  by (auto simp: au_dbtaildir_def au_dbtail_def au_dbend_def au_dbwh_def au_dbdiropq_def Let_def
      split: if_splits)

lemma taildir_bend: "wbr_ok w sbi \<Longrightarrow> au_dbtaildir (wd_parent w) \<le> si_bend sbi"
  using dbtaildir_le [of "wd_parent w"] by (cases "0 \<le> au_dbtaildir (wd_parent w)") (auto simp: wbr_ok_def)

text \<open>
  The result of \<open>tdp\<close> is writable, and no branch of the dentry that is above it is: it is
  the start of the dentry or lies above it.
\<close>

definition tdp_result :: "wbr_dentry \<Rightarrow> au_sbinfo \<Rightarrow> int \<Rightarrow> bool" where
  "tdp_result w sbi e \<longleftrightarrow> chosen_rw sbi e \<and> e \<le> di_bstart (wd_di w)
     \<and> (br_rw sbi (di_bstart (wd_di w)) = Some True \<longrightarrow> e = di_bstart (wd_di w))
     \<and> (e < 0 \<longrightarrow> e = - ENOMEM
          \<or> e = - EROFS \<and> (\<forall>j. 0 \<le> j \<longrightarrow> j \<le> di_bstart (wd_di w) \<longrightarrow> br_rw sbi j = Some False))"

lemma create_tdp_full:
  assumes ok: "wbr_ok w sbi"
  shows "policy_ok (tdp_result w sbi) w sbi (au_wbr_create_tdp w env flags (sbi, mem))"
proof -
  let ?b = "di_bstart (wd_di w)"
  have b: "0 \<le> ?b" "?b \<le> si_bend sbi" and wf: "sbi_wf sbi"
    using ok by (auto simp: wbr_ok_def wbr_tables_def)
  obtain rw where rw: "br_rw sbi ?b = Some rw" using br_rw_total [OF wf b] by blast
  show ?thesis
  proof (cases rw)
    case True
    then show ?thesis using rw ok b
      by (simp add: au_wbr_create_tdp_def au_dbstart_def policy_ok_def chosen_rw_def tdp_result_def)
  next
    case False
    let ?s = "di_bstart (wd_parent w)"
    have "first_up (parent_rw w sbi) ?s (?b - 1) \<noteq> None"
      using parent_rw_total [OF ok] ok b by (intro first_up_total) (fastforce simp: wbr_ok_def)
    then obtain r where r: "first_up (parent_rw w sbi) ?s (?b - 1) = Some r" by blast
    show ?thesis
    proof (cases r)
      case (Some k)
      have "?s \<le> k" "k \<le> ?b - 1" "br_rw sbi k = Some True"
        using first_up_found [of "parent_rw w sbi" ?s "?b - 1" k] r Some parent_rw_rw by auto
      moreover have "0 \<le> ?s" using ok by (simp add: wbr_ok_def)
      ultimately show ?thesis using rw r False Some ok b
        by (simp add: au_wbr_create_tdp_def au_dbstart_def policy_ok_def chosen_rw_def tdp_result_def)
    next
      case None
      obtain err where e: "au_wbr_bu sbi (?b - 1) = Some err" "chosen_rw sbi err" "err < 0 \<or> err \<le> ?b - 1"
        "\<forall>j. max err (-1) < j \<longrightarrow> j \<le> ?b - 1 \<longrightarrow> br_rw sbi j = Some False"
        "err < 0 \<longrightarrow> err = - EROFS"
        using wbr_bu_ok [OF wf, of "?b - 1"] b by auto
      have "br_rw sbi j = Some False" if "err < 0" "0 \<le> j" "j \<le> ?b" for j
        using e(4) that rw False by (cases "j = ?b") auto
      moreover have "policy_ok (\<lambda>r. r = err \<or> r = - ENOMEM) w sbi (then_nonopq w err (sbi, mem))"
        by (rule then_nonopq_same [OF ok e(2)]) (use e(3) b in auto)
      ultimately have "policy_ok (tdp_result w sbi) w sbi (then_nonopq w err (sbi, mem))"
        by (elim policy_ok_weaken) (use e(2,3,5) b rw False in \<open>auto simp: chosen_rw_def tdp_result_def\<close>)
      then show ?thesis using rw r False None e(1)
        by (simp add: au_wbr_create_tdp_def au_dbstart_def)
    qed
  qed
qed

lemma create_tdp_ok:
  assumes ok: "wbr_ok w sbi"
  shows "policy_ok (\<lambda>e. chosen_rw sbi e \<and> e \<le> di_bstart (wd_di w)) w sbi
    (au_wbr_create_tdp w env flags (sbi, mem))"
  by (rule policy_ok_weaken [OF create_tdp_full [OF ok]]) (simp add: tdp_result_def)

lemma create_exp_ok:
  assumes ok: "wbr_ok w sbi"
  shows "policy_ok (chosen_rw sbi) w sbi (au_wbr_create_exp w (sbi, mem))"
proof -
  let ?e = "if 0 \<le> au_dbwh (wd_di w)
      then if 0 \<le> au_dbdiropq (wd_parent w) then min (au_dbdiropq (wd_parent w)) (au_dbwh (wd_di w))
           else au_dbwh (wd_di w)
      else if 0 \<le> au_dbdiropq (wd_parent w) then au_dbdiropq (wd_parent w) else - 1"
  have "chosen sbi ?e" using ok by (auto simp: wbr_ok_def chosen_def au_dbwh_def au_dbdiropq_def)
  note first = then_nonopq_ok [OF ok this, of mem]
  show ?thesis
    unfolding au_wbr_create_exp_def Let_def
  proof (rule policy_ok_bind [OF first])
    fix err sbi' mem'
    assume f: "policy_frame sbi sbi'" and ok': "wbr_ok w sbi'" and c: "chosen sbi err"
    show "policy_ok (chosen_rw sbi) w sbi' (case (err, sbi', mem') of (err, s) \<Rightarrow>
        if 0 \<le> err then map_option (\<lambda>rw. (if rw then err else - 1, s)) (br_rw (fst s) err)
        else Some (err, s))"
    proof (cases "0 \<le> err")
      case True
      then have "err \<le> si_bend sbi" using c by (simp add: chosen_def)
      then obtain rw where rw: "br_rw sbi err = Some rw"
        using br_rw_total [of sbi err] ok True by (auto simp: wbr_ok_def wbr_tables_def)
      then show ?thesis using True c ok' policy_frame_rw [OF f]
        by (auto simp: policy_ok_def chosen_rw_def chosen_def)
    qed (use ok' in \<open>simp add: policy_ok_def chosen_rw_def\<close>)
  qed
qed

lemma rr_draw_shape: "\<exists>u n. rr_draw flags sbi = (u, sbi\<lparr>si_wbr_rr_next := n\<rparr>)"
proof (cases "au_ftest_wbr flags AuWbr_DIR")
  case True
  then show ?thesis
    by (intro exI [of _ "si_wbr_rr_next sbi"]) (simp add: rr_draw_def)
qed (auto simp: rr_draw_def Let_def)

lemma rr_loop_ok:
  assumes "sbi_wf sbi" and "0 \<le> si_bend sbi" and "chosen_rw sbi err" and "err < 0"
  shows "\<exists>e n'. rr_loop n flags (si_bend sbi + 1) err sbi = Some (e, sbi\<lparr>si_wbr_rr_next := n'\<rparr>)
    \<and> chosen_rw sbi e"
  using assms
proof (induction n arbitrary: err sbi)
  case 0
  then show ?case by (intro exI [of _ err] exI [of _ "si_wbr_rr_next sbi"]) simp
next
  case (Suc n)
  obtain u n1 where d: "rr_draw flags sbi = (u, sbi\<lparr>si_wbr_rr_next := n1\<rparr>)"
    using rr_draw_shape by blast
  let ?sbi = "sbi\<lparr>si_wbr_rr_next := n1\<rparr>"
  let ?i = "uint (u mod of_int (si_bend sbi + 1))"
  have rw': "br_rw ?sbi b = br_rw sbi b" for b by (simp add: br_rw_def au_sbr_def)
  have small: "si_bend sbi + 1 < 2 ^ 32"
    using Suc.prems(1) by (simp add: sbi_wf_def AUFS_BRANCH_MAX_def)
  have "uint (of_int (si_bend sbi + 1) :: u32) = si_bend sbi + 1"
    using small Suc.prems(2) by (simp add: uint_word_of_int take_bit_int_eq_self del: of_int_add)
  then have "?i = uint u mod (si_bend sbi + 1)" by (simp only: uint_mod)
  then have i: "0 \<le> ?i" "?i \<le> si_bend sbi"
    using Suc.prems(2) pos_mod_bound [of "si_bend sbi + 1" "uint u"] by simp_all
  obtain rw where rw: "br_rw sbi ?i = Some rw" using br_rw_total [OF Suc.prems(1) i] by blast
  show ?case
  proof (cases rw)
    case True
    then show ?thesis using d rw rw' i
      by (auto simp: chosen_rw_def intro!: exI [of _ ?i] exI [of _ n1])
  next
    case False
    have wf: "sbi_wf ?sbi" using Suc.prems(1) by (simp add: sbi_wf_def live_branches_def)
    obtain e n2 where "rr_loop n flags (si_bend ?sbi + 1) (- EROFS) ?sbi =
        Some (e, ?sbi\<lparr>si_wbr_rr_next := n2\<rparr>)" "chosen_rw ?sbi e"
      using Suc.IH [OF wf, of "- EROFS"] Suc.prems(2) by (auto simp: chosen_rw_def)
    then show ?thesis using d rw rw' False
      by (auto simp: chosen_rw_def)
  qed
qed

lemma create_rr_ok:
  assumes ok: "wbr_ok w sbi"
  shows "policy_ok (chosen sbi) w sbi (au_wbr_create_rr w env flags (sbi, mem))"
  unfolding au_wbr_create_rr_def
proof (rule policy_ok_bind [OF create_exp_ok [OF ok]])
  fix err sbi' mem'
  assume f: "policy_frame sbi sbi'" and ok': "wbr_ok w sbi'" and c: "chosen_rw sbi err"
  show "policy_ok (chosen sbi) w sbi' (case (err, sbi', mem') of (err, s) \<Rightarrow>
      if 0 \<le> err then Some (err, s)
      else let nbr = au_sbend (fst s) + 1
           in Option.bind (rr_loop (nat nbr) flags nbr err (fst s))
                (\<lambda>(err, sbi). then_nonopq w err (sbi, snd s)))"
  proof (cases "0 \<le> err")
    case True
    then show ?thesis using c ok' by (simp add: policy_ok_def chosen_rw_chosen)
  next
    case False
    have wf: "sbi_wf sbi'" "0 \<le> si_bend sbi'" using ok' by (auto simp: wbr_ok_def wbr_tables_def)
    have c': "chosen_rw sbi' err" "err < 0" using False by (auto simp: chosen_rw_def)
    obtain e n where e: "rr_loop (nat (si_bend sbi' + 1)) flags (si_bend sbi' + 1) err sbi'
        = Some (e, sbi'\<lparr>si_wbr_rr_next := n\<rparr>)" "chosen_rw sbi' e"
      using rr_loop_ok [OF wf c'] by blast
    have fr: "policy_frame sbi' (sbi'\<lparr>si_wbr_rr_next := n\<rparr>)" by simp
    have ok2: "wbr_ok w (sbi'\<lparr>si_wbr_rr_next := n\<rparr>)"
      using policy_frame_ok [OF fr ok'] ok' by (simp add: wbr_ok_def wbr_tables_def)
    have "policy_ok (chosen sbi) w (sbi'\<lparr>si_wbr_rr_next := n\<rparr>)
        (then_nonopq w e (sbi'\<lparr>si_wbr_rr_next := n\<rparr>, mem'))"
      using then_nonopq_ok [OF ok2, of e mem'] chosen_rw_chosen [OF e(2)] chosen_frame(1) [OF f]
        chosen_frame(1) [OF fr] by simp
    from policy_ok_frame [OF fr this]
    have "policy_ok (chosen sbi) w sbi' (then_nonopq w e (sbi'\<lparr>si_wbr_rr_next := n\<rparr>, mem'))" .
    then show ?thesis using False e(1) by (simp add: au_sbend_def)
  qed
qed

lemma set_wbr_bytes_ok:
  assumes ok: "wbr_ok w sbi" and rw: "br_rw sbi b = Some True"
  shows "\<exists>sbi'. set_wbr_bytes b bytes sbi = Some sbi' \<and> policy_frame sbi sbi'
    \<and> si_wbr_mfs sbi' = si_wbr_mfs sbi \<and> wbr_ok w sbi'"
proof -
  obtain br where br: "au_sbr sbi b = Some br" "\<not> au_br_rdonly br"
    using rw by (auto simp: br_rw_def)
  then obtain wbr where wbr: "br_wbr br = Some wbr"
    using ok unfolding wbr_ok_def wbr_tables_def by blast
  have at: "0 \<le> b" "nat b < length (si_branch sbi)" "si_branch sbi ! nat b = Some br"
    using br(1) by (auto simp: au_sbr_def arr_get_def split: if_splits)
  let ?sbi = "sbi\<lparr>si_branch := (si_branch sbi)[nat b := Some (br\<lparr>br_wbr := Some (wbr\<lparr>wbr_bytes := bytes\<rparr>)\<rparr>)]\<rparr>"
  have "map (map_option no_bytes) (si_branch ?sbi) = map (map_option no_bytes) (si_branch sbi)"
    using at wbr by (simp add: map_update no_bytes_def list_update_same_conv)
  then have f: "policy_frame sbi ?sbi" by (simp add: policy_frame_def)
  have "wbr_ok w ?sbi"
    by (rule policy_frame_ok [OF f ok]) (use ok in \<open>simp add: wbr_ok_def wbr_tables_def\<close>)
  then show ?thesis using br wbr f by (auto simp: set_wbr_bytes_def)
qed

text \<open>Measuring leaves a record that names an error or a branch that is writable now.\<close>

lemma mfs_step_ok:
  assumes ok: "wbr_ok w sbi" and c: "chosen_rw sbi (mfs_bindex (si_wbr_mfs sbi))"
    and b: "0 \<le> b" "b \<le> si_bend sbi"
  shows "\<exists>sbi' m. mfs_step w env p b (sbi, bavail) = Some (sbi', m) \<and> policy_frame sbi sbi'
    \<and> wbr_ok w sbi' \<and> chosen_rw sbi' (mfs_bindex (si_wbr_mfs sbi'))"
proof -
  obtain pos where pos: "(if p then h_parent_positive w b else Some True) = Some pos"
    using h_parent_positive_total [OF ok b(2)] by (cases p) auto
  obtain rw where rw: "br_rw sbi b = Some rw"
    using br_rw_total [OF _ b] ok by (auto simp: wbr_ok_def wbr_tables_def)
  show ?thesis
  proof (cases "pos \<and> rw \<and> we_statfs env b \<noteq> None")
    case False
    have "mfs_step w env p b (sbi, bavail) = Some (sbi, bavail)"
      using pos rw False by (auto simp: mfs_step_def split: option.splits)
    then show ?thesis using ok c by simp
  next
    case True
    then obtain f_bavail f_bsize where st: "we_statfs env b = Some (f_bavail, f_bsize)" by auto
    obtain sbi1 where s1: "set_wbr_bytes b (f_bavail * f_bsize) sbi = Some sbi1" "policy_frame sbi sbi1"
      "si_wbr_mfs sbi1 = si_wbr_mfs sbi" "wbr_ok w sbi1"
      using set_wbr_bytes_ok [OF ok, of b "f_bavail * f_bsize"] rw True by auto
    let ?sbi = "sbi1\<lparr>si_wbr_mfs := (si_wbr_mfs sbi1)\<lparr>mfs_bindex := b, mfs_jiffy := we_jiffies env\<rparr>\<rparr>"
    have f: "policy_frame sbi ?sbi" using s1(2) by simp
    have "wbr_ok w ?sbi" by (rule policy_frame_ok [OF f ok]) (use b in simp)
    moreover have "chosen_rw ?sbi b"
      using b rw True chosen_frame(2) [OF f] by (simp add: chosen_rw_def)
    moreover have "chosen_rw sbi1 (mfs_bindex (si_wbr_mfs sbi1))"
      using c s1(3) chosen_frame(2) [OF s1(2)] by simp
    moreover have "mfs_step w env p b (sbi, bavail) = Some (if bavail \<le> f_bavail * f_bsize
        then (?sbi, f_bavail * f_bsize) else (sbi1, bavail))"
      using pos rw True st s1(1) by (simp add: mfs_step_def Let_def)
    ultimately show ?thesis using s1 f by (cases "bavail \<le> f_bavail * f_bsize") auto
  qed
qed

lemma au_mfs_ok:
  assumes ok: "wbr_ok w sbi"
  shows "\<exists>sbi' mem'. au_mfs w env p (sbi, mem) = Some (sbi', mem') \<and> policy_frame sbi sbi' \<and> wbr_ok w sbi'
    \<and> (list_all id mem \<and> mem \<noteq> [] \<longrightarrow> chosen_rw sbi' (mfs_bindex (si_wbr_mfs sbi')))"
proof -
  obtain a mem1 where a: "take_alloc mem = (a, mem1)" by force
  have a_ok: "a" if "list_all id mem" "mem \<noteq> []" using take_alloc_ok [OF a that] .
  show ?thesis
  proof (cases a)
    case False
    then show ?thesis using a a_ok ok by (auto simp: au_mfs_def Let_def)
  next
    case True
    let ?i = "if p then au_dbstart (wd_parent w) else 0"
    let ?e = "if p then au_dbtaildir (wd_parent w) else au_sbend sbi"
    let ?sbi1 = "sbi\<lparr>si_wbr_mfs := (si_wbr_mfs sbi)\<lparr>mfs_bindex := - EROFS, mfsrr_bytes := 0\<rparr>\<rparr>"
    let ?inv = "\<lambda>st :: au_sbinfo \<times> u64. policy_frame sbi (fst st) \<and> wbr_ok w (fst st)
      \<and> chosen_rw (fst st) (mfs_bindex (si_wbr_mfs (fst st)))"
    have f1: "policy_frame sbi ?sbi1" by simp
    have init: "?inv (?sbi1, 0)"
      using policy_frame_ok [OF f1 ok] ok by (auto simp: chosen_rw_def wbr_ok_def)
    have "\<exists>st'. loop_up (mfs_step w env p) ?i ?e (?sbi1, 0) = Some st' \<and> ?inv st'"
    proof (cases "?e < ?i")
      case True
      show ?thesis
        by (intro exI [of _ "(?sbi1, 0)"] conjI loop_up_step(1) [OF True]) (use init in simp_all)
    next
      case False
      show ?thesis
      proof (rule loop_up_invariant [where I = "\<lambda>_. ?inv"])
        fix j st
        assume j: "?i \<le> j" "j \<le> ?e" and i: "?inv st"
        have "0 \<le> j" "j \<le> si_bend (fst st)"
          using j ok taildir_bend [OF ok] i policy_frame_fields [of sbi "fst st"]
          by (auto simp: au_sbend_def au_dbstart_def wbr_ok_def split: if_splits)
        from mfs_step_ok [OF _ _ this, of w env p "snd st"] i
        obtain sbi' m where "mfs_step w env p j st = Some (sbi', m)" "policy_frame (fst st) sbi'"
          "wbr_ok w sbi'" "chosen_rw sbi' (mfs_bindex (si_wbr_mfs sbi'))" by auto
        then show "\<exists>st'. mfs_step w env p j st = Some st' \<and> ?inv st'"
          using policy_frame_trans [of sbi "fst st"] i
          by (intro exI [of _ "(sbi', m)"]) simp
      qed (use False init in auto)
    qed
    then obtain sbi2 bavail where l: "loop_up (mfs_step w env p) ?i ?e (?sbi1, 0) = Some (sbi2, bavail)"
      "?inv (sbi2, bavail)" by auto
    let ?sbi3 = "sbi2\<lparr>si_wbr_mfs := (si_wbr_mfs sbi2)\<lparr>mfsrr_bytes := bavail\<rparr>\<rparr>"
    have run: "au_mfs w env p (sbi, mem) = Some (?sbi3, mem1)"
      using a True l(1) by (simp add: au_mfs_def Let_def)
    have f3: "policy_frame sbi ?sbi3" "policy_frame sbi2 ?sbi3" using l(2) by simp_all
    have ok2: "wbr_ok w sbi2" using l(2) by simp
    have "wbr_ok w ?sbi3"
      by (rule policy_frame_ok [OF f3(2) ok2]) (use ok2 in \<open>simp add: wbr_ok_def wbr_tables_def\<close>)
    then show ?thesis using run f3(1) l(2) chosen_frame(2) [OF f3(2)] by auto
  qed
qed

lemma mfs_stale_total:
  assumes "wbr_ok w sbi"
  shows "\<exists>st. mfs_stale env sbi = Some st"
  using br_rw_total [of sbi "mfs_bindex (si_wbr_mfs sbi)"] assms
  by (auto simp: mfs_stale_def Let_def wbr_ok_def wbr_tables_def)

lemma create_mfs_ok:
  assumes ok: "wbr_ok w sbi"
  shows "policy_ok (chosen sbi) w sbi (au_wbr_create_mfs w env flags (sbi, mem))"
  unfolding au_wbr_create_mfs_def
proof (rule policy_ok_bind [OF create_exp_ok [OF ok]])
  fix err sbi1 mem1
  assume f: "policy_frame sbi sbi1" and ok1: "wbr_ok w sbi1" and c: "chosen_rw sbi err"
  obtain st where st: "mfs_stale env sbi1 = Some st" using mfs_stale_total [OF ok1] by blast
  obtain sbi2 mem2 where m: "(if st then au_mfs w env (au_ftest_wbr flags AuWbr_PARENT) (sbi1, mem1)
      else Some (sbi1, mem1)) = Some (sbi2, mem2)" "policy_frame sbi1 sbi2" "wbr_ok w sbi2"
    using au_mfs_ok [OF ok1, of env "au_ftest_wbr flags AuWbr_PARENT" mem1] ok1 by (cases st) auto
  have "chosen sbi2 (mfs_bindex (si_wbr_mfs sbi2))"
    using m(3) by (simp add: chosen_def wbr_ok_def wbr_tables_def)
  then have "policy_ok (chosen sbi) w sbi1
      (then_nonopq w (mfs_bindex (si_wbr_mfs sbi2)) (sbi2, mem2))"
    using policy_ok_frame [OF m(2) then_nonopq_ok [OF m(3)]] chosen_frame(1) [OF f]
      chosen_frame(1) [OF m(2)] by simp
  then show "policy_ok (chosen sbi) w sbi1 (case (err, sbi1, mem1) of (err, s) \<Rightarrow>
      if 0 \<le> err then Some (err, s)
      else Option.bind (mfs_stale env (fst s)) (\<lambda>stale.
           Option.bind (if stale then au_mfs w env (au_ftest_wbr flags AuWbr_PARENT) s else Some s) (\<lambda>s.
           then_nonopq w (mfs_bindex (si_wbr_mfs (fst s))) s)))"
    using st m(1) ok1 chosen_rw_chosen [OF c] by (auto simp: policy_ok_def)
qed

lemma create_mfsrr_ok:
  assumes ok: "wbr_ok w sbi"
  shows "policy_ok (chosen sbi) w sbi (au_wbr_create_mfsrr w env flags (sbi, mem))"
  unfolding au_wbr_create_mfsrr_def
proof (rule policy_ok_bind [OF create_mfs_ok [OF ok]])
  fix err sbi1 mem1
  assume f: "policy_frame sbi sbi1" and ok1: "wbr_ok w sbi1" and c: "chosen sbi err"
  show "policy_ok (chosen sbi) w sbi1 (case (err, sbi1, mem1) of (err, s) \<Rightarrow>
      if 0 \<le> err \<and> mfsrr_bytes (si_wbr_mfs (fst s)) < mfsrr_watermark (si_wbr_mfs (fst s))
      then au_wbr_create_rr w env flags s else Some (err, s))"
    using create_rr_ok [OF ok1, of env flags mem1] chosen_frame(1) [OF f] ok1 c
    by (auto simp: policy_ok_def)
qed

text \<open>
  \<open>pmfs\<close> starts from the branch of \<open>tdp\<close> and takes another one with a positive parent only if
  that has more space, so its result is writable, too.
\<close>

lemma br_bytes_rw: "wbr_ok w sbi \<Longrightarrow> br_rw sbi b = Some True \<Longrightarrow> \<exists>n. br_bytes sbi b = Some n"
  unfolding br_bytes_def br_rw_def wbr_ok_def wbr_tables_def by fastforce

lemma pmfs_loop_ok:
  assumes ok: "wbr_ok w sbi" and c: "chosen_rw sbi err" "0 \<le> err"
    and at: "err \<le> di_bstart (wd_di w) \<or> err \<le> au_dbtaildir (wd_parent w)"
  shows "\<exists>m e. loop_up (pmfs_step w sbi) (au_dbstart (wd_parent w)) (au_dbtaildir (wd_parent w)) (b, err)
      = Some (m, e) \<and> chosen_rw sbi e \<and> 0 \<le> e
    \<and> (e \<le> di_bstart (wd_di w) \<or> e \<le> au_dbtaildir (wd_parent w))"
    (is "\<exists>m e. loop_up ?f ?i ?e (b, err) = Some (m, e) \<and> ?P e")
proof (cases "?e < ?i")
  case True
  then show ?thesis using loop_up_step(1) [OF True, of ?f "(b, err)"] c at by simp
next
  case False
  have "\<exists>st. loop_up ?f ?i ?e (b, err) = Some st \<and> ?P (snd st)"
  proof (rule loop_up_invariant [where I = "\<lambda>_ st. ?P (snd st)"])
    fix j and st :: "u64 \<times> int"
    assume j: "?i \<le> j" "j \<le> ?e" and i: "?P (snd st)"
    have r: "0 \<le> j" "j \<le> si_bend sbi"
      using j ok taildir_bend [OF ok] by (auto simp: au_dbstart_def wbr_ok_def)
    obtain rw where rw: "parent_rw w sbi j = Some rw" using parent_rw_total [OF ok r] by blast
    show "\<exists>st'. ?f j st = Some st' \<and> ?P (snd st')"
    proof (cases rw)
      case True
      then have jrw: "br_rw sbi j = Some True" using rw parent_rw_rw by simp
      then obtain n where "br_bytes sbi j = Some n" using br_bytes_rw [OF ok] by blast
      then show ?thesis using rw True i jrw j r by (auto simp: pmfs_step_def chosen_rw_def)
    qed (use rw i in \<open>simp add: pmfs_step_def\<close>)
  qed (use False c at in auto)
  then show ?thesis by auto
qed

lemma create_pmfs_ok:
  assumes ok: "wbr_ok w sbi"
  shows "policy_ok (chosen_rw sbi) w sbi (au_wbr_create_pmfs w env flags (sbi, mem))"
  unfolding au_wbr_create_pmfs_def Let_def
proof (rule policy_ok_bind [OF create_tdp_ok [OF ok]])
  fix err sbi1 mem1
  assume f: "policy_frame sbi sbi1" and ok1: "wbr_ok w sbi1"
    and c: "chosen_rw sbi err \<and> err \<le> di_bstart (wd_di w)"
  let ?s = "au_dbstart (wd_parent w)" and ?e = "au_dbtaildir (wd_parent w)"
  show "policy_ok (chosen_rw sbi) w sbi1 (case (err, sbi1, mem1) of (err, s) \<Rightarrow>
      if err < 0 \<or> ?s = ?e then Some (err, s)
      else Option.bind (au_wbr_create_mfs w env flags s) (\<lambda>(e2, s).
           if e2 < 0 then Some (err, s)
           else Option.bind (br_bytes (fst s) err) (\<lambda>b.
                Option.bind (loop_up (pmfs_step w (fst s)) ?s ?e (b, err)) (\<lambda>(_, err).
                then_nonopq w err s))))"
  proof (cases "err < 0 \<or> ?s = ?e")
    case True
    then show ?thesis using ok1 c by (auto simp: policy_ok_def)
  next
    case False
    have "policy_ok (chosen_rw sbi) w sbi1 (Option.bind (au_wbr_create_mfs w env flags (sbi1, mem1)) (\<lambda>(e2, s).
           if e2 < 0 then Some (err, s)
           else Option.bind (br_bytes (fst s) err) (\<lambda>b.
                Option.bind (loop_up (pmfs_step w (fst s)) ?s ?e (b, err)) (\<lambda>(_, err).
                then_nonopq w err s))))"
    proof (rule policy_ok_bind [OF create_mfs_ok [OF ok1]])
      fix e2 sbi2 mem2
      assume f2: "policy_frame sbi1 sbi2" and ok2: "wbr_ok w sbi2"
      note eq = chosen_frame(2) [OF f] chosen_frame(2) [OF f2]
      have c2: "chosen_rw sbi2 err" using c eq by simp
      then have "br_rw sbi2 err = Some True" using False by (simp add: chosen_rw_def)
      then obtain b where b: "br_bytes sbi2 err = Some b" using br_bytes_rw [OF ok2] by blast
      obtain m e where l: "loop_up (pmfs_step w sbi2) ?s ?e (b, err) = Some (m, e)" "chosen_rw sbi2 e" "0 \<le> e"
        "e \<le> di_bstart (wd_di w) \<or> e \<le> ?e"
        using pmfs_loop_ok [OF ok2 c2, of b] False c by auto
      have "policy_ok (chosen_rw sbi) w sbi2 (then_nonopq w e (sbi2, mem2))"
        by (rule policy_ok_weaken [OF then_nonopq_same [OF ok2 l(2,4)]])
          (use l(2) eq in \<open>auto simp: chosen_rw_def\<close>)
      then show "policy_ok (chosen_rw sbi) w sbi2 (case (e2, sbi2, mem2) of (e2, s) \<Rightarrow>
           if e2 < 0 then Some (err, s)
           else Option.bind (br_bytes (fst s) err) (\<lambda>b.
                Option.bind (loop_up (pmfs_step w (fst s)) ?s ?e (b, err)) (\<lambda>(_, err).
                then_nonopq w err s)))"
        using b l(1) ok2 c by (auto simp: policy_ok_def)
    qed
    then show ?thesis using False by simp
  qed
qed

lemma create_pmfsrr_ok:
  assumes ok: "wbr_ok w sbi"
  shows "policy_ok (chosen sbi) w sbi (au_wbr_create_pmfsrr w env flags (sbi, mem))"
  unfolding au_wbr_create_pmfsrr_def
proof (rule policy_ok_bind [OF create_pmfs_ok [OF ok]])
  fix err sbi1 mem1
  assume f: "policy_frame sbi sbi1" and ok1: "wbr_ok w sbi1" and c: "chosen_rw sbi err"
  have "\<exists>n. br_bytes sbi1 err = Some n" if "0 \<le> err"
    using br_bytes_rw [OF ok1] c that policy_frame_rw [OF f] by (auto simp: chosen_rw_def)
  then show "policy_ok (chosen sbi) w sbi1 (case (err, sbi1, mem1) of (err, s) \<Rightarrow>
      if err < 0 then Some (err, s)
      else Option.bind (br_bytes (fst s) err) (\<lambda>bytes.
           if bytes < mfsrr_watermark (si_wbr_mfs (fst s)) then au_wbr_create_mfsrr w env flags s
           else Some (err, s)))"
    using create_mfsrr_ok [OF ok1, of env flags mem1] chosen_frame(1) [OF f] ok1 chosen_rw_chosen [OF c]
    by (cases "err < 0") (auto simp: policy_ok_def not_less)
qed

section \<open>The copy-up policies\<close>

lemma copyup_tdp_ok:
  assumes ok: "wbr_ok w sbi"
  shows "policy_ok (chosen_rw sbi) w sbi (au_wbr_copyup_tdp w env (sbi, mem))"
  unfolding au_wbr_copyup_tdp_def by (rule policy_ok_weaken [OF create_tdp_ok [OF ok]]) simp

lemma copyup_bup_ok:
  assumes ok: "wbr_ok w sbi"
  shows "policy_ok (chosen_rw sbi) w sbi (au_wbr_copyup_bup w env (sbi, mem))"
proof -
  let ?s = "di_bstart (wd_parent w)" and ?b = "di_bstart (wd_di w)"
  have wf: "sbi_wf sbi" using ok by (simp add: wbr_ok_def wbr_tables_def)
  have "first_down (parent_rw w sbi) ?b ?s \<noteq> None"
    using parent_rw_total [OF ok] ok by (intro first_down_total) (fastforce simp: wbr_ok_def)
  then obtain r where r: "first_down (parent_rw w sbi) ?b ?s = Some r" by blast
  show ?thesis
  proof (cases r)
    case (Some k)
    then have "?s \<le> k" "k \<le> ?b" "br_rw sbi k = Some True"
      using first_down_found [of "parent_rw w sbi" ?b ?s k] r parent_rw_rw by auto
    then show ?thesis using r Some ok
      by (simp add: au_wbr_copyup_bup_def au_dbstart_def policy_ok_def chosen_rw_def wbr_ok_def)
  next
    case None
    show ?thesis
    proof (cases "?s - 1 \<le> si_bend sbi")
      case True
      then show ?thesis using wbr_bu_ok [OF wf True] r None ok
        by (auto simp: au_wbr_copyup_bup_def au_dbstart_def policy_ok_def)
    qed (use ok in \<open>simp add: wbr_ok_def\<close>)
  qed
qed

lemma copyup_bu_ok:
  assumes ok: "wbr_ok w sbi"
  shows "policy_ok (chosen_rw sbi) w sbi (au_wbr_copyup_bu w env (sbi, mem))"
proof -
  have wf: "sbi_wf sbi" and b: "0 \<le> di_bstart (wd_di w)" "di_bstart (wd_di w) \<le> si_bend sbi"
    using ok by (auto simp: wbr_ok_def wbr_tables_def)
  obtain err where e: "au_wbr_bu sbi (di_bstart (wd_di w)) = Some err" "chosen_rw sbi err"
    "err < 0 \<or> err \<le> di_bstart (wd_di w)"
    using wbr_bu_ok [OF wf b(2)] by blast
  have "\<not> di_bstart (wd_di w) < err" using e(3) b(1) by linarith
  then show ?thesis
    using e(1,2) ok by (simp add: au_wbr_copyup_bu_def au_wbr_do_copyup_bu_def au_dbstart_def policy_ok_def)
qed

section \<open>The interface of the policies and their user\<close>

text \<open>
  A create policy promises the index of an existing branch, a copy-up policy that of a writable
  one; both keep the situation and touch only what belongs to the policies.
\<close>

locale create_policy =
  fixes create :: "wbr_dentry \<Rightarrow> wbr_env \<Rightarrow> int \<Rightarrow> wstate \<Rightarrow> (int \<times> wstate) option"
  assumes create_ok: "wbr_ok w sbi \<Longrightarrow> policy_ok (chosen sbi) w sbi (create w env flags (sbi, mem))"

locale copyup_policy =
  fixes copyup :: "wbr_dentry \<Rightarrow> wbr_env \<Rightarrow> wstate \<Rightarrow> (int \<times> wstate) option"
  assumes copyup_ok: "wbr_ok w sbi \<Longrightarrow> policy_ok (chosen_rw sbi) w sbi (copyup w env (sbi, mem))"

locale wbr_policies = create_policy create + copyup_policy copyup for create copyup
begin

lemma choose_ok:
  assumes ok: "wbr_ok w sbi" and free: "force_btgt args < 0"
    and src: "\<And>b. src_bstart = Some b \<Longrightarrow> b \<le> si_bend sbi"
    and test: "\<And>sbi' b. policy_frame sbi sbi' \<Longrightarrow> 0 \<le> b \<Longrightarrow> b \<le> si_bend sbi' \<Longrightarrow>
      \<exists>r. test_ro sbi' b = Some r \<and> (r = 0 \<longrightarrow> br_rw sbi' b = Some True)"
  shows "policy_ok (chosen_rw sbi) w sbi
    (wr_dir_choose create copyup test_ro w env args src_bstart (sbi, mem))"
proof -
  let ?bs = "au_dbstart (wd_di w)"
  let ?add = "au_ftest_wrdir (wrdir_flags args) AuWrDir_ADD_ENTRY
      \<or> au_ftest_wrdir (wrdir_flags args) AuWrDir_TMP_WHENTRY"
  let ?fl = "if au_ftest_wrdir (wrdir_flags args) AuWrDir_ISDIR then AuWbr_DIR else 0"
  let ?pick = "case src_bstart of
      Some b \<Rightarrow> Some (if b < ?bs then b else ?bs, sbi, mem)
    | None \<Rightarrow> if ?add then create w env ?fl (sbi, mem) else Some (?bs, sbi, mem)"
  let ?rest = "\<lambda>(bcpup, s). Option.bind
      (if bcpup < 0 then Some True else map_option (\<lambda>r. r \<noteq> 0) (test_ro (fst s) bcpup))
      (\<lambda>ro. if ro then copyup w env s else Some (bcpup, s))"
  have "policy_ok (chosen sbi) w sbi ?pick"
    using create_ok [OF ok, of env ?fl mem] ok src
    by (auto simp: policy_ok_def chosen_def wbr_ok_def au_dbstart_def split: option.splits)
  then have "policy_ok (chosen_rw sbi) w sbi (Option.bind ?pick ?rest)"
  proof (rule policy_ok_bind)
    fix err sbi1 mem1
    assume f: "policy_frame sbi sbi1" and ok1: "wbr_ok w sbi1" and c: "chosen sbi err"
    have cu: "policy_ok (chosen_rw sbi) w sbi1 (copyup w env (sbi1, mem1))"
      using copyup_ok [OF ok1] chosen_frame(2) [OF f] by simp
    show "policy_ok (chosen_rw sbi) w sbi1 (?rest (err, sbi1, mem1))"
    proof (cases "err < 0")
      case False
      then obtain r where r: "test_ro sbi1 err = Some r" "r = 0 \<longrightarrow> br_rw sbi1 err = Some True"
        using test [OF f, of err] c policy_frame_fields [OF f] by (auto simp: chosen_def)
      show ?thesis
      proof (cases "r = 0")
        case True
        then show ?thesis using r ok1 False c policy_frame_rw [OF f]
          by (simp add: policy_ok_def chosen_rw_def chosen_def)
      qed (use r False cu in simp)
    qed (use cu in simp)
  qed
  then show ?thesis using free unfolding wr_dir_choose_def Let_def fst_conv by simp
qed

end

interpretation tdp: create_policy au_wbr_create_tdp
  by unfold_locales (rule policy_ok_weaken [OF create_tdp_ok], auto intro: chosen_rw_chosen)
interpretation rr: create_policy au_wbr_create_rr
  by unfold_locales (rule create_rr_ok)
interpretation mfs: create_policy au_wbr_create_mfs
  by unfold_locales (rule create_mfs_ok)
interpretation mfsrr: create_policy au_wbr_create_mfsrr
  by unfold_locales (rule create_mfsrr_ok)
interpretation pmfs: create_policy au_wbr_create_pmfs
  by unfold_locales (rule policy_ok_weaken [OF create_pmfs_ok], auto intro: chosen_rw_chosen)
interpretation pmfsrr: create_policy au_wbr_create_pmfsrr
  by unfold_locales (rule create_pmfsrr_ok)
interpretation cu_tdp: copyup_policy au_wbr_copyup_tdp
  by unfold_locales (rule copyup_tdp_ok)
interpretation cu_bup: copyup_policy au_wbr_copyup_bup
  by unfold_locales (rule copyup_bup_ok)
interpretation cu_bu: copyup_policy au_wbr_copyup_bu
  by unfold_locales (rule copyup_bu_ok)
interpretation wbr_default: wbr_policies au_wbr_create_tdp au_wbr_copyup_tdp
  by unfold_locales

text \<open>Every entry of the two tables is such a policy.\<close>

lemma create_ops_policy:
  assumes "au_wbr_create_ops i = Some ops"
  shows "create_policy (wo_create ops)"
  using assms tdp.create_policy_axioms rr.create_policy_axioms mfs.create_policy_axioms
    mfsrr.create_policy_axioms pmfs.create_policy_axioms pmfsrr.create_policy_axioms
  by (auto simp: au_wbr_create_ops_def split: if_splits)

lemma copyup_ops_policy:
  assumes "au_wbr_copyup_ops i = Some copyup"
  shows "copyup_policy copyup"
  using assms cu_tdp.copyup_policy_axioms cu_bup.copyup_policy_axioms cu_bu.copyup_policy_axioms
  by (auto simp: au_wbr_copyup_ops_def split: if_splits)

lemma wbr_ops_total:
  "0 \<le> i \<Longrightarrow> i \<le> AuWbrCreate_PMFSRRV \<Longrightarrow> \<exists>ops. au_wbr_create_ops i = Some ops"
  "0 \<le> j \<Longrightarrow> j \<le> AuWbrCopyup_BU \<Longrightarrow> \<exists>cu. au_wbr_copyup_ops j = Some cu"
proof -
  assume "0 \<le> i" "i \<le> AuWbrCreate_PMFSRRV"
  then have "i = 0 \<or> i = 1 \<or> i = 2 \<or> i = 3 \<or> i = 4 \<or> i = 5 \<or> i = 6 \<or> i = 7 \<or> i = 8 \<or> i = 9"
    unfolding wbr_id_defs by presburger
  then show "\<exists>ops. au_wbr_create_ops i = Some ops"
    by (auto simp: au_wbr_create_ops_def wbr_id_defs)
next
  assume "0 \<le> j" "j \<le> AuWbrCopyup_BU"
  then have "j = 0 \<or> j = 1 \<or> j = 2" unfolding wbr_id_defs by presburger
  then show "\<exists>cu. au_wbr_copyup_ops j = Some cu"
    by (auto simp: au_wbr_copyup_ops_def wbr_id_defs)
qed

section \<open>The most free space\<close>

text \<open>What \<open>au_mfs\<close> measures at an index: nothing for a branch it skips.\<close>

definition mfs_measure :: "wbr_dentry \<Rightarrow> wbr_env \<Rightarrow> bool \<Rightarrow> au_sbinfo \<Rightarrow> bindex \<Rightarrow> u64 option" where
  "mfs_measure w env p sbi b =
     (if (p \<longrightarrow> h_parent_positive w b = Some True) \<and> br_rw sbi b = Some True
      then map_option (\<lambda>(n, sz). n * sz) (we_statfs env b) else None)"

definition mfs_best ::
    "wbr_dentry \<Rightarrow> wbr_env \<Rightarrow> bool \<Rightarrow> au_sbinfo \<Rightarrow> bindex \<Rightarrow> bindex \<Rightarrow> bindex \<Rightarrow> u64 \<Rightarrow> bool" where
  "mfs_best w env p sbi i j m bavail \<longleftrightarrow>
     (if m < 0 then bavail = 0 \<and> (\<forall>k. i \<le> k \<longrightarrow> k < j \<longrightarrow> mfs_measure w env p sbi k = None)
      else i \<le> m \<and> m < j \<and> mfs_measure w env p sbi m = Some bavail
        \<and> (\<forall>k n. i \<le> k \<longrightarrow> k < j \<longrightarrow> mfs_measure w env p sbi k = Some n \<longrightarrow>
             n < bavail \<or> n = bavail \<and> k \<le> m))"

lemma mfs_measure_frame: "policy_frame sbi sbi' \<Longrightarrow> mfs_measure w env p sbi' b = mfs_measure w env p sbi b"
  by (simp add: mfs_measure_def policy_frame_rw)

lemma mfs_step_best:
  assumes run: "mfs_step w env p j (sbi, bavail) = Some (sbi', bavail')" and f: "policy_frame s0 sbi"
    and j: "0 \<le> i" "i \<le> j" and best: "mfs_best w env p s0 i j (mfs_bindex (si_wbr_mfs sbi)) bavail"
  shows "mfs_best w env p s0 i (j + 1) (mfs_bindex (si_wbr_mfs sbi')) bavail'"
proof -
  let ?m = "mfs_bindex (si_wbr_mfs sbi)"
  note eq = mfs_measure_frame [OF f, of w env p j]
  obtain pos where pos: "(if p then h_parent_positive w j else Some True) = Some pos"
    using run by (auto simp: mfs_step_def bind_eq_Some_conv)
  show ?thesis
  proof (cases "mfs_measure w env p s0 j")
    case None
    have "(sbi', bavail') = (sbi, bavail)"
      using run pos None eq
      by (auto simp: mfs_step_def mfs_measure_def bind_eq_Some_conv split: if_splits option.splits)
    moreover have "k < j \<or> k = j" if "k < j + 1" for k using that by linarith
    ultimately show ?thesis using best None unfolding mfs_best_def
      by (cases "?m < 0") force+
  next
    case (Some n)
    then have "(p \<longrightarrow> h_parent_positive w j = Some True) \<and> br_rw sbi j = Some True"
      using eq by (auto simp: mfs_measure_def split: if_splits)
    moreover obtain a sz where st: "we_statfs env j = Some (a, sz)" "n = a * sz"
      using Some by (auto simp: mfs_measure_def split: if_splits)
    moreover obtain sbi1 where s1: "set_wbr_bytes j n sbi = Some sbi1"
      using run pos calculation
      by (auto simp: mfs_step_def Let_def bind_eq_Some_conv split: if_splits)
    moreover have "si_wbr_mfs sbi1 = si_wbr_mfs sbi"
      using s1 by (auto simp: set_wbr_bytes_def bind_eq_Some_conv)
    ultimately have r: "bavail' = (if bavail \<le> n then n else bavail)"
      "mfs_bindex (si_wbr_mfs sbi') = (if bavail \<le> n then j else ?m)"
      using run pos
      by (auto simp: mfs_step_def Let_def bind_eq_Some_conv split: if_splits)
    have split: "k < j \<or> k = j" if "k < j + 1" for k using that by linarith
    show ?thesis
    proof (cases "bavail \<le> n")
      case True
      have "mfs_measure w env p s0 k = Some n' \<Longrightarrow> n' < n \<or> n' = n \<and> k \<le> j" if "i \<le> k" "k < j + 1" for k n'
        using best split [OF that(2)] that True Some unfolding mfs_best_def
        by (cases "?m < 0") force+
      then show ?thesis using r True Some j unfolding mfs_best_def by simp
    next
      case False
      then have "\<not> ?m < 0" using best unfolding mfs_best_def by (cases "?m < 0") auto
      then show ?thesis using r False Some best split unfolding mfs_best_def by force
    qed
  qed
qed

section \<open>Rounds of the round robin\<close>

text \<open>The branches of \<open>n\<close> successive turns.\<close>

fun rr_turns :: "nat \<Rightarrow> int \<Rightarrow> au_sbinfo \<Rightarrow> int list option" where
  "rr_turns 0 flags sbi = Some []"
| "rr_turns (Suc n) flags sbi =
     Option.bind (rr_loop (nat (au_sbend sbi + 1)) flags (au_sbend sbi + 1) (- 1) sbi) (\<lambda>(b, sbi').
     map_option (Cons b) (rr_turns n flags sbi'))"

lemma rr_turn:
  assumes "\<not> au_ftest_wbr flags AuWbr_DIR" and wf: "sbi_wf sbi" and b: "0 \<le> si_bend sbi"
    and rw: "\<And>b. 0 \<le> b \<Longrightarrow> b \<le> si_bend sbi \<Longrightarrow> br_rw sbi b = Some True"
    and n: "si_wbr_rr_next sbi \<noteq> 0"
  shows "rr_loop (nat (si_bend sbi + 1)) flags (si_bend sbi + 1) e sbi
    = Some (uint (si_wbr_rr_next sbi) mod (si_bend sbi + 1),
        sbi\<lparr>si_wbr_rr_next := si_wbr_rr_next sbi - 1\<rparr>)"
proof -
  have "si_bend sbi + 1 < 2 ^ 32" using wf by (simp add: sbi_wf_def AUFS_BRANCH_MAX_def)
  then have "uint (of_int (si_bend sbi + 1) :: u32) = si_bend sbi + 1"
    using b by (simp add: uint_word_of_int take_bit_int_eq_self del: of_int_add)
  then have u: "uint (si_wbr_rr_next sbi mod of_int (si_bend sbi + 1))
      = uint (si_wbr_rr_next sbi) mod (si_bend sbi + 1)" (is "?i = ?j") by (simp only: uint_mod)
  have "0 \<le> ?j" "?j \<le> si_bend sbi" using b pos_mod_bound [of "si_bend sbi + 1"] by simp_all
  from rw [OF this] have "br_rw (sbi\<lparr>si_wbr_rr_next := m\<rparr>) ?j = Some True" for m
    by (simp add: br_rw_def au_sbr_def)
  moreover obtain k where "nat (si_bend sbi + 1) = Suc k" using b by (cases "nat (si_bend sbi + 1)") auto
  ultimately show ?thesis using assms(1) n u by (simp add: rr_draw_def Let_def)
qed

lemma rr_turns_map:
  assumes "\<not> au_ftest_wbr flags AuWbr_DIR" and "sbi_wf sbi" and "0 \<le> si_bend sbi"
    and "\<And>b. 0 \<le> b \<Longrightarrow> b \<le> si_bend sbi \<Longrightarrow> br_rw sbi b = Some True"
    and "int k \<le> uint (si_wbr_rr_next sbi)"
  shows "rr_turns k flags sbi
    = Some (map (\<lambda>i. (uint (si_wbr_rr_next sbi) - int i) mod (si_bend sbi + 1)) [0..<k])"
  using assms
proof (induction k arbitrary: sbi)
  case 0
  then show ?case by simp
next
  case (Suc k)
  let ?n = "si_wbr_rr_next sbi" and ?sbi = "sbi\<lparr>si_wbr_rr_next := si_wbr_rr_next sbi - 1\<rparr>"
  have ne: "?n \<noteq> 0" using Suc.prems(5) by auto
  have dec: "uint (?n - 1) = uint ?n - 1"
    using Suc.prems(5) by (simp add: uint_sub_if')
  have wf: "sbi_wf ?sbi" using Suc.prems(2) by (simp add: sbi_wf_def live_branches_def)
  have rw: "br_rw ?sbi b = Some True" if "0 \<le> b" "b \<le> si_bend ?sbi" for b
    using Suc.prems(4) [of b] that by (simp add: br_rw_def au_sbr_def)
  have "rr_turns k flags ?sbi
      = Some (map (\<lambda>i. (uint ?n - 1 - int i) mod (si_bend sbi + 1)) [0..<k])"
    using Suc.IH [OF Suc.prems(1) wf _ rw] Suc.prems(3,5) dec by simp
  moreover have "[0..<Suc k] = 0 # map Suc [0..<k]" by (simp add: map_Suc_upt upt_conv_Cons)
  ultimately show ?case
    using rr_turn [OF Suc.prems(1-4) ne, of "- 1"]
    by (simp add: au_sbend_def comp_def algebra_simps del: upt_Suc)
qed

text \<open>
  In as many turns as there are branches, all of them writable, the round robin takes every
  branch exactly once, as long as the counter does not pass zero.
\<close>

theorem rr_turns_fair:
  assumes "\<not> au_ftest_wbr flags AuWbr_DIR" and "sbi_wf sbi" and "0 \<le> si_bend sbi"
    and "\<forall>b. 0 \<le> b \<longrightarrow> b \<le> si_bend sbi \<longrightarrow> br_rw sbi b = Some True"
    and "si_bend sbi + 1 \<le> uint (si_wbr_rr_next sbi)"
  shows "\<exists>bs. rr_turns (nat (si_bend sbi + 1)) flags sbi = Some bs \<and> distinct bs
    \<and> set bs = {0 .. si_bend sbi}"
proof -
  let ?k = "nat (si_bend sbi + 1)" and ?n = "uint (si_wbr_rr_next sbi)"
  let ?f = "\<lambda>i. (?n - int i) mod (si_bend sbi + 1)"
  have run: "rr_turns ?k flags sbi = Some (map ?f [0..<?k])"
    using assms by (intro rr_turns_map) auto
  have inj: "inj_on ?f {0..<?k}"
  proof (rule inj_onI)
    fix i j assume ij: "i \<in> {0..<?k}" "j \<in> {0..<?k}" and "?f i = ?f j"
    then have "(si_bend sbi + 1) dvd (?n - int i - (?n - int j))" by (simp only: mod_eq_dvd_iff)
    then have "(si_bend sbi + 1) dvd (int j - int i)" by simp
    moreover have "\<bar>int j - int i\<bar> < si_bend sbi + 1" using ij by auto
    ultimately show "i = j" using zdvd_imp_le [of "si_bend sbi + 1" "\<bar>int j - int i\<bar>"] by force
  qed
  have "?f ` {0..<?k} = {0 .. si_bend sbi}"
  proof (rule card_subset_eq)
    show "?f ` {0..<?k} \<subseteq> {0 .. si_bend sbi}"
      using assms(3) pos_mod_bound [of "si_bend sbi + 1"] by auto
    show "card (?f ` {0..<?k}) = card {0 .. si_bend sbi}"
      using card_image [OF inj] by simp
  qed simp
  then show ?thesis using run inj by (auto simp: distinct_map)
qed

section \<open>Properties\<close>

text \<open>
  C18: whatever policies are set, \<open>au_wr_dir\<close> settles on a writable branch or an error for a
  target that is not forced; it never leaves a table, and it changes only the counter, the
  most-free-space record and the measured space of the branches.
\<close>

theorem au_wr_dir_bindex_writable:
  assumes "wbr_ok w sbi" and "force_btgt args < 0"
    and "0 \<le> si_wbr_create sbi" and "si_wbr_create sbi \<le> AuWbrCreate_PMFSRRV"
    and "0 \<le> si_wbr_copyup sbi" and "si_wbr_copyup sbi \<le> AuWbrCopyup_BU"
    and "\<forall>b. src_bstart = Some b \<longrightarrow> b \<le> si_bend sbi"
    and "\<forall>ii b. ino = Some ii \<longrightarrow> au_ibstart ii \<le> b \<longrightarrow> b \<le> au_ibend ii \<longrightarrow> au_h_iptr ii (wd_v w) b \<noteq> None"
  shows "\<exists>err sbi' mem'. au_wr_dir_bindex w env args src_bstart ino imm (sbi, mem) = Some (err, sbi', mem')
    \<and> policy_frame sbi sbi' \<and> wbr_ok w sbi'
    \<and> (err < 0 \<or> err \<le> si_bend sbi' \<and> br_rw sbi' err = Some True)"
proof -
  obtain ops cu where ops: "au_wbr_create_ops (si_wbr_create sbi) = Some ops"
    and cu: "au_wbr_copyup_ops (si_wbr_copyup sbi) = Some cu"
    using wbr_ops_total assms(3-6) by blast
  have pol: "wbr_policies (wo_create ops) cu"
    using create_ops_policy [OF ops] copyup_ops_policy [OF cu] by (rule wbr_policies.intro)
  let ?test = "\<lambda>sbi b. au_test_ro sbi b ino (wd_v w) imm"
  have test: "\<exists>r. ?test sbi' b = Some r \<and> (r = 0 \<longrightarrow> br_rw sbi' b = Some True)"
    if f: "policy_frame sbi sbi'" and b: "0 \<le> b" "b \<le> si_bend sbi'" for sbi' b
  proof -
    have "sbi_wf sbi'" using policy_frame_sbi_wf [OF f] assms(1) by (simp add: wbr_ok_def wbr_tables_def)
    then obtain br where br: "au_sbr sbi' b = Some br" using sbi_wf_sbr [OF _ b] by blast
    show ?thesis
      using br assms(8) by (cases ino) (auto simp: au_test_ro_def br_rw_def)
  qed
  have "policy_ok (chosen_rw sbi) w sbi (wr_dir_choose (wo_create ops) cu ?test w env args src_bstart (sbi, mem))"
    by (rule wbr_policies.choose_ok [OF pol assms(1,2)]) (use assms(7) test in auto)
  then obtain err sbi' mem' where "au_wr_dir_bindex w env args src_bstart ino imm (sbi, mem) = Some (err, sbi', mem')"
    "policy_frame sbi sbi'" "wbr_ok w sbi'" "chosen_rw sbi err"
    using ops cu by (auto simp: policy_ok_def au_wr_dir_bindex_def)
  then show ?thesis
    using chosen_frame(2) by (auto simp: chosen_rw_def policy_frame_rw dest: policy_frame_fields)
qed

text \<open>
  Top-down-parent keeps the branch of the dentry if that is writable, otherwise takes a
  writable one above it; it answers \<open>-EROFS\<close> only if there is none, and \<open>-ENOMEM\<close> otherwise.
\<close>

theorem au_wbr_create_tdp_spec:
  assumes "wbr_ok w sbi"
  shows "\<exists>e sbi' mem'. au_wbr_create_tdp w env flags (sbi, mem) = Some (e, sbi', mem')
    \<and> policy_frame sbi sbi' \<and> tdp_result w sbi e"
  using create_tdp_full [OF assms] unfolding policy_ok_def by blast

text \<open>
  if its buffer can be allocated, \<open>au_mfs\<close> records the branch with the most free space
  among the writable ones that answer \<open>statfs\<close> (and have the parent, when that is asked for),
  the last of them on a tie, together with that space, and an error if there is none.
\<close>

theorem au_mfs_most_free:
  assumes ok: "wbr_ok w sbi" and mem: "list_all id mem" "mem \<noteq> []"
  shows "\<exists>sbi' mem'. au_mfs w env p (sbi, mem) = Some (sbi', mem') \<and> policy_frame sbi sbi'
    \<and> mfs_best w env p sbi (if p then au_dbstart (wd_parent w) else 0)
        ((if p then au_dbtaildir (wd_parent w) else au_sbend sbi) + 1)
        (mfs_bindex (si_wbr_mfs sbi')) (mfsrr_bytes (si_wbr_mfs sbi'))"
proof -
  let ?i = "if p then au_dbstart (wd_parent w) else 0"
  let ?e = "if p then au_dbtaildir (wd_parent w) else au_sbend sbi"
  let ?sbi1 = "sbi\<lparr>si_wbr_mfs := (si_wbr_mfs sbi)\<lparr>mfs_bindex := - EROFS, mfsrr_bytes := 0\<rparr>\<rparr>"
  let ?inv = "\<lambda>j (st :: au_sbinfo \<times> u64). policy_frame sbi (fst st) \<and> wbr_ok w (fst st)
    \<and> chosen_rw (fst st) (mfs_bindex (si_wbr_mfs (fst st)))
    \<and> mfs_best w env p sbi ?i j (mfs_bindex (si_wbr_mfs (fst st))) (snd st)"
  obtain mem1 where a: "take_alloc mem = (True, mem1)" using take_alloc_ok mem by (metis prod.collapse)
  have i0: "0 \<le> ?i" using ok by (simp add: wbr_ok_def au_dbstart_def)
  have f1: "policy_frame sbi ?sbi1" by simp
  have ok1: "wbr_ok w ?sbi1" using policy_frame_ok [OF f1 ok] ok by (simp add: wbr_ok_def)
  have init: "?inv j (?sbi1, 0)" if "j \<le> ?i" for j
    using ok1 that by (auto simp: mfs_best_def chosen_rw_def)
  have "\<exists>st'. loop_up (mfs_step w env p) ?i ?e (?sbi1, 0) = Some st' \<and> ?inv (?e + 1) st'"
  proof (cases "?e < ?i")
    case True
    show ?thesis
      by (intro exI [of _ "(?sbi1, 0)"] conjI loop_up_step(1) [OF True])
        (use init [of "?e + 1"] True in simp_all)
  next
    case False
    show ?thesis
    proof (rule loop_up_invariant [where I = ?inv])
      fix j st
      assume j: "?i \<le> j" "j \<le> ?e" and i: "?inv j st"
      have "0 \<le> j" "j \<le> si_bend (fst st)"
        using j ok taildir_bend [OF ok] i policy_frame_fields [of sbi "fst st"]
        by (auto simp: au_sbend_def au_dbstart_def wbr_ok_def split: if_splits)
      from mfs_step_ok [OF _ _ this, of w env p "snd st"] i
      obtain sbi' m where r: "mfs_step w env p j (fst st, snd st) = Some (sbi', m)" "policy_frame (fst st) sbi'"
        "wbr_ok w sbi'" "chosen_rw sbi' (mfs_bindex (si_wbr_mfs sbi'))" by auto
      have "mfs_best w env p sbi ?i (j + 1) (mfs_bindex (si_wbr_mfs sbi')) m"
        by (rule mfs_step_best [OF r(1) _ i0 j(1)]) (use i in simp_all)
      then show "\<exists>st'. mfs_step w env p j st = Some st' \<and> ?inv (j + 1) st'"
        using r policy_frame_trans [of sbi "fst st"] i
        by (intro exI [of _ "(sbi', m)"]) simp
    qed (use False init in auto)
  qed
  then obtain sbi2 bavail where l: "loop_up (mfs_step w env p) ?i ?e (?sbi1, 0) = Some (sbi2, bavail)"
    "?inv (?e + 1) (sbi2, bavail)" by auto
  then show ?thesis using a by (auto simp: au_mfs_def Let_def)
qed

lemma rr_loop_dir:
  assumes "au_ftest_wbr flags AuWbr_DIR"
    and "br_rw sbi (uint (si_wbr_rr_next sbi mod of_int nbr)) = Some False"
  shows "rr_loop (Suc n) flags nbr err sbi = Some (- EROFS, sbi)"
  using assms
proof (induction n arbitrary: err)
  case (Suc n)
  have "rr_loop (Suc (Suc n)) flags nbr err sbi = rr_loop (Suc n) flags nbr (- EROFS) sbi"
    using Suc.prems by (subst rr_loop.simps) (simp add: rr_draw_def)
  then show ?case using Suc.IH [OF Suc.prems] by simp
qed (simp add: rr_draw_def)

text \<open>
  for a directory the round robin looks at one branch only, as often as there are branches:
  the counter is read, not stepped. If that branch is readonly, \<open>mkdir\<close> gets \<open>-EROFS\<close> from the
  policy although others may be writable.
\<close>

theorem au_wbr_create_rr_dir_probe:
  assumes "au_ftest_wbr flags AuWbr_DIR"
    and "au_wbr_create_exp w s = Some (e, sbi, mem)" and "e < 0" and "0 \<le> si_bend sbi"
    and "br_rw sbi (uint (si_wbr_rr_next sbi mod of_int (si_bend sbi + 1))) = Some False"
  shows "au_wbr_create_rr w env flags s = Some (- EROFS, sbi, mem)"
proof -
  obtain k where "nat (si_bend sbi + 1) = Suc k" using assms(4) by (cases "nat (si_bend sbi + 1)") auto
  then show ?thesis
    using assms(2,3) rr_loop_dir [OF assms(1,5), of k e]
    by (simp add: au_wbr_create_rr_def au_sbend_def then_nonopq_def Let_def del: rr_loop.simps)
qed

text \<open>
  the bottom-up copy-up policy is the plain bottom-up search: its test for opaque ancestors
  asks for a branch below the start, which the search never answers, so it never runs.
\<close>

theorem au_wbr_copyup_bu_plain:
  assumes "0 \<le> di_bstart (wd_di w)"
  shows "au_wbr_copyup_bu w env s = map_option (\<lambda>err. (err, s)) (au_wbr_bu (fst s) (di_bstart (wd_di w)))"
proof -
  have "\<not> di_bstart (wd_di w) < err" if "au_wbr_bu (fst s) (di_bstart (wd_di w)) = Some err" for err
    using that assms first_down_found [of "br_rw (fst s)" "di_bstart (wd_di w)" 0]
    by (auto simp: au_wbr_bu_def split: option.splits)
  then show ?thesis
    by (cases "au_wbr_bu (fst s) (di_bstart (wd_di w))")
      (auto simp: au_wbr_copyup_bu_def au_wbr_do_copyup_bu_def au_dbstart_def)
qed

text \<open>
  Two writable branches around a readonly one; the dentry and its parent start at the readonly
  one, and the parent has an opaque ancestor on the lowest branch.
\<close>

definition example_wbr :: wbr_dentry where
  "example_wbr =
     \<lparr>wd_di = example_dinfo\<lparr>di_bend := 1\<rparr>, wd_parent = example_dinfo, wd_v = example_vfs, wd_sb = 1,
      wd_anc = [\<lparr>pd_count = 1, pd_sb = 1, pd_di = Some (example_dinfo\<lparr>di_bdiropq := 2\<rparr>)\<rparr>]\<rparr>"

definition example_wbr_env :: wbr_env where
  "example_wbr_env = \<lparr>we_jiffies = 7, we_statfs = (\<lambda>b. Some (of_int b + 1, 4096))\<rparr>"

lemma example_wbr_ok: "wbr_ok example_wbr example_sbinfo"
proof -
  have "br_wbr br \<noteq> None" if "au_sbr example_sbinfo b = Some br" "\<not> au_br_rdonly br" for b br
  proof -
    have "Some br \<in> set (si_branch example_sbinfo)"
      using that(1) by (auto simp: au_sbr_def arr_get_def split: if_splits) (metis nat_less_iff nth_mem)
    then show ?thesis using that(2)
      by (auto simp: example_sbinfo_def example_branch_def au_br_rdonly_def)
  qed
  moreover have "mfs_bindex (si_wbr_mfs example_sbinfo) = 0" "si_bend example_sbinfo = 2"
    by (simp_all add: example_sbinfo_def au_si_alloc_def)
  moreover have "wbr_alive example_wbr"
    by (simp add: wbr_alive_def example_wbr_def example_dinfo_def dslots_def example_vfs_def)
  ultimately show ?thesis
    using example_sbinfo_wf
    by (auto simp: wbr_ok_def wbr_tables_def example_wbr_def example_dinfo_def anc_opq_def opq_below_def
        au_dbtaildir_def au_dbtail_def au_dbend_def au_dbwh_def au_dbdiropq_def)
qed

theorem au_wr_dir_bindex_writable_witness:
  "\<exists>err sbi' mem'. au_wr_dir_bindex example_wbr example_wbr_env
      \<lparr>force_btgt = - 1, wrdir_flags = AuWrDir_ADD_ENTRY\<rparr> None None (\<lambda>_. False) (example_sbinfo, [True, True])
      = Some (err, sbi', mem')
    \<and> (err < 0 \<or> err \<le> si_bend sbi' \<and> br_rw sbi' err = Some True)"
proof -
  have "si_wbr_create example_sbinfo = 0" "si_wbr_copyup example_sbinfo = 0"
    by (simp_all add: example_sbinfo_def au_si_alloc_def)
  then show ?thesis
    using au_wr_dir_bindex_writable [OF example_wbr_ok,
        of "\<lparr>force_btgt = - 1, wrdir_flags = AuWrDir_ADD_ENTRY\<rparr>" None None example_wbr_env "\<lambda>_. False"
          "[True, True]"]
    by (auto simp: wbr_id_defs)
qed

theorem au_wbr_create_tdp_spec_witness:
  "\<exists>e sbi' mem'. au_wbr_create_tdp example_wbr example_wbr_env 0 (example_sbinfo, [True, True])
      = Some (e, sbi', mem') \<and> tdp_result example_wbr example_sbinfo e"
  using au_wbr_create_tdp_spec [OF example_wbr_ok, of example_wbr_env 0 "[True, True]"] by blast

theorem au_mfs_most_free_witness:
  "\<exists>sbi' mem'. au_mfs example_wbr example_wbr_env False (example_sbinfo, [True]) = Some (sbi', mem')
    \<and> mfs_best example_wbr example_wbr_env False example_sbinfo 0 (au_sbend example_sbinfo + 1)
        (mfs_bindex (si_wbr_mfs sbi')) (mfsrr_bytes (si_wbr_mfs sbi'))"
  using au_mfs_most_free [OF example_wbr_ok, of "[True]" example_wbr_env False] by auto

text \<open>The same branches, all writable, and the counter at 5.\<close>

definition example_rr :: au_sbinfo where
  "example_rr = example_sbinfo\<lparr>si_branch := [Some (example_branch 1 1 100), Some (example_branch 2 1 101),
     Some (example_branch 127 1 102)], si_wbr_rr_next := 5\<rparr>"

theorem rr_turns_fair_witness:
  "\<exists>bs. rr_turns 3 0 example_rr = Some bs \<and> distinct bs \<and> set bs = {0 .. 2}"
proof -
  have wf: "sbi_wf example_rr"
    by (simp add: sbi_wf_def example_rr_def example_sbinfo_def live_branches_def example_branch_def
        AUFS_BRANCH_MAX_def eval_nat_numeral)
  have bend: "si_bend example_rr = 2" by (simp add: example_rr_def example_sbinfo_def)
  have "br_rw example_rr b = Some True" if "0 \<le> b" "b \<le> 2" for b
  proof -
    have "b = 0 \<or> b = 1 \<or> b = 2" using that by presburger
    then show ?thesis
      by (auto simp: br_rw_def au_sbr_def arr_get_def example_rr_def example_branch_def au_br_rdonly_def
          h_tmpfs_def au_br_writable_def AuBrPerm_RW_def)
  qed
  moreover have "si_wbr_rr_next example_rr = 5" by (simp add: example_rr_def)
  ultimately show ?thesis
    using rr_turns_fair [of 0 example_rr] wf bend by (simp add: au_ftest_wbr_def)
qed

theorem au_wbr_create_rr_dir_probe_witness:
  "au_wbr_create_rr (example_wbr\<lparr>wd_anc := []\<rparr>) example_wbr_env AuWbr_DIR
     (example_sbinfo\<lparr>si_wbr_rr_next := 1\<rparr>, [])
   = Some (- EROFS, example_sbinfo\<lparr>si_wbr_rr_next := 1\<rparr>, [])
   \<and> br_rw example_sbinfo 0 = Some True"
proof -
  let ?sbi = "example_sbinfo\<lparr>si_wbr_rr_next := 1\<rparr>"
  have "au_wbr_create_exp (example_wbr\<lparr>wd_anc := []\<rparr>) (?sbi, []) = Some (- 1, ?sbi, [])"
    by (simp add: au_wbr_create_exp_def example_wbr_def example_dinfo_def au_dbwh_def au_dbdiropq_def
        then_nonopq_def)
  moreover have "br_rw ?sbi (uint (si_wbr_rr_next ?sbi mod of_int (si_bend ?sbi + 1))) = Some False"
    by (simp add: example_sbinfo_def br_rw_def au_sbr_def arr_get_def example_branch_def au_br_rdonly_def
        h_tmpfs_def au_br_writable_def AuBrPerm_RW_def)
  moreover have "br_rw example_sbinfo 0 = Some True"
    by (simp add: example_sbinfo_def br_rw_def au_sbr_def arr_get_def example_branch_def au_br_rdonly_def
        h_tmpfs_def au_br_writable_def AuBrPerm_RW_def)
  ultimately show ?thesis
    using au_wbr_create_rr_dir_probe [of AuWbr_DIR "example_wbr\<lparr>wd_anc := []\<rparr>" "(?sbi, [])" "- 1" ?sbi "[]"
        example_wbr_env]
    by (simp add: au_ftest_wbr_def AuWbr_DIR_def example_sbinfo_def)
qed

theorem au_wbr_copyup_bu_plain_witness:
  "au_wbr_copyup_bu example_wbr example_wbr_env (example_sbinfo, [])
   = map_option (\<lambda>err. (err, example_sbinfo, [])) (au_wbr_bu example_sbinfo 1)"
  using au_wbr_copyup_bu_plain [of example_wbr example_wbr_env "(example_sbinfo, [])"]
  by (simp add: example_wbr_def example_dinfo_def)

end
