(* ===== verification/Name_Hash.thy ===== *)
theory Name_Hash
  imports Aufs_Prelude "HOL-Library.Multiset"
begin

text \<open>
  The hash tables of names that merge the directories of the branches (\<open>struct au_nhash\<close> of
  \<open>dir.h\<close>, \<open>vdir.c\<close> 60-275): a bucket is the list \<open>hlist\<close>, an element is added in front. One
  table holds the whiteouts, whose names are copied (\<open>struct au_vdir_wh\<close>), another points to
  the entries that are already in the merged directory. A name is its bytes; the length byte
  that is stored with it is its length modulo 256, as in the code.
\<close>

section \<open>Tables\<close>

record 'a au_nhash =
  nh_num :: u32
  nh_head :: "'a list list"

text \<open>\<open>loff_t\<close> is \<open>int\<close>; \<open>UINT_MAX\<close> limits the estimate.\<close>

definition au_rdhash_est :: "int \<Rightarrow> u32" where
  "au_rdhash_est sz =
     (let sz = sz div 1024;
          n = (if sz < 2 ^ 32 - 1 then of_int sz else - 1 :: u32)
      in if sz < 32 then 32 else n)"

text \<open>
  \<open>sizeof(struct hlist_head)\<close> is 4; the size is computed in 32 bits, and the loop that
  initializes the heads writes \<open>num\<close> of them: behind the block is the fault.
\<close>

definition au_nhash_alloc :: "u32 \<Rightarrow> mem_oracle \<Rightarrow> (int \<times> 'a au_nhash option \<times> mem_oracle) option" where
  "au_nhash_alloc num_hash mem =
     (let sz = 4 * num_hash; (ok, mem') = take_alloc mem
      in if \<not> ok then Some (- ENOMEM, None, mem')
         else if uint sz < 4 * uint num_hash then None
         else Some (0, Some \<lparr>nh_num = num_hash, nh_head = replicate (unat num_hash) []\<rparr>, mem'))"

text \<open>The elements that are freed, in the order of the code.\<close>

definition au_nhash_do_free :: "'a au_nhash \<Rightarrow> 'a list" where
  "au_nhash_do_free nh = (if nh_num nh = 0 then [] else concat (take (unat (nh_num nh)) (nh_head nh)))"

text \<open>\<open>while (len--) v += *name++;\<close>, an unsigned int.\<close>

fun name_sum :: "u8 list \<Rightarrow> u32 \<Rightarrow> u32" where
  "name_sum [] v = v"
| "name_sum (c # cs) v = name_sum cs (v + ucast c)"

text \<open>The index of the bucket; no table is the fault (\<open>AuDebugOn\<close>, and a division by zero).\<close>

definition au_name_hash :: "'a au_nhash \<Rightarrow> u8 list \<Rightarrow> nat option" where
  "au_name_hash nh name =
     (if nh_num nh = 0 then None else Some (unat (name_sum name 0 mod nh_num nh)))"

definition hlist_add_head :: "'a au_nhash \<Rightarrow> u8 list \<Rightarrow> 'a \<Rightarrow> 'a au_nhash option" where
  "hlist_add_head nh name x =
     Option.bind (au_name_hash nh name) (\<lambda>i.
     if i < length (nh_head nh)
     then Some (nh\<lparr>nh_head := (nh_head nh)[i := x # nh_head nh ! i]\<rparr>) else None)"

text \<open>The search of a bucket; the test of an element may read memory.\<close>

fun hlist_any :: "('a \<Rightarrow> bool option) \<Rightarrow> 'a list \<Rightarrow> bool option" where
  "hlist_any p [] = Some False"
| "hlist_any p (x # xs) = Option.bind (p x) (\<lambda>b. if b then Some True else hlist_any p xs)"

definition nhash_test :: "('a \<Rightarrow> bool option) \<Rightarrow> 'a au_nhash \<Rightarrow> u8 list \<Rightarrow> bool option" where
  "nhash_test p nh name =
     Option.bind (au_name_hash nh name) (\<lambda>i.
     if i < length (nh_head nh) then hlist_any p (nh_head nh ! i) else None)"

section \<open>Whiteouts\<close>

record au_vdir_wh =
  wh_ino :: u32
  wh_bindex :: int
  wh_type :: u8
  wh_len :: u8
  wh_name :: "u8 list"

text \<open>\<open>str->len == nlen && !memcmp(str->name, name, nlen)\<close>\<close>

definition au_nhash_test_name :: "u8 \<Rightarrow> u8 list \<Rightarrow> u8 list \<Rightarrow> bool" where
  "au_nhash_test_name len str name \<longleftrightarrow> unat len = length name \<and> take (length name) str = name"

definition au_nhash_test_known_wh :: "au_vdir_wh au_nhash \<Rightarrow> u8 list \<Rightarrow> bool option" where
  "au_nhash_test_known_wh whlist name =
     nhash_test (\<lambda>pos. Some (au_nhash_test_name (wh_len pos) (wh_name pos) name)) whlist name"

text \<open>
  \<open>shwh\<close> of the configuration decides whether the entry keeps the inode number and the type;
  without it the fields do not exist (here: zero).
\<close>

definition au_shwh_init_wh :: "bool \<Rightarrow> au_vdir_wh \<Rightarrow> u32 \<Rightarrow> u8 \<Rightarrow> au_vdir_wh" where
  "au_shwh_init_wh cfg wh ino d_type = (if cfg then wh\<lparr>wh_ino := ino, wh_type := d_type\<rparr> else wh)"

definition au_nhash_append_wh ::
    "bool \<Rightarrow> au_vdir_wh au_nhash \<Rightarrow> u8 list \<Rightarrow> u32 \<Rightarrow> u8 \<Rightarrow> int \<Rightarrow> bool \<Rightarrow> mem_oracle
     \<Rightarrow> (int \<times> au_vdir_wh au_nhash \<times> mem_oracle) option" where
  "au_nhash_append_wh cfg whlist name ino d_type bindex shwh mem =
     (if nh_num whlist = 0 then None
      else
        let (ok, mem') = take_alloc mem;
            wh0 = \<lparr>wh_ino = 0, wh_bindex = bindex, wh_type = 0, wh_len = of_nat (length name),
                   wh_name = name\<rparr>;
            wh = (if shwh then au_shwh_init_wh cfg wh0 ino d_type else wh0)
        in if \<not> ok then Some (- ENOMEM, whlist, mem')
           else map_option (\<lambda>w. (0, w, mem')) (hlist_add_head whlist name wh))"

text \<open>The two loops of \<open>au_nhash_test_longer_wh\<close>, with the counter.\<close>

fun longer_wh_bucket :: "int \<Rightarrow> int \<Rightarrow> au_vdir_wh list \<Rightarrow> int \<Rightarrow> bool \<times> int" where
  "longer_wh_bucket btgt limit [] num = (False, num)"
| "longer_wh_bucket btgt limit (w # ws) num =
     (if wh_bindex w = btgt
      then if limit < num + 1 then (True, num + 1) else longer_wh_bucket btgt limit ws (num + 1)
      else longer_wh_bucket btgt limit ws num)"

fun longer_wh_loop :: "int \<Rightarrow> int \<Rightarrow> au_vdir_wh list list \<Rightarrow> int \<Rightarrow> bool" where
  "longer_wh_loop btgt limit [] num = False"
| "longer_wh_loop btgt limit (b # bs) num =
     (let (r, num') = longer_wh_bucket btgt limit b num
      in if r then True else longer_wh_loop btgt limit bs num')"

definition au_nhash_test_longer_wh :: "au_vdir_wh au_nhash \<Rightarrow> int \<Rightarrow> int \<Rightarrow> bool" where
  "au_nhash_test_longer_wh whlist btgt limit =
     longer_wh_loop btgt limit (take (unat (nh_num whlist)) (nh_head whlist)) 0"

section \<open>The table as a set of names\<close>

definition nhash_wf :: "('a \<Rightarrow> u8 list) \<Rightarrow> 'a au_nhash \<Rightarrow> bool" where
  "nhash_wf key nh \<longleftrightarrow> nh_num nh \<noteq> 0 \<and> length (nh_head nh) = unat (nh_num nh)
     \<and> (\<forall>i < length (nh_head nh). \<forall>x \<in> set (nh_head nh ! i). au_name_hash nh (key x) = Some i)"

definition nhash_names :: "('a \<Rightarrow> u8 list) \<Rightarrow> 'a au_nhash \<Rightarrow> u8 list set" where
  "nhash_names key nh = key ` set (concat (nh_head nh))"

lemma au_name_hash_bound:
  assumes "nhash_wf key nh"
  shows "\<exists>i. au_name_hash nh name = Some i \<and> i < length (nh_head nh)"
proof -
  have n: "nh_num nh \<noteq> 0" "length (nh_head nh) = unat (nh_num nh)" using assms by (auto simp: nhash_wf_def)
  then have "0 < unat (nh_num nh)" by (simp add: unat_gt_0)
  then show ?thesis using n by (simp add: au_name_hash_def unat_mod)
qed

lemma hlist_any_eq:
  "(\<And>x. x \<in> set xs \<Longrightarrow> p x = Some (q x)) \<Longrightarrow> hlist_any p xs = Some (\<exists>x \<in> set xs. q x)"
  by (induction xs) auto

text \<open>The search of one bucket finds a name that is anywhere in the table.\<close>

lemma nhash_test_names:
  assumes wf: "nhash_wf key nh"
    and p: "\<And>x. x \<in> set (concat (nh_head nh)) \<Longrightarrow> p x = Some (key x = name)"
  shows "nhash_test p nh name = Some (name \<in> nhash_names key nh)"
proof -
  obtain i where i: "au_name_hash nh name = Some i" "i < length (nh_head nh)"
    using au_name_hash_bound [OF wf] by blast
  have "hlist_any p (nh_head nh ! i) = Some (\<exists>x \<in> set (nh_head nh ! i). key x = name)"
    by (rule hlist_any_eq) (use p i(2) nth_mem in auto)
  moreover have "(\<exists>x \<in> set (nh_head nh ! i). key x = name) \<longleftrightarrow> name \<in> nhash_names key nh"
  proof
    assume "name \<in> nhash_names key nh"
    then obtain x b where "b \<in> set (nh_head nh)" and x': "x \<in> set b" "key x = name"
      by (auto simp: nhash_names_def)
    then obtain j where "j < length (nh_head nh)" "nh_head nh ! j = b" by (auto simp: in_set_conv_nth)
    then have x: "j < length (nh_head nh)" "x \<in> set (nh_head nh ! j)" "key x = name" using x' by auto
    then have "au_name_hash nh name = Some j" using wf by (auto simp: nhash_wf_def)
    then show "\<exists>x \<in> set (nh_head nh ! i). key x = name" using i x by auto
  qed (use i(2) nth_mem in \<open>auto simp: nhash_names_def\<close>)
  ultimately show ?thesis using i by (simp add: nhash_test_def)
qed

lemma hlist_add_head_ok:
  assumes wf: "nhash_wf key nh" and k: "key x = name"
  shows "\<exists>nh'. hlist_add_head nh name x = Some nh' \<and> nhash_wf key nh'
    \<and> nhash_names key nh' = insert name (nhash_names key nh)
    \<and> mset (concat (nh_head nh')) = add_mset x (mset (concat (nh_head nh)))
    \<and> nh_num nh' = nh_num nh"
proof -
  obtain i where i: "au_name_hash nh name = Some i" "i < length (nh_head nh)"
    using au_name_hash_bound [OF wf] by blast
  let ?b = "nh_head nh"
  let ?b' = "?b[i := x # ?b ! i]"
  let ?nh = "nh\<lparr>nh_head := ?b'\<rparr>"
  have h: "au_name_hash ?nh n = au_name_hash nh n" for n by (simp add: au_name_hash_def)
  have "?b' = take i ?b @ (x # ?b ! i) # drop (Suc i) ?b" using i(2) by (simp add: upd_conv_take_nth_drop)
  moreover have "?b = take i ?b @ ?b ! i # drop (Suc i) ?b" using i(2) by (simp add: id_take_nth_drop)
  ultimately have m: "mset (concat ?b') = add_mset x (mset (concat ?b))"
    by (metis (no_types, lifting) concat.simps(2) concat_append mset.simps(2) mset_append
        append_Cons union_mset_add_mset_right) 
  have "set (concat ?b') = insert x (set (concat ?b))"
    using arg_cong [OF m, of set_mset] by simp
  then have "nhash_names key ?nh = insert name (nhash_names key nh)"
    using k by (simp add: nhash_names_def)
  moreover have "nhash_wf key ?nh"
    using wf i k by (auto simp: nhash_wf_def h nth_list_update)
  moreover have "hlist_add_head nh name x = Some ?nh" using i by (simp add: hlist_add_head_def)
  ultimately show ?thesis using m by auto
qed

lemma nhash_alloc_wf:
  assumes "au_nhash_alloc n mem = Some (0, Some nh, mem')" and "n \<noteq> 0"
  shows "nhash_wf key nh" "nhash_names key nh = {}" "nh_num nh = n"
  using assms by (auto simp: au_nhash_alloc_def nhash_wf_def nhash_names_def Let_def
      split: prod.splits if_splits)

text \<open>A whiteout is looked up by its name, if that fits the length byte.\<close>

definition wh_wf :: "au_vdir_wh au_nhash \<Rightarrow> bool" where
  "wh_wf whlist \<longleftrightarrow> nhash_wf wh_name whlist
     \<and> (\<forall>w \<in> set (concat (nh_head whlist)). unat (wh_len w) = length (wh_name w))"

lemma known_wh_ok:
  assumes "wh_wf whlist"
  shows "au_nhash_test_known_wh whlist name = Some (name \<in> nhash_names wh_name whlist)"
  unfolding au_nhash_test_known_wh_def
  by (rule nhash_test_names) (use assms in \<open>auto simp: wh_wf_def au_nhash_test_name_def\<close>)

lemma append_wh_ok:
  assumes wf: "wh_wf whlist" and len: "length name < 256"
  shows "\<exists>err whlist' mem'. au_nhash_append_wh cfg whlist name ino d_type b shwh mem = Some (err, whlist', mem')
    \<and> wh_wf whlist'
    \<and> (if err = 0 then nhash_names wh_name whlist' = insert name (nhash_names wh_name whlist)
       else err = - ENOMEM \<and> whlist' = whlist)
    \<and> (list_all id mem \<and> mem \<noteq> [] \<longrightarrow> err = 0)"
proof -
  obtain ok mem1 where a: "take_alloc mem = (ok, mem1)" by force
  let ?w0 = "\<lparr>wh_ino = 0, wh_bindex = b, wh_type = 0, wh_len = of_nat (length name), wh_name = name\<rparr>"
  let ?w = "if shwh then au_shwh_init_wh cfg ?w0 ino d_type else ?w0"
  have n: "wh_name ?w = name" "unat (wh_len ?w) = length name"
    using len by (auto simp: au_shwh_init_wh_def unat_of_nat take_bit_nat_eq_self)
  have nz: "nh_num whlist \<noteq> 0" using wf by (auto simp: wh_wf_def nhash_wf_def)
  obtain nh' where h: "hlist_add_head whlist name ?w = Some nh'" "nhash_wf wh_name nh'"
    "nhash_names wh_name nh' = insert name (nhash_names wh_name whlist)"
    "mset (concat (nh_head nh')) = add_mset ?w (mset (concat (nh_head whlist)))"
    using hlist_add_head_ok [of wh_name whlist ?w name] wf n by (auto simp: wh_wf_def)
  have "set (concat (nh_head nh')) = insert ?w (set (concat (nh_head whlist)))"
    using arg_cong [OF h(4), of set_mset] by simp
  then have "wh_wf nh'" using h(2) wf n by (auto simp: wh_wf_def)
  then show ?thesis using a h nz wf take_alloc_ok [OF a]
    by (auto simp: au_nhash_append_wh_def Let_def)
qed

end
