(* ===== verification/Deblk.thy ===== *)
theory Deblk
  imports Name_Hash
begin

text \<open>
  The memory of a merged directory (\<open>struct au_vdir\<close>, \<open>dir.h\<close> and \<open>vdir.c\<close>): blocks of
  \<open>vd_deblk_sz\<close> bytes filled with packed entries (inode number, type, length, name), each
  aligned to 4 bytes; a block ends where the length byte is zero or where no header fits. A
  block is the list of its bytes; every access outside it is the fault \<open>None\<close>. A new block has
  arbitrary contents, the function \<open>fresh\<close>. A pointer into the blocks is a block number and
  an offset.
\<close>

section \<open>Bytes\<close>

definition byte_at :: "u8 list \<Rightarrow> nat \<Rightarrow> u8 option" where
  "byte_at blk i = (if i < length blk then Some (blk ! i) else None)"

definition get_bytes :: "u8 list \<Rightarrow> nat \<Rightarrow> nat \<Rightarrow> u8 list option" where
  "get_bytes blk off n = (if off + n \<le> length blk then Some (take n (drop off blk)) else None)"

definition put_bytes :: "u8 list \<Rightarrow> nat \<Rightarrow> u8 list \<Rightarrow> u8 list option" where
  "put_bytes blk off bs =
     (if off + length bs \<le> length blk
      then Some (take off blk @ bs @ drop (off + length bs) blk) else None)"

text \<open>An \<open>ino_t\<close> in memory, little endian.\<close>

definition ino_bytes :: "u32 \<Rightarrow> u8 list" where
  "ino_bytes w = [ucast w, ucast (drop_bit 8 w), ucast (drop_bit 16 w), ucast (drop_bit 24 w)]"

definition bytes_ino :: "u8 list \<Rightarrow> u32" where
  "bytes_ino bs = foldr (\<lambda>b w. or (ucast b) (push_bit 8 w)) bs 0"

section \<open>Entries\<close>

text \<open>\<open>ALIGN(sizeof(struct au_vdir_de) + nlen, sizeof(ino_t))\<close>\<close>

definition calc_size :: "nat \<Rightarrow> nat" where
  "calc_size nlen = (6 + nlen + 3) div 4 * 4"

text \<open>
  \<open>deblk_end->deblk - p->deblk\<close> as it is compared with an unsigned size: a pointer behind the
  end has much room.
\<close>

definition room_left :: "u32 \<Rightarrow> nat \<Rightarrow> nat" where
  "room_left sz off = unat (sz - of_nat off)"

definition set_deblk_end :: "u32 \<Rightarrow> u8 list \<Rightarrow> nat \<Rightarrow> (int \<times> u8 list) option" where
  "set_deblk_end sz blk off =
     (if calc_size 0 \<le> room_left sz off
      then map_option (\<lambda>b. (0, b)) (put_bytes blk (off + 5) [0]) else Some (- 1, blk))"

definition is_deblk_end :: "u32 \<Rightarrow> u8 list \<Rightarrow> nat \<Rightarrow> bool option" where
  "is_deblk_end sz blk off =
     (if calc_size 0 \<le> room_left sz off
      then map_option (\<lambda>len. len = 0) (byte_at blk (off + 5)) else Some True)"

record au_vdir_de =
  de_ino :: u32
  de_type :: u8
  de_name :: "u8 list"

definition de_at :: "u8 list \<Rightarrow> nat \<Rightarrow> au_vdir_de option" where
  "de_at blk off =
     Option.bind (get_bytes blk off 4) (\<lambda>ino.
     Option.bind (byte_at blk (off + 4)) (\<lambda>ty.
     Option.bind (byte_at blk (off + 5)) (\<lambda>len.
     map_option (\<lambda>name. \<lparr>de_ino = bytes_ino ino, de_type = ty, de_name = name\<rparr>)
       (get_bytes blk (off + 6) (unat len)))))"

text \<open>The stores of \<open>append_de\<close> into the entry, one after the other.\<close>

definition put_de :: "u8 list \<Rightarrow> nat \<Rightarrow> u32 \<Rightarrow> u8 \<Rightarrow> u8 list \<Rightarrow> u8 list option" where
  "put_de blk off ino d_type name =
     Option.bind (put_bytes blk off (ino_bytes ino)) (\<lambda>b1.
     Option.bind (put_bytes b1 (off + 4) [d_type]) (\<lambda>b2.
     Option.bind (put_bytes b2 (off + 5) [of_nat (length name)]) (\<lambda>b3.
     put_bytes b3 (off + 6) name)))"

section \<open>The directory\<close>

record au_vdir =
  vd_deblk :: "u8 list list"
  vd_ul :: nat
  vd_off :: nat
  vd_version :: u32
  vd_deblk_sz :: u32
  vd_jiffy :: u32

text \<open>A pointer to a name in the directory (\<open>struct au_vdir_dehstr\<close>): its length byte.\<close>

type_synonym dehstr = "nat \<times> nat"

definition destr_name :: "au_vdir \<Rightarrow> dehstr \<Rightarrow> u8 list option" where
  "destr_name vd p =
     (if fst p < length (vd_deblk vd)
      then Option.bind (byte_at (vd_deblk vd ! fst p) (snd p)) (\<lambda>len.
           get_bytes (vd_deblk vd ! fst p) (snd p + 1) (unat len))
      else None)"

text \<open>\<open>test_known\<close>: the names are compared in the blocks.\<close>

definition test_known :: "au_vdir \<Rightarrow> dehstr au_nhash \<Rightarrow> u8 list \<Rightarrow> bool option" where
  "test_known vd delist name =
     nhash_test (\<lambda>p. map_option (\<lambda>str. str = name) (destr_name vd p)) delist name"

definition append_deblk ::
    "(nat \<Rightarrow> u8) \<Rightarrow> au_vdir \<Rightarrow> mem_oracle \<Rightarrow> (int \<times> au_vdir \<times> mem_oracle) option" where
  "append_deblk fresh vd mem =
     (let (ok1, mem1) = take_alloc mem; (ok2, mem2) = take_alloc mem1
      in if \<not> ok1 then Some (- ENOMEM, vd, mem1)
         else if \<not> ok2 then Some (- ENOMEM, vd, mem2)
         else
           map_option (\<lambda>(err, blk).
               (err, vd\<lparr>vd_deblk := vd_deblk vd @ [blk], vd_ul := length (vd_deblk vd), vd_off := 0\<rparr>, mem2))
             (set_deblk_end (vd_deblk_sz vd) (map fresh [0..<unat (vd_deblk_sz vd)]) 0))"

text \<open>
  \<open>append_de\<close>. The room is in the last block; the three conditions of \<open>AuDebugOn\<close> are
  faults. \<open>append_de_here\<close> is the part after a block with room was found.
\<close>

definition append_de_here ::
    "(nat \<Rightarrow> u8) \<Rightarrow> au_vdir \<Rightarrow> u8 list \<Rightarrow> u32 \<Rightarrow> u8 \<Rightarrow> dehstr au_nhash \<Rightarrow> mem_oracle
     \<Rightarrow> (int \<times> au_vdir \<times> dehstr au_nhash \<times> mem_oracle) option" where
  "append_de_here fresh vd name ino d_type delist mem =
     (let (ok, mem1) = take_alloc mem;
          ul = vd_ul vd; off = vd_off vd; off' = off + calc_size (length name)
      in if \<not> ok then Some (- ENOMEM, vd, delist, mem1)
         else
           Option.bind (hlist_add_head delist name (ul, off + 5)) (\<lambda>delist'.
           Option.bind (put_de (vd_deblk vd ! ul) off ino d_type name) (\<lambda>blk.
           Option.bind (set_deblk_end (vd_deblk_sz vd) blk off') (\<lambda>(err, blk').
           let vd' = vd\<lparr>vd_deblk := (vd_deblk vd)[ul := blk'], vd_off := off'\<rparr>
           in if err = 0 then Some (0, vd', delist', mem1)
              else map_option (\<lambda>(err, vd'', mem2). (err, vd'', delist', mem2))
                     (append_deblk fresh vd' mem1)))))"

definition append_de ::
    "(nat \<Rightarrow> u8) \<Rightarrow> au_vdir \<Rightarrow> u8 list \<Rightarrow> u32 \<Rightarrow> u8 \<Rightarrow> dehstr au_nhash \<Rightarrow> mem_oracle
     \<Rightarrow> (int \<times> au_vdir \<times> dehstr au_nhash \<times> mem_oracle) option" where
  "append_de fresh vd name ino d_type delist mem =
     (if vd_deblk vd = [] \<or> vd_ul vd \<noteq> length (vd_deblk vd) - 1
         \<or> unat (vd_deblk_sz vd) \<le> vd_off vd
         \<or> is_deblk_end (vd_deblk_sz vd) (last (vd_deblk vd)) (vd_off vd) \<noteq> Some True
      then None
      else if room_left (vd_deblk_sz vd) (vd_off vd) < calc_size (length name)
      then Option.bind (append_deblk fresh vd mem) (\<lambda>(err, vd', mem').
           if err \<noteq> 0 then Some (err, vd', delist, mem')
           else append_de_here fresh vd' name ino d_type delist mem')
      else append_de_here fresh vd name ino d_type delist mem)"

section \<open>Reading the directory\<close>

definition calc_offset :: "au_vdir \<Rightarrow> int" where
  "calc_offset vd = int (vd_off vd) + uint (vd_deblk_sz vd * of_nat (vd_ul vd))"

text \<open>The inner loop of \<open>seek_vdir\<close>: the offset in the block where it stops.\<close>

function seek_block :: "u32 \<Rightarrow> u8 list \<Rightarrow> nat \<Rightarrow> int \<Rightarrow> int \<Rightarrow> nat option" where
  "seek_block sz blk off offset f_pos =
     (case is_deblk_end sz blk off of
        None \<Rightarrow> None
      | Some e \<Rightarrow>
          if e \<or> f_pos \<le> offset then Some off
          else (case byte_at blk (off + 5) of
                  None \<Rightarrow> None
                | Some len \<Rightarrow>
                    seek_block sz blk (off + calc_size (unat len))
                      (offset + int (calc_size (unat len))) f_pos))"
  by pat_completeness auto
termination
proof (relation "measure (\<lambda>(sz, blk, off, offset, f_pos). length blk - off)", goal_cases)
  case (2 sz blk off offset f_pos e len)
  then show ?case by (auto simp: byte_at_def calc_size_def split: if_splits)
qed simp

text \<open>The outer loop over the blocks from \<open>ul\<close> on; \<open>n\<close> of them are left.\<close>

fun seek_blocks :: "nat \<Rightarrow> au_vdir \<Rightarrow> nat \<Rightarrow> int \<Rightarrow> (nat \<times> nat) option option" where
  "seek_blocks 0 vd ul f_pos = Some None"
| "seek_blocks (Suc n) vd ul f_pos =
     (let sz = vd_deblk_sz vd; blk = vd_deblk vd ! ul in
      Option.bind (seek_block sz blk 0 (int ul * uint sz) f_pos) (\<lambda>off.
      Option.bind (is_deblk_end sz blk off) (\<lambda>e.
      if \<not> e then Some (Some (ul, off)) else seek_blocks n vd (Suc ul) f_pos)))"

text \<open>\<open>seek_vdir\<close>: the validity and the directory with its position moved.\<close>

definition seek_vdir :: "au_vdir \<Rightarrow> int \<Rightarrow> (bool \<times> au_vdir) option" where
  "seek_vdir vd f_pos =
     (if f_pos = calc_offset vd then Some (True, vd)
      else
        let vd0 = vd\<lparr>vd_ul := 0, vd_off := 0\<rparr> in
        if f_pos = 0 then Some (True, vd0)
        else if vd_deblk_sz vd = 0 then None
        else
          let ul = nat (f_pos div uint (vd_deblk_sz vd) mod 2 ^ 32) in
          if length (vd_deblk vd) \<le> ul then Some (False, vd0)
          else map_option (\<lambda>r. case r of
                  None \<Rightarrow> (False, vd0)
                | Some (ul, off) \<Rightarrow> (True, vd0\<lparr>vd_ul := ul, vd_off := off\<rparr>))
                (seek_blocks (length (vd_deblk vd) - ul) vd0 ul f_pos))"

text \<open>
  The consumer \<open>filldir\<close> gets name, position, inode number and type and answers an error or
  zero. \<open>fill_block\<close> is the inner loop of \<open>au_vdir_fill_de\<close>: whether the block was finished,
  the offset, the file position and the consumer.
\<close>

type_synonym 's filldir = "'s \<Rightarrow> u8 list \<Rightarrow> int \<Rightarrow> u32 \<Rightarrow> u8 \<Rightarrow> int \<times> 's"

function fill_block ::
    "'s filldir \<Rightarrow> u32 \<Rightarrow> u8 list \<Rightarrow> nat \<Rightarrow> int \<Rightarrow> 's \<Rightarrow> (bool \<times> nat \<times> int \<times> 's) option" where
  "fill_block filldir sz blk off f_pos s =
     (case is_deblk_end sz blk off of
        None \<Rightarrow> None
      | Some e \<Rightarrow>
          if e then Some (True, off, f_pos, s)
          else (case de_at blk off of
                  None \<Rightarrow> None
                | Some de \<Rightarrow>
                    (case filldir s (de_name de) f_pos (de_ino de) (de_type de) of
                       (err, s') \<Rightarrow>
                         if err \<noteq> 0 then Some (False, off, f_pos, s')
                         else fill_block filldir sz blk (off + calc_size (length (de_name de)))
                                (f_pos + int (calc_size (length (de_name de)))) s')))"
  by pat_completeness auto
termination
proof (relation "measure (\<lambda>(filldir, sz, blk, off, f_pos, s). length blk - off)", goal_cases)
  case (2 filldir sz blk off f_pos s e de err s')
  then show ?case
    by (auto simp: de_at_def get_bytes_def byte_at_def calc_size_def bind_eq_Some_conv split: if_splits)
qed simp

fun fill_blocks ::
    "'s filldir \<Rightarrow> nat \<Rightarrow> au_vdir \<Rightarrow> int \<Rightarrow> 's \<Rightarrow> (au_vdir \<times> int \<times> 's) option" where
  "fill_blocks filldir 0 vd f_pos s = Some (vd, f_pos, s)"
| "fill_blocks filldir (Suc n) vd f_pos s =
     (if length (vd_deblk vd) \<le> vd_ul vd then None
      else
        Option.bind (fill_block filldir (vd_deblk_sz vd) (vd_deblk vd ! vd_ul vd) (vd_off vd) f_pos s)
          (\<lambda>(done, off, f_pos', s').
        let vd' = vd\<lparr>vd_off := off\<rparr> in
        if \<not> done then Some (vd', f_pos', s')
        else if vd_ul vd < length (vd_deblk vd) - 1
        then fill_blocks filldir n (vd'\<lparr>vd_ul := Suc (vd_ul vd), vd_off := 0\<rparr>)
               (uint (vd_deblk_sz vd * of_nat (Suc (vd_ul vd)))) s'
        else Some (vd', f_pos', s')))"

text \<open>\<open>au_vdir_fill_de\<close> on the cached directory; the result is always 0.\<close>

definition au_vdir_fill_de ::
    "'s filldir \<Rightarrow> au_vdir \<Rightarrow> int \<Rightarrow> 's \<Rightarrow> (au_vdir \<times> int \<times> 's) option" where
  "au_vdir_fill_de filldir vd f_pos s =
     Option.bind (seek_vdir vd f_pos) (\<lambda>(valid, vd').
     if \<not> valid then Some (vd', f_pos, s)
     else fill_blocks filldir (length (vd_deblk vd') - vd_ul vd') vd' f_pos s)"

declare seek_block.simps [simp del] fill_block.simps [simp del]

section \<open>The entries of a block\<close>

text \<open>All entries from an offset on, and the offset of the end.\<close>

function block_walk :: "u32 \<Rightarrow> u8 list \<Rightarrow> nat \<Rightarrow> (au_vdir_de list \<times> nat) option" where
  "block_walk sz blk off =
     (case is_deblk_end sz blk off of
        None \<Rightarrow> None
      | Some e \<Rightarrow>
          if e then Some ([], off)
          else (case de_at blk off of
                  None \<Rightarrow> None
                | Some de \<Rightarrow> map_option (\<lambda>(es, e). (de # es, e))
                    (block_walk sz blk (off + calc_size (length (de_name de))))))"
  by pat_completeness auto
termination
proof (relation "measure (\<lambda>(sz, blk, off). length blk - off)", goal_cases)
  case (2 sz blk off e de)
  then show ?case
    by (auto simp: de_at_def get_bytes_def byte_at_def calc_size_def bind_eq_Some_conv split: if_splits)
qed simp

declare block_walk.simps [simp del]

definition size_des :: "au_vdir_de list \<Rightarrow> nat" where
  "size_des es = sum_list (map (\<lambda>d. calc_size (length (de_name d))) es)"

lemma size_des_simps [simp]:
  "size_des [] = 0" "size_des (d # ds) = calc_size (length (de_name d)) + size_des ds"
  "size_des (ds @ es) = size_des ds + size_des es"
  by (simp_all add: size_des_def)

lemma block_walk_end: "is_deblk_end sz blk off = Some True \<Longrightarrow> block_walk sz blk off = Some ([], off)"
  by (simp add: block_walk.simps)

lemma block_walk_step:
  "is_deblk_end sz blk off = Some False \<Longrightarrow> de_at blk off = Some de \<Longrightarrow>
   block_walk sz blk off = map_option (\<lambda>(es, e). (de # es, e))
     (block_walk sz blk (off + calc_size (length (de_name de))))"
  by (simp add: block_walk.simps [of sz blk off])

lemma block_walk_Nil:
  assumes "block_walk sz blk off = Some ([], e)"
  shows "is_deblk_end sz blk off = Some True \<and> e = off"
  using assms by (auto simp: block_walk.simps [of sz blk off] split: option.splits if_splits)

lemma block_walk_Cons:
  assumes "block_walk sz blk off = Some (d # ds, e)"
  shows "is_deblk_end sz blk off = Some False \<and> de_at blk off = Some d
    \<and> block_walk sz blk (off + calc_size (length (de_name d))) = Some (ds, e)"
  using assms by (auto simp: block_walk.simps [of sz blk off] split: option.splits if_splits)

lemma block_walk_size: "block_walk sz blk off = Some (es, e) \<Longrightarrow> e = off + size_des es"
proof (induction es arbitrary: off)
  case Nil
  then show ?case using block_walk_Nil by fastforce
next
  case (Cons d ds)
  from Cons.IH [of "off + calc_size (length (de_name d))"] block_walk_Cons [OF Cons.prems]
  show ?case by simp
qed

lemma block_walk_append:
  "block_walk sz blk off = Some (es @ es', e) \<Longrightarrow> block_walk sz blk (off + size_des es) = Some (es', e)"
proof (induction es arbitrary: off)
  case (Cons d ds)
  then have "block_walk sz blk (off + calc_size (length (de_name d))) = Some (ds @ es', e)"
    using block_walk_Cons by fastforce
  from Cons.IH [OF this] show ?case by (simp add: ac_simps)
qed simp

section \<open>Reading feeds the entries\<close>

text \<open>A consumer that does not look at the position; what it leaves when it stops.\<close>

fun feed :: "('s \<Rightarrow> au_vdir_de \<Rightarrow> int \<times> 's) \<Rightarrow> au_vdir_de list \<Rightarrow> 's \<Rightarrow> au_vdir_de list \<times> 's" where
  "feed f [] s = ([], s)"
| "feed f (d # ds) s = (let (err, s') = f s d in if err \<noteq> 0 then (d # ds, s') else feed f ds s')"

definition no_pos :: "('s \<Rightarrow> au_vdir_de \<Rightarrow> int \<times> 's) \<Rightarrow> 's filldir" where
  "no_pos f s name pos ino ty = f s \<lparr>de_ino = ino, de_type = ty, de_name = name\<rparr>"

lemma feed_append:
  "feed f (ds @ es) s = (let (rest, s') = feed f ds s in if rest = [] then feed f es s' else (rest @ es, s'))"
  by (induction ds arbitrary: s) (auto split: prod.splits)

lemma feed_suffix: "\<exists>pre. ds = pre @ fst (feed f ds s)"
proof (induction ds arbitrary: s)
  case (Cons d ds)
  obtain err s' where e: "f s d = (err, s')" by force
  show ?case
  proof (cases "err = 0")
    case True
    obtain pre where "ds = pre @ fst (feed f ds s')" using Cons.IH by blast
    then have "d # ds = (d # pre) @ fst (feed f (d # ds) s)" using e True by simp
    then show ?thesis by blast
  qed (use e in simp)
qed simp

lemma fill_block_feed:
  assumes "block_walk sz blk off = Some (es, e)"
  shows "\<exists>pre. es = pre @ fst (feed f es s)
    \<and> fill_block (no_pos f) sz blk off f_pos s
      = Some (fst (feed f es s) = [], off + size_des pre, f_pos + int (size_des pre), snd (feed f es s))"
  using assms
proof (induction es arbitrary: off f_pos s)
  case Nil
  then show ?case using block_walk_Nil by (simp add: fill_block.simps [of _ sz blk off])
next
  case (Cons d ds)
  note w = block_walk_Cons [OF Cons.prems]
  let ?l = "calc_size (length (de_name d))"
  obtain err s' where e: "f s d = (err, s')" by force
  have call: "no_pos f s (de_name d) f_pos (de_ino d) (de_type d) = (err, s')"
    using e by (cases d) (simp add: no_pos_def)
  show ?case
  proof (cases "err = 0")
    case False
    then have "fill_block (no_pos f) sz blk off f_pos s = Some (False, off, f_pos, s')"
      using w call by (simp add: fill_block.simps [of _ sz blk off])
    then show ?thesis using False e by (intro exI [of _ "[]"]) simp
  next
    case True
    have step: "fill_block (no_pos f) sz blk off f_pos s
        = fill_block (no_pos f) sz blk (off + ?l) (f_pos + int ?l) s'"
      using w call True by (simp add: fill_block.simps [of _ sz blk off])
    obtain pre where p: "ds = pre @ fst (feed f ds s')"
      "fill_block (no_pos f) sz blk (off + ?l) (f_pos + int ?l) s' = Some (fst (feed f ds s') = [],
        off + ?l + size_des pre, f_pos + int ?l + int (size_des pre), snd (feed f ds s'))"
      using Cons.IH [of "off + ?l" s' "f_pos + int ?l"] w by blast
    show ?thesis
      by (rule exI [of _ "d # pre"]) (use p e True step in \<open>simp add: ac_simps\<close>)
  qed
qed

text \<open>
  Well-formed blocks, and the position of a file: \<open>reads vd p R\<close> says that \<open>p\<close> is the position
  of an entry, or the end, and that reading from there is to deliver the entries \<open>R\<close>. Only the
  last block may be empty.
\<close>

definition deblk_wf :: "u32 \<Rightarrow> u8 list \<Rightarrow> bool" where
  "deblk_wf sz blk \<longleftrightarrow> length blk = unat sz
     \<and> (\<exists>es e. block_walk sz blk 0 = Some (es, e) \<and> e \<le> unat sz)"

definition block_des :: "u32 \<Rightarrow> u8 list \<Rightarrow> au_vdir_de list" where
  "block_des sz blk = (case block_walk sz blk 0 of Some (es, e) \<Rightarrow> es | None \<Rightarrow> [])"

definition vd_des :: "au_vdir \<Rightarrow> au_vdir_de list list" where
  "vd_des vd = map (block_des (vd_deblk_sz vd)) (vd_deblk vd)"

definition boundary :: "au_vdir \<Rightarrow> nat \<Rightarrow> nat \<Rightarrow> bool" where
  "boundary vd ul off \<longleftrightarrow> ul < length (vd_deblk vd)
     \<and> (\<exists>es es'. vd_des vd ! ul = es @ es' \<and> off = size_des es)"

definition vdir_blocks :: "au_vdir \<Rightarrow> bool" where
  "vdir_blocks vd \<longleftrightarrow> vd_deblk vd \<noteq> [] \<and> vd_deblk_sz vd \<noteq> 0
     \<and> (\<forall>b \<in> set (vd_deblk vd). deblk_wf (vd_deblk_sz vd) b)
     \<and> (\<forall>ul. Suc ul < length (vd_deblk vd) \<longrightarrow> vd_des vd ! ul \<noteq> [])
     \<and> length (vd_deblk vd) * unat (vd_deblk_sz vd) < 2 ^ 32"

definition vdir_wf :: "au_vdir \<Rightarrow> bool" where
  "vdir_wf vd \<longleftrightarrow> vdir_blocks vd \<and> boundary vd (vd_ul vd) (vd_off vd)"

definition reads :: "au_vdir \<Rightarrow> int \<Rightarrow> au_vdir_de list \<Rightarrow> bool" where
  "reads vd f_pos R \<longleftrightarrow> (\<exists>ul es es'. ul < length (vd_deblk vd) \<and> vd_des vd ! ul = es @ es'
     \<and> (es' \<noteq> [] \<or> Suc ul = length (vd_deblk vd))
     \<and> f_pos = int (ul * unat (vd_deblk_sz vd) + size_des es)
     \<and> R = es' @ concat (drop (Suc ul) (vd_des vd)))"

lemma vdir_block:
  assumes "vdir_blocks vd" and "ul < length (vd_deblk vd)"
  shows "length (vd_deblk vd ! ul) = unat (vd_deblk_sz vd)"
    and "block_walk (vd_deblk_sz vd) (vd_deblk vd ! ul) 0 = Some (vd_des vd ! ul, size_des (vd_des vd ! ul))"
    and "size_des (vd_des vd ! ul) \<le> unat (vd_deblk_sz vd)"
proof -
  have "deblk_wf (vd_deblk_sz vd) (vd_deblk vd ! ul)" using assms by (simp add: vdir_blocks_def)
  then show "length (vd_deblk vd ! ul) = unat (vd_deblk_sz vd)"
    "block_walk (vd_deblk_sz vd) (vd_deblk vd ! ul) 0 = Some (vd_des vd ! ul, size_des (vd_des vd ! ul))"
    "size_des (vd_des vd ! ul) \<le> unat (vd_deblk_sz vd)"
    using assms(2) block_walk_size [of "vd_deblk_sz vd" "vd_deblk vd ! ul" 0]
    by (auto simp: deblk_wf_def vd_des_def block_des_def)
qed

lemma block_start:
  assumes "vdir_blocks vd" and "ul < length (vd_deblk vd)"
  shows "uint (vd_deblk_sz vd * of_nat ul) = int (ul * unat (vd_deblk_sz vd))"
proof -
  have "ul * unat (vd_deblk_sz vd) \<le> length (vd_deblk vd) * unat (vd_deblk_sz vd)"
    using assms(2) by (intro mult_le_mono1) simp
  moreover have "length (vd_deblk vd) * unat (vd_deblk_sz vd) < 2 ^ 32"
    using assms(1) by (simp add: vdir_blocks_def)
  ultimately have "unat (vd_deblk_sz vd) * ul < 2 ^ 32"
    unfolding mult.commute [of "unat (vd_deblk_sz vd)"] by (rule le_less_trans)
  moreover have "ul < 2 ^ 32"
  proof -
    have "0 < unat (vd_deblk_sz vd)" using assms(1) by (simp add: vdir_blocks_def unat_gt_0)
    then have "length (vd_deblk vd) \<le> length (vd_deblk vd) * unat (vd_deblk_sz vd)" by simp
    moreover have "length (vd_deblk vd) * unat (vd_deblk_sz vd) < 2 ^ 32"
      using assms(1) by (simp add: vdir_blocks_def)
    ultimately show ?thesis using assms(2) by linarith
  qed
  ultimately have "unat (vd_deblk_sz vd * of_nat ul) = unat (vd_deblk_sz vd) * ul"
    by (simp add: unat_word_ariths unat_of_nat take_bit_nat_eq_self)
  then show ?thesis by (metis mult.commute uint_nat)
qed

lemma vd_des_cong: "vd_deblk vd' = vd_deblk vd \<Longrightarrow> vd_deblk_sz vd' = vd_deblk_sz vd \<Longrightarrow> vd_des vd' = vd_des vd"
  by (simp add: vd_des_def)

lemma vd_des_length [simp]: "length (vd_des vd) = length (vd_deblk vd)"
  by (simp add: vd_des_def)

text \<open>Only the position changes while reading.\<close>

definition moved :: "au_vdir \<Rightarrow> au_vdir \<Rightarrow> bool" where
  "moved vd vd' \<longleftrightarrow> vd'\<lparr>vd_ul := vd_ul vd, vd_off := vd_off vd\<rparr> = vd"

lemma moved_fields:
  assumes "moved vd vd'"
  shows "vd_deblk vd' = vd_deblk vd" "vd_deblk_sz vd' = vd_deblk_sz vd" "vd_des vd' = vd_des vd"
    "vdir_blocks vd' = vdir_blocks vd" "boundary vd' = boundary vd" "reads vd' = reads vd"
proof -
  have e: "vd'\<lparr>vd_ul := vd_ul vd, vd_off := vd_off vd\<rparr> = vd" using assms by (simp add: moved_def)
  show a: "vd_deblk vd' = vd_deblk vd" and b: "vd_deblk_sz vd' = vd_deblk_sz vd"
    using arg_cong [OF e, of vd_deblk] arg_cong [OF e, of vd_deblk_sz] by simp_all
  show "vd_des vd' = vd_des vd" "vdir_blocks vd' = vdir_blocks vd" "boundary vd' = boundary vd"
    "reads vd' = reads vd"
    by (simp_all add: a b vdir_blocks_def boundary_def reads_def vd_des_cong [OF a b] fun_eq_iff)
qed

lemma moved_intros [simp, intro]:
  "moved vd vd" "moved vd (vd\<lparr>vd_off := x\<rparr>)" "moved vd (vd\<lparr>vd_ul := u, vd_off := x\<rparr>)"
  by (simp_all add: moved_def)

lemma moved_trans: "moved a b \<Longrightarrow> moved b c \<Longrightarrow> moved a c"
proof -
  assume ab: "moved a b" and bc: "moved b c"
  have "c\<lparr>vd_ul := vd_ul a, vd_off := vd_off a\<rparr>
      = (c\<lparr>vd_ul := vd_ul b, vd_off := vd_off b\<rparr>)\<lparr>vd_ul := vd_ul a, vd_off := vd_off a\<rparr>" by simp
  also have "\<dots> = b\<lparr>vd_ul := vd_ul a, vd_off := vd_off a\<rparr>" using bc by (simp add: moved_def)
  finally show "moved a c" using ab by (simp add: moved_def)
qed

lemma fill_blocks_feed:
  assumes "vdir_blocks vd" and "vd_ul vd < length (vd_deblk vd)" and "n = length (vd_deblk vd) - vd_ul vd"
    and "vd_des vd ! vd_ul vd = es @ es'" and "vd_off vd = size_des es"
    and "f_pos = int (vd_ul vd * unat (vd_deblk_sz vd) + vd_off vd)"
  shows "\<exists>vd' f_pos'. fill_blocks (no_pos f) n vd f_pos s
      = Some (vd', f_pos', snd (feed f (es' @ concat (drop (Suc (vd_ul vd)) (vd_des vd))) s))
    \<and> moved vd vd' \<and> boundary vd (vd_ul vd') (vd_off vd')
    \<and> reads vd f_pos' (fst (feed f (es' @ concat (drop (Suc (vd_ul vd)) (vd_des vd))) s))"
  using assms
proof (induction n arbitrary: vd es es' f_pos s)
  case 0
  then show ?case by simp
next
  case (Suc n)
  let ?ul = "vd_ul vd" and ?sz = "vd_deblk_sz vd"
  let ?later = "concat (drop (Suc ?ul) (vd_des vd))"
  have "block_walk ?sz (vd_deblk vd ! ?ul) 0 = Some (es @ es', size_des (vd_des vd ! ?ul))"
    using vdir_block(2) [OF Suc.prems(1,2)] Suc.prems(4) by simp
  from block_walk_append [OF this]
  have w: "block_walk ?sz (vd_deblk vd ! ?ul) (vd_off vd) = Some (es', size_des (vd_des vd ! ?ul))"
    using Suc.prems(5) by simp
  obtain pre where p: "es' = pre @ fst (feed f es' s)"
    "fill_block (no_pos f) ?sz (vd_deblk vd ! ?ul) (vd_off vd) f_pos s
      = Some (fst (feed f es' s) = [], vd_off vd + size_des pre, f_pos + int (size_des pre), snd (feed f es' s))"
    using fill_block_feed [OF w, of f s f_pos] by blast
  let ?vd = "vd\<lparr>vd_off := vd_off vd + size_des pre\<rparr>"
  have bd: "boundary vd ?ul (vd_off vd + size_des pre)"
    unfolding boundary_def
    by (intro conjI Suc.prems(2) exI [of _ "es @ pre"] exI [of _ "fst (feed f es' s)"])
      (use p(1) Suc.prems(4,5) in simp_all)
  have rd: "reads vd (f_pos + int (size_des pre)) (fst (feed f es' s) @ ?later)"
    if "fst (feed f es' s) \<noteq> [] \<or> Suc ?ul = length (vd_deblk vd)"
    unfolding reads_def
    by (rule exI [of _ ?ul], rule exI [of _ "es @ pre"], rule exI [of _ "fst (feed f es' s)"])
      (use p(1) Suc.prems that in simp)
  have fa: "feed f (es' @ ?later) s = (if fst (feed f es' s) = [] then feed f ?later (snd (feed f es' s))
      else (fst (feed f es' s) @ ?later, snd (feed f es' s)))"
    by (simp add: feed_append case_prod_unfold Let_def)
  show ?case
  proof (cases "fst (feed f es' s) = []")
    case False
    then have "fill_blocks (no_pos f) (Suc n) vd f_pos s = Some (?vd, f_pos + int (size_des pre), snd (feed f es' s))"
      using p(2) Suc.prems(2) by simp
    then show ?thesis using False fa bd rd by (intro exI [of _ ?vd] exI conjI) auto
  next
    case True
    show ?thesis
    proof (cases "?ul < length (vd_deblk vd) - 1")
      case False
      then have "drop (Suc ?ul) (vd_des vd) = []" using Suc.prems(2) by simp
      then have last: "es' @ ?later = es'" "?later = []" "Suc ?ul = length (vd_deblk vd)"
        using False Suc.prems(2) by simp_all
      have "fill_blocks (no_pos f) (Suc n) vd f_pos s = Some (?vd, f_pos + int (size_des pre), snd (feed f es' s))"
        using p(2) Suc.prems(2) True False by simp
      then show ?thesis unfolding last(1)
        by (rule_tac exI [of _ ?vd], rule_tac exI, intro conjI, assumption)
          (use bd rd True last(2,3) in simp_all)
    next
      case more: True
      let ?vd1 = "vd\<lparr>vd_ul := Suc ?ul, vd_off := 0\<rparr>"
      let ?pos = "uint (?sz * of_nat (Suc ?ul))"
      have mv: "moved vd ?vd1" by simp
      note mf = moved_fields [OF mv]
      have lt: "Suc ?ul < length (vd_deblk vd)" using more by simp
      have run: "fill_blocks (no_pos f) (Suc n) vd f_pos s
          = fill_blocks (no_pos f) n ?vd1 ?pos (snd (feed f es' s))"
        using p(2) Suc.prems(2) True more by simp
      have pos: "?pos = int (Suc ?ul * unat ?sz)" by (rule block_start [OF Suc.prems(1) lt])
      have later: "?later = vd_des vd ! Suc ?ul @ concat (drop (Suc (Suc ?ul)) (vd_des vd))"
        using lt by (simp add: Cons_nth_drop_Suc [symmetric])
      have nn: "n = length (vd_deblk vd) - Suc ?ul" using Suc.prems(3) by simp
      obtain vd' f_pos' where r: "fill_blocks (no_pos f) n ?vd1 ?pos (snd (feed f es' s))
          = Some (vd', f_pos', snd (feed f ?later (snd (feed f es' s))))" "moved ?vd1 vd'"
        "boundary vd (vd_ul vd') (vd_off vd')" "reads vd f_pos' (fst (feed f ?later (snd (feed f es' s))))"
        using Suc.IH [of ?vd1 "[]" "vd_des vd ! Suc ?ul" ?pos "snd (feed f es' s)"] Suc.prems(1) lt pos mf later nn
        by auto
      show ?thesis using run r True fa moved_trans [OF mv] by auto
    qed
  qed
qed

section \<open>Seeking\<close>

lemma seek_block_stop:
  "is_deblk_end sz blk off = Some e \<Longrightarrow> e \<or> f_pos \<le> offset \<Longrightarrow> seek_block sz blk off offset f_pos = Some off"
  by (simp add: seek_block.simps [of sz blk off])

lemma de_at_len: "de_at blk off = Some d \<Longrightarrow> \<exists>len. byte_at blk (off + 5) = Some len \<and> unat len = length (de_name d)"
  by (auto simp: de_at_def get_bytes_def bind_eq_Some_conv split: if_splits)

text \<open>From an entry on, the search stops at the boundary it looks for, or at the end before it.\<close>

lemma seek_block_boundary:
  assumes "block_walk sz blk off = Some (es @ es', e)"
  shows "seek_block sz blk off offset (offset + int (size_des es)) = Some (off + size_des es)"
  using assms
proof (induction es arbitrary: off offset)
  case Nil
  obtain b where "is_deblk_end sz blk off = Some b"
    using Nil by (cases es') (auto dest: block_walk_Nil block_walk_Cons)
  then show ?case using seek_block_stop by simp
next
  case (Cons d es)
  let ?l = "calc_size (length (de_name d))"
  have w: "is_deblk_end sz blk off = Some False" "de_at blk off = Some d"
    "block_walk sz blk (off + ?l) = Some (es @ es', e)"
    using block_walk_Cons [of sz blk off d "es @ es'" e] Cons.prems by simp_all
  obtain len where "byte_at blk (off + 5) = Some len" "unat len = length (de_name d)"
    using de_at_len [OF w(2)] by blast
  moreover have "0 < ?l" by (simp add: calc_size_def)
  ultimately show ?case
    using w Cons.IH [OF w(3), of "offset + int ?l"]
    by (simp add: seek_block.simps [of sz blk off] ac_simps)
qed

lemma size_des_prefix: "size_des es = size_des es2 \<Longrightarrow> es @ es' = es2 @ es2' \<Longrightarrow> es = es2"
proof (induction es arbitrary: es2)
  case Nil
  then show ?case by (cases es2) (auto simp: calc_size_def)
next
  case (Cons d es)
  then show ?case by (cases es2) (auto simp: calc_size_def)
qed

lemma seek_vdir_reads:
  assumes wf: "vdir_wf vd" and rd: "reads vd f_pos R"
  shows "(R = [] \<and> (\<exists>vd'. seek_vdir vd f_pos = Some (False, vd') \<and> moved vd vd'
        \<and> boundary vd (vd_ul vd') (vd_off vd')))
    \<or> (\<exists>vd' es es'. seek_vdir vd f_pos = Some (True, vd') \<and> moved vd vd' \<and> vd_ul vd' < length (vd_deblk vd)
         \<and> vd_des vd ! vd_ul vd' = es @ es' \<and> vd_off vd' = size_des es
         \<and> f_pos = int (vd_ul vd' * unat (vd_deblk_sz vd) + vd_off vd')
         \<and> R = es' @ concat (drop (Suc (vd_ul vd')) (vd_des vd)))"
    (is "?none \<or> ?some")
proof -
  let ?sz = "unat (vd_deblk_sz vd)" and ?n = "length (vd_deblk vd)"
  have b: "vdir_blocks vd" and bd: "boundary vd (vd_ul vd) (vd_off vd)" using wf by (auto simp: vdir_wf_def)
  have sz: "0 < ?sz" using b by (simp add: vdir_blocks_def unat_gt_0)
  obtain ul es es' where r: "ul < ?n" "vd_des vd ! ul = es @ es'" "es' \<noteq> [] \<or> Suc ul = ?n"
    "f_pos = int (ul * ?sz + size_des es)" "R = es' @ concat (drop (Suc ul) (vd_des vd))"
    using rd unfolding reads_def by blast
  have total: "size_des es + size_des es' \<le> ?sz" using vdir_block(3) [OF b r(1)] r(2) by simp
  have pos: "es' \<noteq> [] \<Longrightarrow> 0 < size_des es'" by (cases es') (auto simp: calc_size_def)
  obtain es0 es0' where p0: "vd_ul vd < ?n" "vd_des vd ! vd_ul vd = es0 @ es0'" "vd_off vd = size_des es0"
    using bd unfolding boundary_def by blast
  have total0: "size_des es0 \<le> ?sz" using vdir_block(3) [OF b p0(1)] p0(2) by simp
  have calc: "calc_offset vd = int (vd_ul vd * ?sz + size_des es0)"
    using block_start [OF b p0(1)] p0(3) by (simp add: calc_offset_def)
  let ?vd0 = "vd\<lparr>vd_ul := 0, vd_off := 0\<rparr>"
  have bd0: "boundary vd 0 0" using b by (auto simp: boundary_def vdir_blocks_def intro: exI [of _ "[]"])
  consider (same) "f_pos = calc_offset vd" | (zero) "f_pos \<noteq> calc_offset vd" "f_pos = 0"
    | (walk) "f_pos \<noteq> calc_offset vd" "f_pos \<noteq> 0" by blast
  then show ?thesis
  proof cases
    case same
    then have eq: "ul * ?sz + size_des es = vd_ul vd * ?sz + size_des es0"
      using r(4) calc by (simp only: of_nat_eq_iff)
    have seek: "seek_vdir vd f_pos = Some (True, vd)" using same by (simp add: seek_vdir_def)
    have fp: "f_pos = int (vd_ul vd * ?sz + vd_off vd)" using same calc p0(3) by simp
    have "R = es0' @ concat (drop (Suc (vd_ul vd)) (vd_des vd))"
    proof (cases "vd_ul vd" ul rule: linorder_cases)
      case equal
      then have "size_des es0 = size_des es" "es0 @ es0' = es @ es'" using eq p0(2) r(2) by simp_all
      then have "es0 = es" by (rule size_des_prefix)
      then show ?thesis using r(2,5) p0(2) equal by simp
    next
      case greater
      then have "(Suc ul) * ?sz \<le> vd_ul vd * ?sz" by (intro mult_le_mono1) simp
      then have "size_des es' = 0" using eq total by simp
      then have "Suc ul = ?n" using r(3) pos by auto
      then show ?thesis using greater p0(1) by simp
    next
      case less
      then have "(Suc (vd_ul vd)) * ?sz \<le> ul * ?sz" by (intro mult_le_mono1) simp
      moreover have le: "size_des es0 + size_des es0' \<le> ?sz" using vdir_block(3) [OF b p0(1)] p0(2) by simp
      ultimately have z: "size_des es = 0" "size_des es0' = 0" "ul * ?sz = Suc (vd_ul vd) * ?sz"
        using eq by simp_all
      have "ul = Suc (vd_ul vd)" using z(3) sz by (metis mult_right_cancel less_irrefl)
      moreover have "es = []" using z(1) by (cases es) (auto simp: calc_size_def)
      moreover have "es0' = []" using z(2) by (cases es0') (auto simp: calc_size_def)
      ultimately show ?thesis using r(1,2,5) by (simp add: Cons_nth_drop_Suc [symmetric])
    qed
    then show ?thesis using seek fp p0 by (intro disjI2 exI [of _ vd] exI [of _ es0] exI [of _ es0']) simp
  next
    case zero
    then have "ul * ?sz + size_des es = 0" using r(4) by (simp only: of_nat_eq_0_iff)
    then have z: "ul = 0" "size_des es = 0" using sz by simp_all
    then have "es = []" by (cases es) (auto simp: calc_size_def)
    moreover have "seek_vdir vd f_pos = Some (True, ?vd0)" using zero by (simp add: seek_vdir_def)
    ultimately show ?thesis using zero z r(1,2,5)
      by (intro disjI2 exI [of _ ?vd0] exI [of _ "[]"] exI [of _ es']) simp
  next
    case walk
    have small: "(ul * ?sz + size_des es) div ?sz < 2 ^ 32"
    proof -
      have "Suc ul * ?sz \<le> ?n * ?sz" using r(1) by (intro mult_le_mono1) simp
      then have "ul * ?sz + size_des es \<le> ?n * ?sz" using total by simp
      moreover have "?n * ?sz < 2 ^ 32" using b by (simp add: vdir_blocks_def)
      ultimately show ?thesis by (meson div_le_dividend le_less_trans)
    qed
    have ulv: "nat (f_pos div uint (vd_deblk_sz vd) mod 2 ^ 32) = (ul * ?sz + size_des es) div ?sz"
    proof -
      have "f_pos div uint (vd_deblk_sz vd) = int ((ul * ?sz + size_des es) div ?sz)"
        using r(4) by (simp only: uint_nat zdiv_int)
      moreover from small have "int ((ul * ?sz + size_des es) div ?sz) < 2 ^ 32"
        by (simp only: of_nat_less_numeral_power_cancel_iff)
      ultimately show ?thesis by (simp only: mod_pos_pos_trivial of_nat_0_le_iff nat_int)
    qed
    have szne: "vd_deblk_sz vd \<noteq> 0" using b by (simp add: vdir_blocks_def)
    show ?thesis
    proof (cases "size_des es < ?sz")
      case False
      then have full: "size_des es = ?sz" "size_des es' = 0" using total by simp_all
      then have last: "es' = []" "Suc ul = ?n" using r(3) pos by auto
      have "(ul * ?sz + size_des es) div ?sz = ?n" using full(1) last(2) sz by simp
      then have "seek_vdir vd f_pos = Some (False, ?vd0)"
        unfolding seek_vdir_def using walk szne ulv by (simp add: Let_def)
      then show ?thesis using last r(5) bd0 by (intro disjI1 conjI exI [of _ ?vd0]) simp_all
    next
      case True
      have q: "(ul * ?sz + size_des es) div ?sz = ul" using True by simp
      have w: "block_walk (vd_deblk_sz vd) (vd_deblk vd ! ul) 0 = Some (es @ es', size_des (vd_des vd ! ul))"
        using vdir_block(2) [OF b r(1)] r(2) by simp
      have fp: "f_pos = int ul * uint (vd_deblk_sz vd) + int (size_des es)"
        unfolding r(4) by (simp only: uint_nat of_nat_add of_nat_mult)
      have sb: "seek_block (vd_deblk_sz vd) (vd_deblk vd ! ul) 0 (int ul * uint (vd_deblk_sz vd)) f_pos
          = Some (size_des es)"
        unfolding fp using seek_block_boundary [OF w, of "int ul * uint (vd_deblk_sz vd)"] by (simp only: add_0)
      have w': "block_walk (vd_deblk_sz vd) (vd_deblk vd ! ul) (size_des es) = Some (es', size_des (vd_des vd ! ul))"
        using block_walk_append [OF w] by simp
      have seek: "seek_vdir vd f_pos = map_option (case_option (False, ?vd0)
          (\<lambda>(ul, off). (True, vd\<lparr>vd_ul := ul, vd_off := off\<rparr>))) (seek_blocks (?n - ul) ?vd0 ul f_pos)"
        unfolding seek_vdir_def ulv q using walk szne r(1) by (simp add: Let_def)
      obtain m where m: "?n - ul = Suc m" using r(1) by (metis Suc_diff_Suc)
      show ?thesis
      proof (cases "es' = []")
        case nil: True
        then have "m = 0" using r(3) m by simp
        moreover have "is_deblk_end (vd_deblk_sz vd) (vd_deblk vd ! ul) (size_des es) = Some True"
          using block_walk_Nil w' nil by blast
        ultimately have "seek_vdir vd f_pos = Some (False, ?vd0)" using seek m sb by simp
        then show ?thesis using nil r(3,5) bd0 by (intro disjI1 conjI exI [of _ ?vd0]) simp_all
      next
        case False
        then obtain d ds where "es' = d # ds" by (cases es') auto
        then have "is_deblk_end (vd_deblk_sz vd) (vd_deblk vd ! ul) (size_des es) = Some False"
          using block_walk_Cons w' by blast
        then have "seek_vdir vd f_pos = Some (True, vd\<lparr>vd_ul := ul, vd_off := size_des es\<rparr>)"
          using seek m sb by simp
        then show ?thesis using r
          by (intro disjI2 exI [of _ "vd\<lparr>vd_ul := ul, vd_off := size_des es\<rparr>"] exI [of _ es] exI [of _ es']) simp
      qed
    qed
  qed
qed

lemma fill_de_reads:
  assumes wf: "vdir_wf vd" and rd: "reads vd f_pos R"
  shows "\<exists>vd' f_pos'. au_vdir_fill_de (no_pos f) vd f_pos s = Some (vd', f_pos', snd (feed f R s))
    \<and> reads vd' f_pos' (fst (feed f R s)) \<and> vdir_wf vd' \<and> moved vd vd'"
proof -
  have b: "vdir_blocks vd" using wf by (simp add: vdir_wf_def)
  consider (none) vd' where "R = []" "seek_vdir vd f_pos = Some (False, vd')" "moved vd vd'"
      "boundary vd (vd_ul vd') (vd_off vd')"
    | (some) vd' es es' where "seek_vdir vd f_pos = Some (True, vd')" "moved vd vd'"
      "vd_ul vd' < length (vd_deblk vd)" "vd_des vd ! vd_ul vd' = es @ es'" "vd_off vd' = size_des es"
      "f_pos = int (vd_ul vd' * unat (vd_deblk_sz vd) + vd_off vd')"
      "R = es' @ concat (drop (Suc (vd_ul vd')) (vd_des vd))"
    using seek_vdir_reads [OF wf rd] by blast
  then show ?thesis
  proof cases
    case none
    note mf = moved_fields [OF none(3)]
    show ?thesis using none rd b mf by (auto simp: au_vdir_fill_de_def vdir_wf_def)
  next
    case some
    note mf = moved_fields [OF some(2)]
    obtain vd2 p2 where "fill_blocks (no_pos f) (length (vd_deblk vd') - vd_ul vd') vd' f_pos s
        = Some (vd2, p2, snd (feed f R s))" "moved vd' vd2" "boundary vd' (vd_ul vd2) (vd_off vd2)"
      "reads vd' p2 (fst (feed f R s))"
      using fill_blocks_feed [of vd' "length (vd_deblk vd') - vd_ul vd'" es es' f_pos f s] b some mf by auto
    moreover from this have "vdir_wf vd2" using b mf moved_fields [of vd' vd2] by (auto simp: vdir_wf_def)
    moreover have "moved vd vd2" by (rule moved_trans [OF some(2) \<open>moved vd' vd2\<close>])
    ultimately show ?thesis using some(1) moved_fields [of vd' vd2]
      by (intro exI [of _ vd2] exI [of _ p2]) (simp add: au_vdir_fill_de_def)
  qed
qed

section \<open>Property\<close>

text \<open>
  C21: reading from a position delivers the entries from there on, in their order, until the
  consumer fails or the directory ends, and leaves a position from which exactly the entries that
  were not accepted will be read: a directory that is read in pieces loses and repeats nothing.
  No access is outside a block.
\<close>

theorem au_vdir_fill_de_resumes:
  assumes "vdir_wf vd" and "reads vd f_pos R"
  shows "\<exists>vd' f_pos'. au_vdir_fill_de (no_pos f) vd f_pos s = Some (vd', f_pos', snd (feed f R s))
    \<and> reads vd' f_pos' (fst (feed f R s)) \<and> vdir_wf vd' \<and> moved vd vd'"
  by (rule fill_de_reads [OF assms])

text \<open>One block of 24 bytes with the entries \<open>a\<close> and \<open>b\<close>.\<close>

definition example_block :: "u8 list" where
  "example_block = [11, 0, 0, 0, 8, 1, 97, 0, 12, 0, 0, 0, 4, 1, 98, 0, 0, 0, 0, 0, 0, 0, 0, 0]"

definition example_vdir :: au_vdir where
  "example_vdir = \<lparr>vd_deblk = [example_block], vd_ul = 0, vd_off = 0, vd_version = 1, vd_deblk_sz = 24, vd_jiffy = 0\<rparr>"

definition example_des :: "au_vdir_de list" where
  "example_des = [\<lparr>de_ino = 11, de_type = 8, de_name = [97]\<rparr>, \<lparr>de_ino = 12, de_type = 4, de_name = [98]\<rparr>]"

lemma example_walk: "block_walk 24 example_block 0 = Some (example_des, 16)"
proof -
  have e: "is_deblk_end 24 example_block 0 = Some False" "is_deblk_end 24 example_block 8 = Some False"
    "is_deblk_end 24 example_block 16 = Some True"
    by code_simp+
  have d: "de_at example_block 0 = Some (hd example_des)" "de_at example_block 8 = Some (hd (tl example_des))"
    by code_simp+
  note w = block_walk_step [OF e(1) d(1)] block_walk_step [OF e(2) d(2)] block_walk_end [OF e(3)]
  then show ?thesis by (simp add: example_des_def calc_size_def)
qed

lemma example_vdir_wf: "vdir_wf example_vdir" "reads example_vdir 0 example_des"
proof -
  have d: "vd_des example_vdir = [example_des]"
    by (simp add: vd_des_def example_vdir_def block_des_def example_walk)
  have "length example_block = 24" by (simp add: example_block_def)
  then have "deblk_wf 24 example_block" by (simp add: deblk_wf_def example_walk)
  then have "vdir_blocks example_vdir" using d by (simp add: vdir_blocks_def) (simp add: example_vdir_def)
  moreover have "boundary example_vdir 0 0"
    unfolding boundary_def d by (intro conjI exI [of _ "[]"] exI [of _ example_des]) (simp_all add: example_vdir_def)
  ultimately show "vdir_wf example_vdir" by (simp add: vdir_wf_def) (simp add: example_vdir_def)
  show "reads example_vdir 0 example_des"
    unfolding reads_def d
    by (intro exI [of _ 0] exI [of _ "[]"] exI [of _ example_des]) (simp add: example_vdir_def)
qed

theorem au_vdir_fill_de_resumes_witness:
  "\<exists>vd' f_pos'. au_vdir_fill_de (no_pos (\<lambda>n d. (if n = 0 then 1 else 0, n - 1))) example_vdir 0 (1 :: nat)
      = Some (vd', f_pos', 0)
    \<and> reads vd' f_pos' (tl example_des) \<and> vdir_wf vd' \<and> moved example_vdir vd'"
  using au_vdir_fill_de_resumes [OF example_vdir_wf, of "\<lambda>n d. (if n = 0 then 1 else 0, n - 1)" "1 :: nat"]
  by (simp add: example_des_def)

end
