(* ===== verification/Deblk_Append.thy ===== *)
theory Deblk_Append
  imports Deblk
begin

text \<open>
  Correctness of appending to the blocks of a merged directory (\<open>append_de\<close> of \<open>vdir.c\<close>): the
  sequence of entries grows by exactly the new one, nothing is written outside a block, the
  other entries keep their place, and the table of the known names stays right.
\<close>

section \<open>Stores and loads\<close>

lemma put_bytes_Some:
  assumes "put_bytes blk off bs = Some blk'"
  shows "off + length bs \<le> length blk" "length blk' = length blk"
    "blk' = take off blk @ bs @ drop (off + length bs) blk"
  using assms by (auto simp: put_bytes_def split: if_splits)

lemma get_put_same: "put_bytes blk off bs = Some blk' \<Longrightarrow> get_bytes blk' off (length bs) = Some bs"
  by (auto simp: put_bytes_def get_bytes_def split: if_splits)

lemma get_bytes_nth:
  "get_bytes blk i n = (if i + n \<le> length blk then Some (map (\<lambda>j. blk ! (i + j)) [0..<n]) else None)"
  by (auto simp: get_bytes_def intro: nth_equalityI)

lemma put_bytes_nth:
  assumes "put_bytes blk off bs = Some blk'" and "j < length blk"
  shows "blk' ! j = (if off \<le> j \<and> j < off + length bs then bs ! (j - off) else blk ! j)"
  using put_bytes_Some [OF assms(1)] assms(2) by (auto simp: nth_append)

lemma get_put_other:
  assumes "put_bytes blk off bs = Some blk'" and "i + n \<le> off \<or> off + length bs \<le> i"
  shows "get_bytes blk' i n = get_bytes blk i n"
  using put_bytes_Some(1,2) [OF assms(1)] assms(2) by (auto simp: get_bytes_nth put_bytes_nth [OF assms(1)])

lemma byte_put_other:
  assumes "put_bytes blk off bs = Some blk'" and "i < off \<or> off + length bs \<le> i"
  shows "byte_at blk' i = byte_at blk i"
  using put_bytes_Some(1,2) [OF assms(1)] assms(2) by (auto simp: byte_at_def put_bytes_nth [OF assms(1)])

lemma byte_put_same: "put_bytes blk off [b] = Some blk' \<Longrightarrow> byte_at blk' off = Some b"
  using put_bytes_Some [of blk off "[b]" blk'] by (simp add: byte_at_def nth_append)

lemma take_put: "put_bytes blk off bs = Some blk' \<Longrightarrow> k \<le> off \<Longrightarrow> take k blk' = take k blk"
  using put_bytes_Some [of blk off bs blk'] by (simp add: min_absorb1)

lemma put_bytes_ok: "off + length bs \<le> length blk \<Longrightarrow> \<exists>blk'. put_bytes blk off bs = Some blk'"
  by (simp add: put_bytes_def)

lemma ino_bytes_length [simp]: "length (ino_bytes w) = 4"
  by (simp add: ino_bytes_def)

lemma bytes_ino_bytes: "bytes_ino (ino_bytes w) = w"
  unfolding bytes_ino_def ino_bytes_def
proof (rule bit_word_eqI)
  fix n
  assume "n < LENGTH(32)"
  then show "bit (foldr (\<lambda>b w. or (ucast b) (push_bit 8 w)) [ucast w :: u8, ucast (drop_bit 8 w),
      ucast (drop_bit 16 w), ucast (drop_bit 24 w)] (0 :: u32)) n \<longleftrightarrow> bit w n"
    by (cases "24 \<le> n"; cases "16 \<le> n") (auto simp: bit_simps)
qed

lemma calc_size_bounds: "6 + n \<le> calc_size n" "calc_size n \<le> 6 + n + 3" "8 \<le> calc_size n"
  by (simp_all add: calc_size_def)

lemma calc_size_0: "calc_size 0 = 8"
  by (simp add: calc_size_def)

lemma room_left_eq: "off \<le> unat sz \<Longrightarrow> room_left sz off = unat sz - off"
proof -
  assume a: "off \<le> unat sz"
  have "unat sz < 2 ^ 32" using unsigned_less [of sz] by simp
  then have "unat (of_nat off :: u32) = off" using a by (simp add: unat_of_nat take_bit_nat_eq_self)
  then show ?thesis using a by (simp add: room_left_def unat_sub word_le_nat_alt)
qed

text \<open>One entry, written into a block.\<close>

lemma put_de_ok:
  assumes "off + 6 + length name \<le> length blk" and "length name < 256"
  shows "\<exists>blk'. put_de blk off ino ty name = Some blk' \<and> length blk' = length blk
    \<and> take off blk' = take off blk
    \<and> de_at blk' off = Some \<lparr>de_ino = ino, de_type = ty, de_name = name\<rparr>
    \<and> byte_at blk' (off + 5) = Some (of_nat (length name))"
proof -
  obtain b1 where b1: "put_bytes blk off (ino_bytes ino) = Some b1"
    using put_bytes_ok [of off "ino_bytes ino" blk] assms(1) by auto
  note s1 = put_bytes_Some(2) [OF b1]
  obtain b2 where b2: "put_bytes b1 (off + 4) [ty] = Some b2"
    using put_bytes_ok [of "off + 4" "[ty]" b1] assms(1) s1 by auto
  note s2 = put_bytes_Some(2) [OF b2]
  obtain b3 where b3: "put_bytes b2 (off + 5) [of_nat (length name)] = Some b3"
    using put_bytes_ok [of "off + 5" "[of_nat (length name)]" b2] assms(1) s1 s2 by auto
  note s3 = put_bytes_Some(2) [OF b3]
  obtain b4 where b4: "put_bytes b3 (off + 6) name = Some b4"
    using put_bytes_ok [of "off + 6" name b3] assms(1) s1 s2 s3 by auto
  note s4 = put_bytes_Some(2) [OF b4]
  have ino: "get_bytes b4 off 4 = Some (ino_bytes ino)"
    using get_put_same [OF b1] get_put_other [OF b2, of off 4] get_put_other [OF b3, of off 4]
      get_put_other [OF b4, of off 4] by simp
  have ty: "byte_at b4 (off + 4) = Some ty"
    using byte_put_same [OF b2] byte_put_other [OF b3, of "off + 4"] byte_put_other [OF b4, of "off + 4"]
    by simp
  have len: "byte_at b4 (off + 5) = Some (of_nat (length name))"
    using byte_put_same [OF b3] byte_put_other [OF b4, of "off + 5"] by simp
  have n: "get_bytes b4 (off + 6) (length name) = Some name" by (rule get_put_same [OF b4])
  have u: "unat (of_nat (length name) :: u8) = length name"
    using assms(2) by (simp add: unat_of_nat take_bit_nat_eq_self)
  have "put_de blk off ino ty name = Some b4" using b1 b2 b3 b4 by (simp add: put_de_def)
  moreover have "de_at b4 off = Some \<lparr>de_ino = ino, de_type = ty, de_name = name\<rparr>"
    using ino ty len n u by (simp add: de_at_def bytes_ino_bytes)
  moreover have "take off b4 = take off blk"
    using take_put [OF b1, of off] take_put [OF b2, of off] take_put [OF b3, of off] take_put [OF b4, of off]
    by simp
  ultimately show ?thesis using len s1 s2 s3 s4 by simp
qed

section \<open>Blocks with a common prefix\<close>

lemma get_bytes_prefix:
  assumes "take e blk' = take e blk" and "length blk' = length blk" and "i + n \<le> e"
  shows "get_bytes blk' i n = get_bytes blk i n"
proof -
  have "take n (drop i blk') = take n (drop i (take e blk'))"
    and "take n (drop i blk) = take n (drop i (take e blk))"
    using assms(3) by (simp_all add: drop_take min_absorb1)
  then show ?thesis using assms(1,2) by (simp add: get_bytes_def)
qed

lemma byte_at_prefix:
  assumes "take e blk' = take e blk" and "length blk' = length blk" and "i < e"
  shows "byte_at blk' i = byte_at blk i"
  using assms by (auto simp: byte_at_def dest: arg_cong [of _ _ "\<lambda>xs. xs ! i"])

lemma de_at_name_end:
  "de_at blk off = Some d \<Longrightarrow> off + 6 + length (de_name d) \<le> length blk"
  by (auto simp: de_at_def get_bytes_def bind_eq_Some_conv split: if_splits)

lemma de_at_prefix:
  assumes p: "take e blk' = take e blk" "length blk' = length blk"
    and d: "de_at blk off = Some d" and e: "off + calc_size (length (de_name d)) \<le> e"
  shows "de_at blk' off = Some d"
proof -
  obtain len where len: "byte_at blk (off + 5) = Some len" "unat len = length (de_name d)"
    using de_at_len [OF d] by blast
  have c: "off + 6 + unat len \<le> e" using e calc_size_bounds(1) [of "unat len"] len(2) by simp
  have "get_bytes blk' off 4 = get_bytes blk off 4" by (rule get_bytes_prefix [OF p]) (use c in simp)
  moreover have "byte_at blk' (off + 4) = byte_at blk (off + 4)" by (rule byte_at_prefix [OF p]) (use c in simp)
  moreover have "byte_at blk' (off + 5) = byte_at blk (off + 5)" by (rule byte_at_prefix [OF p]) (use c in simp)
  moreover have "get_bytes blk' (off + 6) (unat len) = get_bytes blk (off + 6) (unat len)"
    by (rule get_bytes_prefix [OF p]) (use c in simp)
  ultimately show ?thesis using d len(1) by (simp add: de_at_def)
qed

lemma block_walk_prefix:
  assumes p: "take e blk' = take e blk" "length blk' = length blk"
    and w: "block_walk sz blk off = Some (es, e)"
  shows "block_walk sz blk' off = map_option (\<lambda>(es', e'). (es @ es', e')) (block_walk sz blk' e)"
  using w
proof (induction es arbitrary: off)
  case Nil
  then show ?case using block_walk_Nil [OF Nil] by (simp add: option.map_ident case_prod_unfold)
next
  case (Cons d ds)
  note c = block_walk_Cons [OF Cons.prems]
  have e: "off + calc_size (length (de_name d)) \<le> e" using block_walk_size [of sz blk "off + calc_size (length (de_name d))" ds e] c by simp
  have d: "de_at blk' off = Some d" by (rule de_at_prefix [OF p]) (use c e in auto)
  have "off + 5 < e" using e calc_size_bounds(3) [of "length (de_name d)"] by simp
  then have "is_deblk_end sz blk' off = Some False"
    using c byte_at_prefix [OF p] by (simp add: is_deblk_end_def split: if_splits)
  from block_walk_step [OF this d] Cons.IH c show ?case
    by (simp add: option.map_comp comp_def case_prod_unfold)
qed

lemma set_deblk_end_ok:
  assumes "length blk = unat sz" and "off \<le> unat sz"
  shows "\<exists>err blk'. set_deblk_end sz blk off = Some (err, blk') \<and> length blk' = length blk
    \<and> take off blk' = take off blk \<and> is_deblk_end sz blk' off = Some True
    \<and> (err = 0 \<longleftrightarrow> off + 8 \<le> unat sz)"
proof (cases "off + 8 \<le> unat sz")
  case True
  obtain blk' where b: "put_bytes blk (off + 5) [0] = Some blk'"
    using put_bytes_ok [of "off + 5" "[0]" blk] True assms(1) by auto
  show ?thesis using b True room_left_eq [OF assms(2)] put_bytes_Some(2) [OF b] take_put [OF b, of off]
      byte_put_same [OF b] by (simp add: set_deblk_end_def is_deblk_end_def calc_size_0)
next
  case False
  then show ?thesis using room_left_eq [OF assms(2)] assms
    by (simp add: set_deblk_end_def is_deblk_end_def calc_size_0)
qed

text \<open>The block after \<open>append_de\<close> has written the entry and the end.\<close>

lemma block_append:
  assumes len: "length blk = unat sz" and w: "block_walk sz blk 0 = Some (es, off)"
    and room: "off + calc_size (length name) \<le> unat sz" and n: "name \<noteq> []" "length name < 256"
  shows "\<exists>b1 err b2. put_de blk off ino ty name = Some b1
    \<and> set_deblk_end sz b1 (off + calc_size (length name)) = Some (err, b2)
    \<and> (err = 0 \<longleftrightarrow> off + calc_size (length name) + 8 \<le> unat sz)
    \<and> length b2 = unat sz
    \<and> block_walk sz b2 0 = Some (es @ [\<lparr>de_ino = ino, de_type = ty, de_name = name\<rparr>], off + calc_size (length name))"
proof -
  let ?d = "\<lparr>de_ino = ino, de_type = ty, de_name = name\<rparr>" and ?e = "off + calc_size (length name)"
  note cb = calc_size_bounds [of "length name"]
  obtain b1 where b1: "put_de blk off ino ty name = Some b1" "length b1 = length blk"
    "take off b1 = take off blk" "de_at b1 off = Some ?d" "byte_at b1 (off + 5) = Some (of_nat (length name))"
    using put_de_ok [of off name blk ino ty] cb room n(2) len by auto
  obtain err b2 where b2: "set_deblk_end sz b1 ?e = Some (err, b2)" "length b2 = length b1"
    "take ?e b2 = take ?e b1" "is_deblk_end sz b2 ?e = Some True" "err = 0 \<longleftrightarrow> ?e + 8 \<le> unat sz"
    using set_deblk_end_ok [of b1 sz ?e] b1(2) len room by auto
  have d: "de_at b2 off = Some ?d" by (rule de_at_prefix [OF b2(3,2) b1(4)]) simp
  have t: "take off b2 = take off blk"
    using arg_cong [OF b2(3), of "take off"] b1(3) by (simp add: min_absorb1)
  have "byte_at b2 (off + 5) = Some (of_nat (length name))"
    using byte_at_prefix [OF b2(3,2), of "off + 5"] b1(5) cb by simp
  moreover have "(of_nat (length name) :: u8) \<noteq> 0"
  proof -
    have "unat (of_nat (length name) :: u8) = length name"
      using n(2) by (simp add: unat_of_nat take_bit_nat_eq_self)
    then show ?thesis using n(1) by (metis length_0_conv unat_0)
  qed
  ultimately have "is_deblk_end sz b2 off = Some False"
    using room_left_eq [of off sz] room cb by (simp add: is_deblk_end_def calc_size_0)
  from block_walk_step [OF this d] block_walk_end [OF b2(4)]
  have "block_walk sz b2 off = Some ([?d], ?e)" by simp
  then have "block_walk sz b2 0 = Some (es @ [?d], ?e)"
    using block_walk_prefix [OF t _ w] b2(2) b1(2) by simp
  then show ?thesis using b1 b2 len by auto
qed

section \<open>The directory being filled\<close>

text \<open>
  \<open>vdir_full\<close>: the blocks are well formed, only the last may be empty, the current block is the
  last. The block size allows for the longest name. In \<open>vdir_app\<close> the free room also starts
  after the last entry, inside the block.
\<close>

definition vdir_full :: "au_vdir \<Rightarrow> bool" where
  "vdir_full vd \<longleftrightarrow> vd_deblk vd \<noteq> [] \<and> vd_ul vd = length (vd_deblk vd) - 1
     \<and> calc_size 255 \<le> unat (vd_deblk_sz vd)
     \<and> (\<forall>b \<in> set (vd_deblk vd). deblk_wf (vd_deblk_sz vd) b)
     \<and> (\<forall>ul. Suc ul < length (vd_deblk vd) \<longrightarrow> vd_des vd ! ul \<noteq> [])"

definition vdir_app :: "au_vdir \<Rightarrow> bool" where
  "vdir_app vd \<longleftrightarrow> vdir_full vd \<and> vd_off vd = size_des (last (vd_des vd))
     \<and> vd_off vd < unat (vd_deblk_sz vd)"

definition dir_des :: "au_vdir \<Rightarrow> au_vdir_de list" where
  "dir_des vd = concat (vd_des vd)"

lemma deblk_wf_walk:
  assumes "deblk_wf sz blk"
  shows "length blk = unat sz" "block_walk sz blk 0 = Some (block_des sz blk, size_des (block_des sz blk))"
    "size_des (block_des sz blk) \<le> unat sz"
  using assms block_walk_size [of sz blk 0] by (auto simp: deblk_wf_def block_des_def)

lemma deblk_wfI:
  assumes "length blk = unat sz" and "block_walk sz blk 0 = Some (es, e)" and "e \<le> unat sz"
  shows "deblk_wf sz blk" "block_des sz blk = es"
  using assms by (auto simp: deblk_wf_def block_des_def)

text \<open>A new block, and the same blocks with the last one replaced.\<close>

lemma new_block:
  assumes "8 \<le> unat sz"
  shows "\<exists>blk. set_deblk_end sz (map fresh [0..<unat sz]) 0 = Some (0, blk) \<and> deblk_wf sz blk
    \<and> block_des sz blk = []"
proof -
  obtain err blk where b: "set_deblk_end sz (map fresh [0..<unat sz]) 0 = Some (err, blk)"
    "length blk = unat sz" "is_deblk_end sz blk 0 = Some True" "err = 0"
    using set_deblk_end_ok [of "map fresh [0..<unat sz]" sz 0] assms by auto
  show ?thesis using b deblk_wfI [OF b(2) block_walk_end [OF b(3)]] by auto
qed

lemma append_deblk_ok:
  assumes "8 \<le> unat (vd_deblk_sz vd)"
  shows "\<exists>err vd' mem' k. append_deblk fresh vd mem = Some (err, vd', mem')
    \<and> mem' = drop k mem \<and> k \<le> 2 \<and> (list_all id mem \<and> 2 \<le> length mem \<longrightarrow> err = 0)
    \<and> (if err = 0 then \<exists>blk. vd' = vd\<lparr>vd_deblk := vd_deblk vd @ [blk], vd_ul := length (vd_deblk vd), vd_off := 0\<rparr>
           \<and> deblk_wf (vd_deblk_sz vd) blk \<and> block_des (vd_deblk_sz vd) blk = []
       else err = - ENOMEM \<and> vd' = vd)"
proof -
  obtain ok1 m1 where t1: "take_alloc mem = (ok1, m1)" by force
  obtain ok2 m2 where t2: "take_alloc m1 = (ok2, m2)" by force
  have m: "m1 = drop 1 mem" "m2 = drop 2 mem"
    using take_alloc_drop [OF t1] take_alloc_drop [OF t2] by (simp_all add: numeral_2_eq_2)
  have all: "ok1 \<and> ok2" if "list_all id mem" "2 \<le> length mem"
    using that t1 t2 by (cases mem; cases "tl mem") auto
  obtain blk where b: "set_deblk_end (vd_deblk_sz vd) (map fresh [0..<unat (vd_deblk_sz vd)]) 0 = Some (0, blk)"
    "deblk_wf (vd_deblk_sz vd) blk" "block_des (vd_deblk_sz vd) blk = []"
    using new_block [OF assms] by blast
  have e: "- ENOMEM \<noteq> (0 :: int)" by (simp add: errno_defs)
  consider "\<not> ok1" | "ok1" "\<not> ok2" | "ok1" "ok2" by blast
  then show ?thesis
  proof cases
    case 1
    then have "append_deblk fresh vd mem = Some (- ENOMEM, vd, m1)" using t1 t2 by (simp add: append_deblk_def)
    then show ?thesis using all 1 m(1) e by (intro exI [of _ "- ENOMEM"] exI [of _ vd] exI [of _ m1] exI [of _ 1]) auto
  next
    case 2
    then have "append_deblk fresh vd mem = Some (- ENOMEM, vd, m2)" using t1 t2 by (simp add: append_deblk_def)
    then show ?thesis using all 2 m(2) e by (intro exI [of _ "- ENOMEM"] exI [of _ vd] exI [of _ m2] exI [of _ 2]) auto
  next
    case 3
    then show ?thesis using t1 t2 b m(2)
      by (intro exI [of _ 0] exI [of _ m2] exI [of _ 2] exI
          [of _ "vd\<lparr>vd_deblk := vd_deblk vd @ [blk], vd_ul := length (vd_deblk vd), vd_off := 0\<rparr>"])
        (auto simp: append_deblk_def)
  qed
qed

lemma vdir_app_new:
  assumes app: "vdir_full vd"
    and last: "last (vd_des vd) \<noteq> []"
    and blk: "deblk_wf (vd_deblk_sz vd) blk" "block_des (vd_deblk_sz vd) blk = []"
    and vd': "vd' = vd\<lparr>vd_deblk := vd_deblk vd @ [blk], vd_ul := length (vd_deblk vd), vd_off := 0\<rparr>"
  shows "vdir_app vd'" "vd_des vd' = vd_des vd @ [[]]"
proof -
  show des: "vd_des vd' = vd_des vd @ [[]]" using blk(2) vd' by (simp add: vd_des_def)
  have ne: "vd_deblk vd \<noteq> []" and sz: "calc_size 255 \<le> unat (vd_deblk_sz vd)"
    using app by (auto simp: vdir_full_def)
  have l: "vd_des vd ! (length (vd_deblk vd) - 1) \<noteq> []"
    using last ne by (metis last_conv_nth length_0_conv vd_des_length)
  have "vd_des vd' ! ul \<noteq> []" if u: "Suc ul < length (vd_deblk vd')" for ul
  proof (cases "Suc ul < length (vd_deblk vd)")
    case True
    then have "vd_des vd ! ul \<noteq> []" using app by (auto simp: vdir_full_def)
    then show ?thesis using True by (simp add: des nth_append)
  next
    case False
    then have "ul = length (vd_deblk vd) - 1" using u vd' ne by auto
    then show ?thesis using l ne by (simp add: des nth_append)
  qed
  then show "vdir_app vd'" using app blk(1) des sz vd' calc_size_bounds(3) [of 255]
    unfolding vdir_app_def vdir_full_def by auto
qed

text \<open>The table of the known names points to entries of the directory.\<close>

definition de_pos :: "au_vdir \<Rightarrow> dehstr \<Rightarrow> au_vdir_de \<Rightarrow> bool" where
  "de_pos vd p d \<longleftrightarrow> fst p < length (vd_deblk vd)
     \<and> (\<exists>es es'. vd_des vd ! fst p = es @ d # es' \<and> snd p = size_des es + 5)"

definition de_key :: "au_vdir \<Rightarrow> dehstr \<Rightarrow> u8 list" where
  "de_key vd p = the (destr_name vd p)"

definition delist_wf :: "au_vdir \<Rightarrow> dehstr au_nhash \<Rightarrow> bool" where
  "delist_wf vd delist \<longleftrightarrow> nhash_wf (de_key vd) delist
     \<and> (\<forall>p \<in> set (concat (nh_head delist)). \<exists>d. de_pos vd p d)
     \<and> nhash_names (de_key vd) delist = de_name ` set (dir_des vd)"

lemma de_at_str:
  "de_at blk off = Some d \<Longrightarrow>
   \<exists>len. byte_at blk (off + 5) = Some len \<and> get_bytes blk (off + 6) (unat len) = Some (de_name d)"
  by (auto simp: de_at_def bind_eq_Some_conv)

lemma delist_wfD:
  "delist_wf vd delist \<Longrightarrow> p \<in> set (concat (nh_head delist)) \<Longrightarrow> \<exists>d. de_pos vd p d"
  unfolding delist_wf_def by blast

lemma de_pos_name:
  assumes wf: "\<forall>b \<in> set (vd_deblk vd). deblk_wf (vd_deblk_sz vd) b" and p: "de_pos vd p d"
  shows "destr_name vd p = Some (de_name d)"
proof -
  obtain es es' where e: "fst p < length (vd_deblk vd)" "vd_des vd ! fst p = es @ d # es'"
    "snd p = size_des es + 5" using p unfolding de_pos_def by blast
  let ?b = "vd_deblk vd ! fst p"
  have "block_walk (vd_deblk_sz vd) ?b 0 = Some (es @ d # es', size_des (es @ d # es'))"
    using deblk_wf_walk(2) [of "vd_deblk_sz vd" ?b] wf e(1,2) by (simp add: vd_des_def)
  from block_walk_append [OF this] have "de_at ?b (size_des es) = Some d"
    using block_walk_Cons by fastforce
  from de_at_str [OF this] show ?thesis using e(1,3) by (auto simp: destr_name_def eval_nat_numeral)
qed

lemma nhash_cong:
  assumes "\<And>x. x \<in> set (concat (nh_head nh)) \<Longrightarrow> key x = key' x"
  shows "nhash_wf key nh \<longleftrightarrow> nhash_wf key' nh" "nhash_names key nh = nhash_names key' nh"
proof -
  have "key x = key' x" if "i < length (nh_head nh)" "x \<in> set (nh_head nh ! i)" for i x
    using assms that nth_mem by fastforce
  then show "nhash_wf key nh \<longleftrightarrow> nhash_wf key' nh" unfolding nhash_wf_def by auto
  show "nhash_names key nh = nhash_names key' nh"
    unfolding nhash_names_def using assms by (intro image_cong) auto
qed

lemma test_known_ok:
  assumes "vdir_full vd" and "delist_wf vd delist"
  shows "test_known vd delist name = Some (name \<in> de_name ` set (dir_des vd))"
proof -
  have "\<forall>b \<in> set (vd_deblk vd). deblk_wf (vd_deblk_sz vd) b" using assms(1) by (simp add: vdir_full_def)
  note n = de_pos_name [OF this]
  have "test_known vd delist name = Some (name \<in> nhash_names (de_key vd) delist)"
    unfolding test_known_def
  proof (rule nhash_test_names)
    show "nhash_wf (de_key vd) delist" using assms(2) by (simp add: delist_wf_def)
  next
    fix p
    assume "p \<in> set (concat (nh_head delist))"
    then obtain d where "de_pos vd p d" using delist_wfD [OF assms(2)] by blast
    from n [OF this] show "map_option (\<lambda>str. str = name) (destr_name vd p) = Some (de_key vd p = name)"
      by (simp add: de_key_def)
  qed
  then show ?thesis using assms(2) by (simp add: delist_wf_def)
qed

text \<open>Growing blocks keep the places of the entries.\<close>

definition grown :: "au_vdir \<Rightarrow> au_vdir \<Rightarrow> bool" where
  "grown vd vd' \<longleftrightarrow> vd_deblk_sz vd' = vd_deblk_sz vd \<and> length (vd_deblk vd) \<le> length (vd_deblk vd')
     \<and> (\<forall>ul < length (vd_deblk vd). \<exists>more. vd_des vd' ! ul = vd_des vd ! ul @ more)"

lemma grown_pos: "grown vd vd' \<Longrightarrow> de_pos vd p d \<Longrightarrow> de_pos vd' p d"
  unfolding grown_def de_pos_def by fastforce

lemma grown_refl [simp]: "grown vd vd"
  by (simp add: grown_def)

lemma grown_trans:
  assumes ab: "grown a b" and bc: "grown b c"
  shows "grown a c"
proof -
  have "\<exists>more. vd_des c ! ul = vd_des a ! ul @ more" if u: "ul < length (vd_deblk a)" for ul
  proof -
    obtain m1 where "vd_des b ! ul = vd_des a ! ul @ m1" using ab u unfolding grown_def by blast
    moreover obtain m2 where "vd_des c ! ul = vd_des b ! ul @ m2"
      using ab bc u unfolding grown_def by (meson less_le_trans)
    ultimately show ?thesis by simp
  qed
  then show ?thesis using ab bc unfolding grown_def by auto
qed

lemma grown_names:
  assumes g: "grown vd vd'" and w: "vdir_full vd" "vdir_full vd'" and d: "delist_wf vd delist"
  shows "nhash_wf (de_key vd') delist" "nhash_names (de_key vd') delist = de_name ` set (dir_des vd)"
    "\<forall>p \<in> set (concat (nh_head delist)). \<exists>d. de_pos vd' p d"
proof -
  have b: "\<forall>b \<in> set (vd_deblk vd). deblk_wf (vd_deblk_sz vd) b"
    "\<forall>b \<in> set (vd_deblk vd'). deblk_wf (vd_deblk_sz vd') b" using w by (simp_all add: vdir_full_def)
  have k: "de_key vd p = de_key vd' p" if p: "p \<in> set (concat (nh_head delist))" for p
  proof -
    obtain d where "de_pos vd p d" using delist_wfD [OF d p] by blast
    from de_pos_name [OF b(1) this] de_pos_name [OF b(2) grown_pos [OF g this]]
    show ?thesis by (simp add: de_key_def)
  qed
  show "nhash_wf (de_key vd') delist" "nhash_names (de_key vd') delist = de_name ` set (dir_des vd)"
    using d nhash_cong [of delist, OF k] by (auto simp: delist_wf_def)
  show "\<forall>p \<in> set (concat (nh_head delist)). \<exists>d. de_pos vd' p d"
    using delist_wfD [OF d] grown_pos [OF g] by blast
qed

lemma grown_delist:
  assumes "grown vd vd'" and "vdir_full vd" and "vdir_full vd'" and "delist_wf vd delist"
    and "dir_des vd' = dir_des vd"
  shows "delist_wf vd' delist"
  unfolding delist_wf_def using grown_names [OF assms(1-4)] assms(5) by simp

text \<open>One more entry at the end of the last block.\<close>

lemma entry_added:
  assumes app: "vdir_app vd" and d: "delist_wf vd delist"
    and blk: "length blk = unat (vd_deblk_sz vd)"
      "block_walk (vd_deblk_sz vd) blk 0 = Some (last (vd_des vd) @ [e], off')" "off' \<le> unat (vd_deblk_sz vd)"
    and vd': "vd' = vd\<lparr>vd_deblk := (vd_deblk vd)[vd_ul vd := blk], vd_off := off'\<rparr>"
    and add: "hlist_add_head delist (de_name e) (vd_ul vd, vd_off vd + 5) = Some delist'"
  shows "vdir_full vd'" "dir_des vd' = dir_des vd @ [e]" "delist_wf vd' delist'"
    "last (vd_des vd') = last (vd_des vd) @ [e]" "grown vd vd'"
proof -
  have full: "vdir_full vd" and off: "vd_off vd = size_des (last (vd_des vd))"
    using app by (auto simp: vdir_app_def)
  have ne: "vd_deblk vd \<noteq> []" and ul: "vd_ul vd = length (vd_deblk vd) - 1"
    using full by (auto simp: vdir_full_def)
  then have dne: "vd_des vd \<noteq> []" by (metis length_0_conv vd_des_length)
  note w = deblk_wfI [OF blk]
  have "vd_des vd' = (vd_des vd)[vd_ul vd := last (vd_des vd) @ [e]]"
    using vd' w(2) by (simp add: vd_des_def map_update)
  moreover have "(vd_des vd)[vd_ul vd := x] = butlast (vd_des vd) @ [x]" for x
    using dne ul list_update_append1 [of _ "butlast (vd_des vd)"]
    by (metis length_butlast list_update_length snoc_eq_iff_butlast vd_des_length)
  ultimately have des: "vd_des vd' = butlast (vd_des vd) @ [last (vd_des vd) @ [e]]" by simp
  have old: "vd_des vd = butlast (vd_des vd) @ [last (vd_des vd)]" using dne by simp
  show last: "last (vd_des vd') = last (vd_des vd) @ [e]" using des by simp
  show new: "dir_des vd' = dir_des vd @ [e]"
    unfolding dir_des_def des by (subst (3) old) simp
  have len: "length (vd_deblk vd') = length (vd_deblk vd)" using vd' by simp
  show g: "grown vd vd'"
    unfolding grown_def
  proof (intro conjI allI impI)
    fix ul
    assume "ul < length (vd_deblk vd)"
    then have "ul < length (butlast (vd_des vd)) \<or> ul = length (butlast (vd_des vd))" by auto
    moreover have "vd_des vd ! ul = (butlast (vd_des vd) @ [last (vd_des vd)]) ! ul"
      by (simp only: old [symmetric])
    ultimately show "\<exists>more. vd_des vd' ! ul = vd_des vd ! ul @ more"
      by (auto simp: des nth_append)
  qed (use vd' len in simp_all)
  show full': "vdir_full vd'"
    unfolding vdir_full_def
  proof (intro conjI allI impI ballI)
    fix b
    assume "b \<in> set (vd_deblk vd')"
    then have "b = blk \<or> b \<in> set (vd_deblk vd)" using vd' set_update_subset_insert by fastforce
    then show "deblk_wf (vd_deblk_sz vd') b" using w(1) full vd' by (auto simp: vdir_full_def)
  next
    fix ul
    assume "Suc ul < length (vd_deblk vd')"
    then have a: "Suc ul < length (vd_deblk vd)" using len by simp
    then have "vd_des vd ! ul \<noteq> []" using full by (simp add: vdir_full_def)
    then show "vd_des vd' ! ul \<noteq> []" using g a unfolding grown_def by (metis Suc_lessD append_is_Nil_conv)
  qed (use full vd' ne ul in \<open>auto simp: vdir_full_def\<close>)
  have b: "\<forall>b \<in> set (vd_deblk vd'). deblk_wf (vd_deblk_sz vd') b"
    using full' by (simp add: vdir_full_def)
  let ?p = "(vd_ul vd, vd_off vd + 5)"
  have "vd_des vd' ! vd_ul vd = last (vd_des vd) @ e # []"
    using ul ne by (simp add: des nth_append)
  then have pos: "de_pos vd' ?p e"
    unfolding de_pos_def using ul ne len off by auto
  note nh = grown_names [OF g full full' d]
  have key: "de_key vd' ?p = de_name e" using de_pos_name [OF b pos] by (simp add: de_key_def)
  obtain nh' where h: "hlist_add_head delist (de_name e) ?p = Some nh'" "nhash_wf (de_key vd') nh'"
    "nhash_names (de_key vd') nh' = insert (de_name e) (nhash_names (de_key vd') delist)"
    "mset (concat (nh_head nh')) = add_mset ?p (mset (concat (nh_head delist)))"
    using hlist_add_head_ok [OF nh(1) key] by blast
  then have eq: "nh' = delist'" using add by simp
  have elems: "set (concat (nh_head delist')) = insert ?p (set (concat (nh_head delist)))"
    using arg_cong [OF h(4), of set_mset] eq by simp
  have all: "\<forall>p \<in> set (concat (nh_head delist')). \<exists>d. de_pos vd' p d"
    unfolding elems by (rule ballI, erule insertE) (use pos in blast, use nh(3) in fast)
  have "nhash_names (de_key vd') delist' = de_name ` set (dir_des vd')"
    unfolding eq [symmetric] h(3) nh(2) new by simp
  with all h(2) eq show "delist_wf vd' delist'" unfolding delist_wf_def by blast
qed

section \<open>The operation\<close>

text \<open>What a successful append promises.\<close>

definition appended :: "au_vdir \<Rightarrow> au_vdir_de \<Rightarrow> au_vdir \<Rightarrow> dehstr au_nhash \<Rightarrow> bool" where
  "appended vd e vd' delist' \<longleftrightarrow> vdir_app vd' \<and> delist_wf vd' delist' \<and> dir_des vd' = dir_des vd @ [e]
     \<and> vd_deblk_sz vd' = vd_deblk_sz vd \<and> vd_version vd' = vd_version vd \<and> vd_jiffy vd' = vd_jiffy vd"

lemma last_walk:
  assumes "vdir_full vd"
  shows "length (vd_deblk vd ! vd_ul vd) = unat (vd_deblk_sz vd)"
    "block_walk (vd_deblk_sz vd) (vd_deblk vd ! vd_ul vd) 0
     = Some (last (vd_des vd), size_des (last (vd_des vd)))"
    "size_des (last (vd_des vd)) \<le> unat (vd_deblk_sz vd)"
proof -
  have ul: "vd_ul vd < length (vd_deblk vd)" "vd_deblk vd \<noteq> []" "vd_ul vd = length (vd_deblk vd) - 1"
    using assms by (auto simp: vdir_full_def)
  have "last (vd_des vd) = vd_des vd ! vd_ul vd"
    using ul by (metis last_conv_nth length_0_conv vd_des_length)
  then have l: "block_des (vd_deblk_sz vd) (vd_deblk vd ! vd_ul vd) = last (vd_des vd)"
    using ul(1) by (simp add: vd_des_def)
  have "deblk_wf (vd_deblk_sz vd) (vd_deblk vd ! vd_ul vd)" using assms ul(1) by (simp add: vdir_full_def)
  from deblk_wf_walk [OF this] l
  show "length (vd_deblk vd ! vd_ul vd) = unat (vd_deblk_sz vd)"
    "block_walk (vd_deblk_sz vd) (vd_deblk vd ! vd_ul vd) 0 = Some (last (vd_des vd), size_des (last (vd_des vd)))"
    "size_des (last (vd_des vd)) \<le> unat (vd_deblk_sz vd)" by simp_all
qed

lemma append_de_here_ok:
  assumes app: "vdir_app vd" and d: "delist_wf vd delist"
    and room: "vd_off vd + calc_size (length name) \<le> unat (vd_deblk_sz vd)"
    and n: "name \<noteq> []" "length name < 256"
  shows "\<exists>err vd' delist' mem' k. append_de_here fresh vd name ino ty delist mem = Some (err, vd', delist', mem')
    \<and> mem' = drop k mem \<and> k \<le> 3 \<and> (list_all id mem \<and> 3 \<le> length mem \<longrightarrow> err = 0)
    \<and> (if err = 0 then appended vd \<lparr>de_ino = ino, de_type = ty, de_name = name\<rparr> vd' delist' else err = - ENOMEM)"
proof -
  let ?e = "\<lparr>de_ino = ino, de_type = ty, de_name = name\<rparr>" and ?off = "vd_off vd + calc_size (length name)"
  have full: "vdir_full vd" and off: "vd_off vd = size_des (last (vd_des vd))"
    using app by (auto simp: vdir_app_def)
  obtain ok m1 where t: "take_alloc mem = (ok, m1)" by force
  have m1: "m1 = drop 1 mem" by (rule take_alloc_drop [OF t])
  note lw = last_walk [OF full]
  obtain b1 err b2 where b: "put_de (vd_deblk vd ! vd_ul vd) (vd_off vd) ino ty name = Some b1"
    "set_deblk_end (vd_deblk_sz vd) b1 ?off = Some (err, b2)"
    "err = 0 \<longleftrightarrow> ?off + 8 \<le> unat (vd_deblk_sz vd)" "length b2 = unat (vd_deblk_sz vd)"
    "block_walk (vd_deblk_sz vd) b2 0 = Some (last (vd_des vd) @ [?e], ?off)"
    using block_append [OF lw(1) lw(2) [folded off] room n, of ino ty] by blast
  let ?vd = "vd\<lparr>vd_deblk := (vd_deblk vd)[vd_ul vd := b2], vd_off := ?off\<rparr>"
  obtain delist' where h: "hlist_add_head delist name (vd_ul vd, vd_off vd + 5) = Some delist'"
  proof -
    have nh: "nhash_wf (de_key vd) delist" using d by (simp add: delist_wf_def)
    obtain i where "au_name_hash delist name = Some i" "i < length (nh_head delist)"
      using au_name_hash_bound [OF nh] by blast
    then show ?thesis using that by (simp add: hlist_add_head_def)
  qed
  have "vdir_full ?vd" "dir_des ?vd = dir_des vd @ [?e]" "delist_wf ?vd delist'"
    "last (vd_des ?vd) = last (vd_des vd) @ [?e]" "grown vd ?vd"
    using entry_added [OF app d b(4,5) room refl, of delist'] h by simp_all
  note ad = this
  show ?thesis
  proof (cases "ok")
    case False
    then have "append_de_here fresh vd name ino ty delist mem = Some (- ENOMEM, vd, delist, m1)"
      using t by (simp add: append_de_here_def)
    moreover have "\<not> (list_all id mem \<and> 3 \<le> length mem)" using False take_alloc_ok [OF t] by (cases mem) auto
    ultimately show ?thesis using m1
      by (intro exI [of _ "- ENOMEM"] exI [of _ vd] exI [of _ delist] exI [of _ m1] exI [of _ 1])
        (simp add: errno_defs)
  next
    case ok: True
    show ?thesis
    proof (cases "err = 0")
      case True
      then have "append_de_here fresh vd name ino ty delist mem = Some (0, ?vd, delist', m1)"
        using t ok h b(1,2) by (simp add: append_de_here_def)
      moreover have "vdir_app ?vd" using ad(1,4) off b(3) True by (simp add: vdir_app_def)
      ultimately show ?thesis using m1 ad
        by (intro exI [of _ 0] exI [of _ ?vd] exI [of _ delist'] exI [of _ m1] exI [of _ 1])
          (simp add: appended_def)
    next
      case False
      have sz: "8 \<le> unat (vd_deblk_sz ?vd)" using full calc_size_bounds(3) [of 255] by (simp add: vdir_full_def)
      obtain e2 vd2 m2 k where a: "append_deblk fresh ?vd m1 = Some (e2, vd2, m2)" "m2 = drop k m1" "k \<le> 2"
        "list_all id m1 \<and> 2 \<le> length m1 \<longrightarrow> e2 = 0"
        "if e2 = 0 then \<exists>blk. vd2 = ?vd\<lparr>vd_deblk := vd_deblk ?vd @ [blk], vd_ul := length (vd_deblk ?vd), vd_off := 0\<rparr>
           \<and> deblk_wf (vd_deblk_sz ?vd) blk \<and> block_des (vd_deblk_sz ?vd) blk = []
         else e2 = - ENOMEM \<and> vd2 = ?vd"
        using append_deblk_ok [OF sz, of fresh m1] by blast
      have run: "append_de_here fresh vd name ino ty delist mem = Some (e2, vd2, delist', m2)"
        using t ok h b(1,2) False a(1) by (simp add: append_de_here_def)
      have mem: "list_all id mem \<and> 3 \<le> length mem \<longrightarrow> e2 = 0"
        using a(4) m1 by (cases mem) auto
      have dr: "m2 = drop (Suc k) mem" using a(2) m1 by simp
      show ?thesis
      proof (cases "e2 = 0")
        case True
        then obtain blk where v2: "vd2 = ?vd\<lparr>vd_deblk := vd_deblk ?vd @ [blk], vd_ul := length (vd_deblk ?vd), vd_off := 0\<rparr>"
          "deblk_wf (vd_deblk_sz ?vd) blk" "block_des (vd_deblk_sz ?vd) blk = []" using a(5) by auto
        have "last (vd_des ?vd) \<noteq> []" using ad(4) by simp
        note nw = vdir_app_new [OF ad(1) this v2(2,3,1)]
        have "dir_des vd2 = dir_des ?vd" using nw(2) by (simp add: dir_des_def)
        moreover have "grown ?vd vd2" using nw(2) v2(1) by (auto simp: grown_def nth_append)
        moreover from this have "delist_wf vd2 delist'"
          using grown_delist [of ?vd vd2 delist'] ad nw(1) calculation by (simp add: vdir_app_def)
        ultimately have "appended vd ?e vd2 delist'" using ad nw v2(1) by (simp add: appended_def)
        then show ?thesis using run True mem dr a(3)
          by (intro exI [of _ e2] exI [of _ vd2] exI [of _ delist'] exI [of _ m2] exI [of _ "Suc k"]) simp
      next
        case False
        then show ?thesis using run mem dr a(3,5)
          by (intro exI [of _ e2] exI [of _ vd2] exI [of _ delist'] exI [of _ m2] exI [of _ "Suc k"]) simp
      qed
    qed
  qed
qed

lemma append_de_ok:
  assumes app: "vdir_app vd" and d: "delist_wf vd delist" and n: "name \<noteq> []" "length name < 256"
  shows "\<exists>err vd' delist' mem' k. append_de fresh vd name ino ty delist mem = Some (err, vd', delist', mem')
    \<and> mem' = drop k mem \<and> k \<le> 5 \<and> (list_all id mem \<and> 5 \<le> length mem \<longrightarrow> err = 0)
    \<and> (if err = 0 then appended vd \<lparr>de_ino = ino, de_type = ty, de_name = name\<rparr> vd' delist' else err = - ENOMEM)"
proof -
  have full: "vdir_full vd" and off: "vd_off vd = size_des (last (vd_des vd))" "vd_off vd < unat (vd_deblk_sz vd)"
    using app by (auto simp: vdir_app_def)
  have v: "vd_deblk vd \<noteq> []" "vd_ul vd = length (vd_deblk vd) - 1" "calc_size 255 \<le> unat (vd_deblk_sz vd)"
    using full by (auto simp: vdir_full_def)
  note lw = last_walk [OF full]
  have "block_walk (vd_deblk_sz vd) (last (vd_deblk vd)) (vd_off vd) = Some ([], vd_off vd)"
    using block_walk_append [of "vd_deblk_sz vd" "last (vd_deblk vd)" 0 "last (vd_des vd)" "[]"] lw(2) off(1)
      v(1,2) by (simp add: last_conv_nth)
  then have e: "is_deblk_end (vd_deblk_sz vd) (last (vd_deblk vd)) (vd_off vd) = Some True"
    using block_walk_Nil by blast
  have cs: "calc_size (length name) \<le> calc_size 255" using n(2) by (simp add: calc_size_def div_le_mono)
  have rl: "room_left (vd_deblk_sz vd) (vd_off vd) = unat (vd_deblk_sz vd) - vd_off vd"
    using off(2) by (simp add: room_left_eq)
  show ?thesis
  proof (cases "unat (vd_deblk_sz vd) - vd_off vd < calc_size (length name)")
    case False
    then have run: "append_de fresh vd name ino ty delist mem = append_de_here fresh vd name ino ty delist mem"
      using v e off(2) rl by (simp add: append_de_def)
    have "vd_off vd + calc_size (length name) \<le> unat (vd_deblk_sz vd)" using False off(2) by simp
    from append_de_here_ok [OF app d this n, of fresh ino ty mem] show ?thesis
      unfolding run by (elim exE) (rule exI, rule exI, rule exI, rule exI, rule exI, auto)
  next
    case True
    have sz: "8 \<le> unat (vd_deblk_sz vd)" using v(3) calc_size_bounds(3) [of 255] by simp
    obtain e1 vd1 m1 k where a: "append_deblk fresh vd mem = Some (e1, vd1, m1)" "m1 = drop k mem" "k \<le> 2"
      "list_all id mem \<and> 2 \<le> length mem \<longrightarrow> e1 = 0"
      "if e1 = 0 then \<exists>blk. vd1 = vd\<lparr>vd_deblk := vd_deblk vd @ [blk], vd_ul := length (vd_deblk vd), vd_off := 0\<rparr>
           \<and> deblk_wf (vd_deblk_sz vd) blk \<and> block_des (vd_deblk_sz vd) blk = []
       else e1 = - ENOMEM \<and> vd1 = vd"
      using append_deblk_ok [OF sz, of fresh mem] by blast
    have run: "append_de fresh vd name ino ty delist mem
        = (if e1 \<noteq> 0 then Some (e1, vd1, delist, m1) else append_de_here fresh vd1 name ino ty delist m1)"
      using v e off(2) rl True a(1) by (simp add: append_de_def)
    show ?thesis
    proof (cases "e1 = 0")
      case False
      then show ?thesis using run a
        by (intro exI [of _ e1] exI [of _ vd1] exI [of _ delist] exI [of _ m1] exI [of _ k]) auto
    next
      case e1: True
      then obtain blk where v1: "vd1 = vd\<lparr>vd_deblk := vd_deblk vd @ [blk], vd_ul := length (vd_deblk vd), vd_off := 0\<rparr>"
        "deblk_wf (vd_deblk_sz vd) blk" "block_des (vd_deblk_sz vd) blk = []" using a(5) by auto
      have "last (vd_des vd) \<noteq> []" using True off(1) cs v(3) by auto
      note nw = vdir_app_new [OF full this v1(2,3,1)]
      have dd: "dir_des vd1 = dir_des vd" using nw(2) by (simp add: dir_des_def)
      have "grown vd vd1" using nw(2) v1(1) by (auto simp: grown_def nth_append)
      then have d1: "delist_wf vd1 delist"
        using grown_delist [OF _ full _ d dd] nw(1) by (simp add: vdir_app_def)
      have "vd_off vd1 + calc_size (length name) \<le> unat (vd_deblk_sz vd1)" using v1(1) v(3) cs by simp
      from append_de_here_ok [OF nw(1) d1 this n, of fresh ino ty m1]
      obtain err vd' delist' mem' k' where r: "append_de_here fresh vd1 name ino ty delist m1 = Some (err, vd', delist', mem')"
        "mem' = drop k' m1" "k' \<le> 3" "list_all id m1 \<and> 3 \<le> length m1 \<longrightarrow> err = 0"
        "if err = 0 then appended vd1 \<lparr>de_ino = ino, de_type = ty, de_name = name\<rparr> vd' delist' else err = - ENOMEM"
        by blast
      have "list_all id mem \<and> 5 \<le> length mem \<longrightarrow> err = 0"
        using r(4) a(2,3) by (auto simp: list_all_iff dest: in_set_dropD)
      moreover have "appended vd1 x vd' delist' \<Longrightarrow> appended vd x vd' delist'" for x
        using dd v1(1) by (simp add: appended_def)
      moreover have "mem' = drop (k' + k) mem" using r(2) a(2) by simp
      ultimately show ?thesis using run e1 r a(3)
        by (intro exI [of _ err] exI [of _ vd'] exI [of _ delist'] exI [of _ mem'] exI [of _ "k' + k"]) auto
    qed
  qed
qed

section \<open>Property\<close>

text \<open>
  \<open>append_de\<close> with a block size that allows for the longest name (264 bytes) adds exactly
  one entry at the end of the directory, with the inode number, type and name it was given; the
  blocks stay well formed, and the table of known names finds exactly the names of the directory.
  It fails only for want of memory, never after five successful allocations.
\<close>

theorem append_de_appends:
  assumes "vdir_app vd" and "delist_wf vd delist" and "name \<noteq> []" and "length name < 256"
  shows "\<exists>err vd' delist' mem'. append_de fresh vd name ino ty delist mem = Some (err, vd', delist', mem')
    \<and> (list_all id mem \<and> 5 \<le> length mem \<longrightarrow> err = 0)
    \<and> (if err = 0
       then dir_des vd' = dir_des vd @ [\<lparr>de_ino = ino, de_type = ty, de_name = name\<rparr>]
         \<and> vdir_app vd' \<and> delist_wf vd' delist'
         \<and> (\<forall>n. test_known vd' delist' n = Some (n \<in> de_name ` set (dir_des vd')))
       else err = - ENOMEM)"
proof -
  obtain err vd' delist' mem' k where a: "append_de fresh vd name ino ty delist mem = Some (err, vd', delist', mem')"
    "list_all id mem \<and> 5 \<le> length mem \<longrightarrow> err = 0"
    "if err = 0 then appended vd \<lparr>de_ino = ino, de_type = ty, de_name = name\<rparr> vd' delist' else err = - ENOMEM"
    using append_de_ok [OF assms, of fresh ino ty mem] by blast
  have "test_known vd' delist' n = Some (n \<in> de_name ` set (dir_des vd'))" if "err = 0" for n
    using test_known_ok [of vd' delist' n] a(3) that by (simp add: appended_def vdir_app_def)
  then show ?thesis using a
    by (intro exI [of _ err] exI [of _ vd'] exI [of _ delist'] exI [of _ mem']) (cases "err = 0"; simp add: appended_def)
qed

definition fresh_vdir :: au_vdir where
  "fresh_vdir = \<lparr>vd_deblk = [replicate 264 0], vd_ul = 0, vd_off = 0, vd_version = 0, vd_deblk_sz = 264, vd_jiffy = 0\<rparr>"

definition fresh_delist :: "dehstr au_nhash" where
  "fresh_delist = \<lparr>nh_num = 1, nh_head = [[]]\<rparr>"

lemma fresh_vdir_app: "vdir_app fresh_vdir" "delist_wf fresh_vdir fresh_delist"
proof -
  have "is_deblk_end 264 (replicate 264 0) 0 = Some True"
    by (simp add: is_deblk_end_def room_left_def byte_at_def)
  note w = block_walk_end [OF this]
  then have d: "vd_des fresh_vdir = [[]]" by (simp add: vd_des_def fresh_vdir_def block_des_def)
  have "deblk_wf 264 (replicate 264 0)" using w by (simp add: deblk_wf_def)
  then show "vdir_app fresh_vdir"
    using d by (simp add: vdir_app_def vdir_full_def calc_size_def) (simp add: fresh_vdir_def)
  show "delist_wf fresh_vdir fresh_delist"
    using d by (simp add: delist_wf_def dir_des_def fresh_delist_def nhash_wf_def nhash_names_def)
qed

theorem append_de_appends_witness:
  "\<exists>vd' delist' mem'. append_de (\<lambda>i. 0) fresh_vdir (replicate 255 97) 11 8 fresh_delist [True, True, True, True, True]
      = Some (0, vd', delist', mem')
    \<and> dir_des vd' = dir_des fresh_vdir @ [\<lparr>de_ino = 11, de_type = 8, de_name = replicate 255 97\<rparr>] \<and> vdir_app vd'"
  using append_de_appends [OF fresh_vdir_app, of "replicate 255 97" "\<lambda>i. 0" 11 8 "[True, True, True, True, True]"]
  by auto

end
