(* ===== verification/Xino.thy ===== *)
theory Xino
  imports Sbinfo
begin

text \<open>
  The external inode number tables (\<open>xino.c\<close>, \<open>au_ino\<close> of \<open>inode.c\<close>, the generations of
  \<open>export.c\<close>). For every lower file system there is a file that maps the inode number of the
  lower inode to the number aufs shows; the bitmap file \<open>si_xib\<close> tells which numbers are in
  use, one page of it is in memory. A page is the natural number of its bits, the bitmap file
  the list of its pages; an entry file is its size in bytes and its 32-bit entries, zero in
  holes. A transfer to or from a file follows an oracle of disturbances.
\<close>

section \<open>Transfers\<close>

text \<open>
  \<open>Xio_again\<close> is \<open>-EAGAIN\<close> or \<open>-EINTR\<close>; \<open>Xio_fail e c\<close> is an error or a short transfer that
  leaves \<open>c\<close> in the target, if it touched it. After the disturbances transfers succeed.
\<close>

datatype xio = Xio_ok | Xio_again | Xio_fail int "nat option"

text \<open>The loop of \<open>xino_fread\<close> and \<open>do_xino_fwrite\<close>: what the last turn did.\<close>

fun xino_retry :: "xio list \<Rightarrow> xio \<times> xio list" where
  "xino_retry [] = (Xio_ok, [])"
| "xino_retry (Xio_again # io) = xino_retry io"
| "xino_retry (x # io) = (x, io)"

text \<open>A transfer of \<open>n\<close> bytes that did not succeed does not return \<open>n\<close>.\<close>

definition xio_ret :: "int \<Rightarrow> int \<Rightarrow> int" where
  "xio_ret n e = (if e = n then - EIO else e)"

record xfile =
  xf_size :: int
  xf_ent :: "int \<Rightarrow> u32"

record xino =
  x_sbi :: au_sbinfo
  x_files :: "fptr \<Rightarrow> xfile"
  si_xib :: "nat list"
  si_xib_buf :: nat
  si_xib_last_pindex :: u32
  si_xib_next_bit :: int
  si_xigen :: "fptr option"
  si_xigen_next :: u32
  x_io :: "xio list"
  x_iunique :: "u32 list"

definition AUFS_ROOT_INO :: u32 where "AUFS_ROOT_INO = 2"
definition AUFS_FIRST_INO :: u32 where "AUFS_FIRST_INO = 11"
definition PAGE_SIZE :: int where "PAGE_SIZE = 4096"
definition page_bits :: int where "page_bits = PAGE_SIZE * 8"
definition au_loff_max :: int where "au_loff_max = 2 ^ 63 - 1"

section \<open>Entries of the tables\<close>

text \<open>\<open>xino_fwrite\<close> and \<open>xino_fread\<close> of one 32-bit entry at the index \<open>i\<close>.\<close>

definition xent_write :: "fptr \<Rightarrow> int \<Rightarrow> u32 \<Rightarrow> xino \<Rightarrow> int \<times> xino" where
  "xent_write f i v s =
     (let (r, io) = xino_retry (x_io s); xf = x_files s f;
          put = (\<lambda>v. xf\<lparr>xf_size := max (xf_size xf) (4 * i + 4), xf_ent := (xf_ent xf)(i := v)\<rparr>)
      in case r of
           Xio_fail e c \<Rightarrow>
             (xio_ret 4 e, s\<lparr>x_io := io, x_files := (case c of None \<Rightarrow> x_files s
                                                     | Some c \<Rightarrow> (x_files s)(f := put (of_nat c)))\<rparr>)
         | _ \<Rightarrow> (4, s\<lparr>x_io := io, x_files := (x_files s)(f := put v)\<rparr>))"

definition xent_read :: "fptr \<Rightarrow> int \<Rightarrow> xino \<Rightarrow> int \<times> u32 \<times> xino" where
  "xent_read f i s =
     (let (r, io) = xino_retry (x_io s); s' = s\<lparr>x_io := io\<rparr>
      in case r of
           Xio_fail e c \<Rightarrow> (xio_ret 4 e, (case c of None \<Rightarrow> 0 | Some c \<Rightarrow> of_nat c), s')
         | _ \<Rightarrow> (4, xf_ent (x_files s f) i, s'))"

definition au_xino_do_write :: "fptr \<Rightarrow> u32 \<Rightarrow> u32 \<Rightarrow> xino \<Rightarrow> int \<times> xino" where
  "au_xino_do_write f h_ino ino s =
     (let pos = uint h_ino
      in if au_loff_max div 4 - 1 < pos then (- EFBIG, s)
         else case xent_write f pos ino s of (sz, s') \<Rightarrow> if sz = 4 then (0, s') else (- EIO, s'))"

text \<open>
  \<open>au_xino_write\<close>; the asynchronous truncation it may start is a separate operation. A missing
  branch or file is the fault.
\<close>

definition au_xino_write :: "bindex \<Rightarrow> u32 \<Rightarrow> u32 \<Rightarrow> xino \<Rightarrow> (int \<times> xino) option" where
  "au_xino_write bindex h_ino ino s =
     (if \<not> au_opt_test (au_mntflags (x_sbi s)) AuOpt_XINO then Some (0, s)
      else Option.bind (au_sbr (x_sbi s) bindex) (\<lambda>br.
           Option.bind (br_xino_file br) (\<lambda>f.
           let (err, s') = au_xino_do_write f h_ino ino s
           in Some (if err = 0 then 0 else - EIO, s'))))"

definition au_xino_read :: "bindex \<Rightarrow> u32 \<Rightarrow> xino \<Rightarrow> (int \<times> u32 \<times> xino) option" where
  "au_xino_read bindex h_ino s =
     (if \<not> au_opt_test (au_mntflags (x_sbi s)) AuOpt_XINO then Some (0, 0, s)
      else
        let pos = uint h_ino
        in if au_loff_max div 4 - 1 < pos then Some (- EFBIG, 0, s)
           else Option.bind (au_sbr (x_sbi s) bindex) (\<lambda>br.
                Option.bind (br_xino_file br) (\<lambda>f.
                if xf_size (x_files s f) < 4 * pos + 4 then Some (0, 0, s)
                else let (sz, ino, s') = xent_read f pos s
                     in Some (if sz = 4 then 0 else if 0 \<le> sz then - EIO else sz, ino, s'))))"

section \<open>The bitmap\<close>

definition xib_calc_ino :: "u32 \<Rightarrow> int \<Rightarrow> u32 option" where
  "xib_calc_ino pindex b =
     (if b < 0 \<or> page_bits \<le> b then None
      else Some (AUFS_FIRST_INO + pindex * of_int page_bits + of_int b))"

definition xib_calc_bit :: "u32 \<Rightarrow> (u32 \<times> int) option" where
  "xib_calc_bit ino =
     (if ino < AUFS_FIRST_INO then None
      else let i = ino - AUFS_FIRST_INO
           in Some (i div of_int page_bits, uint (i mod of_int page_bits)))"

text \<open>The size of the bitmap file in bytes, and transfers of the page \<open>i\<close> of it.\<close>

definition xib_size :: "xino \<Rightarrow> int" where
  "xib_size s = PAGE_SIZE * int (length (si_xib s))"

definition page_put :: "nat list \<Rightarrow> nat \<Rightarrow> nat \<Rightarrow> nat list" where
  "page_put ps i p = (if i < length ps then ps[i := p] else ps @ replicate (i - length ps) 0 @ [p])"

definition xib_write :: "u32 \<Rightarrow> xino \<Rightarrow> int \<times> xino" where
  "xib_write i s =
     (let (r, io) = xino_retry (x_io s)
      in case r of
           Xio_fail e c \<Rightarrow>
             (xio_ret PAGE_SIZE e, s\<lparr>x_io := io, si_xib := (case c of None \<Rightarrow> si_xib s
                                                          | Some c \<Rightarrow> page_put (si_xib s) (unat i) c)\<rparr>)
         | _ \<Rightarrow> (PAGE_SIZE, s\<lparr>x_io := io, si_xib := page_put (si_xib s) (unat i) (si_xib_buf s)\<rparr>))"

definition xib_read :: "u32 \<Rightarrow> xino \<Rightarrow> int \<times> xino" where
  "xib_read i s =
     (let (r, io) = xino_retry (x_io s)
      in case r of
           Xio_fail e c \<Rightarrow>
             (xio_ret PAGE_SIZE e, s\<lparr>x_io := io, si_xib_buf := (case c of None \<Rightarrow> si_xib_buf s | Some c \<Rightarrow> c)\<rparr>)
         | _ \<Rightarrow> if unat i < length (si_xib s)
               then (PAGE_SIZE, s\<lparr>x_io := io, si_xib_buf := si_xib s ! unat i\<rparr>)
               else (0, s\<lparr>x_io := io\<rparr>))"

text \<open>\<open>xib_pindex\<close>: write the page in memory back, load or create the other one.\<close>

definition xib_err :: "int \<Rightarrow> int" where
  "xib_err sz = (if 0 \<le> sz then - EIO else sz)"

definition xib_pindex :: "u32 \<Rightarrow> xino \<Rightarrow> (int \<times> xino) option" where
  "xib_pindex pindex s =
     (if (2 ^ 32 - 1) div PAGE_SIZE < uint pindex \<or> \<not> au_opt_test (au_mntflags (x_sbi s)) AuOpt_XINO
      then None
      else if pindex = si_xib_last_pindex s then Some (0, s)
      else case xib_write (si_xib_last_pindex s) s of (sz, s1) \<Rightarrow>
        if sz \<noteq> PAGE_SIZE then Some (xib_err sz, s1)
        else case (if uint pindex * PAGE_SIZE + PAGE_SIZE \<le> xib_size s1 then xib_read pindex s1
                   else xib_write pindex (s1\<lparr>si_xib_buf := 0\<rparr>)) of (sz, s2) \<Rightarrow>
        if sz = PAGE_SIZE then Some (0, s2\<lparr>si_xib_last_pindex := pindex\<rparr>) else Some (xib_err sz, s2))"

text \<open>\<open>find_first_zero_bit\<close> on the page in memory, \<open>page_bits\<close> if there is none.\<close>

fun first_zero :: "nat \<Rightarrow> nat \<Rightarrow> nat \<Rightarrow> nat" where
  "first_zero 0 i p = i"
| "first_zero (Suc n) i p = (if bit p i then first_zero n (Suc i) p else i)"

definition find_first_zero_bit :: "nat \<Rightarrow> int" where
  "find_first_zero_bit p = int (first_zero (nat page_bits) 0 p)"

text \<open>
  The two loops of \<open>au_xino_new_ino\<close>: \<open>Inl 0\<close> no page has room, \<open>Inl err\<close> an error,
  \<open>Inr bit\<close> the free bit of the page now in memory.
\<close>

function xib_down :: "u32 \<Rightarrow> xino \<Rightarrow> ((int + int) \<times> xino) option" where
  "xib_down ul s =
     (if ul < - 1
      then case xib_pindex ul s of
             None \<Rightarrow> None
           | Some (err, s') \<Rightarrow>
               if err \<noteq> 0 then Some (Inl err, s')
               else let b = find_first_zero_bit (si_xib_buf s')
                    in if b < page_bits then Some (Inr b, s') else xib_down (ul - 1) s'
      else Some (Inl 0, s))"
  by pat_completeness auto
termination
proof (relation "measure (\<lambda>(ul :: u32, s). unat (ul + 1))", goal_cases)
  case (2 ul s x err s' b)
  have "ul \<noteq> - 1" using 2(1) by (rule less_imp_neq)
  then have "ul + 1 \<noteq> 0" by (simp add: eq_neg_iff_add_eq_0)
  from measure_unat [OF this] show ?case by simp
qed simp

fun xib_up :: "nat \<Rightarrow> u32 \<Rightarrow> xino \<Rightarrow> ((int + int) \<times> xino) option" where
  "xib_up 0 ul s = Some (Inl 0, s)"
| "xib_up (Suc n) ul s =
     (case xib_pindex ul s of
        None \<Rightarrow> None
      | Some (err, s') \<Rightarrow>
          if err \<noteq> 0 then Some (Inl err, s')
          else let b = find_first_zero_bit (si_xib_buf s')
               in if b < page_bits then Some (Inr b, s') else xib_up n (ul + 1) s')"

text \<open>The end of \<open>au_xino_new_ino\<close>: the label \<open>out\<close>.\<close>

definition xib_take :: "int \<Rightarrow> xino \<Rightarrow> (u32 \<times> xino) option" where
  "xib_take b s =
     map_option (\<lambda>ino. (ino, s\<lparr>si_xib_buf := set_bit (nat b) (si_xib_buf s), si_xib_next_bit := b + 1\<rparr>))
       (xib_calc_ino (si_xib_last_pindex s) b)"

text \<open>
  \<open>au_xino_new_ino\<close>; 0 is the error. \<open>BUG\<close> is the fault. The upward loop visits the pages up to
  the number of pages in the file.
\<close>

definition au_xino_new_ino :: "xino \<Rightarrow> (u32 \<times> xino) option" where
  "au_xino_new_ino s =
     (if \<not> au_opt_test (au_mntflags (x_sbi s)) AuOpt_XINO
      then Some (case x_iunique s of [] \<Rightarrow> (0, s) | i # is \<Rightarrow> (i, s\<lparr>x_iunique := is\<rparr>))
      else if si_xib_next_bit s < page_bits \<and> \<not> bit (si_xib_buf s) (nat (si_xib_next_bit s))
      then xib_take (si_xib_next_bit s) s
      else let b = find_first_zero_bit (si_xib_buf s)
      in if b < page_bits then xib_take b s
      else let pindex = si_xib_last_pindex s
      in case xib_down (pindex - 1) s of
           None \<Rightarrow> None
         | Some (Inr b, s') \<Rightarrow> xib_take b s'
         | Some (Inl err, s') \<Rightarrow>
             if err \<noteq> 0 then Some (0, s')
             else (case xib_up (nat (xib_size s' div PAGE_SIZE - uint pindex)) (pindex + 1) s' of
                     None \<Rightarrow> None
                   | Some (Inr b, s'') \<Rightarrow> xib_take b s''
                   | Some (Inl err, s'') \<Rightarrow> if err \<noteq> 0 then Some (0, s'') else None))"

text \<open>\<open>au_xib_clear_bit\<close> of an inode that has no link.\<close>

definition au_xib_clear_bit :: "u32 \<Rightarrow> u32 \<Rightarrow> xino \<Rightarrow> xino option" where
  "au_xib_clear_bit nlink ino s =
     (if nlink \<noteq> 0 then None
      else Option.bind (xib_calc_bit ino) (\<lambda>(pindex, b).
           map_option (\<lambda>(err, s').
               if err = 0 then s'\<lparr>si_xib_buf := unset_bit (nat b) (si_xib_buf s'), si_xib_next_bit := b\<rparr>
               else s')
             (xib_pindex pindex s)))"

section \<open>The number of a lower inode\<close>

text \<open>\<open>au_ino\<close>: the error, \<open>*ino\<close> and the state.\<close>

definition au_ino :: "bindex \<Rightarrow> u32 \<Rightarrow> xino \<Rightarrow> (int \<times> u32 \<times> xino) option" where
  "au_ino bindex h_ino s =
     Option.bind (au_xino_read bindex h_ino s) (\<lambda>(err, ino, s1).
     if err \<noteq> 0 then Some (err, ino, s1)
     else if ino \<noteq> 0 then Some (0, ino, s1)
     else Option.bind (au_xino_new_ino s1) (\<lambda>(ino, s2).
          if ino = 0 then Some (- EIO, 0, s2)
          else map_option (\<lambda>(err, s3). (err, ino, s3)) (au_xino_write bindex h_ino ino s2)))"

section \<open>Generations\<close>

text \<open>The generation of an inode number survives the inode (\<open>export.c\<close>).\<close>

definition au_xigen_inc :: "u32 \<Rightarrow> u32 \<Rightarrow> xino \<Rightarrow> xino option" where
  "au_xigen_inc ino gen s =
     (if \<not> au_opt_test (au_mntflags (x_sbi s)) AuOpt_XINO then None
      else map_option (\<lambda>f. snd (xent_write f (uint ino) (gen + 1) s)) (si_xigen s))"

definition au_xigen_new :: "u32 \<Rightarrow> u32 \<Rightarrow> xino \<Rightarrow> (int \<times> u32 \<times> xino) option" where
  "au_xigen_new ino gen s =
     (if ino = AUFS_ROOT_INO \<or> \<not> au_opt_test (au_mntflags (x_sbi s)) AuOpt_XINO then Some (0, gen, s)
      else if au_loff_max div 4 - 1 < uint ino then Some (- EFBIG, gen, s)
      else map_option (\<lambda>f.
          case (if xf_size (x_files s f) < 4 * uint ino + 4
                then let next = si_xigen_next s + 1;
                         (sz, s') = xent_write f (uint ino) next (s\<lparr>si_xigen_next := next\<rparr>)
                     in (sz, next, s')
                else xent_read f (uint ino) s) of
            (sz, g, s') \<Rightarrow> (if sz = 4 then 0 else if 0 \<le> sz then - EIO else sz, g, s'))
        (si_xigen s))"

end
