(* ===== verification/Xino_Bitmap.thy ===== *)
theory Xino_Bitmap
  imports Xino
begin

text \<open>
  The bitmap of the inode numbers as a set: whatever page is in memory, \<open>au_xino_new_ino\<close> takes
  a number that is not in the set and adds it, \<open>au_xib_clear_bit\<close> removes one, and the
  upward search never reaches its \<open>BUG\<close>.
\<close>

section \<open>The logical bitmap\<close>

definition xino_on :: "xino \<Rightarrow> bool" where
  "xino_on s = au_opt_test (au_mntflags (x_sbi s)) AuOpt_XINO"

text \<open>No transfer fails; some may be interrupted.\<close>

definition quiet :: "xino \<Rightarrow> bool" where
  "quiet s = list_all (\<lambda>x. x = Xio_ok \<or> x = Xio_again) (x_io s)"

definition xib_page :: "xino \<Rightarrow> nat \<Rightarrow> nat" where
  "xib_page s p = (if p = unat (si_xib_last_pindex s) then si_xib_buf s
                   else if p < length (si_xib s) then si_xib s ! p else 0)"

text \<open>A number \<open>11 + p * 32768 + b\<close> below \<open>2 ^ 32\<close> needs \<open>p\<close> below 131071.\<close>

definition xib_ok :: "xino \<Rightarrow> bool" where
  "xib_ok s \<longleftrightarrow> xino_on s \<and> unat (si_xib_last_pindex s) < length (si_xib s)
     \<and> length (si_xib s) \<le> 131071 \<and> 0 \<le> si_xib_next_bit s"

definition ino_of :: "nat \<times> nat \<Rightarrow> int" where
  "ino_of pb = 11 + 32768 * int (fst pb) + int (snd pb)"

definition xib_inos :: "xino \<Rightarrow> int set" where
  "xib_inos s = ino_of ` {(p, b). b < 32768 \<and> bit (xib_page s p) b}"

lemma page_bits_eq: "page_bits = 32768"
  by (simp add: page_bits_def PAGE_SIZE_def)

lemma ino_of_inj:
  assumes "b < 32768" and "b' < 32768"
  shows "ino_of (p, b) = ino_of (p', b') \<longleftrightarrow> p = p' \<and> b = b'"
proof
  assume "ino_of (p, b) = ino_of (p', b')"
  then have "int (32768 * p + b) = int (32768 * p' + b')" by (simp add: ino_of_def)
  then have e: "32768 * p + b = 32768 * p' + b'" by (simp only: of_nat_eq_iff)
  have "(32768 * p + b) div 32768 = p" "(32768 * p' + b') div 32768 = p'" using assms by simp_all
  then show "p = p' \<and> b = b'" using e by simp
qed simp

lemma xib_inos_iff: "b < 32768 \<Longrightarrow> ino_of (p, b) \<in> xib_inos s \<longleftrightarrow> bit (xib_page s p) b"
  by (auto simp: xib_inos_def ino_of_inj)

text \<open>States with the same numbers, options and tables.\<close>

definition xib_same :: "xino \<Rightarrow> xino \<Rightarrow> bool" where
  "xib_same s s' \<longleftrightarrow> xib_page s' = xib_page s \<and> x_sbi s' = x_sbi s \<and> x_files s' = x_files s
     \<and> si_xib_next_bit s' = si_xib_next_bit s \<and> si_xigen s' = si_xigen s
     \<and> length (si_xib s) \<le> length (si_xib s')"

lemma xib_same_refl [simp]: "xib_same s s"
  by (simp add: xib_same_def)

lemma xib_same_trans: "xib_same a b \<Longrightarrow> xib_same b c \<Longrightarrow> xib_same a c"
  by (auto simp: xib_same_def)

lemma xib_same_inos: "xib_same s s' \<Longrightarrow> xib_inos s' = xib_inos s"
  by (simp add: xib_same_def xib_inos_def)

section \<open>Transfers and pages\<close>

lemma retry_quiet:
  assumes "list_all (\<lambda>x. x = Xio_ok \<or> x = Xio_again) io"
  shows "\<exists>io'. xino_retry io = (Xio_ok, io') \<and> list_all (\<lambda>x. x = Xio_ok \<or> x = Xio_again) io'"
  using assms by (induction io rule: xino_retry.induct) auto

lemma page_put_length: "length (page_put ps i p) = max (length ps) (Suc i)"
  by (simp add: page_put_def)

lemma page_put_nth:
  "j < length (page_put ps i p) \<Longrightarrow>
   page_put ps i p ! j = (if j = i then p else if j < length ps then ps ! j else 0)"
  by (auto simp: page_put_def nth_append nth_list_update nth_Cons split: nat.splits)

lemma first_zero_spec:
  "first_zero n i p \<le> i + n \<and> i \<le> first_zero n i p
   \<and> (\<forall>j. i \<le> j \<longrightarrow> j < first_zero n i p \<longrightarrow> bit p j)
   \<and> (first_zero n i p < i + n \<longrightarrow> \<not> bit p (first_zero n i p))"
proof (induction n arbitrary: i)
  case (Suc n)
  note IH = Suc.IH [of "Suc i"]
  show ?case
  proof (cases "bit p i")
    case True
    have "bit p j" if "i \<le> j" "j < first_zero n (Suc i) p" for j
      using IH that True by (cases "j = i") auto
    then show ?thesis using IH True by auto
  qed simp
qed simp

lemma find_first_zero:
  assumes "find_first_zero_bit p < page_bits"
  shows "\<not> bit p (nat (find_first_zero_bit p))" "0 \<le> find_first_zero_bit p"
  using assms first_zero_spec [of "nat page_bits" 0 p]
  by (auto simp: find_first_zero_bit_def page_bits_eq)

lemma find_first_zero_empty: "find_first_zero_bit 0 = 0"
proof -
  have "first_zero (Suc n) 0 0 = 0" for n by simp
  moreover have "nat page_bits = Suc 32767" by (simp add: page_bits_eq)
  ultimately have "first_zero (nat page_bits) 0 0 = 0" by (simp only:)
  then show ?thesis unfolding find_first_zero_bit_def by (simp only: of_nat_0)
qed

lemma uint_unat_less: "unat w < n \<Longrightarrow> uint w < int n"
  by (metis of_nat_less_iff uint_nat)

lemma uint_unat_le: "n \<le> unat w \<Longrightarrow> int n \<le> uint w"
  by (metis of_nat_le_iff uint_nat)

text \<open>Loading a page keeps the numbers.\<close>

lemma xib_pindex_quiet:
  assumes ok: "xib_ok s" and q: "quiet s" and p: "unat pindex < 131071"
  shows "\<exists>s'. xib_pindex pindex s = Some (0, s') \<and> xib_same s s' \<and> xib_ok s' \<and> quiet s'
    \<and> si_xib_last_pindex s' = pindex \<and> length (si_xib s') = max (length (si_xib s)) (Suc (unat pindex))"
proof (cases "pindex = si_xib_last_pindex s")
  case True
  have "uint pindex \<le> (2 ^ 32 - 1) div PAGE_SIZE" using uint_unat_less [OF p] by (simp add: PAGE_SIZE_def)
  then show ?thesis using True ok q
    by (intro exI [of _ s]) (auto simp: xib_pindex_def xib_ok_def xino_on_def)
next
  case False
  have small: "uint pindex \<le> (2 ^ 32 - 1) div PAGE_SIZE" using uint_unat_less [OF p] by (simp add: PAGE_SIZE_def)
  let ?last = "unat (si_xib_last_pindex s)" and ?n = "length (si_xib s)" and ?i = "unat pindex"
  have ne: "?i \<noteq> ?last" using False word_unat_eq_iff by blast
  have last: "?last < ?n" and on: "xino_on s" using ok by (auto simp: xib_ok_def)
  obtain io1 where io1: "xino_retry (x_io s) = (Xio_ok, io1)" "list_all (\<lambda>x. x = Xio_ok \<or> x = Xio_again) io1"
    using retry_quiet q unfolding quiet_def by blast
  obtain io2 where io2: "xino_retry io1 = (Xio_ok, io2)" "list_all (\<lambda>x. x = Xio_ok \<or> x = Xio_again) io2"
    using retry_quiet io1(2) by blast
  let ?ps = "(si_xib s)[?last := si_xib_buf s]"
  let ?s1 = "s\<lparr>x_io := io1, si_xib := ?ps\<rparr>"
  have w1: "xib_write (si_xib_last_pindex s) s = (PAGE_SIZE, ?s1)"
    using io1(1) last by (simp add: xib_write_def page_put_def)
  show ?thesis
  proof (cases "?i < ?n")
    case True
    let ?s2 = "?s1\<lparr>x_io := io2, si_xib_buf := ?ps ! ?i, si_xib_last_pindex := pindex\<rparr>"
    have "uint pindex * PAGE_SIZE + PAGE_SIZE \<le> xib_size ?s1"
      using uint_unat_less [OF True] by (simp add: xib_size_def PAGE_SIZE_def)
    then have "xib_pindex pindex s = Some (0, ?s2)"
      using small on False w1 True io2(1) by (simp add: xib_pindex_def xib_read_def xino_on_def)
    moreover have "xib_page ?s2 = xib_page s"
      using True last ne by (auto simp: xib_page_def fun_eq_iff nth_list_update)
    moreover have "xib_ok ?s2" using ok True by (simp add: xib_ok_def xino_on_def)
    ultimately show ?thesis using True io2(2) last
      by (intro exI [of _ ?s2]) (simp add: xib_same_def quiet_def)
  next
    case new: False
    let ?s2 = "?s1\<lparr>x_io := io2, si_xib_buf := 0, si_xib := page_put ?ps ?i 0, si_xib_last_pindex := pindex\<rparr>"
    have "\<not> uint pindex * PAGE_SIZE + PAGE_SIZE \<le> xib_size ?s1"
      using uint_unat_le [of ?n pindex] new by (simp add: xib_size_def PAGE_SIZE_def)
    then have "xib_pindex pindex s = Some (0, ?s2)"
      using small on False w1 io2(1) by (simp add: xib_pindex_def xib_write_def xino_on_def)
    moreover have "xib_page ?s2 = xib_page s"
      using new last ne
      by (auto simp: xib_page_def fun_eq_iff nth_list_update page_put_length page_put_nth)
    moreover have "xib_ok ?s2" using ok new p by (simp add: xib_ok_def xino_on_def page_put_length)
    ultimately show ?thesis using new io2(2) last
      by (intro exI [of _ ?s2]) (simp add: xib_same_def quiet_def page_put_length)
  qed
qed

section \<open>Searching a free number\<close>

text \<open>What a search may answer: a clear bit of the page in memory, or nothing.\<close>

definition xib_found :: "xino \<Rightarrow> (int + int) \<Rightarrow> xino \<Rightarrow> bool" where
  "xib_found s r s' \<longleftrightarrow> xib_same s s' \<and> xib_ok s' \<and> quiet s'
     \<and> (case r of Inl e \<Rightarrow> e = 0
        | Inr b \<Rightarrow> 0 \<le> b \<and> b < page_bits \<and> \<not> bit (si_xib_buf s') (nat b))"

lemma xib_found_trans: "xib_same s t \<Longrightarrow> xib_found t r s' \<Longrightarrow> xib_found s r s'"
  using xib_same_trans by (auto simp: xib_found_def)

declare xib_down.simps [simp del]

lemma xib_down_quiet:
  assumes "xib_ok s" and "quiet s" and "ul = - 1 \<or> unat ul < length (si_xib s)"
  shows "\<exists>r s'. xib_down ul s = Some (r, s') \<and> xib_found s r s' \<and> length (si_xib s') = length (si_xib s)"
  using assms
proof (induction ul s rule: xib_down.induct)
  case (1 ul s)
  show ?case
  proof (cases "ul = - 1")
    case True
    then have "xib_down ul s = Some (Inl 0, s)" by (simp add: xib_down.simps [of "- 1"])
    then show ?thesis using 1(2,3) by (auto simp: xib_found_def)
  next
    case False
    then have lt: "unat ul < length (si_xib s)" and ul: "ul < - 1"
      using 1(4) by (auto simp: word_order.not_eq_extremum)
    have "unat ul < 131071" using lt 1(2) by (simp add: xib_ok_def)
    from xib_pindex_quiet [OF 1(2,3) this] obtain s1 where s1: "xib_pindex ul s = Some (0, s1)"
      "xib_same s s1" "xib_ok s1" "quiet s1" "length (si_xib s1) = length (si_xib s)"
      using lt by auto
    let ?b = "find_first_zero_bit (si_xib_buf s1)"
    show ?thesis
    proof (cases "?b < page_bits")
      case True
      then have "xib_down ul s = Some (Inr ?b, s1)" using ul s1(1) by (simp add: xib_down.simps [of ul])
      then show ?thesis using s1 True find_first_zero [OF True] by (auto simp: xib_found_def)
    next
      case more: False
      have "xib_down ul s = xib_down (ul - 1) s1" using ul s1(1) more by (simp add: xib_down.simps [of ul])
      moreover have "ul - 1 = - 1 \<or> unat (ul - 1) < length (si_xib s1)"
        using lt s1(5) unat_minus_one [of ul] by (cases "ul = 0") auto
      then obtain r s' where "xib_down (ul - 1) s1 = Some (r, s')" "xib_found s1 r s'"
        "length (si_xib s') = length (si_xib s1)"
        using 1(1) [OF ul s1(1) _ _ refl more s1(3,4)] by auto
      ultimately show ?thesis using xib_found_trans [OF s1(2)] s1(5) by auto
    qed
  qed
qed

lemma xib_up_quiet:
  assumes "xib_ok s" and "quiet s" and "unat ul + n = length (si_xib s)" and "length (si_xib s) < 131071"
  shows "\<exists>b s'. xib_up (Suc n) ul s = Some (Inr b, s') \<and> xib_found s (Inr b) s'
    \<and> length (si_xib s') \<le> Suc (length (si_xib s))"
  using assms
proof (induction n arbitrary: ul s)
  case 0
  have lu: "unat ul = length (si_xib s)" using 0(3) by simp
  have "unat ul < 131071" using lu 0(4) by simp
  from xib_pindex_quiet [OF 0(1,2) this] obtain s1 where s1: "xib_pindex ul s = Some (0, s1)"
    "xib_same s s1" "xib_ok s1" "quiet s1" "si_xib_last_pindex s1 = ul" "length (si_xib s1) = Suc (length (si_xib s))"
    using lu by auto
  have "unat (si_xib_last_pindex s) < length (si_xib s)" using 0(1) by (simp add: xib_ok_def)
  then have "xib_page s (unat ul) = 0" using lu by (simp add: xib_page_def)
  then have "si_xib_buf s1 = 0" using s1(2,5) by (simp add: xib_same_def xib_page_def fun_eq_iff) metis
  then have "xib_up (Suc 0) ul s = Some (Inr 0, s1)"
    using s1(1) find_first_zero_empty by (simp add: page_bits_eq)
  then show ?case using s1 \<open>si_xib_buf s1 = 0\<close> by (auto simp: xib_found_def page_bits_eq)
next
  case (Suc n)
  have ub: "unat ul < 131071" using Suc.prems by simp
  from xib_pindex_quiet [OF Suc.prems(1,2) this] obtain s1 where s1: "xib_pindex ul s = Some (0, s1)"
    "xib_same s s1" "xib_ok s1" "quiet s1" "length (si_xib s1) = length (si_xib s)"
    using Suc.prems(3) by auto
  let ?b = "find_first_zero_bit (si_xib_buf s1)"
  show ?case
  proof (cases "?b < page_bits")
    case True
    then have "xib_up (Suc (Suc n)) ul s = Some (Inr ?b, s1)" using s1(1) by simp
    then show ?thesis using s1 find_first_zero [OF True] True by (auto simp: xib_found_def)
  next
    case False
    have "unat (ul + 1) = Suc (unat ul)" using ub by (simp add: unat_word_ariths)
    then have "unat (ul + 1) + n = length (si_xib s1)" "length (si_xib s1) < 131071"
      using Suc.prems(3,4) s1(5) by simp_all
    from Suc.IH [OF s1(3,4) this]
    obtain b s' where "xib_up (Suc n) (ul + 1) s1 = Some (Inr b, s')" "xib_found s1 (Inr b) s'"
      "length (si_xib s') \<le> Suc (length (si_xib s1))"
      by blast
    moreover have "xib_up (Suc (Suc n)) ul s = xib_up (Suc n) (ul + 1) s1" using s1(1) False by simp
    ultimately show ?thesis using xib_found_trans [OF s1(2)] s1(5) by auto
  qed
qed

section \<open>Taking and giving back a number\<close>

lemma xib_calc_ino_of:
  assumes "unat p < 131071" and "0 \<le> b" and "b < page_bits"
  shows "\<exists>ino. xib_calc_ino p b = Some ino \<and> uint ino = ino_of (unat p, nat b)"
proof -
  let ?n = "11 + 32768 * unat p + nat b"
  have lt: "?n < 2 ^ 32" using assms by (simp add: page_bits_eq)
  have eq: "(of_nat ?n :: u32) = 11 + p * 32768 + of_int b"
    using assms(2) by (simp add: mult.commute)
  have "unat (of_nat ?n :: u32) = ?n"
    unfolding unat_of_nat by (rule mod_less) (use lt in simp)
  then have "uint (11 + p * 32768 + of_int b :: u32) = int ?n"
    unfolding eq [symmetric] uint_nat by (simp only:)
  then show ?thesis using assms by (simp add: xib_calc_ino_def AUFS_FIRST_INO_def page_bits_eq ino_of_def)
qed

lemma xib_take_ok:
  assumes ok: "xib_ok s" and q: "quiet s" and b: "0 \<le> b" "b < page_bits" "\<not> bit (si_xib_buf s) (nat b)"
  shows "\<exists>ino s'. xib_take b s = Some (ino, s') \<and> uint ino \<notin> xib_inos s
    \<and> xib_inos s' = insert (uint ino) (xib_inos s) \<and> 11 \<le> uint ino \<and> xib_ok s' \<and> quiet s'
    \<and> x_sbi s' = x_sbi s \<and> x_files s' = x_files s \<and> si_xib s' = si_xib s"
proof -
  let ?p = "unat (si_xib_last_pindex s)"
  have "?p < 131071" using ok by (simp add: xib_ok_def)
  from xib_calc_ino_of [OF this b(1,2)] obtain ino where ino: "xib_calc_ino (si_xib_last_pindex s) b = Some ino"
    "uint ino = ino_of (?p, nat b)" by blast
  let ?s = "s\<lparr>si_xib_buf := set_bit (nat b) (si_xib_buf s), si_xib_next_bit := b + 1\<rparr>"
  have nb: "nat b < 32768" using b by (simp add: page_bits_eq)
  have page: "bit (xib_page ?s p) c \<longleftrightarrow> bit (xib_page s p) c \<or> (p = ?p \<and> c = nat b)" for p c
    by (auto simp: xib_page_def bit_set_bit_iff)
  have "xib_inos ?s = insert (ino_of (?p, nat b)) (xib_inos s)"
    using nb by (auto simp: xib_inos_def page)
  moreover have "ino_of (?p, nat b) \<notin> xib_inos s"
    using xib_inos_iff [OF nb] b(3) by (simp add: xib_page_def)
  ultimately show ?thesis using ino ok q b(1)
    by (intro exI [of _ ino] exI [of _ ?s])
      (auto simp: xib_take_def xib_ok_def xino_on_def quiet_def ino_of_def)
qed

lemma new_ino_fresh:
  assumes ok: "xib_ok s" and q: "quiet s" and len: "length (si_xib s) < 131071"
  shows "\<exists>ino s'. au_xino_new_ino s = Some (ino, s') \<and> uint ino \<notin> xib_inos s
    \<and> xib_inos s' = insert (uint ino) (xib_inos s) \<and> 11 \<le> uint ino \<and> xib_ok s' \<and> quiet s'
    \<and> x_sbi s' = x_sbi s \<and> x_files s' = x_files s \<and> length (si_xib s') \<le> Suc (length (si_xib s))"
proof -
  have on: "au_opt_test (au_mntflags (x_sbi s)) AuOpt_XINO" using ok by (simp add: xib_ok_def xino_on_def)
  let ?b = "find_first_zero_bit (si_xib_buf s)"
  text \<open>Whatever page the bit was found in, taking it is right for the numbers at the start.\<close>
  have take: "\<exists>ino s'. xib_take b t = Some (ino, s') \<and> uint ino \<notin> xib_inos s
    \<and> xib_inos s' = insert (uint ino) (xib_inos s) \<and> 11 \<le> uint ino \<and> xib_ok s' \<and> quiet s'
    \<and> x_sbi s' = x_sbi s \<and> x_files s' = x_files s \<and> length (si_xib s') \<le> Suc (length (si_xib s))"
    if "xib_found s (Inr b) t" "length (si_xib t) \<le> Suc (length (si_xib s))" for b t
  proof -
    have t: "xib_same s t" "xib_ok t" "quiet t" "0 \<le> b" "b < page_bits" "\<not> bit (si_xib_buf t) (nat b)"
      using that(1) by (simp_all add: xib_found_def)
    from xib_take_ok [OF t(2-6)] that(2) show ?thesis
      using xib_same_inos [OF t(1)] t(1) by (auto simp: xib_same_def)
  qed
  have here: "xib_found s (Inr b) s" if "0 \<le> b" "b < page_bits" "\<not> bit (si_xib_buf s) (nat b)" for b
    using that ok q by (simp add: xib_found_def)
  consider (next_bit) "si_xib_next_bit s < page_bits \<and> \<not> bit (si_xib_buf s) (nat (si_xib_next_bit s))"
    | (first) "\<not> (si_xib_next_bit s < page_bits \<and> \<not> bit (si_xib_buf s) (nat (si_xib_next_bit s)))" "?b < page_bits"
    | (pages) "\<not> (si_xib_next_bit s < page_bits \<and> \<not> bit (si_xib_buf s) (nat (si_xib_next_bit s)))" "\<not> ?b < page_bits"
    by blast
  then show ?thesis
  proof cases
    case next_bit
    then have "au_xino_new_ino s = xib_take (si_xib_next_bit s) s" using on by (simp add: au_xino_new_ino_def)
    moreover have "0 \<le> si_xib_next_bit s" using ok by (simp add: xib_ok_def)
    ultimately show ?thesis using take [OF here] next_bit by simp
  next
    case first
    then have "au_xino_new_ino s = xib_take ?b s" using on by (auto simp: au_xino_new_ino_def)
    then show ?thesis using take [OF here] find_first_zero [OF first(2)] first(2) by simp
  next
    case pages
    let ?pi = "si_xib_last_pindex s"
    have pi: "unat ?pi < length (si_xib s)" using ok by (simp add: xib_ok_def)
    have "?pi - 1 = - 1 \<or> unat (?pi - 1) < length (si_xib s)"
      using pi unat_minus_one [of ?pi] by (cases "?pi = 0") auto
    from xib_down_quiet [OF ok q this] obtain r t where t: "xib_down (?pi - 1) s = Some (r, t)"
      "xib_found s r t" "length (si_xib t) = length (si_xib s)" by blast
    show ?thesis
    proof (cases r)
      case (Inr b)
      then have "au_xino_new_ino s = xib_take b t" using on pages t(1) by (auto simp: au_xino_new_ino_def Let_def)
      then show ?thesis using take [of b t] t(2,3) Inr by simp
    next
      case (Inl e)
      then have e: "e = 0" and tt: "xib_same s t" "xib_ok t" "quiet t" using t(2) by (simp_all add: xib_found_def)
      let ?n = "length (si_xib s) - Suc (unat ?pi)"
      have n: "nat (xib_size t div PAGE_SIZE - uint ?pi) = Suc ?n"
      proof -
        have "xib_size t div PAGE_SIZE - uint ?pi = int (length (si_xib s) - unat ?pi)"
          using pi t(3) by (simp add: xib_size_def PAGE_SIZE_def of_nat_diff)
        then show ?thesis unfolding \<open>xib_size t div PAGE_SIZE - uint ?pi = _\<close> nat_int using pi by simp
      qed
      have "unat (?pi + 1) = Suc (unat ?pi)" using pi len by (simp add: unat_word_ariths)
      then have "unat (?pi + 1) + ?n = length (si_xib t)" using pi t(3) by simp
      from xib_up_quiet [OF tt(2,3) this] len t(3) obtain b s' where u:
        "xib_up (Suc ?n) (?pi + 1) t = Some (Inr b, s')" "xib_found t (Inr b) s'"
        "length (si_xib s') \<le> Suc (length (si_xib t))" by auto
      have "au_xino_new_ino s = xib_take b s'"
        using on pages t(1) Inl e u(1) unfolding au_xino_new_ino_def n [symmetric]
        by (auto simp: Let_def simp del: xib_up.simps)
      then show ?thesis using take [of b s'] xib_found_trans [OF tt(1) u(2)] u(3) t(3) by simp
    qed
  qed
qed

lemma xib_calc_bit_of:
  assumes "11 \<le> uint ino"
  shows "\<exists>p b. xib_calc_bit ino = Some (p, b) \<and> 0 \<le> b \<and> b < 32768 \<and> uint ino = ino_of (unat p, nat b)"
proof -
  let ?i = "ino - AUFS_FIRST_INO"
  have le: "AUFS_FIRST_INO \<le> ino" using assms by (simp add: AUFS_FIRST_INO_def word_le_def)
  then have i: "uint ?i = uint ino - 11" using assms by (simp add: uint_sub_if' AUFS_FIRST_INO_def)
  have c: "xib_calc_bit ino = Some (?i div 32768, uint (?i mod 32768))"
    using le by (simp add: xib_calc_bit_def page_bits_eq not_less [symmetric] Let_def)
  have d: "uint (?i div 32768) = uint ?i div 32768" "uint (?i mod 32768) = uint ?i mod 32768"
    by (simp_all add: uint_div uint_mod)
  have "32768 * (uint ?i div 32768) + uint ?i mod 32768 = uint ?i" by simp
  then have "uint ino = ino_of (unat (?i div 32768), nat (uint (?i mod 32768)))"
    using i d by (simp add: ino_of_def)
  then show ?thesis using c d by (intro exI conjI) auto
qed

text \<open>Removing a number; the bit search starts there the next time.\<close>

lemma clear_bit_ok:
  assumes ok: "xib_ok s" and q: "quiet s" and ino: "11 \<le> uint ino" "uint ino < 4294934539"
  shows "\<exists>s'. au_xib_clear_bit 0 ino s = Some s' \<and> xib_inos s' = xib_inos s - {uint ino}
    \<and> xib_ok s' \<and> quiet s' \<and> x_files s' = x_files s \<and> x_sbi s' = x_sbi s
    \<and> si_xib_next_bit s' = uint ((ino - 11) mod 32768)"
proof -
  obtain p b where c: "xib_calc_bit ino = Some (p, b)" "0 \<le> b" "b < 32768" "uint ino = ino_of (unat p, nat b)"
    using xib_calc_bit_of [OF ino(1)] by blast
  have b: "b = uint ((ino - 11) mod 32768)"
    using c(1) by (simp add: xib_calc_bit_def AUFS_FIRST_INO_def page_bits_eq Let_def split: if_splits)
  define m where "m = unat p"
  have "11 + 32768 * int m + int (nat b) < 4294934539"
    using ino(2) unfolding c(4) ino_of_def fst_conv snd_conv m_def .
  then have "m < 131071" by linarith
  then have "unat p < 131071" unfolding m_def .
  from xib_pindex_quiet [OF ok q this] obtain t where t: "xib_pindex p s = Some (0, t)" "xib_same s t"
    "xib_ok t" "quiet t" "si_xib_last_pindex t = p" by blast
  let ?s = "t\<lparr>si_xib_buf := unset_bit (nat b) (si_xib_buf t), si_xib_next_bit := b\<rparr>"
  have nb: "nat b < 32768" using c(3) by simp
  have page: "bit (xib_page ?s q) d \<longleftrightarrow> bit (xib_page t q) d \<and> \<not> (q = unat p \<and> d = nat b)" for q d
    using t(5) by (auto simp: xib_page_def bit_unset_bit_iff)
  have "xib_inos ?s = xib_inos t - {ino_of (unat p, nat b)}"
    using nb by (auto simp: xib_inos_def page ino_of_inj)
  then show ?thesis using c t xib_same_inos [OF t(2)] b
    by (intro exI [of _ ?s]) (auto simp: au_xib_clear_bit_def xib_ok_def xino_on_def quiet_def xib_same_def)
qed

end
