(* ===== verification/Xino_Table.thy ===== *)
theory Xino_Table
  imports Xino_Bitmap
begin

text \<open>
  The inode numbers of aufs: repeated allocation gives distinct numbers, and the tables of the
  branches together with the bitmap give every lower inode a number of its own that stays the
  same.
\<close>

section \<open>A pool of numbers\<close>

text \<open>The contract of an allocator: \<open>used\<close> is what is taken, \<open>room\<close> how often it surely succeeds.\<close>

fun alloc_n :: "('s \<Rightarrow> ('i \<times> 's) option) \<Rightarrow> nat \<Rightarrow> 's \<Rightarrow> ('i list \<times> 's) option" where
  "alloc_n alloc 0 s = Some ([], s)"
| "alloc_n alloc (Suc n) s =
     Option.bind (alloc s) (\<lambda>(i, s').
     map_option (\<lambda>(is, s''). (i # is, s'')) (alloc_n alloc n s'))"

locale id_pool =
  fixes alloc :: "'s \<Rightarrow> ('i \<times> 's) option"
    and used :: "'s \<Rightarrow> 'i set"
    and ok :: "'s \<Rightarrow> bool"
    and room :: "'s \<Rightarrow> nat"
  assumes alloc_fresh: "ok s \<Longrightarrow> 0 < room s \<Longrightarrow>
    \<exists>i s'. alloc s = Some (i, s') \<and> i \<notin> used s \<and> used s' = insert i (used s) \<and> ok s'
      \<and> room s \<le> Suc (room s')"
begin

lemma allocs_distinct:
  assumes "ok s" and "n \<le> room s"
  shows "\<exists>is s'. alloc_n alloc n s = Some (is, s') \<and> length is = n \<and> distinct is
    \<and> set is \<inter> used s = {} \<and> used s' = set is \<union> used s \<and> ok s'"
  using assms
proof (induction n arbitrary: s)
  case (Suc n)
  from alloc_fresh [of s] Suc.prems obtain i s1 where a: "alloc s = Some (i, s1)" "i \<notin> used s"
    "used s1 = insert i (used s)" "ok s1" "room s \<le> Suc (room s1)" by auto
  obtain js s2 where r: "alloc_n alloc n s1 = Some (js, s2)" "length js = n" "distinct js"
    "set js \<inter> used s1 = {}" "used s2 = set js \<union> used s1" "ok s2"
    using Suc.IH [OF a(4)] Suc.prems(2) a(5) by auto
  show ?case using a r by (intro exI [of _ "i # js"] exI [of _ s2]) auto
qed simp

end

text \<open>The numbers in use, as words.\<close>

definition xib_words :: "xino \<Rightarrow> u32 set" where
  "xib_words s = {w. uint w \<in> xib_inos s}"

interpretation xib: id_pool au_xino_new_ino xib_words "\<lambda>s. xib_ok s \<and> quiet s" "\<lambda>s. 131071 - length (si_xib s)"
proof unfold_locales
  fix s
  assume "xib_ok s \<and> quiet s" and "0 < 131071 - length (si_xib s)"
  then obtain i s' where n: "au_xino_new_ino s = Some (i, s')" "uint i \<notin> xib_inos s"
    "xib_inos s' = insert (uint i) (xib_inos s)" "xib_ok s'" "quiet s'"
    "length (si_xib s') \<le> Suc (length (si_xib s))"
    using new_ino_fresh [of s] by auto
  then have "xib_words s' = insert i (xib_words s)" "i \<notin> xib_words s"
    by (auto simp: xib_words_def word_uint_eq_iff)
  then show "\<exists>i s'. au_xino_new_ino s = Some (i, s') \<and> i \<notin> xib_words s
      \<and> xib_words s' = insert i (xib_words s) \<and> (xib_ok s' \<and> quiet s')
      \<and> 131071 - length (si_xib s) \<le> Suc (131071 - length (si_xib s'))"
    using n by (intro exI [of _ i] exI [of _ s']) auto
qed

section \<open>The tables\<close>

definition xtab :: "xino \<Rightarrow> fptr \<Rightarrow> u32 \<Rightarrow> u32" where
  "xtab s f h = (if xf_size (x_files s f) < 4 * uint h + 4 then 0 else xf_ent (x_files s f) (uint h))"

text \<open>
  Holes read as zero; a number from 11 on is marked in the bitmap and belongs to one lower inode
  (2 is the root of every branch).
\<close>

definition xino_wf :: "fptr set \<Rightarrow> xino \<Rightarrow> bool" where
  "xino_wf F s \<longleftrightarrow> xib_ok s
     \<and> (\<forall>f \<in> F. \<forall>i. xf_size (x_files s f) < 4 * i + 4 \<longrightarrow> xf_ent (x_files s f) i = 0)
     \<and> (\<forall>f \<in> F. \<forall>h. 11 \<le> uint (xtab s f h) \<longrightarrow> uint (xtab s f h) \<in> xib_inos s)
     \<and> (\<forall>f \<in> F. \<forall>g \<in> F. \<forall>h k. 11 \<le> uint (xtab s f h) \<and> xtab s f h = xtab s g k \<longrightarrow> f = g \<and> h = k)"

lemma xtab_cong: "x_files s' = x_files s \<Longrightarrow> xtab s' = xtab s"
  by (simp add: xtab_def fun_eq_iff)

lemma xino_wf_cong:
  assumes "xib_ok s'" and f: "x_files s' = x_files s" and "xib_inos s \<subseteq> xib_inos s'" and "xino_wf F s"
  shows "xino_wf F s'"
  using assms unfolding xino_wf_def xtab_cong [OF f] f by blast

lemma xino_do_write_quiet:
  assumes q: "quiet s" and holes: "\<forall>i. xf_size (x_files s f) < 4 * i + 4 \<longrightarrow> xf_ent (x_files s f) i = 0"
  shows "\<exists>s'. au_xino_do_write f h v s = (0, s') \<and> quiet s'
    \<and> (\<forall>g k. xtab s' g k = (if g = f \<and> k = h then v else xtab s g k))
    \<and> (\<forall>g. g \<noteq> f \<longrightarrow> x_files s' g = x_files s g)
    \<and> (\<forall>i. xf_size (x_files s' f) < 4 * i + 4 \<longrightarrow> xf_ent (x_files s' f) i = 0)
    \<and> xib_inos s' = xib_inos s \<and> x_sbi s' = x_sbi s \<and> si_xib s' = si_xib s
    \<and> (xib_ok s \<longrightarrow> xib_ok s')"
proof -
  obtain io where io: "xino_retry (x_io s) = (Xio_ok, io)" "list_all (\<lambda>x. x = Xio_ok \<or> x = Xio_again) io"
    using retry_quiet q unfolding quiet_def by blast
  let ?xf = "x_files s f"
  let ?s = "s\<lparr>x_io := io, x_files := (x_files s)(f := ?xf\<lparr>xf_size := max (xf_size ?xf) (4 * uint h + 4),
      xf_ent := (xf_ent ?xf)(uint h := v)\<rparr>)\<rparr>"
  have "uint h < 2 ^ 32" using uint_lt2p [of h] by simp
  then have "au_xino_do_write f h v s = (0, ?s)"
    using io by (simp add: au_xino_do_write_def xent_write_def au_loff_max_def Let_def)
  moreover have "xtab ?s g k = (if g = f \<and> k = h then v else xtab s g k)" for g k
    using holes by (auto simp: xtab_def word_uint_eq_iff)
  moreover have "xib_page ?s = xib_page s" by (simp add: xib_page_def fun_eq_iff)
  ultimately show ?thesis using io holes
    by (intro exI [of _ ?s]) (simp add: quiet_def xib_inos_def xib_ok_def xino_on_def)
qed

text \<open>One turn of \<open>au_ino\<close> keeps everything else.\<close>

lemma au_ino_quiet:
  assumes wf: "xino_wf F s" and q: "quiet s" and room: "length (si_xib s) < 131071"
    and br: "au_sbr (x_sbi s) bindex = Some br" "br_xino_file br = Some f" "f \<in> F"
  shows "\<exists>ino s'. au_ino bindex h s = Some (0, ino, s') \<and> ino \<noteq> 0 \<and> xtab s' f h = ino
    \<and> (\<forall>g k. (g, k) \<noteq> (f, h) \<longrightarrow> xtab s' g k = xtab s g k)
    \<and> (if xtab s f h = 0 then uint ino \<notin> xib_inos s \<and> 11 \<le> uint ino \<and> xib_inos s' = insert (uint ino) (xib_inos s)
       else ino = xtab s f h \<and> xib_inos s' = xib_inos s)
    \<and> xino_wf F s' \<and> quiet s' \<and> x_sbi s' = x_sbi s \<and> length (si_xib s') \<le> Suc (length (si_xib s))"
proof -
  have ok: "xib_ok s" and on: "au_opt_test (au_mntflags (x_sbi s)) AuOpt_XINO"
    using wf by (auto simp: xino_wf_def xib_ok_def xino_on_def)
  have holes: "\<forall>i. xf_size (x_files s f) < 4 * i + 4 \<longrightarrow> xf_ent (x_files s f) i = 0"
    using wf br(3) by (auto simp: xino_wf_def)
  have hl: "uint h < 2 ^ 32" using uint_lt2p [of h] by simp
  obtain io where io: "xino_retry (x_io s) = (Xio_ok, io)" "list_all (\<lambda>x. x = Xio_ok \<or> x = Xio_again) io"
    using retry_quiet q unfolding quiet_def by blast
  have read: "\<exists>io'. au_xino_read bindex h s = Some (0, xtab s f h, s\<lparr>x_io := io'\<rparr>)
      \<and> list_all (\<lambda>x. x = Xio_ok \<or> x = Xio_again) io'"
  proof (cases "xf_size (x_files s f) < 4 * uint h + 4")
    case True
    then show ?thesis using on br hl q
      by (intro exI [of _ "x_io s"]) (simp add: au_xino_read_def au_loff_max_def xtab_def quiet_def Let_def)
  next
    case False
    then show ?thesis using on br hl io
      by (intro exI [of _ io]) (simp add: au_xino_read_def au_loff_max_def xtab_def xent_read_def Let_def)
  qed
  then obtain io' where rd: "au_xino_read bindex h s = Some (0, xtab s f h, s\<lparr>x_io := io'\<rparr>)"
    "list_all (\<lambda>x. x = Xio_ok \<or> x = Xio_again) io'" by blast
  let ?s1 = "s\<lparr>x_io := io'\<rparr>"
  have pg: "xib_page ?s1 = xib_page s" by (simp add: xib_page_def fun_eq_iff)
  have s1: "xib_ok ?s1" "quiet ?s1" "xtab ?s1 = xtab s" "xib_inos ?s1 = xib_inos s"
    using ok rd(2) xtab_cong [of ?s1 s]
    by (simp_all add: xib_ok_def xino_on_def quiet_def xib_inos_def pg)
  show ?thesis
  proof (cases "xtab s f h = 0")
    case False
    have "xino_wf F ?s1" by (rule xino_wf_cong [OF s1(1) _ _ wf]) (simp_all add: s1(4))
    moreover have "au_ino bindex h s = Some (0, xtab s f h, ?s1)" using rd(1) False by (simp add: au_ino_def)
    ultimately show ?thesis using False s1
      by (intro exI [of _ "xtab s f h"] exI [of _ ?s1]) simp
  next
    case True
    obtain ino s2 where n: "au_xino_new_ino ?s1 = Some (ino, s2)" "uint ino \<notin> xib_inos ?s1"
      "xib_inos s2 = insert (uint ino) (xib_inos ?s1)" "11 \<le> uint ino" "xib_ok s2" "quiet s2"
      "x_sbi s2 = x_sbi ?s1" "x_files s2 = x_files ?s1" "length (si_xib s2) \<le> Suc (length (si_xib ?s1))"
      using new_ino_fresh [OF s1(1,2)] room by auto
    have xt2: "xtab s2 = xtab s" using n(8) xtab_cong [of s2 s] by simp
    obtain s3 where w: "au_xino_do_write f h ino s2 = (0, s3)" "quiet s3"
      "\<And>g k. xtab s3 g k = (if g = f \<and> k = h then ino else xtab s g k)"
      "\<And>g. g \<noteq> f \<Longrightarrow> x_files s3 g = x_files s2 g"
      "\<forall>i. xf_size (x_files s3 f) < 4 * i + 4 \<longrightarrow> xf_ent (x_files s3 f) i = 0"
      "xib_inos s3 = xib_inos s2" "x_sbi s3 = x_sbi s2" "si_xib s3 = si_xib s2" "xib_ok s3"
      using xino_do_write_quiet [of s2 f h ino] n(5,6,8) holes xt2 by auto
    have nz: "ino \<noteq> 0" using n(4) by auto
    have run: "au_ino bindex h s = Some (0, ino, s3)"
      using rd(1) True n(1,7) nz on br w(1) by (simp add: au_ino_def au_xino_write_def)
    have inos: "xib_inos s3 = insert (uint ino) (xib_inos s)" using w(6) n(3) s1(4) by simp
    have marked: "uint (xtab s g k) \<in> xib_inos s" if "g \<in> F" "11 \<le> uint (xtab s g k)" for g k
      using wf that unfolding xino_wf_def by blast
    have one: "g = g' \<and> k = k'" if "g \<in> F" "g' \<in> F" "11 \<le> uint (xtab s g k)" "xtab s g k = xtab s g' k'" for g g' k k'
      using wf that unfolding xino_wf_def by blast
    have fresh: "xtab s g k \<noteq> ino" if "g \<in> F" for g k
      using marked [OF that] n(2,4) s1(4) by metis
    have "xino_wf F s3"
      unfolding xino_wf_def
    proof (intro conjI ballI allI impI)
      fix g i
      assume "g \<in> F" and sz: "xf_size (x_files s3 g) < 4 * i + 4"
      show "xf_ent (x_files s3 g) i = 0"
      proof (cases "g = f")
        case False
        then have "x_files s3 g = x_files s g" using w(4) n(8) by simp
        then show ?thesis using wf \<open>g \<in> F\<close> sz by (simp add: xino_wf_def)
      qed (use w(5) sz in simp)
    next
      fix g k
      assume g: "g \<in> F" and big: "11 \<le> uint (xtab s3 g k)"
      show "uint (xtab s3 g k) \<in> xib_inos s3"
      proof (cases "g = f \<and> k = h")
        case False
        then have "xtab s3 g k = xtab s g k" unfolding w(3) by (rule if_not_P)
        then show ?thesis using marked [OF g] big inos by simp
      qed (use w(3) inos in simp)
    next
      fix g g' k k'
      assume g: "g \<in> F" "g' \<in> F" and eq: "11 \<le> uint (xtab s3 g k) \<and> xtab s3 g k = xtab s3 g' k'"
      have "g = g' \<and> k = k'"
      proof (cases "g = f \<and> k = h"; cases "g' = f \<and> k' = h")
        assume "\<not> (g = f \<and> k = h)" and "\<not> (g' = f \<and> k' = h)"
        then have "xtab s3 g k = xtab s g k" "xtab s3 g' k' = xtab s g' k'"
          unfolding w(3) by (simp_all only: if_False)
        then have "11 \<le> uint (xtab s g k)" "xtab s g k = xtab s g' k'" using eq by metis+
        then show ?thesis by (rule one [OF g])
      qed (use w(3) eq fresh [OF g(1)] fresh [OF g(2)] in \<open>metis (full_types)\<close>)+
      then show "g = g'" "k = k'" by simp_all
    qed (rule w(9))
    then show ?thesis using run nz w n s1(4) inos True
      by (intro exI [of _ ino] exI [of _ s3]) auto
  qed
qed

section \<open>Properties\<close>

text \<open>
  C23: while transfers succeed, \<open>n\<close> calls of \<open>au_xino_new_ino\<close> return \<open>n\<close> distinct inode numbers,
  none of which was in use, and the bitmap then contains exactly the old numbers and these;
  neither \<open>BUG\<close> nor an assertion is reached as long as the bitmap has not 131071 pages.
\<close>

theorem au_xino_new_ino_distinct:
  assumes "xib_ok s" and "quiet s" and "n \<le> 131071 - length (si_xib s)"
  shows "\<exists>is s'. alloc_n au_xino_new_ino n s = Some (is, s') \<and> length is = n \<and> distinct is
    \<and> set is \<inter> xib_words s = {} \<and> xib_words s' = set is \<union> xib_words s \<and> xib_ok s'"
  using xib.allocs_distinct [of s n] assms by auto

definition example_xino :: xino where
  "example_xino =
     \<lparr>x_sbi = example_sbinfo\<lparr>si_mntflags := AuOpt_XINO,
        si_branch := [Some (example_branch 1 1 100\<lparr>br_xino_file := Some 7\<rparr>)], si_bend := 0\<rparr>,
      x_files = (\<lambda>f. \<lparr>xf_size = 0, xf_ent = (\<lambda>i. 0)\<rparr>),
      si_xib = [mask 32768, 0], si_xib_buf = mask 32768, si_xib_last_pindex = 0, si_xib_next_bit = 32768,
      si_xigen = Some 9, si_xigen_next = 5, x_io = [Xio_again, Xio_ok], x_iunique = []\<rparr>"

lemma example_xino_ok: "xib_ok example_xino" "quiet example_xino"
  by (simp_all add: xib_ok_def example_xino_def quiet_def xino_on_def au_opt_test_def au_mntflags_def
      AuOpt_XINO_def)

theorem au_xino_new_ino_distinct_witness:
  "\<exists>is s'. alloc_n au_xino_new_ino 3 example_xino = Some (is, s') \<and> length is = 3 \<and> distinct is
    \<and> set is \<inter> xib_words example_xino = {} \<and> xib_words s' = set is \<union> xib_words example_xino \<and> xib_ok s'"
  by (rule au_xino_new_ino_distinct [OF example_xino_ok]) (simp add: example_xino_def)

text \<open>
  C22: \<open>au_ino\<close> gives every lower inode (of a branch file system and its table) a number: the one
  in the table if there is one, else one that no other lower inode has, which is then in the
  table and in the bitmap. All other lower inodes keep their numbers, and two lower inodes never
  have the same one.
\<close>

theorem au_ino_injective:
  assumes "xino_wf F s" and "quiet s" and "length (si_xib s) < 131071"
    and "au_sbr (x_sbi s) bindex = Some br" and "br_xino_file br = Some f" and "f \<in> F"
  shows "\<exists>ino s'. au_ino bindex h s = Some (0, ino, s') \<and> ino \<noteq> 0 \<and> xtab s' f h = ino
    \<and> (\<forall>g k. (g, k) \<noteq> (f, h) \<longrightarrow> xtab s' g k = xtab s g k)
    \<and> (if xtab s f h = 0 then uint ino \<notin> xib_inos s \<and> 11 \<le> uint ino \<and> xib_inos s' = insert (uint ino) (xib_inos s)
       else ino = xtab s f h \<and> xib_inos s' = xib_inos s)
    \<and> xino_wf F s'"
  using au_ino_quiet [OF assms] by blast

lemma example_xino_wf: "xino_wf {7} example_xino"
proof -
  have "xtab example_xino f h = 0" for f h by (simp add: xtab_def example_xino_def)
  then show ?thesis using example_xino_ok by (simp add: xino_wf_def example_xino_def)
qed

theorem au_ino_injective_witness:
  "\<exists>ino s'. au_ino 0 77 example_xino = Some (0, ino, s') \<and> ino \<noteq> 0 \<and> xtab s' 7 77 = ino
    \<and> uint ino \<notin> xib_inos example_xino \<and> xino_wf {7} s'"
proof -
  have "au_sbr (x_sbi example_xino) 0 = Some (example_branch 1 1 100\<lparr>br_xino_file := Some 7\<rparr>)"
    by (simp add: example_xino_def au_sbr_def arr_get_def)
  moreover have "xtab example_xino 7 77 = 0" by (simp add: xtab_def example_xino_def)
  moreover have "length (si_xib example_xino) < 131071" by (simp add: example_xino_def)
  ultimately show ?thesis
    using au_ino_injective [OF example_xino_wf example_xino_ok(2), of 0 _ 7 77] by auto
qed

text \<open>
  C24: no space for a new page of the bitmap: \<open>xib_pindex\<close> has already cleared the page in memory
  when its write fails, but \<open>si_xib_last_pindex\<close> still names the old page. The call of
  \<open>au_xino_new_ino\<close> fails as it should, and the next one returns a number that is in use.
\<close>

theorem au_xino_new_ino_after_enospc:
  assumes "xib_ok s" and "si_xib_last_pindex s = 0" and "length (si_xib s) = 1"
    and "\<forall>b < 32768. bit (si_xib_buf s) b" and "x_io s = [Xio_ok, Xio_fail (- ENOSPC) None]"
  shows "\<exists>s1 ino s2. au_xino_new_ino s = Some (0, s1) \<and> au_xino_new_ino s1 = Some (ino, s2)
    \<and> ino \<noteq> 0 \<and> uint ino \<in> xib_inos s"
proof -
  have on: "au_opt_test (au_mntflags (x_sbi s)) AuOpt_XINO" and nb: "0 \<le> si_xib_next_bit s"
    using assms(1) by (simp_all add: xib_ok_def xino_on_def)
  obtain p0 where p0: "si_xib s = [p0]" using assms(3) by (cases "si_xib s") auto
  have none: "\<not> find_first_zero_bit (si_xib_buf s) < page_bits"
    using find_first_zero [of "si_xib_buf s"] assms(4) by (auto simp: page_bits_eq)
  have nxt: "\<not> (si_xib_next_bit s < page_bits \<and> \<not> bit (si_xib_buf s) (nat (si_xib_next_bit s)))"
    using assms(4) nb by (auto simp: page_bits_eq)
  let ?s1 = "s\<lparr>x_io := [], si_xib := [si_xib_buf s], si_xib_buf := 0\<rparr>"
  have p1: "xib_pindex 1 s = Some (- ENOSPC, ?s1)"
    using on assms(2,5) p0
    by (simp add: xib_pindex_def xib_write_def page_put_def xib_size_def PAGE_SIZE_def xio_ret_def xib_err_def)
  have down: "xib_down (- 1) s = Some (Inl 0, s)" by (simp add: xib_down.simps [of "- 1"])
  have one: "nat (xib_size s div PAGE_SIZE - uint (si_xib_last_pindex s)) = Suc 0"
    using assms(2) p0 by (simp add: xib_size_def PAGE_SIZE_def)
  have "au_xino_new_ino s = Some (0, ?s1)"
    using on none nxt assms(2) one down p1 unfolding au_xino_new_ino_def by (auto simp: Let_def)
  moreover obtain b where b: "0 \<le> b" "b < page_bits" "au_xino_new_ino ?s1 = xib_take b ?s1"
  proof (cases "si_xib_next_bit s < page_bits")
    case True
    then show ?thesis using that [of "si_xib_next_bit s"] nb on by (simp add: au_xino_new_ino_def)
  next
    case False
    then show ?thesis using that [of 0] on find_first_zero_empty
      by (simp add: au_xino_new_ino_def page_bits_eq)
  qed
  moreover obtain ino where ino: "xib_calc_ino 0 b = Some ino" "uint ino = ino_of (0, nat b)"
    using xib_calc_ino_of [of 0 b] b by auto
  moreover have "ino_of (0, nat b) \<in> xib_inos s"
    using xib_inos_iff [of "nat b" 0 s] b assms(2,4) by (simp add: xib_page_def page_bits_eq)
  moreover have "ino \<noteq> 0"
  proof
    assume "ino = 0"
    then show False using ino(2) b(1) by (simp add: ino_of_def)
  qed
  ultimately show ?thesis using assms(2) by (auto simp: xib_take_def)
qed

theorem au_xino_new_ino_after_enospc_witness:
  "\<exists>s1 ino s2. au_xino_new_ino (example_xino\<lparr>si_xib := [mask 32768], x_io := [Xio_ok, Xio_fail (- ENOSPC) None]\<rparr>) = Some (0, s1)
    \<and> au_xino_new_ino s1 = Some (ino, s2) \<and> ino \<noteq> 0
    \<and> uint ino \<in> xib_inos (example_xino\<lparr>si_xib := [mask 32768], x_io := [Xio_ok, Xio_fail (- ENOSPC) None]\<rparr>)"
proof (rule au_xino_new_ino_after_enospc)
  show "xib_ok (example_xino\<lparr>si_xib := [mask 32768], x_io := [Xio_ok, Xio_fail (- ENOSPC) None]\<rparr>)"
    using example_xino_ok(1) by (simp add: xib_ok_def xino_on_def example_xino_def)
qed (simp_all add: example_xino_def bit_mask_iff)

end
