(* ===== verification/Vdir.thy ===== *)
theory Vdir
  imports Deblk_Append Xino_Table
begin

text \<open>
  Reading a merged directory (\<open>vdir.c\<close> from \<open>au_vdir_free\<close> on, \<open>au_dir_size\<close> of \<open>dir.c\<close>): the
  entries of the lower directories are filtered through the tables of known names and of
  whiteouts and appended to the blocks of the inode, which are then copied to the file. A lower
  directory is what its file system delivers: the position that rewinding it returns and, for
  every call of \<open>vfsub_readdir\<close>, the entries of the call and its result.
\<close>

section \<open>Directory sizes\<close>

definition NAME_MAX :: int where "NAME_MAX = 255"
definition AUFS_MAX_NAMELEN :: int where "AUFS_MAX_NAMELEN = 242"
definition DT_UNKNOWN :: u8 where "DT_UNKNOWN = 0"

text \<open>
  The largest \<open>kmalloc\<close> of the configuration (\<open>MAX_ORDER\<close> 11, 4096 bytes a page). The power of
  two that is not below a number; for 0 the C expression shifts by 32, which ARM evaluates to 0.
\<close>

definition KMALLOC_MAX_SIZE :: int where "KMALLOC_MAX_SIZE = 2 ^ 22"

fun pow2_from :: "nat \<Rightarrow> int \<Rightarrow> int \<Rightarrow> int" where
  "pow2_from 0 p n = p"
| "pow2_from (Suc k) p n = (if n \<le> p then p else pow2_from k (2 * p) n)"

definition roundup_pow_of_two :: "int \<Rightarrow> int" where
  "roundup_pow_of_two n = (if n = 0 then 0 else pow2_from 32 1 n)"

text \<open>The sizes are those of the lower directories that exist, from the first branch on.\<close>

fun dir_size_sum :: "int list \<Rightarrow> int \<Rightarrow> int" where
  "dir_size_sum [] sz = sz"
| "dir_size_sum (x # xs) sz = (if sz < KMALLOC_MAX_SIZE then dir_size_sum xs (sz + x) else sz)"

definition au_dir_size :: "int list \<Rightarrow> int" where
  "au_dir_size sizes =
     (let sz = dir_size_sum sizes 0;
          sz = (if sz < KMALLOC_MAX_SIZE then roundup_pow_of_two sz else sz)
      in if KMALLOC_MAX_SIZE < sz then KMALLOC_MAX_SIZE
         else if sz < NAME_MAX then uint AUFS_RDBLK_DEF else sz)"

section \<open>Allocating and resetting\<close>

text \<open>\<open>au_vdir_free\<close>: the blocks that are freed, in the order of the code.\<close>

definition au_vdir_free :: "au_vdir \<Rightarrow> u8 list list" where
  "au_vdir_free vd = vd_deblk vd"

definition alloc_vdir ::
    "(nat \<Rightarrow> u8) \<Rightarrow> u32 \<Rightarrow> int list \<Rightarrow> mem_oracle \<Rightarrow> ((int + au_vdir) \<times> mem_oracle) option" where
  "alloc_vdir fresh rdblk sizes mem =
     (let (ok1, mem1) = take_alloc mem; (ok2, mem2) = take_alloc mem1;
          vd = \<lparr>vd_deblk = [], vd_ul = 0, vd_off = 0, vd_version = 0,
                vd_deblk_sz = (if rdblk = 0 then of_int (au_dir_size sizes) else rdblk), vd_jiffy = 0\<rparr>
      in if \<not> ok1 then Some (Inl (- ENOMEM), mem1)
         else if \<not> ok2 then Some (Inl (- ENOMEM), mem2)
         else map_option (\<lambda>(err, vd', mem'). (if err = 0 then Inr vd' else Inl err, mem'))
                (append_deblk fresh vd mem2))"

definition reinit_vdir :: "au_vdir \<Rightarrow> (int \<times> au_vdir) option" where
  "reinit_vdir vd =
     (case vd_deblk vd of
        [] \<Rightarrow> None
      | b # bs \<Rightarrow> map_option (\<lambda>(err, b').
            (err, vd\<lparr>vd_deblk := [b'], vd_ul := 0, vd_off := 0, vd_version := 0, vd_jiffy := 0\<rparr>))
          (set_deblk_end (vd_deblk_sz vd) b 0))"

section \<open>Filling\<close>

definition wh_prefixed :: "u8 list \<Rightarrow> bool" where
  "wh_prefixed name \<longleftrightarrow> 4 < length name \<and> take 4 name = AUFS_WH_PFX"

text \<open>The state behind \<open>struct fillvdir_arg\<close>.\<close>

record fillvdir_arg =
  fa_vdir :: au_vdir
  fa_delist :: "dehstr au_nhash"
  fa_whlist :: "au_vdir_wh au_nhash"
  fa_called :: bool
  fa_err :: int
  fa_x :: xino
  fa_mem :: mem_oracle

text \<open>What a lower file system delivers: name, inode number and type.\<close>

type_synonym raw_de = "u8 list \<times> u64 \<times> u8"

text \<open>The parameters of a run: configuration, new memory, the clock, the option \<open>shwh\<close>.\<close>

record read_env =
  re_cfg :: kconfig
  re_fresh :: "nat \<Rightarrow> u8"
  re_jiffies :: u32

text \<open>The plain name.\<close>

definition fill_plain :: "read_env \<Rightarrow> bindex \<Rightarrow> raw_de \<Rightarrow> fillvdir_arg \<Rightarrow> fillvdir_arg option" where
  "fill_plain env b raw a =
     (case raw of (name, h_ino, ty) \<Rightarrow>
      Option.bind (test_known (fa_vdir a) (fa_delist a) name) (\<lambda>known.
      Option.bind (if known then Some True else au_nhash_test_known_wh (fa_whlist a) name) (\<lambda>known.
      if known then Some a
      else Option.bind (au_ino b (ucast h_ino) (fa_x a)) (\<lambda>(err, ino, x').
           if err \<noteq> 0 then Some (a\<lparr>fa_err := err, fa_x := x'\<rparr>)
           else map_option (\<lambda>(err, vd', de', mem').
                    a\<lparr>fa_err := err, fa_x := x', fa_vdir := vd', fa_delist := de', fa_mem := mem'\<rparr>)
                  (append_de (re_fresh env) (fa_vdir a) name ino
                     (if AUFS_MAX_NAMELEN < int (length name) then DT_UNKNOWN else ty) (fa_delist a) (fa_mem a))))))"

text \<open>The whiteout in a branch where whiteouts count.\<close>

definition fill_wh :: "read_env \<Rightarrow> bool \<Rightarrow> bindex \<Rightarrow> raw_de \<Rightarrow> fillvdir_arg \<Rightarrow> fillvdir_arg option" where
  "fill_wh env shwh b raw a =
     (case raw of (name, h_ino, ty) \<Rightarrow>
      let name = drop 4 name in
      Option.bind (au_nhash_test_known_wh (fa_whlist a) name) (\<lambda>known.
      if known then Some a
      else Option.bind (if shwh \<and> cfg_shwh (re_cfg env) then au_ino b (ucast h_ino) (fa_x a)
                        else Some (0, 0, fa_x a)) (\<lambda>(err, ino, x').
           if err \<noteq> 0 then Some (a\<lparr>fa_err := err, fa_x := x'\<rparr>)
           else map_option (\<lambda>(err, wh', mem').
                    a\<lparr>fa_err := err, fa_x := x', fa_whlist := wh', fa_mem := mem'\<rparr>)
                  (au_nhash_append_wh (cfg_shwh (re_cfg env)) (fa_whlist a) name ino
                     (if int (length name) \<le> AUFS_MAX_NAMELEN + 4 then DT_UNKNOWN else ty) b shwh (fa_mem a)))))"

definition fillvdir :: "read_env \<Rightarrow> bool \<Rightarrow> bool \<Rightarrow> bindex \<Rightarrow> raw_de \<Rightarrow> fillvdir_arg \<Rightarrow> fillvdir_arg option" where
  "fillvdir env shwh whable b raw a =
     (let a1 = a\<lparr>fa_err := 0, fa_called := True\<rparr>
      in map_option (\<lambda>a'. if fa_err a' = 0
             then a'\<lparr>fa_vdir := (fa_vdir a')\<lparr>vd_jiffy := re_jiffies env\<rparr>\<rparr> else a')
           (if \<not> wh_prefixed (fst raw) then fill_plain env b raw a1
            else if whable then fill_wh env shwh b raw a1 else Some a1))"

section \<open>Reading the branches\<close>

record ldir =
  ld_seek :: int
  ld_calls :: "(raw_de list \<times> int) list"

text \<open>One call of \<open>vfsub_readdir\<close>: the lower file system stops when the callback fails.\<close>

fun fill_batch :: "read_env \<Rightarrow> bool \<Rightarrow> bool \<Rightarrow> bindex \<Rightarrow> raw_de list \<Rightarrow> fillvdir_arg \<Rightarrow> fillvdir_arg option" where
  "fill_batch env shwh whable b [] a = Some a"
| "fill_batch env shwh whable b (e # es) a =
     Option.bind (fillvdir env shwh whable b e a) (\<lambda>a'.
     if fa_err a' \<noteq> 0 then Some a' else fill_batch env shwh whable b es a')"

text \<open>The \<open>do while\<close> loop over the calls; a call after the last delivers nothing.\<close>

fun read_calls :: "read_env \<Rightarrow> bool \<Rightarrow> bool \<Rightarrow> bindex \<Rightarrow> (raw_de list \<times> int) list \<Rightarrow> fillvdir_arg
    \<Rightarrow> (int \<times> fillvdir_arg) option" where
  "read_calls env shwh whable b [] a = Some (0, a\<lparr>fa_err := 0, fa_called := False\<rparr>)"
| "read_calls env shwh whable b ((es, r) # cs) a =
     Option.bind (fill_batch env shwh whable b es (a\<lparr>fa_err := 0, fa_called := False\<rparr>)) (\<lambda>a'.
     let err = (if 0 \<le> r then fa_err a' else r)
     in if err = 0 \<and> fa_called a' then read_calls env shwh whable b cs a' else Some (err, a'))"

text \<open>The loop over the branches of the file; \<open>sbi\<close> tells the permission of a branch.\<close>

fun read_branches :: "read_env \<Rightarrow> bool \<Rightarrow> au_sbinfo \<Rightarrow> (bindex \<Rightarrow> ldir option) \<Rightarrow> bindex \<Rightarrow> bindex list
    \<Rightarrow> fillvdir_arg \<Rightarrow> (int \<times> fillvdir_arg) option" where
  "read_branches env shwh sbi dirs bend [] a = Some (0, a)"
| "read_branches env shwh sbi dirs bend (b # bs) a =
     (case dirs b of
        None \<Rightarrow> read_branches env shwh sbi dirs bend bs a
      | Some d \<Rightarrow>
          if ld_seek d \<noteq> 0 then Some (ld_seek d, a)
          else Option.bind (if shwh then Some True else if b = bend then Some False else au_sbr_whable sbi b)
            (\<lambda>whable.
             Option.bind (read_calls env shwh whable b (ld_calls d) a) (\<lambda>(err, a').
             if err \<noteq> 0 then Some (err, a') else read_branches env shwh sbi dirs bend bs a')))"

text \<open>
  \<open>au_handle_shwh\<close> shows the whiteouts themselves. An error leaves the inner loop only; the next
  bucket that has an element overwrites it. \<open>p\<close> is the page where the name is put together.
\<close>

fun shwh_bucket :: "read_env \<Rightarrow> au_vdir_wh list \<Rightarrow> int \<Rightarrow> au_vdir \<Rightarrow> dehstr au_nhash \<Rightarrow> mem_oracle
    \<Rightarrow> (int \<times> au_vdir \<times> dehstr au_nhash \<times> mem_oracle) option" where
  "shwh_bucket env [] err vd delist mem = Some (err, vd, delist, mem)"
| "shwh_bucket env (w # ws) err vd delist mem =
     Option.bind (append_de (re_fresh env) vd (AUFS_WH_PFX @ take (unat (wh_len w)) (wh_name w)) (wh_ino w) (wh_type w)
                    delist mem) (\<lambda>(err, vd', delist', mem').
     if err \<noteq> 0 then Some (err, vd', delist', mem') else shwh_bucket env ws err vd' delist' mem')"

fun shwh_buckets :: "read_env \<Rightarrow> au_vdir_wh list list \<Rightarrow> int \<Rightarrow> au_vdir \<Rightarrow> dehstr au_nhash \<Rightarrow> mem_oracle
    \<Rightarrow> (int \<times> au_vdir \<times> dehstr au_nhash \<times> mem_oracle) option" where
  "shwh_buckets env [] err vd delist mem = Some (err, vd, delist, mem)"
| "shwh_buckets env (b # bs) err vd delist mem =
     Option.bind (shwh_bucket env b err vd delist mem) (\<lambda>(err, vd', delist', mem').
     shwh_buckets env bs err vd' delist' mem')"

definition au_handle_shwh :: "read_env \<Rightarrow> fillvdir_arg \<Rightarrow> (int \<times> fillvdir_arg) option" where
  "au_handle_shwh env a =
     (if \<not> cfg_shwh (re_cfg env) then Some (0, a)
      else
        let (ok, mem1) = take_alloc (fa_mem a)
        in if \<not> ok then Some (- ENOMEM, a\<lparr>fa_mem := mem1\<rparr>)
           else map_option (\<lambda>(err, vd, delist, mem). (err, a\<lparr>fa_vdir := vd, fa_delist := delist, fa_mem := mem\<rparr>))
                  (shwh_buckets env (take (unat (nh_num (fa_whlist a))) (nh_head (fa_whlist a))) 0
                     (fa_vdir a) (fa_delist a) mem1))"

text \<open>The directory file: its branches, lower directories and their sizes.\<close>

record dir_file =
  df_bstart :: bindex
  df_bend :: bindex
  df_dirs :: "bindex \<Rightarrow> ldir option"
  df_sizes :: "int list"

definition au_do_read_vdir :: "read_env \<Rightarrow> dir_file \<Rightarrow> au_vdir \<Rightarrow> xino \<Rightarrow> mem_oracle
    \<Rightarrow> (int \<times> au_vdir \<times> xino \<times> mem_oracle) option" where
  "au_do_read_vdir env file vd x mem =
     (let sbi = x_sbi x;
          rdhash = (if si_rdhash sbi = 0 then au_rdhash_est (au_dir_size (df_sizes file)) else si_rdhash sbi);
          shwh = au_opt_test (au_mntflags sbi) (AuOpt_SHWH (re_cfg env))
      in Option.bind (au_nhash_alloc rdhash mem) (\<lambda>(err, delist, mem1).
         case delist of
           None \<Rightarrow> Some (err, vd, x, mem1)
         | Some de \<Rightarrow> Option.bind (au_nhash_alloc rdhash mem1) (\<lambda>(err, whlist, mem2).
         case whlist of
           None \<Rightarrow> Some (err, vd, x, mem2)
         | Some wh \<Rightarrow>
             Option.bind (read_branches env shwh sbi (df_dirs file) (df_bend file) [df_bstart file..df_bend file]
                 \<lparr>fa_vdir = vd, fa_delist = de, fa_whlist = wh, fa_called = False, fa_err = 0, fa_x = x,
                  fa_mem = mem2\<rparr>) (\<lambda>(err, a).
             map_option (\<lambda>(err, a). (err, fa_vdir a, fa_x a, fa_mem a))
               (if err = 0 \<and> shwh then au_handle_shwh env a else Some (err, a))))))"

section \<open>The caches\<close>

text \<open>The directory inode with its merged entries, and the open file with its copy.\<close>

record dir_state =
  ds_ivdir :: "au_vdir option"
  ds_i_version :: u64
  ds_f_pos :: int
  ds_f_version :: u64
  ds_fvdir :: "au_vdir option"
  ds_x :: xino
  ds_mem :: mem_oracle

definition read_vdir :: "read_env \<Rightarrow> dir_file \<Rightarrow> bool \<Rightarrow> dir_state \<Rightarrow> (int \<times> dir_state) option" where
  "read_vdir env file may_read ds =
     (let finish = (\<lambda>allocated vd mem.
            map_option (\<lambda>(err, vd', x', mem').
                if err = 0
                then (0, ds\<lparr>ds_ivdir := Some (vd'\<lparr>vd_version := ucast (ds_i_version ds), vd_ul := 0, vd_off := 0\<rparr>),
                            ds_x := x', ds_mem := mem'\<rparr>)
                else (err, ds\<lparr>ds_ivdir := (if allocated then None else Some vd'), ds_x := x', ds_mem := mem'\<rparr>))
              (au_do_read_vdir env file vd (ds_x ds) mem))
      in case ds_ivdir ds of
           None \<Rightarrow> Option.bind (alloc_vdir (re_fresh env) (si_rdblk (x_sbi (ds_x ds))) (df_sizes file) (ds_mem ds))
                     (\<lambda>(r, mem'). case r of
                        Inl err \<Rightarrow> Some (err, ds\<lparr>ds_mem := mem'\<rparr>)
                      | Inr vd \<Rightarrow> finish True vd mem')
         | Some vd \<Rightarrow>
             if may_read \<and> (ds_i_version ds \<noteq> ucast (vd_version vd)
                  \<or> time_after (re_jiffies env) (vd_jiffy vd + si_rdcache (x_sbi (ds_x ds))))
             then Option.bind (reinit_vdir vd) (\<lambda>(err, vd').
                  if err \<noteq> 0 then Some (err, ds\<lparr>ds_ivdir := Some vd'\<rparr>) else finish False vd' (ds_mem ds))
             else Some (0, ds))"

text \<open>The loop of \<open>copy_vdir\<close> over the blocks from the second on.\<close>

fun copy_blocks :: "u8 list list \<Rightarrow> u8 list list \<Rightarrow> mem_oracle \<Rightarrow> bool \<times> u8 list list \<times> mem_oracle" where
  "copy_blocks [] acc mem = (True, acc, mem)"
| "copy_blocks (b # bs) acc mem =
     (let (ok, mem') = take_alloc mem in if ok then copy_blocks bs (acc @ [b]) mem' else (False, acc, mem'))"

text \<open>
  \<open>copy_vdir tgt src\<close>; \<open>krealloc\<close> keeps the common part of the first block. The size of the
  target is set before its block is resized. \<open>reinit_vdir\<close> at the label \<open>out\<close>; \<open>BUG_ON\<close> is
  the fault.
\<close>

definition copy_fail :: "au_vdir \<Rightarrow> mem_oracle \<Rightarrow> (int \<times> au_vdir \<times> mem_oracle) option" where
  "copy_fail tgt mem =
     Option.bind (reinit_vdir tgt) (\<lambda>(rerr, tgt'). if rerr \<noteq> 0 then None else Some (- ENOMEM, tgt', mem))"

definition copy_vdir :: "(nat \<Rightarrow> u8) \<Rightarrow> au_vdir \<Rightarrow> au_vdir \<Rightarrow> mem_oracle \<Rightarrow> (int \<times> au_vdir \<times> mem_oracle) option" where
  "copy_vdir fresh tgt src mem =
     (if length (vd_deblk tgt) \<noteq> 1 \<or> vd_deblk src = [] then None
      else
        let sz = vd_deblk_sz src;
            (ok1, mem1) = (if length (vd_deblk tgt) < length (vd_deblk src) then take_alloc mem else (True, mem))
        in if \<not> ok1 then copy_fail tgt mem1
        else
        let (ok2, mem2) = (if vd_deblk_sz tgt \<noteq> sz then take_alloc mem1 else (True, mem1));
            tgt1 = tgt\<lparr>vd_deblk_sz := sz\<rparr>
        in if \<not> ok2 then copy_fail tgt1 mem2
        else
        let blk = (if vd_deblk_sz tgt \<noteq> sz
                   then take (unat sz) (hd (vd_deblk tgt)) @ map fresh [length (hd (vd_deblk tgt))..<unat sz]
                   else hd (vd_deblk tgt));
            src0 = hd (vd_deblk src)
        in Option.bind (get_bytes src0 0 (unat sz)) (\<lambda>bytes.
           Option.bind (put_bytes blk 0 bytes) (\<lambda>blk'.
           let tgt2 = tgt1\<lparr>vd_version := vd_version src, vd_jiffy := vd_jiffy src\<rparr>;
               (ok3, blks, mem3) = copy_blocks (tl (vd_deblk src)) [blk'] mem2
           in if \<not> ok3 then copy_fail (tgt2\<lparr>vd_deblk := blks\<rparr>) mem3
              else Some (0, tgt2\<lparr>vd_deblk := blks, vd_off := vd_off src\<rparr>, mem3))))"

definition au_vdir_init :: "read_env \<Rightarrow> dir_file \<Rightarrow> dir_state \<Rightarrow> (int \<times> dir_state) option" where
  "au_vdir_init env file ds =
     Option.bind (read_vdir env file (ds_f_pos ds = 0) ds) (\<lambda>(err, ds1).
     if err \<noteq> 0 then Some (err, ds1)
     else
       let finish = (\<lambda>allocated vd ds1.
             Option.bind (ds_ivdir ds1) (\<lambda>src.
             map_option (\<lambda>(err, vd', mem').
                 if err = 0
                 then (0, ds1\<lparr>ds_f_version := ds_i_version ds1, ds_fvdir := Some vd', ds_mem := mem'\<rparr>)
                 else (err, ds1\<lparr>ds_fvdir := (if allocated then None else Some vd'), ds_mem := mem'\<rparr>))
               (copy_vdir (re_fresh env) vd src (ds_mem ds1))))
       in case ds_fvdir ds1 of
            None \<Rightarrow>
              Option.bind (alloc_vdir (re_fresh env) (si_rdblk (x_sbi (ds_x ds1))) (df_sizes file) (ds_mem ds1))
                (\<lambda>(r, mem'). case r of
                   Inl err \<Rightarrow> Some (err, ds1\<lparr>ds_mem := mem'\<rparr>)
                 | Inr vd \<Rightarrow> finish True vd (ds1\<lparr>ds_mem := mem'\<rparr>))
          | Some vd \<Rightarrow>
              if ds_f_pos ds1 = 0 \<and> ucast (vd_version vd) \<noteq> ds_f_version ds1
              then Option.bind (reinit_vdir vd) (\<lambda>(err, vd').
                   if err \<noteq> 0 then Some (err, ds1\<lparr>ds_fvdir := Some vd'\<rparr>) else finish False vd' ds1)
              else Some (0, ds1))"

end
