(* ===== verification/Vdir_Merge.thy ===== *)
theory Vdir_Merge
  imports Vdir
begin

text \<open>
  Reading a merged directory computes the union: an abstract merge over the delivered entries,
  the proof that \<open>fillvdir\<close> and the loops around it refine it, and what the merge shows.
\<close>

section \<open>The abstract merge\<close>

text \<open>
  An entry comes with the table of its branch and with whether whiteouts count there. The
  result is the list of the entries that are shown and the set of the whiteouted names.
\<close>

type_synonym src_de = "fptr \<times> raw_de"

definition src_name :: "src_de \<Rightarrow> u8 list" where
  "src_name e = fst (snd e)"

definition merge1 :: "src_de list \<times> u8 list set \<Rightarrow> bool \<times> src_de \<Rightarrow> src_de list \<times> u8 list set" where
  "merge1 st c =
     (let name = src_name (snd c)
      in if \<not> wh_prefixed name
         then if name \<in> src_name ` set (fst st) \<or> name \<in> snd st then st else (fst st @ [snd c], snd st)
         else if fst c then (fst st, insert (drop 4 name) (snd st)) else st)"

text \<open>The entry that is stored for a delivered one.\<close>

definition stored :: "xino \<Rightarrow> au_vdir_de \<Rightarrow> src_de \<Rightarrow> bool" where
  "stored x d e \<longleftrightarrow> (case e of (f, name, h_ino, ty) \<Rightarrow>
     de_name d = name \<and> de_type d = (if AUFS_MAX_NAMELEN < int (length name) then DT_UNKNOWN else ty)
     \<and> de_ino d \<noteq> 0 \<and> de_ino d = xtab x f (ucast h_ino))"

definition fill_inv :: "fptr set \<Rightarrow> fillvdir_arg \<Rightarrow> src_de list \<times> u8 list set \<Rightarrow> bool" where
  "fill_inv F a st \<longleftrightarrow> vdir_app (fa_vdir a) \<and> delist_wf (fa_vdir a) (fa_delist a) \<and> wh_wf (fa_whlist a)
     \<and> nhash_names wh_name (fa_whlist a) = snd st \<and> xino_wf F (fa_x a) \<and> quiet (fa_x a)
     \<and> list_all2 (stored (fa_x a)) (dir_des (fa_vdir a)) (fst st)"

lemma stored_names: "list_all2 (stored x) ds es \<Longrightarrow> de_name ` set ds = src_name ` set es"
  by (induction rule: list_all2_induct) (auto simp: stored_def src_name_def)

text \<open>The clock in the directory does not matter.\<close>

lemma jiffy_irrelevant [simp]:
  "vd_des (vd\<lparr>vd_jiffy := j\<rparr>) = vd_des vd" "dir_des (vd\<lparr>vd_jiffy := j\<rparr>) = dir_des vd"
  "vdir_app (vd\<lparr>vd_jiffy := j\<rparr>) = vdir_app vd" "delist_wf (vd\<lparr>vd_jiffy := j\<rparr>) = delist_wf vd"
proof -
  show d: "vd_des (vd\<lparr>vd_jiffy := j\<rparr>) = vd_des vd" by (simp add: vd_des_def)
  then show dd: "dir_des (vd\<lparr>vd_jiffy := j\<rparr>) = dir_des vd" by (simp add: dir_des_def)
  show "vdir_app (vd\<lparr>vd_jiffy := j\<rparr>) = vdir_app vd" by (simp add: vdir_app_def vdir_full_def d)
  have "destr_name (vd\<lparr>vd_jiffy := j\<rparr>) = destr_name vd" by (simp add: destr_name_def fun_eq_iff)
  then have k: "de_key (vd\<lparr>vd_jiffy := j\<rparr>) = de_key vd" by (simp add: de_key_def fun_eq_iff)
  have p: "de_pos (vd\<lparr>vd_jiffy := j\<rparr>) = de_pos vd" by (simp add: de_pos_def fun_eq_iff d)
  show "delist_wf (vd\<lparr>vd_jiffy := j\<rparr>) = delist_wf vd"
    by (rule ext) (simp only: delist_wf_def k p dd)
qed

section \<open>The effect of a part of the reading\<close>

text \<open>
  \<open>fill_res F n a err st a'\<close>: at most \<open>n\<close> entries were looked at, with at most five allocations
  for each; only a failed allocation is an error; without error the state is \<open>st\<close>.
\<close>

definition fill_res :: "fptr set \<Rightarrow> nat \<Rightarrow> fillvdir_arg \<Rightarrow> int \<Rightarrow> src_de list \<times> u8 list set \<Rightarrow> fillvdir_arg \<Rightarrow> bool"
where
  "fill_res F n a err st a' \<longleftrightarrow> x_sbi (fa_x a') = x_sbi (fa_x a)
     \<and> length (si_xib (fa_x a')) \<le> length (si_xib (fa_x a)) + n
     \<and> (\<exists>k \<le> 5 * n. fa_mem a' = drop k (fa_mem a))
     \<and> (list_all id (fa_mem a) \<and> 5 * n \<le> length (fa_mem a) \<longrightarrow> err = 0)
     \<and> (if err = 0 then fill_inv F a' st \<and> vd_deblk_sz (fa_vdir a') = vd_deblk_sz (fa_vdir a)
        else err = - ENOMEM)"

lemma fill_res_refl: "fill_inv F a st \<Longrightarrow> fill_res F 0 a 0 st a"
  by (simp add: fill_res_def)

lemma fill_res_trans:
  assumes r1: "fill_res F n a 0 st1 a1" and r2: "fill_res F m a1 err st2 a2"
  shows "fill_res F (n + m) a err st2 a2"
proof -
  obtain k where k: "k \<le> 5 * n" "fa_mem a1 = drop k (fa_mem a)" using r1 by (auto simp: fill_res_def)
  obtain l where l: "l \<le> 5 * m" "fa_mem a2 = drop l (fa_mem a1)" using r2 by (auto simp: fill_res_def)
  have "\<exists>k \<le> 5 * (n + m). fa_mem a2 = drop k (fa_mem a)"
    using k l by (intro exI [of _ "l + k"]) simp
  moreover have "list_all id (fa_mem a) \<and> 5 * (n + m) \<le> length (fa_mem a) \<longrightarrow> err = 0"
    using r2 k by (auto simp: fill_res_def list_all_iff dest: in_set_dropD)
  ultimately show ?thesis using r1 r2 by (simp add: fill_res_def)
qed

lemma fill_res_stop:
  assumes "fill_res F n a err st a'" and "err \<noteq> 0" and "n \<le> m"
  shows "fill_res F m a err st' a'"
proof -
  obtain k where k: "k \<le> 5 * n" "fa_mem a' = drop k (fa_mem a)" using assms(1) by (auto simp: fill_res_def)
  have "\<exists>k \<le> 5 * m. fa_mem a' = drop k (fa_mem a)" using k assms(3) by (intro exI [of _ k]) simp
  then show ?thesis using assms by (auto simp: fill_res_def)
qed

lemma fill_res_flags:
  "fill_res F n (a\<lparr>fa_err := e, fa_called := c\<rparr>) err st a' = fill_res F n a err st a'"
  by (simp add: fill_res_def)

lemma fill_inv_flags [simp]:
  "fill_inv F (a\<lparr>fa_err := e\<rparr>) = fill_inv F a"
  "fill_inv F (a\<lparr>fa_called := c\<rparr>) = fill_inv F a"
  by (simp_all add: fill_inv_def fun_eq_iff)

section \<open>One entry\<close>

lemma stored_ino:
  assumes "list_all2 (stored x) ds es"
    and "\<forall>g k. (g, k) \<noteq> (f, h) \<longrightarrow> xtab x' g k = xtab x g k" and "xtab x f h \<noteq> 0 \<longrightarrow> xtab x' f h = xtab x f h"
  shows "list_all2 (stored x') ds es"
  using assms(1)
proof (rule list_all2_mono)
  fix d e
  assume s: "stored x d e"
  obtain g name k ty where e: "e = (g, name, k, ty)" by (cases e) auto
  have "de_ino d \<noteq> 0" "de_ino d = xtab x g (ucast k)"
    using s unfolding e stored_def prod.case by blast+
  then have nz: "xtab x g (ucast k) \<noteq> 0" by simp
  then have "xtab x' g (ucast k) = xtab x g (ucast k)"
    using assms(2,3) by (cases "(g, ucast k) = (f, h)") auto
  then show "stored x' d e" using s e nz by (simp add: stored_def)
qed

lemma fillvdir_res:
  assumes inv: "fill_inv F a st" and br: "au_sbr (x_sbi (fa_x a)) b = Some br" "br_xino_file br = Some f" "f \<in> F"
    and n: "fst raw \<noteq> []" "length (fst raw) < 256" and room: "length (si_xib (fa_x a)) < 131071"
  shows "\<exists>a'. fillvdir env False whable b raw a = Some a' \<and> fa_called a'
    \<and> fill_res F 1 a (fa_err a') (merge1 st (whable, f, raw)) a'"
proof -
  obtain name h ty where raw: "raw = (name, h, ty)" by (cases raw) auto
  let ?a1 = "a\<lparr>fa_err := 0, fa_called := True\<rparr>"
  let ?j = "re_jiffies env"
  have I: "vdir_app (fa_vdir a)" "delist_wf (fa_vdir a) (fa_delist a)" "wh_wf (fa_whlist a)"
    "nhash_names wh_name (fa_whlist a) = snd st" "xino_wf F (fa_x a)" "quiet (fa_x a)"
    "list_all2 (stored (fa_x a)) (dir_des (fa_vdir a)) (fst st)"
    using inv by (simp_all add: fill_inv_def)
  have nn: "name \<noteq> []" "length name < 256" using n raw by simp_all
  text \<open>Nothing to do.\<close>
  have skip: "fill_res F 1 a 0 st (?a1\<lparr>fa_vdir := (fa_vdir a)\<lparr>vd_jiffy := ?j\<rparr>\<rparr>)"
  proof -
    have "fill_inv F (?a1\<lparr>fa_vdir := (fa_vdir a)\<lparr>vd_jiffy := ?j\<rparr>\<rparr>) st" using I by (simp add: fill_inv_def)
    then show ?thesis by (auto simp: fill_res_def intro: exI [of _ 0])
  qed
  show ?thesis
  proof (cases "wh_prefixed name")
    case False
    have known: "test_known (fa_vdir a) (fa_delist a) name = Some (name \<in> src_name ` set (fst st))"
      using test_known_ok [of "fa_vdir a" "fa_delist a" name] I(1,2) stored_names [OF I(7)]
      by (simp add: vdir_app_def)
    have wh: "au_nhash_test_known_wh (fa_whlist a) name = Some (name \<in> snd st)"
      using known_wh_ok [OF I(3)] I(4) by simp
    show ?thesis
    proof (cases "name \<in> src_name ` set (fst st) \<or> name \<in> snd st")
      case True
      then have "fill_plain env b raw ?a1 = Some ?a1"
        using known wh raw by (auto simp: fill_plain_def)
      then have "fillvdir env False whable b raw a = Some (?a1\<lparr>fa_vdir := (fa_vdir a)\<lparr>vd_jiffy := ?j\<rparr>\<rparr>)"
        using False raw by (simp add: fillvdir_def Let_def)
      moreover have "merge1 st (whable, f, raw) = st"
        using True False raw by (simp add: merge1_def src_name_def)
      ultimately show ?thesis using skip by (intro exI [of _ "?a1\<lparr>fa_vdir := (fa_vdir a)\<lparr>vd_jiffy := ?j\<rparr>\<rparr>"]) simp
    next
      case new: False
      obtain ino x' where x: "au_ino b (ucast h) (fa_x a) = Some (0, ino, x')" "ino \<noteq> 0"
        "xtab x' f (ucast h) = ino" "\<forall>g k. (g, k) \<noteq> (f, ucast h) \<longrightarrow> xtab x' g k = xtab (fa_x a) g k"
        "if xtab (fa_x a) f (ucast h) = 0 then uint ino \<notin> xib_inos (fa_x a) \<and> 11 \<le> uint ino
             \<and> xib_inos x' = insert (uint ino) (xib_inos (fa_x a))
         else ino = xtab (fa_x a) f (ucast h) \<and> xib_inos x' = xib_inos (fa_x a)"
        "xino_wf F x'" "quiet x'" "x_sbi x' = x_sbi (fa_x a)" "length (si_xib x') \<le> Suc (length (si_xib (fa_x a)))"
        using au_ino_quiet [OF I(5,6) room br, of "ucast h"] by blast
      let ?ty = "if AUFS_MAX_NAMELEN < int (length name) then DT_UNKNOWN else ty"
      let ?d = "\<lparr>de_ino = ino, de_type = ?ty, de_name = name\<rparr>"
      obtain err vd' de' mem' k where ap: "append_de (re_fresh env) (fa_vdir a) name ino ?ty (fa_delist a) (fa_mem a)
          = Some (err, vd', de', mem')" "mem' = drop k (fa_mem a)" "k \<le> 5"
        "list_all id (fa_mem a) \<and> 5 \<le> length (fa_mem a) \<longrightarrow> err = 0"
        "if err = 0 then appended (fa_vdir a) ?d vd' de' else err = - ENOMEM"
        using append_de_ok [OF I(1,2) nn, of "re_fresh env" ino ?ty "fa_mem a"] by blast
      let ?a2 = "?a1\<lparr>fa_err := err, fa_x := x', fa_vdir := vd', fa_delist := de', fa_mem := mem'\<rparr>"
      have fp: "fill_plain env b raw ?a1 = Some ?a2"
        using new known wh raw x(1) ap(1) by (simp add: fill_plain_def)
      have m: "merge1 st (whable, f, raw) = (fst st @ [(f, raw)], snd st)"
        using new False raw by (simp add: merge1_def src_name_def)
      show ?thesis
      proof (cases "err = 0")
        case True
        let ?a3 = "?a2\<lparr>fa_vdir := vd'\<lparr>vd_jiffy := ?j\<rparr>\<rparr>"
        have run: "fillvdir env False whable b raw a = Some ?a3"
          using fp False raw True by (simp add: fillvdir_def Let_def)
        have A: "vdir_app vd'" "delist_wf vd' de'" "dir_des vd' = dir_des (fa_vdir a) @ [?d]"
          "vd_deblk_sz vd' = vd_deblk_sz (fa_vdir a)" using ap(5) True by (simp_all add: appended_def)
        have "list_all2 (stored x') (dir_des (fa_vdir a)) (fst st)"
          by (rule stored_ino [OF I(7) x(4)]) (use x(3,5) in simp)
        moreover have "stored x' ?d (f, raw)" using raw x(2,3) by (simp add: stored_def)
        ultimately have "fill_inv F ?a3 (merge1 st (whable, f, raw))"
          using I(3,4) x(6,7) A by (simp add: fill_inv_def m list_all2_appendI)
        then have "fill_res F 1 a 0 (merge1 st (whable, f, raw)) ?a3"
          using x(8,9) A(4) ap(2,3) by (auto simp: fill_res_def)
        then show ?thesis using run True by (intro exI [of _ ?a3]) simp
      next
        case err: False
        have run: "fillvdir env False whable b raw a = Some ?a2"
          using fp False raw err by (simp add: fillvdir_def Let_def)
        have "err = - ENOMEM" using ap(5) err by simp
        then have "fill_res F 1 a err (merge1 st (whable, f, raw)) ?a2"
          using x(8,9) ap(2,3,4) by (auto simp: fill_res_def)
        then show ?thesis using run by (intro exI [of _ ?a2]) simp
      qed
    qed
  next
    case wh: True
    show ?thesis
    proof (cases whable)
      case False
      then have "fillvdir env False whable b raw a = Some (?a1\<lparr>fa_vdir := (fa_vdir a)\<lparr>vd_jiffy := ?j\<rparr>\<rparr>)"
        using wh raw by (simp add: fillvdir_def Let_def)
      moreover have "merge1 st (whable, f, raw) = st" using False wh raw by (simp add: merge1_def src_name_def)
      ultimately show ?thesis using skip by (intro exI [of _ "?a1\<lparr>fa_vdir := (fa_vdir a)\<lparr>vd_jiffy := ?j\<rparr>\<rparr>"]) simp
    next
      case True
      let ?n = "drop 4 name"
      have known: "au_nhash_test_known_wh (fa_whlist a) ?n = Some (?n \<in> snd st)"
        using known_wh_ok [OF I(3)] I(4) by simp
      have m: "merge1 st (whable, f, raw) = (fst st, insert ?n (snd st))"
        using True wh raw by (simp add: merge1_def src_name_def)
      show ?thesis
      proof (cases "?n \<in> snd st")
        case old: True
        then have "fill_wh env False b raw ?a1 = Some ?a1" using known raw by (simp add: fill_wh_def Let_def)
        then have "fillvdir env False whable b raw a = Some (?a1\<lparr>fa_vdir := (fa_vdir a)\<lparr>vd_jiffy := ?j\<rparr>\<rparr>)"
          using wh raw True by (simp add: fillvdir_def Let_def)
        moreover have "merge1 st (whable, f, raw) = st" using m old by (simp add: insert_absorb)
        ultimately show ?thesis using skip by (intro exI [of _ "?a1\<lparr>fa_vdir := (fa_vdir a)\<lparr>vd_jiffy := ?j\<rparr>\<rparr>"]) simp
      next
        case new: False
        let ?ty = "if int (length ?n) \<le> AUFS_MAX_NAMELEN + 4 then DT_UNKNOWN else ty"
        have ln: "length ?n < 256" using nn(2) by simp
        obtain err wh' mem' where ap: "au_nhash_append_wh (cfg_shwh (re_cfg env)) (fa_whlist a) ?n 0 ?ty b False (fa_mem a)
            = Some (err, wh', mem')" "wh_wf wh'"
          "if err = 0 then nhash_names wh_name wh' = insert ?n (nhash_names wh_name (fa_whlist a))
           else err = - ENOMEM \<and> wh' = fa_whlist a"
          "list_all id (fa_mem a) \<and> fa_mem a \<noteq> [] \<longrightarrow> err = 0"
          using append_wh_ok [OF I(3) ln] by blast
        have mem': "mem' = drop 1 (fa_mem a)"
          using ap(1) take_alloc_drop by (auto simp: au_nhash_append_wh_def Let_def split: if_splits prod.splits)
        let ?a2 = "?a1\<lparr>fa_err := err, fa_x := fa_x a, fa_whlist := wh', fa_mem := mem'\<rparr>"
        have fw: "fill_wh env False b raw ?a1 = Some ?a2"
          using new known raw ap(1) by (simp add: fill_wh_def Let_def)
        have mem5: "list_all id (fa_mem a) \<and> 5 \<le> length (fa_mem a) \<longrightarrow> err = 0" using ap(4) by auto
        have k: "\<exists>k \<le> 5. mem' = drop k (fa_mem a)" using mem' by (intro exI [of _ 1]) simp
        show ?thesis
        proof (cases "err = 0")
          case ok: True
          let ?a3 = "?a2\<lparr>fa_vdir := (fa_vdir a)\<lparr>vd_jiffy := ?j\<rparr>\<rparr>"
          have run: "fillvdir env False whable b raw a = Some ?a3"
            using fw wh raw True ok by (simp add: fillvdir_def Let_def)
          have "fill_inv F ?a3 (merge1 st (whable, f, raw))"
            using I ap(2,3) ok by (simp add: fill_inv_def m)
          then have "fill_res F 1 a 0 (merge1 st (whable, f, raw)) ?a3"
            using mem5 k ok by (simp add: fill_res_def)
          then show ?thesis using run ok by (intro exI [of _ ?a3]) simp
        next
          case err: False
          have run: "fillvdir env False whable b raw a = Some ?a2"
            using fw wh raw True err by (simp add: fillvdir_def Let_def)
          have "err = - ENOMEM" using ap(3) err by simp
          then have "fill_res F 1 a err (merge1 st (whable, f, raw)) ?a2"
            using mem5 k by (simp add: fill_res_def)
          then show ?thesis using run by (intro exI [of _ ?a2]) simp
        qed
      qed
    qed
  qed
qed

section \<open>The loops\<close>

text \<open>
  What a lower directory delivers up to the first call without an entry, and the condition that
  its names are well formed and its file system does not fail.
\<close>

definition delivered :: "(raw_de list \<times> int) list \<Rightarrow> raw_de list" where
  "delivered cs = concat (map fst (takeWhile (\<lambda>c. fst c \<noteq> []) cs))"

definition raw_ok :: "raw_de \<Rightarrow> bool" where
  "raw_ok raw \<longleftrightarrow> fst raw \<noteq> [] \<and> length (fst raw) < 256"

definition merge :: "(bool \<times> src_de) list \<Rightarrow> src_de list \<times> u8 list set \<Rightarrow> src_de list \<times> u8 list set" where
  "merge cs st = foldl merge1 st cs"

lemma merge_simps [simp]: "merge [] st = st" "merge (c # cs) st = merge cs (merge1 st c)"
  "merge (cs @ ds) st = merge ds (merge cs st)"
  by (simp_all add: merge_def)

lemma delivered_simps [simp]:
  "delivered [] = []" "delivered (([], r) # cs) = []"
  "es \<noteq> [] \<Longrightarrow> delivered ((es, r) # cs) = es @ delivered cs"
  by (simp_all add: delivered_def)

lemma fill_batch_res:
  assumes "fill_inv F a st" and "au_sbr (x_sbi (fa_x a)) b = Some br" and "br_xino_file br = Some f" and "f \<in> F"
    and "\<forall>e \<in> set es. raw_ok e" and "length (si_xib (fa_x a)) + length es \<le> 131071" and "fa_err a = 0"
  shows "\<exists>a'. fill_batch env False whable b es a = Some a' \<and> (es \<noteq> [] \<longrightarrow> fa_called a') \<and> (es = [] \<longrightarrow> a' = a)
    \<and> fill_res F (length es) a (fa_err a') (merge (map (\<lambda>e. (whable, f, e)) es) st) a'"
  using assms
proof (induction es arbitrary: a st)
  case Nil
  then show ?case by (simp add: fill_res_refl)
next
  case (Cons e es)
  have e: "fst e \<noteq> []" "length (fst e) < 256" "length (si_xib (fa_x a)) < 131071"
    using Cons.prems(5,6) by (auto simp: raw_ok_def)
  let ?st = "merge1 st (whable, f, e)"
  obtain a1 where a1: "fillvdir env False whable b e a = Some a1" "fa_called a1" "fill_res F 1 a (fa_err a1) ?st a1"
    using fillvdir_res [OF Cons.prems(1-4) e] by blast
  show ?case
  proof (cases "fa_err a1 = 0")
    case False
    from fill_res_stop [OF a1(3) this, of "length (e # es)"] a1 False show ?thesis by simp
  next
    case True
    have inv: "fill_inv F a1 ?st" and sbi: "x_sbi (fa_x a1) = x_sbi (fa_x a)"
      and xib: "length (si_xib (fa_x a1)) \<le> Suc (length (si_xib (fa_x a)))"
      using a1(3) True by (simp_all add: fill_res_def)
    have pre: "au_sbr (x_sbi (fa_x a1)) b = Some br" "\<forall>e \<in> set es. raw_ok e"
      "length (si_xib (fa_x a1)) + length es \<le> 131071"
      using Cons.prems sbi xib by simp_all
    obtain a' where r: "fill_batch env False whable b es a1 = Some a'" "es \<noteq> [] \<longrightarrow> fa_called a'"
      "es = [] \<longrightarrow> a' = a1" "fill_res F (length es) a1 (fa_err a') (merge (map (\<lambda>e. (whable, f, e)) es) ?st) a'"
      using Cons.IH [OF inv pre(1) Cons.prems(3,4) pre(2,3) True] by blast
    have "fa_called a'" using r(2,3) a1(2) by (cases "es = []") auto
    moreover have "fill_res F (1 + length es) a (fa_err a') (merge (map (\<lambda>e. (whable, f, e)) es) ?st) a'"
      using fill_res_trans [OF a1(3) [unfolded True] r(4)] .
    ultimately show ?thesis using a1(1) True r(1) by simp
  qed
qed

lemma read_calls_res:
  assumes "fill_inv F a st" and "au_sbr (x_sbi (fa_x a)) b = Some br" and "br_xino_file br = Some f" and "f \<in> F"
    and "\<forall>c \<in> set cs. 0 \<le> snd c \<and> (\<forall>e \<in> set (fst c). raw_ok e)"
    and "length (si_xib (fa_x a)) + length (delivered cs) \<le> 131071"
  shows "\<exists>err a'. read_calls env False whable b cs a = Some (err, a')
    \<and> fill_res F (length (delivered cs)) a err (merge (map (\<lambda>e. (whable, f, e)) (delivered cs)) st) a'"
  using assms
proof (induction cs arbitrary: a st)
  case Nil
  have "fill_inv F (a\<lparr>fa_err := 0, fa_called := False\<rparr>) st" using Nil(1) by simp
  from fill_res_refl [OF this] show ?case by (simp add: fill_res_def)
next
  case (Cons c cs)
  obtain es r where c: "c = (es, r)" by force
  let ?a0 = "a\<lparr>fa_err := 0, fa_called := False\<rparr>"
  have inv0: "fill_inv F ?a0 st" using Cons.prems(1) by simp
  have r: "0 \<le> r" and oks: "\<forall>e \<in> set es. raw_ok e" using Cons.prems(5) c by auto
  show ?case
  proof (cases "es = []")
    case True
    have "read_calls env False whable b (c # cs) a = Some (0, ?a0)" using True c r by simp
    then show ?thesis using True c fill_res_refl [OF inv0] by (auto simp: fill_res_def)
  next
    case ne: False
    have len: "length (si_xib (fa_x a)) + length es + length (delivered cs) \<le> 131071"
      using Cons.prems(6) c ne by simp
    let ?st = "merge (map (\<lambda>e. (whable, f, e)) es) st"
    have pre: "au_sbr (x_sbi (fa_x ?a0)) b = Some br" "length (si_xib (fa_x ?a0)) + length es \<le> 131071" "fa_err ?a0 = 0"
      using Cons.prems(2) len by simp_all
    obtain a1 where a1: "fill_batch env False whable b es ?a0 = Some a1" "fa_called a1"
      "fill_res F (length es) ?a0 (fa_err a1) ?st a1"
      using fill_batch_res [OF inv0 pre(1) Cons.prems(3,4) oks pre(2,3), of env whable] ne by blast
    have res: "fill_res F (length es) a (fa_err a1) ?st a1" using a1(3) by (simp only: fill_res_flags)
    show ?thesis
    proof (cases "fa_err a1 = 0")
      case False
      have "read_calls env False whable b (c # cs) a = Some (fa_err a1, a1)" using a1(1,2) c r False by simp
      moreover have "length es \<le> length (delivered (c # cs))" using c ne by simp
      ultimately show ?thesis using fill_res_stop [OF res False] by blast
    next
      case True
      have s1: "fill_inv F a1 ?st" "x_sbi (fa_x a1) = x_sbi (fa_x a)"
        "length (si_xib (fa_x a1)) \<le> length (si_xib (fa_x a)) + length es"
        using res True by (simp_all add: fill_res_def)
      have pre1: "au_sbr (x_sbi (fa_x a1)) b = Some br"
        "\<forall>c \<in> set cs. 0 \<le> snd c \<and> (\<forall>e \<in> set (fst c). raw_ok e)"
        "length (si_xib (fa_x a1)) + length (delivered cs) \<le> 131071"
        using Cons.prems(2,5) s1(2,3) len by auto
      obtain err a' where r': "read_calls env False whable b cs a1 = Some (err, a')"
        "fill_res F (length (delivered cs)) a1 err (merge (map (\<lambda>e. (whable, f, e)) (delivered cs)) ?st) a'"
        using Cons.IH [OF s1(1) pre1(1) Cons.prems(3,4) pre1(2,3)] by blast
      have "read_calls env False whable b (c # cs) a = Some (err, a')" using a1(1,2) c r True r'(1) by simp
      then show ?thesis using fill_res_trans [OF res [unfolded True] r'(2)] c ne by simp
    qed
  qed
qed

text \<open>
  The entries of all branches of a file, with their table and whether their whiteouts count.
  \<open>dir_ok\<close>: the branches exist and have a table, the lower directories can be read.
\<close>

definition branch_des :: "au_sbinfo \<Rightarrow> (bindex \<Rightarrow> ldir option) \<Rightarrow> bindex \<Rightarrow> bindex \<Rightarrow> (bool \<times> src_de) list" where
  "branch_des sbi dirs bend b =
     (case dirs b of
        None \<Rightarrow> []
      | Some d \<Rightarrow> map (\<lambda>e. (b \<noteq> bend \<and> au_sbr_whable sbi b = Some True,
                            the (br_xino_file (the (au_sbr sbi b))), e)) (delivered (ld_calls d)))"

definition union_des :: "au_sbinfo \<Rightarrow> (bindex \<Rightarrow> ldir option) \<Rightarrow> bindex \<Rightarrow> bindex list \<Rightarrow> (bool \<times> src_de) list" where
  "union_des sbi dirs bend bs = concat (map (branch_des sbi dirs bend) bs)"

definition dir_ok :: "fptr set \<Rightarrow> au_sbinfo \<Rightarrow> (bindex \<Rightarrow> ldir option) \<Rightarrow> bindex list \<Rightarrow> bool" where
  "dir_ok F sbi dirs bs \<longleftrightarrow> (\<forall>b \<in> set bs. \<forall>d. dirs b = Some d \<longrightarrow>
     ld_seek d = 0 \<and> (\<forall>c \<in> set (ld_calls d). 0 \<le> snd c \<and> (\<forall>e \<in> set (fst c). raw_ok e))
     \<and> (\<exists>br f. au_sbr sbi b = Some br \<and> br_xino_file br = Some f \<and> f \<in> F))"

lemma read_branches_res:
  assumes "fill_inv F a st" and "dir_ok F sbi dirs bs" and "x_sbi (fa_x a) = sbi"
    and "length (si_xib (fa_x a)) + length (union_des sbi dirs bend bs) \<le> 131071"
  shows "\<exists>err a'. read_branches env False sbi dirs bend bs a = Some (err, a')
    \<and> fill_res F (length (union_des sbi dirs bend bs)) a err (merge (union_des sbi dirs bend bs) st) a'"
  using assms
proof (induction bs arbitrary: a st)
  case Nil
  then show ?case by (simp add: union_des_def fill_res_refl)
next
  case (Cons b bs)
  have ok: "dir_ok F sbi dirs bs" using Cons.prems(2) by (simp add: dir_ok_def)
  have u: "union_des sbi dirs bend (b # bs) = branch_des sbi dirs bend b @ union_des sbi dirs bend bs"
    by (simp add: union_des_def)
  show ?case
  proof (cases "dirs b")
    case None
    then have "branch_des sbi dirs bend b = []" by (simp add: branch_des_def)
    then show ?thesis using Cons.IH [OF Cons.prems(1) ok Cons.prems(3)] Cons.prems(4) u None by simp
  next
    case (Some d)
    obtain br f where d: "ld_seek d = 0" "\<forall>c \<in> set (ld_calls d). 0 \<le> snd c \<and> (\<forall>e \<in> set (fst c). raw_ok e)"
      "au_sbr sbi b = Some br" "br_xino_file br = Some f" "f \<in> F"
      using Cons.prems(2) Some unfolding dir_ok_def by (auto dest: bspec [of _ _ b])
    obtain w where w: "(if b = bend then Some False else au_sbr_whable sbi b) = Some w"
      "w \<longleftrightarrow> b \<noteq> bend \<and> au_sbr_whable sbi b = Some True"
      using d(3) by (cases "b = bend") (auto simp: au_sbr_whable_def au_sbr_perm_def)
    let ?cs = "map (\<lambda>e. (w, f, e)) (delivered (ld_calls d))"
    have bd: "branch_des sbi dirs bend b = ?cs" using Some d(3,4) w(2) by (simp add: branch_des_def)
    have len: "length (si_xib (fa_x a)) + length (delivered (ld_calls d)) + length (union_des sbi dirs bend bs) \<le> 131071"
      using Cons.prems(4) u bd by simp
    have pre: "au_sbr (x_sbi (fa_x a)) b = Some br" "length (si_xib (fa_x a)) + length (delivered (ld_calls d)) \<le> 131071"
      using d(3) Cons.prems(3) len by simp_all
    obtain err a1 where r: "read_calls env False w b (ld_calls d) a = Some (err, a1)"
      "fill_res F (length (delivered (ld_calls d))) a err (merge ?cs st) a1"
      using read_calls_res [OF Cons.prems(1) pre(1) d(4,5,2) pre(2)] by blast
    have step: "read_branches env False sbi dirs bend (b # bs) a
        = (if err \<noteq> 0 then Some (err, a1) else read_branches env False sbi dirs bend bs a1)"
      using Some d(1) w(1) r(1) by simp
    show ?thesis
    proof (cases "err = 0")
      case False
      have "length (delivered (ld_calls d)) \<le> length (union_des sbi dirs bend (b # bs))" using u bd by simp
      from fill_res_stop [OF r(2) False this] step False show ?thesis by auto
    next
      case True
      have s1: "fill_inv F a1 (merge ?cs st)" "x_sbi (fa_x a1) = sbi"
        "length (si_xib (fa_x a1)) + length (union_des sbi dirs bend bs) \<le> 131071"
        using r(2) True Cons.prems(3) len by (simp_all add: fill_res_def)
      obtain err' a' where r': "read_branches env False sbi dirs bend bs a1 = Some (err', a')"
        "fill_res F (length (union_des sbi dirs bend bs)) a1 err' (merge (union_des sbi dirs bend bs) (merge ?cs st)) a'"
        using Cons.IH [OF s1(1) ok s1(2,3)] by blast
      from fill_res_trans [OF r(2) [unfolded True] r'(2)] step True r'(1) u bd show ?thesis by auto
    qed
  qed
qed

end
