(* ===== verification/Vdir_Read.thy ===== *)
theory Vdir_Read
  imports Vdir_Merge
begin

text \<open>
  What reading a merged directory shows, from the lower directories to the caller of
  \<open>readdir\<close>: the merge in closed form, the caches of the inode and of the file, and the entries
  that the consumer gets.
\<close>

section \<open>The merge in closed form\<close>

text \<open>
  An entry is shown if it is a plain one, no entry before it has its name, and no whiteout before
  it names it.
\<close>

definition whited :: "(bool \<times> src_de) list \<Rightarrow> u8 list set" where
  "whited cs = {n. n \<noteq> [] \<and> (\<exists>c \<in> set cs. fst c \<and> src_name (snd c) = AUFS_WH_PFX @ n)}"

definition shown :: "(bool \<times> src_de) list \<Rightarrow> src_de \<Rightarrow> bool" where
  "shown cs e \<longleftrightarrow> \<not> wh_prefixed (src_name e) \<and> (\<exists>pre w suf. cs = pre @ (w, e) # suf
     \<and> (\<forall>c \<in> set pre. src_name (snd c) \<noteq> src_name e) \<and> src_name e \<notin> whited pre)"

lemma wh_prefixed_iff: "wh_prefixed name \<longleftrightarrow> (\<exists>n. n \<noteq> [] \<and> name = AUFS_WH_PFX @ n)"
proof
  assume "wh_prefixed name"
  then have "name = AUFS_WH_PFX @ drop 4 name" "drop 4 name \<noteq> []"
    unfolding wh_prefixed_def by (metis append_take_drop_id, simp)
  then show "\<exists>n. n \<noteq> [] \<and> name = AUFS_WH_PFX @ n" by blast
qed (auto simp: wh_prefixed_def AUFS_WH_PFX_def)

lemma drop_wh_pfx: "drop 4 (AUFS_WH_PFX @ n) = n"
  by (simp add: AUFS_WH_PFX_def)

lemma whited_Nil [simp]: "whited [] = {}"
  by (simp add: whited_def)

lemma whited_snoc:
  "whited (cs @ [c]) = (if fst c \<and> wh_prefixed (src_name (snd c)) then insert (drop 4 (src_name (snd c))) (whited cs)
                        else whited cs)"
  by (auto simp: whited_def wh_prefixed_iff drop_wh_pfx)

text \<open>One more entry at the end.\<close>

lemma shown_snoc:
  "shown (cs @ [c]) e \<longleftrightarrow> shown cs e
     \<or> (e = snd c \<and> \<not> wh_prefixed (src_name e) \<and> (\<forall>b \<in> set cs. src_name (snd b) \<noteq> src_name e)
        \<and> src_name e \<notin> whited cs)"
    (is "?l \<longleftrightarrow> ?a \<or> ?b")
proof
  assume ?l
  then obtain pre w suf where p: "\<not> wh_prefixed (src_name e)" "cs @ [c] = pre @ (w, e) # suf"
    "\<forall>c \<in> set pre. src_name (snd c) \<noteq> src_name e" "src_name e \<notin> whited pre"
    unfolding shown_def by blast
  show "?a \<or> ?b"
  proof (cases suf rule: rev_cases)
    case Nil
    then show ?thesis using p by auto
  next
    case (snoc suf' x)
    then have "cs = pre @ (w, e) # suf'" using p(2) by simp
    then show ?thesis using p unfolding shown_def by blast
  qed
next
  assume "?a \<or> ?b"
  then show ?l
  proof
    assume ?a
    then obtain pre w suf where "\<not> wh_prefixed (src_name e)" "cs = pre @ (w, e) # suf"
      "\<forall>c \<in> set pre. src_name (snd c) \<noteq> src_name e" "src_name e \<notin> whited pre"
      unfolding shown_def by blast
    then show ?l unfolding shown_def by (intro conjI exI [of _ pre] exI [of _ w] exI [of _ "suf @ [c]"]) simp_all
  next
    assume b: ?b
    then have "cs @ [c] = cs @ (fst c, e) # []" by simp
    then show ?l using b unfolding shown_def by blast
  qed
qed

lemma shown_in: "shown cs e \<Longrightarrow> \<exists>c \<in> set cs. snd c = e"
  by (auto simp: shown_def)

text \<open>A name that is not whiteouted at the end is shown if it occurs.\<close>

lemma shown_first:
  "\<exists>c \<in> set cs. src_name (snd c) = n \<Longrightarrow> \<not> wh_prefixed n \<Longrightarrow> n \<notin> whited cs \<Longrightarrow> \<exists>e. shown cs e \<and> src_name e = n"
proof (induction cs rule: rev_induct)
  case (snoc c cs)
  have w: "n \<notin> whited cs" using snoc.prems(3) by (auto simp: whited_snoc split: if_splits)
  show ?case
  proof (cases "\<exists>c \<in> set cs. src_name (snd c) = n")
    case True
    from snoc.IH [OF this snoc.prems(2) w] show ?thesis by (auto simp: shown_snoc)
  next
    case False
    then have n: "src_name (snd c) = n" using snoc.prems(1) by auto
    have "shown (cs @ [c]) (snd c)" using False w n snoc.prems(2) by (simp add: shown_snoc)
    then show ?thesis using n by blast
  qed
qed simp

lemma merge_shown:
  "snd (merge cs ([], {})) = whited cs \<and> set (fst (merge cs ([], {}))) = {e. shown cs e}
   \<and> distinct (map src_name (fst (merge cs ([], {}))))"
proof (induction cs rule: rev_induct)
  case Nil
  then show ?case by (simp add: shown_def)
next
  case (snoc c cs)
  obtain es ws where m: "merge cs ([], {}) = (es, ws)" by force
  have IH: "ws = whited cs" "set es = {e. shown cs e}" "distinct (map src_name es)" using snoc m by simp_all
  let ?n = "src_name (snd c)"
  have m': "merge (cs @ [c]) ([], {}) = merge1 (es, ws) c" using m by simp
  show ?case
  proof (cases "wh_prefixed ?n")
    case True
    have "shown (cs @ [c]) = shown cs" using True by (auto simp: shown_snoc fun_eq_iff)
    then show ?thesis unfolding m' using IH True by (simp add: merge1_def whited_snoc)
  next
    case False
    have w: "whited (cs @ [c]) = whited cs" using False by (simp add: whited_snoc)
    show ?thesis
    proof (cases "?n \<in> src_name ` set es \<or> ?n \<in> ws")
      case True
      have "\<not> ((\<forall>b \<in> set cs. src_name (snd b) \<noteq> ?n) \<and> ?n \<notin> whited cs)"
      proof (cases "?n \<in> ws")
        case False
        then obtain e where e: "shown cs e" "src_name e = ?n" using True IH(2) by auto
        from shown_in [OF e(1)] e(2) show ?thesis by auto
      qed (use IH(1) in simp)
      then have "shown (cs @ [c]) = shown cs" by (auto simp: shown_snoc fun_eq_iff)
      then show ?thesis unfolding m' using IH True False w by (simp add: merge1_def)
    next
      case new: False
      have no: "\<forall>b \<in> set cs. src_name (snd b) \<noteq> ?n"
      proof (rule ccontr)
        assume "\<not> (\<forall>b \<in> set cs. src_name (snd b) \<noteq> ?n)"
        then have "\<exists>b \<in> set cs. src_name (snd b) = ?n" by blast
        note first = shown_first [OF this False]
        have "?n \<notin> whited cs" using new IH(1) by simp
        from first [OF this] obtain e where e: "shown cs e" "src_name e = ?n" by (elim exE conjE)
        then have "e \<in> set es" using IH(2) by simp
        then have "?n \<in> src_name ` set es" using e(2) by (metis imageI)
        then show False using new by simp
      qed
      then have sh: "shown (cs @ [c]) = (\<lambda>e. shown cs e \<or> e = snd c)"
        using False new IH(1) by (auto simp: shown_snoc fun_eq_iff)
      have dist: "distinct (map src_name (es @ [snd c]))"
      proof -
        have "?n \<notin> src_name ` set es" using new by blast
        then show ?thesis by (simp only: map_append distinct_append IH(3)) simp
      qed
      have mm: "merge1 (es, ws) c = (es @ [snd c], ws)" using False new by (simp add: merge1_def)
      show ?thesis unfolding m' mm fst_conv snd_conv
        by (intro conjI dist) (use IH(1,2) w sh in auto)
    qed
  qed
qed

section \<open>From the lower directories to the blocks\<close>

lemma pow2_from_pos: "0 < p \<Longrightarrow> 0 < pow2_from k p n"
  by (induction k arbitrary: p) auto

lemma au_dir_size_bounds: "255 \<le> au_dir_size sizes" "au_dir_size sizes \<le> 2 ^ 22"
  by (auto simp: au_dir_size_def Let_def NAME_MAX_def KMALLOC_MAX_SIZE_def AUFS_RDBLK_DEF_def)

lemma rdhash_est_bounds:
  assumes "0 \<le> sz" and "sz \<le> 2 ^ 22"
  shows "au_rdhash_est sz \<noteq> 0 \<and> uint (au_rdhash_est sz) < 2 ^ 30"
proof (cases "sz div 1024 < 32")
  case True
  then show ?thesis by (simp add: au_rdhash_est_def Let_def)
next
  case False
  have "sz div 1024 \<le> 2 ^ 22 div 1024" by (rule zdiv_mono1) (use assms(2) in simp_all)
  then have b: "sz div 1024 \<le> 4096" by simp
  have u: "uint (of_int (sz div 1024) :: u32) = sz div 1024"
    using b False assms(1) by (simp add: uint_word_of_int take_bit_int_eq_self)
  have "au_rdhash_est sz = of_int (sz div 1024)" using False b by (simp add: au_rdhash_est_def Let_def)
  moreover have "(of_int (sz div 1024) :: u32) \<noteq> 0"
  proof
    assume "(of_int (sz div 1024) :: u32) = 0"
    with u have "sz div 1024 = 0" by simp
    with False show False by simp
  qed
  ultimately show ?thesis using u b by simp
qed

lemma nhash_alloc_res:
  assumes "n \<noteq> 0" and "uint n < 2 ^ 30"
  shows "\<exists>err nh. au_nhash_alloc n mem = Some (err, nh, drop 1 mem)
    \<and> (list_all id mem \<and> mem \<noteq> [] \<longrightarrow> err = 0)
    \<and> (if err = 0 then \<exists>t. nh = Some t \<and> nhash_wf key t \<and> nh_head t = replicate (unat n) []
       else err = - ENOMEM \<and> nh = None)"
proof -
  obtain ok mem' where t: "take_alloc mem = (ok, mem')" by force
  have m: "mem' = drop 1 mem" by (rule take_alloc_drop [OF t])
  have "uint (4 :: u32) * uint n < 2 ^ LENGTH(32)" using assms(2) by simp
  then have "uint (4 * n) = uint (4 :: u32) * uint n" unfolding uint_mult_lem .
  then have "\<not> uint (4 * n) < 4 * uint n" by simp
  then have a: "au_nhash_alloc n mem = (if ok then Some (0, Some \<lparr>nh_num = n, nh_head = replicate (unat n) []\<rparr>, mem')
      else Some (- ENOMEM, None, mem'))"
    using t by (simp add: au_nhash_alloc_def)
  show ?thesis
  proof (cases ok)
    case True
    then have "au_nhash_alloc n mem = Some (0, Some \<lparr>nh_num = n, nh_head = replicate (unat n) []\<rparr>, drop 1 mem)"
      using a m by simp
    then show ?thesis using assms(1)
      by (intro exI [of _ 0] exI [of _ "Some \<lparr>nh_num = n, nh_head = replicate (unat n) []\<rparr>"]) (simp add: nhash_wf_def)
  next
    case False
    then have "au_nhash_alloc n mem = Some (- ENOMEM, None, drop 1 mem)" using a m by simp
    then show ?thesis using False take_alloc_ok [OF t]
      by (intro exI [of _ "- ENOMEM"] exI [of _ None]) auto
  qed
qed

text \<open>What \<open>au_do_read_vdir\<close> leaves in the blocks.\<close>

definition read_ok :: "fptr set \<Rightarrow> (bool \<times> src_de) list \<Rightarrow> au_vdir \<Rightarrow> xino \<Rightarrow> bool" where
  "read_ok F cs vd x \<longleftrightarrow> vdir_app vd \<and> xino_wf F x \<and> quiet x
     \<and> list_all2 (stored x) (dir_des vd) (fst (merge cs ([], {})))"

definition file_ok :: "fptr set \<Rightarrow> kconfig \<Rightarrow> dir_file \<Rightarrow> xino \<Rightarrow> bool" where
  "file_ok F cfg file x \<longleftrightarrow> xino_wf F x \<and> quiet x
     \<and> dir_ok F (x_sbi x) (df_dirs file) [df_bstart file..df_bend file]
     \<and> uint (si_rdhash (x_sbi x)) < 2 ^ 30 \<and> \<not> au_opt_test (au_mntflags (x_sbi x)) (AuOpt_SHWH cfg)"

definition file_des :: "dir_file \<Rightarrow> au_sbinfo \<Rightarrow> (bool \<times> src_de) list" where
  "file_des file sbi = union_des sbi (df_dirs file) (df_bend file) [df_bstart file..df_bend file]"

lemma do_read_res:
  assumes ok: "file_ok F (re_cfg env) file x" and vd: "vdir_app vd" "dir_des vd = []"
    and room: "length (si_xib x) + length (file_des file (x_sbi x)) \<le> 131071"
  shows "\<exists>err vd' x' k. au_do_read_vdir env file vd x mem = Some (err, vd', x', drop k mem)
    \<and> k \<le> 5 * length (file_des file (x_sbi x)) + 2
    \<and> (list_all id mem \<and> 5 * length (file_des file (x_sbi x)) + 2 \<le> length mem \<longrightarrow> err = 0)
    \<and> x_sbi x' = x_sbi x
    \<and> (if err = 0 then read_ok F (file_des file (x_sbi x)) vd' x' \<and> vd_deblk_sz vd' = vd_deblk_sz vd
       else err = - ENOMEM)"
proof -
  let ?sbi = "x_sbi x" and ?cs = "file_des file (x_sbi x)"
  define h where "h = (if si_rdhash ?sbi = 0 then au_rdhash_est (au_dir_size (df_sizes file)) else si_rdhash ?sbi)"
  have h: "h \<noteq> 0" "uint h < 2 ^ 30"
    using ok rdhash_est_bounds [of "au_dir_size (df_sizes file)"] au_dir_size_bounds [of "df_sizes file"]
    by (auto simp: file_ok_def h_def)
  note def = au_do_read_vdir_def [of env "file" vd x mem, unfolded Let_def, folded h_def]
  obtain e1 de where d: "au_nhash_alloc h mem = Some (e1, de, drop 1 mem)"
    "list_all id mem \<and> mem \<noteq> [] \<longrightarrow> e1 = 0"
    "if e1 = 0 then \<exists>t. de = Some t \<and> nhash_wf (de_key vd) t \<and> nh_head t = replicate (unat h) []
     else e1 = - ENOMEM \<and> de = None"
    using nhash_alloc_res [OF h, of mem "de_key vd"] by blast
  show ?thesis
  proof (cases "e1 = 0")
    case False
    then have "au_do_read_vdir env file vd x mem = Some (e1, vd, x, drop 1 mem)"
      using d(1,3) by (simp add: def)
    then show ?thesis using d(2,3) False
      by (intro exI [of _ e1] exI [of _ vd] exI [of _ x] exI [of _ 1]) auto
  next
    case True
    then obtain dt where dt: "de = Some dt" "nhash_wf (de_key vd) dt" "nh_head dt = replicate (unat h) []"
      using d(3) by auto
    obtain e2 wh where w: "au_nhash_alloc h (drop 1 mem) = Some (e2, wh, drop 1 (drop 1 mem))"
      "list_all id (drop 1 mem) \<and> drop 1 mem \<noteq> [] \<longrightarrow> e2 = 0"
      "if e2 = 0 then \<exists>t :: au_vdir_wh au_nhash. wh = Some t \<and> nhash_wf wh_name t \<and> nh_head t = replicate (unat h) []
       else e2 = - ENOMEM \<and> wh = None"
      using nhash_alloc_res [OF h, of "drop 1 mem" wh_name] by blast
    have m2: "drop 1 (drop 1 mem) = drop 2 mem" by (simp add: numeral_2_eq_2)
    have all2: "list_all id (drop 1 mem) \<and> drop 1 mem \<noteq> []" if "list_all id mem" "2 \<le> length mem"
      using that by (auto simp: list_all_iff dest: in_set_dropD)
    show ?thesis
    proof (cases "e2 = 0")
      case False
      then have "au_do_read_vdir env file vd x mem = Some (e2, vd, x, drop 2 mem)"
        using d(1) dt(1) w(1,3) m2 by (simp add: def)
      moreover have "\<not> (list_all id mem \<and> 2 \<le> length mem)" using w(2) all2 False by blast
      ultimately show ?thesis using w(3) False
        by (intro exI [of _ e2] exI [of _ vd] exI [of _ x] exI [of _ 2]) auto
    next
      case e2: True
      then obtain wt where wt: "wh = Some wt" "nhash_wf wh_name wt" "nh_head wt = replicate (unat h) []"
        using w(3) by auto
      let ?a = "\<lparr>fa_vdir = vd, fa_delist = dt, fa_whlist = wt, fa_called = False, fa_err = 0, fa_x = x,
          fa_mem = drop 2 mem\<rparr>"
      have "delist_wf vd dt" using dt vd(2) by (simp add: delist_wf_def nhash_names_def)
      moreover have "wh_wf wt" "nhash_names wh_name wt = {}" using wt by (simp_all add: wh_wf_def nhash_names_def)
      ultimately have inv: "fill_inv F ?a ([], {})" using vd ok by (simp add: fill_inv_def file_ok_def)
      have shwh: "\<not> au_opt_test (au_mntflags ?sbi) (AuOpt_SHWH (re_cfg env))"
        and dirs: "dir_ok F ?sbi (df_dirs file) [df_bstart file..df_bend file]"
        using ok by (simp_all add: file_ok_def)
      obtain err a' where r: "read_branches env False ?sbi (df_dirs file) (df_bend file) [df_bstart file..df_bend file] ?a
          = Some (err, a')" "fill_res F (length ?cs) ?a err (merge ?cs ([], {})) a'"
        using read_branches_res [OF inv dirs, of "df_bend file" env] room by (auto simp: file_des_def)
      have run: "au_do_read_vdir env file vd x mem = Some (err, fa_vdir a', fa_x a', fa_mem a')"
        using d(1) dt(1) w(1) m2 wt(1) shwh r(1) by (simp add: def)
      obtain k where k: "k \<le> 5 * length ?cs" "fa_mem a' = drop k (drop 2 mem)"
        using r(2) by (auto simp: fill_res_def)
      have "list_all id mem \<and> 5 * length ?cs + 2 \<le> length mem \<longrightarrow> err = 0"
        using r(2) by (auto simp: fill_res_def list_all_iff dest: in_set_dropD)
      moreover have "x_sbi (fa_x a') = ?sbi" using r(2) by (simp add: fill_res_def)
      moreover have "if err = 0 then read_ok F ?cs (fa_vdir a') (fa_x a') \<and> vd_deblk_sz (fa_vdir a') = vd_deblk_sz vd
          else err = - ENOMEM"
        using r(2) by (cases "err = 0") (simp_all add: fill_res_def fill_inv_def read_ok_def)
      ultimately show ?thesis using run k
        by (intro exI [of _ err] exI [of _ "fa_vdir a'"] exI [of _ "fa_x a'"] exI [of _ "k + 2"]) simp
    qed
  qed
qed

section \<open>Property\<close>

text \<open>
  C19: reading a merged directory whose lower directories can be read ends, without any access out
  of bounds, with success or for want of memory, and with success if every allocation succeeds
  (five for each entry of the lower directories and the two tables). After success the directory
  holds the union of the branches: the entries are the \<open>shown\<close> ones, each name once, with the
  inode number that the tables give to the lower inode.
\<close>

theorem au_do_read_vdir_union:
  assumes "file_ok F (re_cfg env) file x" and "vdir_app vd" and "dir_des vd = []"
    and "length (si_xib x) + length (file_des file (x_sbi x)) \<le> 131071"
  shows "\<exists>err vd' x' mem'. au_do_read_vdir env file vd x mem = Some (err, vd', x', mem')
    \<and> (list_all id mem \<and> 5 * length (file_des file (x_sbi x)) + 2 \<le> length mem \<longrightarrow> err = 0)
    \<and> (if err = 0
       then vdir_app vd' \<and> xino_wf F x'
         \<and> (\<exists>es. list_all2 (stored x') (dir_des vd') es \<and> set es = {e. shown (file_des file (x_sbi x)) e}
              \<and> distinct (map src_name es))
       else err = - ENOMEM)"
proof -
  let ?cs = "file_des file (x_sbi x)"
  obtain err vd' x' k where r: "au_do_read_vdir env file vd x mem = Some (err, vd', x', drop k mem)"
    "list_all id mem \<and> 5 * length ?cs + 2 \<le> length mem \<longrightarrow> err = 0"
    "if err = 0 then read_ok F ?cs vd' x' \<and> vd_deblk_sz vd' = vd_deblk_sz vd else err = - ENOMEM"
    using do_read_res [OF assms, of mem] by blast
  show ?thesis using r merge_shown [of ?cs]
    by (intro exI [of _ err] exI [of _ vd'] exI [of _ x'] exI [of _ "drop k mem"])
      (cases "err = 0"; auto simp: read_ok_def)
qed

text \<open>
  Two branches; the upper one hides \<open>b\<close> of the lower one and has \<open>a\<close> in common with it. The
  lower file systems deliver one entry or two at a time.
\<close>

definition example_file :: dir_file where
  "example_file =
     \<lparr>df_bstart = 0, df_bend = 1,
      df_dirs = (\<lambda>b. if b = 0 then Some \<lparr>ld_seek = 0, ld_calls = [([([97], 20, 8)], 0), ([([46, 119, 104, 46, 98], 21, 8)], 0)]\<rparr>
                 else Some \<lparr>ld_seek = 0, ld_calls = [([([97], 30, 8), ([98], 31, 8)], 0), ([([99], 32, 4)], 0)]\<rparr>),
      df_sizes = [4096, 4096]\<rparr>"

definition example_union :: xino where
  "example_union = example_xino\<lparr>x_sbi := example_sbinfo\<lparr>si_mntflags := AuOpt_XINO, si_bend := 1,
     si_rdblk := 512, si_rdhash := 32,
     si_branch := [Some (example_branch 1 1 100\<lparr>br_xino_file := Some 7\<rparr>),
                   Some (example_branch 2 2 101\<lparr>br_xino_file := Some 8\<rparr>)]\<rparr>\<rparr>"

definition example_read_env :: read_env where
  "example_read_env = \<lparr>re_cfg = full_config, re_fresh = (\<lambda>i. 171), re_jiffies = 500\<rparr>"

lemma example_file_ok: "file_ok {7, 8} full_config example_file example_union"
proof -
  have "xib_ok example_union" "quiet example_union"
    using example_xino_ok by (simp_all add: example_union_def xib_ok_def xino_on_def quiet_def au_mntflags_def
        au_opt_test_def AuOpt_XINO_def example_xino_def)
  moreover have "xtab example_union f h = 0" for f h
    by (simp add: xtab_def example_union_def example_xino_def)
  ultimately have "xino_wf {7, 8} example_union"
    by (simp add: xino_wf_def example_union_def example_xino_def)
  moreover have "[0..1] = [0, 1 :: int]" by (simp add: upto.simps)
  then have "dir_ok {7, 8} (x_sbi example_union) (df_dirs example_file) [df_bstart example_file..df_bend example_file]"
    by (simp add: dir_ok_def example_file_def raw_ok_def example_union_def au_sbr_def arr_get_def)
  ultimately show ?thesis using \<open>quiet example_union\<close>
    by (simp add: file_ok_def example_union_def au_opt_test_def au_mntflags_def AuOpt_XINO_def AuOpt_SHWH_def
        full_config_def)
qed

lemma example_file_des:
  "file_des example_file (x_sbi example_union) =
     [(True, 7, [97], 20, 8), (True, 7, [46, 119, 104, 46, 98], 21, 8),
      (False, 8, [97], 30, 8), (False, 8, [98], 31, 8), (False, 8, [99], 32, 4)]"
proof -
  have "[0..1] = [0, 1 :: int]" by (simp add: upto.simps)
  then show ?thesis
    by (simp add: file_des_def union_des_def branch_des_def example_file_def example_union_def au_sbr_whable_def
        au_sbr_perm_def au_sbr_def arr_get_def example_branch_def au_br_whable_def AuBrPerm_RW_def AuBrRAttr_WH_def)
qed

theorem au_do_read_vdir_union_witness:
  "\<exists>vd' x' mem'. au_do_read_vdir example_read_env example_file fresh_vdir example_union (replicate 27 True)
      = Some (0, vd', x', mem')
    \<and> vdir_app vd' \<and> (\<exists>es. list_all2 (stored x') (dir_des vd') es
        \<and> set es = {e. shown (file_des example_file (x_sbi example_union)) e} \<and> distinct (map src_name es))"
proof -
  have "dir_des fresh_vdir = []" using fresh_vdir_app(2)
    by (simp add: delist_wf_def fresh_delist_def nhash_names_def)
  moreover have "file_ok {7, 8} (re_cfg example_read_env) example_file example_union"
    using example_file_ok by (simp add: example_read_env_def)
  moreover have "length (si_xib example_union) + length (file_des example_file (x_sbi example_union)) \<le> 131071"
    unfolding example_file_des by (simp add: example_union_def example_xino_def)
  ultimately show ?thesis
    using au_do_read_vdir_union [OF _ fresh_vdir_app(1), of "{7, 8}" example_read_env example_file example_union
        "replicate 27 True"]
    by (auto simp: example_file_des list_all_length)
qed

end
