(* ===== verification/Vdir_Cache.thy ===== *)
theory Vdir_Cache
  imports Vdir_Read
begin

text \<open>
  The merged directory in the inode and its copy in the open file (\<open>alloc_vdir\<close>,
  \<open>reinit_vdir\<close>, \<open>copy_vdir\<close>, \<open>au_vdir_init\<close>), up to what the caller of \<open>readdir\<close> gets.
\<close>

section \<open>Allocating, resetting and copying\<close>

definition deblk_sz_of :: "u32 \<Rightarrow> int list \<Rightarrow> u32" where
  "deblk_sz_of rdblk sizes = (if rdblk = 0 then of_int (au_dir_size sizes) else rdblk)"

text \<open>An empty directory: one block without entries.\<close>

definition empty_vdir :: "au_vdir \<Rightarrow> bool" where
  "empty_vdir vd \<longleftrightarrow> vdir_app vd \<and> dir_des vd = [] \<and> length (vd_deblk vd) = 1 \<and> vd_ul vd = 0"

lemma empty_vdirI:
  assumes "vd_deblk vd = [blk]" and "deblk_wf (vd_deblk_sz vd) blk" and "block_des (vd_deblk_sz vd) blk = []"
    and "calc_size 255 \<le> unat (vd_deblk_sz vd)" and "vd_ul vd = 0" and "vd_off vd = 0"
  shows "empty_vdir vd"
  using assms calc_size_bounds(3) [of 255]
  by (simp add: empty_vdir_def vdir_app_def vdir_full_def vd_des_def dir_des_def)

lemma list_all_id_drop: "list_all id xs \<Longrightarrow> list_all id (drop k xs)"
  by (auto simp: list_all_iff dest: in_set_dropD)

lemma alloc_vdir_ok:
  assumes sz: "calc_size 255 \<le> unat (deblk_sz_of rdblk sizes)"
  shows "\<exists>r k. alloc_vdir fresh rdblk sizes mem = Some (r, drop k mem) \<and> k \<le> 4
    \<and> (case r of Inl err \<Rightarrow> err = - ENOMEM \<and> \<not> (list_all id mem \<and> 4 \<le> length mem)
       | Inr vd \<Rightarrow> empty_vdir vd \<and> vd_deblk_sz vd = deblk_sz_of rdblk sizes)"
proof -
  obtain ok1 m1 where t1: "take_alloc mem = (ok1, m1)" by force
  obtain ok2 m2 where t2: "take_alloc m1 = (ok2, m2)" by force
  have m: "m1 = drop 1 mem" "m2 = drop 2 mem"
    using take_alloc_drop [OF t1] take_alloc_drop [OF t2] by (simp_all add: numeral_2_eq_2)
  have all: "ok1 \<and> ok2" if "list_all id mem" "2 \<le> length mem"
    using that t1 t2 by (cases mem; cases "tl mem") auto
  let ?vd = "\<lparr>vd_deblk = [], vd_ul = 0, vd_off = 0, vd_version = 0, vd_deblk_sz = deblk_sz_of rdblk sizes, vd_jiffy = 0\<rparr>"
  note def = alloc_vdir_def [of fresh rdblk sizes mem, folded deblk_sz_of_def]
  have sz8: "8 \<le> unat (vd_deblk_sz ?vd)" using sz calc_size_bounds(3) [of 255] by simp
  show ?thesis
  proof (cases "ok1 \<and> ok2")
    case False
    have "\<exists>k \<le> 2. alloc_vdir fresh rdblk sizes mem = Some (Inl (- ENOMEM), drop k mem)"
    proof (cases ok1)
      case True
      then show ?thesis using False t1 t2 m by (intro exI [of _ 2]) (simp add: def)
    next
      case False
      then show ?thesis using t1 t2 m by (intro exI [of _ 1]) (simp add: def)
    qed
    then obtain k where "k \<le> 2" "alloc_vdir fresh rdblk sizes mem = Some (Inl (- ENOMEM), drop k mem)" by blast
    then show ?thesis using all False
      by (intro exI [of _ "Inl (- ENOMEM)"] exI [of _ k]) auto
  next
    case True
    obtain err vd' mem' k where a: "append_deblk fresh ?vd m2 = Some (err, vd', mem')" "mem' = drop k m2" "k \<le> 2"
      "list_all id m2 \<and> 2 \<le> length m2 \<longrightarrow> err = 0"
      "if err = 0 then \<exists>blk. vd' = ?vd\<lparr>vd_deblk := vd_deblk ?vd @ [blk], vd_ul := length (vd_deblk ?vd), vd_off := 0\<rparr>
           \<and> deblk_wf (vd_deblk_sz ?vd) blk \<and> block_des (vd_deblk_sz ?vd) blk = []
       else err = - ENOMEM \<and> vd' = ?vd"
      using append_deblk_ok [OF sz8, of fresh m2] by blast
    have run: "alloc_vdir fresh rdblk sizes mem = Some (if err = 0 then Inr vd' else Inl err, mem')"
      using True t1 t2 a(1) by (simp add: def)
    have mem': "mem' = drop (k + 2) mem" using a(2) m(2) by simp
    show ?thesis
    proof (cases "err = 0")
      case True
      then obtain blk where v: "vd' = ?vd\<lparr>vd_deblk := [blk], vd_ul := 0, vd_off := 0\<rparr>"
        "deblk_wf (vd_deblk_sz ?vd) blk" "block_des (vd_deblk_sz ?vd) blk = []" using a(5) by auto
      have "empty_vdir vd'" by (rule empty_vdirI [of _ blk]) (use v sz in simp_all)
      then show ?thesis using run True mem' a(3) v(1)
        by (intro exI [of _ "Inr vd'"] exI [of _ "k + 2"]) simp
    next
      case False
      have "list_all id m2" "2 \<le> length m2" if "list_all id mem" "4 \<le> length mem"
        using that m(2) list_all_id_drop [of mem 2] by simp_all
      then have "\<not> (list_all id mem \<and> 4 \<le> length mem)" using a(4) False by blast
      then show ?thesis using run False mem' a(3,5)
        by (intro exI [of _ "Inl err"] exI [of _ "k + 2"]) auto
    qed
  qed
qed

lemma reinit_vdir_ok:
  assumes "vd_deblk vd = b # bs" and "length b = unat (vd_deblk_sz vd)" and "calc_size 255 \<le> unat (vd_deblk_sz vd)"
  shows "\<exists>vd'. reinit_vdir vd = Some (0, vd') \<and> empty_vdir vd' \<and> vd_deblk_sz vd' = vd_deblk_sz vd"
proof -
  have sz: "8 \<le> unat (vd_deblk_sz vd)" using assms(3) calc_size_bounds(3) [of 255] by simp
  obtain err b' where b: "set_deblk_end (vd_deblk_sz vd) b 0 = Some (err, b')" "length b' = length b"
    "is_deblk_end (vd_deblk_sz vd) b' 0 = Some True" "err = 0"
    using set_deblk_end_ok [OF assms(2), of 0] sz by auto
  have "length b' = unat (vd_deblk_sz vd)" using b(2) assms(2) by simp
  note w = deblk_wfI [OF this block_walk_end [OF b(3)]]
  let ?vd = "vd\<lparr>vd_deblk := [b'], vd_ul := 0, vd_off := 0, vd_version := 0, vd_jiffy := 0\<rparr>"
  have "empty_vdir ?vd" by (rule empty_vdirI [of _ b']) (use w assms(3) in simp_all)
  moreover have "reinit_vdir vd = Some (0, ?vd)" using assms(1) b(1,4) by (simp add: reinit_vdir_def)
  ultimately show ?thesis by (intro exI [of _ ?vd]) simp
qed

lemma copy_fail_ok:
  assumes "vd_deblk tgt = b # bs" and "8 \<le> length b" and "8 \<le> unat (vd_deblk_sz tgt)"
  shows "\<exists>tgt'. copy_fail tgt mem = Some (- ENOMEM, tgt', mem)"
proof -
  have r: "room_left (vd_deblk_sz tgt) 0 = unat (vd_deblk_sz tgt)" by (simp add: room_left_def)
  obtain b' where "put_bytes b 5 [0] = Some b'" using put_bytes_ok [of 5 "[0]" b] assms(2) by auto
  then show ?thesis using assms(1,3) r
    by (simp add: copy_fail_def reinit_vdir_def set_deblk_end_def calc_size_0)
qed

lemma copy_blocks_ok:
  "\<exists>k ok acc'. copy_blocks bs acc mem = (ok, acc', drop k mem) \<and> k \<le> length bs
    \<and> (list_all id mem \<and> length bs \<le> length mem \<longrightarrow> ok) \<and> (ok \<longrightarrow> acc' = acc @ bs) \<and> (\<exists>more. acc' = acc @ more)"
proof (induction bs arbitrary: acc mem)
  case Nil
  show ?case by (intro exI [of _ 0] exI [of _ True] exI [of _ acc]) simp
next
  case (Cons b bs)
  obtain ok m1 where t: "take_alloc mem = (ok, m1)" by force
  have m1: "m1 = drop 1 mem" by (rule take_alloc_drop [OF t])
  show ?case
  proof (cases ok)
    case False
    then have "copy_blocks (b # bs) acc mem = (False, acc, drop 1 mem)" using t m1 by simp
    moreover have "\<not> (list_all id mem \<and> length (b # bs) \<le> length mem)" using False t by (cases mem) auto
    ultimately show ?thesis by (intro exI [of _ 1] exI [of _ False] exI [of _ acc]) (auto simp: id_def)
  next
    case True
    obtain k ok' acc' where r: "copy_blocks bs (acc @ [b]) m1 = (ok', acc', drop k m1)" "k \<le> length bs"
      "list_all id m1 \<and> length bs \<le> length m1 \<longrightarrow> ok'" "ok' \<longrightarrow> acc' = (acc @ [b]) @ bs" "\<exists>more. acc' = (acc @ [b]) @ more"
      using Cons.IH [of "acc @ [b]" m1] by blast
    have "copy_blocks (b # bs) acc mem = (ok', acc', drop (Suc k) mem)" using t True r(1) m1 by simp
    moreover have "list_all id mem \<and> length (b # bs) \<le> length mem \<longrightarrow> ok'" using r(3) m1 by (cases mem) auto
    ultimately show ?thesis using r(2,4,5)
      by (intro exI [of _ "Suc k"] exI [of _ ok'] exI [of _ acc']) (auto simp: id_def)
  qed
qed

text \<open>Well-formed blocks, wherever the position is.\<close>

definition vdir_shape :: "au_vdir \<Rightarrow> bool" where
  "vdir_shape vd \<longleftrightarrow> vdir_full (vd\<lparr>vd_ul := length (vd_deblk vd) - 1\<rparr>)"

lemma vdir_shape_iff:
  "vdir_shape vd \<longleftrightarrow> vd_deblk vd \<noteq> [] \<and> calc_size 255 \<le> unat (vd_deblk_sz vd)
     \<and> (\<forall>b \<in> set (vd_deblk vd). deblk_wf (vd_deblk_sz vd) b)
     \<and> (\<forall>ul. Suc ul < length (vd_deblk vd) \<longrightarrow> vd_des vd ! ul \<noteq> [])"
proof -
  have "vd_des (vd\<lparr>vd_ul := length (vd_deblk vd) - 1\<rparr>) = vd_des vd" by (simp add: vd_des_def)
  then show ?thesis by (simp add: vdir_shape_def vdir_full_def)
qed

text \<open>An allocation that may be left out.\<close>

lemma maybe_alloc:
  "\<exists>ok m k. (if c then take_alloc mem else (True, mem)) = (ok, m) \<and> m = drop k mem \<and> k \<le> 1
    \<and> (list_all id mem \<and> 1 \<le> length mem \<longrightarrow> ok)"
proof (cases c)
  case True
  obtain ok m where t: "take_alloc mem = (ok, m)" by force
  have "list_all id mem \<and> 1 \<le> length mem \<longrightarrow> ok" using t by (cases mem) auto
  then show ?thesis using True t take_alloc_drop [OF t] by (intro exI [of _ ok] exI [of _ m] exI [of _ 1]) simp
next
  case False
  then show ?thesis by (intro exI [of _ True] exI [of _ mem] exI [of _ 0]) simp
qed

lemma copy_vdir_ok:
  assumes tgt: "empty_vdir tgt" and src: "vdir_shape src"
  shows "\<exists>err tgt' k. copy_vdir fresh tgt src mem = Some (err, tgt', drop k mem)
    \<and> k \<le> length (vd_deblk src) + 1
    \<and> (list_all id mem \<and> length (vd_deblk src) + 1 \<le> length mem \<longrightarrow> err = 0)
    \<and> (if err = 0 then vd_deblk tgt' = vd_deblk src \<and> vd_deblk_sz tgt' = vd_deblk_sz src \<and> vd_ul tgt' = 0
         \<and> vd_off tgt' = vd_off src \<and> vd_version tgt' = vd_version src else err = - ENOMEM)"
proof -
  let ?sz = "vd_deblk_sz src"
  obtain t0 where t0: "vd_deblk tgt = [t0]" using tgt by (auto simp: empty_vdir_def length_Suc_conv)
  have tf: "vdir_full tgt" "vd_ul tgt = 0" using tgt by (simp_all add: empty_vdir_def vdir_app_def)
  have lt: "length t0 = unat (vd_deblk_sz tgt)" "calc_size 255 \<le> unat (vd_deblk_sz tgt)"
    using tf t0 by (simp_all add: vdir_full_def deblk_wf_def)
  obtain s0 ss where s: "vd_deblk src = s0 # ss" using src by (cases "vd_deblk src") (auto simp: vdir_shape_iff)
  have ls: "length s0 = unat ?sz" "calc_size 255 \<le> unat ?sz" using src s by (simp_all add: vdir_shape_iff deblk_wf_def)
  have big: "8 \<le> length t0" "8 \<le> unat ?sz" "8 \<le> unat (vd_deblk_sz tgt)"
    using lt ls calc_size_bounds(3) [of 255] by simp_all
  obtain ok1 m1 k1 where c1: "(if 1 < length (vd_deblk src) then take_alloc mem else (True, mem)) = (ok1, m1)"
    "m1 = drop k1 mem" "k1 \<le> 1" "list_all id mem \<and> 1 \<le> length mem \<longrightarrow> ok1"
    using maybe_alloc by blast
  obtain ok2 m2 k2 where c2: "(if vd_deblk_sz tgt \<noteq> ?sz then take_alloc m1 else (True, m1)) = (ok2, m2)"
    "m2 = drop k2 m1" "k2 \<le> 1" "list_all id m1 \<and> 1 \<le> length m1 \<longrightarrow> ok2"
    using maybe_alloc by blast
  let ?blk = "if vd_deblk_sz tgt \<noteq> ?sz then take (unat ?sz) t0 @ map fresh [length t0..<unat ?sz] else t0"
  have lb: "length ?blk = unat ?sz" using lt by auto
  have g: "get_bytes s0 0 (unat ?sz) = Some s0" using ls by (simp add: get_bytes_def)
  have p: "put_bytes ?blk 0 s0 = Some s0" using lb ls by (simp add: put_bytes_def)
  obtain k3 ok3 acc where c3: "copy_blocks ss [s0] m2 = (ok3, acc, drop k3 m2)" "k3 \<le> length ss"
    "list_all id m2 \<and> length ss \<le> length m2 \<longrightarrow> ok3" "ok3 \<longrightarrow> acc = [s0] @ ss" "\<exists>more. acc = [s0] @ more"
    using copy_blocks_ok [of ss "[s0]" m2] by blast
  have m3: "drop k3 m2 = drop (k3 + (k2 + k1)) mem" using c1(2) c2(2) by (simp add: ac_simps)
  note def = copy_vdir_def [of fresh tgt src mem]
  have l1: "length (vd_deblk tgt) < length (vd_deblk src) \<longleftrightarrow> 1 < length (vd_deblk src)" using t0 by simp
  have e: "- ENOMEM \<noteq> (0 :: int)" by simp
  show ?thesis
  proof (cases ok1)
    case False
    obtain tgt' where f: "copy_fail tgt m1 = Some (- ENOMEM, tgt', m1)" using copy_fail_ok [OF t0 big(1,3)] by blast
    have "copy_vdir fresh tgt src mem = Some (- ENOMEM, tgt', m1)"
      using False f c1(1) t0 s l1 by (simp add: def Let_def)
    moreover have "\<not> (list_all id mem \<and> length (vd_deblk src) + 1 \<le> length mem)" using c1(4) False by auto
    ultimately show ?thesis using c1(2,3) by (intro exI [of _ "- ENOMEM"] exI [of _ tgt'] exI [of _ k1]) simp
  next
    case ok1: True
    show ?thesis
    proof (cases ok2)
      case False
      let ?t1 = "tgt\<lparr>vd_deblk_sz := ?sz\<rparr>"
      obtain tgt' where f: "copy_fail ?t1 m2 = Some (- ENOMEM, tgt', m2)"
        using copy_fail_ok [of ?t1 t0 "[]" m2] t0 big by auto
      have "copy_vdir fresh tgt src mem = Some (- ENOMEM, tgt', m2)"
        using False ok1 f c1(1) c2(1) t0 s l1 by (simp add: def Let_def)
      moreover have "list_all id m1" "1 \<le> length m1" if "list_all id mem" "length (vd_deblk src) + 1 \<le> length mem"
        using that c1(2,3) s list_all_id_drop by auto
      then have "\<not> (list_all id mem \<and> length (vd_deblk src) + 1 \<le> length mem)" using c2(4) False by blast
      moreover have "m2 = drop (k2 + k1) mem" using c1(2) c2(2) by simp
      ultimately show ?thesis using c1(3) c2(3) s by (intro exI [of _ "- ENOMEM"] exI [of _ tgt'] exI [of _ "k2 + k1"]) simp
    next
      case ok2: True
      let ?t2 = "tgt\<lparr>vd_deblk_sz := ?sz, vd_version := vd_version src, vd_jiffy := vd_jiffy src\<rparr>"
      have run: "copy_vdir fresh tgt src mem = (if \<not> ok3 then copy_fail (?t2\<lparr>vd_deblk := acc\<rparr>) (drop k3 m2)
          else Some (0, ?t2\<lparr>vd_deblk := acc, vd_off := vd_off src\<rparr>, drop k3 m2))"
        using ok1 ok2 c1(1) c2(1) c3(1) t0 s l1 g p
        by (cases "vd_deblk_sz tgt = ?sz") (simp_all add: def Let_def)
      have bound: "k3 + (k2 + k1) \<le> length (vd_deblk src) + 1" using c1(3) c2(3) c3(2) s by simp
      show ?thesis
      proof (cases ok3)
        case True
        then show ?thesis using run m3 bound c3(4) s tf(2)
          by (intro exI [of _ 0] exI [of _ "?t2\<lparr>vd_deblk := acc, vd_off := vd_off src\<rparr>"] exI [of _ "k3 + (k2 + k1)"]) simp
      next
        case False
        obtain more where acc: "vd_deblk (?t2\<lparr>vd_deblk := acc\<rparr>) = s0 # more" using c3(5) by auto
        obtain tgt' where f: "copy_fail (?t2\<lparr>vd_deblk := acc\<rparr>) (drop k3 m2) = Some (- ENOMEM, tgt', drop k3 m2)"
          using copy_fail_ok [OF acc, of "drop k3 m2"] ls big by auto
        have "list_all id m2" "length ss \<le> length m2" if "list_all id mem" "length (vd_deblk src) + 1 \<le> length mem"
          using that c1(2,3) c2(2,3) s list_all_id_drop by auto
        then have "\<not> (list_all id mem \<and> length (vd_deblk src) + 1 \<le> length mem)" using c3(3) False by blast
        then show ?thesis using run False f m3 bound
          by (intro exI [of _ "- ENOMEM"] exI [of _ tgt'] exI [of _ "k3 + (k2 + k1)"]) simp
      qed
    qed
  qed
qed

section \<open>From the blocks to the caller\<close>

lemma blocks_bound:
  "(\<And>i. Suc i < length xss \<Longrightarrow> xss ! i \<noteq> []) \<Longrightarrow> length xss \<le> length (concat xss) + 1"
proof (induction xss)
  case (Cons xs xss)
  have "length xss \<le> length (concat xss) + 1"
    by (rule Cons.IH) (use Cons.prems [of "Suc _"] in simp)
  moreover have "xss = [] \<or> xs \<noteq> []" using Cons.prems [of 0] by auto
  ultimately show ?case by (cases xs) auto
qed simp

text \<open>A directory at its start, ready to be read.\<close>

lemma full_readable:
  assumes full: "vdir_shape vd" and pos: "vd_ul vd = 0" "vd_off vd = 0"
    and size: "(length (dir_des vd) + 1) * unat (vd_deblk_sz vd) < 2 ^ 32"
  shows "vdir_wf vd" "reads vd 0 (dir_des vd)"
proof -
  have len: "length (vd_deblk vd) \<le> length (dir_des vd) + 1"
    using blocks_bound [of "vd_des vd"] full by (simp add: dir_des_def vdir_shape_iff)
  have ne: "vd_deblk vd \<noteq> []" using full by (simp add: vdir_shape_iff)
  have "length (vd_deblk vd) * unat (vd_deblk_sz vd) \<le> (length (dir_des vd) + 1) * unat (vd_deblk_sz vd)"
    using len by (rule mult_le_mono1)
  then have small: "length (vd_deblk vd) * unat (vd_deblk_sz vd) < 2 ^ 32" using size by (rule le_less_trans)
  have "vd_deblk_sz vd \<noteq> 0"
    using full calc_size_bounds(3) [of 255] by (auto simp: vdir_shape_iff)
  then have b: "vdir_blocks vd" using full small by (simp add: vdir_blocks_def vdir_shape_iff)
  moreover have "boundary vd 0 0" unfolding boundary_def using ne by (intro conjI exI [of _ "[]"] exI [of _ "vd_des vd ! 0"]) simp_all
  ultimately show "vdir_wf vd" using pos by (simp add: vdir_wf_def)
  obtain es ess where d: "vd_des vd = es # ess" using ne by (cases "vd_des vd") (auto simp: vd_des_def)
  have "es \<noteq> [] \<or> Suc 0 = length (vd_deblk vd)"
  proof (cases ess)
    case (Cons e' r)
    then have "Suc 0 < length (vd_deblk vd)" using d by (metis length_Cons vd_des_length Suc_less_eq zero_less_Suc)
    then show ?thesis using full d by (auto simp: vdir_shape_iff)
  next
    case Nil
    then show ?thesis using d by (metis length_Cons list.size(3) vd_des_length)
  qed
  then show "reads vd 0 (dir_des vd)"
    unfolding reads_def using ne d
    by (intro exI [of _ 0] exI [of _ "[]"] exI [of _ es]) (simp add: dir_des_def)
qed

lemma merge_length: "length (fst (merge cs st)) \<le> length (fst st) + length cs"
proof (induction cs arbitrary: st)
  case (Cons c cs)
  have "length (fst (merge1 st c)) \<le> Suc (length (fst st))" by (simp add: merge1_def Let_def)
  then show ?case using Cons.IH [of "merge1 st c"] by simp
qed simp

lemma first_read:
  assumes ok: "file_ok F (re_cfg env) file (ds_x ds)" and none: "ds_ivdir ds = None" "ds_fvdir ds = None"
    and sz: "calc_size 255 \<le> unat (deblk_sz_of (si_rdblk (x_sbi (ds_x ds))) (df_sizes file))"
    and room: "length (si_xib (ds_x ds)) + length (file_des file (x_sbi (ds_x ds))) \<le> 131071"
  shows "\<exists>err ds'. au_vdir_init env file ds = Some (err, ds')
    \<and> (list_all id (ds_mem ds) \<and> 6 * length (file_des file (x_sbi (ds_x ds))) + 12 \<le> length (ds_mem ds) \<longrightarrow> err = 0)
    \<and> (if err = 0 then \<exists>vd. ds_fvdir ds' = Some vd \<and> vdir_shape vd \<and> vd_ul vd = 0 \<and> vd_off vd = 0
           \<and> list_all2 (stored (ds_x ds')) (dir_des vd) (fst (merge (file_des file (x_sbi (ds_x ds))) ([], {})))
           \<and> xino_wf F (ds_x ds') \<and> vd_deblk_sz vd = deblk_sz_of (si_rdblk (x_sbi (ds_x ds))) (df_sizes file)
       else err = - ENOMEM)"
proof -
  let ?x = "ds_x ds" and ?mem = "ds_mem ds"
  let ?sbi = "x_sbi ?x"
  let ?cs = "file_des file ?sbi" and ?n = "length (file_des file ?sbi)"
  have e12: "- ENOMEM \<noteq> (0 :: int)" by simp
  obtain r1 k1 where a1: "alloc_vdir (re_fresh env) (si_rdblk ?sbi) (df_sizes file) ?mem = Some (r1, drop k1 ?mem)"
    "k1 \<le> 4" "case r1 of Inl err \<Rightarrow> err = - ENOMEM \<and> \<not> (list_all id ?mem \<and> 4 \<le> length ?mem)
       | Inr vd \<Rightarrow> empty_vdir vd \<and> vd_deblk_sz vd = deblk_sz_of (si_rdblk ?sbi) (df_sizes file)"
    using alloc_vdir_ok [OF sz, of "re_fresh env" ?mem] by blast
  show ?thesis
  proof (cases r1)
    case (Inl err)
    then have "au_vdir_init env file ds = Some (- ENOMEM, ds\<lparr>ds_mem := drop k1 ?mem\<rparr>)"
      using a1(1,3) none e12 by (simp add: au_vdir_init_def read_vdir_def)
    then show ?thesis using Inl a1(3) by auto
  next
    case (Inr vd0)
    have v0: "vdir_app vd0" "dir_des vd0 = []" "vd_deblk_sz vd0 = deblk_sz_of (si_rdblk ?sbi) (df_sizes file)"
      using a1(3) Inr by (simp_all add: empty_vdir_def)
    obtain err vd1 x1 k2 where r: "au_do_read_vdir env file vd0 ?x (drop k1 ?mem) = Some (err, vd1, x1, drop k2 (drop k1 ?mem))"
      "k2 \<le> 5 * ?n + 2" "list_all id (drop k1 ?mem) \<and> 5 * ?n + 2 \<le> length (drop k1 ?mem) \<longrightarrow> err = 0"
      "x_sbi x1 = ?sbi"
      "if err = 0 then read_ok F ?cs vd1 x1 \<and> vd_deblk_sz vd1 = vd_deblk_sz vd0 else err = - ENOMEM"
      using do_read_res [OF ok v0(1,2) room, of "drop k1 ?mem"] by blast
    let ?m2 = "drop k2 (drop k1 ?mem)"
    show ?thesis
    proof (cases "err = 0")
      case False
      then have "au_vdir_init env file ds = Some (err, ds\<lparr>ds_ivdir := None, ds_x := x1, ds_mem := ?m2\<rparr>)"
        using a1(1) Inr none r(1) by (simp add: au_vdir_init_def read_vdir_def)
      moreover have "\<not> (list_all id ?mem \<and> 6 * ?n + 12 \<le> length ?mem)"
        using r(3) False a1(2) list_all_id_drop [of ?mem k1] by auto
      ultimately show ?thesis using r(5) False by auto
    next
      case True
      have R: "vdir_app vd1" "xino_wf F x1" "list_all2 (stored x1) (dir_des vd1) (fst (merge ?cs ([], {})))"
        "vd_deblk_sz vd1 = vd_deblk_sz vd0" using r(5) True by (simp_all add: read_ok_def)
      let ?src = "vd1\<lparr>vd_version := ucast (ds_i_version ds), vd_ul := 0, vd_off := 0\<rparr>"
      let ?ds1 = "ds\<lparr>ds_ivdir := Some ?src, ds_x := x1, ds_mem := ?m2\<rparr>"
      have read: "read_vdir env file (ds_f_pos ds = 0) ds = Some (0, ?ds1)"
        using a1(1) Inr none r(1) True by (simp add: read_vdir_def)
      have dd: "vd_des ?src = vd_des vd1" by (simp add: vd_des_def)
      obtain r2 k3 where a2: "alloc_vdir (re_fresh env) (si_rdblk ?sbi) (df_sizes file) ?m2 = Some (r2, drop k3 ?m2)"
        "k3 \<le> 4" "case r2 of Inl err \<Rightarrow> err = - ENOMEM \<and> \<not> (list_all id ?m2 \<and> 4 \<le> length ?m2)
           | Inr vd \<Rightarrow> empty_vdir vd \<and> vd_deblk_sz vd = deblk_sz_of (si_rdblk ?sbi) (df_sizes file)"
        using alloc_vdir_ok [OF sz, of "re_fresh env" ?m2] by blast
      have mem: "list_all id ?m2 \<and> ?n + 6 \<le> length ?m2" if "list_all id ?mem" "6 * ?n + 12 \<le> length ?mem"
        using that a1(2) r(2) list_all_id_drop by auto
      show ?thesis
      proof (cases r2)
        case (Inl err)
        then have "au_vdir_init env file ds = Some (- ENOMEM, ?ds1\<lparr>ds_mem := drop k3 ?m2\<rparr>)"
          using a2(1,3) none read r(4) by (simp add: au_vdir_init_def)
        moreover have "\<not> (list_all id ?mem \<and> 6 * ?n + 12 \<le> length ?mem)" using a2(3) Inl mem by auto
        ultimately show ?thesis by (intro exI [of _ "- ENOMEM"]) auto
      next
        case (Inr tgt)
        then have tgt: "empty_vdir tgt" using a2(3) by simp
        have "vdir_full vd1" using R(1) by (simp add: vdir_app_def)
        then have shape: "vdir_shape ?src" unfolding vdir_shape_iff dd by (simp add: vdir_full_def)
        obtain err tgt' k4 where c: "copy_vdir (re_fresh env) tgt ?src (drop k3 ?m2) = Some (err, tgt', drop k4 (drop k3 ?m2))"
          "list_all id (drop k3 ?m2) \<and> length (vd_deblk ?src) + 1 \<le> length (drop k3 ?m2) \<longrightarrow> err = 0"
          "if err = 0 then vd_deblk tgt' = vd_deblk ?src \<and> vd_deblk_sz tgt' = vd_deblk_sz ?src \<and> vd_ul tgt' = 0
             \<and> vd_off tgt' = vd_off ?src \<and> vd_version tgt' = vd_version ?src else err = - ENOMEM"
          using copy_vdir_ok [OF tgt shape, of "re_fresh env" "drop k3 ?m2"] by blast
        let ?ds2 = "?ds1\<lparr>ds_mem := drop k4 (drop k3 ?m2)\<rparr>"
        have run: "au_vdir_init env file ds = Some (if err = 0
            then (0, ?ds2\<lparr>ds_f_version := ds_i_version ds, ds_fvdir := Some tgt'\<rparr>)
            else (err, ?ds2\<lparr>ds_fvdir := None\<rparr>))"
          using a2(1) Inr none read r(4) c(1) by (simp add: au_vdir_init_def)
        have blks: "length (vd_deblk vd1) \<le> ?n + 1"
        proof -
          have "length (vd_deblk vd1) \<le> length (dir_des vd1) + 1"
            using blocks_bound [of "vd_des vd1"] shape by (simp add: dir_des_def vdir_shape_iff dd)
          moreover have "length (fst (merge ?cs ([], {}))) \<le> ?n" using merge_length [of ?cs "([], {})"] by simp
          ultimately show ?thesis using list_all2_lengthD [OF R(3)] by simp
        qed
        have enough: "list_all id ?mem \<and> 6 * ?n + 12 \<le> length ?mem \<longrightarrow> err = 0"
        proof
          assume "list_all id ?mem \<and> 6 * ?n + 12 \<le> length ?mem"
          then have "list_all id (drop k3 ?m2) \<and> length (vd_deblk ?src) + 1 \<le> length (drop k3 ?m2)"
            using a1(2) r(2) a2(2) blks list_all_id_drop by auto
          with c(2) show "err = 0" by blast
        qed
        show ?thesis
        proof (cases "err = 0")
          case True
          have t: "vd_deblk tgt' = vd_deblk vd1" "vd_deblk_sz tgt' = vd_deblk_sz vd1" "vd_ul tgt' = 0" "vd_off tgt' = 0"
            using c(3) True by simp_all
          have "vd_des tgt' = vd_des vd1" using t(1,2) by (rule vd_des_cong)
          then have "dir_des tgt' = dir_des vd1" "vdir_shape tgt'"
            using shape t(1,2) by (simp_all add: dir_des_def vdir_shape_iff dd)
          then show ?thesis using run True R t v0(3)
            by (intro exI [of _ 0]) auto
        next
          case False
          then show ?thesis using run enough c(3) by auto
        qed
      qed
    qed
  qed
qed

section \<open>Properties\<close>

text \<open>
  C20: the first \<open>readdir\<close> of an open directory. \<open>au_vdir_init\<close> reads and copies the union of the
  branches; it fails only for want of memory. Then \<open>au_vdir_fill_de\<close> from position 0 hands the
  consumer the entries of the union in the order of the branches, each name once, until the
  consumer stops, and a later call goes on from there.
\<close>

theorem au_vdir_init_first_read:
  assumes "file_ok F (re_cfg env) file (ds_x ds)" and "ds_ivdir ds = None" and "ds_fvdir ds = None"
    and "calc_size 255 \<le> unat (deblk_sz_of (si_rdblk (x_sbi (ds_x ds))) (df_sizes file))"
    and "length (si_xib (ds_x ds)) + length (file_des file (x_sbi (ds_x ds))) \<le> 131071"
    and "(length (file_des file (x_sbi (ds_x ds))) + 1)
           * unat (deblk_sz_of (si_rdblk (x_sbi (ds_x ds))) (df_sizes file)) < 2 ^ 32"
  shows "\<exists>err ds'. au_vdir_init env file ds = Some (err, ds')
    \<and> (list_all id (ds_mem ds) \<and> 6 * length (file_des file (x_sbi (ds_x ds))) + 12 \<le> length (ds_mem ds) \<longrightarrow> err = 0)
    \<and> (if err = 0
       then \<exists>vd es. ds_fvdir ds' = Some vd \<and> set es = {e. shown (file_des file (x_sbi (ds_x ds))) e}
         \<and> distinct (map src_name es) \<and> list_all2 (stored (ds_x ds')) (dir_des vd) es
         \<and> (\<forall>f s. \<exists>vd' pos. au_vdir_fill_de (no_pos f) vd 0 s = Some (vd', pos, snd (feed f (dir_des vd) s))
              \<and> reads vd' pos (fst (feed f (dir_des vd) s)))
       else err = - ENOMEM)"
proof -
  let ?cs = "file_des file (x_sbi (ds_x ds))"
  let ?sz = "deblk_sz_of (si_rdblk (x_sbi (ds_x ds))) (df_sizes file)"
  obtain err ds' where r: "au_vdir_init env file ds = Some (err, ds')"
    "list_all id (ds_mem ds) \<and> 6 * length ?cs + 12 \<le> length (ds_mem ds) \<longrightarrow> err = 0"
    "if err = 0 then \<exists>vd. ds_fvdir ds' = Some vd \<and> vdir_shape vd \<and> vd_ul vd = 0 \<and> vd_off vd = 0
        \<and> list_all2 (stored (ds_x ds')) (dir_des vd) (fst (merge ?cs ([], {})))
        \<and> xino_wf F (ds_x ds') \<and> vd_deblk_sz vd = ?sz else err = - ENOMEM"
    using first_read [OF assms(1-5)] by (elim exE conjE) (rule that; assumption)
  show ?thesis
  proof (cases "err = 0")
    case False
    then show ?thesis using r by (intro exI [of _ err] exI [of _ ds'] conjI) simp_all
  next
    case True
    then obtain vd where vd: "ds_fvdir ds' = Some vd" "vdir_shape vd" "vd_ul vd = 0" "vd_off vd = 0"
      "list_all2 (stored (ds_x ds')) (dir_des vd) (fst (merge ?cs ([], {})))" "vd_deblk_sz vd = ?sz"
      using r(3) unfolding True if_P [OF refl] by blast
    have "length (dir_des vd) \<le> length ?cs"
      using list_all2_lengthD [OF vd(5)] merge_length [of ?cs "([], {})"] by simp
    then have "(length (dir_des vd) + 1) * unat (vd_deblk_sz vd) \<le> (length ?cs + 1) * unat ?sz"
      unfolding vd(6) by (intro mult_le_mono1) simp
    then have "(length (dir_des vd) + 1) * unat (vd_deblk_sz vd) < 2 ^ 32" using assms(6) by (rule le_less_trans)
    note fr = full_readable [OF vd(2-4) this]
    have fill: "\<exists>vd' pos. au_vdir_fill_de (no_pos f) vd 0 s = Some (vd', pos, snd (feed f (dir_des vd) s))
              \<and> reads vd' pos (fst (feed f (dir_des vd) s))" for f and s
      using fill_de_reads [OF fr, of f s] by (elim exE conjE) (intro exI conjI)
    have "\<exists>vd es. ds_fvdir ds' = Some vd \<and> set es = {e. shown ?cs e}
         \<and> distinct (map src_name es) \<and> list_all2 (stored (ds_x ds')) (dir_des vd) es
         \<and> (\<forall>f s. \<exists>vd' pos. au_vdir_fill_de (no_pos f) vd 0 s = Some (vd', pos, snd (feed f (dir_des vd) s))
              \<and> reads vd' pos (fst (feed f (dir_des vd) s)))"
      by (intro exI [of _ vd] exI [of _ "fst (merge ?cs ([], {}))"] conjI allI fill)
        (use vd merge_shown [of ?cs] in simp_all)
    then show ?thesis using r(1,2) True by (intro exI [of _ err] exI [of _ ds'] conjI) simp_all
  qed
qed

definition example_dir_state :: dir_state where
  "example_dir_state = \<lparr>ds_ivdir = None, ds_i_version = 3, ds_f_pos = 0, ds_f_version = 0, ds_fvdir = None,
     ds_x = example_union, ds_mem = replicate 42 True\<rparr>"

theorem au_vdir_init_first_read_witness:
  "\<exists>ds' vd es. au_vdir_init example_read_env example_file example_dir_state = Some (0, ds')
    \<and> ds_fvdir ds' = Some vd \<and> set es = {e. shown (file_des example_file (x_sbi example_union)) e}
    \<and> list_all2 (stored (ds_x ds')) (dir_des vd) es"
proof -
  have rd: "si_rdblk (x_sbi (ds_x example_dir_state)) = 512"
    by (simp add: example_dir_state_def example_union_def)
  have x: "ds_x example_dir_state = example_union" by (simp add: example_dir_state_def)
  have ok: "file_ok {7, 8} (re_cfg example_read_env) example_file (ds_x example_dir_state)"
    using example_file_ok by (simp add: example_read_env_def x)
  have sz: "deblk_sz_of (si_rdblk (x_sbi (ds_x example_dir_state))) (df_sizes example_file) = 512"
    by (simp add: deblk_sz_of_def rd)
  have len: "length (file_des example_file (x_sbi (ds_x example_dir_state))) = 5"
    unfolding x example_file_des by simp
  have "length (si_xib (ds_x example_dir_state)) = 2" by (simp add: x example_union_def example_xino_def)
  then show ?thesis
    using au_vdir_init_first_read [OF ok] sz len
    by (auto simp: example_dir_state_def calc_size_def list_all_length)
qed

text \<open>
  The label \<open>out\<close> of \<open>copy_vdir\<close> after a failed \<open>krealloc\<close> of the first block leaves the
  new block size with the old, smaller block: the next \<open>copy_vdir\<close> to the same cache writes
  behind the block.
\<close>

theorem copy_vdir_enomem_overflow:
  assumes "empty_vdir tgt" and "vdir_shape src" and "length (vd_deblk src) = 1"
    and "unat (vd_deblk_sz tgt) < unat (vd_deblk_sz src)"
  shows "\<exists>tgt'. copy_vdir fresh tgt src [False] = Some (- ENOMEM, tgt', []) \<and> copy_vdir fresh tgt' src mem = None"
proof -
  obtain t0 where t0: "vd_deblk tgt = [t0]" using assms(1) by (auto simp: empty_vdir_def length_Suc_conv)
  obtain s0 where s0: "vd_deblk src = [s0]" using assms(3) by (auto simp: length_Suc_conv)
  have lt: "length t0 = unat (vd_deblk_sz tgt)" "8 \<le> length t0"
    using assms(1) t0 calc_size_bounds(3) [of 255]
    by (auto simp: empty_vdir_def vdir_app_def vdir_full_def deblk_wf_def)
  have ls: "length s0 = unat (vd_deblk_sz src)" "8 \<le> length s0"
    using assms(2) s0 calc_size_bounds(3) [of 255] by (auto simp: vdir_shape_iff deblk_wf_def)
  have ne: "vd_deblk_sz tgt \<noteq> vd_deblk_sz src" using assms(4) by auto
  obtain t1 where t1: "put_bytes t0 5 [0] = Some t1" using put_bytes_ok [of 5 "[0]" t0] lt by auto
  have l1: "length t1 = length t0" by (rule put_bytes_Some(2) [OF t1])
  let ?t = "tgt\<lparr>vd_deblk_sz := vd_deblk_sz src, vd_deblk := [t1], vd_ul := 0, vd_off := 0, vd_version := 0, vd_jiffy := 0\<rparr>"
  have "copy_vdir fresh tgt src [False] = Some (- ENOMEM, ?t, [])"
    using t0 s0 ne t1 ls
    by (simp add: copy_vdir_def Let_def copy_fail_def reinit_vdir_def set_deblk_end_def room_left_def calc_size_0)
  moreover have "copy_vdir fresh ?t src mem = None"
    using s0 ls l1 lt(1) assms(4) by (simp add: copy_vdir_def Let_def get_bytes_def put_bytes_def)
  ultimately show ?thesis by blast
qed

lemma fresh_empty: "empty_vdir fresh_vdir"
proof -
  have "dir_des fresh_vdir = []" using fresh_vdir_app(2)
    by (simp add: delist_wf_def fresh_delist_def nhash_names_def)
  then show ?thesis using fresh_vdir_app(1) by (simp add: empty_vdir_def) (simp add: fresh_vdir_def)
qed

theorem copy_vdir_enomem_overflow_witness:
  "\<exists>src tgt'. vd_deblk_sz src = 512 \<and> copy_vdir (\<lambda>i. 0) fresh_vdir src [False] = Some (- ENOMEM, tgt', [])
    \<and> copy_vdir (\<lambda>i. 0) tgt' src [] = None"
proof -
  have "calc_size 255 \<le> unat (deblk_sz_of 512 [])" by (simp add: deblk_sz_of_def calc_size_def)
  from alloc_vdir_ok [OF this, of "\<lambda>i. 0" "[True, True, True, True]"]
  obtain r where r: "case r of Inl err \<Rightarrow> err = - ENOMEM \<and> \<not> (list_all id [True, True, True, True] \<and> 4 \<le> length [True, True, True, True])
      | Inr vd \<Rightarrow> empty_vdir vd \<and> vd_deblk_sz vd = deblk_sz_of 512 []" by blast
  obtain src where "r = Inr src" using r by (cases r) auto
  then have s: "empty_vdir src" "vd_deblk_sz src = 512" using r by (simp_all add: deblk_sz_of_def)
  have "vd_des (src\<lparr>vd_ul := x\<rparr>) = vd_des src" for x by (simp add: vd_des_def)
  then have "vdir_shape src" using s(1) by (simp add: vdir_shape_iff empty_vdir_def vdir_app_def vdir_full_def)
  moreover have "length (vd_deblk src) = 1" using s(1) by (simp add: empty_vdir_def)
  moreover have "unat (vd_deblk_sz fresh_vdir) < unat (vd_deblk_sz src)" by (simp add: s(2)) (simp add: fresh_vdir_def)
  ultimately show ?thesis using copy_vdir_enomem_overflow [OF fresh_empty, of src "\<lambda>i. 0" "[]"] s(2) by blast
qed

end
