(* ===== verification/Vdir_Faults.thy ===== *)
theory Vdir_Faults
  imports Vdir_Cache
begin

text \<open>
  Two defects of \<open>vdir.c\<close>: the default block size can be smaller than an entry, and an error
  while the whiteouts are shown can get lost.
\<close>

section \<open>A block that is smaller than an entry\<close>

text \<open>
  C25: the size that \<open>au_dir_size\<close> proposes for the blocks can be 256, less than the 260 bytes of
  an entry with a name of 251 bytes or more; \<open>append_de\<close> into a new block of this size then
  writes behind the block.
\<close>

theorem append_de_default_overflow:
  assumes "au_dir_size sizes = 256" and "alloc_vdir fresh 0 sizes mem = Some (Inr vd, mem')"
    and "nhash_wf key delist" and "251 \<le> length name" and "length name < 256"
    and "list_all id mem'" and "3 \<le> length mem'"
  shows "append_de fresh vd name ino ty delist mem' = None"
proof -
  obtain x1 x2 x3 rest where mem': "mem' = x1 # x2 # x3 # rest"
    using assms(7) by (cases mem'; cases "tl mem'"; cases "tl (tl mem')") auto
  then have ok: "mem' = True # True # True # rest" using assms(6) by simp
  have u: "unat (256 :: u32) = 256" by simp
  obtain blk where blk: "set_deblk_end 256 (map fresh [0..<256]) 0 = Some (0, blk)" "deblk_wf 256 blk"
    "block_des 256 blk = []" using new_block [of 256 fresh] by auto
  let ?vd = "\<lparr>vd_deblk = [blk], vd_ul = 0, vd_off = 0, vd_version = 0, vd_deblk_sz = 256, vd_jiffy = 0\<rparr>"
  have vd: "vd = ?vd"
    using assms(1,2) blk(1) by (auto simp: alloc_vdir_def append_deblk_def Let_def split: prod.splits if_splits)
  note w = deblk_wf_walk [OF blk(2)]
  have e: "is_deblk_end 256 blk 0 = Some True" using w(2) blk(3) block_walk_Nil by fastforce
  have room: "256 < calc_size (length name)" using assms(4) by (simp add: calc_size_def)
  let ?vd2 = "?vd\<lparr>vd_deblk := [blk, blk], vd_ul := 1, vd_off := 0\<rparr>"
  have new: "append_deblk fresh ?vd mem' = Some (0, ?vd2, True # rest)"
    using ok blk(1) by (simp add: append_deblk_def)
  have len: "length blk = 256" using w(1) by simp
  have "put_de blk 0 ino ty name = None"
    using len assms(4) by (auto simp: put_de_def bind_eq_None_conv put_bytes_def split: if_splits)
  then have "append_de_here fresh ?vd2 name ino ty delist (True # rest) = None"
    by (simp add: append_de_here_def Let_def bind_eq_None_conv)
  then show ?thesis using vd e room new by (simp add: append_de_def room_left_def)
qed

lemma alloc_256:
  assumes "au_dir_size sizes = 256"
  shows "\<exists>vd. alloc_vdir fresh 0 sizes (True # True # True # True # mem) = Some (Inr vd, mem)"
proof -
  obtain blk where "set_deblk_end 256 (map fresh [0..<unat (256 :: u32)]) 0 = Some (0, blk)"
    using new_block [of 256 fresh] by auto
  then show ?thesis using assms by (simp add: alloc_vdir_def append_deblk_def)
qed

theorem append_de_default_overflow_witness:
  "\<exists>vd mem'. alloc_vdir (\<lambda>i. 0) 0 [140, 60] (replicate 7 True) = Some (Inr vd, mem')
    \<and> append_de (\<lambda>i. 0) vd (replicate 255 97) 11 8 fresh_delist mem' = None"
proof -
  have sz: "au_dir_size [140, 60] = 256"
    by (simp add: au_dir_size_def KMALLOC_MAX_SIZE_def roundup_pow_of_two_def NAME_MAX_def numeral_nat)
  obtain vd where v: "alloc_vdir (\<lambda>i. 0) 0 [140, 60] (replicate 7 True) = Some (Inr vd, replicate 3 True)"
    using alloc_256 [OF sz, of "\<lambda>i. 0" "replicate 3 True"] by (auto simp: eval_nat_numeral)
  have "nhash_wf (de_key fresh_vdir) fresh_delist" using fresh_vdir_app(2) by (simp add: delist_wf_def)
  from append_de_default_overflow [OF sz v this, of "replicate 255 97" 11 8] v show ?thesis
    by (auto simp: list_all_length)
qed

section \<open>A lost error\<close>

lemma append_de_nomem:
  assumes app: "vdir_app vd"
  shows "append_de fresh vd name ino ty delist (False # mem) = Some (- ENOMEM, vd, delist, mem)"
proof -
  have full: "vdir_full vd" and off: "vd_off vd = size_des (last (vd_des vd))" "vd_off vd < unat (vd_deblk_sz vd)"
    using app by (auto simp: vdir_app_def)
  have v: "vd_deblk vd \<noteq> []" "vd_ul vd = length (vd_deblk vd) - 1" using full by (auto simp: vdir_full_def)
  note lw = last_walk [OF full]
  have "block_walk (vd_deblk_sz vd) (last (vd_deblk vd)) (vd_off vd) = Some ([], vd_off vd)"
    using block_walk_append [of "vd_deblk_sz vd" "last (vd_deblk vd)" 0 "last (vd_des vd)" "[]"] lw(2) off(1)
      v(1,2) by (simp add: last_conv_nth)
  then have "is_deblk_end (vd_deblk_sz vd) (last (vd_deblk vd)) (vd_off vd) = Some True"
    using block_walk_Nil by blast
  then show ?thesis using v off(2)
    by (simp add: append_de_def append_deblk_def append_de_here_def split: prod.splits)
qed

text \<open>
  \<open>au_handle_shwh\<close> leaves only the inner loop when an entry cannot be appended: if the next
  bucket of the table has a whiteout that can, the result is success and the whiteout is missing
  from the directory.
\<close>

theorem au_handle_shwh_lost_error:
  assumes "cfg_shwh (re_cfg env)" and "vdir_app (fa_vdir a)" and "delist_wf (fa_vdir a) (fa_delist a)"
    and "nh_num (fa_whlist a) = 2" and "nh_head (fa_whlist a) = [[w1], [w2]]"
    and "unat (wh_len w2) < 252" and "fa_mem a = [True, False, True, True, True, True, True]"
  shows "\<exists>a'. au_handle_shwh env a = Some (0, a')
    \<and> dir_des (fa_vdir a') = dir_des (fa_vdir a)
        @ [\<lparr>de_ino = wh_ino w2, de_type = wh_type w2, de_name = AUFS_WH_PFX @ take (unat (wh_len w2)) (wh_name w2)\<rparr>]"
proof -
  let ?n1 = "AUFS_WH_PFX @ take (unat (wh_len w1)) (wh_name w1)"
  let ?n2 = "AUFS_WH_PFX @ take (unat (wh_len w2)) (wh_name w2)"
  let ?mem = "[True, True, True, True, True]"
  have one: "append_de (re_fresh env) (fa_vdir a) ?n1 (wh_ino w1) (wh_type w1) (fa_delist a) (False # ?mem)
      = Some (- ENOMEM, fa_vdir a, fa_delist a, ?mem)"
    by (rule append_de_nomem [OF assms(2)])
  have n2: "?n2 \<noteq> []" "length ?n2 < 256" using assms(6) by (auto simp: AUFS_WH_PFX_def)
  obtain err vd' de' mem' k where two: "append_de (re_fresh env) (fa_vdir a) ?n2 (wh_ino w2) (wh_type w2) (fa_delist a) ?mem
      = Some (err, vd', de', mem')" "list_all id ?mem \<and> 5 \<le> length ?mem \<longrightarrow> err = 0"
    "if err = 0 then appended (fa_vdir a) \<lparr>de_ino = wh_ino w2, de_type = wh_type w2, de_name = ?n2\<rparr> vd' de' else err = - ENOMEM"
    using append_de_ok [OF assms(2,3) n2, of "re_fresh env" "wh_ino w2" "wh_type w2" ?mem] by blast
  have err: "err = 0" using two(2) by simp
  have "au_handle_shwh env a = Some (0, a\<lparr>fa_vdir := vd', fa_delist := de', fa_mem := mem'\<rparr>)"
    using assms(1,4,5,7) one two(1) err by (simp add: au_handle_shwh_def)
  moreover have "dir_des vd' = dir_des (fa_vdir a) @ [\<lparr>de_ino = wh_ino w2, de_type = wh_type w2, de_name = ?n2\<rparr>]"
    using two(3) err by (simp add: appended_def)
  ultimately show ?thesis by (intro exI [of _ "a\<lparr>fa_vdir := vd', fa_delist := de', fa_mem := mem'\<rparr>"]) simp
qed

definition example_shwh :: fillvdir_arg where
  "example_shwh =
     \<lparr>fa_vdir = fresh_vdir, fa_delist = fresh_delist,
      fa_whlist = \<lparr>nh_num = 2,
        nh_head = [[\<lparr>wh_ino = 20, wh_bindex = 0, wh_type = 8, wh_len = 1, wh_name = [98]\<rparr>],
                   [\<lparr>wh_ino = 21, wh_bindex = 0, wh_type = 8, wh_len = 1, wh_name = [97]\<rparr>]]\<rparr>,
      fa_called = False, fa_err = 0, fa_x = example_xino, fa_mem = [True, False, True, True, True, True, True]\<rparr>"

theorem au_handle_shwh_lost_error_witness:
  "\<exists>a'. au_handle_shwh example_read_env example_shwh = Some (0, a')
    \<and> dir_des (fa_vdir a') = dir_des fresh_vdir @ [\<lparr>de_ino = 21, de_type = 8, de_name = [46, 119, 104, 46, 97]\<rparr>]"
  using au_handle_shwh_lost_error [of example_read_env example_shwh] fresh_vdir_app
  by (simp add: example_shwh_def example_read_env_def full_config_def kconfig_of_def AUFS_WH_PFX_def)

end
