(* ===== verification/Dir_Empty.thy ===== *)
theory Dir_Empty
  imports Vdir_Read Dinfo
begin

text \<open>
  Whether a merged directory is empty (\<open>au_test_empty\<close> and \<open>au_test_empty_lower\<close> of \<open>dir.c\<close>),
  which \<open>rmdir\<close> and \<open>rename\<close> ask: the entries of the lower directories are filtered through a
  table of whiteouts, as \<open>readdir\<close> does, but by a callback of its own. The properties compare the
  answer with what \<open>readdir\<close> shows.
\<close>

section \<open>The callback\<close>

text \<open>
  The state behind \<open>struct test_empty_arg\<close>. The flags \<open>WHONLY\<close> and \<open>SHWH\<close> are parameters, the
  latter has the value 0 without \<open>CONFIG_AUFS_SHWH\<close>.
\<close>

record test_empty_arg =
  te_whlist :: "au_vdir_wh au_nhash"
  te_called :: bool
  te_err :: int
  te_mem :: mem_oracle

definition dot_name :: "u8 list \<Rightarrow> bool" where
  "dot_name name \<longleftrightarrow> name = [46] \<or> name = [46, 46]"

definition test_empty_cb ::
    "bool \<Rightarrow> bool \<Rightarrow> bool \<Rightarrow> bindex \<Rightarrow> raw_de \<Rightarrow> test_empty_arg \<Rightarrow> test_empty_arg option" where
  "test_empty_cb cfg shwh whonly b raw a0 =
     (case raw of (name, ino, ty) \<Rightarrow>
      let a = a0\<lparr>te_err := 0, te_called := True\<rparr>
      in if dot_name name then Some a
         else if \<not> wh_prefixed name
         then (if whonly
               then map_option (\<lambda>known. if known then a else a\<lparr>te_err := - ENOTEMPTY\<rparr>)
                      (au_nhash_test_known_wh (te_whlist a) name)
               else Some a)
         else
           let name = drop 4 name
           in Option.bind (au_nhash_test_known_wh (te_whlist a) name) (\<lambda>known.
              if known then Some a
              else map_option (\<lambda>(err, wh, mem). a\<lparr>te_err := err, te_whlist := wh, te_mem := mem\<rparr>)
                     (au_nhash_append_wh cfg (te_whlist a) name (ucast ino) ty b (shwh \<and> cfg) (te_mem a))))"

section \<open>One lower directory\<close>

fun test_batch :: "bool \<Rightarrow> bool \<Rightarrow> bool \<Rightarrow> bindex \<Rightarrow> raw_de list \<Rightarrow> test_empty_arg \<Rightarrow> test_empty_arg option" where
  "test_batch cfg shwh whonly b [] a = Some a"
| "test_batch cfg shwh whonly b (e # es) a =
     Option.bind (test_empty_cb cfg shwh whonly b e a) (\<lambda>a'.
     if te_err a' \<noteq> 0 then Some a' else test_batch cfg shwh whonly b es a')"

text \<open>The \<open>do while\<close> loop; a call after the last delivers nothing.\<close>

fun test_calls :: "bool \<Rightarrow> bool \<Rightarrow> bool \<Rightarrow> bindex \<Rightarrow> (raw_de list \<times> int) list \<Rightarrow> test_empty_arg
    \<Rightarrow> (int \<times> test_empty_arg) option" where
  "test_calls cfg shwh whonly b [] a = Some (0, a\<lparr>te_err := 0, te_called := False\<rparr>)"
| "test_calls cfg shwh whonly b ((es, r) # cs) a =
     Option.bind (test_batch cfg shwh whonly b es (a\<lparr>te_err := 0, te_called := False\<rparr>)) (\<lambda>a'.
     let err = (if 0 \<le> r then te_err a' else r)
     in if err = 0 \<and> te_called a' then test_calls cfg shwh whonly b cs a' else Some (err, a'))"

text \<open>
  What the kernel answers for the lower directory of a branch: \<open>au_h_open\<close> (0 or the error), the
  link count, the permission test, the result of \<open>au_wkq_wait\<close>; and the lower directory itself, if
  there is one.
\<close>

record test_env =
  tv_open :: "bindex \<Rightarrow> int"
  tv_nlink :: "bindex \<Rightarrow> u32"
  tv_perm :: "bindex \<Rightarrow> int"
  tv_wkq :: "bindex \<Rightarrow> int"
  tv_dirs :: "bindex \<Rightarrow> ldir option"

definition do_test_empty :: "kconfig \<Rightarrow> au_sbinfo \<Rightarrow> test_env \<Rightarrow> bool \<Rightarrow> bool \<Rightarrow> bindex \<Rightarrow> test_empty_arg
    \<Rightarrow> (int \<times> test_empty_arg) option" where
  "do_test_empty cfg sbi tv shwh whonly b a =
     (if tv_open tv b \<noteq> 0 then Some (tv_open tv b, a)
      else if \<not> au_opt_test (au_mntflags sbi) AuOpt_UDBA_NONE \<and> tv_nlink tv b = 0 then Some (0, a)
      else Option.bind (tv_dirs tv b) (\<lambda>d. test_calls (cfg_shwh cfg) shwh whonly b (ld_calls d) a))"

text \<open>Through the work queue when the caller has no permission; the flags are those of before.\<close>

definition sio_test_empty :: "kconfig \<Rightarrow> au_sbinfo \<Rightarrow> test_env \<Rightarrow> bool \<Rightarrow> bool \<Rightarrow> bindex \<Rightarrow> test_empty_arg
    \<Rightarrow> (int \<times> test_empty_arg) option" where
  "sio_test_empty cfg sbi tv shwh whonly b a =
     (if tv_perm tv b = 0 then do_test_empty cfg sbi tv shwh whonly b a
      else if tv_wkq tv b \<noteq> 0 then Some (tv_wkq tv b, a)
      else map_option (\<lambda>(err, a'). (err, a'\<lparr>te_called := te_called a\<rparr>))
             (do_test_empty cfg sbi tv shwh whonly b a))"

section \<open>The branches\<close>

text \<open>The loop of both functions below; \<open>test\<close> is the test of one branch.\<close>

fun test_branches :: "(bindex \<Rightarrow> test_empty_arg \<Rightarrow> (int \<times> test_empty_arg) option) \<Rightarrow> test_env \<Rightarrow> bindex list
    \<Rightarrow> test_empty_arg \<Rightarrow> (int \<times> test_empty_arg) option" where
  "test_branches test tv [] a = Some (0, a)"
| "test_branches test tv (b # bs) a =
     (if tv_dirs tv b = None then test_branches test tv bs a
      else Option.bind (test b a) (\<lambda>(err, a').
           if err \<noteq> 0 then Some (err, a') else test_branches test tv bs a'))"

definition au_test_empty :: "kconfig \<Rightarrow> au_sbinfo \<Rightarrow> au_dinfo \<Rightarrow> test_env \<Rightarrow> au_vdir_wh au_nhash \<Rightarrow> mem_oracle
    \<Rightarrow> (int \<times> au_vdir_wh au_nhash \<times> mem_oracle) option" where
  "au_test_empty cfg sbi di tv whlist mem =
     (let shwh = au_opt_test (au_mntflags sbi) (AuOpt_SHWH cfg)
      in map_option (\<lambda>(err, a). (err, te_whlist a, te_mem a))
           (test_branches (sio_test_empty cfg sbi tv shwh True) tv [au_dbstart di..au_dbtaildir di]
              \<lparr>te_whlist = whlist, te_called = False, te_err = 0, te_mem = mem\<rparr>))"

text \<open>
  \<open>au_test_empty_lower\<close> collects the whiteouts of the first branch and tests the others. A
  missing first directory is the fault. \<open>sizes\<close> are those of the lower directories.
\<close>

definition au_test_empty_lower :: "kconfig \<Rightarrow> au_sbinfo \<Rightarrow> au_dinfo \<Rightarrow> test_env \<Rightarrow> int list \<Rightarrow> mem_oracle
    \<Rightarrow> (int \<times> mem_oracle) option" where
  "au_test_empty_lower cfg sbi di tv sizes mem =
     (let rdhash = (if si_rdhash sbi = 0 then au_rdhash_est (au_dir_size sizes) else si_rdhash sbi);
          shwh = au_opt_test (au_mntflags sbi) (AuOpt_SHWH cfg);
          test = (if au_opt_test (au_mntflags sbi) AuOpt_DIRPERM1 then sio_test_empty else do_test_empty)
      in Option.bind (au_nhash_alloc rdhash mem) (\<lambda>(err, whlist, mem1).
         case whlist of
           None \<Rightarrow> Some (err, mem1)
         | Some wh \<Rightarrow>
             Option.bind (test cfg sbi tv shwh False (au_dbstart di)
                 \<lparr>te_whlist = wh, te_called = False, te_err = 0, te_mem = mem1\<rparr>) (\<lambda>(err, a).
             if err \<noteq> 0 then Some (err, te_mem a)
             else map_option (\<lambda>(err, a). (err, te_mem a))
                    (test_branches (test cfg sbi tv shwh True) tv [au_dbstart di + 1..au_dbtaildir di] a))))"

section \<open>The abstract test\<close>

text \<open>
  One entry in closed form: the whiteouted names after it, or that it makes the directory
  non-empty (\<open>None\<close>).
\<close>

definition te1 :: "bool \<Rightarrow> raw_de \<Rightarrow> u8 list set \<Rightarrow> u8 list set option" where
  "te1 whonly e ws =
     (if dot_name (fst e) then Some ws
      else if \<not> wh_prefixed (fst e) then (if whonly \<and> fst e \<notin> ws then None else Some ws)
      else Some (insert (drop 4 (fst e)) ws))"

fun te_all :: "bool \<Rightarrow> raw_de list \<Rightarrow> u8 list set \<Rightarrow> u8 list set option" where
  "te_all whonly [] ws = Some ws"
| "te_all whonly (e # es) ws = Option.bind (te1 whonly e ws) (te_all whonly es)"

lemma te_all_append: "te_all w (es @ fs) ws = Option.bind (te_all w es ws) (te_all w fs)"
  by (induction es arbitrary: ws) (auto split: bind_splits)

text \<open>At most \<open>n\<close> allocations; only a failed one is an error other than \<open>ENOTEMPTY\<close>.\<close>

definition te_res :: "nat \<Rightarrow> test_empty_arg \<Rightarrow> int \<Rightarrow> u8 list set option \<Rightarrow> test_empty_arg \<Rightarrow> bool" where
  "te_res n a err st a' \<longleftrightarrow> wh_wf (te_whlist a') \<and> (\<exists>k \<le> n. te_mem a' = drop k (te_mem a))
     \<and> (err = - ENOMEM \<or> (err = - ENOTEMPTY \<and> st = None)
        \<or> (err = 0 \<and> st = Some (nhash_names wh_name (te_whlist a'))))
     \<and> (list_all id (te_mem a) \<and> n \<le> length (te_mem a) \<longrightarrow> err \<noteq> - ENOMEM)"

lemma te_res_trans:
  assumes r1: "te_res n a 0 st a1"
    and r2: "te_res m a1 err (te_all w es (nhash_names wh_name (te_whlist a1))) a2"
  shows "te_res (n + m) a err (Option.bind st (te_all w es)) a2"
proof -
  obtain k where k: "k \<le> n" "te_mem a1 = drop k (te_mem a)" using r1 by (auto simp: te_res_def)
  obtain l where l: "l \<le> m" "te_mem a2 = drop l (te_mem a1)" using r2 by (auto simp: te_res_def)
  have "\<exists>k \<le> n + m. te_mem a2 = drop k (te_mem a)" using k l by (intro exI [of _ "l + k"]) simp
  moreover have "list_all id (te_mem a) \<and> n + m \<le> length (te_mem a) \<longrightarrow> err \<noteq> - ENOMEM"
    using r2 k by (auto simp: te_res_def list_all_iff dest: in_set_dropD)
  moreover have "st = Some (nhash_names wh_name (te_whlist a1))" using r1 by (simp add: te_res_def)
  ultimately show ?thesis using r2 by (simp add: te_res_def)
qed

lemma te_res_stop:
  assumes "te_res n a err st a'" and "err \<noteq> 0" and "n \<le> m"
  shows "te_res m a err (Option.bind st f) a'"
proof -
  obtain k where k: "k \<le> n" "te_mem a' = drop k (te_mem a)" using assms(1) by (auto simp: te_res_def)
  have "\<exists>k \<le> m. te_mem a' = drop k (te_mem a)" using k assms(3) by (intro exI [of _ k]) simp
  then show ?thesis using assms by (auto simp: te_res_def)
qed

lemma te_res_weaken:
  assumes "te_res n a err st a'" and "n \<le> m"
  shows "te_res m a err st a'"
proof -
  obtain k where k: "k \<le> n" "te_mem a' = drop k (te_mem a)" using assms(1) by (auto simp: te_res_def)
  have "\<exists>k \<le> m. te_mem a' = drop k (te_mem a)" using k assms(2) by (intro exI [of _ k]) simp
  then show ?thesis using assms by (auto simp: te_res_def)
qed

lemma te_res_flags [simp]:
  "te_res n (a\<lparr>te_err := e, te_called := c\<rparr>) err st a' = te_res n a err st a'"
  "te_res n a err st (a'\<lparr>te_err := e, te_called := c\<rparr>) = te_res n a err st a'"
  "te_res n a err st (a'\<lparr>te_called := c\<rparr>) = te_res n a err st a'"
  by (simp_all add: te_res_def)

lemma cb_res:
  assumes wf: "wh_wf (te_whlist a)" and n: "length (fst raw) < 256"
  shows "\<exists>a'. test_empty_cb cfg shwh whonly b raw a = Some a' \<and> te_called a'
    \<and> te_res 1 a (te_err a') (te1 whonly raw (nhash_names wh_name (te_whlist a))) a'"
proof -
  obtain name ino ty where raw: "raw = (name, ino, ty)" by (cases raw) auto
  let ?a = "a\<lparr>te_err := 0, te_called := True\<rparr>"
  have known: "au_nhash_test_known_wh (te_whlist a) x = Some (x \<in> nhash_names wh_name (te_whlist a))" for x
    by (rule known_wh_ok [OF wf])
  have same: "te_res 1 a 0 (Some (nhash_names wh_name (te_whlist a))) ?a"
    using wf by (auto simp: te_res_def intro: exI [of _ 0])
  have ne: "te_res 1 a (- ENOTEMPTY) None (?a\<lparr>te_err := - ENOTEMPTY\<rparr>)"
    using wf by (auto simp: te_res_def intro: exI [of _ 0])
  note def = test_empty_cb_def raw Let_def prod.case te1_def
  show ?thesis
  proof (cases "dot_name name \<or> \<not> wh_prefixed name")
    case True
    then show ?thesis using same ne known by (cases "name \<in> nhash_names wh_name (te_whlist a)") (auto simp: def)
  next
    case False
    let ?n = "drop 4 name"
    have ln: "length ?n < 256" using n raw by simp
    show ?thesis
    proof (cases "?n \<in> nhash_names wh_name (te_whlist a)")
      case True
      then show ?thesis using same False known by (simp add: def insert_absorb)
    next
      case new: False
      obtain err wh mem where ap: "au_nhash_append_wh cfg (te_whlist a) ?n (ucast ino) ty b (shwh \<and> cfg) (te_mem a)
          = Some (err, wh, mem)" "wh_wf wh"
        "if err = 0 then nhash_names wh_name wh = insert ?n (nhash_names wh_name (te_whlist a))
         else err = - ENOMEM \<and> wh = te_whlist a"
        "list_all id (te_mem a) \<and> te_mem a \<noteq> [] \<longrightarrow> err = 0"
        using append_wh_ok [OF wf ln] by blast
      have mem: "mem = drop 1 (te_mem a)"
        using ap(1) take_alloc_drop by (auto simp: au_nhash_append_wh_def Let_def split: if_splits prod.splits)
      let ?a' = "?a\<lparr>te_err := err, te_whlist := wh, te_mem := mem\<rparr>"
      have "test_empty_cb cfg shwh whonly b raw a = Some ?a'"
        using False new known ap(1) by (simp add: def)
      moreover have "te_res 1 a err (Some (insert ?n (nhash_names wh_name (te_whlist a)))) ?a'"
        using ap(2-4) mem by (cases "err = 0") (auto simp: te_res_def intro: exI [of _ 1])
      ultimately show ?thesis using False by (intro exI [of _ ?a']) (simp add: def)
    qed
  qed
qed

lemma te_err_0: "te_res n a (te_err a') st a' \<Longrightarrow> te_err a' = 0 \<Longrightarrow> st = Some (nhash_names wh_name (te_whlist a'))"
  by (simp add: te_res_def)

lemma batch_res:
  assumes "wh_wf (te_whlist a)" and "\<forall>e \<in> set es. raw_ok e" and "te_err a = 0"
  shows "\<exists>a'. test_batch cfg shwh whonly b es a = Some a' \<and> (es \<noteq> [] \<longrightarrow> te_called a') \<and> (es = [] \<longrightarrow> a' = a)
    \<and> te_res (length es) a (te_err a') (te_all whonly es (nhash_names wh_name (te_whlist a))) a'"
  using assms
proof (induction es arbitrary: a)
  case Nil
  then show ?case by (simp add: te_res_def)
next
  case (Cons e es)
  have e: "length (fst e) < 256" using Cons.prems(2) by (auto simp: raw_ok_def)
  obtain a1 where a1: "test_empty_cb cfg shwh whonly b e a = Some a1" "te_called a1"
    "te_res 1 a (te_err a1) (te1 whonly e (nhash_names wh_name (te_whlist a))) a1"
    using cb_res [OF Cons.prems(1) e] by blast
  show ?case
  proof (cases "te_err a1 = 0")
    case False
    from te_res_stop [OF a1(3) this, of "length (e # es)"] a1 False show ?thesis by simp
  next
    case True
    have wf: "wh_wf (te_whlist a1)" using a1(3) by (simp add: te_res_def)
    obtain a' where r: "test_batch cfg shwh whonly b es a1 = Some a'" "es \<noteq> [] \<longrightarrow> te_called a'"
      "es = [] \<longrightarrow> a' = a1"
      "te_res (length es) a1 (te_err a') (te_all whonly es (nhash_names wh_name (te_whlist a1))) a'"
      using Cons.IH [OF wf _ True] Cons.prems(2) by auto
    have "te_called a'" using r(2,3) a1(2) by (cases "es = []") auto
    then show ?thesis using a1(1) True r(1) te_res_trans [OF a1(3) [unfolded True] r(4)] by simp
  qed
qed

lemma calls_res:
  assumes "wh_wf (te_whlist a)" and "\<forall>c \<in> set cs. 0 \<le> snd c \<and> (\<forall>e \<in> set (fst c). raw_ok e)"
  shows "\<exists>err a'. test_calls cfg shwh whonly b cs a = Some (err, a')
    \<and> te_res (length (delivered cs)) a err (te_all whonly (delivered cs) (nhash_names wh_name (te_whlist a))) a'"
  using assms
proof (induction cs arbitrary: a)
  case Nil
  then show ?case by (simp add: te_res_def)
next
  case (Cons c cs)
  obtain es r where c: "c = (es, r)" by force
  have r: "0 \<le> r" and oks: "\<forall>e \<in> set es. raw_ok e" using Cons.prems(2) c by auto
  let ?a0 = "a\<lparr>te_err := 0, te_called := False\<rparr>"
  show ?case
  proof (cases "es = []")
    case True
    then show ?thesis using c r Cons.prems(1) by (simp add: te_res_def)
  next
    case ne: False
    have wf0: "wh_wf (te_whlist ?a0)" "te_err ?a0 = 0" using Cons.prems(1) by simp_all
    obtain a1 where a1: "test_batch cfg shwh whonly b es ?a0 = Some a1" "te_called a1"
      "te_res (length es) a (te_err a1) (te_all whonly es (nhash_names wh_name (te_whlist a))) a1"
      using batch_res [OF wf0(1) oks wf0(2), of cfg shwh whonly b] ne by auto
    show ?thesis
    proof (cases "te_err a1 = 0")
      case False
      have "test_calls cfg shwh whonly b (c # cs) a = Some (te_err a1, a1)" using a1(1,2) c r False by simp
      moreover have "length es \<le> length (delivered (c # cs))" using c ne by simp
      ultimately show ?thesis using te_res_stop [OF a1(3) False] c ne by (auto simp: te_all_append)
    next
      case True
      have wf: "wh_wf (te_whlist a1)" using a1(3) by (simp add: te_res_def)
      obtain err a' where r': "test_calls cfg shwh whonly b cs a1 = Some (err, a')"
        "te_res (length (delivered cs)) a1 err
           (te_all whonly (delivered cs) (nhash_names wh_name (te_whlist a1))) a'"
        using Cons.IH [OF wf] Cons.prems(2) by auto
      have "test_calls cfg shwh whonly b (c # cs) a = Some (err, a')" using a1(1,2) c r True r'(1) by simp
      then show ?thesis using te_res_trans [OF a1(3) [unfolded True] r'(2)] c ne by (simp add: te_all_append)
    qed
  qed
qed

text \<open>
  The lower directories of \<open>bs\<close> can be opened and read, by the caller or through the work queue.
\<close>

definition test_ok :: "au_sbinfo \<Rightarrow> test_env \<Rightarrow> bindex list \<Rightarrow> bool" where
  "test_ok sbi tv bs \<longleftrightarrow> (\<forall>b \<in> set bs. \<forall>d. tv_dirs tv b = Some d \<longrightarrow>
     tv_open tv b = 0 \<and> (au_opt_test (au_mntflags sbi) AuOpt_UDBA_NONE \<or> tv_nlink tv b \<noteq> 0)
     \<and> (tv_perm tv b = 0 \<or> tv_wkq tv b = 0)
     \<and> (\<forall>c \<in> set (ld_calls d). 0 \<le> snd c \<and> (\<forall>e \<in> set (fst c). raw_ok e)))"

definition dir_raws :: "test_env \<Rightarrow> bindex \<Rightarrow> raw_de list" where
  "dir_raws tv b = (case tv_dirs tv b of None \<Rightarrow> [] | Some d \<Rightarrow> delivered (ld_calls d))"

lemma do_test_res:
  assumes "test_ok sbi tv [b]" and "tv_dirs tv b \<noteq> None" and "wh_wf (te_whlist a)"
  shows "\<exists>err a'. do_test_empty cfg sbi tv shwh whonly b a = Some (err, a')
    \<and> te_res (length (dir_raws tv b)) a err (te_all whonly (dir_raws tv b) (nhash_names wh_name (te_whlist a))) a'"
proof -
  obtain d where d: "tv_dirs tv b = Some d" using assms(2) by blast
  then have ok: "tv_open tv b = 0" "au_opt_test (au_mntflags sbi) AuOpt_UDBA_NONE \<or> tv_nlink tv b \<noteq> 0"
    "\<forall>c \<in> set (ld_calls d). 0 \<le> snd c \<and> (\<forall>e \<in> set (fst c). raw_ok e)"
    using assms(1) by (simp_all add: test_ok_def)
  obtain err a' where "test_calls (cfg_shwh cfg) shwh whonly b (ld_calls d) a = Some (err, a')"
    "te_res (length (delivered (ld_calls d))) a err
       (te_all whonly (delivered (ld_calls d)) (nhash_names wh_name (te_whlist a))) a'"
    using calls_res [OF assms(3) ok(3)] by blast
  then show ?thesis using ok(1,2) d by (auto simp: do_test_empty_def dir_raws_def)
qed

lemma sio_test_res:
  assumes "test_ok sbi tv [b]" and "tv_dirs tv b \<noteq> None" and "wh_wf (te_whlist a)"
  shows "\<exists>err a'. sio_test_empty cfg sbi tv shwh whonly b a = Some (err, a')
    \<and> te_res (length (dir_raws tv b)) a err (te_all whonly (dir_raws tv b) (nhash_names wh_name (te_whlist a))) a'"
proof -
  have "tv_perm tv b = 0 \<or> tv_wkq tv b = 0" using assms(1,2) by (auto simp: test_ok_def)
  then show ?thesis
    using do_test_res [OF assms, of cfg shwh whonly]
    by (elim disjE exE conjE) (cases "tv_perm tv b = 0"; simp add: sio_test_empty_def)+
qed

lemma branches_res:
  assumes "\<forall>b \<in> set bs. tv_dirs tv b \<noteq> None \<longrightarrow> (\<forall>a. wh_wf (te_whlist a) \<longrightarrow> (\<exists>err a'. test b a = Some (err, a')
      \<and> te_res (length (dir_raws tv b)) a err (te_all True (dir_raws tv b) (nhash_names wh_name (te_whlist a))) a'))"
    and "wh_wf (te_whlist a)"
  shows "\<exists>err a'. test_branches test tv bs a = Some (err, a')
    \<and> te_res (length (concat (map (dir_raws tv) bs))) a err
        (te_all True (concat (map (dir_raws tv) bs)) (nhash_names wh_name (te_whlist a))) a'"
  using assms
proof (induction bs arbitrary: a)
  case Nil
  then show ?case by (simp add: te_res_def)
next
  case (Cons b bs)
  have IH: "wh_wf (te_whlist a1) \<Longrightarrow> \<exists>err a'. test_branches test tv bs a1 = Some (err, a')
    \<and> te_res (length (concat (map (dir_raws tv) bs))) a1 err
        (te_all True (concat (map (dir_raws tv) bs)) (nhash_names wh_name (te_whlist a1))) a'" for a1
    using Cons.IH Cons.prems(1) by auto
  show ?case
  proof (cases "tv_dirs tv b = None")
    case True
    then have "dir_raws tv b = []" by (simp add: dir_raws_def)
    then show ?thesis using True IH [OF Cons.prems(2)] by simp
  next
    case False
    then obtain err a1 where t: "test b a = Some (err, a1)"
      "te_res (length (dir_raws tv b)) a err (te_all True (dir_raws tv b) (nhash_names wh_name (te_whlist a))) a1"
      using Cons.prems by auto
    show ?thesis
    proof (cases "err = 0")
      case True
      have wf: "wh_wf (te_whlist a1)" using t(2) by (simp add: te_res_def)
      obtain err' a' where r: "test_branches test tv bs a1 = Some (err', a')"
        "te_res (length (concat (map (dir_raws tv) bs))) a1 err'
          (te_all True (concat (map (dir_raws tv) bs)) (nhash_names wh_name (te_whlist a1))) a'"
        using IH [OF wf] by blast
      have "test_branches test tv (b # bs) a = Some (err', a')" using False t(1) True r(1) by auto
      then show ?thesis using te_res_trans [OF t(2) [unfolded True] r(2)] by (simp add: te_all_append)
    next
      case err: False
      have "test_branches test tv (b # bs) a = Some (err, a1)" using False t(1) err by auto
      then show ?thesis using te_res_stop [OF t(2) err] by (simp add: te_all_append)
    qed
  qed
qed

section \<open>The closed form\<close>

text \<open>With every whiteout counted, the test finds an entry that \<open>shown\<close> finds.\<close>

definition counted :: "(bool \<times> src_de) list \<Rightarrow> (bool \<times> src_de) list" where
  "counted cs = map (\<lambda>c. (True, snd c)) cs"

definition shows_entry :: "(bool \<times> src_de) list \<Rightarrow> bool" where
  "shows_entry cs \<longleftrightarrow> (\<exists>e. shown cs e \<and> \<not> dot_name (src_name e))"

lemma dot_not_wh: "dot_name n \<Longrightarrow> \<not> wh_prefixed n"
  by (auto simp: dot_name_def wh_prefixed_def)

lemma te_all_shown:
  "te_all True (map (\<lambda>c. snd (snd c)) cs) {} = (if shows_entry (counted cs) then None else Some (whited (counted cs)))"
proof (induction cs rule: rev_induct)
  case Nil
  then show ?case by (simp add: counted_def shows_entry_def shown_def)
next
  case (snoc c cs)
  let ?n = "src_name (snd c)"
  have cnt: "counted (cs @ [c]) = counted cs @ [(True, snd c)]" by (simp add: counted_def)
  have n: "fst (snd (snd c)) = ?n" by (simp add: src_name_def)
  have step: "shows_entry (counted (cs @ [c])) \<longleftrightarrow> shows_entry (counted cs)
      \<or> (\<not> dot_name ?n \<and> \<not> wh_prefixed ?n \<and> (\<forall>b \<in> set (counted cs). src_name (snd b) \<noteq> ?n)
         \<and> ?n \<notin> whited (counted cs))"
    unfolding shows_entry_def cnt shown_snoc snd_conv by blast
  show ?case
  proof (cases "shows_entry (counted cs)")
    case True
    then show ?thesis using snoc.IH step by (simp add: te_all_append)
  next
    case False
    have one: "te_all True [x] ws = te1 True x ws" for x ws by (cases "te1 True x ws") simp_all
    have te: "te_all True (map (\<lambda>c. snd (snd c)) (cs @ [c])) {} = te1 True (snd (snd c)) (whited (counted cs))"
      using snoc.IH False by (simp add: te_all_append one del: te_all.simps(2))
    have wh: "whited (counted (cs @ [c]))
        = (if wh_prefixed ?n then insert (drop 4 ?n) (whited (counted cs)) else whited (counted cs))"
      by (simp add: cnt whited_snoc)
    show ?thesis
    proof (cases "\<not> dot_name ?n \<and> \<not> wh_prefixed ?n \<and> ?n \<notin> whited (counted cs)")
      case True
      have "\<forall>b \<in> set (counted cs). src_name (snd b) \<noteq> ?n"
      proof (rule ccontr)
        assume "\<not> (\<forall>b \<in> set (counted cs). src_name (snd b) \<noteq> ?n)"
        then have "\<exists>b \<in> set (counted cs). src_name (snd b) = ?n" by blast
        from shown_first [OF this] True obtain e where "shown (counted cs) e" "src_name e = ?n" by metis
        then show False using False True unfolding shows_entry_def by metis
      qed
      then show ?thesis using te step True n by (simp add: te1_def)
    next
      case no: False
      then have "\<not> shows_entry (counted (cs @ [c]))" using step False by blast
      then show ?thesis using te wh no n dot_not_wh by (auto simp: te1_def)
    qed
  qed
qed

text \<open>
  \<open>idle_whs\<close>: a whiteout that \<open>readdir\<close> ignores names nothing after it, so counting it changes
  nothing.
\<close>

definition idle_whs :: "(bool \<times> src_de) list \<Rightarrow> bool" where
  "idle_whs cs \<longleftrightarrow> (\<forall>pre c suf. cs = pre @ c # suf \<and> \<not> fst c \<longrightarrow>
     (\<forall>e \<in> set suf. src_name (snd c) \<noteq> AUFS_WH_PFX @ src_name (snd e)))"

lemma shown_counted_mono:
  assumes "shown (counted cs) e"
  shows "shown cs e"
proof -
  obtain pre w suf where p: "\<not> wh_prefixed (src_name e)" "counted cs = pre @ (w, e) # suf"
    "\<forall>c \<in> set pre. src_name (snd c) \<noteq> src_name e" "src_name e \<notin> whited pre"
    using assms unfolding shown_def by blast
  obtain pre' c suf' where q: "cs = pre' @ c # suf'" "counted pre' = pre" "(True, snd c) = (w, e)"
    using p(2) unfolding counted_def map_eq_append_conv map_eq_Cons_conv by blast
  then have c: "c = (fst c, e)" by (cases c) simp
  have "\<forall>c \<in> set pre'. src_name (snd c) \<noteq> src_name e"
    using p(3) unfolding q(2) [symmetric] counted_def by simp
  moreover have "src_name e \<notin> whited pre'" using p(4) unfolding q(2) [symmetric] by (auto simp: whited_def counted_def)
  ultimately show "shown cs e" using p(1) q(1) c unfolding shown_def by metis
qed

lemma shown_counted:
  assumes "idle_whs cs"
  shows "shown (counted cs) = shown cs"
proof (rule ext)
  fix e
  have wh: "src_name e \<in> whited (counted pre) \<longleftrightarrow> src_name e \<in> whited pre" if "cs = pre @ (w, e) # suf" for pre w suf
  proof
    assume "src_name e \<in> whited (counted pre)"
    then obtain c where c: "c \<in> set pre" "src_name (snd c) = AUFS_WH_PFX @ src_name e" "src_name e \<noteq> []"
      by (auto simp: whited_def counted_def)
    then obtain p q where pq: "pre = p @ c # q" by (meson split_list)
    have "fst c"
    proof (rule ccontr)
      assume n: "\<not> fst c"
      have "cs = p @ c # (q @ (w, e) # suf)" using that pq by simp
      then show False using assms n c(2) unfolding idle_whs_def by (metis in_set_conv_decomp snd_conv)
    qed
    then show "src_name e \<in> whited pre" using c by (auto simp: whited_def)
  qed (auto simp: whited_def counted_def)
  show "shown (counted cs) e = shown cs e"
  proof
    assume "shown (counted cs) e"
    then show "shown cs e" by (rule shown_counted_mono)
  next
    assume "shown cs e"
    then obtain pre w suf where p: "\<not> wh_prefixed (src_name e)" "cs = pre @ (w, e) # suf"
      "\<forall>c \<in> set pre. src_name (snd c) \<noteq> src_name e" "src_name e \<notin> whited pre"
      unfolding shown_def by blast
    have "counted cs = counted pre @ (True, e) # counted suf" using p(2) by (simp add: counted_def)
    moreover have "\<forall>c \<in> set (counted pre). src_name (snd c) \<noteq> src_name e" using p(3) by (auto simp: counted_def)
    moreover have "src_name e \<notin> whited (counted pre)" using wh [OF p(2)] p(4) by simp
    ultimately show "shown (counted cs) e" using p(1) unfolding shown_def by blast
  qed
qed

section \<open>Properties\<close>

text \<open>The entries of the directory as \<open>readdir\<close> takes them.\<close>

definition test_des :: "au_sbinfo \<Rightarrow> au_dinfo \<Rightarrow> test_env \<Rightarrow> (bool \<times> src_de) list" where
  "test_des sbi di tv = union_des sbi (tv_dirs tv) (au_dbtaildir di) [au_dbstart di..au_dbtaildir di]"

lemma union_raws:
  "concat (map (dir_raws tv) bs) = map (\<lambda>c. snd (snd c)) (union_des sbi (tv_dirs tv) bend bs)"
  by (induction bs) (simp_all add: union_des_def branch_des_def dir_raws_def comp_def split: option.splits)

lemma test_empty_res:
  assumes ok: "test_ok sbi tv [au_dbstart di..au_dbtaildir di]"
    and wh: "wh_wf whlist" "nhash_names wh_name whlist = {}"
  shows "\<exists>err whlist' mem'. au_test_empty cfg sbi di tv whlist mem = Some (err, whlist', mem')
    \<and> (err = - ENOMEM \<or> err = (if shows_entry (counted (test_des sbi di tv)) then - ENOTEMPTY else 0))
    \<and> (list_all id mem \<and> length (test_des sbi di tv) \<le> length mem \<longrightarrow> err \<noteq> - ENOMEM)"
proof -
  let ?bs = "[au_dbstart di..au_dbtaildir di]" and ?cs = "test_des sbi di tv"
  let ?a = "\<lparr>te_whlist = whlist, te_called = False, te_err = 0, te_mem = mem\<rparr>"
  let ?sh = "au_opt_test (au_mntflags sbi) (AuOpt_SHWH cfg)"
  let ?test = "sio_test_empty cfg sbi tv ?sh True"
  have raws: "concat (map (dir_raws tv) ?bs) = map (\<lambda>c. snd (snd c)) ?cs"
    unfolding test_des_def by (rule union_raws)
  have one: "test_ok sbi tv [b]" if "b \<in> set ?bs" for b using ok that by (simp add: test_ok_def)
  have br: "\<forall>b \<in> set ?bs. tv_dirs tv b \<noteq> None \<longrightarrow> (\<forall>a. wh_wf (te_whlist a) \<longrightarrow> (\<exists>err a'. ?test b a = Some (err, a')
      \<and> te_res (length (dir_raws tv b)) a err (te_all True (dir_raws tv b) (nhash_names wh_name (te_whlist a))) a'))"
    by (intro ballI impI allI) (rule sio_test_res [OF one], assumption+)
  have wf: "wh_wf (te_whlist ?a)" using wh(1) by simp
  obtain err a' where r: "test_branches ?test tv ?bs ?a = Some (err, a')"
    "te_res (length ?cs) ?a err (te_all True (map (\<lambda>c. snd (snd c)) ?cs) {}) a'"
    using branches_res [OF br wf] wh(2) by (auto simp: raws)
  have "au_test_empty cfg sbi di tv whlist mem = Some (err, te_whlist a', te_mem a')"
    using r(1) by (simp add: au_test_empty_def)
  then show ?thesis using r(2) unfolding te_all_shown by (auto simp: te_res_def split: if_splits)
qed

text \<open>
  C26: the emptiness test of \<open>rmdir\<close> against \<open>readdir\<close>. \<open>au_test_empty\<close> ends without a fault and answers
  \<open>ENOTEMPTY\<close> exactly when the union of the branches, with the whiteouts of every branch counted, has an
  entry besides the dots, and 0 otherwise; it fails only for want of memory, and not if an allocation for
  each entry succeeds. So it never refuses a directory in which \<open>readdir\<close> shows nothing; and the two agree
  wherever the whiteouts that \<open>readdir\<close> ignores, those of a branch without the whiteout attribute, name
  no entry after them. Where one does, they may disagree.
\<close>

theorem au_test_empty_agrees:
  assumes "test_ok sbi tv [au_dbstart di..au_dbtaildir di]"
    and "wh_wf whlist" and "nhash_names wh_name whlist = {}"
  shows "\<exists>err whlist' mem'. au_test_empty cfg sbi di tv whlist mem = Some (err, whlist', mem')
    \<and> (err = - ENOMEM
        \<or> err = (if \<exists>e. shown (counted (test_des sbi di tv)) e \<and> \<not> dot_name (src_name e) then - ENOTEMPTY else 0))
    \<and> (list_all id mem \<and> length (test_des sbi di tv) \<le> length mem \<longrightarrow> err \<noteq> - ENOMEM)
    \<and> (err = - ENOTEMPTY \<longrightarrow> (\<exists>e. shown (test_des sbi di tv) e \<and> \<not> dot_name (src_name e)))
    \<and> (idle_whs (test_des sbi di tv) \<and> err \<noteq> - ENOMEM
        \<longrightarrow> (err = - ENOTEMPTY \<longleftrightarrow> (\<exists>e. shown (test_des sbi di tv) e \<and> \<not> dot_name (src_name e))))"
proof -
  let ?cs = "test_des sbi di tv"
  obtain err whlist' mem' where r: "au_test_empty cfg sbi di tv whlist mem = Some (err, whlist', mem')"
    "err = - ENOMEM \<or> err = (if shows_entry (counted ?cs) then - ENOTEMPTY else 0)"
    "list_all id mem \<and> length ?cs \<le> length mem \<longrightarrow> err \<noteq> - ENOMEM"
    using test_empty_res [OF assms] by blast
  have "shows_entry ?cs" if "shows_entry (counted ?cs)" using that shown_counted_mono unfolding shows_entry_def by blast
  moreover have "shows_entry (counted ?cs) = shows_entry ?cs" if "idle_whs ?cs"
    unfolding shows_entry_def shown_counted [OF that] ..
  ultimately have "(err = - ENOTEMPTY \<longrightarrow> shows_entry ?cs)
      \<and> (idle_whs ?cs \<and> err \<noteq> - ENOMEM \<longrightarrow> (err = - ENOTEMPTY \<longleftrightarrow> shows_entry ?cs))"
    using r(2) by (cases "shows_entry (counted ?cs)") auto
  with r show ?thesis unfolding shows_entry_def [symmetric] by blast
qed

text \<open>
  C31: a whiteout in a branch where whiteouts do not count. \<open>readdir\<close> and \<open>lookup\<close> ignore it, but
  \<open>au_test_empty\<close> does not ask for the permission of the branch: the directory that shows the entry
  of the branch below is empty for \<open>rmdir\<close>.
\<close>

theorem rmdir_of_shown_entry:
  assumes di: "di_bstart di = 0" "di_bend di = 1" "di_bwh di = - 1" "di_bdiropq di = - 1"
    and dirs: "tv_dirs tv 0 = Some \<lparr>ld_seek = 0, ld_calls = [([(AUFS_WH_PFX @ n, i0, t0)], 0)]\<rparr>"
      "tv_dirs tv 1 = Some \<lparr>ld_seek = 0, ld_calls = [([(n, i1, t1)], 0)]\<rparr>"
    and n: "n \<noteq> []" "length n < 252" "\<not> wh_prefixed n" "\<not> dot_name n"
    and ok: "test_ok sbi tv [0..1]" and br: "au_sbr_whable sbi 0 = Some False"
    and wh: "wh_wf whlist" "nhash_names wh_name whlist = {}" and mem: "list_all id mem" "2 \<le> length mem"
  shows "\<exists>f whlist' mem'. shown (test_des sbi di tv) (f, n, i1, t1)
    \<and> au_test_empty cfg sbi di tv whlist mem = Some (0, whlist', mem')"
proof -
  let ?f = "\<lambda>b. the (br_xino_file (the (au_sbr sbi b)))"
  let ?e0 = "(?f 0, AUFS_WH_PFX @ n, i0, t0)" and ?e1 = "(?f 1, n, i1, t1)"
  have range: "au_dbstart di = 0" "au_dbtaildir di = 1"
    using di by (simp_all add: au_dbstart_def au_dbtaildir_def au_dbtail_def au_dbend_def au_dbwh_def
        au_dbdiropq_def Let_def)
  have "[0..1] = [0, 1 :: int]" by (simp add: upto.simps)
  then have cs: "test_des sbi di tv = [(False, ?e0), (False, ?e1)]"
    using br dirs by (simp add: test_des_def range union_des_def branch_des_def)
  have names: "src_name ?e0 = AUFS_WH_PFX @ n" "src_name ?e1 = n" by (simp_all add: src_name_def)
  have whp: "wh_prefixed (AUFS_WH_PFX @ n)" using n(1) by (auto simp: wh_prefixed_iff)
  then have ne: "AUFS_WH_PFX @ n \<noteq> n" using n(3) by metis
  have "shown ([] @ [(False, ?e0)]) ?e1 \<or> (?e1 = snd (False, ?e1) \<and> \<not> wh_prefixed (src_name ?e1)
      \<and> (\<forall>b \<in> set [(False, ?e0)]. src_name (snd b) \<noteq> src_name ?e1) \<and> src_name ?e1 \<notin> whited [(False, ?e0)])"
    using n(3) ne by (simp add: names whited_def)
  then have sh: "shown (test_des sbi di tv) ?e1"
    using shown_snoc [of "[(False, ?e0)]" "(False, ?e1)" ?e1] cs by simp
  have "te_all True (map (\<lambda>c. snd (snd c)) (test_des sbi di tv)) {} = Some {n}"
    using n(3) whp by (simp add: cs te1_def drop_wh_pfx dot_not_wh) (auto simp: dot_not_wh)
  then have "\<not> shows_entry (counted (test_des sbi di tv))" unfolding te_all_shown by (simp split: if_splits)
  then obtain whlist' mem' where "au_test_empty cfg sbi di tv whlist mem = Some (0, whlist', mem')"
    using test_empty_res [of sbi tv di whlist cfg mem] ok wh mem cs by (auto simp: range)
  then show ?thesis using sh by (intro exI [of _ "?f 1"] exI [of _ whlist'] exI [of _ mem']) simp
qed

section \<open>Witnesses\<close>

definition empty_whlist :: "au_vdir_wh au_nhash" where
  "empty_whlist = \<lparr>nh_num = 1, nh_head = [[]]\<rparr>"

definition two_dirs :: au_dinfo where
  "two_dirs = \<lparr>di_generation = 1, di_bstart = 0, di_bend = 1, di_bwh = - 1, di_bdiropq = - 1,
     di_hdentry = [\<lparr>hd_dentry = Some 101, hd_id = 1\<rparr>, \<lparr>hd_dentry = Some 102, hd_id = 2\<rparr>]\<rparr>"

text \<open>The first directory can be read by the work queue only.\<close>

definition example_test :: "(bindex \<Rightarrow> ldir option) \<Rightarrow> test_env" where
  "example_test dirs = \<lparr>tv_open = (\<lambda>b. 0), tv_nlink = (\<lambda>b. 2), tv_perm = (\<lambda>b. if b = 0 then - 13 else 0),
     tv_wkq = (\<lambda>b. 0), tv_dirs = dirs\<rparr>"

definition ro_above :: "bindex \<Rightarrow> ldir option" where
  "ro_above b = Some (if b = 0 then \<lparr>ld_seek = 0, ld_calls = [([(AUFS_WH_PFX @ [97], 21, 8)], 0)]\<rparr>
                      else \<lparr>ld_seek = 0, ld_calls = [([([97], 30, 8)], 0)]\<rparr>)"

lemma idle_whs_simps:
  "idle_whs []"
  "idle_whs (c # cs) \<longleftrightarrow> (\<not> fst c \<longrightarrow> (\<forall>e \<in> set cs. src_name (snd c) \<noteq> AUFS_WH_PFX @ src_name (snd e))) \<and> idle_whs cs"
    (is "?l \<longleftrightarrow> ?r")
proof -
  show "?l \<longleftrightarrow> ?r"
  proof
    assume l: ?l
    have "idle_whs cs" unfolding idle_whs_def
    proof (intro allI impI)
      fix pre d suf
      assume "cs = pre @ d # suf \<and> \<not> fst d"
      then have "c # cs = (c # pre) @ d # suf \<and> \<not> fst d" by simp
      then show "\<forall>e \<in> set suf. src_name (snd d) \<noteq> AUFS_WH_PFX @ src_name (snd e)"
        using l unfolding idle_whs_def by blast
    qed
    moreover have "\<not> fst c \<longrightarrow> (\<forall>e \<in> set cs. src_name (snd c) \<noteq> AUFS_WH_PFX @ src_name (snd e))"
      using l unfolding idle_whs_def by (metis append_Nil)
    ultimately show ?r by blast
  next
    assume r: ?r
    show ?l unfolding idle_whs_def
    proof (intro allI impI)
      fix pre d suf
      assume d: "c # cs = pre @ d # suf \<and> \<not> fst d"
      show "\<forall>e \<in> set suf. src_name (snd d) \<noteq> AUFS_WH_PFX @ src_name (snd e)"
      proof (cases pre)
        case Nil
        then show ?thesis using d r by simp
      next
        case (Cons x pre')
        then have "cs = pre' @ d # suf \<and> \<not> fst d" using d by simp
        then show ?thesis using r unfolding idle_whs_def by blast
      qed
    qed
  qed
qed (simp add: idle_whs_def)

lemma empty_whlist_ok: "wh_wf empty_whlist" "nhash_names wh_name empty_whlist = {}"
  by (simp_all add: empty_whlist_def wh_wf_def nhash_wf_def nhash_names_def)

lemma two_dirs_range: "[au_dbstart two_dirs..au_dbtaildir two_dirs] = [0, 1]"
  by (simp add: two_dirs_def au_dbstart_def au_dbtaildir_def au_dbtail_def au_dbend_def au_dbwh_def
      au_dbdiropq_def Let_def upto.simps)

lemma example_test_des:
  "test_des (x_sbi example_union) two_dirs (example_test (df_dirs example_file)) = file_des example_file (x_sbi example_union)"
proof -
  have "[0..1] = [0, 1 :: int]" by (simp add: upto.simps)
  moreover have "au_dbtaildir two_dirs = 1"
    by (simp add: two_dirs_def au_dbtaildir_def au_dbtail_def au_dbend_def au_dbwh_def au_dbdiropq_def Let_def)
  ultimately show ?thesis
    unfolding test_des_def two_dirs_range file_des_def by (simp add: example_file_def example_test_def)
qed

lemma example_test_ok: "test_ok (x_sbi example_union) (example_test (df_dirs example_file)) [0, 1]"
  by (simp add: test_ok_def example_test_def example_file_def raw_ok_def)

theorem au_test_empty_agrees_witness:
  "\<exists>whlist' mem'. au_test_empty full_config (x_sbi example_union) two_dirs (example_test (df_dirs example_file))
      empty_whlist [True, True, True, True, True] = Some (- ENOTEMPTY, whlist', mem')"
proof -
  let ?cs = "test_des (x_sbi example_union) two_dirs (example_test (df_dirs example_file))"
  have "idle_whs ?cs"
    unfolding example_test_des example_file_des
    by (simp add: idle_whs_simps src_name_def AUFS_WH_PFX_def)
  moreover have "shown ?cs (7, [97], 20, 8)"
    unfolding example_test_des example_file_des shown_def
    by (intro conjI exI [of _ "[]"] exI [of _ True] exI) (simp_all add: src_name_def wh_prefixed_def)
  then have "\<exists>e. shown ?cs e \<and> \<not> dot_name (src_name e)"
    by (intro exI [of _ "(7, [97], 20, 8)"]) (simp add: src_name_def dot_name_def)
  moreover have "length ?cs = 5" unfolding example_test_des example_file_des by simp
  ultimately have "\<exists>err whlist' mem'. au_test_empty full_config (x_sbi example_union) two_dirs (example_test (df_dirs example_file))
      empty_whlist [True, True, True, True, True] = Some (err, whlist', mem') \<and> err = - ENOTEMPTY"
    using au_test_empty_agrees [of "x_sbi example_union" "example_test (df_dirs example_file)" two_dirs empty_whlist
        full_config "[True, True, True, True, True]"] example_test_ok empty_whlist_ok
    by (simp add: two_dirs_range del: split_paired_Ex)
      (elim exE conjE, erule (1) impE, simp)
  then show ?thesis by simp
qed

definition ro_sbinfo :: au_sbinfo where
  "ro_sbinfo = example_sbinfo\<lparr>si_bend := 1, si_branch := [Some (example_branch 1 2 100), Some (example_branch 2 2 101)]\<rparr>"

theorem rmdir_of_shown_entry_witness:
  "\<exists>f whlist' mem'. shown (test_des ro_sbinfo two_dirs (example_test ro_above)) (f, [97], 30, 8)
    \<and> au_test_empty full_config ro_sbinfo two_dirs (example_test ro_above) empty_whlist [True, True]
       = Some (0, whlist', mem')"
proof (rule rmdir_of_shown_entry)
  show "test_ok ro_sbinfo (example_test ro_above) [0..1]"
    by (simp add: test_ok_def example_test_def ro_above_def raw_ok_def)
  show "au_sbr_whable ro_sbinfo 0 = Some False"
    by (simp add: ro_sbinfo_def au_sbr_whable_def au_sbr_perm_def au_sbr_def arr_get_def example_branch_def
        au_br_whable_def AuBrPerm_RW_def AuBrRAttr_WH_def)
qed (simp_all add: two_dirs_def example_test_def ro_above_def empty_whlist_ok wh_prefixed_def dot_name_def)

end
