(* ===== verification/Lookup.thy ===== *)
theory Lookup
  imports Dinfo
begin

text \<open>
  Looking a name up in the branches (\<open>dentry.c\<close> and the tests of \<open>whout.c\<close>): the whiteout of the
  name, the entry itself and the mark of an opaque directory are looked up in the lower directory
  of one branch after the other, and the lower dentries found are put into the table of the aufs
  dentry. What a lower file system answers is a parameter, as the permission test and the work
  queue are.
\<close>

section \<open>The lower file systems\<close>

definition PATH_MAX :: nat where "PATH_MAX = 4096"
definition S_IFDIR :: int where "S_IFDIR = 16384"
definition S_IFREG :: int where "S_IFREG = 32768"

text \<open>
  \<open>le_lkup sio h_parent name\<close>: what \<open>vfsub_lkup_one\<close> finds, the error or a dentry, asked by the
  caller or (\<open>sio\<close>) by a kernel worker. \<open>le_perm\<close>: \<open>au_test_h_perm_sio(h_dir, MAY_EXEC)\<close> for the
  directory behind a dentry. \<open>le_wkq\<close>: the result of \<open>au_wkq_wait\<close>.
\<close>

record lkup_env =
  le_lkup :: "bool \<Rightarrow> dptr \<Rightarrow> u8 list \<Rightarrow> int + dptr"
  le_perm :: "dptr \<Rightarrow> int"
  le_wkq :: int

text \<open>The type bits of the inode behind a dentry, \<open>None\<close> if it is negative.\<close>

definition d_fmt :: "vfs \<Rightarrow> dptr \<Rightarrow> int option option" where
  "d_fmt v d =
     Option.bind (dents v d) (\<lambda>x.
     case d_inode x of
       None \<Rightarrow> Some None
     | Some i \<Rightarrow> map_option (\<lambda>y. Some (i_fmt y)) (inos v i))"

text \<open>The dentry that is returned is referenced.\<close>

definition lkup_one :: "lkup_env \<Rightarrow> bool \<Rightarrow> dptr \<Rightarrow> u8 list \<Rightarrow> vfs \<Rightarrow> ((int + dptr) \<times> vfs) option" where
  "lkup_one env sio h_parent name v =
     (case le_lkup env sio h_parent name of
        Inl e \<Rightarrow> Some (Inl e, v)
      | Inr d \<Rightarrow> map_option (Pair (Inr d)) (get_dentry d v))"

definition au_sio_lkup_one :: "lkup_env \<Rightarrow> dptr \<Rightarrow> u8 list \<Rightarrow> vfs \<Rightarrow> ((int + dptr) \<times> vfs) option" where
  "au_sio_lkup_one env h_parent name v =
     (if le_perm env h_parent = 0 then lkup_one env False h_parent name v
      else if le_wkq env \<noteq> 0 then Some (Inl (le_wkq env), v)
      else lkup_one env True h_parent name v)"

section \<open>Whiteouts\<close>

text \<open>The bytes of \<open>.wh..wh..opq\<close>.\<close>

definition AUFS_WH_DIROPQ :: "u8 list" where
  "AUFS_WH_DIROPQ = AUFS_WH_PFX @ AUFS_WH_PFX @ [46, 111, 112, 113]"

definition au_wh_name_alloc :: "u8 list \<Rightarrow> mem_oracle \<Rightarrow> (int + u8 list) \<times> mem_oracle" where
  "au_wh_name_alloc name mem =
     (if PATH_MAX - 4 < length name then (Inl (- ENAMETOOLONG), mem)
      else case take_alloc mem of (ok, mem') \<Rightarrow>
        (if ok then Inr (AUFS_WH_PFX @ name) else Inl (- ENOMEM), mem'))"

text \<open>1 if the whiteout exists, 0 if not. It has to be a regular file.\<close>

definition au_wh_test :: "lkup_env \<Rightarrow> dptr \<Rightarrow> u8 list \<Rightarrow> bool \<Rightarrow> vfs \<Rightarrow> (int \<times> vfs) option" where
  "au_wh_test env h_parent whn try_sio v =
     Option.bind (if try_sio then au_sio_lkup_one env h_parent whn v
                  else lkup_one env False h_parent whn v) (\<lambda>(r, v').
     case r of
       Inl e \<Rightarrow> Some (e, v')
     | Inr d \<Rightarrow> Option.bind (d_fmt v' d) (\<lambda>fmt.
         map_option (Pair (case fmt of None \<Rightarrow> 0 | Some f \<Rightarrow> if f = S_IFREG then 1 else - EIO))
           (put_dentry d v')))"

definition au_diropq_test :: "lkup_env \<Rightarrow> dptr \<Rightarrow> vfs \<Rightarrow> (int \<times> vfs) option" where
  "au_diropq_test env h_dentry v = au_wh_test env h_dentry AUFS_WH_DIROPQ (le_perm env h_dentry \<noteq> 0) v"

text \<open>
  \<open>au_whtmp_lkup\<close>: a temporary name with a counter in four hexadecimal digits. The third name that
  exists is the \<open>BUG\<close>. \<open>inl\<close> is \<open>DNAME_INLINE_LEN\<close>, the length up to which no memory is needed.
\<close>

definition hex_digit :: "nat \<Rightarrow> u8" where
  "hex_digit d = of_nat (if d < 10 then 48 + d else 87 + d)"

definition hex4 :: "u16 \<Rightarrow> u8 list" where
  "hex4 c = map (\<lambda>k. hex_digit (unat c div 16 ^ k mod 16)) [3, 2, 1, 0]"

fun whtmp_loop :: "nat \<Rightarrow> lkup_env \<Rightarrow> dptr \<Rightarrow> u8 list \<Rightarrow> u16 \<Rightarrow> vfs \<Rightarrow> ((int + dptr) \<times> u16 \<times> vfs) option" where
  "whtmp_loop 0 env h_parent p cnt v = None"
| "whtmp_loop (Suc n) env h_parent p cnt v =
     Option.bind (au_sio_lkup_one env h_parent (p @ hex4 cnt) v) (\<lambda>(r, v').
     case r of
       Inl e \<Rightarrow> Some (Inl e, cnt + 1, v')
     | Inr d \<Rightarrow> Option.bind (d_fmt v' d) (\<lambda>fmt.
         if fmt = None then Some (Inr d, cnt + 1, v')
         else Option.bind (put_dentry d v') (whtmp_loop n env h_parent p (cnt + 1))))"

definition au_whtmp_lkup :: "nat \<Rightarrow> lkup_env \<Rightarrow> dptr \<Rightarrow> u8 list \<Rightarrow> u16 \<Rightarrow> mem_oracle \<Rightarrow> vfs
    \<Rightarrow> ((int + dptr) \<times> u16 \<times> vfs) option" where
  "au_whtmp_lkup inl env h_parent prefix cnt mem v =
     (let find = whtmp_loop 3 env h_parent (AUFS_WH_PFX @ AUFS_WH_PFX @ prefix @ [46]) cnt v
      in if length prefix \<le> inl then find
         else if 255 < length prefix + 13 then Some (Inl (- ENAMETOOLONG), cnt, v)
         else if fst (take_alloc mem) then find
         else Some (Inl (- ENOMEM), cnt, v))"

section \<open>One branch\<close>

text \<open>
  \<open>au_do_lookup\<close>; \<open>inode\<close> is the aufs inode of the dentry, if any, by its type bits. The result
  is the error, NULL or the lower dentry.
\<close>

definition do_real_lookup :: "lkup_env \<Rightarrow> au_sbinfo \<Rightarrow> int option \<Rightarrow> u8 list \<Rightarrow> dptr \<Rightarrow> bindex \<Rightarrow> bool \<Rightarrow> bool
    \<Rightarrow> bool \<Rightarrow> int \<Rightarrow> bool \<Rightarrow> au_dinfo \<times> vfs \<Rightarrow> ((int + dptr option) \<times> au_dinfo \<times> vfs) option" where
  "do_real_lookup env sbi inode name h_parent bindex allow_neg ignore_perm wh_able type wh_found s =
     (let (di, v) = s in
      Option.bind (if ignore_perm then au_sio_lkup_one env h_parent name v
                   else lkup_one env False h_parent name v) (\<lambda>(r, v1).
      case r of
        Inl e \<Rightarrow> Some (Inl e, di, v1)
      | Inr d \<Rightarrow> Option.bind (d_fmt v1 d) (\<lambda>fmt.
          if (case fmt of None \<Rightarrow> \<not> allow_neg | Some f \<Rightarrow> wh_found \<or> (type \<noteq> 0 \<and> type \<noteq> f))
          then map_option (\<lambda>v2. (Inr None, di, v2)) (put_dentry d v1)
          else
            let di1 = (if au_dbend di \<le> bindex then au_set_dbend bindex di else di);
                di2 = (if au_dbstart di1 < 0 \<or> bindex < au_dbstart di1 then au_set_dbstart bindex di1 else di1)
            in Option.bind (au_set_h_dptr sbi bindex (Some d) (di2, v1)) (\<lambda>(di3, v3).
               if fmt \<noteq> Some S_IFDIR \<or> \<not> wh_able \<or> (inode \<noteq> None \<and> inode \<noteq> Some S_IFDIR)
               then Some (Inr (Some d), di3, v3)
               else Option.bind (au_diropq_test env d v3) (\<lambda>(opq, v4).
                    if 0 < opq then Some (Inr (Some d), au_set_dbdiropq bindex di3, v4)
                    else if opq < 0
                    then map_option (\<lambda>(di5, v5). (Inl opq, di5, v5)) (au_set_h_dptr sbi bindex None (di3, v4))
                    else Some (Inr (Some d), di3, v4))))))"

definition au_do_lookup :: "lkup_env \<Rightarrow> au_sbinfo \<Rightarrow> int option \<Rightarrow> u8 list \<Rightarrow> dptr \<Rightarrow> bindex \<Rightarrow> u8 list \<Rightarrow> bool
    \<Rightarrow> bool \<Rightarrow> int \<Rightarrow> au_dinfo \<times> vfs \<Rightarrow> ((int + dptr option) \<times> au_dinfo \<times> vfs) option" where
  "au_do_lookup env sbi inode name h_parent bindex whn allow_neg ignore_perm type s =
     (let (di, v) = s in
      Option.bind (au_sbr_whable sbi bindex) (\<lambda>wh_able.
      Option.bind (if wh_able then au_wh_test env h_parent whn False v else Some (0, v)) (\<lambda>(wh_found, v1).
      if wh_found < 0 then Some (Inl wh_found, di, v1)
      else if 0 < wh_found \<and> \<not> allow_neg then Some (Inr None, au_set_dbwh bindex di, v1)
      else do_real_lookup env sbi inode name h_parent bindex allow_neg ignore_perm wh_able type (0 < wh_found)
             (if 0 < wh_found then au_set_dbwh bindex di else di, v1))))"

section \<open>The branches\<close>

definition au_test_shwh :: "kconfig \<Rightarrow> au_sbinfo \<Rightarrow> u8 list \<Rightarrow> int" where
  "au_test_shwh cfg sbi name =
     (if \<not> au_opt_test (au_mntflags sbi) (AuOpt_SHWH cfg) \<and> take 4 name = AUFS_WH_PFX then - EPERM else 0)"

text \<open>The locals of the loop of \<open>au_lkup_dentry\<close>.\<close>

record lkup =
  lk_di :: au_dinfo
  lk_v :: vfs
  lk_npositive :: int
  lk_type :: int
  lk_allow_neg :: bool
  lk_ignore_perm :: bool
  lk_err :: int

text \<open>
  What follows \<open>au_do_lookup\<close> in the body of the loop: \<open>True\<close> leaves the loop.
\<close>

definition lkup_found :: "int option \<Rightarrow> bool \<Rightarrow> bindex \<Rightarrow> dptr option \<Rightarrow> lkup \<Rightarrow> (bool \<times> lkup) option" where
  "lkup_found inode dirperm1 bindex h_dentry s0 =
     (let s = s0\<lparr>lk_allow_neg := False, lk_ignore_perm := lk_ignore_perm s0 \<or> dirperm1\<rparr> in
      if 0 \<le> au_dbwh (lk_di s) then Some (True, s)
      else case h_dentry of
             None \<Rightarrow> Some (False, s)
           | Some d \<Rightarrow> Option.bind (d_fmt (lk_v s) d) (\<lambda>fmt.
               case fmt of
                 None \<Rightarrow> Some (False, s)
               | Some f \<Rightarrow>
                   let ty = (if lk_type s = 0 then f else lk_type s);
                       s' = s\<lparr>lk_npositive := lk_npositive s + 1, lk_type := ty\<rparr>;
                       bdiropq = au_dbdiropq (lk_di s)
                   in Some (ty \<noteq> S_IFDIR \<or> (inode = Some S_IFDIR \<and> 0 \<le> bdiropq \<and> bdiropq \<le> bindex), s')))"

definition lkup_step :: "lkup_env \<Rightarrow> au_sbinfo \<Rightarrow> au_dinfo \<Rightarrow> int option \<Rightarrow> u8 list \<Rightarrow> u8 list \<Rightarrow> int \<Rightarrow> bool
    \<Rightarrow> bindex \<Rightarrow> lkup \<Rightarrow> (bool \<times> lkup) option" where
  "lkup_step env sbi pdi inode name whname type dirperm1 bindex s =
     Option.bind (au_h_dptr (lk_di s) (lk_v s) bindex) (\<lambda>h_dentry.
     case h_dentry of
       Some d \<Rightarrow> Option.bind (d_fmt (lk_v s) d) (\<lambda>fmt.
         Some (type \<noteq> S_IFDIR, s\<lparr>lk_npositive := lk_npositive s + (if fmt \<noteq> None then 1 else 0)\<rparr>))
     | None \<Rightarrow>
         Option.bind (au_h_dptr pdi (lk_v s) bindex) (\<lambda>h_parent.
         case h_parent of
           None \<Rightarrow> Some (False, s)
         | Some p \<Rightarrow> Option.bind (d_fmt (lk_v s) p) (\<lambda>pfmt.
             if pfmt \<noteq> Some S_IFDIR then Some (False, s)
             else Option.bind (au_do_lookup env sbi inode name p bindex whname (lk_allow_neg s) (lk_ignore_perm s)
                                 (lk_type s) (lk_di s, lk_v s)) (\<lambda>(r, di, v).
                  let s' = s\<lparr>lk_di := di, lk_v := v\<rparr> in
                  case r of
                    Inl e \<Rightarrow> Some (True, s'\<lparr>lk_err := e\<rparr>)
                  | Inr h \<Rightarrow> lkup_found inode dirperm1 bindex h s'))))"

text \<open>
  \<open>au_lkup_dentry\<close>: the number of positive lower dentries or the error. \<open>pdi\<close> is the private
  data of the parent.
\<close>

definition au_lkup_dentry :: "kconfig \<Rightarrow> lkup_env \<Rightarrow> au_sbinfo \<Rightarrow> au_dinfo \<Rightarrow> int option \<Rightarrow> u8 list \<Rightarrow> bindex \<Rightarrow> int
    \<Rightarrow> au_dinfo \<times> vfs \<times> mem_oracle \<Rightarrow> (int \<times> au_dinfo \<times> vfs \<times> mem_oracle) option" where
  "au_lkup_dentry cfg env sbi pdi inode name bstart type st =
     (let (di, v, mem) = st; err = au_test_shwh cfg sbi name
      in if err \<noteq> 0 then Some (err, di, v, mem)
         else case au_wh_name_alloc name mem of
           (Inl e, mem') \<Rightarrow> Some (e, di, v, mem')
         | (Inr whname, mem') \<Rightarrow>
             Option.bind (scan_up (lkup_step env sbi pdi inode name whname type
                                     (au_opt_test (au_mntflags sbi) AuOpt_DIRPERM1)) bstart (au_dbtaildir pdi)
                            \<lparr>lk_di = di, lk_v = v, lk_npositive = 0, lk_type = type, lk_allow_neg = (type = 0),
                             lk_ignore_perm = False, lk_err = 0\<rparr>) (\<lambda>(_, s).
             if lk_err s \<noteq> 0 then Some (lk_err s, lk_di s, lk_v s, mem')
             else Option.bind (if lk_npositive s \<noteq> 0 then au_update_dbstart sbi (lk_di s, lk_v s)
                               else Some (lk_di s, lk_v s)) (\<lambda>(di', v').
                  Some (if \<not> au_opt_test (au_mntflags sbi) AuOpt_UDBA_NONE \<and> au_dbstart di' < 0 then - EIO
                        else lk_npositive s, di', v', mem'))))"

text \<open>\<open>au_lkup_neg\<close>: a dentry that should be negative, or a temporary name (\<open>wh\<close>).\<close>

definition au_lkup_neg :: "nat \<Rightarrow> lkup_env \<Rightarrow> au_sbinfo \<Rightarrow> au_dinfo \<Rightarrow> u8 list \<Rightarrow> bindex \<Rightarrow> bool \<Rightarrow> u16 \<Rightarrow> mem_oracle
    \<Rightarrow> au_dinfo \<times> vfs \<Rightarrow> (int \<times> u16 \<times> au_dinfo \<times> vfs) option" where
  "au_lkup_neg inl env sbi pdi name bindex wh cnt mem s =
     (let (di, v) = s in
      Option.bind (au_h_dptr pdi v bindex) (\<lambda>h_parent.
      Option.bind h_parent (\<lambda>p.
      Option.bind (if wh then au_whtmp_lkup inl env p name cnt mem v
                   else map_option (\<lambda>(r, v). (r, cnt, v)) (au_sio_lkup_one env p name v)) (\<lambda>(r, cnt', v1).
      case r of
        Inl e \<Rightarrow> Some (e, cnt', di, v1)
      | Inr d \<Rightarrow> Option.bind (d_fmt v1 d) (\<lambda>fmt.
          if fmt \<noteq> None then map_option (\<lambda>v2. (- EIO, cnt', di, v2)) (put_dentry d v1)
          else
            let di1 = (if bindex < au_dbstart di then au_set_dbstart bindex di else di);
                di2 = (if au_dbend di1 < bindex then au_set_dbend bindex di1 else di1)
            in map_option (\<lambda>(di3, v3). (0, cnt', di3, v3)) (au_set_h_dptr sbi bindex (Some d) (di2, v1)))))))"

end
