(* ===== verification/Lookup_Union.thy ===== *)
theory Lookup_Union
  imports Lookup
begin

text \<open>
  What \<open>au_lkup_dentry\<close> finds for a name that is looked up for the first time, against the union
  of the branches: which lower dentries it keeps, with exactly one reference for each, and which
  whiteout and opaque directory it records.
\<close>

section \<open>Lower file systems that answer\<close>

text \<open>
  \<open>child p n\<close> is the dentry of the name \<open>n\<close> in the directory \<open>p\<close>, positive or negative. A name
  with the prefix of whiteouts is a regular file or does not exist.
\<close>

definition live :: "vfs \<Rightarrow> dptr \<Rightarrow> bool" where
  "live v d \<longleftrightarrow> (\<exists>x. dents v d = Some x \<and> 0 \<le> d_count x \<and> (\<forall>i. d_inode x = Some i \<longrightarrow> inos v i \<noteq> None))"

definition fmt :: "vfs \<Rightarrow> dptr \<Rightarrow> int option" where
  "fmt v d = the (d_fmt v d)"

definition lower_ok :: "lkup_env \<Rightarrow> (dptr \<Rightarrow> u8 list \<Rightarrow> dptr) \<Rightarrow> vfs \<Rightarrow> bool" where
  "lower_ok env child v \<longleftrightarrow> le_wkq env = 0
     \<and> (\<forall>sio p n. le_lkup env sio p n = Inr (child p n)) \<and> (\<forall>p n. live v (child p n))
     \<and> (\<forall>p n. fmt v (child p (AUFS_WH_PFX @ n)) \<in> {None, Some S_IFREG})"

text \<open>The file systems are the same up to reference counts, which only grew.\<close>

definition same_fs :: "vfs \<Rightarrow> vfs \<Rightarrow> bool" where
  "same_fs v0 v \<longleftrightarrow> inos v = inos v0 \<and> (\<forall>e. map_option d_inode (dents v e) = map_option d_inode (dents v0 e))
     \<and> (\<forall>e x0. dents v0 e = Some x0 \<longrightarrow> (\<exists>x. dents v e = Some x \<and> d_count x0 \<le> d_count x))"

lemma same_fs_fmt:
  assumes "same_fs v0 v"
  shows "d_fmt v = d_fmt v0" "fmt v = fmt v0"
proof -
  show "d_fmt v = d_fmt v0"
  proof
    fix d
    have "inos v = inos v0" "map_option d_inode (dents v d) = map_option d_inode (dents v0 d)"
      using assms by (simp_all add: same_fs_def)
    then show "d_fmt v d = d_fmt v0 d"
      by (cases "dents v d"; cases "dents v0 d") (auto simp: d_fmt_def split: option.splits)
  qed
  then show "fmt v = fmt v0" by (simp add: fmt_def fun_eq_iff)
qed

lemma same_fs_live: "same_fs v0 v \<Longrightarrow> live v0 d \<Longrightarrow> live v d"
proof -
  assume s: "same_fs v0 v" and "live v0 d"
  then obtain x0 where x0: "dents v0 d = Some x0" "0 \<le> d_count x0" "\<forall>i. d_inode x0 = Some i \<longrightarrow> inos v0 i \<noteq> None"
    by (auto simp: live_def)
  then obtain x where x: "dents v d = Some x" "d_count x0 \<le> d_count x" using s unfolding same_fs_def by metis
  have "map_option d_inode (dents v d) = map_option d_inode (dents v0 d)" "inos v = inos v0"
    using s by (simp_all add: same_fs_def)
  then have "d_inode x = d_inode x0" "inos v = inos v0" using x(1) x0(1) by simp_all
  then show "live v d" using x x0 by (auto simp: live_def)
qed

lemma same_fs_lower: "same_fs v0 v \<Longrightarrow> lower_ok env child v0 \<Longrightarrow> lower_ok env child v"
  unfolding lower_ok_def using same_fs_live same_fs_fmt(2) by metis

lemma same_fs_refl: "same_fs v v"
  by (simp add: same_fs_def)

lemma same_fs_trans: "same_fs u v \<Longrightarrow> same_fs v w \<Longrightarrow> same_fs u w"
  unfolding same_fs_def by (metis order_trans)

text \<open>One more reference.\<close>

definition got :: "dptr \<Rightarrow> vfs \<Rightarrow> vfs" where
  "got d v = v\<lparr>dents := (dents v)(d := map_option (\<lambda>x. x\<lparr>d_count := d_count x + 1\<rparr>) (dents v d))\<rparr>"

lemma got_ok:
  assumes "live v d"
  shows "get_dentry d v = Some (got d v)" "put_dentry d (got d v) = Some v" "same_fs v (got d v)"
    and "d_refs (got d v) = (d_refs v)(d := map_option (\<lambda>n. n + 1) (d_refs v d))"
proof -
  obtain x where x: "dents v d = Some x" "0 \<le> d_count x" using assms by (auto simp: live_def)
  then have up: "(dents v)(d \<mapsto> x) = dents v" by (simp add: fun_upd_triv fun_upd_idem)
  show "get_dentry d v = Some (got d v)" using x by (simp add: got_def get_dentry_def)
  show "put_dentry d (got d v) = Some v" using x up by (simp add: got_def put_dentry_def)
  show "same_fs v (got d v)" using x by (simp add: got_def same_fs_def)
  show "d_refs (got d v) = (d_refs v)(d := map_option (\<lambda>n. n + 1) (d_refs v d))"
    using x by (simp add: got_def d_refs_def fun_eq_iff)
qed

lemma live_fmt: "live v d \<Longrightarrow> d_fmt v d = Some (fmt v d)"
  by (auto simp: live_def d_fmt_def fmt_def split: option.splits)

lemma got_fmt: "live v d \<Longrightarrow> d_fmt (got d v) e = d_fmt v e"
  using same_fs_fmt(1) [OF got_ok(3)] by metis

lemma lower_lkup:
  assumes "lower_ok env child v"
  shows "lkup_one env sio p n v = Some (Inr (child p n), got (child p n) v)"
    and "au_sio_lkup_one env p n v = Some (Inr (child p n), got (child p n) v)"
  using assms got_ok(1) [of v "child p n"]
  by (auto simp: lower_ok_def lkup_one_def au_sio_lkup_one_def)

lemma lower_live: "lower_ok env child v \<Longrightarrow> live v (child p n)"
  by (simp add: lower_ok_def)

text \<open>The tests leave no reference behind.\<close>

lemma wh_test_ok:
  assumes "lower_ok env child v"
  shows "au_wh_test env p (AUFS_WH_PFX @ n) sio v = Some (if fmt v (child p (AUFS_WH_PFX @ n)) = None then 0 else 1, v)"
proof -
  let ?c = "child p (AUFS_WH_PFX @ n)"
  have l: "live v ?c" by (rule lower_live [OF assms])
  have "fmt v ?c \<in> {None, Some S_IFREG}" using assms by (simp add: lower_ok_def)
  then show ?thesis
    by (auto simp: au_wh_test_def lower_lkup [OF assms] got_fmt [OF l] live_fmt [OF l] got_ok(2) [OF l])
qed

lemma diropq_test_ok:
  assumes "lower_ok env child v"
  shows "au_diropq_test env d v = Some (if fmt v (child d AUFS_WH_DIROPQ) = None then 0 else 1, v)"
  unfolding au_diropq_test_def AUFS_WH_DIROPQ_def by (rule wh_test_ok [OF assms])

section \<open>One branch\<close>

text \<open>The dentry table after a lower dentry was stored.\<close>

definition kept :: "bindex \<Rightarrow> dptr \<Rightarrow> bindex \<Rightarrow> bool \<Rightarrow> au_dinfo \<Rightarrow> au_dinfo" where
  "kept b d bid opq di = di\<lparr>di_bend := b, di_bstart := (if di_bstart di < 0 then b else di_bstart di),
     di_hdentry := (di_hdentry di)[nat b := \<lparr>hd_dentry = Some d, hd_id = bid\<rparr>],
     di_bdiropq := (if opq then b else di_bdiropq di)\<rparr>"

lemma set_new_slot:
  assumes "au_sbr sbi b = Some br" and "0 \<le> b" and "b < int (length (di_hdentry di))" and "dslots di ! nat b = None"
  shows "au_set_h_dptr sbi b (Some d) (di, w)
      = Some (di\<lparr>di_hdentry := (di_hdentry di)[nat b := \<lparr>hd_dentry = Some d, hd_id = br_id br\<rparr>]\<rparr>, w)"
proof -
  have "nat b < length (di_hdentry di)" using assms by linarith
  then show ?thesis using assms by (simp add: au_set_h_dptr_def arr_get_def au_hdput_def dslots_nth)
qed

lemma do_real_ok:
  assumes ok: "lower_ok env child v" and br: "au_sbr sbi b = Some br"
    and b: "0 \<le> b" "b < int (length (di_hdentry di))" "dslots di ! nat b = None"
    and range: "di_bend di < b" "di_bstart di < b"
    and able: "able = au_br_whable (br_perm br)" and c: "c = child p name" and ino: "ino \<noteq> Some S_IFDIR"
  shows "do_real_lookup env sbi ino name p b a ign able ty wh (di, v) =
    (if (case fmt v c of None \<Rightarrow> \<not> a | Some f \<Rightarrow> wh \<or> (ty \<noteq> 0 \<and> ty \<noteq> f)) then Some (Inr None, di, v)
     else Some (Inr (Some c), kept b c (br_id br)
               (ino = None \<and> fmt v c = Some S_IFDIR \<and> able \<and> fmt v (child c AUFS_WH_DIROPQ) \<noteq> None) di, got c v))"
proof -
  define rej where "rej = (case fmt v c of None \<Rightarrow> \<not> a | Some f \<Rightarrow> wh \<or> (ty \<noteq> 0 \<and> ty \<noteq> f))"
  have l: "live v c" unfolding c by (rule lower_live [OF ok])
  have f: "d_fmt (got c v) c = Some (fmt v c)" using got_fmt [OF l] live_fmt [OF l] by simp
  have ok': "lower_ok env child (got c v)" by (rule same_fs_lower [OF got_ok(3) [OF l] ok])
  have opq: "au_diropq_test env c (got c v) = Some (if fmt v (child c AUFS_WH_DIROPQ) = None then 0 else 1, got c v)"
    using diropq_test_ok [OF ok'] same_fs_fmt(2) [OF got_ok(3) [OF l]] by simp
  have lk: "(if ign then au_sio_lkup_one env p name v else lkup_one env False p name v) = Some (Inr c, got c v)"
    using lower_lkup [OF ok] c by simp
  let ?d1 = "if au_dbend di \<le> b then au_set_dbend b di else di"
  let ?d2 = "if au_dbstart ?d1 < 0 \<or> b < au_dbstart ?d1 then au_set_dbstart b ?d1 else ?d1"
  have d2: "?d2 = di\<lparr>di_bend := b, di_bstart := (if di_bstart di < 0 then b else di_bstart di)\<rparr>"
    using range by (auto simp: au_dbend_def au_dbstart_def au_set_dbend_def au_set_dbstart_def)
  have st: "au_set_h_dptr sbi b (Some c) (?d2, got c v)
      = Some (?d2\<lparr>di_hdentry := (di_hdentry di)[nat b := \<lparr>hd_dentry = Some c, hd_id = br_id br\<rparr>]\<rparr>, got c v)"
    using set_new_slot [OF br b(1), of ?d2 c "got c v"] b(2,3) unfolding d2 by (simp add: dslots_def)
  have "do_real_lookup env sbi ino name p b a ign able ty wh (di, v) =
    (if rej then Some (Inr None, di, v)
     else Option.bind (au_set_h_dptr sbi b (Some c) (?d2, got c v)) (\<lambda>(di3, v3).
          if fmt v c \<noteq> Some S_IFDIR \<or> \<not> able \<or> ino \<noteq> None then Some (Inr (Some c), di3, v3)
          else Option.bind (au_diropq_test env c v3) (\<lambda>(opq, v4).
               if 0 < opq then Some (Inr (Some c), au_set_dbdiropq b di3, v4)
               else if opq < 0 then map_option (\<lambda>(di5, v5). (Inl opq, di5, v5)) (au_set_h_dptr sbi b None (di3, v4))
               else Some (Inr (Some c), di3, v4))))"
    unfolding do_real_lookup_def Let_def prod.case lk bind.bind_lunit sum.case f rej_def
    using ino by (simp only: got_ok(2) [OF l] option.map prod.case simp_thms)
  also have "\<dots> = (if rej then Some (Inr None, di, v)
     else Some (Inr (Some c), kept b c (br_id br)
               (ino = None \<and> fmt v c = Some S_IFDIR \<and> able \<and> fmt v (child c AUFS_WH_DIROPQ) \<noteq> None) di, got c v))"
    unfolding st bind.bind_lunit prod.case opq unfolding d2 kept_def au_set_dbdiropq_def by auto
  finally show ?thesis unfolding rej_def .
qed

lemma do_lookup_ok:
  assumes ok: "lower_ok env child v" and br: "au_sbr sbi b = Some br"
    and b: "0 \<le> b" "b < int (length (di_hdentry di))" "dslots di ! nat b = None"
    and range: "di_bend di < b" "di_bstart di < b"
    and wh: "wh \<longleftrightarrow> au_br_whable (br_perm br) \<and> fmt v (child p (AUFS_WH_PFX @ name)) \<noteq> None"
    and c: "c = child p name" and ino: "ino \<noteq> Some S_IFDIR" and di1: "di1 = (if wh then au_set_dbwh b di else di)"
  shows "au_do_lookup env sbi ino name p b (AUFS_WH_PFX @ name) a ign ty (di, v) =
    (if (wh \<and> \<not> a) \<or> (case fmt v c of None \<Rightarrow> \<not> a | Some f \<Rightarrow> wh \<or> (ty \<noteq> 0 \<and> ty \<noteq> f))
     then Some (Inr None, di1, v)
     else Some (Inr (Some c), kept b c (br_id br)
            (ino = None \<and> fmt v c = Some S_IFDIR \<and> au_br_whable (br_perm br) \<and> fmt v (child c AUFS_WH_DIROPQ) \<noteq> None) di1,
          got c v))"
proof -
  let ?able = "au_br_whable (br_perm br)"
  have able: "au_sbr_whable sbi b = Some ?able" using br by (simp add: au_sbr_whable_def au_sbr_perm_def)
  have d1: "di_hdentry di1 = di_hdentry di" "di_bstart di1 = di_bstart di" "di_bend di1 = di_bend di"
    "dslots di1 = dslots di"
    by (simp_all add: di1 au_set_dbwh_def dslots_def)
  note real = do_real_ok [OF ok br b(1), of di1 ?able c p name ino a ign ty wh, unfolded d1, OF b(2,3) range refl c ino]
  have run: "au_do_lookup env sbi ino name p b (AUFS_WH_PFX @ name) a ign ty (di, v) =
      (if wh \<and> \<not> a then Some (Inr None, di1, v)
       else do_real_lookup env sbi ino name p b a ign ?able ty wh (di1, v))"
  proof (cases ?able)
    case True
    then have "au_wh_test env p (AUFS_WH_PFX @ name) False v = Some (if wh then 1 else 0, v)"
      using wh_test_ok [OF ok, of p name False] wh by simp
    then show ?thesis using able True by (cases wh) (simp_all add: au_do_lookup_def di1)
  next
    case False
    then have "\<not> wh" using wh by simp
    then show ?thesis using able False by (simp add: au_do_lookup_def di1)
  qed
  show ?thesis unfolding run real by auto
qed

section \<open>The union as a view\<close>

text \<open>
  What the branches hold for a name: whether the parent has a lower directory there, the type of
  the entry, whether a whiteout counts, whether the entry is an opaque directory, and its dentry.
\<close>

record lview =
  lv_dir :: "bindex \<Rightarrow> bool"
  lv_ent :: "bindex \<Rightarrow> int option"
  lv_wh :: "bindex \<Rightarrow> bool"
  lv_opq :: "bindex \<Rightarrow> bool"
  lv_child :: "bindex \<Rightarrow> dptr"

definition low_dir :: "vfs \<Rightarrow> au_dinfo \<Rightarrow> bindex \<Rightarrow> dptr option" where
  "low_dir v pdi b =
     (case au_h_dptr pdi v b of
        Some (Some p) \<Rightarrow> if fmt v p = Some S_IFDIR then Some p else None
      | _ \<Rightarrow> None)"

definition lower_view :: "(dptr \<Rightarrow> u8 list \<Rightarrow> dptr) \<Rightarrow> vfs \<Rightarrow> au_sbinfo \<Rightarrow> au_dinfo \<Rightarrow> u8 list \<Rightarrow> lview" where
  "lower_view child v sbi pdi name =
     (let kid = (\<lambda>b. child (the (low_dir v pdi b)) name);
          dir = (\<lambda>b. low_dir v pdi b \<noteq> None);
          ent = (\<lambda>b. if dir b then fmt v (kid b) else None);
          able = (\<lambda>b. au_sbr_whable sbi b = Some True)
      in \<lparr>lv_dir = dir, lv_ent = ent,
          lv_wh = (\<lambda>b. dir b \<and> able b \<and> fmt v (child (the (low_dir v pdi b)) (AUFS_WH_PFX @ name)) \<noteq> None),
          lv_opq = (\<lambda>b. ent b = Some S_IFDIR \<and> able b \<and> fmt v (child (kid b) AUFS_WH_DIROPQ) \<noteq> None),
          lv_child = kid\<rparr>)"

text \<open>A dentry that has an inode of another type than directory is not tested for opaque directories.\<close>

definition lookup_view :: "int option \<Rightarrow> (dptr \<Rightarrow> u8 list \<Rightarrow> dptr) \<Rightarrow> vfs \<Rightarrow> au_sbinfo \<Rightarrow> au_dinfo \<Rightarrow> u8 list \<Rightarrow> lview" where
  "lookup_view ino child v sbi pdi name =
     (let V = lower_view child v sbi pdi name in V\<lparr>lv_opq := (\<lambda>b. ino = None \<and> lv_opq V b)\<rparr>)"

lemma lookup_view_None [simp]: "lookup_view None child v sbi pdi name = lower_view child v sbi pdi name"
  by (simp add: lookup_view_def Let_def)

lemma lookup_view_fields [simp]:
  "lv_dir (lookup_view ino child v sbi pdi name) = lv_dir (lower_view child v sbi pdi name)"
  "lv_ent (lookup_view ino child v sbi pdi name) = lv_ent (lower_view child v sbi pdi name)"
  "lv_wh (lookup_view ino child v sbi pdi name) = lv_wh (lower_view child v sbi pdi name)"
  "lv_child (lookup_view ino child v sbi pdi name) = lv_child (lower_view child v sbi pdi name)"
  "lv_opq (lookup_view ino child v sbi pdi name) = (\<lambda>b. ino = None \<and> lv_opq (lower_view child v sbi pdi name) b)"
  by (simp_all add: lookup_view_def Let_def)

text \<open>
  The branches whose entries make up the name: up to the first whiteout; the first entry decides
  the type, a directory is merged with the directories below it. And the branch of the whiteout
  that ends the search, or -1.
\<close>

fun merged :: "lview \<Rightarrow> bool \<Rightarrow> bindex list \<Rightarrow> bindex list" where
  "merged V dir [] = []"
| "merged V dir (b # bs) =
     (if lv_wh V b then []
      else case lv_ent V b of
             None \<Rightarrow> merged V dir bs
           | Some f \<Rightarrow> if f = S_IFDIR then b # merged V True bs
                       else if dir then merged V dir bs else [b])"

fun wh_end :: "lview \<Rightarrow> bool \<Rightarrow> bindex list \<Rightarrow> bindex" where
  "wh_end V dir [] = - 1"
| "wh_end V dir (b # bs) =
     (if lv_wh V b then b
      else case lv_ent V b of
             None \<Rightarrow> wh_end V dir bs
           | Some f \<Rightarrow> if f = S_IFDIR then wh_end V True bs
                       else if dir then wh_end V dir bs else - 1)"

section \<open>One step\<close>

text \<open>
  The hypotheses about the parent: its table owns its lower dentries, the branches up to \<open>e\<close>
  exist, and the table of the dentry has a slot for each.
\<close>

definition lk_hyp :: "lkup_env \<Rightarrow> (dptr \<Rightarrow> u8 list \<Rightarrow> dptr) \<Rightarrow> vfs \<Rightarrow> au_sbinfo \<Rightarrow> au_dinfo \<Rightarrow> bindex \<Rightarrow> nat \<Rightarrow> bool" where
  "lk_hyp env child v sbi pdi e n \<longleftrightarrow> lower_ok env child v \<and> di_owns v pdi \<and> 0 \<le> au_dbstart pdi
     \<and> e < int (length (di_hdentry pdi)) \<and> e < int n
     \<and> (\<forall>d. Some d \<in> set (dslots pdi) \<longrightarrow> live v d)
     \<and> (\<forall>b. 0 \<le> b \<and> b \<le> e \<longrightarrow> au_sbr sbi b \<noteq> None)"

lemma di_owns_mono:
  assumes "same_fs v0 v" and "di_owns v0 di"
  shows "di_owns v di"
  unfolding di_owns_def
proof (intro allI impI)
  fix d
  assume "Some d \<in> set (dslots di)"
  then obtain m where m: "d_refs v0 d = Some m" "held (dslots di) d \<le> m" using assms(2) unfolding di_owns_def by blast
  then obtain x0 where x0: "dents v0 d = Some x0" "d_count x0 = m" by (auto simp: d_refs_def)
  then obtain x where "dents v d = Some x" "m \<le> d_count x" using assms(1) unfolding same_fs_def by metis
  then show "\<exists>n. d_refs v d = Some n \<and> held (dslots di) d \<le> n" using m(2) by (auto simp: d_refs_def)
qed

lemma parent_dptr:
  assumes "di_owns v0 pdi" and "0 \<le> au_dbstart pdi" and "same_fs v0 v" and "b < int (length (di_hdentry pdi))"
  shows "au_h_dptr pdi v b = Some (if b < au_dbstart pdi then None else dslots pdi ! nat b)"
proof (cases "b < au_dbstart pdi")
  case False
  then show ?thesis using au_h_dptr_slot [OF di_owns_mono [OF assms(3,1)], of b] assms(2,4) by simp
qed (simp add: au_h_dptr_def)

lemma low_dir_step:
  assumes hyp: "lk_hyp env child v0 sbi pdi e n" and b: "0 \<le> b" "b \<le> e" and v: "same_fs v0 v"
  shows "\<exists>h. au_h_dptr pdi v b = Some h \<and> (case h of None \<Rightarrow> low_dir v0 pdi b = None
     | Some p \<Rightarrow> d_fmt v p = Some (fmt v0 p) \<and> low_dir v0 pdi b = (if fmt v0 p = Some S_IFDIR then Some p else None))"
proof -
  have len: "b < int (length (di_hdentry pdi))" using hyp b by (simp add: lk_hyp_def)
  have own: "di_owns v0 pdi" "0 \<le> au_dbstart pdi" using hyp by (simp_all add: lk_hyp_def)
  define h where "h = (if b < au_dbstart pdi then None else dslots pdi ! nat b)"
  have hv: "au_h_dptr pdi v b = Some h" "au_h_dptr pdi v0 b = Some h"
    unfolding h_def by (rule parent_dptr [OF own v len], rule parent_dptr [OF own same_fs_refl len])
  show ?thesis
  proof (cases h)
    case None
    then show ?thesis using hv by (simp add: low_dir_def)
  next
    case (Some p)
    then have "dslots pdi ! nat b = Some p" by (simp add: h_def split: if_splits)
    moreover have "nat b < length (dslots pdi)" using len b by simp
    ultimately have "Some p \<in> set (dslots pdi)" using nth_mem by metis
    then have "live v0 p" using hyp by (simp add: lk_hyp_def)
    then have "d_fmt v p = Some (fmt v0 p)" using live_fmt same_fs_fmt(1) [OF v] by metis
    then show ?thesis using Some hv by (simp add: low_dir_def)
  qed
qed

lemma empty_slot:
  assumes "0 \<le> b" and "b < int (length (di_hdentry di))" and "dslots di ! nat b = None"
  shows "au_h_dptr di v b = Some None"
proof -
  have "nat b < length (di_hdentry di)" using assms by linarith
  then show ?thesis using assms by (simp add: au_h_dptr_def arr_get_def dslots_nth)
qed

lemma lkup_step_ok:
  assumes hyp: "lk_hyp env child v0 sbi pdi e n" and b: "0 \<le> b" "b \<le> e" and v: "same_fs v0 (lk_v s)"
    and V: "V = lookup_view ino child v0 sbi pdi name" and ino: "ino \<noteq> Some S_IFDIR"
    and n: "length (di_hdentry (lk_di s)) = n" and free: "dslots (lk_di s) ! nat b = None"
    and range: "di_bend (lk_di s) < b" "di_bstart (lk_di s) < b" and bwh: "di_bwh (lk_di s) = - 1"
    and s1: "s1 = s\<lparr>lk_allow_neg := False, lk_ignore_perm := lk_ignore_perm s \<or> dp\<rparr>"
    and di1: "di1 = (if lv_wh V b then au_set_dbwh b (lk_di s) else lk_di s)"
    and s2: "s2 = s1\<lparr>lk_di := kept b (lv_child V b) (br_id (the (au_sbr sbi b))) (lv_opq V b) di1,
                     lk_v := got (lv_child V b) (lk_v s)\<rparr>"
  shows "lkup_step env sbi pdi ino name (AUFS_WH_PFX @ name) 0 dp b s =
    (if \<not> lv_dir V b then Some (False, s)
     else if (lv_wh V b \<and> \<not> lk_allow_neg s) \<or> (case lv_ent V b of
                 None \<Rightarrow> \<not> lk_allow_neg s
               | Some f \<Rightarrow> lv_wh V b \<or> (lk_type s \<noteq> 0 \<and> lk_type s \<noteq> f))
     then Some (lv_wh V b, s1\<lparr>lk_di := di1\<rparr>)
     else case lv_ent V b of
            None \<Rightarrow> Some (lv_wh V b, s2)
          | Some f \<Rightarrow> let ty = (if lk_type s = 0 then f else lk_type s)
                      in Some (ty \<noteq> S_IFDIR, s2\<lparr>lk_npositive := lk_npositive s + 1, lk_type := ty\<rparr>))"
proof -
  have bl: "b < int (length (di_hdentry (lk_di s)))" using hyp b n by (simp add: lk_hyp_def)
  note none = empty_slot [OF b(1) bl free, of "lk_v s"]
  obtain h where h: "au_h_dptr pdi (lk_v s) b = Some h" "case h of None \<Rightarrow> low_dir v0 pdi b = None
     | Some p \<Rightarrow> d_fmt (lk_v s) p = Some (fmt v0 p) \<and> low_dir v0 pdi b = (if fmt v0 p = Some S_IFDIR then Some p else None)"
    using low_dir_step [OF hyp b v] by blast
  show ?thesis
  proof (cases "low_dir v0 pdi b")
    case None
    then have "\<not> lv_dir V b" by (simp add: V lower_view_def Let_def)
    moreover have "lkup_step env sbi pdi ino name (AUFS_WH_PFX @ name) 0 dp b s = Some (False, s)"
      using None h by (cases h) (auto simp: lkup_step_def none split: if_splits)
    ultimately show ?thesis by simp
  next
    case (Some p)
    then have p: "h = Some p" "d_fmt (lk_v s) p = Some (Some S_IFDIR)"
      using h(2) by (auto split: option.splits if_splits)
    obtain br where br: "au_sbr sbi b = Some br" using hyp b by (auto simp: lk_hyp_def)
    have able: "au_sbr_whable sbi b = Some True \<longleftrightarrow> au_br_whable (br_perm br)"
      using br by (simp add: au_sbr_whable_def au_sbr_perm_def)
    let ?c = "child p name"
    have low: "lower_ok env child v0" using hyp by (simp add: lk_hyp_def)
    have ok: "lower_ok env child (lk_v s)" by (rule same_fs_lower [OF v low])
    have f: "fmt (lk_v s) = fmt v0" by (rule same_fs_fmt(2) [OF v])
    have view: "lv_dir V b" "lv_child V b = ?c" "lv_ent V b = fmt v0 ?c"
      "lv_wh V b \<longleftrightarrow> au_br_whable (br_perm br) \<and> fmt (lk_v s) (child p (AUFS_WH_PFX @ name)) \<noteq> None"
      "lv_opq V b \<longleftrightarrow> ino = None \<and> fmt v0 ?c = Some S_IFDIR \<and> au_br_whable (br_perm br) \<and> fmt v0 (child ?c AUFS_WH_DIROPQ) \<noteq> None"
      using Some by (simp_all add: V lower_view_def Let_def able f)
    define rej where "rej \<longleftrightarrow> (lv_wh V b \<and> \<not> lk_allow_neg s) \<or> (case fmt v0 ?c of
                 None \<Rightarrow> \<not> lk_allow_neg s
               | Some f \<Rightarrow> lv_wh V b \<or> (lk_type s \<noteq> 0 \<and> lk_type s \<noteq> f))"
    let ?kept = "kept b ?c (br_id br) (lv_opq V b) di1"
    note lk = do_lookup_ok [OF ok br b(1) bl free range view(4) refl ino di1,
        of "lk_allow_neg s" "lk_ignore_perm s" "lk_type s", unfolded f, folded view(5), folded rej_def]
    have live: "live (lk_v s) ?c" by (rule lower_live [OF ok])
    have fc: "d_fmt (got ?c (lk_v s)) ?c = Some (fmt v0 ?c)" using got_fmt [OF live] live_fmt [OF live] f by simp
    have run: "lkup_step env sbi pdi ino name (AUFS_WH_PFX @ name) 0 dp b s =
      (if rej then lkup_found ino dp b None (s\<lparr>lk_di := di1, lk_v := lk_v s\<rparr>)
       else lkup_found ino dp b (Some ?c) (s\<lparr>lk_di := ?kept, lk_v := got ?c (lk_v s)\<rparr>))"
      by (simp add: lkup_step_def none h(1) p lk)
    have wh: "0 \<le> au_dbwh di1 \<longleftrightarrow> lv_wh V b" "0 \<le> au_dbwh (kept b ?c (br_id br) q di1) \<longleftrightarrow> lv_wh V b" for q
      using bwh b(1) by (simp_all add: di1 au_dbwh_def au_set_dbwh_def kept_def)
    have s2': "s2 = s1\<lparr>lk_di := ?kept, lk_v := got ?c (lk_v s)\<rparr>" using s2 br view(2) by simp
    have c: "((lv_wh V b \<and> \<not> lk_allow_neg s) \<or> (case lv_ent V b of
                 None \<Rightarrow> \<not> lk_allow_neg s
               | Some f \<Rightarrow> lv_wh V b \<or> (lk_type s \<noteq> 0 \<and> lk_type s \<noteq> f))) = rej"
      unfolding rej_def view(3) by simp
    note facts = lkup_found_def wh s1 Let_def fc ino
    show ?thesis
    proof (cases rej)
      case True
      then show ?thesis unfolding run c using view(1) by (simp add: facts)
    next
      case False
      show ?thesis
      proof (cases "fmt v0 ?c")
        case None
        then show ?thesis using False view(1,3) unfolding run s2' c by (simp add: facts)
      next
        case (Some y)
        then have "\<not> lv_wh V b" using False by (simp add: rej_def)
        then show ?thesis using Some False view(1,3) unfolding run s2' c by (simp add: facts)
      qed
    qed
  qed
qed

section \<open>The loop\<close>

text \<open>
  The table holds the dentries \<open>D\<close>, with one more reference for each than before the lookup.
\<close>

definition lk_at :: "vfs \<Rightarrow> nat \<Rightarrow> (bindex \<Rightarrow> dptr option) \<Rightarrow> lkup \<Rightarrow> bool" where
  "lk_at v0 n D s \<longleftrightarrow> dslots (lk_di s) = map (\<lambda>k. D (int k)) [0..<n] \<and> same_fs v0 (lk_v s)
     \<and> d_refs (lk_v s) = (\<lambda>d. map_option (\<lambda>m. m + held (dslots (lk_di s)) d) (d_refs v0 d))
     \<and> (\<forall>j d. D j = Some d \<longrightarrow> live v0 d) \<and> lk_err s = 0"

text \<open>
  \<open>lk_res\<close>: the branches \<open>M\<close> were added to the table and to its range, the last opaque one of
  them was recorded, and the whiteout \<open>w\<close>.
\<close>

definition lk_res :: "vfs \<Rightarrow> nat \<Rightarrow> lview \<Rightarrow> (bindex \<Rightarrow> dptr option) \<Rightarrow> au_dinfo \<Rightarrow> bindex list \<Rightarrow> bindex \<Rightarrow> lkup \<Rightarrow> bool"
where
  "lk_res v0 n V D di M w s' \<longleftrightarrow> lk_at v0 n (\<lambda>j. if j \<in> set M then Some (lv_child V j) else D j) s'
     \<and> di_bstart (lk_di s') = (if di_bstart di < 0 \<and> M \<noteq> [] then hd M else di_bstart di)
     \<and> di_bend (lk_di s') = (if M = [] then di_bend di else last M)
     \<and> di_bwh (lk_di s') = w
     \<and> di_bdiropq (lk_di s') = (if filter (lv_opq V) M = [] then di_bdiropq di
                                else last (filter (lv_opq V) M))"

lemma lk_res_Nil:
  assumes "lk_at v0 n D s" and "lk_di s' = (lk_di s)\<lparr>di_bwh := w\<rparr>" and "lk_v s' = lk_v s" and "lk_err s' = lk_err s"
  shows "lk_res v0 n V D (lk_di s) [] w s'"
  using assms by (simp add: lk_res_def lk_at_def dslots_def)

lemma lk_at_kept:
  assumes at: "lk_at v0 n D s" and b: "0 \<le> b" "b < int n" "D b = None" and c: "live v0 c"
    and s': "dslots (lk_di s') = (dslots (lk_di s))[nat b := Some c]" "lk_v s' = got c (lk_v s)" "lk_err s' = lk_err s"
  shows "lk_at v0 n (D(b := Some c)) s'"
proof -
  let ?sl = "dslots (lk_di s)"
  have A: "?sl = map (\<lambda>k. D (int k)) [0..<n]" "same_fs v0 (lk_v s)"
    "d_refs (lk_v s) = (\<lambda>d. map_option (\<lambda>m. m + held ?sl d) (d_refs v0 d))"
    "\<forall>j d. D j = Some d \<longrightarrow> live v0 d" "lk_err s = 0"
    using at unfolding lk_at_def by blast+
  have nb: "nat b < n" "int (nat b) = b" using b by linarith+
  have l: "live (lk_v s) c" by (rule same_fs_live [OF A(2) c])
  have sl: "dslots (lk_di s') = map (\<lambda>k. (D(b := Some c)) (int k)) [0..<n]"
    unfolding s'(1) A(1) by (rule nth_equalityI) (use nb in \<open>auto simp: nth_list_update\<close>)
  have "?sl ! nat b = None" using A(1) nb b(3) by simp
  moreover have "nat b < length ?sl" using A(1) nb by simp
  ultimately have held: "held (dslots (lk_di s')) d = held ?sl d + (if d = c then 1 else 0)" for d
    using held_update [of "nat b" ?sl "Some c" d] s'(1) by auto
  have "d_refs (lk_v s') = (\<lambda>d. map_option (\<lambda>m. m + held (dslots (lk_di s')) d) (d_refs v0 d))"
  proof
    fix d
    show "d_refs (lk_v s') d = map_option (\<lambda>m. m + held (dslots (lk_di s')) d) (d_refs v0 d)"
      unfolding s'(2) got_ok(4) [OF l] held
      by (cases "d_refs v0 d") (auto simp: A(3))
  qed
  moreover have "same_fs v0 (lk_v s')" unfolding s'(2) by (rule same_fs_trans [OF A(2) got_ok(3) [OF l]])
  ultimately show ?thesis using sl A(4,5) c s'(3) by (simp add: lk_at_def)
qed

lemma lk_res_Cons:
  assumes r: "lk_res v0 n V (D(b := Some (lv_child V b))) (lk_di s1) M w s'" and b: "0 \<le> b"
    and s1: "di_bstart (lk_di s1) = (if di_bstart (lk_di s) < 0 then b else di_bstart (lk_di s))"
      "di_bend (lk_di s1) = b" "di_bdiropq (lk_di s1) = (if lv_opq V b then b else di_bdiropq (lk_di s))"
  shows "lk_res v0 n V D (lk_di s) (b # M) w s'"
proof -
  have "(\<lambda>j. if j \<in> set M then Some (lv_child V j) else (D(b := Some (lv_child V b))) j)
      = (\<lambda>j. if j \<in> set (b # M) then Some (lv_child V j) else D j)" by (auto simp: fun_eq_iff)
  then show ?thesis using r s1 b by (auto simp: lk_res_def)
qed

lemma view_nodir: "\<not> lv_dir (lower_view child v sbi pdi name) b \<Longrightarrow>
    lv_ent (lower_view child v sbi pdi name) b = None \<and> \<not> lv_wh (lower_view child v sbi pdi name) b"
  by (simp add: lower_view_def Let_def)

lemma view_opq: "lv_opq (lower_view child v sbi pdi name) b \<Longrightarrow> lv_ent (lower_view child v sbi pdi name) b = Some S_IFDIR"
  by (simp add: lower_view_def Let_def)

lemma view_live: "lower_ok env child v \<Longrightarrow> live v (lv_child (lower_view child v sbi pdi name) b)"
  using lower_live by (simp add: lower_view_def Let_def)

text \<open>The state after a branch was added.\<close>

lemma kept_fields:
  "di_bstart (kept b c i q di) = (if di_bstart di < 0 then b else di_bstart di)"
  "di_bend (kept b c i q di) = b" "di_bdiropq (kept b c i q di) = (if q then b else di_bdiropq di)"
  "di_bwh (kept b c i q di) = di_bwh di"
  "dslots (kept b c i q di) = (dslots di)[nat b := Some c]"
  by (simp_all add: kept_def dslots_def map_update)

lemma lkup_rest:
  assumes hyp: "lk_hyp env child v0 sbi pdi e n" and V: "V = lookup_view ino child v0 sbi pdi name" and ino: "ino \<noteq> Some S_IFDIR"
  shows "\<lbrakk>lk_at v0 n D s; \<not> lk_allow_neg s; di_bwh (lk_di s) = - 1; lk_type s = (if dir then S_IFDIR else 0);
      0 \<le> b; \<forall>j \<ge> b. D j = None; di_bend (lk_di s) < b; di_bstart (lk_di s) < b\<rbrakk>
    \<Longrightarrow> \<exists>stop s'. scan_up (lkup_step env sbi pdi ino name (AUFS_WH_PFX @ name) 0 dp) b e s = Some (stop, s')
      \<and> lk_res v0 n V D (lk_di s) (merged V dir [b..e]) (wh_end V dir [b..e]) s'
      \<and> lk_npositive s' = lk_npositive s + int (length (merged V dir [b..e]))"
proof (induction "nat (e + 1 - b)" arbitrary: b s D dir)
  case 0
  then have "e < b" by linarith
  then have "scan_up (lkup_step env sbi pdi ino name (AUFS_WH_PFX @ name) 0 dp) b e s = Some (False, s)"
    "[b..e] = []" by (simp_all add: scan_up_step)
  then show ?case using 0 lk_res_Nil [of v0 n D s s "- 1" V]
    by (intro exI [of _ False] exI [of _ s]) simp
next
  case (Suc k)
  note at = Suc.prems(1) and an = Suc.prems(2) and bwh = Suc.prems(3) and ty = Suc.prems(4) and b0 = Suc.prems(5)
    and free = Suc.prems(6) and range = Suc.prems(7,8)
  have be: "b \<le> e" and k: "k = nat (e + 1 - (b + 1))" using Suc.hyps(2) by linarith+
  have upto: "[b..e] = b # [b + 1..e]" using be by (simp add: upto_rec1)
  let ?step = "lkup_step env sbi pdi ino name (AUFS_WH_PFX @ name) 0 dp"
  have slots: "dslots (lk_di s) = map (\<lambda>k. D (int k)) [0..<n]" and v: "same_fs v0 (lk_v s)"
    using at unfolding lk_at_def by blast+
  have bn: "b < int n" using hyp be by (simp add: lk_hyp_def)
  have n: "length (di_hdentry (lk_di s)) = n" using arg_cong [OF slots, of length] by simp
  have bf: "dslots (lk_di s) ! nat b = None" using slots bn b0 free by (simp add: nth_map)
  define s1 where "s1 = s\<lparr>lk_allow_neg := False, lk_ignore_perm := lk_ignore_perm s \<or> dp\<rparr>"
  define di1 where "di1 = (if lv_wh V b then au_set_dbwh b (lk_di s) else lk_di s)"
  define s2 where "s2 = s1\<lparr>lk_di := kept b (lv_child V b) (br_id (the (au_sbr sbi b))) (lv_opq V b) di1,
                     lk_v := got (lv_child V b) (lk_v s)\<rparr>"
  note step = lkup_step_ok [OF hyp b0 be v V ino n bf range bwh s1_def di1_def s2_def]
  text \<open>Going on with a state that differs in what does not matter.\<close>
  have go: "\<exists>stop s'. scan_up ?step b e s = Some (stop, s')
      \<and> lk_res v0 n V D (lk_di s) (merged V dir [b + 1..e]) (wh_end V dir [b + 1..e]) s'
      \<and> lk_npositive s' = lk_npositive s + int (length (merged V dir [b + 1..e]))"
    if t: "?step b s = Some (False, t)" and e: "lk_di t = lk_di s" "lk_v t = lk_v s" "lk_err t = lk_err s"
      "lk_npositive t = lk_npositive s" "\<not> lk_allow_neg t" "lk_type t = lk_type s" for t
  proof -
    have "lk_at v0 n D t" using at e by (simp add: lk_at_def)
    moreover have "\<forall>j \<ge> b + 1. D j = None" using free by simp
    moreover have "di_bwh (lk_di t) = - 1" "lk_type t = (if dir then S_IFDIR else 0)" "di_bend (lk_di t) < b + 1"
      "di_bstart (lk_di t) < b + 1" "0 \<le> b + 1" using bwh ty range e b0 by simp_all
    ultimately have "\<exists>stop s'. scan_up ?step (b + 1) e t = Some (stop, s')
      \<and> lk_res v0 n V D (lk_di t) (merged V dir [b + 1..e]) (wh_end V dir [b + 1..e]) s'
      \<and> lk_npositive s' = lk_npositive t + int (length (merged V dir [b + 1..e]))"
      using Suc.hyps(1) [OF k] e(5) by blast
    moreover have "scan_up ?step b e s = scan_up ?step (b + 1) e t"
      by (rule scan_up_step(3) [OF be]) (rule t)
    ultimately show ?thesis using e by simp
  qed
  show ?case
  proof (cases "lv_dir V b")
    case False
    then have "merged V dir [b..e] = merged V dir [b + 1..e]" "wh_end V dir [b..e] = wh_end V dir [b + 1..e]"
      using view_nodir [of child v0 sbi pdi name] V by (simp_all add: upto)
    then show ?thesis using go [of s] step False an by simp
  next
    case d: True
    show ?thesis
    proof (cases "lv_wh V b")
      case True
      let ?t = "s1\<lparr>lk_di := di1\<rparr>"
      have "?step b s = Some (True, ?t)" using step d True an by simp
      then have "scan_up ?step b e s = Some (True, ?t)" by (rule scan_up_step(2) [OF be])
      moreover have "lk_res v0 n V D (lk_di s) [] b ?t"
        by (rule lk_res_Nil [OF at]) (simp_all add: True di1_def s1_def au_set_dbwh_def)
      moreover have "lk_npositive ?t = lk_npositive s" by (simp add: s1_def)
      ultimately show ?thesis using True by (intro exI [of _ True] exI [of _ ?t]) (simp add: upto)
    next
      case nowh: False
      have di1: "di1 = lk_di s" by (simp add: di1_def nowh)
      have same: "lk_di (s1\<lparr>lk_di := di1\<rparr>) = lk_di s" "lk_v (s1\<lparr>lk_di := di1\<rparr>) = lk_v s"
        "lk_err (s1\<lparr>lk_di := di1\<rparr>) = lk_err s" "lk_npositive (s1\<lparr>lk_di := di1\<rparr>) = lk_npositive s"
        "\<not> lk_allow_neg (s1\<lparr>lk_di := di1\<rparr>)" "lk_type (s1\<lparr>lk_di := di1\<rparr>) = lk_type s"
        by (simp_all add: di1 s1_def)
      show ?thesis
      proof (cases "lv_ent V b")
        case None
        then have "?step b s = Some (False, s1\<lparr>lk_di := di1\<rparr>)" using step d nowh an by simp
        from go [OF this same] show ?thesis using None nowh by (simp add: upto)
      next
        case (Some f)
        show ?thesis
        proof (cases "dir \<and> f \<noteq> S_IFDIR")
          case True
          have "S_IFDIR \<noteq> 0" by (simp add: S_IFDIR_def)
          then have "?step b s = Some (False, s1\<lparr>lk_di := di1\<rparr>)" using step d nowh an Some True ty by simp
          from go [OF this same] show ?thesis using Some nowh True by (simp add: upto)
        next
          case False
          define ty' where "ty' = (if lk_type s = 0 then f else lk_type s)"
          let ?t = "s2\<lparr>lk_npositive := lk_npositive s + 1, lk_type := ty'\<rparr>"
          have t': "ty' = f" "lk_type s = 0 \<or> lk_type s = f" using False ty by (auto simp: ty'_def)
          have st: "?step b s = Some (f \<noteq> S_IFDIR, ?t)" using step d nowh an Some t' by (auto simp: Let_def ty'_def)
          have l: "live v0 (lv_child V b)"
            unfolding V lookup_view_fields using hyp by (intro view_live [of env]) (simp add: lk_hyp_def)
          have at': "lk_at v0 n (D(b := Some (lv_child V b))) ?t"
            by (rule lk_at_kept [OF at b0 bn _ l]) (use free in \<open>simp_all add: s2_def s1_def kept_fields di1\<close>)
          have fields: "di_bstart (lk_di ?t) = (if di_bstart (lk_di s) < 0 then b else di_bstart (lk_di s))"
            "di_bend (lk_di ?t) = b" "di_bdiropq (lk_di ?t) = (if lv_opq V b then b else di_bdiropq (lk_di s))"
            "di_bwh (lk_di ?t) = - 1" "\<not> lk_allow_neg ?t"
            by (simp_all add: s2_def s1_def kept_fields di1 bwh)
          show ?thesis
          proof (cases "f = S_IFDIR")
            case dir: True
            have "\<forall>j \<ge> b + 1. (D(b := Some (lv_child V b))) j = None" using free by simp
            moreover have "lk_type ?t = (if True then S_IFDIR else 0)" using t'(1) dir by simp
            moreover have "di_bend (lk_di ?t) < b + 1" "di_bstart (lk_di ?t) < b + 1" "0 \<le> b + 1"
              using fields(1,2) range b0 by simp_all
            ultimately obtain stop s' where r: "scan_up ?step (b + 1) e ?t = Some (stop, s')"
              "lk_res v0 n V (D(b := Some (lv_child V b))) (lk_di ?t) (merged V True [b + 1..e]) (wh_end V True [b + 1..e]) s'"
              "lk_npositive s' = lk_npositive ?t + int (length (merged V True [b + 1..e]))"
              using Suc.hyps(1) [OF k at' fields(5,4)] by blast
            have "?step b s = Some (False, ?t)" using st dir by simp
            then have "scan_up ?step b e s = scan_up ?step (b + 1) e ?t" by (rule scan_up_step(3) [OF be])
            then have "scan_up ?step b e s = Some (stop, s')" using r(1) by simp
            then show ?thesis using lk_res_Cons [OF r(2) b0 fields(1-3)] r(3) Some nowh dir by (simp add: upto)
          next
            case "file": False
            then have nd: "\<not> dir" using False by blast
            have "?step b s = Some (True, ?t)" using st "file" by simp
            then have "scan_up ?step b e s = Some (True, ?t)" by (rule scan_up_step(2) [OF be])
            moreover have "lk_res v0 n V (D(b := Some (lv_child V b))) (lk_di ?t) [] (- 1) ?t"
              by (rule lk_res_Nil [OF at']) (use fields(4) in simp_all)
            ultimately show ?thesis using lk_res_Cons [OF _ b0 fields(1-3), of v0 n D "[]" "- 1" ?t] Some nowh "file" nd
              by (intro exI [of _ True] exI [of _ ?t]) (simp add: upto s2_def s1_def)
          qed
        qed
      qed
    qed
  qed
qed

text \<open>
  The first branch where the parent has a directory: its negative dentry is kept.
\<close>

fun first_neg :: "lview \<Rightarrow> bindex list \<Rightarrow> bindex list" where
  "first_neg V [] = []"
| "first_neg V (b # bs) =
     (if lv_dir V b then (if lv_ent V b = None then [b] else []) else first_neg V bs)"

lemma lkup_first:
  assumes hyp: "lk_hyp env child v0 sbi pdi e n" and V: "V = lookup_view ino child v0 sbi pdi name" and ino: "ino \<noteq> Some S_IFDIR"
  shows "\<lbrakk>lk_at v0 n (\<lambda>j. None) s; lk_allow_neg s; di_bwh (lk_di s) = - 1; lk_type s = 0;
      0 \<le> b; di_bend (lk_di s) < b; di_bstart (lk_di s) < b; M = merged V False [b..e]\<rbrakk>
    \<Longrightarrow> \<exists>stop s'. scan_up (lkup_step env sbi pdi ino name (AUFS_WH_PFX @ name) 0 dp) b e s = Some (stop, s')
      \<and> lk_res v0 n V (\<lambda>j. None) (lk_di s) (first_neg V [b..e] @ M) (wh_end V False [b..e]) s'
      \<and> lk_npositive s' = lk_npositive s + int (length M)"
proof (induction "nat (e + 1 - b)" arbitrary: b M)
  case 0
  then have "e < b" by linarith
  then have "scan_up (lkup_step env sbi pdi ino name (AUFS_WH_PFX @ name) 0 dp) b e s = Some (False, s)"
    "[b..e] = []" by (simp_all add: scan_up_step)
  then show ?case using 0 lk_res_Nil [of v0 n "\<lambda>j. None" s s "- 1" V]
    by (intro exI [of _ False] exI [of _ s]) simp
next
  case (Suc k)
  note at = Suc.prems(1) and a = Suc.prems(2) and bwh = Suc.prems(3) and ty = Suc.prems(4) and b0 = Suc.prems(5)
    and range = Suc.prems(6,7) and M = Suc.prems(8)
  have be: "b \<le> e" and k: "k = nat (e + 1 - (b + 1))" using Suc.hyps(2) by linarith+
  have upto: "[b..e] = b # [b + 1..e]" using be by (simp add: upto_rec1)
  let ?step = "lkup_step env sbi pdi ino name (AUFS_WH_PFX @ name) 0 dp"
  have slots: "dslots (lk_di s) = map (\<lambda>k. None) [0..<n]" and v: "same_fs v0 (lk_v s)"
    using at unfolding lk_at_def by blast+
  have bn: "b < int n" using hyp be by (simp add: lk_hyp_def)
  have n: "length (di_hdentry (lk_di s)) = n" using arg_cong [OF slots, of length] by simp
  have bf: "dslots (lk_di s) ! nat b = None" using slots bn b0 by (simp add: nth_map)
  define s1 where "s1 = s\<lparr>lk_allow_neg := False, lk_ignore_perm := lk_ignore_perm s \<or> dp\<rparr>"
  define di1 where "di1 = (if lv_wh V b then au_set_dbwh b (lk_di s) else lk_di s)"
  define s2 where "s2 = s1\<lparr>lk_di := kept b (lv_child V b) (br_id (the (au_sbr sbi b))) (lv_opq V b) di1,
                     lk_v := got (lv_child V b) (lk_v s)\<rparr>"
  note step = lkup_step_ok [OF hyp b0 be v V ino n bf range bwh s1_def di1_def s2_def]
  let ?D = "(\<lambda>j. None)(b := Some (lv_child V b))"
  have l: "live v0 (lv_child V b)" unfolding V lookup_view_fields using hyp by (intro view_live [of env]) (simp add: lk_hyp_def)
  have d1: "dslots di1 = dslots (lk_di s)" "di_bstart di1 = di_bstart (lk_di s)" "di_bdiropq di1 = di_bdiropq (lk_di s)"
    "di_bwh di1 = (if lv_wh V b then b else - 1)"
    by (simp_all add: di1_def au_set_dbwh_def dslots_def bwh)
  text \<open>The state in which the dentry of this branch was kept, with another count and type.\<close>
  have at2: "lk_at v0 n ?D (s2\<lparr>lk_npositive := x, lk_type := y\<rparr>)" for x y
    by (rule lk_at_kept [OF at b0 bn refl l]) (simp_all add: s2_def s1_def kept_fields d1)
  have at2': "lk_at v0 n ?D s2"
    by (rule lk_at_kept [OF at b0 bn refl l]) (simp_all add: s2_def s1_def kept_fields d1)
  have fields: "di_bstart (lk_di s2) = (if di_bstart (lk_di s) < 0 then b else di_bstart (lk_di s))"
    "di_bend (lk_di s2) = b" "di_bdiropq (lk_di s2) = (if lv_opq V b then b else di_bdiropq (lk_di s))"
    "di_bwh (lk_di s2) = (if lv_wh V b then b else - 1)" "\<not> lk_allow_neg s2" "lk_npositive s2 = lk_npositive s"
    "lk_type s2 = 0"
    by (simp_all add: s2_def s1_def kept_fields d1 ty)
  have later: "\<forall>j \<ge> b + 1. ?D j = None" by simp
  show ?case
  proof (cases "lv_dir V b")
    case False
    have "?step b s = Some (False, s)" using step False by simp
    then have "scan_up ?step b e s = scan_up ?step (b + 1) e s" by (rule scan_up_step(3) [OF be])
    moreover have "M = merged V False [b + 1..e]" "wh_end V False [b..e] = wh_end V False [b + 1..e]"
      using M view_nodir [of child v0 sbi pdi name] V False by (simp_all add: upto)
    moreover have "\<exists>stop s'. scan_up ?step (b + 1) e s = Some (stop, s')
      \<and> lk_res v0 n V (\<lambda>j. None) (lk_di s) (first_neg V [b + 1..e] @ merged V False [b + 1..e])
          (wh_end V False [b + 1..e]) s'
      \<and> lk_npositive s' = lk_npositive s + int (length (merged V False [b + 1..e]))"
      by (rule Suc.hyps(1) [OF k at a bwh ty _ _ _ refl]) (use b0 range in simp_all)
    ultimately show ?thesis using False by (simp add: upto)
  next
    case d: True
    show ?thesis
    proof (cases "lv_ent V b")
      case None
      note neg = None
      have st: "?step b s = Some (lv_wh V b, s2)" using step d None a by simp
      show ?thesis
      proof (cases "lv_wh V b")
        case True
        have "?step b s = Some (True, s2)" using st True by simp
        then have "scan_up ?step b e s = Some (True, s2)" by (rule scan_up_step(2) [OF be])
        moreover have "lk_res v0 n V ?D (lk_di s2) [] b s2"
          by (rule lk_res_Nil [OF at2']) (use fields(4) True in simp_all)
        then have "lk_res v0 n V (\<lambda>j. None) (lk_di s) [b] b s2" by (rule lk_res_Cons [OF _ b0 fields(1-3)])
        ultimately show ?thesis using M d neg True fields(6)
          by (intro exI [of _ True] exI [of _ s2]) (simp add: upto)
      next
        case False
        have "?step b s = Some (False, s2)" using st False by simp
        then have "scan_up ?step b e s = scan_up ?step (b + 1) e s2" by (rule scan_up_step(3) [OF be])
        moreover have "\<exists>stop s'. scan_up ?step (b + 1) e s2 = Some (stop, s')
          \<and> lk_res v0 n V ?D (lk_di s2) (merged V False [b + 1..e]) (wh_end V False [b + 1..e]) s'
          \<and> lk_npositive s' = lk_npositive s2 + int (length (merged V False [b + 1..e]))"
          by (rule lkup_rest [OF hyp V ino at2' fields(5) _ _ _ later])
            (use fields(1,2,4,7) False b0 range in simp_all)
        ultimately obtain stop s' where r: "scan_up ?step b e s = Some (stop, s')"
          "lk_res v0 n V ?D (lk_di s2) (merged V False [b + 1..e]) (wh_end V False [b + 1..e]) s'"
          "lk_npositive s' = lk_npositive s2 + int (length (merged V False [b + 1..e]))"
          by (elim exE conjE) (rule that, simp_all)
        show ?thesis using lk_res_Cons [OF r(2) b0 fields(1-3)] r(1,3) M d neg False fields(6)
          by (intro exI [of _ stop] exI [of _ s']) (simp add: upto)
      qed
    next
      case (Some f)
      note pos = Some
      show ?thesis
      proof (cases "lv_wh V b")
        case True
        let ?t = "s1\<lparr>lk_di := di1\<rparr>"
        have "?step b s = Some (True, ?t)" using step d Some True by simp
        then have "scan_up ?step b e s = Some (True, ?t)" by (rule scan_up_step(2) [OF be])
        moreover have "lk_res v0 n V (\<lambda>j. None) (lk_di s) [] b ?t"
          by (rule lk_res_Nil [OF at]) (simp_all add: True di1_def s1_def au_set_dbwh_def)
        moreover have "lk_npositive ?t = lk_npositive s" by (simp add: s1_def)
        ultimately show ?thesis using M d pos True
          by (intro exI [of _ True] exI [of _ ?t]) (simp add: upto)
      next
        case nowh: False
        let ?t = "s2\<lparr>lk_npositive := lk_npositive s + 1, lk_type := f\<rparr>"
        have st: "?step b s = Some (f \<noteq> S_IFDIR, ?t)" using step d pos nowh ty a by (simp add: Let_def)
        have tf: "di_bstart (lk_di ?t) = (if di_bstart (lk_di s) < 0 then b else di_bstart (lk_di s))"
          "di_bend (lk_di ?t) = b" "di_bdiropq (lk_di ?t) = (if lv_opq V b then b else di_bdiropq (lk_di s))"
          "di_bwh (lk_di ?t) = - 1" "\<not> lk_allow_neg ?t"
          using fields(1-5) nowh by simp_all
        show ?thesis
        proof (cases "f = S_IFDIR")
          case True
          have "?step b s = Some (False, ?t)" using st True by simp
          then have "scan_up ?step b e s = scan_up ?step (b + 1) e ?t" by (rule scan_up_step(3) [OF be])
          moreover have "\<exists>stop s'. scan_up ?step (b + 1) e ?t = Some (stop, s')
            \<and> lk_res v0 n V ?D (lk_di ?t) (merged V True [b + 1..e]) (wh_end V True [b + 1..e]) s'
            \<and> lk_npositive s' = lk_npositive ?t + int (length (merged V True [b + 1..e]))"
            by (rule lkup_rest [OF hyp V ino at2 tf(5,4) _ _ later]) (use tf(1,2) b0 range True in simp_all)
          ultimately obtain stop s' where r: "scan_up ?step b e s = Some (stop, s')"
            "lk_res v0 n V ?D (lk_di ?t) (merged V True [b + 1..e]) (wh_end V True [b + 1..e]) s'"
            "lk_npositive s' = lk_npositive ?t + int (length (merged V True [b + 1..e]))"
            by (elim exE conjE) (rule that, simp_all)
          show ?thesis using lk_res_Cons [OF r(2) b0 tf(1-3)] r(1,3) M d pos nowh True
            by (intro exI [of _ stop] exI [of _ s']) (simp add: upto)
        next
          case False
          have "?step b s = Some (True, ?t)" using st False by simp
          then have "scan_up ?step b e s = Some (True, ?t)" by (rule scan_up_step(2) [OF be])
          moreover have "lk_res v0 n V ?D (lk_di ?t) [] (- 1) ?t"
            by (rule lk_res_Nil [OF at2]) (use tf(4) in simp_all)
          then have "lk_res v0 n V (\<lambda>j. None) (lk_di s) [b] (- 1) ?t" by (rule lk_res_Cons [OF _ b0 tf(1-3)])
          ultimately show ?thesis using M d pos nowh False
            by (intro exI [of _ True] exI [of _ ?t]) (simp add: upto)
        qed
      qed
    qed
  qed
qed

end
