(* ===== verification/Lookup_Found.thy ===== *)
theory Lookup_Found
  imports Lookup_Union Dir_Empty
begin

text \<open>
  The result of \<open>au_lkup_dentry\<close> for a name that is looked up for the first time, the directory that
  is opaque in two branches, and the agreement of \<open>lookup\<close> with \<open>readdir\<close>.
\<close>

section \<open>The branches of the union\<close>

lemma merged_ent: "b \<in> set (merged V dir bs) \<Longrightarrow> lv_ent V b \<noteq> None \<and> b \<in> set bs"
  by (induction V dir bs rule: merged.induct) (auto split: if_splits option.splits)

lemma first_neg_ent: "b \<in> set (first_neg V bs) \<Longrightarrow> lv_ent V b = None \<and> b \<in> set bs"
  by (induction V bs rule: first_neg.induct) (auto split: if_splits)

lemma merged_sorted: "sorted_wrt (<) bs \<Longrightarrow> sorted_wrt (<) (merged V dir bs)"
  by (induction V dir bs rule: merged.induct) (auto split: option.splits dest: merged_ent)

lemma neg_merged_sorted:
  assumes "\<And>b. \<not> lv_dir V b \<Longrightarrow> lv_ent V b = None \<and> \<not> lv_wh V b" and "sorted_wrt (<) bs"
  shows "sorted_wrt (<) (first_neg V bs @ merged V dir bs)"
  using assms(2)
proof (induction bs)
  case (Cons b bs)
  have s: "sorted_wrt (<) bs" "\<forall>x \<in> set bs. b < x" using Cons.prems by simp_all
  show ?case
  proof (cases "lv_dir V b")
    case True
    then show ?thesis using s merged_sorted [OF Cons.prems, of V dir] merged_sorted [OF s(1), of V dir]
      by (auto dest: merged_ent)
  next
    case False
    then show ?thesis using assms(1) [OF False] Cons.IH [OF s(1)] by simp
  qed
qed simp

lemma wh_end_above:
  "sorted_wrt (<) bs \<Longrightarrow> 0 \<le> wh_end V dir bs \<Longrightarrow> b \<in> set (merged V dir bs) \<Longrightarrow> b < wh_end V dir bs"
proof (induction V dir bs rule: merged.induct)
  case (2 V dir a bs)
  have in_bs: "0 \<le> wh_end V d bs \<Longrightarrow> wh_end V d bs \<in> set bs" for d
    by (induction V d bs rule: merged.induct) (auto split: if_splits option.splits)
  show ?case using 2 in_bs by (auto split: if_splits option.splits)
qed simp

lemma last_sorted:
  fixes b :: int
  assumes "sorted_wrt (<) bs" and "b \<in> set bs"
  shows "b \<le> last bs"
proof -
  have "bs \<noteq> []" using assms(2) by auto
  then have "bs = butlast bs @ [last bs]" by simp
  then show ?thesis using assms by (metis Un_iff append_is_Nil_conv empty_iff empty_set in_set_butlast_appendI
        less_imp_le list.set_intros(1) not_Cons_self2 order_refl set_append set_ConsD sorted_wrt_append)
qed

lemma hd_sorted: "sorted_wrt (<) (bs :: int list) \<Longrightarrow> b \<in> set bs \<Longrightarrow> hd bs \<le> b"
  by (cases bs) auto

section \<open>The table after the loop\<close>

definition fresh_dinfo :: "nat \<Rightarrow> au_dinfo \<Rightarrow> bool" where
  "fresh_dinfo n di \<longleftrightarrow> di_bstart di = - 1 \<and> di_bend di = - 1 \<and> di_bwh di = - 1 \<and> di_bdiropq di = - 1
     \<and> dslots di = replicate n None"

text \<open>The slots of the branches in \<open>L\<close> hold the dentries of the name, and nothing else is held.\<close>

definition holds :: "vfs \<Rightarrow> nat \<Rightarrow> lview \<Rightarrow> bindex list \<Rightarrow> au_dinfo \<times> vfs \<Rightarrow> bool" where
  "holds v0 n V L s \<longleftrightarrow> dslots (fst s) = map (\<lambda>k. if int k \<in> set L then Some (lv_child V (int k)) else None) [0..<n]
     \<and> (\<forall>d. d_refs (snd s) d = map_option (\<lambda>m. m + held (dslots (fst s)) d) (d_refs v0 d))"

lemma lk_at_holds:
  assumes "lk_at v0 n (\<lambda>j. if j \<in> set L then Some (lv_child V j) else None) s"
  shows "holds v0 n V L (lk_di s, lk_v s)"
  using assms unfolding lk_at_def holds_def by (simp add: fun_eq_iff)

lemma holds_owns:
  assumes h: "holds v0 n V L (di, v)" and live: "\<forall>j \<in> set L. live v0 (lv_child V j)"
  shows "di_owns v di" "d_foreign v (dslots di) = d_refs v0"
proof -
  have sl: "dslots di = map (\<lambda>k. if int k \<in> set L then Some (lv_child V (int k)) else None) [0..<n]"
    and refs: "\<And>d. d_refs v d = map_option (\<lambda>m. m + held (dslots di) d) (d_refs v0 d)"
    using h unfolding holds_def fst_conv snd_conv by blast+
  show "di_owns v di" unfolding di_owns_def
  proof (intro allI impI)
    fix d
    assume "Some d \<in> set (dslots di)"
    then obtain j where "j \<in> set L" "d = lv_child V j" unfolding sl by (auto split: if_splits)
    then have "live v0 d" using live by blast
    then obtain x where "dents v0 d = Some x" "0 \<le> d_count x" by (auto simp: live_def)
    then show "\<exists>n. d_refs v d = Some n \<and> held (dslots di) d \<le> n" using refs by (simp add: d_refs_def)
  qed
  show "d_foreign v (dslots di) = d_refs v0"
    by (rule ext) (simp add: d_foreign_def refs option.map_comp comp_def option.map_ident)
qed

lemma live_positive:
  assumes "same_fs v0 v" and "live v0 d"
  shows "positive v (Some d) \<longleftrightarrow> fmt v0 d \<noteq> None" and "negative v (Some d) \<longleftrightarrow> fmt v0 d = None"
proof -
  obtain x where x: "dents v d = Some x" "\<forall>i. d_inode x = Some i \<longrightarrow> inos v i \<noteq> None"
    using same_fs_live [OF assms] by (auto simp: live_def)
  have "fmt v d = None \<longleftrightarrow> d_inode x = None"
    using x by (auto simp: fmt_def d_fmt_def split: option.splits)
  then show "negative v (Some d) \<longleftrightarrow> fmt v0 d = None" "positive v (Some d) \<longleftrightarrow> fmt v0 d \<noteq> None"
    using x(1) same_fs_fmt(2) [OF assms(1)] by (simp_all add: positive_def negative_def)
qed

text \<open>\<open>au_update_dbstart\<close> drops the negative dentry before the first positive one.\<close>

lemma drop_negative:
  assumes h: "holds v0 n V (N @ M) (di, v)" and v: "same_fs v0 v"
    and live: "\<forall>j \<in> set (N @ M). live v0 (lv_child V j)"
    and ent: "\<forall>j \<in> set (N @ M). fmt v0 (lv_child V j) \<noteq> None \<longleftrightarrow> j \<in> set M"
    and sorted: "sorted_wrt (<) (N @ M)" and range: "\<forall>j \<in> set (N @ M). 0 \<le> j \<and> j < int n" and M: "M \<noteq> []"
    and di: "0 \<le> di_bstart di" "di_bstart di \<le> hd (N @ M)" "di_bend di = last (N @ M)"
  shows "\<exists>hs v'. au_update_dbstart sbi (di, v) = Some (di\<lparr>di_hdentry := hs, di_bstart := hd M\<rparr>, v')
    \<and> holds v0 n V M (di\<lparr>di_hdentry := hs, di_bstart := hd M\<rparr>, v') \<and> inos v' = inos v
    \<and> (\<forall>e. map_option d_inode (dents v' e) = map_option d_inode (dents v e))"
proof -
  let ?L = "N @ M"
  have sl: "dslots di = map (\<lambda>k. if int k \<in> set ?L then Some (lv_child V (int k)) else None) [0..<n]"
    using h unfolding holds_def fst_conv by blast
  have len: "length (di_hdentry di) = n" using arg_cong [OF sl, of length] by simp
  have slot: "dslots di ! nat j = (if j \<in> set ?L then Some (lv_child V j) else None)" if "0 \<le> j" "j < int n" for j
    unfolding sl using that by (simp add: nth_map)
  have pos: "positive v (dslots di ! nat j) \<longleftrightarrow> j \<in> set M" if "0 \<le> j" "j < int n" for j
  proof (cases "j \<in> set ?L")
    case True
    then have "live v0 (lv_child V j)" "fmt v0 (lv_child V j) \<noteq> None \<longleftrightarrow> j \<in> set M" using live ent by blast+
    then show ?thesis using slot [OF that] live_positive(1) [OF v, of "lv_child V j"] True by (metis (no_types, lifting))
  next
    case False
    then show ?thesis using slot [OF that] by (simp add: positive_def)
  qed
  have neg: "negative v (dslots di ! nat j) \<longleftrightarrow> j \<in> set ?L \<and> j \<notin> set M" if "0 \<le> j" "j < int n" for j
  proof (cases "j \<in> set ?L")
    case True
    then have "live v0 (lv_child V j)" "fmt v0 (lv_child V j) \<noteq> None \<longleftrightarrow> j \<in> set M" using live ent by blast+
    then show ?thesis using slot [OF that] live_positive(2) [OF v, of "lv_child V j"] True by (metis (no_types, lifting))
  next
    case False
    then show ?thesis using slot [OF that] by (simp add: negative_def)
  qed
  have hM: "hd M \<in> set M" and lL: "last ?L \<in> set M" using M by simp_all
  have hL: "hd ?L \<in> set ?L" using M by (intro hd_in_set) simp
  have b: "0 \<le> hd ?L" "hd ?L \<le> hd M" "hd M \<le> last ?L" "last ?L < int n" "0 \<le> hd M"
    using range hL hM lL hd_sorted [OF sorted, of "hd M"] last_sorted [OF sorted, of "hd M"] by auto
  have own: "di_owns v di" and for0: "d_foreign v (dslots di) = d_refs v0" using holds_owns [OF h live] by blast+
  obtain hs v' k where u: "au_update_dbstart sbi (di, v) = Some (di\<lparr>di_hdentry := hs,
        di_bstart := if k \<le> di_bend di then k else di_bstart di\<rparr>, v')"
    "di_bstart di \<le> k" "k \<le> di_bend di + 1" "map hd_dentry hs = drop_where (negative v) (dslots di) (di_bstart di) k"
    "keeps (di, v) (di\<lparr>di_hdentry := hs\<rparr>, v')"
    "\<forall>i. di_bstart di \<le> i \<longrightarrow> i < k \<longrightarrow> \<not> positive v (dslots di ! nat i)"
    "k \<le> di_bend di \<longrightarrow> positive v (dslots di ! nat k)"
    using update_dbstart_ok [OF own, of sbi] b len di by (smt (verit))
  have "positive v (dslots di ! nat (hd M))" using pos b hM by simp
  then have "\<not> hd M < k" using u(6) b di by auto
  then have kM: "k \<le> hd M" "k \<le> di_bend di" using b di by auto
  then have "k \<in> set M" using pos [of k] u(2,7) b di by auto
  then have k: "k = hd M" using kM hd_sorted [of M k] sorted by (simp add: sorted_wrt_append)
  let ?di = "di\<lparr>di_hdentry := hs, di_bstart := hd M\<rparr>"
  have sl': "dslots ?di = map (\<lambda>k. if int k \<in> set M then Some (lv_child V (int k)) else None) [0..<n]"
  proof (rule nth_equalityI)
    have ds: "dslots ?di = drop_where (negative v) (dslots di) (di_bstart di) k" using u(4) by (simp add: dslots_def)
    show "length (dslots ?di) = length (map (\<lambda>k. if int k \<in> set M then Some (lv_child V (int k)) else None) [0..<n])"
      unfolding ds using len by simp
    fix i
    assume "i < length (dslots ?di)"
    then have i: "i < n" unfolding ds using len by simp
    have ii: "0 \<le> int i" "int i < int n" using i by simp_all
    have "dslots ?di ! i = (if di_bstart di \<le> int i \<and> int i < k \<and> negative v (dslots di ! i) then None else dslots di ! i)"
      unfolding ds using i len by (simp add: drop_where_nth)
    moreover have "int i \<in> set M \<Longrightarrow> k \<le> int i" using hd_sorted [of M "int i"] sorted k by (simp add: sorted_wrt_append)
    moreover have "int i \<in> set ?L \<Longrightarrow> di_bstart di \<le> int i" using hd_sorted [OF sorted, of "int i"] di by linarith
    moreover have "int i \<in> set N \<Longrightarrow> int i < k" using sorted hM k by (simp add: sorted_wrt_append)
    ultimately show "dslots ?di ! i = map (\<lambda>k. if int k \<in> set M then Some (lv_child V (int k)) else None) [0..<n] ! i"
      using slot [OF ii] neg [OF ii] i by auto
  qed
  have fr: "d_foreign v' (dslots (di\<lparr>di_hdentry := hs\<rparr>)) = d_refs v0" using u(5) for0 by (simp add: keeps_def)
  have "d_refs v' d = map_option (\<lambda>m. m + held (dslots ?di) d) (d_refs v0 d)" for d
    using fun_cong [OF fr, of d] by (cases "d_refs v' d"; cases "d_refs v0 d") (auto simp: d_foreign_def)
  moreover have "inos v' = inos v" "\<forall>e. map_option d_inode (dents v' e) = map_option d_inode (dents v e)"
    using u(5) by (simp_all add: keeps_def)
  ultimately show ?thesis using u(1) k kM(2) sl' by (intro exI [of _ hs] exI [of _ v']) (simp add: holds_def)
qed

section \<open>The whole lookup\<close>

lemma fresh_at:
  assumes "fresh_dinfo n di"
  shows "lk_at v n (\<lambda>j. None) \<lparr>lk_di = di, lk_v = v, lk_npositive = 0, lk_type = 0, lk_allow_neg = True,
           lk_ignore_perm = False, lk_err = 0\<rparr>"
proof -
  have "held (replicate n None) d = 0" for d :: dptr by (induction n) (simp_all add: held_def)
  then have "map_option (\<lambda>m. m + held (replicate n None) d) (d_refs v d) = d_refs v d" for d
    by (simp add: option.map_ident)
  then show ?thesis using assms same_fs_refl
    by (simp add: lk_at_def fresh_dinfo_def map_replicate_const)
qed

definition lk_found :: "vfs \<Rightarrow> nat \<Rightarrow> lview \<Rightarrow> bindex list \<Rightarrow> bindex list \<Rightarrow> au_dinfo \<times> vfs \<Rightarrow> bool" where
  "lk_found v n V N M s \<longleftrightarrow> holds v n V (if M = [] then N else M) s
     \<and> di_bstart (fst s) = (if M = [] then if N = [] then - 1 else hd N else hd M)
     \<and> di_bend (fst s) = (if M = [] then if N = [] then - 1 else last N else last M)
     \<and> di_bdiropq (fst s) = (if filter (lv_opq V) M = [] then - 1 else last (filter (lv_opq V) M))"

lemma lkup_union:
  assumes hyp: "lk_hyp env child v sbi pdi (au_dbtaildir pdi) n" and di: "fresh_dinfo n di" and b: "0 \<le> bstart"
    and name: "au_test_shwh cfg sbi name = 0" "length name \<le> 4092"
    and V: "V = lower_view child v sbi pdi name" and B: "B = [bstart..au_dbtaildir pdi]"
    and M: "M = merged V False B" and N: "N = first_neg V B"
  shows "\<exists>err di' v'. au_lkup_dentry cfg env sbi pdi None name bstart 0 (di, v, True # mem) = Some (err, di', v', mem)
    \<and> err = (if M \<noteq> [] then int (length M)
             else if N = [] \<and> \<not> au_opt_test (au_mntflags sbi) AuOpt_UDBA_NONE then - EIO else 0)
    \<and> lk_found v n V N M (di', v') \<and> di_bwh di' = wh_end V False B"
proof -
  let ?s0 = "\<lparr>lk_di = di, lk_v = v, lk_npositive = 0, lk_type = 0, lk_allow_neg = True,
               lk_ignore_perm = False, lk_err = 0\<rparr>"
  let ?e = "au_dbtaildir pdi" and ?dp = "au_opt_test (au_mntflags sbi) AuOpt_DIRPERM1"
  have fresh: "di_bstart di = - 1" "di_bend di = - 1" "di_bwh di = - 1" "di_bdiropq di = - 1"
    using di by (simp_all add: fresh_dinfo_def)
  have "\<exists>stop s'. scan_up (lkup_step env sbi pdi None name (AUFS_WH_PFX @ name) 0 ?dp) bstart ?e ?s0 = Some (stop, s')
      \<and> lk_res v n V (\<lambda>j. None) (lk_di ?s0) (first_neg V [bstart..?e] @ M) (wh_end V False [bstart..?e]) s'
      \<and> lk_npositive s' = lk_npositive ?s0 + int (length M)"
    by (rule lkup_first [where ino = None, OF hyp _ _ fresh_at [OF di]]) (use b fresh V in \<open>simp_all add: M B\<close>)
  then obtain stop s' where
      scan: "scan_up (lkup_step env sbi pdi None name (AUFS_WH_PFX @ name) 0 ?dp) bstart ?e ?s0 = Some (stop, s')"
    and res: "lk_res v n V (\<lambda>j. None) di (N @ M) (wh_end V False B) s'" and np: "lk_npositive s' = int (length M)"
    unfolding N B by auto
  have r: "holds v n V (N @ M) (lk_di s', lk_v s')" "same_fs v (lk_v s')" "lk_err s' = 0"
    "di_bwh (lk_di s') = wh_end V False B"
    "di_bstart (lk_di s') = (if N @ M \<noteq> [] then hd (N @ M) else - 1)"
    "di_bend (lk_di s') = (if N @ M \<noteq> [] then last (N @ M) else - 1)"
    "di_bdiropq (lk_di s') = (if filter (lv_opq V) (N @ M) = [] then - 1 else last (filter (lv_opq V) (N @ M)))"
    using res lk_at_holds unfolding lk_res_def lk_at_def fresh by auto
  have range: "\<forall>j \<in> set (N @ M). 0 \<le> j \<and> j < int n"
    using merged_ent [of _ V False B] first_neg_ent [of _ V B] b hyp unfolding M N B lk_hyp_def by fastforce
  have sorted: "sorted_wrt (<) (N @ M)" unfolding N M
    by (rule neg_merged_sorted) (use view_nodir V in \<open>auto simp: B\<close>)
  have run: "au_lkup_dentry cfg env sbi pdi None name bstart 0 (di, v, True # mem) =
      Option.bind (if M \<noteq> [] then au_update_dbstart sbi (lk_di s', lk_v s') else Some (lk_di s', lk_v s'))
        (\<lambda>(di', v'). Some (if \<not> au_opt_test (au_mntflags sbi) AuOpt_UDBA_NONE \<and> au_dbstart di' < 0 then - EIO
                          else int (length M), di', v', mem))"
    using name scan r(3) np by (simp add: au_lkup_dentry_def au_wh_name_alloc_def PATH_MAX_def cong: if_cong)
  have noN: "filter (lv_opq V) (N @ M) = filter (lv_opq V) M"
    unfolding N V by (auto simp: filter_empty_conv dest!: first_neg_ent view_opq)
  show ?thesis
  proof (cases "M = []")
    case True
    have "hd N \<ge> 0" if "N \<noteq> []" using range that by simp
    then show ?thesis using True r noN unfolding run
      by (intro exI [of _ "if N = [] \<and> \<not> au_opt_test (au_mntflags sbi) AuOpt_UDBA_NONE then - EIO else 0"]
            exI [of _ "lk_di s'"] exI [of _ "lk_v s'"]) (auto simp: lk_found_def au_dbstart_def)
  next
    case False
    have ok: "lower_ok env child v" using hyp by (simp add: lk_hyp_def)
    have live: "\<forall>j \<in> set (N @ M). live v (lv_child V j)" using view_live [OF ok] V by blast
    have dir: "fmt v (lv_child V j) = lv_ent V j" if "lv_ent V j \<noteq> None \<or> lv_dir V j" for j
      using that by (auto simp: V lower_view_def Let_def)
    have Ndir: "lv_dir V j" if "j \<in> set N" for j
      using that unfolding N by (induction B) (auto split: if_splits)
    have ent: "\<forall>j \<in> set (N @ M). fmt v (lv_child V j) \<noteq> None \<longleftrightarrow> j \<in> set M"
    proof
      fix j
      assume "j \<in> set (N @ M)"
      then show "fmt v (lv_child V j) \<noteq> None \<longleftrightarrow> j \<in> set M"
        using dir [of j] Ndir [of j] merged_ent [of j V False B] first_neg_ent [of j V B] unfolding N M by auto
    qed
    have h0: "0 \<le> hd (N @ M)" using range False hd_in_set [of "N @ M"] by auto
    obtain hs v' where d: "au_update_dbstart sbi (lk_di s', lk_v s')
        = Some ((lk_di s')\<lparr>di_hdentry := hs, di_bstart := hd M\<rparr>, v')"
      "holds v n V M ((lk_di s')\<lparr>di_hdentry := hs, di_bstart := hd M\<rparr>, v')"
      using drop_negative [OF r(1,2) live ent sorted range False, of sbi] r(5,6) False h0 by auto
    have "hd M \<ge> 0" using range False by simp
    then show ?thesis using False r noN d unfolding run
      by (intro exI [of _ "int (length M)"] exI [of _ "(lk_di s')\<lparr>di_hdentry := hs, di_bstart := hd M\<rparr>"] exI [of _ v'])
        (simp add: lk_found_def au_dbstart_def)
  qed
qed

section \<open>Properties\<close>

text \<open>
  C27: \<open>au_lkup_dentry\<close> computes the union. For a name that is looked up for the first time it ends
  without a fault; it keeps the lower dentries of exactly the branches whose entries make up the
  union (or, if there is none, the negative dentry of the first branch that has the directory),
  with one more reference for each and none for any other; the range, the whiteout and the opaque
  branch are those of the union, and the result is the number of entries or the error.
\<close>

theorem au_lkup_dentry_union:
  assumes "lk_hyp env child v sbi pdi (au_dbtaildir pdi) n" and "fresh_dinfo n di" and "0 \<le> bstart"
    and "au_test_shwh cfg sbi name = 0" and "length name \<le> 4092"
    and "V = lower_view child v sbi pdi name" and "B = [bstart..au_dbtaildir pdi]"
    and "M = merged V False B" and "N = first_neg V B" and "L = (if M = [] then N else M)"
  shows "\<exists>err di' v'. au_lkup_dentry cfg env sbi pdi None name bstart 0 (di, v, True # mem) = Some (err, di', v', mem)
    \<and> err = (if M \<noteq> [] then int (length M)
             else if N = [] \<and> \<not> au_opt_test (au_mntflags sbi) AuOpt_UDBA_NONE then - EIO else 0)
    \<and> dslots di' = map (\<lambda>k. if int k \<in> set L then Some (lv_child V (int k)) else None) [0..<n]
    \<and> (\<forall>d. d_refs v' d = map_option (\<lambda>m. m + held (dslots di') d) (d_refs v d))
    \<and> di_bstart di' = (if L = [] then - 1 else hd L) \<and> di_bend di' = (if L = [] then - 1 else last L)
    \<and> di_bwh di' = wh_end V False B
    \<and> di_bdiropq di' = (if filter (lv_opq V) M = [] then - 1 else last (filter (lv_opq V) M))"
proof -
  obtain err di' v' where "au_lkup_dentry cfg env sbi pdi None name bstart 0 (di, v, True # mem) = Some (err, di', v', mem)"
    "err = (if M \<noteq> [] then int (length M)
            else if N = [] \<and> \<not> au_opt_test (au_mntflags sbi) AuOpt_UDBA_NONE then - EIO else 0)"
    "lk_found v n V N M (di', v')" "di_bwh di' = wh_end V False B"
    using lkup_union [OF assms(1-9), of mem] by blast
  then show ?thesis unfolding assms(10) lk_found_def holds_def fst_conv snd_conv
    by (intro exI [of _ err] exI [of _ di'] exI [of _ v']) (cases "M = []"; simp)
qed

text \<open>
  C30: a directory that is opaque in two branches. A dentry that is looked up has no inode yet, so
  the search goes on below the first opaque branch and the last opaque branch overwrites it: the
  tail up to which the directory is searched and read lies below the branch that should end it.
\<close>

theorem opaque_twice_reads_below:
  assumes "lk_hyp env child v sbi pdi (au_dbtaildir pdi) n" and "fresh_dinfo n di" and "0 \<le> bstart"
    and "au_test_shwh cfg sbi name = 0" and "length name \<le> 4092"
    and V: "V = lower_view child v sbi pdi name" and B: "B = [bstart..au_dbtaildir pdi]"
    and M: "M = merged V False B"
    and opq: "b1 \<in> set M" "b2 \<in> set M" "lv_opq V b1" "lv_opq V b2" "b1 < b2"
  shows "\<exists>di' v'. au_lkup_dentry cfg env sbi pdi None name bstart 0 (di, v, True # mem)
      = Some (int (length M), di', v', mem)
    \<and> au_dbtaildir di' = last (filter (lv_opq V) M) \<and> b1 < au_dbtaildir di'"
proof -
  have ne: "M \<noteq> []" using opq by auto
  obtain di' v' where r: "au_lkup_dentry cfg env sbi pdi None name bstart 0 (di, v, True # mem)
      = Some (int (length M), di', v', mem)" "lk_found v n V (first_neg V B) M (di', v')" "di_bwh di' = wh_end V False B"
    using lkup_union [OF assms(1-8) refl, of mem] ne by auto
  let ?F = "filter (lv_opq V) M"
  have F: "b1 \<in> set ?F" "b2 \<in> set ?F" using opq by simp_all
  then have Fne: "?F \<noteq> []" by (metis empty_iff empty_set)
  have sM: "sorted_wrt (<) M" unfolding M B by (rule merged_sorted) simp
  have "b2 \<le> last ?F" by (rule last_sorted [OF sorted_wrt_filter [OF sM] F(2)])
  moreover have "last ?F \<in> set M" using last_in_set [OF Fne] by simp
  then have "last ?F \<le> last M" by (rule last_sorted [OF sM])
  moreover have "0 \<le> b1" using merged_ent [of b1 V False B] opq(1) assms(3) by (auto simp: M B)
  moreover have "0 \<le> wh_end V False B \<Longrightarrow> last M < wh_end V False B"
    using wh_end_above [of B V False "last M"] ne by (auto simp: M B)
  ultimately have "au_dbtaildir di' = last ?F"
    using r(2,3) ne Fne opq(5)
    by (auto simp: lk_found_def au_dbtaildir_def au_dbtail_def au_dbend_def au_dbwh_def au_dbdiropq_def Let_def)
  then show ?thesis using r(1) \<open>b2 \<le> last ?F\<close> opq(5) by (intro exI [of _ di'] exI [of _ v']) simp
qed

section \<open>Witnesses\<close>

text \<open>Lower file systems given by the dentries of the names and the types of the entries.\<close>

definition fs_env :: "(dptr \<Rightarrow> u8 list \<Rightarrow> dptr) \<Rightarrow> lkup_env" where
  "fs_env child = \<lparr>le_lkup = (\<lambda>_ p n. Inr (child p n)), le_perm = (\<lambda>_. 0), le_wkq = 0\<rparr>"

definition fs_vfs :: "(dptr \<Rightarrow> int option) \<Rightarrow> vfs" where
  "fs_vfs ty = \<lparr>dents = (\<lambda>d. Some \<lparr>d_count = 1, d_inode = (if ty d = None then None else Some d),
                          d_mounted = False, d_hsb = 1\<rparr>),
     inos = (\<lambda>i. map_option (\<lambda>f. \<lparr>i_count = 1, i_nlink = 1, i_ino = 1, i_generation = 0, i_fmt = f,
                                i_rdonly = False, i_hsb = 1\<rparr>) (ty i)),
     files = (\<lambda>_. None)\<rparr>"

lemma fs_vfs_live: "live (fs_vfs ty) d"
  by (simp add: live_def fs_vfs_def)

lemma fs_vfs_fmt [simp]: "fmt (fs_vfs ty) d = ty d"
  by (cases "ty d") (simp_all add: fmt_def d_fmt_def fs_vfs_def)

lemma fs_vfs_dents: "dents (fs_vfs ty) d = Some \<lparr>d_count = 1, d_inode = (if ty d = None then None else Some d),
    d_mounted = False, d_hsb = 1\<rparr>"
  by (simp add: fs_vfs_def)

lemma fs_lower_ok:
  "\<forall>p n. ty (child p (AUFS_WH_PFX @ n)) \<in> {None, Some S_IFREG} \<Longrightarrow> lower_ok (fs_env child) child (fs_vfs ty)"
  by (simp add: lower_ok_def fs_env_def fs_vfs_live)

definition rw_sbinfo :: au_sbinfo where
  "rw_sbinfo = example_sbinfo\<lparr>si_bend := 1, si_branch := [Some (example_branch 1 1 100), Some (example_branch 2 1 101)]\<rparr>"

definition new_dinfo :: au_dinfo where
  "new_dinfo = \<lparr>di_generation = 1, di_bstart = - 1, di_bend = - 1, di_bwh = - 1, di_bdiropq = - 1,
     di_hdentry = replicate 2 \<lparr>hd_dentry = None, hd_id = - 1\<rparr>\<rparr>"

lemma new_dinfo_fresh: "fresh_dinfo 2 new_dinfo"
  by (simp add: fresh_dinfo_def new_dinfo_def dslots_def)

lemma two_dirs_tail: "au_dbtaildir two_dirs = 1" "au_dbstart two_dirs = 0"
  by (simp_all add: two_dirs_def au_dbstart_def au_dbtaildir_def au_dbtail_def au_dbend_def au_dbwh_def
      au_dbdiropq_def Let_def)

lemma two_dirs_hyp:
  assumes "lower_ok env child (fs_vfs ty)" and "length (si_branch sbi) = 2" and "None \<notin> set (si_branch sbi)"
  shows "lk_hyp env child (fs_vfs ty) sbi two_dirs (au_dbtaildir two_dirs) 2"
proof -
  have "au_sbr sbi b \<noteq> None" if "0 \<le> b" "b \<le> 1" for b
  proof -
    have "nat b < length (si_branch sbi)" using that assms(2) by linarith
    then have "si_branch sbi ! nat b \<noteq> None" using assms(3) nth_mem by metis
    then show ?thesis using that assms(2) by (auto simp: au_sbr_def arr_get_def)
  qed
  moreover have "di_owns (fs_vfs ty) two_dirs"
    by (auto simp: di_owns_def two_dirs_def dslots_def d_refs_def fs_vfs_def held_def)
  ultimately show ?thesis using assms(1)
    by (simp add: lk_hyp_def two_dirs_tail fs_vfs_live) (simp add: two_dirs_def)
qed

text \<open>The directory \<open>d\<close> in both branches, opaque in both.\<close>

definition opq_child :: "dptr \<Rightarrow> u8 list \<Rightarrow> dptr" where
  "opq_child p n =
     (if n = [100] \<and> p = 101 then 1 else if n = [100] \<and> p = 102 then 2
      else if n = AUFS_WH_DIROPQ \<and> (p = 1 \<or> p = 2) then 3 else 0)"

definition opq_types :: "dptr \<Rightarrow> int option" where
  "opq_types d = (if d = 0 then None else if d = 3 then Some S_IFREG else Some S_IFDIR)"

lemma two_dirs_low: "0 \<le> b \<Longrightarrow> b \<le> 1 \<Longrightarrow> ty (101 + nat b) = Some S_IFDIR \<Longrightarrow>
    low_dir (fs_vfs ty) two_dirs b = Some (101 + nat b)"
proof -
  assume b: "0 \<le> b" "b \<le> 1" and t: "ty (101 + nat b) = Some S_IFDIR"
  have "b = 0 \<or> b = 1" using b by linarith
  then show ?thesis using t
    by (auto simp: low_dir_def au_h_dptr_def two_dirs_def au_dbstart_def arr_get_def fs_vfs_dents)
qed

lemma opq_view:
  assumes "V = lower_view opq_child (fs_vfs opq_types) rw_sbinfo two_dirs [100]"
  shows "merged V False [0, 1] = [0, 1]" "first_neg V [0, 1] = []" "lv_opq V 0" "lv_opq V 1"
proof -
  have able: "au_sbr_whable rw_sbinfo 0 = Some True" "au_sbr_whable rw_sbinfo 1 = Some True"
    by (simp_all add: rw_sbinfo_def au_sbr_whable_def au_sbr_perm_def au_sbr_def arr_get_def example_branch_def
        au_br_whable_def AuBrPerm_RW_def AuBrRAttr_WH_def)
  have low: "low_dir (fs_vfs opq_types) two_dirs 0 = Some 101" "low_dir (fs_vfs opq_types) two_dirs 1 = Some 102"
    using two_dirs_low [of 0 opq_types] two_dirs_low [of 1 opq_types] by (simp_all add: opq_types_def)
  have "[100] \<noteq> AUFS_WH_PFX @ [100 :: u8]" "AUFS_WH_PFX @ [100] \<noteq> AUFS_WH_DIROPQ" "[100] \<noteq> AUFS_WH_DIROPQ"
    by (simp_all add: AUFS_WH_PFX_def AUFS_WH_DIROPQ_def)
  then have v: "lv_dir V b" "lv_ent V b = Some S_IFDIR" "\<not> lv_wh V b" "lv_opq V b" if "b \<in> {0, 1}" for b
    using that able low by (auto simp: assms lower_view_def Let_def opq_child_def opq_types_def)
  show "merged V False [0, 1] = [0, 1]" "first_neg V [0, 1] = []" "lv_opq V 0" "lv_opq V 1"
    using v by simp_all
qed

lemma opq_hyp: "lk_hyp (fs_env opq_child) opq_child (fs_vfs opq_types) rw_sbinfo two_dirs (au_dbtaildir two_dirs) 2"
proof (rule two_dirs_hyp [OF fs_lower_ok])
  show "\<forall>p n. opq_types (opq_child p (AUFS_WH_PFX @ n)) \<in> {None, Some S_IFREG}"
    by (auto simp: opq_child_def opq_types_def AUFS_WH_PFX_def)
qed (simp_all add: rw_sbinfo_def)

theorem au_lkup_dentry_union_witness:
  "\<exists>err di' v'. au_lkup_dentry full_config (fs_env opq_child) rw_sbinfo two_dirs None [100] 0 0
      (new_dinfo, fs_vfs opq_types, [True]) = Some (err, di', v', [])
    \<and> err = 2 \<and> di_bstart di' = 0 \<and> di_bend di' = 1 \<and> di_bdiropq di' = 1 \<and> dslots di' = [Some 1, Some 2]"
proof -
  let ?V = "lower_view opq_child (fs_vfs opq_types) rw_sbinfo two_dirs [100]"
  have r: "[0..au_dbtaildir two_dirs] = [0, 1]" by (simp add: two_dirs_tail upto.simps)
  have kids: "lv_child ?V 0 = 1" "lv_child ?V 1 = 2"
    using two_dirs_low [of 0 opq_types] two_dirs_low [of 1 opq_types]
    by (simp_all add: lower_view_def Let_def opq_types_def opq_child_def)
  have two: "[0..<2] = [0, 1 :: nat]" by (simp add: upt_rec)
  show ?thesis
    using au_lkup_dentry_union [OF opq_hyp new_dinfo_fresh, of 0 full_config "[100]" ?V "[0, 1]" "[0, 1]" "[]" "[0, 1]" "[]"]
      opq_view [OF refl] kids
    by (simp add: r two au_test_shwh_def AUFS_WH_PFX_def) (elim exE conjE, intro exI conjI, assumption+)
qed

theorem opaque_twice_reads_below_witness:
  "\<exists>di' v'. au_lkup_dentry full_config (fs_env opq_child) rw_sbinfo two_dirs None [100] 0 0
      (new_dinfo, fs_vfs opq_types, [True]) = Some (2, di', v', []) \<and> au_dbtaildir di' = 1"
proof -
  let ?V = "lower_view opq_child (fs_vfs opq_types) rw_sbinfo two_dirs [100]"
  have r: "[0..au_dbtaildir two_dirs] = [0, 1]" by (simp add: two_dirs_tail upto.simps)
  show ?thesis
    using opaque_twice_reads_below [OF opq_hyp new_dinfo_fresh, of 0 full_config "[100]" ?V "[0, 1]" "[0, 1]" 0 1 "[]"]
      opq_view [OF refl]
    by (simp add: r au_test_shwh_def AUFS_WH_PFX_def) (elim exE conjE, intro exI conjI, assumption+)
qed

end
