(* ===== verification/Lookup_Readdir.thy ===== *)
theory Lookup_Readdir
  imports Lookup_Found
begin

text \<open>
  \<open>lookup\<close> and \<open>readdir\<close> of the same union: a name is found if and only if it is listed.
\<close>

section \<open>A name in the list of the entries\<close>

text \<open>The first event that decides on the name \<open>n\<close>: its entry, or a whiteout of it that counts.\<close>

fun listed :: "u8 list \<Rightarrow> (bool \<times> src_de) list \<Rightarrow> bool" where
  "listed n [] = False"
| "listed n (c # cs) \<longleftrightarrow> src_name (snd c) = n \<or> (\<not> (fst c \<and> src_name (snd c) = AUFS_WH_PFX @ n) \<and> listed n cs)"

lemma listed_split:
  assumes "n \<noteq> []"
  shows "listed n cs \<longleftrightarrow> (\<exists>pre c suf. cs = pre @ c # suf \<and> src_name (snd c) = n \<and> n \<notin> whited pre)"
proof (induction cs)
  case (Cons c cs)
  have wh: "n \<in> whited (c # pre) \<longleftrightarrow> (fst c \<and> src_name (snd c) = AUFS_WH_PFX @ n) \<or> n \<in> whited pre" for pre
    using assms by (auto simp: whited_def)
  show ?case
  proof
    assume "listed n (c # cs)"
    then consider "src_name (snd c) = n" | "\<not> (fst c \<and> src_name (snd c) = AUFS_WH_PFX @ n)" "listed n cs" by auto
    then show "\<exists>pre d suf. c # cs = pre @ d # suf \<and> src_name (snd d) = n \<and> n \<notin> whited pre"
    proof cases
      case 1
      then show ?thesis by (intro exI [of _ "[]"] exI [of _ c] exI [of _ cs]) simp
    next
      case 2
      then obtain pre d suf where "cs = pre @ d # suf" "src_name (snd d) = n" "n \<notin> whited pre" using Cons.IH by blast
      then show ?thesis using 2(1) wh by (intro exI [of _ "c # pre"] exI [of _ d] exI [of _ suf]) simp
    qed
  next
    assume "\<exists>pre d suf. c # cs = pre @ d # suf \<and> src_name (snd d) = n \<and> n \<notin> whited pre"
    then obtain pre d suf where p: "c # cs = pre @ d # suf" "src_name (snd d) = n" "n \<notin> whited pre" by blast
    show "listed n (c # cs)"
    proof (cases pre)
      case Nil
      then show ?thesis using p by simp
    next
      case (Cons x pre')
      then have "cs = pre' @ d # suf" "n \<notin> whited pre'" "\<not> (fst c \<and> src_name (snd c) = AUFS_WH_PFX @ n)"
        using p wh by simp_all
      then have "listed n cs" using Cons.IH p(2) by blast
      then show ?thesis using \<open>\<not> (fst c \<and> _)\<close> by simp
    qed
  qed
qed simp

lemma shown_listed:
  assumes "n \<noteq> []" and "\<not> wh_prefixed n"
  shows "(\<exists>e. shown cs e \<and> src_name e = n) \<longleftrightarrow> listed n cs"
proof
  assume "\<exists>e. shown cs e \<and> src_name e = n"
  then show "listed n cs" unfolding shown_def listed_split [OF assms(1)] by (metis snd_conv)
next
  assume "listed n cs"
  then obtain pre c suf where p: "cs = pre @ c # suf" "src_name (snd c) = n" "n \<notin> whited pre"
    unfolding listed_split [OF assms(1)] by blast
  have "n \<notin> whited (pre @ [c])" using p assms(2) by (simp add: whited_snoc)
  moreover have "\<exists>d \<in> set (pre @ [c]). src_name (snd d) = n" using p(2) by auto
  ultimately obtain e where e: "shown (pre @ [c]) e" "src_name e = n" using shown_first assms(2) by metis
  then obtain pre' w suf' where q: "pre @ [c] = pre' @ (w, e) # suf'" "\<forall>c \<in> set pre'. src_name (snd c) \<noteq> src_name e"
    "src_name e \<notin> whited pre'" "\<not> wh_prefixed (src_name e)"
    unfolding shown_def by blast
  have "cs = pre' @ (w, e) # (suf' @ suf)" using p(1) q(1) by (metis append.assoc append_Cons append_Nil)
  then have "shown cs e" using q(2-4) unfolding shown_def by blast
  then show "\<exists>e. shown cs e \<and> src_name e = n" using e(2) by blast
qed

text \<open>What a block of entries does to a name.\<close>

lemma listed_append:
  assumes "\<forall>c \<in> set xs. \<forall>d \<in> set xs. \<not> (src_name (snd c) = n \<and> src_name (snd d) = AUFS_WH_PFX @ n)"
  shows "listed n (xs @ ys) \<longleftrightarrow> (\<exists>c \<in> set xs. src_name (snd c) = n)
    \<or> (\<not> (\<exists>c \<in> set xs. fst c \<and> src_name (snd c) = AUFS_WH_PFX @ n) \<and> listed n ys)"
  using assms
proof (induction xs)
  case (Cons c xs)
  have "listed n (xs @ ys) \<longleftrightarrow> (\<exists>c \<in> set xs. src_name (snd c) = n)
    \<or> (\<not> (\<exists>c \<in> set xs. fst c \<and> src_name (snd c) = AUFS_WH_PFX @ n) \<and> listed n ys)"
    by (rule Cons.IH) (use Cons.prems in auto)
  then show ?case using Cons.prems by auto
qed simp

section \<open>The branches\<close>

text \<open>The names a lower file system lists in the directory.\<close>

definition dir_names :: "(bindex \<Rightarrow> ldir option) \<Rightarrow> bindex \<Rightarrow> u8 list set" where
  "dir_names dirs b = (case dirs b of None \<Rightarrow> {} | Some d \<Rightarrow> fst ` set (delivered (ld_calls d)))"

text \<open>
  \<open>lists\<close>: the directory of the branch \<open>b\<close> lists the name and its whiteout if and only if looking
  them up finds them, and it does not have both.
\<close>

definition lists :: "(dptr \<Rightarrow> u8 list \<Rightarrow> dptr) \<Rightarrow> vfs \<Rightarrow> au_dinfo \<Rightarrow> (bindex \<Rightarrow> ldir option) \<Rightarrow> u8 list \<Rightarrow> bindex \<Rightarrow> bool" where
  "lists child v pdi dirs name b \<longleftrightarrow>
     (case low_dir v pdi b of
        None \<Rightarrow> dir_names dirs b = {}
      | Some p \<Rightarrow> (name \<in> dir_names dirs b \<longleftrightarrow> fmt v (child p name) \<noteq> None)
          \<and> (AUFS_WH_PFX @ name \<in> dir_names dirs b \<longleftrightarrow> fmt v (child p (AUFS_WH_PFX @ name)) \<noteq> None))
     \<and> \<not> (name \<in> dir_names dirs b \<and> AUFS_WH_PFX @ name \<in> dir_names dirs b)"

lemma branch_des_names:
  "src_name ` snd ` set (branch_des sbi dirs e b) = dir_names dirs b"
  "c \<in> set (branch_des sbi dirs e b) \<Longrightarrow> fst c \<longleftrightarrow> b \<noteq> e \<and> au_sbr_whable sbi b = Some True"
  by (auto simp: branch_des_def dir_names_def src_name_def image_iff split: option.splits) force+

lemma lists_view:
  assumes "lists child v pdi dirs name b" and V: "V = lower_view child v sbi pdi name"
  shows "name \<in> dir_names dirs b \<longleftrightarrow> lv_ent V b \<noteq> None"
    and "AUFS_WH_PFX @ name \<in> dir_names dirs b \<and> au_sbr_whable sbi b = Some True \<longleftrightarrow> lv_wh V b"
    and "\<not> (name \<in> dir_names dirs b \<and> AUFS_WH_PFX @ name \<in> dir_names dirs b)"
  using assms(1) by (cases "low_dir v pdi b"; auto simp: lists_def V lower_view_def Let_def)+

lemma listed_merged:
  assumes V: "V = lower_view child v sbi pdi name" and "\<forall>b \<in> set bs. lists child v pdi dirs name b"
    and "\<forall>b \<in> set bs. b = e \<longrightarrow> bs \<noteq> [] \<and> last bs = e" and "distinct bs"
  shows "listed name (union_des sbi dirs e bs) \<longleftrightarrow> merged V False bs \<noteq> []"
  using assms(2-4)
proof (induction bs)
  case Nil
  then show ?case by (simp add: union_des_def)
next
  case (Cons b bs)
  let ?xs = "branch_des sbi dirs e b"
  have l: "lists child v pdi dirs name b" using Cons.prems(1) by simp
  note view = lists_view [OF l V]
  have IH: "listed name (union_des sbi dirs e bs) \<longleftrightarrow> merged V False bs \<noteq> []"
    by (rule Cons.IH) (use Cons.prems in \<open>auto split: if_splits\<close>)
  have names: "(\<exists>c \<in> set ?xs. src_name (snd c) = n) \<longleftrightarrow> n \<in> dir_names dirs b" for n
    unfolding branch_des_names(1) [of sbi dirs e b, symmetric] image_image image_iff by metis
  have "\<forall>c \<in> set ?xs. \<forall>d \<in> set ?xs. \<not> (src_name (snd c) = name \<and> src_name (snd d) = AUFS_WH_PFX @ name)"
    using view(3) names by blast
  from listed_append [OF this, of "union_des sbi dirs e bs"]
  have step: "listed name (union_des sbi dirs e (b # bs)) \<longleftrightarrow> name \<in> dir_names dirs b
      \<or> (\<not> (\<exists>c \<in> set ?xs. fst c \<and> src_name (snd c) = AUFS_WH_PFX @ name) \<and> listed name (union_des sbi dirs e bs))"
    by (simp add: union_des_def names)
  have wh: "(\<exists>c \<in> set ?xs. fst c \<and> src_name (snd c) = AUFS_WH_PFX @ name) \<longleftrightarrow> b \<noteq> e \<and> lv_wh V b"
    using branch_des_names(2) [of _ sbi dirs e b] names [of "AUFS_WH_PFX @ name"] view(2) by blast
  show ?case
  proof (cases "lv_wh V b")
    case True
    then have "name \<notin> dir_names dirs b" using view(2,3) by blast
    moreover have "bs = []" if "b = e"
      using Cons.prems(2,3) that by (cases bs) (auto split: if_splits)
    ultimately show ?thesis using True step wh by (auto simp: union_des_def)
  next
    case False
    show ?thesis
    proof (cases "lv_ent V b")
      case None
      then show ?thesis using False step wh view(1) IH by simp
    next
      case (Some f)
      then show ?thesis using False step view(1) by simp
    qed
  qed
qed

section \<open>Agreement\<close>

text \<open>
  C28: \<open>lookup\<close> and \<open>readdir\<close> agree on the union. If looking the name and its whiteout up in a lower
  directory finds what the directory lists, and no lower directory has both, then
  \<open>au_lkup_dentry\<close> finds an entry exactly when the listing of the union shows one of that name.
\<close>

theorem lookup_agrees_with_readdir:
  assumes "lk_hyp env child v sbi pdi (au_dbtaildir pdi) n" and "fresh_dinfo n di"
    and "au_test_shwh cfg sbi name = 0" and "name \<noteq> []" and "length name \<le> 4092" and "\<not> wh_prefixed name"
    and lists: "\<forall>b \<in> set [au_dbstart pdi..au_dbtaildir pdi]. lists child v pdi dirs name b"
  shows "\<exists>err di' v'. au_lkup_dentry cfg env sbi pdi None name (au_dbstart pdi) 0 (di, v, True # mem)
      = Some (err, di', v', mem)
    \<and> (0 < err \<longleftrightarrow> (\<exists>e. shown (union_des sbi dirs (au_dbtaildir pdi) [au_dbstart pdi..au_dbtaildir pdi]) e
                    \<and> src_name e = name))"
proof -
  let ?B = "[au_dbstart pdi..au_dbtaildir pdi]" and ?V = "lower_view child v sbi pdi name"
  have s: "0 \<le> au_dbstart pdi" using assms(1) by (simp add: lk_hyp_def)
  obtain err di' v' where r: "au_lkup_dentry cfg env sbi pdi None name (au_dbstart pdi) 0 (di, v, True # mem)
      = Some (err, di', v', mem)"
    "err = (if merged ?V False ?B \<noteq> [] then int (length (merged ?V False ?B))
            else if first_neg ?V ?B = [] \<and> \<not> au_opt_test (au_mntflags sbi) AuOpt_UDBA_NONE then - EIO else 0)"
    using lkup_union [OF assms(1,2) s assms(3,5) refl refl refl refl, of mem] by blast
  have last: "\<forall>b \<in> set ?B. b = au_dbtaildir pdi \<longrightarrow> ?B \<noteq> [] \<and> last ?B = au_dbtaildir pdi"
  proof (intro ballI impI)
    fix b
    assume "b \<in> set ?B" "b = au_dbtaildir pdi"
    then have "?B = [au_dbstart pdi..au_dbtaildir pdi - 1] @ [au_dbtaildir pdi]" by (simp add: upto_rec2)
    then show "?B \<noteq> [] \<and> last ?B = au_dbtaildir pdi" by (metis last_snoc snoc_eq_iff_butlast)
  qed
  have "0 < err \<longleftrightarrow> merged ?V False ?B \<noteq> []" using r(2) by simp
  also have "\<dots> \<longleftrightarrow> listed name (union_des sbi dirs (au_dbtaildir pdi) ?B)"
    using listed_merged [OF refl lists last distinct_upto] by simp
  finally show ?thesis using r(1) shown_listed [OF assms(4,6)] by blast
qed

section \<open>Witness\<close>

text \<open>
  The directories of \<open>example_file\<close> as lookups: \<open>c\<close> of the lower branch is found and listed, \<open>b\<close>
  is hidden from both.
\<close>

definition listed_child :: "dptr \<Rightarrow> u8 list \<Rightarrow> dptr" where
  "listed_child p n =
     (if p = 101 then if n = [97] then 1 else if n = [46, 119, 104, 46, 98] then 2 else 0
      else if p = 102 then if n = [97] then 3 else if n = [98] then 4 else if n = [99] then 5 else 0
      else 0)"

definition listed_types :: "dptr \<Rightarrow> int option" where
  "listed_types d = (if d = 0 then None else if d = 101 \<or> d = 102 then Some S_IFDIR else Some S_IFREG)"

lemma listed_hyp:
  "lk_hyp (fs_env listed_child) listed_child (fs_vfs listed_types) (x_sbi example_union) two_dirs
     (au_dbtaildir two_dirs) 2"
proof (rule two_dirs_hyp [OF fs_lower_ok])
  show "\<forall>p n. listed_types (listed_child p (AUFS_WH_PFX @ n)) \<in> {None, Some S_IFREG}"
    by (simp add: listed_child_def listed_types_def)
qed (simp_all add: example_union_def)

lemma listed_lists:
  assumes "name \<in> {[98], [99]}"
  shows "\<forall>b \<in> set [au_dbstart two_dirs..au_dbtaildir two_dirs].
      lists listed_child (fs_vfs listed_types) two_dirs (df_dirs example_file) name b"
proof -
  have "[0..1] = [0, 1 :: int]" by (simp add: upto.simps)
  moreover have "low_dir (fs_vfs listed_types) two_dirs 0 = Some 101" "low_dir (fs_vfs listed_types) two_dirs 1 = Some 102"
    using two_dirs_low [of 0 listed_types] two_dirs_low [of 1 listed_types] by (simp_all add: listed_types_def)
  ultimately show ?thesis using assms
    by (auto simp: two_dirs_tail lists_def dir_names_def example_file_def listed_child_def listed_types_def AUFS_WH_PFX_def)
qed

lemma listed_shown:
  assumes "n \<in> {[98], [99]}"
  shows "(\<exists>e. shown (union_des (x_sbi example_union) (df_dirs example_file) (au_dbtaildir two_dirs)
      [au_dbstart two_dirs..au_dbtaildir two_dirs]) e \<and> src_name e = n) \<longleftrightarrow> n = [99]"
proof -
  have "union_des (x_sbi example_union) (df_dirs example_file) (au_dbtaildir two_dirs)
      [au_dbstart two_dirs..au_dbtaildir two_dirs] = file_des example_file (x_sbi example_union)"
    by (simp add: file_des_def two_dirs_tail example_file_def)
  moreover have "n \<noteq> []" "\<not> wh_prefixed n" using assms by (auto simp: wh_prefixed_def)
  ultimately show ?thesis using assms
    unfolding shown_listed [OF \<open>n \<noteq> []\<close> \<open>\<not> wh_prefixed n\<close>]
    by (auto simp: example_file_des src_name_def AUFS_WH_PFX_def)
qed

theorem lookup_agrees_with_readdir_witness:
  "(\<exists>err di' v'. au_lkup_dentry full_config (fs_env listed_child) (x_sbi example_union) two_dirs None [99]
      (au_dbstart two_dirs) 0 (new_dinfo, fs_vfs listed_types, [True]) = Some (err, di', v', []) \<and> 0 < err)
   \<and> (\<exists>err di' v'. au_lkup_dentry full_config (fs_env listed_child) (x_sbi example_union) two_dirs None [98]
      (au_dbstart two_dirs) 0 (new_dinfo, fs_vfs listed_types, [True]) = Some (err, di', v', []) \<and> err \<le> 0)"
proof -
  have "\<exists>err di' v'. au_lkup_dentry full_config (fs_env listed_child) (x_sbi example_union) two_dirs None n
      (au_dbstart two_dirs) 0 (new_dinfo, fs_vfs listed_types, [True]) = Some (err, di', v', [])
      \<and> (0 < err \<longleftrightarrow> n = [99])" if n: "n \<in> {[98], [99]}" for n
  proof -
    have "au_test_shwh full_config (x_sbi example_union) n = 0" "n \<noteq> []" "length n \<le> 4092" "\<not> wh_prefixed n"
      using n by (auto simp: au_test_shwh_def AUFS_WH_PFX_def wh_prefixed_def)
    then show ?thesis
      using lookup_agrees_with_readdir [OF listed_hyp new_dinfo_fresh _ _ _ _ listed_lists [OF n], of full_config "[]"]
        listed_shown [OF n] by simp
  qed
  from this [of "[99]"] this [of "[98]"] show ?thesis by (auto simp: not_less)
qed

end
