(* ===== verification/Slot_Table.thy ===== *)
theory Slot_Table
  imports Sbinfo "HOL-Library.Multiset"
begin

text \<open>
  Tables by branch index after the branches were renumbered: every entry remembers the id of its
  branch and is swapped into the slot of the new index. \<open>slot_table\<close> is the interface the two loops
  that do this (\<open>au_do_refresh_hdentry\<close> of \<open>dentry.c\<close> and \<open>au_ii_refresh\<close> of \<open>inode.c\<close>) share.
\<close>

section \<open>The new index of a branch id\<close>

definition br_pos :: "au_sbinfo \<Rightarrow> bindex \<Rightarrow> bindex" where
  "br_pos sbi brid = (case au_br_index sbi brid of Some b \<Rightarrow> b | None \<Rightarrow> - 1)"

lemma br_pos_id:
  assumes "0 \<le> br_pos sbi a"
  shows "au_sbr_id sbi (br_pos sbi a) = Some a" "br_pos sbi a \<le> au_sbend sbi"
proof -
  let ?P = "\<lambda>b. map_option (\<lambda>i. i = a) (au_sbr_id sbi b)"
  obtain r where r: "first_up ?P 0 (au_sbend sbi) = Some (Some r)" "br_pos sbi a = r"
  proof (cases "first_up ?P 0 (au_sbend sbi)")
    case None
    then show ?thesis using assms by (simp add: br_pos_def au_br_index_def)
  next
    case (Some q)
    then have br: "br_pos sbi a = (case q of None \<Rightarrow> - 1 | Some b \<Rightarrow> b)" by (simp add: br_pos_def au_br_index_def)
    then have "q \<noteq> None" using assms by (cases q) simp_all
    then obtain r where "q = Some r" by blast
    then show ?thesis using Some br by (intro that [of r]) simp_all
  qed
  from first_up_found [OF r(1)] r(2)
  show "au_sbr_id sbi (br_pos sbi a) = Some a" "br_pos sbi a \<le> au_sbend sbi" by auto
qed

lemma br_pos_inj: "0 \<le> br_pos sbi a \<Longrightarrow> br_pos sbi a = br_pos sbi b \<Longrightarrow> a = b"
  by (metis br_pos_id(1) option.inject)

lemma br_pos_index: "sbi_wf sbi \<Longrightarrow> au_br_index sbi a = Some (br_pos sbi a)"
  using au_br_index_spec [of sbi a] by (auto simp: br_pos_def)

section \<open>Entries in their slots\<close>

definition entries_of :: "('a \<Rightarrow> bool) \<Rightarrow> 'a list \<Rightarrow> 'a set" where
  "entries_of used xs = {x \<in> set xs. used x}"

text \<open>No two entries have the same branch id.\<close>

definition once :: "('a \<Rightarrow> bool) \<Rightarrow> ('a \<Rightarrow> bindex) \<Rightarrow> 'a list \<Rightarrow> bool" where
  "once used ident xs \<longleftrightarrow> (\<forall>i < length xs. \<forall>j < length xs.
     used (xs ! i) \<and> used (xs ! j) \<and> ident (xs ! i) = ident (xs ! j) \<longrightarrow> i = j)"

definition settled :: "('a \<Rightarrow> bool) \<Rightarrow> ('a \<Rightarrow> bindex) \<Rightarrow> (bindex \<Rightarrow> bindex) \<Rightarrow> 'a list \<Rightarrow> nat \<Rightarrow> bool" where
  "settled used ident pos xs i \<longleftrightarrow> \<not> used (xs ! i) \<or> pos (ident (xs ! i)) = int i"

definition strays :: "('a \<Rightarrow> bool) \<Rightarrow> ('a \<Rightarrow> bindex) \<Rightarrow> (bindex \<Rightarrow> bindex) \<Rightarrow> 'a list \<Rightarrow> nat set" where
  "strays used ident pos xs = {i. i < length xs \<and> \<not> settled used ident pos xs i}"

lemma strays_finite [simp]: "finite (strays used ident pos xs)"
  by (simp add: strays_def)

locale slot_table =
  fixes used :: "'a \<Rightarrow> bool" and ident :: "'a \<Rightarrow> bindex" and pos :: "bindex \<Rightarrow> bindex"
  assumes pos_inj: "0 \<le> pos a \<Longrightarrow> pos a = pos b \<Longrightarrow> a = b"
begin

text \<open>The target of a stray entry holds no entry that is in its place.\<close>

lemma target_stray:
  assumes "once used ident xs" and "i < length xs" "j < length xs" "j \<noteq> i"
    and "used (xs ! i)" "pos (ident (xs ! i)) = int j" and "used (xs ! j)"
  shows "pos (ident (xs ! j)) \<noteq> int j"
proof
  assume "pos (ident (xs ! j)) = int j"
  then have "ident (xs ! j) = ident (xs ! i)" using pos_inj [of "ident (xs ! j)" "ident (xs ! i)"] assms(6) by simp
  then show False using assms unfolding once_def by metis
qed

lemma swap_ok:
  assumes o: "once used ident xs" and ij: "i < length xs" "j < length xs" "j \<noteq> i"
    and i: "used (xs ! i)" "pos (ident (xs ! i)) = int j"
    and ys: "ys = xs[j := xs ! i, i := xs ! j]"
  shows "once used ident ys" and "mset ys = mset xs" and "entries_of used ys = entries_of used xs"
    and "card (strays used ident pos ys) < card (strays used ident pos xs)"
    and "k < length xs \<Longrightarrow> k \<noteq> i \<Longrightarrow> settled used ident pos xs k \<Longrightarrow> settled used ident pos ys k"
    and "settled used ident pos ys j" and "used (ys ! i) \<longleftrightarrow> used (xs ! j)"
proof -
  have nth: "ys ! k = (if k = i then xs ! j else if k = j then xs ! i else xs ! k)" if "k < length xs" for k
    using that ij unfolding ys by (simp add: nth_list_update)
  have len: "length ys = length xs" by (simp add: ys)
  define f where "f = (\<lambda>k. if k = i then j else if k = j then i else k)"
  have f: "f k < length xs" "ys ! k = xs ! f k" if "k < length xs" for k using that ij nth by (auto simp: f_def)
  show "once used ident ys" unfolding once_def len
  proof (intro allI impI)
    fix a b
    assume "a < length xs" "b < length xs" "used (ys ! a) \<and> used (ys ! b) \<and> ident (ys ! a) = ident (ys ! b)"
    then have "f a = f b" using o f(1) [of a] f(1) [of b] f(2) [of a] f(2) [of b] unfolding once_def by simp
    then show "a = b" by (simp add: f_def split: if_splits)
  qed
  show m: "mset ys = mset xs" unfolding ys by (rule mset_swap [OF ij(1,2)])
  show "entries_of used ys = entries_of used xs" unfolding entries_of_def using m by (metis set_mset_mset)
  show j: "settled used ident pos ys j" using nth [OF ij(2)] ij(3) i by (simp add: settled_def)
  show "used (ys ! i) \<longleftrightarrow> used (xs ! j)" using nth [OF ij(1)] by simp
  show keep: "settled used ident pos ys k" if "k < length xs" "k \<noteq> i" "settled used ident pos xs k" for k
    using that nth [OF that(1)] j by (cases "k = j") (simp_all add: settled_def)
  have sub: "strays used ident pos ys \<subseteq> insert i (strays used ident pos xs)"
    using keep unfolding strays_def len by auto
  have stray: "i \<in> strays used ident pos xs" using ij i by (auto simp: strays_def settled_def)
  have "\<exists>k \<in> strays used ident pos xs. k \<notin> strays used ident pos ys"
  proof (cases "used (xs ! j)")
    case True
    have "j \<in> strays used ident pos xs"
      using target_stray [OF o ij i True] ij True by (simp add: strays_def settled_def)
    then show ?thesis using j by (auto simp: strays_def)
  next
    case False
    then have "settled used ident pos ys i" using nth [OF ij(1)] by (simp add: settled_def)
    then show ?thesis using stray by (auto simp: strays_def)
  qed
  then have "strays used ident pos ys \<subset> strays used ident pos xs" using sub stray by blast
  then show "card (strays used ident pos ys) < card (strays used ident pos xs)" by (intro psubset_card_mono) simp
qed

lemma drop_ok:
  assumes o: "once used ident xs" and i: "i < length xs" "used (xs ! i)" and x: "\<not> used x" and ys: "ys = xs[i := x]"
  shows "once used ident ys" and "entries_of used ys = entries_of used xs - {xs ! i}"
    and "card (strays used ident pos ys) \<le> card (strays used ident pos xs)"
    and "k < length xs \<Longrightarrow> settled used ident pos xs k \<Longrightarrow> settled used ident pos ys k"
    and "settled used ident pos ys i"
proof -
  have nth: "ys ! k = (if k = i then x else xs ! k)" if "k < length xs" for k
    using that i unfolding ys by (simp add: nth_list_update)
  have len: "length ys = length xs" by (simp add: ys)
  show "once used ident ys" unfolding once_def len
  proof (intro allI impI)
    fix a b
    assume ab: "a < length xs" "b < length xs" "used (ys ! a) \<and> used (ys ! b) \<and> ident (ys ! a) = ident (ys ! b)"
    then have "a \<noteq> i" "b \<noteq> i" using nth x by auto
    then show "a = b" using o ab nth unfolding once_def by metis
  qed
  show keep: "settled used ident pos ys k" if "k < length xs" "settled used ident pos xs k" for k
    using that nth [OF that(1)] x by (simp add: settled_def)
  show "settled used ident pos ys i" using nth [OF i(1)] x by (simp add: settled_def)
  have "strays used ident pos ys \<subseteq> strays used ident pos xs" using keep unfolding strays_def len by auto
  then show "card (strays used ident pos ys) \<le> card (strays used ident pos xs)" by (intro card_mono) simp_all
  show "entries_of used ys = entries_of used xs - {xs ! i}"
  proof (intro set_eqI iffI)
    fix y
    assume "y \<in> entries_of used ys"
    then obtain k where k: "k < length xs" "y = ys ! k" "used y"
      by (auto simp: entries_of_def in_set_conv_nth len)
    then have ki: "k \<noteq> i" using nth x by auto
    then have y: "y = xs ! k" using nth k by simp
    then have "y \<noteq> xs ! i" using o k i ki unfolding once_def by metis
    moreover have "xs ! k \<in> set xs" using k(1) by simp
    ultimately show "y \<in> entries_of used xs - {xs ! i}" using k(3) y by (simp add: entries_of_def)
  next
    fix y
    assume "y \<in> entries_of used xs - {xs ! i}"
    then obtain k where k: "k < length xs" "y = xs ! k" "used y" "y \<noteq> xs ! i"
      by (auto simp: entries_of_def in_set_conv_nth)
    then have "y = ys ! k" using nth by auto
    moreover have "ys ! k \<in> set ys" using k(1) len by simp
    ultimately show "y \<in> entries_of used ys" using k(3) by (simp add: entries_of_def)
  qed
qed

text \<open>When every slot is settled the entries left are those whose branch still exists.\<close>

lemma all_settled:
  assumes "\<forall>k < length ys. settled used ident pos ys k"
    and "{x \<in> entries_of used ys. 0 \<le> pos (ident x)} = {x \<in> entries_of used xs. 0 \<le> pos (ident x)}"
  shows "entries_of used ys = {x \<in> entries_of used xs. 0 \<le> pos (ident x)}"
proof -
  have "0 \<le> pos (ident x)" if "x \<in> entries_of used ys" for x
    using that assms(1) by (auto simp: entries_of_def settled_def in_set_conv_nth)
  then show ?thesis using assms(2) by blast
qed

lemma entry_slot:
  assumes "\<forall>k < length ys. settled used ident pos ys k" and "x \<in> entries_of used ys"
  shows "\<exists>k < length ys. ys ! k = x \<and> pos (ident x) = int k"
  using assms by (auto simp: entries_of_def settled_def in_set_conv_nth)

end

end
