(* ===== verification/Refresh_Dentry.thy ===== *)
theory Refresh_Dentry
  imports Dinfo Slot_Table
begin

text \<open>
  \<open>au_do_refresh_hdentry\<close> of \<open>dentry.c\<close>: after branches were added or deleted the lower dentries are
  moved to the new indices of their branches, and those of deleted branches are put.
\<close>

section \<open>The loop\<close>

text \<open>The table and the locals of the loop.\<close>

record refresh =
  rf_hd :: "au_hdentry list"
  rf_bwh :: bindex
  rf_bdiropq :: bindex
  rf_v :: vfs

text \<open>
  One pass of the body; the index is counted down before the loop counts it up when a dentry came
  back in the swap.
\<close>

definition refresh_step :: "au_sbinfo \<Rightarrow> au_dinfo \<Rightarrow> bindex \<Rightarrow> refresh \<Rightarrow> (bindex \<times> refresh) option" where
  "refresh_step sbi dinfo bindex s =
     Option.bind (arr_get (rf_hd s) bindex) (\<lambda>p.
     if hd_dentry p = None then Some (bindex + 1, s)
     else Option.bind (au_br_index sbi (hd_id p)) (\<lambda>new_bindex.
       if new_bindex = bindex then Some (bindex + 1, s)
       else
         let s' = s\<lparr>rf_bwh := (if di_bwh dinfo = bindex then new_bindex else rf_bwh s),
                    rf_bdiropq := (if di_bdiropq dinfo = bindex then new_bindex else rf_bdiropq s)\<rparr>
         in if new_bindex < 0
            then map_option (\<lambda>v. (bindex + 1,
                   s'\<lparr>rf_hd := (rf_hd s)[nat bindex := p\<lparr>hd_dentry := None\<rparr>], rf_v := v\<rparr>)) (au_hdput p (rf_v s))
            else Option.bind (arr_get (rf_hd s) new_bindex) (\<lambda>q.
                   Some (if hd_dentry q = None then bindex + 1 else bindex,
                         s'\<lparr>rf_hd := (rf_hd s)[nat new_bindex := p, nat bindex := q]\<rparr>))))"

text \<open>Two dentries of the same branch would be swapped forever; not returning is \<open>None\<close>.\<close>

partial_function (option) refresh_loop :: "au_sbinfo \<Rightarrow> au_dinfo \<Rightarrow> bindex \<Rightarrow> refresh \<Rightarrow> refresh option" where
  "refresh_loop sbi dinfo bindex s =
     (if di_bend dinfo < bindex then Some s
      else Option.bind (refresh_step sbi dinfo bindex s) (\<lambda>r. refresh_loop sbi dinfo (fst r) (snd r)))"

text \<open>The whiteout and the opaque index are kept in a branch that can have them.\<close>

definition refresh_index :: "au_sbinfo \<Rightarrow> bindex \<Rightarrow> bindex option" where
  "refresh_index sbi b =
     (if 0 \<le> b \<and> b \<le> au_sbend sbi then map_option (\<lambda>able. if able then b else - 1) (au_sbr_whable sbi b)
      else Some (- 1))"

text \<open>The new range, searched up to the end of the parent.\<close>

definition refresh_range :: "bindex \<Rightarrow> au_dinfo \<Rightarrow> (int \<times> au_dinfo) option" where
  "refresh_range pend di =
     Option.bind (first_up (hdp_used di) 0 pend) (\<lambda>bs.
     case bs of
       None \<Rightarrow> Some (- EIO, di\<lparr>di_bstart := - 1, di_bend := - 1\<rparr>)
     | Some bstart \<Rightarrow>
         Option.bind (first_down (hdp_used di) pend 0) (\<lambda>be.
         case be of
           None \<Rightarrow> Some (- EIO, di\<lparr>di_bstart := bstart, di_bend := - 1\<rparr>)
         | Some bend \<Rightarrow> Some (0, di\<lparr>di_bstart := bstart, di_bend := bend\<rparr>)))"

definition au_do_refresh_hdentry :: "au_sbinfo \<Rightarrow> bindex \<Rightarrow> au_dinfo \<times> vfs \<Rightarrow> (int \<times> au_dinfo \<times> vfs) option" where
  "au_do_refresh_hdentry sbi pend st =
     (let (di, v) = st in
      Option.bind (refresh_loop sbi di (di_bstart di)
          \<lparr>rf_hd = di_hdentry di, rf_bwh = di_bwh di, rf_bdiropq = di_bdiropq di, rf_v = v\<rparr>) (\<lambda>s.
      Option.bind (refresh_index sbi (rf_bwh s)) (\<lambda>bwh.
      Option.bind (refresh_index sbi (rf_bdiropq s)) (\<lambda>bdiropq.
      map_option (\<lambda>(err, di'). (err, di', rf_v s))
        (refresh_range pend (di\<lparr>di_hdentry := rf_hd s, di_bwh := bwh, di_bdiropq := bdiropq\<rparr>))))))"

section \<open>The loop ends\<close>

definition has_dentry :: "au_hdentry \<Rightarrow> bool" where "has_dentry h \<longleftrightarrow> hd_dentry h \<noteq> None"

interpretation hd_slots: slot_table has_dentry hd_id "br_pos sbi" for sbi
  by unfold_locales (rule br_pos_inj)

definition hd_strays :: "au_sbinfo \<Rightarrow> au_hdentry list \<Rightarrow> nat" where
  "hd_strays sbi hds = card (strays has_dentry hd_id (br_pos sbi) hds)"

text \<open>
  The invariant: the slots before the index and behind the range are settled, no branch id occurs
  twice, no dentry of an existing branch was lost, and the references are those of the table.
\<close>

definition refresh_inv :: "au_sbinfo \<Rightarrow> au_dinfo \<times> vfs \<Rightarrow> bindex \<Rightarrow> refresh \<Rightarrow> bool" where
  "refresh_inv sbi s0 b s \<longleftrightarrow> once has_dentry hd_id (rf_hd s) \<and> length (rf_hd s) = length (di_hdentry (fst s0))
     \<and> (\<forall>k < length (rf_hd s). int k < b \<or> di_bend (fst s0) < int k \<longrightarrow>
          settled has_dentry hd_id (br_pos sbi) (rf_hd s) k)
     \<and> {h \<in> entries_of has_dentry (rf_hd s). 0 \<le> br_pos sbi (hd_id h)}
        = {h \<in> entries_of has_dentry (di_hdentry (fst s0)). 0 \<le> br_pos sbi (hd_id h)}
     \<and> keeps s0 ((fst s0)\<lparr>di_hdentry := rf_hd s\<rparr>, rf_v s)"

lemma keeps_mset:
  assumes "mset hds' = mset hds" and "keeps s0 (di\<lparr>di_hdentry := hds\<rparr>, v)"
  shows "keeps s0 (di\<lparr>di_hdentry := hds'\<rparr>, v)"
proof -
  have "mset (dslots (di\<lparr>di_hdentry := hds'\<rparr>)) = mset (dslots (di\<lparr>di_hdentry := hds\<rparr>))"
    using assms(1) by (simp add: dslots_def)
  then have "count_list (dslots (di\<lparr>di_hdentry := hds'\<rparr>)) = count_list (dslots (di\<lparr>di_hdentry := hds\<rparr>))"
    "set (dslots (di\<lparr>di_hdentry := hds'\<rparr>)) = set (dslots (di\<lparr>di_hdentry := hds\<rparr>))"
    by (metis count_mset ext, metis set_mset_mset)
  then have "held (dslots (di\<lparr>di_hdentry := hds'\<rparr>)) = held (dslots (di\<lparr>di_hdentry := hds\<rparr>))"
    "set (dslots (di\<lparr>di_hdentry := hds'\<rparr>)) = set (dslots (di\<lparr>di_hdentry := hds\<rparr>))"
    by (simp_all add: held_def fun_eq_iff)
  then show ?thesis using assms(2) by (simp add: keeps_def di_owns_def d_foreign_def fun_eq_iff)
qed

text \<open>The put of one slot.\<close>

lemma hdput_ok:
  assumes own: "di_owns v di" and n: "n < length (di_hdentry di)" and p: "p = di_hdentry di ! n"
  shows "\<exists>v'. au_hdput p v = Some v'
    \<and> keeps (di, v) (di\<lparr>di_hdentry := (di_hdentry di)[n := p\<lparr>hd_dentry := None\<rparr>]\<rparr>, v')"
proof -
  have sl: "dslots di ! n = hd_dentry p" "n < length (dslots di)" using n p by (simp_all add: dslots_nth)
  obtain v' where v': "dput (dslots di ! n) v = Some v'" "dref.owns v' ((dslots di)[n := None])"
    "dref.foreign v' ((dslots di)[n := None]) = dref.foreign v (dslots di)"
    using dref.put_slot_ok [OF _ sl(2)] own by (auto simp: di_owns_owns)
  have "dslots (di\<lparr>di_hdentry := (di_hdentry di)[n := p\<lparr>hd_dentry := None\<rparr>]\<rparr>) = (dslots di)[n := None]"
    by (simp add: dslots_def map_update)
  then show ?thesis using v' dput_frame [OF v'(1)] sl(1)
    by (intro exI [of _ v']) (simp add: au_hdput_def keeps_def di_owns_owns d_foreign_foreign)
qed

lemma refresh_step_ok:
  assumes wf: "sbi_wf sbi" and room: "au_sbend sbi < int (length (di_hdentry di))"
    and b: "0 \<le> b" "b \<le> di_bend di" "di_bend di < int (length (di_hdentry di))"
    and inv: "refresh_inv sbi (di, v) b s"
  shows "\<exists>b' s'. refresh_step sbi di b s = Some (b', s') \<and> refresh_inv sbi (di, v) b' s'
    \<and> (b' = b \<or> b' = b + 1) \<and> hd_strays sbi (rf_hd s') \<le> hd_strays sbi (rf_hd s)
    \<and> (b' = b \<longrightarrow> hd_strays sbi (rf_hd s') < hd_strays sbi (rf_hd s))"
proof -
  let ?h = "rf_hd s" and ?n = "nat b"
  let ?settled = "settled has_dentry hd_id (br_pos sbi)"
  have I: "once has_dentry hd_id ?h" "length ?h = length (di_hdentry di)"
    "\<forall>k < length ?h. int k < b \<or> di_bend di < int k \<longrightarrow> ?settled ?h k"
    "{h \<in> entries_of has_dentry ?h. 0 \<le> br_pos sbi (hd_id h)}
      = {h \<in> entries_of has_dentry (di_hdentry di). 0 \<le> br_pos sbi (hd_id h)}"
    "keeps (di, v) (di\<lparr>di_hdentry := ?h\<rparr>, rf_v s)"
    using inv by (simp_all add: refresh_inv_def)
  have n: "?n < length ?h" "int ?n = b" using b I(2) by linarith+
  have p: "arr_get ?h b = Some (?h ! ?n)" using n b(1) by (simp add: arr_get_def)
  have ix: "au_br_index sbi (hd_id (?h ! ?n)) = Some (br_pos sbi (hd_id (?h ! ?n)))" by (rule br_pos_index [OF wf])
  let ?new = "br_pos sbi (hd_id (?h ! ?n))"
  have advance: "refresh_inv sbi (di, v) (b + 1) s" if "?settled ?h ?n"
    unfolding refresh_inv_def fst_conv
    using I n that by (metis (no_types, lifting) less_add_one nat_int not_less zless_add1_eq)
  have rm: "{h \<in> E - {p}. Q h} = {h \<in> E. Q h}" if "\<not> Q p" for E Q and p :: au_hdentry using that by blast
  show ?thesis
  proof (cases "hd_dentry (?h ! ?n) = None \<or> ?new = b")
    case True
    then have "?settled ?h ?n" using n by (auto simp: settled_def has_dentry_def)
    then show ?thesis using advance True p ix by (intro exI [of _ "b + 1"] exI [of _ s]) (auto simp: refresh_step_def)
  next
    case False
    then have used: "has_dentry (?h ! ?n)" and nb: "?new \<noteq> b" by (simp_all add: has_dentry_def)
    then obtain y where y: "hd_dentry (?h ! ?n) = Some y" by (auto simp: has_dentry_def)
    define s1 where "s1 = s\<lparr>rf_bwh := (if di_bwh di = b then ?new else rf_bwh s),
                    rf_bdiropq := (if di_bdiropq di = b then ?new else rf_bdiropq s)\<rparr>"
    have s1_v: "rf_v s1 = rf_v s" by (simp add: s1_def)
    show ?thesis
    proof (cases "?new < 0")
      case True
      let ?ys = "?h[?n := (?h ! ?n)\<lparr>hd_dentry := None\<rparr>]"
      have own: "di_owns (rf_v s) (di\<lparr>di_hdentry := ?h\<rparr>)" using I(5) by (simp add: keeps_def)
      obtain v' where v': "au_hdput (?h ! ?n) (rf_v s) = Some v'"
        "keeps (di\<lparr>di_hdentry := ?h\<rparr>, rf_v s) (di\<lparr>di_hdentry := ?ys\<rparr>, v')"
        using hdput_ok [OF own, of ?n "?h ! ?n"] n by auto
      let ?s' = "s1\<lparr>rf_hd := ?ys, rf_v := v'\<rparr>"
      have run: "refresh_step sbi di b s = Some (b + 1, ?s')"
        using p ix y nb True v'(1) by (simp add: refresh_step_def s1_def Let_def)
      have "\<not> has_dentry ((?h ! ?n)\<lparr>hd_dentry := None\<rparr>)" by (simp add: has_dentry_def)
      note dropped = hd_slots.drop_ok [OF I(1) n(1) used this refl]
      have gone: "{h \<in> entries_of has_dentry ?ys. 0 \<le> br_pos sbi (hd_id h)}
          = {h \<in> entries_of has_dentry ?h. 0 \<le> br_pos sbi (hd_id h)}"
        unfolding dropped(2) by (rule rm) (use True in simp)
      have "?settled ?ys k" if "k < length ?h" "int k < b + 1 \<or> di_bend di < int k" for k
      proof (cases "k = ?n")
        case False
        then have "int k < b \<or> di_bend di < int k" using that(2) n(2) by auto
        then show ?thesis using dropped(4) [OF that(1)] I(3) that(1) by blast
      qed (simp add: dropped(5))
      then have "refresh_inv sbi (di, v) (b + 1) ?s'"
        using dropped(1) I(2,4) gone keeps_trans [OF I(5) v'(2)] by (simp add: refresh_inv_def)
      then show ?thesis using run dropped(3) by (intro exI [of _ "b + 1"] exI [of _ ?s']) (simp add: hd_strays_def)
    next
      case False
      have "?new \<le> au_sbend sbi" using br_pos_id(2) [of sbi "hd_id (?h ! ?n)"] False by simp
      then have j: "nat ?new < length ?h" "int (nat ?new) = ?new" "nat ?new \<noteq> ?n"
        using False room I(2) nb n(2) by linarith+
      let ?q = "?h ! nat ?new" and ?ys = "?h[nat ?new := ?h ! ?n, ?n := ?h ! nat ?new]"
      let ?s' = "s1\<lparr>rf_hd := ?ys\<rparr>" and ?b' = "if hd_dentry ?q = None then b + 1 else b"
      have "arr_get ?h ?new = Some ?q" using j False by (simp add: arr_get_def)
      then have run: "refresh_step sbi di b s = Some (?b', ?s')"
        using p ix y nb False by (simp add: refresh_step_def s1_def Let_def)
      note swap = hd_slots.swap_ok [OF I(1) n(1) j(1,3) used j(2) [symmetric] refl]
      have "?settled ?ys k" if k: "k < length ?h" "int k < ?b' \<or> di_bend di < int k" for k
      proof (cases "k = ?n")
        case True
        then have "hd_dentry ?q = None" using k(2) n(2) b(2) by (auto split: if_splits)
        then show ?thesis using True swap(7) by (simp add: settled_def has_dentry_def)
      next
        case False
        then have "int k < b \<or> di_bend di < int k" using k(2) n(2) by (auto split: if_splits)
        then show ?thesis using swap(5) [OF k(1) False] I(3) k(1) by blast
      qed
      then have "refresh_inv sbi (di, v) ?b' ?s'"
        using swap(1,3) I(2,4) keeps_mset [OF swap(2) I(5)] s1_v by (simp add: refresh_inv_def)
      then show ?thesis using run swap(4) by (intro exI [of _ ?b'] exI [of _ ?s']) (simp add: hd_strays_def)
    qed
  qed
qed

lemma refresh_loop_ok:
  assumes wf: "sbi_wf sbi" and room: "au_sbend sbi < int (length (di_hdentry di))"
    and e: "di_bend di < int (length (di_hdentry di))"
  shows "0 \<le> b \<Longrightarrow> refresh_inv sbi (di, v) b s
    \<Longrightarrow> \<exists>b' s'. refresh_loop sbi di b s = Some s' \<and> refresh_inv sbi (di, v) b' s' \<and> di_bend di < b'"
proof (induction "nat (di_bend di + 1 - b) + hd_strays sbi (rf_hd s)" arbitrary: b s rule: less_induct)
  case less
  show ?case
  proof (cases "di_bend di < b")
    case True
    then have "refresh_loop sbi di b s = Some s" by (simp add: refresh_loop.simps [of sbi di b s])
    then show ?thesis using True less.prems by blast
  next
    case False
    then have be: "b \<le> di_bend di" by simp
    obtain b1 s1 where st: "refresh_step sbi di b s = Some (b1, s1)" "refresh_inv sbi (di, v) b1 s1"
      "b1 = b \<or> b1 = b + 1" "hd_strays sbi (rf_hd s1) \<le> hd_strays sbi (rf_hd s)"
      "b1 = b \<longrightarrow> hd_strays sbi (rf_hd s1) < hd_strays sbi (rf_hd s)"
      using refresh_step_ok [OF wf room less.prems(1) be e less.prems(2)] by blast
    have "nat (di_bend di + 1 - b1) + hd_strays sbi (rf_hd s1) < nat (di_bend di + 1 - b) + hd_strays sbi (rf_hd s)"
      using st(3-5) be by (cases "b1 = b") auto
    moreover have "0 \<le> b1" using st(3) less.prems(1) by auto
    ultimately obtain b' s' where "refresh_loop sbi di b1 s1 = Some s'" "refresh_inv sbi (di, v) b' s'" "di_bend di < b'"
      using less.hyps st(2) by blast
    then show ?thesis using False st(1) by (auto simp: refresh_loop.simps [of sbi di b s])
  qed
qed

section \<open>The whole operation\<close>

lemma refresh_index_ok: "sbi_wf sbi \<Longrightarrow> \<exists>b'. refresh_index sbi b = Some b'"
  using sbi_wf_sbr [of sbi b] by (auto simp: refresh_index_def au_sbr_whable_def au_sbr_perm_def au_sbend_def)

lemma refresh_range_ok:
  assumes "pend < int (length (di_hdentry di))"
  shows "\<exists>err b e. refresh_range pend di = Some (err, di\<lparr>di_bstart := b, di_bend := e\<rparr>)
    \<and> tight_range (dslots di) pend b e \<and> err = (if b < 0 then - EIO else 0)"
proof -
  have "pend < int (length (dslots di))" using assms by simp
  from tight_search [OF this] show ?thesis
  proof (elim disjE exE conjE)
    assume "first_up (slot_used (dslots di)) 0 pend = Some None" "tight_range (dslots di) pend (- 1) (- 1)"
    then show ?thesis by (intro exI [of _ "- EIO"] exI [of _ "- 1"]) (simp add: refresh_range_def slot_used_hd)
  next
    fix s t
    assume f: "first_up (slot_used (dslots di)) 0 pend = Some (Some s)"
      "\<forall>u. 0 \<le> u \<longrightarrow> u \<le> s \<longrightarrow> first_down (slot_used (dslots di)) pend u = Some (Some t)"
      "s \<le> t" "tight_range (dslots di) pend s t"
    have "0 \<le> s" using first_up_found [OF f(1)] by simp
    then have "first_down (slot_used (dslots di)) pend 0 = Some (Some t)" using f(2) by simp
    then show ?thesis using f \<open>0 \<le> s\<close>
      by (intro exI [of _ 0] exI [of _ s] exI [of _ t]) (simp add: refresh_range_def slot_used_hd)
  qed
qed

lemma in_range_settled:
  assumes "di_in_range di" and "k < length (di_hdentry di)" and "int k < di_bstart di \<or> di_bend di < int k"
  shows "settled has_dentry hd_id (br_pos sbi) (di_hdentry di) k"
  using assms by (auto simp: di_in_range_def settled_def has_dentry_def dslots_nth)

text \<open>
  C29: \<open>au_do_refresh_hdentry\<close> returns. Whatever order the branches have now, the loop that swaps the
  lower dentries and starts again ends if no two of them belong to the same branch: every lower
  dentry of a branch that still exists is then in the slot of the new index and nothing else is in
  the table, the references of the others were given back, and the range is the tight one up to the
  end of the parent, with \<open>EIO\<close> exactly if there is none.
\<close>

theorem au_do_refresh_hdentry_ends:
  assumes wf: "sbi_wf sbi" and room: "au_sbend sbi < int (length (di_hdentry di))"
    and pend: "pend < int (length (di_hdentry di))"
    and range: "di_in_range di" "0 \<le> di_bstart di" and own: "di_owns v di" and o: "once has_dentry hd_id (di_hdentry di)"
  shows "\<exists>err di' v'. au_do_refresh_hdentry sbi pend (di, v) = Some (err, di', v')
    \<and> length (di_hdentry di') = length (di_hdentry di)
    \<and> (\<forall>k < length (di_hdentry di). has_dentry (di_hdentry di' ! k) \<longrightarrow> di_hdentry di' ! k \<in> set (di_hdentry di)
          \<and> au_br_index sbi (hd_id (di_hdentry di' ! k)) = Some (int k))
    \<and> (\<forall>h \<in> set (di_hdentry di). has_dentry h \<longrightarrow> (\<exists>i. au_br_index sbi (hd_id h) = Some i
          \<and> (0 \<le> i \<longrightarrow> i < int (length (di_hdentry di)) \<and> di_hdentry di' ! nat i = h)))
    \<and> di_owns v' di' \<and> d_foreign v' (dslots di') = d_foreign v (dslots di)
    \<and> tight_range (dslots di') pend (di_bstart di') (di_bend di')
    \<and> err = (if di_bstart di' < 0 then - EIO else 0)"
proof -
  let ?s0 = "\<lparr>rf_hd = di_hdentry di, rf_bwh = di_bwh di, rf_bdiropq = di_bdiropq di, rf_v = v\<rparr>"
  have e: "di_bend di < int (length (di_hdentry di))" using range(1) by (simp add: di_in_range_def)
  have "refresh_inv sbi (di, v) (di_bstart di) ?s0"
    using o in_range_settled [OF range(1), of _ sbi] keeps_refl [OF own] by (simp add: refresh_inv_def)
  then obtain b' s where loop: "refresh_loop sbi di (di_bstart di) ?s0 = Some s" and inv: "refresh_inv sbi (di, v) b' s"
    and b': "di_bend di < b'"
    using refresh_loop_ok [OF wf room e range(2)] by blast
  have len: "length (rf_hd s) = length (di_hdentry di)"
    and keeps: "keeps (di, v) (di\<lparr>di_hdentry := rf_hd s\<rparr>, rf_v s)"
    using inv by (simp_all add: refresh_inv_def)
  have all: "\<forall>k < length (rf_hd s). settled has_dentry hd_id (br_pos sbi) (rf_hd s) k"
    using inv b' unfolding refresh_inv_def by fastforce
  have ents: "entries_of has_dentry (rf_hd s) = {h \<in> entries_of has_dentry (di_hdentry di). 0 \<le> br_pos sbi (hd_id h)}"
    by (rule hd_slots.all_settled [OF all]) (use inv in \<open>simp add: refresh_inv_def\<close>)
  obtain bwh bdiropq where idx: "refresh_index sbi (rf_bwh s) = Some bwh" "refresh_index sbi (rf_bdiropq s) = Some bdiropq"
    using refresh_index_ok [OF wf] by metis
  let ?di = "di\<lparr>di_hdentry := rf_hd s, di_bwh := bwh, di_bdiropq := bdiropq\<rparr>"
  obtain err bs be where rg: "refresh_range pend ?di = Some (err, ?di\<lparr>di_bstart := bs, di_bend := be\<rparr>)"
    "tight_range (dslots ?di) pend bs be" "err = (if bs < 0 then - EIO else 0)"
    using refresh_range_ok [of pend ?di] pend len by auto
  let ?di' = "?di\<lparr>di_bstart := bs, di_bend := be\<rparr>"
  have sl: "dslots ?di' = dslots (di\<lparr>di_hdentry := rf_hd s\<rparr>)" "dslots ?di = dslots (di\<lparr>di_hdentry := rf_hd s\<rparr>)"
    by (simp_all add: dslots_def)
  have run: "au_do_refresh_hdentry sbi pend (di, v) = Some (err, ?di', rf_v s)"
    using loop idx rg(1) by (simp add: au_do_refresh_hdentry_def)
  have in_place: "rf_hd s ! k \<in> set (di_hdentry di) \<and> au_br_index sbi (hd_id (rf_hd s ! k)) = Some (int k)"
    if "k < length (di_hdentry di)" "has_dentry (rf_hd s ! k)" for k
  proof -
    have "rf_hd s ! k \<in> entries_of has_dentry (rf_hd s)" using that len by (simp add: entries_of_def)
    then have "rf_hd s ! k \<in> set (di_hdentry di)" unfolding ents by (simp add: entries_of_def)
    moreover have "br_pos sbi (hd_id (rf_hd s ! k)) = int k" using all that len by (auto simp: settled_def)
    ultimately show ?thesis using br_pos_index [OF wf, of "hd_id (rf_hd s ! k)"] by simp
  qed
  have found: "\<exists>i. au_br_index sbi (hd_id h) = Some i \<and> (0 \<le> i \<longrightarrow> i < int (length (di_hdentry di)) \<and> rf_hd s ! nat i = h)"
    if h: "h \<in> set (di_hdentry di)" "has_dentry h" for h
  proof -
    have "br_pos sbi (hd_id h) < int (length (di_hdentry di)) \<and> rf_hd s ! nat (br_pos sbi (hd_id h)) = h"
      if "0 \<le> br_pos sbi (hd_id h)"
    proof -
      have "h \<in> entries_of has_dentry (rf_hd s)" unfolding ents using h that by (simp add: entries_of_def)
      then obtain k where "k < length (rf_hd s)" "rf_hd s ! k = h" "br_pos sbi (hd_id h) = int k"
        using hd_slots.entry_slot [OF all] by blast
      then show ?thesis using len by simp
    qed
    then show ?thesis using br_pos_index [OF wf, of "hd_id h"] by blast
  qed
  have "di_owns (rf_v s) ?di'" "d_foreign (rf_v s) (dslots ?di') = d_foreign v (dslots di)"
    using keeps unfolding sl by (simp_all add: keeps_def di_owns_def sl)
  then show ?thesis using run len in_place found rg(2,3) unfolding sl
    by (intro exI [of _ err] exI [of _ ?di'] exI [of _ "rf_v s"]) (simp add: sl(2))
qed

section \<open>Witness\<close>

text \<open>
  A branch was inserted at the top: two directories move down by one. The index of the opaque one is
  taken over twice, since the second directory passes through slot 0 as well: it ends at 2, while the
  opaque directory is in slot 1.
\<close>

definition shifted_dinfo :: au_dinfo where
  "shifted_dinfo =
     \<lparr>di_generation = 1, di_bstart = 0, di_bend = 1, di_bwh = - 1, di_bdiropq = 0,
      di_hdentry = [\<lparr>hd_dentry = Some 100, hd_id = 2\<rparr>, \<lparr>hd_dentry = Some 102, hd_id = 127\<rparr>,
                    \<lparr>hd_dentry = None, hd_id = - 1\<rparr>]\<rparr>"

lemma example_br_index:
  "au_br_index example_sbinfo 2 = Some 1" "au_br_index example_sbinfo 127 = Some 2"
  by (simp_all add: au_br_index_def au_sbend_def au_sbr_id_def au_sbr_def arr_get_def example_sbinfo_def
      example_branch_def first_up.simps)

lemma shifted_loop:
  "refresh_loop example_sbinfo shifted_dinfo 0 \<lparr>rf_hd = di_hdentry shifted_dinfo, rf_bwh = - 1, rf_bdiropq = 0, rf_v = v\<rparr>
   = Some \<lparr>rf_hd = [\<lparr>hd_dentry = None, hd_id = - 1\<rparr>, \<lparr>hd_dentry = Some 100, hd_id = 2\<rparr>,
                    \<lparr>hd_dentry = Some 102, hd_id = 127\<rparr>], rf_bwh = - 1, rf_bdiropq = 2, rf_v = v\<rparr>"
  by (simp add: refresh_loop.simps refresh_step_def shifted_dinfo_def arr_get_def example_br_index Let_def
      eval_nat_numeral)

theorem refresh_moves_opaque_twice:
  "\<exists>di'. au_do_refresh_hdentry example_sbinfo 2 (shifted_dinfo, v) = Some (0, di', v)
    \<and> di_hdentry di' ! 1 = di_hdentry shifted_dinfo ! nat (di_bdiropq shifted_dinfo) \<and> di_bdiropq di' = 2"
proof -
  have "refresh_index example_sbinfo (- 1) = Some (- 1)" "refresh_index example_sbinfo 2 = Some 2"
    by (simp_all add: refresh_index_def au_sbr_whable_def au_sbr_perm_def au_sbend_def au_sbr_def arr_get_def
        example_sbinfo_def example_branch_def au_br_whable_def AuBrPerm_RW_def AuBrRAttr_WH_def)
  then show ?thesis using shifted_loop [of v]
    by (simp add: au_do_refresh_hdentry_def refresh_range_def hdp_used_def first_up.simps first_down.simps arr_get_def)
      (simp add: shifted_dinfo_def hdp_used_def first_up.simps first_down.simps arr_get_def)
qed

theorem au_do_refresh_hdentry_ends_witness:
  "\<exists>err di' v'. au_do_refresh_hdentry example_sbinfo 2 (shifted_dinfo, example_vfs) = Some (err, di', v')
    \<and> di_hdentry di' ! 1 = \<lparr>hd_dentry = Some 100, hd_id = 2\<rparr>
    \<and> d_foreign v' (dslots di') = d_foreign example_vfs (dslots shifted_dinfo)"
proof -
  have "di_in_range shifted_dinfo" "di_owns example_vfs shifted_dinfo" "once has_dentry hd_id (di_hdentry shifted_dinfo)"
    "au_sbend example_sbinfo < int (length (di_hdentry shifted_dinfo))"
    by (auto simp: di_in_range_def di_owns_def shifted_dinfo_def example_vfs_def dslots_def d_refs_def once_def
        has_dentry_def less_Suc_eq au_sbend_def example_sbinfo_def)
  then show ?thesis
    using au_do_refresh_hdentry_ends [OF example_sbinfo_wf, of shifted_dinfo 2 example_vfs]
    by (simp add: example_br_index shifted_dinfo_def has_dentry_def) (elim exE conjE, intro exI conjI, assumption+)
qed

end
