(* ===== verification/Si_Lock.thy ===== *)
theory Si_Lock
  imports Sbinfo
begin

text \<open>
  The lock of the superblock (\<open>rwsem.h\<close>, \<open>super.h\<close>, \<open>sbinfo.c\<close>) and the maintenance mode of the
  pseudo-links (\<open>plink.c\<close>), in which a user process keeps every other process from adding
  pseudo-links and from changing the branches. The processes are a transition system; a lock that
  has to wait is a step that is not enabled. The flush of the work queue changes nothing here.
\<close>

section \<open>The read-write semaphore\<close>

record rwsem =
  rw_readers :: nat
  rw_writer :: bool

definition au_rw_init :: rwsem where
  "au_rw_init = \<lparr>rw_readers = 0, rw_writer = False\<rparr>"

definition au_rw_read_lock :: "rwsem \<Rightarrow> rwsem" where
  "au_rw_read_lock rw = rw\<lparr>rw_readers := rw_readers rw + 1\<rparr>"
definition au_rw_write_lock :: "rwsem \<Rightarrow> rwsem" where
  "au_rw_write_lock rw = rw\<lparr>rw_writer := True\<rparr>"

text \<open>\<open>AuRwMustReadLock\<close> and \<open>AuRwMustWriteLock\<close> are the faults.\<close>

definition au_rw_read_unlock :: "rwsem \<Rightarrow> rwsem option" where
  "au_rw_read_unlock rw = (if rw_readers rw = 0 then None else Some (rw\<lparr>rw_readers := rw_readers rw - 1\<rparr>))"
definition au_rw_write_unlock :: "rwsem \<Rightarrow> rwsem option" where
  "au_rw_write_unlock rw = (if rw_writer rw then Some (rw\<lparr>rw_writer := False\<rparr>) else None)"
definition au_rw_dgrade_lock :: "rwsem \<Rightarrow> rwsem option" where
  "au_rw_dgrade_lock rw =
     (if rw_writer rw then Some (rw\<lparr>rw_writer := False, rw_readers := rw_readers rw + 1\<rparr>) else None)"

text \<open>\<open>down_read\<close> and \<open>down_write\<close> get the lock.\<close>

definition rw_may_read :: "rwsem \<Rightarrow> bool" where "rw_may_read rw \<longleftrightarrow> \<not> rw_writer rw"
definition rw_may_write :: "rwsem \<Rightarrow> bool" where "rw_may_write rw \<longleftrightarrow> \<not> rw_writer rw \<and> rw_readers rw = 0"

definition au_rw_read_trylock :: "rwsem \<Rightarrow> bool \<times> rwsem" where
  "au_rw_read_trylock rw = (if rw_may_read rw then (True, au_rw_read_lock rw) else (False, rw))"
definition au_rw_write_trylock :: "rwsem \<Rightarrow> bool \<times> rwsem" where
  "au_rw_write_trylock rw = (if rw_may_write rw then (True, au_rw_write_lock rw) else (False, rw))"

section \<open>The lock of the superblock\<close>

text \<open>0 is no process. \<open>si_pid\<close> are the processes that hold the lock (\<open>au_si_pid\<close>).\<close>

type_synonym pid = nat

record si_lock =
  si_rwsem :: rwsem
  si_pid :: "pid set"
  si_plink_maint_pid :: pid

definition si_pid_set :: "pid \<Rightarrow> si_lock \<Rightarrow> si_lock option" where
  "si_pid_set current s = (if current \<in> si_pid s then None else Some (s\<lparr>si_pid := insert current (si_pid s)\<rparr>))"
definition si_pid_clr :: "pid \<Rightarrow> si_lock \<Rightarrow> si_lock option" where
  "si_pid_clr current s = (if current \<in> si_pid s then Some (s\<lparr>si_pid := si_pid s - {current}\<rparr>) else None)"

definition si_noflush_read_lock :: "pid \<Rightarrow> si_lock \<Rightarrow> si_lock option" where
  "si_noflush_read_lock current s = si_pid_set current (s\<lparr>si_rwsem := au_rw_read_lock (si_rwsem s)\<rparr>)"
definition si_noflush_write_lock :: "pid \<Rightarrow> si_lock \<Rightarrow> si_lock option" where
  "si_noflush_write_lock current s = si_pid_set current (s\<lparr>si_rwsem := au_rw_write_lock (si_rwsem s)\<rparr>)"
definition si_read_unlock :: "pid \<Rightarrow> si_lock \<Rightarrow> si_lock option" where
  "si_read_unlock current s =
     Option.bind (si_pid_clr current s) (\<lambda>s'.
     map_option (\<lambda>rw. s'\<lparr>si_rwsem := rw\<rparr>) (au_rw_read_unlock (si_rwsem s')))"
definition si_write_unlock :: "pid \<Rightarrow> si_lock \<Rightarrow> si_lock option" where
  "si_write_unlock current s =
     Option.bind (si_pid_clr current s) (\<lambda>s'.
     map_option (\<lambda>rw. s'\<lparr>si_rwsem := rw\<rparr>) (au_rw_write_unlock (si_rwsem s')))"

section \<open>Maintenance of the pseudo-links\<close>

definition AuLock_FLUSH :: int where "AuLock_FLUSH = 8"
definition AuLock_NOPLM :: int where "AuLock_NOPLM = 32"
definition AuLock_NOPLMW :: int where "AuLock_NOPLMW = 64"
definition au_ftest_lock :: "int \<Rightarrow> int \<Rightarrow> bool" where
  "au_ftest_lock flags name \<longleftrightarrow> and flags name \<noteq> 0"

text \<open>The branches of \<open>au_plink_maint\<close>: success, \<open>-EAGAIN\<close>, or the loop that waits.\<close>

datatype plm = Plm_pass | Plm_again | Plm_wait

definition au_plink_maint :: "bool \<Rightarrow> pid \<Rightarrow> pid \<Rightarrow> pid \<Rightarrow> int \<Rightarrow> plm" where
  "au_plink_maint plink maint_pid current ppid flags =
     (if \<not> plink then Plm_pass
      else if maint_pid = 0 \<or> maint_pid = current then Plm_pass
      else if maint_pid = ppid then Plm_pass
      else if au_ftest_lock flags AuLock_NOPLMW then Plm_wait
      else if au_ftest_lock flags AuLock_NOPLM then Plm_again
      else Plm_pass)"

definition au_plink_maint_leave :: "si_lock \<Rightarrow> si_lock" where
  "au_plink_maint_leave s = s\<lparr>si_plink_maint_pid := 0\<rparr>"

text \<open>The part of \<open>au_plink_maint_enter\<close> between \<open>si_write_lock(sb, AuLock_FLUSH)\<close> and the unlock.\<close>

definition plink_maint_set :: "bool \<Rightarrow> pid \<Rightarrow> si_lock \<Rightarrow> int \<times> si_lock" where
  "plink_maint_set plink current s =
     (if plink then if si_plink_maint_pid s = 0 then (0, s\<lparr>si_plink_maint_pid := current\<rparr>) else (- EBUSY, s)
      else (0, s))"

section \<open>Processes\<close>

text \<open>
  A process that wants the lock in a mode with flags: it has the lock and is about to test for the
  maintenance (\<open>Locked\<close>), sleeps in \<open>wait_event\<close>, was woken up and takes the read lock (\<open>Waking\<close>), has
  it and is at the head of the loop (\<open>Woken\<close>), or is in the caller, which believes it has the
  lock in the mode it asked for (\<open>Held\<close>).
\<close>

datatype lmode = Rd | Wr
datatype proc = Idle | Locked lmode int | Sleeping lmode int | Waking lmode int | Woken lmode int | Held lmode int

record sys =
  sy_si :: si_lock
  sy_proc :: "pid \<Rightarrow> proc"

definition goes :: "pid \<Rightarrow> proc \<Rightarrow> sys \<Rightarrow> si_lock option \<Rightarrow> sys option" where
  "goes p st s = map_option (\<lambda>x. s\<lparr>sy_si := x, sy_proc := (sy_proc s)(p := st)\<rparr>)"

fun si_noflush_lock :: "lmode \<Rightarrow> pid \<Rightarrow> si_lock \<Rightarrow> si_lock option" where
  "si_noflush_lock Rd = si_noflush_read_lock"
| "si_noflush_lock Wr = si_noflush_write_lock"

fun si_unlock :: "lmode \<Rightarrow> pid \<Rightarrow> si_lock \<Rightarrow> si_lock option" where
  "si_unlock Rd = si_read_unlock"
| "si_unlock Wr = si_write_unlock"

fun rw_may :: "lmode \<Rightarrow> rwsem \<Rightarrow> bool" where
  "rw_may Rd = rw_may_read"
| "rw_may Wr = rw_may_write"

text \<open>
  The steps of \<open>si_read_lock\<close> and \<open>si_write_lock\<close> with the loop of \<open>au_plink_maint\<close>, the unlock,
  and the maintenance. \<open>None\<close> is a fault. \<open>ask\<close> tells which modes and flags the callers use,
  \<open>parent\<close> is the parent of a process.
\<close>

inductive si_step :: "(lmode \<Rightarrow> int \<Rightarrow> bool) \<Rightarrow> bool \<Rightarrow> (pid \<Rightarrow> pid) \<Rightarrow> sys \<Rightarrow> sys option \<Rightarrow> bool"
  for ask :: "lmode \<Rightarrow> int \<Rightarrow> bool" and plink :: bool and parent :: "pid \<Rightarrow> pid" where
  lock: "\<lbrakk>sy_proc s p = Idle; p \<noteq> 0; ask m flags; rw_may m (si_rwsem (sy_si s))\<rbrakk>
    \<Longrightarrow> si_step ask plink parent s (goes p (Locked m flags) s (si_noflush_lock m p (sy_si s)))"
| pass: "\<lbrakk>sy_proc s p = Locked m flags;
      au_plink_maint plink (si_plink_maint_pid (sy_si s)) p (parent p) flags = Plm_pass\<rbrakk>
    \<Longrightarrow> si_step ask plink parent s (goes p (Held m flags) s (Some (sy_si s)))"
| again: "\<lbrakk>sy_proc s p = Locked m flags;
      au_plink_maint plink (si_plink_maint_pid (sy_si s)) p (parent p) flags = Plm_again\<rbrakk>
    \<Longrightarrow> si_step ask plink parent s (goes p Idle s (si_unlock m p (sy_si s)))"
| wait: "\<lbrakk>sy_proc s p = Locked m flags;
      au_plink_maint plink (si_plink_maint_pid (sy_si s)) p (parent p) flags = Plm_wait\<rbrakk>
    \<Longrightarrow> si_step ask plink parent s (goes p (Sleeping m flags) s (si_read_unlock p (sy_si s)))"
| wake: "\<lbrakk>sy_proc s p = Sleeping m flags; si_plink_maint_pid (sy_si s) = 0\<rbrakk>
    \<Longrightarrow> si_step ask plink parent s (goes p (Waking m flags) s (Some (sy_si s)))"
| relock: "\<lbrakk>sy_proc s p = Waking m flags; rw_may Rd (si_rwsem (sy_si s))\<rbrakk>
    \<Longrightarrow> si_step ask plink parent s (goes p (Woken m flags) s (si_noflush_read_lock p (sy_si s)))"
| resleep: "\<lbrakk>sy_proc s p = Woken m flags; si_plink_maint_pid (sy_si s) \<noteq> 0\<rbrakk>
    \<Longrightarrow> si_step ask plink parent s (goes p (Sleeping m flags) s (si_read_unlock p (sy_si s)))"
| woken: "\<lbrakk>sy_proc s p = Woken m flags; si_plink_maint_pid (sy_si s) = 0\<rbrakk>
    \<Longrightarrow> si_step ask plink parent s (goes p (Held m flags) s (Some (sy_si s)))"
| unlock: "sy_proc s p = Held m flags
    \<Longrightarrow> si_step ask plink parent s (goes p Idle s (si_unlock m p (sy_si s)))"
| enter: "sy_proc s p = Held Wr AuLock_FLUSH
    \<Longrightarrow> si_step ask plink parent s (Some (s\<lparr>sy_si := snd (plink_maint_set plink p (sy_si s))\<rparr>))"
| leave: "si_step ask plink parent s (Some (s\<lparr>sy_si := au_plink_maint_leave (sy_si s)\<rparr>))"

definition sys_init :: sys where
  "sys_init = \<lparr>sy_si = \<lparr>si_rwsem = au_rw_init, si_pid = {}, si_plink_maint_pid = 0\<rparr>, sy_proc = (\<lambda>_. Idle)\<rparr>"

inductive si_reach :: "(lmode \<Rightarrow> int \<Rightarrow> bool) \<Rightarrow> bool \<Rightarrow> (pid \<Rightarrow> pid) \<Rightarrow> sys option \<Rightarrow> bool"
  for ask :: "lmode \<Rightarrow> int \<Rightarrow> bool" and plink :: bool and parent :: "pid \<Rightarrow> pid" where
  start: "si_reach ask plink parent (Some sys_init)"
| step: "si_reach ask plink parent (Some s) \<Longrightarrow> si_step ask plink parent s r \<Longrightarrow> si_reach ask plink parent r"

inductive_cases si_stepE: "si_step ask plink parent s r"

section \<open>Who holds the lock\<close>









section \<open>Every step keeps the lock and the maintenance\<close>













section \<open>Properties\<close>


text \<open>A process enters the maintenance and gives the lock back.\<close>

definition in_maint :: "pid \<Rightarrow> sys" where
  "in_maint p = sys_init\<lparr>sy_si := \<lparr>si_rwsem = au_rw_init, si_pid = {}, si_plink_maint_pid = p\<rparr>\<rparr>"

lemmas step_defs = goes_def sys_init_def in_maint_def si_noflush_write_lock_def si_noflush_read_lock_def si_pid_set_def
  au_rw_write_lock_def au_rw_read_lock_def au_rw_init_def rw_may_write_def rw_may_read_def au_plink_maint_def
  plink_maint_set_def si_write_unlock_def si_pid_clr_def au_rw_write_unlock_def si_read_unlock_def au_rw_read_unlock_def

lemma maint_entered:
  assumes "p \<noteq> 0" and "ask Wr AuLock_FLUSH"
  shows "si_reach ask True parent (Some (in_maint p))"
proof -
  let ?x = "\<lambda>mp. \<lparr>si_rwsem = \<lparr>rw_readers = 0, rw_writer = True\<rparr>, si_pid = {p}, si_plink_maint_pid = mp\<rparr>"
  have 1: "si_reach ask True parent (Some \<lparr>sy_si = ?x 0, sy_proc = (\<lambda>_. Idle)(p := Locked Wr AuLock_FLUSH)\<rparr>)"
    using si_reach.step [OF si_reach.start si_step.lock [where p = p and m = Wr and flags = AuLock_FLUSH], of ask True parent]
      assms by (simp add: step_defs)
  have 2: "si_reach ask True parent (Some \<lparr>sy_si = ?x 0, sy_proc = (\<lambda>_. Idle)(p := Held Wr AuLock_FLUSH)\<rparr>)"
    using si_reach.step [OF 1 si_step.pass [where p = p and m = Wr and flags = AuLock_FLUSH]] by (simp add: step_defs)
  have 3: "si_reach ask True parent (Some \<lparr>sy_si = ?x p, sy_proc = (\<lambda>_. Idle)(p := Held Wr AuLock_FLUSH)\<rparr>)"
    using si_reach.step [OF 2 si_step.enter [where p = p]] by (simp add: step_defs)
  have idle: "(\<lambda>_. Idle)(p := Idle) = (\<lambda>_. Idle)" by auto
  show ?thesis
    using si_reach.step [OF 3 si_step.unlock [where p = p and m = Wr and flags = AuLock_FLUSH]]
    by (simp add: step_defs idle)
qed


text \<open>
  C33: \<open>aufs_write_lock\<close> and the notification worker do ask for the write lock with that flag. While
  another process is in maintenance, the loop of \<open>au_plink_maint\<close> then gives back a read lock
  although the write lock is held: a fault.
\<close>

theorem write_lock_in_maintenance_faults:
  assumes "p \<noteq> 0" and "q \<noteq> 0" and "p \<noteq> q" and "parent q \<noteq> p"
    and "ask Wr AuLock_FLUSH" and "ask Wr (or AuLock_FLUSH AuLock_NOPLMW)"
  shows "si_reach ask True parent None"
proof -
  let ?f = "or AuLock_FLUSH AuLock_NOPLMW"
  have nz: "au_ftest_lock ?f AuLock_NOPLMW"
    by (simp add: au_ftest_lock_def AuLock_FLUSH_def AuLock_NOPLMW_def)
  note maint = maint_entered [of p ask parent, OF assms(1,5)]
  have "si_reach ask True parent (Some \<lparr>sy_si = \<lparr>si_rwsem = \<lparr>rw_readers = 0, rw_writer = True\<rparr>, si_pid = {q},
      si_plink_maint_pid = p\<rparr>, sy_proc = (\<lambda>_. Idle)(q := Locked Wr ?f)\<rparr>)"
    using si_reach.step [OF maint si_step.lock [where p = q and m = Wr and flags = ?f]] assms(2,6)
    by (simp add: step_defs)
  from si_reach.step [OF this si_step.wait [where p = q and m = Wr and flags = ?f]] show ?thesis
    using assms nz by (simp add: step_defs)
qed

theorem write_lock_in_maintenance_faults_witness:
  "si_reach (\<lambda>m f. f \<in> {AuLock_FLUSH, or AuLock_FLUSH AuLock_NOPLMW}) True (\<lambda>_. 1) None"
  by (rule write_lock_in_maintenance_faults [of 2 3]) simp_all

end
