(* ===== verification/Plink.thy ===== *)
theory Plink
  imports Iinfo Lookup Si_Lock "HOL-Library.Multiset"
begin

text \<open>
  Pseudo-links (\<open>plink.c\<close>): the table of the inodes that are pseudo-linked, in 100 buckets, each
  element with a reference to its inode, and the links \<open>ino.h_ino\<close> in the directory of a branch
  by which the lower inode is found again. The directory and the errors of its operations are
  parameters; the locks of the buckets and RCU are not modelled.
\<close>

section \<open>Names\<close>

fun dec :: "nat \<Rightarrow> u8 list" where
  "dec n = (if n < 10 then [of_nat (48 + n)] else dec (n div 10) @ [of_nat (48 + n mod 10)])"

declare dec.simps [simp del]

definition plink_name :: "u32 \<Rightarrow> u32 \<Rightarrow> u8 list" where
  "plink_name ino h_ino = dec (unat ino) @ 46 # dec (unat h_ino)"

definition PLINK_NAME_LEN :: nat where "PLINK_NAME_LEN = (20 + 1) * 2"

section \<open>State\<close>

definition AuPlink_NHASH :: u32 where "AuPlink_NHASH = 100"

definition au_plink_hash :: "u32 \<Rightarrow> nat" where
  "au_plink_hash ino = unat (ino mod AuPlink_NHASH)"

text \<open>\<open>pk_v\<close> holds the aufs inodes with their reference counts.\<close>

record plinks =
  pk_tab :: "iptr list list"
  pk_v :: vfs

text \<open>
  The directory of a branch, by name the lower inode, and the errors of a lookup, an unlink and a
  link in it.
\<close>

record plink_dir =
  pd_ent :: "u8 list \<Rightarrow> iptr option"
  pd_lkup_err :: int
  pd_unlink_err :: int
  pd_link_err :: int

record plink_env =
  pe_plink :: bool
  pe_maint :: pid
  pe_current :: pid
  pe_ppid :: pid
  pe_root :: bool
  pe_wkq :: int

text \<open>The two \<open>AuDebugOn\<close> at the start of the operations.\<close>

definition plink_ready :: "plink_env \<Rightarrow> bool" where
  "plink_ready env \<longleftrightarrow> pe_plink env
     \<and> au_plink_maint (pe_plink env) (pe_maint env) (pe_current env) (pe_ppid env) AuLock_NOPLM \<noteq> Plm_again"

section \<open>Operations\<close>

definition au_plink_test :: "plink_env \<Rightarrow> plinks \<Rightarrow> iptr \<Rightarrow> bool option" where
  "au_plink_test env pk inode =
     (if \<not> plink_ready env then None
      else Option.bind (inos (pk_v pk) inode) (\<lambda>x.
           map_option (\<lambda>l. inode \<in> set l) (arr_get (pk_tab pk) (int (au_plink_hash (i_ino x))))))"

text \<open>\<open>au_do_plink_lkup\<close> by the caller or by a kernel worker: the error or what is found.\<close>

definition au_do_plink_lkup :: "u8 list \<Rightarrow> plink_dir \<Rightarrow> int + iptr option" where
  "au_do_plink_lkup tgtname d = (if pd_lkup_err d \<noteq> 0 then Inl (pd_lkup_err d) else Inr (pd_ent d tgtname))"

definition au_plink_lkup :: "plink_env \<Rightarrow> u32 \<Rightarrow> u32 \<Rightarrow> plink_dir \<Rightarrow> (int + iptr option) option" where
  "au_plink_lkup env ino h_ino d =
     (if au_plink_maint (pe_plink env) (pe_maint env) (pe_current env) (pe_ppid env) AuLock_NOPLM = Plm_again then None
      else Some (if \<not> pe_root env \<and> pe_wkq env \<noteq> 0 then Inl (pe_wkq env)
                 else au_do_plink_lkup (plink_name ino h_ino) d))"

text \<open>
  \<open>do_whplink\<close>: a link to another inode is removed and the lookup repeated, \<open>n\<close> bounds the turns.
\<close>

fun whplink_loop :: "nat \<Rightarrow> u8 list \<Rightarrow> iptr \<Rightarrow> plink_dir \<Rightarrow> (int \<times> plink_dir) option" where
  "whplink_loop 0 tgt h_inode d = None"
| "whplink_loop (Suc n) tgt h_inode d =
     (if pd_lkup_err d \<noteq> 0 then Some (pd_lkup_err d, d)
      else case pd_ent d tgt of
        Some i \<Rightarrow>
          if i = h_inode then Some (0, d)
          else if pd_unlink_err d \<noteq> 0 then Some (pd_unlink_err d, d)
          else whplink_loop n tgt h_inode (d\<lparr>pd_ent := (pd_ent d)(tgt := None)\<rparr>)
      | None \<Rightarrow>
          if pd_link_err d \<noteq> 0 then Some (pd_link_err d, d)
          else Some (0, d\<lparr>pd_ent := (pd_ent d)(tgt \<mapsto> h_inode)\<rparr>))"

definition do_whplink :: "u8 list \<Rightarrow> iptr \<Rightarrow> plink_dir \<Rightarrow> (int \<times> plink_dir) option" where
  "do_whplink = whplink_loop 2"

definition whplink :: "plink_env \<Rightarrow> u32 \<Rightarrow> u32 \<Rightarrow> iptr \<Rightarrow> plink_dir \<Rightarrow> (int \<times> plink_dir) option" where
  "whplink env ino h_ino h_inode d =
     (if \<not> pe_root env \<and> pe_wkq env \<noteq> 0 then Some (pe_wkq env, d)
      else do_whplink (plink_name ino h_ino) h_inode d)"

text \<open>
  \<open>au_plink_append\<close>. The error of \<open>whplink\<close> is returned for the record, the code only logs it.
  \<open>h_ino\<close> is the number of the lower inode of \<open>inode\<close> in the branch.
\<close>

definition au_plink_append :: "plink_env \<Rightarrow> iptr \<Rightarrow> u32 \<Rightarrow> iptr \<Rightarrow> plinks \<times> plink_dir \<times> mem_oracle
    \<Rightarrow> (int \<times> plinks \<times> plink_dir \<times> mem_oracle) option" where
  "au_plink_append env inode h_ino h_inode s =
     (let (pk, d, mem) = s in
      Option.bind (au_plink_test env pk inode) (\<lambda>found.
      if found then Some (0, pk, d, mem)
      else case take_alloc mem of
        (False, mem') \<Rightarrow> Some (- ENOMEM, pk, d, mem')
      | (True, mem') \<Rightarrow>
          Option.bind (au_igrab (Some inode) (pk_v pk)) (\<lambda>v1.
          Option.bind (inos v1 inode) (\<lambda>x.
          let k = au_plink_hash (i_ino x) in
          Option.bind (arr_get (pk_tab pk) (int k)) (\<lambda>l.
          if inode \<in> set l then map_option (\<lambda>v2. (0, pk\<lparr>pk_v := v2\<rparr>, d, mem')) (put_inode inode v1)
          else Option.bind (whplink env (i_ino x) h_ino h_inode d) (\<lambda>(err, d').
               if err = 0 then Some (0, pk\<lparr>pk_tab := (pk_tab pk)[k := inode # l], pk_v := v1\<rparr>, d', mem')
               else map_option (\<lambda>v2. (err, pk\<lparr>pk_tab := (pk_tab pk)[k := remove1 inode (inode # l)], pk_v := v2\<rparr>, d', mem'))
                      (put_inode inode v1)))))))"

definition au_plink_put :: "plink_env \<Rightarrow> plinks \<Rightarrow> plinks option" where
  "au_plink_put env pk =
     (if \<not> plink_ready env then None
      else map_option (\<lambda>v. pk\<lparr>pk_tab := map (\<lambda>l. []) (pk_tab pk), pk_v := v\<rparr>)
             (put_all put_inode (map Some (concat (pk_tab pk))) (pk_v pk)))"

definition au_plink_clean :: "plink_env \<Rightarrow> plinks \<Rightarrow> plinks option" where
  "au_plink_clean env pk = (if pe_plink env then au_plink_put env pk else Some pk)"

section \<open>A branch that is deleted\<close>

text \<open>\<open>au_plink_do_half_refresh\<close>: the lower inode of the branch is given back; whether to drop the plink.\<close>

definition half_refresh_slot :: "kconfig \<Rightarrow> au_sbinfo \<Rightarrow> vinode \<Rightarrow> bindex \<Rightarrow> bindex \<Rightarrow> au_iinfo \<times> vfs
    \<Rightarrow> (bool \<times> au_iinfo \<times> vfs) option" where
  "half_refresh_slot cfg sbi vi brid bindex s =
     (let (ii, v) = s in
      Option.bind (au_h_iptr ii v bindex) (\<lambda>h.
      if h = None \<or> au_ii_br_id ii bindex \<noteq> Some brid then Some (False, s)
      else map_option (\<lambda>(ii', v', _). (True, ii', v')) (au_set_h_iptr cfg sbi vi True bindex None 0 (ii, v, []))))"

definition au_plink_do_half_refresh :: "kconfig \<Rightarrow> au_sbinfo \<Rightarrow> vinode \<Rightarrow> bindex \<Rightarrow> au_iinfo \<times> vfs
    \<Rightarrow> (bool \<times> au_iinfo \<times> vfs) option" where
  "au_plink_do_half_refresh cfg sbi vi brid s =
     (let bstart = au_ibstart (fst s); bend = au_ibend (fst s) in
      if bstart < 0 then Some (True, s)
      else Option.bind (scan_up (half_refresh_slot cfg sbi vi brid) bstart bend s) (\<lambda>(do_put, ii, v).
           if \<not> do_put then Some (False, ii, v)
           else map_option (\<lambda>r. (r = None, ii, v))
                  (first_up (\<lambda>b. map_option (\<lambda>h. h \<noteq> None) (au_h_iptr ii v b)) bstart bend)))"

text \<open>\<open>au_plink_half_refresh\<close>: \<open>iis\<close> are the private data of the aufs inodes, \<open>low\<close> the lower inodes.\<close>

record half =
  hf_v :: vfs
  hf_ii :: "iptr \<Rightarrow> au_iinfo option"
  hf_low :: vfs

definition half_plink :: "kconfig \<Rightarrow> au_sbinfo \<Rightarrow> (iptr \<Rightarrow> vinode) \<Rightarrow> bindex \<Rightarrow> iptr \<Rightarrow> half \<Rightarrow> (bool \<times> half) option" where
  "half_plink cfg sbi vi brid inode s =
     Option.bind (au_igrab (Some inode) (hf_v s)) (\<lambda>v1.
     Option.bind (hf_ii s inode) (\<lambda>ii.
     Option.bind (au_plink_do_half_refresh cfg sbi (vi inode) brid (ii, hf_low s)) (\<lambda>(do_put, ii', low').
     Option.bind (if do_put then put_inode inode v1 else Some v1) (\<lambda>v2.
     map_option (\<lambda>v3. (do_put, s\<lparr>hf_v := v3, hf_ii := (hf_ii s)(inode \<mapsto> ii'), hf_low := low'\<rparr>))
       (put_inode inode v2)))))"

fun half_bucket :: "(iptr \<Rightarrow> half \<Rightarrow> (bool \<times> half) option) \<Rightarrow> iptr list \<Rightarrow> half \<Rightarrow> (iptr list \<times> half) option" where
  "half_bucket f [] s = Some ([], s)"
| "half_bucket f (i # is) s =
     Option.bind (f i s) (\<lambda>(do_put, s').
     map_option (\<lambda>(is', s''). (if do_put then is' else i # is', s'')) (half_bucket f is s'))"

fun half_buckets :: "(iptr \<Rightarrow> half \<Rightarrow> (bool \<times> half) option) \<Rightarrow> iptr list list \<Rightarrow> half \<Rightarrow> (iptr list list \<times> half) option" where
  "half_buckets f [] s = Some ([], s)"
| "half_buckets f (l # ls) s =
     Option.bind (half_bucket f l s) (\<lambda>(l', s').
     map_option (\<lambda>(ls', s''). (l' # ls', s'')) (half_buckets f ls s'))"

definition au_plink_half_refresh :: "plink_env \<Rightarrow> kconfig \<Rightarrow> au_sbinfo \<Rightarrow> (iptr \<Rightarrow> vinode) \<Rightarrow> bindex
    \<Rightarrow> iptr list list \<times> half \<Rightarrow> (iptr list list \<times> half) option" where
  "au_plink_half_refresh env cfg sbi vi brid s =
     (if plink_ready env then half_buckets (half_plink cfg sbi vi brid) (fst s) (snd s) else None)"

section \<open>Names are different\<close>

lemma dec_digits: "b \<in> set (dec n) \<Longrightarrow> 48 \<le> b \<and> b < 58"
proof (induction n rule: dec.induct)
  case (1 n)
  have d: "48 \<le> (of_nat (48 + k) :: u8) \<and> (of_nat (48 + k) :: u8) < 58" if "k < 10" for k
  proof -
    have "unat (of_nat (48 + k) :: u8) = 48 + k" using that by (simp add: unat_of_nat del: of_nat_add)
    then show ?thesis by (simp add: word_le_nat_alt word_less_nat_alt that del: of_nat_add)
  qed
  show ?case
  proof (cases "n < 10")
    case True
    then show ?thesis using 1(2) d by (simp add: dec.simps [of n] del: of_nat_add)
  next
    case False
    then have "b \<in> set (dec (n div 10)) \<or> b = of_nat (48 + n mod 10)"
      using 1(2) by (auto simp: dec.simps [of n] simp del: of_nat_add)
    then show ?thesis using 1(1) [OF False] d [of "n mod 10"] by auto
  qed
qed

lemma digit_val: "k < 10 \<Longrightarrow> unat (of_nat (48 + k) :: u8) - 48 = k"
  by (simp add: unat_of_nat del: of_nat_add)

lemma dec_val: "foldl (\<lambda>a b. a * 10 + (unat b - 48)) 0 (dec n) = n"
proof (induction n rule: dec.induct)
  case (1 n)
  then show ?case
    by (cases "n < 10") (simp_all add: dec.simps [of n] digit_val del: of_nat_add)
qed

lemma plink_name_inj:
  assumes "plink_name i h = plink_name i' h'"
  shows "i = i' \<and> h = h'"
proof -
  have no: "46 \<notin> set (dec n)" for n using dec_digits [of 46 n] by auto
  have tw: "takeWhile (\<lambda>b. b \<noteq> 46) (dec n @ 46 # ys) = dec n" for n ys
    using no [of n] by (subst takeWhile_append2) auto
  have "dec (unat i) = dec (unat i')" using arg_cong [OF assms, of "takeWhile (\<lambda>b. b \<noteq> 46)"] tw by (simp add: plink_name_def)
  moreover from this have "dec (unat h) = dec (unat h')" using assms by (simp add: plink_name_def)
  ultimately have "unat i = unat i'" "unat h = unat h'" using dec_val by metis+
  then show ?thesis by (simp add: word_unat_eq_iff)
qed

section \<open>The table\<close>

text \<open>Every inode is at most once in the table, in its bucket, and the table holds a reference to it.\<close>

definition plinks_ok :: "plinks \<Rightarrow> bool" where
  "plinks_ok pk \<longleftrightarrow> length (pk_tab pk) = 100 \<and> distinct (concat (pk_tab pk))
     \<and> (\<forall>k < 100. \<forall>i \<in> set (pk_tab pk ! k). \<exists>x. inos (pk_v pk) i = Some x \<and> au_plink_hash (i_ino x) = k)
     \<and> iref.owns (pk_v pk) (map Some (concat (pk_tab pk)))"

lemma hash_bound: "au_plink_hash ino < 100"
proof -
  have "unat (ino mod AuPlink_NHASH) = unat ino mod 100"
    by (simp add: AuPlink_NHASH_def unat_mod)
  then show ?thesis by (simp add: au_plink_hash_def)
qed

lemma plink_bucket:
  assumes "plinks_ok pk" and "inos (pk_v pk) i = Some x"
  shows "i \<in> set (concat (pk_tab pk)) \<longleftrightarrow> i \<in> set (pk_tab pk ! au_plink_hash (i_ino x))"
proof
  assume "i \<in> set (concat (pk_tab pk))"
  then obtain l where "l \<in> set (pk_tab pk)" "i \<in> set l" by auto
  then obtain k where k: "k < length (pk_tab pk)" "i \<in> set (pk_tab pk ! k)" using in_set_conv_nth [of l] by metis
  then obtain y where "inos (pk_v pk) i = Some y" "au_plink_hash (i_ino y) = k"
    using assms(1) unfolding plinks_ok_def by metis
  then show "i \<in> set (pk_tab pk ! au_plink_hash (i_ino x))" using assms(2) k by simp
next
  have "au_plink_hash (i_ino x) < length (pk_tab pk)" using assms(1) hash_bound by (simp add: plinks_ok_def)
  moreover assume "i \<in> set (pk_tab pk ! au_plink_hash (i_ino x))"
  ultimately show "i \<in> set (concat (pk_tab pk))" by auto
qed

lemma plink_test_ok:
  assumes "plinks_ok pk" and "inos (pk_v pk) i = Some x" and "plink_ready env"
  shows "au_plink_test env pk i = Some (i \<in> set (concat (pk_tab pk)))"
  using plink_bucket [OF assms(1,2)] assms hash_bound [of "i_ino x"]
  by (simp add: au_plink_test_def arr_get_def plinks_ok_def)

text \<open>Two turns of \<open>do_whplink\<close> are enough.\<close>

lemma do_whplink_ok:
  "\<exists>err d'. do_whplink tgt h d = Some (err, d') \<and> (err = 0 \<longrightarrow> pd_ent d' = (pd_ent d)(tgt \<mapsto> h))
     \<and> (\<forall>n. n \<noteq> tgt \<longrightarrow> pd_ent d' n = pd_ent d n) \<and> pd_lkup_err d' = pd_lkup_err d
     \<and> (err = 0 \<longrightarrow> pd_lkup_err d = 0)"
  by (cases "pd_ent d tgt") (auto simp: do_whplink_def numeral_2_eq_2 fun_upd_idem)

lemma whplink_ok:
  assumes "plink_ready env"
  shows "\<exists>err d'. whplink env ino h_ino h d = Some (err, d')
     \<and> (err = 0 \<longrightarrow> pd_ent d' = (pd_ent d)(plink_name ino h_ino \<mapsto> h) \<and> au_plink_lkup env ino h_ino d' = Some (Inr (Some h)))
     \<and> (\<forall>n. n \<noteq> plink_name ino h_ino \<longrightarrow> pd_ent d' n = pd_ent d n) \<and> pd_lkup_err d' = pd_lkup_err d"
proof (cases "\<not> pe_root env \<and> pe_wkq env \<noteq> 0")
  case True
  then show ?thesis by (intro exI [of _ "pe_wkq env"] exI [of _ d]) (simp add: whplink_def)
next
  case False
  obtain err d' where r: "do_whplink (plink_name ino h_ino) h d = Some (err, d')"
    "err = 0 \<longrightarrow> pd_ent d' = (pd_ent d)(plink_name ino h_ino \<mapsto> h)"
    "\<forall>n. n \<noteq> plink_name ino h_ino \<longrightarrow> pd_ent d' n = pd_ent d n" "pd_lkup_err d' = pd_lkup_err d"
    "err = 0 \<longrightarrow> pd_lkup_err d = 0"
    using do_whplink_ok [of "plink_name ino h_ino" h d] by blast
  show ?thesis
    using False r assms by (intro exI [of _ err] exI [of _ d']) (auto simp: whplink_def au_plink_lkup_def au_do_plink_lkup_def plink_ready_def)
qed

lemma concat_add: "k < length t \<Longrightarrow> mset (concat (t[k := i # (t ! k)])) = mset (i # concat t)"
proof (induction t arbitrary: k)
  case (Cons l t)
  show ?case
  proof (cases k)
    case (Suc j)
    then have "mset (concat (t[j := i # (t ! j)])) = mset (i # concat t)" using Cons by simp
    then show ?thesis using Suc by simp
  qed simp
qed simp

lemma held_mset: "mset xs = mset ys \<Longrightarrow> held (map Some xs) p = held (map Some ys) p"
  unfolding held_def by (metis count_mset mset_map)

lemma plink_igrab:
  assumes "plinks_ok pk" and x: "inos (pk_v pk) i = Some x" "0 < i_count x"
  shows "\<exists>v1. au_igrab (Some i) (pk_v pk) = Some v1 \<and> inos v1 i = Some (x\<lparr>i_count := i_count x + 1\<rparr>)
    \<and> (\<forall>j. map_option i_ino (inos v1 j) = map_option i_ino (inos (pk_v pk) j))
    \<and> iref.owns v1 (Some i # map Some (concat (pk_tab pk)))
    \<and> iref.foreign v1 (Some i # map Some (concat (pk_tab pk))) = iref.foreign (pk_v pk) (map Some (concat (pk_tab pk)))"
proof -
  let ?v1 = "(pk_v pk)\<lparr>inos := (inos (pk_v pk))(i \<mapsto> x\<lparr>i_count := i_count x + 1\<rparr>)\<rparr>"
  have own: "iref.owns (pk_v pk) (map Some (concat (pk_tab pk)))" using assms(1) by (simp add: plinks_ok_def)
  have g: "au_igrab (Some i) (pk_v pk) = Some ?v1" using x by (simp add: au_igrab_def get_inode_def)
  have r: "i_refs (pk_v pk) i = Some (i_count x)" "i_refs ?v1 = (i_refs (pk_v pk))(i \<mapsto> i_count x + 1)"
    using x by (auto simp: i_refs_def fun_eq_iff)
  show ?thesis using g iref.owns_get [OF own r(1) _ r(2)] x by (intro exI [of _ ?v1]) simp
qed

lemma put_inode_ino: "put_inode i v = Some v' \<Longrightarrow> map_option i_ino (inos v' j) = map_option i_ino (inos v j)"
  by (auto simp: put_inode_def split: option.splits if_splits)

lemma plinks_okI:
  assumes ok: "plinks_ok pk" and ino: "\<forall>j. map_option i_ino (inos v j) = map_option i_ino (inos (pk_v pk) j)"
    and own: "iref.owns v (map Some (concat (pk_tab pk)))"
  shows "plinks_ok (pk\<lparr>pk_v := v\<rparr>)"
proof -
  have "\<exists>x. inos v i = Some x \<and> au_plink_hash (i_ino x) = k" if "k < 100" "i \<in> set (pk_tab pk ! k)" for i k
  proof -
    note k = that
    obtain x where "inos (pk_v pk) i = Some x" "au_plink_hash (i_ino x) = k" using ok k unfolding plinks_ok_def by blast
    then show ?thesis using ino [rule_format, of i] by auto
  qed
  then show ?thesis using ok own by (simp add: plinks_ok_def)
qed

lemma plinks_ok_add:
  assumes ok: "plinks_ok pk" and x: "inos (pk_v pk) i = Some x" and new: "i \<notin> set (concat (pk_tab pk))"
    and own: "iref.owns (pk_v pk) (Some i # map Some (concat (pk_tab pk)))"
    and k: "k = au_plink_hash (i_ino x)" and t: "t = (pk_tab pk)[k := i # (pk_tab pk ! k)]"
  shows "plinks_ok (pk\<lparr>pk_tab := t\<rparr>)" and "mset (concat t) = mset (i # concat (pk_tab pk))"
proof -
  have kl: "k < length (pk_tab pk)" "k < 100" using ok hash_bound k by (simp_all add: plinks_ok_def)
  show m: "mset (concat t) = mset (i # concat (pk_tab pk))" unfolding t by (rule concat_add [OF kl(1)])
  have "distinct (concat t)" using mset_eq_imp_distinct_iff [OF m] ok new by (simp add: plinks_ok_def)
  moreover have "iref.owns (pk_v pk) (map Some (concat t))"
    using iref.table_eq(1) [OF held_mset [OF m], of "pk_v pk"] own by simp
  moreover have "\<exists>y. inos (pk_v pk) j = Some y \<and> au_plink_hash (i_ino y) = n" if "n < 100" "j \<in> set (t ! n)" for j n
  proof (cases "n = k \<and> j = i")
    case True
    then show ?thesis using x k by simp
  next
    case False
    then have "j \<in> set (pk_tab pk ! n)" using that kl unfolding t by (cases "n = k") auto
    then show ?thesis using ok that(1) unfolding plinks_ok_def by blast
  qed
  ultimately show "plinks_ok (pk\<lparr>pk_tab := t\<rparr>)" using ok by (simp add: plinks_ok_def t)
qed

lemma owns_tail:
  assumes "iref.owns v (p # ps)"
  shows "iref.owns v ps"
  unfolding iref.owns_def
proof (intro allI impI)
  fix q
  assume "Some q \<in> set ps"
  then obtain n where "i_refs v q = Some n" "held (p # ps) q \<le> n"
    using assms unfolding iref.owns_def by (metis list.set_intros(2))
  moreover have "held ps q \<le> held (p # ps) q" by (cases p) simp_all
  ultimately show "\<exists>n. i_refs v q = Some n \<and> held ps q \<le> n" by fastforce
qed

lemma plink_append_ok:
  assumes ok: "plinks_ok pk" and x: "inos (pk_v pk) i = Some x" "0 < i_count x" and ready: "plink_ready env"
  shows "\<exists>err pk' d' mem'. au_plink_append env i h_ino h (pk, d, mem) = Some (err, pk', d', mem') \<and> plinks_ok pk'
    \<and> i_foreign (pk_v pk') (map Some (concat (pk_tab pk'))) = i_foreign (pk_v pk) (map Some (concat (pk_tab pk)))
    \<and> set (concat (pk_tab pk')) = (if err = 0 then insert i (set (concat (pk_tab pk))) else set (concat (pk_tab pk)))
    \<and> (err = 0 \<and> i \<notin> set (concat (pk_tab pk)) \<longrightarrow> au_plink_lkup env (i_ino x) h_ino d' = Some (Inr (Some h)))
    \<and> (\<forall>n. n \<noteq> plink_name (i_ino x) h_ino \<longrightarrow> pd_ent d' n = pd_ent d n)"
proof -
  note test = plink_test_ok [OF ok x(1) ready]
  let ?set = "set (concat (pk_tab pk))"
  obtain m mem' where m: "take_alloc mem = (m, mem')" by force
  show ?thesis
  proof (cases "i \<in> ?set")
    case True
    then have "au_plink_append env i h_ino h (pk, d, mem) = Some (0, pk, d, mem)" using test by (simp add: au_plink_append_def)
    then show ?thesis using True ok by (intro exI [of _ 0] exI [of _ pk] exI [of _ d] exI [of _ mem]) auto
  next
    case new: False
    show ?thesis
    proof (cases m)
      case False
      then have "au_plink_append env i h_ino h (pk, d, mem) = Some (- ENOMEM, pk, d, mem')"
        using test new m by (simp add: au_plink_append_def)
      then show ?thesis using ok by (intro exI [of _ "- ENOMEM"] exI [of _ pk] exI [of _ d] exI [of _ mem']) auto
    next
      case True
      obtain v1 where v1: "au_igrab (Some i) (pk_v pk) = Some v1" "inos v1 i = Some (x\<lparr>i_count := i_count x + 1\<rparr>)"
        "\<forall>j. map_option i_ino (inos v1 j) = map_option i_ino (inos (pk_v pk) j)"
        "iref.owns v1 (Some i # map Some (concat (pk_tab pk)))"
        "iref.foreign v1 (Some i # map Some (concat (pk_tab pk))) = iref.foreign (pk_v pk) (map Some (concat (pk_tab pk)))"
        using plink_igrab [OF ok x] by blast
      let ?k = "au_plink_hash (i_ino x)"
      let ?l = "pk_tab pk ! ?k" and ?n = "plink_name (i_ino x) h_ino"
      have kl: "?k < length (pk_tab pk)" using ok hash_bound by (simp add: plinks_ok_def)
      then have l: "arr_get (pk_tab pk) (int ?k) = Some ?l" by (simp add: arr_get_def)
      have nl: "i \<notin> set ?l" using new plink_bucket [OF ok x(1)] by simp
      obtain v2 where v2: "put_inode i v1 = Some v2" "iref.owns v2 (map Some (concat (pk_tab pk)))"
        "iref.foreign v2 (map Some (concat (pk_tab pk))) = iref.foreign (pk_v pk) (map Some (concat (pk_tab pk)))"
        using iref.put_opt_ok [OF v1(4)] v1(5) by auto
      obtain err d' where w: "whplink env (i_ino x) h_ino h d = Some (err, d')"
        "err = 0 \<longrightarrow> au_plink_lkup env (i_ino x) h_ino d' = Some (Inr (Some h))" "\<forall>n. n \<noteq> ?n \<longrightarrow> pd_ent d' n = pd_ent d n"
        using whplink_ok [OF assms(4), of "i_ino x" h_ino h d] by blast
      show ?thesis
      proof (cases "err = 0")
        case True
        let ?t = "(pk_tab pk)[?k := i # ?l]" and ?pk = "pk\<lparr>pk_v := v1\<rparr>"
        have "iref.owns v1 (map Some (concat (pk_tab pk)))" by (rule owns_tail [OF v1(4)])
        then have "plinks_ok ?pk" by (rule plinks_okI [OF ok v1(3)])
        from plinks_ok_add [OF this _ _ _ refl refl, of i "x\<lparr>i_count := i_count x + 1\<rparr>"]
        have add: "plinks_ok (?pk\<lparr>pk_tab := ?t\<rparr>)" "mset (concat ?t) = mset (i # concat (pk_tab pk))"
          using v1(2,4) new by simp_all
        have run: "au_plink_append env i h_ino h (pk, d, mem) = Some (0, pk\<lparr>pk_tab := ?t, pk_v := v1\<rparr>, d', mem')"
          using test new m \<open>m\<close> v1(1,2) l nl w(1) True by (simp add: au_plink_append_def Let_def)
        have "set (concat ?t) = insert i ?set" using mset_eq_setD [OF add(2)] by simp
        moreover have "iref.foreign v1 (map Some (concat ?t)) = iref.foreign (pk_v pk) (map Some (concat (pk_tab pk)))"
          using iref.table_eq(2) [OF held_mset [OF add(2)], of v1] v1(5) by simp
        moreover have "plinks_ok (pk\<lparr>pk_tab := ?t, pk_v := v1\<rparr>)"
        proof -
          have "pk\<lparr>pk_tab := ?t, pk_v := v1\<rparr> = ?pk\<lparr>pk_tab := ?t\<rparr>" by simp
          then show ?thesis using add(1) by (simp only:)
        qed
        ultimately show ?thesis using run w(2,3) True
          by (intro exI [of _ 0] exI [of _ "pk\<lparr>pk_tab := ?t, pk_v := v1\<rparr>"] exI [of _ d'] exI [of _ mem'])
            (simp add: i_foreign_foreign)
      next
        case False
        have "(pk_tab pk)[?k := ?l] = pk_tab pk" by simp
        then have run: "au_plink_append env i h_ino h (pk, d, mem) = Some (err, pk\<lparr>pk_v := v2\<rparr>, d', mem')"
          using test new m \<open>m\<close> v1(1,2) l nl w(1) v2(1) False by (simp add: au_plink_append_def Let_def)
        have "\<forall>j. map_option i_ino (inos v2 j) = map_option i_ino (inos (pk_v pk) j)"
          using put_inode_ino [OF v2(1)] v1(3) by simp
        then have "plinks_ok (pk\<lparr>pk_v := v2\<rparr>)" using plinks_okI [OF ok _ v2(2)] by blast
        then show ?thesis using run v2(3) w(3) False
          by (intro exI [of _ err] exI [of _ "pk\<lparr>pk_v := v2\<rparr>"] exI [of _ d'] exI [of _ mem'])
            (simp add: i_foreign_foreign)
      qed
    qed
  qed
qed

section \<open>Properties\<close>

text \<open>
  C34: \<open>au_plink_append\<close> links an inode once. It ends without a fault and keeps the table well formed
  (each inode at most once, in its bucket, with one reference held for it and the references held
  elsewhere untouched); the inode is in the table afterwards if there was no error. A new pseudo-link
  is found by \<open>au_plink_lkup\<close>, and the names of all other inodes lead where they led before.
\<close>

theorem au_plink_append_links:
  assumes "plinks_ok pk" and "inos (pk_v pk) i = Some x" and "0 < i_count x" and "plink_ready env"
  shows "\<exists>err pk' d' mem'. au_plink_append env i h_ino h (pk, d, mem) = Some (err, pk', d', mem') \<and> plinks_ok pk'
    \<and> i_foreign (pk_v pk') (map Some (concat (pk_tab pk'))) = i_foreign (pk_v pk) (map Some (concat (pk_tab pk)))
    \<and> set (concat (pk_tab pk')) = (if err = 0 then insert i (set (concat (pk_tab pk))) else set (concat (pk_tab pk)))
    \<and> (err = 0 \<and> i \<notin> set (concat (pk_tab pk)) \<longrightarrow> au_plink_lkup env (i_ino x) h_ino d' = Some (Inr (Some h)))
    \<and> (\<forall>ino' h_ino'. (ino', h_ino') \<noteq> (i_ino x, h_ino) \<longrightarrow>
          pd_ent d' (plink_name ino' h_ino') = pd_ent d (plink_name ino' h_ino'))"
proof -
  have "plink_name ino' h_ino' \<noteq> plink_name (i_ino x) h_ino" if "(ino', h_ino') \<noteq> (i_ino x, h_ino)" for ino' h_ino'
    using plink_name_inj that by blast
  then show ?thesis using plink_append_ok [OF assms, of h_ino h d mem] by (elim exE conjE) blast
qed

text \<open>
  \<open>au_plink_put\<close> empties the table and gives back exactly the references it held.
\<close>

theorem au_plink_put_empties:
  assumes "plinks_ok pk" and "plink_ready env"
  shows "\<exists>pk'. au_plink_put env pk = Some pk' \<and> plinks_ok pk' \<and> concat (pk_tab pk') = []
    \<and> i_refs (pk_v pk') = i_foreign (pk_v pk) (map Some (concat (pk_tab pk)))"
proof -
  have own: "iref.owns (pk_v pk) (map Some (concat (pk_tab pk)) @ [])" using assms(1) by (simp add: plinks_ok_def)
  obtain v' where v': "put_all put_inode (map Some (concat (pk_tab pk))) (pk_v pk) = Some v'"
    "iref.foreign v' [] = iref.foreign (pk_v pk) (map Some (concat (pk_tab pk)))"
    using iref.put_all_ok [OF own] by auto
  have "i_refs v' p = iref.foreign v' [] p" for p by (cases "i_refs v' p") (simp_all add: iref.foreign_def held_def)
  then have "i_refs v' = i_foreign (pk_v pk) (map Some (concat (pk_tab pk)))"
    using v'(2) by (simp add: i_foreign_foreign fun_eq_iff)
  moreover have e: "concat (map (\<lambda>l. []) t) = ([] :: iptr list)" for t :: "iptr list list"
    by (induction t) simp_all
  ultimately show ?thesis using v'(1) assms
    by (intro exI [of _ "pk\<lparr>pk_tab := map (\<lambda>l. []) (pk_tab pk), pk_v := v'\<rparr>"])
      (simp add: au_plink_put_def plinks_ok_def iref.owns_def e)
qed

text \<open>The inode 3 is linked already, 7 is not.\<close>

definition plink_vfs :: vfs where
  "plink_vfs = \<lparr>dents = Map.empty,
     inos = (\<lambda>i. Some \<lparr>i_count = 2, i_nlink = 2, i_ino = of_nat i, i_generation = 0, i_fmt = S_IFREG,
                       i_rdonly = False, i_hsb = 0\<rparr>), files = Map.empty\<rparr>"

definition plink_example :: plinks where
  "plink_example = \<lparr>pk_tab = (replicate 100 [])[3 := [3]], pk_v = plink_vfs\<rparr>"

definition plink_dir_example :: plink_dir where
  "plink_dir_example = \<lparr>pd_ent = (\<lambda>_. None), pd_lkup_err = 0, pd_unlink_err = 0, pd_link_err = 0\<rparr>"

definition plink_env_example :: plink_env where
  "plink_env_example = \<lparr>pe_plink = True, pe_maint = 0, pe_current = 5, pe_ppid = 1, pe_root = True, pe_wkq = 0\<rparr>"

lemma plink_example_ok: "plinks_ok plink_example" "plink_ready plink_env_example"
  "concat (pk_tab plink_example) = [3]"
proof -
  have c: "concat ((replicate n [])[k := [i]]) = (if k < n then [i] else [])" for n k and i :: iptr
  proof (induction n arbitrary: k)
    case (Suc n)
    have "concat (replicate n []) = ([] :: iptr list)" by (induction n) simp_all
    then show ?case using Suc by (cases k) simp_all
  qed simp
  then show tab: "concat (pk_tab plink_example) = [3]" by (simp add: plink_example_def)
  have "pk_tab plink_example ! k = (if k = 3 then [3] else [])" if "k < 100" for k
    using that by (simp add: plink_example_def nth_list_update)
  moreover have "au_plink_hash 3 = 3" by (simp add: au_plink_hash_def AuPlink_NHASH_def)
  ultimately show "plinks_ok plink_example"
    unfolding plinks_ok_def tab
    by (simp add: plink_example_def plink_vfs_def iref.owns_def i_refs_def held_def)
  show "plink_ready plink_env_example"
    by (simp add: plink_ready_def plink_env_example_def au_plink_maint_def)
qed

theorem au_plink_append_links_witness:
  "\<exists>err pk' d' mem'. au_plink_append plink_env_example 7 70 9 (plink_example, plink_dir_example, [True]) = Some (err, pk', d', mem')
    \<and> plinks_ok pk' \<and> set (concat (pk_tab pk')) = (if err = 0 then {7, 3} else {3})"
proof -
  have x: "inos (pk_v plink_example) 7 = Some \<lparr>i_count = 2, i_nlink = 2, i_ino = 7, i_generation = 0, i_fmt = S_IFREG,
      i_rdonly = False, i_hsb = 0\<rparr>"
    by (simp add: plink_example_def plink_vfs_def)
  have c: "0 < i_count \<lparr>i_count = 2, i_nlink = 2, i_ino = 7, i_generation = 0, i_fmt = S_IFREG,
      i_rdonly = False, i_hsb = 0\<rparr>" by simp
  obtain err pk' d' mem' where r: "au_plink_append plink_env_example 7 70 9 (plink_example, plink_dir_example, [True])
      = Some (err, pk', d', mem')" "plinks_ok pk'"
    "set (concat (pk_tab pk')) = (if err = 0 then insert 7 (set (concat (pk_tab plink_example)))
      else set (concat (pk_tab plink_example)))"
    using au_plink_append_links [OF plink_example_ok(1) x c plink_example_ok(2), of 70 9 plink_dir_example "[True]"]
    by blast
  show ?thesis
    by (rule exI [of _ err], rule exI [of _ pk'], rule exI [of _ d'], rule exI [of _ mem'])
      (use r in \<open>simp add: plink_example_ok(3)\<close>)
qed

theorem au_plink_put_empties_witness:
  "\<exists>pk'. au_plink_put plink_env_example plink_example = Some pk' \<and> concat (pk_tab pk') = []"
  using au_plink_put_empties [OF plink_example_ok(1,2)] by blast

end
