(* ===== verification/Refresh_Inode.thy ===== *)
theory Refresh_Inode
  imports Iinfo Lookup Slot_Table
begin

text \<open>
  Moving the lower inodes after the branches changed (\<open>au_ii_refresh\<close> of \<open>inode.c\<close>), filling in the
  lower inodes of a dentry, and setting up a new inode. The copied attributes
  (\<open>au_cpup_attr_all\<close>) and the operation tables of the inode are not part of the model; the
  dynamic operations answer an error, which is a parameter.
\<close>

section \<open>Moving the lower inodes\<close>

text \<open>The result of one pass: the next index, the table, the store and \<open>*update\<close>.\<close>

definition ii_refresh_step :: "au_sbinfo \<Rightarrow> int \<Rightarrow> bindex \<Rightarrow> au_iinfo \<times> vfs \<times> bool
    \<Rightarrow> (bindex \<times> au_iinfo \<times> vfs \<times> bool) option" where
  "ii_refresh_step sbi type bindex s =
     (let (ii, v, update) = s in
      Option.bind (arr_get (ii_hinode ii) bindex) (\<lambda>p.
      case hi_inode p of
        None \<Rightarrow> Some (bindex + 1, s)
      | Some i \<Rightarrow> Option.bind (inos v i) (\<lambda>x.
          if i_fmt x \<noteq> type then None
          else Option.bind (au_br_index sbi (hi_id p)) (\<lambda>new_bindex.
            if new_bindex = bindex then Some (bindex + 1, s)
            else if new_bindex < 0
            then map_option (\<lambda>(p', v'). (bindex + 1,
                   ii\<lparr>ii_hinode := (ii_hinode ii)[nat bindex := p'\<lparr>hi_inode := None\<rparr>]\<rparr>, v', True)) (au_hiput p v)
            else Option.bind (arr_get (ii_hinode ii) new_bindex) (\<lambda>q.
                   Some (if hi_inode q = None then bindex + 1 else bindex,
                         ii\<lparr>ii_bstart := (if new_bindex < ii_bstart ii then new_bindex else ii_bstart ii),
                            ii_bend := (if ii_bend ii < new_bindex then new_bindex else ii_bend ii),
                            ii_hinode := (ii_hinode ii)[nat new_bindex := p, nat bindex := q]\<rparr>, v, update))))))"

text \<open>The end of the range grows while the loop runs.\<close>

partial_function (option) ii_refresh_loop :: "au_sbinfo \<Rightarrow> int \<Rightarrow> bindex \<Rightarrow> au_iinfo \<times> vfs \<times> bool
    \<Rightarrow> (au_iinfo \<times> vfs \<times> bool) option" where
  "ii_refresh_loop sbi type bindex s =
     (if ii_bend (fst s) < bindex then Some s
      else Option.bind (ii_refresh_step sbi type bindex s) (\<lambda>r. ii_refresh_loop sbi type (fst r) (snd r)))"

text \<open>The error, \<open>*update\<close> and the state.\<close>

definition au_ii_refresh :: "kconfig \<Rightarrow> au_sbinfo \<Rightarrow> vinode \<Rightarrow> int \<Rightarrow> bool \<Rightarrow> au_iinfo \<times> vfs
    \<Rightarrow> (int \<times> bool \<times> au_iinfo \<times> vfs) option" where
  "au_ii_refresh cfg sbi vi dy_err alloc_ok s =
     (let (ii, v) = s in
      Option.bind (au_ii_realloc ii (au_sbend sbi + 1) alloc_ok) (\<lambda>(err, ii1).
      if err \<noteq> 0 then Some (err, False, ii1, v)
      else if ii_bstart ii1 < 0 then None
      else Option.bind (ii_refresh_loop sbi (vi_fmt vi) (ii_bstart ii1) (ii1, v, False)) (\<lambda>(ii2, v2, update).
           map_option (\<lambda>(ii3, v3). (dy_err, update, ii3, v3)) (au_update_ibrange cfg sbi vi False (ii2, v2)))))"

text \<open>\<open>au_refresh_hinode_attr\<close>: what is left of it is the generation and \<open>i_version\<close>.\<close>

definition au_refresh_hinode_attr :: "au_sbinfo \<Rightarrow> bool \<Rightarrow> au_iinfo \<Rightarrow> u64 \<Rightarrow> au_iinfo \<times> u64" where
  "au_refresh_hinode_attr sbi do_version ii version =
     (au_update_iigen sbi True ii, if do_version then version + 1 else version)"

definition au_refresh_hinode_self :: "kconfig \<Rightarrow> au_sbinfo \<Rightarrow> vinode \<Rightarrow> int \<Rightarrow> bool \<Rightarrow> au_iinfo \<times> vfs \<times> u64
    \<Rightarrow> (int \<times> au_iinfo \<times> vfs \<times> u64) option" where
  "au_refresh_hinode_self cfg sbi vi dy_err alloc_ok s =
     (let (ii, v, version) = s in
      map_option (\<lambda>(err, update, ii1, v1).
        let (ii2, version') = (if err = 0 then au_refresh_hinode_attr sbi (update \<and> vi_fmt vi = S_IFDIR) ii1 version
                               else (ii1, version))
        in (err, ii2, v1, version'))
        (au_ii_refresh cfg sbi vi dy_err alloc_ok (ii, v)))"

section \<open>Filling in the lower inodes of a dentry\<close>

text \<open>One pass of the loop of \<open>au_refresh_hinode\<close>; the flag tells \<open>err = -EIO\<close>.\<close>

definition fill_hinode :: "kconfig \<Rightarrow> au_sbinfo \<Rightarrow> vinode \<Rightarrow> (bindex \<Rightarrow> bool) \<Rightarrow> int \<Rightarrow> au_dinfo \<Rightarrow> bindex
    \<Rightarrow> au_iinfo \<times> vfs \<times> xino_log \<times> bool \<Rightarrow> (bool \<times> au_iinfo \<times> vfs \<times> xino_log \<times> bool) option" where
  "fill_hinode cfg sbi vi hn flags di bindex s =
     (let (ii, v, xlog, update) = s in
      Option.bind (au_h_dptr di v bindex) (\<lambda>h_d.
      case h_d of
        None \<Rightarrow> Some (False, s)
      | Some d \<Rightarrow> Option.bind (dents v d) (\<lambda>x.
          case d_inode x of
            None \<Rightarrow> Some (False, s)
          | Some h_inode \<Rightarrow> Option.bind (inos v h_inode) (\<lambda>y.
              if i_fmt y \<noteq> vi_fmt vi then None
              else Option.bind (if ii_bstart ii \<le> bindex \<and> bindex \<le> ii_bend ii then au_h_iptr ii v bindex else Some None)
                (\<lambda>h_i.
                 if h_i \<noteq> None then Some (h_i \<noteq> Some h_inode, s)
                 else
                   let ii1 = ii\<lparr>ii_bstart := (if bindex < ii_bstart ii then bindex else ii_bstart ii),
                                ii_bend := (if ii_bend ii < bindex then bindex else ii_bend ii)\<rparr>
                   in Option.bind (au_igrab (Some h_inode) v) (\<lambda>v1.
                      map_option (\<lambda>(ii2, v2, xlog'). (False, ii2, v2, xlog', True))
                        (au_set_h_iptr cfg sbi vi (hn bindex) bindex (Some h_inode) flags (ii1, v1, xlog))))))))"

definition au_refresh_hinode :: "kconfig \<Rightarrow> au_sbinfo \<Rightarrow> vinode \<Rightarrow> (bindex \<Rightarrow> bool) \<Rightarrow> int \<Rightarrow> int \<Rightarrow> bool \<Rightarrow> au_dinfo
    \<Rightarrow> au_iinfo \<times> vfs \<times> xino_log \<times> u64 \<Rightarrow> (int \<times> au_iinfo \<times> vfs \<times> xino_log \<times> u64) option" where
  "au_refresh_hinode cfg sbi vi hn dy_err dy_err2 alloc_ok di s =
     (let (ii, v, xlog, version) = s; isdir = (vi_fmt vi = S_IFDIR) in
      Option.bind (au_ii_refresh cfg sbi vi dy_err alloc_ok (ii, v)) (\<lambda>(err, _, ii1, v1).
      if err \<noteq> 0 then Some (err, ii1, v1, xlog, version)
      else Option.bind (scan_up (fill_hinode cfg sbi vi hn (au_hi_flags cfg sbi isdir) di) (au_dbstart di) (au_dbend di)
                          (ii1, v1, xlog, False)) (\<lambda>(differs, ii2, v2, xlog', update).
           Option.bind (au_update_ibrange cfg sbi vi False (ii2, v2)) (\<lambda>(ii3, v3).
           let err = (if differs then - EIO else dy_err2);
               (ii4, version') = (if err = 0 then au_refresh_hinode_attr sbi (update \<and> isdir) ii3 version
                                  else (ii3, version))
           in Some (err, ii4, v3, xlog', version')))))"

section \<open>A new inode\<close>

text \<open>The branches whose dentries \<open>set_inode\<close> takes, by the type of the first; \<open>None\<close> is unknown.\<close>

definition S_IFLNK :: int where "S_IFLNK = 40960"
definition S_IFBLK :: int where "S_IFBLK = 24576"
definition S_IFCHR :: int where "S_IFCHR = 8192"
definition S_IFIFO :: int where "S_IFIFO = 4096"
definition S_IFSOCK :: int where "S_IFSOCK = 49152"

definition set_inode_tail :: "int \<Rightarrow> au_dinfo \<Rightarrow> bindex option" where
  "set_inode_tail mode di =
     (if mode = S_IFDIR then Some (au_dbtaildir di)
      else if mode \<in> {S_IFREG, S_IFLNK, S_IFBLK, S_IFCHR, S_IFIFO, S_IFSOCK} then Some (au_dbtail di)
      else None)"

definition set_hinode :: "kconfig \<Rightarrow> au_sbinfo \<Rightarrow> vinode \<Rightarrow> (bindex \<Rightarrow> bool) \<Rightarrow> int \<Rightarrow> au_dinfo \<Rightarrow> bindex
    \<Rightarrow> au_iinfo \<times> vfs \<times> xino_log \<Rightarrow> (au_iinfo \<times> vfs \<times> xino_log) option" where
  "set_hinode cfg sbi vi hn flags di bindex s =
     (let (ii, v, xlog) = s in
      Option.bind (au_h_dptr di v bindex) (\<lambda>h_dentry.
      case h_dentry of
        None \<Rightarrow> Some s
      | Some d \<Rightarrow> Option.bind (dents v d) (\<lambda>x.
          Option.bind (au_igrab (d_inode x) v) (\<lambda>v1.
          au_set_h_iptr cfg sbi vi (hn bindex) bindex (d_inode x) flags (ii, v1, xlog)))))"

text \<open>\<open>name\<close> is the name of the dentry; the mode of the new inode is still 0 (\<open>vi\<close>).\<close>

definition set_inode :: "kconfig \<Rightarrow> au_sbinfo \<Rightarrow> vinode \<Rightarrow> (bindex \<Rightarrow> bool) \<Rightarrow> int \<Rightarrow> u8 list \<Rightarrow> au_dinfo
    \<Rightarrow> au_iinfo \<times> vfs \<times> xino_log \<Rightarrow> (int \<times> au_iinfo \<times> vfs \<times> xino_log) option" where
  "set_inode cfg sbi vi hn dy_err name di s =
     (let (ii, v, xlog) = s; bstart = au_dbstart di in
      Option.bind (au_h_dptr di v bstart) (\<lambda>h_dentry.
      Option.bind h_dentry (\<lambda>d.
      Option.bind (dents v d) (\<lambda>x.
      Option.bind (d_inode x) (\<lambda>i.
      Option.bind (inos v i) (\<lambda>y.
      case set_inode_tail (i_fmt y) di of
        None \<Rightarrow> Some (- EIO, s)
      | Some btail \<Rightarrow>
          if i_fmt y = S_IFREG \<and> dy_err \<noteq> 0 then Some (dy_err, s)
          else
            let flags0 = au_hi_flags cfg sbi (i_fmt y = S_IFDIR);
                flags = (if au_opt_test (au_mntflags sbi) (AuOpt_SHWH cfg) \<and> au_ftest_hi flags0 (AuHi_HNOTIFY cfg)
                            \<and> 4 < length name \<and> take 4 name = AUFS_WH_PFX
                         then and flags0 (not (AuHi_HNOTIFY cfg)) else flags0)
            in map_option (Pair 0) (loop_up (set_hinode cfg sbi vi hn flags di) bstart btail
                                       (ii\<lparr>ii_bstart := bstart, ii_bend := btail\<rparr>, v, xlog))))))))"

end
