(* ===== verification/Refresh_Ends.thy ===== *)
theory Refresh_Ends
  imports Refresh_Inode Refresh_Dentry
begin

text \<open>
  \<open>au_ii_refresh\<close> returns, and afterwards every lower inode is in the slot of its branch. The end of
  the range grows while its loop runs, so the bound is the length of the table.
\<close>

definition has_inode :: "au_hinode \<Rightarrow> bool" where "has_inode h \<longleftrightarrow> hi_inode h \<noteq> None"

interpretation hi_slots: slot_table has_inode hi_id "br_pos sbi" for sbi
  by unfold_locales (rule br_pos_inj)

definition hi_strays :: "au_sbinfo \<Rightarrow> au_hinode list \<Rightarrow> nat" where
  "hi_strays sbi his = card (strays has_inode hi_id (br_pos sbi) his)"

abbreviation hi_entries :: "au_iinfo \<Rightarrow> au_hinode set" where
  "hi_entries ii \<equiv> entries_of has_inode (ii_hinode ii)"

definition ii_in_range :: "au_iinfo \<Rightarrow> bool" where
  "ii_in_range ii \<longleftrightarrow> 0 \<le> ii_bstart ii \<and> ii_bstart ii \<le> ii_bend ii \<and> ii_bend ii < int (length (ii_hinode ii))
     \<and> (\<forall>k < length (ii_hinode ii). has_inode (ii_hinode ii ! k) \<longrightarrow> ii_bstart ii \<le> int k \<and> int k \<le> ii_bend ii)"

definition ii_typed :: "int \<Rightarrow> vfs \<Rightarrow> au_iinfo \<Rightarrow> bool" where
  "ii_typed type v ii \<longleftrightarrow> (\<forall>h \<in> hi_entries ii. \<forall>i x. hi_inode h = Some i \<and> inos v i = Some x \<longrightarrow> i_fmt x = type)"

text \<open>
  The invariant: the slots before the index and behind the range are settled, no branch id occurs
  twice, only inodes of deleted branches are gone, \<open>update\<close> tells whether one is, and the references
  are those of the table.
\<close>

definition ii_refresh_inv :: "au_sbinfo \<Rightarrow> int \<Rightarrow> au_iinfo \<times> vfs \<Rightarrow> bindex \<Rightarrow> au_iinfo \<times> vfs \<times> bool \<Rightarrow> bool" where
  "ii_refresh_inv sbi type s0 b s \<longleftrightarrow>
     (let (ii, v, update) = s in
      once has_inode hi_id (ii_hinode ii) \<and> length (ii_hinode ii) = length (ii_hinode (fst s0))
      \<and> (\<forall>k < length (ii_hinode ii). int k < b \<or> ii_bend ii < int k \<longrightarrow>
           settled has_inode hi_id (br_pos sbi) (ii_hinode ii) k)
      \<and> ii_bstart ii \<le> ii_bend ii \<and> ii_bend ii < int (length (ii_hinode ii))
      \<and> hi_entries ii \<subseteq> hi_entries (fst s0)
      \<and> {h \<in> hi_entries ii. 0 \<le> br_pos sbi (hi_id h)} = {h \<in> hi_entries (fst s0). 0 \<le> br_pos sbi (hi_id h)}
      \<and> (update \<longleftrightarrow> hi_entries ii \<noteq> hi_entries (fst s0))
      \<and> ii_typed type v ii \<and> keeps_i s0 (ii, v))"

lemma keeps_i_mset:
  assumes "mset (ii_hinode ii') = mset (ii_hinode ii)" and "keeps_i s0 (ii, v)"
  shows "keeps_i s0 (ii', v)"
proof -
  have "mset (islots ii') = mset (islots ii)" using assms(1) by (simp add: islots_def)
  then have "count_list (islots ii') = count_list (islots ii)" "set (islots ii') = set (islots ii)"
    by (metis count_mset ext, metis set_mset_mset)
  moreover have "set (ii_hinode ii') = set (ii_hinode ii)" using assms(1) by (metis set_mset_mset)
  ultimately show ?thesis using assms(2)
    by (simp add: keeps_i_def ii_owns_def i_foreign_def fun_eq_iff held_def)
qed

text \<open>The put of one slot.\<close>

lemma hiput_ok:
  assumes own: "ii_owns v ii" and n: "n < length (ii_hinode ii)"
  shows "\<exists>p' v'. au_hiput (ii_hinode ii ! n) v = Some (p', v')
    \<and> keeps_i (ii, v) (ii\<lparr>ii_hinode := (ii_hinode ii)[n := p'\<lparr>hi_inode := None\<rparr>]\<rparr>, v')
    \<and> (\<forall>e. map_option i_fmt (inos v' e) = map_option i_fmt (inos v e))"
proof -
  let ?p = "ii_hinode ii ! n"
  have wh: "hi_whdentry ?p = None" using own n by (simp add: ii_owns_def)
  have sl: "islots ii ! n = hi_inode ?p" "n < length (islots ii)" using n by (simp_all add: islots_nth)
  obtain v' where v': "iput (islots ii ! n) v = Some v'" "iref.owns v' ((islots ii)[n := None])"
    "iref.foreign v' ((islots ii)[n := None]) = iref.foreign v (islots ii)"
    using iref.put_slot_ok [OF ii_owns_owns [OF own] sl(2)] by blast
  let ?p' = "?p\<lparr>hi_notify := False\<rparr>"
  let ?h = "(ii_hinode ii)[n := ?p'\<lparr>hi_inode := None\<rparr>]"
  have run: "au_hiput ?p v = Some (?p', v')" using v'(1) sl wh by (simp add: au_hiput_def)
  have "islots (ii\<lparr>ii_hinode := ?h\<rparr>) = (islots ii)[n := None]" by (simp add: islots_def map_update)
  moreover have "\<forall>h \<in> set ?h. hi_whdentry h = None"
    using own wh set_update_subset_insert [of "ii_hinode ii" n "?p'\<lparr>hi_inode := None\<rparr>"] by (auto simp: ii_owns_def)
  moreover have "dents v' = dents v \<and> (\<forall>e. map_option i_nlink (inos v' e) = map_option i_nlink (inos v e))
      \<and> (\<forall>e. map_option i_fmt (inos v' e) = map_option i_fmt (inos v e))"
    using v'(1) by (cases "islots ii ! n") (auto simp: put_inode_def split: option.splits if_splits)
  ultimately show ?thesis using run v'(2,3)
    by (intro exI [of _ ?p'] exI [of _ v']) (simp add: keeps_i_def ii_owns_def iref.owns_def i_foreign_foreign)
qed

lemma ii_typed_sub:
  assumes "ii_typed type v ii" and "hi_entries ii' \<subseteq> hi_entries ii"
    and "\<forall>e. map_option i_fmt (inos v' e) = map_option i_fmt (inos v e)"
  shows "ii_typed type v' ii'"
  unfolding ii_typed_def
proof (intro ballI allI impI)
  fix h i x
  assume h: "h \<in> hi_entries ii'" "hi_inode h = Some i \<and> inos v' i = Some x"
  have "map_option i_fmt (inos v i) = Some (i_fmt x)" using assms(3) h(2) by (metis option.simps(9))
  then obtain y where "inos v i = Some y" "i_fmt y = i_fmt x" by auto
  then show "i_fmt x = type" using assms(1,2) h unfolding ii_typed_def by fastforce
qed

lemma ii_refresh_step_ok:
  assumes wf: "sbi_wf sbi" and room: "au_sbend sbi < int (length (ii_hinode (fst s0)))"
    and b: "0 \<le> b" "b \<le> ii_bend (fst s)" and inv: "ii_refresh_inv sbi type s0 b s"
  shows "\<exists>b' s'. ii_refresh_step sbi type b s = Some (b', s') \<and> ii_refresh_inv sbi type s0 b' s'
    \<and> (b' = b \<or> b' = b + 1) \<and> hi_strays sbi (ii_hinode (fst s')) \<le> hi_strays sbi (ii_hinode (fst s))
    \<and> (b' = b \<longrightarrow> hi_strays sbi (ii_hinode (fst s')) < hi_strays sbi (ii_hinode (fst s)))"
proof -
  obtain ii v update where s: "s = (ii, v, update)" by (cases s)
  let ?h = "ii_hinode ii" and ?n = "nat b"
  let ?settled = "settled has_inode hi_id (br_pos sbi)"
  have I: "once has_inode hi_id ?h" "length ?h = length (ii_hinode (fst s0))"
    "\<forall>k < length ?h. int k < b \<or> ii_bend ii < int k \<longrightarrow> ?settled ?h k"
    "ii_bstart ii \<le> ii_bend ii" "ii_bend ii < int (length ?h)" "hi_entries ii \<subseteq> hi_entries (fst s0)"
    "{h \<in> hi_entries ii. 0 \<le> br_pos sbi (hi_id h)} = {h \<in> hi_entries (fst s0). 0 \<le> br_pos sbi (hi_id h)}"
    "update \<longleftrightarrow> hi_entries ii \<noteq> hi_entries (fst s0)" "ii_typed type v ii" "keeps_i s0 (ii, v)"
    using inv by (simp_all add: ii_refresh_inv_def s)
  have n: "?n < length ?h" "int ?n = b" using b I(5) s by auto
  have p: "arr_get ?h b = Some (?h ! ?n)" using n b(1) by (simp add: arr_get_def)
  have ix: "au_br_index sbi (hi_id (?h ! ?n)) = Some (br_pos sbi (hi_id (?h ! ?n)))" by (rule br_pos_index [OF wf])
  have own: "ii_owns v ii" using I(10) by (simp add: keeps_i_def)
  let ?new = "br_pos sbi (hi_id (?h ! ?n))"
  have rm: "{h \<in> E - {p}. Q h} = {h \<in> E. Q h}" if "\<not> Q p" for E Q and p :: au_hinode using that by blast
  show ?thesis
  proof (cases "hi_inode (?h ! ?n)")
    case None
    then have "?settled ?h k" if "k < length ?h" "int k < b + 1 \<or> ii_bend ii < int k" for k
      using I(3) that(1) that n(2) by (cases "k = ?n") (auto simp: settled_def has_inode_def)
    then have "ii_refresh_inv sbi type s0 (b + 1) s" using I by (simp add: ii_refresh_inv_def s)
    then show ?thesis using None p by (intro exI [of _ "b + 1"] exI [of _ s]) (simp add: ii_refresh_step_def s)
  next
    case (Some i)
    then have used: "has_inode (?h ! ?n)" by (simp add: has_inode_def)
    obtain x where x: "inos v i = Some x" using ii_owns_live [OF own n(1)] Some n(1) by (auto simp: islots_nth)
    have "?h ! ?n \<in> hi_entries ii" using used n(1) by (simp add: entries_of_def)
    then have fmt: "i_fmt x = type" using I(9) Some x unfolding ii_typed_def by blast
    consider (here) "?new = b" | (gone) "?new \<noteq> b" "?new < 0" | (moves) "?new \<noteq> b" "0 \<le> ?new" by linarith
    then show ?thesis
    proof cases
      case here
      then have "?settled ?h k" if "k < length ?h" "int k < b + 1 \<or> ii_bend ii < int k" for k
        using I(3) that(1) that n(2) by (cases "k = ?n") (auto simp: settled_def has_inode_def)
      then have "ii_refresh_inv sbi type s0 (b + 1) s" using I by (simp add: ii_refresh_inv_def s)
      then show ?thesis using Some p ix x fmt here
        by (intro exI [of _ "b + 1"] exI [of _ s]) (simp add: ii_refresh_step_def s)
    next
      case gone
      obtain p' v' where pv: "au_hiput (?h ! ?n) v = Some (p', v')"
        "keeps_i (ii, v) (ii\<lparr>ii_hinode := ?h[?n := p'\<lparr>hi_inode := None\<rparr>]\<rparr>, v')"
        "\<forall>e. map_option i_fmt (inos v' e) = map_option i_fmt (inos v e)"
        using hiput_ok [OF own n(1)] by blast
      let ?ys = "?h[?n := p'\<lparr>hi_inode := None\<rparr>]"
      let ?ii' = "ii\<lparr>ii_hinode := ?ys\<rparr>"
      let ?s' = "(?ii', v', True)"
      have run: "ii_refresh_step sbi type b s = Some (b + 1, ?s')"
        using p ix Some x fmt gone pv(1) by (simp add: ii_refresh_step_def s)
      have "\<not> has_inode (p'\<lparr>hi_inode := None\<rparr>)" by (simp add: has_inode_def)
      note dropped = hi_slots.drop_ok [OF I(1) n(1) used this refl]
      have sub: "hi_entries ?ii' \<subseteq> hi_entries ii" using dropped(2) by auto
      have "?h ! ?n \<in> hi_entries (fst s0)" "?h ! ?n \<notin> hi_entries ?ii'"
        using I(6) \<open>?h ! ?n \<in> hi_entries ii\<close> dropped(2) by auto
      then have upd: "hi_entries ?ii' \<noteq> hi_entries (fst s0)" by blast
      have live: "{h \<in> hi_entries ?ii'. 0 \<le> br_pos sbi (hi_id h)} = {h \<in> hi_entries (fst s0). 0 \<le> br_pos sbi (hi_id h)}"
        using rm [of "\<lambda>h. 0 \<le> br_pos sbi (hi_id h)" "?h ! ?n" "hi_entries ii"] gone(2) I(7) dropped(2) by simp
      have "?settled ?ys k" if "k < length ?h" "int k < b + 1 \<or> ii_bend ii < int k" for k
      proof (cases "k = ?n")
        case False
        then have "int k < b \<or> ii_bend ii < int k" using that(2) n(2) by auto
        then show ?thesis using dropped(4) [OF that(1)] I(3) that(1) by blast
      qed (simp add: dropped(5))
      then have "ii_refresh_inv sbi type s0 (b + 1) ?s'"
        using dropped(1) I(2,4,5) subset_trans [OF sub I(6)] live upd ii_typed_sub [OF I(9) sub pv(3)]
          keeps_i_trans [OF I(10) pv(2)]
        by (simp add: ii_refresh_inv_def)
      then show ?thesis using run dropped(3) by (intro exI [of _ "b + 1"] exI [of _ ?s']) (simp add: hi_strays_def s)
    next
      case moves
      have "?new \<le> au_sbend sbi" using br_pos_id(2) [of sbi "hi_id (?h ! ?n)"] moves by simp
      then have j: "nat ?new < length ?h" "int (nat ?new) = ?new" "nat ?new \<noteq> ?n"
        using moves room I(2) n(2) by linarith+
      let ?q = "?h ! nat ?new" and ?ys = "?h[nat ?new := ?h ! ?n, ?n := ?h ! nat ?new]"
      let ?ii' = "ii\<lparr>ii_bstart := (if ?new < ii_bstart ii then ?new else ii_bstart ii),
        ii_bend := (if ii_bend ii < ?new then ?new else ii_bend ii), ii_hinode := ?ys\<rparr>"
      let ?s' = "(?ii', v, update)" and ?b' = "if hi_inode ?q = None then b + 1 else b"
      have "arr_get ?h ?new = Some ?q" using j moves by (simp add: arr_get_def)
      then have run: "ii_refresh_step sbi type b s = Some (?b', ?s')"
        using p ix Some x fmt moves by (simp add: ii_refresh_step_def s)
      note swap = hi_slots.swap_ok [OF I(1) n(1) j(1,3) used j(2) [symmetric] refl]
      have "?settled ?ys k" if k: "k < length ?h" "int k < ?b' \<or> ii_bend ?ii' < int k" for k
      proof (cases "k = ?n")
        case True
        have "b \<le> ii_bend ?ii'" using b(2) s by simp
        then have "hi_inode ?q = None" using k(2) n(2) True by (cases "hi_inode ?q = None") simp_all
        then show ?thesis using True swap(7) by (simp add: settled_def has_inode_def)
      next
        case False
        then have "int k < b \<or> ii_bend ii < int k" using k(2) n(2) by (auto split: if_splits)
        then show ?thesis using swap(5) [OF k(1) False] I(3) k(1) by blast
      qed
      moreover have "ii_typed type v ?ii'" by (rule ii_typed_sub [OF I(9)]) (use swap(3) in simp_all)
      moreover have "keeps_i s0 (?ii', v)" by (rule keeps_i_mset [OF _ I(10)]) (use swap(2) in simp)
      ultimately have "ii_refresh_inv sbi type s0 ?b' ?s'"
        using swap(1,3) I(2,4-8) j(1,2) by (simp add: ii_refresh_inv_def) linarith?
      then show ?thesis using run swap(4) by (intro exI [of _ ?b'] exI [of _ ?s']) (simp add: hi_strays_def s)
    qed
  qed
qed

lemma ii_refresh_loop_ok:
  assumes wf: "sbi_wf sbi" and room: "au_sbend sbi < int (length (ii_hinode (fst s0)))"
  shows "0 \<le> b \<Longrightarrow> ii_refresh_inv sbi type s0 b s
    \<Longrightarrow> \<exists>b' s'. ii_refresh_loop sbi type b s = Some s' \<and> ii_refresh_inv sbi type s0 b' s' \<and> ii_bend (fst s') < b'"
proof (induction "nat (int (length (ii_hinode (fst s0))) + 1 - b) + hi_strays sbi (ii_hinode (fst s))"
    arbitrary: b s rule: less_induct)
  case less
  show ?case
  proof (cases "ii_bend (fst s) < b")
    case True
    then have "ii_refresh_loop sbi type b s = Some s" by (simp add: ii_refresh_loop.simps [of sbi type b s])
    then show ?thesis using True less.prems by blast
  next
    case False
    then have be: "b \<le> ii_bend (fst s)" by simp
    obtain b1 s1 where st: "ii_refresh_step sbi type b s = Some (b1, s1)" "ii_refresh_inv sbi type s0 b1 s1"
      "b1 = b \<or> b1 = b + 1" "hi_strays sbi (ii_hinode (fst s1)) \<le> hi_strays sbi (ii_hinode (fst s))"
      "b1 = b \<longrightarrow> hi_strays sbi (ii_hinode (fst s1)) < hi_strays sbi (ii_hinode (fst s))"
      using ii_refresh_step_ok [OF wf room less.prems(1) be less.prems(2)] by blast
    have "ii_bend (fst s) < int (length (ii_hinode (fst s0)))"
      using less.prems(2) by (auto simp: ii_refresh_inv_def split: prod.splits)
    then have "nat (int (length (ii_hinode (fst s0))) + 1 - b1) + hi_strays sbi (ii_hinode (fst s1))
        < nat (int (length (ii_hinode (fst s0))) + 1 - b) + hi_strays sbi (ii_hinode (fst s))"
      using st(3-5) be by (cases "b1 = b") auto
    moreover have "0 \<le> b1" using st(3) less.prems(1) by auto
    ultimately obtain b' s' where "ii_refresh_loop sbi type b1 s1 = Some s'" "ii_refresh_inv sbi type s0 b' s'"
      "ii_bend (fst s') < b'"
      using less.hyps st(2) by blast
    then show ?thesis using False st(1) by (auto simp: ii_refresh_loop.simps [of sbi type b s])
  qed
qed

section \<open>The whole operation\<close>

lemma br_pos_missing:
  assumes "br_pos sbi a < 0"
  shows "br_pos sbi a = - 1"
proof (cases "first_up (\<lambda>b. map_option (\<lambda>i. i = a) (au_sbr_id sbi b)) 0 (au_sbend sbi)")
  case None
  then show ?thesis by (simp add: br_pos_def au_br_index_def)
next
  case (Some q)
  show ?thesis
  proof (cases q)
    case None
    then show ?thesis using Some by (simp add: br_pos_def au_br_index_def)
  next
    case (Some b)
    then have "0 \<le> b" using first_up_found \<open>first_up _ 0 _ = Some q\<close> by blast
    moreover have "br_pos sbi a = b" using Some \<open>first_up _ 0 _ = Some q\<close> by (simp add: br_pos_def au_br_index_def)
    ultimately show ?thesis using assms by simp
  qed
qed

text \<open>\<open>au_ii_realloc\<close> drops nothing but empty slots behind the range.\<close>

lemma ii_realloc_ok:
  assumes rg: "ii_in_range ii" and own: "ii_owns v ii" and ok: "alloc_ok \<or> au_sbend sbi \<le> ii_bend ii"
  shows "\<exists>h. au_ii_realloc ii (au_sbend sbi + 1) alloc_ok = Some (0, ii\<lparr>ii_hinode := h\<rparr>)
    \<and> au_sbend sbi < int (length h) \<and> ii_bend ii < int (length h)
    \<and> (\<forall>k < length h. has_inode (h ! k) \<longrightarrow> k < length (ii_hinode ii) \<and> h ! k = ii_hinode ii ! k)
    \<and> hi_entries (ii\<lparr>ii_hinode := h\<rparr>) = hi_entries ii \<and> ii_owns v (ii\<lparr>ii_hinode := h\<rparr>)
    \<and> i_foreign v (islots (ii\<lparr>ii_hinode := h\<rparr>)) = i_foreign v (islots ii)"
proof (cases "au_sbend sbi \<le> ii_bend ii")
  case True
  then show ?thesis using rg own
    by (intro exI [of _ "ii_hinode ii"]) (simp add: au_ii_realloc_def au_kzrealloc_def ii_in_range_def)
next
  case False
  let ?n = "nat (ii_bend ii + 1)" and ?z = "\<lparr>hi_inode = None, hi_id = 0, hi_notify = False, hi_whdentry = None\<rparr>"
  let ?o = "ii_hinode ii" and ?m = "nat (au_sbend sbi - ii_bend ii)"
  let ?h = "take ?n ?o @ replicate ?m ?z"
  have n: "?n \<le> length ?o" "int ?n = ii_bend ii + 1" using rg by (auto simp: ii_in_range_def)
  have run: "au_ii_realloc ii (au_sbend sbi + 1) alloc_ok = Some (0, ii\<lparr>ii_hinode := ?h\<rparr>)"
    using rg ok False by (simp add: au_ii_realloc_def au_kzrealloc_def ii_in_range_def)
  have dr: "\<not> has_inode (?o ! k)" if "?n \<le> k" "k < length ?o" for k
    using rg that n(2) by (fastforce simp: ii_in_range_def)
  have dropped: "map hi_inode (drop ?n ?o) = replicate (length ?o - ?n) None"
    by (rule nth_equalityI) (use dr in \<open>auto simp: has_inode_def\<close>)
  have old: "islots ii = map hi_inode (take ?n ?o) @ replicate (length ?o - ?n) None"
    unfolding islots_def dropped [symmetric] by (simp flip: map_append)
  have new: "islots (ii\<lparr>ii_hinode := ?h\<rparr>) = map hi_inode (take ?n ?o) @ replicate ?m None"
    by (simp add: islots_def)
  have same: "held (islots (ii\<lparr>ii_hinode := ?h\<rparr>)) p = held (islots ii) p" for p unfolding old new by simp
  have "Some i \<in> set (islots ii)" if "Some i \<in> set (islots (ii\<lparr>ii_hinode := ?h\<rparr>))" for i
    using that same [of i] by (metis held_zero)
  moreover have "\<forall>h \<in> set ?h. hi_whdentry h = None" using own by (auto simp: ii_owns_def dest: in_set_takeD)
  ultimately have owns: "ii_owns v (ii\<lparr>ii_hinode := ?h\<rparr>)" using own same by (simp add: ii_owns_def)
  have slot: "k < length ?o \<and> ?h ! k = ?o ! k" if "k < length ?h" "has_inode (?h ! k)" for k
    using that n by (auto simp: nth_append has_inode_def split: if_splits)
  have "hi_entries (ii\<lparr>ii_hinode := ?h\<rparr>) = hi_entries ii"
  proof (intro equalityI subsetI)
    fix x assume "x \<in> hi_entries (ii\<lparr>ii_hinode := ?h\<rparr>)"
    then show "x \<in> hi_entries ii" by (auto simp: entries_of_def has_inode_def dest: in_set_takeD)
  next
    fix x assume "x \<in> hi_entries ii"
    then obtain k where k: "k < length ?o" "x = ?o ! k" "has_inode x" by (auto simp: entries_of_def in_set_conv_nth)
    then have "k < ?n" using dr [of k] by (cases "k < ?n") auto
    then have "x \<in> set (take ?n ?o)" using k by (auto simp: in_set_conv_nth)
    then show "x \<in> hi_entries (ii\<lparr>ii_hinode := ?h\<rparr>)" using k(3) by (simp add: entries_of_def)
  qed
  moreover have "au_sbend sbi < int (length ?h)" "ii_bend ii < int (length ?h)" using n False by simp_all
  ultimately show ?thesis using run owns slot same
    by (intro exI [of _ ?h]) (simp add: i_foreign_def fun_eq_iff)
qed

text \<open>
  C35: \<open>au_ii_refresh\<close> returns. It fails without a change if the table must grow and there is no memory.
  Otherwise, if no branch id occurs twice, the loop that swaps the lower inodes ends although it moves
  its own end: every lower inode of a branch that still exists is in the slot of the new index, the
  references of the others were given back, \<open>update\<close> tells whether there was one, and the range is
  the tight one.
\<close>

theorem au_ii_refresh_ends:
  assumes wf: "sbi_wf sbi" and rg: "ii_in_range ii" and own: "ii_owns v ii"
    and o: "once has_inode hi_id (ii_hinode ii)" and ty: "ii_typed (vi_fmt vi) v ii"
  shows "\<exists>err update ii' v'. au_ii_refresh cfg sbi vi dy_err alloc_ok (ii, v) = Some (err, update, ii', v')
    \<and> (if \<not> alloc_ok \<and> ii_bend ii < au_sbend sbi then err = - ENOMEM \<and> \<not> update \<and> ii' = ii \<and> v' = v
       else err = dy_err
         \<and> (\<forall>k < length (ii_hinode ii'). has_inode (ii_hinode ii' ! k) \<longrightarrow> ii_hinode ii' ! k \<in> hi_entries ii
               \<and> au_br_index sbi (hi_id (ii_hinode ii' ! k)) = Some (int k))
         \<and> (\<forall>h \<in> hi_entries ii. \<exists>i. au_br_index sbi (hi_id h) = Some i
               \<and> (0 \<le> i \<longrightarrow> nat i < length (ii_hinode ii') \<and> ii_hinode ii' ! nat i = h))
         \<and> (update \<longleftrightarrow> (\<exists>h \<in> hi_entries ii. au_br_index sbi (hi_id h) = Some (- 1)))
         \<and> ii_owns v' ii' \<and> i_foreign v' (islots ii') = i_foreign v (islots ii)
         \<and> tight_range (islots ii') (au_sbend sbi) (ii_bstart ii') (ii_bend ii'))"
proof (cases "\<not> alloc_ok \<and> ii_bend ii < au_sbend sbi")
  case True
  then have "au_ii_refresh cfg sbi vi dy_err alloc_ok (ii, v) = Some (- ENOMEM, False, ii, v)"
    using rg by (simp add: au_ii_refresh_def au_ii_realloc_def au_kzrealloc_def ii_in_range_def)
  then show ?thesis unfolding if_P [OF True] by blast
next
  case False
  then have "alloc_ok \<or> au_sbend sbi \<le> ii_bend ii" by auto
  then obtain h where h: "au_ii_realloc ii (au_sbend sbi + 1) alloc_ok = Some (0, ii\<lparr>ii_hinode := h\<rparr>)"
    "au_sbend sbi < int (length h)" "ii_bend ii < int (length h)"
    "\<forall>k < length h. has_inode (h ! k) \<longrightarrow> k < length (ii_hinode ii) \<and> h ! k = ii_hinode ii ! k"
    "hi_entries (ii\<lparr>ii_hinode := h\<rparr>) = hi_entries ii" "ii_owns v (ii\<lparr>ii_hinode := h\<rparr>)"
    "i_foreign v (islots (ii\<lparr>ii_hinode := h\<rparr>)) = i_foreign v (islots ii)"
    using ii_realloc_ok [OF rg own] by blast
  let ?ii = "ii\<lparr>ii_hinode := h\<rparr>"
  let ?pos = "br_pos sbi"
  have "once has_inode hi_id h" unfolding once_def
  proof (intro allI impI)
    fix i j
    assume ij: "i < length h" "j < length h" "has_inode (h ! i) \<and> has_inode (h ! j) \<and> hi_id (h ! i) = hi_id (h ! j)"
    then have "i < length (ii_hinode ii)" "j < length (ii_hinode ii)" "h ! i = ii_hinode ii ! i" "h ! j = ii_hinode ii ! j"
      using h(4) by blast+
    then show "i = j" using o ij(3) unfolding once_def by simp
  qed
  moreover have "settled has_inode hi_id ?pos h k" if "k < length h" "int k < ii_bstart ii \<or> ii_bend ii < int k" for k
    using h(4) that rg unfolding ii_in_range_def settled_def by (metis not_less)
  moreover have "ii_typed (vi_fmt vi) v ?ii" by (rule ii_typed_sub [OF ty]) (use h(5) in simp_all)
  ultimately have start: "ii_refresh_inv sbi (vi_fmt vi) (?ii, v) (ii_bstart ii) (?ii, v, False)"
    using rg h(3) keeps_i_refl [OF h(6)] by (simp add: ii_refresh_inv_def ii_in_range_def)
  have b0: "0 \<le> ii_bstart ii" "au_sbend sbi < int (length (ii_hinode (fst (?ii, v))))" using rg h(2) by (simp_all add: ii_in_range_def)
  obtain b' ii2 v2 update where loop: "ii_refresh_loop sbi (vi_fmt vi) (ii_bstart ii) (?ii, v, False) = Some (ii2, v2, update)"
    "ii_refresh_inv sbi (vi_fmt vi) (?ii, v) b' (ii2, v2, update)" "ii_bend ii2 < b'"
    using ii_refresh_loop_ok [OF wf b0(2,1) start] by (metis fst_conv prod_cases3)
  have J: "length (ii_hinode ii2) = length h" "ii_bstart ii2 \<le> ii_bend ii2" "ii_bend ii2 < int (length (ii_hinode ii2))"
    "hi_entries ii2 \<subseteq> hi_entries ii"
    "{x \<in> hi_entries ii2. 0 \<le> ?pos (hi_id x)} = {x \<in> hi_entries ii. 0 \<le> ?pos (hi_id x)}"
    "update \<longleftrightarrow> hi_entries ii2 \<noteq> hi_entries ii" "keeps_i (?ii, v) (ii2, v2)"
    using loop(2) h(5) by (simp_all add: ii_refresh_inv_def)
  have all: "\<forall>k < length (ii_hinode ii2). settled has_inode hi_id ?pos (ii_hinode ii2) k"
    using loop(2,3) unfolding ii_refresh_inv_def by fastforce
  have ents: "hi_entries ii2 = {x \<in> hi_entries ii. 0 \<le> ?pos (hi_id x)}" by (rule hi_slots.all_settled [OF all J(5)])
  have own2: "ii_owns v2 ii2" and for2: "i_foreign v2 (islots ii2) = i_foreign v (islots ii)"
    using J(7) h(7) by (simp_all add: keeps_i_def)
  have room: "si_bend sbi < int (length (ii_hinode ii2))" using J(1) h(2) by (simp add: au_sbend_def)
  obtain ii3 v3 where upd: "au_update_ibrange cfg sbi vi False (ii2, v2) = Some (ii3, v3)"
    and st: "ii_hinode ii3 = ii_hinode ii2" "v3 = v2" "tight_range (islots ii3) (si_bend sbi) (ii_bstart ii3) (ii_bend ii3)"
  proof -
    obtain s t where "search_ibrange sbi ii2 = Some (ii2\<lparr>ii_bstart := s, ii_bend := t\<rparr>)"
      "tight_range (islots ii2) (si_bend sbi) s t"
      using search_ibrange_ok [OF room] by blast
    then show ?thesis using that [of "ii2\<lparr>ii_bstart := s, ii_bend := t\<rparr>" v2]
      by (simp add: au_update_ibrange_def islots_def)
  qed
  have run: "au_ii_refresh cfg sbi vi dy_err alloc_ok (ii, v) = Some (dy_err, update, ii3, v3)"
    using h(1) loop(1) upd b0(1) by (simp add: au_ii_refresh_def)
  have sl: "islots ii3 = islots ii2" using st(1) by (simp add: islots_def)
  have own3: "ii_owns v3 ii3" using own2 st(1,2) sl by (simp add: ii_owns_def)
  have in_place: "ii_hinode ii3 ! k \<in> hi_entries ii \<and> au_br_index sbi (hi_id (ii_hinode ii3 ! k)) = Some (int k)"
    if k: "k < length (ii_hinode ii3)" "has_inode (ii_hinode ii3 ! k)" for k
  proof -
    have "ii_hinode ii2 ! k \<in> hi_entries ii2" using k st(1) by (simp add: entries_of_def)
    moreover have "?pos (hi_id (ii_hinode ii2 ! k)) = int k" using all k st(1) by (auto simp: settled_def)
    ultimately show ?thesis using J(4) br_pos_index [OF wf, of "hi_id (ii_hinode ii2 ! k)"] st(1) by auto
  qed
  have found: "nat (?pos (hi_id x)) < length (ii_hinode ii3) \<and> ii_hinode ii3 ! nat (?pos (hi_id x)) = x"
    if "x \<in> hi_entries ii" "0 \<le> ?pos (hi_id x)" for x
  proof -
    have "x \<in> hi_entries ii2" unfolding ents using that by simp
    then show ?thesis using hi_slots.entry_slot [OF all] st(1) by fastforce
  qed
  have "update \<longleftrightarrow> (\<exists>x \<in> hi_entries ii. ?pos (hi_id x) < 0)" using J(6) ents by force
  moreover have "?pos a < 0 \<longleftrightarrow> au_br_index sbi a = Some (- 1)" for a
    unfolding br_pos_index [OF wf, of a] option.inject by (rule iffI, erule br_pos_missing) simp
  ultimately have upd_iff: "update \<longleftrightarrow> (\<exists>x \<in> hi_entries ii. au_br_index sbi (hi_id x) = Some (- 1))" by simp
  show ?thesis unfolding if_not_P [OF False]
    using run in_place found upd_iff own3 for2 st(2,3) sl br_pos_index [OF wf]
    by (intro exI [of _ dy_err] exI [of _ update] exI [of _ ii3] exI [of _ v3]) (simp add: au_sbend_def)
qed

section \<open>Witness\<close>

text \<open>A branch was inserted at the top, so the table grows and both lower inodes move down by one.\<close>

definition shifted_iinfo :: au_iinfo where
  "shifted_iinfo =
     \<lparr>ig_generation = 1, ig_half_refreshed = False, ii_hsb1 = 0, ii_bstart = 0, ii_bend = 1, ii_higen = 0,
      ii_hinode = [\<lparr>hi_inode = Some 1, hi_id = 2, hi_notify = False, hi_whdentry = None\<rparr>,
                   \<lparr>hi_inode = Some 3, hi_id = 127, hi_notify = True, hi_whdentry = None\<rparr>]\<rparr>"

theorem au_ii_refresh_ends_witness:
  "\<exists>err update ii' v'. au_ii_refresh full_config example_sbinfo \<lparr>vi_fmt = S_IFDIR, vi_ino = 5\<rparr> 0 True (shifted_iinfo, example_vfs)
      = Some (err, update, ii', v') \<and> \<not> update \<and> hi_inode (ii_hinode ii' ! 1) = Some 1 \<and> hi_inode (ii_hinode ii' ! 2) = Some 3"
proof -
  have ok: "ii_in_range shifted_iinfo" "ii_owns example_vfs shifted_iinfo" "once has_inode hi_id (ii_hinode shifted_iinfo)"
    "ii_typed S_IFDIR example_vfs shifted_iinfo"
    by (auto simp: ii_in_range_def ii_owns_def shifted_iinfo_def example_vfs_def islots_def i_refs_def once_def
        ii_typed_def entries_of_def less_Suc_eq has_inode_def S_IFDIR_def)
  have e: "hi_entries shifted_iinfo = set (ii_hinode shifted_iinfo)"
    by (auto simp: entries_of_def shifted_iinfo_def has_inode_def)
  have idx: "au_br_index example_sbinfo 2 = Some 1" "au_br_index example_sbinfo 127 = Some 2"
    by (rule example_br_index)+
  show ?thesis
    using au_ii_refresh_ends [OF example_sbinfo_wf ok(1-3), of "\<lparr>vi_fmt = S_IFDIR, vi_ino = 5\<rparr>" full_config 0 True] ok(4)
    unfolding e by (auto simp: shifted_iinfo_def idx)
qed

end
