(* ===== verification/Copy_File.thy ===== *)
theory Copy_File
  imports Aufs_Prelude
begin

text \<open>
  Copying the data of a lower file to another branch (\<open>au_do_copy_file\<close> and \<open>au_copy_file\<close> of
  \<open>cpup.c\<close>): block by block, short and interrupted reads and writes repeated, blocks of zeros skipped
  so that they become holes. A file is its bytes and its position; what the calls of the lower file
  system answer is an oracle for each file. A loop that does not end is \<open>None\<close>.
\<close>

section \<open>Lower files\<close>

text \<open>\<open>Inl e\<close>: the call fails with \<open>e\<close>. \<open>Inr n\<close>: at most \<open>n\<close> bytes are moved. Behind the end calls do all they can.\<close>

type_synonym io_oracle = "(int + nat) list"

record lfile =
  lf_data :: "u8 list"
  lf_pos :: nat
  lf_seek_err :: int
  lf_io :: io_oracle

fun io_next :: "io_oracle \<Rightarrow> nat \<Rightarrow> (int + nat) \<times> io_oracle" where
  "io_next [] k = (Inr k, [])"
| "io_next (Inl e # l) k = (Inl e, l)"
| "io_next (Inr n # l) k = (Inr (min n k), l)"

definition vfsub_read_k :: "nat \<Rightarrow> lfile \<Rightarrow> (int + u8 list) \<times> lfile" where
  "vfsub_read_k sz f =
     (case io_next (lf_io f) (min sz (length (lf_data f) - lf_pos f)) of
        (Inl e, io) \<Rightarrow> (Inl e, f\<lparr>lf_io := io\<rparr>)
      | (Inr n, io) \<Rightarrow> (Inr (take n (drop (lf_pos f) (lf_data f))), f\<lparr>lf_pos := lf_pos f + n, lf_io := io\<rparr>))"

text \<open>Writing behind the end fills with zeros, writing nothing changes nothing.\<close>

definition write_at :: "nat \<Rightarrow> u8 list \<Rightarrow> u8 list \<Rightarrow> u8 list" where
  "write_at p bs d = (if bs = [] then d else take p (d @ replicate (p - length d) 0) @ bs @ drop (p + length bs) d)"

definition vfsub_write_k :: "u8 list \<Rightarrow> lfile \<Rightarrow> (int + nat) \<times> lfile" where
  "vfsub_write_k bs f =
     (case io_next (lf_io f) (length bs) of
        (Inl e, io) \<Rightarrow> (Inl e, f\<lparr>lf_io := io\<rparr>)
      | (Inr n, io) \<Rightarrow> (Inr n, f\<lparr>lf_data := write_at (lf_pos f) (take n bs) (lf_data f), lf_pos := lf_pos f + n, lf_io := io\<rparr>))"

text \<open>\<open>vfsub_llseek\<close> from the current position; its error is \<open>lf_seek_err\<close>.\<close>

definition vfsub_llseek_cur :: "nat \<Rightarrow> lfile \<Rightarrow> (int + nat) \<times> lfile" where
  "vfsub_llseek_cur n f =
     (if lf_seek_err f < 0 then (Inl (lf_seek_err f), f) else (Inr (lf_pos f + n), f\<lparr>lf_pos := lf_pos f + n\<rparr>))"

definition set_size :: "nat \<Rightarrow> lfile \<Rightarrow> lfile" where
  "set_size n f = f\<lparr>lf_data := take n (lf_data f @ replicate (n - length (lf_data f)) 0)\<rparr>"


section \<open>The loops\<close>

definition try_again :: "int \<Rightarrow> bool" where "try_again err \<longleftrightarrow> err = - EAGAIN \<or> err = - EINTR"

text \<open>Lines 246 to 251: nothing read means again, whatever the reason.\<close>

partial_function (option) read_loop :: "nat \<Rightarrow> lfile \<Rightarrow> ((int + u8 list) \<times> lfile) option" where
  "read_loop sz src =
     (case vfsub_read_k sz src of
        (Inl err, src') \<Rightarrow> if try_again err then read_loop sz src' else Some (Inl err, src')
      | (Inr bs, src') \<Rightarrow> if bs = [] then read_loop sz src' else Some (Inr bs, src'))"

text \<open>Lines 259 to 273: the error, 0 for none.\<close>

partial_function (option) write_loop :: "u8 list \<Rightarrow> lfile \<Rightarrow> (int \<times> lfile) option" where
  "write_loop p dst =
     (if p = [] then Some (0, dst)
      else case vfsub_write_k p dst of
        (Inl err, dst') \<Rightarrow> if try_again err then write_loop p dst' else Some (err, dst')
      | (Inr b, dst') \<Rightarrow> write_loop (drop b p) dst')"

definition zero_block :: "nat \<Rightarrow> nat \<Rightarrow> u8 list \<Rightarrow> bool" where
  "zero_block blksize len bs \<longleftrightarrow> length bs \<le> len \<and> length bs = blksize \<and> list_all (\<lambda>b. b = 0) bs"

text \<open>One block: the error, what is left to copy, whether the block was a hole, and the files.\<close>

definition copy_block :: "nat \<Rightarrow> nat \<Rightarrow> bool \<Rightarrow> lfile \<times> lfile \<Rightarrow> (int \<times> nat \<times> bool \<times> lfile \<times> lfile) option" where
  "copy_block blksize len all_zero s =
     (let (src, dst) = s in
      Option.bind (read_loop (if len < blksize then len else blksize) src) (\<lambda>(r, src').
      case r of
        Inl err \<Rightarrow> Some (err, len, all_zero, src', dst)
      | Inr bs \<Rightarrow>
          if \<not> zero_block blksize len bs
          then map_option (\<lambda>(err, dst'). (err, if err < 0 then len else len - length bs, False, src', dst')) (write_loop bs dst)
          else case vfsub_llseek_cur (length bs) dst of
                 (Inl err, dst') \<Rightarrow> Some (err, len, True, src', dst')
               | (Inr _, dst') \<Rightarrow> Some (0, len - length bs, True, src', dst')))"

partial_function (option) copy_loop :: "nat \<Rightarrow> nat \<Rightarrow> bool \<Rightarrow> lfile \<times> lfile \<Rightarrow> (int \<times> bool \<times> lfile \<times> lfile) option" where
  "copy_loop blksize len all_zero s =
     (if len = 0 then Some (0, all_zero, s)
      else Option.bind (copy_block blksize len all_zero s) (\<lambda>(err, len', all_zero', s').
           if err < 0 then Some (err, all_zero', s') else copy_loop blksize len' all_zero' s'))"

text \<open>Lines 297 to 300, for NFS: one zero byte at the end of the last hole.\<close>

partial_function (option) last_byte :: "lfile \<Rightarrow> ((int + nat) \<times> lfile) option" where
  "last_byte dst =
     (case vfsub_write_k [0] dst of
        (Inl err, dst') \<Rightarrow> if try_again err then last_byte dst' else Some (Inl err, dst')
      | (Inr b, dst') \<Rightarrow> Some (Inr b, dst'))"

text \<open>
  The last hole: the file gets its size by \<open>vfsub_notify_change\<close>, whose error is a parameter.
\<close>

definition last_hole :: "bool \<Rightarrow> int \<Rightarrow> lfile \<Rightarrow> (int \<times> lfile) option" where
  "last_hole nfs attr_err dst =
     Option.bind (if nfs then last_byte dst else Some (Inr 1, dst)) (\<lambda>(r, dst1).
     case r of
       Inl err \<Rightarrow> Some (err, dst1)
     | Inr b \<Rightarrow>
         let dst2 = (if nfs \<and> b = 1 then dst1\<lparr>lf_pos := lf_pos dst1 - 1\<rparr> else dst1)
         in Some (if b = 1 then if attr_err = 0 then (0, set_size (lf_pos dst2) dst2) else (attr_err, dst2)
                  else (int b, dst2)))"

definition au_do_copy_file :: "bool \<Rightarrow> int \<Rightarrow> nat \<Rightarrow> nat \<Rightarrow> lfile \<times> lfile \<Rightarrow> (int \<times> lfile \<times> lfile) option" where
  "au_do_copy_file nfs attr_err len blksize s =
     Option.bind (copy_loop blksize len False s) (\<lambda>(err, all_zero, src, dst).
     if err = 0 \<and> all_zero then map_option (\<lambda>(e, dst'). (e, src, dst')) (last_hole nfs attr_err dst)
     else Some (err, src, dst))"

definition PAGE_SIZE :: nat where "PAGE_SIZE = 4096"

definition au_copy_file :: "bool \<Rightarrow> int \<Rightarrow> bool \<Rightarrow> nat \<Rightarrow> nat \<Rightarrow> lfile \<times> lfile \<Rightarrow> (int \<times> lfile \<times> lfile) option" where
  "au_copy_file nfs attr_err alloc_ok s_blocksize len s =
     (let blksize = (if s_blocksize = 0 \<or> PAGE_SIZE < s_blocksize then PAGE_SIZE else s_blocksize) in
      if \<not> alloc_ok then Some (- ENOMEM, s)
      else au_do_copy_file nfs attr_err len blksize ((fst s)\<lparr>lf_pos := 0\<rparr>, (snd s)\<lparr>lf_pos := 0\<rparr>))"

text \<open>The length \<open>au_do_cpup_regular\<close> asks for; -1 is the whole file.\<close>

definition cpup_len :: "int \<Rightarrow> int \<Rightarrow> int" where
  "cpup_len i_size len = (if len = - 1 \<or> i_size < len then i_size else len)"

section \<open>Reading and writing\<close>

text \<open>Oracles without a hard error; \<open>moves\<close>: no call succeeds with nothing.\<close>

definition soft :: "io_oracle \<Rightarrow> bool" where
  "soft io \<longleftrightarrow> (\<forall>e. Inl e \<in> set io \<longrightarrow> try_again e)"
definition moves :: "io_oracle \<Rightarrow> bool" where "moves io \<longleftrightarrow> soft io \<and> Inr 0 \<notin> set io"

lemma soft_simps [simp]:
  "soft []" "soft (Inl e # io) \<longleftrightarrow> try_again e \<and> soft io" "soft (Inr n # io) \<longleftrightarrow> soft io"
  "moves []" "moves (Inl e # io) \<longleftrightarrow> try_again e \<and> moves io" "moves (Inr n # io) \<longleftrightarrow> 0 < n \<and> moves io"
  by (auto simp: soft_def moves_def)

lemma read_loop_ok:
  assumes "0 < sz" and "lf_pos f < length (lf_data f)"
  shows "soft (lf_io f) \<Longrightarrow> lf_pos f = p \<Longrightarrow> lf_data f = d \<Longrightarrow>
    \<exists>n io. read_loop sz f = Some (Inr (take n (drop p d)), f\<lparr>lf_pos := p + n, lf_io := io\<rparr>)
    \<and> 0 < n \<and> n \<le> sz \<and> p + n \<le> length d \<and> soft io"
  using assms(2)
proof (induction "lf_io f" arbitrary: f)
  case Nil
  let ?n = "min sz (length d - p)"
  have "0 < ?n" using assms(1) Nil by simp
  moreover have "vfsub_read_k sz f = (Inr (take ?n (drop p d)), f\<lparr>lf_pos := p + ?n, lf_io := []\<rparr>)"
    using Nil by (simp add: vfsub_read_k_def)
  ultimately have run: "read_loop sz f = Some (Inr (take ?n (drop p d)), f\<lparr>lf_pos := p + ?n, lf_io := []\<rparr>)"
    using Nil by (subst read_loop.simps) auto
  have "?n \<le> length d - p" by simp
  moreover have "p < length d" using Nil by simp
  ultimately have "p + ?n \<le> length d" by linarith
  then show ?case using \<open>0 < ?n\<close> run by (intro exI [of _ ?n] exI [of _ "[]"]) simp
next
  case (Cons r io)
  have again: ?case if s: "read_loop sz f = read_loop sz (f\<lparr>lf_io := io\<rparr>)"
  proof -
    have "soft io" using Cons.prems(1) Cons.hyps(2) [symmetric] by (cases r) simp_all
    then show ?thesis using Cons.hyps(1) [of "f\<lparr>lf_io := io\<rparr>"] Cons.prems unfolding s by simp
  qed
  show ?case
  proof (cases r)
    case (Inl e)
    then show ?thesis using Cons.hyps(2) [symmetric] Cons.prems
      by (intro again, subst read_loop.simps) (simp add: vfsub_read_k_def)
  next
    case (Inr k)
    let ?n = "min k (min sz (length d - p))"
    have st: "vfsub_read_k sz f = (Inr (take ?n (drop p d)), f\<lparr>lf_pos := p + ?n, lf_io := io\<rparr>)"
      using Inr Cons.hyps(2) [symmetric] Cons.prems by (simp add: vfsub_read_k_def)
    show ?thesis
    proof (cases "k = 0")
      case True
      then have "f\<lparr>lf_pos := p + ?n, lf_io := io\<rparr> = f\<lparr>lf_io := io\<rparr>" using Cons.prems(2) by simp
      then show ?thesis using st True by (intro again, subst read_loop.simps) simp
    next
      case False
      then have n: "0 < ?n" using assms(1) Cons.prems by simp
      then have "read_loop sz f = Some (Inr (take ?n (drop p d)), f\<lparr>lf_pos := p + ?n, lf_io := io\<rparr>)"
        using st Cons.prems by (subst read_loop.simps) auto
      moreover have "soft io" using Inr Cons.hyps(2) [symmetric] Cons.prems(1) by simp
      moreover have "?n \<le> sz" "?n \<le> length d - p" "p < length d" using Cons.prems by simp_all
      ultimately show ?thesis using n by (intro exI [of _ ?n] exI [of _ io]) linarith
    qed
  qed
qed


lemma write_loop_ok:
  assumes "lf_pos f = p" and "length (lf_data f) \<le> p" and "moves (lf_io f)"
  shows "\<exists>io. write_loop bs f = Some (0, f\<lparr>lf_data := (if bs = [] then lf_data f
        else lf_data f @ replicate (p - length (lf_data f)) 0 @ bs), lf_pos := p + length bs, lf_io := io\<rparr>) \<and> moves io"
  using assms
proof (induction "length bs + length (lf_io f)" arbitrary: bs f p rule: less_induct)
  case less
  show ?case
  proof (cases "bs = []")
    case True
    then show ?thesis using less.prems
      by (intro exI [of _ "lf_io f"]) (simp add: write_loop.simps)
  next
    case bs: False
    show ?thesis
    proof (cases "lf_io f")
      case Nil
      have "vfsub_write_k bs f = (Inr (length bs), f\<lparr>lf_data := lf_data f @ replicate (p - length (lf_data f)) 0 @ bs,
          lf_pos := p + length bs, lf_io := []\<rparr>)"
        using Nil bs less.prems by (simp add: vfsub_write_k_def write_at_def)
      then show ?thesis using bs by (intro exI [of _ "[]"]) (simp add: write_loop.simps [of bs f] write_loop.simps [of "[]"])
    next
      case (Cons r io)
      show ?thesis
      proof (cases r)
        case (Inl e)
        have "write_loop bs f = write_loop bs (f\<lparr>lf_io := io\<rparr>)"
          using Cons Inl bs less.prems(3) by (simp add: write_loop.simps [of bs f] vfsub_write_k_def)
        moreover have "length bs + length (lf_io (f\<lparr>lf_io := io\<rparr>)) < length bs + length (lf_io f)" using Cons by simp
        moreover have "moves io" using less.prems(3) Cons Inl by simp
        ultimately show ?thesis using less.hyps [of bs "f\<lparr>lf_io := io\<rparr>" p] less.prems(1,2) bs by simp
      next
        case (Inr k)
        let ?n = "min k (length bs)"
        let ?d = "lf_data f @ replicate (p - length (lf_data f)) 0 @ take ?n bs"
        let ?f = "f\<lparr>lf_data := ?d, lf_pos := p + ?n, lf_io := io\<rparr>"
        have n: "0 < ?n" "moves io" using less.prems(3) Cons Inr bs by simp_all
        have "vfsub_write_k bs f = (Inr ?n, ?f)"
          using Cons Inr bs less.prems(1,2) n(1) by (cases "k \<le> length bs") (simp_all add: vfsub_write_k_def write_at_def)
        then have st: "write_loop bs f = write_loop (drop ?n bs) ?f" using bs by (simp add: write_loop.simps [of bs f])
        have len: "length (drop ?n bs) + length (lf_io ?f) < length bs + length (lf_io f)" using Cons n(1) by simp
        obtain io' where io': "write_loop (drop ?n bs) ?f = Some (0, ?f\<lparr>lf_data := (if drop ?n bs = [] then ?d
            else ?d @ replicate (p + ?n - length ?d) 0 @ drop ?n bs), lf_pos := p + ?n + length (drop ?n bs), lf_io := io'\<rparr>)"
          "moves io'"
          using less.hyps [OF len, of "p + ?n"] less.prems(2) n(2) by auto
        have "(if drop ?n bs = [] then ?d else ?d @ replicate (p + ?n - length ?d) 0 @ drop ?n bs)
            = lf_data f @ replicate (p - length (lf_data f)) 0 @ bs"
          using less.prems(2) by (auto simp: min_def)
        moreover have "p + ?n + length (drop ?n bs) = p + length bs" by simp
        ultimately show ?thesis using io' bs unfolding st by (intro exI [of _ io']) simp
      qed
    qed
  qed
qed

lemma zero_blockD: "zero_block blksize len bs \<Longrightarrow> bs = replicate (length bs) 0"
  by (auto simp: zero_block_def list_all_length intro!: nth_equalityI)

section \<open>The whole copy\<close>

text \<open>Up to its position the destination is the source, if the hole behind its end is filled with zeros.\<close>

definition copied :: "u8 list \<Rightarrow> nat \<Rightarrow> bool \<Rightarrow> lfile \<times> lfile \<Rightarrow> bool" where
  "copied d p all_zero s \<longleftrightarrow>
     (let (src, dst) = s in lf_data src = d \<and> lf_pos src = p \<and> lf_pos dst = p \<and> soft (lf_io src) \<and> moves (lf_io dst)
      \<and> 0 \<le> lf_seek_err dst
      \<and> length (lf_data dst) \<le> p \<and> (all_zero \<or> length (lf_data dst) = p)
      \<and> lf_data dst @ replicate (p - length (lf_data dst)) 0 = take p d)"

lemma copy_block_ok:
  assumes I: "copied d p all_zero s" and len: "0 < len" "p < length d" and blk: "0 < blksize"
  shows "\<exists>n all_zero' s'. copy_block blksize len all_zero s = Some (0, len - n, all_zero', s')
    \<and> 0 < n \<and> n \<le> len \<and> copied d (p + n) all_zero' s'"
proof -
  obtain src dst where s: "s = (src, dst)" by (cases s)
  let ?sz = "if len < blksize then len else blksize"
  have src: "lf_data src = d" "lf_pos src = p" "soft (lf_io src)" and dst: "lf_pos dst = p" "moves (lf_io dst)"
    "length (lf_data dst) \<le> p" "lf_data dst @ replicate (p - length (lf_data dst)) 0 = take p d"
    "0 \<le> lf_seek_err dst"
    using I by (simp_all add: copied_def s)
  have sz: "0 < ?sz" using len blk by simp
  obtain n io where r: "read_loop ?sz src = Some (Inr (take n (drop p d)), src\<lparr>lf_pos := p + n, lf_io := io\<rparr>)"
    "0 < n" "n \<le> ?sz" "p + n \<le> length d" "soft io"
    using read_loop_ok [OF sz _ src(3,2,1)] src(1,2) len by auto
  let ?bs = "take n (drop p d)" and ?src = "src\<lparr>lf_pos := p + n, lf_io := io\<rparr>"
  have bs: "length ?bs = n" "?bs \<noteq> []" "n \<le> len" using r(2,3,4) by (auto split: if_splits)
  have grown: "take p d @ ?bs = take (p + n) d" by (simp add: take_add)
  show ?thesis
  proof (cases "zero_block blksize len ?bs")
    case False
    obtain io' where w: "write_loop ?bs dst = Some (0, dst\<lparr>lf_data := lf_data dst @ replicate (p - length (lf_data dst)) 0 @ ?bs,
        lf_pos := p + n, lf_io := io'\<rparr>)" "moves io'"
      using write_loop_ok [OF dst(1,3,2), of ?bs] bs(1,2) by auto
    let ?dst = "dst\<lparr>lf_data := take (p + n) d, lf_pos := p + n, lf_io := io'\<rparr>"
    have "lf_data dst @ replicate (p - length (lf_data dst)) 0 @ ?bs = take (p + n) d"
      using dst(4) grown by (simp flip: append_assoc)
    then have "copy_block blksize len all_zero s = Some (0, len - n, False, ?src, ?dst)"
      using r(1) False w(1) bs(1) by (simp add: copy_block_def s)
    moreover have "copied d (p + n) False (?src, ?dst)" using src(1) r(4,5) w(2) dst(5) by (simp add: copied_def)
    ultimately show ?thesis using r(2) bs(3) by blast
  next
    case True
    let ?dst = "dst\<lparr>lf_pos := p + n\<rparr>"
    have "copy_block blksize len all_zero s = Some (0, len - n, True, ?src, ?dst)"
      using r(1) True bs(1) dst(1,5) by (simp add: copy_block_def s vfsub_llseek_cur_def)
    moreover have "?bs = replicate n 0" using zero_blockD [OF True] bs(1) by simp
    then have "lf_data dst @ replicate (p + n - length (lf_data dst)) 0 = take (p + n) d"
      using grown dst(3,4) by (metis Nat.add_diff_assoc2 append_assoc replicate_add)
    then have "copied d (p + n) True (?src, ?dst)" using src(1) r(4,5) dst by (simp add: copied_def)
    ultimately show ?thesis using r(2) bs(3) by blast
  qed
qed


lemma copy_loop_ok:
  assumes blk: "0 < blksize"
  shows "copied d p all_zero s \<Longrightarrow> p + len \<le> length d
    \<Longrightarrow> \<exists>all_zero' s'. copy_loop blksize len all_zero s = Some (0, all_zero', s') \<and> copied d (p + len) all_zero' s'"
proof (induction len arbitrary: p all_zero s rule: less_induct)
  case (less len)
  show ?case
  proof (cases "len = 0")
    case True
    then show ?thesis using less.prems(1)
      by (intro exI [of _ all_zero] exI [of _ s]) (simp add: copy_loop.simps [of blksize 0])
  next
    case False
    then obtain n az s1 where st: "copy_block blksize len all_zero s = Some (0, len - n, az, s1)" "0 < n" "n \<le> len"
      "copied d (p + n) az s1"
      using copy_block_ok [OF less.prems(1) _ _ blk, of len] less.prems(2) by auto
    have "len - n < len" "p + n + (len - n) \<le> length d" using st(2,3) less.prems(2) by simp_all
    from less.IH [OF this(1) st(4) this(2)] st(3) show ?thesis
      using st(1) False by (simp add: copy_loop.simps [of blksize len])
  qed
qed

lemma last_byte_ok:
  assumes "moves (lf_io f)" and "lf_pos f = p" and "length (lf_data f) \<le> p"
  shows "\<exists>io. last_byte f = Some (Inr 1, f\<lparr>lf_data := lf_data f @ replicate (p - length (lf_data f)) 0 @ [0],
      lf_pos := Suc p, lf_io := io\<rparr>)"
  using assms
proof (induction "lf_io f" arbitrary: f)
  case Nil
  then show ?case by (intro exI [of _ "[]"], subst last_byte.simps) (simp add: vfsub_write_k_def write_at_def)
next
  case (Cons r io)
  show ?case
  proof (cases r)
    case (Inl e)
    then have "last_byte f = last_byte (f\<lparr>lf_io := io\<rparr>)" "moves io"
      using Cons.hyps(2) [symmetric] Cons.prems(1) by (simp_all add: last_byte.simps [of f] vfsub_write_k_def)
    then show ?thesis using Cons.hyps(1) [of "f\<lparr>lf_io := io\<rparr>"] Cons.prems by simp
  next
    case (Inr k)
    then show ?thesis using Cons.hyps(2) [symmetric] Cons.prems
      by (intro exI [of _ io], subst last_byte.simps) (auto simp: vfsub_write_k_def write_at_def min_def)
  qed
qed

text \<open>
  C36: \<open>au_copy_file\<close> copies. However the reads and writes are cut into pieces or interrupted, it returns
  success and the destination then has exactly the bytes of the source up to the length, although no
  block of zeros was written; the source is only read.
\<close>

theorem au_copy_file_copies:
  assumes "len \<le> length (lf_data src)" and "lf_data dst = []" and "0 \<le> lf_seek_err dst"
    and "soft (lf_io src)" and "moves (lf_io dst)"
  shows "\<exists>src' dst'. au_copy_file nfs 0 True s_blocksize len (src, dst) = Some (0, src', dst')
    \<and> lf_data dst' = take len (lf_data src) \<and> lf_data src' = lf_data src"
proof -
  define blk where "blk = (if s_blocksize = 0 \<or> PAGE_SIZE < s_blocksize then PAGE_SIZE else s_blocksize)"
  let ?d = "lf_data src"
  have blk: "0 < blk" by (simp add: PAGE_SIZE_def blk_def)
  have run: "au_copy_file nfs 0 True s_blocksize len (src, dst)
      = au_do_copy_file nfs 0 len blk (src\<lparr>lf_pos := 0\<rparr>, dst\<lparr>lf_pos := 0\<rparr>)"
    by (simp add: au_copy_file_def blk_def Let_def)
  have c0: "copied ?d 0 False (src\<lparr>lf_pos := 0\<rparr>, dst\<lparr>lf_pos := 0\<rparr>)" using assms by (simp add: copied_def)
  have "0 + len \<le> length ?d" using assms(1) by simp
  from copy_loop_ok [OF blk c0 this] obtain all_zero src1 dst1 where loop: "copy_loop blk len False (src\<lparr>lf_pos := 0\<rparr>, dst\<lparr>lf_pos := 0\<rparr>)
      = Some (0, all_zero, src1, dst1)" "copied ?d len all_zero (src1, dst1)"
    by auto
  have D: "lf_data src1 = ?d" "lf_pos dst1 = len" "moves (lf_io dst1)" "length (lf_data dst1) \<le> len"
    "all_zero \<or> length (lf_data dst1) = len" "lf_data dst1 @ replicate (len - length (lf_data dst1)) 0 = take len ?d"
    using loop(2) by (simp_all add: copied_def)
  show ?thesis
  proof (cases all_zero)
    case False
    then show ?thesis using loop(1) D by (simp add: run au_do_copy_file_def)
  next
    case True
    have sized: "\<exists>dst'. last_hole nfs 0 dst1 = Some (0, dst') \<and> lf_data dst' = take len ?d"
    proof (cases nfs)
      case True
      obtain io where "last_byte dst1 = Some (Inr 1, dst1\<lparr>lf_data := take len ?d @ [0], lf_pos := Suc len, lf_io := io\<rparr>)"
        using last_byte_ok [OF D(3,2,4)] D(6) by (metis append_assoc)
      then show ?thesis using True assms(1) by (simp add: last_hole_def set_size_def)
    next
      case False
      then show ?thesis using D(2,4,6) assms(1) by (simp add: last_hole_def set_size_def)
    qed
    then obtain dst' where l: "last_hole nfs 0 dst1 = Some (0, dst')" "lf_data dst' = take len ?d" by blast
    have "au_copy_file nfs 0 True s_blocksize len (src, dst) = Some (0, src1, dst')"
      unfolding run au_do_copy_file_def loop(1) using l(1) True by simp
    then show ?thesis using l(2) D(1) by (intro exI [of _ src1] exI [of _ dst'] conjI)
  qed
qed

section \<open>A source that is too short\<close>

lemma read_loop_stuck:
  assumes "read_loop sz f = Some r"
  shows "lf_pos f < length (lf_data f) \<or> \<not> soft (lf_io f)"
proof (rule read_loop.raw_induct [where P = "\<lambda>sz f r. lf_pos f < length (lf_data f) \<or> \<not> soft (lf_io f)", OF _ assms])
  fix g sz f r
  assume IH: "\<And>sz f r. g sz f = Some r \<Longrightarrow> lf_pos f < length (lf_data f) \<or> \<not> soft (lf_io f)"
    and eq: "(case vfsub_read_k sz f of
        (Inl err, src') \<Rightarrow> if try_again err then g sz src' else Some (Inl err, src')
      | (Inr bs, src') \<Rightarrow> if bs = [] then g sz src' else Some (Inr bs, src')) = Some r"
  show "lf_pos f < length (lf_data f) \<or> \<not> soft (lf_io f)"
  proof (rule ccontr)
    assume "\<not> ?thesis"
    then have *: "length (lf_data f) \<le> lf_pos f" "soft (lf_io f)" by auto
    show False
    proof (cases "lf_io f")
      case Nil
      then have fe: "f\<lparr>lf_io := []\<rparr> = f" by (cases f) simp
      have "g sz (f\<lparr>lf_io := []\<rparr>) = Some r" using Nil eq * by (simp add: vfsub_read_k_def)
      then have "g sz f = Some r" unfolding fe .
      then show False using IH * by fastforce
    next
      case (Cons x io)
      then have "g sz (f\<lparr>lf_io := io\<rparr>) = Some r" "soft io" using eq * by (cases x; simp add: vfsub_read_k_def)+
      then show False using IH [of sz "f\<lparr>lf_io := io\<rparr>"] * by auto
    qed
  qed
qed


lemma copy_loop_stuck:
  assumes blk: "0 < blksize"
  shows "copied d p all_zero s \<Longrightarrow> length d < p + len \<Longrightarrow> copy_loop blksize len all_zero s = None"
proof (induction "length d - p" arbitrary: p len all_zero s rule: less_induct)
  case less
  obtain src dst where s: "s = (src, dst)" by (cases s)
  have le: "p \<le> length d" using less.prems(1) by (auto simp: copied_def s dest!: arg_cong [of _ _ length])
  then have len: "0 < len" using less.prems(2) by simp
  show ?case
  proof (cases "p < length d")
    case True
    obtain n az s1 where st: "copy_block blksize len all_zero s = Some (0, len - n, az, s1)" "0 < n" "n \<le> len"
      "copied d (p + n) az s1"
      using copy_block_ok [OF less.prems(1) len True blk] by blast
    have "length d - (p + n) < length d - p" "length d < p + n + (len - n)" using True st(2,3) less.prems(2) by linarith+
    from less.hyps [OF this(1) st(4) this(2)] show ?thesis using st(1) len by (simp add: copy_loop.simps [of blksize len])
  next
    case False
    then have "\<not> (lf_pos src < length (lf_data src) \<or> \<not> soft (lf_io src))"
      using less.prems(1) by (simp add: copied_def s)
    then have "read_loop sz src = None" for sz using read_loop_stuck [of sz src] by (cases "read_loop sz src") auto
    then show ?thesis using len by (simp add: copy_loop.simps [of blksize len] copy_block_def s)
  qed
qed

text \<open>
  C37: if the source is shorter than the length asked for, because it was truncated after its size was
  read, \<open>au_copy_file\<close> never returns: reading at the end of the file gives nothing, and that is
  tried again.
\<close>

theorem au_copy_file_stuck:
  assumes "length (lf_data src) < len" and "lf_data dst = []" and "0 \<le> lf_seek_err dst"
    and "soft (lf_io src)" and "moves (lf_io dst)"
  shows "au_copy_file nfs attr_err True s_blocksize len (src, dst) = None"
proof -
  have "copied (lf_data src) 0 False (src\<lparr>lf_pos := 0\<rparr>, dst\<lparr>lf_pos := 0\<rparr>)" using assms by (simp add: copied_def)
  moreover have "0 < (if s_blocksize = 0 \<or> PAGE_SIZE < s_blocksize then PAGE_SIZE else s_blocksize)"
    by (simp add: PAGE_SIZE_def)
  ultimately show ?thesis using copy_loop_stuck assms(1) by (simp add: au_copy_file_def au_do_copy_file_def Let_def)
qed

text \<open>Three bytes and five zeros; the second read is interrupted, the first write is short.\<close>

definition copy_src :: lfile where
  "copy_src = \<lparr>lf_data = [1, 2, 3, 0, 0, 0, 0, 0], lf_pos = 5, lf_seek_err = 0, lf_io = [Inr 2, Inl (- EINTR)]\<rparr>"
definition copy_dst :: lfile where
  "copy_dst = \<lparr>lf_data = [], lf_pos = 0, lf_seek_err = 0, lf_io = [Inr 1, Inl (- EAGAIN)]\<rparr>"

lemma copy_example: "0 \<le> lf_seek_err copy_dst" "lf_data copy_dst = []" "soft (lf_io copy_src)" "moves (lf_io copy_dst)"
  by (simp_all add: copy_src_def copy_dst_def try_again_def)

theorem au_copy_file_copies_witness:
  "\<exists>src' dst'. au_copy_file True 0 True 2 8 (copy_src, copy_dst) = Some (0, src', dst')
    \<and> lf_data dst' = [1, 2, 3, 0, 0, 0, 0, 0]"
  using au_copy_file_copies [OF _ copy_example(2,1,3,4), of 8 True 2] by (simp add: copy_src_def) blast

theorem au_copy_file_stuck_witness: "au_copy_file False 0 True 2 9 (copy_src, copy_dst) = None"
  by (rule au_copy_file_stuck [OF _ copy_example(2,1,3,4)]) (simp add: copy_src_def)

end
