(* ===== verification/Export.thy ===== *)
theory Export
  imports Dinfo Si_Lock Xino Refresh_Dentry
begin

text \<open>
  File handles for NFS (\<open>export.c\<close>): \<open>aufs_encode_fh\<close> writes the branch, the generations and the inode
  numbers of a file and its parent into a handle, \<open>aufs_fh_to_dentry\<close> finds the dentry again, from the
  inode cache, by reading the parent directory or through the lower file system. In the last two the
  lock of the superblock is given back in between, so the branches and the caches can change: the
  state holds what every next lock of the superblock will find. The answers of the VFS are
  parameters; inode numbers have 32 bits.
\<close>

section \<open>Handles\<close>

definition Fh_br_id :: int where "Fh_br_id = 0"
definition Fh_sigen :: int where "Fh_sigen = 1"
definition Fh_ino :: int where "Fh_ino = 2"
definition Fh_dir_ino :: int where "Fh_dir_ino = 3"
definition Fh_igen :: int where "Fh_igen = 4"
definition Fh_h_type :: int where "Fh_h_type = 5"
definition Fh_tail :: int where "Fh_tail = 6"

lemmas fh_defs = Fh_br_id_def Fh_sigen_def Fh_ino_def Fh_dir_ino_def Fh_igen_def Fh_h_type_def Fh_tail_def



definition decode_ino :: "u32 list \<Rightarrow> int \<Rightarrow> u32 option" where
  "decode_ino fh a = arr_get fh a"

section \<open>What the caches hold\<close>

text \<open>An aufs dentry: disconnected, the number of the inode of its parent, its and its inode's generations.\<close>

record ndentry =
  nd_anon :: bool
  nd_parent :: u32
  nd_digen :: u32
  nd_iigen :: u32
  nd_igeneration :: u32

text \<open>A cached aufs inode; \<open>ni_alias\<close> is what \<open>d_find_alias\<close> finds.\<close>

record ninode =
  ni_bad :: bool
  ni_deaddir :: bool
  ni_iigen :: u32
  ni_isdir :: bool
  ni_alias :: "dptr option"
  ni_aliases :: "dptr list"

record world =
  wo_sbi :: au_sbinfo
  wo_inode :: "u32 \<Rightarrow> ninode option"
  wo_dentry :: "dptr \<Rightarrow> ndentry"
  wo_root :: dptr

text \<open>The lock, the uses of the branches by id, and the worlds the next locks will find.\<close>

record nfs =
  nf_lock :: si_lock
  nf_count :: "bindex \<Rightarrow> int"
  nf_world :: world
  nf_later :: "world list"

definition nfs_locked :: "si_lock \<Rightarrow> nfs \<Rightarrow> nfs" where
  "nfs_locked l s = (case nf_later s of [] \<Rightarrow> s\<lparr>nf_lock := l\<rparr>
     | w # ws \<Rightarrow> s\<lparr>nf_lock := l, nf_world := w, nf_later := ws\<rparr>)"

text \<open>\<open>ERR_PTR\<close>, or a dentry or NULL.\<close>

type_synonym dres = "int + dptr option"

section \<open>Locking\<close>

record au_nfsd_si_lock =
  ns_sigen :: u32
  ns_bindex :: bindex
  ns_br_id :: bindex
  ns_force_lock :: bool

text \<open>\<open>si_read_lock\<close> with \<open>AuLock_FLUSH\<close> alone never waits for the maintenance of pseudo-links.\<close>

definition nfs_lock :: "pid \<Rightarrow> nfs \<Rightarrow> nfs option" where
  "nfs_lock current s = map_option (\<lambda>l. nfs_locked l s) (si_noflush_read_lock current (nf_lock s))"
definition nfs_unlock :: "pid \<Rightarrow> nfs \<Rightarrow> nfs option" where
  "nfs_unlock current s = map_option (\<lambda>l. s\<lparr>nf_lock := l\<rparr>) (si_read_unlock current (nf_lock s))"

definition si_nfsd_read_lock :: "pid \<Rightarrow> au_nfsd_si_lock \<Rightarrow> nfs \<Rightarrow> (int \<times> au_nfsd_si_lock \<times> nfs) option" where
  "si_nfsd_read_lock current nsi s =
     Option.bind (nfs_lock current s) (\<lambda>s1.
     let sbi = wo_sbi (nf_world s1) in
     Option.bind (au_br_index sbi (ns_br_id nsi)) (\<lambda>bindex.
     if 0 \<le> bindex \<and> au_sigen sbi < ns_sigen nsi + of_int AUFS_BRANCH_MAX
     then Some (0, nsi\<lparr>ns_bindex := bindex\<rparr>, s1)
     else map_option (\<lambda>s2. (- ESTALE, nsi\<lparr>ns_bindex := - 1\<rparr>, s2))
            (if ns_force_lock nsi then Some s1 else nfs_unlock current s1)))"

section \<open>Decoding from the inode cache\<close>

fun find_alias :: "(dptr \<Rightarrow> ndentry) \<Rightarrow> u32 \<Rightarrow> dptr list \<Rightarrow> dptr option" where
  "find_alias ds dir_ino [] = None"
| "find_alias ds dir_ino (d # l) =
     (if \<not> nd_anon (ds d) \<and> nd_parent (ds d) = dir_ino then Some d else find_alias ds dir_ino l)"

text \<open>\<open>au_digen_test\<close> of \<open>dinfo.c\<close> on a cached dentry.\<close>

definition nd_digen_test :: "world \<Rightarrow> dptr \<Rightarrow> bool" where
  "nd_digen_test w d \<longleftrightarrow> nd_digen (wo_dentry w d) \<noteq> au_sigen (wo_sbi w) \<or> nd_iigen (wo_dentry w d) \<noteq> au_sigen (wo_sbi w)"

definition decode_by_ino :: "world \<Rightarrow> u32 \<Rightarrow> u32 \<Rightarrow> dres" where
  "decode_by_ino w ino dir_ino =
     (case wo_inode w ino of
        None \<Rightarrow> Inr None
      | Some i \<Rightarrow>
          if ni_bad i \<or> ni_deaddir i \<or> au_sigen (wo_sbi w) \<noteq> ni_iigen i then Inl (- ESTALE)
          else case (if dir_ino = 0 \<or> ni_isdir i then ni_alias i else find_alias (wo_dentry w) dir_ino (ni_aliases i)) of
                 None \<Rightarrow> Inr None
               | Some d \<Rightarrow> Inr (if nd_digen_test w d then None else Some d))"

section \<open>Decoding by reading a directory\<close>

text \<open>
  The answers of the VFS: opening a directory, a page of memory, the calls of readdir (an error, or a
  batch of names with inode numbers), looking up a name (NULL for a negative dentry), the
  decoded lower handle and whether it is disconnected, the built path (0 or an error), and the
  dentry of that path with the number of its inode.
\<close>

record nfs_env =
  ne_open :: "dptr \<Rightarrow> int"
  ne_page :: bool
  ne_readdir :: "dptr \<Rightarrow> (int + (u8 list \<times> u32) list) list"
  ne_lookup :: "u8 list \<Rightarrow> dptr \<Rightarrow> dres"
  ne_decode_fh :: "bindex \<Rightarrow> u32 \<Rightarrow> u32 list \<Rightarrow> dres"
  ne_h_anon :: bool
  ne_build_path :: int
  ne_kern_path :: "int + dptr \<times> u32 option"

fun find_name_by_ino :: "u32 \<Rightarrow> (u8 list \<times> u32) list \<Rightarrow> u8 list option" where
  "find_name_by_ino ino [] = None"
| "find_name_by_ino ino ((name, i) # l) = (if i = ino then Some name else find_name_by_ino ino l)"

text \<open>The loop of \<open>au_lkup_by_ino\<close> ends at an error, the name, or a call that delivers nothing.\<close>

fun find_name_loop :: "u32 \<Rightarrow> (int + (u8 list \<times> u32) list) list \<Rightarrow> int + u8 list option" where
  "find_name_loop ino [] = Inr None"
| "find_name_loop ino (Inl err # calls) = Inl err"
| "find_name_loop ino (Inr batch # calls) =
     (case find_name_by_ino ino batch of
        Some name \<Rightarrow> Inr (Some name)
      | None \<Rightarrow> if batch = [] then Inr None else find_name_loop ino calls)"

definition lkup_by_ino :: "nfs_env \<Rightarrow> dptr \<Rightarrow> u32 \<Rightarrow> dres" where
  "lkup_by_ino env parent ino =
     (if ne_open env parent < 0 then Inl (ne_open env parent)
      else if \<not> ne_page env then Inl (- ENOMEM)
      else case find_name_loop ino (ne_readdir env parent) of
        Inl err \<Rightarrow> Inl err
      | Inr None \<Rightarrow> Inl (- ESTALE)
      | Inr (Some name) \<Rightarrow>
          (case ne_lookup env name parent of
             Inl err \<Rightarrow> Inl err
           | Inr None \<Rightarrow> Inl (- ENOENT)
           | Inr (Some d) \<Rightarrow> Inr (Some d)))"

text \<open>The lock is taken again; a result is stale if the branch is gone.\<close>

definition relock :: "pid \<Rightarrow> dres \<Rightarrow> au_nfsd_si_lock \<Rightarrow> nfs \<Rightarrow> (dres \<times> au_nfsd_si_lock \<times> nfs) option" where
  "relock current r nsi s =
     map_option (\<lambda>(err, nsi', s'). (if err < 0 \<and> \<not> isl r then Inl (- ESTALE) else r, nsi', s'))
       (si_nfsd_read_lock current nsi s)"

definition au_lkup_by_ino :: "nfs_env \<Rightarrow> pid \<Rightarrow> dptr \<Rightarrow> u32 \<Rightarrow> au_nfsd_si_lock \<Rightarrow> nfs
    \<Rightarrow> (dres \<times> au_nfsd_si_lock \<times> nfs) option" where
  "au_lkup_by_ino env current parent ino nsi s =
     Option.bind (nfs_unlock current s) (relock current (lkup_by_ino env parent ino) nsi)"

definition decode_by_dir_ino :: "nfs_env \<Rightarrow> pid \<Rightarrow> u32 \<Rightarrow> u32 \<Rightarrow> au_nfsd_si_lock \<Rightarrow> nfs
    \<Rightarrow> (dres \<times> au_nfsd_si_lock \<times> nfs) option" where
  "decode_by_dir_ino env current ino dir_ino nsi s =
     (case (if dir_ino \<noteq> AUFS_ROOT_INO then decode_by_ino (nf_world s) dir_ino 0 else Inr (Some (wo_root (nf_world s)))) of
        Inl err \<Rightarrow> Some (Inl err, nsi, s)
      | Inr None \<Rightarrow> Some (Inr None, nsi, s)
      | Inr (Some parent) \<Rightarrow> au_lkup_by_ino env current parent ino nsi s)"

section \<open>Decoding through the lower file system\<close>

text \<open>What is found at the path, outside the lock.\<close>

definition lkup_by_path :: "nfs_env \<Rightarrow> u32 \<Rightarrow> dres" where
  "lkup_by_path env ino =
     (case ne_kern_path env of
        Inl err \<Rightarrow> Inl err
      | Inr (d, None) \<Rightarrow> Inl (- ENOENT)
      | Inr (d, Some i) \<Rightarrow> if ino \<noteq> i then lkup_by_ino env d ino else Inr (Some d))"

definition decode_by_path :: "nfs_env \<Rightarrow> pid \<Rightarrow> u32 \<Rightarrow> u32 list \<Rightarrow> int \<Rightarrow> au_nfsd_si_lock \<Rightarrow> nfs
    \<Rightarrow> (dres \<times> au_nfsd_si_lock \<times> nfs) option" where
  "decode_by_path env current ino fh fh_len nsi s =
     Option.bind (au_sbr (wo_sbi (nf_world s)) (ns_bindex nsi)) (\<lambda>br.
     Option.bind (arr_get fh Fh_h_type) (\<lambda>h_type.
     case ne_decode_fh env (br_id br) h_type (take (nat (fh_len - Fh_tail)) (drop (nat Fh_tail) fh)) of
       Inl err \<Rightarrow> Some (Inl err, nsi, s)
     | Inr None \<Rightarrow> Some (Inr None, nsi, s)
     | Inr (Some h_parent) \<Rightarrow>
         if ne_h_anon env then Some (Inr None, nsi, s)
         else if \<not> ne_page env then Some (Inl (- ENOMEM), nsi, s)
         else if ne_build_path env < 0 then Some (Inl (ne_build_path env), nsi, s)
         else Option.bind (nfs_unlock current s) (relock current (lkup_by_path env ino) nsi)))"

section \<open>Handle to dentry\<close>

text \<open>The labels \<open>out_unlock\<close>, where \<open>br\<close> is the branch whose use is given back, and \<open>accept\<close>.\<close>

definition fh_unlock :: "pid \<Rightarrow> bindex option \<Rightarrow> dres \<Rightarrow> nfs \<Rightarrow> (dres \<times> nfs) option" where
  "fh_unlock current br r s =
     map_option (Pair r) (nfs_unlock current
       (case br of None \<Rightarrow> s | Some b \<Rightarrow> s\<lparr>nf_count := (nf_count s)(b := nf_count s b - 1)\<rparr>))"

definition fh_accept :: "pid \<Rightarrow> bindex option \<Rightarrow> u32 \<Rightarrow> dptr \<Rightarrow> nfs \<Rightarrow> (dres \<times> nfs) option" where
  "fh_accept current br igen d s =
     fh_unlock current br
       (if \<not> nd_digen_test (nf_world s) d \<and> nd_igeneration (wo_dentry (nf_world s) d) = igen then Inr (Some d)
        else Inl (- ESTALE)) s"

text \<open>The branch id is cut to the eight bits of \<open>aufs_bindex_t\<close>.\<close>

definition aufs_fh_to_dentry :: "nfs_env \<Rightarrow> pid \<Rightarrow> u32 list \<Rightarrow> int \<Rightarrow> nfs \<Rightarrow> (dres \<times> nfs) option" where
  "aufs_fh_to_dentry env current fh fh_len s =
     (if fh_len < Fh_tail then Some (Inl (- ESTALE), s)
      else
        Option.bind (arr_get fh Fh_sigen) (\<lambda>sigen.
        Option.bind (arr_get fh Fh_br_id) (\<lambda>br_id.
        Option.bind (si_nfsd_read_lock current
          \<lparr>ns_sigen = sigen, ns_bindex = 0, ns_br_id = sint (ucast br_id :: 8 word), ns_force_lock = False\<rparr> s) (\<lambda>(err, nsi0, s1).
        if err \<noteq> 0 then Some (Inl (- ESTALE), s1)
        else
          let nsi = nsi0\<lparr>ns_force_lock := True\<rparr> in
          Option.bind (decode_ino fh Fh_ino) (\<lambda>ino.
          if ino = AUFS_ROOT_INO then Some (Inl (- ESTALE), s1)
          else
            Option.bind (decode_ino fh Fh_dir_ino) (\<lambda>dir_ino.
            Option.bind (arr_get fh Fh_igen) (\<lambda>igen.
            case decode_by_ino (nf_world s1) ino dir_ino of
              Inl e \<Rightarrow> fh_unlock current None (Inl e) s1
            | Inr (Some d) \<Rightarrow> fh_accept current None igen d s1
            | Inr None \<Rightarrow>
                Option.bind (au_sbr (wo_sbi (nf_world s1)) (ns_bindex nsi)) (\<lambda>br.
                let b = au_branch.br_id br;
                    s2 = s1\<lparr>nf_count := (nf_count s1)(b := nf_count s1 b + 1)\<rparr>
                in Option.bind (decode_by_dir_ino env current ino dir_ino nsi s2) (\<lambda>(r, nsi3, s3).
                   case r of
                     Inl e \<Rightarrow> fh_unlock current (Some b) (Inl e) s3
                   | Inr (Some d) \<Rightarrow> fh_accept current (Some b) igen d s3
                   | Inr None \<Rightarrow>
                       Option.bind (decode_by_path env current ino fh fh_len nsi3 s3) (\<lambda>(r', nsi4, s4).
                       case r' of
                         Inl e \<Rightarrow> fh_unlock current (Some b) (Inl e) s4
                       | Inr None \<Rightarrow> fh_unlock current (Some b) (Inr None) s4
                       | Inr (Some d) \<Rightarrow> fh_accept current (Some b) igen d s4))))))))))"

section \<open>Dentry to handle\<close>



section \<open>The lock and the uses of branches\<close>

definition taken :: "pid \<Rightarrow> si_lock \<Rightarrow> si_lock" where
  "taken current l = l\<lparr>si_rwsem := au_rw_read_lock (si_rwsem l), si_pid := insert current (si_pid l)\<rparr>"

definition worlds_wf :: "nfs \<Rightarrow> bool" where
  "worlds_wf s \<longleftrightarrow> (\<forall>w \<in> set (nf_world s # nf_later s). sbi_wf (wo_sbi w))"

text \<open>In the middle of an operation that found the lock \<open>l\<close>, with the uses \<open>cnt\<close>.\<close>

definition busy :: "pid \<Rightarrow> si_lock \<Rightarrow> (bindex \<Rightarrow> int) \<Rightarrow> nfs \<Rightarrow> bool" where
  "busy current l cnt s \<longleftrightarrow> current \<notin> si_pid l \<and> nf_lock s = taken current l \<and> nf_count s = cnt \<and> worlds_wf s"

definition nsi_ok :: "au_nfsd_si_lock \<Rightarrow> nfs \<Rightarrow> bool" where
  "nsi_ok nsi s \<longleftrightarrow> ns_force_lock nsi \<and> au_sbr (wo_sbi (nf_world s)) (ns_bindex nsi) \<noteq> None"

lemma nfs_lock_ok:
  assumes "current \<notin> si_pid (nf_lock s)"
  shows "nfs_lock current s = Some (nfs_locked (taken current (nf_lock s)) s)"
  using assms by (simp add: nfs_lock_def si_noflush_read_lock_def si_pid_set_def taken_def)

lemma nfs_locked_busy:
  assumes "current \<notin> si_pid (nf_lock s)" and "worlds_wf s"
  shows "busy current (nf_lock s) (nf_count s) (nfs_locked (taken current (nf_lock s)) s)"
  using assms by (cases "nf_later s") (auto simp: nfs_locked_def busy_def worlds_wf_def)

lemma nfs_unlock_ok: "busy current l cnt s \<Longrightarrow> nfs_unlock current s = Some (s\<lparr>nf_lock := l\<rparr>)"
  by (simp add: busy_def nfs_unlock_def si_read_unlock_def si_pid_clr_def taken_def au_rw_read_unlock_def au_rw_read_lock_def)

lemma si_nfsd_read_lock_ok:
  assumes free: "current \<notin> si_pid (nf_lock s)" and wf: "worlds_wf s"
  shows "\<exists>err nsi' s'. si_nfsd_read_lock current nsi s = Some (err, nsi', s') \<and> ns_force_lock nsi' = ns_force_lock nsi
    \<and> err \<le> 0 \<and> (err = 0 \<longrightarrow> au_sbr (wo_sbi (nf_world s')) (ns_bindex nsi') \<noteq> None)
    \<and> (if err = 0 \<or> ns_force_lock nsi then busy current (nf_lock s) (nf_count s) s'
       else nf_lock s' = nf_lock s \<and> nf_count s' = nf_count s)"
proof -
  let ?s1 = "nfs_locked (taken current (nf_lock s)) s"
  let ?sbi = "wo_sbi (nf_world ?s1)"
  have b: "busy current (nf_lock s) (nf_count s) ?s1" by (rule nfs_locked_busy [OF free wf])
  then have "sbi_wf ?sbi" by (simp add: busy_def worlds_wf_def)
  then obtain i where i: "au_br_index ?sbi (ns_br_id nsi) = Some i" "0 \<le> i \<longrightarrow> au_sbr_id ?sbi i = Some (ns_br_id nsi)"
    using au_br_index_spec by blast
  show ?thesis
  proof (cases "0 \<le> i \<and> au_sigen ?sbi < ns_sigen nsi + of_int AUFS_BRANCH_MAX")
    case True
    then have "au_sbr ?sbi i \<noteq> None" using i(2) by (auto simp: au_sbr_id_def)
    then show ?thesis using True i(1) b by (simp add: si_nfsd_read_lock_def nfs_lock_ok [OF free] Let_def)
  next
    case False
    have u: "nfs_unlock current ?s1 = Some (?s1\<lparr>nf_lock := nf_lock s\<rparr>)" by (rule nfs_unlock_ok [OF b])
    show ?thesis using False i(1) b u
      by (auto simp: si_nfsd_read_lock_def nfs_lock_ok [OF free] Let_def busy_def)
  qed
qed

lemma relock_ok:
  assumes "current \<notin> si_pid (nf_lock s)" and "worlds_wf s" and "ns_force_lock nsi"
  shows "\<exists>r' nsi' s'. relock current r nsi s = Some (r', nsi', s') \<and> busy current (nf_lock s) (nf_count s) s'
    \<and> (isl r' \<or> r' = r \<and> nsi_ok nsi' s')"
proof -
  obtain err nsi' s' where r: "si_nfsd_read_lock current nsi s = Some (err, nsi', s')" "ns_force_lock nsi' = ns_force_lock nsi"
    "err \<le> 0" "err = 0 \<longrightarrow> au_sbr (wo_sbi (nf_world s')) (ns_bindex nsi') \<noteq> None"
    "busy current (nf_lock s) (nf_count s) s'"
    using si_nfsd_read_lock_ok [OF assms(1,2), of nsi] assms(3) by (auto simp: assms(3))
  then show ?thesis using assms(3) by (cases "err = 0") (auto simp: relock_def nsi_ok_def)
qed

lemma release_relock:
  assumes "busy current l cnt s" and "ns_force_lock nsi"
  shows "\<exists>r' nsi' s'. Option.bind (nfs_unlock current s) (relock current r nsi) = Some (r', nsi', s')
    \<and> busy current l cnt s' \<and> (isl r' \<or> r' = r \<and> nsi_ok nsi' s')"
  using relock_ok [of current "s\<lparr>nf_lock := l\<rparr>" nsi r] assms nfs_unlock_ok [OF assms(1)]
  by (auto simp: busy_def worlds_wf_def)

lemma decode_by_dir_ino_ok:
  assumes "busy current l cnt s" and "nsi_ok nsi s"
  shows "\<exists>r nsi' s'. decode_by_dir_ino env current ino dir_ino nsi s = Some (r, nsi', s') \<and> busy current l cnt s'
    \<and> (isl r \<or> nsi_ok nsi' s')"
proof -
  have f: "ns_force_lock nsi" using assms(2) by (simp add: nsi_ok_def)
  show ?thesis using assms release_relock [OF assms(1) f]
    unfolding decode_by_dir_ino_def au_lkup_by_ino_def
    by (fastforce split: sum.splits option.splits)
qed

lemma decode_by_path_ok:
  assumes "busy current l cnt s" and "nsi_ok nsi s" and "6 \<le> length fh"
  shows "\<exists>r nsi' s'. decode_by_path env current ino fh fh_len nsi s = Some (r, nsi', s') \<and> busy current l cnt s'"
proof -
  have f: "ns_force_lock nsi" using assms(2) by (simp add: nsi_ok_def)
  obtain br where br: "au_sbr (wo_sbi (nf_world s)) (ns_bindex nsi) = Some br" using assms(2) by (auto simp: nsi_ok_def)
  have t: "arr_get fh Fh_h_type = Some (fh ! 5)" using assms(3) by (simp add: arr_get_def Fh_h_type_def)
  obtain r nsi' s' where "Option.bind (nfs_unlock current s) (relock current (lkup_by_path env ino) nsi) = Some (r, nsi', s')"
    "busy current l cnt s'"
    using release_relock [OF assms(1) f] by blast
  then show ?thesis using assms(1) br t by (auto simp: decode_by_path_def split: sum.splits option.splits)
qed

lemma fh_unlock_ok:
  assumes "busy current l cnt s" and "cnt = (case br of None \<Rightarrow> cnt0 | Some b \<Rightarrow> cnt0(b := cnt0 b + 1))"
  shows "\<exists>s'. fh_unlock current br r s = Some (r, s') \<and> nf_lock s' = l \<and> nf_count s' = cnt0 \<and> nf_world s' = nf_world s"
proof (cases br)
  case None
  then show ?thesis using assms nfs_unlock_ok [OF assms(1)] by (simp add: fh_unlock_def busy_def)
next
  case (Some b)
  let ?s = "s\<lparr>nf_count := (nf_count s)(b := nf_count s b - 1)\<rparr>"
  have "busy current l (cnt(b := cnt b - 1)) ?s" using assms(1) by (simp add: busy_def worlds_wf_def)
  from nfs_unlock_ok [OF this] show ?thesis using assms Some by (simp add: fh_unlock_def busy_def)
qed

definition fh_result_ok :: "si_lock \<Rightarrow> (bindex \<Rightarrow> int) \<Rightarrow> u32 \<Rightarrow> (dres \<times> nfs) option \<Rightarrow> bool" where
  "fh_result_ok l cnt igen x \<longleftrightarrow> (\<exists>r s'. x = Some (r, s') \<and> nf_lock s' = l \<and> nf_count s' = cnt
     \<and> (\<forall>d. r = Inr (Some d) \<longrightarrow> \<not> nd_digen_test (nf_world s') d \<and> nd_igeneration (wo_dentry (nf_world s') d) = igen))"

lemma fh_unlock_result:
  assumes "busy current l cnt s" and "cnt = (case br of None \<Rightarrow> cnt0 | Some b \<Rightarrow> cnt0(b := cnt0 b + 1))"
    and "\<forall>d. r = Inr (Some d) \<longrightarrow> \<not> nd_digen_test (nf_world s) d \<and> nd_igeneration (wo_dentry (nf_world s) d) = igen"
  shows "fh_result_ok l cnt0 igen (fh_unlock current br r s)"
proof -
  obtain s' where "fh_unlock current br r s = Some (r, s')" "nf_lock s' = l" "nf_count s' = cnt0" "nf_world s' = nf_world s"
    using fh_unlock_ok [OF assms(1,2)] by blast
  then show ?thesis using assms(3) by (simp add: fh_result_ok_def)
qed

lemma fh_accept_result:
  assumes "busy current l cnt s" and "cnt = (case br of None \<Rightarrow> cnt0 | Some b \<Rightarrow> cnt0(b := cnt0 b + 1))"
  shows "fh_result_ok l cnt0 igen (fh_accept current br igen d s)"
  unfolding fh_accept_def by (rule fh_unlock_result [OF assms]) auto

lemma handle_fields:
  assumes "6 \<le> length fh"
  shows "arr_get fh Fh_br_id = Some (fh ! 0)" "arr_get fh Fh_sigen = Some (fh ! 1)" "decode_ino fh Fh_ino = Some (fh ! 2)"
    "decode_ino fh Fh_dir_ino = Some (fh ! 3)" "arr_get fh Fh_igen = Some (fh ! 4)" "arr_get fh Fh_h_type = Some (fh ! 5)"
  using assms by (auto simp: fh_defs arr_get_def decode_ino_def)

text \<open>After the lock was taken, with a handle that does not name the root.\<close>

lemma fh_to_dentry_locked:
  assumes fh_len: "\<not> fh_len < Fh_tail" and len: "6 \<le> length fh" and nr: "fh ! 2 \<noteq> AUFS_ROOT_INO"
    and lk: "si_nfsd_read_lock current \<lparr>ns_sigen = fh ! 1, ns_bindex = 0, ns_br_id = sint (ucast (fh ! 0) :: 8 word), ns_force_lock = False\<rparr> s
        = Some (0, nsi1, s1)"
      "au_sbr (wo_sbi (nf_world s1)) (ns_bindex nsi1) \<noteq> None"
    and b1: "busy current l cnt s1"
  shows "fh_result_ok l cnt (fh ! 4) (aufs_fh_to_dentry env current fh fh_len s)"
proof -
  note get = handle_fields [OF len]
  obtain br where br: "au_sbr (wo_sbi (nf_world s1)) (ns_bindex nsi1) = Some br" using lk(2) by auto
  let ?b = "au_branch.br_id br"
  let ?c2 = "cnt(?b := cnt ?b + 1)" and ?s2 = "s1\<lparr>nf_count := (nf_count s1)(?b := nf_count s1 ?b + 1)\<rparr>"
  let ?nsi1 = "nsi1\<lparr>ns_force_lock := True\<rparr>"
  have b2: "busy current l ?c2 ?s2" using b1 by (simp add: busy_def worlds_wf_def)
  have n2: "nsi_ok ?nsi1 ?s2" using br by (simp add: nsi_ok_def)
  obtain r3 nsi3 s3 where d3: "decode_by_dir_ino env current (fh ! 2) (fh ! 3) ?nsi1 ?s2 = Some (r3, nsi3, s3)"
    "busy current l ?c2 s3" "isl r3 \<or> nsi_ok nsi3 s3"
    using decode_by_dir_ino_ok [OF b2 n2] by blast
  have base: "aufs_fh_to_dentry env current fh fh_len s =
      (case decode_by_ino (nf_world s1) (fh ! 2) (fh ! 3) of
         Inl e \<Rightarrow> fh_unlock current None (Inl e) s1
       | Inr (Some d) \<Rightarrow> fh_accept current None (fh ! 4) d s1
       | Inr None \<Rightarrow> (case r3 of
           Inl e \<Rightarrow> fh_unlock current (Some ?b) (Inl e) s3
         | Inr (Some d) \<Rightarrow> fh_accept current (Some ?b) (fh ! 4) d s3
         | Inr None \<Rightarrow> Option.bind (decode_by_path env current (fh ! 2) fh fh_len nsi3 s3) (\<lambda>(r', nsi4, s4).
             case r' of
               Inl e \<Rightarrow> fh_unlock current (Some ?b) (Inl e) s4
             | Inr None \<Rightarrow> fh_unlock current (Some ?b) (Inr None) s4
             | Inr (Some d) \<Rightarrow> fh_accept current (Some ?b) (fh ! 4) d s4)))"
    using fh_len get lk(1) nr br d3(1) by (simp add: aufs_fh_to_dentry_def Let_def split: sum.split option.split)
  show ?thesis
  proof (cases "decode_by_ino (nf_world s1) (fh ! 2) (fh ! 3) = Inr None")
    case cached: False
    then show ?thesis unfolding base
      by (auto intro!: fh_unlock_result [OF b1] fh_accept_result [OF b1] split: sum.split option.split)
  next
    case nc: True
    show ?thesis
    proof (cases "r3 = Inr None")
      case found: False
      then show ?thesis unfolding base nc
        by (auto intro!: fh_unlock_result [OF d3(2)] fh_accept_result [OF d3(2)] split: sum.split option.split)
    next
      case True
      then have "nsi_ok nsi3 s3" using d3(3) by auto
      then obtain r4 nsi4 s4 where d4: "decode_by_path env current (fh ! 2) fh fh_len nsi3 s3 = Some (r4, nsi4, s4)" "busy current l ?c2 s4"
        using decode_by_path_ok [OF d3(2) _ len] by blast
      show ?thesis unfolding base nc True
        by (auto simp: d4(1) intro!: fh_unlock_result [OF d4(2)] fh_accept_result [OF d4(2)] split: sum.split option.split)
    qed
  qed
qed

text \<open>
  C38: what \<open>aufs_fh_to_dentry\<close> leaves behind, for every handle and on every path: cached or not, with the
  branches changed whenever the lock was not held. The uses of the branches are as before, and so is the
  lock of the superblock but for one exit: a handle with the inode number of the root, of a branch that
  exists, is refused with \<open>ESTALE\<close> and the read lock stays taken. A dentry that is returned has
  the current generation and the inode generation of the handle.
\<close>

theorem aufs_fh_to_dentry_balanced:
  assumes free: "current \<notin> si_pid (nf_lock s)" and wf: "worlds_wf s" and len: "6 \<le> length fh"
  shows "\<exists>r s'. aufs_fh_to_dentry env current fh fh_len s = Some (r, s') \<and> nf_count s' = nf_count s
    \<and> (nf_lock s' = nf_lock s
        \<or> decode_ino fh Fh_ino = Some AUFS_ROOT_INO \<and> r = Inl (- ESTALE) \<and> nf_lock s' = taken current (nf_lock s))
    \<and> (\<forall>d. r = Inr (Some d) \<longrightarrow> \<not> nd_digen_test (nf_world s') d
          \<and> Some (nd_igeneration (wo_dentry (nf_world s') d)) = arr_get fh Fh_igen)"
proof (cases "fh_len < Fh_tail")
  case True
  then show ?thesis by (simp add: aufs_fh_to_dentry_def)
next
  case False
  note get = handle_fields [OF len]
  let ?nsi = "\<lparr>ns_sigen = fh ! 1, ns_bindex = 0, ns_br_id = sint (ucast (fh ! 0) :: 8 word), ns_force_lock = False\<rparr>"
  obtain err nsi1 s1 where lk: "si_nfsd_read_lock current ?nsi s = Some (err, nsi1, s1)"
    "err = 0 \<longrightarrow> au_sbr (wo_sbi (nf_world s1)) (ns_bindex nsi1) \<noteq> None"
    "if err = 0 then busy current (nf_lock s) (nf_count s) s1 else nf_lock s1 = nf_lock s \<and> nf_count s1 = nf_count s"
    using si_nfsd_read_lock_ok [OF free wf, of ?nsi] by auto
  show ?thesis
  proof (cases "fh ! 2 = AUFS_ROOT_INO \<or> err \<noteq> 0")
    case True
    have "aufs_fh_to_dentry env current fh fh_len s = Some (Inl (- ESTALE), s1)"
      using False get lk(1) True by (auto simp: aufs_fh_to_dentry_def Let_def)
    then show ?thesis using lk(3) get(3) True by (cases "err = 0") (simp_all add: busy_def)
  next
    case nr: False
    then have "fh_result_ok (nf_lock s) (nf_count s) (fh ! 4) (aufs_fh_to_dentry env current fh fh_len s)"
      using lk by (intro fh_to_dentry_locked [OF False len]) simp_all
    then show ?thesis unfolding fh_result_ok_def using get(5) by simp blast
  qed
qed

text \<open>
  C39: a handle with the number of the root keeps the lock: it is refused with \<open>ESTALE\<close>, but the read lock
  of the superblock stays. No writer can lock any more, and the next handle this thread decodes
  finds the lock already taken, a fault.
\<close>

theorem root_handle_keeps_lock:
  assumes free: "current \<notin> si_pid (nf_lock s)" and later: "nf_later s = []" and len: "6 \<le> fh_len" "6 \<le> length fh"
    and root: "decode_ino fh Fh_ino = Some AUFS_ROOT_INO"
    and br: "au_br_index (wo_sbi (nf_world s)) (sint (ucast (fh ! 0) :: 8 word)) = Some b" "0 \<le> b"
    and gen: "au_sigen (wo_sbi (nf_world s)) < fh ! 1 + of_int AUFS_BRANCH_MAX"
  shows "\<exists>s'. aufs_fh_to_dentry env current fh fh_len s = Some (Inl (- ESTALE), s')
    \<and> \<not> rw_may_write (si_rwsem (nf_lock s'))
    \<and> (\<forall>env' fh'. 6 \<le> length fh' \<longrightarrow> aufs_fh_to_dentry env' current fh' fh_len s' = None)"
proof -
  let ?s = "s\<lparr>nf_lock := taken current (nf_lock s)\<rparr>"
  have lk: "nfs_lock current s = Some ?s" using nfs_lock_ok [OF free] later by (simp add: nfs_locked_def)
  have get: "arr_get fh Fh_br_id = Some (fh ! 0)" "arr_get fh Fh_sigen = Some (fh ! 1)"
    using len(2) by (auto simp: fh_defs arr_get_def)
  have run: "aufs_fh_to_dentry env current fh fh_len s = Some (Inl (- ESTALE), ?s)"
    using get lk br gen root len(1)
    by (simp add: aufs_fh_to_dentry_def si_nfsd_read_lock_def Let_def Fh_tail_def)
  have again: "nfs_lock current ?s = None"
    by (simp add: nfs_lock_def si_noflush_read_lock_def si_pid_set_def taken_def)
  have "aufs_fh_to_dentry env' current fh' fh_len ?s = None" if "6 \<le> length fh'" for env' fh'
    using that again len(1)
    by (auto simp: aufs_fh_to_dentry_def si_nfsd_read_lock_def Fh_tail_def bind_eq_None_conv)
  moreover have "\<not> rw_may_write (si_rwsem (nf_lock ?s))"
    by (simp add: taken_def rw_may_write_def au_rw_read_lock_def)
  ultimately show ?thesis using run by blast
qed

section \<open>Encode and decode\<close>

lemma br_id_handle:
  assumes "0 < b" and "b \<le> AUFS_BRANCH_MAX"
  shows "sint (ucast (of_int b :: u32) :: 8 word) = b"
proof -
  have "uint (of_int b :: u32) = b"
    using assms by (simp add: unsigned_of_int take_bit_int_eq_self AUFS_BRANCH_MAX_def)
  then have "(ucast (of_int b :: u32) :: 8 word) = of_int b" by (simp add: ucast_eq)
  moreover have "sint (of_int b :: 8 word) = b"
    using assms by (simp add: signed_of_int signed_take_bit_int_eq_self AUFS_BRANCH_MAX_def)
  ultimately show ?thesis by simp
qed










section \<open>Witnesses\<close>

text \<open>The file 12 in the directory 11, cached as dentry 1, in the second branch of the example.\<close>

definition nfs_example :: nfs where
  "nfs_example =
     \<lparr>nf_lock = \<lparr>si_rwsem = au_rw_init, si_pid = {}, si_plink_maint_pid = 0\<rparr>, nf_count = (\<lambda>_. 0),
      nf_world = \<lparr>wo_sbi = example_sbinfo,
        wo_inode = (\<lambda>i. if i = 12 then Some \<lparr>ni_bad = False, ni_deaddir = False, ni_iigen = au_sigen example_sbinfo,
           ni_isdir = False, ni_alias = None, ni_aliases = [0, 1]\<rparr> else None),
        wo_dentry = (\<lambda>d. \<lparr>nd_anon = d = 0, nd_parent = 11, nd_digen = au_sigen example_sbinfo,
           nd_iigen = au_sigen example_sbinfo, nd_igeneration = 7\<rparr>),
        wo_root = 9\<rparr>, nf_later = []\<rparr>"


definition nfs_env_example :: nfs_env where
  "nfs_env_example = \<lparr>ne_open = (\<lambda>_. 0), ne_page = True, ne_readdir = (\<lambda>_. []), ne_lookup = (\<lambda>_ _. Inr None),
     ne_decode_fh = (\<lambda>_ _ _. Inr None), ne_h_anon = False, ne_build_path = 0, ne_kern_path = Inl (- ENOENT)\<rparr>"

lemma nfs_example_ok:
  "3 \<notin> si_pid (nf_lock nfs_example)" "nf_later nfs_example = []" "worlds_wf nfs_example"
  "wo_sbi (nf_world nfs_example) = example_sbinfo"
  using example_sbinfo_wf by (auto simp: nfs_example_def worlds_wf_def)


lemma example_sigen: "au_sigen example_sbinfo = 0"
  by (simp add: au_sigen_def example_sbinfo_def au_si_alloc_def Let_def)

theorem aufs_fh_to_dentry_balanced_witness:
  "\<exists>r s'. aufs_fh_to_dentry nfs_env_example 3 [2, 1, 13, 11, 7, 1] 6 nfs_example = Some (r, s')
    \<and> nf_lock s' = nf_lock nfs_example \<and> nf_count s' = nf_count nfs_example"
proof -
  have "decode_ino [2, 1, 13, 11, 7, 1] Fh_ino \<noteq> Some AUFS_ROOT_INO"
    by (simp add: decode_ino_def arr_get_def Fh_ino_def AUFS_ROOT_INO_def)
  then show ?thesis
    using aufs_fh_to_dentry_balanced [OF nfs_example_ok(1,3), of "[2, 1, 13, 11, 7, 1]" nfs_env_example 6] by auto
qed







theorem root_handle_keeps_lock_witness:
  "\<exists>s'. aufs_fh_to_dentry nfs_env_example 3 [2, 0, 2, 0, 0, 0] 6 nfs_example = Some (Inl (- ESTALE), s')
    \<and> \<not> rw_may_write (si_rwsem (nf_lock s'))"
proof -
  have root: "decode_ino [2, 0, 2, 0, 0, 0] Fh_ino = Some AUFS_ROOT_INO"
    by (simp add: decode_ino_def arr_get_def Fh_ino_def AUFS_ROOT_INO_def)
  have br: "au_br_index (wo_sbi (nf_world nfs_example)) (sint (ucast ([2, 0, 2, 0, 0, 0] ! 0 :: u32) :: 8 word)) = Some 1"
    using br_id_handle [of 2] example_br_index nfs_example_ok(4) by (simp add: AUFS_BRANCH_MAX_def)
  have gen: "au_sigen (wo_sbi (nf_world nfs_example)) < [2, 0, 2, 0, 0, 0] ! 1 + of_int AUFS_BRANCH_MAX"
    using example_sigen nfs_example_ok(4) by (simp add: AUFS_BRANCH_MAX_def)
  have l: "(6 :: int) \<le> 6" "6 \<le> length [2, 0, 2, 0, 0, 0 :: u32]" "(0 :: int) \<le> 1" by simp_all
  from root_handle_keeps_lock [OF nfs_example_ok(1,2) l(1,2) root br l(3) gen, of nfs_env_example] show ?thesis by blast
qed

end
