(* ===== verification/Lower_Fs.thy ===== *)
theory Lower_Fs
  imports Lookup Fstype
begin

text \<open>
  The lower file systems as an aufs operation changes them (\<open>vfsub.c\<close>, \<open>vfsub.h\<close>): which dentry each
  name of a directory has, which \<open>i_mutex\<close> is held, how often the write access to a branch is taken, and what the next allocations answer.
  What the VFS answers and does is a parameter; \<open>IMustLock\<close> of a mutex that is not held is the fault.
  The refresh of the attributes of a remote file (\<open>vfsub_update_h_iattr\<close>) only touches attributes that
  are not part of the state, and its error is ignored.
\<close>

section \<open>State and kernel\<close>

type_synonym names = "dptr \<Rightarrow> u8 list \<Rightarrow> dptr"

record lower =
  lw_v :: vfs
  lw_names :: names
  lw_parent :: "dptr \<Rightarrow> dptr"
  lw_dname :: "dptr \<Rightarrow> u8 list"
  lw_mutex :: "iptr set"
  lw_write :: "bindex \<Rightarrow> int"
  lw_mem :: mem_oracle

text \<open>The requests to the VFS; a link names the existing dentry, a renaming the dentry and its directory.\<close>

datatype vfs_req = Rq_create int | Rq_symlink string | Rq_mknod int int | Rq_link dptr | Rq_mkdir int
  | Rq_rename dptr dptr | Rq_rmdir | Rq_unlink

text \<open>
  \<open>kn_security\<close>: the security hook. \<open>kn_vfs rq dir d\<close>: the call itself, for the dentry \<open>d\<close> in a directory.
  \<open>kn_iattr\<close>: the number, owner, group, version and type of an inode. \<open>kn_sticky\<close>: \<open>S_ISVTX\<close>;
  \<open>kn_owned\<close>: the owner is the caller; \<open>kn_linkable\<close>: \<open>i_op->link\<close> is set; \<open>kn_immutable\<close>: \<open>IS_IMMUTABLE\<close>. \<open>kn_perm_sio\<close>: \<open>au_test_h_perm_sio(h_dir, MAY_EXEC | MAY_WRITE)\<close>, \<open>kn_perm\<close> the same
  without the shortcut for the super user. \<open>kn_want_write\<close>: \<open>mnt_want_write\<close> of the branch with an id.
\<close>

record kern =
  kn_cfg :: kconfig
  kn_magics :: magics
  kn_super :: "nat \<Rightarrow> h_super"
  kn_lkup :: "lower \<Rightarrow> lkup_env"
  kn_security :: "vfs_req \<Rightarrow> dptr \<Rightarrow> lower \<Rightarrow> int"
  kn_vfs :: "vfs_req \<Rightarrow> dptr \<Rightarrow> dptr \<Rightarrow> lower \<Rightarrow> int \<times> lower"
  kn_perm_sio :: "dptr \<Rightarrow> lower \<Rightarrow> int"
  kn_perm :: "dptr \<Rightarrow> lower \<Rightarrow> int"
  kn_want_write :: "bindex \<Rightarrow> lower \<Rightarrow> int"
  kn_wkq :: "lower \<Rightarrow> int"
  kn_iattr :: "lower \<Rightarrow> iptr \<Rightarrow> int list"
  kn_nfsd :: bool
  kn_sticky :: "lower \<Rightarrow> iptr \<Rightarrow> bool"
  kn_owned :: "lower \<Rightarrow> iptr \<Rightarrow> bool"
  kn_linkable :: "lower \<Rightarrow> iptr \<Rightarrow> bool"
  kn_immutable :: "lower \<Rightarrow> iptr \<Rightarrow> bool"

definition d_ino :: "lower \<Rightarrow> dptr \<Rightarrow> iptr option option" where
  "d_ino L d = map_option d_inode (dents (lw_v L) d)"

text \<open>The inode of a directory of which the mutex must be held.\<close>

definition IMustLock :: "lower \<Rightarrow> dptr \<Rightarrow> iptr option" where
  "IMustLock L dir =
     Option.bind (d_ino L dir) (\<lambda>i. Option.bind i (\<lambda>i. if i \<in> lw_mutex L then Some i else None))"

definition mutex_lock :: "iptr \<Rightarrow> lower \<Rightarrow> lower option" where
  "mutex_lock i L = (if i \<in> lw_mutex L then None else Some (L\<lparr>lw_mutex := insert i (lw_mutex L)\<rparr>))"
definition mutex_unlock :: "iptr \<Rightarrow> lower \<Rightarrow> lower option" where
  "mutex_unlock i L = (if i \<in> lw_mutex L then Some (L\<lparr>lw_mutex := lw_mutex L - {i}\<rparr>) else None)"

section \<open>The wrappers\<close>

definition vfsub_lkup_one :: "kern \<Rightarrow> u8 list \<Rightarrow> dptr \<Rightarrow> lower \<Rightarrow> ((int + dptr) \<times> lower) option" where
  "vfsub_lkup_one k name h_parent L =
     Option.bind (IMustLock L h_parent) (\<lambda>_.
     map_option (\<lambda>(r, v). (r, L\<lparr>lw_v := v\<rparr>)) (lkup_one (kn_lkup k L) False h_parent name (lw_v L)))"

definition vfsub_call :: "kern \<Rightarrow> vfs_req \<Rightarrow> dptr \<Rightarrow> dptr \<Rightarrow> lower \<Rightarrow> (int \<times> lower) option" where
  "vfsub_call k rq h_dir d L =
     Option.bind (IMustLock L h_dir) (\<lambda>_.
     let err = kn_security k rq d L
     in if err \<noteq> 0 then Some (err, L) else Some (kn_vfs k rq h_dir d L))"

definition vfsub_create :: "kern \<Rightarrow> int \<Rightarrow> dptr \<Rightarrow> dptr \<Rightarrow> lower \<Rightarrow> (int \<times> lower) option" where
  "vfsub_create k mode h_dir d L = vfsub_call k (Rq_create mode) h_dir d L"
definition vfsub_symlink :: "kern \<Rightarrow> string \<Rightarrow> dptr \<Rightarrow> dptr \<Rightarrow> lower \<Rightarrow> (int \<times> lower) option" where
  "vfsub_symlink k symname h_dir d L = vfsub_call k (Rq_symlink symname) h_dir d L"
definition vfsub_mknod :: "kern \<Rightarrow> int \<Rightarrow> int \<Rightarrow> dptr \<Rightarrow> dptr \<Rightarrow> lower \<Rightarrow> (int \<times> lower) option" where
  "vfsub_mknod k mode dev h_dir d L = vfsub_call k (Rq_mknod mode dev) h_dir d L"
definition vfsub_mkdir :: "kern \<Rightarrow> int \<Rightarrow> dptr \<Rightarrow> dptr \<Rightarrow> lower \<Rightarrow> (int \<times> lower) option" where
  "vfsub_mkdir k mode h_dir d L = vfsub_call k (Rq_mkdir mode) h_dir d L"
definition vfsub_rmdir :: "kern \<Rightarrow> dptr \<Rightarrow> dptr \<Rightarrow> lower \<Rightarrow> (int \<times> lower) option" where
  "vfsub_rmdir k h_dir d L = vfsub_call k Rq_rmdir h_dir d L"

text \<open>\<open>au_test_nlink\<close>: where the file system has no limit of links, a margin is kept.\<close>

definition au_test_nlink :: "kern \<Rightarrow> h_inode \<Rightarrow> int" where
  "au_test_nlink k x =
     (if \<not> au_test_fs_no_limit_nlink (kn_cfg k) (kn_magics k) (kn_super k (i_hsb x)) \<or> i_nlink x < 0x7fffffff
      then 0 else - EMLINK)"

definition vfsub_link :: "kern \<Rightarrow> dptr \<Rightarrow> dptr \<Rightarrow> dptr \<Rightarrow> lower \<Rightarrow> (int \<times> lower) option" where
  "vfsub_link k src h_dir d L =
     Option.bind (IMustLock L h_dir) (\<lambda>_.
     Option.bind (d_ino L src) (\<lambda>si. Option.bind si (\<lambda>i. Option.bind (inos (lw_v L) i) (\<lambda>x.
     let err = au_test_nlink k x
     in if err \<noteq> 0 then Some (err, L) else vfsub_call k (Rq_link src) h_dir d L))))"

definition vfsub_rename :: "kern \<Rightarrow> dptr \<Rightarrow> dptr \<Rightarrow> dptr \<Rightarrow> dptr \<Rightarrow> lower \<Rightarrow> (int \<times> lower) option" where
  "vfsub_rename k src_dir src dir d L =
     Option.bind (IMustLock L src_dir) (\<lambda>_. vfsub_call k (Rq_rename src src_dir) dir d L)"

text \<open>
  \<open>vfsub_unlink\<close>: the dentry and its inode are kept during the call, so that the dentry stays positive,
  except for a dentry of NFS with one reference; \<open>force\<close> lets a kernel worker do it.
\<close>

definition call_unlink :: "kern \<Rightarrow> dptr \<Rightarrow> dptr \<Rightarrow> lower \<Rightarrow> (int \<times> lower) option" where
  "call_unlink k h_dir d L =
     Option.bind (dents (lw_v L) d) (\<lambda>x.
     let stop_sillyrename = au_test_nfs (kn_cfg k) (kn_magics k) (kn_super k (d_hsb x)) \<and> d_count x = 1;
         err = kn_security k Rq_unlink d L
     in Option.bind (IMustLock L h_dir) (\<lambda>_.
     if err \<noteq> 0 then Some (err, L)
     else
       Option.bind (if stop_sillyrename then Some (lw_v L) else get_dentry d (lw_v L)) (\<lambda>v1.
       Option.bind (opt_put get_inode (d_inode x) v1) (\<lambda>v2.
       let (err, L') = kn_vfs k Rq_unlink h_dir d (L\<lparr>lw_v := v2\<rparr>)
       in Option.bind (if stop_sillyrename then Some (lw_v L') else put_dentry d (lw_v L')) (\<lambda>v3.
          map_option (\<lambda>v4. (err, L'\<lparr>lw_v := v4\<rparr>)) (iput (d_inode x) v3))))))"

definition vfsub_unlink :: "kern \<Rightarrow> dptr \<Rightarrow> dptr \<Rightarrow> bool \<Rightarrow> lower \<Rightarrow> (int \<times> lower) option" where
  "vfsub_unlink k h_dir d force L =
     (if force \<and> kn_wkq k L \<noteq> 0 then Some (kn_wkq k L, L) else call_unlink k h_dir d L)"

definition vfsub_sio_mkdir :: "kern \<Rightarrow> int \<Rightarrow> dptr \<Rightarrow> dptr \<Rightarrow> lower \<Rightarrow> (int \<times> lower) option" where
  "vfsub_sio_mkdir k mode h_dir d L =
     (if kn_perm_sio k h_dir L \<noteq> 0 \<and> kn_wkq k L \<noteq> 0 then Some (kn_wkq k L, L)
      else vfsub_mkdir k mode h_dir d L)"

definition vfsub_sio_rmdir :: "kern \<Rightarrow> dptr \<Rightarrow> dptr \<Rightarrow> lower \<Rightarrow> (int \<times> lower) option" where
  "vfsub_sio_rmdir k h_dir d L =
     (if kn_perm_sio k h_dir L \<noteq> 0 \<and> kn_wkq k L \<noteq> 0 then Some (kn_wkq k L, L)
      else vfsub_rmdir k h_dir d L)"

end
