(* ===== verification/Whout_Ops.thy ===== *)
theory Whout_Ops
  imports Lower_Fs Name_Hash
begin

text \<open>
  Creating and removing whiteouts and opaque marks, and the whiteout base of a branch (\<open>whout.c\<close>).
  Whiteouts are hard links of the base; when its link count is full a whiteout is created as a file and
  the base is made anew by a work that is queued. The notification of the daemon of the file-based
  hierarchical storage (\<open>au_fhsm_wrote\<close>) does not touch this state.
\<close>

section \<open>Names\<close>

definition WH_MASK :: int where "WH_MASK = 292"
definition AuDiropq_CREATE :: int where "AuDiropq_CREATE = 1"

text \<open>\<open>.wh.aufs\<close>, \<open>.wh.plnk\<close> and \<open>.wh.orph\<close>, which get the prefix again.\<close>

definition AUFS_BASE_NAME :: "u8 list" where "AUFS_BASE_NAME = AUFS_WH_PFX @ [97, 117, 102, 115]"
definition AUFS_PLINKDIR_NAME :: "u8 list" where "AUFS_PLINKDIR_NAME = AUFS_WH_PFX @ [112, 108, 110, 107]"
definition AUFS_ORPHDIR_NAME :: "u8 list" where "AUFS_ORPHDIR_NAME = AUFS_WH_PFX @ [111, 114, 112, 104]"

definition au_wh_lkup :: "kern \<Rightarrow> dptr \<Rightarrow> u8 list \<Rightarrow> lower \<Rightarrow> ((int + dptr) \<times> lower) option" where
  "au_wh_lkup k h_parent base_name L =
     (case au_wh_name_alloc base_name (lw_mem L) of
        (Inl e, mem) \<Rightarrow> Some (Inl e, L\<lparr>lw_mem := mem\<rparr>)
      | (Inr whn, mem) \<Rightarrow> vfsub_lkup_one k whn h_parent (L\<lparr>lw_mem := mem\<rparr>))"

definition dput_in :: "dptr option \<Rightarrow> lower \<Rightarrow> lower option" where
  "dput_in d L = map_option (\<lambda>v. L\<lparr>lw_v := v\<rparr>) (dput d (lw_v L))"
definition dget_in :: "dptr \<Rightarrow> lower \<Rightarrow> lower option" where
  "dget_in d L = map_option (\<lambda>v. L\<lparr>lw_v := v\<rparr>) (get_dentry d (lw_v L))"

text \<open>\<open>au_whtmp_ren\<close>: the temporary name, the renaming in the same directory.\<close>

definition au_whtmp_ren :: "nat \<Rightarrow> kern \<Rightarrow> dptr \<Rightarrow> u16 \<Rightarrow> lower \<Rightarrow> (int \<times> u16 \<times> lower) option" where
  "au_whtmp_ren inl k h_dentry cnt L =
     (let h_parent = lw_parent L h_dentry in
      Option.bind (IMustLock L h_parent) (\<lambda>_.
      Option.bind (au_whtmp_lkup inl (kn_lkup k L) h_parent (lw_dname L h_dentry) cnt (lw_mem L) (lw_v L)) (\<lambda>(r, cnt', v).
      let L1 = L\<lparr>lw_v := v, lw_mem := (if inl < length (lw_dname L h_dentry) then tl (lw_mem L) else lw_mem L)\<rparr>
      in case r of
           Inl e \<Rightarrow> Some (e, cnt', L1)
         | Inr tmp \<Rightarrow>
             Option.bind (vfsub_rename k h_parent h_dentry h_parent tmp L1) (\<lambda>(err, L2).
             map_option (\<lambda>L3. (err, cnt', L3)) (dput_in (Some tmp) L2)))))"

section \<open>Removing a whiteout\<close>

text \<open>\<open>do_unlink_wh\<close>: by a kernel worker in a directory with the sticky bit when the whiteout is someone else's.\<close>

definition do_unlink_wh :: "kern \<Rightarrow> dptr \<Rightarrow> dptr \<Rightarrow> lower \<Rightarrow> (int \<times> lower) option" where
  "do_unlink_wh k h_dir d L =
     Option.bind (d_ino L h_dir) (\<lambda>di. Option.bind di (\<lambda>dir.
     Option.bind (if kn_sticky k L dir
                  then Option.bind (d_ino L d) (\<lambda>i. map_option (\<lambda>i. \<not> kn_owned k L i) i)
                  else Some False) (\<lambda>force.
     vfsub_unlink k h_dir d force L)))"

definition au_wh_unlink_dentry :: "kern \<Rightarrow> dptr \<Rightarrow> dptr \<Rightarrow> au_dinfo option \<Rightarrow> lower \<Rightarrow> (int \<times> au_dinfo option \<times> lower) option"
where
  "au_wh_unlink_dentry k h_dir d di L =
     map_option (\<lambda>(err, L1). (err, if err = 0 then map_option (au_set_dbwh (- 1)) di else di, L1))
       (do_unlink_wh k h_dir d L)"

definition unlink_wh_name :: "kern \<Rightarrow> dptr \<Rightarrow> u8 list \<Rightarrow> lower \<Rightarrow> (int \<times> lower) option" where
  "unlink_wh_name k h_parent whn L =
     Option.bind (vfsub_lkup_one k whn h_parent L) (\<lambda>(r, L1).
     case r of
       Inl e \<Rightarrow> Some (e, L1)
     | Inr d \<Rightarrow>
         Option.bind (d_fmt (lw_v L1) d) (\<lambda>fmt.
         Option.bind (if fmt = Some S_IFREG then do_unlink_wh k h_parent d L1 else Some (0, L1)) (\<lambda>(err, L2).
         map_option (Pair err) (dput_in (Some d) L2))))"

section \<open>The base of the whiteouts of a branch\<close>

text \<open>\<open>au_wh_clean\<close>: its error is only logged.\<close>

definition au_wh_clean :: "kern \<Rightarrow> dptr \<Rightarrow> dptr \<Rightarrow> bool \<Rightarrow> lower \<Rightarrow> lower option" where
  "au_wh_clean k h_root d isdir L =
     Option.bind (d_ino L d) (\<lambda>i.
     if i = None then Some L
     else map_option snd (if isdir then vfsub_rmdir k h_root d L else vfsub_unlink k h_root d False L))"

definition test_linkable :: "kern \<Rightarrow> dptr \<Rightarrow> lower \<Rightarrow> int option" where
  "test_linkable k h_root L =
     Option.bind (d_ino L h_root) (\<lambda>i. map_option (\<lambda>i. if kn_linkable k L i then 0 else - ENOSYS) i)"

definition au_whdir :: "kern \<Rightarrow> dptr \<Rightarrow> dptr \<Rightarrow> lower \<Rightarrow> (int \<times> lower) option" where
  "au_whdir k h_root d L =
     Option.bind (dents (lw_v L) d) (\<lambda>x.
     Option.bind (d_fmt (lw_v L) d) (\<lambda>fmt.
     case fmt of
       None \<Rightarrow> vfsub_mkdir k (if au_test_nfs (kn_cfg k) (kn_magics k) (kn_super k (d_hsb x)) then 457 else 448) h_root d L
     | Some f \<Rightarrow> Some (if f = S_IFDIR then 0 else - EEXIST, L)))"

record au_wh_base =
  wb_base :: dptr
  wb_plink :: dptr
  wb_orph :: dptr

definition au_wh_init_ro :: "kern \<Rightarrow> dptr \<Rightarrow> au_wh_base \<Rightarrow> lower \<Rightarrow> lower option" where
  "au_wh_init_ro k h_root base L =
     Option.bind (au_wh_clean k h_root (wb_base base) False L) (\<lambda>L1.
     Option.bind (au_wh_clean k h_root (wb_plink base) True L1) (\<lambda>L2.
     au_wh_clean k h_root (wb_orph base) True L2))"

text \<open>The directory of the pseudo-links: made and kept, or cleaned. The last step, the directory of the orphans.\<close>

definition wh_init_plink :: "kern \<Rightarrow> dptr \<Rightarrow> bool \<Rightarrow> au_wh_base \<Rightarrow> au_wbr \<times> lower \<Rightarrow> (int \<times> au_wbr \<times> lower) option" where
  "wh_init_plink k h_root do_plink base s =
     (let (wbr, L) = s in
      if do_plink
      then Option.bind (au_whdir k h_root (wb_plink base) L) (\<lambda>(err, L1).
           if err \<noteq> 0 then Some (err, wbr, L1)
           else map_option (\<lambda>L2. (0, wbr\<lparr>wbr_plink := Some (wb_plink base)\<rparr>, L2)) (dget_in (wb_plink base) L1))
      else map_option (\<lambda>L1. (0, wbr, L1)) (au_wh_clean k h_root (wb_plink base) True L))"

definition wh_init_orph :: "kern \<Rightarrow> dptr \<Rightarrow> au_wh_base \<Rightarrow> au_wbr \<times> lower \<Rightarrow> (int \<times> au_wbr \<times> lower) option" where
  "wh_init_orph k h_root base s =
     (let (wbr, L) = s in
      Option.bind (au_whdir k h_root (wb_orph base) L) (\<lambda>(err, L1).
      if err \<noteq> 0 then Some (err, wbr, L1)
      else map_option (\<lambda>L2. (0, wbr\<lparr>wbr_orph := Some (wb_orph base)\<rparr>, L2)) (dget_in (wb_orph base) L1)))"

definition au_wh_init_rw_nolink :: "kern \<Rightarrow> dptr \<Rightarrow> bool \<Rightarrow> au_wh_base \<Rightarrow> au_wbr \<times> lower
    \<Rightarrow> (int \<times> au_wbr \<times> lower) option" where
  "au_wh_init_rw_nolink k h_root do_plink base s =
     Option.bind (au_wh_clean k h_root (wb_base base) False (snd s)) (\<lambda>L1.
     Option.bind (if do_plink then test_linkable k h_root L1 else Some 0) (\<lambda>lerr.
     if lerr \<noteq> 0 then Some (1, fst s, L1)
     else Option.bind (wh_init_plink k h_root do_plink base (fst s, L1)) (\<lambda>(err, wbr, L2).
          if err \<noteq> 0 then Some (err, wbr, L2) else wh_init_orph k h_root base (wbr, L2))))"

definition au_wh_init_rw :: "kern \<Rightarrow> dptr \<Rightarrow> bool \<Rightarrow> au_wh_base \<Rightarrow> au_wbr \<times> lower \<Rightarrow> (int \<times> au_wbr \<times> lower) option" where
  "au_wh_init_rw k h_root do_plink base s =
     (let (wbr, L) = s in
      Option.bind (test_linkable k h_root L) (\<lambda>lerr.
      if lerr \<noteq> 0 then Some (1, wbr, L)
      else
        Option.bind (d_fmt (lw_v L) (wb_base base)) (\<lambda>fmt.
        Option.bind (case fmt of
                       None \<Rightarrow> vfsub_create k WH_MASK h_root (wb_base base) L
                     | Some f \<Rightarrow> Some (if f = S_IFREG then 0 else - EEXIST, L)) (\<lambda>(err, L1).
        if err \<noteq> 0 then Some (err, wbr, L1)
        else Option.bind (wh_init_plink k h_root do_plink base (wbr, L1)) (\<lambda>(err, wbr, L2).
        if err \<noteq> 0 then Some (err, wbr, L2)
        else Option.bind (dget_in (wb_base base) L2) (\<lambda>L3.
             wh_init_orph k h_root base (wbr\<lparr>wbr_whbase := Some (wb_base base)\<rparr>, L3)))))))"

text \<open>The dentries of the three names, as far as the lookups succeed; a name that was moved is the fault.\<close>

fun wh_bases :: "kern \<Rightarrow> dptr \<Rightarrow> (u8 list \<times> dptr option) list \<Rightarrow> lower \<Rightarrow> (int \<times> dptr list \<times> lower) option" where
  "wh_bases k h_root [] L = Some (0, [], L)"
| "wh_bases k h_root ((name, old) # bs) L =
     Option.bind (au_wh_lkup k h_root name L) (\<lambda>(r, L1).
     case r of
       Inl e \<Rightarrow> Some (e, [], L1)
     | Inr d \<Rightarrow>
         if old \<noteq> None \<and> old \<noteq> Some d then None
         else map_option (\<lambda>(err, ds, L2). (err, d # ds, L2)) (wh_bases k h_root bs L1))"

fun dput_list :: "dptr option list \<Rightarrow> lower \<Rightarrow> lower option" where
  "dput_list [] L = Some L"
| "dput_list (d # ds) L = Option.bind (dput_in d L) (dput_list ds)"

text \<open>
  \<open>au_wh_init\<close>; \<open>wbr\<close> is NULL for a branch that is not writable. A positive result is an error that was
  printed.
\<close>

definition wbr_whs :: "au_wbr \<Rightarrow> dptr option list" where
  "wbr_whs wbr = [wbr_whbase wbr, wbr_plink wbr, wbr_orph wbr]"

definition wh_init_by_perm :: "kern \<Rightarrow> int \<Rightarrow> dptr \<Rightarrow> bool \<Rightarrow> au_wh_base \<Rightarrow> au_wbr option \<times> lower
    \<Rightarrow> (int \<times> au_wbr option \<times> lower) option" where
  "wh_init_by_perm k perm h_root do_plink base s =
     (let (wbr, L) = s in
      if \<not> au_br_writable perm then map_option (\<lambda>L1. (0, wbr, L1)) (au_wh_init_ro k h_root base L)
      else Option.bind wbr (\<lambda>wbr.
           map_option (\<lambda>(err, wbr, L1). (err, Some wbr, L1))
             (if \<not> au_br_wh_linkable perm then au_wh_init_rw_nolink k h_root do_plink base (wbr, L)
              else au_wh_init_rw k h_root do_plink base (wbr, L))))"

definition au_wh_init :: "kern \<Rightarrow> int \<Rightarrow> dptr \<Rightarrow> bool \<Rightarrow> au_wbr option \<times> lower \<Rightarrow> (int \<times> au_wbr option \<times> lower) option" where
  "au_wh_init k perm h_root do_plink s =
     (let (wbr, L) = s;
          olds = (case wbr of None \<Rightarrow> [None, None, None] | Some w \<Rightarrow> wbr_whs w)
      in Option.bind (wh_bases k h_root (zip [AUFS_BASE_NAME, AUFS_PLINKDIR_NAME, AUFS_ORPHDIR_NAME] olds) L) (\<lambda>(err, ds, L1).
         Option.bind (if err \<noteq> 0 then Some (err, wbr, L1)
            else
              Option.bind (dput_list olds L1) (\<lambda>L2.
              wh_init_by_perm k perm h_root do_plink \<lparr>wb_base = ds ! 0, wb_plink = ds ! 1, wb_orph = ds ! 2\<rparr>
                (map_option (\<lambda>w. w\<lparr>wbr_whbase := None, wbr_plink := None, wbr_orph := None\<rparr>) wbr, L2)))
           (\<lambda>(err, wbr', L3). map_option (\<lambda>L4. (err, wbr', L4)) (dput_list (map Some ds) L3))))"

section \<open>Making the base anew\<close>

text \<open>\<open>wbr_wh_running\<close>, \<open>br_count\<close> and the works that are queued.\<close>

record wh_run =
  wr_running :: int
  wr_count :: int
  wr_queued :: nat

definition kick_reinit_br_wh :: "bool \<Rightarrow> int \<Rightarrow> wh_run \<Rightarrow> wh_run" where
  "kick_reinit_br_wh alloc_ok wkq_err r =
     (let r1 = r\<lparr>wr_running := wr_running r + 1\<rparr>
      in if wr_running r1 \<noteq> 1 \<or> \<not> alloc_ok then r1\<lparr>wr_running := wr_running r1 - 1\<rparr>
         else let r2 = r1\<lparr>wr_count := wr_count r1 + 1\<rparr>
              in if wkq_err \<noteq> 0 then r2\<lparr>wr_running := wr_running r2 - 1, wr_count := wr_count r2 - 1\<rparr>
                 else r2\<lparr>wr_queued := wr_queued r2 + 1\<rparr>)"

text \<open>
  The counts at the end of the work \<open>reinit_br_wh\<close>, and its effect on the branch: \<open>verify\<close> is the answer
  of \<open>au_h_verify\<close>, which reads the dentry of the base. A branch that is gone or readonly is left alone.
\<close>

definition reinit_done :: "wh_run \<Rightarrow> wh_run" where
  "reinit_done r = r\<lparr>wr_running := wr_running r - 1, wr_count := wr_count r - 1, wr_queued := wr_queued r - 1\<rparr>"

definition reinit_br_wh :: "kern \<Rightarrow> int \<Rightarrow> dptr \<Rightarrow> bool \<Rightarrow> int \<Rightarrow> au_wbr \<times> lower \<Rightarrow> (int \<times> au_wbr option \<times> lower) option" where
  "reinit_br_wh k perm h_root do_plink verify s =
     (let (wbr, L) = s in
      if \<not> au_br_writable perm then Some (0, Some wbr, L)
      else
        Option.bind (wbr_whbase wbr) (\<lambda>b.
        Option.bind (if verify = 0 then vfsub_unlink k h_root b False L else Some (0, L)) (\<lambda>(err, L1).
        Option.bind (dput_in (wbr_whbase wbr) L1) (\<lambda>L2.
        let wbr1 = wbr\<lparr>wbr_whbase := None\<rparr>
        in if err \<noteq> 0 then Some (err, Some wbr1, L2)
           else au_wh_init k perm h_root do_plink (Some wbr1, L2)))))"

section \<open>Creating a whiteout\<close>

text \<open>The second result: the base has to be made anew.\<close>

definition link_or_create_wh :: "kern \<Rightarrow> au_sbinfo \<Rightarrow> bindex \<Rightarrow> dptr \<Rightarrow> lower \<Rightarrow> (int \<times> bool \<times> lower) option" where
  "link_or_create_wh k sbi bindex wh L =
     (let h_parent = lw_parent L wh in
      Option.bind (IMustLock L h_parent) (\<lambda>_.
      Option.bind (au_sbr sbi bindex) (\<lambda>br.
      Option.bind (br_wbr br) (\<lambda>wbr.
      Option.bind (case wbr_whbase wbr of
                     None \<Rightarrow> Some (- EMLINK, False, L)
                   | Some b \<Rightarrow> map_option (\<lambda>(err, L). (err, True, L)) (vfsub_link k b h_parent wh L)) (\<lambda>(err, linked, L1).
      if linked \<and> err \<noteq> - EMLINK then Some (err, False, L1)
      else map_option (\<lambda>(err, L2). (err, linked, L2)) (vfsub_create k WH_MASK h_parent wh L1))))))"

definition au_wh_create :: "kern \<Rightarrow> au_sbinfo \<Rightarrow> bindex \<Rightarrow> dptr \<Rightarrow> u8 list \<Rightarrow> au_dinfo \<times> lower
    \<Rightarrow> ((int + dptr) \<times> bool \<times> au_dinfo \<times> lower) option" where
  "au_wh_create k sbi bindex h_parent name s =
     (let (di, L) = s in
      Option.bind (au_wh_lkup k h_parent name L) (\<lambda>(r, L1).
      case r of
        Inl e \<Rightarrow> Some (Inl e, False, di, L1)
      | Inr wh \<Rightarrow>
          Option.bind (d_ino L1 wh) (\<lambda>i.
          if i \<noteq> None then Some (Inr wh, False, di, L1)
          else
            Option.bind (link_or_create_wh k sbi bindex wh L1) (\<lambda>(err, kick, L2).
            if err = 0 then Some (Inr wh, kick, au_set_dbwh bindex di, L2)
            else map_option (\<lambda>L3. (Inl err, kick, di, L3)) (dput_in (Some wh) L2)))))"

section \<open>Opaque directories\<close>

text \<open>The result of a removal is no dentry.\<close>

definition do_diropq :: "kern \<Rightarrow> au_sbinfo \<Rightarrow> bindex \<Rightarrow> int \<Rightarrow> au_dinfo \<times> lower
    \<Rightarrow> ((int + dptr option) \<times> bool \<times> au_dinfo \<times> lower) option" where
  "do_diropq k sbi bindex flags s =
     (let (di, L) = s in
      Option.bind (au_h_dptr di (lw_v L) bindex) (\<lambda>h. Option.bind h (\<lambda>h_dentry.
      Option.bind (vfsub_lkup_one k AUFS_WH_DIROPQ h_dentry L) (\<lambda>(r, L1).
      case r of
        Inl e \<Rightarrow> Some (Inl e, False, di, L1)
      | Inr opq \<Rightarrow>
          if and flags AuDiropq_CREATE \<noteq> 0
          then Option.bind (link_or_create_wh k sbi bindex opq L1) (\<lambda>(err, kick, L2).
               if err = 0 then Some (Inr (Some opq), kick, au_set_dbdiropq bindex di, L2)
               else map_option (\<lambda>L3. (Inl err, kick, di, L3)) (dput_in (Some opq) L2))
          else Option.bind (do_unlink_wh k h_dentry opq L1) (\<lambda>(err, L2).
               map_option (\<lambda>L3. (if err = 0 then Inr None else Inl err, False,
                                 if err = 0 then au_set_dbdiropq (- 1) di else di, L3))
                 (dput_in (Some opq) L2))))))"

definition au_diropq_sio :: "kern \<Rightarrow> au_sbinfo \<Rightarrow> bindex \<Rightarrow> int \<Rightarrow> au_dinfo \<times> lower
    \<Rightarrow> ((int + dptr option) \<times> bool \<times> au_dinfo \<times> lower) option" where
  "au_diropq_sio k sbi bindex flags s =
     (let (di, L) = s in
      Option.bind (au_h_dptr di (lw_v L) bindex) (\<lambda>h. Option.bind h (\<lambda>h_dentry.
      if kn_perm_sio k h_dentry L \<noteq> 0 \<and> kn_wkq k L \<noteq> 0 then Some (Inl (kn_wkq k L), False, di, L)
      else do_diropq k sbi bindex flags s)))"

section \<open>Removing a directory that was renamed to a whiteout\<close>

text \<open>\<open>del_wh_children\<close>: the whiteouts of one branch, until an error.\<close>

fun del_wh_bucket :: "kern \<Rightarrow> dptr \<Rightarrow> bindex \<Rightarrow> au_vdir_wh list \<Rightarrow> lower \<Rightarrow> (int \<times> lower) option" where
  "del_wh_bucket k h_dentry bindex [] L = Some (0, L)"
| "del_wh_bucket k h_dentry bindex (w # ws) L =
     (if wh_bindex w \<noteq> bindex then del_wh_bucket k h_dentry bindex ws L
      else if PATH_MAX < unat (wh_len w) + 4 then Some (- EIO, L)
      else Option.bind (unlink_wh_name k h_dentry (AUFS_WH_PFX @ take (unat (wh_len w)) (wh_name w)) L) (\<lambda>(err, L1).
           if err = 0 then del_wh_bucket k h_dentry bindex ws L1 else Some (err, L1)))"

fun del_wh_loop :: "kern \<Rightarrow> dptr \<Rightarrow> bindex \<Rightarrow> au_vdir_wh list list \<Rightarrow> lower \<Rightarrow> (int \<times> lower) option" where
  "del_wh_loop k h_dentry bindex [] L = Some (0, L)"
| "del_wh_loop k h_dentry bindex (b # bs) L =
     Option.bind (del_wh_bucket k h_dentry bindex b L) (\<lambda>(err, L1).
     if err = 0 then del_wh_loop k h_dentry bindex bs L1 else Some (err, L1))"

definition del_wh_children :: "kern \<Rightarrow> dptr \<Rightarrow> au_vdir_wh au_nhash \<Rightarrow> bindex \<Rightarrow> lower \<Rightarrow> (int \<times> lower) option" where
  "del_wh_children k h_dentry whlist bindex L =
     (let (ok, mem) = take_alloc (lw_mem L); L1 = L\<lparr>lw_mem := mem\<rparr>
      in if \<not> ok then Some (- ENOMEM, L1)
         else del_wh_loop k h_dentry bindex (take (unat (nh_num whlist)) (nh_head whlist)) L1)"

text \<open>The second result: the lower directory has one link less, and the aufs directory is to follow.\<close>

definition au_whtmp_rmdir :: "kern \<Rightarrow> bindex \<Rightarrow> bindex \<Rightarrow> dptr \<Rightarrow> au_vdir_wh au_nhash \<Rightarrow> lower
    \<Rightarrow> (int \<times> bool \<times> lower) option" where
  "au_whtmp_rmdir k ibstart bindex wh_dentry whlist L =
     (let h_dir = lw_parent L wh_dentry in
      Option.bind (IMustLock L h_dir) (\<lambda>_.
      Option.bind (d_ino L wh_dentry) (\<lambda>wi. Option.bind wi (\<lambda>wh_inode.
      Option.bind (mutex_lock wh_inode L) (\<lambda>L1.
      Option.bind (if kn_perm_sio k wh_dentry L1 \<noteq> 0 \<and> kn_wkq k L1 \<noteq> 0 then Some (kn_wkq k L1, L1)
                   else del_wh_children k wh_dentry whlist bindex L1) (\<lambda>(err, L2).
      Option.bind (mutex_unlock wh_inode L2) (\<lambda>L3.
      Option.bind (if err = 0 then vfsub_rmdir k h_dir wh_dentry L3 else Some (err, L3)) (\<lambda>(err, L4).
      Some (err, err = 0 \<and> ibstart = bindex, L4)))))))))"

end
