(* ===== verification/Pin.thy ===== *)
theory Pin
  imports Lower_Fs Iinfo
begin

text \<open>
  Pinning the parent of a dentry for an operation on a lower file system (\<open>i_op.c\<close>, the tests
  \<open>au_h_verify\<close> of \<open>dentry.c\<close>): the write access to the branch, the lock of the parent's data, a reference
  to the parent and to its lower inode and the mutex of the latter. The properties show that nothing
  stays behind on an error and that \<open>au_unpin\<close> gives everything back.
\<close>

section \<open>State\<close>

definition AuPin_DI_LOCKED :: int where "AuPin_DI_LOCKED = 1"
definition AuPin_MNT_WRITE :: int where "AuPin_MNT_WRITE = 2"

definition au_ftest_pin :: "int \<Rightarrow> int \<Rightarrow> bool" where "au_ftest_pin flags name \<longleftrightarrow> and flags name \<noteq> 0"
definition au_fclr_pin :: "int \<Rightarrow> int \<Rightarrow> int" where "au_fclr_pin flags name = and flags (not name)"
definition au_fset_pin :: "int \<Rightarrow> int \<Rightarrow> int" where "au_fset_pin flags name = or flags name"

text \<open>
  \<open>struct au_pin\<close>. \<open>hdir\<close> points into the table of the parent's inode and is given by its index;
  \<open>h_mnt\<close> is the mount of a branch, given by the id of the branch.
\<close>

record pin_data =
  pin_udba :: int
  pin_flags :: int
  pin_bindex :: bindex
  pin_parent :: bool
  pin_hdir :: "bindex option"
  pin_h_mnt :: "bindex option"
  pin_h_dentry :: "dptr option"
  pin_h_parent :: "dptr option"
  pin_br :: "au_branch option"

text \<open>References to the parent and read locks of its data, taken here, and the lower file systems.\<close>

record pin_world =
  pw_L :: lower
  pw_prefs :: int
  pw_dilock :: int

text \<open>The aufs side: the dentry, the parent's dentry and inode.\<close>

record pin_env =
  pn_root :: bool
  pn_di :: au_dinfo
  pn_pdi :: au_dinfo
  pn_pii :: au_iinfo

definition au_pin_init :: "bindex \<Rightarrow> int \<Rightarrow> int \<Rightarrow> pin_data" where
  "au_pin_init bindex udba flags =
     \<lparr>pin_udba = udba, pin_flags = flags, pin_bindex = bindex, pin_parent = False, pin_hdir = None,
      pin_h_mnt = None, pin_h_dentry = None, pin_h_parent = None, pin_br = None\<rparr>"

section \<open>Verifying a lower dentry\<close>

definition au_busy_or_stale :: "kern \<Rightarrow> int" where
  "au_busy_or_stale k = (if kn_nfsd k then - ESTALE else - EBUSY)"

text \<open>\<open>au_h_verify_dentry\<close>: the attributes are saved before the name is looked up again.\<close>

definition au_h_verify_dentry :: "kern \<Rightarrow> dptr \<Rightarrow> dptr \<Rightarrow> lower \<Rightarrow> (int \<times> lower) option" where
  "au_h_verify_dentry k h_dentry h_parent L =
     Option.bind (dents (lw_v L) h_dentry) (\<lambda>x.
     let sb = kn_super k (d_hsb x); h_inode = d_inode x
     in if h_inode = None \<and> (au_test_nfs (kn_cfg k) (kn_magics k) sb \<or> au_test_fuse (kn_cfg k) (kn_magics k) sb)
        then Some (0, L)
        else
          Option.bind (vfsub_lkup_one k (lw_dname L h_dentry) h_parent L) (\<lambda>(r, L1).
          case r of
            Inl e \<Rightarrow> Some (e, L1)
          | Inr h_d \<Rightarrow>
              Option.bind (d_ino L1 h_d) (\<lambda>i.
              let bad = (h_d \<noteq> h_dentry \<or> i \<noteq> h_inode
                         \<or> (case h_inode of None \<Rightarrow> False | Some j \<Rightarrow> kn_iattr k L1 j \<noteq> kn_iattr k L j))
              in map_option (\<lambda>v. (if bad then au_busy_or_stale k else 0, L1\<lparr>lw_v := v\<rparr>))
                   (put_dentry h_d (lw_v L1)))))"

definition au_h_verify :: "kern \<Rightarrow> dptr \<Rightarrow> int \<Rightarrow> iptr \<Rightarrow> dptr \<Rightarrow> lower \<Rightarrow> (int \<times> lower) option" where
  "au_h_verify k h_dentry udba h_dir h_parent L =
     Option.bind (dents (lw_v L) h_dentry) (\<lambda>x.
     if udba = AuOpt_UDBA_REVAL
        \<and> \<not> au_test_fs_remote (kn_cfg k) (kn_magics k) (kn_super k (d_hsb x))
     then if h_dir \<notin> lw_mutex L then None
          else map_option (\<lambda>i. (if i \<noteq> Some h_dir then 1 else 0, L)) (d_ino L (lw_parent L h_dentry))
     else if udba \<noteq> AuOpt_UDBA_NONE then au_h_verify_dentry k h_dentry h_parent L
     else Some (0, L))"

section \<open>Pinning\<close>

text \<open>The inode of \<open>p->hdir\<close>.\<close>

definition hdir_inode :: "au_iinfo \<Rightarrow> bindex \<Rightarrow> iptr option option" where
  "hdir_inode pii b = map_option hi_inode (arr_get (ii_hinode pii) b)"

definition au_pin_hdir_unlock :: "pin_env \<Rightarrow> pin_data \<Rightarrow> lower \<Rightarrow> lower option" where
  "au_pin_hdir_unlock e p L =
     (case pin_hdir p of
        None \<Rightarrow> Some L
      | Some b \<Rightarrow> Option.bind (hdir_inode (pn_pii e) b) (\<lambda>i. Option.bind i (\<lambda>i. mutex_unlock i L)))"

definition au_pin_hdir_lock :: "kern \<Rightarrow> pin_env \<Rightarrow> pin_data \<Rightarrow> lower \<Rightarrow> (int \<times> lower) option" where
  "au_pin_hdir_lock k e p L =
     (case pin_hdir p of
        None \<Rightarrow> Some (0, L)
      | Some b \<Rightarrow>
          Option.bind (hdir_inode (pn_pii e) b) (\<lambda>i. Option.bind i (\<lambda>h_dir.
          Option.bind (mutex_lock h_dir L) (\<lambda>L1.
          Option.bind (pin_h_parent p) (\<lambda>h_parent.
          Option.bind (d_ino L1 h_parent) (\<lambda>pi.
          if pi \<noteq> Some h_dir then Some (- EBUSY, L1)
          else case pin_h_dentry p of
                 None \<Rightarrow> Some (0, L1)
               | Some d \<Rightarrow> au_h_verify k d (pin_udba p) h_dir h_parent L1))))))"

text \<open>\<open>au_pin_hdir_relock\<close>: a lower inode without links is the positive error 1.\<close>

fun relock_nlink :: "lower \<Rightarrow> dptr option list \<Rightarrow> int option" where
  "relock_nlink L [] = Some 0"
| "relock_nlink L (None # ds) = relock_nlink L ds"
| "relock_nlink L (Some d # ds) =
     Option.bind (d_ino L d) (\<lambda>i.
     case i of
       None \<Rightarrow> relock_nlink L ds
     | Some i \<Rightarrow> Option.bind (inos (lw_v L) i) (\<lambda>x. if i_nlink x = 0 then Some 1 else relock_nlink L ds))"

definition au_pin_hdir_relock :: "kern \<Rightarrow> pin_env \<Rightarrow> pin_data \<Rightarrow> lower \<Rightarrow> (int \<times> lower) option" where
  "au_pin_hdir_relock k e p L =
     Option.bind (au_pin_hdir_lock k e p L) (\<lambda>(err, L1).
     if err \<noteq> 0 then Some (err, L1)
     else map_option (\<lambda>err. (err, L1)) (relock_nlink L1 [pin_h_dentry p, pin_h_parent p]))"

definition drop_write :: "bindex \<Rightarrow> lower \<Rightarrow> lower option" where
  "drop_write m L = (if lw_write L m \<le> 0 then None else Some (L\<lparr>lw_write := (lw_write L)(m := lw_write L m - 1)\<rparr>))"

definition di_read_unlock :: "pin_world \<Rightarrow> pin_world option" where
  "di_read_unlock w = (if pw_dilock w \<le> 0 then None else Some (w\<lparr>pw_dilock := pw_dilock w - 1\<rparr>))"

definition parent_put :: "pin_world \<Rightarrow> pin_world option" where
  "parent_put w = (if pw_prefs w \<le> 0 then None else Some (w\<lparr>pw_prefs := pw_prefs w - 1\<rparr>))"

definition au_unpin :: "pin_env \<Rightarrow> pin_data \<Rightarrow> pin_world \<Rightarrow> (pin_data \<times> pin_world) option" where
  "au_unpin e p w =
     Option.bind (au_pin_hdir_unlock e p (pw_L w)) (\<lambda>L1.
     Option.bind (case pin_h_mnt p of
                    Some m \<Rightarrow> if au_ftest_pin (pin_flags p) AuPin_MNT_WRITE then drop_write m L1 else Some L1
                  | None \<Rightarrow> Some L1) (\<lambda>L2.
     case pin_hdir p of
       None \<Rightarrow> Some (p, w\<lparr>pw_L := L2\<rparr>)
     | Some b \<Rightarrow>
         Option.bind (if au_ftest_pin (pin_flags p) AuPin_DI_LOCKED then Some w else di_read_unlock w) (\<lambda>w1.
         Option.bind (hdir_inode (pn_pii e) b) (\<lambda>i.
         Option.bind (iput i (lw_v L2)) (\<lambda>v.
         map_option (\<lambda>w2. (p\<lparr>pin_parent := False, pin_hdir := None, pin_h_mnt := None\<rparr>, w2\<lparr>pw_L := L2\<lparr>lw_v := v\<rparr>\<rparr>))
           (parent_put w1))))))"

text \<open>The write access, with the flag that remembers it.\<close>

definition pin_want_write :: "kern \<Rightarrow> au_branch \<Rightarrow> pin_data \<Rightarrow> lower \<Rightarrow> int \<times> pin_data \<times> lower" where
  "pin_want_write k br p L =
     (if \<not> au_ftest_pin (pin_flags p) AuPin_MNT_WRITE then (0, p, L)
      else
        let err = kn_want_write k (br_id br) L; p1 = p\<lparr>pin_h_mnt := Some (br_id br)\<rparr>
        in if err \<noteq> 0 then (err, p1\<lparr>pin_flags := au_fclr_pin (pin_flags p) AuPin_MNT_WRITE\<rparr>, L)
           else (0, p1, L\<lparr>lw_write := (lw_write L)(br_id br := lw_write L (br_id br) + 1)\<rparr>))"

definition au_do_pin :: "kern \<Rightarrow> au_sbinfo \<Rightarrow> pin_env \<Rightarrow> pin_data \<Rightarrow> pin_world \<Rightarrow> (int \<times> pin_data \<times> pin_world) option" where
  "au_do_pin k sbi e p0 w =
     Option.bind (au_sbr sbi (pin_bindex p0)) (\<lambda>br.
     let p = p0\<lparr>pin_br := Some br\<rparr> in
     if pn_root e
     then let (err, p1, L) = pin_want_write k br p (pw_L w)
          in Some (if err \<noteq> 0 then au_busy_or_stale k else 0, p1, w\<lparr>pw_L := L\<rparr>)
     else
       Option.bind (if pin_bindex p \<le> au_dbend (pn_di e) then au_h_dptr (pn_di e) (lw_v (pw_L w)) (pin_bindex p)
                    else Some None) (\<lambda>h_dentry.
       Option.bind (au_h_dptr (pn_pdi e) (lw_v (pw_L w)) (pin_bindex p)) (\<lambda>h_parent.
       Option.bind (hdir_inode (pn_pii e) (pin_bindex p)) (\<lambda>h_dir.
       let locked = au_ftest_pin (pin_flags p) AuPin_DI_LOCKED;
           w1 = w\<lparr>pw_prefs := pw_prefs w + 1, pw_dilock := (if locked then pw_dilock w else pw_dilock w + 1)\<rparr>;
           p1 = p\<lparr>pin_h_dentry := h_dentry, pin_parent := True, pin_h_parent := h_parent, pin_hdir := Some (pin_bindex p)\<rparr>;
           leave = (\<lambda>p w. Option.bind (if locked then Some w else di_read_unlock w) (\<lambda>w.
                     map_option (\<lambda>w. (au_busy_or_stale k, p\<lparr>pin_parent := False\<rparr>, w)) (parent_put w)))
       in if h_dir = None \<or> h_parent = None then leave p1 w1
          else
            let (err, p2, L2) = pin_want_write k br p1 (pw_L w1); w2 = w1\<lparr>pw_L := L2\<rparr>
            in if err \<noteq> 0 then leave p2 w2
               else
                 Option.bind (au_igrab h_dir (lw_v L2)) (\<lambda>v3.
                 Option.bind (au_pin_hdir_lock k e p2 (L2\<lparr>lw_v := v3\<rparr>)) (\<lambda>(err, L4).
                 let w4 = w2\<lparr>pw_L := L4\<rparr>
                 in if err = 0 then Some (0, p2, w4)
                    else map_option (\<lambda>(p5, w5). (au_busy_or_stale k, p5, w5)) (au_unpin e p2 w4)))))))"

definition au_pin :: "kern \<Rightarrow> au_sbinfo \<Rightarrow> pin_env \<Rightarrow> bindex \<Rightarrow> int \<Rightarrow> int \<Rightarrow> pin_world
    \<Rightarrow> (int \<times> pin_data \<times> pin_world) option" where
  "au_pin k sbi e bindex udba flags w = au_do_pin k sbi e (au_pin_init bindex udba flags) w"

text \<open>\<open>au_pinned_h_parent\<close>; \<open>pin->parent\<close> is set while it is pinned.\<close>

definition au_pinned_h_parent :: "pin_env \<Rightarrow> pin_data \<Rightarrow> lower \<Rightarrow> dptr option option" where
  "au_pinned_h_parent e p L = (if pin_parent p then au_h_dptr (pn_pdi e) (lw_v L) (pin_bindex p) else Some None)"

section \<open>Verification leaves the state as it is\<close>

lemma get_put:
  assumes "get_dentry d v = Some v1" and "put_dentry d v1 = Some v2" and "dents v d = Some x" and "0 \<le> d_count x"
  shows "v2 = v"
proof -
  have "(dents v)(d \<mapsto> x) = dents v" using assms(3) by (simp add: fun_upd_idem)
  then show ?thesis using assms by (auto simp: get_dentry_def put_dentry_def split: if_splits)
qed

text \<open>Lookups answer with dentries that exist.\<close>

definition lookups_live :: "kern \<Rightarrow> lower \<Rightarrow> bool" where
  "lookups_live k L0 \<longleftrightarrow> (\<forall>L sio p n d. dents (lw_v L) = dents (lw_v L0) \<longrightarrow> lw_names L = lw_names L0 \<longrightarrow>
     le_lkup (kn_lkup k L) sio p n = Inr d \<longrightarrow> (\<exists>x. dents (lw_v L0) d = Some x \<and> 0 \<le> d_count x))"

lemma verify_dentry_ok:
  assumes k: "lookups_live k L" and d: "dents (lw_v L) h_dentry \<noteq> None" and m: "IMustLock L h_parent \<noteq> None"
  shows "\<exists>err. au_h_verify_dentry k h_dentry h_parent L = Some (err, L)"
proof -
  obtain x where x: "dents (lw_v L) h_dentry = Some x" using d by blast
  show ?thesis
  proof (cases "le_lkup (kn_lkup k L) False h_parent (lw_dname L h_dentry)")
    case (Inl e)
    then show ?thesis using x m by (auto simp: au_h_verify_dentry_def vfsub_lkup_one_def lkup_one_def Let_def)
  next
    case (Inr h)
    then obtain y where y: "dents (lw_v L) h = Some y" "0 \<le> d_count y"
      using k unfolding lookups_live_def by blast
    obtain v1 where v1: "get_dentry h (lw_v L) = Some v1" using y by (simp add: get_dentry_def)
    then obtain v2 where v2: "put_dentry h v1 = Some v2" using y by (auto simp: get_dentry_def put_dentry_def)
    have "v2 = lw_v L" by (rule get_put [OF v1 v2 y])
    moreover have "dents v1 h \<noteq> None" using v1 y by (auto simp: get_dentry_def)
    ultimately show ?thesis using x m Inr v1 v2
      by (auto simp: au_h_verify_dentry_def vfsub_lkup_one_def lkup_one_def Let_def d_ino_def)
  qed
qed

definition parents_exist :: "lower \<Rightarrow> bool" where
  "parents_exist L \<longleftrightarrow> (\<forall>d. dents (lw_v L) d \<noteq> None \<longrightarrow> dents (lw_v L) (lw_parent L d) \<noteq> None)"

lemma verify_ok:
  assumes k: "lookups_live k L" and p: "parents_exist L" and d: "dents (lw_v L) h_dentry \<noteq> None"
    and m: "IMustLock L h_parent = Some h_dir"
  shows "\<exists>err. au_h_verify k h_dentry udba h_dir h_parent L = Some (err, L)"
proof -
  obtain x where x: "dents (lw_v L) h_dentry = Some x" using d by blast
  have "dents (lw_v L) (lw_parent L h_dentry) \<noteq> None" using p d by (simp add: parents_exist_def)
  then obtain i where i: "d_ino L (lw_parent L h_dentry) = Some i" by (auto simp: d_ino_def)
  have "h_dir \<in> lw_mutex L" using m by (auto simp: IMustLock_def bind_eq_Some_conv split: if_splits)
  moreover obtain err where "au_h_verify_dentry k h_dentry h_parent L = Some (err, L)"
    using verify_dentry_ok [OF k d, of h_parent] m by auto
  ultimately show ?thesis using x i by (auto simp: au_h_verify_def)
qed

section \<open>Pinning balances\<close>

text \<open>The tables are owned, the branch exists, and the mutex of the parent's lower inode is free.\<close>

definition pin_ready :: "kern \<Rightarrow> au_sbinfo \<Rightarrow> pin_env \<Rightarrow> bindex \<Rightarrow> pin_world \<Rightarrow> bool" where
  "pin_ready k sbi e b w \<longleftrightarrow>
     au_sbr sbi b \<noteq> None \<and> 0 \<le> b \<and> 0 \<le> pw_prefs w \<and> 0 \<le> pw_dilock w \<and> (\<forall>m. 0 \<le> lw_write (pw_L w) m)
     \<and> di_owns (lw_v (pw_L w)) (pn_di e) \<and> di_owns (lw_v (pw_L w)) (pn_pdi e) \<and> parents_exist (pw_L w)
     \<and> b < int (length (di_hdentry (pn_di e))) \<and> b < int (length (di_hdentry (pn_pdi e)))
     \<and> b < int (length (ii_hinode (pn_pii e))) \<and> lookups_live k (pw_L w)
     \<and> (\<forall>i. hdir_inode (pn_pii e) b = Some (Some i) \<longrightarrow> i \<notin> lw_mutex (pw_L w)
          \<and> (\<exists>x. inos (lw_v (pw_L w)) i = Some x \<and> 0 < i_count x))"

lemma h_dptr_ok:
  assumes "di_owns v di" and "0 \<le> b" and "b < int (length (di_hdentry di))"
  shows "\<exists>h. au_h_dptr di v b = Some h \<and> (\<forall>d. h = Some d \<longrightarrow> dents v d \<noteq> None)"
proof (cases "au_dbstart di < 0 \<or> b < au_dbstart di")
  case True
  then show ?thesis by (auto simp: au_h_dptr_def)
next
  case False
  then have "au_h_dptr di v b = Some (dslots di ! nat b)" using au_h_dptr_slot [OF assms(1)] assms by simp
  moreover have "nat b < length (di_hdentry di)" using assms by linarith
  ultimately show ?thesis using di_owns_live [OF assms(1)] by auto
qed

text \<open>A reference to an inode, and its mutex.\<close>

definition igot :: "iptr \<Rightarrow> lower \<Rightarrow> lower" where
  "igot i L = L\<lparr>lw_v := (lw_v L)\<lparr>inos := (inos (lw_v L))(i := map_option (\<lambda>x. x\<lparr>i_count := i_count x + 1\<rparr>) (inos (lw_v L) i))\<rparr>,
     lw_mutex := insert i (lw_mutex L)\<rparr>"

lemma igot_dents [simp]: "dents (lw_v (igot i L)) = dents (lw_v L)" "lw_parent (igot i L) = lw_parent L"
    "lw_write (igot i L) = lw_write L" "lw_names (igot i L) = lw_names L" "lw_mutex (igot i L) = insert i (lw_mutex L)"
  by (simp_all add: igot_def)

lemma igot_put:
  assumes "inos (lw_v L) i = Some x" and "0 < i_count x" and "i \<notin> lw_mutex L"
  shows "mutex_unlock i (igot i L) = Some (igot i L\<lparr>lw_mutex := lw_mutex L\<rparr>)"
    and "put_inode i (lw_v (igot i L)) = Some (lw_v L)"
    and "get_inode i (lw_v L) = Some (lw_v (igot i L))"
    and "mutex_lock i (L\<lparr>lw_v := lw_v (igot i L)\<rparr>) = Some (igot i L)"
    and "igot i L\<lparr>lw_mutex := lw_mutex L, lw_v := lw_v L\<rparr> = L"
proof -
  have "(inos (lw_v L))(i \<mapsto> x) = inos (lw_v L)" using assms(1) by (simp add: fun_upd_idem)
  then show "put_inode i (lw_v (igot i L)) = Some (lw_v L)"
    using assms by (simp add: igot_def put_inode_def)
  have "insert i (lw_mutex L) - {i} = lw_mutex L" using assms(3) by auto
  then show "mutex_unlock i (igot i L) = Some (igot i L\<lparr>lw_mutex := lw_mutex L\<rparr>)" by (simp add: mutex_unlock_def)
  show "get_inode i (lw_v L) = Some (lw_v (igot i L))" using assms by (simp add: igot_def get_inode_def)
  show "mutex_lock i (L\<lparr>lw_v := lw_v (igot i L)\<rparr>) = Some (igot i L)"
    using assms by (simp add: mutex_lock_def igot_def)
  show "igot i L\<lparr>lw_mutex := lw_mutex L, lw_v := lw_v L\<rparr> = L" by (simp add: igot_def)
qed

lemma hdir_lock_ok:
  assumes k: "lookups_live k L" and par: "parents_exist L" and p: "pin_hdir p = Some b" "pin_h_parent p = Some hp"
    and i: "hdir_inode (pn_pii e) b = Some (Some i)" "inos (lw_v L) i = Some x" "0 < i_count x" "i \<notin> lw_mutex L"
    and hp: "dents (lw_v L) hp \<noteq> None" and hd: "\<And>d. pin_h_dentry p = Some d \<Longrightarrow> dents (lw_v L) d \<noteq> None"
  shows "\<exists>err. au_pin_hdir_lock k e p (L\<lparr>lw_v := lw_v (igot i L)\<rparr>) = Some (err, igot i L)
    \<and> (err = 0 \<longrightarrow> d_ino L hp = Some (Some i))"
proof -
  obtain pi where pi: "d_ino L hp = Some pi" "d_ino (igot i L) hp = Some pi" using hp by (auto simp: d_ino_def)
  have par': "parents_exist (igot i L)" using par by (simp add: parents_exist_def)
  have k': "lookups_live k (igot i L)" using k by (simp add: lookups_live_def)
  show ?thesis
  proof (cases "pi = Some i")
    case True
    then have m: "IMustLock (igot i L) hp = Some i" using pi by (simp add: IMustLock_def)
    show ?thesis
    proof (cases "pin_h_dentry p")
      case None
      then show ?thesis using p i pi True igot_put(4) [OF i(2-4)] by (simp add: au_pin_hdir_lock_def)
    next
      case (Some d)
      then have "dents (lw_v (igot i L)) d \<noteq> None" using hd by simp
      then obtain err where "au_h_verify k d (pin_udba p) i hp (igot i L) = Some (err, igot i L)"
        using verify_ok [OF k' par' _ m] by blast
      then show ?thesis using Some p i pi True igot_put(4) [OF i(2-4)] by (simp add: au_pin_hdir_lock_def)
    qed
  next
    case False
    then show ?thesis using p i pi igot_put(4) [OF i(2-4)] by (simp add: au_pin_hdir_lock_def)
  qed
qed

text \<open>The world with everything taken.\<close>

definition wrote :: "bool \<Rightarrow> bindex \<Rightarrow> lower \<Rightarrow> lower" where
  "wrote wr m L = (if wr then L\<lparr>lw_write := (lw_write L)(m := lw_write L m + 1)\<rparr> else L)"

definition pinned :: "bool \<Rightarrow> bool \<Rightarrow> bindex \<Rightarrow> iptr \<Rightarrow> pin_world \<Rightarrow> pin_world" where
  "pinned locked wr m i w = w\<lparr>pw_prefs := pw_prefs w + 1, pw_dilock := (if locked then pw_dilock w else pw_dilock w + 1),
     pw_L := igot i (wrote wr m (pw_L w))\<rparr>"

lemma wrote_frame [simp]: "lw_v (wrote wr m L) = lw_v L" "lw_mutex (wrote wr m L) = lw_mutex L"
    "lw_parent (wrote wr m L) = lw_parent L" "lw_names (wrote wr m L) = lw_names L" "dents (lw_v (wrote wr m L)) = dents (lw_v L)"
  by (simp_all add: wrote_def)

lemma unpin_ok:
  assumes i: "hdir_inode (pn_pii e) b = Some (Some i)" "inos (lw_v (pw_L w)) i = Some x" "0 < i_count x"
      "i \<notin> lw_mutex (pw_L w)"
    and w: "0 \<le> pw_prefs w" "0 \<le> pw_dilock w" "0 \<le> lw_write (pw_L w) m"
    and p: "pin_hdir p = Some b" "au_ftest_pin (pin_flags p) AuPin_DI_LOCKED = locked"
      "au_ftest_pin (pin_flags p) AuPin_MNT_WRITE = wr" "wr \<longrightarrow> pin_h_mnt p = Some m"
  shows "\<exists>p'. au_unpin e p (pinned locked wr m i w) = Some (p', w)"
proof -
  let ?L = "wrote wr m (pw_L w)"
  have g: "inos (lw_v ?L) i = Some x" "i \<notin> lw_mutex ?L" using i by simp_all
  note undo = igot_put [OF g(1) i(3) g(2)]
  have un: "au_pin_hdir_unlock e p (pw_L (pinned locked wr m i w)) = Some (igot i ?L\<lparr>lw_mutex := lw_mutex (pw_L w)\<rparr>)"
    using p i undo(1) by (simp add: au_pin_hdir_unlock_def pinned_def)
  define L2 where "L2 = (igot i ?L\<lparr>lw_mutex := lw_mutex (pw_L w)\<rparr>)\<lparr>lw_write := lw_write (pw_L w)\<rparr>"
  have wr_back: "(lw_write (pw_L w))(m := lw_write (pw_L w) m) = lw_write (pw_L w)" by simp
  have drop: "(case pin_h_mnt p of
        Some m \<Rightarrow> if au_ftest_pin (pin_flags p) AuPin_MNT_WRITE then drop_write m (igot i ?L\<lparr>lw_mutex := lw_mutex (pw_L w)\<rparr>)
                  else Some (igot i ?L\<lparr>lw_mutex := lw_mutex (pw_L w)\<rparr>)
      | None \<Rightarrow> Some (igot i ?L\<lparr>lw_mutex := lw_mutex (pw_L w)\<rparr>)) = Some L2"
    using p w(3) by (cases wr; cases "pin_h_mnt p") (simp_all add: drop_write_def wrote_def L2_def igot_def)
  have v: "iput (Some i) (lw_v L2) = Some (lw_v (pw_L w))" using undo(2) by (simp add: L2_def)
  have "L2\<lparr>lw_v := lw_v (pw_L w)\<rparr> = pw_L w" by (cases wr) (simp_all add: L2_def igot_def wrote_def)
  then show ?thesis
    using un drop v p i(1) w(1,2)
    by (simp add: au_unpin_def di_read_unlock_def parent_put_def pinned_def)
qed

lemma fclr_locked: "au_ftest_pin (au_fclr_pin f AuPin_MNT_WRITE) AuPin_DI_LOCKED = au_ftest_pin f AuPin_DI_LOCKED"
proof -
  have "and (not 2) 1 = (1 :: int)" by simp
  then show ?thesis
    by (simp add: au_ftest_pin_def au_fclr_pin_def AuPin_DI_LOCKED_def AuPin_MNT_WRITE_def and.assoc)
qed

lemma do_pin_ok:
  assumes ready: "pin_ready k sbi e (pin_bindex p0) w" and nr: "\<not> pn_root e"
    and br: "au_sbr sbi (pin_bindex p0) = Some br"
    and fl: "locked = au_ftest_pin (pin_flags p0) AuPin_DI_LOCKED" "wr = au_ftest_pin (pin_flags p0) AuPin_MNT_WRITE"
  shows "\<exists>err p w'. au_do_pin k sbi e p0 w = Some (err, p, w') \<and> (err \<noteq> 0 \<longrightarrow> w' = w \<and> err = au_busy_or_stale k)
    \<and> (err = 0 \<longrightarrow> (\<exists>i hp. hdir_inode (pn_pii e) (pin_bindex p0) = Some (Some i)
         \<and> au_h_dptr (pn_pdi e) (lw_v (pw_L w)) (pin_bindex p0) = Some (Some hp) \<and> d_ino (pw_L w) hp = Some (Some i)
         \<and> w' = pinned locked wr (br_id br) i w
         \<and> pin_hdir p = Some (pin_bindex p0) \<and> pin_flags p = pin_flags p0 \<and> pin_parent p \<and> pin_bindex p = pin_bindex p0
         \<and> (wr \<longrightarrow> pin_h_mnt p = Some (br_id br))))"
proof -
  let ?b = "pin_bindex p0" and ?L = "pw_L w"
  have R: "0 \<le> ?b" "0 \<le> pw_prefs w" "0 \<le> pw_dilock w" "\<And>m. 0 \<le> lw_write ?L m" "di_owns (lw_v ?L) (pn_di e)"
    "di_owns (lw_v ?L) (pn_pdi e)" "parents_exist ?L" "?b < int (length (di_hdentry (pn_di e)))"
    "?b < int (length (di_hdentry (pn_pdi e)))" "?b < int (length (ii_hinode (pn_pii e)))" "lookups_live k ?L"
    using ready by (auto simp: pin_ready_def)
  obtain hd where hd: "(if ?b \<le> au_dbend (pn_di e) then au_h_dptr (pn_di e) (lw_v ?L) ?b else Some None) = Some hd"
    "\<And>d. hd = Some d \<Longrightarrow> dents (lw_v ?L) d \<noteq> None"
    using h_dptr_ok [OF R(5,1,8)] by (cases "?b \<le> au_dbend (pn_di e)") auto
  obtain hp where hp: "au_h_dptr (pn_pdi e) (lw_v ?L) ?b = Some hp" "\<And>d. hp = Some d \<Longrightarrow> dents (lw_v ?L) d \<noteq> None"
    using h_dptr_ok [OF R(6,1,9)] by auto
  obtain hi where hi: "hdir_inode (pn_pii e) ?b = Some hi"
    using R(1,10) by (auto simp: hdir_inode_def arr_get_def)
  let ?p1 = "p0\<lparr>pin_br := Some br, pin_h_dentry := hd, pin_parent := True, pin_h_parent := hp, pin_hdir := Some ?b\<rparr>"
  let ?w1 = "w\<lparr>pw_prefs := pw_prefs w + 1, pw_dilock := (if locked then pw_dilock w else pw_dilock w + 1)\<rparr>"
  have leave: "Option.bind (if locked then Some (?w1\<lparr>pw_L := ?L\<rparr>) else di_read_unlock (?w1\<lparr>pw_L := ?L\<rparr>)) (\<lambda>w.
        map_option (\<lambda>w. (au_busy_or_stale k, p\<lparr>pin_parent := False\<rparr>, w)) (parent_put w))
      = Some (au_busy_or_stale k, p\<lparr>pin_parent := False\<rparr>, w)" for p
    using R(2,3) by (simp add: di_read_unlock_def parent_put_def)
  note run = au_do_pin_def br bind.bind_lunit Let_def nr if_False hd(1) hp(1) hi
  show ?thesis
  proof (cases "hi = None \<or> hp = None")
    case True
    then have "au_do_pin k sbi e p0 w = Some (au_busy_or_stale k, ?p1\<lparr>pin_parent := False\<rparr>, w)"
      using hd(1) hp(1) hi leave [of ?p1] nr br fl(1)
      by (simp add: au_do_pin_def Let_def cong: if_cong)
    moreover have "au_busy_or_stale k \<noteq> 0" by (simp add: au_busy_or_stale_def)
    ultimately show ?thesis by simp
  next
    case False
    then obtain i hpd where some: "hi = Some i" "hp = Some hpd" by auto
    obtain x where i: "i \<notin> lw_mutex ?L" "inos (lw_v ?L) i = Some x" "0 < i_count x"
      using ready hi some by (auto simp: pin_ready_def)
    show ?thesis
    proof (cases "wr \<and> kn_want_write k (br_id br) ?L \<noteq> 0")
      case True
      then have "\<exists>p. au_do_pin k sbi e p0 w = Some (au_busy_or_stale k, p, w)"
        using hd(1) hp(1) hi R(2,3) nr br fl some fclr_locked
        by (simp add: au_do_pin_def Let_def pin_want_write_def di_read_unlock_def parent_put_def cong: if_cong)
      moreover have "au_busy_or_stale k \<noteq> 0" by (simp add: au_busy_or_stale_def)
      ultimately show ?thesis by auto
    next
      case ok: False
      let ?p2 = "if wr then ?p1\<lparr>pin_h_mnt := Some (br_id br)\<rparr> else ?p1" and ?L2 = "wrote wr (br_id br) ?L"
      have want: "pin_want_write k br ?p1 ?L = (0, ?p2, ?L2)"
        using ok fl by (auto simp: pin_want_write_def wrote_def Let_def)
      have p2: "pin_hdir ?p2 = Some ?b" "pin_h_parent ?p2 = Some hpd" "pin_h_dentry ?p2 = hd"
        "pin_flags ?p2 = pin_flags p0" "wr \<longrightarrow> pin_h_mnt ?p2 = Some (br_id br)" "pin_parent ?p2" "pin_bindex ?p2 = ?b"
        using some by simp_all
      have par: "parents_exist ?L2" using R(7) by (simp add: parents_exist_def)
      have kl: "lookups_live k ?L2" using R(11) by (simp add: lookups_live_def)
      have i2: "inos (lw_v ?L2) i = Some x" "i \<notin> lw_mutex ?L2" using i by simp_all
      have hii: "hdir_inode (pn_pii e) ?b = Some (Some i)" using hi some by simp
      obtain err where lock: "au_pin_hdir_lock k e ?p2 (?L2\<lparr>lw_v := lw_v (igot i ?L2)\<rparr>) = Some (err, igot i ?L2)"
        "err = 0 \<longrightarrow> d_ino ?L2 hpd = Some (Some i)"
        using hdir_lock_ok [OF kl par p2(1,2) hii i2(1) i(3) i2(2)] hp(2) hd(2) some p2(3) by auto
      have grab: "au_igrab hi (lw_v ?L2) = Some (lw_v (igot i ?L2))"
        using igot_put(3) [OF i2(1) i(3) i2(2)] some by (simp add: au_igrab_def)
      have w4: "?w1\<lparr>pw_L := ?L2\<rparr>\<lparr>pw_L := igot i ?L2\<rparr> = pinned locked wr (br_id br) i w"
        by (simp add: pinned_def)
      have do_it: "au_do_pin k sbi e p0 w = (if err = 0 then Some (0, ?p2, pinned locked wr (br_id br) i w)
          else map_option (\<lambda>(p5, w5). (au_busy_or_stale k, p5, w5)) (au_unpin e ?p2 (pinned locked wr (br_id br) i w)))"
        using hd(1) hp(1) hi some nr br fl want grab lock(1) w4
        by (simp add: au_do_pin_def Let_def cong: if_cong)
      obtain p' where "au_unpin e ?p2 (pinned locked wr (br_id br) i w) = Some (p', w)"
        using unpin_ok [OF hii i(2,3,1) R(2,3,4) p2(1), of locked wr "br_id br"] p2(4,5) fl by auto
      moreover have "au_busy_or_stale k \<noteq> 0" by (simp add: au_busy_or_stale_def)
      moreover have "d_ino ?L2 hpd = d_ino ?L hpd" by (simp add: d_ino_def)
      moreover define pp where "pp = ?p2"
      ultimately have fin: "au_do_pin k sbi e p0 w = (if err = 0 then Some (0, pp, pinned locked wr (br_id br) i w)
          else Some (au_busy_or_stale k, p', w))" "err = 0 \<longrightarrow> d_ino ?L hpd = Some (Some i)" "au_busy_or_stale k \<noteq> 0"
        using do_it lock(2) by simp_all
      show ?thesis
      proof (cases "err = 0")
        case True
        then show ?thesis using fin hii some p2 hp(1) unfolding pp_def [symmetric]
          by (intro exI [of _ 0] exI [of _ pp] exI [of _ "pinned locked wr (br_id br) i w"]) auto
      next
        case False
        then show ?thesis using fin
          by (intro exI [of _ "au_busy_or_stale k"] exI [of _ p'] exI [of _ w]) simp
      qed
    qed
  qed
qed

lemma pin_root_ok:
  assumes "pn_root e" and "au_sbr sbi (pin_bindex p0) = Some br" and "0 \<le> lw_write (pw_L w) (br_id br)"
    and "pin_hdir p0 = None" and "pin_h_mnt p0 = None"
  shows "\<exists>err p w'. au_do_pin k sbi e p0 w = Some (err, p, w') \<and> (err \<noteq> 0 \<longrightarrow> w' = w)
    \<and> (err = 0 \<longrightarrow> (\<exists>p'. au_unpin e p w' = Some (p', w)))"
proof -
  have b: "au_busy_or_stale k \<noteq> 0" by (simp add: au_busy_or_stale_def)
  show ?thesis
  proof (cases "au_ftest_pin (pin_flags p0) AuPin_MNT_WRITE")
    case True
    then show ?thesis using assms b
      by (cases "kn_want_write k (br_id br) (pw_L w) = 0")
        (simp_all add: au_do_pin_def pin_want_write_def Let_def au_unpin_def au_pin_hdir_unlock_def drop_write_def)
  next
    case False
    then show ?thesis using assms b
      by (simp add: au_do_pin_def pin_want_write_def Let_def au_unpin_def au_pin_hdir_unlock_def)
  qed
qed

text \<open>
  C2: pinning balances. When the tables are owned, \<open>au_pin\<close> ends without a fault. On an error it has
  given back every reference, lock and write access it took; on success \<open>au_unpin\<close> gives back exactly
  what was taken, and in between the lower parent is the directory of which the mutex is held.
\<close>

theorem au_pin_balanced:
  assumes "pin_ready k sbi e b w"
  shows "\<exists>err p w'. au_pin k sbi e b udba flags w = Some (err, p, w')
    \<and> (err \<noteq> 0 \<longrightarrow> w' = w)
    \<and> (err = 0 \<longrightarrow> (\<exists>p'. au_unpin e p w' = Some (p', w))
        \<and> (\<not> pn_root e \<longrightarrow> (\<exists>hp i. au_h_dptr (pn_pdi e) (lw_v (pw_L w)) b = Some (Some hp)
              \<and> d_ino (pw_L w') hp = Some (Some i) \<and> lw_mutex (pw_L w') = insert i (lw_mutex (pw_L w)))))"
proof -
  let ?p0 = "au_pin_init b udba flags"
  have b: "pin_bindex ?p0 = b" "pin_hdir ?p0 = None" "pin_h_mnt ?p0 = None" "pin_flags ?p0 = flags"
    by (simp_all add: au_pin_init_def)
  obtain br where br: "au_sbr sbi b = Some br" using assms by (auto simp: pin_ready_def)
  have w: "0 \<le> pw_prefs w" "0 \<le> pw_dilock w" "\<And>m. 0 \<le> lw_write (pw_L w) m" using assms by (simp_all add: pin_ready_def)
  show ?thesis
  proof (cases "pn_root e")
    case True
    then show ?thesis using pin_root_ok [of e sbi ?p0 br w k] br w b by (simp add: au_pin_def)
  next
    case False
    let ?l = "au_ftest_pin flags AuPin_DI_LOCKED" and ?wr = "au_ftest_pin flags AuPin_MNT_WRITE"
    obtain err p w' where r: "au_do_pin k sbi e ?p0 w = Some (err, p, w')" "err \<noteq> 0 \<longrightarrow> w' = w"
      "err = 0 \<longrightarrow> (\<exists>i hp. hdir_inode (pn_pii e) b = Some (Some i)
         \<and> au_h_dptr (pn_pdi e) (lw_v (pw_L w)) b = Some (Some hp) \<and> d_ino (pw_L w) hp = Some (Some i)
         \<and> w' = pinned ?l ?wr (br_id br) i w \<and> pin_hdir p = Some b \<and> pin_flags p = flags
         \<and> (?wr \<longrightarrow> pin_h_mnt p = Some (br_id br)))"
      using do_pin_ok [of k sbi e ?p0 w br ?l ?wr] assms False br b by auto
    have "(\<exists>p'. au_unpin e p w' = Some (p', w)) \<and> (\<exists>hp i. au_h_dptr (pn_pdi e) (lw_v (pw_L w)) b = Some (Some hp)
              \<and> d_ino (pw_L w') hp = Some (Some i) \<and> lw_mutex (pw_L w') = insert i (lw_mutex (pw_L w)))" if z: "err = 0"
    proof -
      obtain i hp where i: "hdir_inode (pn_pii e) b = Some (Some i)" "au_h_dptr (pn_pdi e) (lw_v (pw_L w)) b = Some (Some hp)"
        "d_ino (pw_L w) hp = Some (Some i)" "w' = pinned ?l ?wr (br_id br) i w" "pin_hdir p = Some b" "pin_flags p = flags"
        "?wr \<longrightarrow> pin_h_mnt p = Some (br_id br)"
        using r(3) z by blast
      obtain x where x: "inos (lw_v (pw_L w)) i = Some x" "0 < i_count x" "i \<notin> lw_mutex (pw_L w)"
        using assms i(1) by (auto simp: pin_ready_def)
      have "\<exists>p'. au_unpin e p w' = Some (p', w)"
        unfolding i(4) by (rule unpin_ok [OF i(1) x w]) (use i(5-7) in auto)
      moreover have "d_ino (pw_L w') hp = Some (Some i)" "lw_mutex (pw_L w') = insert i (lw_mutex (pw_L w))"
        using i(3) by (simp_all add: i(4) pinned_def d_ino_def)
      ultimately show ?thesis using i(2) by blast
    qed
    then show ?thesis using r(1,2) unfolding au_pin_def by blast
  qed
qed

section \<open>Witness\<close>

definition quiet_kern :: kern where
  "quiet_kern = \<lparr>kn_cfg = full_config, kn_magics = linux_magics, kn_super = (\<lambda>_. h_tmpfs),
     kn_lkup = (\<lambda>L. \<lparr>le_lkup = (\<lambda>_ _ _. Inl (- EIO)), le_perm = (\<lambda>_. 0), le_wkq = 0\<rparr>),
     kn_security = (\<lambda>_ _ _. 0), kn_vfs = (\<lambda>_ _ _ L. (0, L)), kn_perm_sio = (\<lambda>_ _. 0), kn_perm = (\<lambda>_ _. 0),
     kn_want_write = (\<lambda>_ _. 0), kn_wkq = (\<lambda>_. 0), kn_iattr = (\<lambda>_ _. []), kn_nfsd = False, kn_sticky = (\<lambda>_ _. False),
     kn_owned = (\<lambda>_ _. True), kn_linkable = (\<lambda>_ _. True),
     kn_immutable = (\<lambda>_ _. False)\<rparr>"

definition example_pin_env :: pin_env where
  "example_pin_env = \<lparr>pn_root = False, pn_di = example_dinfo\<lparr>di_bstart := - 1, di_bend := - 1,
     di_hdentry := replicate 3 \<lparr>hd_dentry = None, hd_id = - 1\<rparr>\<rparr>, pn_pdi = example_dinfo, pn_pii = example_iinfo\<rparr>"

definition example_pin_world :: pin_world where
  "example_pin_world = \<lparr>pw_L = \<lparr>lw_v = example_vfs, lw_names = (\<lambda>_ _. 101), lw_parent = (\<lambda>_. 102),
     lw_dname = (\<lambda>_. []), lw_mutex = {}, lw_write = (\<lambda>_. 0), lw_mem = []\<rparr>, pw_prefs = 0, pw_dilock = 0\<rparr>"

lemma example_pin_ready: "pin_ready quiet_kern example_sbinfo example_pin_env 2 example_pin_world"
proof -
  have "di_owns example_vfs (pn_di example_pin_env)"
    by (simp add: di_owns_def example_pin_env_def dslots_def)
  moreover have "lookups_live quiet_kern (pw_L example_pin_world)" by (simp add: lookups_live_def quiet_kern_def)
  moreover have "parents_exist (pw_L example_pin_world)"
    by (simp add: parents_exist_def example_pin_world_def example_vfs_def)
  moreover have "au_sbr example_sbinfo 2 \<noteq> None" by (simp add: au_sbr_def arr_get_def example_sbinfo_def)
  moreover have "hdir_inode example_iinfo 2 = Some (Some 3)"
    by (simp add: hdir_inode_def example_iinfo_def arr_get_def)
  moreover have "inos example_vfs 3 = Some \<lparr>i_count = 1, i_nlink = 0, i_ino = 33, i_generation = 9, i_fmt = 16384,
      i_rdonly = False, i_hsb = 3\<rparr>" by (simp add: example_vfs_def)
  ultimately show ?thesis using example_dinfo_ok example_iinfo_ok
    by (simp add: pin_ready_def example_pin_env_def example_pin_world_def example_dinfo_def)
qed

theorem au_pin_balanced_witness:
  "\<exists>p w' p'. au_pin quiet_kern example_sbinfo example_pin_env 2 AuOpt_UDBA_REVAL AuPin_MNT_WRITE example_pin_world
      = Some (0, p, w')
    \<and> au_unpin example_pin_env p w' = Some (p', example_pin_world) \<and> lw_mutex (pw_L w') = {3}"
proof -
  obtain err p w' where r: "au_pin quiet_kern example_sbinfo example_pin_env 2 AuOpt_UDBA_REVAL AuPin_MNT_WRITE
      example_pin_world = Some (err, p, w')"
    "err = 0 \<longrightarrow> (\<exists>p'. au_unpin example_pin_env p w' = Some (p', example_pin_world))
        \<and> (\<not> pn_root example_pin_env \<longrightarrow> (\<exists>hp i. au_h_dptr (pn_pdi example_pin_env) (lw_v (pw_L example_pin_world)) 2 = Some (Some hp)
              \<and> d_ino (pw_L w') hp = Some (Some i) \<and> lw_mutex (pw_L w') = insert i (lw_mutex (pw_L example_pin_world))))"
    using au_pin_balanced [OF example_pin_ready, of AuOpt_UDBA_REVAL AuPin_MNT_WRITE] by auto
  have sbr: "\<exists>br. au_sbr example_sbinfo 2 = Some br" by (simp add: au_sbr_def arr_get_def example_sbinfo_def)
  have hi: "hdir_inode example_iinfo 2 = Some (Some 3)"
    by (simp add: hdir_inode_def example_iinfo_def arr_get_def)
  have hp: "au_h_dptr example_dinfo example_vfs 2 = Some (Some 102)"
    by (simp add: au_h_dptr_def au_dbstart_def example_dinfo_def example_vfs_def arr_get_def)
  have i: "dents example_vfs 102 = Some \<lparr>d_count = 3, d_inode = Some 3, d_mounted = False, d_hsb = 3\<rparr>"
    "inos example_vfs 3 = Some \<lparr>i_count = 1, i_nlink = 0, i_ino = 33, i_generation = 9, i_fmt = 16384,
      i_rdonly = False, i_hsb = 3\<rparr>" by (simp_all add: example_vfs_def)
  have fl: "\<not> au_ftest_pin AuPin_MNT_WRITE AuPin_DI_LOCKED" "au_ftest_pin AuPin_MNT_WRITE AuPin_MNT_WRITE"
    by (simp_all add: au_ftest_pin_def AuPin_MNT_WRITE_def AuPin_DI_LOCKED_def)
  obtain br where br: "au_sbr example_sbinfo 2 = Some br" using sbr by blast
  have "err = 0 \<and> lw_mutex (pw_L w') = {3}" using r(1) br hi hp i fl
    by (auto simp: au_pin_def au_do_pin_def au_pin_init_def example_pin_env_def example_pin_world_def Let_def au_dbend_def
        pin_want_write_def quiet_kern_def au_igrab_def get_inode_def au_pin_hdir_lock_def mutex_lock_def d_ino_def)
  then show ?thesis using r by auto
qed

end
