(* ===== verification/Unlink.thy ===== *)
theory Unlink
  imports Whout_Ops Pin Lookup_Found Wbr_Policy
begin

text \<open>
  Removing entries (\<open>i_op_del.c\<close>): the branch to work on, the whiteout that hides what is below, the
  removal in the lower directory, and the way back when that fails. The properties say what a lookup
  of the name finds afterwards.
\<close>

section \<open>State\<close>

text \<open>
  The dentry, the parent's dentry and inode, the superblock, the inode that is removed
  (\<open>dl_ii\<close> its table, \<open>dl_fmt\<close> its type, \<open>dl_nlink\<close> its links), whether the dentry is hashed, and the
  version of the directory. \<open>dl_cnt\<close> is the counter of the temporary names.
\<close>

record del_st =
  dl_w :: pin_world
  dl_di :: au_dinfo
  dl_pdi :: au_dinfo
  dl_pii :: au_iinfo
  dl_sbi :: au_sbinfo
  dl_ii :: au_iinfo
  dl_fmt :: int
  dl_nlink :: u32
  dl_hashed :: bool
  dl_dirver :: u64
  dl_cnt :: u16

text \<open>
  \<open>de_copyup\<close>: the copy-up policy of the mount for this dentry. \<open>de_cpup_dirs\<close>: \<open>au_cpup_dirs\<close> of
  \<open>cpup.c\<close>. \<open>de_lock\<close>: the result of \<open>aufs_read_lock\<close>. \<open>de_gen\<close>: the generation in a slab object.
\<close>

record del_env =
  de_k :: kern
  del_name :: "u8 list"
  de_copyup :: "wstate \<Rightarrow> (int \<times> wstate) option"
  de_cpup_dirs :: "bindex \<Rightarrow> del_st \<Rightarrow> (int \<times> del_st) option"
  de_lock :: int
  de_gen :: u32

definition dl_L :: "del_st \<Rightarrow> lower" where "dl_L st = pw_L (dl_w st)"
definition set_L :: "lower \<Rightarrow> del_st \<Rightarrow> del_st" where "set_L L st = st\<lparr>dl_w := (dl_w st)\<lparr>pw_L := L\<rparr>\<rparr>"
definition dl_pin :: "del_st \<Rightarrow> pin_env" where
  "dl_pin st = \<lparr>pn_root = False, pn_di = dl_di st, pn_pdi = dl_pdi st, pn_pii = dl_pii st\<rparr>"

section \<open>The branch and the need for a whiteout\<close>

text \<open>The lookup below the first branch in a temporary table: \<open>au_di_cp\<close>, \<open>au_di_swap\<close>, and both back.\<close>

definition need_below :: "del_env \<Rightarrow> del_st \<Rightarrow> (int \<times> del_st) option" where
  "need_below e st =
     (let L = dl_L st; mem = lw_mem L; mem1 = snd (take_alloc (snd (take_alloc mem)))
      in case au_di_alloc (dl_sbi st) (de_gen e) mem of
           None \<Rightarrow> Some (- ENOMEM, set_L (L\<lparr>lw_mem := mem1\<rparr>) st)
         | Some tmp \<Rightarrow>
             let tmp1 = au_di_cp tmp (dl_di st);
                 (tmp2, di2) = au_di_swap tmp1 (dl_di st)
             in Option.bind (au_lkup_dentry (kn_cfg (de_k e)) (kn_lkup (de_k e) L) (dl_sbi st) (dl_pdi st)
                   (Some (dl_fmt st)) (del_name e) (au_dbstart di2 + 1) 0 (di2, lw_v L, mem1)) (\<lambda>(r, di3, v, mem2).
                let (tmp4, di4) = au_di_swap tmp2 di3
                in map_option (\<lambda>v'. (r, set_L (L\<lparr>lw_v := v', lw_mem := mem2\<rparr>) (st\<lparr>dl_di := di4\<rparr>)))
                     (au_di_free tmp4 v)))"

definition au_wr_dir_need_wh :: "del_env \<Rightarrow> bindex \<Rightarrow> del_st \<Rightarrow> (int \<times> bindex \<times> del_st) option" where
  "au_wr_dir_need_wh e bcpup st =
     (let bstart = au_dbstart (dl_di st); ro = (\<lambda>b. au_test_ro (dl_sbi st) b (Some (dl_ii st)) (lw_v (dl_L st)) (kn_immutable (de_k e) (dl_L st)))
      in Option.bind
           (if bcpup < 0
            then Option.bind (ro bstart) (\<lambda>r.
                 if r = 0 then Some (bstart, bstart, st)
                 else map_option (\<lambda>(err, sbi, mem). (err, err, set_L ((dl_L st)\<lparr>lw_mem := mem\<rparr>) (st\<lparr>dl_sbi := sbi\<rparr>)))
                        (de_copyup e (dl_sbi st, lw_mem (dl_L st))))
            else if bstart < bcpup then None
            else Option.bind (ro bcpup) (\<lambda>r. if r \<noteq> 0 then None else Some (0, bcpup, st))) (\<lambda>(err, b, st1).
         if err < 0 then Some (err, b, st1)
         else if b \<noteq> bstart
         then map_option (\<lambda>(err, st2). (if err \<noteq> 0 then err else 1, b, st2)) (de_cpup_dirs e b st1)
         else map_option (\<lambda>(r, st2). (r, b, st2)) (need_below e st1)))"

section \<open>Tests before a removal\<close>

definition au_may_del :: "kern \<Rightarrow> au_sbinfo \<Rightarrow> bool \<Rightarrow> au_dinfo \<Rightarrow> u8 list \<Rightarrow> bindex \<Rightarrow> dptr \<Rightarrow> bool \<Rightarrow> lower
    \<Rightarrow> (int \<times> lower) option" where
  "au_may_del k sbi positive_dentry di name bindex h_parent isdir L =
     Option.bind (au_h_dptr di (lw_v L) bindex) (\<lambda>h. Option.bind h (\<lambda>h_dentry.
     Option.bind (d_ino L h_dentry) (\<lambda>h_inode.
     Option.bind (case h_inode of None \<Rightarrow> Some None | Some i \<Rightarrow> map_option Some (inos (lw_v L) i)) (\<lambda>x.
     let e1 = (if positive_dentry
               then case x of
                      None \<Rightarrow> - ENOENT
                    | Some x \<Rightarrow> if i_nlink x = 0 then - ENOENT
                                else if \<not> isdir then if i_fmt x = S_IFDIR then - EISDIR else 0
                                else if i_fmt x \<noteq> S_IFDIR then - ENOTDIR else 0
               else if x \<noteq> None then - EIO else 0)
     in if e1 \<noteq> 0 then Some (e1, L)
        else if h_parent \<noteq> lw_parent L h_dentry then Some (- ENOENT, L)
        else if \<not> au_opt_test (au_mntflags sbi) AuOpt_DIRPERM1 \<and> kn_perm k h_parent L \<noteq> 0 then Some (- EACCES, L)
        else Option.bind (au_sio_lkup_one (kn_lkup k L) h_parent name (lw_v L)) (\<lambda>(r, v).
             case r of
               Inl e \<Rightarrow> Some (- EIO, L\<lparr>lw_v := v\<rparr>)
             | Inr h_latest \<Rightarrow>
                 map_option (\<lambda>v'. (if h_latest = h_dentry then 0 else - EIO, L\<lparr>lw_v := v'\<rparr>))
                   (put_dentry h_latest v))))))"

text \<open>
  \<open>lock_hdir_create_wh\<close>: the error, or the whiteout (if one is needed) with the pin. The last flag asks
  for a new base of the whiteouts.
\<close>

definition au_opt_udba :: "kern \<Rightarrow> au_sbinfo \<Rightarrow> int" where
  "au_opt_udba k sbi = and (au_mntflags sbi) (AuOptMask_UDBA (kn_cfg k))"

definition lock_hdir_create_wh :: "del_env \<Rightarrow> bool \<Rightarrow> bindex \<Rightarrow> del_st
    \<Rightarrow> ((int + dptr option \<times> pin_data) \<times> bindex \<times> bool \<times> del_st) option" where
  "lock_hdir_create_wh e isdir rbcpup st =
     (let k = de_k e in
      Option.bind (au_wr_dir_need_wh e rbcpup st) (\<lambda>(need_wh, bcpup, st1).
      if need_wh < 0 then Some (Inl need_wh, bcpup, False, st1)
      else
        let udba = au_opt_udba k (dl_sbi st1)
        in Option.bind (au_pin k (dl_sbi st1) (dl_pin st1) bcpup udba (or AuPin_DI_LOCKED AuPin_MNT_WRITE) (dl_w st1))
             (\<lambda>(err, p, w).
           let st2 = st1\<lparr>dl_w := w\<rparr>
           in if err \<noteq> 0 then Some (Inl err, bcpup, False, st2)
              else
                Option.bind (au_pinned_h_parent (dl_pin st2) p (dl_L st2)) (\<lambda>hp. Option.bind hp (\<lambda>h_parent.
                Option.bind (if udba \<noteq> AuOpt_UDBA_NONE \<and> au_dbstart (dl_di st2) = bcpup
                             then au_may_del k (dl_sbi st2) True (dl_di st2) (del_name e) bcpup h_parent isdir (dl_L st2)
                             else Some (0, dl_L st2)) (\<lambda>(err, L3).
                let st3 = set_L L3 st2;
                    leave = (\<lambda>err kick st. map_option (\<lambda>(p, w). (Inl err, bcpup, kick, st\<lparr>dl_w := w\<rparr>))
                               (au_unpin (dl_pin st) p (dl_w st)))
                in if err \<noteq> 0 then leave err False st3
                   else if need_wh = 0 then Some (Inr (None, p), bcpup, False, st3)
                   else
                     Option.bind (au_wh_create k (dl_sbi st3) bcpup h_parent (del_name e) (dl_di st3, L3))
                       (\<lambda>(r, kick, di, L4).
                     let st4 = set_L L4 (st3\<lparr>dl_di := di\<rparr>)
                     in case r of
                          Inl err \<Rightarrow> leave err kick st4
                        | Inr wh \<Rightarrow> Some (Inr (Some wh, p), bcpup, kick, st4))))))))"

section \<open>After the removal\<close>

text \<open>\<open>epilog\<close>; the times and the size of the directory are not part of the state.\<close>

definition del_epilog :: "del_st \<Rightarrow> del_st" where
  "del_epilog st = st\<lparr>dl_hashed := False, dl_dirver := dl_dirver st + 1\<rparr>"

definition vfsub_drop_nlink :: "u32 \<Rightarrow> u32 option" where
  "vfsub_drop_nlink n = (if n = 0 then None else Some (n - 1))"

definition do_revert :: "kern \<Rightarrow> int \<Rightarrow> dptr \<Rightarrow> bindex \<Rightarrow> del_st \<Rightarrow> (int \<times> del_st) option" where
  "do_revert k err wh_dentry bwh st =
     map_option (\<lambda>(rerr, di, L1).
        if rerr = 0 then (0, set_L L1 (st\<lparr>dl_di := au_set_dbwh bwh (the di)\<rparr>))
        else (- EIO, set_L L1 (st\<lparr>dl_di := the di\<rparr>)))
       (au_wh_unlink_dentry k (lw_parent (dl_L st) wh_dentry) wh_dentry (Some (dl_di st)) (dl_L st))"

text \<open>The common end: the pin and the references of the whiteout and of the lower dentry are given back.\<close>

definition del_unpin :: "pin_data \<Rightarrow> dptr option \<Rightarrow> dptr \<Rightarrow> del_st \<Rightarrow> del_st option" where
  "del_unpin p wh h_d st =
     Option.bind (au_unpin (dl_pin st) p (dl_w st)) (\<lambda>(_, w).
     Option.bind (dput_in wh (pw_L w)) (\<lambda>L1.
     map_option (\<lambda>L2. set_L L2 (st\<lparr>dl_w := w\<rparr>)) (dput_in (Some h_d) L1)))"

section \<open>\<open>unlink\<close>\<close>

text \<open>The part between \<open>lock_hdir_create_wh\<close> and \<open>out_unpin\<close>.\<close>

definition unlink_pinned :: "del_env \<Rightarrow> bindex \<Rightarrow> bindex \<Rightarrow> bindex \<Rightarrow> pin_data \<Rightarrow> dptr option \<Rightarrow> dptr \<Rightarrow> del_st
    \<Rightarrow> (int \<times> del_st) option" where
  "unlink_pinned e bstart bwh bindex p wh h_d st =
     (let k = de_k e; L = dl_L st in
      Option.bind (if bindex = bstart
                   then Option.bind (au_pinned_h_parent (dl_pin st) p L) (\<lambda>hp. Option.bind hp (\<lambda>h_dir.
                        vfsub_unlink k h_dir h_d False L))
                   else Option.bind wh (\<lambda>w. map_option (\<lambda>_. (0, L)) (IMustLock L (lw_parent L w)))) (\<lambda>(err, L1).
      let st1 = set_L L1 st
      in if err = 0
         then Option.bind (vfsub_drop_nlink (dl_nlink st1)) (\<lambda>n.
              Option.bind (if bindex = bstart then Option.bind (d_ino L1 h_d) id else Some 0) (\<lambda>_.
              Some (0, del_epilog (st1\<lparr>dl_nlink := n\<rparr>))))
         else case wh of
                None \<Rightarrow> Some (err, st1)
              | Some w \<Rightarrow> map_option (\<lambda>(rerr, st2). (if rerr \<noteq> 0 then rerr else err, st2)) (do_revert k err w bwh st1)))"

definition au_d_hashed_positive :: "del_st \<Rightarrow> int" where
  "au_d_hashed_positive st = (if \<not> dl_hashed st \<or> dl_nlink st = 0 then - ENOENT else 0)"

definition aufs_unlink :: "del_env \<Rightarrow> del_st \<Rightarrow> (int \<times> bool \<times> del_st) option" where
  "aufs_unlink e st0 =
     (let L0 = dl_L st0; (ok, mem) = take_alloc (lw_mem L0); st = set_L (L0\<lparr>lw_mem := mem\<rparr>) st0
      in if \<not> ok then Some (- ENOMEM, False, st)
         else if de_lock e \<noteq> 0 then Some (de_lock e, False, st)
         else if au_d_hashed_positive st \<noteq> 0 then Some (au_d_hashed_positive st, False, st)
         else if dl_fmt st = S_IFDIR then Some (- EISDIR, False, st)
         else
           let bstart = au_dbstart (dl_di st); bwh = au_dbwh (dl_di st)
           in Option.bind (lock_hdir_create_wh e False (- 1) st) (\<lambda>(r, bindex, kick, st1).
              case r of
                Inl err \<Rightarrow> Some (err, kick, st1)
              | Inr (wh, p) \<Rightarrow>
                  Option.bind (au_h_dptr (dl_di st1) (lw_v (dl_L st1)) bstart) (\<lambda>h. Option.bind h (\<lambda>h_d.
                  Option.bind (dget_in h_d (dl_L st1)) (\<lambda>L2.
                  Option.bind (unlink_pinned e bstart bwh bindex p wh h_d (set_L L2 st1)) (\<lambda>(err, st3).
                  map_option (\<lambda>st4. (err, kick, st4)) (del_unpin p wh h_d st3)))))))"

end
