(* ===== verification/Lookup_Below.thy ===== *)
theory Lookup_Below
  imports Lookup_Found
begin

text \<open>
  The lookup below the first branch of a file, in a temporary table (\<open>au_wr_dir_need_wh\<close> of
  \<open>i_op_del.c\<close>): what it counts, and that nothing stays behind when the table is freed.
\<close>

section \<open>Freeing a table changes counts only\<close>

definition same_objs :: "vfs \<Rightarrow> vfs \<Rightarrow> bool" where
  "same_objs v v' \<longleftrightarrow> inos v' = inos v \<and> (\<forall>e. map_option d_inode (dents v' e) = map_option d_inode (dents v e))"

lemma same_objs_refl: "same_objs v v"
  by (simp add: same_objs_def)

lemma same_objs_trans: "same_objs u v \<Longrightarrow> same_objs v w \<Longrightarrow> same_objs u w"
  by (simp add: same_objs_def)

lemma same_objs_fmt:
  assumes "same_objs v v'"
  shows "d_fmt v' = d_fmt v" "i_refs v' = i_refs v"
proof -
  have i: "inos v' = inos v" using assms by (simp add: same_objs_def)
  show "d_fmt v' = d_fmt v"
  proof
    fix e
    have "map_option d_inode (dents v' e) = map_option d_inode (dents v e)" using assms by (simp add: same_objs_def)
    then show "d_fmt v' e = d_fmt v e" using i
      by (cases "dents v e"; cases "dents v' e") (auto simp: d_fmt_def split: option.splits)
  qed
  show "i_refs v' = i_refs v" by (simp add: i_refs_def fun_eq_iff i)
qed

lemma put_objs: "put_dentry d v = Some v' \<Longrightarrow> same_objs v v'"
  by (auto simp: put_dentry_def same_objs_def split: option.splits if_splits)

lemma free_objs:
  assumes "au_di_free di v = Some v'"
  shows "same_objs v v'"
proof (cases "0 \<le> di_bstart di")
  case True
  have step: "same_objs v v'" if "Option.bind (arr_get (di_hdentry di) b) (\<lambda>h. au_hdput h v) = Some v'" for b v v'
  proof -
    obtain h where "au_hdput h v = Some v'" using \<open>_ = Some v'\<close> by (auto simp: bind_eq_Some_conv)
    then show ?thesis by (cases "hd_dentry h") (auto simp: au_hdput_def same_objs_refl intro: put_objs)
  qed
  have "same_objs v v'" if "loop_up (\<lambda>b v. Option.bind (arr_get (di_hdentry di) b) (\<lambda>h. au_hdput h v)) a e v = Some v'"
    for a e v v'
    using that
  proof (induction "nat (e + 1 - a)" arbitrary: a v)
    case 0
    then show ?case by (simp add: loop_up.simps [of _ a] same_objs_refl)
  next
    case (Suc m)
    then have "a \<le> e" by linarith
    then obtain w where w: "Option.bind (arr_get (di_hdentry di) a) (\<lambda>h. au_hdput h v) = Some w"
      "loop_up (\<lambda>b v. Option.bind (arr_get (di_hdentry di) b) (\<lambda>h. au_hdput h v)) (a + 1) e w = Some v'"
      using Suc.prems \<open>a \<le> e\<close>
      by (cases "Option.bind (arr_get (di_hdentry di) a) (\<lambda>h. au_hdput h v)") (auto simp: loop_up.simps [of _ a])
    have "m = nat (e + 1 - (a + 1))" using Suc.hyps(2) by linarith
    then have "same_objs w v'" by (rule Suc.hyps(1)) (rule w(2))
    then show ?case using step [OF w(1)] same_objs_trans by blast
  qed
  then show ?thesis using assms True by (simp add: au_di_free_def)
next
  case False
  then show ?thesis using assms by (simp add: au_di_free_def same_objs_refl)
qed

section \<open>The lookup\<close>

text \<open>The table that \<open>au_di_cp\<close> and \<open>au_di_swap\<close> give to the dentry of a file found at \<open>b\<close>.\<close>

definition below_dinfo :: "nat \<Rightarrow> bindex \<Rightarrow> au_dinfo \<Rightarrow> bool" where
  "below_dinfo n b di \<longleftrightarrow> di_bstart di = b \<and> di_bend di = b \<and> di_bwh di = - 1 \<and> dslots di = replicate n None"

lemma below_at:
  assumes "below_dinfo n b di"
  shows "lk_at v n (\<lambda>j. None) \<lparr>lk_di = di, lk_v = v, lk_npositive = 0, lk_type = 0, lk_allow_neg = True,
           lk_ignore_perm = False, lk_err = 0\<rparr>"
proof -
  have "held (replicate n None) d = 0" for d :: dptr by (induction n) (simp_all add: held_def)
  then have "map_option (\<lambda>m. m + held (replicate n None) d) (d_refs v d) = d_refs v d" for d
    by (simp add: option.map_ident)
  then show ?thesis using assms same_fs_refl
    by (simp add: lk_at_def below_dinfo_def map_replicate_const)
qed

lemma lkup_below:
  assumes hyp: "lk_hyp env child v sbi pdi (au_dbtaildir pdi) n" and di: "below_dinfo n b0 di" and b0: "0 \<le> b0" "b0 < int n"
    and ino: "ino \<noteq> Some S_IFDIR" and name: "au_test_shwh cfg sbi name = 0" "length name \<le> 4092"
    and M: "M = merged (lower_view child v sbi pdi name) False [b0 + 1..au_dbtaildir pdi]"
    and mem: "take_alloc mem = (True, mem')"
  shows "\<exists>di' v'. au_lkup_dentry cfg env sbi pdi ino name (b0 + 1) 0 (di, v, mem) = Some (int (length M), di', v', mem')
    \<and> di_owns v' di' \<and> di_in_range di' \<and> d_foreign v' (dslots di') = d_refs v \<and> same_objs v v'"
proof -
  let ?s0 = "\<lparr>lk_di = di, lk_v = v, lk_npositive = 0, lk_type = 0, lk_allow_neg = True,
               lk_ignore_perm = False, lk_err = 0\<rparr>"
  let ?e = "au_dbtaildir pdi" and ?dp = "au_opt_test (au_mntflags sbi) AuOpt_DIRPERM1"
  define V where "V = lookup_view ino child v sbi pdi name"
  define B where "B = [b0 + 1..?e]"
  define N where "N = first_neg V B"
  have fields: "merged V d bs = merged (lower_view child v sbi pdi name) d bs" for d bs
    unfolding V_def by (induction bs arbitrary: d) (simp_all split: option.splits)
  have MV: "M = merged V False B" using M fields by (simp add: B_def)
  have d: "di_bstart di = b0" "di_bend di = b0" "di_bwh di = - 1" using di by (simp_all add: below_dinfo_def)
  have "\<exists>stop s'. scan_up (lkup_step env sbi pdi ino name (AUFS_WH_PFX @ name) 0 ?dp) (b0 + 1) ?e ?s0 = Some (stop, s')
      \<and> lk_res v n V (\<lambda>j. None) (lk_di ?s0) (first_neg V [b0 + 1..?e] @ M) (wh_end V False [b0 + 1..?e]) s'
      \<and> lk_npositive s' = lk_npositive ?s0 + int (length M)"
    by (rule lkup_first [OF hyp V_def ino below_at [OF di]]) (use b0 d MV in \<open>simp_all add: B_def\<close>)
  then obtain stop s' where
      scan: "scan_up (lkup_step env sbi pdi ino name (AUFS_WH_PFX @ name) 0 ?dp) (b0 + 1) ?e ?s0 = Some (stop, s')"
    and res: "lk_res v n V (\<lambda>j. None) di (N @ M) (wh_end V False B) s'" and np: "lk_npositive s' = int (length M)"
    unfolding N_def B_def by auto
  have r: "holds v n V (N @ M) (lk_di s', lk_v s')" "same_fs v (lk_v s')" "lk_err s' = 0"
    "di_bstart (lk_di s') = b0" "di_bend (lk_di s') = (if N @ M \<noteq> [] then last (N @ M) else b0)"
    using res lk_at_holds b0 unfolding lk_res_def lk_at_def d by auto
  have range: "\<forall>j \<in> set (N @ M). b0 < j \<and> j < int n"
    using merged_ent [of _ V False B] first_neg_ent [of _ V B] hyp unfolding MV N_def B_def lk_hyp_def by fastforce
  have nodir: "\<not> lv_dir V b \<Longrightarrow> lv_ent V b = None \<and> \<not> lv_wh V b" for b
    using view_nodir [of child v sbi pdi name b] by (simp add: V_def)
  have sorted: "sorted_wrt (<) (N @ M)" unfolding N_def MV
    by (rule neg_merged_sorted [OF nodir]) (auto simp: B_def)
  have ok: "lower_ok env child v" using hyp by (simp add: lk_hyp_def)
  have live: "\<forall>j \<in> set (N @ M). live v (lv_child V j)" using view_live [OF ok] V_def by simp
  have run: "au_lkup_dentry cfg env sbi pdi ino name (b0 + 1) 0 (di, v, mem) =
      Option.bind (if M \<noteq> [] then au_update_dbstart sbi (lk_di s', lk_v s') else Some (lk_di s', lk_v s'))
        (\<lambda>(di', v'). Some (if \<not> au_opt_test (au_mntflags sbi) AuOpt_UDBA_NONE \<and> au_dbstart di' < 0 then - EIO
                          else int (length M), di', v', mem'))"
    using name scan r(3) np mem by (simp add: au_lkup_dentry_def au_wh_name_alloc_def PATH_MAX_def cong: if_cong)
  have so: "same_objs v (lk_v s')" using r(2) by (simp add: same_fs_def same_objs_def)
  text \<open>What follows from a table that holds the branches \<open>L\<close>.\<close>
  have fin: "di_owns v' di' \<and> di_in_range di' \<and> d_foreign v' (dslots di') = d_refs v"
    if h: "holds v n V L (di', v')" and L: "set L \<subseteq> set (N @ M)" and b: "0 \<le> di_bstart di'"
      "\<forall>j \<in> set L. di_bstart di' \<le> j \<and> j \<le> di_bend di'" "di_bstart di' \<le> di_bend di'" "di_bend di' < int n" for L di' v'
  proof -
    have sl: "dslots di' = map (\<lambda>k. if int k \<in> set L then Some (lv_child V (int k)) else None) [0..<n]"
      using h by (simp add: holds_def)
    have len: "length (di_hdentry di') = n" using arg_cong [OF sl, of length] by simp
    have "0 \<le> di_bstart di' \<and> di_bstart di' \<le> int k \<and> int k \<le> di_bend di'" if k: "k < n" "dslots di' ! k \<noteq> None" for k
    proof -
      have "dslots di' ! k = (if int k \<in> set L then Some (lv_child V (int k)) else None)" unfolding sl using k(1) by simp
      then have "int k \<in> set L" using k(2) by (simp split: if_splits)
      then show ?thesis using b(1,2) by blast
    qed
    then have "di_in_range di'" using b(1,3,4) by (simp add: di_in_range_def len)
    moreover have "di_owns v' di'" "d_foreign v' (dslots di') = d_refs v"
      using holds_owns [OF h] live L by blast+
    ultimately show ?thesis by blast
  qed
  have bend: "di_bend (lk_di s') < int n \<and> b0 \<le> di_bend (lk_di s')"
  proof (cases "N @ M = []")
    case True
    then show ?thesis using r(5) b0 by simp
  next
    case False
    then have "di_bend (lk_di s') = last (N @ M)" using r(5) by (simp only: not_False_eq_True if_True)
    moreover have "b0 < last (N @ M) \<and> last (N @ M) < int n" by (rule bspec [OF range last_in_set [OF False]])
    ultimately show ?thesis by simp
  qed
  show ?thesis
  proof (cases "M = []")
    case True
    have "\<forall>j \<in> set (N @ M). di_bstart (lk_di s') \<le> j \<and> j \<le> di_bend (lk_di s')"
    proof
      fix j
      assume j: "j \<in> set (N @ M)"
      then have ne: "N @ M \<noteq> []" by (metis empty_iff empty_set)
      then have "di_bend (lk_di s') = last (N @ M)" using r(5) by (simp only: not_False_eq_True if_True)
      moreover have "b0 < j" by (rule conjunct1 [OF bspec [OF range j]])
      ultimately show "di_bstart (lk_di s') \<le> j \<and> j \<le> di_bend (lk_di s')"
        using last_sorted [OF sorted j] unfolding r(4) by linarith
    qed
    then show ?thesis using fin [OF r(1) order_refl] r(4) b0 bend so True
      unfolding run by (intro exI [of _ "lk_di s'"] exI [of _ "lk_v s'"]) (simp add: au_dbstart_def)
  next
    case False
    have dir: "fmt v (lv_child V j) = lv_ent V j" if "lv_ent V j \<noteq> None \<or> lv_dir V j" for j
      using that by (auto simp: V_def lower_view_def Let_def)
    have Ndir: "lv_dir V j" if "j \<in> set N" for j
      using that unfolding N_def by (induction B) (auto split: if_splits)
    have ent: "\<forall>j \<in> set (N @ M). fmt v (lv_child V j) \<noteq> None \<longleftrightarrow> j \<in> set M"
    proof
      fix j
      assume "j \<in> set (N @ M)"
      then show "fmt v (lv_child V j) \<noteq> None \<longleftrightarrow> j \<in> set M"
        using dir [of j] Ndir [of j] merged_ent [of j V False B] first_neg_ent [of j V B] unfolding N_def MV by auto
    qed
    have range0: "\<forall>j \<in> set (N @ M). 0 \<le> j \<and> j < int n"
    proof
      fix j
      assume "j \<in> set (N @ M)"
      then show "0 \<le> j \<and> j < int n" using bspec [OF range, of j] b0(1) by linarith
    qed
    have "N @ M \<noteq> []" using False by simp
    then have hd: "b0 \<le> hd (N @ M)" using bspec [OF range hd_in_set [of "N @ M"]] by linarith
    obtain hs v' where u: "au_update_dbstart sbi (lk_di s', lk_v s')
        = Some ((lk_di s')\<lparr>di_hdentry := hs, di_bstart := hd M\<rparr>, v')"
      "holds v n V M ((lk_di s')\<lparr>di_hdentry := hs, di_bstart := hd M\<rparr>, v')" "same_objs (lk_v s') v'"
      using drop_negative [OF r(1,2) live ent sorted range0 False, of sbi] r(4,5) False b0 hd
      by (auto simp: same_objs_def)
    have sM: "sorted_wrt (<) M" using sorted by (simp add: sorted_wrt_append)
    have hM: "hd M \<in> set M" "last M \<in> set M" using False by simp_all
    have "\<forall>j \<in> set M. hd M \<le> j \<and> j \<le> last M" using hd_sorted [OF sM] last_sorted [OF sM] by blast
    moreover have "di_bend (lk_di s') = last M" "0 \<le> hd M" "last M < int n" "hd M \<le> last M"
      using r(5) False range0 hM hd_sorted [OF sM hM(2)] by auto
    ultimately have "di_owns v' ((lk_di s')\<lparr>di_hdentry := hs, di_bstart := hd M\<rparr>)
      \<and> di_in_range ((lk_di s')\<lparr>di_hdentry := hs, di_bstart := hd M\<rparr>)
      \<and> d_foreign v' (dslots ((lk_di s')\<lparr>di_hdentry := hs, di_bstart := hd M\<rparr>)) = d_refs v"
      by (intro fin [OF u(2)]) auto
    moreover have "same_objs v v'" using so u(3) same_objs_trans by blast
    ultimately show ?thesis using False u(1) \<open>0 \<le> hd M\<close> unfolding run
      by (intro exI [of _ "(lk_di s')\<lparr>di_hdentry := hs, di_bstart := hd M\<rparr>"] exI [of _ v']) (simp add: au_dbstart_def)
  qed
qed

end
