(* ===== verification/Lower_Tree.thy ===== *)
theory Lower_Tree
  imports Pin Whout_Ops Lookup_Found
begin

text \<open>
  The lower file systems as a tree of names, types and references (\<open>tree\<close>), which is what a lookup of
  aufs can see, and the wrappers of \<open>vfsub.c\<close> and the operations on whiteouts as operations on it. What is
  relied on for the VFS is \<open>kern_ok\<close>: lookups answer with the dentry of the name; a dentry that someone
  else holds is unhashed by \<open>vfs_unlink\<close> and the name gets a new negative dentry; \<open>vfs_create\<close> and
  \<open>vfs_link\<close> make the negative dentry a regular file; a call that fails changes nothing.
\<close>

section \<open>The tree\<close>

record tree =
  t_names :: names
  t_fmt :: "dptr \<Rightarrow> int option option"
  t_refs :: "dptr \<Rightarrow> int option"
  t_mutex :: "iptr set"
  t_write :: "bindex \<Rightarrow> int"

definition tree_of :: "lower \<Rightarrow> tree" where
  "tree_of L = \<lparr>t_names = lw_names L, t_fmt = d_fmt (lw_v L), t_refs = d_refs (lw_v L), t_mutex = lw_mutex L,
     t_write = lw_write L\<rparr>"

definition inc :: "dptr \<Rightarrow> (dptr \<Rightarrow> int option) \<Rightarrow> dptr \<Rightarrow> int option" where
  "inc d r = r(d := map_option (\<lambda>n. n + 1) (r d))"
definition dec :: "dptr \<Rightarrow> (dptr \<Rightarrow> int option) \<Rightarrow> dptr \<Rightarrow> int option" where
  "dec d r = r(d := map_option (\<lambda>n. n - 1) (r d))"

lemma dec_inc [simp]: "dec d (inc d r) = r" "inc d (dec d r) = r"
  by (auto simp: inc_def dec_def fun_eq_iff option.map_comp comp_def option.map_ident)

lemma dec_inc_swap: "dec d (inc e r) = inc e (dec d r)"
  by (cases "r d"; cases "d = e") (auto simp: inc_def dec_def fun_eq_iff)

text \<open>Dentries keep their place, inodes their references, and directories their inode.\<close>

definition keeps_tree :: "lower \<Rightarrow> lower \<Rightarrow> bool" where
  "keeps_tree L L' \<longleftrightarrow> lw_parent L' = lw_parent L \<and> lw_dname L' = lw_dname L
     \<and> (\<forall>i n. i_refs (lw_v L) i = Some n \<longrightarrow> i_refs (lw_v L') i = Some n)
     \<and> (\<forall>d. d_fmt (lw_v L) d = Some (Some S_IFDIR) \<longrightarrow> d_ino L' d = d_ino L d)"

definition fs_ok :: "lower \<Rightarrow> bool" where
  "fs_ok L \<longleftrightarrow> (\<forall>p n. live (lw_v L) (lw_names L p n))
     \<and> (\<forall>p n. fmt (lw_v L) (lw_names L p (AUFS_WH_PFX @ n)) \<in> {None, Some S_IFREG})
     \<and> (\<forall>p n. lw_parent L (lw_names L p n) = p \<and> lw_dname L (lw_names L p n) = n)
     \<and> (\<forall>i n. i_refs (lw_v L) i = Some n \<longrightarrow> 0 < n) \<and> parents_exist L"

text \<open>Nothing is seen to change.\<close>

definition same_tree :: "lower \<Rightarrow> lower \<Rightarrow> bool" where
  "same_tree L L' \<longleftrightarrow> tree_of L' = tree_of L \<and> keeps_tree L L' \<and> (fs_ok L \<longrightarrow> fs_ok L')"

lemma fs_ok_irefs: "fs_ok L \<Longrightarrow> i_refs (lw_v L) i = Some n \<Longrightarrow> 0 < n"
  by (simp add: fs_ok_def)

lemma live_iff: "live v d \<longleftrightarrow> (\<exists>n. d_refs v d = Some n \<and> 0 \<le> n) \<and> d_fmt v d \<noteq> None"
  by (auto simp: live_def d_refs_def d_fmt_def split: option.splits)

lemma dents_refs: "dents v d = None \<longleftrightarrow> d_refs v d = None"
  by (simp add: d_refs_def)

lemma fs_ok_same:
  assumes "fs_ok L" and "tree_of L' = (tree_of L)\<lparr>t_refs := r, t_mutex := m, t_write := w\<rparr>"
    and "lw_parent L' = lw_parent L" and "lw_dname L' = lw_dname L"
    and "\<And>d n. d_refs (lw_v L) d = Some n \<Longrightarrow> 0 \<le> n \<Longrightarrow> \<exists>n'. r d = Some n' \<and> 0 \<le> n'"
    and "\<And>d. r d = None \<longleftrightarrow> d_refs (lw_v L) d = None" and "\<And>i n. i_refs (lw_v L') i = Some n \<Longrightarrow> 0 < n"
  shows "fs_ok L'"
proof -
  have t: "lw_names L' = lw_names L" "d_fmt (lw_v L') = d_fmt (lw_v L)" "d_refs (lw_v L') = r"
    using assms(2) by (simp_all add: tree_of_def)
  have f: "fmt (lw_v L') = fmt (lw_v L)" by (simp add: fmt_def fun_eq_iff t)
  show ?thesis using assms(1,3-7) unfolding fs_ok_def live_iff parents_exist_def dents_refs t f
    by (metis (no_types, lifting))
qed

lemma same_tree_refl: "same_tree L L"
  by (simp add: same_tree_def keeps_tree_def)

lemma keeps_tree_refl: "keeps_tree L L"
  by (simp add: keeps_tree_def)

lemma keeps_tree_trans:
  assumes "keeps_tree L L'" and "keeps_tree L' L''"
    and "\<And>d. d_fmt (lw_v L) d = Some (Some S_IFDIR) \<Longrightarrow> d_fmt (lw_v L') d = Some (Some S_IFDIR)"
  shows "keeps_tree L L''"
  using assms by (simp add: keeps_tree_def)

section \<open>The VFS\<close>

definition unlinked :: "dptr \<Rightarrow> lower \<Rightarrow> lower \<Rightarrow> bool" where
  "unlinked d L L' \<longleftrightarrow> keeps_tree L L' \<and> fs_ok L' \<and> (\<exists>d'. d_refs (lw_v L) d' = Some 0 \<and>
     tree_of L' = (tree_of L)\<lparr>t_names := (lw_names L)(lw_parent L d := (lw_names L (lw_parent L d))(lw_dname L d := d')),
                              t_fmt := (d_fmt (lw_v L))(d' := Some None)\<rparr>)"

definition made :: "dptr \<Rightarrow> lower \<Rightarrow> lower \<Rightarrow> bool" where
  "made d L L' \<longleftrightarrow> keeps_tree L L' \<and> fs_ok L'
     \<and> tree_of L' = (tree_of L)\<lparr>t_fmt := (d_fmt (lw_v L))(d := Some (Some S_IFREG))\<rparr>"

definition named :: "lower \<Rightarrow> dptr \<Rightarrow> bool" where
  "named L d \<longleftrightarrow> lw_names L (lw_parent L d) (lw_dname L d) = d"

definition kern_ok :: "kern \<Rightarrow> bool" where
  "kern_ok k \<longleftrightarrow>
     (\<forall>L sio p n. le_lkup (kn_lkup k L) sio p n = Inr (lw_names L p n)) \<and> (\<forall>L. le_wkq (kn_lkup k L) = 0)
     \<and> (\<forall>s. \<not> au_test_nfs (kn_cfg k) (kn_magics k) (kn_super k s))
     \<and> (\<forall>L dir d err L' n. fs_ok L \<longrightarrow> named L d \<longrightarrow> d_refs (lw_v L) d = Some n \<longrightarrow> 1 < n \<longrightarrow>
          kn_vfs k Rq_unlink dir d L = (err, L') \<longrightarrow> (if err = 0 then unlinked d L L' else same_tree L L'))
     \<and> (\<forall>L dir d err L' m. fs_ok L \<longrightarrow> named L d \<longrightarrow> d_fmt (lw_v L) d = Some None \<longrightarrow>
          kn_vfs k (Rq_create m) dir d L = (err, L') \<longrightarrow> (if err = 0 then made d L L' else same_tree L L'))
     \<and> (\<forall>L dir d err L' b. fs_ok L \<longrightarrow> named L d \<longrightarrow> d_fmt (lw_v L) d = Some None \<longrightarrow>
          d_fmt (lw_v L) b = Some (Some S_IFREG) \<longrightarrow>
          kn_vfs k (Rq_link b) dir d L = (err, L') \<longrightarrow> (if err = 0 then made d L L' else same_tree L L'))"

lemma kern_lookup:
  assumes "kern_ok k"
  shows "le_lkup (kn_lkup k L) sio p n = Inr (lw_names L p n)" and "le_wkq (kn_lkup k L) = 0"
    and "\<not> au_test_nfs (kn_cfg k) (kn_magics k) (kn_super k s)"
proof -
  note c = assms [unfolded kern_ok_def]
  show "le_lkup (kn_lkup k L) sio p n = Inr (lw_names L p n)" using conjunct1 [OF c] by simp
  show "le_wkq (kn_lkup k L) = 0" using conjunct1 [OF conjunct2 [OF c]] by simp
  show "\<not> au_test_nfs (kn_cfg k) (kn_magics k) (kn_super k s)"
    using conjunct1 [OF conjunct2 [OF conjunct2 [OF c]]] by simp
qed

lemma kern_unlink:
  assumes "kern_ok k" and "fs_ok L" and "named L d" and "d_refs (lw_v L) d = Some n" and "1 < n"
  obtains err L' where "kn_vfs k Rq_unlink dir d L = (err, L')" "if err = 0 then unlinked d L L' else same_tree L L'"
proof -
  have "\<forall>L dir d err L' n. fs_ok L \<longrightarrow> named L d \<longrightarrow> d_refs (lw_v L) d = Some n \<longrightarrow> 1 < n \<longrightarrow>
      kn_vfs k Rq_unlink dir d L = (err, L') \<longrightarrow> (if err = 0 then unlinked d L L' else same_tree L L')"
    using assms(1) unfolding kern_ok_def by (elim conjE) assumption
  moreover obtain err L' where r: "kn_vfs k Rq_unlink dir d L = (err, L')" by (cases "kn_vfs k Rq_unlink dir d L")
  ultimately have "if err = 0 then unlinked d L L' else same_tree L L'" using assms(2-5) by blast
  then show thesis using that r by blast
qed

lemma kern_create:
  assumes "kern_ok k" and "fs_ok L" and "named L d" and "d_fmt (lw_v L) d = Some None"
  obtains err L' where "kn_vfs k (Rq_create m) dir d L = (err, L')" "if err = 0 then made d L L' else same_tree L L'"
proof -
  have "\<forall>L dir d err L' m. fs_ok L \<longrightarrow> named L d \<longrightarrow> d_fmt (lw_v L) d = Some None \<longrightarrow>
      kn_vfs k (Rq_create m) dir d L = (err, L') \<longrightarrow> (if err = 0 then made d L L' else same_tree L L')"
    using assms(1) unfolding kern_ok_def by (elim conjE) assumption
  moreover obtain err L' where r: "kn_vfs k (Rq_create m) dir d L = (err, L')"
    by (cases "kn_vfs k (Rq_create m) dir d L")
  ultimately have "if err = 0 then made d L L' else same_tree L L'" using assms(2-4) by blast
  then show thesis using that r by blast
qed

lemma kern_link:
  assumes "kern_ok k" and "fs_ok L" and "named L d" and "d_fmt (lw_v L) d = Some None"
    and "d_fmt (lw_v L) b = Some (Some S_IFREG)"
  obtains err L' where "kn_vfs k (Rq_link b) dir d L = (err, L')" "if err = 0 then made d L L' else same_tree L L'"
proof -
  have "\<forall>L dir d err L' b. fs_ok L \<longrightarrow> named L d \<longrightarrow> d_fmt (lw_v L) d = Some None \<longrightarrow>
      d_fmt (lw_v L) b = Some (Some S_IFREG) \<longrightarrow>
      kn_vfs k (Rq_link b) dir d L = (err, L') \<longrightarrow> (if err = 0 then made d L L' else same_tree L L')"
    using assms(1) unfolding kern_ok_def by (elim conjE) assumption
  moreover obtain err L' where r: "kn_vfs k (Rq_link b) dir d L = (err, L')"
    by (cases "kn_vfs k (Rq_link b) dir d L")
  ultimately have "if err = 0 then made d L L' else same_tree L L'" using assms(2-5) by blast
  then show thesis using that r by blast
qed

lemma kern_lower_ok:
  assumes "kern_ok k" and "fs_ok L"
  shows "lower_ok (kn_lkup k L) (lw_names L) (lw_v L)"
  using assms(2) kern_lookup(1,2) [OF assms(1), of L] by (simp add: fs_ok_def lower_ok_def)

lemma kern_lookups_live:
  assumes "kern_ok k" and "fs_ok L"
  shows "lookups_live k L"
  unfolding lookups_live_def
proof (intro allI impI)
  fix L' sio p n d
  assume "dents (lw_v L') = dents (lw_v L)" and N: "lw_names L' = lw_names L" and a: "le_lkup (kn_lkup k L') sio p n = Inr d"
  have "le_lkup (kn_lkup k L') sio p n = Inr (lw_names L' p n)" by (rule kern_lookup(1) [OF assms(1)])
  then have "d = lw_names L p n" using a N by simp
  then have "live (lw_v L) d" using assms(2) by (simp add: fs_ok_def)
  then show "\<exists>x. dents (lw_v L) d = Some x \<and> 0 \<le> d_count x" by (auto simp: live_def)
qed

section \<open>References\<close>

definition gotL :: "dptr \<Rightarrow> lower \<Rightarrow> lower" where "gotL d L = L\<lparr>lw_v := got d (lw_v L)\<rparr>"

lemma got_frame: "inos (got d v) = inos v" "d_fmt (got d v) = d_fmt v" "i_refs (got d v) = i_refs v"
    "d_refs (got d v) = inc d (d_refs v)" "map_option d_inode (dents (got d v) e) = map_option d_inode (dents v e)"
proof -
  show inode: "map_option d_inode (dents (got d v) e) = map_option d_inode (dents v e)" for e
    by (cases "dents v d") (auto simp: got_def)
  show i: "inos (got d v) = inos v" by (simp add: got_def)
  show "d_fmt (got d v) = d_fmt v"
  proof
    fix e
    show "d_fmt (got d v) e = d_fmt v e" using inode [of e] i
      by (cases "dents v e"; cases "dents (got d v) e") (auto simp: d_fmt_def split: option.splits)
  qed
  show "i_refs (got d v) = i_refs v" by (simp add: i_refs_def fun_eq_iff i)
  show "d_refs (got d v) = inc d (d_refs v)"
    by (cases "dents v d") (auto simp: got_def d_refs_def inc_def fun_eq_iff)
qed

lemma gotL_tree: "tree_of (gotL d L) = (tree_of L)\<lparr>t_refs := inc d (d_refs (lw_v L))\<rparr>" "keeps_tree L (gotL d L)"
    "lw_mem (gotL d L) = lw_mem L"
  by (simp_all add: gotL_def tree_of_def keeps_tree_def got_frame d_ino_def)

lemma gotL_ok:
  assumes "fs_ok L"
  shows "fs_ok (gotL d L)"
proof (rule fs_ok_same [OF assms, where r = "inc d (d_refs (lw_v L))" and m = "lw_mutex L" and w = "lw_write L"])
  show "tree_of (gotL d L) = (tree_of L)\<lparr>t_refs := inc d (d_refs (lw_v L)), t_mutex := lw_mutex L, t_write := lw_write L\<rparr>"
    using gotL_tree by (simp add: tree_of_def)
  show "0 < n" if "i_refs (lw_v (gotL d L)) i = Some n" for i n
    using that assms by (simp add: gotL_def got_frame fs_ok_def)
qed (auto simp: inc_def gotL_def)

lemma dget_tree:
  assumes "live (lw_v L) d"
  shows "dget_in d L = Some (gotL d L)"
  using got_ok(1) [OF assms] by (simp add: dget_in_def gotL_def)

lemma put_frame:
  assumes "put_dentry d v = Some v'"
  shows "inos v' = inos v" "d_fmt v' = d_fmt v" "i_refs v' = i_refs v" "d_refs v' = dec d (d_refs v)"
    "map_option d_inode (dents v' e) = map_option d_inode (dents v e)"
proof -
  obtain x where x: "dents v d = Some x" "v' = v\<lparr>dents := (dents v)(d \<mapsto> x\<lparr>d_count := d_count x - 1\<rparr>)\<rparr>"
    using assms by (auto simp: put_dentry_def split: option.splits if_splits)
  show inode: "map_option d_inode (dents v' e) = map_option d_inode (dents v e)" for e
    using x by auto
  show i: "inos v' = inos v" using x by simp
  show "d_fmt v' = d_fmt v"
  proof
    fix e
    show "d_fmt v' e = d_fmt v e" using inode [of e] i
      by (cases "dents v e"; cases "dents v' e") (auto simp: d_fmt_def split: option.splits)
  qed
  show "i_refs v' = i_refs v" by (simp add: i_refs_def fun_eq_iff i)
  show "d_refs v' = dec d (d_refs v)" using x by (auto simp: d_refs_def dec_def fun_eq_iff)
qed

lemma dput_tree:
  assumes ok: "fs_ok L" and n: "d_refs (lw_v L) d = Some n" "0 < n"
  shows "\<exists>L'. dput_in (Some d) L = Some L' \<and> tree_of L' = (tree_of L)\<lparr>t_refs := dec d (d_refs (lw_v L))\<rparr>
    \<and> keeps_tree L L' \<and> fs_ok L' \<and> lw_mem L' = lw_mem L"
proof -
  obtain x where x: "dents (lw_v L) d = Some x" "d_count x = n" using n by (auto simp: d_refs_def)
  then obtain v where v: "put_dentry d (lw_v L) = Some v" using n by (simp add: put_dentry_def)
  note f = put_frame [OF v]
  let ?L = "L\<lparr>lw_v := v\<rparr>"
  have t: "tree_of ?L = (tree_of L)\<lparr>t_refs := dec d (d_refs (lw_v L))\<rparr>" by (simp add: tree_of_def f)
  have k: "keeps_tree L ?L" by (simp add: keeps_tree_def f d_ino_def)
  have "fs_ok ?L"
  proof (rule fs_ok_same [OF ok, where r = "dec d (d_refs (lw_v L))" and m = "lw_mutex L" and w = "lw_write L"])
    show "tree_of ?L = (tree_of L)\<lparr>t_refs := dec d (d_refs (lw_v L)), t_mutex := lw_mutex L, t_write := lw_write L\<rparr>"
      using t by (simp add: tree_of_def)
    show "0 < n" if "i_refs (lw_v ?L) i = Some n" for i n using that ok by (simp add: f fs_ok_def)
  qed (use n in \<open>auto simp: dec_def\<close>)
  then show ?thesis using v t k by (simp add: dput_in_def)
qed

section \<open>The wrappers\<close>

lemma lkup_tree:
  assumes "kern_ok k" and "fs_ok L" and "IMustLock L p \<noteq> None"
  shows "vfsub_lkup_one k n p L = Some (Inr (lw_names L p n), gotL (lw_names L p n) L)"
proof -
  have "lkup_one (kn_lkup k L) False p n (lw_v L) = Some (Inr (lw_names L p n), got (lw_names L p n) (lw_v L))"
    by (rule lower_lkup(1) [OF kern_lower_ok [OF assms(1,2)]])
  then show ?thesis using assms(3) by (auto simp: vfsub_lkup_one_def gotL_def)
qed

lemma locked_keep:
  assumes "IMustLock L p = Some i" and "d_fmt (lw_v L) p = Some (Some S_IFDIR)" and "keeps_tree L L'"
    and "lw_mutex L' = lw_mutex L"
  shows "IMustLock L' p = Some i"
  using assms by (simp add: IMustLock_def keeps_tree_def)

lemma create_tree:
  assumes "kern_ok k" and "fs_ok L" and "IMustLock L p \<noteq> None" and "named L d" and "d_fmt (lw_v L) d = Some None"
  shows "\<exists>err L'. vfsub_create k m p d L = Some (err, L') \<and> (if err = 0 then made d L L' else same_tree L L')"
proof (cases "kn_security k (Rq_create m) d L = 0")
  case True
  obtain err L' where "kn_vfs k (Rq_create m) p d L = (err, L')" "if err = 0 then made d L L' else same_tree L L'"
    by (rule kern_create [OF assms(1,2,4,5)])
  then show ?thesis using True assms(3)
    by (intro exI [of _ err] exI [of _ L']) (auto simp: vfsub_create_def vfsub_call_def Let_def)
next
  case False
  then show ?thesis using assms(3) same_tree_refl by (auto simp: vfsub_create_def vfsub_call_def Let_def)
qed

lemma link_tree:
  assumes "kern_ok k" and "fs_ok L" and "IMustLock L p \<noteq> None" and "named L d" and "d_fmt (lw_v L) d = Some None"
    and b: "d_fmt (lw_v L) b = Some (Some S_IFREG)"
  shows "\<exists>err L'. vfsub_link k b p d L = Some (err, L') \<and> (if err = 0 then made d L L' else same_tree L L')"
proof -
  obtain i x where i: "d_ino L b = Some (Some i)" "inos (lw_v L) i = Some x"
    using b by (auto simp: d_fmt_def d_ino_def bind_eq_Some_conv split: option.splits)
  obtain j where j: "IMustLock L p = Some j" using assms(3) by blast
  have same: ?thesis if "vfsub_link k b p d L = Some (e, L)" "e \<noteq> 0" for e
    using that same_tree_refl by auto
  show ?thesis
  proof (cases "au_test_nlink k x = 0 \<and> kn_security k (Rq_link b) d L = 0")
    case True
    obtain err L' where "kn_vfs k (Rq_link b) p d L = (err, L')" "if err = 0 then made d L L' else same_tree L L'"
      by (rule kern_link [OF assms(1,2,4,5,6)])
    then show ?thesis using True i j
      by (intro exI [of _ err] exI [of _ L']) (auto simp: vfsub_link_def vfsub_call_def Let_def)
  next
    case False
    then show ?thesis using i j
      by (intro same [of "if au_test_nlink k x \<noteq> 0 then au_test_nlink k x else kn_security k (Rq_link b) d L"])
        (auto simp: vfsub_link_def vfsub_call_def Let_def)
  qed
qed

text \<open>One more reference to an inode.\<close>

lemma get_inode_frame:
  assumes "get_inode i v = Some v'"
  shows "d_fmt v' = d_fmt v" "d_refs v' = d_refs v" "dents v' = dents v"
    "i_refs v' = (i_refs v)(i := map_option (\<lambda>n. n + 1) (i_refs v i))"
proof -
  obtain x where x: "inos v i = Some x" "v' = v\<lparr>inos := (inos v)(i \<mapsto> x\<lparr>i_count := i_count x + 1\<rparr>)\<rparr>"
    using assms by (auto simp: get_inode_def split: option.splits if_splits)
  have "d_fmt v' e = d_fmt v e" for e
    using x by (cases "dents v e") (auto simp: d_fmt_def split: option.splits)
  then show "d_fmt v' = d_fmt v" by (simp add: fun_eq_iff)
  show "d_refs v' = d_refs v" "dents v' = dents v" using x by (simp_all add: d_refs_def fun_eq_iff)
  show "i_refs v' = (i_refs v)(i := map_option (\<lambda>n. n + 1) (i_refs v i))"
    using x by (auto simp: i_refs_def fun_eq_iff)
qed

lemma put_inode_frame2:
  assumes "put_inode i v = Some v'"
  shows "d_fmt v' = d_fmt v" "d_refs v' = d_refs v" "dents v' = dents v"
    "i_refs v' = (i_refs v)(i := map_option (\<lambda>n. n - 1) (i_refs v i))"
proof -
  obtain x where x: "inos v i = Some x" "v' = v\<lparr>inos := (inos v)(i \<mapsto> x\<lparr>i_count := i_count x - 1\<rparr>)\<rparr>"
    using assms by (auto simp: put_inode_def split: option.splits if_splits)
  have "d_fmt v' e = d_fmt v e" for e
    using x by (cases "dents v e") (auto simp: d_fmt_def split: option.splits)
  then show "d_fmt v' = d_fmt v" by (simp add: fun_eq_iff)
  show "d_refs v' = d_refs v" "dents v' = dents v" using x by (simp_all add: d_refs_def fun_eq_iff)
  show "i_refs v' = (i_refs v)(i := map_option (\<lambda>n. n - 1) (i_refs v i))"
    using x by (auto simp: i_refs_def fun_eq_iff)
qed

lemma unlinked_put:
  assumes u: "unlinked d L2 L'" and L2: "tree_of L2 = (tree_of L)\<lparr>t_refs := inc d (d_refs (lw_v L))\<rparr>"
    "lw_parent L2 = lw_parent L" "lw_dname L2 = lw_dname L" "\<And>e. d_ino L2 e = d_ino L e"
    "i_refs (lw_v L2) = (i_refs (lw_v L))(i := map_option (\<lambda>n. n + 1) (i_refs (lw_v L) i))"
    and n: "d_refs (lw_v L) d = Some n" "0 < n"
    and put: "put_dentry d (lw_v L') = Some v3" "put_inode i v3 = Some v4" and ok: "fs_ok L"
    and q: "i_refs (lw_v L) i = Some q"
  shows "unlinked d L (L'\<lparr>lw_v := v4\<rparr>)"
proof -
  note f = put_frame [OF put(1)] put_inode_frame2 [OF put(2)]
  let ?L = "L'\<lparr>lw_v := v4\<rparr>"
  obtain d' where d': "d_refs (lw_v L2) d' = Some 0" "tree_of L' = (tree_of L2)\<lparr>t_names :=
      (lw_names L2)(lw_parent L2 d := (lw_names L2 (lw_parent L2 d))(lw_dname L2 d := d')),
      t_fmt := (d_fmt (lw_v L2))(d' := Some None)\<rparr>" and k: "keeps_tree L2 L'" and ok': "fs_ok L'"
    using u unfolding unlinked_def by blast
  have L2f: "lw_names L2 = lw_names L" "d_fmt (lw_v L2) = d_fmt (lw_v L)" "d_refs (lw_v L2) = inc d (d_refs (lw_v L))"
    using L2(1) by (simp_all add: tree_of_def)
  have dd: "d' \<noteq> d" "d_refs (lw_v L) d' = Some 0"
    using d'(1) n by (auto simp: L2f inc_def split: if_splits)
  have ino: "d_ino ?L e = d_ino L' e" for e
    using f(5) [of e] f(8) by (simp add: d_ino_def)
  have irefs: "i_refs v4 = (i_refs (lw_v L'))(i := map_option (\<lambda>n. n - 1) (i_refs (lw_v L') i))"
    using f by simp
  have t: "tree_of ?L = (tree_of L)\<lparr>t_names := (lw_names L)(lw_parent L d := (lw_names L (lw_parent L d))(lw_dname L d := d')),
      t_fmt := (d_fmt (lw_v L))(d' := Some None)\<rparr>"
    using d'(2) L2(1-3) by (simp add: tree_of_def f L2f)
  have kt: "keeps_tree L ?L"
  proof -
    have "i_refs v4 j = Some m" if "i_refs (lw_v L) j = Some m" for j m
    proof -
      have "i_refs (lw_v L2) j = Some (if j = i then m + 1 else m)" using that by (auto simp: L2(5))
      then have "i_refs (lw_v L') j = Some (if j = i then m + 1 else m)" using k by (simp add: keeps_tree_def)
      then show ?thesis using irefs by auto
    qed
    then show ?thesis using k L2 ino by (simp add: keeps_tree_def L2f)
  qed
  have "fs_ok ?L"
  proof -
    have "tree_of ?L = (tree_of L')\<lparr>t_refs := dec d (d_refs (lw_v L')), t_mutex := lw_mutex L', t_write := lw_write L'\<rparr>"
      by (simp add: tree_of_def f)
    moreover have "0 < m" if "i_refs (lw_v ?L) j = Some m" for j m
    proof (cases "j = i")
      case True
      then show ?thesis using that kt q ok by (simp add: keeps_tree_def fs_ok_def)
    next
      case False
      then show ?thesis using that irefs ok' by (simp add: fs_ok_def)
    qed
    moreover have "d_refs (lw_v L') d = Some (n + 1)" using d'(2) n by (simp add: tree_of_def L2f inc_def)
    ultimately show ?thesis using n(2)
      by (intro fs_ok_same [OF ok', where r = "dec d (d_refs (lw_v L'))" and m = "lw_mutex L'" and w = "lw_write L'"])
        (auto simp: dec_def)
  qed
  then show ?thesis using kt t dd(2) unfolding unlinked_def by blast
qed

lemma unlink_tree:
  assumes k: "kern_ok k" and ok: "fs_ok L" and p: "IMustLock L p \<noteq> None" and d: "named L d"
    and n: "d_refs (lw_v L) d = Some n" "0 < n" and pos: "d_fmt (lw_v L) d = Some (Some f)"
  shows "\<exists>err L'. vfsub_unlink k p d force L = Some (err, L') \<and> (if err = 0 then unlinked d L L' else same_tree L L')"
proof (cases "force \<and> kn_wkq k L \<noteq> 0")
  case True
  then show ?thesis using same_tree_refl
    by (intro exI [of _ "kn_wkq k L"] exI [of _ L]) (simp add: vfsub_unlink_def)
next
  case direct: False
  obtain x i y where x: "dents (lw_v L) d = Some x" "d_count x = n" "d_inode x = Some i" "inos (lw_v L) i = Some y"
    using n pos by (auto simp: d_refs_def d_fmt_def split: option.splits)
  obtain j where j: "IMustLock L p = Some j" using p by blast
  have q: "i_refs (lw_v L) i = Some (i_count y)" "0 < i_count y" using x fs_ok_irefs [OF ok, of i] by (auto simp: i_refs_def)
  have nfs: "\<not> au_test_nfs (kn_cfg k) (kn_magics k) (kn_super k (d_hsb x))" by (rule kern_lookup(3) [OF k])
  show ?thesis
  proof (cases "kn_security k Rq_unlink d L = 0")
    case False
    then show ?thesis using direct x j nfs same_tree_refl
      by (intro exI [of _ "kn_security k Rq_unlink d L"] exI [of _ L])
        (simp add: vfsub_unlink_def call_unlink_def Let_def)
  next
    case True
    have live: "live (lw_v L) d" using n pos by (simp add: live_iff)
    let ?v1 = "got d (lw_v L)"
    have g: "get_dentry d (lw_v L) = Some ?v1" by (rule got_ok(1) [OF live])
    obtain v2 where v2: "get_inode i ?v1 = Some v2"
      using x q by (auto simp: get_inode_def got_frame)
    note f = get_inode_frame [OF v2]
    let ?L2 = "L\<lparr>lw_v := v2\<rparr>"
    have L2: "tree_of ?L2 = (tree_of L)\<lparr>t_refs := inc d (d_refs (lw_v L))\<rparr>" "lw_parent ?L2 = lw_parent L"
      "lw_dname ?L2 = lw_dname L" "d_ino ?L2 e = d_ino L e"
      "i_refs (lw_v ?L2) = (i_refs (lw_v L))(i := map_option (\<lambda>n. n + 1) (i_refs (lw_v L) i))" for e
      by (simp_all add: tree_of_def f got_frame d_ino_def)
    have pos2: "0 < m" if "i_refs (lw_v ?L2) e = Some m" for e m
      using that q fs_ok_irefs [OF ok, of e] by (auto simp: f got_frame split: if_splits)
    have ok2: "fs_ok ?L2"
      by (rule fs_ok_same [OF ok, where r = "inc d (d_refs (lw_v L))" and m = "lw_mutex L" and w = "lw_write L"])
        (use L2(1-3) pos2 in \<open>auto simp: inc_def tree_of_def\<close>)
    have d2: "named ?L2 d" "d_refs (lw_v ?L2) d = Some (n + 1)" using d n by (simp_all add: named_def f got_frame inc_def)
    obtain err L' where r: "kn_vfs k Rq_unlink p d ?L2 = (err, L')"
        "if err = 0 then unlinked d ?L2 L' else same_tree ?L2 L'"
      by (rule kern_unlink [OF k ok2 d2]) (use n in simp_all)
    have kt: "keeps_tree ?L2 L'" using r(2) by (auto simp: unlinked_def same_tree_def split: if_splits)
    have refs': "d_refs (lw_v L') = inc d (d_refs (lw_v L))"
      using r(2) by (auto simp: unlinked_def same_tree_def tree_of_def f got_frame split: if_splits)
    then have "d_refs (lw_v L') d = Some (n + 1)" using n by (simp add: inc_def)
    then obtain v3 where v3: "put_dentry d (lw_v L') = Some v3"
      using n by (auto simp: d_refs_def put_dentry_def)
    have "i_refs (lw_v ?L2) i = Some (i_count y + 1)" using L2(5) q by simp
    then have "i_refs (lw_v L') i = Some (i_count y + 1)" using kt unfolding keeps_tree_def by blast
    then have "i_refs v3 i = Some (i_count y + 1)" using put_frame(3) [OF v3] by simp
    then obtain v4 where v4: "put_inode i v3 = Some v4" using q by (auto simp: i_refs_def put_inode_def)
    let ?L = "L'\<lparr>lw_v := v4\<rparr>"
    have "vfsub_unlink k p d force L = call_unlink k p d L" using direct by (auto simp: vfsub_unlink_def)
    then have run: "vfsub_unlink k p d force L = Some (err, ?L)"
      using x j nfs True g v2 r(1) v3 v4 by (simp add: call_unlink_def Let_def)
    show ?thesis
    proof (cases "err = 0")
      case True
      then have "unlinked d L ?L"
        using unlinked_put [OF _ L2 n v3 v4 ok q(1)] r(2) by simp
      then show ?thesis using run True by auto
    next
      case False
      then have st: "same_tree ?L2 L'" using r(2) by simp
      note f3 = put_frame [OF v3] put_inode_frame2 [OF v4]
      have "tree_of ?L = tree_of L" using st refs' by (simp add: same_tree_def tree_of_def f f3 got_frame)
      moreover have "keeps_tree L ?L"
      proof -
        have "i_refs v4 e = Some m" if e: "i_refs (lw_v L) e = Some m" for e m
        proof -
          have "i_refs (lw_v ?L2) e = Some (if e = i then m + 1 else m)" using e L2(5) by auto
          then have "i_refs (lw_v L') e = Some (if e = i then m + 1 else m)" using kt unfolding keeps_tree_def by blast
          then show ?thesis using f3 by auto
        qed
        moreover have "d_ino ?L e = d_ino L' e" for e using f3(5) [of e] f3(8) by (simp add: d_ino_def)
        ultimately show ?thesis using kt L2(1-4) by (simp add: keeps_tree_def tree_of_def)
      qed
      moreover have "fs_ok ?L"
      proof -
        have ok': "fs_ok L'" using st ok2 by (simp add: same_tree_def)
        have i: "i_refs v4 i = Some (i_count y)" using \<open>i_refs v3 i = Some (i_count y + 1)\<close> f3 by simp
        have "0 < m" if m: "i_refs (lw_v ?L) e = Some m" for e m
          using m i q(2) fs_ok_irefs [OF ok', of e m] f3 by (cases "e = i") auto
        then show ?thesis using calculation(1) n(2) L2(2,3) kt
          by (intro fs_ok_same [OF ok, where r = "d_refs (lw_v L)" and m = "lw_mutex L" and w = "lw_write L"])
            (auto simp: tree_of_def keeps_tree_def)
      qed
      ultimately show ?thesis using run False by (auto simp: same_tree_def)
    qed
  qed
qed

section \<open>Whiteouts\<close>

text \<open>The base of the whiteouts is a regular file.\<close>

definition whbase_ok :: "au_sbinfo \<Rightarrow> bindex \<Rightarrow> lower \<Rightarrow> bool" where
  "whbase_ok sbi b L \<longleftrightarrow> (\<exists>br wbr. au_sbr sbi b = Some br \<and> br_wbr br = Some wbr
     \<and> (\<forall>d. wbr_whbase wbr = Some d \<longrightarrow> d_fmt (lw_v L) d = Some (Some S_IFREG)))"

lemma same_tree_eq:
  assumes "same_tree L L'"
  shows "lw_names L' = lw_names L" "d_fmt (lw_v L') = d_fmt (lw_v L)" "d_refs (lw_v L') = d_refs (lw_v L)"
    "lw_mutex L' = lw_mutex L" "lw_write L' = lw_write L" "lw_parent L' = lw_parent L" "lw_dname L' = lw_dname L"
  using assms by (simp_all add: same_tree_def tree_of_def keeps_tree_def)

lemma same_tree_ok: "same_tree L L' \<Longrightarrow> fs_ok L \<Longrightarrow> fs_ok L'"
  by (simp add: same_tree_def)

lemma link_or_create_tree:
  assumes k: "kern_ok k" and ok: "fs_ok L" and p: "IMustLock L (lw_parent L d) \<noteq> None"
      "d_fmt (lw_v L) (lw_parent L d) = Some (Some S_IFDIR)"
    and d: "named L d" "d_fmt (lw_v L) d = Some None" and b: "whbase_ok sbi bindex L"
  shows "\<exists>err kick L'. link_or_create_wh k sbi bindex d L = Some (err, kick, L')
    \<and> (if err = 0 then made d L L' else same_tree L L')"
proof -
  let ?p = "lw_parent L d"
  obtain i where i: "IMustLock L ?p = Some i" using p(1) by blast
  obtain br wbr where br: "au_sbr sbi bindex = Some br" "br_wbr br = Some wbr"
    "\<And>d. wbr_whbase wbr = Some d \<Longrightarrow> d_fmt (lw_v L) d = Some (Some S_IFREG)"
    using b by (auto simp: whbase_ok_def)
  show ?thesis
  proof (cases "wbr_whbase wbr")
    case None
    obtain err L' where "vfsub_create k WH_MASK ?p d L = Some (err, L')" "if err = 0 then made d L L' else same_tree L L'"
      using create_tree [OF k ok p(1) d] by blast
    then show ?thesis using i br None
      by (intro exI [of _ err] exI [of _ False] exI [of _ L']) (simp add: link_or_create_wh_def Let_def)
  next
    case (Some base)
    obtain err L1 where l: "vfsub_link k base ?p d L = Some (err, L1)" "if err = 0 then made d L L1 else same_tree L L1"
      using link_tree [OF k ok p(1) d br(3) [OF Some]] by blast
    show ?thesis
    proof (cases "err = - EMLINK")
      case False
      then show ?thesis using i br Some l
        by (intro exI [of _ err] exI [of _ False] exI [of _ L1]) (simp add: link_or_create_wh_def Let_def)
    next
      case True
      then have st: "same_tree L L1" using l(2) by simp
      note e = same_tree_eq [OF st]
      have "IMustLock L1 ?p = Some i" using locked_keep [OF i p(2), of L1] st e(4) by (simp add: same_tree_def)
      moreover have "named L1 d" "d_fmt (lw_v L1) d = Some None" using d by (simp_all add: named_def e)
      ultimately obtain err' L' where c: "vfsub_create k WH_MASK ?p d L1 = Some (err', L')"
        "if err' = 0 then made d L1 L' else same_tree L1 L'"
        using create_tree [OF k same_tree_ok [OF st ok], of ?p d WH_MASK] by auto
      have kt: "keeps_tree L1 L' \<Longrightarrow> keeps_tree L L'"
        by (rule keeps_tree_trans [of L L1 L']) (use st e in \<open>simp_all add: same_tree_def\<close>)
      have "keeps_tree L L'" using c(2) by (intro kt) (auto simp: made_def same_tree_def split: if_splits)
      moreover have "tree_of L1 = tree_of L" "fs_ok L1" using st ok by (simp_all add: same_tree_def)
      ultimately have "if err' = 0 then made d L L' else same_tree L L'"
        using c(2) e(2) by (cases "err' = 0") (simp_all add: made_def same_tree_def)
      then show ?thesis using i br Some l True c(1)
        by (intro exI [of _ err'] exI [of _ True] exI [of _ L']) (simp add: link_or_create_wh_def Let_def)
    qed
  qed
qed

text \<open>
  \<open>au_wh_create\<close>: the whiteout of the name is there, with a reference for the caller, or nothing changed.
\<close>

definition wh_made :: "dptr \<Rightarrow> u8 list \<Rightarrow> lower \<Rightarrow> lower \<Rightarrow> bool" where
  "wh_made p name L L' \<longleftrightarrow> (let wh = lw_names L p (AUFS_WH_PFX @ name) in
     keeps_tree L L' \<and> fs_ok L' \<and> tree_of L' = (tree_of L)\<lparr>t_fmt := (d_fmt (lw_v L))(wh := Some (Some S_IFREG)),
       t_refs := inc wh (d_refs (lw_v L))\<rparr>)"

lemma keeps_tree_mem [simp]: "keeps_tree (L\<lparr>lw_mem := m\<rparr>) L' = keeps_tree L L'" "keeps_tree L (L'\<lparr>lw_mem := m\<rparr>) = keeps_tree L L'"
  by (simp_all add: keeps_tree_def d_ino_def)

lemma tree_of_mem [simp]: "tree_of (L\<lparr>lw_mem := m\<rparr>) = tree_of L"
  by (simp add: tree_of_def)

lemma fs_ok_mem [simp]: "fs_ok (L\<lparr>lw_mem := m\<rparr>) = fs_ok L"
  by (simp add: fs_ok_def parents_exist_def)

lemma wh_create_tree:
  assumes k: "kern_ok k" and ok: "fs_ok L" and p: "IMustLock L p \<noteq> None" "d_fmt (lw_v L) p = Some (Some S_IFDIR)"
    and b: "whbase_ok sbi bindex L" and len: "length name \<le> 4092"
  shows "\<exists>r kick di' L'. au_wh_create k sbi bindex p name (di, L) = Some (r, kick, di', L')
    \<and> (case r of Inl err \<Rightarrow> same_tree L L' \<and> di' = di \<and> err \<noteq> 0
       | Inr wh \<Rightarrow> wh = lw_names L p (AUFS_WH_PFX @ name) \<and> wh_made p name L L' \<and> (di' = di \<or> di' = au_set_dbwh bindex di))"
proof -
  let ?wh = "lw_names L p (AUFS_WH_PFX @ name)"
  obtain ok1 mem where al: "take_alloc (lw_mem L) = (ok1, mem)" by fastforce
  have nm: "au_wh_name_alloc name (lw_mem L) = (if ok1 then Inr (AUFS_WH_PFX @ name) else Inl (- ENOMEM), mem)"
    using len al by (simp add: au_wh_name_alloc_def PATH_MAX_def)
  show ?thesis
  proof (cases ok1)
    case False
    then have "au_wh_create k sbi bindex p name (di, L) = Some (Inl (- ENOMEM), False, di, L\<lparr>lw_mem := mem\<rparr>)"
      by (simp add: au_wh_create_def au_wh_lkup_def nm)
    moreover have "same_tree L (L\<lparr>lw_mem := mem\<rparr>)" using same_tree_refl [of L] by (simp add: same_tree_def)
    ultimately show ?thesis by auto
  next
    case True
    let ?L0 = "L\<lparr>lw_mem := mem\<rparr>" and ?L1 = "gotL ?wh (L\<lparr>lw_mem := mem\<rparr>)"
    have ok0: "fs_ok ?L0" using ok by simp
    obtain i where i: "IMustLock L p = Some i" using p(1) by blast
    then have i0: "IMustLock ?L0 p = Some i" by (simp add: IMustLock_def d_ino_def)
    have lk: "au_wh_lkup k p name L = Some (Inr ?wh, ?L1)"
      using lkup_tree [OF k ok0, of p "AUFS_WH_PFX @ name"] i0 True by (simp add: au_wh_lkup_def nm)
    note g = gotL_tree [where d = ?wh and L = ?L0]
    have ok1': "fs_ok ?L1" by (rule gotL_ok [OF ok0])
    have kt1: "keeps_tree L ?L1" using g(2) by simp
    have t1: "tree_of ?L1 = (tree_of L)\<lparr>t_refs := inc ?wh (d_refs (lw_v L))\<rparr>" using g(1) by (simp add: tree_of_def)
    then have e1: "d_fmt (lw_v ?L1) = d_fmt (lw_v L)" "lw_names ?L1 = lw_names L" "lw_mutex ?L1 = lw_mutex L"
      "d_refs (lw_v ?L1) = inc ?wh (d_refs (lw_v L))"
      by (simp_all add: tree_of_def)
    have live: "live (lw_v L) ?wh" using ok by (simp add: fs_ok_def)
    then obtain n where n: "d_refs (lw_v L) ?wh = Some n" "0 \<le> n" by (auto simp: live_iff)
    have reg: "fmt (lw_v L) ?wh \<in> {None, Some S_IFREG}" using ok by (simp add: fs_ok_def)
    have df: "d_fmt (lw_v L) ?wh = Some (fmt (lw_v L) ?wh)" by (rule live_fmt [OF live])
    have "d_refs (lw_v ?L1) ?wh \<noteq> None" using n unfolding e1(4) by (simp add: inc_def)
    then obtain x where x: "dents (lw_v ?L1) ?wh = Some x" by (auto simp: dents_refs [symmetric])
    have neg: "d_ino ?L1 ?wh = Some (d_inode x)" using x by (simp add: d_ino_def)
    have neg_iff: "d_inode x = None \<longleftrightarrow> fmt (lw_v L) ?wh = None"
    proof -
      have "d_fmt (lw_v ?L1) ?wh = Some (fmt (lw_v L) ?wh)" using df e1(1) by simp
      then show ?thesis using x by (cases "d_inode x") (auto simp: d_fmt_def dest: sym)
    qed
    show ?thesis
    proof (cases "fmt (lw_v L) ?wh")
      case (Some f)
      then have f: "f = S_IFREG" using reg by simp
      have "au_wh_create k sbi bindex p name (di, L) = Some (Inr ?wh, False, di, ?L1)"
        using lk neg neg_iff Some by (simp add: au_wh_create_def)
      moreover have "(d_fmt (lw_v L))(?wh := Some (Some S_IFREG)) = d_fmt (lw_v L)"
        using df Some f by (simp add: fun_eq_iff)
      then have "wh_made p name L ?L1" using t1 kt1 ok1' by (simp add: wh_made_def Let_def tree_of_def)
      ultimately show ?thesis by auto
    next
      case None
      have nd: "named ?L1 ?wh" "lw_parent ?L1 ?wh = p" using ok kt1 by (simp_all add: named_def e1 fs_ok_def keeps_tree_def)
      have "IMustLock ?L1 p = Some i" by (rule locked_keep [OF i p(2) kt1 e1(3)])
      moreover have "whbase_ok sbi bindex ?L1" using b by (simp add: whbase_ok_def e1)
      ultimately obtain err kick L2 where c: "link_or_create_wh k sbi bindex ?wh ?L1 = Some (err, kick, L2)"
        "if err = 0 then made ?wh ?L1 L2 else same_tree ?L1 L2"
        using link_or_create_tree [OF k ok1' _ _ nd(1)] nd(2) p(2) df None e1(1) by fastforce
      have ktr: "keeps_tree ?L1 L2 \<Longrightarrow> keeps_tree L L2"
        by (rule keeps_tree_trans [OF kt1]) (simp_all add: e1)
      show ?thesis
      proof (cases "err = 0")
        case True
        then have "made ?wh ?L1 L2" using c(2) by simp
        then have "wh_made p name L L2" using ktr t1 e1 by (simp add: made_def wh_made_def Let_def tree_of_def)
        moreover have "au_wh_create k sbi bindex p name (di, L) = Some (Inr ?wh, kick, au_set_dbwh bindex di, L2)"
          using lk neg neg_iff None c(1) True by (simp add: au_wh_create_def)
        ultimately show ?thesis by auto
      next
        case False
        then have st: "same_tree ?L1 L2" using c(2) by simp
        have "d_refs (lw_v L2) ?wh = Some (n + 1)" using same_tree_eq(3) [OF st] e1(4) n by (simp add: inc_def)
        then obtain L3 where L3: "dput_in (Some ?wh) L2 = Some L3" "tree_of L3 = (tree_of L2)\<lparr>t_refs := dec ?wh (d_refs (lw_v L2))\<rparr>"
          "keeps_tree L2 L3" "fs_ok L3"
          using dput_tree [OF same_tree_ok [OF st ok1'], of ?wh "n + 1"] n(2) by auto
        have "tree_of L3 = tree_of L"
          using L3(2) st t1 e1(4) same_tree_eq(3) [OF st] by (simp add: same_tree_def tree_of_def)
        moreover have "keeps_tree L L3"
          by (rule keeps_tree_trans [OF ktr L3(3)]) (use st same_tree_eq(2) [OF st] e1 in \<open>simp_all add: same_tree_def\<close>)
        ultimately have "same_tree L L3" using L3(4) by (simp add: same_tree_def)
        moreover have "au_wh_create k sbi bindex p name (di, L) = Some (Inl err, kick, di, L3)"
          using lk neg neg_iff None c(1) False L3(1) by (simp add: au_wh_create_def)
        ultimately show ?thesis using False by auto
      qed
    qed
  qed
qed

end
