(* ===== verification/Unlink_Steps.thy ===== *)
theory Unlink_Steps
  imports Unlink Lookup_Below Lower_Tree
begin

text \<open>
  The steps of an unlink on the tree of the lower names: the lookup below, the tests, the pin that is
  given back after the tree was changed, and what a name is found as.
\<close>

section \<open>What a name is\<close>

definition ents :: "lower \<Rightarrow> dptr \<Rightarrow> u8 list \<Rightarrow> int option" where
  "ents L p n = fmt (lw_v L) (lw_names L p n)"

definition view :: "lower \<Rightarrow> au_sbinfo \<Rightarrow> au_dinfo \<Rightarrow> u8 list \<Rightarrow> lview" where
  "view L sbi pdi name = lower_view (lw_names L) (lw_v L) sbi pdi name"

lemma view_ents:
  "lv_ent (view L sbi pdi n) b = (case low_dir (lw_v L) pdi b of None \<Rightarrow> None | Some p \<Rightarrow> ents L p n)"
  "lv_wh (view L sbi pdi n) b = (case low_dir (lw_v L) pdi b of None \<Rightarrow> False
     | Some p \<Rightarrow> au_sbr_whable sbi b = Some True \<and> ents L p (AUFS_WH_PFX @ n) \<noteq> None)"
  by (auto simp: view_def lower_view_def Let_def ents_def split: option.splits)

lemma merged_cong:
  "(\<And>b. b \<in> set bs \<Longrightarrow> lv_ent V b = lv_ent W b \<and> lv_wh V b = lv_wh W b) \<Longrightarrow> merged V d bs = merged W d bs"
  by (induction bs arbitrary: d) (simp_all split: option.splits)

lemma same_tree_ents: "same_tree L L' \<Longrightarrow> ents L' = ents L"
  by (simp add: ents_def fun_eq_iff fmt_def same_tree_eq)

lemma same_tree_trans:
  assumes "same_tree L L'" and "same_tree L' L''"
  shows "same_tree L L''"
proof -
  have "keeps_tree L L''"
    by (rule keeps_tree_trans [of L L']) (use assms same_tree_eq [OF assms(1)] in \<open>simp_all add: same_tree_def\<close>)
  then show ?thesis using assms by (simp add: same_tree_def)
qed

lemma h_dptr_in:
  assumes "au_h_dptr di v b = Some (Some d)"
  shows "Some d \<in> set (dslots di)"
proof -
  obtain h where h: "arr_get (di_hdentry di) b = Some h" "hd_dentry h = Some d"
    using assms by (auto simp: au_h_dptr_def split: option.splits if_splits)
  have "h \<in> set (di_hdentry di)" using h(1) by (auto simp: arr_get_def split: if_splits)
  then show ?thesis using h(2) by (force simp: dslots_def)
qed

text \<open>Directories that are held stay what they are.\<close>

lemma low_dir_keep:
  assumes "d_refs v' = d_refs v"
    and "\<And>d n. Some d \<in> set (dslots pdi) \<Longrightarrow> d_refs v d = Some n \<Longrightarrow> 0 < n \<Longrightarrow>
      fmt v' d = Some S_IFDIR \<longleftrightarrow> fmt v d = Some S_IFDIR"
  shows "low_dir v' pdi b = low_dir v pdi b"
proof -
  have h: "au_h_dptr pdi v' b = au_h_dptr pdi v b"
  proof -
    have e: "map_option d_count (dents v' d) = map_option d_count (dents v d)" for d
      using fun_cong [OF assms(1), of d] by (simp add: d_refs_def)
    show ?thesis
    proof (cases "au_dbstart pdi < 0 \<or> b < au_dbstart pdi")
      case False
      show ?thesis
      proof (cases "Option.bind (arr_get (di_hdentry pdi) b) hd_dentry")
        case None
        then show ?thesis using False by (cases "arr_get (di_hdentry pdi) b") (auto simp: au_h_dptr_def)
      next
        case (Some d)
        then obtain h where h: "arr_get (di_hdentry pdi) b = Some h" "hd_dentry h = Some d"
          by (auto simp: bind_eq_Some_conv)
        then show ?thesis using False e [of d]
          by (cases "dents v' d"; cases "dents v d") (simp_all add: au_h_dptr_def)
      qed
    qed (auto simp: au_h_dptr_def)
  qed
  have "fmt v' p = Some S_IFDIR \<longleftrightarrow> fmt v p = Some S_IFDIR" if hp: "au_h_dptr pdi v b = Some (Some p)" for p
  proof -
    obtain x where x: "dents v p = Some x" "0 < d_count x"
      using hp by (auto simp: au_h_dptr_def split: option.splits if_splits)
    show ?thesis by (rule assms(2) [OF h_dptr_in [OF hp], of "d_count x"]) (use x in \<open>simp_all add: d_refs_def\<close>)
  qed
  then show ?thesis unfolding low_dir_def h by (simp split: option.splits)
qed

section \<open>The lookup below\<close>

definition same_table :: "au_dinfo \<Rightarrow> au_dinfo \<Rightarrow> bool" where
  "same_table di di' \<longleftrightarrow> di_hdentry di' = di_hdentry di \<and> di_bstart di' = di_bstart di \<and> di_bend di' = di_bend di
     \<and> di_bwh di' = di_bwh di"

lemma quiet_tree:
  assumes "same_objs (lw_v L) v" and "d_refs v = d_refs (lw_v L)"
  shows "same_tree L (L\<lparr>lw_v := v, lw_mem := m\<rparr>)"
proof -
  note f = same_objs_fmt [OF assms(1)]
  let ?L = "L\<lparr>lw_v := v, lw_mem := m\<rparr>"
  have t: "tree_of ?L = tree_of L" by (simp add: tree_of_def f assms(2))
  have "d_ino ?L d = d_ino L d" for d using assms(1) by (simp add: d_ino_def same_objs_def)
  then have "keeps_tree L ?L" by (simp add: keeps_tree_def f)
  moreover have "fs_ok ?L" if "fs_ok L"
    by (rule fs_ok_same [OF that, where r = "d_refs (lw_v L)" and m = "lw_mutex L" and w = "lw_write L"])
      (use that t in \<open>auto simp: tree_of_def f fs_ok_def\<close>)
  ultimately show ?thesis using t by (simp add: same_tree_def)
qed

lemma need_below_ok:
  fixes e :: del_env and st :: del_st
  defines "L \<equiv> dl_L st" and "pdi \<equiv> dl_pdi st" and "sbi \<equiv> dl_sbi st" and "k \<equiv> de_k e"
  assumes hyp: "lk_hyp (kn_lkup k L) (lw_names L) (lw_v L) sbi pdi (au_dbtaildir pdi) (nat (au_sbend sbi + 1))"
    and di: "di_bstart (dl_di st) = b0" "di_bend (dl_di st) = b0" "di_bwh (dl_di st) = - 1"
    and b0: "0 \<le> b0" "b0 \<le> au_sbend sbi"
    and f: "dl_fmt st \<noteq> S_IFDIR" and name: "au_test_shwh (kn_cfg k) sbi (del_name e) = 0" "length (del_name e) \<le> 4092"
    and M: "M = merged (view L sbi pdi (del_name e)) False [b0 + 1..au_dbtaildir pdi]"
  shows "\<exists>r L' di'. need_below e st = Some (r, set_L L' (st\<lparr>dl_di := di'\<rparr>)) \<and> (r = - ENOMEM \<or> r = int (length M))
    \<and> same_tree L L' \<and> same_table (dl_di st) di'"
proof -
  let ?n = "nat (au_sbend sbi + 1)" and ?mem = "lw_mem L" and ?di = "dl_di st"
  let ?mem1 = "snd (take_alloc (snd (take_alloc ?mem)))"
  note df = L_def pdi_def sbi_def k_def
  show ?thesis
  proof (cases "au_di_alloc sbi (de_gen e) ?mem")
    case None
    have "same_tree L (L\<lparr>lw_mem := ?mem1\<rparr>)" using same_tree_refl [of L] by (simp add: same_tree_def)
    moreover have "need_below e st = Some (- ENOMEM, set_L (L\<lparr>lw_mem := ?mem1\<rparr>) (st\<lparr>dl_di := ?di\<rparr>))"
      using None by (simp add: need_below_def Let_def df)
    moreover have "same_table ?di ?di" by (simp add: same_table_def)
    ultimately show ?thesis by blast
  next
    case (Some tmp)
    have tmp: "tmp = \<lparr>di_generation = de_gen e, di_bstart = - 1, di_bend = - 1, di_bwh = - 1, di_bdiropq = - 1,
        di_hdentry = replicate ?n \<lparr>hd_dentry = None, hd_id = - 1\<rparr>\<rparr>"
      using Some b0 by (auto simp: au_di_alloc_def Let_def split: prod.splits if_splits)
    obtain tmp2 di2 where sw: "au_di_swap (au_di_cp tmp ?di) ?di = (tmp2, di2)" by fastforce
    have s2: "di_hdentry tmp2 = di_hdentry ?di" "di_bstart tmp2 = b0" "di_bend tmp2 = b0" "di_bwh tmp2 = - 1"
      "below_dinfo ?n b0 di2"
      using sw di by (auto simp: au_di_swap_def au_di_cp_def tmp below_dinfo_def dslots_def)
    have b2: "au_dbstart di2 = b0" using s2(5) by (simp add: below_dinfo_def au_dbstart_def)
    define lookup where "lookup = au_lkup_dentry (kn_cfg k) (kn_lkup k L) sbi pdi (Some (dl_fmt st)) (del_name e) (b0 + 1) 0
        (di2, lw_v L, ?mem1)"
    have run: "need_below e st = Option.bind lookup (\<lambda>(r, di3, v, mem2). let (tmp4, di4) = au_di_swap tmp2 di3
        in map_option (\<lambda>v'. (r, set_L (L\<lparr>lw_v := v', lw_mem := mem2\<rparr>) (st\<lparr>dl_di := di4\<rparr>))) (au_di_free tmp4 v))"
      using Some sw b2 by (simp add: need_below_def Let_def lookup_def df)
    obtain ok mem2 where al: "take_alloc ?mem1 = (ok, mem2)" by fastforce
    have fin: ?thesis if lk: "lookup = Some (r, di3, v, mem2)" and r: "r = - ENOMEM \<or> r = int (length M)"
      and own: "di_owns v di3" "di_in_range di3" "d_foreign v (dslots di3) = d_refs (lw_v L)" "same_objs (lw_v L) v" for r di3 v
    proof -
      obtain tmp4 di4 where sw4: "au_di_swap tmp2 di3 = (tmp4, di4)" by fastforce
      have t4: "dslots tmp4 = dslots di3" "di_bstart tmp4 = di_bstart di3" "di_bend tmp4 = di_bend di3"
        "di_hdentry tmp4 = di_hdentry di3" "same_table ?di di4"
        using sw4 s2 di by (auto simp: au_di_swap_def dslots_def same_table_def)
      have "di_owns v tmp4" "di_in_range tmp4" using own t4 by (simp_all add: di_owns_def di_in_range_def)
      then obtain v' where v': "au_di_free tmp4 v = Some v'" "d_refs v' = d_refs (lw_v L)"
        using di_free_ok [of v tmp4] own(3) t4(1) by auto
      have "same_tree L (L\<lparr>lw_v := v', lw_mem := mem2\<rparr>)"
        by (rule quiet_tree [OF same_objs_trans [OF own(4) free_objs [OF v'(1)]] v'(2)])
      then show ?thesis using run lk sw4 v'(1) t4(5) r
        by (intro exI [of _ r] exI [of _ "L\<lparr>lw_v := v', lw_mem := mem2\<rparr>"] exI [of _ di4]) simp
    qed
    show ?thesis
    proof (cases ok)
      case False
      have lk: "lookup = Some (- ENOMEM, di2, lw_v L, mem2)"
        using name al False by (simp add: lookup_def au_lkup_dentry_def au_wh_name_alloc_def PATH_MAX_def)
      have sl: "dslots di2 = replicate ?n None" using s2(5) by (simp add: below_dinfo_def)
      have "length (di_hdentry di2) = ?n" using arg_cong [OF sl, of length] by simp
      then have "di_in_range di2" using s2(5) b0 sl by (auto simp: di_in_range_def below_dinfo_def)
      moreover have "di_owns (lw_v L) di2" by (simp add: di_owns_def sl)
      moreover have "d_foreign (lw_v L) (dslots di2) = d_refs (lw_v L)"
        by (rule ext) (simp add: d_foreign_def sl held_def option.map_ident)
      ultimately show ?thesis using fin [OF lk disjI1 [OF refl] _ _ _ same_objs_refl] by blast
    next
      case True
      have "\<exists>di' v'. lookup = Some (int (length M), di', v', mem2)
          \<and> di_owns v' di' \<and> di_in_range di' \<and> d_foreign v' (dslots di') = d_refs (lw_v L) \<and> same_objs (lw_v L) v'"
        unfolding lookup_def
        by (rule lkup_below [OF hyp s2(5)]) (use b0 f name M al True in \<open>simp_all add: view_def\<close>)
      then show ?thesis using fin by blast
    qed
  qed
qed

section \<open>The tests change nothing\<close>

lemma live_ino:
  assumes "live (lw_v L) d"
  shows "\<exists>i. d_ino L d = Some i \<and> (\<forall>j. i = Some j \<longrightarrow> inos (lw_v L) j \<noteq> None)"
  using assms by (auto simp: live_def d_ino_def)

lemma may_del_ok:
  assumes k: "kern_ok k" and ok: "fs_ok L" and h: "au_h_dptr di (lw_v L) b = Some (Some h)" "live (lw_v L) h"
  shows "\<exists>err. au_may_del k sbi True di name b hp isdir L = Some (err, L)"
proof -
  let ?c = "\<lambda>q. lw_names L q name"
  obtain i where i: "d_ino L h = Some i" "\<And>j. i = Some j \<Longrightarrow> inos (lw_v L) j \<noteq> None"
    using live_ino [OF h(2)] by blast
  obtain x where x: "(case i of None \<Rightarrow> Some None | Some j \<Rightarrow> map_option Some (inos (lw_v L) j)) = Some x"
    using i(2) by (cases i) auto
  have lk: "au_sio_lkup_one (kn_lkup k L) q name (lw_v L) = Some (Inr (?c q), got (?c q) (lw_v L))" for q
    by (rule lower_lkup(2) [OF kern_lower_ok [OF k ok]])
  have put: "put_dentry (?c q) (got (?c q) (lw_v L)) = Some (lw_v L)" for q
    using ok got_ok(2) by (simp add: fs_ok_def)
  show ?thesis using h(1) i(1) x lk put by (simp add: au_may_del_def Let_def)
qed

lemma wr_dir_need_wh_ok:
  fixes e :: del_env and st :: del_st
  defines "L \<equiv> dl_L st"
  assumes b0: "0 \<le> di_bstart (dl_di st)"
    and rw: "au_test_ro (dl_sbi st) (di_bstart (dl_di st)) (Some (dl_ii st)) (lw_v L) (kn_immutable (de_k e) L) = Some 0"
    and b: "need_below e st = Some (r, st')"
  shows "au_wr_dir_need_wh e (- 1) st = Some (r, di_bstart (dl_di st), st')"
  using b0 rw b by (simp add: au_wr_dir_need_wh_def L_def au_dbstart_def Let_def)

lemma writable_whable:
  assumes "au_test_ro sbi b ii v imm = Some 0"
  shows "au_sbr_whable sbi b = Some True"
proof -
  obtain br where br: "au_sbr sbi b = Some br" "\<not> au_br_rdonly br"
    using assms by (auto simp: au_test_ro_def bind_eq_Some_conv split: if_splits)
  have "and (br_perm br) AuBrPerm_RW \<noteq> 0" using br(2) by (simp add: au_br_rdonly_def au_br_writable_def)
  then have "and (br_perm br) (or AuBrPerm_RW AuBrRAttr_WH) \<noteq> 0"
    by (metis bit.conj_disj_distrib or_eq_0_iff)
  then show ?thesis using br(1) by (simp add: au_sbr_whable_def au_sbr_perm_def au_br_whable_def)
qed

section \<open>The pin is given back\<close>

lemma unpin_tree:
  assumes hi: "hdir_inode (pn_pii e) b = Some (Some i)" and ok: "fs_ok (pw_L w)"
    and c: "i_refs (lw_v (pw_L w)) i = Some c" "1 < c" and m: "i \<in> lw_mutex (pw_L w)" "0 < lw_write (pw_L w) m"
    and r: "0 < pw_prefs w" and p: "pin_hdir p = Some b" "au_ftest_pin (pin_flags p) AuPin_DI_LOCKED"
      "au_ftest_pin (pin_flags p) AuPin_MNT_WRITE" "pin_h_mnt p = Some m"
  shows "\<exists>p' L'. au_unpin e p w = Some (p', w\<lparr>pw_L := L', pw_prefs := pw_prefs w - 1\<rparr>)
    \<and> tree_of L' = (tree_of (pw_L w))\<lparr>t_mutex := lw_mutex (pw_L w) - {i},
         t_write := (lw_write (pw_L w))(m := lw_write (pw_L w) m - 1)\<rparr>
    \<and> lw_parent L' = lw_parent (pw_L w) \<and> lw_dname L' = lw_dname (pw_L w) \<and> fs_ok L'"
proof -
  let ?L = "pw_L w"
  define L2 where "L2 = ?L\<lparr>lw_mutex := lw_mutex ?L - {i}, lw_write := (lw_write ?L)(m := lw_write ?L m - 1)\<rparr>"
  obtain v where v: "put_inode i (lw_v ?L) = Some v" using c by (auto simp: i_refs_def put_inode_def)
  note f = put_inode_frame2 [OF v]
  let ?L' = "L2\<lparr>lw_v := v\<rparr>"
  have t: "tree_of ?L' = (tree_of ?L)\<lparr>t_mutex := lw_mutex ?L - {i}, t_write := (lw_write ?L)(m := lw_write ?L m - 1)\<rparr>"
    by (simp add: tree_of_def L2_def f)
  have run: "au_unpin e p w = Some (p\<lparr>pin_parent := False, pin_hdir := None, pin_h_mnt := None\<rparr>,
      w\<lparr>pw_L := ?L', pw_prefs := pw_prefs w - 1\<rparr>)"
    using hi m r p v by (simp add: au_unpin_def au_pin_hdir_unlock_def mutex_unlock_def drop_write_def L2_def parent_put_def)
  have "fs_ok ?L'"
  proof (rule fs_ok_same [OF ok, where r = "d_refs (lw_v ?L)" and m = "lw_mutex ?L - {i}"
        and w = "(lw_write ?L)(m := lw_write ?L m - 1)"])
    show "tree_of ?L' = (tree_of ?L)\<lparr>t_refs := d_refs (lw_v ?L), t_mutex := lw_mutex ?L - {i},
        t_write := (lw_write ?L)(m := lw_write ?L m - 1)\<rparr>"
      using t by (simp add: tree_of_def)
    show "0 < n" if n: "i_refs (lw_v ?L') j = Some n" for j n
      using n c fs_ok_irefs [OF ok, of j n] by (cases "j = i") (auto simp: f)
  qed (simp_all add: L2_def)
  then show ?thesis using run t by (intro exI [of _ "p\<lparr>pin_parent := False, pin_hdir := None, pin_h_mnt := None\<rparr>"]
        exI [of _ ?L']) (simp add: L2_def)
qed

section \<open>What the calls do to the names\<close>

lemma named_other:
  assumes "fs_ok L" and "(q, m) \<noteq> (p, n)"
  shows "lw_names L q m \<noteq> lw_names L p n"
  using assms unfolding fs_ok_def by (metis (no_types, lifting))

lemma made_ents:
  assumes "fs_ok L" and "lw_names L' = lw_names L"
    and "d_fmt (lw_v L') = (d_fmt (lw_v L))(lw_names L p n := Some (Some S_IFREG))"
  shows "ents L' q m = (if q = p \<and> m = n then Some S_IFREG else ents L q m)"
  using named_other [OF assms(1), of q m p n] assms(2,3) by (auto simp: ents_def fmt_def)

lemma unlinked_ents:
  assumes ok: "fs_ok L" and ok': "fs_ok L'" and par: "lw_parent L' = lw_parent L" "lw_dname L' = lw_dname L"
    and names: "lw_names L' = (lw_names L)(p := (lw_names L p)(n := d'))"
    and fmt: "d_fmt (lw_v L') = (d_fmt (lw_v L))(d' := Some None)"
  shows "ents L' q m = (if q = p \<and> m = n then None else ents L q m)"
proof (cases "q = p \<and> m = n")
  case True
  then show ?thesis by (simp add: ents_def fmt_def names fmt)
next
  case False
  then have o: "lw_names L' q m = lw_names L q m" by (cases "q = p") (auto simp: names)
  have "lw_names L' p n = d'" by (simp add: names)
  then have "lw_names L q m \<noteq> d'" using named_other [OF ok', of q m p n] False o by auto
  then show ?thesis using False o unfolding ents_def fmt_def fmt by auto
qed

end
