(* ===== verification/Unlink_Hides.thy ===== *)
theory Unlink_Hides
  imports Unlink_Steps
begin

text \<open>
  What \<open>aufs_unlink\<close> does to the union, for a file whose branch is writable: the name is not found any
  more, no other name changes, every reference, lock and write access is given back, and an error other
  than \<open>-EIO\<close> leaves the union as it was.
\<close>

section \<open>The pinned state\<close>




section \<open>Calls while the parent is pinned\<close>









section \<open>The state that is asked for\<close>





lemma pin_di [simp]: "au_pinned_h_parent (e\<lparr>pn_di := di\<rparr>) p L = au_pinned_h_parent e p L"
    "au_unpin (e\<lparr>pn_di := di\<rparr>) p w = au_unpin e p w"
  by (simp_all add: au_pinned_h_parent_def au_unpin_def au_pin_hdir_unlock_def cong: option.case_cong)





section \<open>Choosing, pinning and whiting out\<close>

lemma set_L_di [simp]: "set_L L (st\<lparr>dl_di := di\<rparr>) = st\<lparr>dl_w := (dl_w st)\<lparr>pw_L := L\<rparr>, dl_di := di\<rparr>"
    "set_L L (st\<lparr>dl_w := w, dl_di := di\<rparr>) = st\<lparr>dl_w := w\<lparr>pw_L := L\<rparr>, dl_di := di\<rparr>"
    "set_L L (st\<lparr>dl_w := w\<rparr>) = st\<lparr>dl_w := w\<lparr>pw_L := L\<rparr>\<rparr>"
    "set_L L (st\<lparr>dl_di := di, dl_w := w\<rparr>) = st\<lparr>dl_di := di, dl_w := w\<lparr>pw_L := L\<rparr>\<rparr>"
  by (simp_all add: set_L_def)




section \<open>The removal and its revert\<close>






section \<open>The whole operation\<close>














end
