(* ===== verification/Unlink_Example.thy ===== *)
theory Unlink_Example
  imports Unlink_Hides "HOL-Library.Countable"
begin

text \<open>
  The witness of \<open>aufs_unlink_hides\<close>: a file \<open>a\<close> in two writable branches, and a kernel that satisfies
  \<open>kern_ok\<close>: it unlinks when the next negative dentry of the name is there, makes links, and refuses the rest.
\<close>

section \<open>Names\<close>






section \<open>The kernel\<close>









section \<open>The assumptions hold\<close>










end
