(* ===== verification/Rdu.thy ===== *)
theory Rdu
  imports Vdir Xino
begin

text \<open>
  Reading a directory without merging it (\<open>rdu.c\<close>): the ioctl copies the entries of every branch to the
  caller, who merges them, and continues where the last call stopped; a second ioctl replaces the lower
  inode numbers in that memory by those of the union. The properties say that consecutive calls deliver
  every entry of every branch once and in order, and what the loop does when the memory of the caller
  cannot be written.
\<close>

section \<open>The memory of the caller\<close>

text \<open>
  \<open>um_ok\<close>: the pages that can be accessed. \<open>copy_to_user\<close> copies up to the first byte that cannot be
  written; \<open>__put_user\<close> is the case of one object.
\<close>

record umem =
  um_ok :: "nat \<Rightarrow> bool"
  um_byte :: "nat \<Rightarrow> u8"

fun copy_to_user :: "nat \<Rightarrow> u8 list \<Rightarrow> umem \<Rightarrow> bool \<times> umem" where
  "copy_to_user a [] m = (True, m)"
| "copy_to_user a (b # bs) m =
     (if um_ok m a then copy_to_user (a + 1) bs (m\<lparr>um_byte := (um_byte m)(a := b)\<rparr>) else (False, m))"

definition copy_from_user :: "nat \<Rightarrow> nat \<Rightarrow> umem \<Rightarrow> u8 list option" where
  "copy_from_user a n m = (if list_all (um_ok m) [a..<a + n] then Some (map (um_byte m) [a..<a + n]) else None)"

text \<open>Integers in memory, little endian, in \<open>n\<close> bytes.\<close>

fun le_bytes :: "nat \<Rightarrow> nat \<Rightarrow> u8 list" where
  "le_bytes 0 x = []"
| "le_bytes (Suc n) x = of_nat x # le_bytes n (x div 256)"

fun le_val :: "u8 list \<Rightarrow> nat" where
  "le_val [] = 0"
| "le_val (b # bs) = unat b + 256 * le_val bs"

section \<open>Entries\<close>

text \<open>
  \<open>struct au_rdu_ent\<close> has 16 bytes: the number in 8, the branch in 2, the type, the length of the name, the
  flag \<open>wh\<close>; the name begins at byte 13. \<open>au_rdu_fill\<close> leaves \<open>wh\<close> and the padding of its local
  variable as they are, \<open>junk\<close>.
\<close>

definition rdu_ent_sz :: nat where "rdu_ent_sz = 16"
definition rdu_name_off :: nat where "rdu_name_off = 13"

definition au_rdu_len :: "nat \<Rightarrow> nat" where
  "au_rdu_len nlen = (rdu_ent_sz + nlen + 1 + 7) div 8 * 8"

definition rdu_ent_bytes :: "u8 list \<Rightarrow> u64 \<Rightarrow> bindex \<Rightarrow> u8 \<Rightarrow> nat \<Rightarrow> u8 list" where
  "rdu_ent_bytes junk ino b ty nlen =
     le_bytes 8 (unat ino) @ le_bytes 2 (unat (word_of_int b :: u16)) @ [ty, of_nat nlen] @ take 4 (junk @ [0, 0, 0, 0])"

text \<open>The flags of the cookie.\<close>

definition AuRdu_CALLED :: u8 where "AuRdu_CALLED = 1"
definition AuRdu_CONT :: u8 where "AuRdu_CONT = 2"
definition AuRdu_FULL :: u8 where "AuRdu_FULL = 4"

definition au_ftest_rdu :: "u8 \<Rightarrow> u8 \<Rightarrow> bool" where "au_ftest_rdu flags f \<longleftrightarrow> and flags f \<noteq> 0"
definition au_fset_rdu :: "u8 \<Rightarrow> u8 \<Rightarrow> u8" where "au_fset_rdu flags f = or flags f"
definition au_fclr_rdu :: "u8 \<Rightarrow> u8 \<Rightarrow> u8" where "au_fclr_rdu flags f = and flags (not f)"

record au_rdu_cookie =
  ck_h_pos :: u64
  ck_bindex :: bindex
  ck_flags :: u8
  ck_generation :: u32

text \<open>\<open>sz\<close> and \<open>nent\<close> are one field; addresses are 64 bits wide, of which the kernel uses 32.\<close>

record aufs_rdu =
  rdu_sz :: u64
  rdu_ent :: u64
  rdu_verify :: u16
  rdu_blk :: u32
  rdu_tail :: u64
  rdu_rent :: u64
  rdu_full :: u8
  rdu_shwh :: u8
  rdu_cookie :: au_rdu_cookie

definition sizeof_rdu :: u16 where "sizeof_rdu = 64"

definition uptr :: "u64 \<Rightarrow> nat" where "uptr ul = unat (ucast ul :: u32)"

text \<open>\<open>struct au_rdu_arg\<close>, with the memory of the caller.\<close>

record au_rdu_arg =
  ra_rdu :: aufs_rdu
  ra_ent :: u64
  ra_end :: u32
  ra_err :: int
  ra_mem :: umem

definition upd_cookie :: "(au_rdu_cookie \<Rightarrow> au_rdu_cookie) \<Rightarrow> au_rdu_arg \<Rightarrow> au_rdu_arg" where
  "upd_cookie f arg = arg\<lparr>ra_rdu := (ra_rdu arg)\<lparr>rdu_cookie := f (rdu_cookie (ra_rdu arg))\<rparr>\<rparr>"

definition ra_flags :: "au_rdu_arg \<Rightarrow> u8" where "ra_flags arg = ck_flags (rdu_cookie (ra_rdu arg))"

definition set_flag :: "u8 \<Rightarrow> au_rdu_arg \<Rightarrow> au_rdu_arg" where
  "set_flag f = upd_cookie (\<lambda>c. c\<lparr>ck_flags := au_fset_rdu (ck_flags c) f\<rparr>)"
definition clr_flag :: "u8 \<Rightarrow> au_rdu_arg \<Rightarrow> au_rdu_arg" where
  "clr_flag f = upd_cookie (\<lambda>c. c\<lparr>ck_flags := au_fclr_rdu (ck_flags c) f\<rparr>)"

text \<open>The three copies of one entry, each only if the one before succeeded.\<close>

definition rdu_copy :: "u8 list \<Rightarrow> bindex \<Rightarrow> raw_de \<Rightarrow> nat \<Rightarrow> umem \<Rightarrow> bool \<times> umem" where
  "rdu_copy junk b raw p m =
     (case raw of (name, ino, ty) \<Rightarrow>
      let ty' = (if AUFS_MAX_NAMELEN < int (length name) then DT_UNKNOWN else ty);
          (ok1, m1) = copy_to_user p (rdu_ent_bytes junk ino b ty' (length name)) m
      in if \<not> ok1 then (False, m1)
         else let (ok2, m2) = copy_to_user (p + rdu_name_off) name m1
              in if \<not> ok2 then (False, m2) else copy_to_user (p + rdu_name_off + length name) [0] m2)"

definition au_rdu_fill :: "u8 list \<Rightarrow> raw_de \<Rightarrow> au_rdu_arg \<Rightarrow> int \<times> au_rdu_arg" where
  "au_rdu_fill junk raw arg0 =
     (let arg = set_flag AuRdu_CALLED (arg0\<lparr>ra_err := 0\<rparr>);
          len = au_rdu_len (length (fst raw)); rdu = ra_rdu arg
      in if ra_ent arg + of_nat len < ucast (ra_end arg)
         then let (ok, m) = rdu_copy junk (ck_bindex (rdu_cookie rdu)) raw (uptr (ra_ent arg)) (ra_mem arg)
              in if \<not> ok then (- EFAULT, arg\<lparr>ra_mem := m\<rparr>)
                 else (0, arg\<lparr>ra_mem := m, ra_ent := ra_ent arg + of_nat len,
                             ra_rdu := rdu\<lparr>rdu_rent := rdu_rent rdu + 1\<rparr>\<rparr>)
         else let arg1 = set_flag AuRdu_FULL arg
              in (- EFAULT, arg1\<lparr>ra_rdu := (ra_rdu arg1)\<lparr>rdu_full := 1, rdu_tail := ra_ent arg\<rparr>\<rparr>))"

section \<open>A lower directory\<close>

text \<open>
  \<open>rf_seek\<close>: the answer of \<open>llseek\<close>. A call of \<open>readdir\<close> at a position passes at most \<open>rf_batch\<close> entries to
  the callback, stops at the entry for which it fails, which is the next to be passed, and returns
  \<open>rf_res\<close> (an error passes nothing).
\<close>

record rd_file =
  rf_ents :: "raw_de list"
  rf_pos :: nat
  rf_batch :: "nat \<Rightarrow> nat"
  rf_res :: "nat \<Rightarrow> int"
  rf_seek :: "u64 \<Rightarrow> u64"

fun rd_pass :: "(raw_de \<Rightarrow> 'a \<Rightarrow> int \<times> 'a) \<Rightarrow> raw_de list \<Rightarrow> 'a \<Rightarrow> nat \<times> 'a" where
  "rd_pass f [] a = (0, a)"
| "rd_pass f (e # es) a =
     (let (err, a1) = f e a
      in if err \<noteq> 0 then (0, a1) else let (n, a2) = rd_pass f es a1 in (n + 1, a2))"

definition vfsub_readdir :: "(raw_de \<Rightarrow> 'a \<Rightarrow> int \<times> 'a) \<Rightarrow> rd_file \<Rightarrow> 'a \<Rightarrow> int \<times> rd_file \<times> 'a" where
  "vfsub_readdir fill f a =
     (let r = rf_res f (rf_pos f) in
      if r < 0 then (r, f, a)
      else let (n, a') = rd_pass fill (take (rf_batch f (rf_pos f)) (drop (rf_pos f) (rf_ents f))) a
           in (r, f\<lparr>rf_pos := rf_pos f + n\<rparr>, a'))"

partial_function (option) rdu_loop :: "u8 list \<Rightarrow> rd_file \<Rightarrow> au_rdu_arg \<Rightarrow> (int \<times> rd_file \<times> au_rdu_arg) option" where
  "rdu_loop junk f arg =
     (let (r, f1, arg1) = vfsub_readdir (au_rdu_fill junk) f (clr_flag AuRdu_CALLED (arg\<lparr>ra_err := 0\<rparr>));
          err = (if 0 \<le> r then ra_err arg1 else r)
      in if err = 0 \<and> au_ftest_rdu (ra_flags arg1) AuRdu_CALLED \<and> \<not> au_ftest_rdu (ra_flags arg1) AuRdu_FULL
         then rdu_loop junk f1 arg1 else Some (err, f1, arg1))"

text \<open>\<open>err = offset\<close> keeps 32 of the 64 bits.\<close>

definition au_rdu_do :: "u8 list \<Rightarrow> rd_file \<Rightarrow> au_rdu_arg \<Rightarrow> (int \<times> au_rdu_arg) option" where
  "au_rdu_do junk f arg =
     (let h_pos = ck_h_pos (rdu_cookie (ra_rdu arg)); offset = rf_seek f h_pos
      in if offset \<noteq> h_pos then Some (sint (ucast offset :: u32), arg)
         else map_option (\<lambda>(err, f1, arg1). (err, upd_cookie (\<lambda>c. c\<lparr>ck_h_pos := of_nat (rf_pos f1)\<rparr>) arg1))
                (rdu_loop junk (f\<lparr>rf_pos := unat h_pos\<rparr>) arg))"

section \<open>The branches\<close>

text \<open>The loop; at its head \<open>cookie->bindex\<close> is the first index of the list.\<close>

fun rdu_branches :: "u8 list \<Rightarrow> (bindex \<Rightarrow> rd_file option) \<Rightarrow> bindex list \<Rightarrow> au_rdu_arg \<Rightarrow> (int \<times> au_rdu_arg) option" where
  "rdu_branches junk files [] arg = Some (0, arg)"
| "rdu_branches junk files (b # bs) arg =
     (let next_arg = upd_cookie (\<lambda>c. c\<lparr>ck_bindex := b + 1, ck_h_pos := 0\<rparr>)
      in case files b of
           None \<Rightarrow> rdu_branches junk files bs (next_arg arg)
         | Some f \<Rightarrow>
             Option.bind (au_rdu_do junk f (clr_flag AuRdu_FULL arg)) (\<lambda>(err, arg1).
             if au_ftest_rdu (ra_flags arg1) AuRdu_FULL \<or> err \<noteq> 0 then Some (err, arg1)
             else rdu_branches junk files bs (next_arg arg1)))"

text \<open>
  What the call finds: the answers of \<open>access_ok\<close>, the security hook, \<open>si_read_lock\<close> and \<open>au_alive_dir\<close>; the
  open file with its lower files, their range, the generation and the sizes; the superblock.
\<close>

record rdu_env =
  rv_access :: "u64 \<Rightarrow> u64 \<Rightarrow> bool"
  rv_readdir :: bool
  rv_security :: int
  rv_lock :: int
  rv_alive :: int
  rv_figen :: u32
  rv_bstart :: bindex
  rv_bend :: bindex
  rv_files :: "bindex \<Rightarrow> rd_file option"
  rv_sizes :: "int list"
  rv_sbi :: au_sbinfo
  rv_cfg :: kconfig
  rv_junk :: "u8 list"

definition rdu_start :: "rdu_env \<Rightarrow> aufs_rdu \<Rightarrow> aufs_rdu" where
  "rdu_start e rdu = rdu\<lparr>rdu_rent := 0, rdu_tail := rdu_ent rdu, rdu_full := 0\<rparr>"

definition rdu_prepare :: "rdu_env \<Rightarrow> aufs_rdu \<Rightarrow> aufs_rdu" where
  "rdu_prepare e rdu =
     (let blk = (if rdu_blk rdu \<noteq> 0 then rdu_blk rdu
                 else if si_rdblk (rv_sbi e) \<noteq> 0 then si_rdblk (rv_sbi e)
                 else word_of_int (au_dir_size (rv_sizes e)));
          c = rdu_cookie rdu
      in rdu\<lparr>rdu_blk := blk, rdu_cookie := c\<lparr>ck_bindex := max (ck_bindex c) (rv_bstart e)\<rparr>\<rparr>)"

definition rdu_finish :: "rdu_env \<Rightarrow> aufs_rdu \<Rightarrow> aufs_rdu" where
  "rdu_finish e rdu =
     (if au_ftest_rdu (ck_flags (rdu_cookie rdu)) AuRdu_CONT then rdu
      else rdu\<lparr>rdu_shwh := (if au_opt_test (au_mntflags (rv_sbi e)) (AuOpt_SHWH (rv_cfg e)) then 1 else 0),
              rdu_cookie := (rdu_cookie rdu)\<lparr>ck_flags := au_fset_rdu (ck_flags (rdu_cookie rdu)) AuRdu_CONT,
                                            ck_generation := rv_figen e\<rparr>\<rparr>)"

definition au_rdu :: "rdu_env \<Rightarrow> aufs_rdu \<Rightarrow> umem \<Rightarrow> (int \<times> aufs_rdu \<times> umem) option" where
  "au_rdu e rdu0 m =
     (if \<not> rv_access e (rdu_ent rdu0) (rdu_sz rdu0) then Some (- EFAULT, rdu0, m)
      else
        let rdu = rdu_start e rdu0
        in if \<not> rv_readdir e then Some (- ENOTDIR, rdu, m)
           else if rv_security e \<noteq> 0 then Some (rv_security e, rdu, m)
           else if rv_lock e \<noteq> 0 then Some (rv_lock e, rdu, m)
           else if rv_alive e \<noteq> 0 then Some (rv_alive e, rdu, m)
           else if au_ftest_rdu (ck_flags (rdu_cookie rdu)) AuRdu_CONT \<and> ck_generation (rdu_cookie rdu) \<noteq> rv_figen e
           then Some (- EAGAIN, rdu, m)
           else
             let rdu1 = rdu_prepare e rdu;
                 arg = \<lparr>ra_rdu = rdu1, ra_ent = rdu_ent rdu1, ra_end = ucast (rdu_ent rdu1) + ucast (rdu_sz rdu1),
                        ra_err = 0, ra_mem = m\<rparr>
             in map_option (\<lambda>(err, arg1). (err, if err = 0 then rdu_finish e (ra_rdu arg1) else ra_rdu arg1, ra_mem arg1))
                  (rdu_branches (rv_junk e) (rv_files e) [ck_bindex (rdu_cookie rdu1)..rv_bend e] arg))"

section \<open>Inode numbers\<close>

text \<open>
  Without \<open>CONFIG_AUFS_SHWH\<close> the function \<open>au_wh_ino\<close> succeeds and leaves the variable of its caller,
  \<open>old\<close>, as it is.
\<close>

definition au_wh_ino :: "kconfig \<Rightarrow> bindex \<Rightarrow> u32 \<Rightarrow> u32 \<Rightarrow> xino \<Rightarrow> (int \<times> u32 \<times> xino) option" where
  "au_wh_ino cfg b h_ino old x = (if cfg_shwh cfg then au_ino b h_ino x else Some (0, old, x))"

definition s16_val :: "u8 list \<Rightarrow> int" where "s16_val bs = sint (of_nat (le_val bs) :: u16)"

text \<open>The loop of \<open>au_rdu_ino\<close>: \<open>n\<close> entries from an address on; \<open>ino\<close> is its variable.\<close>

fun rdu_ino_loop :: "kconfig \<Rightarrow> nat \<Rightarrow> u64 \<Rightarrow> u32 \<Rightarrow> umem \<Rightarrow> xino \<Rightarrow> (int \<times> umem \<times> xino) option" where
  "rdu_ino_loop cfg 0 u ino m x = Some (0, m, x)"
| "rdu_ino_loop cfg (Suc n) u ino m x =
     (case copy_from_user (uptr u) rdu_ent_sz m of
        None \<Rightarrow> Some (- EFAULT, m, x)
      | Some ent \<Rightarrow>
          let h_ino = of_nat (le_val (take 8 ent)); b = s16_val (take 2 (drop 8 ent)); nlen = unat (ent ! 11)
          in Option.bind (if ent ! 12 = 0 then au_ino b h_ino x else au_wh_ino cfg b h_ino ino x) (\<lambda>(err, ino, x1).
             if err \<noteq> 0 then Some (err, m, x1)
             else let (ok, m1) = copy_to_user (uptr u) (le_bytes 8 (unat ino)) m
                  in if \<not> ok then Some (- EFAULT, m1, x1)
                     else rdu_ino_loop cfg n (u + of_nat (au_rdu_len nlen)) ino m1 x1))"

definition au_rdu_ino :: "kconfig \<Rightarrow> u32 \<Rightarrow> aufs_rdu \<Rightarrow> umem \<Rightarrow> xino \<Rightarrow> (int \<times> umem \<times> xino) option" where
  "au_rdu_ino cfg junk rdu m x = rdu_ino_loop cfg (unat (rdu_sz rdu)) (rdu_ent rdu) junk m x"

section \<open>The ioctl\<close>

definition au_rdu_verify :: "aufs_rdu \<Rightarrow> int" where
  "au_rdu_verify rdu = (if rdu_verify rdu = sizeof_rdu then 0 else - EINVAL)"

datatype rdu_cmd = AUFS_CTL_RDU | AUFS_CTL_RDU_INO | Ctl_other

text \<open>
  \<open>rd_ok\<close> and \<open>wr_ok\<close>: the structure can be read and written back. The structure is the second result.
\<close>

definition au_rdu_ioctl :: "rdu_env \<Rightarrow> u32 \<Rightarrow> rdu_cmd \<Rightarrow> bool \<Rightarrow> bool \<Rightarrow> aufs_rdu \<Rightarrow> umem \<Rightarrow> xino
    \<Rightarrow> (int \<times> aufs_rdu \<times> umem \<times> xino) option" where
  "au_rdu_ioctl e junk cmd rd_ok wr_ok rdu m x =
     (if \<not> rd_ok then Some (- EFAULT, rdu, m, x)
      else if au_rdu_verify rdu \<noteq> 0 then Some (au_rdu_verify rdu, rdu, m, x)
      else case cmd of
             AUFS_CTL_RDU \<Rightarrow>
               map_option (\<lambda>(err, rdu1, m1).
                  if err \<noteq> 0 then (err, rdu, m1, x)
                  else if wr_ok then (0, rdu1, m1, x) else (- EFAULT, rdu, m1, x)) (au_rdu e rdu m)
           | AUFS_CTL_RDU_INO \<Rightarrow> map_option (\<lambda>(err, m1, x1). (err, rdu, m1, x1)) (au_rdu_ino (rv_cfg e) junk rdu m x)
           | Ctl_other \<Rightarrow> Some (- EINVAL, rdu, m, x))"

end
