(* ===== verification/Rdu_Ok.thy ===== *)
theory Rdu_Ok
  imports Rdu
begin

text \<open>
  What consecutive calls of the ioctl of \<open>rdu.c\<close> deliver.
\<close>

section \<open>Flags\<close>

lemma rdu_test_bit: "au_ftest_rdu f AuRdu_CALLED = bit f 0" "au_ftest_rdu f AuRdu_CONT = bit f 1"
    "au_ftest_rdu f AuRdu_FULL = bit f 2"
  using and_exp_eq_0_iff_not_bit [of f 0] and_exp_eq_0_iff_not_bit [of f 1] and_exp_eq_0_iff_not_bit [of f 2]
  by (simp_all add: au_ftest_rdu_def AuRdu_CALLED_def AuRdu_CONT_def AuRdu_FULL_def)

lemma rdu_flag_bits: "bit AuRdu_CALLED n = (n = 0)" "bit AuRdu_CONT n = (n = 1)" "bit AuRdu_FULL n = (n = 2)"
proof -
  have "bit AuRdu_CALLED n = bit (2 ^ 0 :: u8) n" "bit AuRdu_CONT n = bit (2 ^ 1 :: u8) n"
    "bit AuRdu_FULL n = bit (2 ^ 2 :: u8) n"
    by (simp_all add: AuRdu_CALLED_def AuRdu_CONT_def AuRdu_FULL_def)
  then show "bit AuRdu_CALLED n = (n = 0)" "bit AuRdu_CONT n = (n = 1)" "bit AuRdu_FULL n = (n = 2)"
    by (auto simp only: bit_exp_iff possible_bit_word) auto
qed

lemma rdu_bit_set_clr: "bit (au_fset_rdu f g) n = (bit f n \<or> bit g n)"
    "n < 8 \<Longrightarrow> bit (au_fclr_rdu f g) n = (bit f n \<and> \<not> bit g n)"
  by (simp_all add: au_fset_rdu_def au_fclr_rdu_def bit_or_iff bit_and_iff bit_not_iff)

lemmas rdu_flags = rdu_test_bit rdu_bit_set_clr rdu_flag_bits

section \<open>Memory\<close>

lemma copy_to_user_ok:
  assumes "\<forall>i < length bs. um_ok m (a + i)"
  shows "\<exists>m'. copy_to_user a bs m = (True, m') \<and> um_ok m' = um_ok m
    \<and> (\<forall>i < length bs. um_byte m' (a + i) = bs ! i) \<and> (\<forall>c. c < a \<or> a + length bs \<le> c \<longrightarrow> um_byte m' c = um_byte m c)"
  using assms
proof (induction bs arbitrary: a m)
  case (Cons b bs)
  let ?m = "m\<lparr>um_byte := (um_byte m)(a := b)\<rparr>"
  have "\<forall>i < length bs. um_ok ?m (a + 1 + i)"
  proof (intro allI impI)
    fix i assume "i < length bs"
    then show "um_ok ?m (a + 1 + i)" using Cons.prems [rule_format, of "Suc i"] by simp
  qed
  from Cons.IH [OF this] obtain m' where m': "copy_to_user (a + 1) bs ?m = (True, m')" "um_ok m' = um_ok m"
    "\<forall>i < length bs. um_byte m' (a + 1 + i) = bs ! i"
    "\<forall>c. c < a + 1 \<or> a + 1 + length bs \<le> c \<longrightarrow> um_byte m' c = um_byte ?m c" by auto
  have "um_byte m' (a + i) = (b # bs) ! i" if "i < length (b # bs)" for i
    using that m'(3) m'(4) [rule_format, of a] by (cases i) auto
  moreover have "um_ok m a" using Cons.prems [rule_format, of 0] by simp
  ultimately show ?case using m'(1,2,4) by (intro exI [of _ m']) auto
qed simp

lemma le_bytes_length [simp]: "length (le_bytes n x) = n"
  by (induction n x rule: le_bytes.induct) auto

lemma le_val_bytes: "x < 256 ^ n \<Longrightarrow> le_val (le_bytes n x) = x"
proof (induction n x rule: le_bytes.induct)
  case (2 n x)
  have "x div 256 < 256 ^ n" using 2(2) by (simp add: less_mult_imp_div_less mult.commute)
  moreover have "unat (of_nat x :: u8) = x mod 256" by (simp add: unat_of_nat)
  ultimately show ?case using 2(1) by simp
qed simp


section \<open>What is in the memory\<close>

text \<open>The entry at an address, and \<open>n\<close> entries from an address on, as the caller reads them.\<close>

definition rdu_ent_at :: "umem \<Rightarrow> nat \<Rightarrow> bindex \<times> raw_de" where
  "rdu_ent_at m p =
     (let by = (\<lambda>off n. map (um_byte m) [p + off..<p + off + n])
      in (s16_val (by 8 2), by rdu_name_off (unat (um_byte m (p + 11))), of_nat (le_val (by 0 8)), um_byte m (p + 10)))"

fun rdu_ents_at :: "umem \<Rightarrow> nat \<Rightarrow> nat \<Rightarrow> (bindex \<times> raw_de) list" where
  "rdu_ents_at m p 0 = []"
| "rdu_ents_at m p (Suc n) =
     rdu_ent_at m p # rdu_ents_at m (p + au_rdu_len (length (fst (snd (rdu_ent_at m p))))) n"

text \<open>The entry that is delivered for an entry of a lower directory; its size.\<close>

definition rdu_shown :: "bindex \<times> raw_de \<Rightarrow> bindex \<times> raw_de" where
  "rdu_shown x = (case x of (b, name, ino, ty) \<Rightarrow>
     (b, name, ino, if AUFS_MAX_NAMELEN < int (length name) then DT_UNKNOWN else ty))"

definition rdu_size :: "bindex \<times> raw_de \<Rightarrow> nat" where
  "rdu_size x = au_rdu_len (length (fst (snd x)))"

definition rdu_ok_ent :: "bindex \<times> raw_de \<Rightarrow> bool" where
  "rdu_ok_ent x \<longleftrightarrow> 0 \<le> fst x \<and> fst x < 2 ^ 15 \<and> length (fst (snd x)) < 256"

lemma rdu_len_bounds: "rdu_ent_sz + n < au_rdu_len n" "24 \<le> au_rdu_len n" "au_rdu_len n \<le> n + 24"
  by (simp_all add: au_rdu_len_def rdu_ent_sz_def)

lemma s16_val_bytes:
  assumes "0 \<le> b" and "b < 2 ^ 15"
  shows "s16_val (le_bytes 2 (unat (word_of_int b :: u16))) = b"
proof -
  have "unat (word_of_int b :: u16) < 256 ^ 2" using unsigned_less [of "word_of_int b :: u16"] by simp
  then have "s16_val (le_bytes 2 (unat (word_of_int b :: u16))) = sint (word_of_int b :: u16)"
    by (simp add: s16_val_def le_val_bytes)
  also have "\<dots> = b" using assms by (simp add: signed_of_int signed_take_bit_int_eq_self)
  finally show ?thesis .
qed

lemma map_upt_nth:
  assumes "\<forall>i < n. f (p + i) = bs ! i" and "length bs = n"
  shows "map f [p..<p + n] = bs"
  using assms by (auto simp: list_eq_iff_nth_eq)

lemma rdu_copy_ok:
  assumes x: "rdu_ok_ent (b, raw)" and ok: "\<forall>i < au_rdu_len (length (fst raw)). um_ok m (p + i)"
  shows "\<exists>m'. rdu_copy junk b raw p m = (True, m') \<and> um_ok m' = um_ok m \<and> rdu_ent_at m' p = rdu_shown (b, raw)
    \<and> (\<forall>c. c < p \<or> p + au_rdu_len (length (fst raw)) \<le> c \<longrightarrow> um_byte m' c = um_byte m c)"
proof -
  obtain name ino ty where raw: "raw = (name, ino, ty)" by (cases raw)
  let ?n = "length name"
  define ty' where "ty' = (if AUFS_MAX_NAMELEN < int ?n then DT_UNKNOWN else ty)"
  define ent where "ent = rdu_ent_bytes junk ino b ty' ?n"
  note len = rdu_len_bounds(1) [of ?n, unfolded rdu_ent_sz_def]
  have l: "length ent = 16" by (simp add: ent_def rdu_ent_bytes_def)
  have "\<forall>i < length ent. um_ok m (p + i)" using ok len by (simp add: l raw)
  then obtain m1 where m1: "copy_to_user p ent m = (True, m1)" "um_ok m1 = um_ok m"
    "\<forall>i < 16. um_byte m1 (p + i) = ent ! i" "\<forall>c. c < p \<or> p + 16 \<le> c \<longrightarrow> um_byte m1 c = um_byte m c"
    using copy_to_user_ok [of ent m p] l by auto
  have "\<forall>i < length name. um_ok m1 (p + 13 + i)"
    using ok len by (simp add: m1(2) raw add.assoc)
  then obtain m2 where m2: "copy_to_user (p + 13) name m1 = (True, m2)" "um_ok m2 = um_ok m"
    "\<forall>i < ?n. um_byte m2 (p + 13 + i) = name ! i"
    "\<forall>c. c < p + 13 \<or> p + 13 + ?n \<le> c \<longrightarrow> um_byte m2 c = um_byte m1 c"
    using copy_to_user_ok [of name m1 "p + 13"] m1(2) by auto
  have "\<forall>i < length [0::u8]. um_ok m2 (p + 13 + ?n + i)"
    using ok len by (simp add: m2(2) raw add.assoc)
  then obtain m3 where m3: "copy_to_user (p + 13 + ?n) [0] m2 = (True, m3)" "um_ok m3 = um_ok m"
    "\<forall>c. c < p + 13 + ?n \<or> p + 13 + ?n + 1 \<le> c \<longrightarrow> um_byte m3 c = um_byte m2 c"
    using copy_to_user_ok [of "[0]" m2 "p + 13 + ?n"] m2(2) by auto
  have low: "um_byte m3 (p + i) = ent ! i" if "i < 13" for i
    using that m1(3) m2(4) m3(3) by simp
  have nm: "map (um_byte m3) [p + 13..<p + 13 + ?n] = name"
    by (rule map_upt_nth) (use m2(3) m3(3) in auto)
  have part: "map (um_byte m3) [p + off..<p + off + k] = take k (drop off ent)" if "off + k \<le> 13" for off k
  proof (rule map_upt_nth)
    show "\<forall>i < k. um_byte m3 (p + off + i) = take k (drop off ent) ! i"
      using low that l by (simp add: add.assoc)
    show "length (take k (drop off ent)) = k" using that l by simp
  qed
  have bytes: "take 8 (drop 0 ent) = le_bytes 8 (unat ino)" "take 2 (drop 8 ent) = le_bytes 2 (unat (word_of_int b :: u16))"
    "ent ! 10 = ty'" "ent ! 11 = of_nat ?n"
    by (simp_all add: ent_def rdu_ent_bytes_def nth_append)
  have "unat ino < 256 ^ 8" using unsigned_less [of ino] by simp
  then have ino: "(of_nat (le_val (le_bytes 8 (unat ino))) :: u64) = ino" by (simp add: le_val_bytes)
  have nlen: "unat (of_nat ?n :: u8) = ?n" using x by (simp add: rdu_ok_ent_def raw unat_of_nat)
  have "rdu_ent_at m3 p = (b, name, ino, ty')"
    using x part [of 8 2] part [of 0 8] low [of 10] low [of 11] nm
    by (simp add: rdu_ent_at_def Let_def bytes [unfolded drop0] ino nlen s16_val_bytes rdu_ok_ent_def rdu_name_off_def)
  moreover have "um_byte m3 c = um_byte m c" if "c < p \<or> p + au_rdu_len ?n \<le> c" for c
    using that m1(4) m2(4) m3(3) len by (auto simp: numeral_eq_Suc)
  moreover have "rdu_copy junk b raw p m = (True, m3)"
    using m1(1) m2(1) m3(1) by (simp add: rdu_copy_def raw Let_def ent_def ty'_def rdu_name_off_def add.assoc)
  ultimately show ?thesis using m3(2) by (intro exI [of _ m3]) (auto simp: rdu_shown_def raw ty'_def)
qed

lemma rdu_ents_same:
  assumes "rdu_ents_at m p n = es" and "\<forall>c. p \<le> c \<longrightarrow> c < p + sum_list (map rdu_size es) \<longrightarrow> um_byte m' c = um_byte m c"
  shows "rdu_ents_at m' p n = es"
  using assms
proof (induction n arbitrary: p es)
  case (Suc n)
  let ?x = "rdu_ent_at m p" let ?k = "length (fst (snd ?x))"
  let ?es = "rdu_ents_at m (p + au_rdu_len ?k) n"
  have es: "es = ?x # ?es" using Suc.prems(1) by simp
  have sz: "rdu_size ?x = au_rdu_len ?k" by (simp add: rdu_size_def)
  have eq: "um_byte m' c = um_byte m c" if "p \<le> c" "c < p + au_rdu_len ?k + sum_list (map rdu_size ?es)" for c
    using Suc.prems(2) that unfolding es by (simp add: sz add.assoc)
  have k: "?k = unat (um_byte m (p + 11))" by (simp add: rdu_ent_at_def Let_def)
  have low: "um_byte m' (p + c) = um_byte m (p + c)" if "c < 16 + ?k" for c
    using eq [of "p + c"] that rdu_len_bounds(1) [of ?k] by (simp add: rdu_ent_sz_def)
  have part: "map (um_byte m') [p + off..<p + off + l] = map (um_byte m) [p + off..<p + off + l]" if "off + l \<le> 16 + ?k" for off l
  proof (rule map_cong [OF refl])
    fix c assume "c \<in> set [p + off..<p + off + l]"
    then have "p + off \<le> c" "c < p + off + l" by auto
    then show "um_byte m' c = um_byte m c" using low [of "c - p"] that by simp
  qed
  have "rdu_ent_at m' p = ?x"
    using low [of 10] low [of 11] part [of 8 2] part [of 0 8] part [of 13 ?k] k
    by (simp add: rdu_ent_at_def Let_def rdu_name_off_def del: map_eq_conv)
  moreover have "rdu_ents_at m' (p + au_rdu_len ?k) n = ?es"
    by (rule Suc.IH [OF refl]) (use eq in auto)
  ultimately show ?case by (simp add: es)
qed simp


lemma rdu_ents_append:
  assumes "rdu_ents_at m p n = es" and "rdu_ents_at m (p + sum_list (map rdu_size es)) k = fs"
  shows "rdu_ents_at m p (n + k) = es @ fs"
  using assms
proof (induction n arbitrary: p es)
  case (Suc n)
  then show ?case by (cases es) (auto simp: rdu_size_def add.assoc)
qed simp

section \<open>Delivering entries\<close>

text \<open>
  \<open>rdu_fits e p es\<close>: how many of the entries are delivered to the memory between \<open>p\<close> and \<open>e\<close>; the last
  byte stays free.
\<close>

fun rdu_fits :: "nat \<Rightarrow> nat \<Rightarrow> (bindex \<times> raw_de) list \<Rightarrow> nat" where
  "rdu_fits e p [] = 0"
| "rdu_fits e p (x # es) = (if p + rdu_size x < e then Suc (rdu_fits e (p + rdu_size x) es) else 0)"

definition rdu_total :: "(bindex \<times> raw_de) list \<Rightarrow> nat" where "rdu_total es = sum_list (map rdu_size es)"

lemma rdu_total_simps [simp]: "rdu_total [] = 0" "rdu_total (x # es) = rdu_size x + rdu_total es"
    "rdu_total (es @ fs) = rdu_total es + rdu_total fs"
  by (simp_all add: rdu_total_def)

lemma rdu_fits_le: "rdu_fits e p es \<le> length es"
  by (induction e p es rule: rdu_fits.induct) auto

lemma rdu_fits_append:
  "rdu_fits e p (es @ fs) =
     (if rdu_fits e p es = length es then length es + rdu_fits e (p + rdu_total es) fs else rdu_fits e p es)"
  by (induction e p es rule: rdu_fits.induct) (auto simp: add.assoc)

lemma rdu_fits_bound: "p < e \<Longrightarrow> p + rdu_total (take (rdu_fits e p es) es) < e"
  by (induction e p es rule: rdu_fits.induct) (auto simp: add.assoc)

lemma rdu_total_length: "24 * length es \<le> rdu_total es"
  by (induction es) (auto simp: rdu_size_def intro: add_mono rdu_len_bounds)

text \<open>
  The buffer of the caller: from \<open>p\<close> on, up to \<open>e\<close>, it can be written; \<open>es\<close> was delivered between the two
  arguments.
\<close>

definition rdu_span :: "nat \<Rightarrow> nat \<Rightarrow> au_rdu_arg \<Rightarrow> bool" where
  "rdu_span p e arg \<longleftrightarrow> unat (ra_ent arg) = p \<and> unat (ra_end arg) = e \<and> p < e"

definition rdu_room :: "nat \<Rightarrow> nat \<Rightarrow> au_rdu_arg \<Rightarrow> bool" where
  "rdu_room p e arg \<longleftrightarrow> rdu_span p e arg \<and> (\<forall>a. p \<le> a \<longrightarrow> a < e \<longrightarrow> um_ok (ra_mem arg) a)"

lemma rdu_room_span: "rdu_room p e arg \<Longrightarrow> rdu_span p e arg"
  by (simp add: rdu_room_def)

definition same_frame :: "aufs_rdu \<Rightarrow> aufs_rdu \<Rightarrow> bool" where
  "same_frame r r' \<longleftrightarrow> rdu_sz r' = rdu_sz r \<and> rdu_ent r' = rdu_ent r \<and> rdu_verify r' = rdu_verify r \<and> rdu_blk r' = rdu_blk r
     \<and> rdu_shwh r' = rdu_shwh r \<and> ck_bindex (rdu_cookie r') = ck_bindex (rdu_cookie r)
     \<and> ck_h_pos (rdu_cookie r') = ck_h_pos (rdu_cookie r) \<and> ck_generation (rdu_cookie r') = ck_generation (rdu_cookie r)
     \<and> au_ftest_rdu (ck_flags (rdu_cookie r')) AuRdu_CONT = au_ftest_rdu (ck_flags (rdu_cookie r)) AuRdu_CONT"

definition rdu_put :: "(bindex \<times> raw_de) list \<Rightarrow> nat \<Rightarrow> nat \<Rightarrow> au_rdu_arg \<Rightarrow> au_rdu_arg \<Rightarrow> bool" where
  "rdu_put es p e arg arg' \<longleftrightarrow> rdu_room (p + rdu_total es) e arg' \<and> same_frame (ra_rdu arg) (ra_rdu arg')
     \<and> rdu_rent (ra_rdu arg') = rdu_rent (ra_rdu arg) + of_nat (length es)
     \<and> um_ok (ra_mem arg') = um_ok (ra_mem arg)
     \<and> (\<forall>c. c < p \<longrightarrow> um_byte (ra_mem arg') c = um_byte (ra_mem arg) c)
     \<and> rdu_ents_at (ra_mem arg') p (length es) = map rdu_shown es"

lemma same_frame_refl: "same_frame r r" by (simp add: same_frame_def)
lemma same_frame_trans: "same_frame r s \<Longrightarrow> same_frame s t \<Longrightarrow> same_frame r t" by (simp add: same_frame_def)

lemma rdu_size_shown [simp]: "rdu_size (rdu_shown x) = rdu_size x"
  by (cases x) (simp add: rdu_shown_def rdu_size_def)

lemma rdu_total_shown [simp]: "sum_list (map rdu_size (map rdu_shown es)) = rdu_total es"
  by (induction es) auto

lemma rdu_put_nil: "rdu_room p e arg \<Longrightarrow> rdu_put [] p e arg arg"
  by (simp add: rdu_put_def same_frame_refl)

lemma rdu_put_trans:
  assumes a: "rdu_put es p e x y" and b: "rdu_put fs (p + rdu_total es) e y z"
  shows "rdu_put (es @ fs) p e x z"
proof -
  have "rdu_ents_at (ra_mem z) p (length es) = map rdu_shown es"
  proof (rule rdu_ents_same [of "ra_mem y"])
    show "rdu_ents_at (ra_mem y) p (length es) = map rdu_shown es" using a by (simp add: rdu_put_def)
    show "\<forall>c. p \<le> c \<longrightarrow> c < p + sum_list (map rdu_size (map rdu_shown es)) \<longrightarrow> um_byte (ra_mem z) c = um_byte (ra_mem y) c"
      unfolding rdu_total_shown using b by (simp add: rdu_put_def)
  qed
  then have "rdu_ents_at (ra_mem z) p (length es + length fs) = map rdu_shown es @ map rdu_shown fs"
    by (rule rdu_ents_append) (use b in \<open>simp only: rdu_put_def rdu_total_shown\<close>)
  then show ?thesis using a b same_frame_trans [of "ra_rdu x" "ra_rdu y" "ra_rdu z"]
    by (simp add: rdu_put_def add.assoc)
qed


definition is_called :: "au_rdu_arg \<Rightarrow> bool" where "is_called arg \<longleftrightarrow> au_ftest_rdu (ra_flags arg) AuRdu_CALLED"
definition is_full :: "au_rdu_arg \<Rightarrow> bool" where "is_full arg \<longleftrightarrow> au_ftest_rdu (ra_flags arg) AuRdu_FULL"

lemma rdu_less:
  assumes "rdu_span p e arg"
  shows "n < 256 \<Longrightarrow> ra_ent arg + of_nat (au_rdu_len n) < ucast (ra_end arg) \<longleftrightarrow> p + au_rdu_len n < e"
    and "uptr (ra_ent arg) = p"
    and "p + k < e \<Longrightarrow> unat (ra_ent arg + of_nat k) = p + k"
proof -
  have p: "unat (ra_ent arg) = p" "unat (ra_end arg) = e" "p < e" using assms by (simp_all add: rdu_span_def)
  have "unat (ra_end arg) < 2 ^ LENGTH(32)" by (rule unsigned_less)
  then have e: "e < 2 ^ 32" using p(2) by simp
  have add: "unat (ra_ent arg + of_nat j) = p + j" if "j < 2 ^ 33" for j
  proof -
    have "unat (of_nat j :: u64) = j" using that by (simp add: unat_of_nat)
    moreover have "p + j < 2 ^ 64" using that e p(3) by simp
    ultimately show ?thesis by (simp add: p(1) unat_word_ariths)
  qed
  have "take_bit 64 e = e" using e by (intro take_bit_nat_eq_self) simp
  then have end_eq: "unat (ucast (ra_end arg) :: u64) = e" by (simp add: p(2) unsigned_ucast_eq)
  show "ra_ent arg + of_nat (au_rdu_len n) < ucast (ra_end arg) \<longleftrightarrow> p + au_rdu_len n < e" if "n < 256"
    using that rdu_len_bounds(3) [of n] by (simp add: word_less_nat_alt add end_eq)
  show "uptr (ra_ent arg) = p" using e p by (simp add: uptr_def unsigned_ucast_eq take_bit_nat_eq_self)
  show "p + k < e \<Longrightarrow> unat (ra_ent arg + of_nat k) = p + k" using e by (simp add: add)
qed

lemmas rdu_upd = set_flag_def clr_flag_def upd_cookie_def is_called_def is_full_def ra_flags_def

lemma fill_fits:
  assumes r: "rdu_room p e arg" and x: "x = (ck_bindex (rdu_cookie (ra_rdu arg)), raw)" "rdu_ok_ent x"
    and f: "p + rdu_size x < e"
  shows "\<exists>arg'. au_rdu_fill junk raw arg = (0, arg') \<and> rdu_put [x] p e arg arg' \<and> is_called arg'
    \<and> is_full arg' = is_full arg \<and> ra_err arg' = 0 \<and> rdu_full (ra_rdu arg') = rdu_full (ra_rdu arg)"
proof -
  let ?n = "length (fst raw)" let ?b = "ck_bindex (rdu_cookie (ra_rdu arg))"
  have n: "?n < 256" using x by (simp add: rdu_ok_ent_def)
  have f': "p + au_rdu_len ?n < e" using f x(1) by (simp add: rdu_size_def)
  have ok: "\<forall>i < au_rdu_len ?n. um_ok (ra_mem arg) (p + i)" using r f' by (simp add: rdu_room_def rdu_span_def)
  obtain m' where m': "rdu_copy junk ?b raw p (ra_mem arg) = (True, m')" "um_ok m' = um_ok (ra_mem arg)"
    "rdu_ent_at m' p = rdu_shown (?b, raw)"
    "\<forall>c. c < p \<or> p + au_rdu_len ?n \<le> c \<longrightarrow> um_byte m' c = um_byte (ra_mem arg) c"
    using rdu_copy_ok [OF _ ok, of ?b junk] x by auto
  let ?arg = "(set_flag AuRdu_CALLED (arg\<lparr>ra_err := 0\<rparr>))\<lparr>ra_mem := m', ra_ent := ra_ent arg + of_nat (au_rdu_len ?n)\<rparr>"
  let ?arg' = "?arg\<lparr>ra_rdu := (ra_rdu ?arg)\<lparr>rdu_rent := rdu_rent (ra_rdu arg) + 1\<rparr>\<rparr>"
  have "au_rdu_fill junk raw arg = (0, ?arg')"
    using f' m'(1) rdu_less(1) [OF rdu_room_span [OF r] n] rdu_less(2) [OF rdu_room_span [OF r]] by (simp add: au_rdu_fill_def Let_def rdu_upd)
  moreover have "rdu_put [x] p e arg ?arg'"
    using m' r f' x(1) rdu_less(3) [OF rdu_room_span [OF r] f']
    by (simp add: rdu_put_def rdu_room_def rdu_span_def same_frame_def rdu_upd rdu_flags rdu_size_def)
  ultimately show ?thesis by (intro exI [of _ ?arg']) (simp add: rdu_upd rdu_flags)
qed

lemma fill_full:
  assumes r: "rdu_room p e arg" and x: "x = (ck_bindex (rdu_cookie (ra_rdu arg)), raw)" "rdu_ok_ent x"
    and f: "\<not> p + rdu_size x < e"
  shows "\<exists>arg'. au_rdu_fill junk raw arg = (- EFAULT, arg') \<and> rdu_put [] p e arg arg' \<and> is_called arg'
    \<and> is_full arg' \<and> ra_err arg' = 0 \<and> rdu_full (ra_rdu arg') = 1"
proof -
  let ?n = "length (fst raw)"
  have n: "?n < 256" using x by (simp add: rdu_ok_ent_def)
  have f': "\<not> p + au_rdu_len ?n < e" using f x(1) by (simp add: rdu_size_def)
  then have l: "\<not> ra_ent arg + of_nat (au_rdu_len ?n) < ucast (ra_end arg)" using rdu_less(1) [OF rdu_room_span [OF r] n] by simp
  define arg' where "arg' = snd (au_rdu_fill junk raw arg)"
  have "au_rdu_fill junk raw arg = (- EFAULT, arg')"
    using l by (simp add: arg'_def au_rdu_fill_def Let_def rdu_upd)
  moreover have "rdu_put [] p e arg arg' \<and> is_called arg' \<and> is_full arg' \<and> ra_err arg' = 0 \<and> rdu_full (ra_rdu arg') = 1"
    using l r by (simp add: arg'_def au_rdu_fill_def Let_def rdu_upd rdu_put_def rdu_room_def rdu_span_def same_frame_def rdu_flags)
  ultimately show ?thesis by blast
qed


section \<open>Passing a batch\<close>

text \<open>\<open>n\<close> of the entries were delivered, the others did not fit.\<close>

definition rdu_passed :: "nat \<Rightarrow> (bindex \<times> raw_de) list \<Rightarrow> nat \<Rightarrow> nat \<Rightarrow> au_rdu_arg \<Rightarrow> au_rdu_arg \<Rightarrow> bool" where
  "rdu_passed n es p e arg arg' \<longleftrightarrow> rdu_fits e p es = n \<and> rdu_put (take n es) p e arg arg' \<and> ra_err arg' = 0
     \<and> (is_full arg' \<longleftrightarrow> is_full arg \<or> n < length es) \<and> rdu_full (ra_rdu arg') = (if n < length es then 1 else rdu_full (ra_rdu arg))"

lemma rdu_put_bindex: "rdu_put es p e arg arg' \<Longrightarrow> ck_bindex (rdu_cookie (ra_rdu arg')) = ck_bindex (rdu_cookie (ra_rdu arg))"
  by (simp add: rdu_put_def same_frame_def)

lemma rdu_put_room: "rdu_put es p e arg arg' \<Longrightarrow> rdu_room (p + rdu_total es) e arg'"
  by (simp add: rdu_put_def)

lemma rd_pass_ok:
  assumes "rdu_room p e arg" and "\<forall>x \<in> set es. rdu_ok_ent (ck_bindex (rdu_cookie (ra_rdu arg)), x)" and "ra_err arg = 0"
  shows "\<exists>n arg'. rd_pass (au_rdu_fill junk) es arg = (n, arg')
    \<and> rdu_passed n (map (Pair (ck_bindex (rdu_cookie (ra_rdu arg)))) es) p e arg arg'
    \<and> (is_called arg' \<longleftrightarrow> is_called arg \<or> es \<noteq> [])"
  using assms
proof (induction es arbitrary: p arg)
  case Nil
  then show ?case by (simp add: rdu_passed_def rdu_put_nil)
next
  case (Cons raw es)
  let ?b = "ck_bindex (rdu_cookie (ra_rdu arg))" let ?x = "(?b, raw)"
  have x: "rdu_ok_ent ?x" using Cons.prems(2) by simp
  show ?case
  proof (cases "p + rdu_size ?x < e")
    case True
    obtain arg1 where a1: "au_rdu_fill junk raw arg = (0, arg1)" "rdu_put [?x] p e arg arg1" "is_called arg1"
      "is_full arg1 = is_full arg" "ra_err arg1 = 0" "rdu_full (ra_rdu arg1) = rdu_full (ra_rdu arg)"
      using fill_fits [OF Cons.prems(1) refl x True] by blast
    have b: "ck_bindex (rdu_cookie (ra_rdu arg1)) = ?b" by (rule rdu_put_bindex [OF a1(2)])
    have room: "rdu_room (p + rdu_size ?x) e arg1" using rdu_put_room [OF a1(2)] by simp
    obtain n arg' where a': "rd_pass (au_rdu_fill junk) es arg1 = (n, arg')"
      "rdu_passed n (map (Pair ?b) es) (p + rdu_size ?x) e arg1 arg'" "is_called arg'"
      using Cons.IH [OF room _ a1(5)] Cons.prems(2) a1(3) unfolding b by auto
    have put: "rdu_put (take n (map (Pair ?b) es)) (p + rdu_size ?x) e arg1 arg'"
      using a'(2) unfolding rdu_passed_def by blast
    have "rdu_put ([?x] @ take n (map (Pair ?b) es)) p e arg arg'"
      by (rule rdu_put_trans [OF a1(2)]) (simp add: put)
    then show ?thesis using a1 a' True
      by (intro exI [of _ "Suc n"] exI [of _ arg']) (auto simp: rdu_passed_def)
  next
    case False
    obtain arg1 where a1: "au_rdu_fill junk raw arg = (- EFAULT, arg1)" "rdu_put [] p e arg arg1" "is_called arg1"
      "is_full arg1" "ra_err arg1 = 0" "rdu_full (ra_rdu arg1) = 1"
      using fill_full [OF Cons.prems(1) refl x False] by blast
    then show ?thesis using False
      by (intro exI [of _ 0] exI [of _ arg1]) (auto simp: rdu_passed_def)
  qed
qed


section \<open>One lower directory\<close>

lemma rdu_passed_append:
  assumes a: "rdu_passed (length es) es p e x y" and b: "rdu_passed n fs (p + rdu_total es) e y z"
  shows "rdu_passed (length es + n) (es @ fs) p e x z"
proof -
  have "rdu_put es p e x y" "rdu_put (take n fs) (p + rdu_total es) e y z"
    using a b by (simp_all add: rdu_passed_def)
  then have "rdu_put (es @ take n fs) p e x z" by (rule rdu_put_trans)
  then show ?thesis using a b by (simp add: rdu_passed_def rdu_fits_append)
qed

lemma rdu_passed_cut:
  assumes "rdu_passed n es p e x y" and "n < length es"
  shows "rdu_passed n (es @ fs) p e x y"
  using assms by (simp add: rdu_passed_def rdu_fits_append)

lemma rdu_passed_pre:
  assumes "rdu_put [] p e x y" and "is_full y = is_full x" and "rdu_full (ra_rdu y) = rdu_full (ra_rdu x)" and "rdu_passed n es p e y z"
  shows "rdu_passed n es p e x z"
proof -
  have "rdu_put ([] @ take n es) p e x z"
    by (rule rdu_put_trans [OF assms(1)]) (use assms(4) in \<open>simp add: rdu_passed_def\<close>)
  then show ?thesis using assms(2-4) by (simp add: rdu_passed_def)
qed

lemma clr_flag_put:
  assumes "rdu_room p e arg"
  shows "rdu_put [] p e arg (clr_flag AuRdu_CALLED (arg\<lparr>ra_err := r\<rparr>))" "rdu_put [] p e arg (clr_flag AuRdu_FULL arg)"
    "is_full (clr_flag AuRdu_CALLED (arg\<lparr>ra_err := r\<rparr>)) = is_full arg" "\<not> is_called (clr_flag AuRdu_CALLED (arg\<lparr>ra_err := r\<rparr>))"
    "\<not> is_full (clr_flag AuRdu_FULL arg)"
  using assms by (simp_all add: rdu_put_def rdu_room_def rdu_span_def same_frame_def rdu_upd rdu_flags)

definition rd_file_ok :: "bindex \<Rightarrow> rd_file \<Rightarrow> bool" where
  "rd_file_ok b f \<longleftrightarrow> (\<forall>pos. 0 < rf_batch f pos \<and> 0 \<le> rf_res f pos) \<and> (\<forall>x \<in> set (rf_ents f). rdu_ok_ent (b, x))"

lemma rdu_loop_ok:
  assumes "rd_file_ok (ck_bindex (rdu_cookie (ra_rdu arg))) f" and "rdu_room p e arg" and "\<not> is_full arg"
    and "rf_pos f \<le> length (rf_ents f)"
  shows "\<exists>n f' arg'. rdu_loop junk f arg = Some (0, f', arg') \<and> rf_pos f' = rf_pos f + n
    \<and> rdu_passed n (map (Pair (ck_bindex (rdu_cookie (ra_rdu arg)))) (drop (rf_pos f) (rf_ents f))) p e arg arg'"
  using assms
proof (induction "length (rf_ents f) - rf_pos f" arbitrary: p f arg rule: less_induct)
  case less
  let ?b = "ck_bindex (rdu_cookie (ra_rdu arg))"
  let ?arg0 = "clr_flag AuRdu_CALLED (arg\<lparr>ra_err := 0\<rparr>)"
  define es where "es = take (rf_batch f (rf_pos f)) (drop (rf_pos f) (rf_ents f))"
  define fs where "fs = drop (rf_batch f (rf_pos f)) (drop (rf_pos f) (rf_ents f))"
  have all: "drop (rf_pos f) (rf_ents f) = es @ fs" by (simp add: es_def fs_def del: drop_drop)
  have ents: "\<forall>x \<in> set (es @ fs). rdu_ok_ent (?b, x)"
    using less.prems(1) set_drop_subset [of "rf_pos f" "rf_ents f"] unfolding all by (auto simp: rd_file_ok_def)
  have res: "\<not> rf_res f (rf_pos f) < 0" "0 < rf_batch f (rf_pos f)" using less.prems(1) by (auto simp: rd_file_ok_def not_less)
  have b0: "ck_bindex (rdu_cookie (ra_rdu ?arg0)) = ?b" by (simp add: rdu_upd)
  have err0: "ra_err ?arg0 = 0" by (simp add: rdu_upd)
  have full0: "rdu_full (ra_rdu ?arg0) = rdu_full (ra_rdu arg)" by (simp add: rdu_upd)
  have put0: "rdu_put [] p e arg ?arg0" by (rule clr_flag_put(1) [OF less.prems(2)])
  have room: "rdu_room p e ?arg0" using rdu_put_room [OF put0] by simp
  obtain n1 arg1 where p1: "rd_pass (au_rdu_fill junk) es ?arg0 = (n1, arg1)"
    "rdu_passed n1 (map (Pair ?b) es) p e ?arg0 arg1" "is_called arg1 \<longleftrightarrow> es \<noteq> []"
    using rd_pass_ok [OF room, of es junk] ents err0 clr_flag_put(4) [OF less.prems(2), of 0] unfolding b0 by auto
  have call: "vfsub_readdir (au_rdu_fill junk) f ?arg0 = (rf_res f (rf_pos f), f\<lparr>rf_pos := rf_pos f + n1\<rparr>, arg1)"
    using res(1) p1(1) by (simp add: vfsub_readdir_def es_def)
  have pre: "rdu_passed n1 (map (Pair ?b) es) p e arg arg1"
    by (rule rdu_passed_pre [OF put0 clr_flag_put(3) [OF less.prems(2)] full0 p1(2)])
  then have f1: "ra_err arg1 = 0" "is_full arg1 \<longleftrightarrow> n1 < length es" "n1 \<le> length es" "rdu_put (take n1 (map (Pair ?b) es)) p e arg arg1"
    using less.prems(3) rdu_fits_le [of e p "map (Pair ?b) es"] by (auto simp: rdu_passed_def)
  have step: "rdu_loop junk f arg = (if is_called arg1 \<and> \<not> is_full arg1 then rdu_loop junk (f\<lparr>rf_pos := rf_pos f + n1\<rparr>) arg1
      else Some (0, f\<lparr>rf_pos := rf_pos f + n1\<rparr>, arg1))"
    using res(1) by (subst rdu_loop.simps) (simp add: call f1(1) is_called_def is_full_def)
  show ?case
  proof (cases "es = [] \<or> n1 < length es")
    case True
    have es0: "es = [] \<Longrightarrow> fs = []" using res(2) by (auto simp: es_def fs_def)
    have "rdu_passed n1 (map (Pair ?b) (es @ fs)) p e arg arg1"
    proof (cases "es = []")
      case True then show ?thesis using pre es0 by simp
    next
      case False then show ?thesis using rdu_passed_cut [OF pre, of "map (Pair ?b) fs"] \<open>es = [] \<or> n1 < length es\<close> by simp
    qed
    moreover have "rdu_loop junk f arg = Some (0, f\<lparr>rf_pos := rf_pos f + n1\<rparr>, arg1)"
      using True f1(2) p1(3) unfolding step by auto
    ultimately show ?thesis unfolding all by (intro exI [of _ n1] exI [of _ "f\<lparr>rf_pos := rf_pos f + n1\<rparr>"] exI [of _ arg1]) simp
  next
    case False
    let ?f1 = "f\<lparr>rf_pos := rf_pos f + length es\<rparr>"
    have rec: "rf_pos ?f1 = rf_pos f + length es" "rf_ents ?f1 = rf_ents f" by simp_all
    have n1: "n1 = length es" "0 < length es" using False f1(3) by auto
    have fs: "drop (rf_pos f + length es) (rf_ents f) = fs"
      using arg_cong [OF all, of "drop (length es)"] by (simp add: add.commute)
    have b1: "ck_bindex (rdu_cookie (ra_rdu arg1)) = ?b" using rdu_put_bindex [OF f1(4)] .
    have le: "rf_pos f + length es \<le> length (rf_ents f)"
      using less.prems(4) arg_cong [OF all, of length] by simp
    have room1: "rdu_room (p + rdu_total (map (Pair ?b) es)) e arg1" using rdu_put_room [OF f1(4)] n1 by simp
    have ok1: "rd_file_ok (ck_bindex (rdu_cookie (ra_rdu arg1))) ?f1" using less.prems(1) by (simp add: b1 rd_file_ok_def)
    have "length (rf_ents ?f1) - rf_pos ?f1 < length (rf_ents f) - rf_pos f" using le n1(2) by (simp del: length_greater_0_conv)
    note ih = less.hyps [OF this ok1 room1]
    have "\<not> is_full arg1" "rf_pos ?f1 \<le> length (rf_ents ?f1)" using f1(2) n1 le by simp_all
    from ih [OF this, unfolded b1 rec fs] obtain n2 f' arg' where
      r: "rdu_loop junk ?f1 arg1 = Some (0, f', arg')" "rf_pos f' = rf_pos f + length es + n2"
      "rdu_passed n2 (map (Pair ?b) fs) (p + rdu_total (map (Pair ?b) es)) e arg1 arg'"
      by blast
    have "rdu_passed (length (map (Pair ?b) es) + n2) (map (Pair ?b) es @ map (Pair ?b) fs) p e arg arg'"
      by (rule rdu_passed_append [OF _ r(3)]) (use pre n1 in simp)
    moreover have "rdu_loop junk f arg = Some (0, f', arg')"
      using r(1) n1 f1(2) p1(3) unfolding step by auto
    ultimately show ?thesis using r(2) unfolding all by (intro exI [of _ "length es + n2"] exI [of _ f'] exI [of _ arg']) simp
  qed
qed


section \<open>All branches\<close>

text \<open>What is left to deliver from a position in the first of the branches.\<close>

fun rdu_todo :: "(bindex \<Rightarrow> rd_file option) \<Rightarrow> bindex list \<Rightarrow> nat \<Rightarrow> (bindex \<times> raw_de) list" where
  "rdu_todo files [] pos = []"
| "rdu_todo files (b # bs) pos =
     (case files b of None \<Rightarrow> [] | Some f \<Rightarrow> map (Pair b) (drop pos (rf_ents f))) @ rdu_todo files bs 0"

definition rdu_dir_ok :: "(bindex \<Rightarrow> rd_file option) \<Rightarrow> bool" where
  "rdu_dir_ok files \<longleftrightarrow> (\<forall>b f. files b = Some f \<longrightarrow>
     rd_file_ok b f \<and> int (length (rf_ents f)) < 2 ^ 64 \<and> (\<forall>x. rf_seek f x = x))"

definition ra_pos :: "au_rdu_arg \<Rightarrow> nat" where "ra_pos arg = unat (ck_h_pos (rdu_cookie (ra_rdu arg)))"
definition ra_bindex :: "au_rdu_arg \<Rightarrow> bindex" where "ra_bindex arg = ck_bindex (rdu_cookie (ra_rdu arg))"

text \<open>As \<open>rdu_put\<close>, when the cookie has moved on.\<close>

definition rdu_moved :: "(bindex \<times> raw_de) list \<Rightarrow> nat \<Rightarrow> nat \<Rightarrow> au_rdu_arg \<Rightarrow> au_rdu_arg \<Rightarrow> bool" where
  "rdu_moved es p e arg arg' \<longleftrightarrow> (\<exists>b h. rdu_put es p e (upd_cookie (\<lambda>c. c\<lparr>ck_bindex := b, ck_h_pos := h\<rparr>) arg) arg')"

lemma upd_cookie_frame [simp]:
  "rdu_room p e (upd_cookie f arg) = rdu_room p e arg" "ra_mem (upd_cookie f arg) = ra_mem arg"
  "rdu_rent (ra_rdu (upd_cookie f arg)) = rdu_rent (ra_rdu arg)"
  by (simp_all add: rdu_room_def rdu_span_def upd_cookie_def)

lemma same_frame_upd:
  assumes "same_frame (ra_rdu x) (ra_rdu y)"
  shows "same_frame (ra_rdu (upd_cookie (\<lambda>c. c\<lparr>ck_bindex := b, ck_h_pos := h\<rparr>) x)) (ra_rdu (upd_cookie (\<lambda>c. c\<lparr>ck_bindex := b, ck_h_pos := h\<rparr>) y))"
  using assms by (simp add: same_frame_def upd_cookie_def)

lemma rdu_put_upd:
  assumes "rdu_put es p e arg arg'"
  shows "rdu_put es p e (upd_cookie (\<lambda>c. c\<lparr>ck_bindex := b, ck_h_pos := h\<rparr>) arg) (upd_cookie (\<lambda>c. c\<lparr>ck_bindex := b, ck_h_pos := h\<rparr>) arg')"
  using assms by (simp add: rdu_put_def same_frame_upd)

lemma rdu_put_moved:
  assumes "rdu_put es p e arg arg'"
  shows "rdu_moved es p e arg arg'"
proof -
  have "upd_cookie (\<lambda>c. c\<lparr>ck_bindex := ck_bindex (rdu_cookie (ra_rdu arg)), ck_h_pos := ck_h_pos (rdu_cookie (ra_rdu arg))\<rparr>) arg = arg"
    by (simp add: upd_cookie_def)
  then show ?thesis using assms unfolding rdu_moved_def by metis
qed

lemma upd_cookie_twice:
  "upd_cookie (\<lambda>c. c\<lparr>ck_bindex := b', ck_h_pos := h'\<rparr>) (upd_cookie (\<lambda>c. c\<lparr>ck_bindex := b, ck_h_pos := h\<rparr>) arg)
   = upd_cookie (\<lambda>c. c\<lparr>ck_bindex := b', ck_h_pos := h'\<rparr>) arg"
  by (simp add: upd_cookie_def)

lemma rdu_moved_trans:
  assumes "rdu_moved es p e x y" and "rdu_moved fs (p + rdu_total es) e y z"
  shows "rdu_moved (es @ fs) p e x z"
proof -
  obtain b h where b: "rdu_put es p e (upd_cookie (\<lambda>c. c\<lparr>ck_bindex := b, ck_h_pos := h\<rparr>) x) y"
    using assms(1) unfolding rdu_moved_def by blast
  obtain b' h' where b': "rdu_put fs (p + rdu_total es) e (upd_cookie (\<lambda>c. c\<lparr>ck_bindex := b', ck_h_pos := h'\<rparr>) y) z"
    using assms(2) unfolding rdu_moved_def by blast
  have "rdu_put (es @ fs) p e (upd_cookie (\<lambda>c. c\<lparr>ck_bindex := b', ck_h_pos := h'\<rparr>) x) z"
    by (rule rdu_put_trans [OF _ b']) (use rdu_put_upd [OF b, where b = b' and h = h'] in \<open>simp add: upd_cookie_twice\<close>)
  then show ?thesis unfolding rdu_moved_def by blast
qed

lemma rdu_moved_upd:
  assumes "rdu_moved es p e x y"
  shows "rdu_moved es p e x (upd_cookie (\<lambda>c. c\<lparr>ck_bindex := b, ck_h_pos := h\<rparr>) y)"
proof -
  obtain b' h' where b: "rdu_put es p e (upd_cookie (\<lambda>c. c\<lparr>ck_bindex := b', ck_h_pos := h'\<rparr>) x) y"
    using assms unfolding rdu_moved_def by blast
  show ?thesis using rdu_put_upd [OF b, where b = b and h = h] unfolding rdu_moved_def upd_cookie_twice by blast
qed

lemma rdu_moved_room: "rdu_moved es p e x y \<Longrightarrow> rdu_room (p + rdu_total es) e y"
  unfolding rdu_moved_def using rdu_put_room by blast

lemma cookie_fields [simp]:
  "ra_bindex (upd_cookie (\<lambda>c. c\<lparr>ck_bindex := b, ck_h_pos := h\<rparr>) arg) = b"
  "ra_pos (upd_cookie (\<lambda>c. c\<lparr>ck_bindex := b, ck_h_pos := h\<rparr>) arg) = unat h"
  "is_full (upd_cookie (\<lambda>c. c\<lparr>ck_bindex := b, ck_h_pos := h\<rparr>) arg) = is_full arg"
  "rdu_full (ra_rdu (upd_cookie (\<lambda>c. c\<lparr>ck_bindex := b, ck_h_pos := h\<rparr>) arg)) = rdu_full (ra_rdu arg)"
  "ra_bindex (clr_flag f arg) = ra_bindex arg" "ra_pos (clr_flag f arg) = ra_pos arg"
  "rdu_full (ra_rdu (clr_flag f arg)) = rdu_full (ra_rdu arg)"
  by (simp_all add: ra_bindex_def ra_pos_def is_full_def ra_flags_def upd_cookie_def clr_flag_def)


lemma rdu_do_ok:
  assumes f: "rd_file_ok (ra_bindex arg) f" "int (length (rf_ents f)) < 2 ^ 64" "\<forall>x. rf_seek f x = x"
    and r: "rdu_room p e arg" and nf: "\<not> is_full arg" and pos: "ra_pos arg \<le> length (rf_ents f)"
  shows "\<exists>n arg'. au_rdu_do junk f arg = Some (0, arg') \<and> ra_pos arg' = ra_pos arg + n \<and> ra_bindex arg' = ra_bindex arg
    \<and> n = rdu_fits e p (map (Pair (ra_bindex arg)) (drop (ra_pos arg) (rf_ents f)))
    \<and> rdu_moved (take n (map (Pair (ra_bindex arg)) (drop (ra_pos arg) (rf_ents f)))) p e arg arg'
    \<and> (is_full arg' \<longleftrightarrow> ra_pos arg + n < length (rf_ents f))
    \<and> rdu_full (ra_rdu arg') = (if ra_pos arg + n < length (rf_ents f) then 1 else rdu_full (ra_rdu arg))"
proof -
  let ?es = "map (Pair (ra_bindex arg)) (drop (ra_pos arg) (rf_ents f))"
  let ?f = "f\<lparr>rf_pos := ra_pos arg\<rparr>"
  have ok: "rd_file_ok (ck_bindex (rdu_cookie (ra_rdu arg))) ?f" using f(1) by (simp add: rd_file_ok_def ra_bindex_def)
  obtain n f' arg1 where l: "rdu_loop junk ?f arg = Some (0, f', arg1)" "rf_pos f' = ra_pos arg + n" "rdu_passed n ?es p e arg arg1"
    using rdu_loop_ok [OF ok r nf, where junk = junk] pos by (auto simp: ra_bindex_def)
  define arg' where "arg' = upd_cookie (\<lambda>c. c\<lparr>ck_h_pos := of_nat (rf_pos f')\<rparr>) arg1"
  have put: "rdu_put (take n ?es) p e arg arg1" "rdu_fits e p ?es = n"
    and full: "is_full arg1 \<longleftrightarrow> n < length ?es" "rdu_full (ra_rdu arg1) = (if n < length ?es then 1 else rdu_full (ra_rdu arg))"
    using l(3) nf by (simp_all add: rdu_passed_def)
  have n: "n \<le> length ?es" using rdu_fits_le [of e p ?es] put(2) by simp
  then have le: "ra_pos arg + n \<le> length (rf_ents f)" using pos by simp
  have b: "ck_bindex (rdu_cookie (ra_rdu arg1)) = ra_bindex arg" using rdu_put_bindex [OF put(1)] by (simp add: ra_bindex_def)
  have arg': "arg' = upd_cookie (\<lambda>c. c\<lparr>ck_bindex := ra_bindex arg, ck_h_pos := of_nat (rf_pos f')\<rparr>) arg1"
    by (simp add: arg'_def upd_cookie_def b [symmetric])
  have "length (rf_ents f) < 2 ^ 64" using f(2) by simp
  then have "ra_pos arg + n < 2 ^ 64" using le by simp
  then have p': "ra_pos arg' = ra_pos arg + n" by (simp add: arg' l(2) unat_of_nat del: of_nat_add)
  have "rdu_moved (take n ?es) p e arg arg'" unfolding arg' by (rule rdu_moved_upd [OF rdu_put_moved [OF put(1)]])
  moreover have "au_rdu_do junk f arg = Some (0, arg')"
    using l(1) f(3) by (simp add: au_rdu_do_def Let_def ra_pos_def arg'_def)
  moreover have "n < length ?es \<longleftrightarrow> ra_pos arg + n < length (rf_ents f)" by auto
  ultimately show ?thesis using put(2) full p' by (intro exI [of _ n] exI [of _ arg']) (simp add: arg')
qed

text \<open>The cookie is within the files.\<close>

definition rdu_at :: "(bindex \<Rightarrow> rd_file option) \<Rightarrow> bindex list \<Rightarrow> nat \<Rightarrow> bool" where
  "rdu_at files bs pos \<longleftrightarrow> (case bs of [] \<Rightarrow> True | b # _ \<Rightarrow> (case files b of None \<Rightarrow> True | Some f \<Rightarrow> pos \<le> length (rf_ents f)))"


lemma rdu_moved_pre:
  assumes "rdu_moved es p e (upd_cookie (\<lambda>c. c\<lparr>ck_bindex := b, ck_h_pos := h\<rparr>) x) y"
  shows "rdu_moved es p e x y"
  using assms unfolding rdu_moved_def upd_cookie_twice by blast

text \<open>The outcome of the loop over the branches, from the argument to the next.\<close>

definition rdu_went :: "(bindex \<Rightarrow> rd_file option) \<Rightarrow> bindex \<Rightarrow> nat \<Rightarrow> nat \<Rightarrow> au_rdu_arg \<Rightarrow> au_rdu_arg \<Rightarrow> bool" where
  "rdu_went files bend p e arg arg' \<longleftrightarrow>
     (let todo = rdu_todo files [ra_bindex arg..bend] (ra_pos arg); n = rdu_fits e p todo
      in rdu_moved (take n todo) p e arg arg'
         \<and> rdu_todo files [ra_bindex arg'..bend] (ra_pos arg') = drop n todo
         \<and> rdu_at files [ra_bindex arg'..bend] (ra_pos arg')
         \<and> rdu_full (ra_rdu arg') = (if n < length todo then 1 else rdu_full (ra_rdu arg))
         \<and> (n < length todo \<or> bend < ra_bindex arg') \<and> ra_bindex arg \<le> ra_bindex arg')"

lemma rdu_branches_ok:
  assumes d: "rdu_dir_ok files" and "rdu_room p e arg" and "bs = [ra_bindex arg..bend]" and "rdu_at files bs (ra_pos arg)"
  shows "\<exists>arg'. rdu_branches junk files bs arg = Some (0, arg') \<and> rdu_went files bend p e arg arg'"
  using assms(2-4)
proof (induction bs arbitrary: p arg)
  case Nil
  then have "rdu_moved [] p e arg arg" "bend < ra_bindex arg" by (auto intro: rdu_put_moved rdu_put_nil)
  then show ?case by (simp add: rdu_went_def rdu_at_def)
next
  case (Cons b bs)
  have up: "b = ra_bindex arg" "bs = [b + 1..bend]" "ra_bindex arg \<le> bend" "[ra_bindex arg..bend] = ra_bindex arg # [ra_bindex arg + 1..bend]"
    using Cons.prems(2) upto.simps [of "ra_bindex arg" bend] by (auto split: if_splits)
  let ?to = "\<lambda>arg. upd_cookie (\<lambda>c. c\<lparr>ck_bindex := b + 1, ck_h_pos := 0\<rparr>) arg"
  have at0: "rdu_at files bs 0" by (cases bs) (auto simp: rdu_at_def split: option.splits)
  show ?case
  proof (cases "files b")
    case None
    obtain arg' where a': "rdu_branches junk files bs (?to arg) = Some (0, arg')" "rdu_went files bend p e (?to arg) arg'"
      using Cons.IH [of p "?to arg"] Cons.prems(1) at0 up(2) by auto
    have "rdu_went files bend p e arg arg'"
      using a'(2) None up by (auto simp: rdu_went_def Let_def intro: rdu_moved_pre)
    then show ?thesis using a'(1) None by simp
  next
    case (Some f)
    let ?a = "clr_flag AuRdu_FULL arg"
    let ?es = "map (Pair b) (drop (ra_pos arg) (rf_ents f))" and ?fs = "rdu_todo files [b + 1..bend] 0"
    have todo: "rdu_todo files [ra_bindex arg..bend] (ra_pos arg) = ?es @ ?fs" using Some up by simp
    have fok: "rd_file_ok (ra_bindex ?a) f" "int (length (rf_ents f)) < 2 ^ 64" "\<forall>x. rf_seek f x = x"
      using d Some up(1) by (auto simp: rdu_dir_ok_def)
    have put0: "rdu_put [] p e arg ?a" by (rule clr_flag_put(2) [OF Cons.prems(1)])
    have room: "rdu_room p e ?a" using rdu_put_room [OF put0] by simp
    have pos: "ra_pos ?a \<le> length (rf_ents f)" using Cons.prems(3) Some by (simp add: rdu_at_def)
    obtain n arg1 where r: "au_rdu_do junk f ?a = Some (0, arg1)" "ra_pos arg1 = ra_pos arg + n" "ra_bindex arg1 = b"
      "n = rdu_fits e p ?es" "rdu_moved (take n ?es) p e ?a arg1" "is_full arg1 \<longleftrightarrow> ra_pos arg + n < length (rf_ents f)"
      "rdu_full (ra_rdu arg1) = (if ra_pos arg + n < length (rf_ents f) then 1 else rdu_full (ra_rdu arg))"
      using rdu_do_ok [OF fok room clr_flag_put(5) [OF Cons.prems(1)] pos, where junk = junk] unfolding cookie_fields up(1) [symmetric] by blast
    have mv: "rdu_moved (take n ?es) p e arg arg1"
      using rdu_moved_trans [OF rdu_put_moved [OF put0], of "take n ?es" arg1] r(5) by simp
    have n: "n \<le> length ?es" using rdu_fits_le [of e p ?es] r(4) by simp
    show ?thesis
    proof (cases "n < length ?es")
      case True
      have fits: "rdu_fits e p (?es @ ?fs) = n" using True r(4) by (simp add: rdu_fits_append)
      have "drop (ra_pos arg + n) (rf_ents f) = drop n (drop (ra_pos arg) (rf_ents f))" by (simp add: add.commute)
      then have "rdu_todo files [ra_bindex arg1..bend] (ra_pos arg1) = drop n (?es @ ?fs)"
        using True Some up r(2,3) by (simp add: drop_map)
      moreover have "rdu_at files [ra_bindex arg1..bend] (ra_pos arg1)"
        using True Some up(1,4) r(2,3) by (simp add: rdu_at_def)
      moreover have "n < length (?es @ ?fs)" "ra_pos arg + n < length (rf_ents f)" using True by auto
      ultimately have "rdu_went files bend p e arg arg1"
        using True mv r(3,7) up(1) unfolding rdu_went_def todo Let_def fits by simp
      moreover have "rdu_branches junk files (b # bs) arg = Some (0, arg1)"
        using Some r(1,6) True by (auto simp: Let_def is_full_def)
      ultimately show ?thesis by blast
    next
      case False
      then have n: "n = length ?es" using n by simp
      have fits: "rdu_fits e p (?es @ ?fs) = length ?es + rdu_fits e (p + rdu_total ?es) ?fs"
        using n r(4) by (simp add: rdu_fits_append)
      have room1: "rdu_room (p + rdu_total ?es) e (?to arg1)" using rdu_moved_room [OF mv] n by simp
      obtain arg' where a': "rdu_branches junk files bs (?to arg1) = Some (0, arg')"
        "rdu_went files bend (p + rdu_total ?es) e (?to arg1) arg'"
        using Cons.IH [OF room1] at0 up(2) by auto
      let ?m = "rdu_fits e (p + rdu_total ?es) ?fs"
      have w: "rdu_moved (take ?m ?fs) (p + rdu_total ?es) e (?to arg1) arg'"
        "rdu_todo files [ra_bindex arg'..bend] (ra_pos arg') = drop ?m ?fs" "rdu_at files [ra_bindex arg'..bend] (ra_pos arg')"
        "rdu_full (ra_rdu arg') = (if ?m < length ?fs then 1 else rdu_full (ra_rdu arg1))" "?m < length ?fs \<or> bend < ra_bindex arg'" "b \<le> ra_bindex arg'"
        using a'(2) up(2) by (auto simp: rdu_went_def Let_def)
      have "rdu_moved (?es @ take ?m ?fs) p e arg arg'"
        by (rule rdu_moved_trans [OF _ rdu_moved_pre [OF w(1)]]) (use mv n in simp)
      then have "rdu_went files bend p e arg arg'"
        using w(2-6) r(7) n up(1) unfolding rdu_went_def todo Let_def fits by auto
      moreover have "\<not> is_full arg1" using r(6) n pos by simp
      then have "rdu_branches junk files (b # bs) arg = Some (0, arg')"
        using Some r(1) a'(1) by (simp add: Let_def is_full_def)
      ultimately show ?thesis by blast
    qed
  qed
qed


section \<open>The calls\<close>

text \<open>
  A call that is not refused: the buffer lies in the lower 4 GB and can be written, the directory was not
  reopened since the first call, the cookie is one that a call left or a new one.
\<close>

definition rdu_buf :: "aufs_rdu \<Rightarrow> nat" where "rdu_buf rdu = unat (rdu_ent rdu)"
definition rdu_buf_end :: "aufs_rdu \<Rightarrow> nat" where "rdu_buf_end rdu = unat (rdu_ent rdu) + unat (rdu_sz rdu)"

definition rdu_first :: "rdu_env \<Rightarrow> aufs_rdu \<Rightarrow> bindex" where
  "rdu_first e rdu = max (ck_bindex (rdu_cookie rdu)) (rv_bstart e)"

definition rdu_left :: "rdu_env \<Rightarrow> aufs_rdu \<Rightarrow> (bindex \<times> raw_de) list" where
  "rdu_left e rdu = rdu_todo (rv_files e) [rdu_first e rdu..rv_bend e] (unat (ck_h_pos (rdu_cookie rdu)))"

definition rdu_ready :: "rdu_env \<Rightarrow> aufs_rdu \<Rightarrow> umem \<Rightarrow> bool" where
  "rdu_ready e rdu m \<longleftrightarrow> rdu_dir_ok (rv_files e) \<and> rv_access e (rdu_ent rdu) (rdu_sz rdu) \<and> rv_readdir e
     \<and> rv_security e = 0 \<and> rv_lock e = 0 \<and> rv_alive e = 0
     \<and> (au_ftest_rdu (ck_flags (rdu_cookie rdu)) AuRdu_CONT \<longrightarrow> ck_generation (rdu_cookie rdu) = rv_figen e)
     \<and> 0 < unat (rdu_sz rdu) \<and> rdu_buf_end rdu < 2 ^ 32
     \<and> (\<forall>a. rdu_buf rdu \<le> a \<longrightarrow> a < rdu_buf_end rdu \<longrightarrow> um_ok m a)
     \<and> rdu_at (rv_files e) [rdu_first e rdu..rv_bend e] (unat (ck_h_pos (rdu_cookie rdu)))"

lemma au_rdu_delivers:
  assumes "rdu_ready e rdu m"
  shows "\<exists>n rdu' m'. au_rdu e rdu m = Some (0, rdu', m') \<and> n = rdu_fits (rdu_buf_end rdu) (rdu_buf rdu) (rdu_left e rdu)
    \<and> unat (rdu_rent rdu') = n \<and> rdu_ents_at m' (rdu_buf rdu) n = map rdu_shown (take n (rdu_left e rdu))
    \<and> rdu_left e rdu' = drop n (rdu_left e rdu) \<and> rdu_full rdu' = (if n < length (rdu_left e rdu) then 1 else 0)
    \<and> rdu_ready e rdu' m' \<and> rdu_ent rdu' = rdu_ent rdu \<and> rdu_sz rdu' = rdu_sz rdu"
proof -
  let ?rdu1 = "rdu_prepare e (rdu_start e rdu)"
  let ?p = "rdu_buf rdu" and ?e = "rdu_buf_end rdu" and ?b = "rdu_first e rdu"
  define arg where "arg = \<lparr>ra_rdu = ?rdu1, ra_ent = rdu_ent ?rdu1, ra_end = ucast (rdu_ent ?rdu1) + ucast (rdu_sz ?rdu1),
     ra_err = 0, ra_mem = m\<rparr>"
  note c = assms [unfolded rdu_ready_def]
  have f1: "rdu_ent ?rdu1 = rdu_ent rdu" "rdu_sz ?rdu1 = rdu_sz rdu" "rdu_rent ?rdu1 = 0" "rdu_full ?rdu1 = 0"
    "ck_bindex (rdu_cookie ?rdu1) = ?b" "ck_h_pos (rdu_cookie ?rdu1) = ck_h_pos (rdu_cookie rdu)"
    "ck_flags (rdu_cookie ?rdu1) = ck_flags (rdu_cookie rdu)" "ck_generation (rdu_cookie ?rdu1) = ck_generation (rdu_cookie rdu)"
    by (simp_all add: rdu_prepare_def rdu_start_def rdu_first_def Let_def)
  have f2: "ra_bindex arg = ?b" "ra_pos arg = unat (ck_h_pos (rdu_cookie rdu))" "ra_rdu arg = ?rdu1" "ra_mem arg = m"
    using f1 by (simp_all add: arg_def ra_bindex_def ra_pos_def)
  have lt: "unat (rdu_ent rdu) < 2 ^ 32" "unat (rdu_sz rdu) < 2 ^ 32" "?e < 2 ^ 32" using c by (auto simp: rdu_buf_end_def)
  have "take_bit 32 (unat (rdu_ent rdu)) = unat (rdu_ent rdu)" "take_bit 32 (unat (rdu_sz rdu)) = unat (rdu_sz rdu)"
    using lt by (auto intro: take_bit_nat_eq_self)
  then have "unat (ra_end arg) = ?e"
    using lt by (simp add: arg_def f1 unat_word_ariths unsigned_ucast_eq rdu_buf_end_def)
  then have room: "rdu_room ?p ?e arg"
    using c by (simp add: rdu_room_def rdu_span_def f2 rdu_buf_def rdu_buf_end_def) (simp add: arg_def f1)
  obtain arg' where r: "rdu_branches (rv_junk e) (rv_files e) [?b..rv_bend e] arg = Some (0, arg')"
    "rdu_went (rv_files e) (rv_bend e) ?p ?e arg arg'"
    using rdu_branches_ok [OF _ room, of "rv_files e" "[?b..rv_bend e]" "rv_bend e" "rv_junk e"] c by (auto simp: f2)
  let ?n = "rdu_fits ?e ?p (rdu_left e rdu)" let ?rdu' = "rdu_finish e (ra_rdu arg')"
  have w: "rdu_moved (take ?n (rdu_left e rdu)) ?p ?e arg arg'" "rdu_todo (rv_files e) [ra_bindex arg'..rv_bend e] (ra_pos arg') = drop ?n (rdu_left e rdu)"
    "rdu_at (rv_files e) [ra_bindex arg'..rv_bend e] (ra_pos arg')" "rdu_full (ra_rdu arg') = (if ?n < length (rdu_left e rdu) then 1 else 0)"
    using r(2) by (auto simp: rdu_went_def Let_def f2 f1 rdu_left_def)
  have n: "?n \<le> length (rdu_left e rdu)" by (rule rdu_fits_le)
  obtain b h where put: "rdu_put (take ?n (rdu_left e rdu)) ?p ?e (upd_cookie (\<lambda>c. c\<lparr>ck_bindex := b, ck_h_pos := h\<rparr>) arg) arg'"
    using w(1) unfolding rdu_moved_def by blast
  have "24 * ?n < 2 ^ 32"
    using rdu_total_length [of "take ?n (rdu_left e rdu)"] rdu_put_room [OF put] lt(3) n by (simp add: rdu_room_def rdu_span_def)
  then have rent: "unat (rdu_rent (ra_rdu arg')) = ?n"
    using put n by (simp add: rdu_put_def f2 f1 upd_cookie_def unat_of_nat)
  have fr: "rdu_sz (ra_rdu arg') = rdu_sz rdu" "rdu_ent (ra_rdu arg') = rdu_ent rdu"
    "au_ftest_rdu (ck_flags (rdu_cookie (ra_rdu arg'))) AuRdu_CONT = au_ftest_rdu (ck_flags (rdu_cookie rdu)) AuRdu_CONT"
    "ck_generation (rdu_cookie (ra_rdu arg')) = ck_generation (rdu_cookie rdu)" "um_ok (ra_mem arg') = um_ok m"
    "rdu_ents_at (ra_mem arg') ?p ?n = map rdu_shown (take ?n (rdu_left e rdu))"
    using put n by (simp_all add: rdu_put_def same_frame_def upd_cookie_def f2 f1)
  have fin: "rdu_ent ?rdu' = rdu_ent rdu" "rdu_sz ?rdu' = rdu_sz rdu" "rdu_rent ?rdu' = rdu_rent (ra_rdu arg')"
    "rdu_full ?rdu' = rdu_full (ra_rdu arg')" "ck_bindex (rdu_cookie ?rdu') = ra_bindex arg'"
    "unat (ck_h_pos (rdu_cookie ?rdu')) = ra_pos arg'" "ck_generation (rdu_cookie ?rdu') = rv_figen e"
    using fr c by (simp_all add: rdu_finish_def ra_bindex_def ra_pos_def)
  have "?b \<le> ra_bindex arg'" using r(2) by (simp add: rdu_went_def Let_def f2)
  then have first: "rdu_first e ?rdu' = ra_bindex arg'" by (simp add: rdu_first_def fin rdu_first_def [of e rdu])
  have left: "rdu_left e ?rdu' = drop ?n (rdu_left e rdu)" using w(2) by (simp add: rdu_left_def first fin)
  have "rdu_ready e ?rdu' (ra_mem arg')"
    using c w(3) unfolding rdu_ready_def first by (simp add: rdu_buf_def rdu_buf_end_def fin fr)
  moreover have "au_rdu e rdu m = Some (0, ?rdu', ra_mem arg')"
    using c r(1) f1 by (simp add: au_rdu_def rdu_start_def Let_def arg_def)
  ultimately show ?thesis using rent fr fin left w(4) by (intro exI [of _ ?n] exI [of _ ?rdu'] exI [of _ "ra_mem arg'"]) simp
qed

text \<open>The caller's loop: it calls until the buffer was not full, and takes the entries of each call.\<close>

fun rdu_calls :: "nat \<Rightarrow> rdu_env \<Rightarrow> aufs_rdu \<Rightarrow> umem \<Rightarrow> (bindex \<times> raw_de) list option" where
  "rdu_calls 0 e rdu m = None"
| "rdu_calls (Suc k) e rdu m =
     (case au_rdu e rdu m of
        None \<Rightarrow> None
      | Some (err, rdu1, m1) \<Rightarrow>
          if err \<noteq> 0 then None
          else let es = rdu_ents_at m1 (rdu_buf rdu) (unat (rdu_rent rdu1))
               in if rdu_full rdu1 = 0 then Some es else map_option (\<lambda>fs. es @ fs) (rdu_calls k e rdu1 m1))"

text \<open>
  C3: reading a directory through the ioctl. If the buffer can be written and is larger than any entry,
  calls that go on while the buffer was full deliver every entry of every branch exactly once and in the
  order of the branches and of the lower directories, with its number, type and branch, and end after as
  many calls as there are entries, however the lower directories cut their answers into calls.
\<close>

theorem au_rdu_reads_all:
  assumes "rdu_ready e rdu m" and "\<forall>x \<in> set (rdu_left e rdu). rdu_size x < unat (rdu_sz rdu)"
    and "length (rdu_left e rdu) < k"
  shows "rdu_calls k e rdu m = Some (map rdu_shown (rdu_left e rdu))"
  using assms
proof (induction k arbitrary: rdu m)
  case (Suc k)
  let ?l = "rdu_left e rdu"
  obtain n rdu' m' where r: "au_rdu e rdu m = Some (0, rdu', m')" "n = rdu_fits (rdu_buf_end rdu) (rdu_buf rdu) ?l"
    "unat (rdu_rent rdu') = n" "rdu_ents_at m' (rdu_buf rdu) n = map rdu_shown (take n ?l)"
    "rdu_left e rdu' = drop n ?l" "rdu_full rdu' = (if n < length ?l then 1 else 0)" "rdu_ready e rdu' m'"
    "rdu_ent rdu' = rdu_ent rdu" "rdu_sz rdu' = rdu_sz rdu"
    using au_rdu_delivers [OF Suc.prems(1)] by blast
  show ?case
  proof (cases "n < length ?l")
    case True
    have n: "0 < n"
    proof (cases ?l)
      case Nil then show ?thesis using True by simp
    next
      case (Cons x xs)
      then show ?thesis using Suc.prems(2) r(2) by (simp add: rdu_buf_def rdu_buf_end_def)
    qed
    have "rdu_calls k e rdu' m' = Some (map rdu_shown (rdu_left e rdu'))"
    proof (rule Suc.IH [OF r(7)])
      show "\<forall>x \<in> set (rdu_left e rdu'). rdu_size x < unat (rdu_sz rdu')"
        using Suc.prems(2) set_drop_subset [of n ?l] by (auto simp: r(5,9))
      show "length (rdu_left e rdu') < k" using Suc.prems(3) n True by (simp add: r(5))
    qed
    then have "rdu_calls (Suc k) e rdu m = Some (map rdu_shown (take n ?l) @ map rdu_shown (drop n ?l))"
      using r True by (simp add: Let_def)
    then show ?thesis by (simp add: map_append [symmetric] del: map_append)
  next
    case False
    then show ?thesis using r by (simp add: Let_def)
  qed
qed simp

section \<open>An example\<close>

text \<open>Two branches with a file, a third without; a buffer of 80 bytes takes two or three entries.\<close>

definition rdu_ex_file :: "raw_de list \<Rightarrow> rd_file" where
  "rdu_ex_file es = \<lparr>rf_ents = es, rf_pos = 9, rf_batch = (\<lambda>_. 2), rf_res = (\<lambda>_. 0), rf_seek = (\<lambda>x. x)\<rparr>"

definition rdu_ex_ents0 :: "raw_de list" where "rdu_ex_ents0 = [([97], 11, 8), ([98, 99], 12, 4), ([100], 13, 8)]"
definition rdu_ex_ents2 :: "raw_de list" where "rdu_ex_ents2 = [([97], 21, 8), ([46, 119, 104, 46, 98], 22, 8)]"

definition rdu_ex_files :: "bindex \<Rightarrow> rd_file option" where
  "rdu_ex_files b = (if b = 0 then Some (rdu_ex_file rdu_ex_ents0) else if b = 2 then Some (rdu_ex_file rdu_ex_ents2) else None)"

definition rdu_ex_env :: rdu_env where
  "rdu_ex_env = \<lparr>rv_access = (\<lambda>_ _. True), rv_readdir = True, rv_security = 0, rv_lock = 0, rv_alive = 0, rv_figen = 3,
     rv_bstart = 0, rv_bend = 2, rv_files = rdu_ex_files, rv_sizes = [4096], rv_sbi = example_sbinfo,
     rv_cfg = kconfig_of True True, rv_junk = [0]\<rparr>"

definition rdu_ex :: "u64 \<Rightarrow> aufs_rdu" where
  "rdu_ex sz = \<lparr>rdu_sz = sz, rdu_ent = 4096, rdu_verify = 64, rdu_blk = 0, rdu_tail = 0, rdu_rent = 0, rdu_full = 0, rdu_shwh = 0,
     rdu_cookie = \<lparr>ck_h_pos = 0, ck_bindex = 0, ck_flags = 0, ck_generation = 0\<rparr>\<rparr>"

definition rdu_ex_mem :: umem where
  "rdu_ex_mem = \<lparr>um_ok = (\<lambda>a. 4096 \<le> a \<and> a < 8192), um_byte = (\<lambda>_. 0)\<rparr>"

lemma rdu_ex_left:
  "rdu_left rdu_ex_env (rdu_ex sz) = map (Pair 0) rdu_ex_ents0 @ map (Pair 2) rdu_ex_ents2"
  by (simp add: rdu_left_def rdu_first_def rdu_ex_env_def rdu_ex_def rdu_ex_files_def rdu_ex_file_def upto.simps)

lemma rdu_ex_ready: "rdu_ready rdu_ex_env (rdu_ex 80) rdu_ex_mem"
proof -
  have "rdu_dir_ok rdu_ex_files"
    by (auto simp: rdu_dir_ok_def rdu_ex_files_def rdu_ex_file_def rd_file_ok_def rdu_ok_ent_def rdu_ex_ents0_def
        rdu_ex_ents2_def split: if_splits)
  then show ?thesis
    by (simp add: rdu_ready_def rdu_ex_env_def rdu_ex_def rdu_ex_mem_def rdu_buf_def rdu_buf_end_def rdu_at_def
        rdu_first_def rdu_ex_files_def rdu_ex_file_def upto.simps rdu_test_bit)
qed

theorem au_rdu_reads_all_witness:
  "rdu_calls 6 rdu_ex_env (rdu_ex 80) rdu_ex_mem
   = Some [(0, [97], 11, 8), (0, [98, 99], 12, 4), (0, [100], 13, 8), (2, [97], 21, 8), (2, [46, 119, 104, 46, 98], 22, 8)]"
  using au_rdu_reads_all [OF rdu_ex_ready, of 6] unfolding rdu_ex_left
  by (simp add: rdu_ex_ents0_def rdu_ex_ents2_def rdu_size_def au_rdu_len_def rdu_ent_sz_def rdu_ex_def rdu_shown_def
      AUFS_MAX_NAMELEN_def)

end
