(* ===== verification/Rdu_Faults.thy ===== *)
theory Rdu_Faults
  imports Rdu_Ok
begin

text \<open>
  The ioctls of \<open>rdu.c\<close> on a buffer that cannot be written and on entries that the caller changed.
\<close>

section \<open>Memory that cannot be written\<close>

text \<open>The next entry fits, and its first byte cannot be stored.\<close>

definition rdu_faulty :: "rd_file \<Rightarrow> au_rdu_arg \<Rightarrow> bool" where
  "rdu_faulty f arg \<longleftrightarrow> rf_pos f < length (rf_ents f) \<and> 0 < rf_batch f (rf_pos f) \<and> 0 \<le> rf_res f (rf_pos f)
     \<and> ra_ent arg + of_nat (au_rdu_len (length (fst (rf_ents f ! rf_pos f)))) < ucast (ra_end arg)
     \<and> \<not> um_ok (ra_mem arg) (uptr (ra_ent arg)) \<and> \<not> is_full arg"

lemma faulty_step:
  assumes "rdu_faulty f arg"
  shows "\<exists>arg1. vfsub_readdir (au_rdu_fill junk) f (clr_flag AuRdu_CALLED (arg\<lparr>ra_err := 0\<rparr>)) = (rf_res f (rf_pos f), f, arg1)
    \<and> ra_err arg1 = 0 \<and> is_called arg1 \<and> rdu_faulty f arg1"
proof -
  let ?arg0 = "clr_flag AuRdu_CALLED (arg\<lparr>ra_err := 0\<rparr>)"
  note c = assms [unfolded rdu_faulty_def]
  obtain raw es where es: "take (rf_batch f (rf_pos f)) (drop (rf_pos f) (rf_ents f)) = raw # es" "raw = rf_ents f ! rf_pos f"
  proof -
    have "drop (rf_pos f) (rf_ents f) = rf_ents f ! rf_pos f # drop (Suc (rf_pos f)) (rf_ents f)" using c by (simp add: Cons_nth_drop_Suc)
    moreover obtain k where "rf_batch f (rf_pos f) = Suc k" using c gr0_implies_Suc by blast
    ultimately show thesis using that by simp
  qed
  define arg1 where "arg1 = snd (au_rdu_fill junk raw ?arg0)"
  have copy: "rdu_copy junk bx raw (uptr (ra_ent arg)) (ra_mem arg) = (False, ra_mem arg)" for bx
  proof -
    have "\<exists>b bs. rdu_ent_bytes junk ino bx ty n = b # bs" for ino ty n
      using le_bytes.simps(2) [of 7 "unat ino"] by (simp add: rdu_ent_bytes_def)
    then have "copy_to_user (uptr (ra_ent arg)) (rdu_ent_bytes junk ino bx ty n) (ra_mem arg) = (False, ra_mem arg)" for ino ty n
      using c by (metis copy_to_user.simps(2))
    then show ?thesis by (cases raw) (simp add: rdu_copy_def Let_def)
  qed
  have fill: "au_rdu_fill junk raw ?arg0 = (- EFAULT, arg1)"
    using c copy es(2) by (simp add: arg1_def au_rdu_fill_def Let_def rdu_upd)
  have arg1: "arg1 = set_flag AuRdu_CALLED ?arg0"
    using c copy es(2) unfolding arg1_def by (simp add: au_rdu_fill_def Let_def rdu_upd)
  have "vfsub_readdir (au_rdu_fill junk) f ?arg0 = (rf_res f (rf_pos f), f, arg1)"
    using c fill by (simp add: vfsub_readdir_def es)
  moreover have "ra_err arg1 = 0" "is_called arg1" "rdu_faulty f arg1"
    using c by (simp_all add: arg1 rdu_faulty_def rdu_upd rdu_flags)
  ultimately show ?thesis by blast
qed

lemma rdu_loop_stuck:
  assumes "rdu_loop junk f arg = Some r"
  shows "\<not> rdu_faulty f arg"
proof (rule rdu_loop.raw_induct [where P = "\<lambda>junk f arg r. \<not> rdu_faulty f arg", OF _ assms])
  fix g junk f arg r
  assume IH: "\<And>junk f arg r. g junk f arg = Some r \<Longrightarrow> \<not> rdu_faulty f arg"
    and eq: "(let (r, f1, arg1) = vfsub_readdir (au_rdu_fill junk) f (clr_flag AuRdu_CALLED (arg\<lparr>ra_err := 0\<rparr>));
          err = (if 0 \<le> r then ra_err arg1 else r)
      in if err = 0 \<and> au_ftest_rdu (ra_flags arg1) AuRdu_CALLED \<and> \<not> au_ftest_rdu (ra_flags arg1) AuRdu_FULL
         then g junk f1 arg1 else Some (err, f1, arg1)) = Some r"
  show "\<not> rdu_faulty f arg"
  proof
    assume f: "rdu_faulty f arg"
    obtain arg1 where a: "vfsub_readdir (au_rdu_fill junk) f (clr_flag AuRdu_CALLED (arg\<lparr>ra_err := 0\<rparr>)) = (rf_res f (rf_pos f), f, arg1)"
      "ra_err arg1 = 0" "is_called arg1" "rdu_faulty f arg1"
      using faulty_step [OF f] by blast
    have "g junk f arg1 = Some r"
      using eq a(2-4) by (simp add: a(1) Let_def is_called_def rdu_faulty_def is_full_def)
    then show False using IH a(4) by blast
  qed
qed

text \<open>
  C4: a buffer that \<open>access_ok\<close> admits but that cannot be written, for example because nothing is mapped
  there: if an entry is left that fits, the ioctl never returns. The callback reports the failed copy to
  the lower \<open>readdir\<close> only, which stops with success before that entry, so the loop asks for it again.
\<close>

theorem au_rdu_stuck:
  assumes "rv_access e (rdu_ent rdu) (rdu_sz rdu)" and "rv_readdir e" and "rv_security e = 0" and "rv_lock e = 0" and "rv_alive e = 0"
    and "\<not> au_ftest_rdu (ck_flags (rdu_cookie rdu)) AuRdu_CONT"
    and b: "rdu_first e rdu \<le> rv_bend e" "rv_files e (rdu_first e rdu) = Some f"
    and f: "rf_seek f (ck_h_pos (rdu_cookie rdu)) = ck_h_pos (rdu_cookie rdu)" "\<forall>pos. 0 < rf_batch f pos \<and> rf_res f pos = 0"
    and pos: "unat (ck_h_pos (rdu_cookie rdu)) < length (rf_ents f)"
    and fits: "au_rdu_len (length (fst (rf_ents f ! unat (ck_h_pos (rdu_cookie rdu))))) < unat (rdu_sz rdu)" "rdu_buf_end rdu < 2 ^ 32"
    and bad: "\<not> um_ok m (rdu_buf rdu)"
  shows "au_rdu e rdu m = None"
proof -
  let ?rdu1 = "rdu_prepare e (rdu_start e rdu)" and ?pos = "unat (ck_h_pos (rdu_cookie rdu))"
  define arg where "arg = \<lparr>ra_rdu = ?rdu1, ra_ent = rdu_ent rdu, ra_end = ucast (rdu_ent rdu) + ucast (rdu_sz rdu), ra_err = 0, ra_mem = m\<rparr>"
  define arg0 where "arg0 = clr_flag AuRdu_FULL arg"
  have f1: "rdu_ent ?rdu1 = rdu_ent rdu" "rdu_sz ?rdu1 = rdu_sz rdu"
    "ck_bindex (rdu_cookie ?rdu1) = rdu_first e rdu" "ck_h_pos (rdu_cookie ?rdu1) = ck_h_pos (rdu_cookie rdu)"
    by (simp_all add: rdu_prepare_def rdu_start_def rdu_first_def Let_def)
  have lt: "unat (rdu_ent rdu) < 2 ^ 32" "unat (rdu_sz rdu) < 2 ^ 32" using fits by (auto simp: rdu_buf_end_def)
  have tb: "take_bit 32 (unat (rdu_ent rdu)) = unat (rdu_ent rdu)" "take_bit 32 (unat (rdu_sz rdu)) = unat (rdu_sz rdu)"
    using lt by (auto intro: take_bit_nat_eq_self)
  have span: "rdu_span (rdu_buf rdu) (rdu_buf_end rdu) arg0"
    using fits tb by (simp add: arg0_def arg_def rdu_span_def rdu_upd rdu_buf_def rdu_buf_end_def unat_word_ariths unsigned_ucast_eq)
  have len: "au_rdu_len (length (fst (rf_ents f ! ?pos))) < 2 ^ 32" using fits lt by simp
  have "ra_ent arg0 + of_nat (au_rdu_len (length (fst (rf_ents f ! ?pos)))) < ucast (ra_end arg0)"
  proof -
    have "unat (ra_ent arg0 + of_nat (au_rdu_len (length (fst (rf_ents f ! ?pos))))) = rdu_buf rdu + au_rdu_len (length (fst (rf_ents f ! ?pos)))"
      by (rule rdu_less(3) [OF span]) (use fits in \<open>simp add: rdu_buf_def rdu_buf_end_def\<close>)
    moreover have "take_bit 64 (rdu_buf_end rdu) = rdu_buf_end rdu" using fits(2) by (intro take_bit_nat_eq_self) simp
    ultimately show ?thesis using span fits(1)
      by (simp add: word_less_nat_alt unsigned_ucast_eq rdu_span_def rdu_buf_def rdu_buf_end_def)
  qed
  then have "rdu_faulty (f\<lparr>rf_pos := ?pos\<rparr>) arg0"
    using pos f(2) bad rdu_less(2) [OF span] by (simp add: rdu_faulty_def arg0_def arg_def rdu_upd rdu_flags)
  then have "rdu_loop (rv_junk e) (f\<lparr>rf_pos := ?pos\<rparr>) arg0 = None"
    using rdu_loop_stuck by (cases "rdu_loop (rv_junk e) (f\<lparr>rf_pos := ?pos\<rparr>) arg0") auto
  then have "au_rdu_do (rv_junk e) f arg0 = None"
    using f(1) by (simp add: au_rdu_do_def Let_def arg0_def arg_def rdu_upd f1)
  then have "rdu_branches (rv_junk e) (rv_files e) [rdu_first e rdu..rv_bend e] arg = None"
    using b upto.simps [of "rdu_first e rdu" "rv_bend e"] by (simp add: arg0_def Let_def)
  then show ?thesis
    using assms(1-6) f1 by (simp add: au_rdu_def rdu_start_def Let_def arg_def)
qed

theorem au_rdu_stuck_witness: "au_rdu rdu_ex_env (rdu_ex 80) (rdu_ex_mem\<lparr>um_ok := (\<lambda>a. a < 4096)\<rparr>) = None"
  by (rule au_rdu_stuck [where f = "rdu_ex_file rdu_ex_ents0"])
    (simp_all add: rdu_ex_env_def rdu_ex_def rdu_ex_mem_def rdu_ex_files_def rdu_ex_file_def rdu_first_def rdu_buf_def
      rdu_buf_end_def rdu_ex_ents0_def au_rdu_len_def rdu_ent_sz_def rdu_test_bit)

section \<open>Entries that the caller changed\<close>

text \<open>
  C5: the index of the branch in an entry comes back from the caller and is used without a test. With an
  index outside the table of branches the second ioctl reads outside the table.
\<close>

theorem au_rdu_ino_bad_branch:
  assumes ent: "copy_from_user (uptr (rdu_ent rdu)) rdu_ent_sz m = Some ent" and n: "0 < unat (rdu_sz rdu)"
    and xino: "au_opt_test (au_mntflags (x_sbi x)) AuOpt_XINO" and wh: "ent ! 12 = 0"
    and b: "s16_val (take 2 (drop 8 ent)) < 0 \<or> int (length (si_branch (x_sbi x))) \<le> s16_val (take 2 (drop 8 ent))"
  shows "au_rdu_ino cfg junk rdu m x = None"
proof -
  let ?b = "s16_val (take 2 (drop 8 ent))" and ?ino = "of_nat (le_val (take 8 ent)) :: u32"
  obtain k where k: "unat (rdu_sz rdu) = Suc k" using n gr0_implies_Suc by blast
  have "uint ?ino < 2 ^ LENGTH(32)" by (rule unsigned_less)
  then have "\<not> au_loff_max div 4 - 1 < uint ?ino" by (simp add: au_loff_max_def)
  moreover have "au_sbr (x_sbi x) ?b = None" using b by (auto simp: au_sbr_def arr_get_def)
  ultimately have "au_ino ?b ?ino x = None" using xino by (simp add: au_ino_def au_xino_read_def Let_def)
  then show ?thesis using ent wh by (simp add: au_rdu_ino_def k Let_def)
qed

definition bad_ent_mem :: umem where
  "bad_ent_mem = \<lparr>um_ok = (\<lambda>_. True), um_byte = (\<lambda>a. if a = 4104 \<or> a = 4105 then 127 else 0)\<rparr>"

theorem au_rdu_ino_bad_branch_witness:
  "s16_val [127, 127] = 32639
   \<and> au_rdu_ino (kconfig_of True True) 0 (rdu_ex 1) bad_ent_mem
       \<lparr>x_sbi = example_sbinfo\<lparr>si_mntflags := AuOpt_XINO\<rparr>, x_files = (\<lambda>_. \<lparr>xf_size = 0, xf_ent = (\<lambda>_. 0)\<rparr>), si_xib = [],
         si_xib_buf = 0, si_xib_last_pindex = 0, si_xib_next_bit = 0, si_xigen = None, si_xigen_next = 0, x_io = [],
         x_iunique = []\<rparr> = None"
proof
  show val: "s16_val [127, 127] = 32639" by (simp add: s16_val_def)
  show "au_rdu_ino (kconfig_of True True) 0 (rdu_ex 1) bad_ent_mem
       \<lparr>x_sbi = example_sbinfo\<lparr>si_mntflags := AuOpt_XINO\<rparr>, x_files = (\<lambda>_. \<lparr>xf_size = 0, xf_ent = (\<lambda>_. 0)\<rparr>), si_xib = [],
         si_xib_buf = 0, si_xib_last_pindex = 0, si_xib_next_bit = 0, si_xigen = None, si_xigen_next = 0, x_io = [],
         x_iunique = []\<rparr> = None" (is "au_rdu_ino _ _ _ _ ?x = None")
  proof (rule au_rdu_ino_bad_branch)
    show "copy_from_user (uptr (rdu_ent (rdu_ex 1))) rdu_ent_sz bad_ent_mem = Some [0, 0, 0, 0, 0, 0, 0, 0, 127, 127, 0, 0, 0, 0, 0, 0]"
      by (simp add: copy_from_user_def uptr_def rdu_ex_def bad_ent_mem_def rdu_ent_sz_def upt_rec_numeral)
    show "au_opt_test (au_mntflags (x_sbi ?x)) AuOpt_XINO" by (simp add: au_opt_test_def au_mntflags_def AuOpt_XINO_def)
  qed (simp_all add: rdu_ex_def val example_sbinfo_def)
qed

end
