(* ===== verification/Fhsm.thy ===== *)
theory Fhsm
  imports Branch_Ops
begin

text \<open>
  File-based hierarchical storage (\<open>fhsm.c\<close>): the branches with the attribute \<open>fhsm\<close>, except the lowest of
  them, are watched. What is written to them is noted with the free space of the branch, and one process
  reads it through a file descriptor. The properties say what a read returns and what happens to a branch
  without the attribute.
\<close>

abbreviation (input) EMSGSIZE :: int where "EMSGSIZE \<equiv> 90"

section \<open>State\<close>

record aufs_stfs =
  f_blocks :: u64
  f_bavail :: u64
  f_files :: u64
  f_ffree :: u64

record au_br_fhsm_st =
  bf_jiffy :: u32
  bf_readable :: bool
  bf_stfs :: aufs_stfs

text \<open>
  The superblock has the flag \<open>AuSi_FHSM\<close>, the expiration and the bottom. \<open>fh_bf\<close>: the record of a branch that
  has one (\<open>br_fhsm\<close>). \<open>fh_readable\<close> is -1 at the end of the mount.
\<close>

record fhsm_st =
  fh_sbi :: au_sbinfo
  fh_pid :: int
  fh_readable :: int
  fh_bf :: "bindex \<Rightarrow> au_br_fhsm_st"

text \<open>\<open>fe_statfs\<close>: the answer of the lower file system of a branch; \<open>fe_hz\<close>: jiffies of some milliseconds.\<close>

record fhsm_env =
  fe_cfg :: kconfig
  fe_jiffies :: u32
  fe_statfs :: "bindex \<Rightarrow> int \<times> aufs_stfs"
  fe_hz :: "int \<Rightarrow> u32"

definition au_fhsm_bottom :: "fhsm_st \<Rightarrow> bindex" where "au_fhsm_bottom st = si_fhsm_bottom (fh_sbi st)"

definition au_fhsm_set_bottom :: "bindex \<Rightarrow> fhsm_st \<Rightarrow> fhsm_st" where
  "au_fhsm_set_bottom b st = st\<lparr>fh_sbi := (fh_sbi st)\<lparr>si_fhsm_bottom := b\<rparr>\<rparr>"

definition set_active :: "bool \<Rightarrow> fhsm_st \<Rightarrow> fhsm_st" where
  "set_active a st = st\<lparr>fh_sbi := (fh_sbi st)\<lparr>si_fhsm_active := a\<rparr>\<rparr>"

text \<open>The end of \<open>au_opts_verify\<close>: active with two or more branches, the lowest is the bottom.\<close>

definition br_has_fhsm :: "kconfig \<Rightarrow> fhsm_st \<Rightarrow> bindex \<Rightarrow> bool option" where
  "br_has_fhsm cfg st b = map_option (\<lambda>br. au_br_fhsm cfg (br_perm br)) (au_sbr (fh_sbi st) b)"

fun fhsm_count :: "kconfig \<Rightarrow> fhsm_st \<Rightarrow> bindex list \<Rightarrow> int option" where
  "fhsm_count cfg st [] = Some 0"
| "fhsm_count cfg st (b # bs) =
     Option.bind (br_has_fhsm cfg st b) (\<lambda>h. map_option (\<lambda>n. if h then n + 1 else n) (fhsm_count cfg st bs))"

definition fhsm_verify :: "kconfig \<Rightarrow> fhsm_st \<Rightarrow> fhsm_st option" where
  "fhsm_verify cfg st =
     (let bend = si_bend (fh_sbi st) in
      Option.bind (fhsm_count cfg st [0..bend]) (\<lambda>n.
      if 2 \<le> n
      then map_option (\<lambda>b. case b of None \<Rightarrow> set_active True st | Some b \<Rightarrow> au_fhsm_set_bottom b (set_active True st))
             (first_down (br_has_fhsm cfg st) bend 0)
      else Some (au_fhsm_set_bottom (- 1) (set_active False st))))"

section \<open>Noting a write\<close>

definition au_fhsm_test_jiffy :: "fhsm_env \<Rightarrow> fhsm_st \<Rightarrow> bindex \<Rightarrow> bool" where
  "au_fhsm_test_jiffy e st b \<longleftrightarrow> \<not> bf_readable (fh_bf st b)
     \<or> time_after (fe_jiffies e) (bf_jiffy (fh_bf st b) + si_fhsm_expire (fh_sbi st))"

definition au_fhsm_notify :: "int \<Rightarrow> fhsm_st \<Rightarrow> fhsm_st" where
  "au_fhsm_notify val st = (if fh_pid st \<noteq> 0 \<and> fh_readable st \<noteq> - 1 then st\<lparr>fh_readable := val\<rparr> else st)"

definition au_br_stfs :: "fhsm_env \<Rightarrow> bindex \<Rightarrow> aufs_stfs \<Rightarrow> int \<times> aufs_stfs" where
  "au_br_stfs e b old = (let (err, s) = fe_statfs e b in (err, if err = 0 then s else old))"

text \<open>The notification at the end is sent whether or not there is new data.\<close>

definition au_fhsm_stfs :: "fhsm_env \<Rightarrow> bindex \<Rightarrow> bool \<Rightarrow> fhsm_st \<Rightarrow> (int \<times> fhsm_st) option" where
  "au_fhsm_stfs e b do_notify st =
     Option.bind (au_sbr (fh_sbi st) b) (\<lambda>br.
     if au_br_rdonly br \<or> \<not> br_fhsm br then None
     else
       let bf = fh_bf st b; (err, s) = au_br_stfs e b (bf_stfs bf);
           bf1 = (if err = 0 then bf\<lparr>bf_stfs := s, bf_jiffy := fe_jiffies e, bf_readable := True\<rparr> else bf\<lparr>bf_stfs := s\<rparr>);
           st1 = st\<lparr>fh_bf := (fh_bf st)(b := bf1)\<rparr>
       in Some (err, au_fhsm_notify 1 (if err = 0 \<and> do_notify then au_fhsm_notify 1 st1 else st1)))"

text \<open>\<open>mutex_lock(&bf->bf_lock)\<close> of a branch without the record is the fault.\<close>

definition au_fhsm_wrote :: "fhsm_env \<Rightarrow> bindex \<Rightarrow> bool \<Rightarrow> fhsm_st \<Rightarrow> fhsm_st option" where
  "au_fhsm_wrote e b force st =
     (if \<not> si_fhsm_active (fh_sbi st) \<or> si_fhsm_bottom (fh_sbi st) = b then Some st
      else Option.bind (au_sbr (fh_sbi st) b) (\<lambda>br.
           if \<not> br_fhsm br then None
           else if force \<or> fh_pid st \<noteq> 0 \<or> au_fhsm_test_jiffy e st b
           then map_option snd (au_fhsm_stfs e b True st)
           else Some st))"

definition au_fhsm_wrote_all :: "fhsm_env \<Rightarrow> bool \<Rightarrow> fhsm_st \<Rightarrow> fhsm_st option" where
  "au_fhsm_wrote_all e force st =
     loop_up (\<lambda>b st. Option.bind (br_has_fhsm (fe_cfg e) st b) (\<lambda>h. if h then au_fhsm_wrote e b force st else Some st))
       0 (au_fhsm_bottom st - 1) st"


section \<open>Reading\<close>

text \<open>
  \<open>copy n\<close>: the \<open>n\<close>-th record can be stored in the memory of the caller. What was stored is a list of the
  id of a branch and its numbers.
\<close>

definition sizeof_stbr :: int where "sizeof_stbr = 40"

type_synonym stbr = "bindex \<times> aufs_stfs"

definition au_fhsm_do_read_one :: "(nat \<Rightarrow> bool) \<Rightarrow> aufs_stfs \<Rightarrow> bindex \<Rightarrow> stbr list \<Rightarrow> int \<times> stbr list" where
  "au_fhsm_do_read_one copy stfs brid out = (if copy (length out) then (0, out @ [(brid, stfs)]) else (- EFAULT, out))"

text \<open>The loop over the branches above the bottom, until an error; \<open>count\<close> is unsigned.\<close>

fun fhsm_read_loop :: "kconfig \<Rightarrow> (nat \<Rightarrow> bool) \<Rightarrow> bindex list \<Rightarrow> u32 \<Rightarrow> stbr list \<Rightarrow> fhsm_st
    \<Rightarrow> (int \<times> stbr list \<times> fhsm_st) option" where
  "fhsm_read_loop cfg copy [] count out st = Some (0, out, st)"
| "fhsm_read_loop cfg copy (b # bs) count out st =
     Option.bind (au_sbr (fh_sbi st) b) (\<lambda>br.
     if \<not> au_br_fhsm cfg (br_perm br) then fhsm_read_loop cfg copy bs count out st
     else if \<not> br_fhsm br then None
     else if \<not> bf_readable (fh_bf st b) then fhsm_read_loop cfg copy bs count out st
     else
       let (err, out1) = (if sizeof_stbr \<le> uint count
                          then au_fhsm_do_read_one copy (bf_stfs (fh_bf st b)) (br_id br) out else (- EFAULT, out))
       in if err \<noteq> 0 then Some (err, out1, st)
          else fhsm_read_loop cfg copy bs (count - word_of_int sizeof_stbr) out1
                 (st\<lparr>fh_bf := (fh_bf st)(b := (fh_bf st b)\<lparr>bf_readable := False\<rparr>)\<rparr>))"

definition au_fhsm_do_read :: "kconfig \<Rightarrow> (nat \<Rightarrow> bool) \<Rightarrow> u32 \<Rightarrow> fhsm_st \<Rightarrow> (int \<times> stbr list \<times> fhsm_st) option" where
  "au_fhsm_do_read cfg copy count st =
     map_option (\<lambda>(err, out, st). (if err = 0 then sizeof_stbr * int (length out) else err, out, st))
       (fhsm_read_loop cfg copy [0..au_fhsm_bottom st - 1] count [] st)"

text \<open>
  \<open>au_fhsm_read\<close>. While it sleeps, and until it has the lock of the superblock, others change the state: every
  element of \<open>rounds\<close> is the result of a sleep and the state that is found then. A list that is used up is a
  read that has not returned yet.
\<close>

fun au_fhsm_read :: "kconfig \<Rightarrow> bool \<Rightarrow> (nat \<Rightarrow> bool) \<Rightarrow> u32 \<Rightarrow> (int \<times> fhsm_st) list \<Rightarrow> fhsm_st
    \<Rightarrow> (int \<times> stbr list \<times> fhsm_st) option" where
  "au_fhsm_read cfg nonblock copy count rounds st =
     (if fh_readable st = 0 \<and> nonblock then Some (- EAGAIN, [], st)
      else case rounds of
             [] \<Rightarrow> None
           | (r, st1) # rounds1 \<Rightarrow>
               if fh_readable st = 0 \<and> r \<noteq> 0 then Some (r, [], st1)
               else if 0 < fh_readable st1
               then Option.bind (fhsm_count cfg st1 [0..au_fhsm_bottom st1 - 1]) (\<lambda>n.
                    if n * sizeof_stbr \<le> uint count
                    then au_fhsm_do_read cfg copy count (st1\<lparr>fh_readable := 0\<rparr>)
                    else Some (- EMSGSIZE, [], st1))
               else if fh_readable st1 = 0 then au_fhsm_read cfg nonblock copy count rounds1 st1
               else Some (0, [], st1))"

definition au_fhsm_poll :: "fhsm_st \<Rightarrow> bool" where "au_fhsm_poll st \<longleftrightarrow> fh_readable st \<noteq> 0"

section \<open>The descriptor\<close>

text \<open>\<open>fd\<close>: the answer of \<open>anon_inode_getfd\<close>. The reference to the object of the superblock is \<open>refs\<close>.\<close>

definition au_fhsm_release :: "int \<times> fhsm_st \<Rightarrow> int \<times> fhsm_st" where
  "au_fhsm_release s = (fst s - 1, (snd s)\<lparr>fh_pid := 0\<rparr>)"

definition O_NONBLOCK :: int where "O_NONBLOCK = 0x800"
definition O_CLOEXEC :: int where "O_CLOEXEC = 0x80000"

definition au_fhsm_fd :: "fhsm_env \<Rightarrow> bool \<Rightarrow> int \<Rightarrow> int \<Rightarrow> int \<Rightarrow> int \<times> fhsm_st \<Rightarrow> (int \<times> int \<times> fhsm_st) option" where
  "au_fhsm_fd e admin oflags pid fd s =
     (let (refs, st) = s in
      if \<not> admin then Some (- EPERM, refs, st)
      else if and oflags (not (or O_CLOEXEC O_NONBLOCK)) \<noteq> 0 then Some (- EINVAL, refs, st)
      else if fh_pid st \<noteq> 0 then Some (- EBUSY, refs, st)
      else if fd < 0 then Some (fd, refs, st\<lparr>fh_pid := 0\<rparr>)
      else let st1 = st\<lparr>fh_pid := pid\<rparr>
           in map_option (\<lambda>st2. (fd, refs + 1, st2))
                (if si_fhsm_active (fh_sbi st1) then au_fhsm_wrote_all e False st1 else Some st1))"

section \<open>Setting up\<close>

definition au_fhsm_br_alloc :: "mem_oracle \<Rightarrow> au_branch \<Rightarrow> int \<times> au_branch \<times> mem_oracle" where
  "au_fhsm_br_alloc mem br = (let (ok, mem1) = take_alloc mem in (if ok then 0 else - ENOMEM, br\<lparr>br_fhsm := ok\<rparr>, mem1))"

definition au_br_fhsm_init :: "aufs_stfs \<Rightarrow> au_br_fhsm_st" where
  "au_br_fhsm_init junk = \<lparr>bf_jiffy = 0, bf_readable = False, bf_stfs = junk\<rparr>"

definition au_fhsm_fin :: "fhsm_st \<Rightarrow> fhsm_st" where "au_fhsm_fin st = au_fhsm_notify (- 1) st"

definition au_fhsm_set :: "fhsm_env \<Rightarrow> u32 \<Rightarrow> fhsm_st \<Rightarrow> fhsm_st" where
  "au_fhsm_set e sec st = st\<lparr>fh_sbi := (fh_sbi st)\<lparr>si_fhsm_expire := fe_hz e (uint (sec * 1000))\<rparr>\<rparr>"

definition au_fhsm_init :: "fhsm_env \<Rightarrow> fhsm_st \<Rightarrow> fhsm_st" where
  "au_fhsm_init e st = au_fhsm_set_bottom (- 1) ((au_fhsm_set e 30 st)\<lparr>fh_readable := 0\<rparr>)"


section \<open>What a read returns\<close>

text \<open>A branch that is watched has its record; what there is to report.\<close>

definition fhsm_ok :: "kconfig \<Rightarrow> fhsm_st \<Rightarrow> bindex list \<Rightarrow> bool" where
  "fhsm_ok cfg st bs \<longleftrightarrow> (\<forall>b \<in> set bs. \<exists>br. au_sbr (fh_sbi st) b = Some br \<and> br_fhsm br = au_br_fhsm cfg (br_perm br))"

definition fhsm_watched :: "kconfig \<Rightarrow> fhsm_st \<Rightarrow> bindex \<Rightarrow> bool" where
  "fhsm_watched cfg st b \<longleftrightarrow> br_has_fhsm cfg st b = Some True"

definition fhsm_news :: "kconfig \<Rightarrow> fhsm_st \<Rightarrow> bindex list \<Rightarrow> stbr list" where
  "fhsm_news cfg st bs = map (\<lambda>b. (br_id (the (au_sbr (fh_sbi st) b)), bf_stfs (fh_bf st b)))
     (filter (\<lambda>b. fhsm_watched cfg st b \<and> bf_readable (fh_bf st b)) bs)"

definition quiet_bf :: "kconfig \<Rightarrow> bindex list \<Rightarrow> fhsm_st \<Rightarrow> bindex \<Rightarrow> au_br_fhsm_st" where
  "quiet_bf cfg bs st b = (if b \<in> set bs \<and> fhsm_watched cfg st b then (fh_bf st b)\<lparr>bf_readable := False\<rparr> else fh_bf st b)"

definition fhsm_quiet :: "kconfig \<Rightarrow> bindex list \<Rightarrow> fhsm_st \<Rightarrow> fhsm_st" where
  "fhsm_quiet cfg bs st = st\<lparr>fh_bf := quiet_bf cfg bs st\<rparr>"

lemma fhsm_quiet_nil [simp]: "fhsm_quiet cfg [] st = st"
proof -
  have "quiet_bf cfg [] st = fh_bf st" by (rule ext) (simp add: quiet_bf_def)
  then show ?thesis by (simp add: fhsm_quiet_def)
qed

lemma fhsm_quiet_frame [simp]: "fh_sbi (fhsm_quiet cfg bs st) = fh_sbi st" "fh_readable (fhsm_quiet cfg bs st) = fh_readable st"
    "fh_pid (fhsm_quiet cfg bs st) = fh_pid st"
  by (simp_all add: fhsm_quiet_def)

lemma fhsm_news_length: "length (fhsm_news cfg st bs) \<le> length (filter (fhsm_watched cfg st) bs)"
  by (induction bs) (auto simp: fhsm_news_def)

lemma fhsm_count_ok:
  assumes "fhsm_ok cfg st bs"
  shows "fhsm_count cfg st bs = Some (int (length (filter (fhsm_watched cfg st) bs)))"
  using assms by (induction bs) (auto simp: fhsm_ok_def br_has_fhsm_def fhsm_watched_def)

lemma fhsm_news_cong:
  assumes "fh_sbi st' = fh_sbi st" and "\<forall>b \<in> set bs. fh_bf st' b = fh_bf st b"
  shows "fhsm_news cfg st' bs = fhsm_news cfg st bs"
proof -
  have "fhsm_watched cfg st' b = fhsm_watched cfg st b" for b
    using assms(1) by (simp add: fhsm_watched_def br_has_fhsm_def)
  then show ?thesis using assms by (auto simp: fhsm_news_def intro!: map_cong filter_cong)
qed

lemma fhsm_read_loop_ok:
  assumes "fhsm_ok cfg st bs" and "distinct bs" and "\<forall>n. copy n"
    and "sizeof_stbr * int (length (fhsm_news cfg st bs)) \<le> uint count"
  shows "fhsm_read_loop cfg copy bs count out st = Some (0, out @ fhsm_news cfg st bs, fhsm_quiet cfg bs st)"
  using assms(1,2,4)
proof (induction bs arbitrary: count out st)
  case Nil
  then show ?case by (simp add: fhsm_news_def)
next
  case (Cons b bs)
  obtain br where br: "au_sbr (fh_sbi st) b = Some br" "br_fhsm br = au_br_fhsm cfg (br_perm br)"
    using Cons.prems(1) by (auto simp: fhsm_ok_def)
  have w: "fhsm_watched cfg st b = au_br_fhsm cfg (br_perm br)" by (simp add: fhsm_watched_def br_has_fhsm_def br(1))
  have ok: "fhsm_ok cfg st bs" using Cons.prems(1) by (simp add: fhsm_ok_def)
  show ?case
  proof (cases "fhsm_watched cfg st b \<and> bf_readable (fh_bf st b)")
    case False
    have "fhsm_news cfg st (b # bs) = fhsm_news cfg st bs" using False by (simp add: fhsm_news_def)
    moreover have "quiet_bf cfg (b # bs) st = quiet_bf cfg bs st"
    proof
      fix c
      show "quiet_bf cfg (b # bs) st c = quiet_bf cfg bs st c"
        using False by (cases "fh_bf st b") (auto simp: quiet_bf_def)
    qed
    then have "fhsm_quiet cfg (b # bs) st = fhsm_quiet cfg bs st" by (simp add: fhsm_quiet_def)
    moreover have "fhsm_read_loop cfg copy (b # bs) count out st = fhsm_read_loop cfg copy bs count out st"
      using False br w by auto
    moreover note Cons.IH [OF ok, of count out]
    ultimately show ?thesis using Cons.prems(2,3) by simp
  next
    case True
    let ?st = "st\<lparr>fh_bf := (fh_bf st)(b := (fh_bf st b)\<lparr>bf_readable := False\<rparr>)\<rparr>"
    let ?x = "(br_id br, bf_stfs (fh_bf st b))"
    have news: "fhsm_news cfg st (b # bs) = ?x # fhsm_news cfg st bs" using True br by (simp add: fhsm_news_def)
    have same: "fhsm_news cfg ?st bs = fhsm_news cfg st bs"
      by (rule fhsm_news_cong) (use Cons.prems(2) in auto)
    have c: "sizeof_stbr * (1 + int (length (fhsm_news cfg st bs))) \<le> uint count" using Cons.prems(3) news by simp
    have le: "sizeof_stbr \<le> uint count" using c by (simp add: sizeof_stbr_def)
    have "(40 :: u32) \<le> count" using le by (simp add: sizeof_stbr_def word_le_def)
    then have sub: "uint (count - word_of_int sizeof_stbr) = uint count - sizeof_stbr"
      using uint_minus_simple_alt [of 40 count] by (simp add: sizeof_stbr_def)
    have "fhsm_read_loop cfg copy (b # bs) count out st = fhsm_read_loop cfg copy bs (count - word_of_int sizeof_stbr) (out @ [?x]) ?st"
      using True br w le assms(3) by (simp add: au_fhsm_do_read_one_def Let_def)
    also have "\<dots> = Some (0, (out @ [?x]) @ fhsm_news cfg ?st bs, fhsm_quiet cfg bs ?st)"
    proof (rule Cons.IH)
      show "fhsm_ok cfg ?st bs" using ok by (simp add: fhsm_ok_def)
      show "sizeof_stbr * int (length (fhsm_news cfg ?st bs)) \<le> uint (count - word_of_int sizeof_stbr)"
        using c unfolding same sub by (simp add: sizeof_stbr_def)
    qed (use Cons.prems(2) in simp)
    also have "fhsm_quiet cfg bs ?st = fhsm_quiet cfg (b # bs) st"
    proof -
      have "fhsm_watched cfg ?st c = fhsm_watched cfg st c" for c by (simp add: fhsm_watched_def br_has_fhsm_def)
      then have "quiet_bf cfg bs ?st = quiet_bf cfg (b # bs) st" using True by (auto simp: quiet_bf_def fun_eq_iff)
      then show ?thesis by (simp add: fhsm_quiet_def)
    qed
    finally show ?thesis by (simp only: news same append_assoc append_Cons append_Nil)
  qed
qed


text \<open>
  C9: a read of the descriptor. After whatever happened while it slept, it returns the numbers of exactly
  the watched branches above the bottom that were written to since the last read, in the order of the
  branches, with the size of what it stored, and these branches are not reported again.
\<close>

theorem au_fhsm_read_reports:
  assumes "fhsm_ok cfg st1 [0..au_fhsm_bottom st1 - 1]" and "\<forall>n. copy n"
    and "0 < fh_readable st1" and "nonblock \<longrightarrow> fh_readable st \<noteq> 0"
    and "sizeof_stbr * int (length (filter (fhsm_watched cfg st1) [0..au_fhsm_bottom st1 - 1])) \<le> uint count"
  shows "au_fhsm_read cfg nonblock copy count ((0, st1) # rounds) st
    = Some (sizeof_stbr * int (length (fhsm_news cfg st1 [0..au_fhsm_bottom st1 - 1])),
        fhsm_news cfg st1 [0..au_fhsm_bottom st1 - 1],
        fhsm_quiet cfg [0..au_fhsm_bottom st1 - 1] (st1\<lparr>fh_readable := 0\<rparr>))"
proof -
  let ?bs = "[0..au_fhsm_bottom st1 - 1]" and ?st = "st1\<lparr>fh_readable := 0\<rparr>"
  have n: "fhsm_count cfg st1 ?bs = Some (int (length (filter (fhsm_watched cfg st1) ?bs)))"
    by (rule fhsm_count_ok [OF assms(1)])
  have news: "fhsm_news cfg ?st ?bs = fhsm_news cfg st1 ?bs" by (rule fhsm_news_cong) auto
  have "fhsm_read_loop cfg copy ?bs count [] ?st = Some (0, [] @ fhsm_news cfg ?st ?bs, fhsm_quiet cfg ?bs ?st)"
  proof (rule fhsm_read_loop_ok)
    show "fhsm_ok cfg ?st ?bs" using assms(1) by (simp add: fhsm_ok_def)
    show "sizeof_stbr * int (length (fhsm_news cfg ?st ?bs)) \<le> uint count"
      using assms(5) fhsm_news_length [of cfg st1 ?bs] unfolding news by (simp add: sizeof_stbr_def)
  qed (use assms(2) in auto)
  then have "au_fhsm_do_read cfg copy count ?st
      = Some (sizeof_stbr * int (length (fhsm_news cfg st1 ?bs)), fhsm_news cfg st1 ?bs, fhsm_quiet cfg ?bs ?st)"
    by (simp add: au_fhsm_do_read_def au_fhsm_bottom_def news [unfolded au_fhsm_bottom_def])
  then show ?thesis using assms(3-5) n by (auto simp: mult.commute)
qed

section \<open>A branch without the attribute\<close>

lemma fhsm_verify_bottom:
  assumes "fhsm_verify cfg st0 = Some st" and "fhsm_count cfg st0 [0..si_bend (fh_sbi st0)] = Some n" and "2 \<le> n"
    and "fhsm_ok cfg st0 [0..si_bend (fh_sbi st0)]"
  shows "si_fhsm_active (fh_sbi st)" "fhsm_watched cfg st0 (si_fhsm_bottom (fh_sbi st))" "si_branch (fh_sbi st) = si_branch (fh_sbi st0)"
proof -
  let ?bend = "si_bend (fh_sbi st0)"
  obtain r where r: "first_down (br_has_fhsm cfg st0) ?bend 0 = Some r"
    "st = (case r of None \<Rightarrow> set_active True st0 | Some b \<Rightarrow> au_fhsm_set_bottom b (set_active True st0))"
    using assms(1-3) by (auto simp: fhsm_verify_def Let_def)
  have "r \<noteq> None"
  proof
    assume "r = None"
    then have no: "br_has_fhsm cfg st0 j = Some False" if "0 \<le> j" "j \<le> ?bend" for j
      using first_down_none [of "br_has_fhsm cfg st0" ?bend 0 j] r(1) that by simp
    have "filter (fhsm_watched cfg st0) [0..?bend] = []"
      using no by (auto simp: filter_empty_conv fhsm_watched_def)
    then show False using fhsm_count_ok [OF assms(4)] assms(2,3) by simp
  qed
  then obtain b where b: "r = Some b" by blast
  have "br_has_fhsm cfg st0 b = Some True" using first_down_found r(1) b by blast
  then show "si_fhsm_active (fh_sbi st)" "fhsm_watched cfg st0 (si_fhsm_bottom (fh_sbi st))" "si_branch (fh_sbi st) = si_branch (fh_sbi st0)"
    using r(2) b by (simp_all add: set_active_def au_fhsm_set_bottom_def fhsm_watched_def)
qed

text \<open>
  C8: a mount where two branches have the attribute \<open>fhsm\<close> and another has not. A write to the latter,
  as every creation of a file there reports one, locks the mutex of a record that does not exist.
\<close>

theorem au_fhsm_wrote_unattributed:
  assumes "fhsm_verify cfg st0 = Some st" and "fhsm_count cfg st0 [0..si_bend (fh_sbi st0)] = Some n" and "2 \<le> n"
    and "fhsm_ok cfg st0 [0..si_bend (fh_sbi st0)]"
    and "0 \<le> b" and "b \<le> si_bend (fh_sbi st0)" and "\<not> fhsm_watched cfg st0 b"
  shows "au_fhsm_wrote e b force st = None"
proof -
  note v = fhsm_verify_bottom [OF assms(1-4)]
  obtain br where br: "au_sbr (fh_sbi st0) b = Some br" "br_fhsm br = au_br_fhsm cfg (br_perm br)"
    using assms(4) [unfolded fhsm_ok_def, rule_format, of b] assms(5,6) by auto
  have "\<not> br_fhsm br" using br assms(7) by (auto simp: fhsm_watched_def br_has_fhsm_def)
  moreover have "au_sbr (fh_sbi st) b = Some br" using br(1) v(3) by (simp add: au_sbr_def)
  moreover have "si_fhsm_bottom (fh_sbi st) \<noteq> b" using v(2) assms(7) by auto
  ultimately show ?thesis using v(1) by (simp add: au_fhsm_wrote_def)
qed

section \<open>A failed \<open>statfs\<close>\<close>

text \<open>
  When \<open>statfs\<close> of the branch fails the reader is woken all the same; it then returns 0, the end of the file,
  if nothing else was written.
\<close>

theorem au_fhsm_spurious_end:
  assumes "si_fhsm_active (fh_sbi st)" and "si_fhsm_bottom (fh_sbi st) \<noteq> b"
    and "au_sbr (fh_sbi st) b = Some br" and "br_fhsm br" and "\<not> au_br_rdonly br"
    and "fst (fe_statfs e b) \<noteq> 0" and "fh_pid st \<noteq> 0" and "fh_readable st = 0"
    and ok: "fhsm_ok cfg st [0..au_fhsm_bottom st - 1]" and none: "\<forall>b. \<not> bf_readable (fh_bf st b)"
    and count: "sizeof_stbr * int (length (filter (fhsm_watched cfg st) [0..au_fhsm_bottom st - 1])) \<le> uint count"
  shows "\<exists>st1 st2. au_fhsm_wrote e b force st = Some st1 \<and> fh_readable st1 = 1
    \<and> au_fhsm_read cfg False (\<lambda>_. True) count [(0, st1)] st = Some (0, [], st2)"
proof -
  obtain err s where fs: "fe_statfs e b = (err, s)" "err \<noteq> 0" using assms(6) by (cases "fe_statfs e b") auto
  let ?bf = "(fh_bf st)(b := (fh_bf st b)\<lparr>bf_stfs := bf_stfs (fh_bf st b)\<rparr>)"
  let ?st1 = "st\<lparr>fh_bf := ?bf, fh_readable := 1\<rparr>"
  have "au_fhsm_stfs e b True st = Some (err, ?st1)"
    using assms(3-8) fs by (simp add: au_fhsm_stfs_def au_br_stfs_def au_fhsm_notify_def Let_def)
  then have w: "au_fhsm_wrote e b force st = Some ?st1"
    using assms(1-4,7) by (simp add: au_fhsm_wrote_def)
  let ?bs = "[0..au_fhsm_bottom st - 1]" and ?st2 = "?st1\<lparr>fh_readable := 0\<rparr>"
  have watched: "fhsm_watched cfg ?st1 = fhsm_watched cfg st" by (rule ext) (simp add: fhsm_watched_def br_has_fhsm_def)
  have bottom: "au_fhsm_bottom ?st1 = au_fhsm_bottom st" by (simp add: au_fhsm_bottom_def)
  have n: "fhsm_count cfg ?st1 ?bs = Some (int (length (filter (fhsm_watched cfg st) ?bs)))"
    using fhsm_count_ok [of cfg ?st1 ?bs] ok unfolding watched by (simp add: fhsm_ok_def)
  have news: "fhsm_news cfg ?st2 ?bs = []" using none by (auto simp: fhsm_news_def filter_empty_conv)
  have "fhsm_read_loop cfg (\<lambda>_. True) ?bs count [] ?st2 = Some (0, [] @ fhsm_news cfg ?st2 ?bs, fhsm_quiet cfg ?bs ?st2)"
    by (rule fhsm_read_loop_ok) (use ok news in \<open>auto simp: fhsm_ok_def\<close>)
  then have "au_fhsm_do_read cfg (\<lambda>_. True) count ?st2 = Some (0, [], fhsm_quiet cfg ?bs ?st2)"
    unfolding news by (simp add: au_fhsm_do_read_def au_fhsm_bottom_def)
  then have "au_fhsm_read cfg False (\<lambda>_. True) count [(0, ?st1)] st = Some (0, [], fhsm_quiet cfg ?bs ?st2)"
    using n count bottom by (simp add: mult.commute)
  then show ?thesis using w by auto
qed


section \<open>An example\<close>

text \<open>Three branches, the last two with the attribute, or the first and the last.\<close>

definition fhsm_ex_branch :: "bindex \<Rightarrow> int \<Rightarrow> bool \<Rightarrow> au_branch" where
  "fhsm_ex_branch i perm f = (example_branch i perm 100)\<lparr>br_perm := perm, br_fhsm := f\<rparr>"

definition fhsm_ex :: "bool \<Rightarrow> fhsm_st" where
  "fhsm_ex first = \<lparr>fh_sbi = example_sbinfo\<lparr>si_bend := 2,
       si_branch := [Some (fhsm_ex_branch 1 (if first then 33 else 1) first), Some (fhsm_ex_branch 2 33 True), Some (fhsm_ex_branch 3 33 True)],
       si_fhsm_active := first, si_fhsm_bottom := 2\<rparr>,
     fh_pid = 5, fh_readable = 1,
     fh_bf = (\<lambda>b. \<lparr>bf_jiffy = 7, bf_readable = (b = 1), bf_stfs = \<lparr>f_blocks = 10, f_bavail = 5, f_files = 3, f_ffree = 2\<rparr>\<rparr>)\<rparr>"

lemma fhsm_ex_ok: "fhsm_ok (kconfig_of True True) (fhsm_ex first) [0..2]" "fhsm_ok (kconfig_of True True) (fhsm_ex first) [0..1]"
  by (auto simp: fhsm_ok_def fhsm_ex_def fhsm_ex_branch_def au_sbr_def arr_get_def upto.simps nth_Cons' au_br_fhsm_def AuBrAttr_FHSM_def kconfig_of_def)

theorem au_fhsm_read_reports_witness:
  "au_fhsm_read (kconfig_of True True) True (\<lambda>_. True) 80 [(0, fhsm_ex True)] (fhsm_ex True)
   = Some (40, [(2, \<lparr>f_blocks = 10, f_bavail = 5, f_files = 3, f_ffree = 2\<rparr>)],
       fhsm_quiet (kconfig_of True True) [0, 1] ((fhsm_ex True)\<lparr>fh_readable := 0\<rparr>))"
proof -
  have b: "[0..au_fhsm_bottom (fhsm_ex True) - 1] = [0, 1]" by (simp add: au_fhsm_bottom_def fhsm_ex_def upto.simps)
  have w: "fhsm_watched (kconfig_of True True) (fhsm_ex True) 0" "fhsm_watched (kconfig_of True True) (fhsm_ex True) 1"
    by (simp_all add: fhsm_watched_def br_has_fhsm_def fhsm_ex_def fhsm_ex_branch_def au_sbr_def arr_get_def
        au_br_fhsm_def AuBrAttr_FHSM_def kconfig_of_def)
  have news: "fhsm_news (kconfig_of True True) (fhsm_ex True) [0, 1] = [(2, \<lparr>f_blocks = 10, f_bavail = 5, f_files = 3, f_ffree = 2\<rparr>)]"
    using w by (simp add: fhsm_news_def fhsm_ex_def fhsm_ex_branch_def au_sbr_def arr_get_def example_branch_def)
  have "fhsm_ok (kconfig_of True True) (fhsm_ex True) [0, 1]" using fhsm_ex_ok(2) [of True] by (simp add: upto.simps)
  then show ?thesis
    using au_fhsm_read_reports [of "kconfig_of True True" "fhsm_ex True" "\<lambda>_. True" True "fhsm_ex True" 80 "[]"] w
    unfolding b news by (simp add: sizeof_stbr_def) (simp add: fhsm_ex_def)
qed

theorem au_fhsm_wrote_unattributed_witness:
  "\<exists>st. fhsm_verify (kconfig_of True True) (fhsm_ex False) = Some st \<and> (\<forall>e force. au_fhsm_wrote e 0 force st = None)"
proof -
  let ?cfg = "kconfig_of True True" and ?st = "fhsm_ex False"
  have bend: "si_bend (fh_sbi ?st) = 2" by (simp add: fhsm_ex_def)
  have h: "br_has_fhsm ?cfg ?st 0 = Some False" "br_has_fhsm ?cfg ?st 1 = Some True" "br_has_fhsm ?cfg ?st 2 = Some True"
    by (simp_all add: br_has_fhsm_def fhsm_ex_def fhsm_ex_branch_def au_sbr_def arr_get_def au_br_fhsm_def AuBrAttr_FHSM_def kconfig_of_def)
  have n: "fhsm_count ?cfg ?st [0..si_bend (fh_sbi ?st)] = Some 2" using h by (simp add: bend upto.simps)
  obtain st where st: "fhsm_verify ?cfg ?st = Some st"
    using n h first_down_step(2) [of 0 2 "br_has_fhsm ?cfg ?st"] by (simp add: fhsm_verify_def bend)
  have "au_fhsm_wrote e 0 force st = None" for e force
    by (rule au_fhsm_wrote_unattributed [OF st n]) (use fhsm_ex_ok(1) [of False] bend h in \<open>auto simp: fhsm_watched_def\<close>)
  then show ?thesis using st by blast
qed

end
