(* ===== verification/Dynop.thy ===== *)
theory Dynop
  imports Branch_Ops
begin

text \<open>
  The operations of the pages of regular files (\<open>dynop.c\<close>): for every table of operations of a lower file
  system aufs builds one of its own, with the methods that the lower one has. These tables are shared by
  all branches and mounts and counted; each branch holds those it uses. The properties say that the counts
  are exact and which methods a table has.
\<close>

section \<open>State\<close>

text \<open>The methods of \<open>struct address_space_operations\<close>; a table says which of its pointers are set.\<close>

datatype aop = Writepage | Readpage | Writepages | Set_page_dirty | Readpages | Write_begin | Write_end | Bmap
  | Invalidatepage | Releasepage | Freepage | Direct_IO | Get_xip_mem | Migratepage | Launder_page
  | Is_partially_uptodate | Error_remove_page | Swap_activate | Swap_deactivate

type_synonym aops = "aop \<Rightarrow> bool"

text \<open>
  A key with its count, its table and whether the lower one has \<open>get_xip_mem\<close>. A table of a lower file
  system is a number.
\<close>

record au_dykey =
  dk_hop :: nat
  dk_kref :: int
  da_op :: aops
  da_get_xip_mem :: bool

text \<open>
  \<open>dy_list\<close>: the list \<open>dynop[AuDy_AOP]\<close>; \<open>dy_br\<close>: the array \<open>br_dykey\<close> of every branch; \<open>dy_next\<close>: the next key that
  is allocated.
\<close>

record dy_st =
  dy_list :: "nat list"
  dy_key :: "nat \<Rightarrow> au_dykey"
  dy_br :: "nat option list list"
  dy_next :: nat
  dy_mem :: mem_oracle

definition AuBrDynOp :: nat where "AuBrDynOp = 4"

definition kref_add :: "nat \<Rightarrow> int \<Rightarrow> dy_st \<Rightarrow> dy_st" where
  "kref_add k n st = st\<lparr>dy_key := (dy_key st)(k := (dy_key st k)\<lparr>dk_kref := dk_kref (dy_key st k) + n\<rparr>)\<rparr>"

section \<open>Finding and adding keys\<close>

definition dy_gfind_get :: "nat \<Rightarrow> dy_st \<Rightarrow> nat option \<times> dy_st" where
  "dy_gfind_get h st =
     (case find (\<lambda>k. dk_hop (dy_key st k) = h) (dy_list st) of
        None \<Rightarrow> (None, st) | Some k \<Rightarrow> (Some k, kref_add k 1 st))"

text \<open>The array of one branch: the first key with the same table, or the first free place; none is \<open>BUG_ON\<close>.\<close>

fun dy_place :: "(nat \<Rightarrow> au_dykey) \<Rightarrow> nat \<Rightarrow> nat option list \<Rightarrow> (nat option \<times> nat option list) option" where
  "dy_place keys k [] = None"
| "dy_place keys k (None # a) = Some (None, Some k # a)"
| "dy_place keys k (Some j # a) =
     (if dk_hop (keys j) = dk_hop (keys k) then Some (Some j, Some j # a)
      else map_option (\<lambda>(r, a'). (r, Some j # a')) (dy_place keys k a))"

definition dy_bradd :: "nat \<Rightarrow> nat \<Rightarrow> dy_st \<Rightarrow> (nat option \<times> dy_st) option" where
  "dy_bradd b k st =
     (if length (dy_br st) \<le> b then None
      else map_option (\<lambda>(r, a). (r, st\<lparr>dy_br := (dy_br st)[b := a]\<rparr>)) (dy_place (dy_key st) k (dy_br st ! b)))"

definition dy_gadd :: "nat \<Rightarrow> dy_st \<Rightarrow> nat option \<times> dy_st" where
  "dy_gadd k st =
     (case find (\<lambda>j. dk_hop (dy_key st j) = dk_hop (dy_key st k)) (dy_list st) of
        Some j \<Rightarrow> (Some j, kref_add j 1 st)
      | None \<Rightarrow> (None, st\<lparr>dy_list := k # dy_list st\<rparr>))"

text \<open>A count that would become negative is the fault; at 0 the key leaves the list.\<close>

definition dy_free :: "nat \<Rightarrow> dy_st \<Rightarrow> dy_st" where "dy_free k st = st\<lparr>dy_list := remove1 k (dy_list st)\<rparr>"

definition au_dy_put :: "nat \<Rightarrow> dy_st \<Rightarrow> dy_st option" where
  "au_dy_put k st =
     (if dk_kref (dy_key st k) \<le> 0 then None
      else let st1 = kref_add k (- 1) st
           in Some (if dk_kref (dy_key st1 k) = 0 then dy_free k st1 else st1))"

text \<open>The keys of a branch that is freed (\<open>au_br_do_free\<close>).\<close>

fun br_put_dykeys :: "nat option list \<Rightarrow> dy_st \<Rightarrow> dy_st option" where
  "br_put_dykeys [] st = Some st"
| "br_put_dykeys (None # a) st = Some st"
| "br_put_dykeys (Some k # a) st = Option.bind (au_dy_put k st) (br_put_dykeys a)"

section \<open>Building a table\<close>

text \<open>
  The methods of aufs itself: two of them are called, or must be there, in every build; the others exist with
  \<open>CONFIG_AUFS_DEBUG\<close> only (\<open>dbg\<close>). There is no \<open>writepages\<close>, \<open>readpages\<close>, \<open>bmap\<close> and \<open>freepage\<close>.
\<close>

definition aufs_aop :: "bool \<Rightarrow> aops" where
  "aufs_aop dbg m =
     (case m of
        Readpage \<Rightarrow> True | Direct_IO \<Rightarrow> True | Get_xip_mem \<Rightarrow> True
      | Writepage \<Rightarrow> dbg | Set_page_dirty \<Rightarrow> dbg | Write_begin \<Rightarrow> dbg | Write_end \<Rightarrow> dbg
      | Invalidatepage \<Rightarrow> dbg | Releasepage \<Rightarrow> dbg | Migratepage \<Rightarrow> dbg | Launder_page \<Rightarrow> dbg
      | Is_partially_uptodate \<Rightarrow> dbg | Error_remove_page \<Rightarrow> dbg | Swap_activate \<Rightarrow> dbg | Swap_deactivate \<Rightarrow> dbg
      | Writepages \<Rightarrow> False | Readpages \<Rightarrow> False | Bmap \<Rightarrow> False | Freepage \<Rightarrow> False)"

text \<open>
  The operations below take the table of aufs (\<open>aufs_aop\<close> of the build) and, for the number of a lower table, its
  methods. \<open>DySet\<close> takes a method of aufs if the lower table has it; \<open>DySetForce\<close> needs one.
\<close>

definition dy_aop :: "aops \<Rightarrow> aops \<Rightarrow> au_dykey \<Rightarrow> au_dykey option" where
  "dy_aop a_aop h key =
     (if \<not> a_aop Readpage then None
      else Some (key\<lparr>da_op := (\<lambda>m. da_op key m \<or> a_aop m \<and> (h m \<or> m = Readpage)), da_get_xip_mem := h Get_xip_mem\<rparr>))"

definition dy_adx :: "aops \<Rightarrow> bool \<Rightarrow> au_dykey \<Rightarrow> au_dykey" where
  "dy_adx a_aop do_dx key =
     (if \<not> do_dx then key\<lparr>da_op := (da_op key)(Direct_IO := False, Get_xip_mem := False)\<rparr>
      else key\<lparr>da_op := (da_op key)(Direct_IO := a_aop Direct_IO,
                                   Get_xip_mem := a_aop Get_xip_mem \<and> da_get_xip_mem key)\<rparr>)"

definition dy_zero :: "nat \<Rightarrow> au_dykey" where
  "dy_zero h = \<lparr>dk_hop = h, dk_kref = 1, da_op = (\<lambda>_. False), da_get_xip_mem = False\<rparr>"

text \<open>The part of \<open>dy_get\<close> that allocates a key.\<close>

definition dy_new :: "aops \<Rightarrow> (nat \<Rightarrow> aops) \<Rightarrow> nat \<Rightarrow> dy_st \<Rightarrow> ((int + nat) \<times> dy_st) option" where
  "dy_new a_aop h_aop h st =
     (let (ok, mem) = take_alloc (dy_mem st); st1 = st\<lparr>dy_mem := mem\<rparr>; k = dy_next st
      in if \<not> ok then Some (Inl (- ENOMEM), st1)
         else Option.bind (dy_aop a_aop (h_aop h) (dy_zero h)) (\<lambda>key.
              let st2 = st1\<lparr>dy_key := (dy_key st1)(k := key), dy_next := k + 1\<rparr>; (old, st3) = dy_gadd k st2
              in Some (case old of Some j \<Rightarrow> (Inr j, st3) | None \<Rightarrow> (Inr k, st3))))"

text \<open>\<open>kref_put\<close> with \<open>dy_bug\<close>: the count must not become 0.\<close>

definition dy_get :: "aops \<Rightarrow> (nat \<Rightarrow> aops) \<Rightarrow> nat \<Rightarrow> nat \<Rightarrow> dy_st \<Rightarrow> ((int + nat) \<times> dy_st) option" where
  "dy_get a_aop h_aop h b st =
     (let (found, st1) = dy_gfind_get h st
      in Option.bind (case found of Some k \<Rightarrow> Some (Inr k, st1) | None \<Rightarrow> dy_new a_aop h_aop h st1) (\<lambda>(r, st2).
         case r of
           Inl err \<Rightarrow> Some (Inl err, st2)
         | Inr k \<Rightarrow>
             Option.bind (dy_bradd b k st2) (\<lambda>(old, st3).
             case old of
               None \<Rightarrow> Some (Inr k, st3)
             | Some _ \<Rightarrow> if dk_kref (dy_key st3 k) \<le> 1 then None else Some (Inr k, kref_add k (- 1) st3))))"

definition dy_aget :: "aops \<Rightarrow> (nat \<Rightarrow> aops) \<Rightarrow> nat \<Rightarrow> nat \<Rightarrow> bool \<Rightarrow> dy_st \<Rightarrow> ((int + nat) \<times> dy_st) option" where
  "dy_aget a_aop h_aop b h do_dx st =
     map_option (\<lambda>(r, st1). case r of
        Inl err \<Rightarrow> (Inl err, st1)
      | Inr k \<Rightarrow> (Inr k, st1\<lparr>dy_key := (dy_key st1)(k := dy_adx a_aop do_dx (dy_key st1 k))\<rparr>))
       (dy_get a_aop h_aop h b st)"

text \<open>The inode's new table is the second result; \<open>isreg\<close>: the lower inode is a regular file.\<close>

definition au_dy_iaop :: "aops \<Rightarrow> (nat \<Rightarrow> aops) \<Rightarrow> au_sbinfo \<Rightarrow> nat \<Rightarrow> bool \<Rightarrow> nat \<Rightarrow> nat option \<Rightarrow> dy_st
    \<Rightarrow> (int \<times> nat option \<times> dy_st) option" where
  "au_dy_iaop a_aop h_aop sbi b isreg h a_ops st =
     (if \<not> isreg then None
      else map_option (\<lambda>(r, st1). case r of Inl err \<Rightarrow> (err, a_ops, st1) | Inr k \<Rightarrow> (0, Some k, st1))
             (dy_aget a_aop h_aop b h (au_opt_test (au_mntflags sbi) AuOpt_DIO) st))"

definition au_dy_irefresh :: "aops \<Rightarrow> (nat \<Rightarrow> aops) \<Rightarrow> au_sbinfo \<Rightarrow> bool \<Rightarrow> nat \<Rightarrow> nat \<Rightarrow> nat option \<Rightarrow> dy_st
    \<Rightarrow> (int \<times> nat option \<times> dy_st) option" where
  "au_dy_irefresh a_aop h_aop sbi isreg b h a_ops st =
     (if isreg then au_dy_iaop a_aop h_aop sbi b True h a_ops st else Some (0, a_ops, st))"

definition au_dy_arefresh :: "aops \<Rightarrow> bool \<Rightarrow> dy_st \<Rightarrow> dy_st" where
  "au_dy_arefresh a_aop do_dx st =
     st\<lparr>dy_key := (\<lambda>k. if k \<in> set (dy_list st) then dy_adx a_aop do_dx (dy_key st k) else dy_key st k)\<rparr>"


section \<open>The invariant\<close>

text \<open>
  The methods of a table but for the two that the mount option changes; the counts against some arrays;
  an array is filled from the front.
\<close>

definition dy_table :: "aops \<Rightarrow> (nat \<Rightarrow> aops) \<Rightarrow> au_dykey \<Rightarrow> bool" where
  "dy_table a_aop h_aop key \<longleftrightarrow> da_get_xip_mem key = h_aop (dk_hop key) Get_xip_mem
     \<and> (\<forall>m. m \<noteq> Direct_IO \<longrightarrow> m \<noteq> Get_xip_mem \<longrightarrow> da_op key m = (a_aop m \<and> (h_aop (dk_hop key) m \<or> m = Readpage)))"

definition dy_counts :: "nat option list list \<Rightarrow> dy_st \<Rightarrow> bool" where
  "dy_counts arrs st \<longleftrightarrow>
     (\<forall>k \<in> set (dy_list st). dk_kref (dy_key st k) = int (count_list (concat arrs) (Some k)))
     \<and> (\<forall>k. k \<in> set (dy_list st) \<longleftrightarrow> Some k \<in> set (concat arrs))"

definition dy_keys_ok :: "aops \<Rightarrow> (nat \<Rightarrow> aops) \<Rightarrow> dy_st \<Rightarrow> bool" where
  "dy_keys_ok a_aop h_aop st \<longleftrightarrow> distinct (dy_list st) \<and> inj_on (\<lambda>k. dk_hop (dy_key st k)) (set (dy_list st))
     \<and> (\<forall>k \<in> set (dy_list st). k < dy_next st \<and> dy_table a_aop h_aop (dy_key st k))"

definition dy_front :: "nat option list \<Rightarrow> bool" where
  "dy_front a \<longleftrightarrow> (\<exists>ks n. a = map Some ks @ replicate n None)"

definition dy_ok :: "aops \<Rightarrow> (nat \<Rightarrow> aops) \<Rightarrow> dy_st \<Rightarrow> bool" where
  "dy_ok a_aop h_aop st \<longleftrightarrow> dy_keys_ok a_aop h_aop st \<and> dy_counts (dy_br st) st \<and> list_all dy_front (dy_br st)"

lemma kref_add_simps [simp]:
  "dy_list (kref_add k n st) = dy_list st" "dy_br (kref_add k n st) = dy_br st" "dy_next (kref_add k n st) = dy_next st"
  "dk_hop (dy_key (kref_add k n st) j) = dk_hop (dy_key st j)" "da_op (dy_key (kref_add k n st) j) = da_op (dy_key st j)"
  "da_get_xip_mem (dy_key (kref_add k n st) j) = da_get_xip_mem (dy_key st j)"
  "dk_kref (dy_key (kref_add k n st) j) = dk_kref (dy_key st j) + (if j = k then n else 0)"
  "dy_mem (kref_add k n st) = dy_mem st"
  by (simp_all add: kref_add_def)

lemma kref_add_keys_ok [simp]: "dy_keys_ok a_aop h_aop (kref_add k n st) = dy_keys_ok a_aop h_aop st"
  by (simp add: dy_keys_ok_def dy_table_def)

lemma dy_front_simps: "dy_front []" "dy_front (None # a) \<longleftrightarrow> (\<exists>n. a = replicate n None)" "dy_front (Some k # a) \<longleftrightarrow> dy_front a"
proof -
  show "dy_front []" unfolding dy_front_def by (intro exI [of _ "[]"] exI [of _ 0]) simp
  show "dy_front (None # a) \<longleftrightarrow> (\<exists>n. a = replicate n None)"
  proof
    assume "dy_front (None # a)"
    then obtain ks n where e: "None # a = map Some ks @ replicate n None" by (auto simp: dy_front_def)
    then show "\<exists>n. a = replicate n None" by (cases ks; cases n) auto
  next
    assume "\<exists>n. a = replicate n None"
    then obtain n where "a = replicate n None" by blast
    then show "dy_front (None # a)" unfolding dy_front_def by (intro exI [of _ "[]"] exI [of _ "Suc n"]) simp
  qed
  show "dy_front (Some k # a) \<longleftrightarrow> dy_front a"
  proof
    assume "dy_front (Some k # a)"
    then obtain ks n where e: "Some k # a = map Some ks @ replicate n None" by (auto simp: dy_front_def)
    have "a = map Some (tl ks) @ replicate n None" using e by (cases ks; cases n) auto
    then show "dy_front a" unfolding dy_front_def by blast
  next
    assume "dy_front a"
    then obtain ks n where "a = map Some ks @ replicate n None" by (auto simp: dy_front_def)
    then show "dy_front (Some k # a)" unfolding dy_front_def by (intro exI [of _ "k # ks"] exI [of _ n]) simp
  qed
qed

lemma dy_place_ok:
  assumes "dy_front a" and "None \<in> set a \<or> (\<exists>j. Some j \<in> set a \<and> dk_hop (keys j) = dk_hop (keys k))"
  shows "\<exists>r a'. dy_place keys k a = Some (r, a') \<and> dy_front a'
    \<and> (case r of None \<Rightarrow> Some k \<in> set a' \<and> set a' \<subseteq> insert (Some k) (set a)
          \<and> (\<forall>j. count_list a' (Some j) = count_list a (Some j) + (if j = k then 1 else 0))
        | Some j \<Rightarrow> a' = a \<and> Some j \<in> set a \<and> dk_hop (keys j) = dk_hop (keys k))"
  using assms
proof (induction keys k a rule: dy_place.induct)
  case (2 keys k a)
  then show ?case by (auto simp: dy_front_simps)  (metis dy_front_def append_Nil list.simps(8))
next
  case (3 keys k j a)
  show ?case
  proof (cases "dk_hop (keys j) = dk_hop (keys k)")
    case False
    then have "None \<in> set a \<or> (\<exists>j. Some j \<in> set a \<and> dk_hop (keys j) = dk_hop (keys k))" using 3(3) by auto
    then obtain r a' where r: "dy_place keys k a = Some (r, a')" "dy_front a'"
      "case r of None \<Rightarrow> Some k \<in> set a' \<and> set a' \<subseteq> insert (Some k) (set a)
          \<and> (\<forall>j. count_list a' (Some j) = count_list a (Some j) + (if j = k then 1 else 0))
        | Some j \<Rightarrow> a' = a \<and> Some j \<in> set a \<and> dk_hop (keys j) = dk_hop (keys k)"
      using 3(1) [OF False] 3(2) by (auto simp: dy_front_simps)
    show ?thesis using False r by (cases r) (auto simp: dy_front_simps)
  qed (use 3(2) in auto)
qed simp


section \<open>Getting a table\<close>

text \<open>A key that the caller holds once more than the arrays do.\<close>

definition dy_held :: "aops \<Rightarrow> (nat \<Rightarrow> aops) \<Rightarrow> nat \<Rightarrow> dy_st \<Rightarrow> bool" where
  "dy_held a_aop h_aop k st \<longleftrightarrow> dy_keys_ok a_aop h_aop st \<and> k \<in> set (dy_list st) \<and> list_all dy_front (dy_br st)
     \<and> (\<forall>j \<in> set (dy_list st). dk_kref (dy_key st j) = int (count_list (concat (dy_br st)) (Some j)) + (if j = k then 1 else 0))
     \<and> (\<forall>j. Some j \<in> set (concat (dy_br st)) \<longrightarrow> j \<in> set (dy_list st))
     \<and> (\<forall>j \<in> set (dy_list st). j = k \<or> Some j \<in> set (concat (dy_br st)))"

lemma count_concat_upd:
  assumes "b < length as"
  shows "int (count_list (concat (as[b := a])) x) = int (count_list (concat as) x) - int (count_list (as ! b) x) + int (count_list a x)"
  using assms
proof (induction as arbitrary: b)
  case (Cons c cs)
  then show ?case by (cases b) auto
qed simp

lemma set_concat_upd:
  assumes "x \<in> set (concat (as[b := a]))"
  shows "x \<in> set (concat as) \<or> x \<in> set a"
  using assms set_update_subset_insert [of as b a] by auto

lemma dy_ok_mem [simp]: "dy_ok a_aop h_aop (st\<lparr>dy_mem := mem\<rparr>) = dy_ok a_aop h_aop st"
  by (simp add: dy_ok_def dy_keys_ok_def dy_counts_def)

text \<open>The branch has room, or has the table already.\<close>

definition dy_room :: "nat \<Rightarrow> nat \<Rightarrow> dy_st \<Rightarrow> bool" where
  "dy_room b h st \<longleftrightarrow> b < length (dy_br st)
     \<and> (None \<in> set (dy_br st ! b) \<or> (\<exists>j. Some j \<in> set (dy_br st ! b) \<and> dk_hop (dy_key st j) = h))"

definition dy_got :: "nat \<Rightarrow> nat \<Rightarrow> nat \<Rightarrow> dy_st \<Rightarrow> dy_st \<Rightarrow> bool" where
  "dy_got b h k st st' \<longleftrightarrow> k \<in> set (dy_list st') \<and> dk_hop (dy_key st' k) = h \<and> Some k \<in> set (dy_br st' ! b)
     \<and> (\<exists>a. dy_br st' = (dy_br st)[b := a])"

lemma dy_held_place:
  assumes h: "dy_held a_aop h_aop k st" and room: "dy_room b (dk_hop (dy_key st k)) st"
  shows "\<exists>st'. Option.bind (dy_bradd b k st) (\<lambda>(old, st3).
             case old of
               None \<Rightarrow> Some (Inr k, st3)
             | Some _ \<Rightarrow> if dk_kref (dy_key st3 k) \<le> 1 then None else Some (Inr k, kref_add k (- 1) st3)) = Some (Inr k, st')
     \<and> dy_ok a_aop h_aop st' \<and> dy_got b (dk_hop (dy_key st k)) k st st'"
proof -
  note c = h [unfolded dy_held_def]
  have b: "b < length (dy_br st)" using room by (simp add: dy_room_def)
  have fr: "dy_front (dy_br st ! b)" using c b by (simp add: list_all_length)
  obtain r a where r: "dy_place (dy_key st) k (dy_br st ! b) = Some (r, a)" "dy_front a"
    "case r of None \<Rightarrow> Some k \<in> set a \<and> set a \<subseteq> insert (Some k) (set (dy_br st ! b))
          \<and> (\<forall>j. count_list a (Some j) = count_list (dy_br st ! b) (Some j) + (if j = k then 1 else 0))
        | Some j \<Rightarrow> a = dy_br st ! b \<and> Some j \<in> set (dy_br st ! b) \<and> dk_hop (dy_key st j) = dk_hop (dy_key st k)"
    using dy_place_ok [OF fr, of "dy_key st" k] room by (auto simp: dy_room_def)
  let ?st = "st\<lparr>dy_br := (dy_br st)[b := a]\<rparr>"
  have add: "dy_bradd b k st = Some (r, ?st)" using b r(1) by (simp add: dy_bradd_def)
  have front: "list_all dy_front ((dy_br st)[b := a])"
    using c r(2) set_update_subset_insert [of "dy_br st" b a] by (auto simp: list_all_iff)
  show ?thesis
  proof (cases r)
    case None
    have cnt: "int (count_list (concat ((dy_br st)[b := a])) (Some j)) = int (count_list (concat (dy_br st)) (Some j)) + (if j = k then 1 else 0)" for j
      using count_concat_upd [OF b, of a "Some j"] r(3) None by simp
    have "j \<in> set (dy_list st) \<longleftrightarrow> Some j \<in> set (concat ((dy_br st)[b := a]))" for j
    proof
      assume "j \<in> set (dy_list st)"
      then have "j = k \<or> Some j \<in> set (concat (dy_br st))" using c by blast
      then have "j = k \<or> count_list (concat (dy_br st)) (Some j) \<noteq> 0" unfolding count_list_0_iff by blast
      then have "int (count_list (concat ((dy_br st)[b := a])) (Some j)) \<noteq> 0" unfolding cnt by auto
      then have "count_list (concat ((dy_br st)[b := a])) (Some j) \<noteq> 0" by linarith
      then show "Some j \<in> set (concat ((dy_br st)[b := a]))" unfolding count_list_0_iff by blast
    next
      assume "Some j \<in> set (concat ((dy_br st)[b := a]))"
      then have "Some j \<in> set (concat (dy_br st)) \<or> Some j \<in> insert (Some k) (set (dy_br st ! b))"
        using set_concat_upd [of "Some j" "dy_br st" b a] r(3) None by (auto simp del: set_concat)
      moreover have "Some j \<in> set (dy_br st ! b) \<Longrightarrow> Some j \<in> set (concat (dy_br st))" using b by auto
      ultimately have "Some j \<in> set (concat (dy_br st)) \<or> j = k" by blast
      then show "j \<in> set (dy_list st)" using c by blast
    qed
    then have "dy_counts (dy_br ?st) ?st" using c cnt by (simp add: dy_counts_def)
    moreover have "dy_keys_ok a_aop h_aop ?st" using c by (simp add: dy_keys_ok_def)
    ultimately have "dy_ok a_aop h_aop ?st" using front by (simp add: dy_ok_def)
    moreover have "dy_got b (dk_hop (dy_key st k)) k st ?st" using r(3) None b c by (auto simp: dy_got_def)
    ultimately show ?thesis using add None by (intro exI [of _ ?st]) simp
  next
    case (Some j)
    then have a: "a = dy_br st ! b" "Some j \<in> set (dy_br st ! b)" "dk_hop (dy_key st j) = dk_hop (dy_key st k)" using r(3) by auto
    have st: "?st = st" using a(1) by simp
    have inj: "Some j \<in> set (concat (dy_br st))" using a(2) b by auto
    then have "j \<in> set (dy_list st)" using c by blast
    then have j: "j = k" using a(3) c by (auto simp: dy_keys_ok_def inj_on_def)
    have "count_list (concat (dy_br st)) (Some k) \<noteq> 0" using inj j by (simp add: count_list_0_iff)
    then have kref: "1 < dk_kref (dy_key st k)" using c by simp
    let ?st' = "kref_add k (- 1) st"
    have "dy_counts (dy_br ?st') ?st'" using c inj j by (auto simp: dy_counts_def)
    moreover have "dy_keys_ok a_aop h_aop ?st'" using c by simp
    ultimately have "dy_ok a_aop h_aop ?st'" using c by (simp add: dy_ok_def)
    moreover have "dy_got b (dk_hop (dy_key st k)) k st ?st'"
      using a(2) j c by (auto simp: dy_got_def intro: exI [of _ "dy_br st ! b"])
    ultimately show ?thesis using add st Some kref by (intro exI [of _ ?st']) simp
  qed
qed

lemma dy_get_ok:
  assumes ok: "dy_ok a_aop h_aop st" and room: "dy_room b h st" and rp: "a_aop Readpage"
  shows "\<exists>r st'. dy_get a_aop h_aop h b st = Some (r, st') \<and> dy_ok a_aop h_aop st'
    \<and> (case r of Inl err \<Rightarrow> err = - ENOMEM \<and> dy_list st' = dy_list st \<and> dy_key st' = dy_key st \<and> dy_br st' = dy_br st
        | Inr k \<Rightarrow> dy_got b h k st st')"
proof (cases "find (\<lambda>k. dk_hop (dy_key st k) = h) (dy_list st)")
  case (Some k)
  then have k: "k \<in> set (dy_list st)" "dk_hop (dy_key st k) = h" by (auto simp: find_Some_iff)
  let ?st = "kref_add k 1 st"
  have held: "dy_held a_aop h_aop k ?st"
    using ok k by (auto simp: dy_held_def dy_ok_def dy_counts_def)
  have "dy_room b (dk_hop (dy_key ?st k)) ?st" using room k(2) by (simp add: dy_room_def)
  from dy_held_place [OF held this] obtain st' where
    "dy_get a_aop h_aop h b st = Some (Inr k, st')" "dy_ok a_aop h_aop st'" "dy_got b h k ?st st'"
    using Some k(2) by (auto simp: dy_get_def dy_gfind_get_def)
  then show ?thesis by (intro exI [of _ "Inr k"] exI [of _ st']) (simp add: dy_got_def)
next
  case None
  then have new: "\<forall>j \<in> set (dy_list st). dk_hop (dy_key st j) \<noteq> h" by (simp add: find_None_iff)
  obtain alloc mem where al: "take_alloc (dy_mem st) = (alloc, mem)" by (cases "take_alloc (dy_mem st)")
  show ?thesis
  proof (cases alloc)
    case False
    then show ?thesis using None al ok
      by (simp add: dy_get_def dy_gfind_get_def dy_new_def)
  next
    case True
    let ?k = "dy_next st"
    define key where "key = (dy_zero h)\<lparr>da_op := (\<lambda>m. da_op (dy_zero h) m \<or> a_aop m \<and> (h_aop h m \<or> m = Readpage)),
      da_get_xip_mem := h_aop h Get_xip_mem\<rparr>"
    have aop: "dy_aop a_aop (h_aop h) (dy_zero h) = Some key" using rp by (simp add: dy_aop_def key_def)
    have key: "dk_hop key = h" "dk_kref key = 1" "dy_table a_aop h_aop key"
      by (simp_all add: key_def dy_zero_def dy_table_def)
    define st2 where "st2 = st\<lparr>dy_mem := mem, dy_key := (dy_key st)(?k := key), dy_next := ?k + 1, dy_list := ?k # dy_list st\<rparr>"
    have fresh: "?k \<notin> set (dy_list st)" using ok by (auto simp: dy_ok_def dy_keys_ok_def)
    have nocnt: "count_list (concat (dy_br st)) (Some ?k) = 0"
      using ok fresh by (auto simp: dy_ok_def dy_counts_def count_list_0_iff)
    have "find (\<lambda>j. dk_hop (((dy_key st)(?k := key)) j) = h) (dy_list st) = None"
      using new fresh by (auto simp: find_None_iff)
    then have alloc: "dy_new a_aop h_aop h st = Some (Inr ?k, st2)"
      using al True aop key(1) by (simp add: dy_new_def dy_gadd_def st2_def Let_def)
    have "dy_keys_ok a_aop h_aop st2"
      using ok fresh new key unfolding dy_ok_def dy_keys_ok_def st2_def by (auto simp: inj_on_def)
    then have held: "dy_held a_aop h_aop ?k st2"
      using ok fresh key nocnt by (auto simp: dy_held_def dy_ok_def dy_counts_def st2_def)
    have "dy_room b (dk_hop (dy_key st2 ?k)) st2"
      using room ok fresh new key(1) nth_mem [of b "dy_br st"] by (auto simp: dy_room_def st2_def dy_ok_def dy_counts_def)
    from dy_held_place [OF held this] obtain st' where
      "dy_get a_aop h_aop h b st = Some (Inr ?k, st')" "dy_ok a_aop h_aop st'" "dy_got b h ?k st2 st'"
      using None alloc key(1) by (auto simp: dy_get_def dy_gfind_get_def st2_def)
    then show ?thesis by (intro exI [of _ "Inr ?k"] exI [of _ st']) (simp add: dy_got_def st2_def)
  qed
qed


text \<open>The methods that a table offers.\<close>

definition dy_methods :: "aops \<Rightarrow> aops \<Rightarrow> bool \<Rightarrow> aops" where
  "dy_methods a_aop h dx m = (a_aop m \<and> (if m = Readpage then True else if m = Direct_IO then dx
     else if m = Get_xip_mem then dx \<and> h m else h m))"

lemma dy_adx_methods:
  assumes "dy_table a_aop h_aop key"
  shows "da_op (dy_adx a_aop dx key) = dy_methods a_aop (h_aop (dk_hop key)) dx" "dy_table a_aop h_aop (dy_adx a_aop dx key)"
    "dk_hop (dy_adx a_aop dx key) = dk_hop key" "dk_kref (dy_adx a_aop dx key) = dk_kref key"
  using assms by (auto simp: dy_adx_def dy_methods_def dy_table_def fun_eq_iff)

lemma dy_adx_ok:
  assumes "dy_ok a_aop h_aop st" and "\<forall>k. keys k = (if P k then dy_adx a_aop dx (dy_key st k) else dy_key st k)"
  shows "dy_ok a_aop h_aop (st\<lparr>dy_key := keys\<rparr>)"
proof -
  have a: "dk_hop (dy_adx a_aop dx key) = dk_hop key" "dk_kref (dy_adx a_aop dx key) = dk_kref key" for key
    by (simp_all add: dy_adx_def)
  have h: "dk_hop (keys k) = dk_hop (dy_key st k)" "dk_kref (keys k) = dk_kref (dy_key st k)" for k
    using assms(2) a by simp_all
  have "dy_table a_aop h_aop (keys k)" if "k \<in> set (dy_list st)" for k
    using assms that dy_adx_methods(2) by (auto simp: dy_ok_def dy_keys_ok_def)
  then show ?thesis using assms(1) by (simp add: dy_ok_def dy_keys_ok_def dy_counts_def h)
qed

lemma dy_methods_aufs:
  "dy_methods (aufs_aop dbg) h dx m =
     (case m of
        Readpage \<Rightarrow> True | Direct_IO \<Rightarrow> dx | Get_xip_mem \<Rightarrow> dx \<and> h Get_xip_mem
      | Writepages \<Rightarrow> False | Readpages \<Rightarrow> False | Bmap \<Rightarrow> False | Freepage \<Rightarrow> False
      | _ \<Rightarrow> dbg \<and> h m)"
  by (cases m) (auto simp: dy_methods_def aufs_aop_def)

lemma au_dy_iaop_ok:
  assumes ok: "dy_ok a_aop h_aop st" and room: "dy_room b h st" and rp: "a_aop Readpage"
  shows "\<exists>err a st'. au_dy_iaop a_aop h_aop sbi b True h a_ops st = Some (err, a, st') \<and> dy_ok a_aop h_aop st'
    \<and> (if err = 0
       then \<exists>k. a = Some k \<and> dy_got b h k st st'
              \<and> da_op (dy_key st' k) = dy_methods a_aop (h_aop h) (au_opt_test (au_mntflags sbi) AuOpt_DIO)
       else err = - ENOMEM \<and> a = a_ops \<and> dy_list st' = dy_list st \<and> dy_key st' = dy_key st \<and> dy_br st' = dy_br st)"
proof -
  obtain r st1 where r: "dy_get a_aop h_aop h b st = Some (r, st1)" "dy_ok a_aop h_aop st1"
    "case r of Inl err \<Rightarrow> err = - ENOMEM \<and> dy_list st1 = dy_list st \<and> dy_key st1 = dy_key st \<and> dy_br st1 = dy_br st
        | Inr k \<Rightarrow> dy_got b h k st st1"
    using dy_get_ok [OF ok room rp] by blast
  show ?thesis
  proof (cases r)
    case (Inl e)
    then show ?thesis using r by (intro exI [of _ e] exI [of _ a_ops] exI [of _ st1]) (simp add: au_dy_iaop_def dy_aget_def)
  next
    case (Inr k)
    let ?dx = "au_opt_test (au_mntflags sbi) AuOpt_DIO"
    let ?st = "st1\<lparr>dy_key := (dy_key st1)(k := dy_adx a_aop ?dx (dy_key st1 k))\<rparr>"
    have g: "dy_got b h k st st1" using r(3) Inr by simp
    then have t: "dy_table a_aop h_aop (dy_key st1 k)" "dk_hop (dy_key st1 k) = h"
      using r(2) by (auto simp: dy_got_def dy_ok_def dy_keys_ok_def)
    have "dy_ok a_aop h_aop ?st" by (rule dy_adx_ok [OF r(2), where P = "\<lambda>j. j = k" and dx = ?dx]) auto
    moreover have "dy_got b h k st ?st" using g dy_adx_methods(3) [OF t(1)] t(2) by (simp add: dy_got_def)
    moreover have "da_op (dy_key ?st k) = dy_methods a_aop (h_aop h) ?dx" using dy_adx_methods(1) [OF t(1)] t(2) by simp
    ultimately show ?thesis using r(1) Inr
      by (intro exI [of _ 0] exI [of _ "Some k"] exI [of _ ?st]) (simp add: au_dy_iaop_def dy_aget_def)
  qed
qed

text \<open>
  C6: choosing the operations for a regular file, with the table that \<open>file.c\<close> defines for the build and with
  a free place in the branch's array or the lower table already there (without either the code is at its
  \<open>BUG_ON\<close>). The table for the lower file system is found or built once for all branches; its count is the
  number of places in the branches that hold it, before and after. It offers \<open>readpage\<close> always, \<open>direct_IO\<close> with
  the mount option \<open>dio\<close>, \<open>get_xip_mem\<close> with \<open>dio\<close> if the lower table has it, the methods of a debug build if
  this is one and the lower table has them, and nothing else. Without memory nothing changes.
\<close>

theorem au_dy_iaop_counts:
  assumes ok: "dy_ok (aufs_aop dbg) h_aop st" and room: "dy_room b h st"
  shows "\<exists>err a st'. au_dy_iaop (aufs_aop dbg) h_aop sbi b True h a_ops st = Some (err, a, st')
    \<and> dy_ok (aufs_aop dbg) h_aop st'
    \<and> (if err = 0
       then \<exists>k. a = Some k \<and> dy_got b h k st st'
              \<and> (\<forall>m. da_op (dy_key st' k) m =
                   (case m of
                      Readpage \<Rightarrow> True
                    | Direct_IO \<Rightarrow> au_opt_test (au_mntflags sbi) AuOpt_DIO
                    | Get_xip_mem \<Rightarrow> au_opt_test (au_mntflags sbi) AuOpt_DIO \<and> h_aop h Get_xip_mem
                    | Writepages \<Rightarrow> False | Readpages \<Rightarrow> False | Bmap \<Rightarrow> False | Freepage \<Rightarrow> False
                    | _ \<Rightarrow> dbg \<and> h_aop h m))
       else err = - ENOMEM \<and> a = a_ops \<and> dy_list st' = dy_list st \<and> dy_key st' = dy_key st \<and> dy_br st' = dy_br st)"
proof -
  have rp: "aufs_aop dbg Readpage" by (simp add: aufs_aop_def)
  obtain err a st' where s: "au_dy_iaop (aufs_aop dbg) h_aop sbi b True h a_ops st = Some (err, a, st')" "dy_ok (aufs_aop dbg) h_aop st'"
    "if err = 0
       then \<exists>k. a = Some k \<and> dy_got b h k st st'
              \<and> da_op (dy_key st' k) = dy_methods (aufs_aop dbg) (h_aop h) (au_opt_test (au_mntflags sbi) AuOpt_DIO)
       else err = - ENOMEM \<and> a = a_ops \<and> dy_list st' = dy_list st \<and> dy_key st' = dy_key st \<and> dy_br st' = dy_br st"
    using au_dy_iaop_ok [OF ok room rp, of sbi a_ops] by blast
  show ?thesis
  proof (cases "err = 0")
    case True
    then obtain k where k: "a = Some k" "dy_got b h k st st'"
      "da_op (dy_key st' k) = dy_methods (aufs_aop dbg) (h_aop h) (au_opt_test (au_mntflags sbi) AuOpt_DIO)"
      using s(3) by auto
    have "\<forall>m. da_op (dy_key st' k) m =
        (case m of
           Readpage \<Rightarrow> True
         | Direct_IO \<Rightarrow> au_opt_test (au_mntflags sbi) AuOpt_DIO
         | Get_xip_mem \<Rightarrow> au_opt_test (au_mntflags sbi) AuOpt_DIO \<and> h_aop h Get_xip_mem
         | Writepages \<Rightarrow> False | Readpages \<Rightarrow> False | Bmap \<Rightarrow> False | Freepage \<Rightarrow> False
         | _ \<Rightarrow> dbg \<and> h_aop h m)"
      unfolding k(3) by (intro allI dy_methods_aufs)
    from s(1,2) k(1,2) this show ?thesis unfolding True
      by (intro exI [of _ 0] exI [of _ a] exI [of _ st'] conjI) (simp_all only: if_True refl, blast)
  next
    case False
    then show ?thesis using s
      by (intro exI [of _ err] exI [of _ a] exI [of _ st'] conjI) (simp_all only: if_False)
  qed
qed

section \<open>Freeing a branch\<close>

lemma dy_put_counts:
  assumes k: "dy_keys_ok a_aop h_aop st" and c: "dy_counts ((Some k # a) # as) st"
  shows "\<exists>st'. au_dy_put k st = Some st' \<and> dy_keys_ok a_aop h_aop st' \<and> dy_counts (a # as) st' \<and> dy_br st' = dy_br st"
proof -
  have l: "k \<in> set (dy_list st)" and d: "distinct (dy_list st)" using c k by (auto simp: dy_counts_def dy_keys_ok_def)
  have ref: "dk_kref (dy_key st j) = int (count_list (concat (a # as)) (Some j)) + (if j = k then 1 else 0)" if "j \<in> set (dy_list st)" for j
    using c that by (auto simp: dy_counts_def)
  have mem: "j \<in> set (dy_list st) \<longleftrightarrow> j = k \<or> Some j \<in> set (concat (a # as))" for j using c by (auto simp: dy_counts_def)
  let ?st = "kref_add k (- 1) st"
  show ?thesis
  proof (cases "count_list (concat (a # as)) (Some k) = 0")
    case False
    then have "Some k \<in> set (concat (a # as))" unfolding count_list_0_iff by blast
    then have "dy_counts (a # as) ?st" using mem ref unfolding dy_counts_def by (simp del: set_concat concat.simps) blast
    moreover have "au_dy_put k st = Some ?st" using ref [OF l] False by (auto simp: au_dy_put_def Let_def)
    ultimately show ?thesis using k by auto
  next
    case True
    have no: "Some k \<notin> set (concat (a # as))" using True unfolding count_list_0_iff .
    have "dy_counts (a # as) (dy_free k ?st)"
      using mem ref no d unfolding dy_counts_def dy_free_def by (auto simp del: set_concat concat.simps split: if_splits)
    moreover have "dy_keys_ok a_aop h_aop (dy_free k ?st)"
      using k d by (auto simp: dy_keys_ok_def dy_free_def dy_table_def inj_on_def)
    moreover have "au_dy_put k st = Some (dy_free k ?st)" using ref [OF l] True by (simp add: au_dy_put_def)
    ultimately show ?thesis by (auto simp: dy_free_def)
  qed
qed

lemma dy_put_all:
  assumes "dy_keys_ok a_aop h_aop st" and "dy_counts (a # as) st" and "dy_front a"
  shows "\<exists>st'. br_put_dykeys a st = Some st' \<and> dy_keys_ok a_aop h_aop st' \<and> dy_counts as st' \<and> dy_br st' = dy_br st"
  using assms
proof (induction a st rule: br_put_dykeys.induct)
  case (1 st)
  then show ?case by (simp add: dy_counts_def)
next
  case (2 a st)
  then obtain n where "a = replicate n None" by (auto simp: dy_front_simps)
  then have "count_list a (Some k) = 0" "Some k \<notin> set a" for k by (auto simp: count_list_0_iff)
  then show ?case using 2 by (simp add: dy_counts_def)
next
  case (3 k a st)
  obtain st1 where s1: "au_dy_put k st = Some st1" "dy_keys_ok a_aop h_aop st1" "dy_counts (a # as) st1" "dy_br st1 = dy_br st"
    using dy_put_counts [OF 3(2,3)] by blast
  have "dy_front a" using 3(4) by (simp add: dy_front_simps)
  from 3(1) [OF s1(1-3) this] s1 show ?case by auto
qed

text \<open>
  C7: freeing a branch gives back every table it holds, once, never below zero, and the counts are exact
  for the branches that stay; a table that nobody holds any more leaves the list.
\<close>

theorem br_put_dykeys_counts:
  assumes ok: "dy_ok a_aop h_aop st" and b: "b < length (dy_br st)"
  shows "\<exists>st'. br_put_dykeys (dy_br st ! b) st = Some st'
    \<and> dy_ok a_aop h_aop (st'\<lparr>dy_br := take b (dy_br st) @ drop (Suc b) (dy_br st)\<rparr>)"
proof -
  let ?as = "take b (dy_br st) @ drop (Suc b) (dy_br st)"
  have split: "dy_br st = take b (dy_br st) @ dy_br st ! b # drop (Suc b) (dy_br st)" by (rule id_take_nth_drop [OF b])
  have "dy_counts (dy_br st ! b # ?as) st"
  proof -
    have "dy_counts (take b (dy_br st) @ dy_br st ! b # drop (Suc b) (dy_br st)) st" using ok split by (simp add: dy_ok_def)
    then show ?thesis by (auto simp: dy_counts_def)
  qed
  moreover have "dy_front (dy_br st ! b)" using ok b by (simp add: dy_ok_def list_all_length)
  ultimately obtain st' where s: "br_put_dykeys (dy_br st ! b) st = Some st'" "dy_keys_ok a_aop h_aop st'" "dy_counts ?as st'"
    using dy_put_all ok unfolding dy_ok_def by blast
  have "list_all dy_front ?as"
    using ok set_take_subset [of b "dy_br st"] set_drop_subset [of "Suc b" "dy_br st"] by (auto simp: dy_ok_def list_all_iff)
  then have "dy_ok a_aop h_aop (st'\<lparr>dy_br := ?as\<rparr>)"
    using s(2,3) by (simp add: dy_ok_def dy_keys_ok_def dy_counts_def)
  then show ?thesis using s(1) by blast
qed


section \<open>An example\<close>

text \<open>One table, held by the first of two branches; the second branch asks for it, then the first is freed.\<close>

definition dy_ex_hop :: "nat \<Rightarrow> aops" where "dy_ex_hop h m = (m = Writepage \<or> m = Readpage)"

definition dy_ex_key :: au_dykey where
  "dy_ex_key = \<lparr>dk_hop = 7, dk_kref = 1, da_op = (\<lambda>m. m = Writepage \<or> m = Readpage), da_get_xip_mem = False\<rparr>"

definition dy_ex :: dy_st where
  "dy_ex = \<lparr>dy_list = [0], dy_key = (\<lambda>_. dy_ex_key), dy_br = [[Some 0, None, None, None], [None, None, None, None]],
     dy_next = 1, dy_mem = []\<rparr>"

lemma dy_ex_ok: "dy_ok (aufs_aop True) dy_ex_hop dy_ex"
proof -
  have "dy_front [Some 0, None, None, None]"
    unfolding dy_front_def by (intro exI [of _ "[0]"] exI [of _ 3]) (simp add: numeral_eq_Suc)
  moreover have "dy_front [None, None, None, None]"
    unfolding dy_front_def by (intro exI [of _ "[]"] exI [of _ 4]) (simp add: numeral_eq_Suc)
  ultimately show ?thesis
    by (auto simp: dy_ok_def dy_keys_ok_def dy_counts_def dy_table_def dy_ex_def dy_ex_key_def aufs_aop_def dy_ex_hop_def)
qed

theorem au_dy_iaop_counts_witness:
  "\<exists>err a st'. au_dy_iaop (aufs_aop True) dy_ex_hop example_sbinfo 1 True 7 None dy_ex = Some (err, a, st')
     \<and> dy_ok (aufs_aop True) dy_ex_hop st' \<and> err = 0 \<and> a = Some 0 \<and> dk_kref (dy_key st' 0) = 2"
proof -
  have "dy_room 1 7 dy_ex" by (simp add: dy_room_def dy_ex_def)
  from au_dy_iaop_counts [OF dy_ex_ok this, of example_sbinfo None] obtain err a st' where
    s: "au_dy_iaop (aufs_aop True) dy_ex_hop example_sbinfo 1 True 7 None dy_ex = Some (err, a, st')" "dy_ok (aufs_aop True) dy_ex_hop st'"
    by auto
  have "au_dy_iaop (aufs_aop True) dy_ex_hop example_sbinfo 1 True 7 None dy_ex
      = Some (0, Some 0, st'') \<Longrightarrow> dk_kref (dy_key st'' 0) = 2" for st''
    by (auto simp: au_dy_iaop_def dy_aget_def dy_get_def dy_gfind_get_def dy_bradd_def dy_ex_def dy_ex_key_def kref_add_def dy_adx_def)
  moreover have "\<exists>st''. au_dy_iaop (aufs_aop True) dy_ex_hop example_sbinfo 1 True 7 None dy_ex = Some (0, Some 0, st'')"
    by (simp add: au_dy_iaop_def dy_aget_def dy_get_def dy_gfind_get_def dy_bradd_def dy_ex_def dy_ex_key_def)
  ultimately show ?thesis using s by auto
qed

theorem br_put_dykeys_counts_witness:
  "\<exists>st'. br_put_dykeys [Some 0, None, None, None] dy_ex = Some st'
     \<and> dy_ok (aufs_aop True) dy_ex_hop (st'\<lparr>dy_br := [[None, None, None, None]]\<rparr>) \<and> dy_list st' = []"
proof -
  have "\<exists>st'. br_put_dykeys (dy_br dy_ex ! 0) dy_ex = Some st'
    \<and> dy_ok (aufs_aop True) dy_ex_hop (st'\<lparr>dy_br := take 0 (dy_br dy_ex) @ drop (Suc 0) (dy_br dy_ex)\<rparr>)"
    by (rule br_put_dykeys_counts [OF dy_ex_ok]) (simp add: dy_ex_def)
  moreover have "br_put_dykeys [Some 0, None, None, None] dy_ex = Some st' \<Longrightarrow> dy_list st' = []" for st'
    by (auto simp: au_dy_put_def dy_ex_def dy_ex_key_def dy_free_def kref_add_def Let_def)
  ultimately show ?thesis by (auto simp: dy_ex_def)
qed

end
