(* ===== verification/Opts.thy ===== *)
theory Opts
  imports Branch_Ops Wbr_Policy
begin

text \<open>
  The options of a mount (\<open>opts.c\<close>, \<open>opts.h\<close>): the table of patterns, the parser that fills a page with an
  array of \<open>struct au_opt\<close>, and its release. \<open>match_token\<close>, \<open>match_int\<close> and \<open>kstrtoull\<close> are the parsers of the
  kernel and parameters, as is the lookup of a path and the creation of the xino file. A write behind the array and
  the use of an entry that was never written are the fault.
\<close>

section \<open>The tokens\<close>

definition Opt_br :: int where "Opt_br = 0"
definition Opt_add :: int where "Opt_add = 1"
definition Opt_del :: int where "Opt_del = 2"
definition Opt_mod :: int where "Opt_mod = 3"
definition Opt_reorder :: int where "Opt_reorder = 4"
definition Opt_append :: int where "Opt_append = 5"
definition Opt_prepend :: int where "Opt_prepend = 6"
definition Opt_idel :: int where "Opt_idel = 7"
definition Opt_imod :: int where "Opt_imod = 8"
definition Opt_ireorder :: int where "Opt_ireorder = 9"
definition Opt_dirwh :: int where "Opt_dirwh = 10"
definition Opt_rdcache :: int where "Opt_rdcache = 11"
definition Opt_rdblk :: int where "Opt_rdblk = 12"
definition Opt_rdhash :: int where "Opt_rdhash = 13"
definition Opt_rendir :: int where "Opt_rendir = 14"
definition Opt_rdblk_def :: int where "Opt_rdblk_def = 15"
definition Opt_rdhash_def :: int where "Opt_rdhash_def = 16"
definition Opt_xino :: int where "Opt_xino = 17"
definition Opt_zxino :: int where "Opt_zxino = 18"
definition Opt_noxino :: int where "Opt_noxino = 19"
definition Opt_trunc_xino :: int where "Opt_trunc_xino = 20"
definition Opt_trunc_xino_v :: int where "Opt_trunc_xino_v = 21"
definition Opt_notrunc_xino :: int where "Opt_notrunc_xino = 22"
definition Opt_trunc_xino_path :: int where "Opt_trunc_xino_path = 23"
definition Opt_itrunc_xino :: int where "Opt_itrunc_xino = 24"
definition Opt_trunc_xib :: int where "Opt_trunc_xib = 25"
definition Opt_notrunc_xib :: int where "Opt_notrunc_xib = 26"
definition Opt_shwh :: int where "Opt_shwh = 27"
definition Opt_noshwh :: int where "Opt_noshwh = 28"
definition Opt_plink :: int where "Opt_plink = 29"
definition Opt_noplink :: int where "Opt_noplink = 30"
definition Opt_list_plink :: int where "Opt_list_plink = 31"
definition Opt_udba :: int where "Opt_udba = 32"
definition Opt_dio :: int where "Opt_dio = 33"
definition Opt_nodio :: int where "Opt_nodio = 34"
definition Opt_cmd :: int where "Opt_cmd = 35"
definition Opt_cmd_args :: int where "Opt_cmd_args = 36"
definition Opt_diropq_a :: int where "Opt_diropq_a = 37"
definition Opt_diropq_w :: int where "Opt_diropq_w = 38"
definition Opt_warn_perm :: int where "Opt_warn_perm = 39"
definition Opt_nowarn_perm :: int where "Opt_nowarn_perm = 40"
definition Opt_wbr_copyup :: int where "Opt_wbr_copyup = 41"
definition Opt_wbr_create :: int where "Opt_wbr_create = 42"
definition Opt_fhsm_sec :: int where "Opt_fhsm_sec = 43"
definition Opt_refrof :: int where "Opt_refrof = 44"
definition Opt_norefrof :: int where "Opt_norefrof = 45"
definition Opt_verbose :: int where "Opt_verbose = 46"
definition Opt_noverbose :: int where "Opt_noverbose = 47"
definition Opt_sum :: int where "Opt_sum = 48"
definition Opt_nosum :: int where "Opt_nosum = 49"
definition Opt_wsum :: int where "Opt_wsum = 50"
definition Opt_dirperm1 :: int where "Opt_dirperm1 = 51"
definition Opt_nodirperm1 :: int where "Opt_nodirperm1 = 52"
definition Opt_acl :: int where "Opt_acl = 53"
definition Opt_noacl :: int where "Opt_noacl = 54"
definition Opt_tail :: int where "Opt_tail = 55"
definition Opt_ignore :: int where "Opt_ignore = 56"
definition Opt_ignore_silent :: int where "Opt_ignore_silent = 57"
definition Opt_err :: int where "Opt_err = 58"

lemmas opt_token_defs =
  Opt_br_def Opt_add_def Opt_del_def Opt_mod_def Opt_reorder_def Opt_append_def Opt_prepend_def Opt_idel_def
  Opt_imod_def Opt_ireorder_def Opt_dirwh_def Opt_rdcache_def Opt_rdblk_def Opt_rdhash_def Opt_rendir_def
  Opt_rdblk_def_def Opt_rdhash_def_def Opt_xino_def Opt_zxino_def Opt_noxino_def Opt_trunc_xino_def
  Opt_trunc_xino_v_def Opt_notrunc_xino_def Opt_trunc_xino_path_def Opt_itrunc_xino_def Opt_trunc_xib_def
  Opt_notrunc_xib_def Opt_shwh_def Opt_noshwh_def Opt_plink_def Opt_noplink_def Opt_list_plink_def Opt_udba_def
  Opt_dio_def Opt_nodio_def Opt_cmd_def Opt_cmd_args_def Opt_diropq_a_def Opt_diropq_w_def Opt_warn_perm_def
  Opt_nowarn_perm_def Opt_wbr_copyup_def Opt_wbr_create_def Opt_fhsm_sec_def Opt_refrof_def Opt_norefrof_def
  Opt_verbose_def Opt_noverbose_def Opt_sum_def Opt_nosum_def Opt_wsum_def Opt_dirperm1_def Opt_nodirperm1_def
  Opt_acl_def Opt_noacl_def Opt_tail_def Opt_ignore_def Opt_ignore_silent_def Opt_err_def

text \<open>The switches of the kernel that only this table asks for.\<close>

record opt_config =
  oc_debug :: bool
  oc_posix_acl :: bool
  oc_hfsnotify :: bool

definition options :: "kconfig \<Rightarrow> opt_config \<Rightarrow> match_table" where
  "options cfg oc =
     ([(Opt_br, ''br=%s''), (Opt_br, ''br:%s''),
       (Opt_add, ''add=%d:%s''), (Opt_add, ''add:%d:%s''), (Opt_add, ''ins=%d:%s''), (Opt_add, ''ins:%d:%s''),
       (Opt_append, ''append=%s''), (Opt_append, ''append:%s''),
       (Opt_prepend, ''prepend=%s''), (Opt_prepend, ''prepend:%s''),
       (Opt_del, ''del=%s''), (Opt_del, ''del:%s''),
       (Opt_mod, ''mod=%s''), (Opt_mod, ''mod:%s''),
       (Opt_dirwh, ''dirwh=%d''),
       (Opt_xino, ''xino=%s''), (Opt_noxino, ''noxino''),
       (Opt_trunc_xino, ''trunc_xino''), (Opt_trunc_xino_v, ''trunc_xino_v=%d:%d''),
       (Opt_notrunc_xino, ''notrunc_xino''), (Opt_trunc_xino_path, ''trunc_xino=%s''),
       (Opt_itrunc_xino, ''itrunc_xino=%d''),
       (Opt_trunc_xib, ''trunc_xib''), (Opt_notrunc_xib, ''notrunc_xib''),
       (if cfg_proc_fs cfg then Opt_plink else Opt_ignore_silent, ''plink''),
       (Opt_noplink, ''noplink'')]
      @ (if oc_debug oc then [(Opt_list_plink, ''list_plink'')] else []) @
      [(Opt_udba, ''udba=%s''),
       (Opt_dio, ''dio''), (Opt_nodio, ''nodio''),
       (if cfg_fhsm cfg then Opt_fhsm_sec else Opt_ignore_silent, ''fhsm_sec=%d''),
       (Opt_diropq_a, ''diropq=always''), (Opt_diropq_a, ''diropq=a''),
       (Opt_diropq_w, ''diropq=whiteouted''), (Opt_diropq_w, ''diropq=w''),
       (Opt_warn_perm, ''warn_perm''), (Opt_nowarn_perm, ''nowarn_perm''),
       (Opt_ignore_silent, ''nodlgt''), (Opt_ignore_silent, ''clean_plink'')]
      @ (if cfg_shwh cfg then [(Opt_shwh, ''shwh'')] else []) @
      [(Opt_noshwh, ''noshwh''),
       (Opt_dirperm1, ''dirperm1''), (Opt_nodirperm1, ''nodirperm1''),
       (Opt_rendir, ''rendir=%d''),
       (Opt_refrof, ''refrof''), (Opt_norefrof, ''norefrof''),
       (Opt_verbose, ''verbose''), (Opt_verbose, ''v''),
       (Opt_noverbose, ''noverbose''), (Opt_noverbose, ''quiet''), (Opt_noverbose, ''q''), (Opt_noverbose, ''silent''),
       (Opt_sum, ''sum''), (Opt_nosum, ''nosum''), (Opt_wsum, ''wsum''),
       (Opt_rdcache, ''rdcache=%d''),
       (Opt_rdblk, ''rdblk=%d''), (Opt_rdblk_def, ''rdblk=def''),
       (Opt_rdhash, ''rdhash=%d''), (Opt_rdhash_def, ''rdhash=def''),
       (Opt_wbr_create, ''create=%s''), (Opt_wbr_create, ''create_policy=%s''),
       (Opt_wbr_copyup, ''cpup=%s''), (Opt_wbr_copyup, ''copyup=%s''), (Opt_wbr_copyup, ''copyup_policy=%s''),
       (if oc_posix_acl oc then Opt_acl else Opt_ignore_silent, ''acl''),
       (if oc_posix_acl oc then Opt_noacl else Opt_ignore_silent, ''noacl''),
       (Opt_ignore_silent, ''si=%s''),
       (Opt_br, ''dirs=%s''),
       (Opt_ignore, ''debug=%d''), (Opt_ignore, ''delete=whiteout''), (Opt_ignore, ''delete=all''),
       (Opt_ignore, ''imap=%s''), (Opt_ignore_silent, ''relatime'')], Opt_err)"

definition udbalevel :: "kconfig \<Rightarrow> opt_config \<Rightarrow> match_table" where
  "udbalevel cfg oc =
     ([(AuOpt_UDBA_REVAL, ''reval''), (AuOpt_UDBA_NONE, ''none'')]
      @ (if cfg_hnotify cfg
         then (AuOpt_UDBA_HNOTIFY cfg, ''notify'') # (if oc_hfsnotify oc then [(AuOpt_UDBA_HNOTIFY cfg, ''fsnotify'')] else [])
         else []), - 1)"

definition au_wbr_create_policy :: match_table where
  "au_wbr_create_policy =
     ([(AuWbrCreate_TDP, ''tdp''), (AuWbrCreate_TDP, ''top-down-parent''),
       (AuWbrCreate_RR, ''rr''), (AuWbrCreate_RR, ''round-robin''),
       (AuWbrCreate_MFS, ''mfs''), (AuWbrCreate_MFS, ''most-free-space''),
       (AuWbrCreate_MFSV, ''mfs:%d''), (AuWbrCreate_MFSV, ''most-free-space:%d''),
       (AuWbrCreate_MFSRR, ''mfsrr:%d''), (AuWbrCreate_MFSRRV, ''mfsrr:%d:%d''),
       (AuWbrCreate_PMFS, ''pmfs''), (AuWbrCreate_PMFSV, ''pmfs:%d''),
       (AuWbrCreate_PMFSRR, ''pmfsrr:%d''), (AuWbrCreate_PMFSRRV, ''pmfsrr:%d:%d'')], - 1)"

definition au_wbr_copyup_policy :: match_table where
  "au_wbr_copyup_policy =
     ([(AuWbrCopyup_TDP, ''tdp''), (AuWbrCopyup_TDP, ''top-down-parent''),
       (AuWbrCopyup_BUP, ''bup''), (AuWbrCopyup_BUP, ''bottom-up-parent''),
       (AuWbrCopyup_BU, ''bu''), (AuWbrCopyup_BU, ''bottom-up'')], - 1)"

section \<open>An option and the array\<close>

datatype opt_arg = Arg_none | Arg_xino string fptr dptr | Arg_itrunc bindex | Arg_add opt_add | Arg_del opt_del
  | Arg_mod opt_mod | Arg_int int | Arg_create opt_wbr_create

text \<open>The union is not read while the type is \<open>Opt_tail\<close>. An entry of the fresh page is \<open>None\<close>.\<close>

record au_opt =
  ot_type :: int
  ot_arg :: opt_arg

record au_opts =
  op_opt :: "au_opt option list"
  op_given_udba :: int
  op_flags :: int
  op_rdonly :: bool

text \<open>\<open>opt->type = t\<close>, and the option with its union.\<close>

definition set_type :: "nat \<Rightarrow> int \<Rightarrow> au_opt option list \<Rightarrow> au_opt option list option" where
  "set_type i t os =
     (if i < length os
      then Some (os[i := Some (case os ! i of None \<Rightarrow> \<lparr>ot_type = t, ot_arg = Arg_none\<rparr> | Some x \<Rightarrow> x\<lparr>ot_type := t\<rparr>)])
      else None)"

definition set_opt :: "nat \<Rightarrow> int \<Rightarrow> opt_arg \<Rightarrow> au_opt option list \<Rightarrow> au_opt option list option" where
  "set_opt i t x os = (if i < length os then Some (os[i := Some \<lparr>ot_type = t, ot_arg = x\<rparr>]) else None)"

text \<open>The references of an option.\<close>

definition put_opt :: "au_opt \<Rightarrow> vfs \<Rightarrow> vfs option" where
  "put_opt x v =
     (if ot_type x = Opt_add \<or> ot_type x = Opt_append \<or> ot_type x = Opt_prepend
      then case ot_arg x of Arg_add a \<Rightarrow> put_dentry (oa_dentry a) v | _ \<Rightarrow> None
      else if ot_type x = Opt_del \<or> ot_type x = Opt_idel
      then case ot_arg x of Arg_del a \<Rightarrow> put_dentry (od_dentry a) v | _ \<Rightarrow> None
      else if ot_type x = Opt_mod \<or> ot_type x = Opt_imod
      then case ot_arg x of Arg_mod a \<Rightarrow> put_dentry (om_h_root a) v | _ \<Rightarrow> None
      else if ot_type x = Opt_xino then case ot_arg x of Arg_xino _ f _ \<Rightarrow> put_file f v | _ \<Rightarrow> None
      else Some v)"

fun au_opts_free :: "au_opt option list \<Rightarrow> vfs \<Rightarrow> vfs option" where
  "au_opts_free [] v = None"
| "au_opts_free (None # os) v = None"
| "au_opts_free (Some x # os) v =
     (if ot_type x = Opt_tail then Some v else Option.bind (put_opt x v) (au_opts_free os))"

section \<open>Values\<close>

text \<open>
  \<open>pa_mt\<close>: \<open>match_token\<close>, the token and the arguments. \<open>pa_int\<close>: \<open>match_int\<close>, \<open>None\<close> is an error.
  \<open>pa_ull\<close>: \<open>kstrtoull\<close>. \<open>pa_path\<close>: \<open>kern_path\<close>. \<open>pa_xino\<close>: \<open>au_xino_create\<close>, the file, its directory and
  whether it lies in the union itself. \<open>pa_kmalloc\<close>: \<open>KMALLOC_MAX_SIZE\<close>. \<open>pa_brs\<close>: the parameter \<open>brs\<close> of the module.
  \<open>pa_root\<close>, \<open>pa_bend\<close>: the table of the root and the last branch.
\<close>

record parse_env =
  pa_cfg :: kconfig
  pa_oc :: opt_config
  pa_mt :: matcher
  pa_int :: "string \<Rightarrow> int option"
  pa_ull :: "string \<Rightarrow> u64 option"
  pa_path :: "string \<Rightarrow> vfs \<Rightarrow> int + dptr"
  pa_xino :: "string \<Rightarrow> vfs \<Rightarrow> int + fptr \<times> dptr \<times> bool"
  pa_magics :: magics
  pa_super :: "nat \<Rightarrow> h_super"
  pa_kmalloc :: int
  pa_brs :: bool
  pa_root :: au_dinfo
  pa_bend :: bindex

definition AUFS_MFS_DEF_SEC :: int where "AUFS_MFS_DEF_SEC = 30"
definition AUFS_MFS_MAX_SEC :: int where "AUFS_MFS_MAX_SEC = 3600"
definition AUFS_RDCACHE_MAX :: int where "AUFS_RDCACHE_MAX = 3600"

definition udba_val :: "parse_env \<Rightarrow> string \<Rightarrow> int" where
  "udba_val e s = fst (pa_mt e s (udbalevel (pa_cfg e) (pa_oc e)))"

definition au_optstr_udba :: "kconfig \<Rightarrow> opt_config \<Rightarrow> int \<Rightarrow> string option" where
  "au_optstr_udba cfg oc udba = au_parser_pattern udba (fst (udbalevel cfg oc))"

definition au_match_ull :: "parse_env \<Rightarrow> string \<Rightarrow> int + u64" where
  "au_match_ull e s =
     (if length s + 1 \<le> 32 then case pa_ull e s of None \<Rightarrow> Inl (- EINVAL) | Some n \<Rightarrow> Inr n else Inl (- ERANGE))"

definition au_wbr_mfs_wmark :: "parse_env \<Rightarrow> string \<Rightarrow> opt_wbr_create \<Rightarrow> int \<times> opt_wbr_create" where
  "au_wbr_mfs_wmark e arg c =
     (case au_match_ull e arg of Inr n \<Rightarrow> (0, c\<lparr>owc_mfsrr_watermark := n\<rparr>) | Inl _ \<Rightarrow> (- EINVAL, c))"

definition au_wbr_mfs_sec :: "parse_env \<Rightarrow> string \<Rightarrow> opt_wbr_create \<Rightarrow> int \<times> opt_wbr_create" where
  "au_wbr_mfs_sec e arg c =
     (case pa_int e arg of
        Some n \<Rightarrow> if 0 \<le> n \<and> n \<le> AUFS_MFS_MAX_SEC then (0, c\<lparr>owc_mfs_second := n\<rparr>) else (- EINVAL, c)
      | None \<Rightarrow> (- EINVAL, c))"

text \<open>The caller stores the result in \<open>wbr_create\<close> again. Arguments that the pattern does not have are the fault.\<close>

definition au_wbr_create_val :: "parse_env \<Rightarrow> string \<Rightarrow> opt_wbr_create \<Rightarrow> (int \<times> opt_wbr_create) option" where
  "au_wbr_create_val e str c0 =
     (let (pol, args) = pa_mt e str au_wbr_create_policy; c = c0\<lparr>owc_wbr_create := pol\<rparr>
      in if pol = AuWbrCreate_MFSRRV \<or> pol = AuWbrCreate_PMFSRRV
         then Option.bind (arr_get args 0) (\<lambda>a0. Option.bind (arr_get args 1) (\<lambda>a1.
              let (err, c1) = au_wbr_mfs_wmark e a0 c;
                  (err2, c2) = (if err = 0 then au_wbr_mfs_sec e a1 c1 else (err, c1))
              in Some (if err2 \<noteq> 0 then err2 else pol, c2)))
         else if pol = AuWbrCreate_MFSRR \<or> pol = AuWbrCreate_PMFSRR
         then Option.bind (arr_get args 0) (\<lambda>a0.
              let (err, c1) = au_wbr_mfs_wmark e a0 c
              in Some (if err \<noteq> 0 then (err, c1) else (pol, c1\<lparr>owc_mfs_second := AUFS_MFS_DEF_SEC\<rparr>)))
         else if pol = AuWbrCreate_MFS \<or> pol = AuWbrCreate_PMFS
         then Some (pol, c\<lparr>owc_mfs_second := AUFS_MFS_DEF_SEC\<rparr>)
         else if pol = AuWbrCreate_MFSV \<or> pol = AuWbrCreate_PMFSV
         then Option.bind (arr_get args 0) (\<lambda>a0.
              let (err, c1) = au_wbr_mfs_sec e a0 c in Some (if err \<noteq> 0 then err else pol, c1))
         else Some (pol, c))"

definition au_optstr_wbr_create :: "int \<Rightarrow> string option" where
  "au_optstr_wbr_create pol = au_parser_pattern pol (fst au_wbr_create_policy)"

definition au_wbr_copyup_val :: "parse_env \<Rightarrow> string \<Rightarrow> int" where
  "au_wbr_copyup_val e s = fst (pa_mt e s au_wbr_copyup_policy)"

definition au_optstr_wbr_copyup :: "int \<Rightarrow> string option" where
  "au_optstr_wbr_copyup pol = au_parser_pattern pol (fst au_wbr_copyup_policy)"

section \<open>Options with a path\<close>

definition strchr_eq :: "string \<Rightarrow> string \<times> string option" where
  "strchr_eq s =
     (case dropWhile (\<lambda>c. c \<noteq> CHR ''='') s of
        [] \<Rightarrow> (s, None)
      | _ # r \<Rightarrow> (takeWhile (\<lambda>c. c \<noteq> CHR ''='') s, Some r))"

text \<open>
  The state of the parser: the array, the entry to fill, the index of the next branch, the VFS. A failed option
  leaves its union half written, which nobody reads.
\<close>

record parse_st =
  ps_opt :: "au_opt option list"
  ps_at :: nat
  ps_bindex :: bindex
  ps_v :: vfs

definition put_in :: "int \<Rightarrow> opt_arg \<Rightarrow> parse_st \<Rightarrow> parse_st option" where
  "put_in t x st = map_option (\<lambda>os. st\<lparr>ps_opt := os\<rparr>) (set_opt (ps_at st) t x (ps_opt st))"

text \<open>\<open>aufs_bindex_t\<close> has eight bits and a sign.\<close>

definition to_bindex :: "int \<Rightarrow> bindex" where "to_bindex n = sint (of_int n :: 8 word)"

text \<open>\<open>opt_add\<close> (\<open>struct au_opt_add\<close> has the name here), which sets the type to \<open>Opt_add\<close>; \<open>t\<close> is the type that the caller sets afterwards.\<close>

definition parse_opt_add :: "parse_env \<Rightarrow> bool \<Rightarrow> int \<Rightarrow> string \<Rightarrow> bindex \<Rightarrow> parse_st \<Rightarrow> (int \<times> parse_st) option" where
  "parse_opt_add e rdonly t opt_str bindex st =
     (let (path, p) = strchr_eq opt_str;
          perm = (case p of None \<Rightarrow> AuBrPerm_RO
                  | Some p \<Rightarrow> if p = [] then AuBrPerm_RO else br_perm_val (pa_cfg e) (pa_mt e) p)
      in case pa_path e path (ps_v st) of
           Inl _ \<Rightarrow> Some (- EINVAL, st)
         | Inr d \<Rightarrow>
             Option.bind (get_dentry d (ps_v st)) (\<lambda>v.
             Option.bind (dents v d) (\<lambda>x.
             let perm = (if p \<noteq> None then perm
                         else if au_test_fs_rr (pa_cfg e) (pa_magics e) (pa_super e (d_hsb x)) then AuBrPerm_RR
                         else if bindex = 0 \<and> \<not> rdonly then AuBrPerm_RW else AuBrPerm_RO)
             in map_option (Pair 0) (put_in t (Arg_add \<lparr>oa_bindex = bindex, oa_pathname = path, oa_perm = perm,
                  oa_dentry = d\<rparr>) (st\<lparr>ps_v := v\<rparr>)))))"

definition au_opts_parse_del :: "parse_env \<Rightarrow> string \<Rightarrow> parse_st \<Rightarrow> (int \<times> parse_st) option" where
  "au_opts_parse_del e path st =
     (case pa_path e path (ps_v st) of
        Inl err \<Rightarrow> Some (err, st)
      | Inr d \<Rightarrow> Option.bind (get_dentry d (ps_v st)) (\<lambda>v.
          map_option (Pair 0) (put_in Opt_del (Arg_del \<lparr>od_pathname = path, od_dentry = d\<rparr>) (st\<lparr>ps_v := v\<rparr>))))"

definition au_opts_parse_mod :: "parse_env \<Rightarrow> string \<Rightarrow> parse_st \<Rightarrow> (int \<times> parse_st) option" where
  "au_opts_parse_mod e arg st =
     (case strchr_eq arg of
        (_, None) \<Rightarrow> Some (- EINVAL, st)
      | (path, Some p) \<Rightarrow>
          (case pa_path e path (ps_v st) of
             Inl err \<Rightarrow> Some (err, st)
           | Inr d \<Rightarrow>
               Option.bind (get_dentry d (ps_v st)) (\<lambda>v1.
               Option.bind (get_dentry d v1) (\<lambda>v2.
               Option.bind (put_dentry d v2) (\<lambda>v3.
               map_option (Pair 0) (put_in Opt_mod (Arg_mod \<lparr>om_path = path,
                 om_perm = br_perm_val (pa_cfg e) (pa_mt e) p, om_h_root = d\<rparr>) (st\<lparr>ps_v := v3\<rparr>)))))))"

definition au_opts_parse_xino :: "parse_env \<Rightarrow> string \<Rightarrow> parse_st \<Rightarrow> (int \<times> parse_st) option" where
  "au_opts_parse_xino e path st =
     (case pa_xino e path (ps_v st) of
        Inl err \<Rightarrow> Some (err, st)
      | Inr (f, dir, inside) \<Rightarrow>
          let v = (ps_v st)\<lparr>files := (files (ps_v st))(f \<mapsto> 1)\<rparr>
          in if inside then map_option (\<lambda>v'. (- EINVAL, st\<lparr>ps_v := v'\<rparr>)) (put_file f v)
             else map_option (Pair 0) (put_in Opt_xino (Arg_xino path f dir) (st\<lparr>ps_v := v\<rparr>)))"

text \<open>The first branch whose root is the dentry, or -1.\<close>

fun find_root :: "au_dinfo \<Rightarrow> vfs \<Rightarrow> dptr \<Rightarrow> bindex list \<Rightarrow> bindex option" where
  "find_root root v d [] = Some (- 1)"
| "find_root root v d (b # bs) =
     Option.bind (au_h_dptr root v b) (\<lambda>h. if h = Some d then Some b else find_root root v d bs)"

definition au_opts_parse_xino_itrunc_path :: "parse_env \<Rightarrow> string \<Rightarrow> parse_st \<Rightarrow> (int \<times> parse_st) option" where
  "au_opts_parse_xino_itrunc_path e path st =
     (case pa_path e path (ps_v st) of
        Inl err \<Rightarrow> Some (err, st)
      | Inr d \<Rightarrow>
          Option.bind (get_dentry d (ps_v st)) (\<lambda>v1.
          Option.bind (find_root (pa_root e) v1 d [0..pa_bend e]) (\<lambda>b.
          Option.bind (put_dentry d v1) (\<lambda>v2.
          if b < 0 then Some (- EINVAL, st\<lparr>ps_v := v2\<rparr>)
          else map_option (Pair 0) (put_in Opt_trunc_xino_path (Arg_itrunc b) (st\<lparr>ps_v := v2\<rparr>))))))"

section \<open>Parsing\<close>

text \<open>The strings that \<open>strsep\<close> cuts off, up to the first empty one, where the loops end.\<close>

fun split_on :: "char \<Rightarrow> string \<Rightarrow> string list" where
  "split_on c [] = [[]]"
| "split_on c (x # xs) =
     (if x = c then [] # split_on c xs
      else case split_on c xs of [] \<Rightarrow> [[x]] | s # ss \<Rightarrow> (x # s) # ss)"

definition strsep_all :: "char \<Rightarrow> string \<Rightarrow> string list" where
  "strsep_all c s = takeWhile (\<lambda>t. t \<noteq> []) (split_on c s)"

text \<open>
  The loop for \<open>br\<close>: the branches of one option, each in an entry of its own. The first result is the error,
  the second \<open>skipped\<close>. When the array is full the loop leaves with the entry behind it.
\<close>

fun parse_br :: "parse_env \<Rightarrow> bool \<Rightarrow> string list \<Rightarrow> bool \<Rightarrow> parse_st \<Rightarrow> (int \<times> bool \<times> parse_st) option" where
  "parse_br e ro [] skipped st = Some (0, skipped, st)"
| "parse_br e ro (s # ss) skipped st =
     Option.bind (parse_opt_add e ro Opt_add s (ps_bindex st) st) (\<lambda>(err, st1).
     let st2 = st1\<lparr>ps_bindex := to_bindex (ps_bindex st1 + 1)\<rparr>
     in if err \<noteq> 0 then Some (err, skipped, st2)
        else let st3 = st2\<lparr>ps_at := ps_at st2 + 1\<rparr>
             in if length (ps_opt st3) \<le> ps_at st3 then Some (- E2BIG, skipped, st3)
                else Option.bind (set_type (ps_at st3) Opt_tail (ps_opt st3)) (\<lambda>os.
                     parse_br e ro ss True (st3\<lparr>ps_opt := os\<rparr>)))"

definition plain_tokens :: "int list" where
  "plain_tokens = [Opt_trunc_xino, Opt_notrunc_xino, Opt_noxino, Opt_trunc_xib, Opt_notrunc_xib, Opt_shwh, Opt_noshwh,
     Opt_dirperm1, Opt_nodirperm1, Opt_plink, Opt_noplink, Opt_list_plink, Opt_dio, Opt_nodio, Opt_diropq_a,
     Opt_diropq_w, Opt_warn_perm, Opt_nowarn_perm, Opt_refrof, Opt_norefrof, Opt_verbose, Opt_noverbose, Opt_sum,
     Opt_nosum, Opt_wsum, Opt_rdblk_def, Opt_rdhash_def, Opt_acl, Opt_noacl]"

definition put_plain :: "int \<Rightarrow> opt_arg \<Rightarrow> parse_st \<Rightarrow> (int \<times> bool \<times> parse_st) option" where
  "put_plain t x st = map_option (\<lambda>st'. (0, False, st')) (put_in t x st)"

text \<open>Options with a number; \<open>- EINVAL\<close> when it is none or out of range.\<close>

definition sizeof_hlist_head :: u32 where "sizeof_hlist_head = 4"

definition number_ok :: "parse_env \<Rightarrow> int \<Rightarrow> int \<Rightarrow> bool" where
  "number_ok e t n =
     (if t = Opt_itrunc_xino then 0 \<le> n \<and> n \<le> pa_bend e
      else if t = Opt_rdcache then n \<le> AUFS_RDCACHE_MAX
      else if t = Opt_rdblk then 0 \<le> n \<and> n \<le> pa_kmalloc e \<and> (n = 0 \<or> NAME_MAX \<le> n)
      else if t = Opt_rdhash then 0 \<le> n \<and> uint (of_int n * sizeof_hlist_head) \<le> pa_kmalloc e
      else if t = Opt_fhsm_sec then 0 \<le> n
      else True)"

definition parse_number :: "parse_env \<Rightarrow> int \<Rightarrow> string \<Rightarrow> parse_st \<Rightarrow> (int \<times> bool \<times> parse_st) option" where
  "parse_number e t arg st =
     (case pa_int e arg of
        None \<Rightarrow> Some (- EINVAL, False, st)
      | Some n \<Rightarrow>
          if \<not> number_ok e t n then Some (- EINVAL, False, st)
          else if t = Opt_itrunc_xino then put_plain t (Arg_itrunc n) st
          else if t = Opt_fhsm_sec \<and> \<not> pa_brs e then Some (0, False, st)
          else put_plain t (Arg_int n) st)"

text \<open>The \<open>switch\<close>: the error, \<open>skipped\<close>, the state.\<close>

definition parse_one :: "parse_env \<Rightarrow> bool \<Rightarrow> int \<Rightarrow> string list \<Rightarrow> parse_st \<Rightarrow> (int \<times> bool \<times> parse_st) option" where
  "parse_one e ro t args st =
     (let arg = arr_get args; one = map_option (\<lambda>(err, st'). (err, False, st'))
      in if t = Opt_br then Option.bind (arg 0) (\<lambda>s. parse_br e ro (strsep_all CHR '':'' s) False st)
      else if t = Opt_add
      then Option.bind (arg 0) (\<lambda>a0. Option.bind (arg 1) (\<lambda>a1.
           case pa_int e a0 of
             None \<Rightarrow> Some (- EINVAL, False, st)
           | Some n \<Rightarrow> one (parse_opt_add e ro t a1 (to_bindex n) (st\<lparr>ps_bindex := to_bindex n\<rparr>))))
      else if t = Opt_append then Option.bind (arg 0) (\<lambda>s. one (parse_opt_add e ro t s 1 st))
      else if t = Opt_prepend then Option.bind (arg 0) (\<lambda>s. one (parse_opt_add e ro t s 0 st))
      else if t = Opt_del then Option.bind (arg 0) (\<lambda>s. one (au_opts_parse_del e s st))
      else if t = Opt_mod then Option.bind (arg 0) (\<lambda>s. one (au_opts_parse_mod e s st))
      else if t = Opt_xino then Option.bind (arg 0) (\<lambda>s. one (au_opts_parse_xino e s st))
      else if t = Opt_trunc_xino_path then Option.bind (arg 0) (\<lambda>s. one (au_opts_parse_xino_itrunc_path e s st))
      else if t \<in> {Opt_itrunc_xino, Opt_dirwh, Opt_rdcache, Opt_rdblk, Opt_rdhash, Opt_fhsm_sec}
      then Option.bind (arg 0) (\<lambda>s. parse_number e t s st)
      else if t \<in> set plain_tokens then put_plain t Arg_none st
      else if t = Opt_udba
      then Option.bind (arg 0) (\<lambda>s.
           if 0 \<le> udba_val e s then put_plain t (Arg_int (udba_val e s)) st else Some (- EINVAL, False, st))
      else if t = Opt_wbr_create
      then Option.bind (arg 0) (\<lambda>s. Option.bind (au_wbr_create_val e s
             \<lparr>owc_wbr_create = 0, owc_mfs_second = 0, owc_mfsrr_watermark = 0\<rparr>) (\<lambda>(r, c).
           if 0 \<le> r then put_plain t (Arg_create (c\<lparr>owc_wbr_create := r\<rparr>)) st else Some (- EINVAL, False, st)))
      else if t = Opt_wbr_copyup
      then Option.bind (arg 0) (\<lambda>s.
           if 0 \<le> au_wbr_copyup_val e s then put_plain t (Arg_int (au_wbr_copyup_val e s)) st
           else Some (- EINVAL, False, st))
      else if t = Opt_ignore \<or> t = Opt_ignore_silent then Some (0, True, st)
      else Some (- EINVAL, False, st))"

fun parse_loop :: "parse_env \<Rightarrow> bool \<Rightarrow> string list \<Rightarrow> parse_st \<Rightarrow> (int \<times> parse_st) option" where
  "parse_loop e ro [] st = Some (0, st)"
| "parse_loop e ro (s # ss) st =
     (let (t, args) = pa_mt e s (options (pa_cfg e) (pa_oc e))
      in Option.bind (parse_one e ro t args st) (\<lambda>(err, skipped, st1).
         if err \<noteq> 0 then Some (err, st1)
         else if skipped then parse_loop e ro ss st1
         else if length (ps_opt st1) \<le> ps_at st1 + 1
         then map_option (\<lambda>os. (- E2BIG, st1\<lparr>ps_opt := os\<rparr>)) (set_type (ps_at st1) Opt_tail (ps_opt st1))
         else Option.bind (set_type (ps_at st1 + 1) Opt_tail (ps_opt st1)) (\<lambda>os.
              parse_loop e ro ss (st1\<lparr>ps_at := ps_at st1 + 1, ps_opt := os\<rparr>))))"

text \<open>
  \<open>au_opts_parse\<close>: the error, the options, the VFS. \<open>mem\<close> answers the allocation of the arguments. On an error
  the options are released, but not when that allocation failed.
\<close>

definition au_opts_parse :: "parse_env \<Rightarrow> bool \<Rightarrow> string \<Rightarrow> au_opts \<Rightarrow> vfs \<Rightarrow> (int \<times> au_opts \<times> vfs) option" where
  "au_opts_parse e alloc_ok str opts v =
     (if \<not> alloc_ok then Some (- ENOMEM, opts, v)
      else Option.bind (set_type 0 Opt_tail (op_opt opts)) (\<lambda>os.
           Option.bind (parse_loop e (op_rdonly opts) (strsep_all CHR '','' str)
                          \<lparr>ps_opt = os, ps_at = 0, ps_bindex = 0, ps_v = v\<rparr>) (\<lambda>(err, st).
           let opts' = opts\<lparr>op_opt := ps_opt st\<rparr>
           in if err \<noteq> 0 then map_option (\<lambda>v'. (err, opts', v')) (au_opts_free (ps_opt st) (ps_v st))
              else Some (0, opts', ps_v st))))"

end
