(* ===== verification/Opts_Parse.thy ===== *)
theory Opts_Parse
  imports Opts
begin

text \<open>
  What the parser of the options does with the references it takes: every option that is given holds
  the path or file it names, an error gives all of them back, and so does \<open>au_opts_free\<close> later. This needs room in
  the array, and no entry that is left empty in the middle; Opts_Faults shows what happens otherwise.
\<close>

section \<open>The references of the options\<close>

definition opt_dref :: "au_opt \<Rightarrow> dptr option" where
  "opt_dref x = (case ot_arg x of
      Arg_add a \<Rightarrow> Some (oa_dentry a) | Arg_del a \<Rightarrow> Some (od_dentry a) | Arg_mod a \<Rightarrow> Some (om_h_root a) | _ \<Rightarrow> None)"

definition opt_fref :: "au_opt \<Rightarrow> fptr option" where
  "opt_fref x = (case ot_arg x of Arg_xino _ f _ \<Rightarrow> Some f | _ \<Rightarrow> None)"

text \<open>The type agrees with the union.\<close>

definition opt_good :: "au_opt \<Rightarrow> bool" where
  "opt_good x \<longleftrightarrow> ot_type x \<noteq> Opt_tail \<and>
     (case ot_arg x of
        Arg_add _ \<Rightarrow> ot_type x \<in> {Opt_add, Opt_append, Opt_prepend}
      | Arg_del _ \<Rightarrow> ot_type x = Opt_del
      | Arg_mod _ \<Rightarrow> ot_type x = Opt_mod
      | Arg_xino _ _ _ \<Rightarrow> ot_type x = Opt_xino
      | _ \<Rightarrow> ot_type x \<notin> {Opt_add, Opt_append, Opt_prepend, Opt_del, Opt_idel, Opt_mod, Opt_imod, Opt_xino})"

text \<open>The options up to the tail.\<close>

fun given :: "au_opt option list \<Rightarrow> au_opt list" where
  "given [] = []"
| "given (None # os) = []"
| "given (Some x # os) = (if ot_type x = Opt_tail then [] else x # given os)"

definition f_cnt :: "vfs \<Rightarrow> fptr \<Rightarrow> int" where
  "f_cnt v f = (case files v f of None \<Rightarrow> 0 | Some n \<Rightarrow> n)"

text \<open>The VFS has the references of \<open>v0\<close> and those of the options.\<close>

definition holding :: "vfs \<Rightarrow> au_opt list \<Rightarrow> vfs \<Rightarrow> bool" where
  "holding v0 xs v \<longleftrightarrow>
     (\<forall>d. d_refs v d = map_option (\<lambda>n. n + held (map opt_dref xs) d) (d_refs v0 d))
     \<and> (\<forall>f. f_cnt v f = f_cnt v0 f + held (map opt_fref xs) f) \<and> inos v = inos v0"

definition counts_ok :: "vfs \<Rightarrow> bool" where
  "counts_ok v \<longleftrightarrow> (\<forall>d n. d_refs v d = Some n \<longrightarrow> 0 \<le> n) \<and> (\<forall>f. 0 \<le> f_cnt v f)"

lemma holding_refl: "holding v [] v"
  by (simp add: holding_def option.map_ident)

lemma put_dentry_holding:
  assumes "holding v0 (x # xs) v" and "counts_ok v0" and "d_refs v0 d \<noteq> None" and "opt_dref x = Some d" "opt_fref x = None"
  shows "\<exists>v'. put_dentry d v = Some v' \<and> holding v0 xs v'"
proof -
  note h = assms(1) [unfolded holding_def]
  obtain n where n: "d_refs v0 d = Some n" "0 \<le> n" using assms(2,3) by (auto simp: counts_ok_def)
  have "d_refs v d = Some (n + (held (map opt_dref xs) d + 1))" using h n assms(4) by simp
  then obtain y where y: "dents v d = Some y" "d_count y = n + (held (map opt_dref xs) d + 1)"
    by (auto simp: d_refs_def)
  have pos: "0 < d_count y" using y n held_nonneg [of "map opt_dref xs" d] by linarith
  let ?v = "v\<lparr>dents := (dents v)(d \<mapsto> y\<lparr>d_count := d_count y - 1\<rparr>)\<rparr>"
  have put: "put_dentry d v = Some ?v" using y pos by (simp add: put_dentry_def)
  have "d_refs ?v p = map_option (\<lambda>n. n + held (map opt_dref xs) p) (d_refs v0 p)" for p
  proof (cases "p = d")
    case True
    have "d_refs ?v d = Some (d_count y - 1)" by (simp add: d_refs_def)
    then show ?thesis using True y n by simp
  next
    case False
    then have "d_refs ?v p = d_refs v p" by (simp add: d_refs_def)
    then show ?thesis using h assms(4) False by simp
  qed
  moreover have "f_cnt ?v f = f_cnt v f" for f by (simp add: f_cnt_def)
  ultimately have "holding v0 xs ?v" using h assms(5) by (simp add: holding_def)
  then show ?thesis using put by blast
qed

lemma put_file_holding:
  assumes "holding v0 (x # xs) v" and "counts_ok v0" and "opt_fref x = Some f" "opt_dref x = None"
  shows "\<exists>v'. put_file f v = Some v' \<and> holding v0 xs v'"
proof -
  note h = assms(1) [unfolded holding_def]
  have c: "f_cnt v f = f_cnt v0 f + (held (map opt_fref xs) f + 1)" "0 \<le> f_cnt v0 f"
    using h assms(2,3) by (simp_all add: counts_ok_def)
  then have pos: "0 < f_cnt v f" using held_nonneg [of "map opt_fref xs" f] by linarith
  then obtain n where n: "files v f = Some n" "f_cnt v f = n" by (auto simp: f_cnt_def split: option.splits)
  let ?v = "v\<lparr>files := (files v)(f \<mapsto> n - 1)\<rparr>"
  have put: "put_file f v = Some ?v" using n pos by (simp add: put_file_def)
  have "f_cnt ?v p = f_cnt v0 p + held (map opt_fref xs) p" for p
  proof (cases "p = f")
    case True
    have "f_cnt ?v f = n - 1" by (simp add: f_cnt_def)
    then show ?thesis using True c n by simp
  next
    case False
    then have "f_cnt ?v p = f_cnt v p" by (simp add: f_cnt_def)
    then show ?thesis using h assms(3) False by simp
  qed
  moreover have "d_refs ?v d = d_refs v d" for d by (simp add: d_refs_def)
  ultimately have "holding v0 xs ?v" using h assms(4) by (simp add: holding_def)
  then show ?thesis using put by blast
qed

lemma holding_same:
  assumes "holding v0 xs v" "map opt_dref xs = map opt_dref ys" "map opt_fref xs = map opt_fref ys"
  shows "holding v0 ys v"
  using assms by (simp add: holding_def)

lemma put_opt_holding:
  assumes h: "holding v0 (x # xs) v" and ok: "counts_ok v0" and g: "opt_good x"
    and d: "\<And>d. opt_dref x = Some d \<Longrightarrow> d_refs v0 d \<noteq> None"
  shows "\<exists>v'. put_opt x v = Some v' \<and> holding v0 xs v'"
proof (cases "ot_arg x")
  case (Arg_add a)
  then have "\<exists>v'. put_dentry (oa_dentry a) v = Some v' \<and> holding v0 xs v'"
    by (intro put_dentry_holding [OF h ok d]) (simp_all add: opt_dref_def opt_fref_def)
  then show ?thesis using g Arg_add by (auto simp: opt_good_def put_opt_def)
next
  case (Arg_del a)
  then have "\<exists>v'. put_dentry (od_dentry a) v = Some v' \<and> holding v0 xs v'"
    by (intro put_dentry_holding [OF h ok d]) (simp_all add: opt_dref_def opt_fref_def)
  then show ?thesis using g Arg_del by (auto simp: opt_good_def put_opt_def opt_token_defs)
next
  case (Arg_mod a)
  then have "\<exists>v'. put_dentry (om_h_root a) v = Some v' \<and> holding v0 xs v'"
    by (intro put_dentry_holding [OF h ok d]) (simp_all add: opt_dref_def opt_fref_def)
  then show ?thesis using g Arg_mod by (auto simp: opt_good_def put_opt_def opt_token_defs)
next
  case (Arg_xino p f dir)
  then have "\<exists>v'. put_file f v = Some v' \<and> holding v0 xs v'"
    by (intro put_file_holding [OF h ok]) (simp_all add: opt_dref_def opt_fref_def)
  then show ?thesis using g Arg_xino by (auto simp: opt_good_def put_opt_def opt_token_defs)
qed (use g h in \<open>auto simp: opt_good_def put_opt_def holding_def opt_dref_def opt_fref_def\<close>)

text \<open>Releasing all of them.\<close>

lemma free_holding:
  assumes "holding v0 xs v" and "counts_ok v0" and "list_all opt_good xs"
    and "\<And>x d. x \<in> set xs \<Longrightarrow> opt_dref x = Some d \<Longrightarrow> d_refs v0 d \<noteq> None" and "ot_type z = Opt_tail"
  shows "\<exists>v'. au_opts_free (map Some xs @ Some z # rest) v = Some v' \<and> holding v0 [] v'"
  using assms
proof (induction xs arbitrary: v)
  case (Cons x xs)
  obtain v1 where v1: "put_opt x v = Some v1" "holding v0 xs v1"
    using put_opt_holding [OF Cons.prems(1,2), of] Cons.prems(3,4) by auto
  then obtain v2 where "au_opts_free (map Some xs @ Some z # rest) v1 = Some v2" "holding v0 [] v2"
    using Cons.IH [OF v1(2) Cons.prems(2)] Cons.prems(3-5) by auto
  then show ?case using v1(1) Cons.prems(3) by (auto simp: opt_good_def)
qed simp

lemma given_append: "list_all opt_good xs \<Longrightarrow> ot_type z = Opt_tail \<Longrightarrow> given (map Some xs @ Some z # rest) = xs"
  by (induction xs) (auto simp: opt_good_def)

section \<open>What is asked for\<close>

definition pattern_args :: "string \<Rightarrow> nat" where "pattern_args p = count_list p CHR ''%''"

text \<open>
  \<open>match_token\<close> answers the end of the table, or an entry with as many arguments as its pattern has. Paths that are
  found name dentries; a file that is created is new; errors are not 0; the table of the root can be read.
\<close>

definition parse_env_ok :: "parse_env \<Rightarrow> vfs \<Rightarrow> bool" where
  "parse_env_ok e v0 \<longleftrightarrow>
     (\<forall>s tbl t args. pa_mt e s tbl = (t, args) \<longrightarrow> t \<noteq> snd tbl \<longrightarrow>
        (\<exists>p. (t, p) \<in> set (fst tbl) \<and> length args = pattern_args p))
     \<and> (\<forall>p v d. pa_path e p v = Inr d \<longrightarrow> d_refs v0 d \<noteq> None) \<and> (\<forall>p v. pa_path e p v \<noteq> Inl 0)
     \<and> (\<forall>p v f x. pa_xino e p v = Inr (f, x) \<longrightarrow> f_cnt v f = 0) \<and> (\<forall>p v. pa_xino e p v \<noteq> Inl 0)
     \<and> counts_ok v0 \<and> (\<forall>b. 0 \<le> b \<longrightarrow> b \<le> pa_bend e \<longrightarrow> au_h_dptr (pa_root e) v0 b \<noteq> None)"

definition filling :: "nat \<Rightarrow> vfs \<Rightarrow> au_opt list \<Rightarrow> parse_st \<Rightarrow> bool" where
  "filling n v0 xs st \<longleftrightarrow> length (ps_opt st) = n \<and> ps_at st = length xs \<and> list_all opt_good xs
     \<and> (\<forall>x\<in>set xs. \<forall>d. opt_dref x = Some d \<longrightarrow> d_refs v0 d \<noteq> None) \<and> holding v0 xs (ps_v st)
     \<and> (\<exists>z rest. ps_opt st = map Some xs @ Some z # rest \<and> ot_type z = Opt_tail)"

text \<open>The entry is written, but the next is not yet the tail.\<close>

definition filled :: "nat \<Rightarrow> vfs \<Rightarrow> au_opt list \<Rightarrow> parse_st \<Rightarrow> bool" where
  "filled n v0 xs st \<longleftrightarrow> length (ps_opt st) = n \<and> ps_at st + 1 = length xs \<and> list_all opt_good xs
     \<and> (\<forall>x\<in>set xs. \<forall>d. opt_dref x = Some d \<longrightarrow> d_refs v0 d \<noteq> None) \<and> holding v0 xs (ps_v st)
     \<and> (\<exists>rest. ps_opt st = map Some xs @ rest)"

lemma held_snoc: "held (ps @ [q]) p = held (q # ps) p"
  by (cases q) simp_all

lemma put_in_ok:
  assumes "filling n v0 xs st" and "opt_good x" and "x = \<lparr>ot_type = t, ot_arg = a\<rparr>"
    and "holding v0 (x # xs) v" and "\<And>d. opt_dref x = Some d \<Longrightarrow> d_refs v0 d \<noteq> None"
  shows "\<exists>st'. put_in t a (st\<lparr>ps_v := v\<rparr>) = Some st' \<and> filled n v0 (xs @ [x]) st' \<and> ps_bindex st' = ps_bindex st"
proof -
  obtain z rest where s: "ps_opt st = map Some xs @ Some z # rest" "ps_at st = length xs" "length (ps_opt st) = n"
    using assms(1) by (auto simp: filling_def)
  have "holding v0 (xs @ [x]) v" using assms(4) by (simp add: holding_def held_snoc del: held_append)
  then show ?thesis using assms(1,2,5) s
    by (auto simp: put_in_def set_opt_def filled_def filling_def assms(3) list_update_append)
qed

lemma filled_tail:
  assumes "filled n v0 xs st" and "length xs < n"
  shows "\<exists>os. set_type (ps_at st + 1) Opt_tail (ps_opt st) = Some os
    \<and> filling n v0 xs (st\<lparr>ps_at := ps_at st + 1, ps_opt := os\<rparr>)"
proof -
  obtain rest where s: "ps_opt st = map Some xs @ rest" "length (ps_opt st) = n" "ps_at st + 1 = length xs"
    using assms(1) by (auto simp: filled_def)
  then obtain y ys where r: "rest = y # ys" using assms(2) by (cases rest) auto
  let ?z = "case y of None \<Rightarrow> \<lparr>ot_type = Opt_tail, ot_arg = Arg_none\<rparr> | Some x \<Rightarrow> x\<lparr>ot_type := Opt_tail\<rparr>"
  have t: "ot_type ?z = Opt_tail" by (simp split: option.splits)
  have e: "set_type (ps_at st + 1) Opt_tail (ps_opt st) = Some (map Some xs @ Some ?z # ys)"
    using s r assms(2) by (simp add: set_type_def list_update_append nth_append)
  then show ?thesis using assms(1) s r t by (auto simp: filled_def filling_def)
qed

lemma get_holding:
  assumes h: "holding v0 xs v" and d: "d_refs v0 d \<noteq> None" and x: "opt_dref x = Some d" "opt_fref x = None"
  shows "\<exists>v'. get_dentry d v = Some v' \<and> holding v0 (x # xs) v' \<and> dents v' d \<noteq> None"
proof -
  note hh = h [unfolded holding_def]
  obtain n where n: "d_refs v0 d = Some n" using d by blast
  then have "d_refs v d = Some (n + held (map opt_dref xs) d)" using hh by simp
  then obtain y where y: "dents v d = Some y" "d_count y = n + held (map opt_dref xs) d" by (auto simp: d_refs_def)
  let ?v = "v\<lparr>dents := (dents v)(d \<mapsto> y\<lparr>d_count := d_count y + 1\<rparr>)\<rparr>"
  have get: "get_dentry d v = Some ?v" using y by (simp add: get_dentry_def)
  have "d_refs ?v p = map_option (\<lambda>n. n + held (map opt_dref (x # xs)) p) (d_refs v0 p)" for p
  proof (cases "p = d")
    case True
    have "d_refs ?v d = Some (d_count y + 1)" by (simp add: d_refs_def)
    then show ?thesis using True y n x by simp
  next
    case False
    then have "d_refs ?v p = d_refs v p" by (simp add: d_refs_def)
    then show ?thesis using hh x False by simp
  qed
  moreover have "f_cnt ?v f = f_cnt v f" for f by (simp add: f_cnt_def)
  ultimately have "holding v0 (x # xs) ?v" using hh x by (simp add: holding_def)
  then show ?thesis using get by simp
qed

section \<open>Each option\<close>

definition stepped :: "nat \<Rightarrow> vfs \<Rightarrow> au_opt list \<Rightarrow> (int \<times> parse_st) option \<Rightarrow> bool" where
  "stepped n v0 xs r \<longleftrightarrow> (\<exists>err st'. r = Some (err, st') \<and>
     (if err = 0 then \<exists>x. filled n v0 (xs @ [x]) st' else filling n v0 xs st'))"

lemma filling_bindex [simp]: "filling n v0 xs (st\<lparr>ps_bindex := b\<rparr>) = filling n v0 xs st"
  by (simp add: filling_def)

lemma filling_holding: "filling n v0 xs st \<Longrightarrow> holding v0 xs (ps_v st)"
  by (simp add: filling_def)

lemma filling_v: "filling n v0 xs st \<Longrightarrow> holding v0 xs v \<Longrightarrow> filling n v0 xs (st\<lparr>ps_v := v\<rparr>)"
  by (simp add: filling_def)

lemma env_path: "parse_env_ok e v0 \<Longrightarrow> pa_path e p v = Inr d \<Longrightarrow> d_refs v0 d \<noteq> None"
    and env_counts: "parse_env_ok e v0 \<Longrightarrow> counts_ok v0"
    and env_errs: "parse_env_ok e v0 \<Longrightarrow> pa_path e p v = Inl err \<Longrightarrow> err \<noteq> 0"
      "parse_env_ok e v0 \<Longrightarrow> pa_xino e p v = Inl err \<Longrightarrow> err \<noteq> 0"
    and env_new: "parse_env_ok e v0 \<Longrightarrow> pa_xino e p v = Inr (f, x) \<Longrightarrow> f_cnt v f = 0"
  unfolding parse_env_ok_def by (elim conjE, metis)+

lemma put_stepped:
  assumes "filling n v0 xs st" and "opt_good \<lparr>ot_type = t, ot_arg = a\<rparr>"
    and "holding v0 (\<lparr>ot_type = t, ot_arg = a\<rparr> # xs) v"
    and "\<And>d. opt_dref \<lparr>ot_type = t, ot_arg = a\<rparr> = Some d \<Longrightarrow> d_refs v0 d \<noteq> None"
  shows "stepped n v0 xs (map_option (Pair 0) (put_in t a (st\<lparr>ps_v := v\<rparr>)))"
  using put_in_ok [OF assms(1,2) refl assms(3,4)] by (auto simp: stepped_def)

lemma parse_opt_add_ok:
  assumes f: "filling n v0 xs st" and e: "parse_env_ok e v0" and t: "t \<in> {Opt_add, Opt_append, Opt_prepend}"
  shows "stepped n v0 xs (parse_opt_add e ro t s b st)"
proof -
  obtain path p where s: "strchr_eq s = (path, p)" by fastforce
  show ?thesis
  proof (cases "pa_path e path (ps_v st)")
    case (Inl err)
    then show ?thesis using f s by (simp add: parse_opt_add_def stepped_def)
  next
    case (Inr d)
    have d: "d_refs v0 d \<noteq> None" by (rule env_path [OF e Inr])
    define mk where "mk = (\<lambda>perm. \<lparr>ot_type = t, ot_arg = Arg_add \<lparr>oa_bindex = b, oa_pathname = path, oa_perm = perm, oa_dentry = d\<rparr>\<rparr>)"
    obtain v where v: "get_dentry d (ps_v st) = Some v" "holding v0 (mk 0 # xs) v" "dents v d \<noteq> None"
      using get_holding [OF filling_holding [OF f] d, of "mk 0"] by (auto simp: mk_def opt_dref_def opt_fref_def)
    obtain x where x: "dents v d = Some x" using v(3) by blast
    have "holding v0 (mk perm # xs) v" for perm
      by (rule holding_same [OF v(2)]) (simp_all add: mk_def opt_dref_def opt_fref_def)
    then have "stepped n v0 xs (map_option (Pair 0) (put_in t (Arg_add \<lparr>oa_bindex = b, oa_pathname = path, oa_perm = perm,
        oa_dentry = d\<rparr>) (st\<lparr>ps_v := v\<rparr>)))" for perm
      by (intro put_stepped [OF f]) (use t d in \<open>auto simp: mk_def opt_good_def opt_dref_def opt_token_defs\<close>)
    then show ?thesis using s Inr v(1) x by (simp add: parse_opt_add_def Let_def)
  qed
qed

lemma parse_del_ok:
  assumes f: "filling n v0 xs st" and e: "parse_env_ok e v0"
  shows "stepped n v0 xs (au_opts_parse_del e path st)"
proof (cases "pa_path e path (ps_v st)")
  case (Inl err)
  then show ?thesis using f env_errs(1) [OF e Inl] by (simp add: au_opts_parse_del_def stepped_def)
next
  case (Inr d)
  have d: "d_refs v0 d \<noteq> None" by (rule env_path [OF e Inr])
  let ?x = "\<lparr>ot_type = Opt_del, ot_arg = Arg_del \<lparr>od_pathname = path, od_dentry = d\<rparr>\<rparr>"
  obtain v where v: "get_dentry d (ps_v st) = Some v" "holding v0 (?x # xs) v"
    using get_holding [OF filling_holding [OF f] d, of ?x] by (auto simp: opt_dref_def opt_fref_def)
  have "stepped n v0 xs (map_option (Pair 0) (put_in Opt_del (Arg_del \<lparr>od_pathname = path, od_dentry = d\<rparr>) (st\<lparr>ps_v := v\<rparr>)))"
    by (rule put_stepped [OF f _ v(2)]) (use d in \<open>simp_all add: opt_good_def opt_dref_def opt_token_defs\<close>)
  then show ?thesis using Inr v(1) by (simp add: au_opts_parse_del_def)
qed

text \<open>A reference that is taken and given back at once.\<close>

lemma got_put_holding:
  assumes h: "holding v0 xs v" and c: "counts_ok v0" and d: "d_refs v0 d \<noteq> None"
  shows "\<exists>v1 v2. get_dentry d v = Some v1 \<and> put_dentry d v1 = Some v2 \<and> holding v0 xs v2
    \<and> (\<exists>x. opt_dref x = Some d \<and> holding v0 (x # xs) v1)"
proof -
  define x where "x = \<lparr>ot_type = Opt_del, ot_arg = Arg_del \<lparr>od_pathname = [], od_dentry = d\<rparr>\<rparr>"
  have x: "opt_dref x = Some d" "opt_fref x = None" by (simp_all add: x_def opt_dref_def opt_fref_def)
  obtain v1 where v1: "get_dentry d v = Some v1" "holding v0 (x # xs) v1"
    using get_holding [OF h d x] by blast
  obtain v2 where "put_dentry d v1 = Some v2" "holding v0 xs v2"
    using put_dentry_holding [OF v1(2) c d x] by blast
  then show ?thesis using v1 x(1) by blast
qed

lemma parse_mod_ok:
  assumes f: "filling n v0 xs st" and e: "parse_env_ok e v0"
  shows "stepped n v0 xs (au_opts_parse_mod e arg st)"
proof -
  obtain path p where s: "strchr_eq arg = (path, p)" by fastforce
  show ?thesis
  proof (cases p)
    case None
    then show ?thesis using f s by (simp add: au_opts_parse_mod_def stepped_def)
  next
    case (Some q)
    show ?thesis
    proof (cases "pa_path e path (ps_v st)")
      case (Inl err)
      then show ?thesis using f s Some env_errs(1) [OF e Inl] by (simp add: au_opts_parse_mod_def stepped_def)
    next
      case (Inr d)
      have d: "d_refs v0 d \<noteq> None" by (rule env_path [OF e Inr])
      let ?a = "Arg_mod \<lparr>om_path = path, om_perm = br_perm_val (pa_cfg e) (pa_mt e) q, om_h_root = d\<rparr>"
      let ?x = "\<lparr>ot_type = Opt_mod, ot_arg = ?a\<rparr>"
      obtain v1 where v1: "get_dentry d (ps_v st) = Some v1" "holding v0 (?x # xs) v1"
        using get_holding [OF filling_holding [OF f] d, of ?x] by (auto simp: opt_dref_def opt_fref_def)
      obtain v2 v3 where v3: "get_dentry d v1 = Some v2" "put_dentry d v2 = Some v3" "holding v0 (?x # xs) v3"
        using got_put_holding [OF v1(2) env_counts [OF e] d] by blast
      have "stepped n v0 xs (map_option (Pair 0) (put_in Opt_mod ?a (st\<lparr>ps_v := v3\<rparr>)))"
        by (rule put_stepped [OF f _ v3(3)]) (use d in \<open>simp_all add: opt_good_def opt_dref_def opt_token_defs\<close>)
      then show ?thesis using s Some Inr v1(1) v3(1,2) by (simp add: au_opts_parse_mod_def)
    qed
  qed
qed

lemma h_dptr_holding:
  assumes h: "holding v0 xs v" and r: "au_h_dptr di v0 b \<noteq> None"
  shows "au_h_dptr di v b \<noteq> None"
proof (cases "Option.bind (arr_get (di_hdentry di) b) hd_dentry")
  case None
  then show ?thesis using r by (cases "arr_get (di_hdentry di) b") (auto simp: au_h_dptr_def split: if_splits)
next
  case (Some d)
  then obtain h' where h': "arr_get (di_hdentry di) b = Some h'" "hd_dentry h' = Some d" by (auto simp: bind_eq_Some_conv)
  show ?thesis
  proof (cases "au_dbstart di < 0 \<or> b < au_dbstart di")
    case True
    then show ?thesis by (auto simp: au_h_dptr_def)
  next
    case False
    then obtain y where y: "dents v0 d = Some y" "0 < d_count y"
      using r h' by (auto simp: au_h_dptr_def split: option.splits if_splits)
    then have "d_refs v d = Some (d_count y + held (map opt_dref xs) d)"
      using h by (simp add: holding_def d_refs_def [of v0])
    then obtain z where z: "dents v d = Some z" "d_count z = d_count y + held (map opt_dref xs) d" by (auto simp: d_refs_def)
    have "0 < d_count z" using y(2) z(2) held_nonneg [of "map opt_dref xs" d] by linarith
    then show ?thesis using False h' z(1) by (simp add: au_h_dptr_def)
  qed
qed

lemma find_root_ok:
  assumes "\<And>b. b \<in> set bs \<Longrightarrow> au_h_dptr di v b \<noteq> None"
  shows "\<exists>b. find_root di v d bs = Some b"
  using assms
proof (induction bs)
  case (Cons b bs)
  obtain h where "au_h_dptr di v b = Some h" using Cons.prems [of b] by auto
  then show ?case using Cons by (cases "h = Some d") auto
qed simp

lemma parse_itrunc_path_ok:
  assumes f: "filling n v0 xs st" and e: "parse_env_ok e v0"
  shows "stepped n v0 xs (au_opts_parse_xino_itrunc_path e path st)"
proof (cases "pa_path e path (ps_v st)")
  case (Inl err)
  then show ?thesis using f env_errs(1) [OF e Inl] by (simp add: au_opts_parse_xino_itrunc_path_def stepped_def)
next
  case (Inr d)
  have d: "d_refs v0 d \<noteq> None" by (rule env_path [OF e Inr])
  obtain v1 v2 x where v: "get_dentry d (ps_v st) = Some v1" "put_dentry d v1 = Some v2" "holding v0 xs v2" "holding v0 (x # xs) v1"
    using got_put_holding [OF filling_holding [OF f] env_counts [OF e] d] by blast
  have "\<forall>b. 0 \<le> b \<longrightarrow> b \<le> pa_bend e \<longrightarrow> au_h_dptr (pa_root e) v0 b \<noteq> None"
    using e unfolding parse_env_ok_def by (elim conjE) assumption
  then obtain b where b: "find_root (pa_root e) v1 d [0..pa_bend e] = Some b"
    using find_root_ok [of "[0..pa_bend e]" "pa_root e" v1 d] h_dptr_holding [OF v(4)] by fastforce
  have "stepped n v0 xs (map_option (Pair 0) (put_in Opt_trunc_xino_path (Arg_itrunc b) (st\<lparr>ps_v := v2\<rparr>)))"
  proof (rule put_stepped [OF f])
    show "holding v0 (\<lparr>ot_type = Opt_trunc_xino_path, ot_arg = Arg_itrunc b\<rparr> # xs) v2"
      using v(3) by (simp add: holding_def opt_dref_def opt_fref_def)
  qed (simp_all add: opt_good_def opt_dref_def opt_token_defs)
  then show ?thesis using Inr v(1,2) b filling_v [OF f v(3)]
    by (simp add: au_opts_parse_xino_itrunc_path_def stepped_def)
qed

lemma parse_xino_ok:
  assumes f: "filling n v0 xs st" and e: "parse_env_ok e v0"
  shows "stepped n v0 xs (au_opts_parse_xino e path st)"
proof (cases "pa_xino e path (ps_v st)")
  case (Inl err)
  then show ?thesis using f env_errs(2) [OF e Inl] by (simp add: au_opts_parse_xino_def stepped_def)
next
  case (Inr y)
  obtain fl dir inside where y: "y = (fl, dir, inside)" by (cases y)
  let ?v = "(ps_v st)\<lparr>files := (files (ps_v st))(fl \<mapsto> 1)\<rparr>" and ?x = "\<lparr>ot_type = Opt_xino, ot_arg = Arg_xino path fl dir\<rparr>"
  have new: "f_cnt (ps_v st) fl = 0" by (rule env_new [OF e]) (use Inr y in simp)
  note h = filling_holding [OF f, unfolded holding_def]
  have x: "opt_dref ?x = None" "opt_fref ?x = Some fl" by (simp_all add: opt_dref_def opt_fref_def)
  have "f_cnt ?v p = f_cnt v0 p + held (map opt_fref (?x # xs)) p" for p
  proof (cases "p = fl")
    case True
    have "f_cnt ?v fl = 1" by (simp add: f_cnt_def)
    then show ?thesis using True new h x by simp
  next
    case False
    then have "f_cnt ?v p = f_cnt (ps_v st) p" by (simp add: f_cnt_def)
    then show ?thesis using h x False by simp
  qed
  moreover have "d_refs ?v d = d_refs (ps_v st) d" for d by (simp add: d_refs_def)
  ultimately have hold: "holding v0 (?x # xs) ?v" using h x by (simp add: holding_def)
  show ?thesis
  proof (cases inside)
    case True
    obtain v' where "put_file fl ?v = Some v'" "holding v0 xs v'"
      using put_file_holding [OF hold env_counts [OF e] x(2,1)] by blast
    then show ?thesis using Inr y True filling_v [OF f]
      by (simp add: au_opts_parse_xino_def stepped_def)
  next
    case False
    have "stepped n v0 xs (map_option (Pair 0) (put_in Opt_xino (Arg_xino path fl dir) (st\<lparr>ps_v := ?v\<rparr>)))"
      by (rule put_stepped [OF f _ hold]) (simp_all add: opt_good_def opt_dref_def opt_token_defs)
    then show ?thesis using Inr y False by (simp add: au_opts_parse_xino_def)
  qed
qed


section \<open>The arguments of the tokens\<close>

definition args_needed :: "int \<Rightarrow> nat" where
  "args_needed t = (if t = Opt_add then 2
     else if t \<in> {Opt_br, Opt_append, Opt_prepend, Opt_del, Opt_mod, Opt_xino, Opt_trunc_xino_path, Opt_itrunc_xino,
       Opt_dirwh, Opt_rdcache, Opt_rdblk, Opt_rdhash, Opt_fhsm_sec, Opt_udba, Opt_wbr_create, Opt_wbr_copyup}
     then 1 else 0)"

lemma options_args: "list_all (\<lambda>(t, p). args_needed t \<le> pattern_args p) (fst (options cfg oc))"
  by (simp add: options_def args_needed_def opt_token_defs pattern_args_def)

lemma token_args:
  assumes e: "parse_env_ok e v0" and m: "pa_mt e s (options (pa_cfg e) (pa_oc e)) = (t, args)"
  shows "args_needed t \<le> length args"
proof (cases "t = Opt_err")
  case True
  then show ?thesis by (simp add: args_needed_def opt_token_defs)
next
  case False
  have "\<forall>s tbl t args. pa_mt e s tbl = (t, args) \<longrightarrow> t \<noteq> snd tbl \<longrightarrow>
        (\<exists>p. (t, p) \<in> set (fst tbl) \<and> length args = pattern_args p)"
    using e unfolding parse_env_ok_def by (elim conjE) assumption
  moreover have "snd (options (pa_cfg e) (pa_oc e)) = Opt_err" by (simp add: options_def)
  ultimately obtain p where "(t, p) \<in> set (fst (options (pa_cfg e) (pa_oc e)))" "length args = pattern_args p"
    using m False by blast
  then show ?thesis using options_args [of "pa_cfg e" "pa_oc e"] by (auto simp: list_all_iff)
qed

lemma arg_first: "1 \<le> length args \<Longrightarrow> arr_get args 0 = Some (args ! 0)"
    and arg_second: "2 \<le> length args \<Longrightarrow> arr_get args 1 = Some (args ! 1)"
  by (auto simp: arr_get_def)

definition policy_args :: "int \<Rightarrow> nat" where
  "policy_args t = (if t \<in> {AuWbrCreate_MFSRRV, AuWbrCreate_PMFSRRV} then 2
    else if t \<in> {AuWbrCreate_MFSRR, AuWbrCreate_PMFSRR, AuWbrCreate_MFSV, AuWbrCreate_PMFSV} then 1 else 0)"

lemma create_args: "list_all (\<lambda>(t, p). policy_args t \<le> pattern_args p) (fst au_wbr_create_policy)"
  by (simp add: au_wbr_create_policy_def policy_args_def wbr_id_defs pattern_args_def)

lemma create_val_some:
  assumes e: "parse_env_ok e v0"
  shows "au_wbr_create_val e s c \<noteq> None"
proof -
  obtain t args where m: "pa_mt e s au_wbr_create_policy = (t, args)" by fastforce
  have mt: "\<forall>s tbl t args. pa_mt e s tbl = (t, args) \<longrightarrow> t \<noteq> snd tbl \<longrightarrow>
        (\<exists>p. (t, p) \<in> set (fst tbl) \<and> length args = pattern_args p)"
    using e unfolding parse_env_ok_def by (elim conjE) assumption
  have "policy_args t \<le> length args"
  proof (cases "t = - 1")
    case True
    then show ?thesis by (simp add: policy_args_def wbr_id_defs)
  next
    case False
    have "snd au_wbr_create_policy = - 1" by (simp add: au_wbr_create_policy_def)
    then obtain p where "(t, p) \<in> set (fst au_wbr_create_policy)" "length args = pattern_args p"
      using mt m False by metis
    then show ?thesis using create_args by (auto simp: list_all_iff)
  qed
  then show ?thesis using m arg_first [of args] arg_second [of args]
    by (auto simp: au_wbr_create_val_def policy_args_def Let_def split: prod.splits if_splits)
qed

section \<open>The loops\<close>

definition one_ok :: "nat \<Rightarrow> vfs \<Rightarrow> au_opt list \<Rightarrow> nat \<Rightarrow> (int \<times> bool \<times> parse_st) option \<Rightarrow> bool" where
  "one_ok n v0 xs k r \<longleftrightarrow> (\<exists>err sk st'. r = Some (err, sk, st') \<and>
     (if err = 0 \<and> \<not> sk then 1 \<le> k \<and> (\<exists>x. filled n v0 (xs @ [x]) st')
      else \<exists>ys. filling n v0 (xs @ ys) st' \<and> length ys \<le> k))"

lemma one_stepped:
  assumes "stepped n v0 xs r" and "1 \<le> k"
  shows "one_ok n v0 xs k (map_option (\<lambda>(err, st'). (err, False, st')) r)"
proof -
  obtain err st' where "r = Some (err, st')" "if err = 0 then \<exists>x. filled n v0 (xs @ [x]) st' else filling n v0 xs st'"
    using assms(1) by (auto simp: stepped_def)
  then show ?thesis using assms(2)
    by (cases "err = 0") (auto simp: one_ok_def intro: exI [of _ "[]"])
qed

lemma filling_one: "filling n v0 xs st \<Longrightarrow> err \<noteq> 0 \<or> sk \<Longrightarrow> one_ok n v0 xs k (Some (err, sk, st))"
  by (auto simp: one_ok_def intro: exI [of _ "[]"])

lemma put_plain_ok:
  assumes f: "filling n v0 xs st" and g: "opt_good \<lparr>ot_type = t, ot_arg = a\<rparr>" and k: "1 \<le> k"
    and a: "opt_dref \<lparr>ot_type = t, ot_arg = a\<rparr> = None" "opt_fref \<lparr>ot_type = t, ot_arg = a\<rparr> = None"
  shows "one_ok n v0 xs k (put_plain t a st)"
proof -
  have "holding v0 (\<lparr>ot_type = t, ot_arg = a\<rparr> # xs) (ps_v st)"
    using filling_holding [OF f] a by (simp add: holding_def)
  then have "stepped n v0 xs (map_option (Pair 0) (put_in t a (st\<lparr>ps_v := ps_v st\<rparr>)))"
    by (intro put_stepped [OF f g]) (use a in simp_all)
  then have "one_ok n v0 xs k (map_option (\<lambda>(err, st'). (err, False, st')) (map_option (Pair 0) (put_in t a st)))"
    by (intro one_stepped [OF _ k]) simp
  then show ?thesis by (simp add: put_plain_def option.map_comp comp_def)
qed

lemma parse_br_skipped: "parse_br e ro ss True st = Some (0, sk, st') \<Longrightarrow> sk"
proof (induction ss arbitrary: st)
  case (Cons s ss)
  obtain err st1 where o: "parse_opt_add e ro Opt_add s (ps_bindex st) st = Some (err, st1)"
    using Cons.prems by (auto simp: bind_eq_Some_conv)
  let ?st = "st1\<lparr>ps_bindex := to_bindex (ps_bindex st1 + 1), ps_at := ps_at st1 + 1\<rparr>"
  have c: "err = 0" "\<not> length (ps_opt st1) \<le> ps_at st1 + 1"
    using Cons.prems o by (auto simp: Let_def split: if_splits)
  then obtain os where "set_type (ps_at st1 + 1) Opt_tail (ps_opt st1) = Some os"
    "parse_br e ro ss True (?st\<lparr>ps_opt := os\<rparr>) = Some (0, sk, st')"
    using Cons.prems o by (auto simp: Let_def bind_eq_Some_conv)
  then show ?case using Cons.IH by blast
qed simp

lemma parse_br_ok:
  assumes f: "filling n v0 xs st" and e: "parse_env_ok e v0" and k: "length xs + length ss < n" and sk: "sk \<or> ss \<noteq> []"
  shows "one_ok n v0 xs (length ss) (parse_br e ro ss sk st)"
  using assms
proof (induction ss arbitrary: xs sk st)
  case Nil
  then show ?case by (simp add: filling_one)
next
  case (Cons s ss)
  have "stepped n v0 xs (parse_opt_add e ro Opt_add s (ps_bindex st) st)"
    by (rule parse_opt_add_ok [OF Cons.prems(1) e]) simp
  then obtain err st1 where st1: "parse_opt_add e ro Opt_add s (ps_bindex st) st = Some (err, st1)"
    "if err = 0 then \<exists>x. filled n v0 (xs @ [x]) st1 else filling n v0 xs st1"
    by (auto simp: stepped_def)
  show ?case
  proof (cases "err = 0")
    case False
    then show ?thesis using st1 by (simp add: Let_def filling_one)
  next
    case True
    then obtain x where x: "filled n v0 (xs @ [x]) st1" using st1(2) by auto
    then have l: "length (ps_opt st1) = n" "ps_at st1 = length xs" by (auto simp: filled_def)
    obtain os where os: "set_type (ps_at st1 + 1) Opt_tail (ps_opt st1) = Some os"
      "filling n v0 (xs @ [x]) (st1\<lparr>ps_at := ps_at st1 + 1, ps_opt := os\<rparr>)"
      using filled_tail [OF x] Cons.prems(3) by auto
    let ?st = "st1\<lparr>ps_bindex := to_bindex (ps_bindex st1 + 1), ps_at := ps_at st1 + 1, ps_opt := os\<rparr>"
    have "?st = st1\<lparr>ps_at := ps_at st1 + 1, ps_opt := os\<rparr>\<lparr>ps_bindex := to_bindex (ps_bindex st1 + 1)\<rparr>" by simp
    then have "filling n v0 (xs @ [x]) ?st" using os(2) by (simp only: filling_bindex)
    from Cons.IH [OF this e, of True] have "one_ok n v0 (xs @ [x]) (length ss) (parse_br e ro ss True ?st)"
      using Cons.prems(3) by simp
    moreover have "parse_br e ro (s # ss) sk st = parse_br e ro ss True ?st"
      using st1(1) True l os(1) Cons.prems(3) by (simp add: Let_def)
    ultimately have o: "one_ok n v0 (xs @ [x]) (length ss) (parse_br e ro (s # ss) sk st)" by simp
    obtain err' sk' st' where r: "parse_br e ro (s # ss) sk st = Some (err', sk', st')"
      "if err' = 0 \<and> \<not> sk' then 1 \<le> length ss \<and> (\<exists>x'. filled n v0 ((xs @ [x]) @ [x']) st')
       else \<exists>ys. filling n v0 ((xs @ [x]) @ ys) st' \<and> length ys \<le> length ss"
      using o unfolding one_ok_def by blast
    have sk: "sk'" if "err' = 0"
    proof -
      have "parse_br e ro ss True ?st = Some (err', sk', st')"
        using r(1) \<open>parse_br e ro (s # ss) sk st = parse_br e ro ss True ?st\<close> by simp
      then show ?thesis using that parse_br_skipped by blast
    qed
    then obtain ys where "filling n v0 (xs @ x # ys) st'" "length ys \<le> length ss" using r(2) by (auto split: if_splits)
    then show ?thesis using r(1) sk unfolding one_ok_def
      by (intro exI [of _ err'] exI [of _ sk'] exI [of _ st']) (auto intro!: exI [of _ "x # ys"])
  qed
qed


text \<open>A \<open>br\<close> without a branch, or a \<open>fhsm_sec\<close> that is ignored, leaves its entry the tail.\<close>

definition no_hole :: "parse_env \<Rightarrow> string \<Rightarrow> bool" where
  "no_hole e s = (case pa_mt e s (options (pa_cfg e) (pa_oc e)) of (t, args) \<Rightarrow>
     (t = Opt_br \<longrightarrow> strsep_all CHR '':'' (args ! 0) \<noteq> []) \<and> (t = Opt_fhsm_sec \<longrightarrow> pa_brs e))"

definition entry_count :: "parse_env \<Rightarrow> string \<Rightarrow> nat" where
  "entry_count e s = (case pa_mt e s (options (pa_cfg e) (pa_oc e)) of (t, args) \<Rightarrow>
     if t = Opt_br then length (strsep_all CHR '':'' (args ! 0)) else 1)"

lemma parse_number_ok:
  assumes f: "filling n v0 xs st" and k: "1 \<le> k"
    and t: "t \<in> {Opt_itrunc_xino, Opt_dirwh, Opt_rdcache, Opt_rdblk, Opt_rdhash, Opt_fhsm_sec}"
    and h: "t = Opt_fhsm_sec \<longrightarrow> pa_brs e"
  shows "one_ok n v0 xs k (parse_number e t arg st)"
proof (cases "pa_int e arg")
  case None
  then show ?thesis using filling_one [OF f] by (simp add: parse_number_def)
next
  case (Some m)
  have p: "one_ok n v0 xs k (put_plain t (Arg_itrunc m) st)" "one_ok n v0 xs k (put_plain t (Arg_int m) st)"
    by (rule put_plain_ok [OF f _ k]; use t in \<open>auto simp: opt_good_def opt_dref_def opt_fref_def opt_token_defs\<close>)+
  show ?thesis
  proof (cases "number_ok e t m")
    case False
    then show ?thesis using Some filling_one [OF f] by (simp add: parse_number_def)
  next
    case True
    then show ?thesis using Some p h by (auto simp: parse_number_def)
  qed
qed

lemma plain_good: "t \<in> set plain_tokens \<Longrightarrow> opt_good \<lparr>ot_type = t, ot_arg = Arg_none\<rparr>"
  by (auto simp: plain_tokens_def opt_good_def opt_token_defs)

lemma parse_one_ok:
  assumes f: "filling n v0 xs st" and e: "parse_env_ok e v0"
    and m: "pa_mt e s (options (pa_cfg e) (pa_oc e)) = (t, args)" and h: "no_hole e s" and k: "length xs + entry_count e s < n"
  shows "one_ok n v0 xs (entry_count e s) (parse_one e ro t args st)"
proof -
  let ?k = "entry_count e s"
  note a = token_args [OF e m]
  have a0: "arr_get args 0 = Some (args ! 0)" if "1 \<le> args_needed t"
    by (rule arg_first) (use that a in linarith)
  have a1: "arr_get args 1 = Some (args ! 1)" if "2 \<le> args_needed t"
    by (rule arg_second) (use that a in linarith)
  have k1: "1 \<le> ?k" if "t \<noteq> Opt_br" using that m by (simp add: entry_count_def)
  note one = one_stepped [OF _ k1]
  consider (br) "t = Opt_br" | (add) "t = Opt_add" | (app) "t \<in> {Opt_append, Opt_prepend}" | (del) "t \<in> {Opt_del, Opt_mod}"
    | (xi) "t \<in> {Opt_xino, Opt_trunc_xino_path}"
    | (num) "t \<in> {Opt_itrunc_xino, Opt_dirwh, Opt_rdcache, Opt_rdblk, Opt_rdhash, Opt_fhsm_sec}"
    | (plain) "t \<in> set plain_tokens" | (udba) "t = Opt_udba" | (create) "t = Opt_wbr_create" | (copyup) "t = Opt_wbr_copyup"
    | (other) "t \<notin> {Opt_br, Opt_add, Opt_append, Opt_prepend, Opt_del, Opt_mod, Opt_xino, Opt_trunc_xino_path,
        Opt_itrunc_xino, Opt_dirwh, Opt_rdcache, Opt_rdblk, Opt_rdhash, Opt_fhsm_sec, Opt_udba, Opt_wbr_create,
        Opt_wbr_copyup} \<union> set plain_tokens"
    by blast
  then show ?thesis
  proof cases
    case br
    have "strsep_all CHR '':'' (args ! 0) \<noteq> []" "?k = length (strsep_all CHR '':'' (args ! 0))"
      using h m br by (simp_all add: no_hole_def entry_count_def)
    then have "one_ok n v0 xs ?k (parse_br e ro (strsep_all CHR '':'' (args ! 0)) False st)"
      using parse_br_ok [OF f e, of "strsep_all CHR '':'' (args ! 0)"] k by simp
    then show ?thesis using br a0 by (simp add: parse_one_def args_needed_def opt_token_defs)
  next
    case add
    show ?thesis
    proof (cases "pa_int e (args ! 0)")
      case None
      then show ?thesis using add a0 a1 filling_one [OF f]
        by (simp add: parse_one_def args_needed_def opt_token_defs)
    next
      case (Some b)
      have "stepped n v0 xs (parse_opt_add e ro t (args ! 1) (to_bindex b) (st\<lparr>ps_bindex := to_bindex b\<rparr>))"
        by (rule parse_opt_add_ok [OF _ e]) (use f add in simp_all)
      then show ?thesis using one add a0 a1 Some
        by (simp add: parse_one_def args_needed_def opt_token_defs)
    qed
  next
    case app
    have "stepped n v0 xs (parse_opt_add e ro t (args ! 0) b st)" for b
      by (rule parse_opt_add_ok [OF f e]) (use app in auto)
    then show ?thesis using one app a0
      by (auto simp: parse_one_def args_needed_def opt_token_defs)
  next
    case del
    show ?thesis using parse_del_ok [OF f e] parse_mod_ok [OF f e] one del a0
      by (auto simp: parse_one_def args_needed_def opt_token_defs)
  next
    case xi
    show ?thesis using parse_xino_ok [OF f e] parse_itrunc_path_ok [OF f e] one xi a0
      by (auto simp: parse_one_def args_needed_def opt_token_defs)
  next
    case num
    have "t \<noteq> Opt_br" "1 \<le> args_needed t" using num by (auto simp: args_needed_def opt_token_defs)
    moreover have "t = Opt_fhsm_sec \<longrightarrow> pa_brs e" using h m by (simp add: no_hole_def)
    ultimately show ?thesis using parse_number_ok [OF f k1 num] num a0
      by (auto simp: parse_one_def opt_token_defs)
  next
    case plain
    have "one_ok n v0 xs ?k (put_plain t Arg_none st)"
      by (rule put_plain_ok [OF f plain_good [OF plain] k1])
        (use plain in \<open>auto simp: plain_tokens_def opt_dref_def opt_fref_def opt_token_defs\<close>)
    moreover have "parse_one e ro t args st = put_plain t Arg_none st"
      using plain by (auto simp: plain_tokens_def parse_one_def opt_token_defs)
    ultimately show ?thesis by simp
  next
    case udba
    have "one_ok n v0 xs ?k (put_plain t (Arg_int u) st)" for u
      by (rule put_plain_ok [OF f _ k1]) (use udba in \<open>auto simp: opt_good_def opt_dref_def opt_fref_def opt_token_defs\<close>)
    then show ?thesis using udba a0 filling_one [OF f]
      by (simp add: parse_one_def args_needed_def opt_token_defs plain_tokens_def)
  next
    case create
    obtain r c where c: "au_wbr_create_val e (args ! 0) \<lparr>owc_wbr_create = 0, owc_mfs_second = 0, owc_mfsrr_watermark = 0\<rparr> = Some (r, c)"
      using create_val_some [OF e] by fastforce
    have "one_ok n v0 xs ?k (put_plain t (Arg_create u) st)" for u
      by (rule put_plain_ok [OF f _ k1]) (use create in \<open>auto simp: opt_good_def opt_dref_def opt_fref_def opt_token_defs\<close>)
    then show ?thesis using create a0 filling_one [OF f] c
      by (simp add: parse_one_def args_needed_def opt_token_defs plain_tokens_def)
  next
    case copyup
    have "one_ok n v0 xs ?k (put_plain t (Arg_int u) st)" for u
      by (rule put_plain_ok [OF f _ k1]) (use copyup in \<open>auto simp: opt_good_def opt_dref_def opt_fref_def opt_token_defs\<close>)
    then show ?thesis using copyup a0 filling_one [OF f]
      by (simp add: parse_one_def args_needed_def opt_token_defs plain_tokens_def)
  next
    case other
    then have "parse_one e ro t args st = (if t = Opt_ignore \<or> t = Opt_ignore_silent then Some (0, True, st) else Some (- EINVAL, False, st))"
      by (simp add: parse_one_def)
    then show ?thesis using filling_one [OF f] by simp
  qed
qed


lemma parse_loop_ok:
  assumes "filling n v0 xs st" and e: "parse_env_ok e v0" and "list_all (no_hole e) ss"
    and "length xs + sum_list (map (entry_count e) ss) < n"
  shows "\<exists>err st' ys. parse_loop e ro ss st = Some (err, st') \<and> filling n v0 ys st'"
  using assms
proof (induction ss arbitrary: xs st)
  case Nil
  then show ?case by auto
next
  case (Cons s ss)
  obtain t args where m: "pa_mt e s (options (pa_cfg e) (pa_oc e)) = (t, args)" by fastforce
  have k: "length xs + entry_count e s < n" using Cons.prems(4) by simp
  have "no_hole e s" using Cons.prems(3) by simp
  then obtain err sk st1 where r: "parse_one e ro t args st = Some (err, sk, st1)"
    "if err = 0 \<and> \<not> sk then 1 \<le> entry_count e s \<and> (\<exists>x. filled n v0 (xs @ [x]) st1)
     else \<exists>ys. filling n v0 (xs @ ys) st1 \<and> length ys \<le> entry_count e s"
    using parse_one_ok [OF Cons.prems(1) e m _ k, of ro] unfolding one_ok_def by blast
  show ?case
  proof (cases "err = 0 \<and> \<not> sk")
    case True
    then obtain x where x: "1 \<le> entry_count e s" "filled n v0 (xs @ [x]) st1" using r(2) by auto
    have lx: "length (xs @ [x]) < n" using x(1) k by simp
    have l: "length (ps_opt st1) = n" "ps_at st1 = length xs" using x(2) by (auto simp: filled_def)
    obtain os where os: "set_type (ps_at st1 + 1) Opt_tail (ps_opt st1) = Some os"
      "filling n v0 (xs @ [x]) (st1\<lparr>ps_at := ps_at st1 + 1, ps_opt := os\<rparr>)"
      using filled_tail [OF x(2) lx] by blast
    have "length (xs @ [x]) + sum_list (map (entry_count e) ss) < n" using Cons.prems(4) x(1) by simp
    then have "\<exists>err st' ys. parse_loop e ro ss (st1\<lparr>ps_at := ps_at st1 + 1, ps_opt := os\<rparr>) = Some (err, st') \<and> filling n v0 ys st'"
      by (intro Cons.IH [OF os(2) e]) (use Cons.prems(3) in simp_all)
    then show ?thesis using m r(1) True l os(1) lx by simp
  next
    case False
    then obtain ys where ys: "filling n v0 (xs @ ys) st1" "length ys \<le> entry_count e s" using r(2) by auto
    show ?thesis
    proof (cases "err = 0")
      case True
      have "length (xs @ ys) + sum_list (map (entry_count e) ss) < n" using Cons.prems(4) ys(2) by simp
      then have "\<exists>err st' zs. parse_loop e ro ss st1 = Some (err, st') \<and> filling n v0 zs st'"
        by (intro Cons.IH [OF ys(1) e]) (use Cons.prems(3) in simp_all)
      then show ?thesis using m r(1) True False by simp
    next
      case False
      then show ?thesis using m r(1) ys(1) by auto
    qed
  qed
qed

lemma opts_parse_ok:
  assumes e: "parse_env_ok e v" and h: "list_all (no_hole e) (strsep_all CHR '','' str)"
    and n: "sum_list (map (entry_count e) (strsep_all CHR '','' str)) < length (op_opt opts)"
  shows "\<exists>err opts' v'. au_opts_parse e ok str opts v = Some (err, opts', v')
    \<and> (err \<noteq> 0 \<longrightarrow> holding v [] v')
    \<and> (err = 0 \<longrightarrow> holding v (given (op_opt opts')) v'
         \<and> (\<exists>v''. au_opts_free (op_opt opts') v' = Some v'' \<and> holding v [] v''))"
proof (cases ok)
  case False
  then show ?thesis by (simp add: au_opts_parse_def holding_refl)
next
  case True
  obtain y ys where o: "op_opt opts = y # ys" using n by (cases "op_opt opts") auto
  let ?z = "case y of None \<Rightarrow> \<lparr>ot_type = Opt_tail, ot_arg = Arg_none\<rparr> | Some x \<Rightarrow> x\<lparr>ot_type := Opt_tail\<rparr>"
  have z: "ot_type ?z = Opt_tail" by (simp split: option.splits)
  have s: "set_type 0 Opt_tail (op_opt opts) = Some (Some ?z # ys)" by (simp add: set_type_def o)
  let ?st = "\<lparr>ps_opt = Some ?z # ys, ps_at = 0, ps_bindex = 0, ps_v = v\<rparr>"
  have "filling (length (op_opt opts)) v [] ?st" using z by (simp add: filling_def holding_refl o)
  then obtain err st' xs where l: "parse_loop e (op_rdonly opts) (strsep_all CHR '','' str) ?st = Some (err, st')"
    "filling (length (op_opt opts)) v xs st'"
    using parse_loop_ok [OF _ e h] n by fastforce
  obtain t rest where t: "ps_opt st' = map Some xs @ Some t # rest" "ot_type t = Opt_tail" "list_all opt_good xs"
    "holding v xs (ps_v st')" "\<forall>x\<in>set xs. \<forall>d. opt_dref x = Some d \<longrightarrow> d_refs v d \<noteq> None"
    using l(2) by (auto simp: filling_def)
  obtain v'' where free: "au_opts_free (ps_opt st') (ps_v st') = Some v''" "holding v [] v''"
    using free_holding [OF t(4) env_counts [OF e] t(3) _ t(2), of rest] t(1,5) by auto
  have g: "given (ps_opt st') = xs" unfolding t(1) by (rule given_append [OF t(3,2)])
  show ?thesis
  proof (cases "err = 0")
    case True
    then show ?thesis using \<open>ok\<close> s l(1) free g t(4)
      by (intro exI [of _ 0] exI [of _ "opts\<lparr>op_opt := ps_opt st'\<rparr>"] exI [of _ "ps_v st'"]) (simp add: au_opts_parse_def)
  next
    case False
    then show ?thesis using \<open>ok\<close> s l(1) free
      by (intro exI [of _ err] exI [of _ "opts\<lparr>op_opt := ps_opt st'\<rparr>"] exI [of _ v'']) (simp add: au_opts_parse_def)
  qed
qed

section \<open>The balance\<close>

text \<open>
  Parsing the options of a mount balances its references. While the array has room for
  every option and no option leaves a hole, \<open>au_opts_parse\<close> never writes outside the array; on an
  error every path and file it had looked up is given back, and on success each option holds exactly its own, which
  \<open>au_opts_free\<close> gives back.
\<close>

lemma au_opts_parse_balanced:
  assumes "parse_env_ok e v" and "list_all (no_hole e) (strsep_all CHR '','' str)"
    and "sum_list (map (entry_count e) (strsep_all CHR '','' str)) < length (op_opt opts)"
  shows "\<exists>err opts' v'. au_opts_parse e ok str opts v = Some (err, opts', v')
    \<and> (err \<noteq> 0 \<longrightarrow> d_refs v' = d_refs v \<and> f_cnt v' = f_cnt v)
    \<and> (err = 0 \<longrightarrow> (\<forall>d. d_refs v' d = map_option (\<lambda>n. n + held (map opt_dref (given (op_opt opts'))) d) (d_refs v d))
         \<and> (\<forall>f. f_cnt v' f = f_cnt v f + held (map opt_fref (given (op_opt opts'))) f)
         \<and> (\<exists>v''. au_opts_free (op_opt opts') v' = Some v'' \<and> d_refs v'' = d_refs v \<and> f_cnt v'' = f_cnt v))"
proof -
  have balanced: "holding v [] w \<Longrightarrow> d_refs w = d_refs v \<and> f_cnt w = f_cnt v" for w
    by (simp add: holding_def fun_eq_iff option.map_ident)
  obtain err opts' v' where r: "au_opts_parse e ok str opts v = Some (err, opts', v')" "err \<noteq> 0 \<longrightarrow> holding v [] v'"
    "err = 0 \<longrightarrow> holding v (given (op_opt opts')) v' \<and> (\<exists>v''. au_opts_free (op_opt opts') v' = Some v'' \<and> holding v [] v'')"
    using opts_parse_ok [OF assms] by blast
  show ?thesis
  proof (cases "err = 0")
    case True
    then obtain v'' where f: "au_opts_free (op_opt opts') v' = Some v''" "holding v [] v''" "holding v (given (op_opt opts')) v'"
      using r(3) by blast
    have "\<forall>d. d_refs v' d = map_option (\<lambda>n. n + held (map opt_dref (given (op_opt opts'))) d) (d_refs v d)"
      "\<forall>f. f_cnt v' f = f_cnt v f + held (map opt_fref (given (op_opt opts'))) f"
      using f(3) by (simp_all add: holding_def)
    moreover have "d_refs v'' = d_refs v" "f_cnt v'' = f_cnt v" using balanced [OF f(2)] by simp_all
    ultimately show ?thesis using r(1) True f(1)
      by (intro exI [of _ err] exI [of _ opts'] exI [of _ v']) blast
  next
    case False
    then show ?thesis using r(1,2) balanced by simp
  qed
qed

end
