(* ===== verification/Opts_Faults.thy ===== *)
theory Opts_Faults
  imports Opts_Parse
begin

text \<open>
  The two ways in which the array of options goes wrong: a \<open>br\<close> that fills the last entry leaves no tail, so that the
  release reads behind the array; and an option that succeeds without filling its entry ends the list there.
\<close>

section \<open>No tail\<close>

lemma free_no_tail: "list_all opt_good xs \<Longrightarrow> au_opts_free (map Some xs) v = None"
  by (induction xs arbitrary: v) (auto simp: opt_good_def bind_eq_None_conv)

lemma parse_opt_add_found:
  assumes f: "filling n v0 xs st" and e: "parse_env_ok e v0" and p: "pa_path e (fst (strchr_eq s)) (ps_v st) = Inr d"
  shows "\<exists>st'. parse_opt_add e ro Opt_add s b st = Some (0, st') \<and> (\<exists>x. filled n v0 (xs @ [x]) st')"
proof -
  have "stepped n v0 xs (parse_opt_add e ro Opt_add s b st)" by (rule parse_opt_add_ok [OF f e]) simp
  then obtain err st' where r: "parse_opt_add e ro Opt_add s b st = Some (err, st')"
    "if err = 0 then \<exists>x. filled n v0 (xs @ [x]) st' else filling n v0 xs st'"
    by (auto simp: stepped_def)
  have "err = 0" using r(1) p by (auto simp: parse_opt_add_def Let_def bind_eq_Some_conv split: prod.splits)
  then show ?thesis using r by auto
qed

lemma parse_br_full:
  assumes "filling n v0 xs st" and e: "parse_env_ok e v0" and "n \<le> length xs + length ss" and "length xs < n"
    and p: "\<And>s v. s \<in> set ss \<Longrightarrow> \<exists>d. pa_path e (fst (strchr_eq s)) v = Inr d"
  shows "\<exists>sk st' ys. parse_br e ro ss sk0 st = Some (- E2BIG, sk, st')
    \<and> ps_opt st' = map Some ys \<and> list_all opt_good ys"
  using assms(1,3-5)
proof (induction ss arbitrary: xs sk0 st)
  case Nil
  then show ?case by simp
next
  case (Cons s ss)
  obtain d where "pa_path e (fst (strchr_eq s)) (ps_v st) = Inr d" using Cons.prems(4) by auto
  then obtain st1 x where st1: "parse_opt_add e ro Opt_add s (ps_bindex st) st = Some (0, st1)" "filled n v0 (xs @ [x]) st1"
    using parse_opt_add_found [OF Cons.prems(1) e, of s d ro "ps_bindex st"] by blast
  then have l: "length (ps_opt st1) = n" "ps_at st1 = length xs" by (auto simp: filled_def)
  let ?st = "st1\<lparr>ps_bindex := to_bindex (ps_bindex st1 + 1), ps_at := ps_at st1 + 1\<rparr>"
  show ?case
  proof (cases "n = length xs + 1")
    case True
    then have "parse_br e ro (s # ss) sk0 st = Some (- E2BIG, sk0, ?st)" using st1(1) l by (simp add: Let_def)
    moreover have "ps_opt ?st = map Some (xs @ [x])" "list_all opt_good (xs @ [x])"
      using st1(2) True by (auto simp: filled_def)
    ultimately show ?thesis using True
      by (intro exI [of _ sk0] exI [of _ ?st] exI [of _ "xs @ [x]"]) simp
  next
    case False
    then have lt: "length (xs @ [x]) < n" using Cons.prems(3) by simp
    obtain os where os: "set_type (ps_at st1 + 1) Opt_tail (ps_opt st1) = Some os"
      "filling n v0 (xs @ [x]) (st1\<lparr>ps_at := ps_at st1 + 1, ps_opt := os\<rparr>)"
      using filled_tail [OF st1(2) lt] by blast
    have "?st\<lparr>ps_opt := os\<rparr> = st1\<lparr>ps_at := ps_at st1 + 1, ps_opt := os\<rparr>\<lparr>ps_bindex := to_bindex (ps_bindex st1 + 1)\<rparr>" by simp
    then have "filling n v0 (xs @ [x]) (?st\<lparr>ps_opt := os\<rparr>)" using os(2) by (simp only: filling_bindex)
    then have "\<exists>sk st' ys. parse_br e ro ss True (?st\<lparr>ps_opt := os\<rparr>) = Some (- E2BIG, sk, st')
        \<and> ps_opt st' = map Some ys \<and> list_all opt_good ys"
      by (rule Cons.IH) (use Cons.prems lt in simp_all)
    then show ?thesis using st1(1) l os(1) lt by (simp add: Let_def)
  qed
qed

text \<open>
  A mount whose first option is a \<open>br\<close> with at least as many branches as the array has entries: the parser leaves
  with \<open>E2BIG\<close> and no tail, and the release reads on behind the array.
\<close>

lemma au_opts_parse_br_overruns:
  assumes e: "parse_env_ok e v" and o: "op_opt opts \<noteq> []"
    and str: "strsep_all CHR '','' str = s # rest" and mt: "pa_mt e s (options (pa_cfg e) (pa_oc e)) = (Opt_br, [arg])"
    and full: "length (op_opt opts) \<le> length (strsep_all CHR '':'' arg)"
    and found: "\<And>p w. p \<in> set (strsep_all CHR '':'' arg) \<Longrightarrow> \<exists>d. pa_path e (fst (strchr_eq p)) w = Inr d"
  shows "au_opts_parse e True str opts v = None"
proof -
  obtain y ys where y: "op_opt opts = y # ys" using o by (cases "op_opt opts") auto
  let ?z = "case y of None \<Rightarrow> \<lparr>ot_type = Opt_tail, ot_arg = Arg_none\<rparr> | Some x \<Rightarrow> x\<lparr>ot_type := Opt_tail\<rparr>"
  let ?st = "\<lparr>ps_opt = Some ?z # ys, ps_at = 0, ps_bindex = 0, ps_v = v\<rparr>"
  have s: "set_type 0 Opt_tail (op_opt opts) = Some (Some ?z # ys)" by (simp add: set_type_def y)
  have "ot_type ?z = Opt_tail" by (simp split: option.splits)
  then have "filling (length (op_opt opts)) v [] ?st" by (simp add: filling_def holding_refl y)
  then have "\<exists>sk st' xs. parse_br e (op_rdonly opts) (strsep_all CHR '':'' arg) False ?st = Some (- E2BIG, sk, st')
      \<and> ps_opt st' = map Some xs \<and> list_all opt_good xs"
    by (rule parse_br_full [OF _ e]) (use full found o in simp_all)
  then obtain sk st' xs where r: "parse_br e (op_rdonly opts) (strsep_all CHR '':'' arg) False ?st = Some (- E2BIG, sk, st')"
    "ps_opt st' = map Some xs" "list_all opt_good xs" by blast
  have "parse_loop e (op_rdonly opts) (s # rest) ?st = Some (- E2BIG, st')"
    using mt r(1) by (simp add: parse_one_def arr_get_def)
  moreover have "au_opts_free (ps_opt st') (ps_v st') = None" unfolding r(2) by (rule free_no_tail [OF r(3)])
  ultimately show ?thesis using s str by (simp add: au_opts_parse_def)
qed

section \<open>A hole\<close>

text \<open>Nothing writes to an entry that the parser has passed.\<close>

definition stays :: "parse_st \<Rightarrow> parse_st \<Rightarrow> bool" where
  "stays st st' \<longleftrightarrow> ps_at st \<le> ps_at st' \<and> (\<forall>i < ps_at st. ps_opt st' ! i = ps_opt st ! i)"

lemma stays_trans: "stays a b \<Longrightarrow> stays b c \<Longrightarrow> stays a c"
  by (auto simp: stays_def)

lemma stays_v [simp]: "stays (st\<lparr>ps_v := v\<rparr>) st' = stays st st'" "stays (st\<lparr>ps_bindex := b\<rparr>) st' = stays st st'"
  "stays st (st\<lparr>ps_v := v\<rparr>)" "stays st st" "stays st (st'\<lparr>ps_bindex := b\<rparr>) = stays st st'"
  by (simp_all add: stays_def)

lemma put_in_stays: "put_in t x st = Some st' \<Longrightarrow> stays st st'"
  by (auto simp: put_in_def set_opt_def stays_def split: if_splits)

lemma tail_stays:
  "set_type i t (ps_opt st) = Some os \<Longrightarrow> ps_at st \<le> i \<Longrightarrow> ps_at st \<le> j \<Longrightarrow> stays st (st\<lparr>ps_at := j, ps_opt := os\<rparr>)"
  "set_type i t (ps_opt st) = Some os \<Longrightarrow> ps_at st \<le> i \<Longrightarrow> stays st (st\<lparr>ps_opt := os\<rparr>)"
  by (auto simp: set_type_def stays_def split: if_splits)

lemma parse_opt_add_stays: "parse_opt_add e ro t s b st = Some (err, st') \<Longrightarrow> stays st st'"
  by (auto simp: parse_opt_add_def Let_def bind_eq_Some_conv dest!: put_in_stays split: prod.splits sum.splits)

lemma parse_del_stays: "au_opts_parse_del e s st = Some (err, st') \<Longrightarrow> stays st st'"
  by (auto simp: au_opts_parse_del_def bind_eq_Some_conv dest!: put_in_stays split: sum.splits)

lemma parse_mod_stays: "au_opts_parse_mod e s st = Some (err, st') \<Longrightarrow> stays st st'"
  by (auto simp: au_opts_parse_mod_def bind_eq_Some_conv dest!: put_in_stays split: prod.splits option.splits sum.splits)

lemma parse_xino_stays: "au_opts_parse_xino e s st = Some (err, st') \<Longrightarrow> stays st st'"
  by (auto simp: au_opts_parse_xino_def Let_def dest!: put_in_stays split: sum.splits if_splits)

lemma parse_itrunc_stays: "au_opts_parse_xino_itrunc_path e s st = Some (err, st') \<Longrightarrow> stays st st'"
  by (auto simp: au_opts_parse_xino_itrunc_path_def bind_eq_Some_conv dest!: put_in_stays split: sum.splits if_splits)

lemma put_plain_stays: "put_plain t x st = Some (err, sk, st') \<Longrightarrow> stays st st'"
  by (auto simp: put_plain_def dest!: put_in_stays)

lemma parse_number_stays: "parse_number e t s st = Some (err, sk, st') \<Longrightarrow> stays st st'"
  by (auto simp: parse_number_def dest!: put_plain_stays split: option.splits if_splits)

lemma parse_br_stays: "parse_br e ro ss sk0 st = Some (err, sk, st') \<Longrightarrow> stays st st'"
proof (induction ss arbitrary: sk0 st)
  case (Cons s ss)
  obtain err1 st1 where o: "parse_opt_add e ro Opt_add s (ps_bindex st) st = Some (err1, st1)"
    using Cons.prems by (auto simp: bind_eq_Some_conv)
  have k: "stays st st1" by (rule parse_opt_add_stays [OF o])
  let ?st3 = "st1\<lparr>ps_bindex := to_bindex (ps_bindex st1 + 1), ps_at := ps_at st1 + 1\<rparr>"
  have k3: "stays st ?st3" using k by (auto simp: stays_def)
  show ?case
  proof (cases "err1 \<noteq> 0 \<or> length (ps_opt st1) \<le> ps_at st1 + 1")
    case True
    then show ?thesis using Cons.prems o k k3 by (auto simp: Let_def split: if_splits)
  next
    case False
    then obtain os where os: "set_type (ps_at ?st3) Opt_tail (ps_opt ?st3) = Some os"
      "parse_br e ro ss True (?st3\<lparr>ps_opt := os\<rparr>) = Some (err, sk, st')"
      using Cons.prems o by (auto simp: Let_def bind_eq_Some_conv)
    show ?thesis
      by (rule stays_trans [OF k3 stays_trans [OF tail_stays(2) [OF os(1) order_refl] Cons.IH [OF os(2)]]])
  qed
qed simp

lemmas one_stays = parse_opt_add_stays parse_del_stays parse_mod_stays parse_xino_stays parse_itrunc_stays put_plain_stays
  parse_number_stays parse_br_stays

lemma parse_one_stays: "parse_one e ro t args st = Some (err, sk, st') \<Longrightarrow> stays st st'"
  by (auto simp: parse_one_def Let_def bind_eq_Some_conv split: if_splits option.splits prod.splits dest!: one_stays)

lemma parse_loop_stays: "parse_loop e ro ss st = Some (err, st') \<Longrightarrow> stays st st'"
proof (induction ss arbitrary: st)
  case (Cons s ss)
  obtain t args where m: "pa_mt e s (options (pa_cfg e) (pa_oc e)) = (t, args)" by fastforce
  obtain err1 sk st1 where o: "parse_one e ro t args st = Some (err1, sk, st1)"
    using Cons.prems m by (auto simp: bind_eq_Some_conv)
  have k: "stays st st1" by (rule parse_one_stays [OF o])
  show ?case
  proof (cases "err1 \<noteq> 0 \<or> sk")
    case True
    then show ?thesis using Cons.prems m o k stays_trans [OF k] Cons.IH by (auto split: if_splits)
  next
    case False
    show ?thesis
    proof (cases "length (ps_opt st1) \<le> ps_at st1 + 1")
      case True
      then obtain os where "set_type (ps_at st1) Opt_tail (ps_opt st1) = Some os" "st' = st1\<lparr>ps_opt := os\<rparr>"
        using Cons.prems m o False by auto
      then show ?thesis using stays_trans [OF k] tail_stays(2) by blast
    next
      case more: False
      then obtain os where os: "set_type (ps_at st1 + 1) Opt_tail (ps_opt st1) = Some os"
        "parse_loop e ro ss (st1\<lparr>ps_at := ps_at st1 + 1, ps_opt := os\<rparr>) = Some (err, st')"
        using Cons.prems m o False by (auto simp: bind_eq_Some_conv)
      have "stays st1 (st1\<lparr>ps_at := ps_at st1 + 1, ps_opt := os\<rparr>)" by (rule tail_stays(1) [OF os(1)]) simp_all
      then show ?thesis using stays_trans [OF k] stays_trans Cons.IH [OF os(2)] by blast
    qed
  qed
qed simp

text \<open>
  With the parameter \<open>brs\<close> of the module off, \<open>fhsm_sec\<close> succeeds without filling its entry, which stays the
  tail. As the first option it makes every reader of the array find no option at all: all options of the mount are
  lost, with the paths and files they hold.
\<close>

lemma au_opts_parse_fhsm_hole:
  assumes o: "2 \<le> length (op_opt opts)" and brs: "\<not> pa_brs e"
    and str: "strsep_all CHR '','' str = s # rest" and mt: "pa_mt e s (options (pa_cfg e) (pa_oc e)) = (Opt_fhsm_sec, [arg])"
    and i: "pa_int e arg = Some k" "0 \<le> k" and r: "au_opts_parse e True str opts v = Some (err, opts', v')"
  shows "given (op_opt opts') = []"
proof -
  obtain y ys where y: "op_opt opts = y # ys" using o by (cases "op_opt opts") auto
  let ?z = "case y of None \<Rightarrow> \<lparr>ot_type = Opt_tail, ot_arg = Arg_none\<rparr> | Some x \<Rightarrow> x\<lparr>ot_type := Opt_tail\<rparr>"
  let ?st = "\<lparr>ps_opt = Some ?z # ys, ps_at = 0, ps_bindex = 0, ps_v = v\<rparr>"
  have s: "set_type 0 Opt_tail (op_opt opts) = Some (Some ?z # ys)" by (simp add: set_type_def y)
  have one: "parse_one e (op_rdonly opts) Opt_fhsm_sec [arg] ?st = Some (0, False, ?st)"
    using i brs by (simp add: parse_one_def opt_token_defs arr_get_def parse_number_def number_ok_def)
  obtain err0 st' where l: "parse_loop e (op_rdonly opts) (s # rest) ?st = Some (err0, st')" "op_opt opts' = ps_opt st'"
    using r s str by (auto simp: au_opts_parse_def Let_def bind_eq_Some_conv simp del: parse_loop.simps split: if_splits)
  have "ys \<noteq> []" using o y by auto
  then obtain os where os: "set_type 1 Opt_tail (ps_opt ?st) = Some os"
    "parse_loop e (op_rdonly opts) rest (?st\<lparr>ps_at := 1, ps_opt := os\<rparr>) = Some (err0, st')"
    using l(1) mt one by (auto simp: bind_eq_Some_conv)
  have "os ! 0 = Some ?z" using os(1) by (auto simp: set_type_def split: if_splits)
  moreover have "ps_opt st' ! 0 = os ! 0" using parse_loop_stays [OF os(2)] by (simp add: stays_def)
  moreover have "ot_type ?z = Opt_tail" by (simp split: option.splits)
  ultimately show ?thesis unfolding l(2) by (cases "ps_opt st'") auto
qed

end
