(* ===== verification/Spec2Isabelle.thy ===== *)
theory Spec2Isabelle
  imports Branch_Ops Wbr_Policy Vdir_Faults Dir_Empty Lookup_Readdir Refresh_Dentry Plink Refresh_Ends Copy_File Export Unlink_Example Rdu_Faults Fhsm Dynop Opts_Faults
begin

text \<open>
  A verification library for aufs, the stackable union file system that the kernel recipe
  \<open>recipes-kernel/linux/linux-imx-3.10.17/aufs\<close> of this layer adds to Linux 3.10 (32-bit ARM). File names
  below are relative to that directory; the header shared with user space is \<open>../aufs_type.h\<close>.

  \<^bold>\<open>The program.\<close> A mount of aufs stacks directories of other file systems, its branches. A superblock
  holds the table of the branches; a dentry and an inode of aufs hold tables, indexed by branch, of
  the lower dentries and inodes they stand for, with the range of the indices in use. A lookup
  fills these tables from the top branch down, until a non-directory, a whiteout \<open>.wh.NAME\<close> or an
  opaque directory hides what is below. \<open>readdir\<close> merges the directories in the same way. Adding,
  deleting and changing a branch renumbers the branches, and the tables of dentries and inodes follow
  when they are next used. A change needs a writable branch, which a policy chooses, and a copy-up of
  the file. Inode numbers of the union come from a bitmap and a table for each branch.

  \<^bold>\<open>Conventions.\<close>
  \<^item> A function that can touch memory outside an object, reach a failed \<open>BUG_ON\<close>/\<open>AuDebugOn\<close> or fail to
    return has a result in \<open>option\<close>; \<open>None\<close> is that fault. A theorem that concludes \<open>Some\<close> so excludes it.
  \<^item> A kernel error is a negative \<open>int\<close>, as in the source, or the left side of a sum where the source
    has an error pointer; a pointer that may be NULL is an \<open>option\<close>.
  \<^item> Reference counts of dentries, inodes and files are in the state \<open>vfs\<close> (theory Vfs), and every get
    and put of the source is a step of the model; putting what has no reference is the fault.
  \<^item> Memory allocation and the calls of lower file systems answer from oracles (lists or functions in
    environment records); a used-up oracle of memory fails.
  \<^item> \<open>aufs_bindex_t\<close> is \<open>int\<close>: its bound of 511 branches is a premise or a result where it matters; inode
    numbers, block sizes, hash sizes, generations and jiffies are words of their width.
  \<^item> Locks are implied by the sequence of operations, except in Si_Lock and Export, which model them.

  \<^bold>\<open>Theories and code.\<close>
  \<^item> Aufs_Prelude: arrays with bounds, errno values, the oracle for memory, named collections.
    Vfs: lower dentries, inodes, files and their counts; the locale \<open>refcount\<close> states the contract of
    a counted object, interpreted for the three kinds.
  \<^item> Br_Perm (\<open>aufs_type.h\<close>, \<open>opts.c\<close>): the bits of a branch permission, their tests, parser and printer.
  \<^item> Sbinfo (\<open>sbinfo.c\<close>, \<open>super.h\<close>, \<open>branch.h\<close>, \<open>opts.h\<close>): the superblock, branch ids, option flags.
    Fstype (\<open>fstype.h\<close>): the tests of the type of a lower file system.
  \<^item> Dinfo (\<open>dinfo.c\<close>, \<open>dentry.h\<close>), Iinfo (\<open>iinfo.c\<close>, \<open>inode.h\<close>): the tables of lower dentries and inodes.
  \<^item> Br_Table, Branch, Branch_Ops (\<open>branch.c\<close>): the moves of the three tables under the locale
    \<open>branch_table\<close> (interpreted for each), adding and deleting a branch with the invariant \<open>mount_ok\<close>,
    and the whole requests with every error path.
  \<^item> Dcsub (\<open>dcsub.c\<close>): pages of dentries of a subtree or of the way to the root.
  \<^item> Wbr_Policy (\<open>wbr_policy.c\<close>): the policies for creation and copy-up; the locales \<open>create_policy\<close> and
    \<open>copyup_policy\<close> are interpreted for all of them, and \<open>au_wr_dir\<close> rests on the facts.
  \<^item> Name_Hash, Deblk, Deblk_Append, Vdir, Vdir_Merge, Vdir_Read, Vdir_Cache, Vdir_Faults (\<open>vdir.c\<close>,
    \<open>dir.h\<close>, \<open>dir.c\<close>): the tables of names, the packed blocks of entries as bytes, merging the branches,
    the caches of a directory and an open file, seeking and delivery. Dir_Empty (\<open>dir.c\<close>): the test of
    \<open>rmdir\<close> and \<open>rename\<close> for emptiness.
  \<^item> Xino, Xino_Bitmap, Xino_Table (\<open>xino.c\<close>, \<open>inode.c\<close>, \<open>export.c\<close>): inode numbers; the locale \<open>id_pool\<close>
    states what a source of fresh numbers promises.
  \<^item> Lookup, Lookup_Union, Lookup_Found, Lookup_Readdir (\<open>dentry.c\<close>, \<open>whout.c\<close>): the lookup of a name,
    its refinement of the union, and its agreement with \<open>readdir\<close>.
  \<^item> Slot_Table, Refresh_Dentry, Refresh_Inode, Refresh_Ends (\<open>dentry.c\<close>, \<open>inode.c\<close>): moving the lower
    dentries and inodes to their new indices; both loops are proved to end on one measure, in the locale
    \<open>slot_table\<close>.
  \<^item> Si_Lock (\<open>rwsem.h\<close>, \<open>super.h\<close>, \<open>sbinfo.c\<close>), Plink (\<open>plink.c\<close>): the lock of the superblock and the
    maintenance of the pseudo-links as a transition system, and the table of pseudo-links.
  \<^item> Copy_File (\<open>cpup.c\<close>): copying the data of a file, with short and interrupted calls and holes.
  \<^item> Export (\<open>export.c\<close>): handles for NFS.
  \<^item> Lower_Fs (\<open>vfsub.c\<close>): the lower file systems as an operation changes them and the wrappers of the VFS.
    Lower_Tree: what a lookup can see of them as a tree, and \<open>kern_ok\<close>, the contract of the VFS.
  \<^item> Pin (\<open>i_op.c\<close>, \<open>dentry.c\<close>): pinning the parent for a change. Whout_Ops (\<open>whout.c\<close>): making and
    removing whiteouts and the base they are linked to.
  \<^item> Lookup_Below, Unlink, Unlink_Steps, Unlink_Hides, Unlink_Example (\<open>i_op_del.c\<close>): removing an entry,
    with every way back, and what a lookup finds afterwards.
  \<^item> Opts, Opts_Parse, Opts_Faults (\<open>opts.c\<close>, \<open>opts.h\<close>): the option string of a mount. Opts_Parse shows that the
    parser and the release of the options balance their references while the array has room and no hole;
    Opts_Faults shows the two runs where it has not.
  \<^item> Rdu, Rdu_Ok, Rdu_Faults (\<open>rdu.c\<close>): reading a directory through the ioctl, with the memory of the caller.
    Fhsm (\<open>fhsm.c\<close>): watching the writes to branches. Dynop (\<open>dynop.c\<close>): the shared tables of page operations.

  \<^bold>\<open>What is shown.\<close> Unlinking hides the name and nothing else, or changes nothing that can be seen
  (Unlink_Hides), and the pin of its parent is given back on every path (Pin). The tables stay within their memory and describe one stack of branches with every
  reference counted (Branch, Branch_Ops); the union that a lookup computes is the union that \<open>readdir\<close>
  delivers, byte for byte through the packed blocks, (Vdir_Read, Vdir_Cache, Lookup_Found, Lookup_Readdir)
  and the one that \<open>rmdir\<close> tests, where no ignored whiteout names an entry after it (Dir_Empty); inode numbers are unique (Xino_Table); a change
  goes to a writable branch (Wbr_Policy); reading through the ioctl returns every entry once
  (Rdu_Ok); the shared tables of page operations are counted exactly and offer the methods they should (Dynop); the refresh loops end (Refresh_Dentry, Refresh_Ends); locks
  balance but for one exit each, which is shown (Si_Lock, Export); a handle restores what it was made of (Export). Where the code does something else than it means to, a theorem exhibits
  the run: the emptiness test and whiteouts, twice opaque directories, the overflow of a block, the
  stale branch of the most-free-space record (below), the copy that never ends, the repeated reading
  after a failed copy to the caller (Rdu_Faults), a branch unknown to the watch of writes (Fhsm), the lock kept after a
  handle of the root.

  \<^bold>\<open>Bounds and fuel.\<close> The bitmap of inode numbers has at most 131071 pages (32-bit numbers, 32768 to a
  page), so the search for a free bit is bounded by that and proved never to need more. Adding an entry
  to a merged directory allocates at most five times; theorems ask for that many answers of the oracle.
  The loops of the source with a bound of their own keep it (three temporary names, two attempts at a
  pseudo-link). The refresh loops and the copy loop have no such bound: they are
  \<open>partial_function (option)\<close>, and that they return is proved (or, for the copy of a truncated file, that
  they do not).

  \<^bold>\<open>Not modelled.\<close> The plain calls of \<open>vfsub.c\<close> (reading, writing, attributes, splice) and the work
  queue (\<open>wkq.c\<close>), memory maps, loop
  devices, extended attributes, notification, output through sysfs, debugfs and the log, ioctl
  dispatch and registration: calls into the kernel without logic of their own. Creating and renaming entries,
  revalidation, applying the options of a mount one by one, the file table, moving files down and the notification
  of changes are not modelled: they compose calls of the VFS with the modelled operations.
\<close>

section \<open>A branch that is deleted while the most-free-space record names it\<close>

lemma br_do_del_sbr:
  assumes "au_br_do_del i br oks m = Some m'" and "0 \<le> si_bend (m_sbi m)"
  shows "au_sbr (m_sbi m') (si_bend (m_sbi m)) = None"
    and "si_wbr_mfs (m_sbi m') = si_wbr_mfs (m_sbi m)"
proof -
  let ?e = "si_bend (m_sbi m)"
  have "au_br_do_del_brp i ?e (fst oks) (m_sbi m) = Some (m_sbi m')"
    using assms(1) by (auto simp: au_br_do_del_def Let_def bind_eq_Some_conv)
  then obtain moved brp where b: "arr_set moved ?e None = Some brp"
    "m_sbi m' = (m_sbi m)\<lparr>si_branch := shrink brp ?e (fst oks), si_bend := ?e - 1\<rparr>"
    by (auto simp: au_br_do_del_brp_def bind_eq_Some_conv)
  then show "au_sbr (m_sbi m') ?e = None"
    using assms(2) by (auto simp: au_sbr_def arr_get_def arr_set_def shrink_def bind_eq_None_conv
        split: if_splits)
  show "si_wbr_mfs (m_sbi m') = si_wbr_mfs (m_sbi m)" using b(2) by simp
qed

text \<open>
  C17: deleting a branch leaves the record of the most free space as it is. If that names the
  last branch and has not expired, the next \<open>au_wbr_create_mfs\<close> that finds no exception looks
  at a branch that is no longer in the table.
\<close>

theorem mfs_stale_after_branch_del:
  assumes "au_br_do_del i br oks m = Some m'" and "0 \<le> si_bend (m_sbi m)"
    and "mfs_bindex (si_wbr_mfs (m_sbi m)) = si_bend (m_sbi m)"
    and "\<not> time_after (we_jiffies env) (mfs_jiffy (si_wbr_mfs (m_sbi m)) + mfs_expire (si_wbr_mfs (m_sbi m)))"
    and "au_wbr_create_exp w (m_sbi m', mem) = Some (e, m_sbi m', mem')" and "e < 0"
  shows "au_wbr_create_mfs w env flags (m_sbi m', mem) = None"
  using assms br_do_del_sbr [OF assms(1,2)]
  by (simp add: au_wbr_create_mfs_def mfs_stale_def br_rw_def)

lemma mount_ok_mfs:
  "mount_ok (m\<lparr>m_sbi := (m_sbi m)\<lparr>si_wbr_mfs := x\<rparr>\<rparr>) = mount_ok m"
  by (simp add: mount_ok_def m_dents_def m_inos_def live_branches_def sbi_wf_def)

text \<open>The record names the second branch of the example, measured at 0 and valid for 100 jiffies.\<close>

definition measured_mount :: mount where
  "measured_mount = example_mount\<lparr>m_sbi := (m_sbi example_mount)\<lparr>si_wbr_mfs :=
     \<lparr>mfs_jiffy = 0, mfs_expire = 100, mfs_bindex = 1, mfsrr_bytes = 0, mfsrr_watermark = 0\<rparr>\<rparr>\<rparr>"

theorem mfs_stale_after_branch_del_witness:
  "\<exists>m'. au_br_do_del 0 (example_branch 1 1 100) (True, True, True) measured_mount = Some m'
    \<and> mount_ok m' \<and> au_wbr_create_mfs example_wbr example_wbr_env 0 (m_sbi m', []) = None"
proof -
  have ok: "mount_ok measured_mount"
    unfolding measured_mount_def mount_ok_mfs by (rule example_mount_ok)
  have e: "si_bend (m_sbi measured_mount) = 1" by (simp add: measured_mount_def example_mount_def)
  have "au_sbr (m_sbi measured_mount) 0 = Some (example_branch 1 1 100)"
    by (simp add: measured_mount_def example_mount_def au_sbr_def arr_get_def)
  moreover have "br_idle (m_v measured_mount) (example_branch 1 1 100)"
    by (simp add: br_idle_def example_branch_def)
  ultimately obtain m' where m': "au_br_do_del 0 (example_branch 1 1 100) (True, True, True) measured_mount = Some m'"
    "mount_ok m'"
    using au_br_do_del_ok [OF ok, of 0 _ "(True, True, True)"] e by auto
  have "au_wbr_create_exp example_wbr (m_sbi m', []) = Some (- 1, m_sbi m', [])"
    by (simp add: au_wbr_create_exp_def example_wbr_def example_dinfo_def au_dbwh_def au_dbdiropq_def
        then_nonopq_def)
  then have "au_wbr_create_mfs example_wbr example_wbr_env 0 (m_sbi m', []) = None"
    using mfs_stale_after_branch_del [OF m'(1), of example_wbr_env example_wbr "[]" "- 1" "[]" 0] e
    by (simp add: measured_mount_def example_wbr_env_def time_after_def)
  then show ?thesis using m' by blast
qed

end
